(* ===== verification/Msg_Prelude.thy ===== *)
theory Msg_Prelude
  imports Main "HOL-Library.Word"
begin

text \<open>
  Shared vocabulary of the messaging development: the machine types the code uses
  (\<open>TUint8\<close>, \<open>TInt\<close>, \<open>TInt64\<close>), the Symbian error codes, the
  result type of code that can leave or panic, and generic lemmas on lists and on words.
\<close>

unbundle bit_operations_syntax

section \<open>Machine types\<close>

type_synonym byte = "8 word"
type_synonym tint = "32 word"
type_synonym tint64 = "64 word"
type_synonym char16 = "16 word"
type_synonym string8 = "byte list"
type_synonym string16 = "char16 list"

text \<open>
  Symbian reports errors by leaving with a code (\<open>User::Leave\<close>), by storing a code
  in a member (\<open>iError\<close>), or by panicking the thread (\<open>gPanic\<close>,
  \<open>User::Invariant\<close>, out-of-range descriptor access).
\<close>

datatype symbian_error =
    KErrNone
  | KErrNotFound
  | KErrCorrupt
  | KErrTooBig
  | KErrNotSupported
  | KErrOverflow
  | KErrArgument
  | KErrGeneral
  | KErrEof
  | KErrAlreadyExists
  | KErrUnderflow
  | KErrImapCorrupt
  | KErrImapNo
  | KErrImapBad
  | KErrImapClosed
  | KErrImapFlushTimeout
  | KErrCancel
  | KErrInUse
  | KErrDisconnected
  | KErrImapCantDeleteFolder
  | KMmsErrorUnknownMessageType
  | KPanicDescriptorToSmall
  | KPanicIndex
  | KPanicNull
  | KPanicActive
  | KPanicImap

type_synonym 'a leaving = "symbian_error + 'a"

definition bind_l :: "'a leaving \<Rightarrow> ('a \<Rightarrow> 'b leaving) \<Rightarrow> 'b leaving" where
  "bind_l r f = (case r of Inl e \<Rightarrow> Inl e | Inr x \<Rightarrow> f x)"

named_theorems codec_simps \<open>defining equations of the codec steps\<close>
named_theorems word_facts \<open>facts on words that carry the bit-level proofs\<close>
named_theorems wsp_rt \<open>round trips of the WSP field codecs\<close>
named_theorems atom_inv \<open>preservation of the atom store invariant\<close>

lemma bind_l_simps [simp]:
  "bind_l (Inl e) f = Inl e"
  "bind_l (Inr x) f = f x"
  by (simp_all add: bind_l_def)

lemma bind_l_eq_Inr: "bind_l r f = Inr y \<longleftrightarrow> (\<exists>x. r = Inr x \<and> f x = Inr y)"
  by (cases r) auto

section \<open>Descriptors\<close>

text \<open>\<open>CompareF\<close> on descriptors: equality after folding each character. The fold of a character is
  a service of the platform.\<close>

definition compare_f :: "('a \<Rightarrow> 'a) \<Rightarrow> 'a list \<Rightarrow> 'a list \<Rightarrow> bool" where
  "compare_f fold_char xs ys = (map fold_char xs = map fold_char ys)"

text \<open>\<open>FindF\<close>: the first position at which the folded pattern occurs; \<open>Find\<close> is \<open>find_f id\<close>.\<close>

fun find_f :: "('a \<Rightarrow> 'a) \<Rightarrow> 'a list \<Rightarrow> 'a list \<Rightarrow> nat option" where
  "find_f f pat [] = (if pat = [] then Some 0 else None)"
| "find_f f pat (x # xs) =
     (if length pat \<le> length (x # xs) \<and> map f (take (length pat) (x # xs)) = map f pat then Some 0
      else map_option Suc (find_f f pat xs))"

text \<open>A literal descriptor \<open>_LIT8\<close>.\<close>

definition ascii :: "string \<Rightarrow> byte list" where
  "ascii s = map of_char s"

section \<open>Induction in threes\<close>

lemma triple_induct [case_names Nil One Two Three]:
  assumes "P []" and "\<And>a. P [a]" and "\<And>a b. P [a, b]"
    and "\<And>a b c xs. P xs \<Longrightarrow> P (a # b # c # xs)"
  shows "P xs"
  using assms by induction_schema (pat_completeness, lexicographic_order)

section \<open>Words\<close>

lemma uint8_less [word_facts]: "unat (b :: byte) < 256"
  using unsigned_less [of b] by simp

lemma sint_of_nat_small [word_facts]: "n < 2 ^ 31 \<Longrightarrow> sint (of_nat n :: tint) = int n"
  by (simp add: signed_of_nat signed_take_bit_int_eq_self)

lemma of_nat_pos [word_facts]: "n < 2 ^ 31 \<Longrightarrow> 0 <s (of_nat n :: tint) \<longleftrightarrow> 0 < n"
  by (simp add: word_sless_alt sint_of_nat_small)

end
