(* ===== verification/Sextets.thy ===== *)
theory Sextets
  imports Msg_Prelude
begin

text \<open>
  The 24-bit group arithmetic that \<open>TImCodecB64\<close> and \<open>TImCodecUU\<close>
  (src/email/pop3andsmtpmtm/servermtmutils/src/IMCVCODC.CPP) share: three octets are cut into
  four sextets on encoding and four sextets are joined into three octets on decoding. Both
  coders keep the last characters in an \<open>TInt\<close> that they shift left without clearing
  it; the masks make the older bits harmless, which is what the lemmas here show.
\<close>

section \<open>Masks and shifts\<close>

definition ESixBitMask :: tint where "ESixBitMask = 0x3F"
definition EEightBitMask :: tint where "EEightBitMask = 0xFF"

text \<open>\<open>(charStorage >> maskShift) & ESixBitMask\<close>, with the arithmetic right shift of a
  signed \<open>TInt\<close>.\<close>

definition sextet :: "tint \<Rightarrow> nat \<Rightarrow> tint" where
  "sextet charStorage maskShift = signed_drop_bit maskShift charStorage AND ESixBitMask"

text \<open>\<open>shiftStorage <<= 6; shiftStorage |= decodedInt; (TUint8)((shiftStorage >> maskShift)
  & EEightBitMask)\<close>.\<close>

definition octet :: "tint \<Rightarrow> tint \<Rightarrow> nat \<Rightarrow> byte" where
  "octet shiftStorage decodedInt maskShift =
     ucast (signed_drop_bit maskShift (push_bit 6 shiftStorage OR decodedInt) AND EEightBitMask)"

text \<open>\<open>charStorage = charStorage << 8; charStorage |= character\<close>.\<close>

definition shift_in :: "tint \<Rightarrow> byte \<Rightarrow> tint" where
  "shift_in charStorage character = push_bit 8 charStorage OR ucast character"

text \<open>One turn of the encoders' read step: \<open>maskShift\<close> counts the characters of the
  current group. \<open>None\<close> for the source pointer is "past the end"; \<open>Some []\<close> is
  "at the end", where the loop still runs once.\<close>

definition read_step ::
  "byte list option \<Rightarrow> tint \<Rightarrow> nat \<Rightarrow> byte list option \<times> tint \<times> nat" where
  "read_step ptr charStorage maskShift =
     (case ptr of
        None \<Rightarrow> (None, charStorage, maskShift)
      | Some rest \<Rightarrow>
          (if maskShift = 6
           then (if rest = [] then None else Some rest, charStorage, 0)
           else (case rest of
                   [] \<Rightarrow> (None, shift_in charStorage 0, maskShift + 2)
                 | c # cs \<Rightarrow> (Some cs, shift_in charStorage c, maskShift + 2))))"

lemma read_step_simps [codec_simps]:
  "read_step (Some (c # cs)) s 0 = (Some cs, shift_in s c, 2)"
  "read_step (Some (c # cs)) s 2 = (Some cs, shift_in s c, 4)"
  "read_step (Some (c # cs)) s 4 = (Some cs, shift_in s c, 6)"
  "read_step (Some []) s 0 = (None, shift_in s 0, 2)"
  "read_step (Some []) s 2 = (None, shift_in s 0, 4)"
  "read_step (Some []) s 4 = (None, shift_in s 0, 6)"
  "read_step (Some rest) s 6 = (if rest = [] then None else Some rest, s, 0)"
  by (simp_all add: read_step_def)

text \<open>The measure both encoder loops decrease.\<close>

definition read_measure :: "byte list option \<Rightarrow> nat \<Rightarrow> nat" where
  "read_measure ptr maskShift =
     (case ptr of None \<Rightarrow> 0
      | Some rest \<Rightarrow> 2 * length rest + 2 + (if maskShift = 6 then 1 else 0))"

lemma read_step_decreases:
  "read_step (Some rest) s m = (ptr', s', m') \<Longrightarrow> read_measure ptr' m' < read_measure (Some rest) m"
  by (auto simp: read_step_def read_measure_def split: if_splits list.splits option.splits)

section \<open>Bits of sextets and octets\<close>

lemma sextet_take_bit: "sextet s m = take_bit 6 (signed_drop_bit m s)"
proof -
  have "ESixBitMask = mask 6" by (simp add: ESixBitMask_def mask_eq_exp_minus_1)
  then show ?thesis by (simp add: sextet_def take_bit_eq_mask)
qed

lemma ucast_mask8: "(ucast (w AND mask 8) :: byte) = ucast (w :: tint)"
  by (rule bit_word_eqI) (simp add: bit_simps bit_mask_iff)

lemma octet_take_bit: "octet s d m = ucast (signed_drop_bit m (push_bit 6 s OR d))"
proof -
  have eq: "EEightBitMask = mask 8" by (simp add: EEightBitMask_def mask_eq_exp_minus_1)
  show ?thesis unfolding octet_def eq by (rule ucast_mask8)
qed

lemma bit_sextet [word_facts]: "bit (sextet s m) n \<longleftrightarrow> n < 6 \<and> bit (signed_drop_bit m s) n"
  by (simp add: sextet_take_bit bit_take_bit_iff)

lemma unat_sextet_less [word_facts, simp]: "unat (sextet s m) < 64"
proof -
  have "unat (sextet s m) = take_bit 6 (unat (signed_drop_bit m s))"
    by (simp add: sextet_take_bit unsigned_take_bit_eq)
  also have "\<dots> < 2 ^ 6" by (rule take_bit_nat_less_exp)
  finally show ?thesis by simp
qed

lemma byte_bits_eqI:
  assumes "\<And>n. n \<in> {0, 1, 2, 3, 4, 5, 6, 7} \<Longrightarrow> bit x n = bit (y :: byte) n"
  shows "x = y"
proof (rule bit_word_eqI)
  fix n assume "n < LENGTH(8)"
  then have "n \<in> {0, 1, 2, 3, 4, 5, 6, 7}" by auto
  then show "bit x n = bit y n" by (rule assms)
qed

section \<open>The group as a 24-bit quantity\<close>

text \<open>The reference reading of RFC 4648: three octets concatenated, cut from the top.\<close>

definition group24 :: "byte \<Rightarrow> byte \<Rightarrow> byte \<Rightarrow> tint" where
  "group24 a b c = push_bit 16 (ucast a) OR push_bit 8 (ucast b) OR ucast c"

definition group_part :: "tint \<Rightarrow> nat \<Rightarrow> tint" where
  "group_part g k = take_bit 6 (drop_bit (18 - 6 * k) g)"

lemma sextet_bits_eqI:
  assumes "\<And>n. n \<in> {0, 1, 2, 3, 4, 5} \<Longrightarrow> bit (sextet s m) n = bit (group_part g k) n"
  shows "sextet s m = group_part g k"
proof (rule bit_word_eqI)
  fix n assume "n < LENGTH(32)"
  show "bit (sextet s m) n = bit (group_part g k) n"
  proof (cases "n < 6")
    case True
    then have "n \<in> {0, 1, 2, 3, 4, 5}" by auto
    then show ?thesis by (rule assms)
  next
    case False
    then show ?thesis by (simp add: bit_sextet group_part_def bit_take_bit_iff)
  qed
qed

lemma byte_bit_beyond: "8 \<le> n \<Longrightarrow> \<not> bit (b :: byte) n"
  by (auto dest: bit_imp_le_length)

lemmas group_bits = byte_bit_beyond bit_sextet group_part_def group24_def shift_in_def bit_simps

lemma sextet_group0: "sextet (shift_in s a) 2 = group_part (group24 a b c) 0"
  by (rule sextet_bits_eqI, elim insertE) (simp_all add: group_bits)

lemma sextet_group1: "sextet (shift_in (shift_in s a) b) 4 = group_part (group24 a b c) (Suc 0)"
  by (rule sextet_bits_eqI, elim insertE) (simp_all add: group_bits)

lemma sextet_group2:
  "sextet (shift_in (shift_in (shift_in s a) b) c) 6 = group_part (group24 a b c) 2"
  by (rule sextet_bits_eqI, elim insertE) (simp_all add: group_bits)

lemma sextet_group3: "sextet (shift_in t c) 0 = group_part (group24 a b c) 3"
  by (rule sextet_bits_eqI, elim insertE) (simp_all add: group_bits)

text \<open>The four sextets the read steps of one group produce.\<close>

lemmas sextet_group = sextet_group0 sextet_group1 sextet_group2 sextet_group3

text \<open>Joining the parts of a group.\<close>

lemma octet_parts:
  "octet (group_part (group24 a b c) 0) (group_part (group24 a b c) (Suc 0)) 4 = a"
  "octet (group_part (group24 a b c) (Suc 0)) (group_part (group24 a b c) 2) 2 = b"
  "octet (group_part (group24 a b c) 2) (group_part (group24 a b c) 3) 0 = c"
  by (rule byte_bits_eqI, elim insertE; simp add: octet_take_bit group_bits)+

lemma unat_group_part_less [simp]: "unat (group_part g k) < 64"
proof -
  have "unat (group_part g k) = take_bit 6 (unat (drop_bit (18 - 6 * k) g))"
    by (simp add: group_part_def unsigned_take_bit_eq)
  also have "\<dots> < 2 ^ 6" by (rule take_bit_nat_less_exp)
  finally show ?thesis by simp
qed

text \<open>
  The contract of a MIME body or header codec (the virtual \<open>Encode\<close>/\<open>Decode\<close> pair of
  \<open>TImCodec\<close>, IMCVCODC.H) as its clients use it: decoding from the freshly initialised
  state what \<open>Encode\<close> produced for an admissible input gives the input back.
\<close>

locale mime_codec =
  fixes encode :: "byte list \<Rightarrow> byte list"
    and decode :: "'s \<Rightarrow> byte list \<Rightarrow> bool \<times> byte list \<times> 's"
    and start :: 's
    and admissible :: "byte list \<Rightarrow> bool"
  assumes decode_encode: "admissible xs \<Longrightarrow> fst (snd (decode start (encode xs))) = xs"
begin

lemma encode_inj_on: "inj_on encode {xs. admissible xs}"
  by (rule inj_onI) (metis decode_encode mem_Collect_eq)

lemma encode_eq_iff:
  "admissible xs \<Longrightarrow> admissible ys \<Longrightarrow> encode xs = encode ys \<longleftrightarrow> xs = ys"
  by (metis decode_encode)

text \<open>A body sent line by line and decoded line by line is the body.\<close>

lemma decode_lines:
  "list_all admissible ls \<Longrightarrow>
     concat (map (\<lambda>l. fst (snd (decode start (encode l)))) ls) = concat ls"
  by (induction ls) (auto simp: decode_encode)

end

end
