(* ===== verification/Codec_Base64.thy ===== *)
theory Codec_Base64
  imports Sextets
begin

text \<open>
  \<open>TImCodecB64\<close> and \<open>TImCodecB64WithLineBreaks\<close> of
  src/email/pop3andsmtpmtm/servermtmutils/src/IMCVCODC.CPP: the two tables, \<open>Decode\<close> with its
  state kept between lines, \<open>DoEncode\<close> with and without line breaks; the reference encoder of
  RFC 4648, the equivalence with it, the round trips, and the line length.
\<close>

section \<open>Tables and constants\<close>

definition AsciiToBase64 :: "tint list" where
  "AsciiToBase64 =
    [62, -1, -1, -1, 63, 52, 53, 54, 55, 56,
     57, 58, 59, 60, 61, -1, -1, -1, 64, -1,
     -1, -1,  0,  1,  2,  3,  4,  5,  6,  7,
      8,  9, 10, 11, 12, 13, 14, 15, 16, 17,
     18, 19, 20, 21, 22, 23, 24, 25, -1, -1,
     -1, -1, -1, -1, 26, 27, 28, 29, 30, 31,
     32, 33, 34, 35, 36, 37, 38, 39, 40, 41,
     42, 43, 44, 45, 46, 47, 48, 49, 50, 51]"

definition Base64ToAscii :: "byte list" where
  "Base64ToAscii =
    [65, 66, 67, 68, 69, 70, 71, 72, 73, 74,
     75, 76, 77, 78, 79, 80, 81, 82, 83, 84,
     85, 86, 87, 88, 89, 90, 97, 98, 99,100,
     101,102,103,104,105,106,107,108,109,110,
     111,112,113,114,115,116,117,118,119,120,
     121,122, 48, 49, 50, 51, 52, 53, 54, 55,
     56, 57, 43, 47, 61]"

definition KImcvConvEquals :: byte where "KImcvConvEquals = 61"
definition KMaxB64EncodedCharsPerLine :: nat where "KMaxB64EncodedCharsPerLine = 60"

text \<open>\<open>offsetChar = (TInt8)(*srcStringPtr - KImcvLookUpStartOffset)\<close>: a signed byte.\<close>

definition b64_offset :: "byte \<Rightarrow> int" where
  "b64_offset c = sint (c - 43)"

section \<open>Decode\<close>

record b64_state =
  iShiftStored :: tint
  iMaskShiftStored :: int

definition b64_init :: b64_state where
  "b64_init = \<lparr>iShiftStored = 0, iMaskShiftStored = 6\<rparr>"

definition b64_initialise :: "b64_state \<Rightarrow> b64_state" where
  "b64_initialise st = st\<lparr>iMaskShiftStored := 6\<rparr>"

text \<open>The main character loop. The first component of the result says that a PAD character
  ended it.\<close>

fun b64_decode_loop ::
  "byte list \<Rightarrow> tint \<Rightarrow> int \<Rightarrow> byte list \<Rightarrow> bool \<times> byte list \<times> tint \<times> int" where
  "b64_decode_loop [] shiftStorage maskShift dest = (False, dest, shiftStorage, maskShift)"
| "b64_decode_loop (c # cs) shiftStorage maskShift dest =
     (let offsetChar = b64_offset c in
      if 0 \<le> offsetChar \<and> offsetChar < 80 then
        let decodedInt = AsciiToBase64 ! nat offsetChar in
        if decodedInt = 64 then (True, dest, shiftStorage, maskShift)
        else if maskShift = 6 then b64_decode_loop cs decodedInt 4 dest
        else
          let decodedChar = octet shiftStorage decodedInt (nat maskShift);
              maskShift' = (if maskShift - 2 < 0 then 6 else maskShift - 2)
          in b64_decode_loop cs decodedInt maskShift' (dest @ [decodedChar])
      else b64_decode_loop cs shiftStorage maskShift dest)"

definition b64_decode :: "b64_state \<Rightarrow> byte list \<Rightarrow> bool \<times> byte list \<times> b64_state" where
  "b64_decode st src =
     (case b64_decode_loop src (iShiftStored st) (iMaskShiftStored st) [] of
        (padded, dest, shiftStorage, maskShift) \<Rightarrow>
          if padded then (False, dest, st)
          else (maskShift < 6, dest,
                st\<lparr>iShiftStored := shiftStorage, iMaskShiftStored := maskShift\<rparr>))"

section \<open>DoEncode\<close>

function b64_encode_loop ::
  "bool \<Rightarrow> byte list option \<Rightarrow> tint \<Rightarrow> nat \<Rightarrow> nat \<Rightarrow> byte list \<Rightarrow> byte list \<times> nat" where
  "b64_encode_loop aInsertLineBreaks None charStorage maskShift num dest = (dest, maskShift)"
| "b64_encode_loop aInsertLineBreaks (Some rest) charStorage maskShift num dest =
     (case read_step (Some rest) charStorage maskShift of
        (ptr', charStorage', maskShift') \<Rightarrow>
          let encodedChar = Base64ToAscii ! unat (sextet charStorage' maskShift') in
          if aInsertLineBreaks \<and> Suc num = KMaxB64EncodedCharsPerLine
          then b64_encode_loop aInsertLineBreaks ptr' charStorage' maskShift' 0
                 (dest @ [encodedChar, 13, 10])
          else b64_encode_loop aInsertLineBreaks ptr' charStorage' maskShift' (Suc num)
                 (dest @ [encodedChar]))"
  by pat_completeness auto
termination
  by (relation "measure (\<lambda>(br, ptr, s, m, n, d). read_measure ptr m)")
     (auto dest: read_step_decreases [OF sym])

text \<open>The padding after the loop; the returned pointer difference is always 1.\<close>

definition b64_do_encode :: "bool \<Rightarrow> byte list \<Rightarrow> byte list" where
  "b64_do_encode aInsertLineBreaks src =
     (case b64_encode_loop aInsertLineBreaks (Some src) 0 0 0 [] of
        (dest, maskShift) \<Rightarrow>
          if maskShift = 4 then dest @ [KImcvConvEquals, KImcvConvEquals]
          else if maskShift = 6 then dest @ [KImcvConvEquals]
          else dest)"

definition b64_encode :: "byte list \<Rightarrow> byte list" where
  "b64_encode src = b64_do_encode False src"

definition b64_encode_lines :: "byte list \<Rightarrow> byte list" where
  "b64_encode_lines src = b64_do_encode True src"

section \<open>Facts about the tables\<close>

lemma base64_tables_inverse:
  "map (\<lambda>c. AsciiToBase64 ! nat (b64_offset c)) Base64ToAscii = map of_nat [0..<65]"
  by (simp add: AsciiToBase64_def Base64ToAscii_def b64_offset_def upt_rec)

lemma base64_tables_range:
  "list_all (\<lambda>c. 0 \<le> b64_offset c \<and> b64_offset c < 80) Base64ToAscii"
  by (simp add: Base64ToAscii_def b64_offset_def)

lemma length_Base64ToAscii [simp]: "length Base64ToAscii = 65"
  by (simp add: Base64ToAscii_def)

lemma base64_alphabet_lookup:
  assumes "unat v < 64"
  shows "0 \<le> b64_offset (Base64ToAscii ! unat v)" "b64_offset (Base64ToAscii ! unat v) < 80"
    "AsciiToBase64 ! nat (b64_offset (Base64ToAscii ! unat v)) = v" "v \<noteq> 64"
proof -
  from assms base64_tables_range
  show "0 \<le> b64_offset (Base64ToAscii ! unat v)" "b64_offset (Base64ToAscii ! unat v) < 80"
    by (simp_all add: list_all_length)
  have "map (\<lambda>c. AsciiToBase64 ! nat (b64_offset c)) Base64ToAscii ! unat v
      = map of_nat [0..<65] ! unat v"
    by (simp only: base64_tables_inverse)
  with assms show "AsciiToBase64 ! nat (b64_offset (Base64ToAscii ! unat v)) = v" by simp
  show "v \<noteq> 64" using assms by auto
qed

section \<open>The reference encoder\<close>

text \<open>The alphabet of the RFC, given by its ranges and not by the table of the code: capital letters,
  small letters, digits, plus and slash.\<close>

definition b64_char :: "tint \<Rightarrow> byte" where
  "b64_char v =
     (if v < 26 then 65 + ucast v
      else if v < 52 then 97 + ucast (v - 26)
      else if v < 62 then 48 + ucast (v - 52)
      else if v = 62 then 43 else 47)"

lemma base64_table_is_rfc: "map (\<lambda>n. b64_char (of_nat n)) [0..<64] = take 64 Base64ToAscii"
  by (simp add: Base64ToAscii_def b64_char_def upt_rec)

lemma base64_table_char: "unat (v :: tint) < 64 \<Longrightarrow> Base64ToAscii ! unat v = b64_char v"
  using arg_cong [OF base64_table_is_rfc, where f = "\<lambda>xs. xs ! unat v"] by simp

fun rfc4648 :: "byte list \<Rightarrow> byte list" where
  "rfc4648 [] = []"
| "rfc4648 [a] =
     (let g = group24 a 0 0 in [b64_char (group_part g 0), b64_char (group_part g 1), 61, 61])"
| "rfc4648 [a, b] =
     (let g = group24 a b 0 in
      [b64_char (group_part g 0), b64_char (group_part g 1), b64_char (group_part g 2), 61])"
| "rfc4648 (a # b # c # xs) =
     (let g = group24 a b c in
      [b64_char (group_part g 0), b64_char (group_part g 1),
       b64_char (group_part g 2), b64_char (group_part g 3)] @ rfc4648 xs)"

definition b64_pad :: "byte list \<times> nat \<Rightarrow> byte list" where
  "b64_pad r = (case r of (dest, maskShift) \<Rightarrow>
     if maskShift = 4 then dest @ [61, 61] else if maskShift = 6 then dest @ [61] else dest)"

declare b64_encode_loop.simps(2) [simp del]
lemmas b64_encode_step = b64_encode_loop.simps(2)

text \<open>A turn whose read step is known, without line breaks.\<close>

lemma b64_encode_turn:
  "read_step (Some rest) s m = (p', s', m') \<Longrightarrow>
     b64_encode_loop False (Some rest) s m n d
       = b64_encode_loop False p' s' m' (Suc n) (d @ [b64_char (sextet s' m')])"
  by (simp add: b64_encode_step base64_table_char)

lemma b64_pad_simps [codec_simps]:
  "b64_pad (d, 0) = d" "b64_pad (d, 2) = d" "b64_pad (d, 4) = d @ [61, 61]" "b64_pad (d, 6) = d @ [61]"
  by (simp_all add: b64_pad_def)

lemma b64_do_encode_pad: "b64_do_encode br xs = b64_pad (b64_encode_loop br (Some xs) 0 0 0 [])"
  by (simp add: b64_do_encode_def b64_pad_def KImcvConvEquals_def split: prod.split)

lemma b64_loop_reference:
  "xs \<noteq> [] \<Longrightarrow> b64_pad (b64_encode_loop False (Some xs) s 0 n d) = d @ rfc4648 xs"
proof (induction xs arbitrary: s n d rule: triple_induct)
  case Nil
  then show ?case by simp
next
  case (One a)
  show ?case
    by (simp add: b64_encode_turn codec_simps Let_def
        sextet_group0 [of s a 0 0] sextet_group1 [of s a 0 0])
next
  case (Two a b)
  show ?case
    by (simp add: b64_encode_turn codec_simps Let_def
        sextet_group0 [of s a b 0] sextet_group1 [of s a b 0] sextet_group2 [of s a b 0])
next
  case (Three a b c xs)
  then show ?case
    by (cases "xs = []") (simp_all add: b64_encode_turn codec_simps Let_def
        sextet_group0 [of s a b c] sextet_group1 [of s a b c] sextet_group2 [of s a b c]
        sextet_group3 [of "shift_in (shift_in s a) b" c a b])
qed

lemma b64_encode_rfc4648: "xs \<noteq> [] \<Longrightarrow> b64_encode xs = rfc4648 xs"
  by (simp add: b64_encode_def b64_do_encode_pad b64_loop_reference)

lemma b64_encode_empty: "b64_encode [] = [65]"
  by (simp add: b64_encode_def b64_do_encode_pad b64_encode_step b64_pad_def codec_simps
      Base64ToAscii_def sextet_def shift_in_def)

section \<open>Line breaks\<close>

abbreviation (input) is_crlf :: "byte \<Rightarrow> bool" where
  "is_crlf b \<equiv> b = 13 \<or> b = 10"

lemma base64_no_crlf: "unat (v :: tint) < 64 \<Longrightarrow> \<not> is_crlf (Base64ToAscii ! unat v)"
  using base64_alphabet_lookup(1) [of v] by (auto simp: b64_offset_def)

lemma b64_loop_breaks:
  "filter (\<lambda>b. \<not> is_crlf b) (fst (b64_encode_loop br ptr s m n d))
     = fst (b64_encode_loop False ptr s m n' (filter (\<lambda>b. \<not> is_crlf b) d))
   \<and> snd (b64_encode_loop br ptr s m n d) = snd (b64_encode_loop False ptr s m n' d')"
proof (induction br ptr s m n d arbitrary: n' d' rule: b64_encode_loop.induct)
  case (1 br s m n d)
  then show ?case by simp
next
  case (2 br rest s m n d)
  obtain p' s' m' where step: "read_step (Some rest) s m = (p', s', m')"
    by (cases "read_step (Some rest) s m")
  have keep: "\<not> is_crlf (Base64ToAscii ! unat (sextet s' m'))"
    by (rule base64_no_crlf) simp
  show ?case
    using "2.IH"(1) [OF step [symmetric] refl refl] "2.IH"(2) [OF step [symmetric] refl refl] keep
    by (simp add: b64_encode_step step Let_def)
qed

lemma b64_lines_are_breaks:
  "filter (\<lambda>b. \<not> is_crlf b) (b64_encode_lines xs) = b64_encode xs"
proof -
  let ?r = "b64_encode_loop True (Some xs) 0 0 0 []" and ?q = "b64_encode_loop False (Some xs) 0 0 0 []"
  have "filter (\<lambda>b. \<not> is_crlf b) (fst ?r) = fst ?q" "snd ?r = snd ?q"
    using b64_loop_breaks [of True "Some xs" 0 0 0 "[]" 0 "[]"] by simp_all
  then show ?thesis
    by (cases ?r; cases ?q) (auto simp: b64_encode_lines_def b64_encode_def b64_do_encode_pad b64_pad_def)
qed

fun lines_ok :: "nat \<Rightarrow> nat \<Rightarrow> byte list \<Rightarrow> bool" where
  "lines_ok mx cur [] \<longleftrightarrow> cur \<le> mx"
| "lines_ok mx cur (b # bs) \<longleftrightarrow>
     (if b = 10 then cur \<le> mx \<and> lines_ok mx 0 bs
      else if b = 13 then lines_ok mx cur bs
      else lines_ok mx (Suc cur) bs)"

lemma lines_ok_weaken: "lines_ok mx cur bs \<Longrightarrow> cur \<le> mx"
  by (induction mx cur bs rule: lines_ok.induct) (auto split: if_splits)

text \<open>The column reached after a text, and the test split at an append.\<close>

fun column :: "nat \<Rightarrow> byte list \<Rightarrow> nat" where
  "column cur [] = cur"
| "column cur (b # bs) =
     (if b = 10 then column 0 bs else if b = 13 then column cur bs else column (Suc cur) bs)"

lemma column_append: "column cur (xs @ ys) = column (column cur xs) ys"
  by (induction cur xs rule: column.induct) auto

lemma lines_ok_append:
  "lines_ok mx cur (xs @ ys) \<longleftrightarrow> lines_ok mx cur xs \<and> lines_ok mx (column cur xs) ys"
  by (induction mx cur xs rule: lines_ok.induct) (auto dest: lines_ok_weaken)

lemma b64_encode_turn_lines:
  "read_step (Some rest) s m = (p', s', m') \<Longrightarrow>
     b64_encode_loop True (Some rest) s m n d =
       (if Suc n = 60 then b64_encode_loop True p' s' m' 0 (d @ [b64_char (sextet s' m'), 13, 10])
        else b64_encode_loop True p' s' m' (Suc n) (d @ [b64_char (sextet s' m')]))"
  by (simp add: b64_encode_step base64_table_char KMaxB64EncodedCharsPerLine_def)

lemma lines_ok_char:
  "lines_ok 60 0 d \<Longrightarrow> column 0 d = n \<Longrightarrow> n < 60 \<Longrightarrow> \<not> is_crlf c \<Longrightarrow>
     lines_ok 60 0 (d @ [c]) \<and> column 0 (d @ [c]) = Suc n
     \<and> lines_ok 60 0 (d @ [c, 13, 10]) \<and> column 0 (d @ [c, 13, 10]) = 0"
  by (simp add: lines_ok_append column_append)

lemma read_step_column:
  "read_step (Some rest) s m = (p', s', m') \<Longrightarrow> m = 2 * (n mod 4) \<Longrightarrow> m' = 2 * (Suc n mod 4)"
  by (auto simp: read_step_def mod_Suc split: if_splits list.splits option.splits)

lemma b64_loop_lines:
  assumes "m = 2 * (n mod 4)" "n < 60" "lines_ok 60 0 d" "column 0 d = n"
  shows "lines_ok 60 0 (b64_pad (b64_encode_loop True ptr s m n d))"
  using assms
proof (induction "read_measure ptr m" arbitrary: ptr s m n d rule: less_induct)
  case less
  show ?case
  proof (cases ptr)
    case None
    from less.prems have "n mod 4 = 2 \<longrightarrow> n + 2 \<le> 60" by presburger
    with less.prems None show ?thesis by (auto simp: b64_pad_def lines_ok_append)
  next
    case (Some rest)
    obtain p' s' m' where step: "read_step (Some rest) s m = (p', s', m')"
      by (cases "read_step (Some rest) s m")
    have small: "read_measure p' m' < read_measure ptr m"
      using read_step_decreases [OF step] Some by simp
    have m': "m' = 2 * (Suc n mod 4)" using read_step_column [OF step less.prems(1)] .
    have keep: "\<not> is_crlf (b64_char (sextet s' m'))"
      using base64_no_crlf [of "sextet s' m'"] by (simp add: base64_table_char)
    note d' = lines_ok_char [OF less.prems(3,4,2) keep]
    show ?thesis
    proof (cases "Suc n = 60")
      case True
      then have "m' = 2 * (0 mod 4)" using m' by simp
      with less.hyps [OF small this] d' True show ?thesis
        by (simp add: Some b64_encode_turn_lines [OF step])
    next
      case False
      with less.hyps [OF small m'] d' less.prems(2) show ?thesis
        by (simp add: Some b64_encode_turn_lines [OF step])
    qed
  qed
qed

lemma b64_line_length: "lines_ok KMaxB64EncodedCharsPerLine 0 (b64_encode_lines xs)"
  using b64_loop_lines [of 0 0 "[]" "Some xs" 0]
  by (simp add: b64_encode_lines_def b64_do_encode_pad KMaxB64EncodedCharsPerLine_def)

section \<open>Decoding\<close>

lemma b64_decode_crlf:
  "b64_decode_loop (filter (\<lambda>b. \<not> is_crlf b) cs) s m d = b64_decode_loop cs s m d"
  by (induction cs s m d rule: b64_decode_loop.induct)
     (auto simp: Let_def b64_offset_def)

lemma b64_decode_pad: "b64_decode_loop (61 # cs) s m d = (True, d, s, m)"
  by (simp add: b64_offset_def AsciiToBase64_def)

lemma b64_decode_char:
  assumes "unat v < 64"
  shows "b64_decode_loop (b64_char v # cs) s m d =
    (if m = 6 then b64_decode_loop cs v 4 d
     else b64_decode_loop cs v (if m - 2 < 0 then 6 else m - 2) (d @ [octet s v (nat m)]))"
  using base64_alphabet_lookup [OF assms] by (simp add: base64_table_char assms Let_def)

declare b64_decode_loop.simps(2) [simp del]

lemma b64_decode_reference:
  "fst (snd (b64_decode_loop (rfc4648 xs) s 6 d)) = d @ xs
   \<and> (fst (b64_decode_loop (rfc4648 xs) s 6 d)
      \<or> snd (snd (snd (b64_decode_loop (rfc4648 xs) s 6 d))) = 6)"
proof (induction xs arbitrary: s d rule: triple_induct)
  case (Three a b c xs)
  show ?case
    using Three [of "group_part (group24 a b c) 3" "d @ [a, b, c]"]
    by (simp add: Let_def b64_decode_char octet_parts)
qed (simp_all add: Let_def b64_decode_char b64_decode_pad octet_parts)

lemma b64_decode_single: "b64_decode_loop [65] 0 6 [] = (False, [], 0, 4)"
  by (simp add: b64_decode_loop.simps(2) b64_offset_def AsciiToBase64_def)

lemma b64_decode_out: "fst (snd (b64_decode b64_init src)) = fst (snd (b64_decode_loop src 0 6 []))"
  by (simp add: b64_decode_def b64_init_def split: prod.split)

lemma b64_roundtrip: "fst (snd (b64_decode b64_init (b64_encode xs))) = xs"
proof (cases "xs = []")
  case True
  then show ?thesis by (simp add: b64_decode_out b64_encode_empty b64_decode_single)
next
  case False
  then show ?thesis
    using b64_decode_reference [of xs 0 "[]"] by (simp add: b64_decode_out b64_encode_rfc4648)
qed

lemma b64_lines_roundtrip: "fst (snd (b64_decode b64_init (b64_encode_lines xs))) = xs"
proof -
  have "b64_decode_loop (b64_encode xs) 0 6 [] = b64_decode_loop (b64_encode_lines xs) 0 6 []"
    using b64_decode_crlf [of "b64_encode_lines xs" 0 6 "[]"] unfolding b64_lines_are_breaks .
  with b64_roundtrip [of xs] show ?thesis by (simp add: b64_decode_out)
qed

text \<open>The result flag asks for more input only when the encoded text was that of no data.\<close>

lemma b64_roundtrip_flag: "xs \<noteq> [] \<Longrightarrow> \<not> fst (b64_decode b64_init (b64_encode xs))"
  using b64_decode_reference [of xs 0 "[]"]
  by (auto simp: b64_decode_def b64_init_def b64_encode_rfc4648 split: prod.splits)

section \<open>Decoding in chunks\<close>

lemma ascii_to_base64_pad:
  "list_all (\<lambda>k. AsciiToBase64 ! k = 64 \<longrightarrow> k = 18) [0..<80]"
  by (simp add: AsciiToBase64_def upt_rec)

lemma word_61: "(18 :: byte) + 43 = 61"
  by simp

lemma b64_pad_char:
  assumes "0 \<le> b64_offset c" "b64_offset c < 80" "AsciiToBase64 ! nat (b64_offset c) = 64"
  shows "c = 61"
proof -
  from assms(1,2) have "nat (b64_offset c) \<in> set [0..<80]" by auto
  with ascii_to_base64_pad assms(3) have "nat (b64_offset c) = 18"
    by (simp only: list_all_iff)
  with assms(1) have "sint (c - 43) = sint (18 :: byte)" by (simp add: b64_offset_def)
  then have "c - 43 = 18" by (rule signed_word_eqI)
  then show ?thesis by (simp only: diff_eq_eq word_61)
qed

lemma b64_decode_not_padded:
  "61 \<notin> set cs \<Longrightarrow> \<not> fst (b64_decode_loop cs s m d)"
  by (induction cs s m d rule: b64_decode_loop.induct)
     (auto simp: Let_def b64_decode_loop.simps(2) dest: b64_pad_char)

lemma b64_decode_append:
  "b64_decode_loop (xs @ ys) s m d =
     (case b64_decode_loop xs s m d of
        (p, d', s', m') \<Rightarrow> if p then (p, d', s', m') else b64_decode_loop ys s' m' d')"
  by (induction xs s m d rule: b64_decode_loop.induct)
     (auto simp: Let_def b64_decode_loop.simps(2))

lemma b64_decode_dest:
  "b64_decode_loop cs s m (d @ e) =
     (case b64_decode_loop cs s m e of (p, d', s', m') \<Rightarrow> (p, d @ d', s', m'))"
  by (induction cs s m e rule: b64_decode_loop.induct) (auto simp: Let_def b64_decode_loop.simps(2))

lemma b64_decode_chunks:
  assumes "61 \<notin> set xs"
  shows "b64_decode st (xs @ ys) =
    (case b64_decode st xs of (_, o1, st1) \<Rightarrow>
       case b64_decode st1 ys of (r, o2, st2) \<Rightarrow>
         (r, o1 @ o2, if fst (b64_decode_loop ys (iShiftStored st1) (iMaskShiftStored st1) [])
                      then st else st2))"
proof -
  obtain o1 s1 m1 where x:
    "b64_decode_loop xs (iShiftStored st) (iMaskShiftStored st) [] = (False, o1, s1, m1)"
    using b64_decode_not_padded [OF assms, of "iShiftStored st" "iMaskShiftStored st" "[]"]
    by (cases "b64_decode_loop xs (iShiftStored st) (iMaskShiftStored st) []") auto
  obtain p o2 s2 m2 where y: "b64_decode_loop ys s1 m1 [] = (p, o2, s2, m2)"
    by (cases "b64_decode_loop ys s1 m1 []")
  have "b64_decode_loop ys s1 m1 o1 = (p, o1 @ o2, s2, m2)"
    using b64_decode_dest [of ys s1 m1 o1 "[]"] by (simp add: y)
  then show ?thesis by (simp add: b64_decode_def b64_decode_append x y)
qed

section \<open>Length, and the codec contract\<close>

lemma rfc4648_length: "length (rfc4648 xs) = 4 * ((length xs + 2) div 3)"
proof (induction xs rule: triple_induct)
  case (Three a b c xs)
  have "(length (a # b # c # xs) + 2) div 3 = Suc ((length xs + 2) div 3)" by simp
  with Three show ?case by (simp only: rfc4648.simps Let_def length_append) simp
qed (simp_all add: Let_def)

interpretation b64: mime_codec b64_encode b64_decode b64_init "\<lambda>_. True"
  by unfold_locales (rule b64_roundtrip)

interpretation b64_lines: mime_codec b64_encode_lines b64_decode b64_init "\<lambda>_. True"
  by unfold_locales (rule b64_lines_roundtrip)

lemma b64_invalid_not_skipped:
  "fst (snd (b64_decode b64_init [81, 85, 45, 74, 68])) \<noteq> fst (snd (b64_decode b64_init [81, 85, 74, 68]))"
  by (simp add: b64_decode_def b64_init_def b64_decode_loop.simps(2) b64_offset_def AsciiToBase64_def octet_def EEightBitMask_def)

end
