(* ===== verification/Codec_UU.thy ===== *)
theory Codec_UU
  imports Sextets
begin

text \<open>
  \<open>TImCodecUU\<close> of src/email/pop3andsmtpmtm/servermtmutils/src/IMCVCODC.CPP: one line of
  uuencoded text decoded with its length character, the encoder that starts a line every 45
  octets, the prefix and postfix lines; no read past the end of a line, the round trip of a
  line, and the cutting of a body into lines.
\<close>

definition KMaxUUUnEncodedCharsPerLine :: nat where "KMaxUUUnEncodedCharsPerLine = 45"
definition KMaxUUEncodedCharsPerLine :: nat where "KMaxUUEncodedCharsPerLine = 60"

section \<open>Decode\<close>

text \<open>A read past the end of the source is \<open>KPanicIndex\<close>; \<open>True\<close> in the result is the
  code's \<open>ETrue\<close>: line too short or invalid character. The capacity of the descriptor the caller
  passes for the result is not modelled: the output only grows.\<close>

fun uu_decode_loop ::
  "byte list \<Rightarrow> int \<Rightarrow> nat \<Rightarrow> nat \<Rightarrow> tint \<Rightarrow> byte list \<Rightarrow> (bool \<times> byte list) leaving" where
  "uu_decode_loop src numEncChrs numDecChrs maskShift shiftStorage dest =
     (if int numDecChrs < numEncChrs then
        (case src of
           [] \<Rightarrow> Inl KPanicIndex
         | c # cs \<Rightarrow>
             if c < 32 \<or> 96 < c then Inr (True, dest)
             else
               let character = ucast ((if c = 96 then 32 else c) - 32) in
               if maskShift = 6
               then uu_decode_loop cs numEncChrs numDecChrs 4 character dest
               else uu_decode_loop cs numEncChrs (Suc numDecChrs)
                      (if maskShift = 0 then 6 else maskShift - 2) character
                      (dest @ [octet shiftStorage character maskShift]))
      else Inr (False, dest))"

definition uu_decode :: "byte list \<Rightarrow> (bool \<times> byte list) leaving" where
  "uu_decode src =
     (case src of
        [] \<Rightarrow> Inl KPanicIndex
      | c # cs \<Rightarrow>
          let numEncChrs = uint c - 32 in
          if numEncChrs * 4 > (int (length src) - 1) * 3 then Inr (True, [])
          else uu_decode_loop cs numEncChrs 0 6 0 [])"

section \<open>Encode\<close>

definition uu_char :: "tint \<Rightarrow> byte" where
  "uu_char v = (let encodedChar = ucast v + 32 in if encodedChar = 32 then 96 else encodedChar)"

definition uu_length_char :: "nat \<Rightarrow> byte" where
  "uu_length_char remaining =
     (if remaining < KMaxUUUnEncodedCharsPerLine then of_nat remaining + 32
      else of_nat KMaxUUUnEncodedCharsPerLine + 32)"

function uu_encode_loop ::
  "byte list option \<Rightarrow> tint \<Rightarrow> nat \<Rightarrow> nat \<Rightarrow> byte list \<Rightarrow> byte list" where
  "uu_encode_loop None charStorage maskShift num dest = dest"
| "uu_encode_loop (Some rest) charStorage maskShift num dest =
     (let dest1 = (if num = 0 then dest @ [uu_length_char (length rest)] else dest) in
      case read_step (Some rest) charStorage maskShift of
        (ptr', charStorage', maskShift') \<Rightarrow>
          let dest2 = dest1 @ [uu_char (sextet charStorage' maskShift')] in
          if Suc num = KMaxUUEncodedCharsPerLine
          then uu_encode_loop ptr' charStorage' maskShift' 0 (dest2 @ [13, 10])
          else uu_encode_loop ptr' charStorage' maskShift' (Suc num) dest2)"
  by pat_completeness auto
termination
  by (relation "measure (\<lambda>(ptr, s, m, n, d). read_measure ptr m)")
     (auto dest: read_step_decreases [OF sym])

definition uu_encode :: "byte list \<Rightarrow> byte list" where
  "uu_encode src = uu_encode_loop (Some src) 0 0 0 []"

section \<open>Prefix and postfix lines\<close>

text \<open>\<open>PostfixNextLine\<close>: the line, the next \<open>iPostfixState\<close>, the padding count and whether
  \<open>KImAttFinished\<close> is returned.\<close>

definition EInvertedComma :: nat where "EInvertedComma = 0"
definition EEndString :: nat where "EEndString = 1"
definition EEndOfPostfix :: nat where "EEndOfPostfix = 2"

definition uu_postfix_next :: "nat \<Rightarrow> byte list \<Rightarrow> byte list \<times> nat \<times> nat \<times> bool" where
  "uu_postfix_next iPostfixState rOutputLine =
     (let line = (if iPostfixState = EInvertedComma then rOutputLine @ [96]
                  else if iPostfixState = EEndString then [101, 110, 100, 13, 10]
                  else rOutputLine);
          next' = Suc iPostfixState
      in (line, next', length line, next' = EEndOfPostfix))"

text \<open>\<open>PrefixNextLineL\<close> with \<open>AppendFilenameL\<close>: \<open>begin 644 \<close> and the name, each 16-bit
  character copied to 8 bits.\<close>

definition uu_prefix :: "byte list \<Rightarrow> 16 word list \<Rightarrow> byte list" where
  "uu_prefix rOutputLine aName =
     rOutputLine @ [98, 101, 103, 105, 110, 32] @ [54, 52, 52] @ [32] @ map ucast aName"

section \<open>No read past the end\<close>

declare uu_decode_loop.simps [simp del]

text \<open>Characters still needed to produce \<open>r\<close> octets in each phase of a group.\<close>

definition uu_need :: "nat \<Rightarrow> nat \<Rightarrow> nat" where
  "uu_need m r =
     r + (if m = 6 then (r + 2) div 3 else if m = 4 then (r - 1) div 3
          else if m = 2 then r div 3 else (r + 1) div 3)"

lemma uu_decode_loop_safe:
  "uu_need m (nat (num - int dec)) \<le> length src \<Longrightarrow> m \<in> {0, 2, 4, 6} \<Longrightarrow>
     \<not> isl (uu_decode_loop src num dec m s d)"
proof (induction src num dec m s d rule: uu_decode_loop.induct)
  case (1 src num dec m s d)
  show ?case
  proof (cases "int dec < num")
    case False
    then show ?thesis by (simp add: uu_decode_loop.simps)
  next
    case True
    obtain r where r: "nat (num - int dec) = Suc r"
      using True by (metis diff_gt_0_iff_gt not0_implies_Suc zero_less_nat_eq neq0_conv)
    then have r': "nat (num - int (Suc dec)) = r" by simp
    from "1.prems"(1) r obtain c cs where src: "src = c # cs"
      by (cases src) (auto simp: uu_need_def)
    have more: "m = 6 \<Longrightarrow> uu_need 4 (nat (num - int dec)) \<le> length cs"
      "m \<noteq> 6 \<Longrightarrow> uu_need (if m = 0 then 6 else m - 2) (nat (num - int (Suc dec))) \<le> length cs"
      using "1.prems" unfolding src r r' by (auto simp: uu_need_def)
    show ?thesis
      using "1.IH"(1) [OF True src _ refl _ more(1)] "1.IH"(2) [OF True src _ refl _ more(2)] "1.prems"(2)
      by (subst uu_decode_loop.simps) (auto simp: True src Let_def)
  qed
qed

lemma uu_decode_safe:
  assumes "src \<noteq> []"
  shows "\<not> isl (uu_decode src)"
proof -
  obtain c cs where src: "src = c # cs" using assms by (cases src) auto
  show ?thesis
  proof (cases "(uint c - 32) * 4 > (int (length src) - 1) * 3")
    case True
    then show ?thesis by (simp add: uu_decode_def src Let_def)
  next
    case False
    then have "nat (uint c - 32 - int 0) * 4 \<le> length cs * 3" by (simp add: src)
    then have "uu_need 6 (nat (uint c - 32 - int 0)) \<le> length cs"
      unfolding uu_need_def by simp
    then have "\<not> isl (uu_decode_loop cs (uint c - 32) 0 6 0 [])"
      by (rule uu_decode_loop_safe) simp
    with False show ?thesis by (simp add: uu_decode_def src Let_def)
  qed
qed

lemma uu_decode_loop_length:
  "uu_decode_loop src num dec m s d = Inr (False, out) \<Longrightarrow> int dec \<le> max 0 num \<Longrightarrow>
     int (length out) - int (length d) = max 0 num - int dec"
proof (induction src num dec m s d rule: uu_decode_loop.induct)
  case (1 src num dec m s d)
  show ?case
    using 1 by (subst (asm) uu_decode_loop.simps)
      (auto simp: Let_def split: if_splits list.splits)
qed

lemma uu_decode_length:
  "uu_decode src = Inr (False, out) \<Longrightarrow> length out = nat (uint (hd src) - 32)"
  by (auto simp: uu_decode_def Let_def split: list.splits if_splits dest!: uu_decode_loop_length)

section \<open>The text of a line\<close>

fun uu_body :: "byte list \<Rightarrow> byte list" where
  "uu_body [] = []"
| "uu_body [a] =
     (let g = group24 a 0 0 in [uu_char (group_part g 0), uu_char (group_part g 1)])"
| "uu_body [a, b] =
     (let g = group24 a b 0 in
      [uu_char (group_part g 0), uu_char (group_part g 1), uu_char (group_part g 2)])"
| "uu_body (a # b # c # xs) =
     (let g = group24 a b c in
      [uu_char (group_part g 0), uu_char (group_part g 1),
       uu_char (group_part g 2), uu_char (group_part g 3)] @ uu_body xs)"

declare uu_encode_loop.simps(2) [simp del]

lemma uu_encode_turn:
  "read_step (Some rest) s m = (p', s', m') \<Longrightarrow>
     uu_encode_loop (Some rest) s m n d =
       (let d2 = (if n = 0 then d @ [uu_length_char (length rest)] else d) @ [uu_char (sextet s' m')]
        in if Suc n = 60 then uu_encode_loop p' s' m' 0 (d2 @ [13, 10])
           else uu_encode_loop p' s' m' (Suc n) d2)"
  by (simp add: uu_encode_loop.simps(2) KMaxUUEncodedCharsPerLine_def Let_def)

definition uu_head :: "nat \<Rightarrow> byte list \<Rightarrow> byte list" where
  "uu_head n xs = (if n = 0 then [uu_length_char (length xs)] else [])"

definition uu_eol :: "nat \<Rightarrow> byte list" where
  "uu_eol n = (if n = 60 then [13, 10] else [])"

lemma uu_body_length_le: "length (uu_body xs) \<le> 4 * ((length xs + 2) div 3)"
proof (induction xs rule: triple_induct)
  case (Three a b c xs)
  have "(length (a # b # c # xs) + 2) div 3 = Suc ((length xs + 2) div 3)" by simp
  with Three show ?case by (simp only: uu_body.simps Let_def length_append) simp
qed (simp_all add: Let_def)

lemma uu_body_nonempty: "xs \<noteq> [] \<Longrightarrow> 2 \<le> length (uu_body xs)"
  by (cases xs rule: uu_body.cases) (simp_all add: Let_def)

text \<open>One line: the head, the body, and the line end exactly when the line is full.\<close>

lemma uu_loop_line:
  "xs \<noteq> [] \<Longrightarrow> n + length (uu_body xs) \<le> 60 \<Longrightarrow> n mod 4 = 0 \<Longrightarrow>
     uu_encode_loop (Some xs) s 0 n d = d @ uu_head n xs @ uu_body xs @ uu_eol (n + length (uu_body xs))"
proof (induction xs arbitrary: s n d rule: triple_induct)
  case (One a)
  then have "n + 2 < 60" by (simp add: Let_def) presburger
  then show ?case
    by (simp add: uu_encode_turn codec_simps Let_def uu_head_def uu_eol_def
        sextet_group0 [of s a 0 0] sextet_group1 [of s a 0 0])
next
  case (Two a b)
  then have "n + 3 < 60" by (simp add: Let_def) presburger
  then show ?case
    by (simp add: uu_encode_turn codec_simps Let_def uu_head_def uu_eol_def
        sextet_group0 [of s a b 0] sextet_group1 [of s a b 0] sextet_group2 [of s a b 0])
next
  case (Three a b c xs)
  let ?n = "Suc (Suc (Suc (Suc n)))" and ?s = "shift_in (shift_in (shift_in s a) b) c"
  from Three.prems(2) have le: "?n + length (uu_body xs) \<le> 60" by (simp add: Let_def)
  note turn = uu_encode_turn codec_simps Let_def
    sextet_group0 [of s a b c] sextet_group1 [of s a b c] sextet_group2 [of s a b c]
    sextet_group3 [of "shift_in (shift_in s a) b" c a b]
  show ?case
  proof (cases "xs = []")
    case True
    with le show ?thesis by (simp add: turn uu_head_def uu_eol_def)
  next
    case False
    with le uu_body_nonempty [of xs] have lt: "?n < 60" by simp
    have "?n mod 4 = 0" using Three.prems(3) by presburger
    with Three.IH [of ?n ?s, OF False le] lt False show ?thesis
      by (simp add: turn uu_head_def)
  qed
qed simp

lemma uu_line:
  assumes "xs \<noteq> []" "length xs \<le> 45"
  shows "uu_encode_loop (Some xs) s 0 0 d
    = d @ uu_length_char (length xs) # uu_body xs @ uu_eol (length (uu_body xs))"
proof -
  have "4 * ((length xs + 2) div 3) \<le> 60" using assms(2) by simp
  with uu_body_length_le [of xs] have "0 + length (uu_body xs) \<le> 60" by (simp only: add_0)
  from uu_loop_line [OF assms(1) this, of s d] show ?thesis by (simp add: uu_head_def)
qed

section \<open>Round trip of a line\<close>

lemma uu_char_cases:
  assumes "unat (v :: tint) < 64"
  shows "32 < uu_char v \<and> uu_char v \<le> 96 \<and> ucast ((if uu_char v = 96 then 32 else uu_char v) - 32) = v"
proof -
  have u: "unat (ucast v + 32 :: byte) = unat v + 32"
    using assms by (simp add: unat_word_ariths unsigned_ucast_eq take_bit_eq_mod)
  have inv: "ucast (ucast v :: byte) = v"
    using assms by (simp add: word_unat_eq_iff unat_mod_distrib unsigned_ucast_eq take_bit_eq_mod)
  show ?thesis
  proof (cases "v = 0")
    case True
    then show ?thesis by (simp add: uu_char_def)
  next
    case False
    then have "0 < unat v" by (simp add: unat_gt_0)
    with u assms have "ucast v + 32 \<noteq> (32 :: byte)" "ucast v + 32 \<noteq> (96 :: byte)"
      by (auto simp: word_unat_eq_iff)
    then show ?thesis
      using u assms \<open>0 < unat v\<close> inv
      by (simp add: uu_char_def Let_def word_less_nat_alt word_le_nat_alt)
  qed
qed

lemma uu_decode_char:
  assumes "unat v < 64"
  shows "uu_decode_loop (uu_char v # cs) num dec m s d =
    (if int dec < num then
       if m = 6 then uu_decode_loop cs num dec 4 v d
       else uu_decode_loop cs num (Suc dec) (if m = 0 then 6 else m - 2) v (d @ [octet s v m])
     else Inr (False, d))"
  using uu_char_cases [OF assms]
  by (subst uu_decode_loop.simps) (auto simp: Let_def not_less)

lemma uu_decode_done: "num \<le> int dec \<Longrightarrow> uu_decode_loop cs num dec m s d = Inr (False, d)"
  by (simp add: uu_decode_loop.simps)

lemma uu_decode_body:
  "num = int dec + int (length xs) \<Longrightarrow>
     uu_decode_loop (uu_body xs @ cs) num dec 6 s d = Inr (False, d @ xs)"
proof (induction xs arbitrary: s dec d rule: triple_induct)
  case (Three a b c xs)
  show ?case
    using Three.IH [of "Suc (Suc (Suc dec))" "group_part (group24 a b c) 3" "d @ [a, b, c]"] Three.prems
    by (simp add: Let_def uu_decode_char octet_parts)
qed (simp_all add: Let_def uu_decode_char uu_decode_done octet_parts)

lemma uu_length_char_uint: "n \<le> 45 \<Longrightarrow> uint (uu_length_char n) - 32 = int n"
proof -
  assume "n \<le> 45"
  then have "n \<in> set [0..<46]" by simp
  moreover have "list_all (\<lambda>n. uint (uu_length_char n) - 32 = int n) [0..<46]"
    by (simp add: upt_rec uu_length_char_def KMaxUUUnEncodedCharsPerLine_def)
  ultimately show ?thesis by (simp only: list_all_iff)
qed

lemma uu_body_length_ge: "4 * length xs \<le> 3 * length (uu_body xs)"
  by (induction xs rule: triple_induct) (simp_all add: Let_def)

lemma uu_roundtrip:
  assumes "length xs \<le> KMaxUUUnEncodedCharsPerLine"
  shows "uu_decode (uu_encode xs) = Inr (False, xs)"
proof (cases "xs = []")
  case True
  then show ?thesis
    by (simp add: uu_encode_def uu_encode_turn codec_simps uu_decode_def uu_length_char_def
        KMaxUUUnEncodedCharsPerLine_def uu_decode_done Let_def)
next
  case False
  have le: "length xs \<le> 45" using assms by (simp add: KMaxUUUnEncodedCharsPerLine_def)
  show ?thesis
    using uu_body_length_ge [of xs] uu_decode_body [of "int (length xs)" 0 xs _ 0 "[]"]
    by (simp add: uu_encode_def uu_line [OF False le] uu_decode_def Let_def uu_length_char_uint [OF le])
qed

section \<open>A body is cut into lines\<close>

lemma uu_loop_storage:
  "uu_encode_loop (Some xs) s 0 n d = uu_encode_loop (Some xs) 0 0 n d"
proof (induction "length xs" arbitrary: xs s n d rule: less_induct)
  case less
  note turn = uu_encode_turn codec_simps Let_def
  show ?case
  proof (cases xs rule: uu_body.cases)
    case 1
    then show ?thesis by (simp add: turn sextet_group0 [of _ 0 0 0])
  next
    case (2 a)
    then show ?thesis by (simp add: turn sextet_group0 [of _ a 0 0] sextet_group1 [of _ a 0 0])
  next
    case (3 a b)
    then show ?thesis
      by (simp add: turn sextet_group0 [of _ a b 0] sextet_group1 [of _ a b 0] sextet_group2 [of _ a b 0])
  next
    case (4 a b c ys)
    have ih: "uu_encode_loop (Some ys) s' 0 k e = uu_encode_loop (Some ys) s'' 0 k e" for s' s'' k e
      using less.hyps [of ys s' k e] less.hyps [of ys s'' k e] by (simp add: 4)
    have one: "uu_encode_loop (if ys = [] then None else Some ys) s' 0 k e
        = uu_encode_loop (if ys = [] then None else Some ys) s'' 0 k e" for s' s'' k e
      using ih [of s' k e s''] by simp
    show ?thesis
      by (simp add: 4 turn sextet_group0 [of _ a b c] sextet_group1 [of _ a b c] sextet_group2 [of _ a b c]
          sextet_group3 [of _ c a b] one [of "shift_in (shift_in (shift_in s a) b) c" _ _
            "shift_in (shift_in (shift_in 0 a) b) c"])
  qed
qed

lemma uu_loop_full_line:
  "xs \<noteq> [] \<Longrightarrow> ys \<noteq> [] \<Longrightarrow> length xs mod 3 = 0 \<Longrightarrow> n + length (uu_body xs) = 60 \<Longrightarrow> n mod 4 = 0 \<Longrightarrow>
     uu_encode_loop (Some (xs @ ys)) s 0 n d
       = uu_encode_loop (Some ys) 0 0 0 (d @ uu_head n (xs @ ys) @ uu_body xs @ [13, 10])"
proof (induction xs arbitrary: s n d rule: triple_induct)
  case (Three a b c xs)
  let ?n = "Suc (Suc (Suc (Suc n)))" and ?s = "shift_in (shift_in (shift_in s a) b) c"
  note turn = uu_encode_turn codec_simps Let_def uu_head_def
    sextet_group0 [of s a b c] sextet_group1 [of s a b c] sextet_group2 [of s a b c]
    sextet_group3 [of "shift_in (shift_in s a) b" c a b]
  from Three.prems(4) have le: "?n + length (uu_body xs) = 60" by (simp add: Let_def)
  show ?case
  proof (cases "xs = []")
    case True
    with le Three.prems(2) show ?thesis by (simp add: turn uu_loop_storage [of ys ?s])
  next
    case False
    with le uu_body_nonempty [of xs] have lt: "?n < 60" by simp
    have "?n mod 4 = 0" using Three.prems(5) by presburger
    moreover have "length xs mod 3 = 0" using Three.prems(3) by (simp add: mod_Suc split: if_splits)
    ultimately have "uu_encode_loop (Some (xs @ ys)) ?s 0 ?n e
        = uu_encode_loop (Some ys) 0 0 0 (e @ uu_body xs @ [13, 10])" for e
      using Three.IH [OF False Three.prems(2) _ le, of ?s e] by (simp add: uu_head_def)
    with lt False show ?thesis by (simp add: turn)
  qed
qed simp_all

lemma uu_loop_prefix: "uu_encode_loop ptr s m n (d @ e) = d @ uu_encode_loop ptr s m n e"
proof (induction ptr s m n e rule: uu_encode_loop.induct)
  case (2 rest s m n e)
  obtain p' s' m' where step: "read_step (Some rest) s m = (p', s', m')"
    by (cases "read_step (Some rest) s m")
  show ?case
    using "2.IH"(1) [OF refl step [symmetric] refl refl] "2.IH"(2) [OF refl step [symmetric] refl refl]
    by (cases "n = 0") (simp_all add: uu_encode_turn [OF step] Let_def KMaxUUEncodedCharsPerLine_def)
qed simp

lemma uu_body_length_eq: "length xs mod 3 = 0 \<Longrightarrow> 3 * length (uu_body xs) = 4 * length xs"
proof (induction xs rule: triple_induct)
  case (Three a b c xs)
  then have "length xs mod 3 = 0" by (simp add: mod_Suc split: if_splits)
  with Three show ?case by (simp add: Let_def)
qed simp_all

lemma uu_encode_append:
  assumes "length xs = 45" "ys \<noteq> []"
  shows "uu_encode (xs @ ys) = uu_encode xs @ uu_encode ys"
proof -
  have xs: "xs \<noteq> []" "length xs mod 3 = 0" using assms(1) by auto
  have len: "length (uu_body xs) = 60" using uu_body_length_eq [OF xs(2)] assms(1) by simp
  have "uu_length_char (length (xs @ ys)) = uu_length_char (length xs)"
    using assms(1) by (simp add: uu_length_char_def KMaxUUUnEncodedCharsPerLine_def)
  then have "uu_encode (xs @ ys) = uu_encode_loop (Some ys) 0 0 0 (uu_encode xs)"
    using uu_loop_full_line [OF xs(1) assms(2) xs(2), of 0 0 "[]"] len assms(1)
    by (simp add: uu_encode_def uu_line [OF xs(1)] uu_head_def uu_eol_def)
  then show ?thesis using uu_loop_prefix [of "Some ys" 0 0 0 "uu_encode xs" "[]"] by (simp add: uu_encode_def)
qed

fun uu_chunks :: "byte list \<Rightarrow> byte list list" where
  "uu_chunks xs = (if length xs \<le> 45 then [xs] else take 45 xs # uu_chunks (drop 45 xs))"

declare uu_chunks.simps [simp del]

lemma uu_encode_lines: "uu_encode xs = concat (map uu_encode (uu_chunks xs))"
proof (induction xs rule: uu_chunks.induct)
  case (1 xs)
  show ?case
  proof (cases "length xs \<le> 45")
    case True
    then show ?thesis by (simp add: uu_chunks.simps [of xs])
  next
    case False
    have "uu_encode (take 45 xs @ drop 45 xs) = uu_encode (take 45 xs) @ uu_encode (drop 45 xs)"
      by (rule uu_encode_append) (use False in auto)
    with 1 [OF False] False show ?thesis by (simp add: uu_chunks.simps [of xs])
  qed
qed

lemma uu_chunks_admissible: "list_all (\<lambda>l. length l \<le> KMaxUUUnEncodedCharsPerLine) (uu_chunks xs)"
  by (induction xs rule: uu_chunks.induct)
     (subst uu_chunks.simps, auto simp: KMaxUUUnEncodedCharsPerLine_def)

lemma concat_uu_chunks: "concat (uu_chunks xs) = xs"
  by (induction xs rule: uu_chunks.induct) (subst uu_chunks.simps, simp)

section \<open>The codec contract\<close>

definition uu_decode_line :: "unit \<Rightarrow> byte list \<Rightarrow> bool \<times> byte list \<times> unit" where
  "uu_decode_line st src = (case uu_decode src of Inl e \<Rightarrow> (True, [], st) | Inr (r, d) \<Rightarrow> (r, d, st))"

interpretation uu: mime_codec uu_encode uu_decode_line "()"
  "\<lambda>xs. length xs \<le> KMaxUUUnEncodedCharsPerLine"
  by unfold_locales (simp add: uu_decode_line_def uu_roundtrip)

lemma uu_body_roundtrip:
  "concat (map (\<lambda>l. fst (snd (uu_decode_line () (uu_encode l)))) (uu_chunks xs)) = xs"
  using uu.decode_lines [OF uu_chunks_admissible, of xs] by (simp add: concat_uu_chunks)

end
