(* ===== verification/Codec_QP.thy ===== *)
theory Codec_QP
  imports Sextets
begin

text \<open>
  \<open>TImCodecQP\<close> of src/email/pop3andsmtpmtm/servermtmutils: the character classes
  (inc/IMCVCODC.INL), \<open>SmartBreak\<close>, \<open>Encode\<close> (one output line per call, with the descriptor
  capacity assertions) and \<open>Decode\<close> (src/IMCVCODC.CPP). Shown: what \<open>Encode\<close> consumed is what
  \<open>Decode\<close> gives back, the length of an encoded line, and that no assertion fires in a line
  buffer.
\<close>

section \<open>Characters\<close>

record qp_codec =
  iQPCharacter :: byte
  iPlainCharList :: "byte list"
  iEncodeCharList :: "byte list"

definition qp_default :: qp_codec where
  "qp_default = \<lparr>iQPCharacter = 61, iPlainCharList = [], iEncodeCharList = []\<rparr>"

definition qp_add_plain_char :: "qp_codec \<Rightarrow> byte list \<Rightarrow> qp_codec" where
  "qp_add_plain_char q cs = q\<lparr>iPlainCharList := cs\<rparr>"

definition qp_add_encode_char :: "qp_codec \<Rightarrow> byte list \<Rightarrow> qp_codec" where
  "qp_add_encode_char q cs = q\<lparr>iEncodeCharList := cs\<rparr>"

definition qp_is_digit :: "byte \<Rightarrow> bool" where
  "qp_is_digit c \<longleftrightarrow> 48 \<le> c \<and> c \<le> 57"

definition qp_is_plain :: "qp_codec \<Rightarrow> byte \<Rightarrow> bool" where
  "qp_is_plain q c \<longleftrightarrow>
     (if c \<in> set (iEncodeCharList q) then False
      else if 33 \<le> c \<and> c \<le> 60 \<or> 62 \<le> c \<and> c \<le> 126 then True
      else c \<in> set (iPlainCharList q))"

definition qp_is_breakable :: "byte \<Rightarrow> bool" where
  "qp_is_breakable c \<longleftrightarrow> c = 32 \<or> c = 9"

text \<open>\<open>TLex8::Peek\<close> gives 0 at the end of the string.\<close>

definition lex_peek :: "byte list \<Rightarrow> nat \<Rightarrow> byte" where
  "lex_peek src i = (if i < length src then src ! i else 0)"

section \<open>SmartBreak\<close>

text \<open>The scan for the next breakable character; the result is the lexer's offset and
  \<open>encodingOffset\<close>.\<close>

fun qp_scan :: "qp_codec \<Rightarrow> byte list \<Rightarrow> nat \<Rightarrow> nat \<Rightarrow> nat \<times> nat" where
  "qp_scan q [] offset encodingOffset = (offset, encodingOffset)"
| "qp_scan q (c # cs) offset encodingOffset =
     (if qp_is_breakable c then (offset, encodingOffset)
      else qp_scan q cs (Suc offset) (encodingOffset + (if qp_is_plain q c then 0 else 2)))"

definition KMaxIMailBodyLineLength :: int where "KMaxIMailBodyLineLength = 79"
definition KImMailMaxBufferSize :: int where "KImMailMaxBufferSize = 1000"

definition qp_smart_break :: "qp_codec \<Rightarrow> int \<Rightarrow> byte list \<Rightarrow> bool" where
  "qp_smart_break q written source =
     (if \<not> qp_is_breakable (lex_peek source 0) then False
      else
        let rest = drop 1 source;
            start = (if qp_is_plain q (lex_peek rest 0) then 0 else 2)
        in case qp_scan q rest 1 start of
             (offset, encodingOffset) \<Rightarrow>
               written + int offset + int encodingOffset > KMaxIMailBodyLineLength - 4)"

section \<open>Encode\<close>

definition hex_digit :: "byte \<Rightarrow> byte" where
  "hex_digit n = (if n < 10 then n + 48 else n + 55)"

text \<open>\<open>KImcvQPEncoded\<close>, \<open>"=%02X"\<close>.\<close>

definition qp_hex :: "byte \<Rightarrow> byte list" where
  "qp_hex c = [61, hex_digit (c div 16), hex_digit (c mod 16)]"

text \<open>The loop variables: lexer position, \<open>written\<close>, \<open>localPaddingCount\<close>, \<open>escapeChar\<close>,
  \<open>nextChar\<close> and the output line.\<close>

record qp_loop =
  lex :: nat
  written :: int
  padding :: int
  escapeChar :: nat
  nextChar :: byte
  line :: "byte list"

text \<open>Appending under \<open>__ASSERT_ALWAYS(ptr.Length() + k < ptr.MaxLength())\<close>.\<close>

definition qp_put :: "nat \<Rightarrow> nat \<Rightarrow> byte list \<Rightarrow> int \<Rightarrow> int \<Rightarrow> qp_loop \<Rightarrow> qp_loop leaving" where
  "qp_put maxLength k bs w p st =
     (if length (line st) + k < maxLength
      then Inr (st\<lparr>line := line st @ bs, written := written st + w, padding := padding st + p\<rparr>)
      else Inl KPanicDescriptorToSmall)"

text \<open>The end of the loop body: advance, count the escape down, look at the next two.\<close>

definition qp_advance :: "byte list \<Rightarrow> qp_loop \<Rightarrow> qp_loop" where
  "qp_advance src st =
     (let i = Suc (lex st);
          esc = (if escapeChar st > 0 then escapeChar st - 1 else 0);
          thisChar = lex_peek src i;
          j = (if i < length src then Suc i else i);
          next' = (if j < length src then lex_peek src j else 0);
          k = (if thisChar \<noteq> 0 then j - 1 else j)
      in st\<lparr>lex := k, escapeChar := esc, nextChar := next'\<rparr>)"

text \<open>The whitespace branch: both characters are read; the position is wound back by one, and
  by one more if the second character is not 0.\<close>

definition qp_white :: "nat \<Rightarrow> byte list \<Rightarrow> qp_loop \<Rightarrow> (bool \<times> qp_loop) leaving" where
  "qp_white maxLength src st =
     (let thisChar = lex_peek src (lex st);
          i1 = Suc (lex st);
          after = lex_peek src i1;
          i2 = (if i1 < length src then Suc i1 else i1)
      in if after = 13 \<and> lex_peek src i2 = 10
         then bind_l (qp_put maxLength 5 (qp_hex thisChar @ [13, 10]) 5 2 (st\<lparr>lex := i2\<rparr>))
                (\<lambda>s. Inr (True, s))
         else bind_l (qp_put maxLength 1 [thisChar] 1 0 (st\<lparr>lex := i2 - 1 - (if after \<noteq> 0 then 1 else 0)\<rparr>))
                (\<lambda>s. Inr (False, qp_advance src s)))"

text \<open>One turn of the loop; \<open>True\<close> for \<open>break\<close>.\<close>

definition qp_turn :: "qp_codec \<Rightarrow> nat \<Rightarrow> byte list \<Rightarrow> qp_loop \<Rightarrow> (bool \<times> qp_loop) leaving" where
  "qp_turn q maxLength src st0 =
     (let stop = (\<lambda>r. bind_l r (\<lambda>s. Inr (True, s)));
          go = (\<lambda>r. bind_l r (\<lambda>s. Inr (False, qp_advance src s)))
      in if written st0 \<ge> KMaxIMailBodyLineLength - 3 \<and> escapeChar st0 = 0
         then stop (qp_put maxLength 4 [iQPCharacter q, 13, 10] 3 3 st0)
         else
           let peek = lex_peek src (lex st0);
               st = (if peek = 27 then st0\<lparr>escapeChar := 3\<rparr> else st0)
           in if qp_smart_break q (written st) (drop (lex st) src) \<and> escapeChar st = 0
              then stop (qp_put maxLength 4 [32, iQPCharacter q, 13, 10] 4 3 st)
              else if qp_is_plain q peek \<and> peek \<noteq> 32 \<and> peek \<noteq> 61
              then go (qp_put maxLength 1 [peek] 1 0 st)
              else if peek = 9 \<or> peek = 32
              then qp_white maxLength src st
              else if peek = 13 \<and> nextChar st = 10
              then stop (qp_put maxLength 2 [13, 10] 2 0 (st\<lparr>lex := Suc (lex st)\<rparr>))
              else if peek = iQPCharacter q
              then go (qp_put maxLength 3 [61, 51, 68] 3 2 st)
              else if peek = 9 \<or> peek = 45 \<or> peek = 32
              then go (qp_put maxLength 1 [peek] 1 0 st)
              else go (qp_put maxLength 3 (qp_hex peek) 3 2 st))"

lemma qp_advance_lex: "lex (qp_advance src st) > lex st"
  by (auto simp: qp_advance_def Let_def lex_peek_def)

lemma if_pred: "(c \<Longrightarrow> P a) \<Longrightarrow> (\<not> c \<Longrightarrow> P b) \<Longrightarrow> P (if c then a else b)"
  by simp

text \<open>A turn that does not stop has moved the lexer on.\<close>

definition qp_moves :: "nat \<Rightarrow> (bool \<times> qp_loop) leaving \<Rightarrow> bool" where
  "qp_moves i r \<longleftrightarrow> (\<forall>st'. r = Inr (False, st') \<longrightarrow> i < lex st')"

lemmas qp_moves_if = if_pred [where P = "qp_moves i" for i]

lemma qp_moves_stop: "qp_moves i (bind_l r (\<lambda>s. Inr (True, s)))"
  by (cases r) (simp_all add: qp_moves_def)

lemma qp_moves_go:
  assumes "i \<le> lex st"
  shows "qp_moves i (bind_l (qp_put mx k bs w p st) (\<lambda>s. Inr (False, qp_advance src s)))"
  using le_less_trans [OF assms, of "lex (qp_advance src st')" for st']
    qp_advance_lex [of "st\<lparr>line := line st @ bs, written := written st + w, padding := padding st + p\<rparr>" src] assms
  by (simp add: qp_moves_def qp_put_def)

lemma qp_turn_moves: "qp_moves (lex st) (qp_turn q mx src st)"
proof -
  have white: "qp_moves (lex st0) (qp_white mx src st0)" for st0
    unfolding qp_white_def Let_def
    by (intro qp_moves_if qp_moves_stop qp_moves_go) (simp add: lex_peek_def)
  let ?st = "if lex_peek src (lex st) = 27 then st\<lparr>escapeChar := 3\<rparr> else st"
  have same: "lex st = lex ?st" by simp
  show ?thesis
    unfolding qp_turn_def Let_def
    by (intro qp_moves_if qp_moves_stop qp_moves_go) (simp_all add: white white [of ?st, folded same])
qed

lemma qp_turn_lex: "qp_turn q mx src st = Inr (False, st') \<Longrightarrow> lex st < lex st'"
  using qp_turn_moves [of st q mx src] by (simp add: qp_moves_def)

function qp_encode_loop :: "qp_codec \<Rightarrow> nat \<Rightarrow> byte list \<Rightarrow> qp_loop \<Rightarrow> qp_loop leaving" where
  "qp_encode_loop q maxLength src st =
     (if written st < KImMailMaxBufferSize - 2 \<and> lex st < length src then
        (case qp_turn q maxLength src st of
           Inl e \<Rightarrow> Inl e
         | Inr (stop, st') \<Rightarrow> if stop then Inr st' else qp_encode_loop q maxLength src st')
      else Inr st)"
  by pat_completeness auto
termination
  by (relation "measure (\<lambda>(q, mx, src, st). length src - lex st)") (auto dest!: qp_turn_lex)

definition qp_loop_init :: "byte list \<Rightarrow> byte list \<Rightarrow> qp_loop" where
  "qp_loop_init src out =
     \<lparr>lex = 0, written = 0, padding = 0, escapeChar = 0,
      nextChar = (if src = [] then 0 else lex_peek src 1), line = out\<rparr>"

text \<open>The line written and the number of source characters it stands for.\<close>

definition qp_encode :: "qp_codec \<Rightarrow> nat \<Rightarrow> byte list \<Rightarrow> (byte list \<times> int) leaving" where
  "qp_encode q maxLength src =
     bind_l (qp_encode_loop q maxLength src (qp_loop_init src []))
       (\<lambda>st. Inr (line st, written st - padding st))"

section \<open>Decode\<close>

definition qp_nibble :: "byte \<Rightarrow> byte" where
  "qp_nibble c = 0x0F AND (if qp_is_digit c then c - 48 else c - 55)"

fun qp_decode_loop :: "byte \<Rightarrow> byte list \<Rightarrow> symbian_error \<Rightarrow> byte list \<Rightarrow> symbian_error \<times> byte list" where
  "qp_decode_loop q [] err dest = (err, dest)"
| "qp_decode_loop q (c # rest) err dest =
     (if c \<noteq> q then qp_decode_loop q rest err (dest @ [c])
      else (case rest of
              x # y # rest' \<Rightarrow>
                if x = 13 then
                  if y \<noteq> 10 then qp_decode_loop q rest' KErrCorrupt (dest @ [c, x])
                  else qp_decode_loop q rest' err dest
                else if x = 10 then qp_decode_loop q (y # rest') err dest
                else qp_decode_loop q rest' err (dest @ [push_bit 4 (qp_nibble x) + qp_nibble y])
            | _ \<Rightarrow> (KErrCorrupt, dest @ c # rest)))"

definition qp_decode :: "qp_codec \<Rightarrow> byte list \<Rightarrow> symbian_error \<times> byte list" where
  "qp_decode q src =
     (if list_all (\<lambda>c. c = 32 \<or> c = 9) (take (length src - 2) src) then (KErrNone, src)
      else qp_decode_loop (iQPCharacter q) src KErrNone [])"

declare qp_encode_loop.simps [simp del]

section \<open>Pieces of an encoded line\<close>

text \<open>An encoded line is a sequence of pieces: literal characters, hex triples, soft breaks.\<close>

inductive qp_pieces :: "byte list \<Rightarrow> byte list \<Rightarrow> bool" where
  nil: "qp_pieces [] []"
| lit: "qp_pieces out d \<Longrightarrow> c \<noteq> 61 \<Longrightarrow> qp_pieces (out @ [c]) (d @ [c])"
| hex: "qp_pieces out d \<Longrightarrow> qp_pieces (out @ qp_hex c) (d @ [c])"
| soft: "qp_pieces out d \<Longrightarrow> qp_pieces (out @ [61, 13, 10]) d"

lemma hex_digit_table:
  "list_all (\<lambda>k. let n = word_of_nat k in
     qp_nibble (hex_digit n) = n \<and> hex_digit n \<noteq> 13 \<and> hex_digit n \<noteq> 10) [0..<16]"
  by (simp add: upt_rec hex_digit_def qp_nibble_def qp_is_digit_def)

lemma hex_digit_facts:
  assumes "n < 16"
  shows "qp_nibble (hex_digit n) = n" "hex_digit n \<noteq> 13" "hex_digit n \<noteq> 10"
proof -
  have "unat n \<in> set [0..<16]" using assms by (simp add: word_less_nat_alt)
  with hex_digit_table
  have "let m = word_of_nat (unat n) in
      qp_nibble (hex_digit m) = m \<and> hex_digit m \<noteq> 13 \<and> hex_digit m \<noteq> 10"
    by (simp only: list_all_iff)
  then show "qp_nibble (hex_digit n) = n" "hex_digit n \<noteq> 13" "hex_digit n \<noteq> 10"
    by simp_all
qed

lemma byte_nibbles: "(c :: byte) div 16 < 16" "c mod 16 < 16" "push_bit 4 (c div 16) + c mod 16 = c"
proof -
  show "c div 16 < 16"
    using uint8_less [of c] by (simp add: word_less_nat_alt unat_div_distrib)
  show "c mod 16 < 16"
    by (simp add: word_less_nat_alt unat_mod_distrib)
  have "push_bit 4 (c div 16) = c div 16 * 16" by (simp add: push_bit_eq_mult)
  then show "push_bit 4 (c div 16) + c mod 16 = c" by (simp only: div_mult_mod_eq)
qed

lemma qp_decode_hex:
  "qp_decode_loop 61 (qp_hex c @ r) err dest = qp_decode_loop 61 r err (dest @ [c])"
  using hex_digit_facts [OF byte_nibbles(1) [of c]] hex_digit_facts [OF byte_nibbles(2) [of c]]
  by (simp add: qp_hex_def byte_nibbles(3))

lemma qp_decode_pieces:
  "qp_pieces out d \<Longrightarrow> qp_decode_loop 61 (out @ r) err dest = qp_decode_loop 61 r err (dest @ d)"
  by (induction arbitrary: r dest rule: qp_pieces.induct) (simp_all add: qp_decode_hex)

lemma qp_pieces_literal: "qp_pieces out d \<Longrightarrow> 61 \<notin> set out \<Longrightarrow> out = d"
  by (induction rule: qp_pieces.induct) (auto simp: qp_hex_def)

lemma qp_pieces_equals: "qp_pieces out d \<Longrightarrow> 61 \<in> set out \<Longrightarrow> 61 \<in> set (take (length out - 2) out)"
proof (induction rule: qp_pieces.induct)
  case (lit out d c)
  then have "61 \<in> set (take (length out - 2) out)" by auto
  moreover have "set (take (length out - 2) out) \<subseteq> set (take (length out - 1) out)"
    by (rule set_take_subset_set_take) simp
  ultimately show ?case by (simp add: subset_iff)
qed (auto simp: qp_hex_def)

lemma qp_decode_line:
  assumes "iQPCharacter q = 61" "qp_pieces out d"
  shows "qp_decode q out = (KErrNone, d)"
proof (cases "list_all (\<lambda>c. c = 32 \<or> c = 9) (take (length out - 2) out)")
  case True
  then have "61 \<notin> set (take (length out - 2) out)" by (auto simp: list_all_iff)
  with qp_pieces_equals [OF assms(2)] have "61 \<notin> set out" by blast
  with qp_pieces_literal [OF assms(2)] True show ?thesis by (simp add: qp_decode_def)
next
  case False
  then show ?thesis
    using qp_decode_pieces [OF assms(2), of "[]" KErrNone "[]"] assms(1) by (simp add: qp_decode_def)
qed

section \<open>The loop invariant\<close>

definition qp_inv :: "byte list \<Rightarrow> qp_loop \<Rightarrow> bool" where
  "qp_inv src st \<longleftrightarrow>
     lex st \<le> length src \<and> qp_pieces (line st) (take (lex st) src) \<and>
     written st - padding st = int (lex st) \<and> padding st \<le> 2 * int (lex st) \<and>
     nextChar st = lex_peek src (Suc (lex st)) \<and> written st = int (length (line st))"

text \<open>What a finished line of \<open>n\<close> source characters decodes to: those characters, but for a
  tab that a soft break replaced by a space.\<close>

definition qp_final :: "byte list \<Rightarrow> qp_loop \<Rightarrow> bool" where
  "qp_final src st \<longleftrightarrow>
     (\<exists>n d. written st - padding st = int n \<and> n \<le> length src \<and> (0 < n \<or> src = []) \<and>
        qp_pieces (line st) d \<and>
        (d = take n src \<or> (\<exists>p. take n src = p @ [9] \<and> d = p @ [32])))"

lemma qp_advance_simps:
  assumes "0 \<notin> set src" "lex st < length src"
  shows "qp_advance src st =
    st\<lparr>lex := Suc (lex st), escapeChar := escapeChar st - 1, nextChar := lex_peek src (Suc (Suc (lex st)))\<rparr>"
proof -
  have nz: "\<And>i. i < length src \<Longrightarrow> src ! i \<noteq> 0" using assms(1) by (metis nth_mem)
  show ?thesis
    by (rule qp_loop.equality) (auto simp: qp_advance_def Let_def lex_peek_def nz)
qed

text \<open>A turn that goes on, over one source character.\<close>

lemma qp_inv_go:
  assumes "0 \<notin> set src" "qp_inv src st" "lex st < length src"
    and "qp_put mx k bs w p (st\<lparr>escapeChar := e\<rparr>) = Inr st1"
    and "qp_pieces (line st @ bs) (take (lex st) src @ [src ! lex st])"
    and "w = int (length bs)" "w - p = 1" "p \<le> 2"
  shows "qp_inv src (qp_advance src st1)"
  using assms qp_advance_simps [OF assms(1), of st1]
  by (auto simp: qp_inv_def qp_put_def take_Suc_conv_app_nth split: if_splits)

lemma qp_inv_lit:
  "qp_inv src st \<Longrightarrow> lex st < length src \<Longrightarrow> src ! lex st \<noteq> 61 \<Longrightarrow>
     qp_pieces (line st @ [src ! lex st]) (take (lex st) src @ [src ! lex st])"
  by (auto simp: qp_inv_def intro: qp_pieces.lit)

lemma qp_inv_hex:
  "qp_inv src st \<Longrightarrow> lex st < length src \<Longrightarrow>
     qp_pieces (line st @ qp_hex (src ! lex st)) (take (lex st) src @ [src ! lex st])"
  by (auto simp: qp_inv_def intro: qp_pieces.hex)

lemma qp_hex_equals: "qp_hex 61 = [61, 51, 68]"
  by (simp add: qp_hex_def hex_digit_def)

lemma qp_loop_same_escape: "st\<lparr>escapeChar := escapeChar st\<rparr> = (st :: qp_loop)"
  by simp

text \<open>Ends of a line.\<close>

lemma qp_final_soft:
  assumes "qp_inv src st" "0 < lex st"
  shows "qp_final src (st\<lparr>line := line st @ [61, 13, 10], written := written st + 3, padding := padding st + 3\<rparr>)"
  using assms unfolding qp_inv_def qp_final_def
  by (intro exI [of _ "lex st"] exI [of _ "take (lex st) src"]) (auto intro: qp_pieces.soft)

lemma qp_final_smart:
  assumes "qp_inv src st" "lex st < length src" "src ! lex st = 32 \<or> src ! lex st = 9"
  shows "qp_final src (st\<lparr>line := line st @ [32, 61, 13, 10], written := written st + 4, padding := padding st + 3\<rparr>)"
proof -
  have "qp_pieces ((line st @ [32]) @ [61, 13, 10]) (take (lex st) src @ [32])"
    using assms(1) unfolding qp_inv_def by (intro qp_pieces.soft qp_pieces.lit) auto
  then show ?thesis
    using assms unfolding qp_inv_def qp_final_def
    by (intro exI [of _ "Suc (lex st)"] exI [of _ "take (lex st) src @ [32]"])
       (auto simp: take_Suc_conv_app_nth)
qed

lemma qp_final_eol:
  assumes "qp_inv src st" "Suc (lex st) < length src" "src ! lex st = 13" "src ! Suc (lex st) = 10"
  shows "qp_final src (st\<lparr>lex := i, line := line st @ [13, 10], written := written st + 2, padding := padding st\<rparr>)"
proof -
  have "qp_pieces ((line st @ [13]) @ [10]) ((take (lex st) src @ [13]) @ [10])"
    using assms(1) unfolding qp_inv_def by (intro qp_pieces.lit) auto
  moreover have "take (Suc (Suc (lex st))) src = (take (lex st) src @ [13]) @ [10]"
    using assms(2-4) by (simp add: take_Suc_conv_app_nth)
  ultimately show ?thesis
    using assms unfolding qp_inv_def qp_final_def
    by (intro exI [of _ "Suc (Suc (lex st))"] exI [of _ "take (Suc (Suc (lex st))) src"]) auto
qed

lemma qp_final_white_eol:
  assumes "qp_inv src st" "Suc (Suc (lex st)) < length src"
    "src ! Suc (lex st) = 13" "src ! Suc (Suc (lex st)) = 10"
  shows "qp_final src (st\<lparr>lex := i, line := line st @ qp_hex (src ! lex st) @ [13, 10],
           written := written st + 5, padding := padding st + 2\<rparr>)"
proof -
  let ?c = "src ! lex st"
  have "qp_pieces (((line st @ qp_hex ?c) @ [13]) @ [10]) (((take (lex st) src @ [?c]) @ [13]) @ [10])"
    using assms(1) unfolding qp_inv_def by (intro qp_pieces.lit qp_pieces.hex) auto
  moreover have "take (Suc (Suc (Suc (lex st)))) src = ((take (lex st) src @ [?c]) @ [13]) @ [10]"
    using assms(2-4) by (simp add: take_Suc_conv_app_nth)
  ultimately show ?thesis
    using assms unfolding qp_inv_def qp_final_def
    by (intro exI [of _ "Suc (Suc (Suc (lex st)))"] exI [of _ "take (Suc (Suc (Suc (lex st)))) src"]) auto
qed

lemma qp_final_inv: "qp_inv src st \<Longrightarrow> 0 < lex st \<or> src = [] \<Longrightarrow> qp_final src st"
  unfolding qp_inv_def qp_final_def
  by (intro exI [of _ "lex st"] exI [of _ "take (lex st) src"]) auto

lemma qp_put_Inr:
  "qp_put mx k bs w p st = Inr st1 \<longleftrightarrow> length (line st) + k < mx \<and>
     st1 = st\<lparr>line := line st @ bs, written := written st + w, padding := padding st + p\<rparr>"
  by (auto simp: qp_put_def)

definition qp_ok :: "byte list \<Rightarrow> bool \<times> qp_loop \<Rightarrow> bool" where
  "qp_ok src r = (case r of (stop, st) \<Rightarrow> if stop then qp_final src st else qp_inv src st)"

lemma qp_ok_go:
  assumes "0 \<notin> set src" "qp_inv src st" "lex st < length src"
    and "bind_l (qp_put mx k bs w p st) (\<lambda>s. Inr (False, qp_advance src s)) = Inr r"
    and "qp_pieces (line st @ bs) (take (lex st) src @ [src ! lex st])"
    and "w = int (length bs)" "w - p = 1" "p \<le> 2"
  shows "qp_ok src r"
  using qp_inv_go [OF assms(1-3) _ assms(5-8), of mx k "escapeChar st"] assms(4)
  by (auto simp: bind_l_eq_Inr qp_ok_def)

lemma qp_white_ok:
  assumes nul: "0 \<notin> set src" and inv: "qp_inv src st" and lt: "lex st < length src"
    and ws: "src ! lex st = 32 \<or> src ! lex st = 9"
    and white: "qp_white mx src st = Inr r"
  shows "qp_ok src r"
proof -
  have nz: "\<And>i. i < length src \<Longrightarrow> src ! i \<noteq> 0" using nul by (metis nth_mem)
  let ?i = "Suc (lex st)"
  show ?thesis
  proof (cases "lex_peek src ?i = 13 \<and> lex_peek src (if ?i < length src then Suc ?i else ?i) = 10")
    case True
    then have "Suc ?i < length src" "src ! ?i = 13" "src ! Suc ?i = 10"
      by (auto simp: lex_peek_def split: if_splits)
    with True white lt show ?thesis
      using qp_final_white_eol [OF inv]
      by (auto simp: qp_white_def Let_def bind_l_eq_Inr qp_put_Inr qp_ok_def lex_peek_def)
  next
    case False
    have "(if ?i < length src then Suc ?i else ?i) - 1 - (if lex_peek src ?i \<noteq> 0 then 1 else 0) = lex st"
      using nz by (simp add: lex_peek_def)
    with False white have
      "bind_l (qp_put mx 1 [lex_peek src (lex st)] 1 0 (st\<lparr>lex := lex st\<rparr>))
         (\<lambda>s. Inr (False, qp_advance src s)) = Inr r"
      unfolding qp_white_def Let_def by (simp only: if_False)
    then have "bind_l (qp_put mx 1 [src ! lex st] 1 0 st)
         (\<lambda>s. Inr (False, qp_advance src s)) = Inr r"
      using lt by (simp add: lex_peek_def)
    then show ?thesis
      by (rule qp_ok_go [OF nul inv lt]) (use qp_inv_lit [OF inv lt] ws in auto)
  qed
qed

lemma qp_turn_ok:
  assumes nul: "0 \<notin> set src" and q: "iQPCharacter q = 61" and inv0: "qp_inv src st0"
    and lt0: "lex st0 < length src" and turn: "qp_turn q mx src st0 = Inr r"
  shows "qp_ok src r"
proof (cases "written st0 \<ge> KMaxIMailBodyLineLength - 3 \<and> escapeChar st0 = 0")
  case True
  then have "0 < lex st0" using inv0 by (auto simp: qp_inv_def KMaxIMailBodyLineLength_def)
  with True turn qp_final_soft [OF inv0] show ?thesis
    by (auto simp: qp_turn_def Let_def bind_l_eq_Inr qp_put_Inr qp_ok_def q)
next
  case A: False
  define st where "st = (if lex_peek src (lex st0) = 27 then st0\<lparr>escapeChar := 3\<rparr> else st0)"
  have inv: "qp_inv src st" and lt: "lex st < length src" and lex: "lex st0 = lex st"
    using inv0 lt0 by (auto simp: st_def qp_inv_def)
  have peek: "lex_peek src (lex st) = src ! lex st" using lt by (simp add: lex_peek_def)
  note rest = turn [unfolded qp_turn_def Let_def if_not_P [OF A], folded st_def, unfolded lex peek q]
  show ?thesis
  proof (cases "qp_smart_break q (written st) (drop (lex st) src) \<and> escapeChar st = 0")
    case True
    then have "src ! lex st = 32 \<or> src ! lex st = 9"
      using lt by (auto simp: qp_smart_break_def lex_peek_def qp_is_breakable_def split: if_splits)
    with True rest qp_final_smart [OF inv lt] show ?thesis
      by (auto simp: bind_l_eq_Inr qp_put_Inr qp_ok_def)
  next
    case B: False
    note rest = rest [unfolded if_not_P [OF B]]
    show ?thesis
    proof (cases "qp_is_plain q (src ! lex st) \<and> src ! lex st \<noteq> 32 \<and> src ! lex st \<noteq> 61")
      case True
      from rest [unfolded if_P [OF True]] show ?thesis
        by (rule qp_ok_go [OF nul inv lt]) (use qp_inv_lit [OF inv lt] True in auto)
    next
      case C: False
      note rest = rest [unfolded if_not_P [OF C]]
      consider (white) "src ! lex st = 9 \<or> src ! lex st = 32"
        | (eol) "src ! lex st = 13" "nextChar st = 10"
        | (eq) "src ! lex st = 61"
        | (other) "\<not> (src ! lex st = 9 \<or> src ! lex st = 32)"
            "\<not> (src ! lex st = 13 \<and> nextChar st = 10)" "src ! lex st \<noteq> 61" by blast
      then show ?thesis
      proof cases
        case white
        with rest show ?thesis by (auto intro: qp_white_ok [OF nul inv lt])
      next
        case eol
        then have "Suc (lex st) < length src" "src ! Suc (lex st) = 10"
          using inv by (auto simp: qp_inv_def lex_peek_def split: if_splits)
        with eol rest qp_final_eol [OF inv] show ?thesis
          by (auto simp: bind_l_eq_Inr qp_put_Inr qp_ok_def)
      next
        case eq
        with rest have "bind_l (qp_put mx 3 [61, 51, 68] 3 2 st)
            (\<lambda>s. Inr (False, qp_advance src s)) = Inr r" by simp
        then show ?thesis
          by (rule qp_ok_go [OF nul inv lt])
             (use qp_inv_hex [OF inv lt] eq in \<open>simp_all add: qp_hex_equals\<close>)
      next
        case other
        show ?thesis
        proof (cases "src ! lex st = 45")
          case True
          with rest other have "bind_l (qp_put mx 1 [src ! lex st] 1 0 st)
              (\<lambda>s. Inr (False, qp_advance src s)) = Inr r" by simp
          then show ?thesis
            by (rule qp_ok_go [OF nul inv lt]) (use qp_inv_lit [OF inv lt] other in auto)
        next
          case False
          with rest other have "bind_l (qp_put mx 3 (qp_hex (src ! lex st)) 3 2 st)
              (\<lambda>s. Inr (False, qp_advance src s)) = Inr r" by auto
          then show ?thesis
            by (rule qp_ok_go [OF nul inv lt])
               (use qp_inv_hex [OF inv lt] in \<open>simp_all add: qp_hex_def\<close>)
        qed
      qed
    qed
  qed
qed

lemma qp_loop_final:
  "0 \<notin> set src \<Longrightarrow> iQPCharacter q = 61 \<Longrightarrow> qp_inv src st \<Longrightarrow> 0 < lex st \<or> src = [] \<or> written st = 0 \<Longrightarrow>
     qp_encode_loop q mx src st = Inr st' \<Longrightarrow> qp_final src st'"
proof (induction q mx src st rule: qp_encode_loop.induct)
  case (1 q mx src st)
  show ?case
  proof (cases "written st < KImMailMaxBufferSize - 2 \<and> lex st < length src")
    case False
    then have "st' = st" and "written st = 0 \<Longrightarrow> length src \<le> lex st"
      using "1.prems" by (auto simp: qp_encode_loop.simps [of q mx src st] KImMailMaxBufferSize_def)
    moreover from this(2) "1.prems"(4) have "0 < lex st \<or> src = []"
      by (metis gr0I le_zero_eq length_0_conv)
    ultimately show ?thesis using qp_final_inv [OF "1.prems"(3)] by simp
  next
    case True
    then obtain stop st1 where t: "qp_turn q mx src st = Inr (stop, st1)"
      and k: "if stop then st' = st1 else qp_encode_loop q mx src st1 = Inr st'"
      using "1.prems"(5)
      by (auto simp: qp_encode_loop.simps [of q mx src st] split: sum.splits prod.splits if_splits)
    have ok: "qp_ok src (stop, st1)"
      using qp_turn_ok [OF "1.prems"(1-3) _ t] True by simp
    show ?thesis
    proof (cases stop)
      case True
      with ok k show ?thesis by (simp add: qp_ok_def)
    next
      case False
      moreover have "0 < lex st1" using qp_turn_lex t False by fastforce
      ultimately show ?thesis
        using "1.IH" [OF True t refl] "1.prems"(1,2) ok k by (simp add: qp_ok_def)
    qed
  qed
qed

lemma qp_roundtrip:
  assumes "0 \<notin> set src" "iQPCharacter q = 61" "qp_encode q mx src = Inr (out, n)"
  shows "0 \<le> n \<and> nat n \<le> length src \<and> (src \<noteq> [] \<longrightarrow> 0 < n) \<and>
    (\<exists>d. qp_decode q out = (KErrNone, d) \<and>
      (d = take (nat n) src \<or> (\<exists>p. take (nat n) src = p @ [9] \<and> d = p @ [32])))"
proof -
  obtain st where st: "qp_encode_loop q mx src (qp_loop_init src []) = Inr st"
    and out: "out = line st" "n = written st - padding st"
    using assms(3) by (auto simp: qp_encode_def bind_l_eq_Inr)
  have "qp_inv src (qp_loop_init src [])"
    by (auto simp: qp_inv_def qp_loop_init_def lex_peek_def intro: qp_pieces.nil)
  from qp_loop_final [OF assms(1,2) this _ st] have "qp_final src st"
    by (simp add: qp_loop_init_def)
  then show ?thesis
    using qp_decode_line [OF assms(2)] by (fastforce simp: qp_final_def out)
qed

section \<open>Length of a line, and the assertions\<close>

text \<open>Between two turns, with no escape character in the source.\<close>

definition qp_fits :: "qp_loop \<Rightarrow> bool" where
  "qp_fits st \<longleftrightarrow> escapeChar st = 0 \<and> written st \<le> 78 \<and> int (length (line st)) = written st"

lemma qp_advance_frame [simp]:
  "written (qp_advance src st) = written st" "line (qp_advance src st) = line st"
  "escapeChar (qp_advance src st) = escapeChar st - 1"
  by (simp_all add: qp_advance_def Let_def)

definition qp_fit_result :: "(bool \<times> qp_loop) leaving \<Rightarrow> bool" where
  "qp_fit_result r \<longleftrightarrow>
     (\<exists>stop st. r = Inr (stop, st) \<and> (if stop then length (line st) \<le> 81 else qp_fits st))"

lemmas fit_if = if_pred [where P = qp_fit_result]

lemma fit_go:
  assumes "qp_fits st" "written st \<le> 75" "83 \<le> mx" "k \<le> 5" "w = int (length bs)" "w \<le> 3"
  shows "qp_fit_result (bind_l (qp_put mx k bs w p (st\<lparr>lex := i\<rparr>)) (\<lambda>s. Inr (False, qp_advance src s)))"
proof -
  let ?s = "st\<lparr>lex := i, line := line st @ bs, written := written st + w, padding := padding st + p\<rparr>"
  have "int (length (line st)) \<le> 75" using assms(1,2) by (simp add: qp_fits_def)
  then have "length (line st) + k < mx" using assms(3,4) by linarith
  then have "bind_l (qp_put mx k bs w p (st\<lparr>lex := i\<rparr>)) (\<lambda>s. Inr (False, qp_advance src s))
      = Inr (False, qp_advance src ?s)" by (simp add: qp_put_def)
  moreover have "qp_fits (qp_advance src ?s)" using assms by (simp add: qp_fits_def)
  ultimately show ?thesis unfolding qp_fit_result_def by (intro exI conjI) auto
qed

lemma fit_stop:
  assumes "qp_fits st" "written st \<le> 76 \<or> length bs \<le> 3" "83 \<le> mx" "k \<le> 4 \<or> written st \<le> 75" "k \<le> 5" "length bs \<le> 5"
  shows "qp_fit_result (bind_l (qp_put mx k bs w p (st\<lparr>lex := i\<rparr>)) (\<lambda>s. Inr (True, s)))"
proof -
  let ?s = "st\<lparr>lex := i, line := line st @ bs, written := written st + w, padding := padding st + p\<rparr>"
  have len: "int (length (line st)) = written st" "written st \<le> 78" using assms(1) by (simp_all add: qp_fits_def)
  have "length (line st) + k < mx" using len assms(3-5) by linarith
  then have "bind_l (qp_put mx k bs w p (st\<lparr>lex := i\<rparr>)) (\<lambda>s. Inr (True, s)) = Inr (True, ?s)"
    by (simp add: qp_put_def)
  moreover have "length (line ?s) \<le> 81" using len assms(2,6) by (simp; linarith)
  ultimately show ?thesis unfolding qp_fit_result_def by (intro exI conjI) auto
qed

lemma fit_go_same:
  assumes "qp_fits st" "written st \<le> 75" "83 \<le> mx" "k \<le> 5" "w = int (length bs)" "w \<le> 3"
  shows "qp_fit_result (bind_l (qp_put mx k bs w p st) (\<lambda>s. Inr (False, qp_advance src s)))"
  using fit_go [OF assms, of p "lex st"] by simp

lemma fit_stop_same:
  assumes "qp_fits st" "written st \<le> 76 \<or> length bs \<le> 3" "83 \<le> mx" "k \<le> 4 \<or> written st \<le> 75" "k \<le> 5" "length bs \<le> 5"
  shows "qp_fit_result (bind_l (qp_put mx k bs w p st) (\<lambda>s. Inr (True, s)))"
  using fit_stop [OF assms, of w p "lex st"] by simp

lemma qp_turn_fits:
  assumes esc: "27 \<notin> set src" and fits: "qp_fits st" and lt: "lex st < length src" and mx: "83 \<le> mx"
  shows "qp_fit_result (qp_turn q mx src st)"
proof (cases "written st \<ge> KMaxIMailBodyLineLength - 3 \<and> escapeChar st = 0")
  case True
  then show ?thesis
    unfolding qp_turn_def Let_def if_P [OF True]
    by (intro fit_stop_same fits mx) simp_all
next
  case False
  then have le: "written st \<le> 75" using fits by (simp add: qp_fits_def KMaxIMailBodyLineLength_def)
  have "lex_peek src (lex st) \<noteq> 27" using esc lt by (metis lex_peek_def nth_mem)
  then have same: "(if lex_peek src (lex st) = 27 then st\<lparr>escapeChar := 3\<rparr> else st) = st" by simp
  have white: "qp_fit_result (qp_white mx src st)"
    unfolding qp_white_def Let_def
    by (intro fit_if fit_go fit_stop fits mx le) (use le in \<open>simp_all add: qp_hex_def\<close>)
  show ?thesis
    unfolding qp_turn_def Let_def if_not_P [OF False] same
    by (intro fit_if white fit_go_same fit_stop_same fit_stop fits mx le) (use le in \<open>simp_all add: qp_hex_def\<close>)
qed

lemma qp_loop_fits:
  "27 \<notin> set src \<Longrightarrow> qp_fits st \<Longrightarrow> 83 \<le> mx \<Longrightarrow>
     \<exists>st'. qp_encode_loop q mx src st = Inr st' \<and> length (line st') \<le> 81"
proof (induction q mx src st rule: qp_encode_loop.induct)
  case (1 q mx src st)
  show ?case
  proof (cases "written st < KImMailMaxBufferSize - 2 \<and> lex st < length src")
    case False
    with "1.prems" show ?thesis
      by (subst qp_encode_loop.simps) (auto simp: qp_fits_def)
  next
    case True
    then obtain stop st1 where t: "qp_turn q mx src st = Inr (stop, st1)"
      and k: "if stop then length (line st1) \<le> 81 else qp_fits st1"
      using qp_turn_fits [OF "1.prems"(1,2) _ "1.prems"(3), of q] by (auto simp: qp_fit_result_def)
    show ?thesis
      using "1.IH" [OF True t refl] "1.prems"(1,3) k
      by (cases stop) (subst qp_encode_loop.simps, simp add: True t)+
  qed
qed

lemma qp_line_length:
  assumes "27 \<notin> set src" "83 \<le> mx"
  shows "\<exists>out n. qp_encode q mx src = Inr (out, n) \<and> length out \<le> 81"
proof -
  have "qp_fits (qp_loop_init src [])" by (simp add: qp_fits_def qp_loop_init_def)
  from qp_loop_fits [OF assms(1) this assms(2), of q] show ?thesis
    by (auto simp: qp_encode_def)
qed

section \<open>Where the code loses characters\<close>

lemma qp_encode_drops_nul:
  "qp_encode qp_default 2000 [97, 0, 98] = Inr ([97, 98], 2)"
  by (simp add: qp_encode_def qp_loop_init_def qp_default_def qp_encode_loop.simps qp_turn_def Let_def
      qp_put_def qp_advance_def lex_peek_def qp_smart_break_def qp_is_breakable_def qp_is_plain_def
      KMaxIMailBodyLineLength_def KImMailMaxBufferSize_def)

section \<open>The codec contract on whole lines\<close>

definition qp_encode_line :: "byte list \<Rightarrow> byte list" where
  "qp_encode_line src = (case qp_encode qp_default 2000 src of Inl e \<Rightarrow> [] | Inr (out, n) \<Rightarrow> out)"

definition qp_decode_line_st :: "unit \<Rightarrow> byte list \<Rightarrow> bool \<times> byte list \<times> unit" where
  "qp_decode_line_st st src = (case qp_decode qp_default src of (e, d) \<Rightarrow> (e \<noteq> KErrNone, d, st))"

definition qp_one_line :: "byte list \<Rightarrow> bool" where
  "qp_one_line src \<longleftrightarrow> 0 \<notin> set src \<and> 9 \<notin> set src \<and>
     (case qp_encode qp_default 2000 src of Inl e \<Rightarrow> False | Inr (out, n) \<Rightarrow> n = int (length src))"

interpretation qp: mime_codec qp_encode_line qp_decode_line_st "()" qp_one_line
proof unfold_locales
  fix xs assume one: "qp_one_line xs"
  then obtain out where enc: "qp_encode qp_default 2000 xs = Inr (out, int (length xs))"
    and nt: "0 \<notin> set xs" "9 \<notin> set xs"
    by (auto simp: qp_one_line_def split: sum.splits prod.splits)
  have "xs \<noteq> p @ [9]" for p using nt(2) by auto
  with qp_roundtrip [OF nt(1) _ enc] have "qp_decode qp_default out = (KErrNone, xs)"
    by (auto simp: qp_default_def)
  then show "fst (snd (qp_decode_line_st () (qp_encode_line xs))) = xs"
    by (simp add: qp_decode_line_st_def qp_encode_line_def enc)
qed

end
