(* ===== verification/Codec_Props.thy ===== *)
theory Codec_Props
  imports Codec_Base64 Codec_UU Codec_QP
begin

text \<open>
  The properties of the MIME transfer codecs: Base64, UU and quoted-printable.
\<close>

section \<open>Base64\<close>

text \<open>C32: decoding what the Base64 encoder wrote, with or without the line breaks it inserts,
  gives the data back, for every input.\<close>

theorem base64_roundtrip:
  "fst (snd (b64_decode b64_init (b64_encode xs))) = xs
   \<and> fst (snd (b64_decode b64_init (b64_encode_lines xs))) = xs"
  using b64.decode_encode [of xs] b64_lines.decode_encode [of xs] by simp

text \<open>C33: on non-empty data the bit-register loop of the encoder computes exactly the standard
  encoding of RFC 4648, three octets to four characters with padding, over the alphabet of the RFC.\<close>

theorem base64_is_rfc4648: "xs \<noteq> [] \<Longrightarrow> b64_encode xs = rfc4648 xs"
  by (rule b64_encode_rfc4648)

theorem base64_is_rfc4648_witness: "b64_encode [77, 97] = [84, 87, 69, 61]"
  using base64_is_rfc4648 [of "[77, 97]"]
  by (simp add: b64_char_def group_part_def sextet_def group24_def ESixBitMask_def)

text \<open>The line-breaking encoder writes the same characters as the plain one, with only line
  breaks added, and no line is longer than the limit.\<close>

lemma base64_line_breaks:
  "filter (\<lambda>b. b \<noteq> 13 \<and> b \<noteq> 10) (b64_encode_lines xs) = b64_encode xs
   \<and> lines_ok KMaxB64EncodedCharsPerLine 0 (b64_encode_lines xs)"
  using b64_lines_are_breaks [of xs] b64_line_length [of xs] by simp

text \<open>The decoder keeps its bit register between calls: feeding the data in two pieces, the
  first without padding, gives the same output and the same result as feeding it at once.\<close>

lemma base64_chunks:
  assumes "61 \<notin> set xs"
  shows "(case b64_decode st (xs @ ys) of (r, out, _) \<Rightarrow> (r, out)) =
    (case b64_decode st xs of (_, o1, st1) \<Rightarrow>
       case b64_decode st1 ys of (r, o2, _) \<Rightarrow> (r, o1 @ o2))"
  using b64_decode_chunks [OF assms, of st ys] by (simp split: prod.splits)

theorem base64_chunks_witness:
  "(case b64_decode b64_init ([84] @ [87, 69, 61]) of (r, out, _) \<Rightarrow> out) = [77, 97]"
  using base64_chunks [of "[84]" b64_init "[87, 69, 61]"]
  by (simp add: b64_decode_def b64_init_def b64_decode_loop.simps(2) b64_offset_def
      AsciiToBase64_def octet_def EEightBitMask_def split: prod.splits)

section \<open>UU\<close>

text \<open>C34: decoding a received line never reads outside it: the test of the length character
  against the length of the line rules out every out-of-range access.\<close>

theorem uu_decode_in_range:
  assumes "src \<noteq> []"
  shows "\<exists>r. uu_decode src = Inr r"
  using uu_decode_safe [OF assms] by (cases "uu_decode src") simp_all

theorem uu_decode_in_range_witness: "\<exists>r. uu_decode [77, 33, 33] = Inr r"
  using uu_decode_in_range [of "[77, 33, 33]"] by simp

text \<open>A body encoded line by line is the concatenation of the encodings of its lines, and
  decoding those lines one by one gives the body back.\<close>

lemma uu_roundtrip_lines:
  "uu_encode xs = concat (map uu_encode (uu_chunks xs))
   \<and> map (\<lambda>l. uu_decode (uu_encode l)) (uu_chunks xs) = map (\<lambda>l. Inr (False, l)) (uu_chunks xs)
   \<and> concat (uu_chunks xs) = xs"
  using uu_encode_lines [of xs] uu_chunks_admissible [of xs]
  by (simp add: list_all_iff uu_roundtrip concat_uu_chunks)

section \<open>Quoted-printable\<close>

text \<open>C35: with the equals sign as escape character and no NUL in the data, one call of the quoted-printable
  encoder that does not panic consumes a non-empty prefix of its input, and decoding the line it
  writes gives that prefix back, except that a tab at the end of the prefix comes back as a space.
  A NUL is dropped by the encoder (\<open>qp_encode_drops_nul\<close>).\<close>

theorem qp_line_roundtrip:
  assumes "0 \<notin> set src" "iQPCharacter q = 61" "qp_encode q mx src = Inr (out, n)"
  shows "0 \<le> n \<and> nat n \<le> length src \<and> (src \<noteq> [] \<longrightarrow> 0 < n) \<and>
    (\<exists>d. qp_decode q out = (KErrNone, d) \<and>
      (d = take (nat n) src \<or> (\<exists>p. take (nat n) src = p @ [9] \<and> d = p @ [32])))"
  by (rule qp_roundtrip [OF assms])

theorem qp_line_roundtrip_witness:
  "\<exists>d. qp_decode qp_default [65, 61, 51, 68, 66] = (KErrNone, d) \<and> d = [65, 61, 66]"
proof -
  have "qp_encode qp_default 100 [65, 61, 66] = Inr ([65, 61, 51, 68, 66], 3)"
    by code_simp
  from qp_line_roundtrip [OF _ _ this] show ?thesis
    by (auto simp: qp_default_def)
qed

text \<open>With room for 83 characters the encoder neither panics nor writes a line longer than 81
  characters, whatever the data, as long as it holds no escape character.\<close>

lemma qp_line_bounded:
  assumes "27 \<notin> set src" "83 \<le> mx"
  shows "\<exists>out n. qp_encode q mx src = Inr (out, n) \<and> length out \<le> 81"
  by (rule qp_line_length [OF assms])

theorem qp_line_bounded_witness:
  "\<exists>out n. qp_encode qp_default 100 [65, 61, 66] = Inr (out, n) \<and> length out \<le> 81"
  using qp_line_bounded [of "[65, 61, 66]" 100 qp_default] by simp

end
