(* ===== verification/Imap_Tree.thy ===== *)
theory Imap_Tree
  imports Msg_Prelude
begin

text \<open>
  The abstract side of the IMAP atom parser (\<open>imapsession\<close>): the s-expressions a server
  response denotes, a stack of partially built forests (one frame for each bracket that is
  still open), and the one layout the parser is meant to give a forest in its array of atoms:
  preorder, with an absolute child link and sibling link for every atom.
\<close>

section \<open>S-expressions and open frames\<close>

datatype sexp = Leaf bool "byte list" | Node "sexp list"

fun tree_size :: "sexp \<Rightarrow> nat" and forest_size :: "sexp list \<Rightarrow> nat" where
  "tree_size (Leaf q b) = 1"
| "tree_size (Node us) = Suc (forest_size us)"
| "forest_size [] = 0"
| "forest_size (t # ts) = tree_size t + forest_size ts"

text \<open>Frames are listed outermost first; there is always at least one.\<close>

fun close_frames :: "sexp list list \<Rightarrow> sexp list" where
  "close_frames [] = []"
| "close_frames [ts] = ts"
| "close_frames (ts # f # fs) = ts @ [Node (close_frames (f # fs))]"

fun add_inner :: "sexp \<Rightarrow> sexp list list \<Rightarrow> sexp list list" where
  "add_inner t [] = []"
| "add_inner t [ts] = [ts @ [t]]"
| "add_inner t (ts # f # fs) = ts # add_inner t (f # fs)"

fun open_inner :: "sexp list list \<Rightarrow> sexp list list" where
  "open_inner [] = []"
| "open_inner [ts] = [ts, []]"
| "open_inner (ts # f # fs) = ts # open_inner (f # fs)"

fun close_inner :: "sexp list list \<Rightarrow> sexp list list" where
  "close_inner [] = []"
| "close_inner [ts] = [ts]"
| "close_inner [ts, us] = [ts @ [Node us]]"
| "close_inner (ts # u # f # fs) = ts # close_inner (u # f # fs)"

lemma add_inner_nonempty [simp]: "add_inner t fs = [] \<longleftrightarrow> fs = []"
  by (cases fs rule: open_inner.cases) simp_all

lemma open_inner_nonempty [simp]: "open_inner fs = [] \<longleftrightarrow> fs = []"
  by (cases fs rule: open_inner.cases) simp_all

lemma close_inner_nonempty [simp]: "close_inner fs = [] \<longleftrightarrow> fs = []"
  by (cases fs rule: close_inner.cases) simp_all

lemma length_add_inner [simp]: "length (add_inner t fs) = length fs"
  by (induction t fs rule: add_inner.induct) simp_all

lemma length_open_inner [simp]: "fs \<noteq> [] \<Longrightarrow> length (open_inner fs) = Suc (length fs)"
  by (induction fs rule: open_inner.induct) simp_all

lemma length_close_inner [simp]:
  "Suc 0 < length fs \<Longrightarrow> length (close_inner fs) = length fs - 1"
  by (induction fs rule: close_inner.induct) simp_all

lemma close_frames_Cons: "fs \<noteq> [] \<Longrightarrow> close_frames (ts # fs) = ts @ [Node (close_frames fs)]"
  by (cases fs) simp_all

lemma add_inner_Cons: "fs \<noteq> [] \<Longrightarrow> add_inner t (ts # fs) = ts # add_inner t fs"
  by (cases fs) simp_all

lemma open_inner_Cons: "fs \<noteq> [] \<Longrightarrow> open_inner (ts # fs) = ts # open_inner fs"
  by (cases fs) simp_all

lemma close_inner_Cons: "Suc 0 < length fs \<Longrightarrow> close_inner (ts # fs) = ts # close_inner fs"
  by (cases fs rule: close_inner.cases) simp_all

lemma close_open_inner: "fs \<noteq> [] \<Longrightarrow> close_inner (open_inner fs) = add_inner (Node []) fs"
  by (induction fs rule: open_inner.induct) (simp_all add: close_inner_Cons)

lemma close_frames_open: "close_frames (open_inner fs) = close_frames (add_inner (Node []) fs)"
  by (induction fs rule: open_inner.induct) (simp_all add: close_frames_Cons)

lemma close_frames_close: "close_frames (close_inner fs) = close_frames fs"
  by (induction fs rule: close_inner.induct) (simp_all add: close_frames_Cons)

text \<open>Opening a bracket, adding a list of trees and closing it adds one node.\<close>

definition add_all :: "sexp list \<Rightarrow> sexp list list \<Rightarrow> sexp list list" where
  "add_all ts fs = foldl (\<lambda>fs t. add_inner t fs) fs ts"

lemma add_all_simps [simp]:
  "add_all [] fs = fs"
  "add_all (t # ts) fs = add_all ts (add_inner t fs)"
  by (simp_all add: add_all_def)

lemma add_all_nonempty [simp]: "add_all ts fs = [] \<longleftrightarrow> fs = []"
  by (induction ts arbitrary: fs) simp_all

lemma length_add_all [simp]: "length (add_all ts fs) = length fs"
  by (induction ts arbitrary: fs) simp_all

lemma add_all_Cons: "fs \<noteq> [] \<Longrightarrow> add_all ts (us # fs) = us # add_all ts fs"
  by (induction ts arbitrary: fs) (simp_all add: add_inner_Cons)

lemma add_all_single: "add_all ts [us] = [us @ ts]"
  by (induction ts arbitrary: us) simp_all

lemma close_add_open:
  "fs \<noteq> [] \<Longrightarrow> close_inner (add_all ts (open_inner fs)) = add_inner (Node ts) fs"
proof (induction fs)
  case Nil
  then show ?case by simp
next
  case (Cons us fs)
  show ?case
  proof (cases "fs = []")
    case True
    then show ?thesis by (simp add: add_all_Cons add_all_single)
  next
    case False
    have "Suc 0 < length (add_all ts (open_inner fs))"
      using False by (cases fs) simp_all
    then show ?thesis
      using False Cons.IH by (simp add: open_inner_Cons add_all_Cons close_inner_Cons add_inner_Cons)
  qed
qed

section \<open>The layout of a forest\<close>

text \<open>
  An atom as seen by a reader: its string, whether it was quoted, its child link, its sibling
  link.
\<close>

type_synonym atom_view = "byte list \<times> bool \<times> nat option \<times> nat option"

abbreviation open_bracket :: "byte list" where
  "open_bracket \<equiv> [40]"

definition link :: "nat \<Rightarrow> nat option \<Rightarrow> sexp list \<Rightarrow> nat option" where
  "link n nx ts = (if ts = [] then nx else Some n)"

lemma link_simps [simp]:
  "link n nx [] = nx"
  "link n nx (t # ts) = Some n"
  "link n nx (ts @ t # us) = Some n"
  by (simp_all add: link_def)

fun tree_lay :: "nat \<Rightarrow> nat option \<Rightarrow> sexp \<Rightarrow> atom_view list"
  and forest_lay :: "nat \<Rightarrow> nat option \<Rightarrow> sexp list \<Rightarrow> atom_view list" where
  "tree_lay n nx (Leaf q b) = [(b, q, None, nx)]"
| "tree_lay n nx (Node us) =
     (open_bracket, False, link (Suc n) None us, nx) # forest_lay (Suc n) None us"
| "forest_lay n nx [] = []"
| "forest_lay n nx (t # ts) =
     tree_lay n (link (n + tree_size t) nx ts) t @ forest_lay (n + tree_size t) nx ts"

lemma length_lay [simp]:
  "length (tree_lay n nx t) = tree_size t"
  "length (forest_lay n nx ts) = forest_size ts"
  by (induction n nx t and n nx ts rule: tree_lay_forest_lay.induct) simp_all

lemma tree_size_pos [simp]: "0 < tree_size t"
  by (cases t) simp_all

lemma forest_size_append [simp]: "forest_size (ts @ us) = forest_size ts + forest_size us"
  by (induction ts) simp_all

lemma link_append: "link n nx (ts @ us) = link n (link (n + k) nx us) ts \<longleftrightarrow> ts \<noteq> [] \<or> us = [] \<or> k = 0"
  by (auto simp: link_def)

lemma forest_lay_append:
  "forest_lay n nx (ts @ us) =
     forest_lay n (link (n + forest_size ts) nx us) ts @ forest_lay (n + forest_size ts) nx us"
  by (induction ts arbitrary: n) (auto simp: link_def add.assoc)

definition set_next :: "nat \<Rightarrow> nat \<Rightarrow> atom_view list \<Rightarrow> atom_view list" where
  "set_next i m xs = (case xs ! i of (b, q, c, nx) \<Rightarrow> xs[i := (b, q, c, Some m)])"

definition set_child :: "nat \<Rightarrow> nat \<Rightarrow> atom_view list \<Rightarrow> atom_view list" where
  "set_child i m xs = (case xs ! i of (b, q, c, nx) \<Rightarrow> xs[i := (b, q, Some m, nx)])"

lemma set_link_append:
  "set_next (length xs + i) m (xs @ ys) = xs @ set_next i m ys"
  "set_child (length xs + i) m (xs @ ys) = xs @ set_child i m ys"
  by (simp_all add: set_next_def set_child_def nth_append list_update_append split: prod.split)

lemma set_link_Cons [simp]:
  "set_next 0 m ((b, q, c, nx) # xs) = (b, q, c, Some m) # xs"
  "set_child 0 m ((b, q, c, nx) # xs) = (b, q, Some m, nx) # xs"
  "set_next (Suc i) m (v # xs) = v # set_next i m xs"
  "set_child (Suc i) m (v # xs) = v # set_child i m xs"
  by (simp_all add: set_next_def set_child_def split: prod.split)

lemma set_next_tree_lay: "tree_lay n (Some m) t = set_next 0 m (tree_lay n nx t)"
  by (cases t) simp_all

text \<open>
  The frames laid out below an owner at index \<open>p\<close>: \<open>cursor_at\<close> is the offset from the owner
  of the atom to which the next one is linked, and whether it becomes its child.
\<close>

definition frames_lay :: "nat \<Rightarrow> byte list \<Rightarrow> sexp list list \<Rightarrow> atom_view list" where
  "frames_lay p b fs =
     (b, False, link (Suc p) None (close_frames fs), None) # forest_lay (Suc p) None (close_frames fs)"

fun cursor_at :: "sexp list list \<Rightarrow> nat \<times> bool" where
  "cursor_at [] = (0, True)"
| "cursor_at [ts] = (if ts = [] then (0, True) else (Suc (forest_size (butlast ts)), False))"
| "cursor_at (ts # f # fs) = (case cursor_at (f # fs) of (i, c) \<Rightarrow> (Suc (forest_size ts) + i, c))"

fun opens_at :: "nat \<Rightarrow> sexp list list \<Rightarrow> nat list" where
  "opens_at p [] = []"
| "opens_at p [ts] = []"
| "opens_at p (ts # f # fs) = (Suc p + forest_size ts) # opens_at (Suc p + forest_size ts) (f # fs)"

definition view_add :: "nat \<times> bool \<Rightarrow> nat \<Rightarrow> atom_view \<Rightarrow> atom_view list \<Rightarrow> atom_view list" where
  "view_add ic m v xs =
     (if snd ic then set_child (fst ic) m xs else set_next (fst ic) m xs) @ [v]"

lemma frames_lay_single:
  "frames_lay p b [ts] = (b, False, link (Suc p) None ts, None) # forest_lay (Suc p) None ts"
  by (simp add: frames_lay_def)

lemma frames_lay_Cons:
  assumes "fs \<noteq> []"
  shows "frames_lay p b (ts # fs) =
     ((b, False, Some (Suc p), None) # forest_lay (Suc p) (Some (Suc p + forest_size ts)) ts)
       @ frames_lay (Suc p + forest_size ts) open_bracket fs"
  using assms
  by (simp add: frames_lay_def close_frames_Cons forest_lay_append)

lemma length_frames_lay [simp]: "length (frames_lay p b fs) = Suc (forest_size (close_frames fs))"
  by (simp add: frames_lay_def)

lemma cursor_at_Cons:
  "fs \<noteq> [] \<Longrightarrow> cursor_at (ts # fs) = (Suc (forest_size ts) + fst (cursor_at fs), snd (cursor_at fs))"
  by (cases fs) (simp_all split: prod.split)

lemma opens_at_Cons:
  "fs \<noteq> [] \<Longrightarrow> opens_at p (ts # fs) = (Suc p + forest_size ts) # opens_at (Suc p + forest_size ts) fs"
  by (cases fs) simp_all

lemma leaf_lay_single:
  "frames_lay p b [ts @ [t]] =
     view_add (cursor_at [ts]) (Suc p + forest_size ts) v (frames_lay p b [ts]) @ vs"
  if "tree_lay (Suc p + forest_size ts) None t = v # vs"
proof (cases ts rule: rev_cases)
  case Nil
  then show ?thesis using that by (simp add: frames_lay_single view_add_def)
next
  case (snoc us u)
  have "set_next (Suc (forest_size us)) m ((b, False, Some (Suc p), None) # forest_lay (Suc p) None ts)
      = (b, False, Some (Suc p), None) # forest_lay (Suc p) (Some m) ts" for m
    using set_link_append(1) [of "forest_lay (Suc p) (Some (Suc p + forest_size us)) us" 0 m
        "tree_lay (Suc p + forest_size us) None u"]
    by (simp add: snoc forest_lay_append flip: set_next_tree_lay)
  then show ?thesis
    using that by (simp add: frames_lay_single view_add_def snoc forest_lay_append add.assoc)
qed

lemma frames_lay_add:
  "fs \<noteq> [] \<Longrightarrow> tree_size t = 1 \<Longrightarrow>
   tree_lay (p + length (frames_lay p b fs)) None t = [v] \<Longrightarrow>
   frames_lay p b (add_inner t fs) =
     view_add (cursor_at fs) (p + length (frames_lay p b fs)) v (frames_lay p b fs)"
proof (induction fs arbitrary: p b)
  case Nil
  then show ?case by simp
next
  case (Cons ts fs)
  show ?case
  proof (cases "fs = []")
    case True
    then show ?thesis using leaf_lay_single [of p ts t v "[]" b] Cons.prems by simp
  next
    case False
    let ?q = "Suc p + forest_size ts"
    have m: "p + length (frames_lay p b (ts # fs)) = ?q + length (frames_lay ?q open_bracket fs)"
      using False by (simp add: frames_lay_Cons)
    have IH: "frames_lay ?q open_bracket (add_inner t fs) =
       view_add (cursor_at fs) (?q + length (frames_lay ?q open_bracket fs)) v
         (frames_lay ?q open_bracket fs)"
      using Cons.IH [OF False Cons.prems(2), of ?q open_bracket] Cons.prems(3) unfolding m by blast
    have sl: "set_next (Suc (forest_size ts) + i) k
        (((b, False, Some (Suc p), None) # forest_lay (Suc p) (Some ?q) ts) @ ys) =
        ((b, False, Some (Suc p), None) # forest_lay (Suc p) (Some ?q) ts) @ set_next i k ys"
      "set_child (Suc (forest_size ts) + i) k
        (((b, False, Some (Suc p), None) # forest_lay (Suc p) (Some ?q) ts) @ ys) =
        ((b, False, Some (Suc p), None) # forest_lay (Suc p) (Some ?q) ts) @ set_child i k ys" for i k ys
      using set_link_append [of "(b, False, Some (Suc p), None) # forest_lay (Suc p) (Some ?q) ts"]
      by simp_all
    show ?thesis
      unfolding m
      by (simp only: add_inner_Cons [OF False] frames_lay_Cons [OF False]
          frames_lay_Cons [of "add_inner t fs"] add_inner_nonempty False IH not_False_eq_True)
         (simp add: view_add_def cursor_at_Cons [OF False] sl [simplified])
  qed
qed

lemma frames_lay_open: "frames_lay p b (open_inner fs) = frames_lay p b (add_inner (Node []) fs)"
  by (simp add: frames_lay_def close_frames_open)

lemma frames_lay_close: "frames_lay p b (close_inner fs) = frames_lay p b fs"
  by (simp add: frames_lay_def close_frames_close)

lemma cursor_at_add:
  "fs \<noteq> [] \<Longrightarrow> cursor_at (add_inner t fs) = (Suc (forest_size (close_frames fs)), False)"
  by (induction fs rule: open_inner.induct) (simp_all add: cursor_at_Cons)

lemma cursor_at_open:
  "fs \<noteq> [] \<Longrightarrow> cursor_at (open_inner fs) = (Suc (forest_size (close_frames fs)), True)"
  by (induction fs rule: open_inner.induct) (simp_all add: cursor_at_Cons)

lemma opens_at_add: "opens_at p (add_inner t fs) = opens_at p fs"
  by (induction fs arbitrary: p rule: open_inner.induct) (simp_all add: opens_at_Cons)

lemma opens_at_open:
  "fs \<noteq> [] \<Longrightarrow>
     opens_at p (open_inner fs) = opens_at p fs @ [p + Suc (forest_size (close_frames fs))]"
  by (induction fs arbitrary: p rule: open_inner.induct) (simp_all add: opens_at_Cons)

lemma opens_at_close:
  "Suc 0 < length fs \<Longrightarrow>
     opens_at p (close_inner fs) = butlast (opens_at p fs)
     \<and> cursor_at (close_inner fs) = (last (opens_at p fs) - p, False) \<and> p < last (opens_at p fs)"
proof (induction fs arbitrary: p)
  case Nil
  then show ?case by simp
next
  case (Cons ts gs)
  show ?case
  proof (cases "Suc 0 < length gs")
    case True
    then have "gs \<noteq> []" and "\<And>q. opens_at q gs \<noteq> []"
      by (auto, cases gs rule: close_inner.cases, simp_all)
    then show ?thesis
      using Cons.IH [OF True, of "Suc p + forest_size ts"] True
      by (auto simp: opens_at_Cons cursor_at_Cons close_inner_Cons)
  next
    case False
    then obtain us where "gs = [us]"
      using Cons.prems by (cases gs) auto
    then show ?thesis by simp
  qed
qed

lemma length_opens_at [simp]: "length (opens_at p fs) = length fs - 1"
  by (induction p fs rule: opens_at.induct) simp_all

end
