(* ===== verification/Imap_Atom.thy ===== *)
theory Imap_Atom
  imports Imap_Tree
begin

text \<open>
  \<open>CImapAtom\<close> (imapsession/src/cimapatom.cpp): the atoms of a parsed response, their setters,
  the case-folded comparison and the repair of their string pointers after the parser's buffer
  has been reallocated. An atom is referred to by its index in the parser's array; index 0 is
  the root. The folding of one octet that \<open>TDesC8::CompareF\<close> uses belongs to the
  platform and is a parameter.
\<close>

section \<open>Atoms\<close>

text \<open>
  \<open>iAtomPtr\<close> and \<open>iAtomLen\<close> are the pointer and the length of the \<open>TPtrC8\<close> member
  \<open>iAtom\<close>; a pointer is an offset from the start of the memory the model looks at (in the
  parser: the start of \<open>iBuffer\<close>).
\<close>

record imap_atom =
  iAtomPtr :: nat
  iAtomLen :: nat
  iAtomIsQuoted :: bool
  iChild :: "nat option"
  iNext :: "nat option"

definition atom_new :: imap_atom where
  "atom_new = \<lparr> iAtomPtr = 0, iAtomLen = 0, iAtomIsQuoted = False, iChild = None, iNext = None \<rparr>"

definition atom_set :: "nat \<Rightarrow> nat \<Rightarrow> bool \<Rightarrow> imap_atom \<Rightarrow> imap_atom" where
  "atom_set ptr len aAtomIsQuoted a =
     a\<lparr> iAtomPtr := ptr, iAtomLen := len, iAtomIsQuoted := aAtomIsQuoted \<rparr>"

definition atom_add_child :: "nat \<Rightarrow> imap_atom \<Rightarrow> imap_atom" where
  "atom_add_child aNewChild a = a\<lparr> iChild := Some aNewChild \<rparr>"

definition atom_add_next :: "nat \<Rightarrow> imap_atom \<Rightarrow> imap_atom" where
  "atom_add_next aNewNext a = a\<lparr> iNext := Some aNewNext \<rparr>"

definition atom_text :: "byte list \<Rightarrow> imap_atom \<Rightarrow> byte list" where
  "atom_text buf a = take (iAtomLen a) (drop (iAtomPtr a) buf)"

definition atom_match :: "(byte \<Rightarrow> byte) \<Rightarrow> byte list \<Rightarrow> imap_atom \<Rightarrow> byte list \<Rightarrow> bool" where
  "atom_match fold_char buf a aVal = compare_f fold_char (atom_text buf a) aVal"

text \<open>\<open>KImapTxtNil\<close> and \<open>KImapTxtOpenBracket\<close>.\<close>

definition KImapTxtNil :: "byte list" where
  "KImapTxtNil = [78, 73, 76]"

definition KImapTxtOpenBracket :: "byte list" where
  "KImapTxtOpenBracket = [40]"

definition atom_string :: "(byte \<Rightarrow> byte) \<Rightarrow> byte list \<Rightarrow> bool \<Rightarrow> imap_atom \<Rightarrow> byte list" where
  "atom_string fold_char buf aNString a =
     (if aNString \<and> \<not> iAtomIsQuoted a \<and> compare_f fold_char (atom_text buf a) KImapTxtNil
      then [] else atom_text buf a)"

lemmas atom_ops = atom_new_def atom_set_def atom_add_child_def atom_add_next_def

section \<open>What a reader sees\<close>

definition view_atom :: "byte list \<Rightarrow> imap_atom \<Rightarrow> atom_view" where
  "view_atom buf a = (atom_text buf a, iAtomIsQuoted a, iChild a, iNext a)"

definition atom_within :: "byte list \<Rightarrow> imap_atom \<Rightarrow> bool" where
  "atom_within buf a \<longleftrightarrow> iAtomPtr a + iAtomLen a \<le> length buf"

lemma view_atom_append: "atom_within buf a \<Longrightarrow> view_atom (buf @ ys) a = view_atom buf a"
  by (simp add: view_atom_def atom_text_def atom_within_def)

lemma atom_within_append: "atom_within buf a \<Longrightarrow> atom_within (buf @ ys) a"
  by (simp add: atom_within_def)

lemma view_atoms_append:
  "list_all (atom_within buf) as \<Longrightarrow> map (view_atom (buf @ ys)) as = map (view_atom buf) as"
  by (induction as) (simp_all add: view_atom_append)

lemma view_atom_new [simp]: "view_atom buf atom_new = ([], False, None, None)"
  by (simp add: view_atom_def atom_text_def atom_ops)

lemma view_links [simp]:
  "view_atom buf (atom_add_child n a) = (case view_atom buf a of (b, q, c, nx) \<Rightarrow> (b, q, Some n, nx))"
  "view_atom buf (atom_add_next n a) = (case view_atom buf a of (b, q, c, nx) \<Rightarrow> (b, q, c, Some n))"
  "atom_within buf (atom_add_child n a) = atom_within buf a"
  "atom_within buf (atom_add_next n a) = atom_within buf a"
  by (simp_all add: view_atom_def atom_ops atom_within_def atom_text_def)

lemma map_view_update:
  "i < length as \<Longrightarrow>
     map (view_atom buf) (as[i := atom_add_child n (as ! i)]) = set_child i n (map (view_atom buf) as)"
  "i < length as \<Longrightarrow>
     map (view_atom buf) (as[i := atom_add_next n (as ! i)]) = set_next i n (map (view_atom buf) as)"
  by (simp_all add: map_update set_child_def set_next_def split: prod.split)

text \<open>Reading the forest below a link by following child and sibling links.\<close>

fun read_forest :: "nat \<Rightarrow> atom_view list \<Rightarrow> nat option \<Rightarrow> sexp list" where
  "read_forest 0 vs l = []"
| "read_forest (Suc k) vs None = []"
| "read_forest (Suc k) vs (Some i) =
     (case vs ! i of (b, q, c, nx) \<Rightarrow>
        (if b = open_bracket \<and> \<not> q then Node (read_forest k vs c) else Leaf q b)
          # read_forest k vs nx)"

fun readable :: "sexp \<Rightarrow> bool" where
  "readable (Leaf q b) \<longleftrightarrow> q \<or> b \<noteq> open_bracket"
| "readable (Node us) \<longleftrightarrow> list_all readable us"

lemma read_forest_None [simp]: "read_forest k vs None = []"
  by (cases k) simp_all

lemma read_forest_lay:
  "\<lbrakk> list_all readable ts; length pre = n; forest_size ts \<le> k \<rbrakk> \<Longrightarrow>
     read_forest k (pre @ forest_lay n None ts @ suf) (link n None ts) = ts"
proof (induction "forest_size ts" arbitrary: ts pre suf n k rule: less_induct)
  case less
  show ?case
  proof (cases ts)
    case Nil
    then show ?thesis by simp
  next
    case (Cons t us)
    have "tree_size t + forest_size us \<le> k" using less.prems Cons by simp
    moreover have pos: "Suc 0 \<le> tree_size t" by (rule Suc_leI) simp
    ultimately obtain k' where k': "k = Suc k'" by (cases k) auto
    have ku: "forest_size us \<le> k'" "forest_size us < forest_size ts"
      using pos \<open>tree_size t + forest_size us \<le> k\<close> k' Cons by simp_all
    let ?vs = "pre @ forest_lay n None ts @ suf"
    have "read_forest k' ((pre @ tree_lay n (link (n + tree_size t) None us) t) @
        forest_lay (n + tree_size t) None us @ suf) (link (n + tree_size t) None us) = us"
      using less.prems Cons ku by (intro less.hyps) auto
    then have nxt: "read_forest k' ?vs (link (n + tree_size t) None us) = us"
      by (simp add: Cons)
    show ?thesis
    proof (cases t)
      case (Leaf q b)
      then show ?thesis using nxt less.prems Cons k' by (auto simp: nth_append)
    next
      case (Node cs)
      have "read_forest k' ((pre @ [(open_bracket, False, link (Suc n) None cs,
            link (n + tree_size t) None us)]) @ forest_lay (Suc n) None cs @
            (forest_lay (n + tree_size t) None us @ suf)) (link (Suc n) None cs) = cs"
        using less.prems Cons k' Node by (intro less.hyps) auto
      then have "read_forest k' ?vs (link (Suc n) None cs) = cs"
        by (simp add: Cons Node)
      then show ?thesis using nxt less.prems Cons k' Node by (auto simp: nth_append)
    qed
  qed
qed

section \<open>Pointer repair after a reallocation\<close>

text \<open>
  \<open>CImapAtom::FixupL\<close>: here \<open>iAtomPtr\<close> is an absolute address, \<open>old\<close> and \<open>new\<close> the
  addresses of the buffer before and after \<open>ReAllocL\<close>. The explicit stack of atoms still to be
  visited is a list with its top first; the fuel bounds the number of visits.
\<close>

definition fixup_atom :: "nat \<Rightarrow> nat \<Rightarrow> imap_atom \<Rightarrow> imap_atom" where
  "fixup_atom new old a =
     (if 0 < iAtomLen a then a\<lparr> iAtomPtr := new + (iAtomPtr a - old) \<rparr> else a)"

definition push_link :: "nat option \<Rightarrow> nat list \<Rightarrow> nat list" where
  "push_link l stk = (case l of None \<Rightarrow> stk | Some i \<Rightarrow> i # stk)"

fun fixup_loop :: "nat \<Rightarrow> nat \<Rightarrow> nat \<Rightarrow> nat list \<Rightarrow> imap_atom list \<Rightarrow> imap_atom list option" where
  "fixup_loop k new old [] as = Some as"
| "fixup_loop 0 new old (i # stk) as = None"
| "fixup_loop (Suc k) new old (i # stk) as =
     (let a = fixup_atom new old (as ! i)
      in fixup_loop k new old (push_link (iChild a) (push_link (iNext a) stk)) (as[i := a]))"

definition fixup :: "nat \<Rightarrow> nat \<Rightarrow> nat \<Rightarrow> nat \<Rightarrow> imap_atom list \<Rightarrow> imap_atom list option" where
  "fixup k aNewBuffer aOldBuffer this as = fixup_loop k aNewBuffer aOldBuffer [this] as"

text \<open>The links of a store, and the links of a layout.\<close>

definition atom_links :: "imap_atom list \<Rightarrow> (nat option \<times> nat option) list" where
  "atom_links as = map (\<lambda>a. (iChild a, iNext a)) as"

definition view_links_of :: "atom_view list \<Rightarrow> (nat option \<times> nat option) list" where
  "view_links_of vs = map (\<lambda>(b, q, c, nx). (c, nx)) vs"

lemma push_link_simps [simp]:
  "push_link None stk = stk"
  "push_link (Some i) stk = i # stk"
  by (simp_all add: push_link_def)

lemma fixup_atom_links [simp]:
  "iChild (fixup_atom new old a) = iChild a"
  "iNext (fixup_atom new old a) = iNext a"
  "iAtomLen (fixup_atom new old a) = iAtomLen a"
  "iAtomIsQuoted (fixup_atom new old a) = iAtomIsQuoted a"
  by (simp_all add: fixup_atom_def)

text \<open>A visit of everything reachable from a link whose atoms are laid out preorder.\<close>

lemma fixup_loop_lay:
  "\<lbrakk> as = pre @ mid @ suf; length pre = n;
     atom_links mid = view_links_of (forest_lay n None ts) \<rbrakk> \<Longrightarrow>
   fixup_loop (forest_size ts + k) new old (push_link (link n None ts) stk) as =
     fixup_loop k new old stk (pre @ map (fixup_atom new old) mid @ suf)"
proof (induction "forest_size ts" arbitrary: ts as pre mid suf n k stk rule: less_induct)
  case less
  show ?case
  proof (cases ts)
    case Nil
    then show ?thesis using less.prems by (simp add: atom_links_def view_links_of_def)
  next
    case (Cons t us)
    define cs where "cs = (case t of Leaf q b \<Rightarrow> [] | Node cs \<Rightarrow> cs)"
    have t: "tree_size t = Suc (forest_size cs)"
      and lay: "view_links_of (tree_lay n nx t) =
        (link (Suc n) None cs, nx) # view_links_of (forest_lay (Suc n) None cs)" for nx
      by (cases t; simp add: cs_def view_links_of_def)+
    have L: "atom_links mid = (link (Suc n) None cs, link (n + tree_size t) None us) #
        view_links_of (forest_lay (Suc n) None cs) @ view_links_of (forest_lay (n + tree_size t) None us)"
      using less.prems(3) lay [of "link (n + tree_size t) None us"]
      by (simp add: Cons view_links_of_def)
    then obtain a rest where mid: "mid = a # rest"
      and al: "iChild a = link (Suc n) None cs" "iNext a = link (n + tree_size t) None us"
      and rest: "atom_links rest = view_links_of (forest_lay (Suc n) None cs) @
          view_links_of (forest_lay (n + tree_size t) None us)"
      by (cases mid) (auto simp: atom_links_def)
    define m1 where "m1 = take (forest_size cs) rest"
    define m2 where "m2 = drop (forest_size cs) rest"
    have rest_split: "rest = m1 @ m2" by (simp add: m1_def m2_def)
    have m1: "atom_links m1 = view_links_of (forest_lay (Suc n) None cs)"
      and m2: "atom_links m2 = view_links_of (forest_lay (n + tree_size t) None us)"
      using rest by (simp_all add: m1_def m2_def atom_links_def view_links_of_def take_map [symmetric]
          drop_map [symmetric])
    have "length (atom_links m1) = length (view_links_of (forest_lay (Suc n) None cs))"
      by (simp only: m1)
    then have len: "length m1 = forest_size cs"
      by (simp add: atom_links_def view_links_of_def)
    let ?a = "fixup_atom new old a"
    have "fixup_loop (forest_size cs + (forest_size us + k)) new old
        (push_link (link (Suc n) None cs) (push_link (link (n + tree_size t) None us) stk))
        ((pre @ [?a]) @ m1 @ (m2 @ suf)) =
      fixup_loop (forest_size us + k) new old (push_link (link (n + tree_size t) None us) stk)
        ((pre @ [?a]) @ map (fixup_atom new old) m1 @ (m2 @ suf))"
      using less.prems m1 t by (intro less.hyps) (simp_all add: Cons)
    also have "\<dots> = fixup_loop (forest_size us + k) new old
        (push_link (link (n + tree_size t) None us) stk)
        ((pre @ ?a # map (fixup_atom new old) m1) @ m2 @ suf)"
      by simp
    also have "\<dots> = fixup_loop k new old stk
        ((pre @ ?a # map (fixup_atom new old) m1) @ map (fixup_atom new old) m2 @ suf)"
      using less.prems m2 t len by (intro less.hyps) (simp_all add: Cons)
    finally show ?thesis
      using less.prems al by (simp add: Cons mid rest_split t nth_append list_update_append add.assoc)
  qed
qed

end
