(* ===== verification/Imap_Parser.thy ===== *)
theory Imap_Parser
  imports Imap_Atom
begin

text \<open>
  \<open>CImapAtomParser\<close> (imapsession/src/cimapatomparser.cpp): the state machine that turns the
  octets of a server response, and the literal blocks between its lines, into the tree of atoms
  the response parsers walk. Atoms live in one array whose index 0 is the root atom; the
  array, the buffer and the stack of open brackets are the members of the class.
\<close>

section \<open>State\<close>

datatype parser_state =
    EStateAtomWait
  | EStateInAtom
  | EStateLiteralLength
  | EStateLiteralSkip
  | EStateLiteralFetch
  | EStateParseComplete

record atom_parser =
  iAllowParseAtTopLevel :: bool
  iParserState :: parser_state
  iParserQuoted :: bool
  iGotEscape :: bool
  iLiteralLength :: tint
  iLiteralSkip :: int
  iBuffer :: "byte list"
  iBufferSize :: nat
  iAtomStart :: nat
  iAtomArray :: "imap_atom list"
  iAtom :: nat
  iAtomStack :: "nat list"
  iNextIsChild :: bool
  iUnparsedData :: "byte list"

definition KIOBufferSize :: nat where "KIOBufferSize = 1280"
definition KIOBufferGranularity :: nat where "KIOBufferGranularity = 256"

definition ap_new :: "bool \<Rightarrow> atom_parser" where
  "ap_new aAllowParseAtTopLevel =
     \<lparr> iAllowParseAtTopLevel = aAllowParseAtTopLevel, iParserState = EStateAtomWait,
       iParserQuoted = False, iGotEscape = False, iLiteralLength = 0, iLiteralSkip = 0,
       iBuffer = [], iBufferSize = KIOBufferSize, iAtomStart = 0, iAtomArray = [atom_new],
       iAtom = 0, iAtomStack = [], iNextIsChild = True, iUnparsedData = [] \<rparr>"

section \<open>The atom stack and the buffer\<close>

definition PushL :: "nat \<Rightarrow> atom_parser \<Rightarrow> atom_parser" where
  "PushL aAtom p = p\<lparr> iAtomStack := aAtom # iAtomStack p \<rparr>"

definition PopL :: "atom_parser \<Rightarrow> (nat \<times> atom_parser) leaving" where
  "PopL p = (case iAtomStack p of
       [] \<Rightarrow> Inl KErrImapCorrupt
     | a # stk \<Rightarrow> Inr (a, p\<lparr> iAtomStack := stk \<rparr>))"

text \<open>\<open>TDes8::Append\<close> panics when the descriptor is full.\<close>

definition des_append :: "nat \<Rightarrow> byte list \<Rightarrow> byte list \<Rightarrow> byte list leaving" where
  "des_append limit buf xs =
     (if length buf + length xs \<le> limit then Inr (buf @ xs) else Inl KPanicDescriptorToSmall)"

definition BufferAppendL :: "byte \<Rightarrow> atom_parser \<Rightarrow> atom_parser leaving" where
  "BufferAppendL aChar p =
     (let p = (if length (iBuffer p) = iBufferSize p
               then p\<lparr> iBufferSize := iBufferSize p + KIOBufferGranularity \<rparr> else p)
      in bind_l (des_append (iBufferSize p) (iBuffer p) [aChar]) (\<lambda>buf. Inr (p\<lparr> iBuffer := buf \<rparr>)))"

text \<open>A new atom appended to the array and linked to the current one as child or sibling.\<close>

definition ap_link_new :: "imap_atom \<Rightarrow> atom_parser \<Rightarrow> atom_parser" where
  "ap_link_new newAtom p =
     (let n = length (iAtomArray p); cur = iAtomArray p ! iAtom p;
          cur' = (if iNextIsChild p then atom_add_child n cur else atom_add_next n cur)
      in p\<lparr> iAtomArray := (iAtomArray p)[iAtom p := cur'] @ [newAtom] \<rparr>)"

definition AddAtomL :: "atom_parser \<Rightarrow> atom_parser" where
  "AddAtomL p =
     (let newAtom = atom_set (iAtomStart p) (length (iBuffer p) - iAtomStart p) (iParserQuoted p) atom_new;
          n = length (iAtomArray p)
      in (ap_link_new newAtom p)\<lparr> iNextIsChild := False, iAtom := n \<rparr>)"

text \<open>An open bracket: its atom holds the bracket, what follows becomes its child.\<close>

definition ap_open :: "byte \<Rightarrow> atom_parser \<Rightarrow> atom_parser leaving" where
  "ap_open octet p =
     (let n = length (iAtomArray p);
          p = (ap_link_new atom_new p)\<lparr> iNextIsChild := True, iAtom := n \<rparr>;
          p = PushL n p
      in bind_l (BufferAppendL octet p) (\<lambda>p.
           Inr (p\<lparr> iAtomArray := (iAtomArray p)
                     [n := atom_set (length (iBuffer p) - 1) 1 False (iAtomArray p ! n)] \<rparr>)))"

text \<open>A close bracket; the flag is \<open>bReachedTopLevel\<close>.\<close>

definition ap_close :: "atom_parser \<Rightarrow> (bool \<times> atom_parser) leaving" where
  "ap_close p = bind_l (PopL p) (\<lambda>(a, p).
     Inr (iAtomStack p = [], p\<lparr> iAtom := a, iNextIsChild := False \<rparr>))"

section \<open>One octet\<close>

definition ap_atom_wait :: "byte \<Rightarrow> atom_parser \<Rightarrow> (bool \<times> atom_parser) leaving" where
  "ap_atom_wait octet p =
     (if octet = 40 then bind_l (ap_open octet p) (\<lambda>p. Inr (False, p))
      else if octet = 41 then ap_close p
      else if octet = 123 then
        Inr (False, p\<lparr> iLiteralLength := 0, iParserQuoted := False,
                       iParserState := EStateLiteralLength \<rparr>)
      else if octet = 32 \<or> octet = 13 then Inr (False, p)
      else if octet = 34 then
        Inr (False, p\<lparr> iAtomStart := length (iBuffer p), iParserState := EStateInAtom,
                       iParserQuoted := True, iGotEscape := False \<rparr>)
      else bind_l (BufferAppendL octet (p\<lparr> iAtomStart := length (iBuffer p) \<rparr>)) (\<lambda>p.
        Inr (False, p\<lparr> iParserState := EStateInAtom, iParserQuoted := False \<rparr>)))"

definition ap_in_atom :: "byte \<Rightarrow> atom_parser \<Rightarrow> (bool \<times> atom_parser) leaving" where
  "ap_in_atom octet p =
     (if iParserQuoted p then
        (if octet = 34 then
           (if iGotEscape p then
              bind_l (BufferAppendL octet p) (\<lambda>p. Inr (False, p\<lparr> iGotEscape := False \<rparr>))
            else Inr (False, (AddAtomL p)\<lparr> iParserState := EStateAtomWait \<rparr>))
         else if \<not> iGotEscape p \<and> octet = 92 then Inr (False, p\<lparr> iGotEscape := True \<rparr>)
         else bind_l (BufferAppendL octet p) (\<lambda>p. Inr (False, p\<lparr> iGotEscape := False \<rparr>)))
      else if octet = 32 \<or> octet = 13 then
        Inr (False, (AddAtomL p)\<lparr> iParserState := EStateAtomWait \<rparr>)
      else if octet = 40 then
        bind_l (ap_open octet (AddAtomL p)) (\<lambda>p. Inr (False, p\<lparr> iParserState := EStateAtomWait \<rparr>))
      else if octet = 41 then
        (if 0 < length (iAtomStack p) then
           bind_l (ap_close (AddAtomL p)) (\<lambda>(t, p). Inr (t, p\<lparr> iParserState := EStateAtomWait \<rparr>))
         else bind_l (BufferAppendL octet p) (\<lambda>p. Inr (False, p)))
      else bind_l (BufferAppendL octet p) (\<lambda>p. Inr (False, p)))"

definition is_digit :: "byte \<Rightarrow> bool" where
  "is_digit octet \<longleftrightarrow> 48 \<le> octet \<and> octet \<le> 57"

definition ap_literal_length :: "byte \<Rightarrow> atom_parser \<Rightarrow> (bool \<times> atom_parser) leaving" where
  "ap_literal_length octet p =
     (if is_digit octet then
        (let n = iLiteralLength p * 10 + (ucast octet - 48)
         in if n <s 0 then Inl KErrCorrupt else Inr (False, p\<lparr> iLiteralLength := n \<rparr>))
      else if octet = 125 then
        Inr (False, p\<lparr> iLiteralSkip := 2, iParserState := EStateLiteralSkip,
                       iAtomStart := length (iBuffer p) \<rparr>)
      else Inr (False, p))"

text \<open>\<open>prev\<close> is \<open>aLine[pos - 2]\<close> when \<open>pos >= 2\<close>.\<close>

definition ap_literal_skip :: "byte option \<Rightarrow> atom_parser \<Rightarrow> (bool \<times> atom_parser) leaving" where
  "ap_literal_skip prev p =
     (let p = p\<lparr> iLiteralSkip := iLiteralSkip p - 1 \<rparr>
      in if iLiteralSkip p \<noteq> 0 then Inr (False, p)
         else if iLiteralLength p = 0 then Inr (False, p\<lparr> iParserState := EStateAtomWait \<rparr>)
         else if prev \<noteq> None \<and> prev \<noteq> Some 93 then Inr (False, p\<lparr> iParserState := EStateAtomWait \<rparr>)
         else Inr (False, AddAtomL (p\<lparr> iParserState := EStateLiteralFetch,
                                       iAtomStart := length (iBuffer p) \<rparr>)))"

definition ap_step :: "byte option \<Rightarrow> byte \<Rightarrow> atom_parser \<Rightarrow> (bool \<times> atom_parser) leaving" where
  "ap_step prev octet p = (case iParserState p of
       EStateAtomWait \<Rightarrow> ap_atom_wait octet p
     | EStateInAtom \<Rightarrow> ap_in_atom octet p
     | EStateLiteralLength \<Rightarrow> ap_literal_length octet p
     | EStateLiteralSkip \<Rightarrow> ap_literal_skip prev p
     | EStateLiteralFetch \<Rightarrow> Inr (False, p)
     | EStateParseComplete \<Rightarrow> Inr (False, p))"

section \<open>A line and a literal block\<close>

text \<open>
  \<open>before\<close> holds the octets already processed, last first, so that \<open>pos\<close> is its length. The
  loop breaks without advancing \<open>pos\<close> once the top level has been reached.
\<close>

definition char_before :: "byte list \<Rightarrow> byte option" where
  "char_before before = (if 2 \<le> length before then Some (before ! 1) else None)"

fun ap_loop :: "byte list \<Rightarrow> byte list \<Rightarrow> bool \<Rightarrow> atom_parser \<Rightarrow> (nat \<times> bool \<times> atom_parser) leaving" where
  "ap_loop before [] reached p = Inr (length before, reached, p)"
| "ap_loop before (octet # rest) reached p =
     bind_l (ap_step (char_before before) octet p) (\<lambda>(t, p).
       if (reached \<or> t) \<and> \<not> iAllowParseAtTopLevel p then Inr (length before, reached \<or> t, p)
       else ap_loop (octet # before) rest (reached \<or> t) p)"

definition ap_unparsed :: "byte list \<Rightarrow> nat \<Rightarrow> bool \<Rightarrow> atom_parser \<Rightarrow> atom_parser" where
  "ap_unparsed aLine pos bReachedTopLevel p =
     (if bReachedTopLevel \<and> Suc pos < length aLine
      then p\<lparr> iUnparsedData := drop (Suc pos) aLine \<rparr> else p)"

definition ap_end_of_line :: "atom_parser \<Rightarrow> (bool \<times> atom_parser) leaving" where
  "ap_end_of_line p =
     (let finish = (\<lambda>p. if iParserState p = EStateAtomWait
                        then (False, p\<lparr> iParserState := EStateParseComplete \<rparr>) else (True, p))
      in if iParserState p = EStateInAtom
         then Inr (finish ((AddAtomL p)\<lparr> iParserState := EStateAtomWait \<rparr>))
         else if iParserState p = EStateLiteralLength then Inl KErrImapCorrupt
         else Inr (finish p))"

definition ProcessLineL :: "byte list \<Rightarrow> atom_parser \<Rightarrow> (bool \<times> atom_parser) leaving" where
  "ProcessLineL aLine p = bind_l (ap_loop [] aLine False p) (\<lambda>(pos, reached, p).
     ap_end_of_line (ap_unparsed aLine pos reached p))"

definition ProcessLiteralBlockL :: "byte list \<Rightarrow> atom_parser \<Rightarrow> atom_parser leaving" where
  "ProcessLiteralBlockL aLiteralBlock p =
     (let n = nat (sint (iLiteralLength p));
          sz = iBufferSize p + n;
          p = (if length (iBuffer p) + n > iBufferSize p
               then p\<lparr> iBufferSize := sz + (KIOBufferGranularity - sz mod KIOBufferGranularity) \<rparr>
               else p)
      in bind_l (des_append (iBufferSize p) (iBuffer p) aLiteralBlock) (\<lambda>buf.
           Inr ((AddAtomL (p\<lparr> iBuffer := buf \<rparr>))\<lparr> iParserState := EStateAtomWait \<rparr>)))"

section \<open>The invariant\<close>

definition ap_views :: "atom_parser \<Rightarrow> atom_view list" where
  "ap_views p = map (view_atom (iBuffer p)) (iAtomArray p)"

definition store_rep :: "atom_parser \<Rightarrow> sexp list list \<Rightarrow> bool" where
  "store_rep p fs \<longleftrightarrow> fs \<noteq> [] \<and> list_all (atom_within (iBuffer p)) (iAtomArray p) \<and>
     ap_views p = frames_lay 0 [] fs \<and> cursor_at fs = (iAtom p, iNextIsChild p) \<and>
     rev (iAtomStack p) = opens_at 0 fs"

definition buffer_ok :: "atom_parser \<Rightarrow> bool" where
  "buffer_ok p \<longleftrightarrow> length (iBuffer p) \<le> iBufferSize p \<and> iAtomStart p \<le> length (iBuffer p)"

definition parser_rep :: "atom_parser \<Rightarrow> sexp list list \<Rightarrow> bool" where
  "parser_rep p fs \<longleftrightarrow> store_rep p fs \<and> buffer_ok p"

definition buf_put :: "byte \<Rightarrow> atom_parser \<Rightarrow> atom_parser" where
  "buf_put c p = p\<lparr> iBufferSize := (if length (iBuffer p) = iBufferSize p
     then iBufferSize p + KIOBufferGranularity else iBufferSize p), iBuffer := iBuffer p @ [c] \<rparr>"

lemma BufferAppendL_ok [simp]:
  "length (iBuffer p) \<le> iBufferSize p \<Longrightarrow> BufferAppendL c p = Inr (buf_put c p)"
  by (simp add: BufferAppendL_def buf_put_def des_append_def KIOBufferGranularity_def)

lemma buf_put_buffer_ok [atom_inv]: "buffer_ok p \<Longrightarrow> buffer_ok (buf_put c p)"
  by (auto simp: buffer_ok_def buf_put_def KIOBufferGranularity_def)

lemma store_rep_buf_put [atom_inv]: "store_rep p fs \<Longrightarrow> store_rep (buf_put c p) fs"
  by (auto simp: store_rep_def buf_put_def ap_views_def view_atoms_append list_all_iff
      atom_within_append)

lemma parser_rep_buf_put: "parser_rep p fs \<Longrightarrow> parser_rep (buf_put c p) fs"
  by (simp add: parser_rep_def atom_inv)

lemma stack_length: "store_rep p fs \<Longrightarrow> length (iAtomStack p) = length fs - 1"
  by (metis length_opens_at length_rev store_rep_def)

lemma store_rep_cursor:
  assumes "store_rep p fs"
  shows "iAtom p < length (iAtomArray p)" "length (iAtomArray p) = Suc (forest_size (close_frames fs))"
proof -
  have "fst (cursor_at fs) < length (frames_lay 0 [] fs)" if "fs \<noteq> []" for fs
    using that
  proof (induction fs rule: open_inner.induct)
    case (2 ts)
    then show ?case by (cases ts rule: rev_cases) (simp_all add: tree_size_pos)
  next
    case (3 ts f fs)
    then show ?case by (auto simp: close_frames_Cons split: prod.split)
  qed simp
  moreover have "length (iAtomArray p) = length (frames_lay 0 [] fs)"
    using assms unfolding store_rep_def ap_views_def by (metis length_map)
  ultimately show "iAtom p < length (iAtomArray p)"
    "length (iAtomArray p) = Suc (forest_size (close_frames fs))"
    using assms by (auto simp: store_rep_def) (metis fst_conv)
qed

lemma views_link_new:
  assumes "store_rep p fs"
  shows "ap_views (ap_link_new a p) =
    view_add (cursor_at fs) (length (iAtomArray p)) (view_atom (iBuffer p) a) (ap_views p)"
  using assms store_rep_cursor(1) [OF assms]
  by (simp add: ap_link_new_def ap_views_def view_add_def store_rep_def Let_def map_view_update)

lemma within_link_new:
  assumes "store_rep p fs" "atom_within (iBuffer p) a"
  shows "list_all (atom_within (iBuffer p)) (iAtomArray (ap_link_new a p))"
proof -
  have "atom_within (iBuffer p) (iAtomArray p ! iAtom p)"
    using assms store_rep_cursor(1) [OF assms(1)] by (simp add: store_rep_def list_all_length)
  then show ?thesis
    using assms
    by (auto simp: ap_link_new_def Let_def store_rep_def list_all_iff dest!: set_update_subset_insert [THEN subsetD])
qed

lemma view_add_open:
  assumes "store_rep p fs" "tree_lay (length (iAtomArray p)) None t = [v]"
  shows "view_add (cursor_at fs) (length (iAtomArray p)) v (frames_lay 0 [] fs) =
    frames_lay 0 [] (add_inner t fs)"
proof -
  have "tree_size t = 1"
    using length_lay(1) [of "length (iAtomArray p)" None t] assms(2) by simp
  then show ?thesis
    using frames_lay_add [of fs t 0 "[]" v] assms store_rep_cursor(2) [OF assms(1)]
    by (simp add: store_rep_def)
qed

lemma AddAtomL_store [atom_inv]:
  assumes "parser_rep p fs"
  shows "store_rep (AddAtomL p) (add_inner (Leaf (iParserQuoted p) (drop (iAtomStart p) (iBuffer p))) fs)"
proof -
  let ?a = "atom_set (iAtomStart p) (length (iBuffer p) - iAtomStart p) (iParserQuoted p) atom_new"
  let ?v = "(drop (iAtomStart p) (iBuffer p), iParserQuoted p, None, None)"
  have rep: "store_rep p fs" and b: "buffer_ok p" using assms by (simp_all add: parser_rep_def)
  have v: "view_atom (iBuffer p) ?a = ?v"
    by (simp add: view_atom_def atom_text_def atom_ops)
  have w: "atom_within (iBuffer p) ?a"
    using b by (simp add: atom_within_def atom_ops buffer_ok_def)
  have fields: "iBuffer (AddAtomL p) = iBuffer p" "iAtomArray (AddAtomL p) = iAtomArray (ap_link_new ?a p)"
    "iAtom (AddAtomL p) = length (iAtomArray p)" "\<not> iNextIsChild (AddAtomL p)"
    "iAtomStack (AddAtomL p) = iAtomStack p"
    by (simp_all add: AddAtomL_def ap_link_new_def Let_def)
  have views: "ap_views (AddAtomL p) = ap_views (ap_link_new ?a p)"
    by (simp add: ap_views_def fields) (simp add: ap_link_new_def Let_def)
  show ?thesis
    using rep within_link_new [OF rep w] views_link_new [OF rep, of ?a] store_rep_cursor(2) [OF rep]
      view_add_open [OF rep, of "Leaf (iParserQuoted p) (drop (iAtomStart p) (iBuffer p))" ?v]
    by (simp add: store_rep_def fields views v cursor_at_add opens_at_add)
qed

lemma AddAtomL_fields [simp]:
  "iBuffer (AddAtomL p) = iBuffer p" "iBufferSize (AddAtomL p) = iBufferSize p"
  "iAtomStart (AddAtomL p) = iAtomStart p" "iAtomStack (AddAtomL p) = iAtomStack p"
  "iParserState (AddAtomL p) = iParserState p" "iParserQuoted (AddAtomL p) = iParserQuoted p"
  "iAllowParseAtTopLevel (AddAtomL p) = iAllowParseAtTopLevel p"
  "iUnparsedData (AddAtomL p) = iUnparsedData p"
  "iLiteralLength (AddAtomL p) = iLiteralLength p"
  by (simp_all add: AddAtomL_def ap_link_new_def Let_def)

lemma AddAtomL_rep:
  "parser_rep p fs \<Longrightarrow>
     parser_rep (AddAtomL p) (add_inner (Leaf (iParserQuoted p) (drop (iAtomStart p) (iBuffer p))) fs)"
  using AddAtomL_store [of p fs] by (simp add: parser_rep_def buffer_ok_def)

text \<open>Fields the representation does not read.\<close>

lemma parser_rep_fields [simp]:
  "parser_rep (p\<lparr> iParserState := s \<rparr>) fs = parser_rep p fs"
  "parser_rep (p\<lparr> iParserQuoted := b \<rparr>) fs = parser_rep p fs"
  "parser_rep (p\<lparr> iGotEscape := b \<rparr>) fs = parser_rep p fs"
  "parser_rep (p\<lparr> iLiteralLength := l \<rparr>) fs = parser_rep p fs"
  "parser_rep (p\<lparr> iLiteralSkip := k \<rparr>) fs = parser_rep p fs"
  "parser_rep (p\<lparr> iUnparsedData := u \<rparr>) fs = parser_rep p fs"
  by (simp_all add: parser_rep_def store_rep_def ap_views_def buffer_ok_def)

lemma parser_rep_start [simp]:
  "parser_rep p fs \<Longrightarrow> k \<le> length (iBuffer p) \<Longrightarrow> parser_rep (p\<lparr> iAtomStart := k \<rparr>) fs"
  by (simp_all add: parser_rep_def store_rep_def ap_views_def buffer_ok_def)

lemma ap_open_rep:
  assumes "parser_rep p fs"
  shows "\<exists>p'. ap_open 40 p = Inr p' \<and> parser_rep p' (open_inner fs)
     \<and> iParserState p' = iParserState p \<and> iAllowParseAtTopLevel p' = iAllowParseAtTopLevel p
     \<and> iUnparsedData p' = iUnparsedData p"
proof -
  have rep: "store_rep p fs" and b: "buffer_ok p" using assms by (simp_all add: parser_rep_def)
  let ?n = "length (iAtomArray p)"
  let ?l = "ap_link_new atom_new p"
  let ?p1 = "buf_put 40 (PushL ?n (?l\<lparr> iNextIsChild := True, iAtom := ?n \<rparr>))"
  let ?p2 = "?p1\<lparr> iAtomArray := (iAtomArray ?p1)
               [?n := atom_set (length (iBuffer ?p1) - 1) 1 False (iAtomArray ?p1 ! ?n)] \<rparr>"
  obtain xs where arr: "iAtomArray ?l = xs @ [atom_new]" and xs_len: "length xs = ?n"
    by (simp add: ap_link_new_def Let_def)
  have lf: "iBuffer ?l = iBuffer p" "iBufferSize ?l = iBufferSize p" "iAtomStart ?l = iAtomStart p"
    "iAtomStack ?l = iAtomStack p"
    "iParserState ?l = iParserState p" "iAllowParseAtTopLevel ?l = iAllowParseAtTopLevel p"
    "iUnparsedData ?l = iUnparsedData p"
    by (simp_all add: ap_link_new_def Let_def)
  have run: "ap_open 40 p = Inr ?p2"
    using b by (simp add: ap_open_def Let_def PushL_def lf buffer_ok_def)
  have f2: "iAtomArray ?p2 = xs @ [atom_set (length (iBuffer p)) 1 False atom_new]"
    "iBuffer ?p2 = iBuffer p @ [40]" "iAtom ?p2 = ?n" "iNextIsChild ?p2"
    "iAtomStack ?p2 = ?n # iAtomStack p" "iParserState ?p2 = iParserState p"
    "iAllowParseAtTopLevel ?p2 = iAllowParseAtTopLevel p" "iUnparsedData ?p2 = iUnparsedData p"
    by (simp_all add: buf_put_def PushL_def lf arr nth_append flip: xs_len)
  have ok: "buffer_ok ?p2"
    using b by (auto simp: buffer_ok_def buf_put_def PushL_def lf KIOBufferGranularity_def)
  obtain q where q: "ap_open 40 p = Inr q" "buffer_ok q"
    and arr_q: "iAtomArray q = xs @ [atom_set (length (iBuffer p)) 1 False atom_new]"
    and buf_q: "iBuffer q = iBuffer p @ [40]"
    and flds: "iAtom q = ?n" "iNextIsChild q" "iAtomStack q = ?n # iAtomStack p"
    and rest: "iParserState q = iParserState p" "iUnparsedData q = iUnparsedData p"
      "iAllowParseAtTopLevel q = iAllowParseAtTopLevel p"
    using run ok f2 by blast
  have win: "list_all (atom_within (iBuffer p)) (xs @ [atom_new])"
    by (rule within_link_new [OF rep, of atom_new, unfolded arr]) (simp add: atom_within_def atom_ops)
  have views: "map (view_atom (iBuffer p)) xs @ [([], False, None, None)] =
      view_add (cursor_at fs) ?n ([], False, None, None) (ap_views p)"
    using views_link_new [OF rep, of atom_new] by (simp add: ap_views_def arr lf)
  have "ap_views q = map (view_atom (iBuffer p)) xs @ [(open_bracket, False, None, None)]"
    unfolding ap_views_def arr_q buf_q using win
    by (simp add: view_atoms_append) (simp add: view_atom_def atom_text_def atom_ops)
  also have "\<dots> = view_add (cursor_at fs) ?n (open_bracket, False, None, None) (ap_views p)"
    using views by (simp add: view_add_def)
  also have "\<dots> = frames_lay 0 [] (open_inner fs)"
    using rep view_add_open [OF rep, of "Node []" "(open_bracket, False, None, None)"]
    by (simp add: frames_lay_open store_rep_def)
  finally have "ap_views q = frames_lay 0 [] (open_inner fs)" .
  moreover have "list_all (atom_within (iBuffer q)) (iAtomArray q)"
    unfolding arr_q buf_q using win
    by (auto simp: list_all_iff atom_within_append) (simp add: atom_within_def atom_ops)
  ultimately have "store_rep q (open_inner fs)"
    using rep store_rep_cursor(2) [OF rep]
    by (simp add: store_rep_def flds cursor_at_open opens_at_open)
  then show ?thesis
    using q rest by (auto simp: parser_rep_def)
qed

lemma PopL_underflow: "iAtomStack p = [] \<Longrightarrow> ap_close p = Inl KErrImapCorrupt"
  by (simp add: ap_close_def PopL_def)

lemma ap_close_rep:
  assumes "parser_rep p fs" "Suc 0 < length fs"
  shows "\<exists>p'. ap_close p = Inr (length fs = 2, p') \<and> parser_rep p' (close_inner fs)
     \<and> iParserState p' = iParserState p \<and> iAllowParseAtTopLevel p' = iAllowParseAtTopLevel p
     \<and> iUnparsedData p' = iUnparsedData p"
proof -
  have rep: "store_rep p fs" and b: "buffer_ok p" using assms(1) by (simp_all add: parser_rep_def)
  obtain a stk where stk: "iAtomStack p = a # stk"
    using stack_length [OF rep] assms(2) by (cases "iAtomStack p") simp_all
  have len: "Suc (length stk) = length fs - 1"
    using stack_length [OF rep] stk by simp
  let ?p = "p\<lparr> iAtomStack := stk, iAtom := a, iNextIsChild := False \<rparr>"
  have ops: "opens_at 0 fs = rev stk @ [a]"
    using rep stk by (simp add: store_rep_def)
  have "store_rep ?p (close_inner fs)"
    using rep opens_at_close [OF assms(2), of 0] assms(2)
    by (simp add: store_rep_def ap_views_def frames_lay_close ops)
  moreover have "(stk = []) = (length fs = 2)"
    using len assms(2) by auto
  ultimately show ?thesis
    using b stk by (simp add: ap_close_def PopL_def parser_rep_def buffer_ok_def)
qed

end
