(* ===== verification/Imap_Reader.thy ===== *)
theory Imap_Reader
  imports Imap_Tree Imap_Parser
begin

text \<open>
  The text an IMAP server sends for a forest of s-expressions (RFC 3501, section 4: atoms,
  quoted strings and parenthesized lists), and the contract of a reader of that text: one law
  for each token, from which the reading of a whole forest follows.
\<close>

section \<open>Printing\<close>

fun print_escaped :: "byte list \<Rightarrow> byte list" where
  "print_escaped [] = []"
| "print_escaped (c # cs) = (if c = 34 \<or> c = 92 then 92 # c # print_escaped cs else c # print_escaped cs)"

definition print_leaf :: "bool \<Rightarrow> byte list \<Rightarrow> byte list" where
  "print_leaf q b = (if q then [34] @ print_escaped b @ [34] else b)"

fun print_tree :: "sexp \<Rightarrow> byte list" and print_forest :: "sexp list \<Rightarrow> byte list" where
  "print_tree (Leaf q b) = print_leaf q b"
| "print_tree (Node us) = [40] @ print_forest us @ [41]"
| "print_forest [] = []"
| "print_forest (t # ts) = print_tree t @ (if ts = [] then [] else [32] @ print_forest ts)"

definition sep :: "sexp list \<Rightarrow> byte list" where
  "sep ts = (if ts = [] then [] else [32])"

lemma print_forest_snoc: "print_forest (ts @ [t]) = print_forest ts @ sep ts @ print_tree t"
  by (induction ts) (simp_all add: sep_def)

text \<open>An unquoted atom is not empty, does not start a string or a literal and holds no delimiter.\<close>

definition plain_atom :: "byte list \<Rightarrow> bool" where
  "plain_atom b \<longleftrightarrow> b \<noteq> [] \<and> hd b \<noteq> 34 \<and> hd b \<noteq> 123 \<and>
     list_all (\<lambda>c. c \<noteq> 32 \<and> c \<noteq> 13 \<and> c \<noteq> 40 \<and> c \<noteq> 41) b"

fun printable :: "sexp \<Rightarrow> bool" where
  "printable (Leaf q b) \<longleftrightarrow> q \<or> plain_atom b"
| "printable (Node us) \<longleftrightarrow> list_all printable us"

section \<open>The contract of a reader\<close>

text \<open>
  \<open>run xs s\<close> feeds the octets \<open>xs\<close>; \<open>rep s fs\<close> says that \<open>s\<close> has read the frames \<open>fs\<close>, an
  unterminated atom included; \<open>clean s\<close> that no atom is unterminated. The reader may close
  brackets only while more than \<open>floor\<close> frames are open.
\<close>

locale sexp_reader =
  fixes run :: "byte list \<Rightarrow> 's \<Rightarrow> 's leaving"
    and rep :: "'s \<Rightarrow> sexp list list \<Rightarrow> bool"
    and clean :: "'s \<Rightarrow> bool"
    and low :: nat
  assumes run_Nil: "run [] s = Inr s"
    and run_append: "run (xs @ ys) s = bind_l (run xs s) (run ys)"
    and run_space: "rep s fs \<Longrightarrow> \<exists>s'. run [32] s = Inr s' \<and> rep s' fs \<and> clean s'"
    and run_open: "rep s fs \<Longrightarrow> \<exists>s'. run [40] s = Inr s' \<and> rep s' (open_inner fs) \<and> clean s'"
    and run_close: "rep s fs \<Longrightarrow> low < length fs \<Longrightarrow> Suc 0 < length fs \<Longrightarrow>
      \<exists>s'. run [41] s = Inr s' \<and> rep s' (close_inner fs) \<and> clean s'"
    and run_leaf: "rep s fs \<Longrightarrow> clean s \<Longrightarrow> q \<or> plain_atom b \<Longrightarrow>
      \<exists>s'. run (print_leaf q b) s = Inr s' \<and> rep s' (add_inner (Leaf q b) fs)"
    and rep_nonempty: "rep s fs \<Longrightarrow> fs \<noteq> []"
begin

lemma run_seq: "run xs s = Inr s' \<Longrightarrow> run (xs @ ys) s = run ys s'"
  by (simp add: run_append)

lemma reads_print:
  "printable t \<Longrightarrow> rep s fs \<Longrightarrow> clean s \<Longrightarrow> low \<le> length fs \<Longrightarrow>
     \<exists>s'. run (print_tree t) s = Inr s' \<and> rep s' (add_inner t fs)"
  "list_all printable ts \<Longrightarrow> rep s fs \<Longrightarrow> clean s \<Longrightarrow> low \<le> length fs \<Longrightarrow>
     \<exists>s'. run (print_forest ts) s = Inr s' \<and> rep s' (add_all ts fs)"
proof (induction t and ts arbitrary: s fs and s fs rule: print_tree_print_forest.induct)
  case (1 q b)
  then show ?case using run_leaf [of s fs q b] by simp
next
  case (2 us)
  obtain s1 where s1: "run [40] s = Inr s1" "rep s1 (open_inner fs)" "clean s1"
    using run_open 2 by blast
  have ne: "fs \<noteq> []" using 2 rep_nonempty by blast
  obtain s2 where s2: "run (print_forest us) s1 = Inr s2" "rep s2 (add_all us (open_inner fs))"
    using 2 s1 ne by force
  obtain s3 where s3: "run [41] s2 = Inr s3" "rep s3 (close_inner (add_all us (open_inner fs)))"
    using run_close [OF s2(2)] 2 ne by (auto simp: less_Suc_eq_le Suc_le_eq)
  have "run (print_tree (Node us)) s = Inr s3"
    by (simp only: print_tree.simps run_seq [OF s1(1)] run_seq [OF s2(1)] s3(1))
  then show ?case using s3 ne by (auto simp: close_add_open)
next
  case 3
  then show ?case by (simp add: run_Nil)
next
  case (4 t ts)
  obtain s1 where s1: "run (print_tree t) s = Inr s1" "rep s1 (add_inner t fs)"
    using 4 by force
  show ?case
  proof (cases "ts = []")
    case True
    then show ?thesis using s1 by simp
  next
    case False
    obtain s2 where s2: "run [32] s1 = Inr s2" "rep s2 (add_inner t fs)" "clean s2"
      using run_space s1 by blast
    obtain s3 where s3: "run (print_forest ts) s2 = Inr s3" "rep s3 (add_all ts (add_inner t fs))"
      using 4 False s2 by force
    have "run (print_forest (t # ts)) s = Inr s3"
      by (simp only: print_forest.simps False if_False run_seq [OF s1(1)] run_seq [OF s2(1)] s3(1))
    then show ?thesis using s3 by auto
  qed
qed

text \<open>Leaves need no bracket to be closed.\<close>

lemma reads_leaves:
  "list_all printable ts \<Longrightarrow> list_all (\<lambda>t. \<exists>q b. t = Leaf q b) ts \<Longrightarrow> rep s fs \<Longrightarrow> clean s \<Longrightarrow>
     \<exists>s'. run (print_forest ts) s = Inr s' \<and> rep s' (add_all ts fs)"
proof (induction ts arbitrary: s fs)
  case Nil
  then show ?case by (simp add: run_Nil)
next
  case (Cons t ts)
  then obtain q b where t: "t = Leaf q b" by auto
  obtain s1 where s1: "run (print_tree t) s = Inr s1" "rep s1 (add_inner t fs)"
    using run_leaf [of s fs q b] Cons.prems by (auto simp: t)
  show ?case
  proof (cases "ts = []")
    case True
    then show ?thesis using s1 by simp
  next
    case False
    obtain s2 where s2: "run [32] s1 = Inr s2" "rep s2 (add_inner t fs)" "clean s2"
      using run_space s1 by blast
    obtain s3 where s3: "run (print_forest ts) s2 = Inr s3" "rep s3 (add_all ts (add_inner t fs))"
      using Cons.IH [OF _ _ s2(2,3)] Cons.prems by auto
    have "run (print_forest (t # ts)) s = Inr s3"
      by (simp only: print_forest.simps False if_False run_seq [OF s1(1)] run_seq [OF s2(1)] s3(1))
    then show ?thesis using s3 by auto
  qed
qed

end

text \<open>
  The atom parser as a reader of printed s-expressions: the laws of \<open>sexp_reader\<close> for
  \<open>ap_step\<close>, and what they give for \<open>ProcessLineL\<close> and \<open>ProcessLiteralBlockL\<close>.
\<close>

section \<open>Runs of octets\<close>

fun ap_run :: "byte list \<Rightarrow> byte list \<times> bool \<times> atom_parser \<Rightarrow> (byte list \<times> bool \<times> atom_parser) leaving" where
  "ap_run [] s = Inr s"
| "ap_run (c # cs) (b, t, p) =
     bind_l (ap_step (char_before b) c p) (\<lambda>(t', p'). ap_run cs (c # b, t \<or> t', p'))"

lemma ap_run_append: "ap_run (xs @ ys) s = bind_l (ap_run xs s) (ap_run ys)"
proof (induction xs arbitrary: s)
  case (Cons c xs)
  obtain b t p where s: "s = (b, t, p)" by (cases s)
  show ?case
    unfolding s
    by (cases "ap_step (char_before b) c p") (auto simp: Cons.IH)
qed simp

lemma ap_open_allow:
  "ap_open c p = Inr p' \<Longrightarrow> iAllowParseAtTopLevel p' = iAllowParseAtTopLevel p \<and>
     iUnparsedData p' = iUnparsedData p"
  by (auto simp: ap_open_def Let_def bind_l_eq_Inr BufferAppendL_def PushL_def ap_link_new_def
      split: if_splits)

lemma ap_step_allow:
  "ap_step prev c p = Inr (t, p') \<Longrightarrow> iAllowParseAtTopLevel p' = iAllowParseAtTopLevel p \<and>
     iUnparsedData p' = iUnparsedData p"
  by (auto simp: ap_step_def ap_atom_wait_def ap_in_atom_def ap_literal_length_def
      ap_literal_skip_def ap_close_def PopL_def Let_def bind_l_eq_Inr BufferAppendL_def
      dest!: ap_open_allow split: parser_state.splits if_splits list.splits)

lemma ap_run_mono:
  "ap_run xs (b, t, p) = Inr (b', t', p') \<Longrightarrow>
     b' = rev xs @ b \<and> (t \<longrightarrow> t') \<and> iAllowParseAtTopLevel p' = iAllowParseAtTopLevel p \<and>
       iUnparsedData p' = iUnparsedData p"
proof (induction xs arbitrary: b t p)
  case (Cons c xs)
  then obtain t1 p1 where "ap_step (char_before b) c p = Inr (t1, p1)"
    "ap_run xs (c # b, t \<or> t1, p1) = Inr (b', t', p')"
    by (auto simp: bind_l_eq_Inr)
  then show ?case using Cons.IH [of "c # b" "t \<or> t1" p1] ap_step_allow by auto
qed simp

text \<open>As long as the loop of \<open>ProcessLineL\<close> does not break, it is such a run.\<close>

lemma ap_loop_run:
  "ap_run xs (b, t, p) = Inr (b', t', p') \<Longrightarrow> t' \<longrightarrow> iAllowParseAtTopLevel p \<Longrightarrow>
     ap_loop b (xs @ ys) t p = ap_loop b' ys t' p'"
proof (induction xs arbitrary: b t p)
  case (Cons c xs)
  then obtain t1 p1 where s: "ap_step (char_before b) c p = Inr (t1, p1)"
    and r: "ap_run xs (c # b, t \<or> t1, p1) = Inr (b', t', p')"
    by (auto simp: bind_l_eq_Inr)
  have "iAllowParseAtTopLevel p1 = iAllowParseAtTopLevel p" using ap_step_allow [OF s] by simp
  moreover have "t \<or> t1 \<longrightarrow> t'" using ap_run_mono [OF r] by blast
  ultimately show ?case
    using Cons.IH [OF r] Cons.prems s by auto
qed simp

section \<open>The reader laws\<close>

definition reader_rep :: "bool \<Rightarrow> byte list \<times> bool \<times> atom_parser \<Rightarrow> sexp list list \<Rightarrow> bool" where
  "reader_rep A s fs = (case s of (b, t, p) \<Rightarrow>
     iAllowParseAtTopLevel p = A \<and> (t \<longrightarrow> A) \<and>
     (iParserState p = EStateAtomWait \<and> parser_rep p fs \<or>
      iParserState p = EStateInAtom \<and> \<not> iParserQuoted p \<and>
        (\<exists>fs0. parser_rep p fs0 \<and> fs = add_inner (Leaf False (drop (iAtomStart p) (iBuffer p))) fs0)))"

definition reader_clean :: "byte list \<times> bool \<times> atom_parser \<Rightarrow> bool" where
  "reader_clean s = (case s of (b, t, p) \<Rightarrow> iParserState p = EStateAtomWait)"

definition top_floor :: "bool \<Rightarrow> nat" where
  "top_floor A = (if A then 1 else 2)"

lemma parser_rep_nonempty: "parser_rep p fs \<Longrightarrow> fs \<noteq> []"
  by (simp add: parser_rep_def store_rep_def)

lemma parser_rep_bound [simp]:
  "parser_rep p fs \<Longrightarrow> length (iBuffer p) \<le> iBufferSize p"
  "parser_rep p fs \<Longrightarrow> iAtomStart p \<le> length (iBuffer p)"
  by (simp_all add: parser_rep_def buffer_ok_def)

lemma parser_rep_stack: "parser_rep p fs \<Longrightarrow> length (iAtomStack p) = length fs - 1"
  using stack_length [of p fs] by (simp add: parser_rep_def)

lemma buf_put_fields [simp]:
  "iBuffer (buf_put c p) = iBuffer p @ [c]" "iAtomStart (buf_put c p) = iAtomStart p"
  "iParserState (buf_put c p) = iParserState p" "iParserQuoted (buf_put c p) = iParserQuoted p"
  "iGotEscape (buf_put c p) = iGotEscape p" "iAtomStack (buf_put c p) = iAtomStack p"
  "iAllowParseAtTopLevel (buf_put c p) = iAllowParseAtTopLevel p"
  "iLiteralLength (buf_put c p) = iLiteralLength p"
  by (simp_all add: buf_put_def)

lemma AddAtomL_rep_at:
  "parser_rep p fs \<Longrightarrow> iParserQuoted p = q \<Longrightarrow> drop (iAtomStart p) (iBuffer p) = b \<Longrightarrow>
     parser_rep (AddAtomL p) (add_inner (Leaf q b) fs)"
  using AddAtomL_rep by blast

lemma run_one: "ap_run [c] (b, t, p) = bind_l (ap_step (char_before b) c p) (\<lambda>(t', p'). Inr (c # b, t \<or> t', p'))"
  by simp

lemma reader_space:
  assumes "reader_rep A s fs"
  shows "\<exists>s'. ap_run [32] s = Inr s' \<and> reader_rep A s' fs \<and> reader_clean s'"
proof -
  obtain b t p where s: "s = (b, t, p)" by (cases s)
  show ?thesis
    using assms
    by (auto simp: s reader_rep_def reader_clean_def ap_step_def ap_atom_wait_def ap_in_atom_def
        AddAtomL_rep_at)
qed

lemma reader_open:
  assumes "reader_rep A s fs"
  shows "\<exists>s'. ap_run [40] s = Inr s' \<and> reader_rep A s' (open_inner fs) \<and> reader_clean s'"
proof -
  obtain b t p where s: "s = (b, t, p)" by (cases s)
  have p: "iAllowParseAtTopLevel p = A" "t \<longrightarrow> A"
    using assms by (auto simp: s reader_rep_def)
  consider "iParserState p = EStateAtomWait" "parser_rep p fs"
    | "iParserState p = EStateInAtom" "\<not> iParserQuoted p" "parser_rep (AddAtomL p) fs"
    using assms by (auto simp: s reader_rep_def AddAtomL_rep_at)
  then show ?thesis
  proof cases
    case 1
    then obtain p' where "ap_open 40 p = Inr p'" "parser_rep p' (open_inner fs)"
      "iParserState p' = iParserState p" "iAllowParseAtTopLevel p' = iAllowParseAtTopLevel p"
      using ap_open_rep by blast
    then show ?thesis
      using 1 p by (simp add: s reader_rep_def reader_clean_def ap_step_def ap_atom_wait_def)
  next
    case 2
    then obtain p' where "ap_open 40 (AddAtomL p) = Inr p'" "parser_rep p' (open_inner fs)"
      "iAllowParseAtTopLevel p' = iAllowParseAtTopLevel p"
      using ap_open_rep by fastforce
    then show ?thesis
      using 2 p by (simp add: s reader_rep_def reader_clean_def ap_step_def ap_in_atom_def)
  qed
qed

text \<open>A close bracket, whether or not an atom is pending, with the flag it sets.\<close>

lemma step_close:
  assumes "iParserState p = EStateAtomWait \<and> parser_rep p fs \<or>
      iParserState p = EStateInAtom \<and> \<not> iParserQuoted p \<and>
        (\<exists>fs0. parser_rep p fs0 \<and> fs = add_inner (Leaf False (drop (iAtomStart p) (iBuffer p))) fs0)"
    and "Suc 0 < length fs"
  shows "\<exists>p'. ap_step prev 41 p = Inr (length fs = 2, p') \<and> parser_rep p' (close_inner fs) \<and>
      iParserState p' = EStateAtomWait \<and> iAllowParseAtTopLevel p' = iAllowParseAtTopLevel p \<and>
      iUnparsedData p' = iUnparsedData p"
proof -
  consider "iParserState p = EStateAtomWait" "parser_rep p fs"
    | "iParserState p = EStateInAtom" "\<not> iParserQuoted p" "parser_rep (AddAtomL p) fs"
    using assms(1) by (auto simp: AddAtomL_rep_at)
  then show ?thesis
  proof cases
    case 1
    then show ?thesis
      using ap_close_rep [OF 1(2) assms(2)] 1(1) by (auto simp: ap_step_def ap_atom_wait_def)
  next
    case 2
    obtain p' where p': "ap_close (AddAtomL p) = Inr (length fs = 2, p')" "parser_rep p' (close_inner fs)"
      "iAllowParseAtTopLevel p' = iAllowParseAtTopLevel p" "iUnparsedData p' = iUnparsedData p"
      using ap_close_rep [OF 2(3) assms(2)] by (metis AddAtomL_fields(7,8))
    have "iAtomStack p \<noteq> []"
      using parser_rep_stack [OF 2(3)] assms(2) by auto
    then show ?thesis
      using 2 p' by (auto simp: ap_step_def ap_in_atom_def)
  qed
qed

lemma reader_close:
  assumes "reader_rep A s fs" "top_floor A < length fs" "Suc 0 < length fs"
  shows "\<exists>s'. ap_run [41] s = Inr s' \<and> reader_rep A s' (close_inner fs) \<and> reader_clean s'"
proof -
  obtain b t p where s: "s = (b, t, p)" by (cases s)
  have "A \<or> length fs \<noteq> 2" using assms(2) by (auto simp: top_floor_def)
  then show ?thesis
    using assms step_close [of p fs "char_before b"]
    by (auto simp: s reader_rep_def reader_clean_def)
qed

lemma run_plain:
  "\<lbrakk> iParserState p = EStateInAtom; \<not> iParserQuoted p; parser_rep p fs;
     list_all (\<lambda>c. c \<noteq> 32 \<and> c \<noteq> 13 \<and> c \<noteq> 40 \<and> c \<noteq> 41) cs \<rbrakk> \<Longrightarrow>
   \<exists>p'. ap_run cs (b, t, p) = Inr (rev cs @ b, t, p') \<and> iParserState p' = EStateInAtom \<and>
     \<not> iParserQuoted p' \<and> parser_rep p' fs \<and>
     drop (iAtomStart p') (iBuffer p') = drop (iAtomStart p) (iBuffer p) @ cs \<and>
     iAllowParseAtTopLevel p' = iAllowParseAtTopLevel p"
proof (induction cs arbitrary: b p)
  case (Cons c cs)
  have "ap_step (char_before b) c p = Inr (False, buf_put c p)"
    using Cons.prems by (simp add: ap_step_def ap_in_atom_def)
  then show ?case
    using Cons.IH [of "buf_put c p" "c # b"] Cons.prems by (auto simp: parser_rep_buf_put)
qed simp

lemma buf_put_escape:
  "(buf_put c (p\<lparr> iGotEscape := e \<rparr>))\<lparr> iGotEscape := f \<rparr> = (buf_put c p)\<lparr> iGotEscape := f \<rparr>"
  by (simp add: buf_put_def)

lemma run_escaped:
  "\<lbrakk> iParserState p = EStateInAtom; iParserQuoted p; \<not> iGotEscape p; parser_rep p fs \<rbrakk> \<Longrightarrow>
   \<exists>b' p'. ap_run (print_escaped cs) (b, t, p) = Inr (b', t, p') \<and> iParserState p' = EStateInAtom \<and>
     iParserQuoted p' \<and> \<not> iGotEscape p' \<and> parser_rep p' fs \<and>
     drop (iAtomStart p') (iBuffer p') = drop (iAtomStart p) (iBuffer p) @ cs \<and>
     iAllowParseAtTopLevel p' = iAllowParseAtTopLevel p"
proof (induction cs arbitrary: b p)
  case (Cons c cs)
  let ?p = "(buf_put c p)\<lparr> iGotEscape := False \<rparr>"
  have esc: "ap_run [92, c] (b, t, p) = Inr (c # 92 # b, t, ?p)" if "c = 34 \<or> c = 92"
    using Cons.prems that
    by (auto simp: ap_step_def ap_in_atom_def buf_put_escape)
  have one: "ap_run [c] (b, t, p) = Inr (c # b, t, ?p)" if "\<not> (c = 34 \<or> c = 92)"
    using Cons.prems that by (simp add: ap_step_def ap_in_atom_def)
  have rep: "parser_rep ?p fs" using Cons.prems by (simp add: parser_rep_buf_put)
  have IH: "\<exists>b' p'. ap_run (print_escaped cs) (b, t, ?p) = Inr (b', t, p') \<and>
     iParserState p' = EStateInAtom \<and> iParserQuoted p' \<and> \<not> iGotEscape p' \<and> parser_rep p' fs \<and>
     drop (iAtomStart p') (iBuffer p') = drop (iAtomStart p) (iBuffer p) @ c # cs \<and>
     iAllowParseAtTopLevel p' = iAllowParseAtTopLevel p" for b
    using Cons.IH [of ?p b] Cons.prems rep by auto
  show ?case
  proof (cases "c = 34 \<or> c = 92")
    case True
    then have "ap_run (print_escaped (c # cs)) (b, t, p) = ap_run (print_escaped cs) (c # 92 # b, t, ?p)"
      using esc ap_run_append [of "[92, c]" "print_escaped cs" "(b, t, p)"] by simp
    then show ?thesis using IH by simp
  next
    case False
    then have "ap_run (print_escaped (c # cs)) (b, t, p) = ap_run (print_escaped cs) (c # b, t, ?p)"
      using one ap_run_append [of "[c]" "print_escaped cs" "(b, t, p)"] by simp
    then show ?thesis using IH by simp
  qed
qed simp

lemma reader_leaf:
  assumes "reader_rep A s fs" "reader_clean s" "q \<or> plain_atom b"
  shows "\<exists>s'. ap_run (print_leaf q b) s = Inr s' \<and> reader_rep A s' (add_inner (Leaf q b) fs)"
proof -
  obtain bf t p where s: "s = (bf, t, p)" by (cases s)
  have p: "iAllowParseAtTopLevel p = A" "t \<longrightarrow> A" "iParserState p = EStateAtomWait" "parser_rep p fs"
    using assms by (auto simp: s reader_rep_def reader_clean_def)
  show ?thesis
  proof (cases q)
    case True
    let ?p1 = "p\<lparr> iAtomStart := length (iBuffer p), iParserState := EStateInAtom,
                  iParserQuoted := True, iGotEscape := False \<rparr>"
    have s1: "ap_run [34] s = Inr (34 # bf, t, ?p1)"
      using p(3) by (simp add: s ap_step_def ap_atom_wait_def)
    have "parser_rep ?p1 fs"
      by (simp only: parser_rep_fields parser_rep_start [OF p(4) order_refl])
    then obtain b2 p2 where s2: "ap_run (print_escaped b) (34 # bf, t, ?p1) = Inr (b2, t, p2)"
      and p2: "iParserState p2 = EStateInAtom" "iParserQuoted p2" "\<not> iGotEscape p2" "parser_rep p2 fs"
        "drop (iAtomStart p2) (iBuffer p2) = b" "iAllowParseAtTopLevel p2 = A"
      using run_escaped [of ?p1 fs b "34 # bf" t] p by auto
    have "ap_run (print_leaf q b) s = ap_run [34] (b2, t, p2)"
      using True s1 s2 by (simp only: print_leaf_def if_True ap_run_append bind_l_simps)
    moreover have "ap_run [34] (b2, t, p2) = Inr (34 # b2, t, (AddAtomL p2)\<lparr> iParserState := EStateAtomWait \<rparr>)"
      using p2 by (simp add: ap_step_def ap_in_atom_def)
    ultimately show ?thesis
      using p p2 True by (simp add: reader_rep_def AddAtomL_rep_at)
  next
    case False
    then obtain c cs where b: "b = c # cs" and c: "c \<noteq> 34" "c \<noteq> 123" "c \<noteq> 32" "c \<noteq> 13" "c \<noteq> 40" "c \<noteq> 41"
      and cs: "list_all (\<lambda>c. c \<noteq> 32 \<and> c \<noteq> 13 \<and> c \<noteq> 40 \<and> c \<noteq> 41) cs"
      using assms(3) by (cases b) (auto simp: plain_atom_def)
    let ?p1 = "(buf_put c (p\<lparr> iAtomStart := length (iBuffer p) \<rparr>))
                 \<lparr> iParserState := EStateInAtom, iParserQuoted := False \<rparr>"
    have s1: "ap_step (char_before bf) c p = Inr (False, ?p1)"
      using p c by (simp add: ap_step_def ap_atom_wait_def)
    have "parser_rep ?p1 fs" using p(4) by (simp add: parser_rep_buf_put)
    then obtain p2 where s2: "ap_run cs (c # bf, t, ?p1) = Inr (rev cs @ c # bf, t, p2)"
      and p2: "iParserState p2 = EStateInAtom" "\<not> iParserQuoted p2" "parser_rep p2 fs"
        "drop (iAtomStart p2) (iBuffer p2) = b" "iAllowParseAtTopLevel p2 = A"
      using run_plain [of ?p1 fs cs "c # bf" t] p cs b by auto
    have "ap_run (print_leaf q b) s = Inr (rev cs @ c # bf, t, p2)"
      using False s1 s2 by (simp add: print_leaf_def s b)
    then show ?thesis
      using p p2 False by (auto simp: reader_rep_def)
  qed
qed

interpretation atom_reader: sexp_reader ap_run "reader_rep A" reader_clean "top_floor A" for A :: bool
proof unfold_locales
  show "fs \<noteq> []" if "reader_rep A s fs" for s fs
    using that by (auto simp: reader_rep_def dest: parser_rep_nonempty
        dest!: add_inner_nonempty [THEN iffD1, OF sym] split: prod.splits)
qed (fact ap_run.simps(1) ap_run_append reader_space reader_open reader_close reader_leaf)+

section \<open>The forest a finished parser holds\<close>

definition ap_forest :: "atom_parser \<Rightarrow> sexp list" where
  "ap_forest p = read_forest (length (iAtomArray p)) (ap_views p) (iChild (iAtomArray p ! 0))"

lemma printable_readable:
  "printable t \<Longrightarrow> readable t" "list_all printable ts \<Longrightarrow> list_all readable ts"
  by (induction t and ts rule: print_tree_print_forest.induct)
     (auto simp: plain_atom_def, metis list.pred_inject(1))

lemma ap_forest_rep:
  assumes "parser_rep p fs" "list_all readable (close_frames fs)"
  shows "ap_forest p = close_frames fs"
proof -
  let ?ts = "close_frames fs"
  have v: "ap_views p = ([], False, link (Suc 0) None ?ts, None) # forest_lay (Suc 0) None ?ts"
    using assms by (simp add: parser_rep_def store_rep_def frames_lay_def)
  then obtain a as where "iAtomArray p = a # as" "iChild a = link (Suc 0) None ?ts"
    and len: "length (iAtomArray p) = Suc (forest_size ?ts)"
    using store_rep_cursor(2) [of p fs] assms
    by (cases "iAtomArray p") (auto simp: ap_views_def view_atom_def parser_rep_def)
  then show ?thesis
    using read_forest_lay [OF assms(2), of "[([], False, link (Suc 0) None ?ts, None)]" "Suc 0"
        "Suc (forest_size ?ts)" "[]"]
    by (simp add: ap_forest_def v)
qed

lemma parser_rep_new: "parser_rep (ap_new A) [[]]"
  by (simp add: parser_rep_def store_rep_def ap_views_def frames_lay_def buffer_ok_def ap_new_def
      atom_within_def atom_ops view_atom_def atom_text_def)

lemma reader_rep_new: "reader_rep A ([], False, ap_new A) [[]]" "reader_clean ([], False, ap_new A)"
  using parser_rep_new [of A] by (simp_all add: reader_rep_def reader_clean_def ap_new_def)

text \<open>The end of a line that leaves no literal open.\<close>

lemma ap_end_of_line_rep:
  assumes "reader_rep A (b, t, p) fs"
  shows "\<exists>p'. ap_end_of_line p = Inr (False, p') \<and> parser_rep p' fs \<and>
     iParserState p' = EStateParseComplete \<and> iUnparsedData p' = iUnparsedData p"
  using assms
  by (auto simp: reader_rep_def ap_end_of_line_def Let_def AddAtomL_rep_at)

lemma process_line_read:
  assumes "ap_run aLine ([], False, p) = Inr (b, t, p')" "reader_rep A (b, t, p') fs"
  shows "\<exists>p''. ProcessLineL aLine p = Inr (False, p'') \<and> parser_rep p'' fs"
proof -
  have "t \<longrightarrow> iAllowParseAtTopLevel p"
    using assms ap_run_mono [OF assms(1)] by (auto simp: reader_rep_def)
  then have "ap_loop [] (aLine @ []) False p = ap_loop b [] t p'"
    by (rule ap_loop_run [OF assms(1)])
  moreover have "length b = length aLine" using ap_run_mono [OF assms(1)] by simp
  ultimately show ?thesis
    using ap_end_of_line_rep [OF assms(2)] by (auto simp: ProcessLineL_def ap_unparsed_def)
qed

lemma parse_forest_rep:
  assumes "list_all printable ts"
  shows "\<exists>p'. ProcessLineL (print_forest ts) (ap_new True) = Inr (False, p') \<and> parser_rep p' [ts]"
proof -
  obtain b t p where run: "ap_run (print_forest ts) ([], False, ap_new True) = Inr (b, t, p)"
    and rep: "reader_rep True (b, t, p) (add_all ts [[]])"
    using atom_reader.reads_print(2) [OF assms reader_rep_new(1,2) [of True]]
    by (auto simp: top_floor_def)
  then show ?thesis
    using process_line_read [OF run rep] by (simp add: add_all_single)
qed

lemma parse_forest:
  assumes "list_all printable ts"
  shows "\<exists>p'. ProcessLineL (print_forest ts) (ap_new True) = Inr (False, p') \<and> ap_forest p' = ts"
  using parse_forest_rep [OF assms] printable_readable(2) [OF assms]
  by (auto dest: ap_forest_rep)

end
