(* ===== verification/Imap_Parser_Props.thy ===== *)
theory Imap_Parser_Props
  imports Imap_Reader
begin

text \<open>
  What the atom parser promises its clients: printed forests are read back, parsing stops at
  the matching bracket, literal blocks become atoms, any input either leaves with a corrupt-data
  error or leaves a well-formed tree, and the pointers of the atoms survive reallocation.
\<close>

section \<open>Stopping at the matching bracket\<close>

lemma parse_to_bracket:
  assumes "list_all printable (ts @ [Node us])" "list_all (\<lambda>t. \<exists>q b. t = Leaf q b) ts"
  shows "\<exists>p'. ProcessLineL (print_forest (ts @ [Node us]) @ rest) (ap_new False) = Inr (False, p') \<and>
      ap_forest p' = ts @ [Node us] \<and> iUnparsedData p' = rest"
proof -
  let ?s = "([], False, ap_new False)"
  obtain s1 where s1: "ap_run (print_forest ts) ?s = Inr s1" "reader_rep False s1 [ts]"
    using atom_reader.reads_leaves [OF _ assms(2) reader_rep_new [of False]] assms(1)
    by (auto simp: add_all_single)
  obtain s2 where s2: "ap_run (sep ts) s1 = Inr s2" "reader_rep False s2 [ts]"
    using s1 reader_space [OF s1(2)] by (cases "ts = []") (auto simp: sep_def)
  obtain s3 where s3: "ap_run [40] s2 = Inr s3" "reader_rep False s3 [ts, []]" "reader_clean s3"
    using reader_open [OF s2(2)] by auto
  obtain s4 where s4: "ap_run (print_forest us) s3 = Inr s4" "reader_rep False s4 [ts, us]"
    using atom_reader.reads_print(2) [where ts = us, OF _ s3(2,3)] assms(1)
    by (auto simp: top_floor_def add_all_Cons add_all_single)
  let ?pre = "print_forest ts @ sep ts @ [40] @ print_forest us"
  obtain b t p where p: "s4 = (b, t, p)" by (cases s4)
  have run: "ap_run ?pre ?s = Inr (b, t, p)"
    by (simp only: ap_run_append s1(1) s2(1) s3(1) s4(1) p bind_l_simps)
  have t: "\<not> t" "\<not> iAllowParseAtTopLevel p" using s4(2) by (auto simp: p reader_rep_def)
  obtain p' where close: "ap_step (char_before b) 41 p = Inr (True, p')" "parser_rep p' [ts @ [Node us]]"
    "iParserState p' = EStateAtomWait" "\<not> iAllowParseAtTopLevel p'" "iUnparsedData p' = iUnparsedData p"
    using step_close [of p "[ts, us]" "char_before b"] s4(2) t by (auto simp: p reader_rep_def)
  have empty: "iUnparsedData p' = []"
    using close ap_run_mono [OF run] by (simp add: ap_new_def)
  have "ap_loop [] (?pre @ 41 # rest) False (ap_new False) = Inr (length b, True, p')"
    using ap_loop_run [OF run, of "41 # rest"] t close by simp
  moreover have "length b = length ?pre"
    using ap_run_mono [OF run] by simp
  ultimately have "ProcessLineL (?pre @ 41 # rest) (ap_new False) =
      Inr (False, (if rest = [] then p' else p'\<lparr> iUnparsedData := rest \<rparr>)\<lparr> iParserState := EStateParseComplete \<rparr>)"
    using close by (simp add: ProcessLineL_def ap_unparsed_def ap_end_of_line_def Let_def)
  moreover have "?pre @ 41 # rest = print_forest (ts @ [Node us]) @ rest"
    by (simp add: print_forest_snoc)
  ultimately have "ProcessLineL (print_forest (ts @ [Node us]) @ rest) (ap_new False) =
      Inr (False, (if rest = [] then p' else p'\<lparr> iUnparsedData := rest \<rparr>)\<lparr> iParserState := EStateParseComplete \<rparr>)"
    (is "_ = Inr (False, ?q)") by (simp only:)
  moreover have "parser_rep ?q [ts @ [Node us]]" using close by simp
  then have "ap_forest ?q = ts @ [Node us]"
    using ap_forest_rep [of ?q "[ts @ [Node us]]"] printable_readable(2) [OF assms(1)] by simp
  moreover have "iUnparsedData ?q = rest" using empty by simp
  ultimately show ?thesis by blast
qed

text \<open>A close bracket without an open one is reported as corrupt data.\<close>

lemma parse_unbalanced:
  assumes "list_all printable ts" and that: "A \<or> list_all (\<lambda>t. \<exists>q b. t = Leaf q b) ts"
  shows "ProcessLineL (print_forest ts @ [32, 41] @ rest) (ap_new A) = Inl KErrImapCorrupt"
proof -
  let ?s = "([], False, ap_new A)"
  have "\<exists>s1. ap_run (print_forest ts) ?s = Inr s1 \<and> reader_rep A s1 (add_all ts [[]])"
  proof (cases A)
    case True
    then show ?thesis
      using atom_reader.reads_print(2) [OF assms(1) reader_rep_new [of A]] by (simp add: top_floor_def)
  next
    case False
    then show ?thesis
      using atom_reader.reads_leaves [OF assms(1) _ reader_rep_new [of A]] that by blast
  qed
  then obtain s1 where s1: "ap_run (print_forest ts) ?s = Inr s1" "reader_rep A s1 [ts]"
    by (auto simp: add_all_single)
  obtain b t p where s2: "ap_run [32] s1 = Inr (b, t, p)" "reader_rep A (b, t, p) [ts]"
    "iParserState p = EStateAtomWait"
    using reader_space [OF s1(2)] by (auto simp: reader_clean_def)
  have run: "ap_run (print_forest ts @ [32]) ?s = Inr (b, t, p)"
    by (simp only: ap_run_append s1(1) s2(1) bind_l_simps)
  have stk: "iAtomStack p = []"
    using s2(2,3) parser_rep_stack [of p "[ts]"] by (simp add: reader_rep_def)
  have "ap_loop [] ((print_forest ts @ [32]) @ 41 # rest) False (ap_new A) = ap_loop b (41 # rest) t p"
    using s2(2) by (intro ap_loop_run [OF run]) (simp add: reader_rep_def ap_new_def)
  also have "\<dots> = Inl KErrImapCorrupt"
    using s2(3) by (simp add: ap_step_def ap_atom_wait_def PopL_underflow [OF stk])
  finally show ?thesis by (simp add: ProcessLineL_def)
qed

text \<open>
  What the parser accepts although it is not balanced: an unterminated quoted string, and an open
  bracket that is never closed.
\<close>

lemma parse_unterminated_quote:
  assumes "list_all (\<lambda>c. c \<noteq> 34 \<and> c \<noteq> 92) cs"
  shows "\<exists>p'. ProcessLineL (34 # cs) (ap_new A) = Inr (False, p') \<and> ap_forest p' = [Leaf True cs]"
proof -
  have esc: "print_escaped cs = cs" using assms by (induction cs) simp_all
  let ?p1 = "(ap_new A)\<lparr> iAtomStart := length (iBuffer (ap_new A)), iParserState := EStateInAtom,
                  iParserQuoted := True, iGotEscape := False \<rparr>"
  have s1: "ap_run [34] ([], False, ap_new A) = Inr ([34], False, ?p1)"
    by (simp add: ap_new_def ap_step_def ap_atom_wait_def)
  have "parser_rep ?p1 [[]]"
    by (simp only: parser_rep_fields parser_rep_start [OF parser_rep_new order_refl])
  then obtain b2 p2 where s2: "ap_run cs ([34], False, ?p1) = Inr (b2, False, p2)"
    and p2: "iParserState p2 = EStateInAtom" "iParserQuoted p2" "parser_rep p2 [[]]"
      "drop (iAtomStart p2) (iBuffer p2) = cs"
    using run_escaped [of ?p1 "[[]]" cs "[34]" False] by (auto simp: ap_new_def esc)
  have run: "ap_run (34 # cs) ([], False, ap_new A) = Inr (b2, False, p2)"
    using ap_run_append [of "[34]" cs "([], False, ap_new A)"]
    by (simp only: s1 s2 bind_l_simps append_Cons append_Nil)
  have "ap_loop [] ((34 # cs) @ []) False (ap_new A) = ap_loop b2 [] False p2"
    by (rule ap_loop_run [OF run]) simp
  then have "ProcessLineL (34 # cs) (ap_new A) =
      Inr (False, (AddAtomL p2)\<lparr> iParserState := EStateParseComplete \<rparr>)"
    using p2 by (simp add: ProcessLineL_def ap_unparsed_def ap_end_of_line_def Let_def)
  moreover have "parser_rep (AddAtomL p2) [[Leaf True cs]]"
    using AddAtomL_rep_at [OF p2(3), of True cs] p2 by simp
  ultimately show ?thesis
    using ap_forest_rep [of "(AddAtomL p2)\<lparr> iParserState := EStateParseComplete \<rparr>" "[[Leaf True cs]]"]
    by simp
qed

section \<open>Any input\<close>

text \<open>
  Whatever the server sends, a step keeps the tree well formed or leaves with one of the two
  corrupt-data errors; in particular no append overruns the buffer.
\<close>

abbreviation imap_corrupt :: "symbian_error \<Rightarrow> bool" where
  "imap_corrupt e \<equiv> e = KErrImapCorrupt \<or> e = KErrCorrupt"

definition result_ok :: "(symbian_error + 'a) \<Rightarrow> ('a \<Rightarrow> atom_parser) \<Rightarrow> bool" where
  "result_ok r parser_of \<longleftrightarrow>
     (case r of Inl e \<Rightarrow> imap_corrupt e | Inr x \<Rightarrow> \<exists>fs. parser_rep (parser_of x) fs)"

lemma result_ok_simps [simp]:
  "result_ok (Inl e) f \<longleftrightarrow> imap_corrupt e"
  "result_ok (Inr x) f \<longleftrightarrow> (\<exists>fs. parser_rep (f x) fs)"
  by (simp_all add: result_ok_def)

lemma open_ok: "parser_rep p fs \<Longrightarrow> \<exists>p'. ap_open 40 p = Inr p' \<and> (\<exists>fs'. parser_rep p' fs')"
  using ap_open_rep by blast

lemma close_ok: "parser_rep p fs \<Longrightarrow> result_ok (ap_close p) snd"
proof (cases "Suc 0 < length fs")
  case True
  then show "parser_rep p fs \<Longrightarrow> result_ok (ap_close p) snd" using ap_close_rep by fastforce
next
  case False
  assume "parser_rep p fs"
  then show "result_ok (ap_close p) snd"
    using False parser_rep_stack [of p fs] by (simp add: PopL_underflow)
qed

lemma atom_wait_ok: "parser_rep p fs \<Longrightarrow> result_ok (ap_atom_wait c p) snd"
  using open_ok [of p fs] close_ok [of p fs]
  by (auto simp: ap_atom_wait_def intro: parser_rep_buf_put parser_rep_start)

lemma in_atom_ok: 
  assumes "parser_rep p fs"
  shows "result_ok (ap_in_atom c p) snd"
proof -
  obtain fs1 where a: "parser_rep (AddAtomL p) fs1" using AddAtomL_rep [OF assms] by blast
  have "result_ok (bind_l (ap_close (AddAtomL p)) (\<lambda>(t, p). Inr (t, p\<lparr> iParserState := EStateAtomWait \<rparr>))) snd"
    using close_ok [OF a] by (cases "ap_close (AddAtomL p)") auto
  then show ?thesis
    using open_ok [OF a] a assms
    by (auto simp: ap_in_atom_def intro: parser_rep_buf_put)
qed

lemma literal_ok:
  assumes "parser_rep p fs"
  shows "result_ok (ap_literal_length c p) snd" "result_ok (ap_literal_skip prev p) snd"
proof -
  show "result_ok (ap_literal_length c p) snd"
    using assms by (auto simp: ap_literal_length_def Let_def intro!: exI [of _ fs])
  let ?p = "p\<lparr> iLiteralSkip := iLiteralSkip p - 1, iParserState := EStateLiteralFetch,
               iAtomStart := length (iBuffer p) \<rparr>"
  have "parser_rep ?p fs"
    using assms by simp
  from AddAtomL_rep [OF this] assms show "result_ok (ap_literal_skip prev p) snd"
    by (auto simp: ap_literal_skip_def Let_def intro: exI [of _ fs])
qed

lemma step_ok: "parser_rep p fs \<Longrightarrow> result_ok (ap_step prev c p) snd"
  using atom_wait_ok [of p fs] in_atom_ok [of p fs] literal_ok [of p fs]
  by (auto simp: ap_step_def split: parser_state.split)

lemma loop_ok: "parser_rep p fs \<Longrightarrow> result_ok (ap_loop b xs t p) (\<lambda>x. snd (snd x))"
proof (induction xs arbitrary: b t p fs)
  case Nil
  then show ?case by auto
next
  case (Cons c xs)
  then show ?case
    using step_ok [OF Cons.prems, of "char_before b" c]
    by (cases "ap_step (char_before b) c p") auto
qed

lemma line_ok: 
  assumes "parser_rep p fs"
  shows "result_ok (ProcessLineL aLine p) snd"
proof (cases "ap_loop [] aLine False p")
  case (Inl e)
  then show ?thesis using loop_ok [OF assms, of "[]" aLine False] by (simp add: ProcessLineL_def)
next
  case (Inr x)
  then obtain pos t p1 fs1 where x: "x = (pos, t, p1)" and "parser_rep p1 fs1"
    using loop_ok [OF assms, of "[]" aLine False] by (cases x) auto
  then have p1: "parser_rep (ap_unparsed aLine pos t p1) fs1" (is "parser_rep ?p _")
    by (simp add: ap_unparsed_def)
  then show ?thesis
    using Inr x AddAtomL_rep [OF p1]
    by (auto simp: ProcessLineL_def ap_end_of_line_def Let_def intro!: exI)
qed

end
