(* ===== verification/Imap_Literals.thy ===== *)
theory Imap_Literals
  imports Imap_Parser_Props
begin

text \<open>
  Literals: a line that ends in \<open>{n}\<close>, the block of \<open>n\<close> octets that follows it, and the line
  after the block. Then the life of a parser as a whole: every state that lines and blocks can
  reach, and the pointers of its atoms when the buffer moves.
\<close>

lemma top_floor_le [simp]: "top_floor A \<le> 2" "top_floor A \<le> Suc (Suc 0)"
  by (simp_all add: top_floor_def)

section \<open>The announced length\<close>

fun decimal :: "nat \<Rightarrow> byte list" where
  "decimal n = (if n < 10 then [of_nat (48 + n)] else decimal (n div 10) @ [of_nat (48 + n mod 10)])"

declare decimal.simps [simp del]

lemma nonneg_of_nat: "n < 2 ^ 31 \<Longrightarrow> \<not> (of_nat n :: tint) <s 0"
  by (simp add: word_sless_alt signed_of_nat signed_take_bit_int_eq_self)

lemma digit_facts:
  assumes "d < 10"
  shows "is_digit (of_nat (48 + d))" "(of_nat (48 + d) :: byte) \<noteq> 125"
    "ucast (of_nat (48 + d) :: byte) - 48 = (of_nat d :: tint)"
proof -
  have "d \<in> {0, 1, 2, 3, 4, 5, 6, 7, 8, 9}" using assms by auto
  then show "is_digit (of_nat (48 + d))" "(of_nat (48 + d) :: byte) \<noteq> 125"
    "ucast (of_nat (48 + d) :: byte) - 48 = (of_nat d :: tint)"
    by (auto simp: is_digit_def)
qed

lemma step_digit:
  assumes "iParserState p = EStateLiteralLength" "iLiteralLength p = of_nat m" "d < 10" "10 * m + d < 2 ^ 31"
  shows "ap_step prev (of_nat (48 + d)) p = Inr (False, p\<lparr> iLiteralLength := of_nat (10 * m + d) \<rparr>)"
proof -
  have "(of_nat m :: tint) * 10 + of_nat d = of_nat (10 * m + d)" by (simp add: mult.commute)
  then show ?thesis
    using assms(1,2) digit_facts [OF assms(3)] nonneg_of_nat [OF assms(4)]
    by (simp only: ap_step_def parser_state.simps ap_literal_length_def if_True Let_def if_False)
qed

lemma run_decimal:
  "\<lbrakk> iParserState p = EStateLiteralLength; iLiteralLength p = 0; n < 2 ^ 31 \<rbrakk> \<Longrightarrow>
   \<exists>b'. ap_run (decimal n) (b, t, p) = Inr (b', t, p\<lparr> iLiteralLength := of_nat n \<rparr>)"
proof (induction n arbitrary: b rule: decimal.induct)
  case (1 n)
  show ?case
  proof (cases "n < 10")
    case True
    then show ?thesis
      using step_digit [of p 0 n "char_before b"] 1 by (subst decimal.simps) (simp del: of_nat_add)
  next
    case False
    then obtain b1 where r: "ap_run (decimal (n div 10)) (b, t, p) =
        Inr (b1, t, p\<lparr> iLiteralLength := of_nat (n div 10) \<rparr>)"
      using "1.IH" [of b] "1.prems" le_less_trans [OF div_le_dividend "1.prems"(3), of 10] by auto
    have "10 * (n div 10) + n mod 10 = n" by simp
    then have "ap_step (char_before b1) (of_nat (48 + n mod 10)) (p\<lparr> iLiteralLength := of_nat (n div 10) \<rparr>) =
        Inr (False, p\<lparr> iLiteralLength := of_nat n \<rparr>)"
      using step_digit [of "p\<lparr> iLiteralLength := of_nat (n div 10) \<rparr>" "n div 10" "n mod 10" "char_before b1"]
        "1.prems" by (simp del: of_nat_add)
    then show ?thesis
      using False r by (subst decimal.simps) (simp del: of_nat_add add: ap_run_append)
  qed
qed

text \<open>A literal announced at the end of a line, at any depth of nesting.\<close>

lemma run_literal:
  assumes "parser_rep p fs" "iParserState p = EStateAtomWait" "n < 2 ^ 31"
  shows "\<exists>b' p'. ap_run (123 # decimal n @ [125]) (b, t, p) = Inr (b', t, p') \<and> parser_rep p' fs \<and>
      iParserState p' = EStateLiteralSkip \<and> iLiteralLength p' = of_nat n \<and> \<not> iParserQuoted p' \<and>
      iAtomStart p' = length (iBuffer p') \<and> iAllowParseAtTopLevel p' = iAllowParseAtTopLevel p"
proof -
  let ?p1 = "p\<lparr> iLiteralLength := 0, iParserQuoted := False, iParserState := EStateLiteralLength \<rparr>"
  let ?p2 = "?p1\<lparr> iLiteralLength := of_nat n \<rparr>"
  let ?p3 = "?p2\<lparr> iLiteralSkip := 2, iParserState := EStateLiteralSkip, iAtomStart := length (iBuffer p) \<rparr>"
  have s1: "ap_run [123] (b, t, p) = Inr (123 # b, t, ?p1)"
    using assms(2) by (simp add: ap_step_def ap_atom_wait_def)
  obtain b2 where s2: "ap_run (decimal n) (123 # b, t, ?p1) = Inr (b2, t, ?p2)"
    using run_decimal [of ?p1 n "123 # b" t] assms(3) by auto
  have s3: "ap_run [125] (b2, t, ?p2) = Inr (125 # b2, t, ?p3)"
    by (simp add: ap_step_def ap_literal_length_def is_digit_def)
  have "ap_run ([123] @ decimal n @ [125]) (b, t, p) = Inr (125 # b2, t, ?p3)"
    by (simp only: ap_run_append s1 s2 s3 bind_l_simps)
  moreover have "parser_rep ?p3 fs" using assms(1) by simp
  ultimately show ?thesis by auto
qed

section \<open>The block\<close>

lemma store_rep_buffer_append:
  "store_rep p fs \<Longrightarrow> store_rep (p\<lparr> iBuffer := iBuffer p @ xs \<rparr>) fs"
  "store_rep (p\<lparr> iBufferSize := sz \<rparr>) fs = store_rep p fs"
  by (auto simp: store_rep_def ap_views_def view_atoms_append list_all_iff atom_within_append)

lemma block_rep:
  assumes "parser_rep p fs" "length blk = nat (sint (iLiteralLength p))"
  shows "\<exists>p'. ProcessLiteralBlockL blk p = Inr p' \<and>
      parser_rep p' (add_inner (Leaf (iParserQuoted p) (drop (iAtomStart p) (iBuffer p) @ blk)) fs) \<and>
      iParserState p' = EStateAtomWait \<and> iAllowParseAtTopLevel p' = iAllowParseAtTopLevel p"
proof -
  let ?n = "length blk"
  let ?sz = "iBufferSize p + ?n"
  define sz where "sz = (if length (iBuffer p) + ?n > iBufferSize p
    then ?sz + (KIOBufferGranularity - ?sz mod KIOBufferGranularity) else iBufferSize p)"
  let ?p = "p\<lparr> iBufferSize := sz, iBuffer := iBuffer p @ blk \<rparr>"
  have fits: "length (iBuffer p) + ?n \<le> sz"
    using parser_rep_bound(1) [OF assms(1)] by (simp add: sz_def trans_le_add1)
  have p: "(if length (iBuffer p) + ?n > iBufferSize p
      then p\<lparr> iBufferSize := ?sz + (KIOBufferGranularity - ?sz mod KIOBufferGranularity) \<rparr> else p) =
      p\<lparr> iBufferSize := sz \<rparr>"
    by (simp add: sz_def)
  have sel: "iBuffer (p\<lparr> iBufferSize := sz \<rparr>) = iBuffer p" "iBufferSize (p\<lparr> iBufferSize := sz \<rparr>) = sz"
    by simp_all
  have run: "ProcessLiteralBlockL blk p = Inr ((AddAtomL ?p)\<lparr> iParserState := EStateAtomWait \<rparr>)"
    unfolding ProcessLiteralBlockL_def Let_def assms(2) [symmetric] p des_append_def
    by (simp only: sel fits if_True bind_l_simps)
  have "parser_rep ?p fs"
    using assms(1) fits store_rep_buffer_append(1) [of "p\<lparr> iBufferSize := sz \<rparr>" fs blk]
    by (simp add: parser_rep_def buffer_ok_def store_rep_buffer_append(2) del: parser_rep_bound)
  from AddAtomL_rep [OF this] show ?thesis
    using run assms(1) by simp
qed

text \<open>The rest of a line, up to the bracket that closes the outermost list.\<close>

lemma process_line_to_close:
  assumes "parser_rep p [[], ts]" "iParserState p = EStateAtomWait" "iAllowParseAtTopLevel p = A"
    and "list_all printable us"
  shows "\<exists>p'. ProcessLineL (sep us @ print_forest us @ [41]) p = Inr (False, p') \<and>
      parser_rep p' [[Node (ts @ us)]]"
proof -
  let ?s = "([], False, p)"
  have rep: "reader_rep A ?s [[], ts]" "reader_clean ?s"
    using assms by (simp_all add: reader_rep_def reader_clean_def)
  have "\<exists>s1. ap_run (sep us) ?s = Inr s1 \<and> reader_rep A s1 [[], ts] \<and> reader_clean s1"
    using reader_space [OF rep(1)] rep by (cases "us = []") (auto simp: sep_def)
  then obtain s1 where s1: "ap_run (sep us) ?s = Inr s1" "reader_rep A s1 [[], ts]" "reader_clean s1"
    by blast
  obtain b t p2 where s2: "ap_run (print_forest us) s1 = Inr (b, t, p2)"
    "reader_rep A (b, t, p2) [[], ts @ us]"
    using atom_reader.reads_print(2) [where ts = us, OF assms(4) s1(2,3)]
    by (auto simp: add_all_Cons add_all_single)
  have run: "ap_run (sep us @ print_forest us) ?s = Inr (b, t, p2)"
    by (simp only: ap_run_append s1(1) s2(1) bind_l_simps)
  obtain p3 where s3: "ap_step (char_before b) 41 p2 = Inr (True, p3)"
    "parser_rep p3 [[Node (ts @ us)]]" "iParserState p3 = EStateAtomWait"
    using step_close [of p2 "[[], ts @ us]" "char_before b"] s2(2) by (auto simp: reader_rep_def)
  have "ap_loop [] ((sep us @ print_forest us) @ [41]) False p = ap_loop b [41] t p2"
    using s2(2) assms(3) by (intro ap_loop_run [OF run]) (simp add: reader_rep_def)
  then have "\<exists>pos. ap_loop [] (sep us @ print_forest us @ [41]) False p = Inr (pos, True, p3) \<and>
      length b \<le> pos"
    using s3(1) by auto
  moreover have "length b = length (sep us @ print_forest us)"
    using ap_run_mono [OF run] by simp
  ultimately have "ProcessLineL (sep us @ print_forest us @ [41]) p =
      Inr (False, p3\<lparr> iParserState := EStateParseComplete \<rparr>)"
    using s3(3) by (auto simp: ProcessLineL_def ap_unparsed_def ap_end_of_line_def Let_def)
  then show ?thesis using s3(2) by simp
qed

text \<open>
  The three pieces of a response with a literal: the line that announces it, its octets, and the
  rest of the line after it.
\<close>

lemma parse_literal:
  assumes "list_all printable (ts @ us)" "length blk < 2 ^ 31" "blk \<noteq> open_bracket"
  shows "\<exists>p1 p2 p3.
     ProcessLineL ([40] @ print_forest ts @ sep ts @ [123] @ decimal (length blk) @ [125]) (ap_new A) =
       Inr (True, p1) \<and> iLiteralLength p1 = of_nat (length blk) \<and>
     ProcessLiteralBlockL blk p1 = Inr p2 \<and>
     ProcessLineL (sep us @ print_forest us @ [41]) p2 = Inr (False, p3) \<and>
     ap_forest p3 = [Node (ts @ [Leaf False blk] @ us)]"
proof -
  let ?s = "([], False, ap_new A)"
  let ?n = "length blk"
  obtain s1 where s1: "ap_run [40] ?s = Inr s1" "reader_rep A s1 [[], []]" "reader_clean s1"
    using reader_open [OF reader_rep_new(1) [of A]] by (auto simp del: ap_run.simps)
  obtain s2 where s2: "ap_run (print_forest ts) s1 = Inr s2" "reader_rep A s2 [[], ts]"
    using atom_reader.reads_print(2) [where ts = ts, OF _ s1(2,3)] assms(1)
    by (auto simp: add_all_Cons add_all_single)
  have "\<exists>s3. ap_run (sep ts) s2 = Inr s3 \<and> reader_rep A s3 [[], ts] \<and> reader_clean s3"
    using reader_space [OF s2(2)] s1 s2 by (cases "ts = []") (auto simp: sep_def)
  then obtain b t p where s3: "ap_run (sep ts) s2 = Inr (b, t, p)" "reader_rep A (b, t, p) [[], ts]"
    "iParserState p = EStateAtomWait"
    by (auto simp: reader_clean_def)
  have rep: "parser_rep p [[], ts]" "iAllowParseAtTopLevel p = A" "t \<longrightarrow> A"
    using s3 by (auto simp: reader_rep_def)
  obtain b1 p1 where s4: "ap_run (123 # decimal ?n @ [125]) (b, t, p) = Inr (b1, t, p1)"
    and p1: "parser_rep p1 [[], ts]" "iParserState p1 = EStateLiteralSkip" "iLiteralLength p1 = of_nat ?n"
      "\<not> iParserQuoted p1" "iAtomStart p1 = length (iBuffer p1)" "iAllowParseAtTopLevel p1 = A"
    using run_literal [OF rep(1) s3(3) assms(2), of b t] rep(2) by auto
  let ?line = "[40] @ print_forest ts @ sep ts @ 123 # decimal ?n @ [125]"
  have run: "ap_run ?line ?s = Inr (b1, t, p1)"
    by (simp only: ap_run_append s1(1) s2(1) s3(1) s4 bind_l_simps)
  have "ap_loop [] (?line @ []) False (ap_new A) = ap_loop b1 [] t p1"
    using rep(3) by (intro ap_loop_run [OF run]) (simp add: ap_new_def)
  moreover have "length b1 = length ?line" using ap_run_mono [OF run] by simp
  ultimately have line1: "ProcessLineL ?line (ap_new A) = Inr (True, p1)"
    using p1(2) by (simp add: ProcessLineL_def ap_unparsed_def ap_end_of_line_def Let_def)
  have "?n = nat (sint (iLiteralLength p1))"
    using assms(2) by (simp add: p1(3) signed_of_nat signed_take_bit_int_eq_self)
  then obtain p2 where blk: "ProcessLiteralBlockL blk p1 = Inr p2"
    and p2: "parser_rep p2 [[], ts @ [Leaf False blk]]" "iParserState p2 = EStateAtomWait"
      "iAllowParseAtTopLevel p2 = A"
    using block_rep [OF p1(1)] p1(4-6) by (auto simp: add_inner_Cons)
  obtain p3 where line2: "ProcessLineL (sep us @ print_forest us @ [41]) p2 = Inr (False, p3)"
    and p3: "parser_rep p3 [[Node (ts @ [Leaf False blk] @ us)]]"
    using process_line_to_close [OF p2, of us] assms(1) by auto
  have "ap_forest p3 = [Node (ts @ [Leaf False blk] @ us)]"
    using ap_forest_rep [OF p3] printable_readable(2) [OF assms(1)] assms(3) by simp
  then show ?thesis using line1 p1(3) blk line2 by auto
qed

text \<open>
  The life of an atom parser: the states that any sequence of lines and of literal blocks of the
  announced length can reach, what holds in all of them, and the repair of the atom pointers
  when the buffer is moved in one of them.
\<close>

section \<open>Reachable states\<close>

inductive ap_reach :: "bool \<Rightarrow> atom_parser \<Rightarrow> bool" for A where
  reach_new: "ap_reach A (ap_new A)"
| reach_line: "ap_reach A p \<Longrightarrow> ProcessLineL aLine p = Inr (w, p') \<Longrightarrow> ap_reach A p'"
| reach_block: "ap_reach A p \<Longrightarrow> length blk = nat (sint (iLiteralLength p)) \<Longrightarrow>
    ProcessLiteralBlockL blk p = Inr p' \<Longrightarrow> ap_reach A p'"

inductive_cases ap_reachE: "ap_reach A p"

lemma reach_rep: "ap_reach A p \<Longrightarrow> \<exists>fs. parser_rep p fs"
proof (induction rule: ap_reach.induct)
  case reach_new
  show ?case using parser_rep_new by blast
next
  case (reach_line p aLine w p')
  then obtain fs where "parser_rep p fs" by blast
  from line_ok [OF this, of aLine] reach_line show ?case by simp
next
  case (reach_block p blk p')
  then obtain fs where "parser_rep p fs" by blast
  from block_rep [OF this] reach_block show ?case by fastforce
qed

lemma reach_layout:
  assumes "ap_reach A p"
  shows "\<exists>ts. ap_views p = ([], False, link 1 None ts, None) # forest_lay 1 None ts \<and>
      length (iAtomArray p) = Suc (forest_size ts)"
proof -
  obtain fs where fs: "parser_rep p fs" using reach_rep [OF assms] by blast
  then have "ap_views p = frames_lay 0 [] fs" by (simp add: parser_rep_def store_rep_def)
  then show ?thesis
    using store_rep_cursor(2) [of p fs] fs
    by (intro exI [of _ "close_frames fs"]) (simp add: frames_lay_def parser_rep_def del: parser_rep_bound)
qed

lemma reach_safe:
  assumes "ap_reach A p"
  shows "\<And>e. ProcessLineL aLine p = Inl e \<Longrightarrow> e = KErrImapCorrupt \<or> e = KErrCorrupt"
    and "length blk = nat (sint (iLiteralLength p)) \<Longrightarrow> \<exists>p'. ProcessLiteralBlockL blk p = Inr p'"
proof -
  obtain fs where fs: "parser_rep p fs" using reach_rep [OF assms] by blast
  show "e = KErrImapCorrupt \<or> e = KErrCorrupt" if "ProcessLineL aLine p = Inl e" for e
    using line_ok [OF fs, of aLine] that by simp
  show "\<exists>p'. ProcessLiteralBlockL blk p = Inr p'" if "length blk = nat (sint (iLiteralLength p))"
    using block_rep [OF fs that] by blast
qed

section \<open>Pointers after a reallocation\<close>

text \<open>The atoms with the absolute addresses they have when the buffer is at \<open>base\<close>.\<close>

definition rebase :: "nat \<Rightarrow> imap_atom \<Rightarrow> imap_atom" where
  "rebase base a = (if 0 < iAtomLen a then a\<lparr> iAtomPtr := base + iAtomPtr a \<rparr> else a)"

lemma fixup_rebase: "fixup_atom new old (rebase old a) = rebase new a"
  by (simp add: fixup_atom_def rebase_def)

lemma rebase_links [simp]: "iChild (rebase b a) = iChild a" "iNext (rebase b a) = iNext a"
  by (simp_all add: rebase_def)

lemma fixup_reachable:
  assumes "ap_reach A p"
  shows "fixup (length (iAtomArray p)) new old 0 (map (rebase old) (iAtomArray p)) =
      Some (map (rebase new) (iAtomArray p))"
proof -
  obtain ts where v: "ap_views p = ([], False, link 1 None ts, None) # forest_lay 1 None ts"
    and len: "length (iAtomArray p) = Suc (forest_size ts)"
    using reach_layout [OF assms] by blast
  then obtain r as where arr: "iAtomArray p = r # as" and r: "iChild r = link 1 None ts" "iNext r = None"
    and as: "map (view_atom (iBuffer p)) as = forest_lay 1 None ts"
    by (cases "iAtomArray p") (auto simp: ap_views_def view_atom_def)
  have "atom_links (map (rebase old) as) = map (\<lambda>(b, q, c, nx). (c, nx)) (map (view_atom (iBuffer p)) as)"
    by (simp add: atom_links_def view_atom_def)
  then have links: "atom_links (map (rebase old) as) = view_links_of (forest_lay 1 None ts)"
    by (simp only: as view_links_of_def)
  have "fixup_loop (forest_size ts + 0) new old (push_link (link 1 None ts) [])
      ([rebase new r] @ map (rebase old) as @ []) =
    fixup_loop 0 new old [] ([rebase new r] @ map (fixup_atom new old) (map (rebase old) as) @ [])"
    by (rule fixup_loop_lay [OF refl _ links]) simp
  then show ?thesis
    using r len by (simp add: fixup_def arr fixup_rebase Let_def o_def)
qed

section \<open>An oversized literal length\<close>

text \<open>
  The overflow test of the literal length only sees a negative value: 5000000000 wraps to a
  positive one and is accepted.
\<close>

lemma literal_length_wraps:
  "\<exists>p'. ProcessLineL [123, 53, 48, 48, 48, 48, 48, 48, 48, 48, 48, 125] (ap_new A) = Inr (True, p')
     \<and> iLiteralLength p' = 705032704"
  by (simp add: ap_new_def ProcessLineL_def ap_step_def ap_atom_wait_def ap_literal_length_def
      is_digit_def Let_def ap_unparsed_def ap_end_of_line_def word_sless_alt)

end
