(* ===== verification/Imap_Walker.thy ===== *)
theory Imap_Walker
  imports Imap_Reader
begin

text \<open>
  \<open>CImapAtomWalker\<close> (imapsession/src/cimapatomwalker.cpp): the cursor with which the response
  parsers walk a tree of atoms. The atoms themselves are the array and the buffer the atom
  parser leaves behind.
\<close>

section \<open>The walker\<close>

record atom_walker =
  iCurrentAtom :: nat
  iWalkStack :: "nat list"

datatype atom_type = EAtomNil | EAtomOpen

definition SetRootL :: "nat \<Rightarrow> atom_walker" where
  "SetRootL aRootAtom = \<lparr> iCurrentAtom = aRootAtom, iWalkStack = [aRootAtom] \<rparr>"

definition PeekDown :: "imap_atom list \<Rightarrow> atom_walker \<Rightarrow> nat option" where
  "PeekDown as w = iChild (as ! iCurrentAtom w)"

definition PeekAcross :: "imap_atom list \<Rightarrow> atom_walker \<Rightarrow> nat option" where
  "PeekAcross as w = iNext (as ! iCurrentAtom w)"

definition WalkDownL :: "imap_atom list \<Rightarrow> atom_walker \<Rightarrow> atom_walker leaving" where
  "WalkDownL as w = (case iChild (as ! iCurrentAtom w) of
       Some candidateAtom \<Rightarrow>
         Inr (w\<lparr> iWalkStack := candidateAtom # iWalkStack w, iCurrentAtom := candidateAtom \<rparr>)
     | None \<Rightarrow> Inl KErrImapCorrupt)"

text \<open>The top of the stack is replaced; an index outside the stack panics.\<close>

definition WalkAcrossL :: "imap_atom list \<Rightarrow> bool \<Rightarrow> atom_walker \<Rightarrow> (nat option \<times> atom_walker) leaving" where
  "WalkAcrossL as aLeaveIfNull w = (case iNext (as ! iCurrentAtom w) of
       Some candidateAtom \<Rightarrow>
         (case iWalkStack w of
            [] \<Rightarrow> Inl KPanicIndex
          | _ # stk \<Rightarrow> Inr (Some candidateAtom,
              w\<lparr> iWalkStack := candidateAtom # stk, iCurrentAtom := candidateAtom \<rparr>))
     | None \<Rightarrow> if aLeaveIfNull then Inl KErrImapCorrupt else Inr (None, w))"

definition WalkUpL :: "atom_walker \<Rightarrow> atom_walker leaving" where
  "WalkUpL w = (case iWalkStack w of
       _ # i # stk \<Rightarrow> Inr (w\<lparr> iWalkStack := i # stk, iCurrentAtom := i \<rparr>)
     | _ \<Rightarrow> Inl KPanicIndex)"

definition CurrentMatch :: "(byte \<Rightarrow> byte) \<Rightarrow> byte list \<Rightarrow> imap_atom list \<Rightarrow> byte list \<Rightarrow> atom_walker \<Rightarrow> bool" where
  "CurrentMatch fold_char buf as aValue w = atom_match fold_char buf (as ! iCurrentAtom w) aValue"

definition CurrentDes :: "(byte \<Rightarrow> byte) \<Rightarrow> byte list \<Rightarrow> imap_atom list \<Rightarrow> bool \<Rightarrow> atom_walker \<Rightarrow> byte list" where
  "CurrentDes fold_char buf as aNString w = atom_string fold_char buf aNString (as ! iCurrentAtom w)"

definition WalkAcrossToNilOrOpenL ::
  "(byte \<Rightarrow> byte) \<Rightarrow> byte list \<Rightarrow> imap_atom list \<Rightarrow> atom_walker \<Rightarrow> (atom_type \<times> atom_walker) leaving" where
  "WalkAcrossToNilOrOpenL fold_char buf as w = bind_l (WalkAcrossL as True w) (\<lambda>(_, w).
     if CurrentMatch fold_char buf as KImapTxtNil w then Inr (EAtomNil, w)
     else if CurrentMatch fold_char buf as KImapTxtOpenBracket w then Inr (EAtomOpen, w)
     else Inl KErrImapCorrupt)"

definition StackCount :: "atom_walker \<Rightarrow> nat" where
  "StackCount w = length (iWalkStack w)"

section \<open>Moves\<close>

text \<open>The current atom is the top of the stack, which is never empty once the root is set.\<close>

definition walker_ok :: "atom_walker \<Rightarrow> bool" where
  "walker_ok w \<longleftrightarrow> iWalkStack w \<noteq> [] \<and> hd (iWalkStack w) = iCurrentAtom w"

inductive walk_step :: "imap_atom list \<Rightarrow> atom_walker \<Rightarrow> atom_walker \<Rightarrow> bool" for as where
  step_down: "WalkDownL as w = Inr w' \<Longrightarrow> walk_step as w w'"
| step_across: "WalkAcrossL as leave w = Inr (r, w') \<Longrightarrow> walk_step as w w'"
| step_up: "WalkUpL w = Inr w' \<Longrightarrow> walk_step as w w'"

inductive_cases walk_stepE: "walk_step as w w'"

lemma SetRootL_ok: "walker_ok (SetRootL r)"
  by (simp add: walker_ok_def SetRootL_def)

lemma walk_step_ok: "walk_step as w w' \<Longrightarrow> walker_ok w \<Longrightarrow> walker_ok w'"
  by (induction rule: walk_step.induct)
     (auto simp: walker_ok_def WalkDownL_def WalkAcrossL_def WalkUpL_def split: option.splits list.splits if_splits)

lemma walk_moves_ok: "(walk_step as)\<^sup>*\<^sup>* w w' \<Longrightarrow> walker_ok w \<Longrightarrow> walker_ok w'"
  by (induction rule: rtranclp_induct) (auto intro: walk_step_ok)

text \<open>Only walking up from the root can panic.\<close>

lemma walker_panics:
  assumes "walker_ok w"
  shows "WalkDownL as w = Inl e \<Longrightarrow> e = KErrImapCorrupt \<and> PeekDown as w = None"
    "WalkAcrossL as leave w = Inl e \<Longrightarrow> e = KErrImapCorrupt \<and> leave \<and> PeekAcross as w = None"
    "WalkUpL w = Inl e \<Longrightarrow> e = KPanicIndex \<and> StackCount w = 1"
  using assms
  by (auto simp: walker_ok_def WalkDownL_def WalkAcrossL_def WalkUpL_def PeekDown_def PeekAcross_def
      StackCount_def split: option.splits list.splits if_splits)

text \<open>Any number of moves across, below a move down, is undone by one move up.\<close>

inductive walk_across :: "imap_atom list \<Rightarrow> atom_walker \<Rightarrow> atom_walker \<Rightarrow> bool" for as where
  across_none: "walk_across as w w"
| across_one: "walk_across as w w1 \<Longrightarrow> WalkAcrossL as leave w1 = Inr (r, w2) \<Longrightarrow> walk_across as w w2"

lemma across_tail:
  "walk_across as w w' \<Longrightarrow> iWalkStack w \<noteq> [] \<Longrightarrow>
     iWalkStack w' \<noteq> [] \<and> tl (iWalkStack w') = tl (iWalkStack w)"
  by (induction rule: walk_across.induct)
     (auto simp: WalkAcrossL_def split: option.splits list.splits if_splits)

lemma walk_down_across_up:
  assumes "walker_ok w" "WalkDownL as w = Inr w1" "walk_across as w1 w2"
  shows "WalkUpL w2 = Inr w"
proof -
  have w1: "tl (iWalkStack w1) = iWalkStack w" "iWalkStack w1 \<noteq> []"
    using assms(2) by (auto simp: WalkDownL_def split: option.splits)
  then have "iWalkStack w2 \<noteq> []" "tl (iWalkStack w2) = iWalkStack w"
    using across_tail [OF assms(3)] by auto
  then obtain a b stk where "iWalkStack w2 = a # b # stk" "iWalkStack w = b # stk"
    using assms(1) by (cases "iWalkStack w2"; cases "iWalkStack w") (auto simp: walker_ok_def)
  then show ?thesis
    using assms(1) by (simp add: WalkUpL_def walker_ok_def)
qed

section \<open>Walking a parsed response\<close>

text \<open>
  The strings met by walking across from the current atom until there is no next one, as the
  response parsers do.
\<close>

fun walk_level :: "nat \<Rightarrow> byte list \<Rightarrow> imap_atom list \<Rightarrow> atom_walker \<Rightarrow> byte list list" where
  "walk_level 0 buf as w = []"
| "walk_level (Suc k) buf as w =
     atom_text buf (as ! iCurrentAtom w)
       # (case WalkAcrossL as False w of
            Inr (Some i, w') \<Rightarrow> walk_level k buf as w'
          | _ \<Rightarrow> [])"

fun label :: "sexp \<Rightarrow> byte list" where
  "label (Leaf q b) = b"
| "label (Node us) = open_bracket"

lemma tree_lay_hd: "tree_lay n nx t = (label t, v) # vs \<Longrightarrow> \<exists>q c. v = (q, c, nx)"
  by (cases t) auto

lemma tree_lay_label: "\<exists>q c vs. tree_lay n nx t = (label t, q, c, nx) # vs"
  by (cases t) auto

lemma nth_of_map:
  assumes "map f as = pre @ v # vs" "length pre = n"
  shows "f (as ! n) = v"
proof -
  have "length as = length pre + Suc (length vs)" using arg_cong [OF assms(1), of length] by simp
  then have "map f as ! n = f (as ! n)" using assms(2) by simp
  then show ?thesis using assms by auto
qed

lemma walk_level_lay:
  "\<lbrakk> map (view_atom buf) as = pre @ forest_lay n None (t # ts); length pre = n; iCurrentAtom w = n;
     iWalkStack w \<noteq> []; length ts < k \<rbrakk> \<Longrightarrow>
     walk_level k buf as w = map label (t # ts)"
proof (induction ts arbitrary: k pre n t w)
  case Nil
  then obtain k' where k: "k = Suc k'" by (cases k) auto
  obtain q c vs where t: "tree_lay n None t = (label t, q, c, None) # vs"
    using tree_lay_label by blast
  have "view_atom buf (as ! n) = (label t, q, c, None)"
    using Nil.prems(1,2) t by (intro nth_of_map [of _ _ pre _ vs]) simp_all
  then show ?case
    using Nil.prems by (simp add: k view_atom_def WalkAcrossL_def)
next
  case (Cons u us)
  then obtain k' where k: "k = Suc k'" by (cases k) auto
  let ?m = "n + tree_size t"
  obtain q c vs where t: "tree_lay n (Some ?m) t = (label t, q, c, Some ?m) # vs"
    using tree_lay_label by blast
  have views: "map (view_atom buf) as = (pre @ tree_lay n (Some ?m) t) @ forest_lay ?m None (u # us)"
    using Cons.prems(1) by simp
  then have "view_atom buf (as ! n) = (label t, q, c, Some ?m)"
    using t Cons.prems(2) by (intro nth_of_map [of _ _ pre _ "vs @ forest_lay ?m None (u # us)"]) simp_all
  moreover have "walk_level k' buf as w' = map label (u # us)"
    if "iCurrentAtom w' = ?m" "iWalkStack w' \<noteq> []" for w'
    using Cons.prems k that by (intro Cons.IH [OF views]) auto
  ultimately show ?case
    using Cons.prems by (auto simp: k view_atom_def WalkAcrossL_def neq_Nil_conv)
qed

lemma walk_top_level:
  assumes "parser_rep p [ts]" "ts \<noteq> []" "length ts \<le> k"
  shows "\<exists>w. WalkDownL (iAtomArray p) (SetRootL 0) = Inr w \<and>
     walk_level k (iBuffer p) (iAtomArray p) w = map label ts"
proof -
  obtain t us where ts: "ts = t # us" using assms(2) by (cases ts) auto
  have v: "map (view_atom (iBuffer p)) (iAtomArray p) =
      [([], False, Some 1, None)] @ forest_lay 1 None (t # us)"
    using assms(1) by (simp add: parser_rep_def store_rep_def frames_lay_def ap_views_def ts del: parser_rep_bound)
  then have "iChild (iAtomArray p ! 0) = Some 1"
    by (cases "iAtomArray p") (auto simp: view_atom_def)
  then have down: "WalkDownL (iAtomArray p) (SetRootL 0) = Inr \<lparr> iCurrentAtom = 1, iWalkStack = [1, 0] \<rparr>"
    by (simp add: WalkDownL_def SetRootL_def)
  have "walk_level k (iBuffer p) (iAtomArray p) \<lparr> iCurrentAtom = 1, iWalkStack = [1, 0] \<rparr> = map label (t # us)"
    using assms(3) ts by (intro walk_level_lay [OF v]) auto
  then show ?thesis using down ts by simp
qed

section \<open>Strings that look like structure\<close>

text \<open>
  The comparison does not ask whether the atom was quoted: a quoted string holding a bracket is
  taken for an open bracket, and walking down from it then fails.
\<close>

lemma quoted_bracket_is_open:
  assumes "iNext (as ! iCurrentAtom w) = Some i" "iWalkStack w \<noteq> []"
    and "atom_text buf (as ! i) = open_bracket"
  shows "\<exists>w'. WalkAcrossToNilOrOpenL fold_char buf as w = Inr (EAtomOpen, w') \<and> iCurrentAtom w' = i"
  using assms
  by (auto simp: WalkAcrossToNilOrOpenL_def WalkAcrossL_def CurrentMatch_def atom_match_def
      compare_f_def KImapTxtNil_def KImapTxtOpenBracket_def neq_Nil_conv)

end
