(* ===== verification/Imap_Props.thy ===== *)
theory Imap_Props
  imports Imap_Literals Imap_Walker
begin

text \<open>
  The properties of the IMAP atom parser and of the walker over its atoms.
\<close>

text \<open>C25: a line holding the printed form of any list of s-expressions is parsed completely, and
  the tree of atoms it leaves reads back as exactly that list.\<close>

theorem parser_reads_back:
  assumes "list_all printable ts"
  shows "\<exists>p. ProcessLineL (print_forest ts) (ap_new True) = Inr (False, p) \<and> ap_forest p = ts"
  by (rule parse_forest [OF assms])

theorem parser_reads_back_witness:
  "\<exists>p. ProcessLineL [70, 32, 40, 34, 92, 34, 34, 32, 40, 41, 41] (ap_new True) = Inr (False, p) \<and>
     ap_forest p = [Leaf False [70], Node [Leaf True [34], Node []]]"
  using parser_reads_back [of "[Leaf False [70], Node [Leaf True [34], Node []]]"]
  by (simp add: plain_atom_def print_leaf_def)

text \<open>A parser that may not parse at top level stops at the bracket that matches the first
  open one: the atoms and the list before it are the tree, the rest of the line is reported as
  unparsed.\<close>

lemma parser_stops_at_match:
  assumes "list_all printable (ts @ [Node us])" "list_all (\<lambda>t. \<exists>q b. t = Leaf q b) ts"
  shows "\<exists>p. ProcessLineL (print_forest (ts @ [Node us]) @ rest) (ap_new False) = Inr (False, p) \<and>
      ap_forest p = ts @ [Node us] \<and> iUnparsedData p = rest"
  by (rule parse_to_bracket [OF assms])

theorem parser_stops_at_match_witness:
  "\<exists>p. ProcessLineL [40, 97, 41, 32, 98] (ap_new False) = Inr (False, p) \<and>
      ap_forest p = [Node [Leaf False [97]]] \<and> iUnparsedData p = [32, 98]"
  using parser_stops_at_match [of "[]" "[Leaf False [97]]" "[32, 98]"]
  by (simp add: plain_atom_def print_leaf_def)

text \<open>A literal announced at the end of a line asks for more data, its length is read
  exactly, and the block and the line after it complete the list it stands in.\<close>

lemma parser_literal:
  assumes "list_all printable (ts @ us)" "length blk < 2 ^ 31" "blk \<noteq> open_bracket"
  shows "\<exists>p1 p2 p3.
     ProcessLineL ([40] @ print_forest ts @ sep ts @ [123] @ decimal (length blk) @ [125]) (ap_new A) =
       Inr (True, p1) \<and> iLiteralLength p1 = of_nat (length blk) \<and>
     ProcessLiteralBlockL blk p1 = Inr p2 \<and>
     ProcessLineL (sep us @ print_forest us @ [41]) p2 = Inr (False, p3) \<and>
     ap_forest p3 = [Node (ts @ [Leaf False blk] @ us)]"
  by (rule parse_literal [OF assms])

theorem parser_literal_witness:
  "\<exists>p1 p2 p3. ProcessLineL [40, 123, 50, 125] (ap_new False) = Inr (True, p1) \<and>
     ProcessLiteralBlockL [41, 13] p1 = Inr p2 \<and> ProcessLineL [41] p2 = Inr (False, p3) \<and>
     ap_forest p3 = [Node [Leaf False [41, 13]]]"
  using parser_literal [of "[]" "[]" "[41, 13]" False] by (auto simp: sep_def decimal.simps)

text \<open>C26: after any sequence of lines and literal blocks the atoms form one tree, laid out in
  the order they were read: every atom is linked exactly once, and every string lies within the
  buffer.\<close>

theorem parser_tree_invariant:
  assumes "ap_reach A p"
  shows "(\<exists>ts. ap_views p = ([], False, link 1 None ts, None) # forest_lay 1 None ts \<and>
      length (iAtomArray p) = Suc (forest_size ts)) \<and>
    list_all (atom_within (iBuffer p)) (iAtomArray p) \<and> length (iBuffer p) \<le> iBufferSize p"
  using reach_layout [OF assms] reach_rep [OF assms]
  by (auto simp: parser_rep_def store_rep_def buffer_ok_def simp del: parser_rep_bound)

theorem parser_tree_invariant_witness:
  "\<exists>p. ProcessLineL [41, 97] (ap_new False) = Inl KErrImapCorrupt \<and>
     ProcessLineL [40] (ap_new False) = Inr (False, p) \<and>
     list_all (atom_within (iBuffer p)) (iAtomArray p)"
proof -
  obtain p where p: "ProcessLineL [40] (ap_new False) = Inr (False, p)"
    by (simp add: ProcessLineL_def ap_step_def ap_atom_wait_def ap_new_def ap_open_def PushL_def
        ap_link_new_def BufferAppendL_def des_append_def KIOBufferSize_def Let_def ap_unparsed_def
        ap_end_of_line_def)
  have "ap_reach False p" by (rule reach_line [OF reach_new p])
  from parser_tree_invariant [OF this] p show ?thesis
    by (simp add: ProcessLineL_def ap_step_def ap_atom_wait_def ap_new_def ap_close_def PopL_def)
qed

text \<open>C27: in every reachable state, any line either succeeds or leaves with a corrupt-data
  error, and a literal block of the announced length always fits: the parser never panics.\<close>

theorem parser_never_panics:
  assumes "ap_reach A p"
  shows "(case ProcessLineL aLine p of Inl e \<Rightarrow> e \<in> {KErrImapCorrupt, KErrCorrupt} | Inr _ \<Rightarrow> True)
    \<and> (length blk = nat (sint (iLiteralLength p)) \<longrightarrow> (\<exists>p'. ProcessLiteralBlockL blk p = Inr p'))"
  using reach_safe [OF assms] by (auto split: sum.split)

theorem parser_never_panics_witness:
  "\<exists>p'. ProcessLiteralBlockL [] (ap_new True) = Inr p'"
  using parser_never_panics [OF reach_new [of True], of "[]" "[]"] by (simp add: ap_new_def)

text \<open>C28: when the buffer moves, the repair visits every atom once: the addresses of all
  non-empty strings are those of the new buffer.\<close>

theorem fixup_moves_all:
  assumes "ap_reach A p"
  shows "fixup (length (iAtomArray p)) new old 0 (map (rebase old) (iAtomArray p)) =
      Some (map (rebase new) (iAtomArray p))"
  by (rule fixup_reachable [OF assms])

theorem fixup_moves_all_witness:
  "fixup 1 500 100 0 (map (rebase 100) (iAtomArray (ap_new True))) =
     Some (map (rebase 500) (iAtomArray (ap_new True)))"
  using fixup_moves_all [OF reach_new [of True], of 500 100] by (simp add: ap_new_def)

text \<open>In every state a walk can reach, walking down or across never panics, and walking up panics only at
  the root; the comment on \<open>WalkUpL\<close> promises a leave there.\<close>

lemma walker_panics_only_at_root:
  assumes "(walk_step as)\<^sup>*\<^sup>* (SetRootL r) w"
  shows "(WalkDownL as w = Inl e \<longrightarrow> e = KErrImapCorrupt \<and> PeekDown as w = None)
    \<and> (WalkAcrossL as leave w = Inl e \<longrightarrow> e = KErrImapCorrupt \<and> leave \<and> PeekAcross as w = None)
    \<and> (WalkUpL w = Inl e \<longrightarrow> StackCount w = 1)"
  using walker_panics [OF walk_moves_ok [OF assms SetRootL_ok]] by blast

lemma walker_panics_only_at_root_witness:
  "WalkDownL [atom_new] (SetRootL 0) = Inl KErrImapCorrupt \<and> PeekDown [atom_new] (SetRootL 0) = None"
  using walker_panics_only_at_root [of "[atom_new]" 0 "SetRootL 0" KErrImapCorrupt False]
  by (simp add: WalkDownL_def SetRootL_def atom_ops)

end
