(* ===== verification/Imap_Text.thy ===== *)
theory Imap_Text
  imports Imap_Walker Imap_Literals
begin

text \<open>
  The text helpers of the IMAP commands (imapsession/src/cimapcommand.cpp): splitting a response into
  parts, the length of a tag, and quoting a mailbox name. The build without
  \<open>SYMBIAN_EMAIL_CAPABILITY_SUPPORT\<close> is modelled. The conversion to modified UTF-7 is a service of the
  platform.
\<close>

section \<open>Descriptors and numbers\<close>

fun locate8 :: "byte \<Rightarrow> string8 \<Rightarrow> nat option" where
  "locate8 c [] = None"
| "locate8 c (x # xs) = (if x = c then Some 0 else map_option Suc (locate8 c xs))"

lemma locate8_None [simp]: "locate8 c s = None \<longleftrightarrow> c \<notin> set s"
  by (induction s) auto

lemma locate8_Some: "locate8 c s = Some n \<longleftrightarrow> n < length s \<and> s ! n = c \<and> c \<notin> set (take n s)"
proof (induction s arbitrary: n)
  case (Cons x s)
  then show ?case by (cases n) auto
qed simp

lemma locate8_append: "c \<notin> set s \<Longrightarrow> locate8 c (s @ c # t) = Some (length s)"
  by (induction s) auto

text \<open>\<open>TLex8::Val\<close>: the number at the start of the text. It fails with \<open>KErrGeneral\<close> when there is no
  digit, and with \<open>KErrOverflow\<close> when the number does not fit; what follows the digits is not looked
  at.\<close>

definition digits_value :: "string8 \<Rightarrow> nat" where
  "digits_value s = foldl (\<lambda>n c. 10 * n + unat (c - 48)) 0 s"

definition lex_digits :: "nat \<Rightarrow> string8 \<Rightarrow> nat leaving" where
  "lex_digits limit s =
     (let ds = takeWhile is_digit s in
      if ds = [] then Inl KErrGeneral
      else if limit < digits_value ds then Inl KErrOverflow else Inr (digits_value ds))"

definition lex_int :: "string8 \<Rightarrow> tint leaving" where
  "lex_int s =
     (if s \<noteq> [] \<and> hd s = 45 then map_sum id (\<lambda>n. - of_nat n) (lex_digits (2 ^ 31) (tl s))
      else if s \<noteq> [] \<and> hd s = 43 then map_sum id of_nat (lex_digits (2 ^ 31 - 1) (tl s))
      else map_sum id of_nat (lex_digits (2 ^ 31 - 1) s))"

definition lex_uint :: "string8 \<Rightarrow> tint leaving" where
  "lex_uint s = map_sum id of_nat (lex_digits (2 ^ 32 - 1) s)"

text \<open>The same with integers, which is how the definitions are evaluated.\<close>

definition digits_int :: "string8 \<Rightarrow> int" where
  "digits_int s = foldl (\<lambda>n c. 10 * n + uint (c - 48)) 0 s"

lemma digits_int_value: "digits_int s = int (digits_value s)"
proof -
  have "foldl (\<lambda>n c. 10 * n + uint (c - 48)) (int k) s = int (foldl (\<lambda>n c. 10 * n + unat (c - 48)) k s)" for k
  proof (induction s arbitrary: k)
    case (Cons c s)
    have "10 * int k + uint (c - 48) = int (10 * k + unat (c - 48))"
      by (simp only: of_nat_add of_nat_mult of_nat_numeral uint_nat)
    with Cons [of "10 * k + unat (c - 48)"] show ?case unfolding foldl_Cons by (simp only:)
  qed simp
  from this [of 0] show ?thesis by (simp add: digits_int_def digits_value_def)
qed

definition lex_word :: "int \<Rightarrow> string8 \<Rightarrow> tint leaving" where
  "lex_word limit s =
     (let ds = takeWhile is_digit s; n = digits_int ds in
      if ds = [] then Inl KErrGeneral else if limit < n then Inl KErrOverflow else Inr (of_int n))"

lemma lex_word_digits: "map_sum id of_nat (lex_digits limit s) = lex_word (int limit) s"
  by (simp add: lex_digits_def lex_word_def Let_def digits_int_value)

lemma lex_int_code [code]:
  "lex_int s =
     (if s \<noteq> [] \<and> hd s = 45 then map_sum id uminus (lex_word 2147483648 (tl s))
      else if s \<noteq> [] \<and> hd s = 43 then lex_word 2147483647 (tl s)
      else lex_word 2147483647 s)"
proof -
  have "map_sum id (\<lambda>n. - of_nat n :: tint) (lex_digits (2 ^ 31) (tl s)) =
      map_sum id uminus (map_sum id of_nat (lex_digits (2 ^ 31) (tl s)) :: tint leaving)"
    by (cases "lex_digits (2 ^ 31) (tl s)") simp_all
  then show ?thesis by (simp add: lex_int_def lex_word_digits)
qed

lemma lex_uint_code [code]: "lex_uint s = lex_word 4294967295 s"
  by (simp add: lex_uint_def lex_word_digits)

section \<open>Parts of a response\<close>

text \<open>\<open>GetNextPart\<close> gives the part and what is left. When the rest has no space, the part is the text
  as it was on entry, with its leading space.\<close>

definition skip_space :: "string8 \<Rightarrow> string8" where
  "skip_space s = (if s \<noteq> [] \<and> hd s = 32 then tl s else s)"

text \<open>The last quote after the first character.\<close>

definition closing_quote :: "string8 \<Rightarrow> nat option" where
  "closing_quote s = (case locate8 34 (rev (tl s)) of None \<Rightarrow> None | Some k \<Rightarrow> Some (length s - 1 - k))"

definition next_part :: "string8 \<Rightarrow> string8 \<times> string8" where
  "next_part u =
     (let s = skip_space u in
      case s of
        [] \<Rightarrow> (u, s)
      | c # _ \<Rightarrow>
          if c = 34 then
            (case closing_quote s of
               None \<Rightarrow> (u, s)
             | Some i \<Rightarrow> (take (i + 1) s, skip_space (drop (i + 1) s)))
          else
            (case locate8 32 s of
               None \<Rightarrow> (u, [])
             | Some offset \<Rightarrow> (take offset s, drop (offset + 1) s)))"

definition peek_part :: "string8 \<Rightarrow> string8" where
  "peek_part u = (let s = dropWhile (\<lambda>c. c = 32) u in
     case locate8 32 s of None \<Rightarrow> s | Some offset \<Rightarrow> take offset s)"

text \<open>\<open>GetDelimitedPartsL\<close>. A delimiter at the very end adds no empty part.\<close>

function delimited_loop :: "byte \<Rightarrow> int \<Rightarrow> string8 \<Rightarrow> string8 list \<Rightarrow> string8 list" where
  "delimited_loop d aMaxParts seg out =
     (case locate8 d seg of
        None \<Rightarrow> out @ [seg]
      | Some found \<Rightarrow>
          let out = out @ [take found seg] in
          if 0 < aMaxParts \<and> aMaxParts \<le> int (length out) then out
          else if found + 1 < length seg then delimited_loop d aMaxParts (drop (found + 1) seg) out
          else out)"
  by pat_completeness auto
termination by (relation "measure (\<lambda>(d, m, seg, out). length seg)") auto

declare delimited_loop.simps [simp del]

definition GetDelimitedPartsL :: "byte \<Rightarrow> string8 \<Rightarrow> int \<Rightarrow> string8 list" where
  "GetDelimitedPartsL aDelimiter aData aMaxParts =
     (if aData = [] then [] else delimited_loop aDelimiter aMaxParts aData [])"

section \<open>Tags\<close>

function TagLength :: "int \<Rightarrow> nat" where
  "TagLength aTagId = (if 9 < aTagId then Suc (TagLength (aTagId div 10)) else 1)"
  by pat_completeness auto
termination by (relation "measure nat") auto

declare TagLength.simps [simp del]

text \<open>The text of \<open>%d\<close>.\<close>

definition show_int :: "int \<Rightarrow> string8" where
  "show_int n = (if n < 0 then 45 # decimal (nat (- n)) else decimal (nat n))"

lemma tag_length_exact: "0 \<le> n \<Longrightarrow> length (show_int n) = TagLength n"
proof -
  have "length (decimal m) = TagLength (int m)" for m
  proof (induction m rule: decimal.induct)
    case (1 m)
    show ?case
    proof (cases "m < 10")
      case True
      then show ?thesis by (simp add: decimal.simps [of m] TagLength.simps [of "int m"])
    next
      case False
      with 1 have "length (decimal (m div 10)) = TagLength (int m div 10)" by (simp add: zdiv_int)
      with False show ?thesis by (simp add: decimal.simps [of m] TagLength.simps [of "int m"])
    qed
  qed
  from this [of "nat n"] show "0 \<le> n \<Longrightarrow> ?thesis" by (simp add: show_int_def)
qed

lemma decimal_digits: "c \<in> set (decimal n) \<Longrightarrow> is_digit c"
proof (induction n rule: decimal.induct)
  case (1 n)
  then show ?case
    using digit_facts(1) [of n] digit_facts(1) [of "n mod 10"]
    by (auto simp: decimal.simps [of n] simp del: of_nat_add split: if_splits)
qed

lemma digits_value_snoc: "digits_value (s @ [c]) = 10 * digits_value s + unat (c - 48)"
  by (simp add: digits_value_def)

lemma digits_value_decimal: "digits_value (decimal n) = n"
proof (induction n rule: decimal.induct)
  case (1 n)
  have d: "unat (of_nat (48 + k) - 48 :: byte) = k" if "k < 10" for k
    using that by (simp add: unat_of_nat)
  show ?case
  proof (cases "n < 10")
    case True
    have "digits_value [of_nat (48 + n)] = unat (of_nat (48 + n) - 48 :: byte)" by (simp add: digits_value_def)
    with True show ?thesis by (simp only: decimal.simps [of n] if_True d)
  next
    case False
    then show ?thesis using 1 d [of "n mod 10"]
      by (simp only: decimal.simps [of n] if_False digits_value_snoc) simp
  qed
qed

lemma decimal_nonempty: "decimal n \<noteq> []"
  by (simp add: decimal.simps [of n])

lemma lex_show:
  assumes "0 \<le> n" "n < 2 ^ 31" "t = [] \<or> \<not> is_digit (hd t)"
  shows "lex_int (show_int n @ t) = Inr (of_int n)"
proof -
  let ?s = "decimal (nat n)"
  have all: "\<forall>c\<in>set ?s. is_digit c" using decimal_digits by blast
  have "takeWhile is_digit (?s @ t) = ?s"
    using all assms(3) by (cases t) (auto simp: takeWhile_append)
  then have l: "lex_digits (2 ^ 31 - 1) (?s @ t) = Inr (nat n)"
    using assms(1,2) by (simp add: lex_digits_def Let_def decimal_nonempty digits_value_decimal nat_less_iff)
  obtain c r where s: "?s = c # r" using decimal_nonempty by (cases ?s) auto
  with all have "c \<noteq> 45" "c \<noteq> 43" by (auto simp: is_digit_def)
  then have "lex_int (?s @ t) = map_sum id of_nat (lex_digits (2 ^ 31 - 1) (?s @ t))"
    unfolding lex_int_def s append_Cons by simp
  with l assms(1) show ?thesis by (simp add: show_int_def)
qed

end
