(* ===== verification/Imap_Command.thy ===== *)
theory Imap_Command
  imports Imap_Text
begin

text \<open>
  \<open>CImapCommand\<close> and \<open>CImapCommandEx\<close> (imapsession/src/cimapcommand.cpp), the state machine that
  every IMAP command runs on the lines and literals the server sends, and the folder data
  (cimapfolderinfo.cpp) it updates. A command is a record that its subclass extends with members of
  its own; the virtual methods of the subclass are a record of functions. Leaving loses the state:
  the session then closes the connection.
\<close>

section \<open>The selected folder\<close>

record folder_info =
  iName :: string16
  iFolderFlags :: byte
  iExists :: tint
  iRecent :: tint
  iExpungedMessages :: "tint list"
  iMessageFlagsChanged :: bool
  iMailboxWritable :: bool
  iUnseen :: tint
  iMessages :: tint
  iUidNext :: tint
  iUidValidity :: tint

definition AddExpungedMessageL :: "tint \<Rightarrow> folder_info \<Rightarrow> folder_info" where
  "AddExpungedMessageL n f =
     f\<lparr> iExpungedMessages := iExpungedMessages f @ [n], iExists := iExists f - 1 \<rparr>"

definition set_flag :: "byte \<Rightarrow> bool \<Rightarrow> byte \<Rightarrow> byte" where
  "set_flag aFlagId aValue flags = (if aValue then flags OR aFlagId else flags AND NOT aFlagId)"

definition query_flag :: "byte \<Rightarrow> byte \<Rightarrow> bool" where
  "query_flag aFlagId flags \<longleftrightarrow> flags AND aFlagId \<noteq> 0"

section \<open>The state of a command\<close>

datatype response_code = EImapResponseNone | EImapResponseOk | EImapResponseNo | EImapResponseBad

datatype parse_block_result = ENotRecognised | EResponseIncomplete | ECompleteUntagged | ECompleteTagged

datatype parse_state =
    EWaitStartResponse | EWaitLiteralParse | EWaitLineParse | EWaitLiteralIngore | EWaitLineIgnore
  | ECommandComplete

datatype tag_type = ETagged tint | EUntagged | EContinuation

record imap_command =
  iTagId :: tint
  iUnparsedData :: string8
  iSelectedFolderData :: "folder_info option"
  iResponseCode :: response_code
  iCompleteOnAnyResponse :: bool
  iLiteralBytesExpected :: tint
  iParseState :: parse_state
  iFlushing :: bool
  iTaggedResponsesToFlush :: tint

type_synonym ('a, 'm) imap_method =
  "'m imap_command_scheme \<Rightarrow> ('a \<times> 'm imap_command_scheme) leaving"

record 'm command_class =
  vParseTaggedResponseL :: "tint \<Rightarrow> (bool, 'm) imap_method"
  vParseContinuationResponseL :: "(unit, 'm) imap_method"
  vParseUntaggedResponseL :: "(parse_block_result, 'm) imap_method"
  vParseLiteralBlockL :: "(unit, 'm) imap_method"
  vParseLineFollowingLiteralL :: "(bool, 'm) imap_method"

definition command_new :: "folder_info option \<Rightarrow> imap_command" where
  "command_new aSelectedFolderData =
     \<lparr> iTagId = 0, iUnparsedData = [], iSelectedFolderData = aSelectedFolderData,
       iResponseCode = EImapResponseNone, iCompleteOnAnyResponse = False, iLiteralBytesExpected = 0,
       iParseState = EWaitStartResponse, iFlushing = False, iTaggedResponsesToFlush = 0 \<rparr>"

section \<open>Methods\<close>

definition mreturn :: "'a \<Rightarrow> ('a, 'm) imap_method" where
  "mreturn x c = Inr (x, c)"

definition mbind :: "('a, 'm) imap_method \<Rightarrow> ('a \<Rightarrow> ('b, 'm) imap_method) \<Rightarrow> ('b, 'm) imap_method" where
  "mbind m k c = bind_l (m c) (\<lambda>(x, c). k x c)"

definition mread :: "('m imap_command_scheme \<Rightarrow> 'a) \<Rightarrow> ('a, 'm) imap_method" where
  "mread g c = Inr (g c, c)"

definition mapply :: "('m imap_command_scheme \<Rightarrow> 'm imap_command_scheme) \<Rightarrow> (unit, 'm) imap_method" where
  "mapply g c = Inr ((), g c)"

definition mleave :: "symbian_error \<Rightarrow> ('a, 'm) imap_method" where
  "mleave e c = Inl e"

definition CorruptDataL :: "('a, 'm) imap_method" where
  "CorruptDataL = mleave KErrImapCorrupt"

definition set_unparsed :: "string8 \<Rightarrow> (unit, 'm) imap_method" where
  "set_unparsed s = mapply (\<lambda>c. c\<lparr> iUnparsedData := s \<rparr>)"

section \<open>Reading a line\<close>

definition GetNextPart :: "(string8, 'm) imap_method" where
  "GetNextPart = mbind (mread iUnparsedData) (\<lambda>u.
     case next_part u of (part, rest) \<Rightarrow> mbind (set_unparsed rest) (\<lambda>_. mreturn part))"

definition KImapTxtContinuation :: string8 where "KImapTxtContinuation = [43]"
definition KImapTxtUntagged :: string8 where "KImapTxtUntagged = [42]"

definition GetTagTypeL :: "(tag_type, 'm) imap_method" where
  "GetTagTypeL = mbind GetNextPart (\<lambda>part.
     if find_f id KImapTxtContinuation part \<noteq> None then mreturn EContinuation
     else if find_f id KImapTxtUntagged part \<noteq> None then mreturn EUntagged
     else case lex_int part of
            Inl _ \<Rightarrow> CorruptDataL
          | Inr aTagId \<Rightarrow> mreturn (ETagged aTagId))"

text \<open>The text code between square brackets; a response without a bracket is given back as it is.\<close>

definition GetResponseTextCodeL :: "(string8, 'm) imap_method" where
  "GetResponseTextCodeL = mbind (mread iUnparsedData) (\<lambda>u.
     if u = [] then mreturn []
     else if hd u = 91 then
       (case locate8 93 u of
          None \<Rightarrow> CorruptDataL
        | Some offset \<Rightarrow> mbind (set_unparsed (drop (offset + 1) u)) (\<lambda>_. mreturn (take (offset - 1) (drop 1 u))))
     else mreturn u)"

definition KImapTxtOk :: string8 where "KImapTxtOk = ascii ''OK''"
definition KImapTxtNo :: string8 where "KImapTxtNo = ascii ''NO''"
definition KImapTxtBad :: string8 where "KImapTxtBad = ascii ''BAD''"

definition response_code_of :: "(byte \<Rightarrow> byte) \<Rightarrow> string8 \<Rightarrow> response_code" where
  "response_code_of f part =
     (if compare_f f part KImapTxtOk then EImapResponseOk
      else if compare_f f part KImapTxtNo then EImapResponseNo
      else if compare_f f part KImapTxtBad then EImapResponseBad
      else EImapResponseNone)"

text \<open>When the code is the whole text there is no space; the offset is then \<open>-1\<close> and the text stays.\<close>

definition GetResponseStateCode :: "(byte \<Rightarrow> byte) \<Rightarrow> (response_code, 'm) imap_method" where
  "GetResponseStateCode f = mbind (mread iUnparsedData) (\<lambda>u.
     case locate8 32 u of
       None \<Rightarrow> mreturn (response_code_of f u)
     | Some offset \<Rightarrow>
         (let result = response_code_of f (take offset u) in
          if result = EImapResponseNone then mreturn result
          else mbind (set_unparsed (drop (offset + 1) u)) (\<lambda>_. mreturn result)))"

text \<open>\<open>PeekLiteralRequest\<close>: the number in the last pair of braces at the end of a line. A text that is no
  number leaves the length as it was.\<close>

definition literal_request :: "string8 \<Rightarrow> string8 option" where
  "literal_request aLine =
     (if length aLine < 3 \<or> last aLine \<noteq> 125 then None
      else case locate8 123 (rev aLine) of
             None \<Rightarrow> None
           | Some k \<Rightarrow> (let i = length aLine - 1 - k; s = take (length aLine - i - 2) (drop (i + 1) aLine)
                        in if s = [] then None else Some s))"

definition PeekLiteralRequest :: "string8 \<Rightarrow> 'm imap_command_scheme \<Rightarrow> 'm imap_command_scheme" where
  "PeekLiteralRequest aLine c =
     (case literal_request aLine of
        None \<Rightarrow> c
      | Some s \<Rightarrow> (case lex_int s of Inl _ \<Rightarrow> c | Inr n \<Rightarrow> c\<lparr> iLiteralBytesExpected := n \<rparr>))"

section \<open>Responses that no command asked for\<close>

definition KImapTxtExpunge :: string8 where "KImapTxtExpunge = ascii ''EXPUNGE''"
definition KImapTxtExists :: string8 where "KImapTxtExists = ascii ''EXISTS''"
definition KImapTxtRecent :: string8 where "KImapTxtRecent = ascii ''RECENT''"
definition KImapTxtFetch :: string8 where "KImapTxtFetch = ascii ''FETCH''"

definition on_folder :: "(folder_info \<Rightarrow> folder_info) \<Rightarrow> 'm imap_command_scheme \<Rightarrow> 'm imap_command_scheme" where
  "on_folder g c = c\<lparr> iSelectedFolderData := map_option g (iSelectedFolderData c) \<rparr>"

definition SetMessageFlagsChanged :: "'m imap_command_scheme \<Rightarrow> 'm imap_command_scheme" where
  "SetMessageFlagsChanged = on_folder (\<lambda>f. f\<lparr> iMessageFlagsChanged := True \<rparr>)"

definition unhandled_number :: "(byte \<Rightarrow> byte) \<Rightarrow> tint \<Rightarrow> (parse_block_result, 'm) imap_method" where
  "unhandled_number f n = mbind GetNextPart (\<lambda>secondPart.
     if compare_f f secondPart KImapTxtExpunge
       then mbind (mapply (on_folder (\<lambda>x. if iExists x \<noteq> 0 then AddExpungedMessageL n x else x)))
              (\<lambda>_. mreturn ECompleteUntagged)
     else if compare_f f secondPart KImapTxtExists
       then mbind (mapply (on_folder (\<lambda>x. x\<lparr> iExists := n \<rparr>))) (\<lambda>_. mreturn ECompleteUntagged)
     else if compare_f f secondPart KImapTxtRecent
       then mbind (mapply (on_folder (\<lambda>x. x\<lparr> iRecent := n \<rparr>))) (\<lambda>_. mreturn ECompleteUntagged)
     else if compare_f f secondPart KImapTxtFetch
       then mbind (mapply SetMessageFlagsChanged) (\<lambda>_. mreturn ECompleteUntagged)
     else mreturn ENotRecognised)"

definition ParseUnhandledBlockL :: "(byte \<Rightarrow> byte) \<Rightarrow> string8 \<Rightarrow> (parse_block_result, 'm) imap_method" where
  "ParseUnhandledBlockL f aLine =
     mbind (set_unparsed aLine) (\<lambda>_. mbind GetTagTypeL (\<lambda>_. mbind GetNextPart (\<lambda>numberPart.
       case lex_int numberPart of Inl _ \<Rightarrow> mreturn ENotRecognised | Inr n \<Rightarrow> unhandled_number f n)))"

section \<open>Blocks\<close>

definition SetParseState :: "parse_state \<Rightarrow> 'm imap_command_scheme \<Rightarrow> 'm imap_command_scheme" where
  "SetParseState s c = c\<lparr> iParseState := s \<rparr>"

text \<open>The state after a response that is ignored: its literal, when it announced one, comes next.\<close>

definition after_ignored :: "'m imap_command_scheme \<Rightarrow> 'm imap_command_scheme" where
  "after_ignored c =
     SetParseState (if 0 <s iLiteralBytesExpected c then EWaitLiteralIngore else EWaitStartResponse) c"

definition ParseLineL ::
  "(byte \<Rightarrow> byte) \<Rightarrow> (parse_block_result, 'm) imap_method \<Rightarrow> string8 \<Rightarrow> (unit, 'm) imap_method" where
  "ParseLineL f do_parse aLine =
     mbind (mapply (PeekLiteralRequest aLine)) (\<lambda>_. mbind do_parse (\<lambda>r. mbind (mread id) (\<lambda>c.
       if r = ECompleteUntagged \<and> iLiteralBytesExpected c \<noteq> 0 then mreturn ()
       else case r of
         ECompleteTagged \<Rightarrow> mapply (SetParseState ECommandComplete)
       | ECompleteUntagged \<Rightarrow> mapply (SetParseState EWaitStartResponse)
       | EResponseIncomplete \<Rightarrow> mapply (SetParseState EWaitLiteralParse)
       | ENotRecognised \<Rightarrow>
           if iParseState c = EWaitLineParse then mreturn ()
           else mbind (ParseUnhandledBlockL f aLine) (\<lambda>_. mapply after_ignored))))"

definition ParseLiteralL :: "(parse_block_result, 'm) imap_method \<Rightarrow> (unit, 'm) imap_method" where
  "ParseLiteralL do_parse = mbind do_parse (\<lambda>r.
     if r = EResponseIncomplete then mapply (SetParseState EWaitLineParse) else mreturn ())"

definition ParseStartResponseFlushL :: "(byte \<Rightarrow> byte) \<Rightarrow> string8 \<Rightarrow> (unit, 'm) imap_method" where
  "ParseStartResponseFlushL f aLine = mbind GetTagTypeL (\<lambda>t.
     case t of
       ETagged _ \<Rightarrow>
         mbind (mapply (\<lambda>c. c\<lparr> iTaggedResponsesToFlush := iTaggedResponsesToFlush c - 1 \<rparr>)) (\<lambda>_.
         mbind (mread iTaggedResponsesToFlush) (\<lambda>n.
           if n = 0
           then mbind (GetResponseStateCode f) (\<lambda>code.
                  mapply (\<lambda>c. SetParseState ECommandComplete (c\<lparr> iResponseCode := code \<rparr>)))
           else mreturn ()))
     | EUntagged \<Rightarrow> mapply (\<lambda>c. after_ignored (PeekLiteralRequest aLine c))
     | EContinuation \<Rightarrow> CorruptDataL)"

definition parse_block ::
  "(byte \<Rightarrow> byte) \<Rightarrow> (parse_block_result, 'm) imap_method \<Rightarrow> string8 \<Rightarrow> (unit, 'm) imap_method" where
  "parse_block f do_parse aData = mbind (mread id) (\<lambda>c.
     case iParseState c of
       EWaitStartResponse \<Rightarrow>
         if iFlushing c then ParseStartResponseFlushL f aData else ParseLineL f do_parse aData
     | EWaitLineParse \<Rightarrow> ParseLineL f do_parse aData
     | EWaitLiteralParse \<Rightarrow> ParseLiteralL do_parse
     | EWaitLiteralIngore \<Rightarrow> mapply (SetParseState EWaitLineIgnore)
     | EWaitLineIgnore \<Rightarrow> mapply (\<lambda>c. after_ignored (PeekLiteralRequest aData c))
     | ECommandComplete \<Rightarrow> mreturn ())"

definition complete_on_any :: "'m imap_command_scheme \<Rightarrow> 'm imap_command_scheme" where
  "complete_on_any c =
     (if iCompleteOnAnyResponse c \<and> iParseState c = EWaitStartResponse
      then SetParseState ECommandComplete (c\<lparr> iResponseCode := EImapResponseOk \<rparr>) else c)"

definition ParseBlockL ::
  "(byte \<Rightarrow> byte) \<Rightarrow> (parse_block_result, 'm) imap_method \<Rightarrow> string8 \<Rightarrow> (parse_state, 'm) imap_method" where
  "ParseBlockL f do_parse aData =
     mbind (mapply (\<lambda>c. c\<lparr> iUnparsedData := aData, iLiteralBytesExpected := 0 \<rparr>)) (\<lambda>_.
     mbind (parse_block f do_parse aData) (\<lambda>_.
     mbind (mapply complete_on_any) (\<lambda>_. mread iParseState)))"

section \<open>Cancelling\<close>

text \<open>\<open>n\<close> is what \<open>NumberOfTaggedResponsesExpected\<close> gives: one, unless a subclass pipelines requests.\<close>

definition EnterFlushingState :: "tint \<Rightarrow> 'm imap_command_scheme \<Rightarrow> 'm imap_command_scheme" where
  "EnterFlushingState n c =
     (let c = c\<lparr> iFlushing := True, iTaggedResponsesToFlush := n \<rparr> in
      case iParseState c of
        EWaitLiteralParse \<Rightarrow> SetParseState EWaitLiteralIngore c
      | EWaitLineParse \<Rightarrow> SetParseState EWaitLineIgnore c
      | _ \<Rightarrow> c)"

definition Cancel :: "'m imap_command_scheme \<Rightarrow> 'm imap_command_scheme" where
  "Cancel = EnterFlushingState 1"

section \<open>\<open>CImapCommandEx\<close>\<close>

definition ParseStartResponseL :: "'m command_class \<Rightarrow> (parse_block_result, 'm) imap_method" where
  "ParseStartResponseL cls = mbind GetTagTypeL (\<lambda>t.
     case t of
       ETagged aTagId \<Rightarrow>
         mbind (vParseTaggedResponseL cls aTagId) (\<lambda>complete.
           mreturn (if complete then ECompleteTagged else ECompleteUntagged))
     | EUntagged \<Rightarrow> vParseUntaggedResponseL cls
     | EContinuation \<Rightarrow> mbind (vParseContinuationResponseL cls) (\<lambda>_. mreturn ECompleteUntagged))"

definition DoParseBlockL :: "'m command_class \<Rightarrow> (parse_block_result, 'm) imap_method" where
  "DoParseBlockL cls = mbind (mread iParseState) (\<lambda>s.
     case s of
       EWaitStartResponse \<Rightarrow> ParseStartResponseL cls
     | EWaitLiteralParse \<Rightarrow> mbind (vParseLiteralBlockL cls) (\<lambda>_. mreturn EResponseIncomplete)
     | EWaitLineParse \<Rightarrow>
         mbind (vParseLineFollowingLiteralL cls) (\<lambda>wantMoreData.
           mreturn (if wantMoreData then EResponseIncomplete else ECompleteUntagged))
     | _ \<Rightarrow> mreturn ENotRecognised)"

definition BaseParseTaggedResponseL :: "(byte \<Rightarrow> byte) \<Rightarrow> tint \<Rightarrow> (unit, 'm) imap_method" where
  "BaseParseTaggedResponseL f aTagId = mbind (mread iTagId) (\<lambda>tag.
     if aTagId \<noteq> tag then CorruptDataL
     else mbind (GetResponseStateCode f) (\<lambda>code.
            if code = EImapResponseNone then CorruptDataL
            else mapply (\<lambda>c. c\<lparr> iResponseCode := code \<rparr>)))"

definition ParseTaggedResponseL :: "(byte \<Rightarrow> byte) \<Rightarrow> tint \<Rightarrow> (bool, 'm) imap_method" where
  "ParseTaggedResponseL f aTagId = mbind (BaseParseTaggedResponseL f aTagId) (\<lambda>_. mreturn True)"

definition ParseUntaggedResponseL :: "(parse_block_result, 'm) imap_method" where
  "ParseUntaggedResponseL = mreturn ENotRecognised"

text \<open>The class of the commands that override no method.\<close>

definition command_ex :: "(byte \<Rightarrow> byte) \<Rightarrow> 'm command_class" where
  "command_ex f =
     \<lparr> vParseTaggedResponseL = ParseTaggedResponseL f, vParseContinuationResponseL = CorruptDataL,
       vParseUntaggedResponseL = ParseUntaggedResponseL, vParseLiteralBlockL = CorruptDataL,
       vParseLineFollowingLiteralL = CorruptDataL \<rparr>"

end
