(* ===== verification/Imap_Command_Laws.thy ===== *)
theory Imap_Command_Laws
  imports Imap_Command
begin

text \<open>
  The contract a subclass keeps with the state machine of \<open>CImapCommand\<close>, and what follows from it:
  the final state and the response code always agree. Two predicates carry the proofs: a \<open>quiet\<close>
  method leaves the control state and the code alone, and a method that \<open>decides\<close> gives true exactly
  when it recorded a code.
\<close>

lemma mbind_simps [simp]:
  "mbind (mreturn x) k = k x"
  "mbind (mread g) k' c = k' (g c) c"
  "mbind (mapply h) k1 c1 = k1 () (h c1)"
  "mbind (mleave e) k2 = mleave e"
  "mbind CorruptDataL k3 = CorruptDataL"
  by (simp_all add: fun_eq_iff mbind_def mreturn_def mread_def mapply_def mleave_def CorruptDataL_def)

lemma method_simps [simp]:
  "mreturn x c = Inr (x, c)"
  "mread g c' = Inr (g c', c')"
  "mapply h c1 = Inr ((), h c1)"
  "mleave e c2 = Inl e"
  "CorruptDataL c3 = Inl KErrImapCorrupt"
  by (simp_all add: mreturn_def mread_def mapply_def mleave_def CorruptDataL_def)

lemma mbind_assoc: "mbind (mbind m k) l = mbind m (\<lambda>x. mbind (k x) l)"
  by (auto simp: fun_eq_iff mbind_def bind_l_def split: sum.split)

lemma mbind_Inr: "mbind m k c = Inr (r, d) \<longleftrightarrow> (\<exists>x e. m c = Inr (x, e) \<and> k x e = Inr (r, d))"
  by (auto simp: mbind_def bind_l_eq_Inr)

lemma mbind_step: "m c = Inr (x, d) \<Longrightarrow> mbind m k c = k x d"
  by (simp add: mbind_def)

section \<open>Quiet methods\<close>

text \<open>The members only the base class changes while a block is parsed.\<close>

definition same_control :: "'m imap_command_scheme \<Rightarrow> 'm imap_command_scheme \<Rightarrow> bool" where
  "same_control c d \<longleftrightarrow>
     iParseState d = iParseState c \<and> iFlushing d = iFlushing c
     \<and> iTaggedResponsesToFlush d = iTaggedResponsesToFlush c
     \<and> iLiteralBytesExpected d = iLiteralBytesExpected c
     \<and> iCompleteOnAnyResponse d = iCompleteOnAnyResponse c \<and> iTagId d = iTagId c
     \<and> (iSelectedFolderData d = None \<longleftrightarrow> iSelectedFolderData c = None)"

lemma same_control_refl [simp]: "same_control c c"
  by (simp add: same_control_def)

lemma same_control_trans: "same_control c d \<Longrightarrow> same_control d e \<Longrightarrow> same_control c e"
  by (simp add: same_control_def)

definition quiet :: "('a, 'm) imap_method \<Rightarrow> bool" where
  "quiet m \<longleftrightarrow> (\<forall>c r d. m c = Inr (r, d) \<longrightarrow> same_control c d \<and> iResponseCode d = iResponseCode c)"

named_theorems quiet_rules \<open>methods that leave the control state alone\<close>

lemma quietI: "(\<And>c r d. m c = Inr (r, d) \<Longrightarrow> same_control c d \<and> iResponseCode d = iResponseCode c) \<Longrightarrow> quiet m"
  by (auto simp: quiet_def)

lemma quietD: "quiet m \<Longrightarrow> m c = Inr (r, d) \<Longrightarrow> same_control c d \<and> iResponseCode d = iResponseCode c"
  by (auto simp: quiet_def)

lemma quiet_bind [quiet_rules]:
  assumes "quiet m" "\<And>x. quiet (k x)"
  shows "quiet (mbind m k)"
proof (rule quietI)
  fix c r d
  assume "mbind m k c = Inr (r, d)"
  then obtain x e where m: "m c = Inr (x, e)" "k x e = Inr (r, d)" by (auto simp: mbind_Inr)
  from quietD [OF assms(1) m(1)] quietD [OF assms(2) m(2)]
  show "same_control c d \<and> iResponseCode d = iResponseCode c" by (auto intro: same_control_trans)
qed

lemma quiet_basic [quiet_rules]:
  "quiet (mreturn x)" "quiet (mread g)" "quiet CorruptDataL" "quiet (mleave e)" "quiet (set_unparsed s)"
  by (simp_all add: quiet_def set_unparsed_def same_control_def)

lemma quiet_if [quiet_rules]: "quiet m \<Longrightarrow> quiet n \<Longrightarrow> quiet (if b then m else n)"
  by simp

lemma quiet_cases [quiet_rules]:
  "(\<And>e. quiet (m e)) \<Longrightarrow> (\<And>x. quiet (n x)) \<Longrightarrow> quiet (case r of Inl e \<Rightarrow> m e | Inr x \<Rightarrow> n x)"
  "quiet m' \<Longrightarrow> (\<And>x. quiet (n' x)) \<Longrightarrow> quiet (case q of None \<Rightarrow> m' | Some x \<Rightarrow> n' x)"
  "(\<And>x y. quiet (k x y)) \<Longrightarrow> quiet (case p of (x, y) \<Rightarrow> k x y)"
  by (simp_all split: sum.split option.split prod.split)

lemma quiet_apply:
  "(\<And>c. same_control c (g c) \<and> iResponseCode (g c) = iResponseCode c) \<Longrightarrow> quiet (mapply g)"
  by (simp add: quiet_def)

lemma quiet_on_folder [quiet_rules]: "quiet (mapply (on_folder g))"
  by (simp add: quiet_def on_folder_def same_control_def)

lemma quiet_flags_changed [quiet_rules]: "quiet (mapply SetMessageFlagsChanged)"
  by (simp add: SetMessageFlagsChanged_def quiet_on_folder)

lemma quiet_next_part [quiet_rules]: "quiet GetNextPart"
  unfolding GetNextPart_def by (intro quiet_rules)

lemma quiet_tag_type [quiet_rules]: "quiet GetTagTypeL"
  unfolding GetTagTypeL_def by (intro quiet_rules)

lemma quiet_text_code [quiet_rules]: "quiet GetResponseTextCodeL"
  unfolding GetResponseTextCodeL_def by (intro quiet_rules)

lemma quiet_state_code [quiet_rules]: "quiet (GetResponseStateCode f)"
  unfolding GetResponseStateCode_def Let_def by (intro quiet_rules)

lemma quiet_unhandled [quiet_rules]: "quiet (unhandled_number f n)" "quiet (ParseUnhandledBlockL f l)"
  unfolding ParseUnhandledBlockL_def unhandled_number_def by (intro quiet_rules)+

section \<open>Methods that decide\<close>

definition decides :: "(bool, 'm) imap_method \<Rightarrow> bool" where
  "decides m \<longleftrightarrow> (\<forall>c r d. m c = Inr (r, d) \<longrightarrow>
     same_control c d \<and> (iResponseCode c = EImapResponseNone \<longrightarrow> (iResponseCode d \<noteq> EImapResponseNone) = r))"

text \<open>A method that always records a code, followed by a quiet one that gives true.\<close>

definition records :: "('a, 'm) imap_method \<Rightarrow> bool" where
  "records m \<longleftrightarrow> (\<forall>c r d. m c = Inr (r, d) \<longrightarrow> same_control c d \<and> iResponseCode d \<noteq> EImapResponseNone)"

definition gives :: "('a \<Rightarrow> bool) \<Rightarrow> ('a, 'm) imap_method \<Rightarrow> bool" where
  "gives P m \<longleftrightarrow> quiet m \<and> (\<forall>c r d. m c = Inr (r, d) \<longrightarrow> P r)"

named_theorems gives_rules \<open>quiet methods with a property of their result\<close>

lemma gives_quiet: "gives P m \<Longrightarrow> quiet m"
  by (simp add: gives_def)

lemma gives_bind [gives_rules]: "quiet m \<Longrightarrow> (\<And>x. gives P (k x)) \<Longrightarrow> gives P (mbind m k)"
proof -
  assume a: "quiet m" "\<And>x. gives P (k x)"
  then have "quiet (mbind m k)" by (intro quiet_bind) (auto simp: gives_def)
  moreover have "P r" if "mbind m k c = Inr (r, d)" for c r d
    using that a(2) by (auto simp: mbind_Inr gives_def)
  ultimately show ?thesis by (auto simp: gives_def)
qed

lemma gives_basic [gives_rules]: "P x \<Longrightarrow> gives P (mreturn x)" "gives P CorruptDataL" "gives P (mleave e)"
  by (simp_all add: gives_def quiet_basic)

lemma gives_if [gives_rules]: "gives P m \<Longrightarrow> gives P n \<Longrightarrow> gives P (if b then m else n)"
  by simp

lemma gives_cases [gives_rules]:
  "(\<And>e. gives P (m e)) \<Longrightarrow> (\<And>x. gives P (n x)) \<Longrightarrow> gives P (case r of Inl e \<Rightarrow> m e | Inr x \<Rightarrow> n x)"
  "gives P m' \<Longrightarrow> (\<And>x. gives P (n' x)) \<Longrightarrow> gives P (case q of None \<Rightarrow> m' | Some x \<Rightarrow> n' x)"
  "(\<And>x y. gives P (k x y)) \<Longrightarrow> gives P (case p of (x, y) \<Rightarrow> k x y)"
  by (simp_all split: sum.split option.split prod.split)

lemma decides_bind: "records m \<Longrightarrow> (\<And>x. gives (\<lambda>r. r) (k x)) \<Longrightarrow> decides (mbind m k)"
proof -
  assume a: "records m" "\<And>x. gives (\<lambda>r. r) (k x)"
  show "decides (mbind m k)"
    unfolding decides_def
  proof (intro allI impI)
    fix c r d
    assume "mbind m k c = Inr (r, d)"
    then obtain x e where m: "m c = Inr (x, e)" "k x e = Inr (r, d)" by (auto simp: mbind_Inr)
    from m(1) a(1) have e: "same_control c e" "iResponseCode e \<noteq> EImapResponseNone" by (auto simp: records_def)
    from m(2) a(2) [of x] have "same_control e d" "iResponseCode d = iResponseCode e" r
      unfolding gives_def quiet_def by blast+
    with e show "same_control c d \<and>
      (iResponseCode c = EImapResponseNone \<longrightarrow> (iResponseCode d \<noteq> EImapResponseNone) = r)"
      by (auto intro: same_control_trans)
  qed
qed

lemma decides_corrupt: "decides CorruptDataL"
  by (simp add: decides_def)

lemma records_base: "records (BaseParseTaggedResponseL f t)"
  unfolding records_def
proof (intro allI impI)
  fix c u d
  assume "BaseParseTaggedResponseL f t c = Inr (u, d)"
  then obtain code e where e: "GetResponseStateCode f c = Inr (code, e)"
    "d = e\<lparr>iResponseCode := code\<rparr>" "code \<noteq> EImapResponseNone"
    by (auto simp: BaseParseTaggedResponseL_def mbind_Inr split: if_splits)
  from quietD [OF quiet_state_code e(1)] e(2,3)
  show "same_control c d \<and> iResponseCode d \<noteq> EImapResponseNone" by (simp add: same_control_def)
qed

lemma decides_base: "decides (ParseTaggedResponseL f t)"
  unfolding ParseTaggedResponseL_def by (intro decides_bind records_base gives_rules TrueI)

section \<open>Fields of the control operations\<close>

lemma PeekLiteralRequest_fields [simp]:
  "iParseState (PeekLiteralRequest l c) = iParseState c"
  "iResponseCode (PeekLiteralRequest l c) = iResponseCode c"
  "iFlushing (PeekLiteralRequest l c) = iFlushing c"
  "iTaggedResponsesToFlush (PeekLiteralRequest l c) = iTaggedResponsesToFlush c"
  "iCompleteOnAnyResponse (PeekLiteralRequest l c) = iCompleteOnAnyResponse c"
  "iTagId (PeekLiteralRequest l c) = iTagId c"
  "iUnparsedData (PeekLiteralRequest l c) = iUnparsedData c"
  "iSelectedFolderData (PeekLiteralRequest l c) = iSelectedFolderData c"
  by (simp_all add: PeekLiteralRequest_def split: option.split sum.split)

lemma SetParseState_fields [simp]:
  "iParseState (SetParseState s c) = s"
  "iResponseCode (SetParseState s c) = iResponseCode c"
  "iFlushing (SetParseState s c) = iFlushing c"
  "iTaggedResponsesToFlush (SetParseState s c) = iTaggedResponsesToFlush c"
  "iCompleteOnAnyResponse (SetParseState s c) = iCompleteOnAnyResponse c"
  "iLiteralBytesExpected (SetParseState s c) = iLiteralBytesExpected c"
  "iTagId (SetParseState s c) = iTagId c"
  "iSelectedFolderData (SetParseState s c) = iSelectedFolderData c"
  by (simp_all add: SetParseState_def)

lemma after_ignored_fields [simp]:
  "iParseState (after_ignored c) = (if 0 <s iLiteralBytesExpected c then EWaitLiteralIngore else EWaitStartResponse)"
  "iResponseCode (after_ignored c) = iResponseCode c"
  "iFlushing (after_ignored c) = iFlushing c"
  "iTaggedResponsesToFlush (after_ignored c) = iTaggedResponsesToFlush c"
  "iCompleteOnAnyResponse (after_ignored c) = iCompleteOnAnyResponse c"
  "iLiteralBytesExpected (after_ignored c) = iLiteralBytesExpected c"
  "iTagId (after_ignored c) = iTagId c"
  "iSelectedFolderData (after_ignored c) = iSelectedFolderData c"
  by (simp_all add: after_ignored_def)

section \<open>What lasts over a block\<close>

text \<open>Flushing or not, a block leaves alone whether the command is flushing and has a folder.\<close>

definition lasting :: "'m imap_command_scheme \<Rightarrow> 'm imap_command_scheme \<Rightarrow> bool" where
  "lasting c d \<longleftrightarrow> iFlushing d = iFlushing c \<and> iTagId d = iTagId c
     \<and> (iSelectedFolderData d = None \<longleftrightarrow> iSelectedFolderData c = None)"

definition lasts :: "('a, 'm) imap_method \<Rightarrow> bool" where
  "lasts m \<longleftrightarrow> (\<forall>c r d. m c = Inr (r, d) \<longrightarrow> lasting c d)"

named_theorems lasts_rules \<open>methods that keep what lasts\<close>

lemma lasts_bind [lasts_rules]: "lasts m \<Longrightarrow> (\<And>x. lasts (k x)) \<Longrightarrow> lasts (mbind m k)"
  by (fastforce simp: lasts_def lasting_def mbind_Inr)

lemma lasts_apply [lasts_rules]: "(\<And>c. lasting c (g c)) \<Longrightarrow> lasts (mapply g)"
  by (simp add: lasts_def)

lemma lasts_quiet: "quiet m \<Longrightarrow> lasts m"
  by (auto simp: lasts_def lasting_def quiet_def same_control_def)

lemma lasts_basic [lasts_rules]:
  "lasts (mreturn x)" "lasts (mread g)" "lasts CorruptDataL" "lasts GetTagTypeL"
  "lasts (GetResponseStateCode f)" "lasts (ParseUnhandledBlockL f l)"
  by (intro lasts_quiet quiet_rules)+

lemma lasts_cases [lasts_rules]:
  "lasts m \<Longrightarrow> lasts n \<Longrightarrow> lasts (if b then m else n)"
  "(\<And>n. lasts (m1 n)) \<Longrightarrow> lasts m2 \<Longrightarrow> lasts m3 \<Longrightarrow>
     lasts (case t of ETagged n \<Rightarrow> m1 n | EUntagged \<Rightarrow> m2 | EContinuation \<Rightarrow> m3)"
  "lasts a1 \<Longrightarrow> lasts a2 \<Longrightarrow> lasts a3 \<Longrightarrow> lasts a4 \<Longrightarrow>
     lasts (case r of ENotRecognised \<Rightarrow> a1 | EResponseIncomplete \<Rightarrow> a2 | ECompleteUntagged \<Rightarrow> a3 | ECompleteTagged \<Rightarrow> a4)"
  "lasts b1 \<Longrightarrow> lasts b2 \<Longrightarrow> lasts b3 \<Longrightarrow> lasts b4 \<Longrightarrow> lasts b5 \<Longrightarrow> lasts b6 \<Longrightarrow>
     lasts (case s of EWaitStartResponse \<Rightarrow> b1 | EWaitLiteralParse \<Rightarrow> b2 | EWaitLineParse \<Rightarrow> b3
       | EWaitLiteralIngore \<Rightarrow> b4 | EWaitLineIgnore \<Rightarrow> b5 | ECommandComplete \<Rightarrow> b6)"
  by (simp_all split: tag_type.split parse_block_result.split parse_state.split)

section \<open>States and codes agree\<close>

definition well_typed :: "'m imap_command_scheme \<Rightarrow> bool" where
  "well_typed c \<longleftrightarrow> (iParseState c = ECommandComplete \<longleftrightarrow> iResponseCode c \<noteq> EImapResponseNone)"

locale imap_class =
  fixes do_parse :: "(parse_block_result, 'm) imap_method"
  assumes keeps: "do_parse c = Inr (r, d) \<Longrightarrow> same_control c d"
    and decided: "do_parse c = Inr (r, d) \<Longrightarrow> iResponseCode c = EImapResponseNone \<Longrightarrow>
      (iResponseCode d \<noteq> EImapResponseNone) = (r = ECompleteTagged)"
    and after_literal: "do_parse c = Inr (r, d) \<Longrightarrow> iParseState c = EWaitLiteralParse \<Longrightarrow> r = EResponseIncomplete"
begin

lemma line_typed:
  assumes "ParseLineL f do_parse l c = Inr (u, d)" "iResponseCode c = EImapResponseNone"
    "iParseState c = EWaitStartResponse \<or> iParseState c = EWaitLineParse"
  shows "well_typed d \<and> iFlushing d = iFlushing c"
proof -
  obtain r e where r: "do_parse (PeekLiteralRequest l c) = Inr (r, e)"
    using assms(1) by (auto simp: ParseLineL_def mbind_Inr)
  have e: "same_control (PeekLiteralRequest l c) e" by (rule keeps [OF r])
  have none: "(iResponseCode e \<noteq> EImapResponseNone) = (r = ECompleteTagged)"
    by (rule decided [OF r]) (simp add: assms(2))
  have st: "iParseState e = iParseState c" "iFlushing e = iFlushing c"
    using e by (simp_all add: same_control_def)
  have line: "(if r = ECompleteUntagged \<and> iLiteralBytesExpected e \<noteq> 0 then mreturn ()
       else case r of
         ECompleteTagged \<Rightarrow> mapply (SetParseState ECommandComplete)
       | ECompleteUntagged \<Rightarrow> mapply (SetParseState EWaitStartResponse)
       | EResponseIncomplete \<Rightarrow> mapply (SetParseState EWaitLiteralParse)
       | ENotRecognised \<Rightarrow>
           if iParseState e = EWaitLineParse then mreturn ()
           else mbind (ParseUnhandledBlockL f l) (\<lambda>_. mapply after_ignored)) e = Inr (u, d)"
    using assms(1) by (simp add: ParseLineL_def id_def mbind_step [where m = do_parse and c = "PeekLiteralRequest l c", OF r])
  show ?thesis
  proof (cases "r = ENotRecognised \<and> iParseState e \<noteq> EWaitLineParse")
    case True
    then obtain r2 g where g: "ParseUnhandledBlockL f l e = Inr (r2, g)" "d = after_ignored g"
      using line by (auto simp: mbind_Inr)
    from quietD [OF quiet_unhandled(2) g(1)] none True st show ?thesis
      by (auto simp: well_typed_def g(2) same_control_def)
  next
    case False
    with line assms(3) none st show ?thesis
      by (auto simp: well_typed_def split: if_splits parse_block_result.splits)
  qed
qed

lemma block_lasting: "lasts (ParseBlockL f do_parse l)"
proof -
  have do_parse: "lasts do_parse"
    using keeps by (auto simp: lasts_def lasting_def same_control_def)
  show ?thesis
    unfolding ParseBlockL_def parse_block_def ParseLineL_def ParseLiteralL_def ParseStartResponseFlushL_def
    by (intro lasts_rules do_parse) (simp_all add: lasting_def complete_on_any_def)
qed

lemma block_typed:
  assumes "ParseBlockL f do_parse l c = Inr (s, d)" "well_typed c" "\<not> iFlushing c"
  shows "well_typed d \<and> \<not> iFlushing d"
proof -
  let ?c = "c\<lparr> iUnparsedData := l, iLiteralBytesExpected := 0 \<rparr>"
  obtain u e where e: "parse_block f do_parse l ?c = Inr (u, e)" "d = complete_on_any e"
    using assms(1) by (auto simp: ParseBlockL_def mbind_Inr)
  have "well_typed e \<and> \<not> iFlushing e"
  proof (cases "iParseState c = ECommandComplete")
    case True
    with e(1) assms(2,3) show ?thesis by (auto simp: parse_block_def well_typed_def)
  next
    case False
    then have none: "iResponseCode ?c = EImapResponseNone" using assms(2) by (simp add: well_typed_def)
    show ?thesis
    proof (cases "iParseState c = EWaitLiteralParse")
      case True
      then obtain r g where g: "do_parse ?c = Inr (r, g)" "r = EResponseIncomplete \<longrightarrow> e = SetParseState EWaitLineParse g"
        using e(1) by (fastforce simp: parse_block_def ParseLiteralL_def mbind_Inr split: if_splits)
      have "r = EResponseIncomplete" by (rule after_literal [OF g(1)]) (simp add: True)
      with g(2) decided [OF g(1) none] keeps [OF g(1)] assms(3) show ?thesis
        by (auto simp: well_typed_def same_control_def)
    next
      case False2: False
      then show ?thesis
        using e(1) assms(3) none False line_typed [of f l ?c u e]
        by (cases "iParseState c") (auto simp: parse_block_def well_typed_def split: if_splits)
    qed
  qed
  then show ?thesis by (auto simp: e(2) complete_on_any_def well_typed_def)
qed

end

locale imap_class_ex =
  fixes cls :: "'m command_class"
  assumes tagged: "decides (vParseTaggedResponseL cls t)"
    and continuation: "quiet (vParseContinuationResponseL cls)"
    and untagged: "gives (\<lambda>r. r \<noteq> ECompleteTagged) (vParseUntaggedResponseL cls)"
    and literal: "quiet (vParseLiteralBlockL cls)"
    and following: "quiet (vParseLineFollowingLiteralL cls)"
begin

lemma start_response:
  assumes "ParseStartResponseL cls c = Inr (r, d)"
  shows "same_control c d \<and> (iResponseCode c = EImapResponseNone \<longrightarrow>
    (iResponseCode d \<noteq> EImapResponseNone) = (r = ECompleteTagged))"
proof -
  obtain t e where t: "GetTagTypeL c = Inr (t, e)"
    using assms by (auto simp: ParseStartResponseL_def mbind_Inr)
  have e: "same_control c e" "iResponseCode e = iResponseCode c"
    using quietD [OF quiet_tag_type t] by simp_all
  note start = assms [unfolded ParseStartResponseL_def mbind_step [where m = GetTagTypeL and c = c, OF t]]
  show ?thesis
  proof (cases t)
    case (ETagged n)
    then obtain b where b: "vParseTaggedResponseL cls n e = Inr (b, d)"
      "r = (if b then ECompleteTagged else ECompleteUntagged)"
      using start by (auto simp: mbind_Inr)
    from b(1) tagged [of n] have "same_control e d"
      "iResponseCode e = EImapResponseNone \<longrightarrow> (iResponseCode d \<noteq> EImapResponseNone) = b"
      unfolding decides_def by blast+
    with e b(2) show ?thesis by (auto intro: same_control_trans)
  next
    case EUntagged
    then have "vParseUntaggedResponseL cls e = Inr (r, d)" using start by simp
    then have "same_control e d" "iResponseCode d = iResponseCode e" "r \<noteq> ECompleteTagged"
      using untagged unfolding gives_def quiet_def by blast+
    with e show ?thesis by (auto intro: same_control_trans)
  next
    case EContinuation
    then have k: "vParseContinuationResponseL cls e = Inr ((), d)" "r = ECompleteUntagged"
      using start by (auto simp: mbind_Inr)
    from quietD [OF continuation k(1)] k(2) e show ?thesis by (auto intro: same_control_trans)
  qed
qed

lemma do_parse_block:
  assumes "DoParseBlockL cls c = Inr (r, d)"
  shows "same_control c d \<and> (iResponseCode c = EImapResponseNone \<longrightarrow>
    (iResponseCode d \<noteq> EImapResponseNone) = (r = ECompleteTagged))"
  using assms start_response [of c r d] quietD [OF literal] quietD [OF following]
  by (cases "iParseState c")
    (auto simp: DoParseBlockL_def mbind_Inr split: if_splits)

end

sublocale imap_class_ex \<subseteq> machine: imap_class "DoParseBlockL cls"
proof
  fix c r d
  assume a: "DoParseBlockL cls c = Inr (r, d)"
  from do_parse_block [OF a] show "same_control c d" by simp
  from do_parse_block [OF a] show "iResponseCode c = EImapResponseNone \<Longrightarrow>
    (iResponseCode d \<noteq> EImapResponseNone) = (r = ECompleteTagged)" by simp
  from a show "iParseState c = EWaitLiteralParse \<Longrightarrow> r = EResponseIncomplete"
    by (auto simp: DoParseBlockL_def mbind_Inr)
qed

context imap_class_ex
begin

text \<open>What a session may rely on when it gives a block to a command of the class.\<close>

lemma block_contract:
  assumes "ParseBlockL f (DoParseBlockL cls) l c = Inr (s, d)"
  shows "s = iParseState d \<and> lasting c d
    \<and> (well_typed c \<and> \<not> iFlushing c \<longrightarrow> well_typed d \<and> \<not> iFlushing d)"
proof -
  have "s = iParseState d" using assms by (auto simp: ParseBlockL_def mbind_Inr)
  moreover have "lasting c d" using machine.block_lasting assms unfolding lasts_def by blast
  ultimately show ?thesis using machine.block_typed [OF assms] by blast
qed

end

lemma untagged_default: "gives (\<lambda>r. r \<noteq> ECompleteTagged) ParseUntaggedResponseL"
  by (simp add: ParseUntaggedResponseL_def gives_basic)

interpretation command_ex: imap_class_ex "command_ex f"
  by unfold_locales (simp_all add: command_ex_def decides_base quiet_basic untagged_default)

end
