(* ===== verification/Imap_Flush.thy ===== *)
theory Imap_Flush
  imports Imap_Command_Laws
begin

text \<open>
  Whole streams of responses. A response is a line, or lines with the literals they announce between
  them. A command that ignores untagged responses comes back to its start state after each of them,
  whatever literals they hold; both a cancelled command and a command without methods of its own are
  of this kind, and both complete when their tagged response arrives.
\<close>

section \<open>Responses\<close>

definition tag_of :: "string8 \<Rightarrow> tag_type leaving" where
  "tag_of l =
     (let part = fst (next_part l) in
      if find_f id KImapTxtContinuation part \<noteq> None then Inr EContinuation
      else if find_f id KImapTxtUntagged part \<noteq> None then Inr EUntagged
      else case lex_int part of Inl _ \<Rightarrow> Inl KErrImapCorrupt | Inr n \<Rightarrow> Inr (ETagged n))"

definition announced :: "string8 \<Rightarrow> tint" where
  "announced l = (case literal_request l of
      None \<Rightarrow> 0
    | Some s \<Rightarrow> (case lex_int s of Inl _ \<Rightarrow> 0 | Inr n \<Rightarrow> n))"

definition announces :: "string8 \<Rightarrow> bool" where
  "announces l \<longleftrightarrow> 0 <s announced l"

fun well_announced :: "string8 list \<Rightarrow> bool" where
  "well_announced [] \<longleftrightarrow> False"
| "well_announced [l] \<longleftrightarrow> \<not> announces l"
| "well_announced (l # lit # ls) \<longleftrightarrow> announces l \<and> well_announced ls"

definition untagged_response :: "string8 list \<Rightarrow> bool" where
  "untagged_response ls \<longleftrightarrow> well_announced ls \<and> tag_of (hd ls) = Inr EUntagged"

definition tagged_response :: "string8 list \<Rightarrow> bool" where
  "tagged_response ls \<longleftrightarrow>
     (case ls of [l] \<Rightarrow> (case tag_of l of Inr (ETagged _) \<Rightarrow> True | _ \<Rightarrow> False) | _ \<Rightarrow> False)"

definition state_code :: "(byte \<Rightarrow> byte) \<Rightarrow> string8 \<Rightarrow> response_code" where
  "state_code f u = response_code_of f (case locate8 32 u of None \<Rightarrow> u | Some k \<Rightarrow> take k u)"

fun run_blocks :: "(string8 \<Rightarrow> (parse_state, 'm) imap_method) \<Rightarrow> string8 list \<Rightarrow> (parse_state, 'm) imap_method" where
  "run_blocks step [] = mread iParseState"
| "run_blocks step (l # ls) = mbind (step l) (\<lambda>_. run_blocks step ls)"

abbreviation parse_blocks ::
  "(byte \<Rightarrow> byte) \<Rightarrow> (parse_block_result, 'm) imap_method \<Rightarrow> string8 list \<Rightarrow> (parse_state, 'm) imap_method" where
  "parse_blocks f do_parse \<equiv> run_blocks (ParseBlockL f do_parse)"

lemma run_Cons: "step l c = Inr (s, d) \<Longrightarrow> run_blocks step (l # ls) c = run_blocks step ls d"
  by (simp add: mbind_step [where m = "step l" and c = c])

section \<open>What the parsing steps do to a line\<close>

lemma GetTagTypeL_line:
  "GetTagTypeL c = (case tag_of (imap_command.iUnparsedData c) of
      Inl e \<Rightarrow> Inl e
    | Inr t \<Rightarrow> Inr (t, c\<lparr> imap_command.iUnparsedData := snd (next_part (imap_command.iUnparsedData c)) \<rparr>))"
  by (simp add: GetTagTypeL_def tag_of_def GetNextPart_def mbind_assoc set_unparsed_def Let_def
      split: prod.split sum.split)

lemma bind_tag_line:
  "mbind GetTagTypeL k c = (case tag_of (imap_command.iUnparsedData c) of
      Inl e \<Rightarrow> Inl e
    | Inr t \<Rightarrow> k t (c\<lparr> imap_command.iUnparsedData := snd (next_part (imap_command.iUnparsedData c)) \<rparr>))"
  by (simp add: mbind_def GetTagTypeL_line bind_l_def split: sum.split)

lemma GetResponseStateCode_line:
  "\<exists>u. GetResponseStateCode f c =
     Inr (state_code f (imap_command.iUnparsedData c), c\<lparr> imap_command.iUnparsedData := u \<rparr>)"
proof -
  have self: "\<exists>u. c = c\<lparr> imap_command.iUnparsedData := u \<rparr>"
    by (rule exI [of _ "imap_command.iUnparsedData c"]) simp
  show ?thesis
  proof (cases "locate8 32 (imap_command.iUnparsedData c)")
    case None
    with self show ?thesis by (simp add: GetResponseStateCode_def state_code_def del: locate8_None)
  next
    case (Some k)
    with self show ?thesis
      by (auto simp: GetResponseStateCode_def state_code_def Let_def set_unparsed_def)
  qed
qed

lemma announces_peek:
  "iLiteralBytesExpected c = 0 \<Longrightarrow> iLiteralBytesExpected (PeekLiteralRequest l c) = announced l"
  by (auto simp: PeekLiteralRequest_def announced_def split: option.split sum.split)

text \<open>The state after a line of a response that is ignored.\<close>

definition ignored_line :: "string8 \<Rightarrow> 'm imap_command_scheme \<Rightarrow> bool" where
  "ignored_line l d \<longleftrightarrow> iLiteralBytesExpected d = announced l
     \<and> iParseState d = (if announces l then EWaitLiteralIngore else EWaitStartResponse)"

lemma after_ignored_line: "iLiteralBytesExpected d = announced l \<Longrightarrow> ignored_line l (after_ignored d)"
  by (simp add: ignored_line_def announces_def)

lemma ParseBlockL_run:
  assumes "parse_block f do_parse l (c\<lparr> iUnparsedData := l, iLiteralBytesExpected := 0 \<rparr>) = Inr (u, e)"
    "complete_on_any e = e"
  shows "ParseBlockL f do_parse l c = Inr (iParseState e, e)"
  using assms(2) by (simp add: ParseBlockL_def mbind_step [where m = "parse_block f do_parse l", OF assms(1)])

section \<open>Ignoring untagged responses\<close>

locale ignoring =
  fixes step :: "string8 \<Rightarrow> (parse_state, 'm) imap_method"
    and ok :: "'m imap_command_scheme \<Rightarrow> bool"
  assumes untagged_line: "ok c \<Longrightarrow> iParseState c = EWaitStartResponse \<Longrightarrow> tag_of l = Inr EUntagged \<Longrightarrow>
      \<exists>d. step l c = Inr (iParseState d, d) \<and> ok d \<and> ignored_line l d"
    and literal_block: "ok c \<Longrightarrow> iParseState c = EWaitLiteralIngore \<Longrightarrow>
      \<exists>d. step l c = Inr (iParseState d, d) \<and> ok d \<and> iParseState d = EWaitLineIgnore"
    and line_after: "ok c \<Longrightarrow> iParseState c = EWaitLineIgnore \<Longrightarrow>
      \<exists>d. step l c = Inr (iParseState d, d) \<and> ok d \<and> ignored_line l d"
begin

definition reaches :: "'m imap_command_scheme \<Rightarrow> string8 list \<Rightarrow> 'm imap_command_scheme \<Rightarrow> bool" where
  "reaches c ls d \<longleftrightarrow> run_blocks step ls c = Inr (iParseState d, d) \<and> ok d \<and> iParseState d = EWaitStartResponse"

lemma reaches_Cons: "step l c = Inr (s, e) \<Longrightarrow> reaches e ls d \<Longrightarrow> reaches c (l # ls) d"
  by (simp add: reaches_def run_Cons del: run_blocks.simps)

lemma run_append: "reaches c ls d \<Longrightarrow> run_blocks step (ls @ ms) c = run_blocks step ms d"
proof (induction ls arbitrary: c)
  case Nil
  then show ?case by (simp add: reaches_def)
next
  case (Cons l ls)
  then obtain s e where "step l c = Inr (s, e)" by (auto simp: reaches_def mbind_Inr)
  with Cons show ?case by (simp add: reaches_def run_Cons del: run_blocks.simps)
qed

lemma rest_of_response:
  "well_announced ls \<Longrightarrow> ok c \<Longrightarrow> iParseState c = EWaitLineIgnore \<Longrightarrow> \<exists>d. reaches c ls d"
proof (induction ls arbitrary: c rule: well_announced.induct)
  case (2 l)
  then obtain d where "step l c = Inr (iParseState d, d)" "ok d" "iParseState d = EWaitStartResponse"
    using line_after [of c l] by (auto simp: ignored_line_def)
  then have "reaches c [l] d" by (intro reaches_Cons) (auto simp: reaches_def)
  then show ?case by blast
next
  case (3 l lit ls)
  then obtain d where d: "step l c = Inr (iParseState d, d)" "ok d" "iParseState d = EWaitLiteralIngore"
    using line_after [of c l] by (auto simp: ignored_line_def)
  then obtain e where e: "step lit d = Inr (iParseState e, e)" "ok e" "iParseState e = EWaitLineIgnore"
    using literal_block by blast
  with 3 obtain g where "reaches e ls g" by auto
  with d(1) e(1) have "reaches c (l # lit # ls) g" by (intro reaches_Cons)
  then show ?case by blast
qed simp

lemma rest_of_literal:
  assumes "well_announced ls" "ok c" "iParseState c = EWaitLiteralIngore"
  shows "\<exists>d. reaches c (lit # ls) d"
proof -
  obtain e where e: "step lit c = Inr (iParseState e, e)" "ok e" "iParseState e = EWaitLineIgnore"
    using literal_block assms(2,3) by blast
  with assms(1) rest_of_response obtain g where "reaches e ls g" by blast
  with e(1) show ?thesis by (blast intro: reaches_Cons)
qed

lemma untagged_response_ignored:
  assumes "untagged_response ls" "ok c" "iParseState c = EWaitStartResponse"
  shows "\<exists>d. reaches c ls d"
proof (cases ls rule: well_announced.cases)
  case (2 l)
  with assms obtain d where "step l c = Inr (iParseState d, d)" "ok d" "iParseState d = EWaitStartResponse"
    using untagged_line [of c l] by (auto simp: untagged_response_def ignored_line_def)
  then have "reaches c ls d" unfolding 2 by (intro reaches_Cons) (auto simp: reaches_def)
  then show ?thesis by blast
next
  case (3 l lit ms)
  with assms obtain d where d: "step l c = Inr (iParseState d, d)" "ok d" "iParseState d = EWaitLiteralIngore"
    using untagged_line [of c l] by (auto simp: untagged_response_def ignored_line_def)
  from 3 assms(1) have "well_announced ms" by (simp add: untagged_response_def)
  with d rest_of_literal obtain g where "reaches d (lit # ms) g" by blast
  with d(1) show ?thesis unfolding 3 by (blast intro: reaches_Cons)
qed (use assms in \<open>simp add: untagged_response_def\<close>)

lemma untagged_responses_ignored:
  "\<forall>r\<in>set rs. untagged_response r \<Longrightarrow> ok c \<Longrightarrow> iParseState c = EWaitStartResponse \<Longrightarrow>
   \<exists>d. reaches c (concat rs) d"
proof (induction rs arbitrary: c)
  case Nil
  then show ?case by (auto simp: reaches_def)
next
  case (Cons r rs)
  then obtain d where d: "reaches c r d" using untagged_response_ignored by fastforce
  with Cons obtain e where "reaches d (concat rs) e" by (auto simp: reaches_def)
  with d have "reaches c (concat (r # rs)) e" by (simp add: reaches_def run_append [OF d])
  then show ?case by blast
qed

end

section \<open>Cancelled commands\<close>

definition flushing :: "tint \<Rightarrow> 'm imap_command_scheme \<Rightarrow> bool" where
  "flushing k c \<longleftrightarrow> iFlushing c \<and> iTaggedResponsesToFlush c = k \<and> \<not> iCompleteOnAnyResponse c"

lemma not_completed [simp]: "\<not> iCompleteOnAnyResponse c \<Longrightarrow> complete_on_any c = c"
  by (simp add: complete_on_any_def)

lemmas flush_defs = parse_block_def ParseStartResponseFlushL_def bind_tag_line

text \<open>A block that only changes the state.\<close>

lemma ParseBlockL_apply:
  assumes "parse_block f do_parse l (c\<lparr> iUnparsedData := l, iLiteralBytesExpected := 0 \<rparr>) = Inr ((), e)"
    "\<not> iCompleteOnAnyResponse e" "P e"
  shows "\<exists>d. ParseBlockL f do_parse l c = Inr (iParseState d, d) \<and> P d"
  using ParseBlockL_run [OF assms(1)] assms(2,3) by auto

interpretation flush: ignoring "ParseBlockL f do_parse" "flushing k :: 'm imap_command_scheme \<Rightarrow> bool"
proof
  fix c :: "'m imap_command_scheme" and l
  let ?c = "c\<lparr> iUnparsedData := l, iLiteralBytesExpected := 0 \<rparr>"
  assume ok: "flushing k c"
  show "iParseState c = EWaitStartResponse \<Longrightarrow> tag_of l = Inr EUntagged \<Longrightarrow>
      \<exists>d. ParseBlockL f do_parse l c = Inr (iParseState d, d) \<and> flushing k d \<and> ignored_line l d"
    using ok
    by (intro ParseBlockL_apply [where e =
        "after_ignored (PeekLiteralRequest l (?c\<lparr> imap_command.iUnparsedData := snd (next_part l) \<rparr>))"])
      (auto simp: flushing_def flush_defs announces_peek after_ignored_line)
  show "iParseState c = EWaitLiteralIngore \<Longrightarrow>
      \<exists>d. ParseBlockL f do_parse l c = Inr (iParseState d, d) \<and> flushing k d \<and> iParseState d = EWaitLineIgnore"
    using ok by (intro ParseBlockL_apply [where e = "SetParseState EWaitLineIgnore ?c"])
      (auto simp: flushing_def flush_defs)
  show "iParseState c = EWaitLineIgnore \<Longrightarrow>
      \<exists>d. ParseBlockL f do_parse l c = Inr (iParseState d, d) \<and> flushing k d \<and> ignored_line l d"
    using ok by (intro ParseBlockL_apply [where e = "after_ignored (PeekLiteralRequest l ?c)"])
      (auto simp: flushing_def flush_defs announces_peek after_ignored_line)
qed

lemma flush_tagged:
  assumes "flushing k c" "iParseState c = EWaitStartResponse" "tag_of l = Inr (ETagged t)" "k \<noteq> 1"
  shows "\<exists>d. ParseBlockL f do_parse l c = Inr (iParseState d, d) \<and> flushing (k - 1) d
    \<and> iParseState d = EWaitStartResponse"
  using assms
  by (intro ParseBlockL_apply [where e = "c\<lparr> iLiteralBytesExpected := 0,
      imap_command.iUnparsedData := snd (next_part l), iTaggedResponsesToFlush := k - 1 \<rparr>"])
    (auto simp: flushing_def flush_defs)

lemma flush_last:
  assumes "flushing 1 c" "iParseState c = EWaitStartResponse" "tag_of l = Inr (ETagged t)"
  shows "\<exists>d. ParseBlockL f do_parse l c = Inr (ECommandComplete, d) \<and> iParseState d = ECommandComplete
    \<and> iResponseCode d = state_code f (snd (next_part l))"
proof -
  let ?e = "c\<lparr> iLiteralBytesExpected := 0,
      imap_command.iUnparsedData := snd (next_part l), iTaggedResponsesToFlush := 0 \<rparr>"
  obtain u where u: "GetResponseStateCode f ?e =
      Inr (state_code f (snd (next_part l)), ?e\<lparr> imap_command.iUnparsedData := u \<rparr>)"
    using GetResponseStateCode_line [of f ?e] by auto
  let ?d = "SetParseState ECommandComplete (?e\<lparr> imap_command.iUnparsedData := u,
      iResponseCode := state_code f (snd (next_part l)) \<rparr>)"
  have "parse_block f do_parse l (c\<lparr> iUnparsedData := l, iLiteralBytesExpected := 0 \<rparr>) = Inr ((), ?d)"
    using assms by (simp add: flushing_def flush_defs mbind_step [where m = "GetResponseStateCode f", OF u])
  from ParseBlockL_run [OF this] assms(1) show ?thesis by (simp add: flushing_def)
qed

text \<open>Any mixture of untagged and tagged responses counts down by its tagged ones.\<close>

lemma flush_responses:
  assumes "\<forall>r\<in>set rs. untagged_response r \<or> tagged_response r"
    "flushing k c" "iParseState c = EWaitStartResponse"
    "length (filter tagged_response rs) < unat k"
  shows "\<exists>d. parse_blocks f do_parse (concat rs) c = Inr (EWaitStartResponse, d)
    \<and> flushing (k - of_nat (length (filter tagged_response rs))) d \<and> iParseState d = EWaitStartResponse"
  using assms
proof (induction rs arbitrary: k c)
  case Nil
  then show ?case by auto
next
  case (Cons r rs)
  show ?case
  proof (cases "tagged_response r")
    case True
    then obtain l t where r: "r = [l]" "tag_of l = Inr (ETagged t)"
      by (auto simp: tagged_response_def split: list.splits sum.splits tag_type.splits)
    have "k \<noteq> 1" using Cons.prems(4) True by auto
    with r Cons.prems(2,3) obtain d where d: "ParseBlockL f do_parse l c = Inr (iParseState d, d)"
      "flushing (k - 1) d" "iParseState d = EWaitStartResponse"
      using flush_tagged by blast
    have u: "unat (k - 1) = unat k - 1"
      using Cons.prems(4) by (intro unat_minus_one) auto
    have "\<exists>e. parse_blocks f do_parse (concat rs) d = Inr (EWaitStartResponse, e)
      \<and> flushing (k - 1 - of_nat (length (filter tagged_response rs))) e \<and> iParseState e = EWaitStartResponse"
      using Cons.prems(1,4) True d(2,3) u by (intro Cons.IH) auto
    with d(1) show ?thesis
      by (simp add: True [unfolded r(1)] r(1) run_Cons algebra_simps del: run_blocks.simps)
  next
    case False
    then have "untagged_response r" using Cons.prems(1) by auto
    then obtain d where d: "flush.reaches f do_parse k c r d"
      using flush.untagged_response_ignored Cons.prems(2,3) by blast
    then have "\<exists>e. parse_blocks f do_parse (concat rs) d = Inr (EWaitStartResponse, e)
      \<and> flushing (k - of_nat (length (filter tagged_response rs))) e \<and> iParseState e = EWaitStartResponse"
      using Cons.prems(1,4) False by (intro Cons.IH) (auto simp: flush.reaches_def)
    then show ?thesis using False by (simp add: flush.run_append [OF d])
  qed
qed

text \<open>What the server still owes of the response it is in the middle of.\<close>

definition rest_of_current :: "parse_state \<Rightarrow> string8 list \<Rightarrow> bool" where
  "rest_of_current s ls = (case s of
      EWaitStartResponse \<Rightarrow> ls = []
    | EWaitLiteralParse \<Rightarrow> ls \<noteq> [] \<and> well_announced (tl ls)
    | EWaitLiteralIngore \<Rightarrow> ls \<noteq> [] \<and> well_announced (tl ls)
    | EWaitLineParse \<Rightarrow> well_announced ls
    | EWaitLineIgnore \<Rightarrow> well_announced ls
    | ECommandComplete \<Rightarrow> False)"

lemma EnterFlushingState_flushing:
  "\<not> iCompleteOnAnyResponse c \<Longrightarrow> flushing n (EnterFlushingState n c)"
  by (simp add: flushing_def EnterFlushingState_def SetParseState_def Let_def split: parse_state.split)

lemma flush_rest:
  assumes "rest_of_current (iParseState c) ls" "\<not> iCompleteOnAnyResponse c"
  shows "\<exists>d. flush.reaches f do_parse n (EnterFlushingState n c) ls d"
proof -
  let ?c = "EnterFlushingState n c"
  have ok: "flushing n ?c" by (rule EnterFlushingState_flushing [OF assms(2)])
  consider "ls = []" "iParseState ?c = EWaitStartResponse"
    | l ms where "ls = l # ms" "well_announced ms" "iParseState ?c = EWaitLiteralIngore"
    | "well_announced ls" "iParseState ?c = EWaitLineIgnore"
    using assms(1)
    by (cases "iParseState c"; cases ls)
      (auto simp: rest_of_current_def EnterFlushingState_def SetParseState_def Let_def)
  then show ?thesis
  proof cases
    case 1
    with ok have "flush.reaches f do_parse n ?c ls ?c" by (simp add: flush.reaches_def)
    then show ?thesis by blast
  next
    case 2
    then show ?thesis using flush.rest_of_literal ok by blast
  next
    case 3
    then show ?thesis using flush.rest_of_response ok by blast
  qed
qed

lemma flush_completes:
  assumes "rest_of_current (iParseState c) ls" "\<not> iCompleteOnAnyResponse c"
    "\<forall>r\<in>set rs. untagged_response r \<or> tagged_response r"
    "Suc (length (filter tagged_response rs)) = unat n" "tag_of l = Inr (ETagged t)"
  shows "\<exists>d e. parse_blocks f do_parse (ls @ concat rs) (EnterFlushingState n c) = Inr (EWaitStartResponse, d)
    \<and> ParseBlockL f do_parse l d = Inr (ECommandComplete, e)
    \<and> iParseState e = ECommandComplete \<and> iResponseCode e = state_code f (snd (next_part l))"
proof -
  obtain b where b: "flush.reaches f do_parse n (EnterFlushingState n c) ls b"
    using flush_rest [OF assms(1,2)] by blast
  then have "flushing n b" "iParseState b = EWaitStartResponse" by (auto simp: flush.reaches_def)
  with assms(3,4) obtain d where d: "parse_blocks f do_parse (concat rs) b = Inr (EWaitStartResponse, d)"
    "flushing (n - of_nat (length (filter tagged_response rs))) d" "iParseState d = EWaitStartResponse"
    using flush_responses [of rs n b f do_parse] by auto
  have "of_nat (unat n) = (1 + of_nat (length (filter tagged_response rs)) :: tint)"
    unfolding assms(4) [symmetric] by simp
  then have "n - of_nat (length (filter tagged_response rs)) = 1" by simp
  with d(2,3) assms(5) obtain e where "ParseBlockL f do_parse l d = Inr (ECommandComplete, e)"
    "iParseState e = ECommandComplete" "iResponseCode e = state_code f (snd (next_part l))"
    using flush_last [of d l t f do_parse] by auto
  with d(1) show ?thesis by (auto simp: flush.run_append [OF b])
qed

section \<open>Commands without methods of their own\<close>

definition waiting :: "tint \<Rightarrow> 'm imap_command_scheme \<Rightarrow> bool" where
  "waiting t c \<longleftrightarrow> \<not> iFlushing c \<and> iTagId c = t \<and> \<not> iCompleteOnAnyResponse c"

lemma waiting_same_control: "same_control c d \<Longrightarrow> waiting t d \<longleftrightarrow> waiting t c"
  by (simp add: waiting_def same_control_def)

lemma unhandled_goes_on:
  assumes "tag_of l = Inr t"
  shows "\<exists>r d. ParseUnhandledBlockL f l c = Inr (r, d)"
  using assms
  by (simp add: ParseUnhandledBlockL_def set_unparsed_def bind_tag_line unhandled_number_def GetNextPart_def
      mbind_assoc split: prod.split sum.split)

lemma unhandled_untagged:
  assumes "iParseState c = EWaitStartResponse" "imap_command.iUnparsedData c = l" "tag_of l = Inr EUntagged"
  shows "\<exists>d. ParseLineL f (DoParseBlockL (command_ex g)) l c = Inr ((), after_ignored d)
    \<and> same_control (PeekLiteralRequest l c) d"
proof -
  let ?c = "PeekLiteralRequest l c"
  let ?d = "?c\<lparr> imap_command.iUnparsedData := snd (next_part l) \<rparr>"
  obtain r d where d: "ParseUnhandledBlockL f l ?d = Inr (r, d)"
    using unhandled_goes_on [OF assms(3)] by blast
  have "DoParseBlockL (command_ex g) ?c = Inr (ENotRecognised, ?d)"
    using assms by (simp add: DoParseBlockL_def ParseStartResponseL_def bind_tag_line command_ex_def
        ParseUntaggedResponseL_def)
  then have "ParseLineL f (DoParseBlockL (command_ex g)) l c = Inr ((), after_ignored d)"
    using assms(1)
    by (simp add: ParseLineL_def mbind_step [where m = "DoParseBlockL (command_ex g)" and c = ?c]
        mbind_step [where m = "ParseUnhandledBlockL f l", OF d])
  moreover have "same_control ?c d"
    using quietD [OF quiet_unhandled(2) d] by (simp add: same_control_def)
  ultimately show ?thesis by blast
qed

interpretation plain: ignoring "ParseBlockL f (DoParseBlockL (command_ex g))"
  "waiting t :: 'm imap_command_scheme \<Rightarrow> bool"
proof
  fix c :: "'m imap_command_scheme" and l
  let ?c = "c\<lparr> iUnparsedData := l, iLiteralBytesExpected := 0 \<rparr>"
  let ?P = "DoParseBlockL (command_ex g)"
  assume ok: "waiting t c"
  show "\<exists>d. ParseBlockL f ?P l c = Inr (iParseState d, d) \<and> waiting t d \<and> ignored_line l d"
    if s: "iParseState c = EWaitStartResponse" and u: "tag_of l = Inr EUntagged"
  proof -
    obtain d where d: "ParseLineL f ?P l ?c = Inr ((), after_ignored d)" "same_control (PeekLiteralRequest l ?c) d"
      using unhandled_untagged [of ?c l f g] s u by auto
    have "iLiteralBytesExpected d = iLiteralBytesExpected (PeekLiteralRequest l ?c)"
      using d(2) by (simp add: same_control_def)
    then have "ignored_line l (after_ignored d)" by (intro after_ignored_line) (simp add: announces_peek)
    with d ok s show ?thesis
      by (intro ParseBlockL_apply [where e = "after_ignored d"])
        (auto simp: waiting_def same_control_def parse_block_def)
  qed
  show "iParseState c = EWaitLiteralIngore \<Longrightarrow>
      \<exists>d. ParseBlockL f ?P l c = Inr (iParseState d, d) \<and> waiting t d \<and> iParseState d = EWaitLineIgnore"
    using ok by (intro ParseBlockL_apply [where e = "SetParseState EWaitLineIgnore ?c"])
      (auto simp: waiting_def parse_block_def)
  show "iParseState c = EWaitLineIgnore \<Longrightarrow>
      \<exists>d. ParseBlockL f ?P l c = Inr (iParseState d, d) \<and> waiting t d \<and> ignored_line l d"
    using ok by (intro ParseBlockL_apply [where e = "after_ignored (PeekLiteralRequest l ?c)"])
      (auto simp: waiting_def parse_block_def announces_peek after_ignored_line)
qed

lemma plain_tagged:
  assumes "waiting t c" "iParseState c = EWaitStartResponse" "tag_of l = Inr (ETagged t)"
    "state_code g (snd (next_part l)) \<noteq> EImapResponseNone"
  shows "\<exists>d. ParseBlockL f (DoParseBlockL (command_ex g)) l c = Inr (ECommandComplete, d)
    \<and> iParseState d = ECommandComplete \<and> iResponseCode d = state_code g (snd (next_part l))"
proof -
  let ?c = "PeekLiteralRequest l (c\<lparr> iUnparsedData := l, iLiteralBytesExpected := 0 \<rparr>)"
  let ?e = "?c\<lparr> imap_command.iUnparsedData := snd (next_part l) \<rparr>"
  obtain u where u: "GetResponseStateCode g ?e =
      Inr (state_code g (snd (next_part l)), ?e\<lparr> imap_command.iUnparsedData := u \<rparr>)"
    using GetResponseStateCode_line [of g ?e] by auto
  let ?d = "?e\<lparr> imap_command.iUnparsedData := u, iResponseCode := state_code g (snd (next_part l)) \<rparr>"
  have "DoParseBlockL (command_ex g) ?c = Inr (ECompleteTagged, ?d)"
    using assms
    by (simp add: DoParseBlockL_def ParseStartResponseL_def bind_tag_line command_ex_def mbind_assoc
        ParseTaggedResponseL_def BaseParseTaggedResponseL_def waiting_def
        mbind_step [where m = "GetResponseStateCode g", OF u])
  then have "parse_block f (DoParseBlockL (command_ex g)) l (c\<lparr> iUnparsedData := l, iLiteralBytesExpected := 0 \<rparr>)
      = Inr ((), SetParseState ECommandComplete ?d)"
    using assms(1,2)
    by (simp add: parse_block_def ParseLineL_def waiting_def
        mbind_step [where m = "DoParseBlockL (command_ex g)" and c = ?c])
  from ParseBlockL_run [OF this] assms(1) show ?thesis by (simp add: waiting_def)
qed

lemma plain_completes:
  assumes "waiting t c" "iParseState c = EWaitStartResponse" "\<forall>r\<in>set rs. untagged_response r"
    "tag_of l = Inr (ETagged t)" "state_code g (snd (next_part l)) \<noteq> EImapResponseNone"
  shows "\<exists>d e. parse_blocks f (DoParseBlockL (command_ex g)) (concat rs) c = Inr (EWaitStartResponse, d)
    \<and> ParseBlockL f (DoParseBlockL (command_ex g)) l d = Inr (ECommandComplete, e)
    \<and> iParseState e = ECommandComplete \<and> iResponseCode e = state_code g (snd (next_part l))"
proof -
  obtain d where d: "plain.reaches f g t c (concat rs) d"
    using plain.untagged_responses_ignored [OF assms(3,1,2)] by blast
  then have "waiting t d" "iParseState d = EWaitStartResponse" by (auto simp: plain.reaches_def)
  with assms(4,5) obtain e where "ParseBlockL f (DoParseBlockL (command_ex g)) l d = Inr (ECommandComplete, e)"
    "iParseState e = ECommandComplete" "iResponseCode e = state_code g (snd (next_part l))"
    using plain_tagged [of t d l g f] by auto
  with d show ?thesis by (auto simp: plain.reaches_def)
qed

end
