(* ===== verification/Imap_Request.thy ===== *)
theory Imap_Request
  imports Imap_Text
begin

text \<open>
  What the IMAP commands send: the quoting of mailbox names (\<open>EncodeMailboxNameForSendL\<close>,
  imapsession/src/cimapcommand.cpp) and the \<open>SendMessageL\<close> of each command. A command computes the
  length of its output buffer, and \<open>Format\<close> panics when the text is longer.
\<close>

section \<open>Mailbox names\<close>

definition quoted_special :: "byte \<Rightarrow> bool" where
  "quoted_special c \<longleftrightarrow> c = 92 \<or> c = 34"

definition other_special :: "byte \<Rightarrow> bool" where
  "other_special c \<longleftrightarrow> c = 40 \<or> c = 41 \<or> c = 123 \<or> c = 32 \<or> c = 37 \<or> c = 42 \<or> c = 93"

fun special_loop :: "string8 \<Rightarrow> bool \<Rightarrow> nat \<Rightarrow> bool \<times> nat" where
  "special_loop [] found n = (found, n)"
| "special_loop (c # s) found n =
     (if other_special c then special_loop s True n
      else if quoted_special c then special_loop s True (Suc n)
      else special_loop s found n)"

definition CheckForPrintableAtomSpecial :: "string8 \<Rightarrow> bool \<times> nat" where
  "CheckForPrintableAtomSpecial aString = special_loop aString False 0"

definition des_insert :: "nat \<Rightarrow> nat \<Rightarrow> string8 \<Rightarrow> string8 \<Rightarrow> string8 leaving" where
  "des_insert limit pos s t =
     (if length s < pos then Inl KPanicIndex
      else if limit < length s + length t then Inl KPanicDescriptorToSmall
      else Inr (take pos s @ t @ drop pos s))"

text \<open>The escaping loop; \<open>end\<close> is \<open>mailboxNameLength - 2\<close>, \<open>limit\<close> the size of the buffer.\<close>

function escape_loop :: "nat \<Rightarrow> nat \<Rightarrow> nat \<Rightarrow> string8 \<Rightarrow> string8 leaving" where
  "escape_loop limit last_pos i s =
     (if i < last_pos then
        (if length s \<le> i then Inl KPanicIndex
         else if quoted_special (s ! i)
           then bind_l (des_insert limit i s [92]) (escape_loop limit last_pos (i + 2))
         else escape_loop limit last_pos (i + 1) s)
      else Inr s)"
  by pat_completeness auto
termination by (relation "measure (\<lambda>(limit, last_pos, i, s). last_pos - i)") auto

declare escape_loop.simps [simp del]

definition quote_name :: "string8 \<Rightarrow> string8 leaving" where
  "quote_name name =
     (case CheckForPrintableAtomSpecial name of
        (found, countQuotedSpecials) \<Rightarrow>
          if \<not> found then Inr name
          else
            (let mailboxNameLength = length name + countQuotedSpecials + 2 in
             bind_l (des_insert mailboxNameLength 0 name [34]) (\<lambda>s.
             bind_l (if 0 < countQuotedSpecials
                     then escape_loop mailboxNameLength (mailboxNameLength - 2) 1 s else Inr s) (\<lambda>s.
             des_insert mailboxNameLength (length s) s [34]))))"

text \<open>\<open>to_utf7\<close> is \<open>ConvertFromUnicodeToImapUtf7L\<close>, which can leave.\<close>

definition EncodeMailboxNameForSendL :: "(string16 \<Rightarrow> string8 leaving) \<Rightarrow> string16 \<Rightarrow> string8 leaving" where
  "EncodeMailboxNameForSendL to_utf7 aMailboxName =
     (if aMailboxName = [] then Inr [34, 34] else bind_l (to_utf7 aMailboxName) quote_name)"

subsection \<open>The loop escapes the quoted specials\<close>

lemma special_loop_counts:
  "special_loop s found n =
     (found \<or> (\<exists>c\<in>set s. other_special c \<or> quoted_special c),
      n + length (filter (\<lambda>c. quoted_special c \<and> \<not> other_special c) s))"
  by (induction s arbitrary: found n) auto

lemma specials_disjoint: "quoted_special c \<Longrightarrow> \<not> other_special c"
  by (auto simp: quoted_special_def other_special_def)

lemma check_specials:
  "CheckForPrintableAtomSpecial s =
     (\<exists>c\<in>set s. other_special c \<or> quoted_special c, length (filter quoted_special s))"
proof -
  have "filter (\<lambda>c. quoted_special c \<and> \<not> other_special c) s = filter quoted_special s"
    by (rule filter_cong) (auto dest: specials_disjoint)
  then show ?thesis by (simp add: CheckForPrintableAtomSpecial_def special_loop_counts)
qed

lemma escape_loop_escapes:
  assumes "limit \<ge> length pre + length rest + length (filter quoted_special rest)"
    and "length pre + length rest + length (filter quoted_special rest) = Suc last_pos"
  shows "escape_loop limit last_pos (length pre) (pre @ rest) = Inr (pre @ print_escaped rest)"
  using assms
proof (induction rest arbitrary: pre)
  case Nil
  then show ?case by (simp add: escape_loop.simps [of _ last_pos])
next
  case (Cons c rest)
  show ?case
  proof (cases "quoted_special c")
    case True
    have ins: "des_insert limit (length pre) (pre @ c # rest) [92] = Inr ((pre @ [92, c]) @ rest)"
      using Cons.prems(1) True by (simp add: des_insert_def)
    have "escape_loop limit last_pos (length (pre @ [92, c])) ((pre @ [92, c]) @ rest) =
        Inr ((pre @ [92, c]) @ print_escaped rest)"
      by (rule Cons.IH) (use Cons.prems True in simp_all)
    moreover have "length pre < last_pos" using Cons.prems(2) True by simp
    ultimately show ?thesis
      using ins True
      by (auto simp: escape_loop.simps [of limit last_pos "length pre"] nth_append quoted_special_def)
  next
    case False
    show ?thesis
    proof (cases "length pre < last_pos")
      case True
      have "escape_loop limit last_pos (length (pre @ [c])) ((pre @ [c]) @ rest) =
          Inr ((pre @ [c]) @ print_escaped rest)"
        by (rule Cons.IH) (use Cons.prems False in simp_all)
      then show ?thesis
        using False True
        by (simp add: escape_loop.simps [of limit last_pos "length pre"] nth_append quoted_special_def)
    next
      case stop: False
      then have "rest = []" using Cons.prems(2) False by (cases rest) auto
      with stop False show ?thesis
        by (simp add: escape_loop.simps [of limit last_pos "length pre"] quoted_special_def)
    qed
  qed
qed

lemma print_escaped_plain: "filter quoted_special s = [] \<Longrightarrow> print_escaped s = s"
  by (induction s) (auto simp: quoted_special_def split: if_splits)

lemma length_print_escaped: "length (print_escaped s) = length s + length (filter quoted_special s)"
  by (induction s) (auto simp: quoted_special_def)

lemma quote_name_prints:
  "quote_name s = Inr (print_leaf (\<exists>c\<in>set s. other_special c \<or> quoted_special c) s)"
proof (cases "\<exists>c\<in>set s. other_special c \<or> quoted_special c")
  case True
  let ?k = "length (filter quoted_special s)"
  let ?n = "length s + ?k + 2"
  have loop: "escape_loop ?n (?n - 2) 1 (34 # s) = Inr (34 # print_escaped s)"
    using escape_loop_escapes [of "[34]" s ?n "?n - 2"] by simp
  have first: "des_insert ?n 0 s [34] = Inr (34 # s)" by (simp add: des_insert_def)
  have escaped: "(if 0 < ?k then escape_loop ?n (?n - 2) 1 (34 # s) else Inr (34 # s)) = Inr (34 # print_escaped s)"
    using loop by (simp add: print_escaped_plain)
  have final: "des_insert ?n (length (34 # print_escaped s)) (34 # print_escaped s) [34]
      = Inr (34 # print_escaped s @ [34])"
    by (simp add: des_insert_def length_print_escaped)
  show ?thesis
    using True unfolding quote_name_def check_specials prod.case Let_def first bind_l_simps escaped final
    by (simp add: print_leaf_def)
qed (simp add: quote_name_def check_specials print_leaf_def)

text \<open>What the client sends for a mailbox, its own parser reads back as one atom with this name.\<close>

lemma mailbox_reads_back:
  assumes "name \<noteq> []" "to_utf7 name = Inr u" "u \<noteq> []" "13 \<notin> set u"
  shows "\<exists>s p q. EncodeMailboxNameForSendL to_utf7 name = Inr s \<and>
    ProcessLineL s (ap_new True) = Inr (False, p) \<and> ap_forest p = [Leaf q u]"
proof -
  let ?q = "\<exists>c\<in>set u. other_special c \<or> quoted_special c"
  have "printable (Leaf ?q u)"
    using assms(3,4)
    by (cases u) (auto simp: plain_atom_def list_all_iff other_special_def quoted_special_def)
  then obtain p where "ProcessLineL (print_forest [Leaf ?q u]) (ap_new True) = Inr (False, p)"
    "ap_forest p = [Leaf ?q u]"
    using parse_forest [of "[Leaf ?q u]"] by auto
  then show ?thesis using assms(1,2) by (auto simp: EncodeMailboxNameForSendL_def quote_name_prints)
qed

end
