(* ===== verification/Imap_Send.thy ===== *)
theory Imap_Send
  imports Imap_Request
begin

text \<open>
  The text each IMAP command sends (\<open>SendMessageL\<close> of the command classes in imapsession/src). A
  command computes the length of its output buffer from its format and its arguments, and \<open>Format\<close>
  panics when the text is longer. Mailbox names are the ones \<open>EncodeMailboxNameForSendL\<close> gives,
  except for STATUS, which sends the name as it was converted.
\<close>

section \<open>Formats\<close>

datatype format_arg = ArgD int | ArgS string8

text \<open>\<open>Format\<close> with \<open>%d\<close> and \<open>%S\<close>.\<close>

fun format :: "string8 \<Rightarrow> format_arg list \<Rightarrow> string8" where
  "format [] args = []"
| "format [c] args = [c]"
| "format (c # d # s) args =
     (if c = 37 \<and> (d = 100 \<or> d = 83) then
        (case args of
           ArgD n # rest \<Rightarrow> show_int n @ format s rest
         | ArgS x # rest \<Rightarrow> x @ format s rest
         | [] \<Rightarrow> format s [])
      else c # format (d # s) args)"

definition crlf :: string8 where "crlf = [13, 10]"

definition send_format :: "nat \<Rightarrow> string8 \<Rightarrow> format_arg list \<Rightarrow> string8 leaving" where
  "send_format bufLength fmt args =
     (let s = format fmt args in
      if length s \<le> bufLength then Inr s else Inl KPanicDescriptorToSmall)"

section \<open>The commands\<close>

definition KTxtCapabilityFormat :: string8 where
  "KTxtCapabilityFormat = ascii ''%d CAPABILITY'' @ crlf"

definition SendCapability :: "int \<Rightarrow> string8 leaving" where
  "SendCapability t =
     send_format (length KTxtCapabilityFormat - 2 + TagLength t) KTxtCapabilityFormat
       [ArgD t]"

definition KCommandNoop :: string8 where
  "KCommandNoop = ascii ''%d NOOP'' @ crlf"

definition SendNoop :: "int \<Rightarrow> string8 leaving" where
  "SendNoop t =
     send_format (length KCommandNoop + TagLength t) KCommandNoop
       [ArgD t]"

definition KCommandCheck :: string8 where
  "KCommandCheck = ascii ''%d CHECK'' @ crlf"

definition SendCheck :: "int \<Rightarrow> string8 leaving" where
  "SendCheck t =
     send_format (length KCommandCheck + TagLength t) KCommandCheck
       [ArgD t]"

definition KCommandClose :: string8 where
  "KCommandClose = ascii ''%d CLOSE'' @ crlf"

definition SendClose :: "int \<Rightarrow> string8 leaving" where
  "SendClose t =
     send_format (length KCommandClose + TagLength t) KCommandClose
       [ArgD t]"

definition KCommandExpunge :: string8 where
  "KCommandExpunge = ascii ''%d EXPUNGE'' @ crlf"

definition SendExpunge :: "int \<Rightarrow> string8 leaving" where
  "SendExpunge t =
     send_format (length KCommandExpunge - 2 + TagLength t) KCommandExpunge
       [ArgD t]"

definition KTxtLogoutFormat :: string8 where
  "KTxtLogoutFormat = ascii ''%d LOGOUT'' @ crlf"

definition SendLogout :: "int \<Rightarrow> string8 leaving" where
  "SendLogout t =
     send_format (length KTxtLogoutFormat - 2 + TagLength t) KTxtLogoutFormat
       [ArgD t]"

definition KTxtStartTlsFormat :: string8 where
  "KTxtStartTlsFormat = ascii ''%d STARTTLS'' @ crlf"

definition SendStartTls :: "int \<Rightarrow> string8 leaving" where
  "SendStartTls t =
     send_format (length KTxtStartTlsFormat - 2 + TagLength t) KTxtStartTlsFormat
       [ArgD t]"

definition KTxtIdleFormat :: string8 where
  "KTxtIdleFormat = ascii ''%d IDLE'' @ crlf"

definition SendIdle :: "int \<Rightarrow> string8 leaving" where
  "SendIdle t =
     send_format (length KTxtIdleFormat + 2 + TagLength t) KTxtIdleFormat
       [ArgD t]"

definition KTxtSelectFormat :: string8 where
  "KTxtSelectFormat = ascii ''%d SELECT %S'' @ crlf"

definition SendSelect :: "string8 \<Rightarrow> int \<Rightarrow> string8 leaving" where
  "SendSelect mailbox t =
     send_format (length KTxtSelectFormat - 4 + TagLength t + length mailbox) KTxtSelectFormat
       [ArgD t, ArgS mailbox]"

definition KTxtExamineFormat :: string8 where
  "KTxtExamineFormat = ascii ''%d EXAMINE %S'' @ crlf"

definition SendExamine :: "string8 \<Rightarrow> int \<Rightarrow> string8 leaving" where
  "SendExamine mailbox t =
     send_format (length KTxtExamineFormat - 4 + TagLength t + length mailbox) KTxtExamineFormat
       [ArgD t, ArgS mailbox]"

definition KCommandCreate :: string8 where
  "KCommandCreate = ascii ''%d CREATE %S'' @ crlf"

definition SendCreate :: "string8 \<Rightarrow> int \<Rightarrow> string8 leaving" where
  "SendCreate mailbox t =
     send_format (length KCommandCreate + length mailbox + TagLength t) KCommandCreate
       [ArgD t, ArgS mailbox]"

definition KCommandDelete :: string8 where
  "KCommandDelete = ascii ''%d DELETE %S'' @ crlf"

definition SendDelete :: "string8 \<Rightarrow> int \<Rightarrow> string8 leaving" where
  "SendDelete mailbox t =
     send_format (length KCommandDelete + TagLength t + length mailbox) KCommandDelete
       [ArgD t, ArgS mailbox]"

definition KCommandSubscribe :: string8 where
  "KCommandSubscribe = ascii ''%d SUBSCRIBE %S'' @ crlf"

definition SendSubscribe :: "string8 \<Rightarrow> int \<Rightarrow> string8 leaving" where
  "SendSubscribe mailbox t =
     send_format (length KCommandSubscribe + TagLength t + length mailbox) KCommandSubscribe
       [ArgD t, ArgS mailbox]"

definition KCommandUnsubscribe :: string8 where
  "KCommandUnsubscribe = ascii ''%d UNSUBSCRIBE %S'' @ crlf"

definition SendUnsubscribe :: "string8 \<Rightarrow> int \<Rightarrow> string8 leaving" where
  "SendUnsubscribe mailbox t =
     send_format (length KCommandUnsubscribe + TagLength t + length mailbox) KCommandUnsubscribe
       [ArgD t, ArgS mailbox]"

definition KCommandRename :: string8 where
  "KCommandRename = ascii ''%d RENAME %S %S'' @ crlf"

definition SendRename :: "string8 \<Rightarrow> string8 \<Rightarrow> int \<Rightarrow> string8 leaving" where
  "SendRename old_name new_name t =
     send_format (length KCommandRename + TagLength t + length old_name + length new_name) KCommandRename
       [ArgD t, ArgS old_name, ArgS new_name]"

definition KCommandSearch :: string8 where
  "KCommandSearch = ascii ''%d UID SEARCH %S'' @ crlf"

definition SendSearch :: "string8 \<Rightarrow> int \<Rightarrow> string8 leaving" where
  "SendSearch criteria t =
     send_format (length KCommandSearch + TagLength t + length criteria) KCommandSearch
       [ArgD t, ArgS criteria]"

definition KCommandCopy :: string8 where
  "KCommandCopy = ascii ''%d UID COPY %S %S'' @ crlf"

definition SendCopy :: "string8 \<Rightarrow> string8 \<Rightarrow> int \<Rightarrow> string8 leaving" where
  "SendCopy sequence_set mailbox t =
     send_format (length KCommandCopy + TagLength t + length sequence_set + length mailbox) KCommandCopy
       [ArgD t, ArgS sequence_set, ArgS mailbox]"

definition KCommandFetchFlags :: string8 where
  "KCommandFetchFlags = ascii ''%d UID FETCH %S (UID FLAGS)'' @ crlf"

definition SendFetchFlags :: "string8 \<Rightarrow> int \<Rightarrow> string8 leaving" where
  "SendFetchFlags sequence_set t =
     send_format (length KCommandFetchFlags + TagLength t + length sequence_set) KCommandFetchFlags
       [ArgD t, ArgS sequence_set]"

definition KCommandStatus :: string8 where
  "KCommandStatus = ascii ''%d STATUS %S %S'' @ crlf"

text \<open>The name of the mailbox is not quoted.\<close>

definition SendStatus :: "string8 \<Rightarrow> string8 \<Rightarrow> int \<Rightarrow> string8 leaving" where
  "SendStatus mailbox items t =
     send_format (length KCommandStatus + length mailbox + length items + TagLength t) KCommandStatus
       [ArgD t, ArgS mailbox, ArgS items]"

text \<open>LIST and LSUB share their sender; \<open>command\<close> is the word in the format of the subclass.\<close>

definition list_format :: "string8 \<Rightarrow> string8" where
  "list_format command = ascii ''%d '' @ command @ ascii '' %S %S'' @ crlf"

definition SendList :: "string8 \<Rightarrow> string8 \<Rightarrow> string8 \<Rightarrow> int \<Rightarrow> string8 leaving" where
  "SendList command reference mailbox t =
     send_format (length (list_format command) + TagLength t + length reference + length mailbox)
       (list_format command) [ArgD t, ArgS reference, ArgS mailbox]"

definition KCommandStore :: string8 where
  "KCommandStore = ascii ''%d UID STORE %S %S %S'' @ crlf"

definition KUseSilent :: string8 where
  "KUseSilent = ascii ''.SILENT''"

definition SendStore :: "string8 \<Rightarrow> string8 \<Rightarrow> string8 \<Rightarrow> bool \<Rightarrow> int \<Rightarrow> string8 leaving" where
  "SendStore sequence_set items value silent t =
     (let items = (if silent then items @ KUseSilent else items) in
      send_format (length KCommandStore + TagLength t + length sequence_set + length items + length value)
        KCommandStore [ArgD t, ArgS sequence_set, ArgS items, ArgS value])"

datatype imap_request =
    ReqCapability
  | ReqNoop
  | ReqCheck
  | ReqClose
  | ReqExpunge
  | ReqLogout
  | ReqStartTls
  | ReqIdle
  | ReqSelect string8
  | ReqExamine string8
  | ReqCreate string8
  | ReqDelete string8
  | ReqSubscribe string8
  | ReqUnsubscribe string8
  | ReqRename string8 string8
  | ReqSearch string8
  | ReqCopy string8 string8
  | ReqFetchFlags string8
  | ReqStatus string8 string8
  | ReqStore string8 string8 string8 bool
  | ReqList string8 string8 string8

fun SendMessageL :: "imap_request \<Rightarrow> int \<Rightarrow> string8 leaving" where
  "SendMessageL ReqCapability t = SendCapability t"
| "SendMessageL ReqNoop t = SendNoop t"
| "SendMessageL ReqCheck t = SendCheck t"
| "SendMessageL ReqClose t = SendClose t"
| "SendMessageL ReqExpunge t = SendExpunge t"
| "SendMessageL ReqLogout t = SendLogout t"
| "SendMessageL ReqStartTls t = SendStartTls t"
| "SendMessageL ReqIdle t = SendIdle t"
| "SendMessageL (ReqSelect mailbox) t = SendSelect mailbox t"
| "SendMessageL (ReqExamine mailbox) t = SendExamine mailbox t"
| "SendMessageL (ReqCreate mailbox) t = SendCreate mailbox t"
| "SendMessageL (ReqDelete mailbox) t = SendDelete mailbox t"
| "SendMessageL (ReqSubscribe mailbox) t = SendSubscribe mailbox t"
| "SendMessageL (ReqUnsubscribe mailbox) t = SendUnsubscribe mailbox t"
| "SendMessageL (ReqRename old_name new_name) t = SendRename old_name new_name t"
| "SendMessageL (ReqSearch criteria) t = SendSearch criteria t"
| "SendMessageL (ReqCopy sequence_set mailbox) t = SendCopy sequence_set mailbox t"
| "SendMessageL (ReqFetchFlags sequence_set) t = SendFetchFlags sequence_set t"
| "SendMessageL (ReqStatus mailbox items) t = SendStatus mailbox items t"
| "SendMessageL (ReqStore sequence_set items value silent) t = SendStore sequence_set items value silent t"
| "SendMessageL (ReqList command reference mailbox) t = SendList command reference mailbox t"

section \<open>What is sent\<close>

fun request_text :: "imap_request \<Rightarrow> int \<Rightarrow> string8" where
  "request_text ReqCapability t = show_int t @ ascii '' CAPABILITY'' @ crlf"
| "request_text ReqNoop t = show_int t @ ascii '' NOOP'' @ crlf"
| "request_text ReqCheck t = show_int t @ ascii '' CHECK'' @ crlf"
| "request_text ReqClose t = show_int t @ ascii '' CLOSE'' @ crlf"
| "request_text ReqExpunge t = show_int t @ ascii '' EXPUNGE'' @ crlf"
| "request_text ReqLogout t = show_int t @ ascii '' LOGOUT'' @ crlf"
| "request_text ReqStartTls t = show_int t @ ascii '' STARTTLS'' @ crlf"
| "request_text ReqIdle t = show_int t @ ascii '' IDLE'' @ crlf"
| "request_text (ReqSelect mailbox) t = show_int t @ ascii '' SELECT '' @ mailbox @ crlf"
| "request_text (ReqExamine mailbox) t = show_int t @ ascii '' EXAMINE '' @ mailbox @ crlf"
| "request_text (ReqCreate mailbox) t = show_int t @ ascii '' CREATE '' @ mailbox @ crlf"
| "request_text (ReqDelete mailbox) t = show_int t @ ascii '' DELETE '' @ mailbox @ crlf"
| "request_text (ReqSubscribe mailbox) t = show_int t @ ascii '' SUBSCRIBE '' @ mailbox @ crlf"
| "request_text (ReqUnsubscribe mailbox) t = show_int t @ ascii '' UNSUBSCRIBE '' @ mailbox @ crlf"
| "request_text (ReqRename old_name new_name) t = show_int t @ ascii '' RENAME '' @ old_name @ ascii '' '' @ new_name @ crlf"
| "request_text (ReqSearch criteria) t = show_int t @ ascii '' UID SEARCH '' @ criteria @ crlf"
| "request_text (ReqCopy sequence_set mailbox) t = show_int t @ ascii '' UID COPY '' @ sequence_set @ ascii '' '' @ mailbox @ crlf"
| "request_text (ReqFetchFlags sequence_set) t = show_int t @ ascii '' UID FETCH '' @ sequence_set @ ascii '' (UID FLAGS)'' @ crlf"
| "request_text (ReqStatus mailbox items) t = show_int t @ ascii '' STATUS '' @ mailbox @ ascii '' '' @ items @ crlf"
| "request_text (ReqStore sequence_set items value silent) t =
     show_int t @ ascii '' UID STORE '' @ sequence_set @ ascii '' '' @ items @ (if silent then KUseSilent else [])
       @ ascii '' '' @ value @ crlf"
| "request_text (ReqList command reference mailbox) t =
     show_int t @ ascii '' '' @ command @ ascii '' '' @ reference @ ascii '' '' @ mailbox @ crlf"

lemmas send_texts =
  KTxtCapabilityFormat_def KCommandNoop_def KCommandCheck_def KCommandClose_def
    KCommandExpunge_def KTxtLogoutFormat_def KTxtStartTlsFormat_def KTxtIdleFormat_def
    KTxtSelectFormat_def KTxtExamineFormat_def KCommandCreate_def KCommandDelete_def
    KCommandSubscribe_def KCommandUnsubscribe_def KCommandRename_def KCommandSearch_def
    KCommandCopy_def KCommandFetchFlags_def KCommandStatus_def
  KCommandStore_def crlf_def ascii_def

lemmas send_ops =
  SendCapability_def SendNoop_def SendCheck_def SendClose_def SendExpunge_def SendLogout_def
    SendStartTls_def SendIdle_def SendSelect_def SendExamine_def SendCreate_def SendDelete_def
    SendSubscribe_def SendUnsubscribe_def SendRename_def SendSearch_def SendCopy_def
    SendFetchFlags_def SendStatus_def
  SendStore_def SendList_def send_format_def Let_def

lemma format_plain: "37 \<notin> set s \<Longrightarrow> format (s @ t) args = s @ format t args"
proof (induction s)
  case (Cons c s)
  then show ?case by (cases "s @ t") auto
qed simp

lemma list_format_text:
  assumes "37 \<notin> set command"
  shows "format (list_format command) [ArgD t, ArgS reference, ArgS mailbox] =
    show_int t @ ascii '' '' @ command @ ascii '' '' @ reference @ ascii '' '' @ mailbox @ crlf"
proof -
  have "format (list_format command) [ArgD t, ArgS reference, ArgS mailbox] =
      show_int t @ format ((32 # command) @ 32 # 37 # 83 # 32 # 37 # 83 # crlf) [ArgS reference, ArgS mailbox]"
    by (simp add: list_format_def ascii_def)
  also have "\<dots> = show_int t @ (32 # command) @ 32 # reference @ 32 # mailbox @ crlf"
    using assms by (subst format_plain) (simp_all add: crlf_def)
  finally show ?thesis by (simp add: ascii_def)
qed

definition sendable :: "imap_request \<Rightarrow> bool" where
  "sendable r = (case r of ReqList command _ _ \<Rightarrow> 37 \<notin> set command | _ \<Rightarrow> True)"

lemma request_fits:
  assumes "0 \<le> t" "sendable r"
  shows "SendMessageL r t = Inr (request_text r t)"
proof (cases r)
  case (ReqList command reference mailbox)
  then have f: "format (list_format command) [ArgD t, ArgS reference, ArgS mailbox] =
      request_text r t"
    using assms(2) list_format_text by (simp add: sendable_def)
  show ?thesis
    using f by (simp add: ReqList SendList_def send_format_def list_format_def ascii_def crlf_def tag_length_exact [OF assms(1)])
qed (simp_all add: send_ops send_texts tag_length_exact [OF assms(1)] KUseSilent_def)

end
