(* ===== verification/Imap_Frames.thy ===== *)
theory Imap_Frames
  imports Imap_Flush Imap_Send
begin

text \<open>
  How \<open>CImapSession\<close> (imapsession/src/cimapsession.cpp) cuts the bytes of its input stream into the
  lines and literals it gives to the current command, and the loop that does so until the bytes
  are used up, the command is complete, or the command wants to pause.
\<close>

section \<open>Lines\<close>

record input_state =
  iInputBuffer :: string8
  iInputCache :: string8
  iCommandLiteralRequestSize :: tint

definition last_lf :: "string8 \<Rightarrow> nat option" where
  "last_lf s = (case locate8 10 (rev s) of None \<Rightarrow> None | Some k \<Rightarrow> Some (length s - 1 - k))"

text \<open>The special case for one server: when the buffer holds several lines and the first of them
  announces a literal, the line goes on to the end of the literal request that follows the first
  closing square bracket.\<close>

definition luukku_end :: "string8 \<Rightarrow> nat \<Rightarrow> nat" where
  "luukku_end s posCrlf =
     (case (last_lf s, find_f id [93] s) of
        (Some pos1, Some pos2) \<Rightarrow>
          (let len = length s;
               pos3 = pos2 + 2 + length (takeWhile (\<lambda>c. c \<noteq> 125) (take (len - 1 - (pos2 + 2)) (drop (pos2 + 2) s)))
           in if 0 < pos1 \<and> s ! (pos1 - 1) = 13 \<and> posCrlf \<noteq> pos1 - 1
                \<and> 0 < posCrlf \<and> s ! (posCrlf - 1) = 125
                \<and> pos2 + 2 < len \<and> s ! (pos2 + 2) = 123
                \<and> pos3 + 2 < len \<and> s ! (pos3 + 1) = 13 \<and> s ! (pos3 + 2) = 10
                \<and> 0 < pos2 \<and> s ! (pos2 - 1) = 41
              then pos3 + 1 else posCrlf)
      | _ \<Rightarrow> posCrlf)"

definition line_end :: "string8 \<Rightarrow> nat option" where
  "line_end s = map_option (luukku_end s) (find_f id crlf s)"

text \<open>The first line end of the buffer ends the line, which begins with what is in the cache. When the
  line end itself is split, the line is the cache; an empty line of this kind is not noticed.\<close>

definition TryFindLineL :: "input_state \<Rightarrow> bool \<times> string8 \<times> input_state" where
  "TryFindLineL s =
     (let cache = iInputCache s; buffer = iInputBuffer s;
          split_crlf = (buffer \<noteq> [] \<and> hd buffer = 10 \<and> cache \<noteq> [] \<and> last cache = 13);
          data = (if split_crlf then butlast cache else []);
          buffer = (if split_crlf then tl buffer else buffer)
      in if data \<noteq> [] then (split_crlf, data, s\<lparr> iInputBuffer := buffer \<rparr>)
         else case line_end buffer of
           None \<Rightarrow> (split_crlf, data, s\<lparr> iInputCache := cache @ buffer, iInputBuffer := [] \<rparr>)
         | Some posCrlf \<Rightarrow>
             (let s = s\<lparr> iInputBuffer := drop (posCrlf + 2) buffer \<rparr>
              in if cache = [] then (True, take posCrlf buffer, s)
                 else (True, cache @ take posCrlf buffer, s\<lparr> iInputCache := cache @ take posCrlf buffer \<rparr>)))"

section \<open>Literals\<close>

definition TryFindLiteralBlockL :: "input_state \<Rightarrow> (bool \<times> string8 \<times> input_state) leaving" where
  "TryFindLiteralBlockL s =
     (let cache = iInputCache s; buffer = iInputBuffer s; size = sint (iCommandLiteralRequestSize s);
          lengthToConsume = (if cache = [] then size else size - int (length cache))
      in if size \<le> int (length buffer) + int (length cache) then
           if lengthToConsume < 0 then Inl KPanicIndex
           else
             (let n = nat lengthToConsume
              in if cache = [] then Inr (True, take n buffer, s\<lparr> iInputBuffer := drop n buffer \<rparr>)
                 else Inr (True, cache @ take n buffer,
                        s\<lparr> iInputCache := cache @ take n buffer, iInputBuffer := drop n buffer \<rparr>))
         else Inr (False, [], s\<lparr> iInputCache := cache @ buffer, iInputBuffer := [] \<rparr>))"

definition find_block :: "input_state \<Rightarrow> (bool \<times> string8 \<times> input_state) leaving" where
  "find_block s =
     (if iCommandLiteralRequestSize s = 0 then Inr (TryFindLineL s) else TryFindLiteralBlockL s)"

section \<open>The loop\<close>

datatype process_outcome = EReadMore | EPaused | EFinished | EFailed symbian_error | EPanicked symbian_error

definition block_delivered :: "input_state \<Rightarrow> input_state" where
  "block_delivered s = s\<lparr> iInputCache := [], iCommandLiteralRequestSize := 0 \<rparr>"

lemma find_f_le_length: "find_f f pat s = Some p \<Longrightarrow> p + length pat \<le> length s"
  by (induction s arbitrary: p) (auto split: if_splits)

lemma line_progress:
  assumes "TryFindLineL s = (True, data, s')" "iInputBuffer s \<noteq> []"
  shows "length (iInputBuffer s') < length (iInputBuffer s) + length (iInputCache s)"
  using assms
  by (cases "iInputBuffer s"; cases "iInputCache s")
    (auto simp: TryFindLineL_def Let_def split: if_splits option.splits)

lemma literal_progress:
  assumes "TryFindLiteralBlockL s = Inr (True, data, s')" "iCommandLiteralRequestSize s \<noteq> 0" "iInputBuffer s \<noteq> []"
  shows "length (iInputBuffer s') < length (iInputBuffer s) + length (iInputCache s)"
proof -
  have "sint (iCommandLiteralRequestSize s) \<noteq> 0" using assms(2) by (simp only: signed_eq_0_iff not_False_eq_True)
  then show ?thesis using assms(1,3)
    by (auto simp: TryFindLiteralBlockL_def Let_def split: if_splits)
qed

lemma find_block_progress:
  assumes "find_block s = Inr (True, data, s')" "iInputBuffer s \<noteq> []"
  shows "length (iInputBuffer s') < length (iInputBuffer s) + length (iInputCache s)"
  using assms line_progress [of s data s'] literal_progress [of s data s']
  by (auto simp: find_block_def split: if_splits)

text \<open>The current command is given by how it parses a block, how long the literal is that it expects, and
  whether the session pauses after an intermediate response.\<close>

function process_input ::
  "(string8 \<Rightarrow> 'c \<Rightarrow> (parse_state \<times> 'c) leaving) \<Rightarrow> ('c \<Rightarrow> tint) \<Rightarrow> ('c \<Rightarrow> bool) \<Rightarrow> input_state \<Rightarrow> 'c \<Rightarrow>
   process_outcome \<times> input_state \<times> 'c" where
  "process_input parse expected pause s c =
     (if iInputBuffer s = [] then (EReadMore, s, c)
      else case find_block s of
        Inl e \<Rightarrow> (EPanicked e, s, c)
      | Inr (found, data, s') \<Rightarrow>
          if \<not> found then (EReadMore, s', c)
          else case parse data c of
            Inl e \<Rightarrow> (EFailed e, block_delivered s', c)
          | Inr (state, c') \<Rightarrow>
              (let s' = (block_delivered s')\<lparr> iCommandLiteralRequestSize :=
                     (if state = EWaitLiteralParse \<or> state = EWaitLiteralIngore then expected c' else 0) \<rparr>
               in if state = ECommandComplete then (EFinished, s', c')
                  else if state = EWaitStartResponse \<and> pause c' then (EPaused, s', c')
                  else process_input parse expected pause s' c'))"
  by pat_completeness auto
termination
  by (relation "measure (\<lambda>(_, _, _, s, _). length (iInputBuffer s) + length (iInputCache s))")
    (auto simp: block_delivered_def dest!: find_block_progress)

declare process_input.simps [simp del]

text \<open>\<open>ReceivedDataIndL\<close>: a chunk replaces the buffer, which must have been used up.\<close>

definition receive ::
  "(string8 \<Rightarrow> 'c \<Rightarrow> (parse_state \<times> 'c) leaving) \<Rightarrow> ('c \<Rightarrow> tint) \<Rightarrow> ('c \<Rightarrow> bool) \<Rightarrow> string8 \<Rightarrow>
   input_state \<Rightarrow> 'c \<Rightarrow> process_outcome \<times> input_state \<times> 'c" where
  "receive parse expected pause aBuffer s c = process_input parse expected pause (s\<lparr> iInputBuffer := aBuffer \<rparr>) c"

end
