(* ===== verification/Imap_Commands.thy ===== *)
theory Imap_Commands
  imports Imap_Command_Laws Imap_Send
begin

text \<open>
  The command classes that parse responses of their own without an atom tree (imapsession/src):
  CAPABILITY, LOGIN, SELECT and EXAMINE, SEARCH, FETCH FLAGS and STORE, IDLE, the server greeting and
  the wait for a server event. Each extends the command record with its members and gives its
  methods as a \<open>command_class\<close>.
\<close>

section \<open>CAPABILITY\<close>

record capability_command = imap_command +
  iCapabilityInfo :: byte

definition KImapTxtCapability :: string8 where "KImapTxtCapability = ascii ''CAPABILITY''"

definition capability_flag :: "(byte \<Rightarrow> byte) \<Rightarrow> string8 \<Rightarrow> byte" where
  "capability_flag f capability =
     (if compare_f f capability (ascii ''IMAP4rev1'') then 0x1
      else if compare_f f capability (ascii ''IDLE'') then 0x8
      else if compare_f f capability (ascii ''STARTTLS'') then 0x2
      else if compare_f f capability (ascii ''LOGINDISABLED'') then 0x4
      else if compare_f f capability (ascii ''AUTH=PLAIN'') then 0x10
      else 0)"

definition ParseCapabilityDataL ::
  "(byte \<Rightarrow> byte) \<Rightarrow> string8 \<Rightarrow> 'm capability_command_scheme \<Rightarrow> 'm capability_command_scheme" where
  "ParseCapabilityDataL f aCapabilityData c =
     c\<lparr> iCapabilityInfo := foldl (\<lambda>flags capability. set_flag (capability_flag f capability) True flags) 0
          (GetDelimitedPartsL 32 aCapabilityData 0) \<rparr>"

definition Capability_Untagged :: "(byte \<Rightarrow> byte) \<Rightarrow> (parse_block_result, 'm capability_command_ext) imap_method" where
  "Capability_Untagged f = mbind GetNextPart (\<lambda>part.
     if compare_f f part KImapTxtCapability
     then mbind (mapply (\<lambda>c. ParseCapabilityDataL f (imap_command.iUnparsedData c) c)) (\<lambda>_. mreturn ECompleteUntagged)
     else mreturn ENotRecognised)"

definition capability_class :: "(byte \<Rightarrow> byte) \<Rightarrow> 'm capability_command_ext command_class" where
  "capability_class f = (command_ex f)\<lparr> vParseUntaggedResponseL := Capability_Untagged f \<rparr>"

section \<open>LOGIN\<close>

record login_command = capability_command +
  iUserName :: string8
  iPassword :: string8
  iLiteralUsername :: bool
  iLiteralPassword :: bool
  iSentUserNameLength :: bool
  iLoginSent :: "string8 list"

definition needs_literal :: "string8 \<Rightarrow> bool" where
  "needs_literal s \<longleftrightarrow>
     (\<exists>c\<in>set s. c \<le> 32 \<or> 127 \<le> c \<or> c = 34 \<or> c = 37 \<or> c = 40 \<or> c = 41 \<or> c = 42 \<or> c = 92
        \<or> c = 123 \<or> c = 125)"

definition CheckLiteralInUserNameAndPassword :: "'m login_command_scheme \<Rightarrow> 'm login_command_scheme" where
  "CheckLiteralInUserNameAndPassword c =
     c\<lparr> iLiteralUsername := needs_literal (iUserName c), iLiteralPassword := needs_literal (iPassword c) \<rparr>"

definition KCommandLogin :: string8 where "KCommandLogin = ascii ''%d LOGIN %S %S'' @ crlf"
definition KCommandLoginUsernameLength :: string8 where
  "KCommandLoginUsernameLength = ascii ''%d LOGIN {%d}'' @ crlf"
definition KCommandLoginUsernamePasswordLength :: string8 where
  "KCommandLoginUsernamePasswordLength = ascii ''%d LOGIN %S {%d}'' @ crlf"
definition KCommandContinueUsernameLitPassword :: string8 where
  "KCommandContinueUsernameLitPassword = ascii ''%S %S'' @ crlf"
definition KCommandContinueUsernameLitPasswordLength :: string8 where
  "KCommandContinueUsernameLitPasswordLength = ascii ''%S {%d}'' @ crlf"
definition KCommandContinuePasswordLit :: string8 where
  "KCommandContinuePasswordLit = ascii ''%S'' @ crlf"

text \<open>\<open>iLoginSent\<close> collects what was given to the output stream.\<close>

definition login_send :: "string8 leaving \<Rightarrow> (unit, 'm login_command_ext capability_command_ext) imap_method" where
  "login_send r = (case r of Inl e \<Rightarrow> mleave e | Inr s \<Rightarrow> mapply (\<lambda>c. c\<lparr> iLoginSent := iLoginSent c @ [s] \<rparr>))"

definition SendLogin :: "tint \<Rightarrow> (unit, 'm login_command_ext capability_command_ext) imap_method" where
  "SendLogin aTagId =
     mbind (mapply (\<lambda>c. CheckLiteralInUserNameAndPassword (c\<lparr> iTagId := aTagId \<rparr>))) (\<lambda>_.
     mbind (mread id) (\<lambda>c.
       let t = sint aTagId; user = iUserName c; password = iPassword c
       in if \<not> iLiteralUsername c \<and> \<not> iLiteralPassword c then
            login_send (send_format (length KCommandLogin + TagLength t + length user + length password)
              KCommandLogin [ArgD t, ArgS user, ArgS password])
          else if iLiteralUsername c then
            mbind (login_send (send_format
                (length KCommandLoginUsernameLength + TagLength t + TagLength (int (length user)))
                KCommandLoginUsernameLength [ArgD t, ArgD (int (length user))]))
              (\<lambda>_. mapply (\<lambda>c. c\<lparr> iSentUserNameLength := True \<rparr>))
          else
            login_send (send_format (length KCommandLoginUsernamePasswordLength + TagLength t + length user
                + TagLength (int (length password)))
              KCommandLoginUsernamePasswordLength [ArgD t, ArgS user, ArgD (int (length password))])))"

definition Login_Continuation :: "(unit, 'm login_command_ext capability_command_ext) imap_method" where
  "Login_Continuation = mbind (mread id) (\<lambda>c.
     let user = iUserName c; password = iPassword c in
     if iLiteralUsername c \<and> \<not> iLiteralPassword c then
       login_send (send_format (length KCommandContinueUsernameLitPassword + length user + length password)
         KCommandContinueUsernameLitPassword [ArgS user, ArgS password])
     else if iSentUserNameLength c \<and> iLiteralPassword c then
       mbind (login_send (send_format (length KCommandContinueUsernameLitPasswordLength + length user
           + TagLength (int (length password)))
         KCommandContinueUsernameLitPasswordLength [ArgS user, ArgD (int (length password))]))
         (\<lambda>_. mapply (\<lambda>c. c\<lparr> iSentUserNameLength := False \<rparr>))
     else
       login_send (send_format (length KCommandContinuePasswordLit + length password)
         KCommandContinuePasswordLit [ArgS password]))"

definition Login_Tagged :: "(byte \<Rightarrow> byte) \<Rightarrow> tint \<Rightarrow> (bool, 'm login_command_ext capability_command_ext) imap_method" where
  "Login_Tagged f aTagId =
     mbind (BaseParseTaggedResponseL f aTagId) (\<lambda>_.
     mbind GetResponseTextCodeL (\<lambda>responseTextCode.
       if responseTextCode = [] then mreturn True
       else mbind (set_unparsed responseTextCode) (\<lambda>_. mbind GetNextPart (\<lambda>part.
              if compare_f f part KImapTxtCapability
              then mbind (mapply (\<lambda>c. ParseCapabilityDataL f (imap_command.iUnparsedData c) c)) (\<lambda>_. mreturn True)
              else mreturn True))))"

definition login_class :: "(byte \<Rightarrow> byte) \<Rightarrow> 'm login_command_ext capability_command_ext command_class" where
  "login_class f = (capability_class f)
     \<lparr> vParseTaggedResponseL := Login_Tagged f, vParseContinuationResponseL := Login_Continuation \<rparr>"

section \<open>SELECT and EXAMINE\<close>

definition KImapTxtFlags :: string8 where "KImapTxtFlags = ascii ''FLAGS''"
definition KImapTxtUidNext :: string8 where "KImapTxtUidNext = ascii ''UIDNEXT''"
definition KImapTxtUnseen :: string8 where "KImapTxtUnseen = ascii ''UNSEEN''"
definition KImapTxtUidValidity :: string8 where "KImapTxtUidValidity = ascii ''UIDVALIDITY''"

text \<open>The constructors; an examined mailbox is read only unless the server says otherwise.\<close>

definition select_new :: "bool \<Rightarrow> folder_info \<Rightarrow> imap_command" where
  "select_new read_write aSelectedFolderData =
     command_new (Some (aSelectedFolderData\<lparr> iMailboxWritable := read_write \<rparr>))"

definition Select_Tagged :: "(byte \<Rightarrow> byte) \<Rightarrow> tint \<Rightarrow> (bool, 'm) imap_method" where
  "Select_Tagged f aTagId =
     mbind (BaseParseTaggedResponseL f aTagId) (\<lambda>_. mbind (mread iResponseCode) (\<lambda>code.
       if code = EImapResponseNone then CorruptDataL
       else if code = EImapResponseOk then
         mbind GetResponseTextCodeL (\<lambda>responseTextCode.
           if compare_f f responseTextCode (ascii ''READ-WRITE'')
             then mbind (mapply (on_folder (\<lambda>x. x\<lparr> iMailboxWritable := True \<rparr>))) (\<lambda>_. mreturn True)
           else if compare_f f responseTextCode (ascii ''READ-ONLY'')
             then mbind (mapply (on_folder (\<lambda>x. x\<lparr> iMailboxWritable := False \<rparr>))) (\<lambda>_. mreturn True)
           else mreturn True)
       else mreturn True))"

definition select_number :: "tint leaving \<Rightarrow> (tint \<Rightarrow> folder_info \<Rightarrow> folder_info) \<Rightarrow> (unit, 'm) imap_method" where
  "select_number r g = (case r of Inl _ \<Rightarrow> CorruptDataL | Inr n \<Rightarrow> mapply (on_folder (g n)))"

definition ParseUntaggedOkL :: "(unit, 'm) imap_method" where
  "ParseUntaggedOkL = mbind GetResponseTextCodeL (\<lambda>responseTextCode.
     if 1 < length responseTextCode then
       (case locate8 32 responseTextCode of
          None \<Rightarrow> mreturn ()
        | Some offset \<Rightarrow>
            if offset = 0 then mreturn ()
            else
              (let textCode = take offset responseTextCode;
                   number = drop (offset + 1) responseTextCode
               in if textCode = KImapTxtUidNext
                    then select_number (lex_int number) (\<lambda>n x. x\<lparr> iUidNext := n \<rparr>)
                  else if textCode = KImapTxtUnseen
                    then select_number (lex_int number) (\<lambda>n x. x\<lparr> iUnseen := n \<rparr>)
                  else if textCode = KImapTxtUidValidity
                    then select_number (lex_uint number) (\<lambda>n x. x\<lparr> iUidValidity := n \<rparr>)
                  else mreturn ()))
     else CorruptDataL)"

definition mailbox_flag :: "(byte \<Rightarrow> byte) \<Rightarrow> string8 \<Rightarrow> byte" where
  "mailbox_flag f flag =
     (if compare_f f flag (ascii (CHR 0x5C # ''Deleted'')) then 0x8
      else if compare_f f flag (ascii (CHR 0x5C # ''Seen'')) then 0x1
      else if compare_f f flag (ascii (CHR 0x5C # ''Flagged'')) then 0x4
      else if compare_f f flag (ascii (CHR 0x5C # ''Answered'')) then 0x2
      else if compare_f f flag (ascii (CHR 0x5C # ''Draft'')) then 0x10
      else 0)"

definition ParseFlagsL :: "(byte \<Rightarrow> byte) \<Rightarrow> string8 \<Rightarrow> (unit, 'm) imap_method" where
  "ParseFlagsL f aFlags =
     (case locate8 40 aFlags of
        None \<Rightarrow> CorruptDataL
      | Some start \<Rightarrow>
          (case locate8 41 aFlags of
             None \<Rightarrow> CorruptDataL
           | Some end \<Rightarrow>
               if end < start then CorruptDataL
               else mapply (on_folder (\<lambda>x. x\<lparr> iFolderFlags :=
                      foldl (\<lambda>flags flag. set_flag (mailbox_flag f flag) True flags) (iFolderFlags x)
                        (GetDelimitedPartsL 32 (take (end - start - 1) (drop (start + 1) aFlags)) 0) \<rparr>))))"

definition Select_Untagged :: "(byte \<Rightarrow> byte) \<Rightarrow> (parse_block_result, 'm) imap_method" where
  "Select_Untagged f = mbind (GetResponseStateCode f) (\<lambda>code.
     if code = EImapResponseOk then mbind ParseUntaggedOkL (\<lambda>_. mreturn ECompleteUntagged)
     else if code = EImapResponseNone then
       mbind GetNextPart (\<lambda>part.
         if compare_f f part KImapTxtFlags
         then mbind (mread imap_command.iUnparsedData) (\<lambda>u.
                mbind (ParseFlagsL f u) (\<lambda>_. mreturn ECompleteUntagged))
         else mreturn ENotRecognised)
     else mreturn ENotRecognised)"

definition select_class :: "(byte \<Rightarrow> byte) \<Rightarrow> 'm command_class" where
  "select_class f = (command_ex f)
     \<lparr> vParseTaggedResponseL := Select_Tagged f, vParseUntaggedResponseL := Select_Untagged f \<rparr>"

section \<open>SEARCH\<close>

record search_command = imap_command +
  iMatchingMessageIds :: "tint list"

definition KImapTxtSearch :: string8 where "KImapTxtSearch = ascii ''SEARCH''"

fun search_loop :: "string8 list \<Rightarrow> tint list \<Rightarrow> tint list leaving" where
  "search_loop [] ids = Inr ids"
| "search_loop (x # xs) ids =
     (case lex_uint x of Inl _ \<Rightarrow> Inl KErrImapCorrupt | Inr n \<Rightarrow> search_loop xs (ids @ [n]))"

definition ParseSearchResponseL :: "(unit, 'm search_command_ext) imap_method" where
  "ParseSearchResponseL = mbind (mread id) (\<lambda>c.
     case search_loop (GetDelimitedPartsL 32 (imap_command.iUnparsedData c) 0) (iMatchingMessageIds c) of
       Inl e \<Rightarrow> mleave e
     | Inr ids \<Rightarrow> mapply (\<lambda>c. c\<lparr> iMatchingMessageIds := ids \<rparr>))"

definition Search_Untagged :: "(byte \<Rightarrow> byte) \<Rightarrow> (parse_block_result, 'm search_command_ext) imap_method" where
  "Search_Untagged f = mbind GetNextPart (\<lambda>part.
     if compare_f f part KImapTxtSearch
     then mbind ParseSearchResponseL (\<lambda>_. mreturn ECompleteUntagged)
     else mreturn ENotRecognised)"

definition search_class :: "(byte \<Rightarrow> byte) \<Rightarrow> 'm search_command_ext command_class" where
  "search_class f = (command_ex f)\<lparr> vParseUntaggedResponseL := Search_Untagged f \<rparr>"

section \<open>FETCH FLAGS and STORE\<close>

record message_flag_info =
  iMessageUid :: tint
  iMessageFlags :: byte

record fetch_flags_command = imap_command +
  iOutMessageFlagInfo :: "message_flag_info list"

definition KImapTxtUid :: string8 where "KImapTxtUid = ascii ''UID''"

definition message_flag :: "(byte \<Rightarrow> byte) \<Rightarrow> string8 \<Rightarrow> byte" where
  "message_flag f flag =
     (if compare_f f flag (ascii (CHR 0x5C # ''Deleted'')) then 0x8
      else if compare_f f flag (ascii (CHR 0x5C # ''Seen'')) then 0x1
      else if compare_f f flag (ascii (CHR 0x5C # ''Flagged'')) then 0x4
      else if compare_f f flag (ascii (CHR 0x5C # ''Answered'')) then 0x2
      else if compare_f f flag (ascii (CHR 0x5C # ''Draft'')) then 0x10
      else if compare_f f flag (ascii (CHR 0x5C # ''Recent'')) then 0x20
      else 0)"

text \<open>The flags of a message, and what follows the closing bracket and one space.\<close>

definition message_flags :: "(byte \<Rightarrow> byte) \<Rightarrow> string8 \<Rightarrow> byte \<times> string8" where
  "message_flags f aFlagsData =
     (case (locate8 40 aFlagsData, locate8 41 aFlagsData) of
        (Some start, Some end) \<Rightarrow>
          if start < end then
            (foldl (\<lambda>flags flag. set_flag (message_flag f flag) True flags) 0
               (GetDelimitedPartsL 32 (take (end - start - 1) (drop (start + 1) aFlagsData)) 0),
             skip_space (drop (end + 1) aFlagsData))
          else (0, aFlagsData)
      | _ \<Rightarrow> (0, aFlagsData))"

text \<open>The loop over the data items. It runs out of fuel only when a quote folds to a letter.\<close>

fun fetch_items ::
  "nat \<Rightarrow> (byte \<Rightarrow> byte) \<Rightarrow> string8 \<Rightarrow> message_flag_info \<Rightarrow> bool \<Rightarrow> bool \<Rightarrow>
   (string8 \<times> message_flag_info \<times> bool \<times> bool) leaving" where
  "fetch_items 0 f u entry foundFlags foundUid = Inl KErrGeneral"
| "fetch_items (Suc k) f u entry foundFlags foundUid =
     (if foundFlags \<and> foundUid then Inr (u, entry, foundFlags, foundUid)
      else case next_part u of
        (dataItem, u) \<Rightarrow>
          if compare_f f dataItem KImapTxtFlags then
            (case message_flags f u of
               (flags, u) \<Rightarrow> fetch_items k f u (entry\<lparr> iMessageFlags := flags \<rparr>) True foundUid)
          else if compare_f f dataItem KImapTxtUid then
            (case next_part u of
               (uidString, u) \<Rightarrow>
                 (case lex_uint uidString of
                    Inl _ \<Rightarrow> Inl KErrImapCorrupt
                  | Inr n \<Rightarrow> fetch_items k f u (entry\<lparr> iMessageUid := n \<rparr>) foundFlags True))
          else if dataItem = [] then Inr (u, entry, foundFlags, foundUid)
          else Inl KErrImapCorrupt)"

definition ProcessFetchFlagsResponseL :: "(byte \<Rightarrow> byte) \<Rightarrow> (unit, 'm fetch_flags_command_ext) imap_method" where
  "ProcessFetchFlagsResponseL f = mbind (mread imap_command.iUnparsedData) (\<lambda>u.
     if length u < 2 \<or> hd u \<noteq> 40 \<or> last u \<noteq> 41 then CorruptDataL
     else
       (case fetch_items (length u + 2) f (take (length u - 2) (drop 1 u))
               \<lparr> iMessageUid = 0, iMessageFlags = 0 \<rparr> False False of
          Inl e \<Rightarrow> mleave e
        | Inr (u, entry, foundFlags, foundUid) \<Rightarrow>
            mbind (set_unparsed u) (\<lambda>_.
              if foundFlags \<and> foundUid
                then mapply (\<lambda>c. c\<lparr> iOutMessageFlagInfo := iOutMessageFlagInfo c @ [entry] \<rparr>)
              else if foundFlags then mapply SetMessageFlagsChanged
              else CorruptDataL)))"

definition FetchFlags_Untagged ::
  "(byte \<Rightarrow> byte) \<Rightarrow> (parse_block_result, 'm fetch_flags_command_ext) imap_method" where
  "FetchFlags_Untagged f = mbind GetNextPart (\<lambda>part1. mbind GetNextPart (\<lambda>part2.
     case lex_int part1 of
       Inl _ \<Rightarrow> mreturn ENotRecognised
     | Inr _ \<Rightarrow>
         if compare_f f part2 KImapTxtFetch
         then mbind (ProcessFetchFlagsResponseL f) (\<lambda>_. mreturn ECompleteUntagged)
         else mreturn ENotRecognised))"

definition fetch_flags_class :: "(byte \<Rightarrow> byte) \<Rightarrow> 'm fetch_flags_command_ext command_class" where
  "fetch_flags_class f = (command_ex f)\<lparr> vParseUntaggedResponseL := FetchFlags_Untagged f \<rparr>"

section \<open>The server greeting, server events and IDLE\<close>

datatype greeting_tag = ETagNone | ETagOk | ETagPreAuth | ETagBye

record greeting_command = imap_command +
  iServerGreetingTag :: greeting_tag

definition greeting_new :: "folder_info option \<Rightarrow> greeting_command" where
  "greeting_new folder = imap_command.extend ((command_new folder)\<lparr> iCompleteOnAnyResponse := True \<rparr>)
     \<lparr> iServerGreetingTag = ETagNone \<rparr>"

definition Greeting_Untagged :: "(byte \<Rightarrow> byte) \<Rightarrow> (parse_block_result, 'm greeting_command_ext) imap_method" where
  "Greeting_Untagged f = mbind GetNextPart (\<lambda>part.
     if compare_f f part KImapTxtOk
       then mbind (mapply (\<lambda>c. c\<lparr> iServerGreetingTag := ETagOk \<rparr>)) (\<lambda>_. mreturn ECompleteUntagged)
     else if compare_f f part (ascii ''PREAUTH'')
       then mbind (mapply (\<lambda>c. c\<lparr> iServerGreetingTag := ETagPreAuth \<rparr>)) (\<lambda>_. mreturn ECompleteUntagged)
     else if compare_f f part (ascii ''BYE'')
       then mbind (mapply (\<lambda>c. c\<lparr> iServerGreetingTag := ETagBye \<rparr>)) (\<lambda>_. mreturn ECompleteUntagged)
     else CorruptDataL)"

definition greeting_class :: "(byte \<Rightarrow> byte) \<Rightarrow> 'm greeting_command_ext command_class" where
  "greeting_class f = (command_ex f)\<lparr> vParseUntaggedResponseL := Greeting_Untagged f \<rparr>"

definition event_wait_new :: "folder_info option \<Rightarrow> imap_command" where
  "event_wait_new folder = (command_new folder)\<lparr> iCompleteOnAnyResponse := True \<rparr>"

definition event_wait_class :: "(byte \<Rightarrow> byte) \<Rightarrow> 'm command_class" where
  "event_wait_class f = (command_ex f)\<lparr> vParseTaggedResponseL := (\<lambda>_. CorruptDataL) \<rparr>"

definition event_wait_can_complete :: "'m imap_command_scheme \<Rightarrow> bool" where
  "event_wait_can_complete c \<longleftrightarrow> iParseState c = EWaitStartResponse"

datatype idle_state = EIdleWaitContinue | EIdleWaitResponse | EIdleWaitDone

record idle_command = imap_command +
  iIdleState :: idle_state

definition Idle_Continuation :: "(unit, 'm idle_command_ext) imap_method" where
  "Idle_Continuation = mbind (mread iIdleState) (\<lambda>s.
     if s = EIdleWaitContinue then mapply (\<lambda>c. c\<lparr> iIdleState := EIdleWaitResponse \<rparr>)
     else CorruptDataL)"

definition idle_class :: "(byte \<Rightarrow> byte) \<Rightarrow> 'm idle_command_ext command_class" where
  "idle_class f = (command_ex f)\<lparr> vParseContinuationResponseL := Idle_Continuation \<rparr>"

definition idle_cancel :: "'m idle_command_scheme \<Rightarrow> 'm idle_command_scheme" where
  "idle_cancel c = (if iIdleState c \<noteq> EIdleWaitResponse then EnterFlushingState 1 c else c)"

definition SendDone :: "'m idle_command_scheme \<Rightarrow> string8 \<times> 'm idle_command_scheme" where
  "SendDone c = (ascii ''DONE'' @ crlf, c\<lparr> iIdleState := EIdleWaitDone \<rparr>)"

end
