(* ===== verification/Imap_Server.thy ===== *)
theory Imap_Server
  imports Imap_Frames Imap_Commands
begin

text \<open>
  The state machine of \<open>CImapSession\<close> (imapsession/src/cimapsession.cpp): starting a command, reading the
  server's data, completing the command, cancelling and flushing it, idling, and the closing of the
  streams. The current command is used through its virtual methods, given as a record of operations.
  What a command shares with the session by reference (the selected folder, the greeting, the
  capabilities) is handed to it before a block is parsed and taken back afterwards. The input stream,
  the asynchronous callback and the flush timer are flags that say whether they are running; the
  codes that complete requests and the texts that are sent are collected.
\<close>

section \<open>The state\<close>

datatype server_state =
    EServerStateNone | EServerStateNotAuthenticated | EServerStateAuthenticated | EServerStateSelected

datatype session_state = ESessionNormal | ESessionFlushing | ESessionUnrecoverable

datatype pending_operation =
    EOpNone | EOpServerGreeting | EOpSelect | EOpLogin | EOpLogout | EOpClose
  | EOpIdleEnter | EOpIdleWait | EOpIdleDone

record shared_data =
  shFolder :: "folder_info option"
  shGreeting :: greeting_tag
  shCapability :: byte

record 'c command_ops =
  opSendMessageL :: "tint \<Rightarrow> 'c \<Rightarrow> (string8 list \<times> 'c) leaving"
  opParseBlockL :: "string8 \<Rightarrow> 'c \<Rightarrow> (parse_state \<times> 'c) leaving"
  opLiteralBytesExpected :: "'c \<Rightarrow> tint"
  opResponseCode :: "'c \<Rightarrow> response_code"
  opCancel :: "'c \<Rightarrow> 'c"
  opFlushing :: "'c \<Rightarrow> bool"
  opCanCompleteFlushNow :: "'c \<Rightarrow> bool"
  opGetTagId :: "'c \<Rightarrow> tint"
  opIdleWaitResponse :: "'c \<Rightarrow> bool"
  opSendDone :: "'c \<Rightarrow> string8 \<times> 'c"
  opStore :: "shared_data \<Rightarrow> 'c \<Rightarrow> 'c"
  opLoad :: "'c \<Rightarrow> shared_data \<Rightarrow> shared_data"

record 'c imap_session =
  iInput :: input_state
  iServerState :: server_state
  iPendingOperation :: pending_operation
  iSessionState :: session_state
  iShared :: shared_data
  iCurrentCommand :: "'c option"
  iNextTagId :: tint
  iStreamsOpen :: bool
  iReport :: bool
  iCompleted :: "symbian_error list"
  iReading :: bool
  iAsyncCallBack :: bool
  iFlushTimer :: bool
  iSent :: "string8 list"

definition session_new :: "'c imap_session" where
  "session_new =
     \<lparr> iInput = \<lparr> iInputBuffer = [], iInputCache = [], iCommandLiteralRequestSize = 0 \<rparr>,
       iServerState = EServerStateNone, iPendingOperation = EOpNone, iSessionState = ESessionNormal,
       iShared = \<lparr> shFolder = None, shGreeting = ETagNone, shCapability = 0 \<rparr>,
       iCurrentCommand = None, iNextTagId = 0, iStreamsOpen = True, iReport = False, iCompleted = [],
       iReading = False, iAsyncCallBack = False, iFlushTimer = False, iSent = [] \<rparr>"

definition SelectedFolderInfo :: "'c imap_session \<Rightarrow> folder_info option" where
  "SelectedFolderInfo s = shFolder (iShared s)"

definition set_folder :: "folder_info option \<Rightarrow> 'c imap_session \<Rightarrow> 'c imap_session" where
  "set_folder folder s = s\<lparr> iShared := (iShared s)\<lparr> shFolder := folder \<rparr> \<rparr>"

definition SetSessionState :: "session_state \<Rightarrow> 'c imap_session \<Rightarrow> 'c imap_session" where
  "SetSessionState x s = s\<lparr> iSessionState := x \<rparr>"

definition SetPendingOperation :: "pending_operation \<Rightarrow> 'c imap_session \<Rightarrow> 'c imap_session" where
  "SetPendingOperation x s = s\<lparr> iPendingOperation := x \<rparr>"

definition SetServerState :: "server_state \<Rightarrow> 'c imap_session \<Rightarrow> 'c imap_session" where
  "SetServerState x s = s\<lparr> iServerState := x \<rparr>"

section \<open>Requests\<close>

definition Queue :: "'c imap_session \<Rightarrow> 'c imap_session" where
  "Queue s = s\<lparr> iReport := True \<rparr>"

definition Complete :: "symbian_error \<Rightarrow> 'c imap_session \<Rightarrow> 'c imap_session" where
  "Complete aStatus s =
     (if iReport s then s\<lparr> iReport := False, iCompleted := iCompleted s @ [aStatus] \<rparr> else s)"

definition CompleteIfStreamsClosed :: "'c imap_session \<Rightarrow> bool \<times> 'c imap_session" where
  "CompleteIfStreamsClosed s =
     (if iStreamsOpen s then (False, s) else (True, Complete KErrImapClosed (Queue s)))"

definition ProcessInputBufferAsync :: "'c imap_session \<Rightarrow> 'c imap_session" where
  "ProcessInputBufferAsync s = s\<lparr> iAsyncCallBack := True \<rparr>"

definition RequestReadData :: "'c imap_session \<Rightarrow> 'c imap_session" where
  "RequestReadData s =
     (if iStreamsOpen s then
        (let s = (if iPendingOperation s = EOpIdleDone then SetPendingOperation EOpNone s else s);
             s = s\<lparr> iReading := True \<rparr>
         in if iSessionState s = ESessionFlushing then s\<lparr> iFlushTimer := True \<rparr> else s)
      else s)"

text \<open>Data that is left over is processed first.\<close>

definition continue_reading :: "'c imap_session \<Rightarrow> 'c imap_session" where
  "continue_reading s =
     (if iInputBuffer (iInput s) \<noteq> [] then ProcessInputBufferAsync s else RequestReadData s)"

text \<open>\<open>StartCommandL\<close> gives the error it leaves with, if any.\<close>

definition StartCommandL ::
  "'c command_ops \<Rightarrow> 'c \<Rightarrow> 'c imap_session \<Rightarrow> symbian_error option \<times> 'c imap_session" where
  "StartCommandL ops aCommand s =
     (let s = s\<lparr> iCurrentCommand := Some aCommand, iNextTagId := iNextTagId s + 1 \<rparr> in
      case opSendMessageL ops (iNextTagId s) aCommand of
        Inl e \<Rightarrow> (Some e, s)
      | Inr (sent, c) \<Rightarrow>
          (None, Queue (continue_reading (s\<lparr> iCurrentCommand := Some c, iSent := iSent s @ sent \<rparr>))))"

section \<open>Completion\<close>

definition DoPendingOperationForOk :: "'c imap_session \<Rightarrow> 'c imap_session" where
  "DoPendingOperationForOk s =
     (case iPendingOperation s of
        EOpServerGreeting \<Rightarrow>
          if shGreeting (iShared s) = ETagOk then SetServerState EServerStateNotAuthenticated s
          else if shGreeting (iShared s) = ETagPreAuth then SetServerState EServerStateAuthenticated s
          else s
      | EOpSelect \<Rightarrow> SetServerState EServerStateSelected s
      | EOpClose \<Rightarrow> set_folder None (SetServerState EServerStateAuthenticated s)
      | EOpLogin \<Rightarrow> SetServerState EServerStateAuthenticated s
      | EOpLogout \<Rightarrow> set_folder None (SetServerState EServerStateNone s)
      | _ \<Rightarrow> s)"

definition DoPendingOperationForFail :: "'c imap_session \<Rightarrow> 'c imap_session" where
  "DoPendingOperationForFail s =
     (if iPendingOperation s = EOpSelect then set_folder None (SetServerState EServerStateAuthenticated s) else s)"

definition DoPendingOperationForCancel :: "'c imap_session \<Rightarrow> 'c imap_session" where
  "DoPendingOperationForCancel s =
     (case iPendingOperation s of
        EOpSelect \<Rightarrow> set_folder None (SetServerState EServerStateAuthenticated s)
      | EOpClose \<Rightarrow> set_folder None (SetServerState EServerStateAuthenticated s)
      | EOpLogout \<Rightarrow> set_folder None (SetServerState EServerStateNone s)
      | _ \<Rightarrow> s)"

definition DoCancel :: "'c command_ops \<Rightarrow> 'c imap_session \<Rightarrow> 'c imap_session" where
  "DoCancel ops s =
     (let s = s\<lparr> iReading := False, iAsyncCallBack := False, iFlushTimer := False \<rparr> in
      case iCurrentCommand s of
        None \<Rightarrow> s
      | Some c \<Rightarrow>
          if iSessionState s = ESessionNormal then
            (let c = opCancel ops c;
                 s = DoPendingOperationForCancel (s\<lparr> iCurrentCommand := Some c \<rparr>)
             in if opFlushing ops c then SetSessionState ESessionFlushing s else s)
          else s)"

definition destroy_command :: "'c command_ops \<Rightarrow> symbian_error \<Rightarrow> 'c imap_session \<Rightarrow> 'c imap_session" where
  "destroy_command ops aCompletionCode s =
     (let s = Complete aCompletionCode s;
          s = (case iCurrentCommand s of None \<Rightarrow> s | Some c \<Rightarrow> s\<lparr> iNextTagId := opGetTagId ops c \<rparr>)
      in SetPendingOperation EOpNone (s\<lparr> iCurrentCommand := None \<rparr>))"

text \<open>The transport tells the session that the streams are closed (\<open>InputStreamCloseInd\<close> and
  \<open>OutputStreamCloseInd\<close> do the same); it does so as well when the session closes them itself.\<close>

definition StreamCloseInd :: "'c command_ops \<Rightarrow> 'c imap_session \<Rightarrow> 'c imap_session" where
  "StreamCloseInd ops s = DoCancel ops (destroy_command ops KErrImapClosed (s\<lparr> iStreamsOpen := False \<rparr>))"

definition CompleteAndDestroyCommand ::
  "'c command_ops \<Rightarrow> symbian_error \<Rightarrow> bool \<Rightarrow> 'c imap_session \<Rightarrow> 'c imap_session" where
  "CompleteAndDestroyCommand ops aCompletionCode aCloseStreams s =
     (if aCloseStreams \<and> iStreamsOpen s
      then destroy_command ops aCompletionCode (StreamCloseInd ops (Complete aCompletionCode s))
      else destroy_command ops aCompletionCode s)"

definition CommandComplete :: "'c command_ops \<Rightarrow> response_code \<Rightarrow> 'c imap_session \<Rightarrow> 'c imap_session" where
  "CommandComplete ops code s =
     (case code of
        EImapResponseOk \<Rightarrow>
          if iSessionState s = ESessionNormal
          then CompleteAndDestroyCommand ops KErrNone False (DoPendingOperationForOk s)
          else SetSessionState ESessionNormal (CompleteAndDestroyCommand ops KErrNone False s)
      | EImapResponseNo \<Rightarrow>
          SetSessionState ESessionNormal (CompleteAndDestroyCommand ops KErrImapNo False (DoPendingOperationForFail s))
      | EImapResponseBad \<Rightarrow>
          SetSessionState ESessionNormal (CompleteAndDestroyCommand ops KErrImapBad False (DoPendingOperationForFail s))
      | EImapResponseNone \<Rightarrow> s)"

definition unrecoverable :: "'c command_ops \<Rightarrow> symbian_error \<Rightarrow> 'c imap_session \<Rightarrow> 'c imap_session" where
  "unrecoverable ops e s = SetSessionState ESessionUnrecoverable (CompleteAndDestroyCommand ops e True s)"

section \<open>Input\<close>

definition parse_shared ::
  "'c command_ops \<Rightarrow> string8 \<Rightarrow> shared_data \<times> 'c \<Rightarrow> (parse_state \<times> shared_data \<times> 'c) leaving" where
  "parse_shared ops data = (\<lambda>(sh, c).
     bind_l (opParseBlockL ops data (opStore ops sh c)) (\<lambda>(st, c). Inr (st, opLoad ops c sh, c)))"

definition pauses :: "'c command_ops \<Rightarrow> pending_operation \<Rightarrow> shared_data \<times> 'c \<Rightarrow> bool" where
  "pauses ops pending = (\<lambda>(_, c). (pending = EOpIdleEnter \<or> pending = EOpIdleWait) \<and> opIdleWaitResponse ops c)"

text \<open>\<open>ProcessInputBufferL\<close>; it needs a command.\<close>

definition ProcessInputBufferL :: "'c command_ops \<Rightarrow> 'c imap_session \<Rightarrow> 'c imap_session leaving" where
  "ProcessInputBufferL ops s =
     (case iCurrentCommand s of
        None \<Rightarrow> Inl KPanicIndex
      | Some c \<Rightarrow>
          (case process_input (parse_shared ops) (\<lambda>(_, c). opLiteralBytesExpected ops c)
                  (pauses ops (iPendingOperation s)) (iInput s) (iShared s, c) of
             (outcome, i, sh, c) \<Rightarrow>
               (let s = s\<lparr> iInput := i, iShared := sh, iCurrentCommand := Some c \<rparr> in
                case outcome of
                  EPanicked e \<Rightarrow> Inl e
                | EFailed e \<Rightarrow> Inr (unrecoverable ops e s)
                | EFinished \<Rightarrow> Inr (CommandComplete ops (opResponseCode ops c) s)
                | EPaused \<Rightarrow> Inr (Complete KErrNone s)
                | EReadMore \<Rightarrow> Inr (RequestReadData s))))"

definition ReceivedDataIndL :: "'c command_ops \<Rightarrow> string8 \<Rightarrow> 'c imap_session \<Rightarrow> 'c imap_session leaving" where
  "ReceivedDataIndL ops aBuffer s =
     ProcessInputBufferL ops
       (s\<lparr> iReading := False, iInput := (iInput s)\<lparr> iInputBuffer := aBuffer \<rparr>, iFlushTimer := False \<rparr>)"

definition AsyncCallBack :: "'c command_ops \<Rightarrow> 'c imap_session \<Rightarrow> 'c imap_session leaving" where
  "AsyncCallBack ops s = ProcessInputBufferL ops (s\<lparr> iAsyncCallBack := False \<rparr>)"

section \<open>Cancelling\<close>

definition CancelSession :: "'c command_ops \<Rightarrow> 'c imap_session \<Rightarrow> 'c imap_session" where
  "CancelSession ops s = Complete KErrCancel (DoCancel ops s)"

definition FlushCancelledCommand :: "'c command_ops \<Rightarrow> 'c imap_session \<Rightarrow> 'c imap_session" where
  "FlushCancelledCommand ops s =
     (case CompleteIfStreamsClosed s of
        (True, s) \<Rightarrow> s
      | (False, s) \<Rightarrow>
          (let s = Queue s in
           case iCurrentCommand s of
             None \<Rightarrow> Complete KErrNone s
           | Some c \<Rightarrow>
               if opCanCompleteFlushNow ops c
               then SetSessionState ESessionNormal (CompleteAndDestroyCommand ops KErrNone False s)
               else continue_reading s))"

definition FlushTimeout :: "'c command_ops \<Rightarrow> 'c imap_session \<Rightarrow> 'c imap_session" where
  "FlushTimeout ops s = Complete KErrImapFlushTimeout (DoCancel ops (s\<lparr> iFlushTimer := False \<rparr>))"

definition AsyncSendFailed :: "'c command_ops \<Rightarrow> symbian_error \<Rightarrow> 'c imap_session \<Rightarrow> 'c imap_session" where
  "AsyncSendFailed = unrecoverable"

section \<open>Starting commands\<close>

text \<open>The methods that start a command differ in the command and in the pending operation; those of
  \<open>CImapSession::EnterIdleL\<close> set it after the command has been started.\<close>

definition start_with ::
  "'c command_ops \<Rightarrow> pending_operation \<Rightarrow> 'c \<Rightarrow> 'c imap_session \<Rightarrow> symbian_error option \<times> 'c imap_session" where
  "start_with ops operation aCommand s =
     (case CompleteIfStreamsClosed s of
        (True, s) \<Rightarrow> (None, s)
      | (False, s) \<Rightarrow>
          StartCommandL ops aCommand (if operation = EOpNone then s else SetPendingOperation operation s))"

definition EnterIdleL :: "'c command_ops \<Rightarrow> 'c \<Rightarrow> 'c imap_session \<Rightarrow> symbian_error option \<times> 'c imap_session" where
  "EnterIdleL ops aCommand s =
     (case CompleteIfStreamsClosed s of
        (True, s) \<Rightarrow> (None, s)
      | (False, s) \<Rightarrow>
          (case StartCommandL ops aCommand s of
             (Some e, s) \<Rightarrow> (Some e, s)
           | (None, s) \<Rightarrow> (None, SetPendingOperation EOpIdleEnter s)))"

text \<open>\<open>SelectL\<close> and \<open>ExamineL\<close>: the folder becomes the selected one once the command has been started.
  \<open>same_folder\<close> says that \<open>SelectL\<close> was asked for the folder that is selected already.\<close>

definition SelectL ::
  "'c command_ops \<Rightarrow> bool \<Rightarrow> folder_info \<Rightarrow> 'c \<Rightarrow> 'c imap_session \<Rightarrow> symbian_error option \<times> 'c imap_session" where
  "SelectL ops same_folder aFolderInfo aCommand s =
     (case CompleteIfStreamsClosed s of
        (True, s) \<Rightarrow> (None, set_folder None s)
      | (False, s) \<Rightarrow>
          if same_folder \<and> SelectedFolderInfo s \<noteq> None then (None, Complete KErrNone (Queue s))
          else
            (case StartCommandL ops aCommand (SetPendingOperation EOpSelect s) of
               (Some e, s) \<Rightarrow> (Some e, s)
             | (None, s) \<Rightarrow> (None, set_folder (Some aFolderInfo) s)))"

definition WaitForIdleEvent :: "'c imap_session \<Rightarrow> 'c imap_session" where
  "WaitForIdleEvent s =
     (case CompleteIfStreamsClosed s of
        (True, s) \<Rightarrow> s
      | (False, s) \<Rightarrow> ProcessInputBufferAsync (Queue (SetPendingOperation EOpIdleWait s)))"

definition DoneIdle :: "'c command_ops \<Rightarrow> 'c imap_session \<Rightarrow> 'c imap_session" where
  "DoneIdle ops s =
     (case CompleteIfStreamsClosed s of
        (True, s) \<Rightarrow> s
      | (False, s) \<Rightarrow>
          (let s = SetSessionState ESessionNormal (SetPendingOperation EOpIdleDone s);
               s = (case iCurrentCommand s of
                      None \<Rightarrow> s
                    | Some c \<Rightarrow> (case opSendDone ops c of
                        (text8, c) \<Rightarrow> s\<lparr> iCurrentCommand := Some c, iSent := iSent s @ [text8] \<rparr>))
           in ProcessInputBufferAsync (Queue s)))"

end
