(* ===== verification/Imap_Server_Laws.thy ===== *)
theory Imap_Server_Laws
  imports Imap_Server
begin

text \<open>
  What a session can do over its whole life: the calls of its client, under the conditions the code
  asserts, and the events of its streams, its callback and its timer, in any order. In every state
  reached a queued request has something that will complete it, the session and its command agree
  on whether they are flushing, and a folder is selected only when the server state says so.
\<close>

section \<open>Steps\<close>

definition may_start :: "'c imap_session \<Rightarrow> bool" where
  "may_start s \<longleftrightarrow> iPendingOperation s = EOpNone \<and>
     (iStreamsOpen s \<longrightarrow> iCurrentCommand s = None \<and> \<not> iReading s \<and> iSessionState s = ESessionNormal)"

definition server_allows :: "pending_operation \<Rightarrow> server_state \<Rightarrow> bool" where
  "server_allows operation state \<longleftrightarrow>
     (case operation of
        EOpNone \<Rightarrow> True
      | EOpServerGreeting \<Rightarrow> state = EServerStateNone
      | EOpLogin \<Rightarrow> state = EServerStateNotAuthenticated
      | EOpLogout \<Rightarrow> state \<noteq> EServerStateNone
      | EOpClose \<Rightarrow> state = EServerStateSelected
      | _ \<Rightarrow> False)"

definition authenticated :: "server_state \<Rightarrow> bool" where
  "authenticated state \<longleftrightarrow> state = EServerStateAuthenticated \<or> state = EServerStateSelected"

definition idling :: "'c imap_session \<Rightarrow> bool" where
  "idling s \<longleftrightarrow> (iPendingOperation s = EOpIdleEnter \<or> iPendingOperation s = EOpIdleWait)
     \<and> iSessionState s = ESessionNormal \<and> \<not> iReport s \<and> \<not> iReading s \<and> \<not> iAsyncCallBack s"

inductive session_step :: "'c command_ops \<Rightarrow> ('c \<Rightarrow> bool) \<Rightarrow> 'c imap_session \<Rightarrow> 'c imap_session \<Rightarrow> bool"
  for ops :: "'c command_ops" and fresh :: "'c \<Rightarrow> bool" where
  step_start: "may_start s \<Longrightarrow> server_allows operation (iServerState s) \<Longrightarrow> fresh c \<Longrightarrow>
    session_step ops fresh s (snd (start_with ops operation c s))"
| step_idle: "may_start s \<Longrightarrow> authenticated (iServerState s) \<Longrightarrow> fresh c \<Longrightarrow>
    session_step ops fresh s (snd (EnterIdleL ops c s))"
| step_select: "may_start s \<Longrightarrow> authenticated (iServerState s) \<Longrightarrow> fresh c \<Longrightarrow>
    session_step ops fresh s (snd (SelectL ops same folder c s))"
| step_wait_idle: "idling s \<Longrightarrow> session_step ops fresh s (WaitForIdleEvent s)"
| step_done_idle: "idling s \<Longrightarrow> iCurrentCommand s \<noteq> None \<Longrightarrow> session_step ops fresh s (DoneIdle ops s)"
| step_cancel: "session_step ops fresh s (CancelSession ops s)"
| step_flush: "\<not> iReport s \<Longrightarrow> \<not> iReading s \<Longrightarrow> \<not> iAsyncCallBack s \<Longrightarrow>
    iSessionState s = ESessionFlushing \<or> iCurrentCommand s = None \<Longrightarrow>
    session_step ops fresh s (FlushCancelledCommand ops s)"
| step_data: "iReading s \<Longrightarrow> ReceivedDataIndL ops aBuffer s = Inr s' \<Longrightarrow> session_step ops fresh s s'"
| step_callback: "iAsyncCallBack s \<Longrightarrow> AsyncCallBack ops s = Inr s' \<Longrightarrow> session_step ops fresh s s'"
| step_timeout: "iFlushTimer s \<Longrightarrow> session_step ops fresh s (FlushTimeout ops s)"
| step_closed: "iStreamsOpen s \<Longrightarrow> session_step ops fresh s (StreamCloseInd ops s)"
| step_send_failed: "iCurrentCommand s \<noteq> None \<Longrightarrow> session_step ops fresh s (AsyncSendFailed ops e s)"

inductive session_reach :: "'c command_ops \<Rightarrow> ('c \<Rightarrow> bool) \<Rightarrow> 'c imap_session \<Rightarrow> bool"
  for ops :: "'c command_ops" and fresh :: "'c \<Rightarrow> bool" where
  reach_session: "session_reach ops fresh session_new"
| reach_step: "session_reach ops fresh s \<Longrightarrow> session_step ops fresh s s' \<Longrightarrow> session_reach ops fresh s'"

inductive_cases session_stepE: "session_step ops fresh s s'"

section \<open>What the loop keeps\<close>

lemma process_induct [case_names step]:
  fixes P :: "input_state \<Rightarrow> 'c \<Rightarrow> bool"
  assumes "\<And>s c. (\<And>data st c' s1 s2. find_block s = Inr (True, data, s1) \<Longrightarrow> iInputBuffer s \<noteq> [] \<Longrightarrow>
      parse data c = Inr (st, c') \<Longrightarrow> iInputBuffer s2 = iInputBuffer s1 \<Longrightarrow> iInputCache s2 = [] \<Longrightarrow> P s2 c') \<Longrightarrow> P s c"
  shows "P s c"
proof (induction "length (iInputBuffer s) + length (iInputCache s)" arbitrary: s c rule: less_induct)
  case less
  show ?case
  proof (rule assms)
    fix data st c' and s1 s2 :: input_state
    assume "find_block s = Inr (True, data, s1)" "iInputBuffer s \<noteq> []" "iInputBuffer s2 = iInputBuffer s1" "iInputCache s2 = []"
    then show "P s2 c'" using find_block_progress [of s data s1] by (intro less) auto
  qed
qed

lemma process_keeps:
  assumes "process_input parse expected pause s c = (r, s', c')" "P c"
    "\<And>d c st c'. P c \<Longrightarrow> parse d c = Inr (st, c') \<Longrightarrow> P c' \<and> (st = ECommandComplete \<longrightarrow> Q c')"
  shows "P c' \<and> (r = EFinished \<longrightarrow> Q c')"
  using assms(1,2)
proof (induction s c rule: process_induct [where parse = parse])
  case (step s c)
  show ?case
  proof (cases "\<exists>data s1 st c2. find_block s = Inr (True, data, s1) \<and> iInputBuffer s \<noteq> [] \<and> parse data c = Inr (st, c2)")
    case False
    with step.prems show ?thesis
      by (subst (asm) process_input.simps) (auto split: if_splits sum.splits prod.splits)
  next
    case True
    then obtain data s1 st c2 where a: "find_block s = Inr (True, data, s1)" "iInputBuffer s \<noteq> []" "parse data c = Inr (st, c2)"
      by blast
    let ?s = "(block_delivered s1)\<lparr> iCommandLiteralRequestSize :=
      (if st = EWaitLiteralParse \<or> st = EWaitLiteralIngore then expected c2 else 0) \<rparr>"
    from a(3) assms(3) step.prems(2) have c2: "P c2" "st = ECommandComplete \<longrightarrow> Q c2" by blast+
    have "(if st = ECommandComplete then (EFinished, ?s, c2)
        else if st = EWaitStartResponse \<and> pause c2 then (EPaused, ?s, c2)
        else process_input parse expected pause ?s c2) = (r, s', c')"
      using step.prems(1) a by (subst (asm) process_input.simps) (simp add: Let_def)
    then show ?thesis
      using c2 step.IH [OF a, of ?s] by (auto simp: block_delivered_def split: if_splits)
  qed
qed

section \<open>The contract of a command and the invariant\<close>

locale session_command =
  fixes ops :: "'c command_ops" and fresh good :: "'c \<Rightarrow> bool"
  assumes fresh_good: "fresh c \<Longrightarrow> good c"
    and good_normal: "good c \<Longrightarrow> \<not> opFlushing ops c"
    and send_good: "fresh c \<Longrightarrow> opSendMessageL ops t c = Inr (m, c') \<Longrightarrow> good c'"
    and store_good: "good (opStore ops sh c) = good c"
    and store_flushing: "opFlushing ops (opStore ops sh c) = opFlushing ops c"
    and parse_flushing: "opParseBlockL ops d c = Inr (st, c') \<Longrightarrow> opFlushing ops c' = opFlushing ops c"
    and parse_good: "good c \<Longrightarrow> opParseBlockL ops d c = Inr (st, c') \<Longrightarrow>
      good c' \<and> (st = ECommandComplete \<longrightarrow> opResponseCode ops c' \<noteq> EImapResponseNone)"
    and parse_folder: "opParseBlockL ops d (opStore ops sh c) = Inr (st, c') \<Longrightarrow> shFolder sh = None \<Longrightarrow>
      shFolder (opLoad ops c' sh) = None"
    and cancel_good: "good c \<Longrightarrow> opFlushing ops (opCancel ops c) \<or> good (opCancel ops c)"
    and done_good: "good c \<Longrightarrow> good (snd (opSendDone ops c))"
begin

definition command_agrees :: "session_state \<Rightarrow> 'c \<Rightarrow> bool" where
  "command_agrees state c \<longleftrightarrow>
     (state = ESessionNormal \<and> good c) \<or> (state = ESessionFlushing \<and> opFlushing ops c)"

definition command_ok :: "'c imap_session \<Rightarrow> bool" where
  "command_ok s \<longleftrightarrow>
     (case iCurrentCommand s of
        None \<Rightarrow> iPendingOperation s = EOpNone \<and> \<not> iReading s \<and> \<not> iAsyncCallBack s
          \<and> (iStreamsOpen s \<longrightarrow> iSessionState s = ESessionNormal)
      | Some c \<Rightarrow> iStreamsOpen s \<and> command_agrees (iSessionState s) c)"

definition folder_ok :: "'c imap_session \<Rightarrow> bool" where
  "folder_ok s \<longleftrightarrow> (iStreamsOpen s \<longrightarrow>
     (SelectedFolderInfo s \<noteq> None \<longrightarrow> iServerState s = EServerStateSelected
        \<or> (iPendingOperation s = EOpSelect \<and> iSessionState s = ESessionNormal))
     \<and> (iPendingOperation s = EOpLogin \<or> iPendingOperation s = EOpServerGreeting \<longrightarrow> SelectedFolderInfo s = None))"

definition report_ok :: "'c imap_session \<Rightarrow> bool" where
  "report_ok s \<longleftrightarrow> (iReport s \<longrightarrow> iReading s \<or> iAsyncCallBack s
     \<or> (iSessionState s = ESessionFlushing
        \<and> (\<exists>c. iCurrentCommand s = Some c \<and> opResponseCode ops c = EImapResponseNone)))
     \<and> \<not> (iReading s \<and> iAsyncCallBack s)"

definition session_ok :: "'c imap_session \<Rightarrow> bool" where
  "session_ok s \<longleftrightarrow> command_ok s \<and> folder_ok s \<and> report_ok s"

lemmas ok_defs = command_ok_def command_agrees_def folder_ok_def report_ok_def session_ok_def SelectedFolderInfo_def
lemmas set_defs = SetSessionState_def SetPendingOperation_def SetServerState_def set_folder_def Queue_def

lemma ok_new: "session_ok session_new"
  by (simp add: ok_defs session_new_def)

text \<open>Completing a request leaves everything else alone.\<close>

lemma Complete_fields [simp]:
  "iInput (Complete e s) = iInput s" "iServerState (Complete e s) = iServerState s"
  "iPendingOperation (Complete e s) = iPendingOperation s" "iSessionState (Complete e s) = iSessionState s"
  "iShared (Complete e s) = iShared s" "iCurrentCommand (Complete e s) = iCurrentCommand s"
  "iNextTagId (Complete e s) = iNextTagId s" "iStreamsOpen (Complete e s) = iStreamsOpen s"
  "iReport (Complete e s) = False" "iReading (Complete e s) = iReading s"
  "iAsyncCallBack (Complete e s) = iAsyncCallBack s" "iFlushTimer (Complete e s) = iFlushTimer s"
  by (simp_all add: Complete_def)

lemma ok_Complete: "command_ok s \<Longrightarrow> folder_ok s \<Longrightarrow> \<not> (iReading s \<and> iAsyncCallBack s) \<Longrightarrow> session_ok (Complete e s)"
  by (auto simp: ok_defs split: option.splits)

lemma ok_RequestReadData:
  "command_ok s \<Longrightarrow> folder_ok s \<Longrightarrow> iCurrentCommand s = Some c \<Longrightarrow> \<not> iAsyncCallBack s \<Longrightarrow>
   session_ok (RequestReadData s)"
  by (auto simp: ok_defs RequestReadData_def Let_def set_defs)

lemma ok_continue_reading:
  "command_ok s \<Longrightarrow> folder_ok s \<Longrightarrow> iCurrentCommand s = Some c \<Longrightarrow> \<not> iReading s \<Longrightarrow> \<not> iAsyncCallBack s \<Longrightarrow>
   session_ok (continue_reading s)"
  using ok_RequestReadData by (auto simp: continue_reading_def ProcessInputBufferAsync_def ok_defs)

lemma DoCancel_ok:
  assumes "command_ok s" "folder_ok s"
  shows "command_ok (DoCancel ops s)" "folder_ok (DoCancel ops s)"
proof -
  show "command_ok (DoCancel ops s)"
    using assms(1) cancel_good
    by (auto simp: ok_defs DoCancel_def DoPendingOperationForCancel_def Let_def set_defs
        split: option.splits pending_operation.splits)
  show "folder_ok (DoCancel ops s)"
    using assms
    by (auto simp: ok_defs DoCancel_def DoPendingOperationForCancel_def Let_def set_defs
        split: option.splits pending_operation.splits)
qed

lemma DoCancel_stops [simp]: "\<not> iReading (DoCancel ops s)" "\<not> iAsyncCallBack (DoCancel ops s)"
  by (simp_all add: DoCancel_def DoPendingOperationForCancel_def Let_def set_defs
      split: option.split pending_operation.split)

lemma destroy_fields [simp]:
  "iCurrentCommand (destroy_command ops e s) = None" "iPendingOperation (destroy_command ops e s) = EOpNone"
  "iReport (destroy_command ops e s) = False" "iStreamsOpen (destroy_command ops e s) = iStreamsOpen s"
  "iSessionState (destroy_command ops e s) = iSessionState s" "iServerState (destroy_command ops e s) = iServerState s"
  "iShared (destroy_command ops e s) = iShared s" "iReading (destroy_command ops e s) = iReading s"
  "iAsyncCallBack (destroy_command ops e s) = iAsyncCallBack s"
  by (simp_all add: destroy_command_def Let_def SetPendingOperation_def split: option.split)

lemma StreamCloseInd_fields [simp]:
  "iStreamsOpen (StreamCloseInd ops s) = False" "iCurrentCommand (StreamCloseInd ops s) = None"
  "iPendingOperation (StreamCloseInd ops s) = EOpNone" "iReport (StreamCloseInd ops s) = False"
  "iReading (StreamCloseInd ops s) = False" "iAsyncCallBack (StreamCloseInd ops s) = False"
  by (simp_all add: StreamCloseInd_def DoCancel_def Let_def)

lemma ok_StreamCloseInd: "session_ok (StreamCloseInd ops s)"
  by (simp add: ok_defs)

lemma ok_unrecoverable: "command_ok s \<Longrightarrow> session_ok (unrecoverable ops e s)"
  by (auto simp: ok_defs unrecoverable_def CompleteAndDestroyCommand_def SetSessionState_def split: option.splits)

lemma ok_CommandComplete:
  assumes "command_ok s" "folder_ok s" "iCurrentCommand s = Some c" "opResponseCode ops c = code"
    "iSessionState s = ESessionNormal \<Longrightarrow> code \<noteq> EImapResponseNone" "\<not> iReading s" "\<not> iAsyncCallBack s"
  shows "session_ok (CommandComplete ops code s)"
proof (cases code)
  case EImapResponseNone
  with assms show ?thesis by (auto simp: CommandComplete_def ok_defs)
next
  case EImapResponseOk
  with assms show ?thesis
    by (auto simp: CommandComplete_def CompleteAndDestroyCommand_def ok_defs DoPendingOperationForOk_def set_defs
        split: pending_operation.splits)
next
  case EImapResponseNo
  with assms show ?thesis
    by (auto simp: CommandComplete_def CompleteAndDestroyCommand_def ok_defs DoPendingOperationForFail_def set_defs)
next
  case EImapResponseBad
  with assms show ?thesis
    by (auto simp: CommandComplete_def CompleteAndDestroyCommand_def ok_defs DoPendingOperationForFail_def set_defs)
qed

lemma parse_shared_keeps:
  assumes "parse_shared ops d (sh, c) = Inr (st, sh', c')" "command_agrees state c"
  shows "command_agrees state c' \<and> (shFolder sh = None \<longrightarrow> shFolder sh' = None)
    \<and> (st = ECommandComplete \<longrightarrow> state = ESessionNormal \<longrightarrow> opResponseCode ops c' \<noteq> EImapResponseNone)"
proof -
  obtain p: "opParseBlockL ops d (opStore ops sh c) = Inr (st, c')" "sh' = opLoad ops c' sh"
    using assms(1) by (auto simp: parse_shared_def bind_l_eq_Inr)
  show ?thesis
    using p(2) assms(2) parse_flushing [OF p(1)] parse_good [of "opStore ops sh c", OF _ p(1)] parse_folder [OF p(1)]
    by (auto simp: command_agrees_def store_good store_flushing dest: good_normal)
qed

lemma ok_ProcessInputBufferL:
  assumes "ProcessInputBufferL ops s = Inr s'" "command_ok s" "folder_ok s" "\<not> iReading s" "\<not> iAsyncCallBack s"
  shows "session_ok s'"
proof -
  obtain c where c: "iCurrentCommand s = Some c" using assms(1) by (auto simp: ProcessInputBufferL_def split: option.splits)
  obtain r i sh c' where p: "process_input (parse_shared ops) (\<lambda>(_, c). opLiteralBytesExpected ops c)
      (pauses ops (iPendingOperation s)) (iInput s) (iShared s, c) = (r, i, sh, c')"
    by (metis prod_cases4)
  let ?P = "\<lambda>(sh, c). command_agrees (iSessionState s) c \<and> (shFolder (iShared s) = None \<longrightarrow> shFolder sh = None)"
  let ?Q = "\<lambda>(sh :: shared_data, c). iSessionState s = ESessionNormal \<longrightarrow> opResponseCode ops c \<noteq> EImapResponseNone"
  have "?P (sh, c') \<and> (r = EFinished \<longrightarrow> ?Q (sh, c'))"
  proof (rule process_keeps [OF p])
    show "?P (iShared s, c)" using assms(2) c by (simp add: command_ok_def)
    show "?P x' \<and> (st = ECommandComplete \<longrightarrow> ?Q x')" if "?P x" "parse_shared ops d x = Inr (st, x')" for d x st x'
      using parse_shared_keeps [of d "fst x" "snd x" st "fst x'" "snd x'"] that by (auto simp: case_prod_beta)
  qed
  then have k: "command_agrees (iSessionState s) c'" "shFolder (iShared s) = None \<longrightarrow> shFolder sh = None"
    "r = EFinished \<Longrightarrow> iSessionState s = ESessionNormal \<Longrightarrow> opResponseCode ops c' \<noteq> EImapResponseNone" by auto
  let ?s = "s\<lparr> iInput := i, iShared := sh, iCurrentCommand := Some c' \<rparr>"
  have ok: "command_ok ?s" using k(1) assms(2) c by (simp add: command_ok_def)
  have fok: "folder_ok ?s" using k(2) assms(3) by (auto simp: folder_ok_def SelectedFolderInfo_def)
  have r: "(case r of EPanicked e \<Rightarrow> Inl e | EFailed e \<Rightarrow> Inr (unrecoverable ops e ?s)
      | EFinished \<Rightarrow> Inr (CommandComplete ops (opResponseCode ops c') ?s)
      | EPaused \<Rightarrow> Inr (Complete KErrNone ?s) | EReadMore \<Rightarrow> Inr (RequestReadData ?s)) = Inr s'"
    using assms(1) c p by (simp add: ProcessInputBufferL_def Let_def)
  show ?thesis
  proof (cases r)
    case EReadMore
    with r ok_RequestReadData [OF ok fok] assms(5) show ?thesis by auto
  next
    case EPaused
    with r ok_Complete [OF ok fok] assms(5) show ?thesis by auto
  next
    case EFinished
    have "session_ok (CommandComplete ops (opResponseCode ops c') ?s)"
      by (rule ok_CommandComplete [OF ok fok]) (use k(3) EFinished assms(4,5) in simp_all)
    with r EFinished show ?thesis by simp
  next
    case (EFailed e)
    with r ok_unrecoverable [OF ok] show ?thesis by auto
  next
    case (EPanicked e)
    with r show ?thesis by simp
  qed
qed

section \<open>Every step keeps the invariant\<close>

lemma closed_request:
  "session_ok s \<Longrightarrow> CompleteIfStreamsClosed s = (b, s') \<Longrightarrow> session_ok s' \<and> (b \<or> s' = s \<and> iStreamsOpen s)"
  by (auto simp: CompleteIfStreamsClosed_def Queue_def ok_defs split: if_splits option.splits)

text \<open>A command is started when there is none; the pending operation may have been set for it.\<close>

lemma ok_StartCommandL:
  assumes "iStreamsOpen s" "iSessionState s = ESessionNormal" "\<not> iReport s" "folder_ok s"
    "\<not> iReading s" "\<not> iAsyncCallBack s" "fresh c"
  shows "session_ok (snd (StartCommandL ops c s))"
proof (cases "opSendMessageL ops (iNextTagId s + 1) c")
  case (Inl e)
  with assms fresh_good show ?thesis by (auto simp: StartCommandL_def Let_def ok_defs)
next
  case (Inr mc)
  obtain m c' where m: "mc = (m, c')" by fastforce
  let ?s = "s\<lparr> iNextTagId := iNextTagId s + 1, iCurrentCommand := Some c', iSent := iSent s @ m \<rparr>"
  have "session_ok (continue_reading ?s)"
    using assms send_good [of c "iNextTagId s + 1" m c'] Inr m
    by (intro ok_continue_reading) (auto simp: ok_defs)
  moreover have "iReading (continue_reading ?s) \<or> iAsyncCallBack (continue_reading ?s)"
    using assms(1) by (auto simp: continue_reading_def RequestReadData_def ProcessInputBufferAsync_def Let_def set_defs)
  ultimately show ?thesis using Inr m by (auto simp: StartCommandL_def Let_def ok_defs Queue_def split: option.splits)
qed

lemma ok_start:
  assumes "session_ok s" "may_start s" "iStreamsOpen s"
  shows "iSessionState s = ESessionNormal" "\<not> iReport s" "iCurrentCommand s = None" "folder_ok s"
    "\<not> iReading s" "\<not> iAsyncCallBack s"
    "SelectedFolderInfo s = None \<or> iServerState s = EServerStateSelected"
  using assms by (auto simp: ok_defs may_start_def)

lemma start_shape:
  assumes "opSendMessageL ops t c = Inr (m, c')"
  shows "iPendingOperation (continue_reading (s\<lparr> iCurrentCommand := Some c', iSent := m \<rparr>)) =
    (if iInputBuffer (iInput s) = [] \<and> iStreamsOpen s \<and> iPendingOperation s = EOpIdleDone then EOpNone
     else iPendingOperation s)"
  by (simp add: continue_reading_def RequestReadData_def ProcessInputBufferAsync_def Let_def set_defs)

lemma ok_start_with:
  assumes "session_ok s" "may_start s" "server_allows operation (iServerState s)" "fresh c"
  shows "session_ok (snd (start_with ops operation c s))"
proof (cases "iStreamsOpen s")
  case False
  with assms(1) closed_request [of s] show ?thesis
    by (auto simp: start_with_def CompleteIfStreamsClosed_def)
next
  case True
  note st = ok_start [OF assms(1,2) True]
  have "folder_ok (s\<lparr> iPendingOperation := operation \<rparr>)"
    using st(7) assms(3) by (auto simp: ok_defs server_allows_def split: pending_operation.splits)
  with st assms(4) True show ?thesis
    by (auto simp: start_with_def CompleteIfStreamsClosed_def SetPendingOperation_def intro!: ok_StartCommandL)
qed

lemma ok_EnterIdleL:
  assumes "session_ok s" "may_start s" "fresh c"
  shows "session_ok (snd (EnterIdleL ops c s))"
proof (cases "iStreamsOpen s")
  case False
  with assms(1) closed_request [of s] show ?thesis
    by (auto simp: EnterIdleL_def CompleteIfStreamsClosed_def)
next
  case True
  note st = ok_start [OF assms(1,2) True]
  obtain e s' where s': "StartCommandL ops c s = (e, s')" by fastforce
  have ok: "session_ok s'" using ok_StartCommandL [OF True st(1,2,4-6) assms(3)] s' by simp
  have keep: "iServerState s' = iServerState s" "SelectedFolderInfo s' = SelectedFolderInfo s"
    "iCurrentCommand s' \<noteq> None"
    using s' by (auto simp: StartCommandL_def Let_def continue_reading_def RequestReadData_def
        ProcessInputBufferAsync_def set_defs SelectedFolderInfo_def split: sum.splits prod.splits if_splits)
  have "session_ok (SetPendingOperation EOpIdleEnter s')"
    using ok st(7) keep by (auto simp: ok_defs set_defs)
  with ok s' True show ?thesis by (auto simp: EnterIdleL_def CompleteIfStreamsClosed_def split: option.splits)
qed

lemma ok_SelectL:
  assumes "session_ok s" "may_start s" "fresh c"
  shows "session_ok (snd (SelectL ops same folder c s))"
proof (cases "iStreamsOpen s")
  case False
  with assms(1) closed_request [of s] show ?thesis
    by (auto simp: SelectL_def CompleteIfStreamsClosed_def ok_defs set_defs split: option.splits)
next
  case True
  note st = ok_start [OF assms(1,2) True]
  let ?s = "s\<lparr> iPendingOperation := EOpSelect \<rparr>"
  obtain e s' where s': "StartCommandL ops c ?s = (e, s')" by fastforce
  have "folder_ok ?s" using st by (simp add: folder_ok_def SelectedFolderInfo_def)
  then have ok: "session_ok s'" using ok_StartCommandL [of ?s c] True st(1,2,5,6) assms(3) s' by simp
  have keep: "iPendingOperation s' = EOpSelect" "iSessionState s' = ESessionNormal"
    using s' st(1) by (auto simp: StartCommandL_def Let_def continue_reading_def RequestReadData_def
        ProcessInputBufferAsync_def set_defs split: sum.splits prod.splits if_splits)
  have "session_ok (set_folder (Some folder) s')" using ok keep by (auto simp: ok_defs set_defs split: option.splits)
  moreover have "session_ok (Complete KErrNone (Queue s))" using assms(1)
    by (intro ok_Complete) (auto simp: ok_defs Queue_def split: option.splits)
  ultimately show ?thesis using ok s' True
    by (auto simp: SelectL_def CompleteIfStreamsClosed_def SetPendingOperation_def split: option.splits)
qed

lemma ok_FlushCancelledCommand:
  assumes "session_ok s" "iSessionState s = ESessionFlushing \<or> iCurrentCommand s = None"
    "\<not> iReading s" "\<not> iAsyncCallBack s"
  shows "session_ok (FlushCancelledCommand ops s)"
proof (cases "iStreamsOpen s")
  case False
  with assms(1) closed_request [of s] show ?thesis
    by (auto simp: FlushCancelledCommand_def CompleteIfStreamsClosed_def)
next
  case True
  show ?thesis
  proof (cases "iCurrentCommand s")
    case None
    have "session_ok (Complete KErrNone (Queue s))" using assms(1)
      by (intro ok_Complete) (auto simp: ok_defs Queue_def split: option.splits)
    with None True show ?thesis by (simp add: FlushCancelledCommand_def CompleteIfStreamsClosed_def Queue_def)
  next
    case (Some c)
    with assms have fl: "iSessionState s = ESessionFlushing" by simp
    have q: "command_ok (Queue s)" "folder_ok (Queue s)"
      using assms(1) by (auto simp: ok_defs Queue_def split: option.splits)
    have "session_ok (SetSessionState ESessionNormal (CompleteAndDestroyCommand ops KErrNone False (Queue s)))"
      using assms(1,3,4) fl Some
      by (auto simp: CompleteAndDestroyCommand_def ok_defs set_defs)
    moreover have "session_ok (continue_reading (Queue s))"
      using Some assms(3,4) by (intro ok_continue_reading [OF q]) (auto simp: Queue_def)
    ultimately show ?thesis using Some True
      by (simp add: FlushCancelledCommand_def CompleteIfStreamsClosed_def Queue_def Let_def)
  qed
qed

lemma ok_idle:
  assumes "session_ok s" "idling s"
  shows "session_ok (WaitForIdleEvent s)" "session_ok (DoneIdle ops s)"
proof -
  have "iCurrentCommand s \<noteq> None" using assms by (auto simp: ok_defs idling_def split: option.splits)
  then obtain c where c: "iCurrentCommand s = Some c" by blast
  with assms have st: "iStreamsOpen s" "iSessionState s = ESessionNormal" "good c" "folder_ok s"
    "iPendingOperation s = EOpIdleEnter \<or> iPendingOperation s = EOpIdleWait"
    "\<not> iReading s" "\<not> iAsyncCallBack s"
    by (auto simp: ok_defs idling_def)
  have f: "SelectedFolderInfo s = None \<or> iServerState s = EServerStateSelected"
    using st(1,4,5) by (auto simp: folder_ok_def)
  have "WaitForIdleEvent s = s\<lparr> iPendingOperation := EOpIdleWait, iReport := True, iAsyncCallBack := True \<rparr>"
    using st(1) by (simp add: WaitForIdleEvent_def CompleteIfStreamsClosed_def ProcessInputBufferAsync_def set_defs)
  then show "session_ok (WaitForIdleEvent s)" using st c f by (auto simp: ok_defs)
  obtain m c' where m: "opSendDone ops c = (m, c')" by fastforce
  then have "good c'" using done_good [OF st(3)] by simp
  moreover have "DoneIdle ops s = s\<lparr> iSessionState := ESessionNormal, iPendingOperation := EOpIdleDone,
      iCurrentCommand := Some c', iSent := iSent s @ [m], iReport := True, iAsyncCallBack := True \<rparr>"
    using st(1) c m by (simp add: DoneIdle_def CompleteIfStreamsClosed_def ProcessInputBufferAsync_def set_defs Let_def)
  ultimately show "session_ok (DoneIdle ops s)" using st f by (auto simp: ok_defs)
qed

lemma ok_step:
  assumes "session_step ops fresh s s'" "session_ok s"
  shows "session_ok s'"
  using assms(1)
proof cases
  case (step_start operation c)
  with assms(2) ok_start_with show ?thesis by simp
next
  case (step_idle c)
  with assms(2) ok_EnterIdleL show ?thesis by simp
next
  case (step_select c same folder)
  with assms(2) ok_SelectL show ?thesis by simp
next
  case step_wait_idle
  with assms(2) ok_idle show ?thesis by simp
next
  case step_done_idle
  with assms(2) ok_idle show ?thesis by simp
next
  case step_cancel
  have "command_ok (DoCancel ops s)" "folder_ok (DoCancel ops s)"
    using DoCancel_ok assms(2) by (auto simp: session_ok_def)
  with step_cancel ok_Complete DoCancel_stops show ?thesis by (simp add: CancelSession_def)
next
  case step_flush
  with assms(2) ok_FlushCancelledCommand show ?thesis by simp
next
  case (step_data aBuffer)
  let ?s = "s\<lparr> iReading := False, iInput := (iInput s)\<lparr> iInputBuffer := aBuffer \<rparr>, iFlushTimer := False \<rparr>"
  have "command_ok ?s" "folder_ok ?s" "\<not> iReading ?s"
    using assms(2) by (auto simp: ok_defs split: option.splits)
  moreover have "\<not> iAsyncCallBack ?s" using step_data assms(2) by (simp add: ok_defs)
  ultimately show ?thesis using step_data ok_ProcessInputBufferL by (auto simp: ReceivedDataIndL_def)
next
  case step_callback
  let ?s = "s\<lparr> iAsyncCallBack := False \<rparr>"
  have "command_ok ?s" "folder_ok ?s" using assms(2) by (auto simp: ok_defs split: option.splits)
  moreover have "\<not> iReading ?s" using step_callback assms(2) by (simp add: ok_defs)
  ultimately show ?thesis using step_callback ok_ProcessInputBufferL by (auto simp: AsyncCallBack_def)
next
  case step_timeout
  let ?s = "s\<lparr> iFlushTimer := False \<rparr>"
  have "command_ok ?s" "folder_ok ?s" using assms(2) by (auto simp: ok_defs split: option.splits)
  from DoCancel_ok [OF this] ok_Complete DoCancel_stops step_timeout show ?thesis by (simp add: FlushTimeout_def)
next
  case step_closed
  with ok_StreamCloseInd show ?thesis by simp
next
  case (step_send_failed e)
  with assms(2) ok_unrecoverable show ?thesis by (simp add: AsyncSendFailed_def session_ok_def)
qed

lemma ok_reach: "session_reach ops fresh s \<Longrightarrow> session_ok s"
proof (induction rule: session_reach.induct)
  case reach_session
  show ?case by (rule ok_new)
next
  case (reach_step s s')
  with ok_step show ?case by blast
qed

end

end
