(* ===== verification/Imap_Contracts.thy ===== *)
theory Imap_Contracts
  imports Imap_Commands
begin

text \<open>
  Every command class keeps the contract of \<open>Imap_Command_Laws\<close>: each is an instance of
  \<open>imap_class_ex\<close>, from which the agreement of state and response code follows for all of them.
\<close>

section \<open>CAPABILITY and LOGIN\<close>

lemma quiet_capability_data [quiet_rules]: "quiet (mapply (\<lambda>c. ParseCapabilityDataL f (imap_command.iUnparsedData c) c))"
  by (simp add: quiet_def ParseCapabilityDataL_def same_control_def)

lemma gives_capability: "gives (\<lambda>r. r \<noteq> ECompleteTagged) (Capability_Untagged f)"
  unfolding Capability_Untagged_def by (intro gives_rules quiet_rules) simp_all

interpretation capability: imap_class_ex "capability_class f"
  by unfold_locales (simp_all add: capability_class_def command_ex_def decides_base quiet_basic gives_capability)

lemma quiet_login_send [quiet_rules]: "quiet (login_send r)"
  by (auto simp: login_send_def quiet_def same_control_def split: sum.split)

lemma quiet_login_flag [quiet_rules]: "quiet (mapply (\<lambda>c. c\<lparr> iSentUserNameLength := b \<rparr>))"
  by (simp add: quiet_def same_control_def)

lemma quiet_login_continuation: "quiet Login_Continuation"
  unfolding Login_Continuation_def Let_def by (intro quiet_rules)

lemma decides_login: "decides (Login_Tagged f t)"
  unfolding Login_Tagged_def by (intro decides_bind records_base gives_rules quiet_rules TrueI)

interpretation login: imap_class_ex "login_class f"
  by unfold_locales
    (simp_all add: login_class_def capability_class_def command_ex_def decides_login quiet_basic
      quiet_login_continuation gives_capability)

section \<open>SELECT and EXAMINE\<close>

lemma decides_select: "decides (Select_Tagged f t)"
  unfolding Select_Tagged_def by (intro decides_bind records_base gives_rules quiet_rules TrueI)

lemma quiet_select_number [quiet_rules]: "quiet (select_number r g)"
  unfolding select_number_def by (intro quiet_rules)

lemma quiet_untagged_ok [quiet_rules]: "quiet ParseUntaggedOkL"
  unfolding ParseUntaggedOkL_def Let_def by (intro quiet_rules)

lemma quiet_flags [quiet_rules]: "quiet (ParseFlagsL f s)"
  unfolding ParseFlagsL_def by (intro quiet_rules)

lemma gives_select: "gives (\<lambda>r. r \<noteq> ECompleteTagged) (Select_Untagged f)"
  unfolding Select_Untagged_def by (intro gives_rules quiet_rules) simp_all

interpretation select: imap_class_ex "select_class f"
  by unfold_locales (simp_all add: select_class_def command_ex_def decides_select quiet_basic gives_select)

section \<open>SEARCH, FETCH FLAGS and STORE\<close>

lemma quiet_search_ids [quiet_rules]: "quiet (mapply (\<lambda>c. c\<lparr> iMatchingMessageIds := ids \<rparr>))"
  by (simp add: quiet_def same_control_def)

lemma quiet_search [quiet_rules]: "quiet ParseSearchResponseL"
  unfolding ParseSearchResponseL_def by (intro quiet_rules)

lemma gives_search: "gives (\<lambda>r. r \<noteq> ECompleteTagged) (Search_Untagged f)"
  unfolding Search_Untagged_def by (intro gives_rules quiet_rules) simp_all

interpretation search: imap_class_ex "search_class f"
  by unfold_locales (simp_all add: search_class_def command_ex_def decides_base quiet_basic gives_search)

lemma quiet_flag_entry [quiet_rules]:
  "quiet (mapply (\<lambda>c. c\<lparr> iOutMessageFlagInfo := iOutMessageFlagInfo c @ [e] \<rparr>))"
  by (simp add: quiet_def same_control_def)

lemma quiet_fetch_flags [quiet_rules]: "quiet (ProcessFetchFlagsResponseL f)"
  unfolding ProcessFetchFlagsResponseL_def by (intro quiet_rules)

lemma gives_fetch_flags: "gives (\<lambda>r. r \<noteq> ECompleteTagged) (FetchFlags_Untagged f)"
  unfolding FetchFlags_Untagged_def by (intro gives_rules quiet_rules) simp_all

interpretation fetch_flags: imap_class_ex "fetch_flags_class f"
  by unfold_locales (simp_all add: fetch_flags_class_def command_ex_def decides_base quiet_basic gives_fetch_flags)

section \<open>The server greeting, server events and IDLE\<close>

lemma quiet_greeting_tag [quiet_rules]: "quiet (mapply (\<lambda>c. c\<lparr> iServerGreetingTag := t \<rparr>))"
  by (simp add: quiet_def same_control_def)

lemma gives_greeting: "gives (\<lambda>r. r \<noteq> ECompleteTagged) (Greeting_Untagged f)"
  unfolding Greeting_Untagged_def by (intro gives_rules quiet_rules) simp_all

interpretation greeting: imap_class_ex "greeting_class f"
  by unfold_locales (simp_all add: greeting_class_def command_ex_def decides_base quiet_basic gives_greeting)

interpretation event_wait: imap_class_ex "event_wait_class f"
  by unfold_locales
    (simp_all add: event_wait_class_def command_ex_def decides_corrupt quiet_basic untagged_default)

lemma quiet_idle_state [quiet_rules]: "quiet (mapply (\<lambda>c. c\<lparr> iIdleState := s \<rparr>))"
  by (simp add: quiet_def same_control_def)

lemma quiet_idle: "quiet Idle_Continuation"
  unfolding Idle_Continuation_def by (intro quiet_rules)

interpretation idle: imap_class_ex "idle_class f"
  by unfold_locales (simp_all add: idle_class_def command_ex_def decides_base quiet_basic quiet_idle untagged_default)

end
