(* ===== verification/Imap_Live.thy ===== *)
theory Imap_Live
  imports Imap_Server_Laws Imap_Contracts
begin

text \<open>
  The commands a session runs, as one type: each keeps its own members and runs its own class. They
  keep the contract of \<open>session_command\<close>, so all that holds of sessions holds of sessions with them.
\<close>

section \<open>The commands\<close>

datatype live_command =
    LivePlain imap_request imap_command
  | LiveCapability capability_command
  | LiveLogin login_command
  | LiveSelect imap_request imap_command
  | LiveSearch imap_request search_command
  | LiveFetchFlags imap_request fetch_flags_command
  | LiveGreeting greeting_command
  | LiveEventWait imap_command
  | LiveIdle idle_command

text \<open>A change of the members every command has.\<close>

definition on_base :: "(imap_command \<Rightarrow> imap_command) \<Rightarrow> 'm imap_command_scheme \<Rightarrow> 'm imap_command_scheme" where
  "on_base g c = imap_command.extend (g (imap_command.truncate c)) (imap_command.more c)"

fun live_on :: "(imap_command \<Rightarrow> imap_command) \<Rightarrow> live_command \<Rightarrow> live_command" where
  "live_on g (LivePlain r c) = LivePlain r (g c)"
| "live_on g (LiveCapability c) = LiveCapability (on_base g c)"
| "live_on g (LiveLogin c) = LiveLogin (on_base g c)"
| "live_on g (LiveSelect r c) = LiveSelect r (g c)"
| "live_on g (LiveSearch r c) = LiveSearch r (on_base g c)"
| "live_on g (LiveFetchFlags r c) = LiveFetchFlags r (on_base g c)"
| "live_on g (LiveGreeting c) = LiveGreeting (on_base g c)"
| "live_on g (LiveEventWait c) = LiveEventWait (g c)"
| "live_on g (LiveIdle c) = LiveIdle (on_base g c)"

fun live_base :: "live_command \<Rightarrow> imap_command" where
  "live_base (LivePlain r c) = c"
| "live_base (LiveCapability c) = imap_command.truncate c"
| "live_base (LiveLogin c) = imap_command.truncate c"
| "live_base (LiveSelect r c) = c"
| "live_base (LiveSearch r c) = imap_command.truncate c"
| "live_base (LiveFetchFlags r c) = imap_command.truncate c"
| "live_base (LiveGreeting c) = imap_command.truncate c"
| "live_base (LiveEventWait c) = c"
| "live_base (LiveIdle c) = imap_command.truncate c"

definition live_as :: "('c \<Rightarrow> live_command) \<Rightarrow> (parse_state \<times> 'c) leaving \<Rightarrow> (parse_state \<times> live_command) leaving" where
  "live_as K r = map_sum id (map_prod id K) r"

fun live_parse :: "(byte \<Rightarrow> byte) \<Rightarrow> string8 \<Rightarrow> live_command \<Rightarrow> (parse_state \<times> live_command) leaving" where
  "live_parse f d (LivePlain r c) = live_as (LivePlain r) (ParseBlockL f (DoParseBlockL (command_ex f)) d c)"
| "live_parse f d (LiveCapability c) = live_as LiveCapability (ParseBlockL f (DoParseBlockL (capability_class f)) d c)"
| "live_parse f d (LiveLogin c) = live_as LiveLogin (ParseBlockL f (DoParseBlockL (login_class f)) d c)"
| "live_parse f d (LiveSelect r c) = live_as (LiveSelect r) (ParseBlockL f (DoParseBlockL (select_class f)) d c)"
| "live_parse f d (LiveSearch r c) = live_as (LiveSearch r) (ParseBlockL f (DoParseBlockL (search_class f)) d c)"
| "live_parse f d (LiveFetchFlags r c) =
     live_as (LiveFetchFlags r) (ParseBlockL f (DoParseBlockL (fetch_flags_class f)) d c)"
| "live_parse f d (LiveGreeting c) = live_as LiveGreeting (ParseBlockL f (DoParseBlockL (greeting_class f)) d c)"
| "live_parse f d (LiveEventWait c) = live_as LiveEventWait (ParseBlockL f (DoParseBlockL (event_wait_class f)) d c)"
| "live_parse f d (LiveIdle c) = live_as LiveIdle (ParseBlockL f (DoParseBlockL (idle_class f)) d c)"

text \<open>\<open>SendMessageL\<close> keeps the tag, except where it sends nothing.\<close>

definition live_tagged :: "tint \<Rightarrow> imap_request \<Rightarrow> live_command \<Rightarrow> (string8 list \<times> live_command) leaving" where
  "live_tagged t r c =
     bind_l (SendMessageL r (sint t)) (\<lambda>s. Inr ([s], live_on (\<lambda>b. b\<lparr> iTagId := t \<rparr>) c))"

fun live_send :: "tint \<Rightarrow> live_command \<Rightarrow> (string8 list \<times> live_command) leaving" where
  "live_send t (LivePlain r c) = live_tagged t r (LivePlain r c)"
| "live_send t (LiveCapability c) = live_tagged t ReqCapability (LiveCapability c)"
| "live_send t (LiveLogin c) = bind_l (SendLogin t c) (\<lambda>(_, c). Inr (iLoginSent c, LiveLogin c))"
| "live_send t (LiveSelect r c) = live_tagged t r (LiveSelect r c)"
| "live_send t (LiveSearch r c) = live_tagged t r (LiveSearch r c)"
| "live_send t (LiveFetchFlags r c) = live_tagged t r (LiveFetchFlags r c)"
| "live_send t (LiveGreeting c) = Inr ([], LiveGreeting c)"
| "live_send t (LiveEventWait c) = Inr ([], LiveEventWait c)"
| "live_send t (LiveIdle c) = live_tagged t ReqIdle (LiveIdle c)"

fun live_cancel :: "live_command \<Rightarrow> live_command" where
  "live_cancel (LiveIdle c) = LiveIdle (idle_cancel c)"
| "live_cancel c = live_on Cancel c"

fun live_can_complete :: "live_command \<Rightarrow> bool" where
  "live_can_complete (LiveEventWait c) = event_wait_can_complete c"
| "live_can_complete _ = False"

fun live_idle_waits :: "live_command \<Rightarrow> bool" where
  "live_idle_waits (LiveIdle c) = (iIdleState c = EIdleWaitResponse)"
| "live_idle_waits _ = False"

fun live_done :: "live_command \<Rightarrow> string8 \<times> live_command" where
  "live_done (LiveIdle c) = map_prod id LiveIdle (SendDone c)"
| "live_done c = ([], c)"

text \<open>What the session shares with its command by reference.\<close>

fun live_store :: "shared_data \<Rightarrow> live_command \<Rightarrow> live_command" where
  "live_store sh (LiveCapability c) =
     LiveCapability (c\<lparr> iSelectedFolderData := shFolder sh, iCapabilityInfo := shCapability sh \<rparr>)"
| "live_store sh (LiveLogin c) =
     LiveLogin (c\<lparr> iSelectedFolderData := shFolder sh, iCapabilityInfo := shCapability sh \<rparr>)"
| "live_store sh (LiveGreeting c) =
     LiveGreeting (c\<lparr> iSelectedFolderData := shFolder sh, iServerGreetingTag := shGreeting sh \<rparr>)"
| "live_store sh c = live_on (\<lambda>b. b\<lparr> iSelectedFolderData := shFolder sh \<rparr>) c"

fun live_load :: "live_command \<Rightarrow> shared_data \<Rightarrow> shared_data" where
  "live_load (LiveCapability c) sh = sh\<lparr> shFolder := iSelectedFolderData c, shCapability := iCapabilityInfo c \<rparr>"
| "live_load (LiveLogin c) sh = sh\<lparr> shFolder := iSelectedFolderData c, shCapability := iCapabilityInfo c \<rparr>"
| "live_load (LiveGreeting c) sh = sh\<lparr> shFolder := iSelectedFolderData c, shGreeting := iServerGreetingTag c \<rparr>"
| "live_load c sh = sh\<lparr> shFolder := iSelectedFolderData (live_base c) \<rparr>"

definition live_ops :: "(byte \<Rightarrow> byte) \<Rightarrow> live_command command_ops" where
  "live_ops f =
     \<lparr> opSendMessageL = live_send, opParseBlockL = live_parse f,
       opLiteralBytesExpected = (\<lambda>c. iLiteralBytesExpected (live_base c)),
       opResponseCode = (\<lambda>c. iResponseCode (live_base c)), opCancel = live_cancel,
       opFlushing = (\<lambda>c. iFlushing (live_base c)), opCanCompleteFlushNow = live_can_complete,
       opGetTagId = (\<lambda>c. iTagId (live_base c)), opIdleWaitResponse = live_idle_waits,
       opSendDone = live_done, opStore = live_store, opLoad = live_load \<rparr>"

section \<open>They keep the contract\<close>

definition live_good :: "live_command \<Rightarrow> bool" where
  "live_good c \<longleftrightarrow> well_typed (live_base c) \<and> \<not> iFlushing (live_base c)"

definition live_fresh :: "live_command \<Rightarrow> bool" where
  "live_fresh c \<longleftrightarrow> live_good c \<and> iParseState (live_base c) = EWaitStartResponse"

lemma truncate_fields [simp]:
  "iTagId (imap_command.truncate c) = iTagId c"
  "iSelectedFolderData (imap_command.truncate c) = iSelectedFolderData c"
  "iResponseCode (imap_command.truncate c) = iResponseCode c"
  "iLiteralBytesExpected (imap_command.truncate c) = iLiteralBytesExpected c"
  "iParseState (imap_command.truncate c) = iParseState c"
  "iFlushing (imap_command.truncate c) = iFlushing c"
  by (simp_all add: imap_command.defs)

lemma truncate_base [simp]: "imap_command.truncate (on_base g c) = g (imap_command.truncate c)"
  by (simp add: on_base_def imap_command.defs)

lemma live_base_on: "live_base (live_on g c) = g (live_base c)"
  by (cases c) simp_all

lemma live_as_Inr: "live_as K r = Inr (st, c') \<longleftrightarrow> (\<exists>c. r = Inr (st, c) \<and> c' = K c)"
  by (cases r) (auto simp: live_as_def)

text \<open>Every command runs a class whose blocks keep the contract.\<close>

lemmas live_contracts = command_ex.block_contract capability.block_contract login.block_contract
  select.block_contract search.block_contract fetch_flags.block_contract greeting.block_contract
  event_wait.block_contract idle.block_contract

lemma well_typed_truncate [simp]: "well_typed (imap_command.truncate c) \<longleftrightarrow> well_typed c"
  by (simp add: well_typed_def)

lemma lasting_truncate [simp]: "lasting (imap_command.truncate c) (imap_command.truncate d) \<longleftrightarrow> lasting c d"
  by (simp add: lasting_def)

lemma live_parse_base:
  assumes "live_parse f d c = Inr (st, c')"
  shows "st = iParseState (live_base c') \<and> lasting (live_base c) (live_base c') \<and> (live_good c \<longrightarrow> live_good c')"
  using assms
  by (cases c) (auto simp: live_as_Inr live_good_def dest!: live_contracts)

lemma live_store_base:
  "live_base (live_store sh c) = (live_base c)\<lparr> iSelectedFolderData := shFolder sh \<rparr>"
  by (cases c) (simp_all add: on_base_def imap_command.defs)

lemma live_load_folder: "shFolder (live_load c sh) = iSelectedFolderData (live_base c)"
  by (cases c) simp_all

lemma well_typed_updates [simp]:
  "well_typed (c\<lparr> iSelectedFolderData := x \<rparr>) \<longleftrightarrow> well_typed c"
  "well_typed (c\<lparr> iTagId := t \<rparr>) \<longleftrightarrow> well_typed c"
  by (simp_all add: well_typed_def)

lemma live_send_good:
  assumes "live_send t c = Inr (m, c')" "live_good c"
  shows "live_good c'"
proof (cases c)
  case (LiveLogin b)
  then obtain u b' where b: "SendLogin t b = Inr (u, b')" "c' = LiveLogin b'"
    using assms(1) by (auto simp: bind_l_eq_Inr)
  have "well_typed b' = well_typed b \<and> iFlushing b' = iFlushing b"
    using b(1) by (auto simp: SendLogin_def mbind_Inr login_send_def CheckLiteralInUserNameAndPassword_def
        well_typed_def Let_def split: if_splits sum.splits)
  with b(2) LiveLogin assms(2) show ?thesis by (simp add: live_good_def)
qed (use assms in \<open>auto simp: live_tagged_def bind_l_eq_Inr live_good_def live_base_on\<close>)

lemma Cancel_flushes: "iFlushing (Cancel c)"
  by (simp add: Cancel_def EnterFlushingState_def SetParseState_def Let_def split: parse_state.split)

lemma live_cancel_good: "live_good c \<Longrightarrow> iFlushing (live_base (live_cancel c)) \<or> live_good (live_cancel c)"
  by (cases c) (auto simp: live_base_on Cancel_flushes live_good_def idle_cancel_def
      Cancel_flushes [unfolded Cancel_def])

interpretation live: session_command "live_ops f" live_fresh live_good
proof
  fix c c' :: live_command and t :: tint and m d sh st
  show "live_fresh c \<Longrightarrow> live_good c" by (simp add: live_fresh_def)
  show "live_good c \<Longrightarrow> \<not> opFlushing (live_ops f) c" by (simp add: live_ops_def live_good_def)
  show "live_fresh c \<Longrightarrow> opSendMessageL (live_ops f) t c = Inr (m, c') \<Longrightarrow> live_good c'"
    using live_send_good by (auto simp: live_ops_def live_fresh_def)
  show "live_good (opStore (live_ops f) sh c) = live_good c"
    by (simp add: live_ops_def live_good_def live_store_base)
  show "opFlushing (live_ops f) (opStore (live_ops f) sh c) = opFlushing (live_ops f) c"
    by (simp add: live_ops_def live_store_base)
  show "opParseBlockL (live_ops f) d c = Inr (st, c') \<Longrightarrow> opFlushing (live_ops f) c' = opFlushing (live_ops f) c"
    using live_parse_base by (auto simp: live_ops_def lasting_def)
  show "live_good c \<Longrightarrow> opParseBlockL (live_ops f) d c = Inr (st, c') \<Longrightarrow>
      live_good c' \<and> (st = ECommandComplete \<longrightarrow> opResponseCode (live_ops f) c' \<noteq> EImapResponseNone)"
    using live_parse_base [of f d c st c'] by (auto simp: live_ops_def live_good_def well_typed_def)
  show "opParseBlockL (live_ops f) d (opStore (live_ops f) sh c) = Inr (st, c') \<Longrightarrow> shFolder sh = None \<Longrightarrow>
      shFolder (opLoad (live_ops f) c' sh) = None"
    using live_parse_base [of f d "live_store sh c" st c']
    by (auto simp: live_ops_def live_load_folder live_store_base lasting_def)
  show "live_good c \<Longrightarrow> opFlushing (live_ops f) (opCancel (live_ops f) c) \<or> live_good (opCancel (live_ops f) c)"
    using live_cancel_good by (simp add: live_ops_def)
  show "live_good c \<Longrightarrow> live_good (snd (opSendDone (live_ops f) c))"
    by (cases c) (auto simp: live_ops_def live_good_def SendDone_def well_typed_def)
qed

end
