(* ===== verification/Imap_Frames_Laws.thy ===== *)
theory Imap_Frames_Laws
  imports Imap_Frames
begin

text \<open>
  The blocks do not depend on how the bytes arrive: what two chunks give one after the other is what
  they give in one piece, when the second does not complete an empty line and the bytes have no
  occasion for the special line end.
\<close>

section \<open>Searching\<close>

lemma find_id_Some:
  "pat \<noteq> [] \<Longrightarrow> find_f id pat s = Some p \<longleftrightarrow>
     take (length pat) (drop p s) = pat \<and> (\<forall>j<p. take (length pat) (drop j s) \<noteq> pat)"
proof (induction s arbitrary: p)
  case Nil
  then show ?case by simp
next
  case (Cons x s)
  have short: "take (length pat) (x # s) \<noteq> pat" if "\<not> length pat \<le> length (x # s)"
    using that by (metis length_take min_def nat_le_linear)
  show ?case
  proof (cases p)
    case 0
    then show ?thesis using short by (auto split: if_splits)
  next
    case (Suc q)
    have "(\<forall>j<Suc q. take (length pat) (drop j (x # s)) \<noteq> pat) \<longleftrightarrow>
        take (length pat) (x # s) \<noteq> pat \<and> (\<forall>j<q. take (length pat) (drop j s) \<noteq> pat)"
      by (auto simp: less_Suc_eq_0_disj)
    then show ?thesis using Cons Suc short by auto
  qed
qed

lemma find_id_None:
  assumes "pat \<noteq> []"
  shows "find_f id pat s = None \<longleftrightarrow> (\<forall>j. take (length pat) (drop j s) \<noteq> pat)"
proof (cases "find_f id pat s")
  case None
  have "\<forall>j<k. take (length pat) (drop j s) \<noteq> pat" for k
  proof (induction k)
    case (Suc k)
    then show ?case using None find_id_Some [OF assms, of s k] by (auto simp: less_Suc_eq)
  qed simp
  with None show ?thesis by blast
next
  case (Some q)
  then show ?thesis using find_id_Some [OF assms, of s q] by auto
qed

lemma crlf_nonempty [simp]: "crlf \<noteq> []" "length crlf = 2"
  by (simp_all add: crlf_def)

definition crlf_at :: "string8 \<Rightarrow> nat \<Rightarrow> bool" where
  "crlf_at s j \<longleftrightarrow> j + 1 < length s \<and> s ! j = 13 \<and> s ! (j + 1) = 10"

lemma take_crlf: "take 2 (drop j s) = crlf \<longleftrightarrow> crlf_at s j"
proof (cases "j + 1 < length s")
  case True
  then have "drop j s = s ! j # s ! (j + 1) # drop (j + 2) s"
    by (simp add: Cons_nth_drop_Suc)
  with True show ?thesis by (simp add: crlf_at_def crlf_def numeral_2_eq_2)
next
  case False
  then have "length (take 2 (drop j s)) < 2" by simp
  then have "take 2 (drop j s) \<noteq> crlf" by (metis crlf_nonempty(2) less_irrefl)
  with False show ?thesis by (simp add: crlf_at_def)
qed

lemma find_crlf_Some: "find_f id crlf s = Some p \<longleftrightarrow> crlf_at s p \<and> (\<forall>j<p. \<not> crlf_at s j)"
  using find_id_Some [of crlf s p] by (simp add: take_crlf)

lemma find_crlf_None: "find_f id crlf s = None \<longleftrightarrow> (\<forall>j. \<not> crlf_at s j)"
  using find_id_None [of crlf s] by (simp add: take_crlf)

lemma crlf_at_append: "j + 1 < length s \<Longrightarrow> crlf_at (s @ t) j \<longleftrightarrow> crlf_at s j"
  by (simp add: crlf_at_def nth_append)

lemma crlf_at_append2: "length s \<le> j \<Longrightarrow> crlf_at (s @ t) j \<longleftrightarrow> crlf_at t (j - length s)"
  by (auto simp: crlf_at_def nth_append Suc_diff_le)

lemma find_crlf_append:
  assumes "find_f id crlf s = Some p"
  shows "find_f id crlf (s @ t) = Some p"
proof -
  have p: "p + 1 < length s" using assms by (simp add: find_crlf_Some crlf_at_def)
  then show ?thesis using assms by (simp add: find_crlf_Some crlf_at_append)
qed

text \<open>Where the first line end of a longer buffer is when the shorter one has none.\<close>

lemma find_crlf_new:
  assumes "find_f id crlf s = None" "find_f id crlf (s @ t) = Some p"
  shows "(s \<noteq> [] \<and> last s = 13 \<and> t \<noteq> [] \<and> hd t = 10 \<and> p = length s - 1)
    \<or> (length s \<le> p \<and> find_f id crlf t = Some (p - length s))"
proof -
  have p: "crlf_at (s @ t) p" "\<And>j. j < p \<Longrightarrow> \<not> crlf_at (s @ t) j" using assms(2) by (auto simp: find_crlf_Some)
  have none: "\<not> crlf_at s j" for j using assms(1) by (simp add: find_crlf_None)
  consider "p + 1 < length s" | "p + 1 = length s" | "length s \<le> p" by linarith
  then show ?thesis
  proof cases
    case 1
    with p(1) none show ?thesis by (simp add: crlf_at_append)
  next
    case 2
    then have s: "s \<noteq> []" "p = length s - 1" by auto
    with p(1) 2 have "s ! (length s - 1) = 13" "t \<noteq> []" "t ! 0 = 10"
      by (auto simp: crlf_at_def nth_append)
    with s show ?thesis by (simp add: last_conv_nth hd_conv_nth)
  next
    case 3
    have "\<not> crlf_at t j" if "j < p - length s" for j
      using p(2) [of "length s + j"] that by (simp add: crlf_at_append2)
    with 3 p(1) show ?thesis by (simp add: find_crlf_Some crlf_at_append2)
  qed
qed

section \<open>The special line end\<close>

definition luukku_stream :: "string8 \<Rightarrow> bool" where
  "luukku_stream s \<longleftrightarrow> (\<exists>i<length s. \<exists>j<length s. i + 2 < j \<and> j + 3 < length s
     \<and> s ! i = 125 \<and> s ! (i + 1) = 13 \<and> s ! (i + 2) = 10
     \<and> s ! j = 41 \<and> s ! (j + 1) = 93 \<and> s ! (j + 3) = 123)"

lemma luukku_needs_bracket: "93 \<notin> set s \<Longrightarrow> \<not> luukku_stream s"
  by (auto simp: luukku_stream_def in_set_conv_nth)

lemma luukku_streamI:
  "i + 2 < j \<Longrightarrow> j + 3 < length s \<Longrightarrow> s ! i = 125 \<Longrightarrow> s ! (i + 1) = 13 \<Longrightarrow> s ! (i + 2) = 10 \<Longrightarrow>
   s ! j = 41 \<Longrightarrow> s ! (j + 1) = 93 \<Longrightarrow> s ! (j + 3) = 123 \<Longrightarrow> luukku_stream s"
  unfolding luukku_stream_def by (intro exI [of _ i] exI [of _ j] conjI) simp_all

lemma luukku_stream_append: "luukku_stream s \<Longrightarrow> luukku_stream (s @ u)"
  unfolding luukku_stream_def
proof (elim exE conjE)
  fix i j
  assume a: "i < length s" "j < length s" "i + 2 < j" "j + 3 < length s"
    "s ! i = 125" "s ! (i + 1) = 13" "s ! (i + 2) = 10" "s ! j = 41" "s ! (j + 1) = 93" "s ! (j + 3) = 123"
  then show "\<exists>i<length (s @ u). \<exists>j<length (s @ u). i + 2 < j \<and> j + 3 < length (s @ u)
     \<and> (s @ u) ! i = 125 \<and> (s @ u) ! (i + 1) = 13 \<and> (s @ u) ! (i + 2) = 10
     \<and> (s @ u) ! j = 41 \<and> (s @ u) ! (j + 1) = 93 \<and> (s @ u) ! (j + 3) = 123"
    by (intro exI [of _ i] exI [of _ j] conjI) (simp_all add: nth_append)
qed

lemma luukku_stream_prepend: "luukku_stream s \<Longrightarrow> luukku_stream (u @ s)"
  unfolding luukku_stream_def
proof (elim exE conjE)
  fix i j
  assume a: "i < length s" "j < length s" "i + 2 < j" "j + 3 < length s"
    "s ! i = 125" "s ! (i + 1) = 13" "s ! (i + 2) = 10" "s ! j = 41" "s ! (j + 1) = 93" "s ! (j + 3) = 123"
  then show "\<exists>i<length (u @ s). \<exists>j<length (u @ s). i + 2 < j \<and> j + 3 < length (u @ s)
     \<and> (u @ s) ! i = 125 \<and> (u @ s) ! (i + 1) = 13 \<and> (u @ s) ! (i + 2) = 10
     \<and> (u @ s) ! j = 41 \<and> (u @ s) ! (j + 1) = 93 \<and> (u @ s) ! (j + 3) = 123"
    by (intro exI [of _ "length u + i"] exI [of _ "length u + j"] conjI)
      (simp_all add: nth_append add.assoc)
qed

lemma luukku_end_cases:
  assumes "luukku_end s p \<noteq> p"
  obtains pos2 pos3 where "find_f id [93] s = Some pos2"
    "pos3 = pos2 + 2 + length (takeWhile (\<lambda>c. c \<noteq> 125) (take (length s - 1 - (pos2 + 2)) (drop (pos2 + 2) s)))"
    "0 < p" "s ! (p - 1) = 125" "pos2 + 2 < length s" "s ! (pos2 + 2) = 123"
    "pos3 + 2 < length s" "s ! (pos3 + 1) = 13" "s ! (pos3 + 2) = 10" "0 < pos2" "s ! (pos2 - 1) = 41"
    "pos3 + 1 \<noteq> p"
proof -
  obtain pos1 pos2 where l: "last_lf s = Some pos1" and two: "find_f id [93] s = Some pos2"
    using assms by (auto simp: luukku_end_def split: option.splits)
  define pos3 where "pos3 = pos2 + 2 + length (takeWhile (\<lambda>c. c \<noteq> 125) (take (length s - 1 - (pos2 + 2)) (drop (pos2 + 2) s)))"
  have "(if 0 < pos1 \<and> s ! (pos1 - 1) = 13 \<and> p \<noteq> pos1 - 1
                \<and> 0 < p \<and> s ! (p - 1) = 125
                \<and> pos2 + 2 < length s \<and> s ! (pos2 + 2) = 123
                \<and> pos3 + 2 < length s \<and> s ! (pos3 + 1) = 13 \<and> s ! (pos3 + 2) = 10
                \<and> 0 < pos2 \<and> s ! (pos2 - 1) = 41
              then pos3 + 1 else p) \<noteq> p"
    using assms unfolding luukku_end_def l two Let_def prod.case option.case pos3_def .
  then show thesis using that [OF two pos3_def] by (auto split: if_splits)
qed

lemma takeWhile_stop:
  assumes "i \<le> k" "k < length s - 1" "s ! k = c"
  shows "i + length (takeWhile (\<lambda>x. x \<noteq> c) (take (length s - 1 - i) (drop i s))) \<le> k"
proof (rule ccontr)
  let ?w = "takeWhile (\<lambda>x. x \<noteq> c) (take (length s - 1 - i) (drop i s))"
  assume "\<not> i + length ?w \<le> k"
  then have k: "k - i < length ?w" using assms(1) by simp
  then have "?w ! (k - i) \<in> set ?w" by simp
  then have "?w ! (k - i) \<noteq> c" using set_takeWhileD by fastforce
  moreover have "?w ! (k - i) = s ! k" using k assms(1,2) by (simp add: takeWhile_nth)
  ultimately show False using assms(3) by simp
qed

lemma luukku_end_plain:
  assumes "\<not> luukku_stream s" "find_f id crlf s = Some p"
  shows "luukku_end s p = p"
proof (rule ccontr)
  assume "luukku_end s p \<noteq> p"
  then obtain pos2 pos3 where two: "find_f id [93] s = Some pos2"
    and three: "pos3 = pos2 + 2 + length (takeWhile (\<lambda>c. c \<noteq> 125) (take (length s - 1 - (pos2 + 2)) (drop (pos2 + 2) s)))"
    and f: "0 < p" "s ! (p - 1) = 125" "pos2 + 2 < length s" "s ! (pos2 + 2) = 123"
    "pos3 + 2 < length s" "s ! (pos3 + 1) = 13" "s ! (pos3 + 2) = 10" "0 < pos2" "s ! (pos2 - 1) = 41"
    "pos3 + 1 \<noteq> p"
    by (rule luukku_end_cases)
  have p: "p + 1 < length s" "s ! p = 13" "s ! (p + 1) = 10" "\<And>j. j < p \<Longrightarrow> \<not> crlf_at s j"
    using assms(2) by (auto simp: find_crlf_Some crlf_at_def)
  have "take (length [93]) (drop pos2 s) = [93 :: byte]"
    using two find_id_Some [of "[93]" s pos2] by simp
  then have br: "s ! pos2 = 93" using f(3) by (cases "drop pos2 s") (auto simp: nth_via_drop)
  show False
  proof (cases "pos2 < p")
    case True
    have "pos2 \<noteq> p - 1" using br f(2) by auto
    moreover have "pos2 + 2 \<noteq> p" using f(4) p(2) by auto
    moreover have "pos2 + 2 \<noteq> p + 1" using f(4) p(3) by auto
    moreover have "pos2 + 2 \<noteq> p - 1" using f(2,4) by auto
    ultimately have less: "pos2 + 2 < p - 1" using True by linarith
    then have "pos3 \<le> p - 1" unfolding three using p(1) f(2) by (intro takeWhile_stop) auto
    with f(1,10) have "pos3 + 1 < p" by linarith
    moreover have "crlf_at s (pos3 + 1)" using f(5,6,7) by (simp add: crlf_at_def)
    ultimately show False using p(4) by blast
  next
    case False
    have "pos2 - 1 \<noteq> p" using f(9) p(2) by auto
    moreover have "pos2 - 1 \<noteq> p - 1" using f(2,9) by auto
    moreover have "pos2 - 1 \<noteq> p + 1" using f(9) p(3) by auto
    moreover have "pos2 \<noteq> p" using br p(2) by auto
    ultimately have "p + 1 < pos2 - 1" using False f(1,8) by linarith
    moreover obtain i j where "p = Suc i" "pos2 = Suc j" using f(1,8) by (metis Suc_pred)
    ultimately have "luukku_stream s"
      using f(2-4,9) p(1,2,3) br by (intro luukku_streamI [of i j]) (auto simp: numeral_3_eq_3)
    with assms(1) show False by simp
  qed
qed

lemma line_end_plain: "\<not> luukku_stream s \<Longrightarrow> line_end s = find_f id crlf s"
  by (cases "find_f id crlf s") (simp_all add: line_end_def luukku_end_plain)

section \<open>One block\<close>

text \<open>The end of a line is split, and the line is empty.\<close>

definition splits_empty_line :: "input_state \<Rightarrow> string8 \<Rightarrow> bool" where
  "splits_empty_line s buffer \<longleftrightarrow>
     iCommandLiteralRequestSize s = 0 \<and> iInputCache s = [13] \<and> buffer \<noteq> [] \<and> hd buffer = 10"

text \<open>What the loop sees of a block that was found: the data and the bytes that follow.\<close>

definition find_line :: "string8 \<Rightarrow> string8 \<Rightarrow> (string8 \<times> string8) option" where
  "find_line cache buffer =
     (if buffer \<noteq> [] \<and> hd buffer = 10 \<and> cache \<noteq> [] \<and> last cache = 13 then Some (butlast cache, tl buffer)
      else case find_f id crlf buffer of
        None \<Rightarrow> None
      | Some p \<Rightarrow> Some (cache @ take p buffer, drop (p + 2) buffer))"

lemma TryFindLineL_find_line:
  assumes "\<not> luukku_stream (iInputBuffer s)" "iCommandLiteralRequestSize s = 0"
    "\<not> splits_empty_line s (iInputBuffer s)"
  shows "case find_line (iInputCache s) (iInputBuffer s) of
      None \<Rightarrow> \<exists>d. TryFindLineL s = (False, d, s\<lparr> iInputCache := iInputCache s @ iInputBuffer s, iInputBuffer := [] \<rparr>)
    | Some (data, rest) \<Rightarrow> \<exists>cache. TryFindLineL s = (True, data, s\<lparr> iInputCache := cache, iInputBuffer := rest \<rparr>)"
proof (cases "iInputBuffer s \<noteq> [] \<and> hd (iInputBuffer s) = 10 \<and> iInputCache s \<noteq> [] \<and> last (iInputCache s) = 13")
  case True
  then have "butlast (iInputCache s) \<noteq> []"
    using assms(2,3) by (cases "iInputCache s" rule: rev_cases) (auto simp: splits_empty_line_def)
  then show ?thesis using True
    by (auto simp: TryFindLineL_def find_line_def Let_def intro!: exI [of _ "iInputCache s"])
next
  case False
  show ?thesis
  proof (cases "find_f id crlf (iInputBuffer s)")
    case None
    moreover have "line_end [] = None" by (simp add: line_end_def crlf_def)
    ultimately show ?thesis using False
      by (auto simp: TryFindLineL_def find_line_def line_end_plain [OF assms(1)] Let_def crlf_def)
  next
    case (Some p)
    let ?cache = "if iInputCache s = [] then iInputCache s else iInputCache s @ take p (iInputBuffer s)"
    have "TryFindLineL s = (True, iInputCache s @ take p (iInputBuffer s),
        s\<lparr> iInputCache := ?cache, iInputBuffer := drop (p + 2) (iInputBuffer s) \<rparr>)"
      using False Some line_end_plain [OF assms(1)]
      by (cases s; cases "iInputCache s = []") (auto simp: TryFindLineL_def Let_def)
    moreover have "find_line (iInputCache s) (iInputBuffer s) =
        Some (iInputCache s @ take p (iInputBuffer s), drop (p + 2) (iInputBuffer s))"
      using False Some by (auto simp: find_line_def)
    ultimately show ?thesis by auto
  qed
qed

lemma find_line_append:
  assumes "find_line cache a = Some (data, rest)"
  shows "find_line cache (a @ b) = Some (data, rest @ b)"
proof (cases "a \<noteq> [] \<and> hd a = 10 \<and> cache \<noteq> [] \<and> last cache = 13")
  case True
  with assms show ?thesis by (auto simp: find_line_def)
next
  case False
  then obtain p where p: "find_f id crlf a = Some p" "data = cache @ take p a" "rest = drop (p + 2) a"
    using assms by (auto simp: find_line_def split: if_splits option.splits)
  then have len: "p + 1 < length a" by (simp add: find_crlf_Some crlf_at_def)
  with False have "\<not> (a @ b \<noteq> [] \<and> hd (a @ b) = 10 \<and> cache \<noteq> [] \<and> last cache = 13)" by (cases a) auto
  with p len show ?thesis by (auto simp: find_line_def find_crlf_append)
qed

lemma find_line_later:
  assumes "find_line cache a = None" "a \<noteq> []"
  shows "find_line cache (a @ b) = find_line (cache @ a) b"
proof -
  have none: "find_f id crlf a = None" and sp: "\<not> (hd a = 10 \<and> cache \<noteq> [] \<and> last cache = 13)"
    using assms by (auto simp: find_line_def split: if_splits option.splits)
  have whole: "find_line cache (a @ b) = (case find_f id crlf (a @ b) of
      None \<Rightarrow> None | Some p \<Rightarrow> Some (cache @ take p (a @ b), drop (p + 2) (a @ b)))"
    using sp assms(2) by (auto simp: find_line_def)
  show ?thesis
  proof (cases "b \<noteq> [] \<and> hd b = 10 \<and> last a = 13")
    case True
    then have at: "crlf_at (a @ b) (length a - 1)"
      using assms(2) by (auto simp: crlf_at_def nth_append last_conv_nth hd_conv_nth)
    then obtain p where p: "find_f id crlf (a @ b) = Some p"
      using find_crlf_None [of "a @ b"] by fastforce
    have "p \<le> length a - 1" using p at by (metis find_crlf_Some not_le)
    with find_crlf_new [OF none p] assms(2) have "p = length a - 1" by (cases a) auto
    with p True assms(2) show ?thesis unfolding whole
      by (cases b; cases a rule: rev_cases) (simp_all add: find_line_def butlast_append)
  next
    case False
    show ?thesis
    proof (cases "find_f id crlf (a @ b)")
      case None
      then have "find_f id crlf b = None"
        unfolding find_crlf_None by (metis crlf_at_append2 le_add1 diff_add_inverse)
      with None False show ?thesis unfolding whole using assms(2) by (auto simp: find_line_def)
    next
      case (Some p)
      with find_crlf_new [OF none Some] False have "length a \<le> p" "find_f id crlf b = Some (p - length a)" by auto
      with Some False show ?thesis unfolding whole using assms(2) by (auto simp: find_line_def Suc_diff_le)
    qed
  qed
qed

definition next_block :: "tint \<Rightarrow> string8 \<Rightarrow> string8 \<Rightarrow> (string8 \<times> string8) option leaving" where
  "next_block n cache buffer =
     (if n = 0 then Inr (find_line cache buffer)
      else if sint n \<le> int (length buffer) + int (length cache) then
        if sint n < int (length cache) \<or> sint n < 0 then Inl KPanicIndex
        else Inr (Some (cache @ take (nat (sint n) - length cache) buffer, drop (nat (sint n) - length cache) buffer))
      else Inr None)"

lemma find_block_next:
  assumes "\<not> luukku_stream (iInputBuffer s)" "\<not> splits_empty_line s (iInputBuffer s)"
  shows "case next_block (iCommandLiteralRequestSize s) (iInputCache s) (iInputBuffer s) of
      Inl e \<Rightarrow> find_block s = Inl e
    | Inr None \<Rightarrow> \<exists>d. find_block s = Inr (False, d, s\<lparr> iInputCache := iInputCache s @ iInputBuffer s, iInputBuffer := [] \<rparr>)
    | Inr (Some (data, rest)) \<Rightarrow>
        \<exists>cache. find_block s = Inr (True, data, s\<lparr> iInputCache := cache, iInputBuffer := rest \<rparr>)"
proof (cases "iCommandLiteralRequestSize s = 0")
  case True
  with TryFindLineL_find_line [OF assms(1) True assms(2)] show ?thesis
    by (auto simp: next_block_def find_block_def split: option.splits)
next
  case False
  let ?n = "nat (sint (iCommandLiteralRequestSize s))"
  show ?thesis
  proof (cases "iInputCache s = []")
    case True
    with False show ?thesis
      by (cases s) (auto simp: next_block_def find_block_def TryFindLiteralBlockL_def Let_def)
  next
    case cached: False
    have "nat (sint (iCommandLiteralRequestSize s) - int (length (iInputCache s))) = ?n - length (iInputCache s)"
      by (simp add: nat_diff_distrib')
    with False cached show ?thesis
      by (auto simp: next_block_def find_block_def TryFindLiteralBlockL_def Let_def)
  qed
qed

lemma next_block_append:
  "next_block n cache a = Inr (Some (data, rest)) \<Longrightarrow> next_block n cache (a @ b) = Inr (Some (data, rest @ b))"
  "next_block n cache a = Inl e \<Longrightarrow> next_block n cache (a @ b) = Inl e"
proof -
  assume a: "next_block n cache a = Inr (Some (data, rest))"
  show "next_block n cache (a @ b) = Inr (Some (data, rest @ b))"
  proof (cases "n = 0")
    case True
    with a show ?thesis by (simp add: next_block_def find_line_append)
  next
    case False
    with a have n: "sint n \<le> int (length a) + int (length cache)" "\<not> sint n < int (length cache)" "\<not> sint n < 0"
      "data = cache @ take (nat (sint n) - length cache) a" "rest = drop (nat (sint n) - length cache) a"
      by (auto simp: next_block_def split: if_splits)
    then have "nat (sint n) - length cache \<le> length a" by linarith
    with n False show ?thesis by (simp add: next_block_def)
  qed
next
  show "next_block n cache a = Inl e \<Longrightarrow> next_block n cache (a @ b) = Inl e"
    by (auto simp: next_block_def split: if_splits)
qed

lemma next_block_later:
  assumes "next_block n cache a = Inr None" "a \<noteq> []"
  shows "next_block n cache (a @ b) = next_block n (cache @ a) b"
proof (cases "n = 0")
  case True
  with assms find_line_later show ?thesis by (auto simp: next_block_def)
next
  case False
  with assms have n: "\<not> sint n \<le> int (length a) + int (length cache)" by (auto simp: next_block_def split: if_splits)
  then have "\<not> nat (sint n) < length a + length cache" by linarith
  with n False show ?thesis by (auto simp: next_block_def)
qed

section \<open>The loop\<close>

definition after_block :: "('c \<Rightarrow> tint) \<Rightarrow> parse_state \<Rightarrow> 'c \<Rightarrow> input_state \<Rightarrow> string8 \<Rightarrow> input_state" where
  "after_block expected st c s rest = s\<lparr> iInputBuffer := rest, iInputCache := [],
     iCommandLiteralRequestSize := (if st = EWaitLiteralParse \<or> st = EWaitLiteralIngore then expected c else 0) \<rparr>"

lemma after_block_fields [simp]:
  "iInputBuffer (after_block expected st c s rest) = rest"
  "iInputCache (after_block expected st c s rest) = []"
  "(after_block expected st c s rest)\<lparr> iInputBuffer := b \<rparr> = after_block expected st c s b"
  "after_block expected st c (s\<lparr> iInputBuffer := b \<rparr>) rest = after_block expected st c s rest"
  by (simp_all add: after_block_def)

lemma process_next:
  assumes "\<not> luukku_stream (iInputBuffer s)" "\<not> splits_empty_line s (iInputBuffer s)" "iInputBuffer s \<noteq> []"
  shows "process_input parse expected pause s c =
    (case next_block (iCommandLiteralRequestSize s) (iInputCache s) (iInputBuffer s) of
       Inl e \<Rightarrow> (EPanicked e, s, c)
     | Inr None \<Rightarrow> (EReadMore, s\<lparr> iInputCache := iInputCache s @ iInputBuffer s, iInputBuffer := [] \<rparr>, c)
     | Inr (Some (data, rest)) \<Rightarrow>
         (case parse data c of
            Inl e \<Rightarrow> (EFailed e, after_block expected ECommandComplete c s rest, c)
          | Inr (st, c') \<Rightarrow>
              if st = ECommandComplete then (EFinished, after_block expected st c' s rest, c')
              else if st = EWaitStartResponse \<and> pause c' then (EPaused, after_block expected st c' s rest, c')
              else process_input parse expected pause (after_block expected st c' s rest) c'))"
proof (cases "next_block (iCommandLiteralRequestSize s) (iInputCache s) (iInputBuffer s)")
  case (Inl e)
  with find_block_next [OF assms(1,2)] assms(3) show ?thesis by (simp add: process_input.simps [of _ _ _ s])
next
  case (Inr q)
  show ?thesis
  proof (cases q)
    case None
    with Inr find_block_next [OF assms(1,2)] assms(3) show ?thesis
      by (auto simp: process_input.simps [of _ _ _ s])
  next
    case (Some dr)
    obtain data rest where dr: "dr = (data, rest)" by fastforce
    then obtain cache where f: "find_block s = Inr (True, data, s\<lparr> iInputCache := cache, iInputBuffer := rest \<rparr>)"
      using find_block_next [OF assms(1,2)] Inr Some by auto
    show ?thesis
      using f Inr Some dr assms(3)
      by (subst process_input.simps)
        (auto simp: after_block_def block_delivered_def split: sum.split parse_state.split)
  qed
qed

lemma no_luukku_part: "\<not> luukku_stream (a @ b) \<Longrightarrow> \<not> luukku_stream a \<and> \<not> luukku_stream b"
  using luukku_stream_append luukku_stream_prepend by blast

lemma rest_part: "\<exists>u. a = u @ drop n a" "a \<noteq> [] \<Longrightarrow> \<exists>u. a = u @ tl a"
proof -
  show "\<exists>u. a = u @ drop n a" by (rule exI [of _ "take n a"]) simp
  show "a \<noteq> [] \<Longrightarrow> \<exists>u. a = u @ tl a" by (rule exI [of _ "[hd a]"]) simp
qed

lemma next_block_rest:
  assumes "next_block n cache a = Inr (Some (data, rest))"
  shows "\<exists>u. a = u @ rest"
  using assms rest_part
  by (auto simp: next_block_def find_line_def simp del: drop_Suc_Cons split: if_splits option.splits)

lemma next_block_waits: "next_block n cache a = Inr None \<Longrightarrow> next_block n (cache @ a) b \<noteq> Inl e"
  by (auto simp: next_block_def split: if_splits)

lemma after_block_any: "after_block expected st c s rest = \<lparr> iInputBuffer = rest, iInputCache = [],
     iCommandLiteralRequestSize = (if st = EWaitLiteralParse \<or> st = EWaitLiteralIngore then expected c else 0) \<rparr>"
  by (cases s) (simp add: after_block_def)

lemma next_block_progress:
  assumes "\<not> luukku_stream (iInputBuffer s)" "\<not> splits_empty_line s (iInputBuffer s)" "iInputBuffer s \<noteq> []"
    "next_block (iCommandLiteralRequestSize s) (iInputCache s) (iInputBuffer s) = Inr (Some (data, rest))"
  shows "length rest < length (iInputBuffer s) + length (iInputCache s)"
proof -
  obtain cache where "find_block s = Inr (True, data, s\<lparr> iInputCache := cache, iInputBuffer := rest \<rparr>)"
    using find_block_next [OF assms(1,2)] assms(4) by auto
  from find_block_progress [OF this assms(3)] show ?thesis by simp
qed

lemma process_chunks:
  assumes "process_input parse expected pause s c = (r, s1, c1)" "iInputBuffer s \<noteq> []" "b \<noteq> []"
    "\<not> luukku_stream (iInputBuffer s @ b)" "\<not> splits_empty_line s (iInputBuffer s)"
    "r = EReadMore \<Longrightarrow> \<not> splits_empty_line s1 b"
  shows "process_input parse expected pause (s\<lparr> iInputBuffer := iInputBuffer s @ b \<rparr>) c =
    (if r = EReadMore then process_input parse expected pause (s1\<lparr> iInputBuffer := b \<rparr>) c1
     else (r, s1\<lparr> iInputBuffer := iInputBuffer s1 @ b \<rparr>, c1))"
  using assms
proof (induction "length (iInputBuffer s) + length (iInputCache s)" arbitrary: s c rule: less_induct)
  case less
  let ?a = "iInputBuffer s"
  let ?s = "s\<lparr> iInputBuffer := ?a @ b \<rparr>"
  note quiet = no_luukku_part [OF less.prems(4)]
  have "\<not> luukku_stream (iInputBuffer ?s)" "\<not> splits_empty_line ?s (iInputBuffer ?s)" "iInputBuffer ?s \<noteq> []"
    using less.prems(2,4,5) by (auto simp: splits_empty_line_def)
  note two = process_next [OF this, of parse expected pause c, simplified]
  note one = process_next [OF conjunct1 [OF quiet] less.prems(5,2), of parse expected pause c]
  show ?case
  proof (cases "next_block (iCommandLiteralRequestSize s) (iInputCache s) ?a")
    case (Inl e)
    with one less.prems(1) next_block_append(2) [OF Inl, of b] two show ?thesis by auto
  next
    case (Inr q)
    show ?thesis
    proof (cases q)
      case None
      with one less.prems(1) Inr
      have f: "r = EReadMore" "s1 = s\<lparr> iInputCache := iInputCache s @ ?a, iInputBuffer := [] \<rparr>" "c1 = c" by auto
      let ?t = "s1\<lparr> iInputBuffer := b \<rparr>"
      have "\<not> luukku_stream (iInputBuffer ?t)" "\<not> splits_empty_line ?t (iInputBuffer ?t)" "iInputBuffer ?t \<noteq> []"
        using less.prems(3,6) f(1) quiet by (auto simp: splits_empty_line_def)
      note three = process_next [OF this, of parse expected pause c, simplified]
      show ?thesis
        unfolding two three f(1,3) simp_thms if_True
        using next_block_later [OF Inr [unfolded None] less.prems(2), of b] next_block_waits [OF Inr [unfolded None], of b]
        by (auto simp: f(2) after_block_any split: sum.split option.split)
    next
      case (Some dr)
      obtain data rest where dr: "dr = (data, rest)" by fastforce
      note found = Inr [unfolded Some dr]
      note longer = next_block_append(1) [OF found, of b]
      obtain u where u: "?a = u @ rest" using next_block_rest [OF found] by blast
      have less_rest: "length rest < length ?a + length (iInputCache s)"
        using next_block_progress [OF conjunct1 [OF quiet] less.prems(5,2) found] .
      show ?thesis
      proof (cases "parse data c")
        case (Inl e)
        then show ?thesis using one two less.prems(1) found longer by auto
      next
        case (Inr sc)
        obtain st c' where sc: "sc = (st, c')" by fastforce
        let ?t = "after_block expected st c' s rest"
        show ?thesis
        proof (cases "st = ECommandComplete \<or> st = EWaitStartResponse \<and> pause c'")
          case True
          then show ?thesis using one two less.prems(1) found longer Inr sc by auto
        next
          case False
          then have p: "process_input parse expected pause ?t c' = (r, s1, c1)"
            using one less.prems(1) found Inr sc by auto
          have "process_input parse expected pause ?s c =
              process_input parse expected pause (?t\<lparr> iInputBuffer := rest @ b \<rparr>) c'"
            using two False longer Inr sc by auto
          also have "\<dots> = (if r = EReadMore then process_input parse expected pause (s1\<lparr> iInputBuffer := b \<rparr>) c1
              else (r, s1\<lparr> iInputBuffer := iInputBuffer s1 @ b \<rparr>, c1))"
          proof (cases "rest = []")
            case True
            then have "process_input parse expected pause ?t c' = (EReadMore, ?t, c')"
              by (subst process_input.simps) simp
            then show ?thesis using p True by auto
          next
            case nonempty: False
            have "\<not> luukku_stream (rest @ b)" using less.prems(4) u no_luukku_part [of u "rest @ b"] by simp
            then show ?thesis
              using less.hyps [of ?t c'] p less_rest nonempty less.prems(3,6) by (simp add: splits_empty_line_def)
          qed
          finally show ?thesis .
        qed
      qed
    qed
  qed
qed

end
