(* ===== verification/Imap_Stream.thy ===== *)
theory Imap_Stream
  imports Imap_Frames_Laws
begin

text \<open>
  The session and a command together: the bytes of whole responses are cut into the blocks the
  command expects, so a command completes on the bytes the server sends.
\<close>

section \<open>The bytes of a response\<close>

fun bytes_of :: "string8 list \<Rightarrow> string8" where
  "bytes_of [] = []"
| "bytes_of [l] = l @ crlf"
| "bytes_of (l # lit # ls) = l @ crlf @ lit @ bytes_of ls"

fun framed :: "string8 list \<Rightarrow> bool" where
  "framed [] \<longleftrightarrow> True"
| "framed [l] \<longleftrightarrow> find_f id crlf l = None"
| "framed (l # lit # ls) \<longleftrightarrow>
     find_f id crlf l = None \<and> int (length lit) = sint (announced l) \<and> framed ls"

lemma find_first_line: "find_f id crlf l = None \<Longrightarrow> find_f id crlf (l @ crlf @ rest) = Some (length l)"
proof -
  assume none: "find_f id crlf l = None"
  have "crlf_at (l @ crlf @ rest) (length l)" by (simp add: crlf_at_def crlf_def nth_append)
  moreover have "\<not> crlf_at (l @ crlf @ rest) j" if j: "j < length l" for j
  proof (cases "j + 1 = length l")
    case True
    then show ?thesis by (simp add: crlf_at_def crlf_def nth_append)
  next
    case False
    with j none show ?thesis by (simp add: crlf_at_append find_crlf_None)
  qed
  ultimately show ?thesis by (simp add: find_crlf_Some)
qed

lemma find_line_first: "find_f id crlf l = None \<Longrightarrow> find_line [] (l @ crlf @ rest) = Some (l, rest)"
  using find_first_line [of l rest] by (simp add: find_line_def)

definition ready :: "tint \<Rightarrow> string8 \<Rightarrow> input_state" where
  "ready n buffer = \<lparr> iInputBuffer = buffer, iInputCache = [], iCommandLiteralRequestSize = n \<rparr>"

lemma ready_fields [simp]:
  "iInputBuffer (ready n b) = b" "iInputCache (ready n b) = []" "iCommandLiteralRequestSize (ready n b) = n"
  by (simp_all add: ready_def)

lemma after_block_ready:
  "after_block expected st c s rest =
     ready (if st = EWaitLiteralParse \<or> st = EWaitLiteralIngore then expected c else 0) rest"
  by (simp add: ready_def after_block_any)

lemma process_line:
  assumes "\<not> luukku_stream (l @ crlf @ rest)" "find_f id crlf l = None"
  shows "process_input parse expected pause (ready 0 (l @ crlf @ rest)) c =
    (case parse l c of
       Inl e \<Rightarrow> (EFailed e, ready 0 rest, c)
     | Inr (st, c') \<Rightarrow>
         if st = ECommandComplete then (EFinished, ready 0 rest, c')
         else if st = EWaitStartResponse \<and> pause c' then (EPaused, ready 0 rest, c')
         else process_input parse expected pause
           (ready (if st = EWaitLiteralParse \<or> st = EWaitLiteralIngore then expected c' else 0) rest) c')"
proof -
  have "\<not> splits_empty_line (ready 0 (l @ crlf @ rest)) (l @ crlf @ rest)" by (simp add: splits_empty_line_def)
  moreover have "l @ crlf @ rest \<noteq> []" by (simp add: crlf_def)
  moreover have "next_block 0 [] (l @ crlf @ rest) = Inr (Some (l, rest))"
    by (simp add: next_block_def find_line_first [OF assms(2)])
  ultimately show ?thesis
    using process_next [of "ready 0 (l @ crlf @ rest)" parse expected pause c] assms(1)
    by (simp add: after_block_ready split: sum.split)
qed

lemma process_literal:
  assumes "\<not> luukku_stream (lit @ rest)" "0 <s n" "int (length lit) = sint n"
  shows "process_input parse expected pause (ready n (lit @ rest)) c =
    (case parse lit c of
       Inl e \<Rightarrow> (EFailed e, ready 0 rest, c)
     | Inr (st, c') \<Rightarrow>
         if st = ECommandComplete then (EFinished, ready 0 rest, c')
         else if st = EWaitStartResponse \<and> pause c' then (EPaused, ready 0 rest, c')
         else process_input parse expected pause
           (ready (if st = EWaitLiteralParse \<or> st = EWaitLiteralIngore then expected c' else 0) rest) c')"
proof -
  have n: "0 < sint n" using assms(2) by (simp add: word_sless_alt)
  then have ne: "n \<noteq> 0" "lit @ rest \<noteq> []" "nat (sint n) = length lit" using assms(3) by auto
  then have "\<not> splits_empty_line (ready n (lit @ rest)) (lit @ rest)" by (simp add: splits_empty_line_def)
  moreover have "next_block n [] (lit @ rest) = Inr (Some (lit, rest))"
    using ne n assms(3) by (simp add: next_block_def)
  ultimately show ?thesis
    using process_next [of "ready n (lit @ rest)" parse expected pause c] assms(1) ne(2)
    by (simp add: after_block_ready split: sum.split)
qed

section \<open>Streams of ignored responses\<close>

context ignoring
begin

abbreviation session :: "input_state \<Rightarrow> 'm imap_command_scheme \<Rightarrow> process_outcome \<times> input_state \<times> 'm imap_command_scheme" where
  "session \<equiv> process_input step iLiteralBytesExpected (\<lambda>_. False)"

definition session_reaches :: "'m imap_command_scheme \<Rightarrow> tint \<Rightarrow> string8 \<Rightarrow> 'm imap_command_scheme \<Rightarrow> bool" where
  "session_reaches c n bs d \<longleftrightarrow> ok d \<and> iParseState d = EWaitStartResponse \<and>
     (\<forall>rest. \<not> luukku_stream (bs @ rest) \<longrightarrow> session (ready n (bs @ rest)) c = session (ready 0 rest) d)"

lemma session_line:
  assumes "step l c = Inr (iParseState d, d)" "ignored_line l d" "find_f id crlf l = None"
    "\<not> luukku_stream (l @ crlf @ rest)"
  shows "session (ready 0 (l @ crlf @ rest)) c = session (ready (if announces l then announced l else 0) rest) d"
  using process_line [OF assms(4,3), of step iLiteralBytesExpected "\<lambda>_. False" c] assms(1,2)
  by (auto simp: ignored_line_def)

lemma session_announced:
  assumes "step l c = Inr (iParseState d, d)" "ignored_line l d" "announces l" "framed (l # lit # ls)"
    "step lit d = Inr (iParseState e, e)" "iParseState e = EWaitLineIgnore" "session_reaches e 0 (bytes_of ls) g"
  shows "session_reaches c 0 (bytes_of (l # lit # ls)) g"
proof -
  have "session (ready 0 (l @ crlf @ lit @ bytes_of ls @ rest)) c = session (ready 0 rest) g"
    if quiet: "\<not> luukku_stream (l @ crlf @ lit @ bytes_of ls @ rest)" for rest
  proof -
    have q: "\<not> luukku_stream (lit @ bytes_of ls @ rest)" "\<not> luukku_stream (bytes_of ls @ rest)"
      using quiet no_luukku_part [of "l @ crlf" "lit @ bytes_of ls @ rest"] no_luukku_part [of lit "bytes_of ls @ rest"]
      by auto
    have "session (ready (announced l) (lit @ bytes_of ls @ rest)) d = session (ready 0 (bytes_of ls @ rest)) e"
      using process_literal [OF q(1), of "announced l" step iLiteralBytesExpected "\<lambda>_. False" d] assms(3-6)
      by (simp add: announces_def)
    moreover have "session (ready 0 (bytes_of ls @ rest)) e = session (ready 0 rest) g"
      using assms(7) q(2) by (simp add: session_reaches_def)
    ultimately show ?thesis using session_line [OF assms(1,2) _ quiet] assms(3,4) by simp
  qed
  with assms(7) show ?thesis by (simp add: session_reaches_def)
qed

lemma session_last:
  assumes "step l c = Inr (iParseState d, d)" "ok d" "ignored_line l d" "\<not> announces l" "framed [l]"
  shows "session_reaches c 0 (bytes_of [l]) d"
  using assms session_line [OF assms(1,3)] by (simp add: session_reaches_def ignored_line_def)

lemma session_rest:
  "well_announced ls \<Longrightarrow> framed ls \<Longrightarrow> ok c \<Longrightarrow> iParseState c = EWaitLineIgnore \<Longrightarrow>
   \<exists>d. session_reaches c 0 (bytes_of ls) d"
proof (induction ls arbitrary: c rule: well_announced.induct)
  case (2 l)
  then obtain d where "step l c = Inr (iParseState d, d)" "ok d" "ignored_line l d"
    using line_after [of c l] by auto
  with 2 session_last show ?case by (metis well_announced.simps(2))
next
  case (3 l lit ls)
  then obtain d where d: "step l c = Inr (iParseState d, d)" "ok d" "ignored_line l d" "announces l"
    using line_after [of c l] by auto
  then obtain e where e: "step lit d = Inr (iParseState e, e)" "ok e" "iParseState e = EWaitLineIgnore"
    using literal_block [of d lit] by (auto simp: ignored_line_def)
  with 3 obtain g where "session_reaches e 0 (bytes_of ls) g" by auto
  with session_announced [OF d(1,3,4) 3(3) e(1,3)] show ?case by blast
qed simp

lemma session_response:
  assumes "untagged_response ls" "framed ls" "ok c" "iParseState c = EWaitStartResponse"
  shows "\<exists>d. session_reaches c 0 (bytes_of ls) d"
proof (cases ls rule: well_announced.cases)
  case (2 l)
  with assms obtain d where "step l c = Inr (iParseState d, d)" "ok d" "ignored_line l d" "\<not> announces l"
    using untagged_line [of c l] by (auto simp: untagged_response_def)
  with 2 assms(2) session_last show ?thesis by blast
next
  case (3 l lit ms)
  with assms obtain d where d: "step l c = Inr (iParseState d, d)" "ok d" "ignored_line l d" "announces l"
    using untagged_line [of c l] by (auto simp: untagged_response_def)
  then obtain e where e: "step lit d = Inr (iParseState e, e)" "ok e" "iParseState e = EWaitLineIgnore"
    using literal_block [of d lit] by (auto simp: ignored_line_def)
  have f: "well_announced ms" "framed ms" using 3 assms(1,2) by (auto simp: untagged_response_def)
  obtain g where "session_reaches e 0 (bytes_of ms) g" using session_rest [OF f e(2,3)] by blast
  with session_announced [OF d(1,3,4) assms(2) [unfolded 3] e(1,3)] 3 show ?thesis by blast
qed (use assms in \<open>simp add: untagged_response_def\<close>)

lemma session_responses:
  "\<forall>r\<in>set rs. untagged_response r \<and> framed r \<Longrightarrow> ok c \<Longrightarrow> iParseState c = EWaitStartResponse \<Longrightarrow>
   \<exists>d. session_reaches c 0 (concat (map bytes_of rs)) d"
proof (induction rs arbitrary: c)
  case Nil
  then have "session_reaches c 0 [] c" by (simp add: session_reaches_def)
  then show ?case by auto
next
  case (Cons r rs)
  then obtain d where d: "session_reaches c 0 (bytes_of r) d" using session_response [of r c] by auto
  then have "ok d" "iParseState d = EWaitStartResponse" by (auto simp: session_reaches_def)
  with Cons obtain e where e: "session_reaches d 0 (concat (map bytes_of rs)) e" by auto
  have "session (ready 0 (bytes_of r @ concat (map bytes_of rs) @ rest)) c = session (ready 0 rest) e"
    if quiet: "\<not> luukku_stream (bytes_of r @ concat (map bytes_of rs) @ rest)" for rest
    using d e quiet no_luukku_part [OF quiet] by (simp add: session_reaches_def)
  with e have "session_reaches c 0 (concat (map bytes_of (r # rs))) e" by (simp add: session_reaches_def)
  then show ?case by blast
qed

end

section \<open>A command without methods of its own completes on the bytes of its answer\<close>

lemma plain_session:
  assumes "waiting t c" "iParseState c = EWaitStartResponse"
    "\<forall>r\<in>set rs. untagged_response r \<and> framed r"
    "tag_of l = Inr (ETagged t)" "state_code f (snd (next_part l)) \<noteq> EImapResponseNone" "framed [l]"
    "\<not> luukku_stream (concat (map bytes_of rs) @ bytes_of [l] @ rest)"
  shows "\<exists>d. process_input (ParseBlockL f (DoParseBlockL (command_ex f))) iLiteralBytesExpected (\<lambda>_. False)
      (ready 0 (concat (map bytes_of rs) @ bytes_of [l] @ rest)) c = (EFinished, ready 0 rest, d)
    \<and> iResponseCode d = state_code f (snd (next_part l))"
proof -
  obtain d where d: "plain.session_reaches f f t c 0 (concat (map bytes_of rs)) d"
    using plain.session_responses [OF assms(3,1,2)] by blast
  then have "waiting t d" "iParseState d = EWaitStartResponse" by (auto simp: plain.session_reaches_def)
  with assms(4,5) obtain e where e: "ParseBlockL f (DoParseBlockL (command_ex f)) l d = Inr (ECommandComplete, e)"
    "iResponseCode e = state_code f (snd (next_part l))"
    using plain_tagged [of t d l f f] by auto
  have "\<not> luukku_stream (l @ crlf @ rest)"
    using no_luukku_part [of "concat (map bytes_of rs)" "bytes_of [l] @ rest"] assms(7) by simp
  from process_line [OF this, of "ParseBlockL f (DoParseBlockL (command_ex f))" iLiteralBytesExpected "\<lambda>_. False" d]
    assms(6) e(1)
  have "process_input (ParseBlockL f (DoParseBlockL (command_ex f))) iLiteralBytesExpected (\<lambda>_. False)
      (ready 0 (l @ crlf @ rest)) d = (EFinished, ready 0 rest, e)" by simp
  with d assms(7) e(2) show ?thesis by (simp add: plain.session_reaches_def)
qed

end
