(* ===== verification/Imap_Sequence.thy ===== *)
theory Imap_Sequence
  imports Imap_Text
begin

text \<open>
  \<open>CImapSession::CreateSequenceSetLC\<close> (imapsession/src/cimapsession.cpp): the text that names a set of
  message uids, with runs of neighbours as ranges. Read as RFC 3501 reads a sequence set, the text
  gives each uid once, in order. \<open>%d\<close> prints a uid as a signed number.
\<close>

section \<open>The loop\<close>

definition show_uid :: "tint \<Rightarrow> string8" where
  "show_uid n = show_int (sint n)"

fun sequence_loop :: "tint list \<Rightarrow> tint \<Rightarrow> bool \<Rightarrow> string8 \<Rightarrow> string8" where
  "sequence_loop [] prevUid inRange out = (if inRange then out @ 58 # show_uid prevUid else out)"
| "sequence_loop (x # xs) prevUid inRange out =
     (if prevUid < x then
        if inRange \<and> prevUid + 1 < x then
          sequence_loop xs x False (out @ 58 # show_uid prevUid @ 44 # show_uid x)
        else if \<not> inRange then
          if x = prevUid + 1 then sequence_loop xs x True out
          else sequence_loop xs x inRange (out @ 44 # show_uid x)
        else sequence_loop xs x inRange out
      else sequence_loop xs x inRange out)"

definition CreateSequenceSetLC :: "tint list \<Rightarrow> string8" where
  "CreateSequenceSetLC aMessageUids =
     (case sort aMessageUids of
        [] \<Rightarrow> []
      | x # xs \<Rightarrow> sequence_loop xs x False (show_uid x))"

section \<open>Reading a sequence set\<close>

fun split_on :: "byte \<Rightarrow> string8 \<Rightarrow> string8 list" where
  "split_on d [] = [[]]"
| "split_on d (c # s) =
     (if c = d then [] # split_on d s
      else case split_on d s of [] \<Rightarrow> [[c]] | p # ps \<Rightarrow> (c # p) # ps)"

definition read_range :: "string8 \<Rightarrow> nat list" where
  "read_range s =
     (case split_on 58 s of
        [a] \<Rightarrow> [digits_value a]
      | [a, b] \<Rightarrow> [digits_value a ..< Suc (digits_value b)]
      | _ \<Rightarrow> [])"

definition read_sequence_set :: "string8 \<Rightarrow> nat list" where
  "read_sequence_set s = concat (map read_range (split_on 44 s))"

section \<open>Splitting\<close>

lemma split_on_none: "d \<notin> set s \<Longrightarrow> split_on d s = [s]"
  by (induction s) auto

lemma split_on_nonempty: "split_on d s \<noteq> []"
  by (cases s) (auto split: list.split)

lemma split_on_append: "d \<notin> set s \<Longrightarrow> split_on d (s @ d # t) = s # split_on d t"
  by (induction s) auto

lemma split_on_snoc: "split_on d (s @ d # t) = split_on d s @ split_on d t"
proof (induction s)
  case (Cons c s)
  then show ?case using split_on_nonempty [of d s] by (cases "split_on d s") auto
qed simp

lemma split_on_last: "d \<notin> set t \<Longrightarrow>
  split_on d (s @ t) = butlast (split_on d s) @ [last (split_on d s) @ t]"
proof (induction s)
  case Nil
  then show ?case by (simp add: split_on_none)
next
  case (Cons c s)
  then show ?case using split_on_nonempty [of d s] by (cases "split_on d s") auto
qed

section \<open>Numbers\<close>

definition small_uid :: "tint \<Rightarrow> bool" where
  "small_uid n \<longleftrightarrow> unat n < 2 ^ 31"

lemma show_small: "small_uid n \<Longrightarrow> show_uid n = decimal (unat n)"
proof -
  assume "small_uid n"
  then have "sint n = int (unat n)"
    using sint_of_nat_small [of "unat n"] by (simp add: small_uid_def)
  then show ?thesis by (simp add: show_uid_def show_int_def)
qed

lemma small_Suc: "small_uid n \<Longrightarrow> unat (n + 1) = Suc (unat n)"
  by (simp add: small_uid_def unat_plus_simple unat_word_ariths)

lemma decimal_plain: "44 \<notin> set (decimal n)" "58 \<notin> set (decimal n)"
  using decimal_digits [of 44 n] decimal_digits [of 58 n] by (auto simp: is_digit_def)

lemma read_range_decimal:
  "read_range (decimal n) = [n]" "read_range (decimal n @ 58 # decimal m) = [n ..< Suc m]"
  by (simp_all add: read_range_def split_on_none split_on_append decimal_plain digits_value_decimal)

section \<open>What the loop writes\<close>

fun increasing :: "tint \<Rightarrow> tint list \<Rightarrow> nat list" where
  "increasing prev [] = []"
| "increasing prev (x # xs) = (if prev < x then unat x # increasing x xs else increasing x xs)"

text \<open>The last number written is the previous uid, or begins the range that the previous uid is in.\<close>

lemma sequence_loop_reads:
  assumes "sorted (prev # xs)" "\<forall>x\<in>set (prev # xs). small_uid x"
    "split_on 44 out = items @ [decimal n]" "if inRange then n < unat prev else n = unat prev"
  shows "read_sequence_set (sequence_loop xs prev inRange out) =
    concat (map read_range items) @ [n ..< Suc (unat prev)] @ increasing prev xs"
  using assms
proof (induction xs prev inRange out arbitrary: items n rule: sequence_loop.induct)
  case (1 prev inRange out)
  then show ?case
    by (auto simp: read_sequence_set_def split_on_last decimal_plain show_small read_range_decimal)
next
  case (2 x xs prev inRange out)
  have small: "small_uid prev" "small_uid x" using 2(7) by auto
  have next_uid: "[k ..< Suc (unat x)] = [k ..< Suc (unat prev)] @ [unat x]" if "x = prev + 1" "k \<le> unat prev" for k
    using that small_Suc [OF small(1)] by simp
  have sorted: "sorted (x # xs)" "\<forall>y\<in>set (x # xs). small_uid y" using 2(6,7) by auto
  show ?case
  proof (cases "prev < x")
    case False
    with 2(6) have "x = prev" by auto
    with 2(5) [OF False sorted 2(8)] 2(9) False show ?thesis by simp
  next
    case True
    consider "inRange" "prev + 1 < x" | "\<not> inRange" "x = prev + 1" | "\<not> inRange" "x \<noteq> prev + 1"
      | "inRange" "\<not> prev + 1 < x" by blast
    then show ?thesis
    proof cases
      case 1
      let ?out = "out @ 58 # show_uid prev @ 44 # show_uid x"
      have "split_on 44 ?out = split_on 44 (out @ 58 # decimal (unat prev)) @ [decimal (unat x)]"
        using split_on_snoc [of 44 "out @ 58 # decimal (unat prev)" "decimal (unat x)"]
        by (simp add: show_small small split_on_none decimal_plain)
      also have "split_on 44 (out @ 58 # decimal (unat prev)) = items @ [decimal n @ 58 # decimal (unat prev)]"
        using 2(8) by (simp add: split_on_last decimal_plain)
      finally have out: "split_on 44 ?out = (items @ [decimal n @ 58 # decimal (unat prev)]) @ [decimal (unat x)]" .
      show ?thesis
        using 2(1) [OF True _ sorted out] 1 True by (simp add: read_range_decimal)
    next
      case 2
      note range = 2
      have "unat prev < unat x" using range(2) small_Suc [OF small(1)] by simp
      moreover have "\<not> (inRange \<and> prev + 1 < x)" using range by simp
      ultimately show ?thesis
        using "2.IH"(2) [OF True _ range sorted "2.prems"(3)] range True next_uid [OF range(2), of n] "2.prems"(4)
        by simp
    next
      case 3
      note single = 3
      have out: "split_on 44 (out @ 44 # show_uid x) = (items @ [decimal n]) @ [decimal (unat x)]"
        using split_on_snoc [of 44 out "decimal (unat x)"] "2.prems"(3)
        by (simp add: show_small small split_on_none decimal_plain)
      moreover have "\<not> (inRange \<and> prev + 1 < x)" using single by simp
      ultimately show ?thesis
        using "2.IH"(3) [OF True _ single sorted out] single True "2.prems"(4)
        by (simp add: read_range_decimal)
    next
      case 4
      have "x = prev + 1"
      proof -
        have "unat prev < unat x" using True by (simp add: word_less_nat_alt)
        moreover have "\<not> Suc (unat prev) < unat x" using 4(2) small_Suc [OF small(1)] by (simp add: word_less_nat_alt)
        ultimately have "unat x = unat (prev + 1)" using small_Suc [OF small(1)] by simp
        then show ?thesis by (simp only: unat_arith_simps)
      qed
      moreover have "\<not> (inRange \<and> prev + 1 < x)" "\<not> \<not> inRange" using 4 by simp_all
      ultimately show ?thesis
        using "2.IH"(4) [OF True _ _ sorted "2.prems"(3)] 4 True next_uid [of n] "2.prems"(4) small_Suc [OF small(1)]
        by simp
    qed
  qed
qed

lemma increasing_sorted:
  "sorted (prev # xs) \<Longrightarrow> sorted (unat prev # increasing prev xs) \<and> distinct (unat prev # increasing prev xs)
    \<and> set (unat prev # increasing prev xs) = unat ` set (prev # xs)"
proof (induction prev xs rule: increasing.induct)
  case (2 prev x xs)
  show ?case
  proof (cases "prev < x")
    case True
    then have "unat prev < unat x" by (simp add: word_less_nat_alt)
    moreover have "unat x \<le> n" if "n \<in> set (increasing x xs)" for n
      using 2 True that by simp
    ultimately have "\<forall>n\<in>set (increasing x xs). unat prev < n" by fastforce
    then have first: "\<forall>n\<in>set (unat x # increasing x xs). unat prev < n" using \<open>unat prev < unat x\<close> by simp
    have rest: "sorted (unat x # increasing x xs)" "distinct (unat x # increasing x xs)"
      "set (unat x # increasing x xs) = unat ` set (x # xs)"
      using 2 True by simp_all
    have eq: "increasing prev (x # xs) = unat x # increasing x xs" using True by simp
    show ?thesis
    proof (intro conjI)
      show "sorted (unat prev # increasing prev (x # xs))"
        unfolding eq sorted_simps(2) using first rest(1) by (auto intro: less_imp_le)
      show "distinct (unat prev # increasing prev (x # xs))"
        unfolding eq distinct.simps(2) [of "unat prev"] using first rest(2) by blast
      show "set (unat prev # increasing prev (x # xs)) = unat ` set (prev # x # xs)"
        unfolding eq list.set(2) [of "unat prev"] rest(3) by simp
    qed
  next
    case False
    with 2(3) have "x = prev" by auto
    with 2 show ?thesis by simp
  qed
qed simp

lemma sequence_set_reads:
  assumes "uids \<noteq> []" "\<forall>x\<in>set uids. small_uid x"
  shows "read_sequence_set (CreateSequenceSetLC uids) = sorted_list_of_set (unat ` set uids)"
proof -
  obtain x xs where s: "sort uids = x # xs" using assms(1) by (metis length_0_conv length_sort list.exhaust)
  then have sorted: "sorted (x # xs)" "set (x # xs) = set uids" by (metis s sorted_sort, metis s set_sort)
  have "small_uid x" using assms(2) sorted(2) by auto
  then have x: "split_on 44 (show_uid x) = [] @ [decimal (unat x)]"
    by (simp add: show_small split_on_none decimal_plain)
  have "\<forall>y\<in>set (x # xs). small_uid y" using assms(2) unfolding sorted(2) .
  then have "read_sequence_set (sequence_loop xs x False (show_uid x)) = unat x # increasing x xs"
    using sequence_loop_reads [OF sorted(1) _ x, of False] by simp
  moreover have "unat x # increasing x xs = sorted_list_of_set (unat ` set (x # xs))"
    using increasing_sorted [OF sorted(1)] by (metis sorted_list_of_set.idem_if_sorted_distinct)
  ultimately show ?thesis unfolding CreateSequenceSetLC_def s sorted(2) by simp
qed

end
