(* ===== verification/Imap_Command_Props.thy ===== *)
theory Imap_Command_Props
  imports Imap_Live Imap_Stream Imap_Sequence Imap_Request
begin

text \<open>
  Properties of the IMAP session: its commands, the texts it sends, the way it reads the server's data,
  and the states it can be in.
\<close>

section \<open>A command to run\<close>

definition noop_command :: live_command where
  "noop_command = LivePlain ReqNoop (command_new None)"

lemma noop_fresh: "live_fresh noop_command"
  by (simp add: live_fresh_def live_good_def noop_command_def command_new_def well_typed_def)

section \<open>States and response codes\<close>

fun live_run :: "(byte \<Rightarrow> byte) \<Rightarrow> string8 list \<Rightarrow> live_command \<Rightarrow> live_command leaving" where
  "live_run f [] c = Inr c"
| "live_run f (d # ds) c = bind_l (live_parse f d c) (\<lambda>(_, c). live_run f ds c)"

lemma live_run_good: "live_run f ds c = Inr c' \<Longrightarrow> live_good c \<Longrightarrow> live_good c'"
proof (induction ds arbitrary: c)
  case (Cons d ds)
  then obtain st e where "live_parse f d c = Inr (st, e)" "live_run f ds e = Inr c'"
    by (auto simp: bind_l_eq_Inr)
  with Cons live_parse_base [of f d c st e] show ?case by blast
qed simp

text \<open>C1: A command of the modelled classes (the commands without methods of their own, CAPABILITY, LOGIN,
  SELECT and EXAMINE, SEARCH, FETCH of flags, the greeting, the wait for a server event, IDLE), new and
  never cancelled, does not mix up its state and its answer: after any lines and literals it did not
  leave on, it is complete exactly when it holds the server's answer (OK, NO or BAD). A cancelled
  command can be complete with no answer; that is shown below.\<close>

theorem states_and_codes_agree:
  assumes "live_fresh c" "live_run f ds c = Inr c'"
  shows "(iParseState (live_base c') = ECommandComplete \<longleftrightarrow> iResponseCode (live_base c') \<noteq> EImapResponseNone)
    \<and> \<not> iFlushing (live_base c')"
proof -
  have "live_good c'" using live_run_good [OF assms(2)] assms(1) by (simp add: live_fresh_def)
  then show ?thesis by (simp add: live_good_def well_typed_def)
qed

lemma noop_answered: "\<exists>c'. live_run id [ascii ''* 3 EXISTS'', ascii ''0 OK fine''] noop_command = Inr c'
    \<and> iParseState (live_base c') = ECommandComplete"
proof -
  have "(case live_run id [ascii ''* 3 EXISTS'', ascii ''0 OK fine''] noop_command of
      Inl _ \<Rightarrow> False | Inr c' \<Rightarrow> iParseState (live_base c') = ECommandComplete)"
    by code_simp
  then show ?thesis by (auto split: sum.splits)
qed

theorem states_and_codes_agree_witness:
  "\<exists>c'. live_run id [ascii ''* 3 EXISTS'', ascii ''0 OK fine''] noop_command = Inr c'
    \<and> iResponseCode (live_base c') \<noteq> EImapResponseNone"
proof -
  obtain c' where c': "live_run id [ascii ''* 3 EXISTS'', ascii ''0 OK fine''] noop_command = Inr c'"
    "iParseState (live_base c') = ECommandComplete"
    using noop_answered by blast
  from states_and_codes_agree [OF noop_fresh c'(1)] c' show ?thesis by blast
qed

section \<open>Cancelling\<close>

text \<open>C2: A cancelled command comes to an end: after the rest of the response it was in, any untagged
  responses with their literals and all but one of the tagged responses it owes, it waits for a
  response, and the last tagged one completes it with the code of that response.\<close>

theorem cancelled_command_completes:
  assumes "rest_of_current (iParseState c) ls" "\<not> iCompleteOnAnyResponse c"
    "\<forall>r\<in>set rs. untagged_response r \<or> tagged_response r"
    "Suc (length (filter tagged_response rs)) = unat n" "tag_of l = Inr (ETagged t)"
  shows "\<exists>d e. parse_blocks f do_parse (ls @ concat rs) (EnterFlushingState n c) = Inr (EWaitStartResponse, d)
    \<and> ParseBlockL f do_parse l d = Inr (ECommandComplete, e)
    \<and> iParseState e = ECommandComplete \<and> iResponseCode e = state_code f (snd (next_part l))"
  by (rule flush_completes [OF assms])

theorem cancelled_command_completes_witness:
  "\<exists>d e. parse_blocks id (DoParseBlockL (command_ex id))
      ([ascii '')''] @ concat [[ascii ''* 2 FETCH (BODY[] {5}'', ascii ''1 OK '', ascii '')'']])
      (EnterFlushingState 1 ((command_new None)\<lparr> iParseState := EWaitLineParse \<rparr>)) = Inr (EWaitStartResponse, d)
    \<and> ParseBlockL id (DoParseBlockL (command_ex id)) (ascii ''1 OK fine'') d = Inr (ECommandComplete, e)
    \<and> iParseState e = ECommandComplete \<and> iResponseCode e = EImapResponseOk"
proof -
  have "rest_of_current (iParseState ((command_new None)\<lparr> iParseState := EWaitLineParse \<rparr>)) [ascii '')'']"
    "\<not> iCompleteOnAnyResponse ((command_new None)\<lparr> iParseState := EWaitLineParse \<rparr>)"
    by (simp_all add: rest_of_current_def command_new_def announces_def announced_def literal_request_def ascii_def)
  moreover have "untagged_response [ascii ''* 2 FETCH (BODY[] {5}'', ascii ''1 OK '', ascii '')'']"
    "\<not> tagged_response [ascii ''* 2 FETCH (BODY[] {5}'', ascii ''1 OK '', ascii '')'']"
    "tag_of (ascii ''1 OK fine'') = Inr (ETagged 1)"
    "state_code id (snd (next_part (ascii ''1 OK fine''))) = EImapResponseOk"
    by code_simp+
  ultimately show ?thesis
    using cancelled_command_completes [of "(command_new None)\<lparr> iParseState := EWaitLineParse \<rparr>" "[ascii '')'']"
        "[[ascii ''* 2 FETCH (BODY[] {5}'', ascii ''1 OK '', ascii '')'']]" 1 "ascii ''1 OK fine''" 1 id
        "DoParseBlockL (command_ex id)"]
    by simp
qed

section \<open>Completion\<close>

text \<open>C3: A command without methods of its own completes on the bytes of the answer: whatever untagged
  responses with literals come first, the loop over the input cuts them into the blocks the command
  expects, the command ignores them, and the line with its tag completes it with the server's code.
  The bytes after that line stay in the input. This holds for streams that give no occasion for the
  special line end of one server, among the bytes after the answer too.\<close>

theorem command_completes_on_stream:
  assumes "\<not> iFlushing c" "\<not> iCompleteOnAnyResponse c" "iParseState c = EWaitStartResponse"
    "\<forall>r\<in>set rs. untagged_response r \<and> framed r"
    "tag_of l = Inr (ETagged (iTagId c))" "state_code f (snd (next_part l)) \<noteq> EImapResponseNone" "framed [l]"
    "\<not> luukku_stream (concat (map bytes_of rs) @ bytes_of [l] @ rest)"
  shows "\<exists>d. process_input (ParseBlockL f (DoParseBlockL (command_ex f))) iLiteralBytesExpected (\<lambda>_. False)
      (ready 0 (concat (map bytes_of rs) @ bytes_of [l] @ rest)) c = (EFinished, ready 0 rest, d)
    \<and> iResponseCode d = state_code f (snd (next_part l))"
  using plain_session [of "iTagId c" c rs l f rest] assms by (simp add: waiting_def)

theorem command_completes_on_stream_witness:
  "\<exists>d. process_input (ParseBlockL id (DoParseBlockL (command_ex id))) iLiteralBytesExpected (\<lambda>_. False)
      (ready 0 (bytes_of [ascii ''* LIST {2}'', [13, 10], []] @ bytes_of [ascii ''0 NO''] @ [7]))
      (command_new None) = (EFinished, ready 0 [7], d)
    \<and> iResponseCode d = EImapResponseNo"
proof -
  have "untagged_response [ascii ''* LIST {2}'', [13, 10], []]" "framed [ascii ''* LIST {2}'', [13, 10], []]"
    "tag_of (ascii ''0 NO'') = Inr (ETagged 0)"
    "state_code id (snd (next_part (ascii ''0 NO''))) = EImapResponseNo" "framed [ascii ''0 NO'']"
    by code_simp+
  moreover have "93 \<notin> set (concat (map bytes_of [[ascii ''* LIST {2}'', [13, 10], []]]) @ bytes_of [ascii ''0 NO''] @ [7])"
    by code_simp
  ultimately show ?thesis
    using luukku_needs_bracket command_completes_on_stream [of "command_new None" "[[ascii ''* LIST {2}'', [13, 10], []]]" "ascii ''0 NO''" id "[7]"]
    by (simp add: command_new_def)
qed

text \<open>The streams the property leaves out: the special line end joins the line of a literal with a later
  line that ends in a literal request after a closing square bracket. The answer of the server is then
  taken for part of the line, and the command goes on waiting.\<close>

lemma special_line_end_stalls:
  "case process_input (ParseBlockL id (DoParseBlockL (command_ex id))) iLiteralBytesExpected (\<lambda>_. False)
     (ready 0 (bytes_of [ascii ''* X {3}'', ascii ''abc'', []] @ bytes_of [ascii ''0 OK fine'']
       @ ascii ''* 2 FETCH (BODY[HEADER.FIELDS (A)] {5}'' @ crlf)) (command_new None) of
   (r, s, c) \<Rightarrow> r = EReadMore \<and> iInputBuffer s = [] \<and> iParseState c \<noteq> ECommandComplete"
  by code_simp

text \<open>C4: Under two conditions it does not matter how the bytes are cut into chunks: when the cut does not
  split the line end of an empty line, and the bytes give no occasion for the special line end, two
  chunks received one after the other leave the session and the command as one chunk with the same
  bytes does.\<close>

theorem chunks_do_not_matter:
  assumes "receive parse expected pause a s c = (r, s1, c1)" "a \<noteq> []" "b \<noteq> []"
    "\<not> luukku_stream (a @ b)" "\<not> splits_empty_line s a" "r = EReadMore \<Longrightarrow> \<not> splits_empty_line s1 b"
  shows "receive parse expected pause (a @ b) s c =
    (if r = EReadMore then receive parse expected pause b s1 c1
     else (r, s1\<lparr> iInputBuffer := iInputBuffer s1 @ b \<rparr>, c1))"
  using process_chunks [of parse expected pause "s\<lparr> iInputBuffer := a \<rparr>" c r s1 c1 b] assms
  by (simp add: receive_def splits_empty_line_def)

definition record_block :: "string8 \<Rightarrow> string8 list \<Rightarrow> (parse_state \<times> string8 list) leaving" where
  "record_block d ds = Inr (if d = [88, 123, 51, 125] then EWaitLiteralIngore else EWaitLineIgnore, ds @ [d])"

theorem chunks_do_not_matter_witness:
  "receive record_block (\<lambda>_. 3) (\<lambda>_. False) ([88, 123, 51, 125, 13] @ [10, 1, 2, 3, 65, 13, 10]) (ready 0 []) [] =
    (EReadMore, ready 0 [], [[88, 123, 51, 125], [1, 2, 3], [65]])"
proof -
  have one: "receive record_block (\<lambda>_. 3) (\<lambda>_. False) [88, 123, 51, 125, 13] (ready 0 []) [] =
      (EReadMore, \<lparr> iInputBuffer = [], iInputCache = [88, 123, 51, 125, 13], iCommandLiteralRequestSize = 0 \<rparr>, [])"
    by code_simp
  have "\<not> luukku_stream ([88, 123, 51, 125, 13] @ [10, 1, 2, 3, 65, 13, 10])"
    by (rule luukku_needs_bracket) simp
  from chunks_do_not_matter [OF one _ _ this] show ?thesis
    by (simp add: splits_empty_line_def) code_simp
qed

text \<open>The cut that the property leaves out loses data: the bytes after an empty line whose line end is
  split are dropped with the cache.\<close>

lemma split_empty_line_loses_data:
  "receive record_block (\<lambda>_. 0) (\<lambda>_. False) [13, 10, 65] (ready 0 []) [] =
     (EReadMore, \<lparr> iInputBuffer = [], iInputCache = [65], iCommandLiteralRequestSize = 0 \<rparr>, [[]])"
  "receive record_block (\<lambda>_. 0) (\<lambda>_. False) [10, 65]
     \<lparr> iInputBuffer = [], iInputCache = [13], iCommandLiteralRequestSize = 0 \<rparr> [] =
     (EReadMore, \<lparr> iInputBuffer = [], iInputCache = [], iCommandLiteralRequestSize = 0 \<rparr>, [[]])"
  by code_simp+

section \<open>The session\<close>


definition noop_started :: "live_command imap_session" where
  "noop_started = snd (start_with (live_ops id) EOpNone noop_command session_new)"

lemma noop_started_reach: "session_reach (live_ops id) live_fresh noop_started"
  unfolding noop_started_def
  by (rule reach_step [OF reach_session], rule step_start)
    (simp_all add: may_start_def session_new_def server_allows_def noop_fresh)


text \<open>C6: A folder is selected only in the selected state: while the streams are open, a session holds
  folder data only when it takes the server to be in the selected state, or while a SELECT or EXAMINE
  that was not cancelled is being carried out.\<close>

theorem folder_only_when_selected:
  assumes "session_reach (live_ops f) live_fresh s" "iStreamsOpen s" "SelectedFolderInfo s \<noteq> None"
  shows "iServerState s = EServerStateSelected \<or> (iPendingOperation s = EOpSelect \<and> iSessionState s = ESessionNormal)"
  using live.ok_reach [OF assms(1)] assms(2,3) by (auto simp: live.session_ok_def live.folder_ok_def)

definition after_data :: "string8 \<Rightarrow> live_command imap_session \<Rightarrow> live_command imap_session" where
  "after_data b s = (case ReceivedDataIndL (live_ops id) b s of Inl _ \<Rightarrow> s | Inr s' \<Rightarrow> s')"

lemma after_data_reach:
  "session_reach (live_ops id) live_fresh s \<Longrightarrow> iReading s \<Longrightarrow> session_reach (live_ops id) live_fresh (after_data b s)"
  by (auto simp: after_data_def intro: reach_step step_data split: sum.split)

definition some_folder :: folder_info where
  "some_folder = \<lparr> iName = [], iFolderFlags = 0, iExists = 0, iRecent = 0, iExpungedMessages = [],
     iMessageFlagsChanged = False, iMailboxWritable = False, iUnseen = 0, iMessages = 0, iUidNext = 0,
     iUidValidity = 0 \<rparr>"

definition greeted :: "live_command imap_session" where
  "greeted = after_data (ascii ''* PREAUTH hi'' @ crlf)
     (snd (start_with (live_ops id) EOpServerGreeting (LiveGreeting (greeting_new None)) session_new))"

definition selecting :: "live_command imap_session" where
  "selecting = snd (SelectL (live_ops id) False some_folder
     (LiveSelect (ReqSelect [97]) (select_new True some_folder)) greeted)"

lemma greeted_reach: "session_reach (live_ops id) live_fresh greeted"
  unfolding greeted_def
proof (rule after_data_reach)
  have "live_fresh (LiveGreeting (greeting_new None))" by code_simp
  then show "session_reach (live_ops id) live_fresh
      (snd (start_with (live_ops id) EOpServerGreeting (LiveGreeting (greeting_new None)) session_new))"
    by (intro reach_step [OF reach_session] step_start)
      (simp_all add: may_start_def session_new_def server_allows_def)
  show "iReading (snd (start_with (live_ops id) EOpServerGreeting (LiveGreeting (greeting_new None)) session_new))"
    by code_simp
qed

theorem folder_only_when_selected_witness:
  "SelectedFolderInfo selecting \<noteq> None
    \<and> (iServerState selecting = EServerStateSelected
       \<or> (iPendingOperation selecting = EOpSelect \<and> iSessionState selecting = ESessionNormal))"
proof -
  have s: "may_start greeted" "authenticated (iServerState greeted)"
    "live_fresh (LiveSelect (ReqSelect [97]) (select_new True some_folder))"
    "iStreamsOpen selecting" "SelectedFolderInfo selecting \<noteq> None"
    by code_simp+
  then have "session_reach (live_ops id) live_fresh selecting"
    unfolding selecting_def by (intro reach_step [OF greeted_reach] step_select)
  from folder_only_when_selected [OF this s(4,5)] s(5) show ?thesis by blast
qed

text \<open>Without the condition on the streams the property is false: the server closes the connection while a
  SELECT is being carried out. The pending operation is reset before the cancelling looks at it, so the
  folder data stays while the server state is authenticated.\<close>

lemma folder_kept_after_close:
  "session_reach (live_ops id) live_fresh (StreamCloseInd (live_ops id) selecting)"
  "SelectedFolderInfo (StreamCloseInd (live_ops id) selecting) \<noteq> None
    \<and> iServerState (StreamCloseInd (live_ops id) selecting) = EServerStateAuthenticated"
proof -
  have s: "may_start greeted" "authenticated (iServerState greeted)"
    "live_fresh (LiveSelect (ReqSelect [97]) (select_new True some_folder))" "iStreamsOpen selecting"
    by code_simp+
  then have "session_reach (live_ops id) live_fresh selecting"
    unfolding selecting_def by (intro reach_step [OF greeted_reach] step_select)
  then show "session_reach (live_ops id) live_fresh (StreamCloseInd (live_ops id) selecting)"
    by (rule reach_step) (rule step_closed [OF s(4)])
  show "SelectedFolderInfo (StreamCloseInd (live_ops id) selecting) \<noteq> None
    \<and> iServerState (StreamCloseInd (live_ops id) selecting) = EServerStateAuthenticated"
    by code_simp
qed

text \<open>The exception in the property on forgotten requests happens: a cancelled command whose tagged response has an unknown code leaves
  the flush waiting with nothing outstanding, and the timer off.\<close>

definition flush_stuck :: "live_command imap_session" where
  "flush_stuck = after_data (ascii ''1 FOO'' @ crlf)
     (FlushCancelledCommand (live_ops id) (CancelSession (live_ops id) noop_started))"

lemma flush_stuck_reached:
  "session_reach (live_ops id) live_fresh flush_stuck"
  "iReport flush_stuck \<and> \<not> iReading flush_stuck \<and> \<not> iAsyncCallBack flush_stuck \<and> \<not> iFlushTimer flush_stuck
    \<and> iStreamsOpen flush_stuck"
proof -
  let ?c = "CancelSession (live_ops id) noop_started"
  have c: "session_reach (live_ops id) live_fresh ?c"
    by (rule reach_step [OF noop_started_reach step_cancel])
  have "\<not> iReport ?c" "\<not> iReading ?c" "\<not> iAsyncCallBack ?c" "iSessionState ?c = ESessionFlushing \<or> iCurrentCommand ?c = None"
    by code_simp+
  then have "session_reach (live_ops id) live_fresh (FlushCancelledCommand (live_ops id) ?c)"
    by (intro reach_step [OF c] step_flush)
  moreover have "iReading (FlushCancelledCommand (live_ops id) ?c)" by code_simp
  ultimately show "session_reach (live_ops id) live_fresh flush_stuck"
    unfolding flush_stuck_def by (rule after_data_reach)
  show "iReport flush_stuck \<and> \<not> iReading flush_stuck \<and> \<not> iAsyncCallBack flush_stuck \<and> \<not> iFlushTimer flush_stuck
    \<and> iStreamsOpen flush_stuck"
    by code_simp
qed

text \<open>Waiting for a server event sets the tags back: the command has no tag, and the session takes its next
  tag from it.\<close>

lemma event_wait_resets_tags:
  "iNextTagId greeted = 0"
  "iNextTagId (after_data (ascii ''0 OK'' @ crlf) noop_started) = 1"
  "iNextTagId (after_data (ascii ''* 4 EXISTS'' @ crlf)
     (snd (start_with (live_ops id) EOpNone (LiveEventWait (event_wait_new None))
       (after_data (ascii ''1 OK'' @ crlf) noop_started)))) = 0"
  by code_simp+

section \<open>What is sent\<close>

text \<open>C7: A set of uids is read back from the text that names it: every uid once and in order, whatever
  the order and the repetitions of the list, when all the uids are below 2 to the 31.\<close>

theorem sequence_set_reads_back:
  assumes "uids \<noteq> []" "\<forall>x\<in>set uids. small_uid x"
  shows "read_sequence_set (CreateSequenceSetLC uids) = sorted_list_of_set (unat ` set uids)"
  by (rule sequence_set_reads [OF assms])

theorem sequence_set_reads_back_witness:
  "CreateSequenceSetLC [5, 21, 3, 4, 6, 4] = ascii ''3:6,21''
    \<and> read_sequence_set (CreateSequenceSetLC [5, 21, 3, 4, 6, 4]) = [3, 4, 5, 6, 21]"
proof -
  have "\<forall>x\<in>set [5, 21, 3, 4, 6, 4]. small_uid x" by (simp add: small_uid_def)
  from sequence_set_reads_back [OF _ this]
  have "read_sequence_set (CreateSequenceSetLC [5, 21, 3, 4, 6, 4]) = sorted_list_of_set {5, 21, 3, 4, 6}"
    by (simp add: insert_commute)
  moreover have "sorted_list_of_set {5, 21, 3, 4, 6 :: nat} = [3, 4, 5, 6, 21]" by code_simp
  moreover have "CreateSequenceSetLC [5, 21, 3, 4, 6, 4] = ascii ''3:6,21''" by code_simp
  ultimately show ?thesis by simp
qed

text \<open>A uid of 2 to the 31 or more prints as a negative number.\<close>

lemma large_uid_is_negative: "hd (CreateSequenceSetLC [0x80000000]) = 45"
  by (simp add: CreateSequenceSetLC_def show_uid_def show_int_def)

text \<open>C8: A mailbox name is read back: what the client quotes for the server, the atom parser of the client
  reads as one atom with the converted name.\<close>

theorem mailbox_name_reads_back:
  assumes "name \<noteq> []" "to_utf7 name = Inr u" "u \<noteq> []" "13 \<notin> set u"
  shows "\<exists>s p q. EncodeMailboxNameForSendL to_utf7 name = Inr s \<and>
    ProcessLineL s (ap_new True) = Inr (False, p) \<and> ap_forest p = [Leaf q u]"
  by (rule mailbox_reads_back [of name to_utf7 u, OF assms])

theorem mailbox_name_reads_back_witness:
  "EncodeMailboxNameForSendL (\<lambda>s. Inr (map ucast s)) [97, 34, 40] = Inr [34, 97, 92, 34, 40, 34]
    \<and> (\<exists>p q. ProcessLineL [34, 97, 92, 34, 40, 34] (ap_new True) = Inr (False, p) \<and> ap_forest p = [Leaf q [97, 34, 40]])"
proof -
  have e: "EncodeMailboxNameForSendL (\<lambda>s. Inr (map ucast s)) [97, 34, 40] = Inr [34, 97, 92, 34, 40, 34]"
    by code_simp
  then show ?thesis
    using mailbox_name_reads_back [of "[97, 34, 40]" "\<lambda>s. Inr (map ucast s)" "[97, 34, 40]"] by simp
qed

text \<open>C9: Every modelled request but LOGIN fits the buffer computed for it: for every tag the session gives,
  the text that is formatted is as long as was reserved or shorter, and it is the text of the format
  the request is sent with (which for STATUS has the mailbox unquoted). APPEND, FETCH of a body and
  AUTHENTICATE are not modelled.\<close>

theorem request_fits_buffer:
  assumes "0 \<le> t" "sendable r"
  shows "SendMessageL r t = Inr (request_text r t)"
  by (rule request_fits [OF assms])

theorem request_fits_buffer_witness:
  "SendMessageL (ReqStore [49, 58, 42] [70] [40, 41] True) 12 =
    Inr (request_text (ReqStore [49, 58, 42] [70] [40, 41] True) 12)"
  by (rule request_fits_buffer) (simp_all add: sendable_def)

end
