(* ===== verification/Imap_Compound.thy ===== *)
theory Imap_Compound
  imports Imap_Sequence
begin

text \<open>
  The compound operations of the IMAP protocol controller (imapprotocolcontroller/src) and their base
  class \<open>CImapCompoundBase\<close>: an active object that goes from step to step, waits for one request at a
  time, and completes its client once. The message store, the synchronisation manager, the session
  and the settings are a record of operations on a state of their own; an operation gives a code, or
  leaves. A method gives a result or leaves, and a state in both cases.
\<close>

section \<open>Steps and requests\<close>

datatype compound_step =
    EFinished | ESelectSourceMailboxRW | ESelectSourceMailboxRO | ESelectDestinationMailboxRW
  | ESelectDestinationMailboxRO | EFetchMessage | ECopyMessage | EAppendMessage | EDeleteMessage
  | EDeleteLocalMessage | EDeleteAllMessages | ENewSyncFolder | ESyncFolder | EInboxDuplicateMove
  | EInboxDuplicateCopy | ECloseFolder | EDeleteFolder | ECreate | ERename | ECreateSession
  | EStartBackgroundSyncOp | ESelectInboxRW | EFetchMessageInitialise | ELocalCopyComplete | EExpunge
  | ESetSourceMailbox | ESyncTree | ESyncService | EDeleteLocalFolder | EDisconnect | ESetSource
  | EProcessRenameResponse | ECreateLocal | ESyncSubscriptions | EInboxDoneOps | EFolderDoneOps
  | EFolderCheckPendingOPs | EInboxCheckPendingOps | EInboxSync | EInboxEarlyDeletes
  | EFolderEarlyDeletes | EInboxEarlyExpunge | EFolderEarlyExpunge | EInboxLateDeletes
  | EFolderLateDeletes | EInboxLateExpunge | EFolderLateExpunge | EProcessFetchFlags
  | ESelectSyncFolder | ECheckDestinationMailbox | ESelectFolderAfterClose | ESuspendedForMigrate
  | ESyncInboxAutoFetch | ESyncFolderAutoFetchCheck | ESyncFolderAutoFetch | ECheckFolderExists
  | EProcessFolderCheck | EUpdateFlag

datatype progress_state =
    EDisconnected | EConnecting | EIdle | ESelecting | EFetching | EAppending | ECopying | EDeleting
  | ESyncing | EDisconnecting | EBusy | EMoving | ECopyNewMail | EMoveNewMail | ECopyMailSelection
  | EMoveMailSelection | ECopyAllMail | EMoveAllMail | EPopulateNewMail | EPopulateAllMail
  | EPopulateMailSelection

type_synonym msv_id = tint

text \<open>The requests an operation waits for; \<open>RqSelf\<close> is the one it completes itself.\<close>

datatype service_request =
    RqSelf
  | RqSelect msv_id
  | RqExamine msv_id
  | RqStore string8 string8 string8 bool
  | RqExpunge
  | RqClose
  | RqCopy string8 string16
  | RqAppend msv_id string16
  | RqCreate string16
  | RqDelete string16
  | RqRename string16 string16
  | RqSubscribe string16
  | RqList string16
  | RqSynchroniseFolder msv_id
  | RqSynchroniseTree
  | RqSyncService
  | RqDisconnect
  | RqMoveEntries "msv_id list" msv_id

text \<open>The requests a server answers; the others do not fail with NO or BAD.\<close>

definition server_request :: "service_request \<Rightarrow> bool" where
  "server_request r \<longleftrightarrow> r \<noteq> RqSelf \<and> (\<forall>s d. r \<noteq> RqMoveEntries s d)"

section \<open>Services\<close>

datatype entry_type =
    KUidMsvServiceEntry | KUidMsvFolderEntry | KUidMsvMessageEntry | KUidMsvEmailTextEntry
  | KUidMsvAttachmentEntry | KUidMsvEmailHtmlEntry | KUidMsvEmailExternalBodyEntry
  | KUidMsvEmailRtfEntry | KUidMsvOtherEntry

record msv_entry =
  eId :: msv_id
  eType :: entry_type
  eParent :: msv_id
  eUid :: tint
  eDetails :: string16
  eError :: symbian_error
  eSize :: tint
  eComplete :: bool
  eMailbox :: bool
  eValidUid :: bool
  eSubscribed :: bool
  eUnread :: bool
  eDeletedFlag :: bool
  eSeenFlag :: bool

text \<open>\<open>svGetFolder\<close> says whether there is a folder object for an entry; a folder is named by its entry.
  \<open>svDepth\<close> bounds the depth of the store; a walk upwards that exceeds it, which in the code would not
  end, leaves with \<open>KErrGeneral\<close>.\<close>

record 'w services =
  svSetEntry :: "msv_id \<Rightarrow> 'w \<Rightarrow> symbian_error \<times> 'w"
  svEntry :: "'w \<Rightarrow> msv_entry"
  svChangeEntry :: "msv_entry \<Rightarrow> 'w \<Rightarrow> symbian_error \<times> 'w"
  svCreateEntry :: "msv_entry \<Rightarrow> 'w \<Rightarrow> msv_id \<times> 'w"
  svDeleteEntry :: "msv_id \<Rightarrow> 'w \<Rightarrow> symbian_error \<times> 'w"
  svGetChildren :: "'w \<Rightarrow> msv_id list leaving \<times> 'w"
  svGetFolder :: "msv_id \<Rightarrow> bool \<Rightarrow> 'w \<Rightarrow> bool leaving \<times> 'w"
  svFullFolderPath :: "msv_id \<Rightarrow> 'w \<Rightarrow> string16 leaving \<times> 'w"
  svMakePath :: "msv_id \<Rightarrow> 'w \<Rightarrow> string16 leaving \<times> 'w"
  svDeleteFolderContents :: "msv_id \<Rightarrow> 'w \<Rightarrow> unit leaving \<times> 'w"
  svRemoveFolder :: "msv_id \<Rightarrow> 'w \<Rightarrow> unit leaving \<times> 'w"
  svRenameLocal :: "msv_id \<Rightarrow> string16 \<Rightarrow> 'w \<Rightarrow> unit leaving \<times> 'w"
  svIssue :: "service_request \<Rightarrow> 'w \<Rightarrow> unit leaving \<times> 'w"
  svInbox :: "'w \<Rightarrow> msv_id"
  svChanged :: "msv_id \<Rightarrow> 'w \<Rightarrow> bool"
  svExists :: "'w \<Rightarrow> tint"
  svListed :: "'w \<Rightarrow> nat"
  svServiceId :: msv_id
  svPathSeparator :: string16
  svUseExpunge :: bool
  svDeleteWhenDisconnecting :: bool
  svDepth :: nat

section \<open>The state\<close>

record compound_base =
  iCurrentStep :: compound_step
  iNextStep :: compound_step
  iProgressErrorCode :: symbian_error
  iStopForMigrate :: bool
  iCancelForMigrate :: bool
  iProgressState :: progress_state
  iRequest :: "service_request option"
  iReport :: bool
  iCompleted :: "symbian_error list"

definition compound_new :: compound_base where
  "compound_new =
     \<lparr> iCurrentStep = EFinished, iNextStep = EFinished, iProgressErrorCode = KErrNone,
       iStopForMigrate = False, iCancelForMigrate = False, iProgressState = EIdle,
       iRequest = None, iReport = False, iCompleted = [] \<rparr>"

type_synonym ('m, 'w) compound_state = "'m compound_base_scheme \<times> 'w"
type_synonym ('a, 'm, 'w) compound_method =
  "('m, 'w) compound_state \<Rightarrow> 'a leaving \<times> ('m, 'w) compound_state"

section \<open>Methods\<close>

definition creturn :: "'a \<Rightarrow> ('a, 'm, 'w) compound_method" where
  "creturn x s = (Inr x, s)"

definition cleave :: "symbian_error \<Rightarrow> ('a, 'm, 'w) compound_method" where
  "cleave e s = (Inl e, s)"

definition cbind ::
  "('a, 'm, 'w) compound_method \<Rightarrow> ('a \<Rightarrow> ('b, 'm, 'w) compound_method) \<Rightarrow> ('b, 'm, 'w) compound_method" where
  "cbind m k s = (case m s of (Inl e, s) \<Rightarrow> (Inl e, s) | (Inr x, s) \<Rightarrow> k x s)"

definition cread :: "('m compound_base_scheme \<Rightarrow> 'a) \<Rightarrow> ('a, 'm, 'w) compound_method" where
  "cread g s = (Inr (g (fst s)), s)"

definition cset :: "('m compound_base_scheme \<Rightarrow> 'm compound_base_scheme) \<Rightarrow> (unit, 'm, 'w) compound_method" where
  "cset g s = (Inr (), (g (fst s), snd s))"

definition cask :: "('w \<Rightarrow> 'a) \<Rightarrow> ('a, 'm, 'w) compound_method" where
  "cask g s = (Inr (g (snd s)), s)"

text \<open>A service that gives a value, and one that may leave.\<close>

definition ccall :: "('w \<Rightarrow> 'a \<times> 'w) \<Rightarrow> ('a, 'm, 'w) compound_method" where
  "ccall f s = (case f (snd s) of (x, w) \<Rightarrow> (Inr x, (fst s, w)))"

definition ctry :: "('w \<Rightarrow> 'a leaving \<times> 'w) \<Rightarrow> ('a, 'm, 'w) compound_method" where
  "ctry f s = (case f (snd s) of (r, w) \<Rightarrow> (r, (fst s, w)))"

fun cdo :: "(unit, 'm, 'w) compound_method list \<Rightarrow> (unit, 'm, 'w) compound_method" where
  "cdo [] = creturn ()"
| "cdo [m] = m"
| "cdo (m # ms) = cbind m (\<lambda>_. cdo ms)"

definition leave_if_error :: "symbian_error \<Rightarrow> (unit, 'm, 'w) compound_method" where
  "leave_if_error e = (if e = KErrNone then creturn () else cleave e)"

text \<open>\<open>TRAP_IGNORE\<close>; a panic is not trapped.\<close>

definition is_panic :: "symbian_error \<Rightarrow> bool" where
  "is_panic e \<longleftrightarrow> e \<in> {KPanicDescriptorToSmall, KPanicIndex, KPanicNull, KPanicActive, KPanicImap}"

definition trap_ignore :: "(unit, 'm, 'w) compound_method \<Rightarrow> (unit, 'm, 'w) compound_method" where
  "trap_ignore m s = (case m s of
      (Inl e, s) \<Rightarrow> if is_panic e then (Inl e, s) else (Inr (), s)
    | (Inr x, s) \<Rightarrow> (Inr (), s))"

section \<open>The active object\<close>

text \<open>\<open>CMsgActive\<close> and \<open>CActive\<close> are classes of the platform, written out here from their documented
  behaviour and not part of the repository: \<open>Queue\<close> keeps the client's request,
  \<open>Complete\<close> completes it if there is one, and \<open>SetActive\<close> panics when a request is outstanding
  already.\<close>

definition CompoundQueue :: "(unit, 'm, 'w) compound_method" where
  "CompoundQueue = cset (\<lambda>c. c\<lparr> iReport := True \<rparr>)"

definition CompoundComplete :: "symbian_error \<Rightarrow> (unit, 'm, 'w) compound_method" where
  "CompoundComplete aStatus = cset (\<lambda>c.
     if iReport c then c\<lparr> iReport := False, iCompleted := iCompleted c @ [aStatus] \<rparr> else c)"

definition SetActive :: "service_request \<Rightarrow> (unit, 'm, 'w) compound_method" where
  "SetActive r = cbind (cread iRequest) (\<lambda>active.
     if active = None then cset (\<lambda>c. c\<lparr> iRequest := Some r \<rparr>) else cleave KPanicActive)"

definition CompleteSelf :: "(unit, 'm, 'w) compound_method" where
  "CompleteSelf = SetActive RqSelf"

definition next_step :: "compound_step \<Rightarrow> (unit, 'm, 'w) compound_method" where
  "next_step s = cset (\<lambda>c. c\<lparr> iNextStep := s \<rparr>)"

definition progress :: "progress_state \<Rightarrow> (unit, 'm, 'w) compound_method" where
  "progress p = cset (\<lambda>c. c\<lparr> iProgressState := p \<rparr>)"

definition SetCurrentStep :: "(unit, 'm, 'w) compound_method" where
  "SetCurrentStep = cset (\<lambda>c. c\<lparr> iCurrentStep := iNextStep c \<rparr>)"

text \<open>A request of a service, and one on a folder object, which may be \<open>NULL\<close>.\<close>

definition request :: "'w services \<Rightarrow> service_request \<Rightarrow> (unit, 'm, 'w) compound_method" where
  "request sv r = ctry (svIssue sv r)"

definition on_folder_object ::
  "msv_id option \<Rightarrow> (msv_id \<Rightarrow> ('a, 'm, 'w) compound_method) \<Rightarrow> ('a, 'm, 'w) compound_method" where
  "on_folder_object folder m = (case folder of None \<Rightarrow> cleave KPanicNull | Some x \<Rightarrow> m x)"

text \<open>The request is made and waited for.\<close>

definition await :: "'w services \<Rightarrow> service_request \<Rightarrow> (unit, 'm, 'w) compound_method" where
  "await sv r = cdo [request sv r, SetActive r]"

text \<open>\<open>return EFalse\<close> after some statements.\<close>

definition go_on :: "(unit, 'm, 'w) compound_method list \<Rightarrow> (bool, 'm, 'w) compound_method" where
  "go_on ms = cbind (cdo ms) (\<lambda>_. creturn False)"

text \<open>The last step, with the state the progress shows then.\<close>

definition finish :: "progress_state \<Rightarrow> (bool, 'm, 'w) compound_method" where
  "finish p = cbind (progress p) (\<lambda>_. cbind (CompoundComplete KErrNone) (\<lambda>_. creturn True))"

definition unexpected :: "(bool, 'm, 'w) compound_method" where
  "unexpected = cbind (progress EIdle) (\<lambda>_. creturn True)"

text \<open>Stopping for a migration, at step \<open>s\<close>.\<close>

definition suspend :: "compound_step \<Rightarrow> (bool, 'm, 'w) compound_method" where
  "suspend s = cbind (cset (\<lambda>c. c\<lparr> iCurrentStep := ESuspendedForMigrate, iNextStep := s \<rparr>)) (\<lambda>_.
     cbind (CompoundComplete KErrNone) (\<lambda>_. creturn True))"

section \<open>The message store\<close>

definition SetEntryL :: "'w services \<Rightarrow> msv_id \<Rightarrow> (unit, 'm, 'w) compound_method" where
  "SetEntryL sv aId = cbind (ccall (svSetEntry sv aId)) leave_if_error"

definition entry :: "'w services \<Rightarrow> (msv_entry, 'm, 'w) compound_method" where
  "entry sv = cask (svEntry sv)"

definition ChangeEntryL :: "'w services \<Rightarrow> msv_entry \<Rightarrow> (unit, 'm, 'w) compound_method" where
  "ChangeEntryL sv e = cbind (ccall (svChangeEntry sv e)) leave_if_error"

definition MessageErrorL :: "'w services \<Rightarrow> msv_id \<Rightarrow> symbian_error \<Rightarrow> (unit, 'm, 'w) compound_method" where
  "MessageErrorL sv aMessageId aError =
     cbind (ccall (svSetEntry sv aMessageId)) (\<lambda>err.
       if err = KErrNone then
         cbind (entry sv) (\<lambda>e. if eError e \<noteq> aError then ChangeEntryL sv (e\<lparr> eError := aError \<rparr>) else creturn ())
       else creturn ())"

text \<open>\<open>FindFolderL\<close> goes up to the mailbox that holds the message. 0 is the null entry, 0x1000 the root of the store.\<close>

definition KMsvRootIndexEntryId :: msv_id where "KMsvRootIndexEntryId = 0x1000"

fun find_folder_loop :: "nat \<Rightarrow> 'w services \<Rightarrow> (msv_id, 'm, 'w) compound_method" where
  "find_folder_loop 0 sv = cleave KErrGeneral"
| "find_folder_loop (Suc n) sv =
     cbind (entry sv) (\<lambda>e. cbind (SetEntryL sv (eParent e)) (\<lambda>_. cbind (entry sv) (\<lambda>e.
       if eType e = KUidMsvFolderEntry \<and> eMailbox e then creturn (eId e)
       else if eType e \<noteq> KUidMsvServiceEntry \<and> eId e \<noteq> KMsvRootIndexEntryId then find_folder_loop n sv
       else creturn 0)))"

definition FindFolderL :: "'w services \<Rightarrow> msv_id \<Rightarrow> (msv_id, 'm, 'w) compound_method" where
  "FindFolderL sv aMessage = cbind (SetEntryL sv aMessage) (\<lambda>_. find_folder_loop (svDepth sv) sv)"

text \<open>\<open>CheckSelectionL\<close>: the entries of a selection that have an accepted type. The flag of the loop upwards
  says whether a message was met on the way.\<close>

fun enclosing_loop :: "nat \<Rightarrow> 'w services \<Rightarrow> bool \<Rightarrow> (bool, 'm, 'w) compound_method" where
  "enclosing_loop 0 sv inEnclosingMessage = cleave KErrGeneral"
| "enclosing_loop (Suc n) sv inEnclosingMessage =
     cbind (entry sv) (\<lambda>e. cbind (SetEntryL sv (eParent e)) (\<lambda>_. cbind (entry sv) (\<lambda>e.
       let inside = (inEnclosingMessage \<or> eType e = KUidMsvMessageEntry)
       in if eType e \<noteq> KUidMsvServiceEntry \<and> eId e \<noteq> KMsvRootIndexEntryId then enclosing_loop n sv inside
          else creturn inside)))"

definition part_type :: "entry_type \<Rightarrow> bool" where
  "part_type t \<longleftrightarrow> t \<in> {KUidMsvEmailTextEntry, KUidMsvAttachmentEntry, KUidMsvMessageEntry,
     KUidMsvEmailHtmlEntry, KUidMsvEmailExternalBodyEntry, KUidMsvEmailRtfEntry}"

definition check_entry :: "'w services \<Rightarrow> bool \<Rightarrow> bool \<Rightarrow> bool \<Rightarrow> bool \<Rightarrow> msv_id \<Rightarrow> (bool, 'm, 'w) compound_method" where
  "check_entry sv aMessages aParts aFolders aIsInService x =
     cbind (ccall (svSetEntry sv x)) (\<lambda>err.
       if err \<noteq> KErrNone then creturn False
       else cbind (entry sv) (\<lambda>e.
         let t = eType e in
         if (aMessages \<and> t = KUidMsvMessageEntry) \<or> (aParts \<and> part_type t) \<or> (aFolders \<and> t = KUidMsvFolderEntry)
         then if aIsInService \<or> (\<not> aParts \<and> t = KUidMsvMessageEntry)
           then cbind (enclosing_loop (svDepth sv) sv False) (\<lambda>inEnclosingMessage. cbind (entry sv) (\<lambda>top.
             creturn ((\<not> aIsInService \<or> svServiceId sv = 0 \<or> eId top = svServiceId sv)
               \<and> (t \<noteq> KUidMsvMessageEntry \<or> \<not> inEnclosingMessage \<or> aParts))))
           else creturn True
         else creturn False))"

fun check_entries :: "'w services \<Rightarrow> bool \<Rightarrow> bool \<Rightarrow> bool \<Rightarrow> bool \<Rightarrow> msv_id list \<Rightarrow> (msv_id list, 'm, 'w) compound_method" where
  "check_entries sv aMessages aParts aFolders aIsInService [] = creturn []"
| "check_entries sv aMessages aParts aFolders aIsInService (x # xs) =
     cbind (check_entry sv aMessages aParts aFolders aIsInService x) (\<lambda>addIt.
     cbind (check_entries sv aMessages aParts aFolders aIsInService xs) (\<lambda>ys.
       creturn (if addIt then x # ys else ys)))"

definition CheckSelectionL ::
  "'w services \<Rightarrow> msv_id list \<Rightarrow> bool \<Rightarrow> bool \<Rightarrow> bool \<Rightarrow> bool \<Rightarrow> (symbian_error \<times> msv_id list, 'm, 'w) compound_method" where
  "CheckSelectionL sv aSelection aMessages aParts aFolders aIsInService =
     cbind (check_entries sv aMessages aParts aFolders aIsInService aSelection) (\<lambda>aLocalCopy.
       creturn (if aLocalCopy = [] then KErrNotSupported else KErrNone, aLocalCopy))"

text \<open>\<open>CalculateDownloadSizeL\<close>, from the end of the selection.\<close>

fun size_loop :: "'w services \<Rightarrow> msv_id list \<Rightarrow> tint \<Rightarrow> (tint, 'm, 'w) compound_method" where
  "size_loop sv [] totalSize = creturn totalSize"
| "size_loop sv (x # xs) totalSize =
     cbind (SetEntryL sv x) (\<lambda>_. cbind (entry sv) (\<lambda>e.
       size_loop sv xs (if eComplete e then totalSize else totalSize + eSize e)))"

definition CalculateDownloadSizeL :: "'w services \<Rightarrow> msv_id list \<Rightarrow> (tint, 'm, 'w) compound_method" where
  "CalculateDownloadSizeL sv aSelection = size_loop sv (rev aSelection) 0"

definition KImapAddFlags :: string8 where "KImapAddFlags = ascii ''+FLAGS''"

section \<open>A class of operations\<close>

text \<open>The virtual methods. \<open>vNegative\<close> is \<open>ProcessNegativeServerResponse\<close>, given the code of the request;
  it answers \<open>KErrNone\<close> when the operation goes on.\<close>

record ('m, 'w) compound_class =
  vStartOperation :: "(unit, 'm, 'w) compound_method"
  vDoRunLoopL :: "(bool, 'm, 'w) compound_method"
  vDoCancel :: "(unit, 'm, 'w) compound_method"
  vNegative :: "symbian_error \<Rightarrow> (symbian_error, 'm, 'w) compound_method"
  vResumeOperationL :: "(unit, 'm, 'w) compound_method"

definition start_operation :: "compound_step \<Rightarrow> (unit, 'm, 'w) compound_method" where
  "start_operation s = cdo [next_step s, CompoundQueue, CompleteSelf]"

definition ProcessSessionError :: "('m, 'w) compound_class \<Rightarrow> symbian_error \<Rightarrow> (symbian_error, 'm, 'w) compound_method" where
  "ProcessSessionError cls errCode =
     (if errCode = KErrImapNo \<or> errCode = KErrImapBad then vNegative cls errCode else creturn errCode)"

text \<open>The loop of \<open>DoRunL\<close>; that it returns is proved for each class.\<close>

partial_function (option) run_loop ::
  "(bool, 'm, 'w) compound_method \<Rightarrow> ('m, 'w) compound_state \<Rightarrow> (unit leaving \<times> ('m, 'w) compound_state) option" where
  "run_loop loop s =
     (if iRequest (fst s) \<noteq> None then Some (Inr (), s)
      else case loop s of
        (Inl e, s) \<Rightarrow> Some (Inl e, s)
      | (Inr finished, s) \<Rightarrow> if finished then Some (Inr (), s) else run_loop loop s)"

declare run_loop.simps [code]

text \<open>What \<open>DoRunL\<close> completes with on an error of the session is the value of a comparison and not the error:
  \<open>if (TInt err=ProcessSessionError() != KErrNone)\<close>. The value is 1, the code of a \<open>NO\<close> response.\<close>

definition DoRunL ::
  "('m, 'w) compound_class \<Rightarrow> symbian_error \<Rightarrow> ('m, 'w) compound_state \<Rightarrow> (unit leaving \<times> ('m, 'w) compound_state) option" where
  "DoRunL cls status s =
     (if status = KErrNone then run_loop (vDoRunLoopL cls) s
      else case ProcessSessionError cls status s of
        (Inl e, s) \<Rightarrow> Some (Inl e, s)
      | (Inr err, s) \<Rightarrow> if err \<noteq> KErrNone then Some (CompoundComplete KErrImapNo s) else run_loop (vDoRunLoopL cls) s)"

text \<open>The codes of the session are positive, those of the system negative.\<close>

definition system_error :: "symbian_error \<Rightarrow> bool" where
  "system_error e \<longleftrightarrow> e \<notin> {KErrNone, KErrImapNo, KErrImapBad, KErrImapClosed, KErrImapFlushTimeout, KErrImapCorrupt}"

text \<open>\<open>CMsgActive::RunL\<close>, of the platform: a negative code completes the client; otherwise \<open>DoRunL\<close> runs, and
  completes the client with the code it leaves with, or with \<open>KErrNone\<close> when it returns and nothing is
  outstanding. \<open>Inl\<close> is a panic, \<open>None\<close> a loop that does not end.\<close>

definition completed_with :: "symbian_error \<Rightarrow> ('m, 'w) compound_state \<Rightarrow> ('m, 'w) compound_state" where
  "completed_with e s = snd (CompoundComplete e s)"

definition run_result ::
  "(unit leaving \<times> ('m, 'w) compound_state) option \<Rightarrow> ('m, 'w) compound_state leaving option" where
  "run_result = map_option (\<lambda>(r, s). case r of
     Inl e \<Rightarrow> if is_panic e then Inl e else Inr (completed_with e s)
   | Inr _ \<Rightarrow> Inr (if iRequest (fst s) = None then completed_with KErrNone s else s))"

definition RunL ::
  "('m, 'w) compound_class \<Rightarrow> symbian_error \<Rightarrow> ('m, 'w) compound_state \<Rightarrow> ('m, 'w) compound_state leaving option" where
  "RunL cls status s =
     (let s = ((fst s)\<lparr> iRequest := None \<rparr>, snd s) in
      if system_error status then Some (Inr (completed_with status s))
      else run_result (DoRunL cls status s))"

section \<open>Cancelling and migration\<close>

text \<open>The end every \<open>DoCancel\<close> has: a genuine cancel is shown in the progress, and the client is completed.\<close>

definition end_cancel :: "(unit, 'm, 'w) compound_method" where
  "end_cancel = cdo
     [cset (\<lambda>c. if iCancelForMigrate c then c else c\<lparr> iProgressErrorCode := KErrCancel \<rparr>), CompoundComplete KErrCancel]"

text \<open>\<open>CActive::Cancel\<close> does nothing when no request is outstanding.\<close>

definition CancelOperation :: "('m, 'w) compound_class \<Rightarrow> (unit, 'm, 'w) compound_method" where
  "CancelOperation cls = cbind (cread iRequest) (\<lambda>active.
     if active = None then creturn () else cdo [vDoCancel cls, cset (\<lambda>c. c\<lparr> iRequest := None \<rparr>)])"

definition CancelForMigrate :: "('m, 'w) compound_class \<Rightarrow> (unit, 'm, 'w) compound_method" where
  "CancelForMigrate cls = cdo
     [cset (\<lambda>c. c\<lparr> iCancelForMigrate := True \<rparr>), CancelOperation cls,
      cset (\<lambda>c. c\<lparr> iCancelForMigrate := False, iCurrentStep := ESuspendedForMigrate \<rparr>)]"

definition StopForMigrate :: "(unit, 'm, 'w) compound_method" where
  "StopForMigrate = cset (\<lambda>c. c\<lparr> iStopForMigrate := True \<rparr>)"

definition Suspended :: "'m compound_base_scheme \<Rightarrow> bool" where
  "Suspended c \<longleftrightarrow> iCurrentStep c = ESuspendedForMigrate"

text \<open>What every \<open>ResumeOperationL\<close> does: it resets the flag, goes on, and keeps the client's request.\<close>

definition resume_with :: "(unit, 'm, 'w) compound_method \<Rightarrow> (unit, 'm, 'w) compound_method" where
  "resume_with m = cdo [cset (\<lambda>c. c\<lparr> iStopForMigrate := False \<rparr>), m, CompoundQueue]"

definition abandon :: "(unit, 'm, 'w) compound_method" where
  "abandon = cdo [next_step EFinished, CompleteSelf]"

end
