(* ===== verification/Imap_Delete.thy ===== *)
theory Imap_Delete
  imports Imap_Compound
begin

text \<open>
  \<open>CImapCompoundDelete\<close> (imapprotocolcontroller/src/cimapcompounddelete.cpp): deleting messages, folder by
  folder. The messages of the first folder are marked and named to the server in one command; once
  they are expunged, they are deleted in the message store as well.
\<close>

section \<open>The state\<close>

record delete_compound = compound_base +
  iParentFolderId :: msv_id
  iParentFolder :: "msv_id option"
  iSourceSel :: "msv_id list"
  iMessageUids :: "tint list"
  iSelectionToDelete :: nat
  iProgressMsgsToDo :: nat
  iProgressMsgsDone :: nat

definition delete_new :: delete_compound where
  "delete_new = compound_base.extend compound_new
     \<lparr> iParentFolderId = 0, iParentFolder = None, iSourceSel = [], iMessageUids = [], iSelectionToDelete = 0,
       iProgressMsgsToDo = 0, iProgressMsgsDone = 0 \<rparr>"

definition Delete_ConstructL :: "'w services \<Rightarrow> msv_id list \<Rightarrow> (unit, 'm delete_compound_ext, 'w) compound_method" where
  "Delete_ConstructL sv aSourceSel =
     cbind (CheckSelectionL sv aSourceSel True False False True) (\<lambda>(err, sel).
       cset (\<lambda>c. c\<lparr> iSourceSel := sel, iProgressMsgsToDo := length sel, iProgressMsgsDone := 0 \<rparr>))"

section \<open>The steps\<close>

definition KImapFlagDeleted :: string8 where "KImapFlagDeleted = ascii ([CHR 40, CHR 0x5C] @ ''Deleted)'')"

definition delete_select :: "'w services \<Rightarrow> (bool, 'm delete_compound_ext, 'w) compound_method" where
  "delete_select sv = cbind (cread id) (\<lambda>c.
     if iSourceSel c = [] then go_on [next_step EFinished]
     else if iStopForMigrate c then suspend ESelectSourceMailboxRW
     else
       cbind (FindFolderL sv (hd (iSourceSel c))) (\<lambda>parent.
       cbind (ctry (svGetFolder sv parent True)) (\<lambda>found.
         if \<not> found then
           go_on [cset (\<lambda>c. c\<lparr> iParentFolderId := parent, iParentFolder := None, iSourceSel := tl (iSourceSel c),
                             iProgressMsgsDone := Suc (iProgressMsgsDone c) \<rparr>)]
         else
           go_on [cset (\<lambda>c. c\<lparr> iParentFolderId := parent, iParentFolder := Some parent, iMessageUids := [] \<rparr>),
                  request sv (RqSelect parent), progress ESelecting, next_step EDeleteMessage,
                  SetActive (RqSelect parent)])))"

text \<open>Marking the messages that stand before the first one of another folder.\<close>

fun delete_mark :: "'w services \<Rightarrow> msv_id \<Rightarrow> msv_id list \<Rightarrow> (unit, 'm delete_compound_ext, 'w) compound_method" where
  "delete_mark sv parent [] = creturn ()"
| "delete_mark sv parent (x # xs) =
     cbind (SetEntryL sv x) (\<lambda>_. cbind (entry sv) (\<lambda>e.
       if eParent e = parent then
         cdo [cset (\<lambda>c. c\<lparr> iMessageUids := iMessageUids c @ [eUid e] \<rparr>),
              ChangeEntryL sv (e\<lparr> eDeletedFlag := True \<rparr>),
              cset (\<lambda>c. c\<lparr> iSelectionToDelete := Suc (iSelectionToDelete c) \<rparr>),
              delete_mark sv parent xs]
       else creturn ()))"

definition delete_store :: "'w services \<Rightarrow> (bool, 'm delete_compound_ext, 'w) compound_method" where
  "delete_store sv = cbind (cread id) (\<lambda>c.
     cbind (delete_mark sv (iParentFolderId c) (iSourceSel c)) (\<lambda>_.
     cbind (cset (\<lambda>c. c\<lparr> iMessageUids := sort (iMessageUids c) \<rparr>)) (\<lambda>_.
     cbind (cread iMessageUids) (\<lambda>uids.
       let r = RqStore (CreateSequenceSetLC uids) KImapAddFlags KImapFlagDeleted True
       in go_on [request sv r, progress EDeleting,
                 next_step (if svUseExpunge sv then EExpunge else ECloseFolder), SetActive r]))))"

text \<open>The local deletion indexes the selection, which panics past its end.\<close>

fun delete_entries :: "'w services \<Rightarrow> nat \<Rightarrow> msv_id list \<Rightarrow> (unit, 'm, 'w) compound_method" where
  "delete_entries sv 0 xs = creturn ()"
| "delete_entries sv (Suc n) [] = cleave KPanicIndex"
| "delete_entries sv (Suc n) (x # xs) =
     cbind (ccall (svDeleteEntry sv x)) (\<lambda>err.
       if err = KErrNone \<or> err = KErrInUse then delete_entries sv n xs else cleave err)"

definition DeleteLocalMessagesL :: "'w services \<Rightarrow> (unit, 'm delete_compound_ext, 'w) compound_method" where
  "DeleteLocalMessagesL sv = cbind (cread id) (\<lambda>c.
     case iSourceSel c of
       [] \<Rightarrow> cleave KPanicIndex
     | x # xs \<Rightarrow>
         cbind (SetEntryL sv x) (\<lambda>_. cbind (entry sv) (\<lambda>e.
           cdo [SetEntryL sv (eParent e),
                delete_entries sv (iSelectionToDelete c) (x # xs),
                cset (\<lambda>c. c\<lparr> iSourceSel := drop (iSelectionToDelete c) (iSourceSel c), iSelectionToDelete := 0,
                           iProgressMsgsDone := iProgressMsgsDone c + iSelectionToDelete c \<rparr>)])))"

definition delete_loop :: "'w services \<Rightarrow> (bool, 'm delete_compound_ext, 'w) compound_method" where
  "delete_loop sv = cbind SetCurrentStep (\<lambda>_. cbind (cread id) (\<lambda>c.
     case iCurrentStep c of
       ESelectSourceMailboxRW \<Rightarrow> delete_select sv
     | EDeleteMessage \<Rightarrow> delete_store sv
     | EExpunge \<Rightarrow> go_on [request sv RqExpunge, next_step EDeleteLocalMessage, SetActive RqExpunge]
     | ECloseFolder \<Rightarrow> go_on [request sv RqClose, next_step ESelectFolderAfterClose, SetActive RqClose]
     | ESelectFolderAfterClose \<Rightarrow> on_folder_object (iParentFolder c) (\<lambda>x.
         go_on [request sv (RqSelect x), next_step EDeleteLocalMessage, SetActive (RqSelect x)])
     | EDeleteLocalMessage \<Rightarrow> go_on [DeleteLocalMessagesL sv, next_step ESelectSourceMailboxRW]
     | EFinished \<Rightarrow> finish EIdle
     | _ \<Rightarrow> unexpected))"

section \<open>Cancelling, failing, resuming\<close>

definition delete_cancel :: "(unit, 'm delete_compound_ext, 'w) compound_method" where
  "delete_cancel = cbind (cread iCurrentStep) (\<lambda>s.
     cdo [case s of
            ESelectSourceMailboxRW \<Rightarrow> next_step ESelectSourceMailboxRW
          | EDeleteMessage \<Rightarrow> cset (\<lambda>c. c\<lparr> iSelectionToDelete := 0, iNextStep := EDeleteMessage \<rparr>)
          | EExpunge \<Rightarrow> next_step EExpunge
          | ECloseFolder \<Rightarrow> next_step ECloseFolder
          | ESelectFolderAfterClose \<Rightarrow> next_step ESelectFolderAfterClose
          | _ \<Rightarrow> creturn (),
          end_cancel])"

definition delete_negative :: "'w services \<Rightarrow> symbian_error \<Rightarrow> (symbian_error, 'm delete_compound_ext, 'w) compound_method" where
  "delete_negative sv err = cbind (cread id) (\<lambda>c.
     let err' = (if err = KErrImapNo then KErrNotFound else err); s = iCurrentStep c
     in  if s = ESelectSourceMailboxRW \<or> s = ESelectFolderAfterClose then
           (case iSourceSel c of
              [] \<Rightarrow> cleave KPanicIndex
            | x # _ \<Rightarrow>
                cbind (cdo [trap_ignore (MessageErrorL sv x err'),
                            cset (\<lambda>c. c\<lparr> iProgressMsgsDone := Suc (iProgressMsgsDone c) \<rparr>),
                            cset (\<lambda>c. c\<lparr> iNextStep :=
                              (if iProgressMsgsDone c < iProgressMsgsToDo c then ESelectSourceMailboxRW else EFinished),
                              iProgressErrorCode := err' \<rparr>)])
                  (\<lambda>_. creturn KErrNone))
         else if s = EDeleteMessage \<or> s = EExpunge \<or> s = ECloseFolder then
           cbind (cset (\<lambda>c. c\<lparr> iProgressErrorCode := err \<rparr>)) (\<lambda>_. creturn KErrNone)
         else cleave KPanicImap)"

definition delete_resume :: "'w services \<Rightarrow> (unit, 'm delete_compound_ext, 'w) compound_method" where
  "delete_resume sv = resume_with (cbind (cread id) (\<lambda>c.
     let s = iNextStep c
     in  if s = ESelectSourceMailboxRW \<or> s = ESelectFolderAfterClose then CompleteSelf
         else if s = EDeleteMessage \<or> s = EExpunge \<or> s = ECloseFolder then
           on_folder_object (iParentFolder c) (\<lambda>x.
             cdo [request sv (RqSelect x), cset (\<lambda>c. c\<lparr> iCurrentStep := ESelectSourceMailboxRW \<rparr>),
                  SetActive (RqSelect x)])
         else abandon))"

definition delete_class :: "'w services \<Rightarrow> ('m delete_compound_ext, 'w) compound_class" where
  "delete_class sv =
     \<lparr> vStartOperation = start_operation ESelectSourceMailboxRW, vDoRunLoopL = delete_loop sv,
       vDoCancel = delete_cancel, vNegative = delete_negative sv, vResumeOperationL = delete_resume sv \<rparr>"

end
