(* ===== verification/Imap_Compound_Laws.thy ===== *)
theory Imap_Compound_Laws
  imports Imap_Compound
begin

text \<open>
  The contract of a compound operation: what its methods do to the active object. From it follows that
  every run of the loop ends, and that the client is always answered: while its request is open, the
  operation waits for something.
\<close>

section \<open>Weakest preconditions\<close>

definition cwp ::
  "('a, 'm, 'w) compound_method \<Rightarrow> ('a \<Rightarrow> ('m, 'w) compound_state \<Rightarrow> bool) \<Rightarrow>
   (symbian_error \<Rightarrow> ('m, 'w) compound_state \<Rightarrow> bool) \<Rightarrow> ('m, 'w) compound_state \<Rightarrow> bool" where
  "cwp m Q E s \<longleftrightarrow> (case m s of (Inr x, s') \<Rightarrow> Q x s' | (Inl e, s') \<Rightarrow> E e s')"

named_theorems cwp_rules \<open>weakest preconditions of the methods of compound operations\<close>

lemma cwp_basic [cwp_rules]:
  "Q x s \<Longrightarrow> cwp (creturn x) Q E s"
  "E e s \<Longrightarrow> cwp (cleave e) Q E s"
  "Q (g (fst s)) s \<Longrightarrow> cwp (cread g) Q E s"
  "R () (h (fst s), snd s) \<Longrightarrow> cwp (cset h) R E s"
  by (simp_all add: cwp_def creturn_def cleave_def cread_def cset_def)

lemma cwp_cask [cwp_rules]: "(\<And>x. Q x s) \<Longrightarrow> cwp (cask g) Q E s"
  by (simp add: cwp_def cask_def)

lemma cwp_bind [cwp_rules]: "cwp m (\<lambda>x. cwp (k x) Q E) E s \<Longrightarrow> cwp (cbind m k) Q E s"
  by (auto simp: cwp_def cbind_def split: prod.splits sum.splits)

lemma cwp_if [cwp_rules]:
  "(b \<Longrightarrow> cwp m Q E s) \<Longrightarrow> (\<not> b \<Longrightarrow> cwp m' Q E s) \<Longrightarrow> cwp (if b then m else m') Q E s"
  by simp

lemma cwp_mono: "cwp m Q E s \<Longrightarrow> (\<And>x s. Q x s \<Longrightarrow> Q' x s) \<Longrightarrow> (\<And>e s. E e s \<Longrightarrow> E' e s) \<Longrightarrow> cwp m Q' E' s"
  by (auto simp: cwp_def split: prod.splits sum.splits)

lemma cwp_cdo [cwp_rules]:
  "Q () s \<Longrightarrow> cwp (cdo []) Q E s"
  "cwp m Q E s \<Longrightarrow> cwp (cdo [m]) Q E s"
  "cwp m (\<lambda>_. cwp (cdo (m' # ms)) Q E) E s \<Longrightarrow> cwp (cdo (m # m' # ms)) Q E s"
  by (auto simp: cwp_def creturn_def cbind_def split: prod.splits sum.splits)

text \<open>Methods that leave \<open>g\<close> of the members alone; those that only touch the services leave all of them alone.\<close>

definition keeps :: "('m compound_base_scheme \<Rightarrow> 'b) \<Rightarrow> ('a, 'm, 'w) compound_method \<Rightarrow> bool" where
  "keeps g m \<longleftrightarrow> (\<forall>s r s'. m s = (r, s') \<longrightarrow> g (fst s') = g (fst s))"

named_theorems keeps_rules \<open>methods that leave the members of the operation alone\<close>

lemma keeps_basic [keeps_rules]:
  "keeps g (creturn x)" "keeps g (cleave e)" "keeps g (cread g')" "keeps g (cask g'')"
  "keeps g (ccall f)" "keeps g (ctry f')" "keeps g (leave_if_error err)"
  by (auto simp: keeps_def creturn_def cleave_def cread_def cask_def ccall_def ctry_def leave_if_error_def
      split: prod.splits)

lemma keeps_set [keeps_rules]: "(\<And>c. g (h c) = g c) \<Longrightarrow> keeps g (cset h)"
  by (simp add: keeps_def cset_def)

lemma ckeeps_bind [keeps_rules]: "keeps g m \<Longrightarrow> (\<And>x. keeps g (k x)) \<Longrightarrow> keeps g (cbind m k)"
  unfolding keeps_def cbind_def by (fastforce split: prod.splits sum.splits)

lemma ckeeps_if [keeps_rules]: "(b \<Longrightarrow> keeps g m) \<Longrightarrow> (\<not> b \<Longrightarrow> keeps g m') \<Longrightarrow> keeps g (if b then m else m')"
  by simp

lemma keeps_cdo [keeps_rules]:
  "keeps g (cdo [])" "keeps g m \<Longrightarrow> keeps g (cdo [m])"
  "keeps g m1 \<Longrightarrow> keeps g (cdo (m' # ms)) \<Longrightarrow> keeps g (cdo (m1 # m' # ms))"
  by (simp_all add: keeps_basic(1) ckeeps_bind)

lemma keeps_trap [keeps_rules]: "keeps g m \<Longrightarrow> keeps g (trap_ignore m)"
  unfolding keeps_def trap_ignore_def by (fastforce split: prod.splits sum.splits if_splits)

lemma keeps_store [keeps_rules]:
  "keeps g (SetEntryL sv x)" "keeps g (entry sv)" "keeps g (ChangeEntryL sv e)" "keeps g (request sv r)"
  by (simp_all add: SetEntryL_def entry_def ChangeEntryL_def request_def keeps_rules)

lemma keeps_message_error [keeps_rules]: "keeps g (MessageErrorL sv x e)"
  unfolding MessageErrorL_def by (intro keeps_rules)

lemma keeps_find_loop [keeps_rules]: "keeps g (find_folder_loop n sv)"
  by (induction n) (auto intro!: keeps_rules)

lemma keeps_find [keeps_rules]: "keeps g (FindFolderL sv x)"
  unfolding FindFolderL_def by (intro keeps_rules)

lemma keeps_size [keeps_rules]: "keeps g (size_loop sv xs t)"
  by (induction xs arbitrary: t) (auto intro!: keeps_rules)

lemma cwp_keeps:
  assumes "keeps g m" "\<And>x s'. g (fst s') = g (fst s) \<Longrightarrow> Q x s'" "\<And>e s'. g (fst s') = g (fst s) \<Longrightarrow> E e s'"
  shows "cwp m Q E s"
proof -
  obtain r s' where m: "m s = (r, s')" by (cases "m s")
  with assms(1) have "g (fst s') = g (fst s)" unfolding keeps_def by blast
  with m assms(2,3) show ?thesis by (cases r) (simp_all add: cwp_def)
qed

lemma cwp_outside:
  assumes "keeps id m" "\<And>x w. Q x (fst s, w)" "\<And>e w. E e (fst s, w)"
  shows "cwp m Q E s"
  by (rule cwp_keeps [OF assms(1)]) (metis assms(2,3) id_apply prod.collapse)+

lemmas cwp_outsides [cwp_rules] = keeps_store [THEN cwp_outside] keeps_basic(5,6,7) [THEN cwp_outside]
  keeps_trap [THEN cwp_outside, OF keeps_message_error] keeps_find [THEN cwp_outside]

lemma cwp_active [cwp_rules]:
  assumes "iRequest (fst s) = None \<Longrightarrow> Q () ((fst s)\<lparr> iRequest := Some r \<rparr>, snd s)"
    "iRequest (fst s) \<noteq> None \<Longrightarrow> E KPanicActive s"
  shows "cwp (SetActive r) Q E s"
  using assms by (auto simp: SetActive_def cwp_def cbind_def cread_def cset_def cleave_def)

section \<open>The life of an operation\<close>

text \<open>\<open>n\<close> counts how often the client queued a request. The services may change at any time; a request
  that the operation completes itself does not fail.\<close>

inductive compound_reach ::
  "('m, 'w) compound_class \<Rightarrow> nat \<Rightarrow> ('m, 'w) compound_state \<Rightarrow> bool" for cls :: "('m, 'w) compound_class" where
  reach_new: "\<not> iReport c \<Longrightarrow> iRequest c = None \<Longrightarrow> iCompleted c = [] \<Longrightarrow> compound_reach cls 0 (c, w)"
| reach_world: "compound_reach cls n (c, w) \<Longrightarrow> compound_reach cls n (c, w')"
| reach_start: "compound_reach cls n s \<Longrightarrow> \<not> iReport (fst s) \<Longrightarrow> vStartOperation cls s = (Inr (), s') \<Longrightarrow>
    compound_reach cls (Suc n) s'"
| reach_run: "compound_reach cls n s \<Longrightarrow> iRequest (fst s) = Some r \<Longrightarrow> (r = RqSelf \<longrightarrow> status = KErrNone) \<Longrightarrow>
    RunL cls status s = Some (Inr s') \<Longrightarrow> compound_reach cls n s'"
| reach_cancel: "compound_reach cls n s \<Longrightarrow> CancelOperation cls s = (Inr (), s') \<Longrightarrow> compound_reach cls n s'"
| reach_migrate: "compound_reach cls n s \<Longrightarrow> CancelForMigrate cls s = (Inr (), s') \<Longrightarrow> compound_reach cls n s'"
| reach_stop: "compound_reach cls n s \<Longrightarrow> StopForMigrate s = (Inr (), s') \<Longrightarrow> compound_reach cls n s'"
| reach_resume: "compound_reach cls n s \<Longrightarrow> \<not> iReport (fst s) \<Longrightarrow> Suspended (fst s) \<Longrightarrow>
    vResumeOperationL cls s = (Inr (), s') \<Longrightarrow> compound_reach cls (Suc n) s'"

section \<open>The contract\<close>

text \<open>The client still waits, and nothing was told to it.\<close>

definition still_open :: "'m compound_base_scheme \<Rightarrow> 'm compound_base_scheme \<Rightarrow> bool" where
  "still_open c c' \<longleftrightarrow> iReport c' \<and> iCompleted c' = iCompleted c"

definition answered :: "'m compound_base_scheme \<Rightarrow> 'm compound_base_scheme \<Rightarrow> bool" where
  "answered c c' \<longleftrightarrow> \<not> iReport c' \<and> length (iCompleted c') = Suc (length (iCompleted c))"

text \<open>How a method that leaves may leave the operation.\<close>

definition left_open :: "'m compound_base_scheme \<Rightarrow> symbian_error \<Rightarrow> ('m, 'w) compound_state \<Rightarrow> bool" where
  "left_open c e s \<longleftrightarrow> is_panic e \<or> still_open c (fst s) \<and> iRequest (fst s) = None"

text \<open>The client is answered: an open request has something outstanding, the number of answers is the number of
  requests that are not open, and whatever the outstanding request ends with, the next run of the
  operation returns or panics.\<close>

definition client_served :: "('m, 'w) compound_class \<Rightarrow> nat \<Rightarrow> ('m, 'w) compound_state \<Rightarrow> bool" where
  "client_served cls n s \<longleftrightarrow> (iReport (fst s) \<longleftrightarrow> iRequest (fst s) \<noteq> None)
     \<and> n = length (iCompleted (fst s)) + (if iReport (fst s) then 1 else 0)
     \<and> (iReport (fst s) \<longrightarrow>
          (\<forall>status. \<exists>r. RunL cls status s = Some r \<and> (\<forall>e. r = Inl e \<longrightarrow> is_panic e)))"

locale compound_contract =
  fixes cls :: "('m, 'w) compound_class" and steps :: "compound_step set"
    and rank :: "'m compound_base_scheme \<Rightarrow> nat"
  assumes loop: "iNextStep c \<in> steps \<Longrightarrow> iReport c \<Longrightarrow> iRequest c = None \<Longrightarrow>
      cwp (vDoRunLoopL cls)
        (\<lambda>finished s. if finished then iRequest (fst s) = None \<and> answered c (fst s)
           else still_open c (fst s) \<and> iNextStep (fst s) \<in> steps \<and> (iRequest (fst s) = None \<longrightarrow> rank (fst s) < rank c))
        (left_open c) (c, w)"
    and negative: "iNextStep c \<in> steps \<Longrightarrow> iReport c \<Longrightarrow> iRequest c = None \<Longrightarrow>
      cwp (vNegative cls err) (\<lambda>_ s. iNextStep (fst s) \<in> steps \<and> still_open c (fst s) \<and> iRequest (fst s) = None)
        (left_open c) (c, w)"
    and cancel: "iReport c \<Longrightarrow> iRequest c \<noteq> None \<Longrightarrow>
      cwp (vDoCancel cls) (\<lambda>_ s. answered c (fst s)) (\<lambda>e s. is_panic e) (c, w)"
    and start: "\<not> iReport c \<Longrightarrow> iRequest c = None \<Longrightarrow>
      cwp (vStartOperation cls)
        (\<lambda>_ s. iReport (fst s) \<and> iRequest (fst s) \<noteq> None \<and> iNextStep (fst s) \<in> steps \<and> iCompleted (fst s) = iCompleted c)
        (\<lambda>e s. True) (c, w)"
    and resume: "\<not> iReport c \<Longrightarrow> iRequest c = None \<Longrightarrow>
      cwp (vResumeOperationL cls)
        (\<lambda>_ s. (iReport (fst s) \<and> iRequest (fst s) \<noteq> None \<and> iNextStep (fst s) \<in> steps \<and> iCompleted (fst s) = iCompleted c)
           \<or> (iRequest (fst s) = None \<and> answered c (fst s)))
        (\<lambda>e s. True) (c, w)"
begin

definition open_or_idle :: "('m, 'w) compound_state \<Rightarrow> bool" where
  "open_or_idle s \<longleftrightarrow> (iReport (fst s) \<longleftrightarrow> iRequest (fst s) \<noteq> None) \<and> (iReport (fst s) \<longrightarrow> iNextStep (fst s) \<in> steps)"

definition counted :: "nat \<Rightarrow> ('m, 'w) compound_state \<Rightarrow> bool" where
  "counted n s \<longleftrightarrow> n = length (iCompleted (fst s)) + (if iReport (fst s) then 1 else 0)"

definition ended :: "nat \<Rightarrow> unit leaving \<Rightarrow> ('m, 'w) compound_state \<Rightarrow> bool" where
  "ended n r s \<longleftrightarrow> (case r of
     Inl e \<Rightarrow> is_panic e \<or> counted n s \<and> iReport (fst s) \<and> iRequest (fst s) = None
   | Inr _ \<Rightarrow> counted n s \<and> open_or_idle s)"

text \<open>The loop ends, with the client answered or with something to wait for.\<close>

lemma run_loop_ends:
  assumes "iNextStep (fst s) \<in> steps" "iReport (fst s)" "counted n s"
  shows "\<exists>r s'. run_loop (vDoRunLoopL cls) s = Some (r, s') \<and> ended n r s'"
  using assms
proof (induction "rank (fst s)" arbitrary: s rule: less_induct)
  case less
  show ?case
  proof (cases "iRequest (fst s)")
    case (Some r)
    with less.prems show ?thesis by (subst run_loop.simps) (simp add: open_or_idle_def ended_def)
  next
    case None
    obtain r s' where body: "vDoRunLoopL cls s = (r, s')" by (cases "vDoRunLoopL cls s")
    have w: "cwp (vDoRunLoopL cls)
        (\<lambda>finished s'. if finished then iRequest (fst s') = None \<and> answered (fst s) (fst s')
           else still_open (fst s) (fst s') \<and> iNextStep (fst s') \<in> steps
             \<and> (iRequest (fst s') = None \<longrightarrow> rank (fst s') < rank (fst s))) (left_open (fst s)) s"
      using loop [OF less.prems(1,2) None, of "snd s"] by simp
    show ?thesis
    proof (cases r)
      case (Inl e)
      with w body have "left_open (fst s) e s'" by (simp add: cwp_def)
      with Inl body None less.prems show ?thesis
        by (subst run_loop.simps) (auto simp: left_open_def still_open_def counted_def ended_def)
    next
      case (Inr finished)
      show ?thesis
      proof (cases finished)
        case True
        with w body Inr have "iRequest (fst s') = None \<and> answered (fst s) (fst s')" by (simp add: cwp_def)
        with True Inr body None less.prems show ?thesis
          by (subst run_loop.simps) (auto simp: answered_def counted_def open_or_idle_def ended_def)
      next
        case False
        with w body Inr have s': "still_open (fst s) (fst s')" "iNextStep (fst s') \<in> steps"
          "iRequest (fst s') = None \<Longrightarrow> rank (fst s') < rank (fst s)"
          by (simp_all add: cwp_def)
        then have c: "iReport (fst s')" "counted n s'"
          using less.prems by (simp_all add: still_open_def counted_def)
        have unfold: "run_loop (vDoRunLoopL cls) s = run_loop (vDoRunLoopL cls) s'"
          using False Inr body None by (subst run_loop.simps) simp
        show ?thesis
        proof (cases "iRequest (fst s')")
          case None
          from less.hyps [OF s'(3) [OF None] s'(2) c] unfold show ?thesis by simp
        next
          case (Some r')
          with unfold s'(2) c show ?thesis
            using run_loop.simps [of "vDoRunLoopL cls" s'] by (simp add: open_or_idle_def ended_def)
        qed
      qed
    qed
  qed
qed

lemma completed_with_state:
  "counted n s \<Longrightarrow> iReport (fst s) \<Longrightarrow> iRequest (fst s) = None \<Longrightarrow> counted n (completed_with e s) \<and> open_or_idle (completed_with e s)"
  by (simp add: completed_with_def CompoundComplete_def cset_def counted_def open_or_idle_def)

lemma DoRunL_ends:
  assumes "iNextStep (fst s) \<in> steps" "iReport (fst s)" "iRequest (fst s) = None" "counted n s"
  shows "\<exists>r s'. DoRunL cls status s = Some (r, s') \<and> ended n r s'"
proof (cases "status = KErrNone")
  case True
  with run_loop_ends [OF assms(1,2,4)] show ?thesis by (simp add: DoRunL_def)
next
  case False
  obtain r s' where p: "ProcessSessionError cls status s = (r, s')" by (cases "ProcessSessionError cls status s")
  have w: "cwp (ProcessSessionError cls status)
      (\<lambda>_ s'. iNextStep (fst s') \<in> steps \<and> still_open (fst s) (fst s') \<and> iRequest (fst s') = None) (left_open (fst s)) s"
    unfolding ProcessSessionError_def using negative [OF assms(1,2,3), of status "snd s"] assms
    by (auto intro!: cwp_rules simp: still_open_def)
  show ?thesis
  proof (cases r)
    case (Inl e)
    with w p have "left_open (fst s) e s'" by (simp add: cwp_def)
    with Inl p False assms show ?thesis
      by (auto simp: DoRunL_def left_open_def still_open_def counted_def ended_def)
  next
    case (Inr err)
    with w p have s': "iNextStep (fst s') \<in> steps" "still_open (fst s) (fst s')" "iRequest (fst s') = None"
      by (simp_all add: cwp_def)
    with assms have c: "iReport (fst s')" "counted n s'" by (simp_all add: still_open_def counted_def)
    from completed_with_state [OF c(2,1) s'(3), of KErrImapNo] run_loop_ends [OF s'(1) c]
    show ?thesis using Inr p False
      by (cases "err = KErrNone") (auto simp: DoRunL_def completed_with_def CompoundComplete_def cset_def ended_def)
  qed
qed

lemma RunL_ends:
  assumes "iReport (fst s)" "iNextStep (fst s) \<in> steps" "counted n s"
  shows "\<exists>r. RunL cls status s = Some r \<and> (case r of Inl e \<Rightarrow> is_panic e | Inr s' \<Rightarrow> counted n s' \<and> open_or_idle s')"
proof -
  let ?s = "((fst s)\<lparr> iRequest := None \<rparr>, snd s)"
  have s: "iReport (fst ?s)" "iNextStep (fst ?s) \<in> steps" "iRequest (fst ?s) = None" "counted n ?s"
    using assms by (simp_all add: counted_def)
  show ?thesis
  proof (cases "system_error status")
    case True
    with completed_with_state [OF s(4,1,3), of status] show ?thesis by (simp add: RunL_def Let_def)
  next
    case False
    obtain r s' where d: "DoRunL cls status ?s = Some (r, s')" "ended n r s'"
      using DoRunL_ends [OF s(2,1,3,4), of status] by blast
    show ?thesis
    proof (cases r)
      case (Inl e)
      with d False completed_with_state [of n s' e] show ?thesis by (auto simp: RunL_def Let_def ended_def run_result_def)
    next
      case (Inr u)
      with d False completed_with_state [of n s' KErrNone] show ?thesis
        by (cases "iReport (fst s')")
          (auto simp: RunL_def Let_def ended_def run_result_def open_or_idle_def completed_with_def CompoundComplete_def cset_def)
    qed
  qed
qed

lemma cancel_keeps:
  assumes "counted n s" "open_or_idle s"
  shows "cwp (CancelOperation cls) (\<lambda>_ s'. open_or_idle s' \<and> counted n s') (\<lambda>e s. is_panic e) s"
proof (cases "iRequest (fst s)")
  case None
  with assms show ?thesis by (simp add: CancelOperation_def cwp_def cbind_def cread_def creturn_def)
next
  case (Some r)
  with assms(2) have "iReport (fst s)" by (simp add: open_or_idle_def)
  with cancel [of "fst s" "snd s"] Some assms(1)
  have "cwp (vDoCancel cls) (\<lambda>_ s'. open_or_idle ((fst s')\<lparr> iRequest := None \<rparr>, snd s') \<and> counted n ((fst s')\<lparr> iRequest := None \<rparr>, snd s'))
      (\<lambda>e s. is_panic e) s"
    by (auto elim!: cwp_mono simp: answered_def open_or_idle_def counted_def)
  then show ?thesis unfolding CancelOperation_def using Some
    by (intro cwp_rules) (auto elim!: cwp_mono intro!: cwp_basic)
qed

lemma waiting_reach:
  assumes "compound_reach cls n s"
  shows "open_or_idle s \<and> counted n s"
  using assms
proof induction
  case (reach_new c w)
  then show ?case by (simp add: open_or_idle_def counted_def)
next
  case (reach_world n c w w')
  then show ?case by (simp add: open_or_idle_def counted_def)
next
  case (reach_start n s s')
  then have "iRequest (fst s) = None" by (simp add: open_or_idle_def)
  with start [of "fst s" "snd s"] reach_start show ?case by (auto simp: cwp_def counted_def open_or_idle_def)
next
  case (reach_run n s r status s')
  then have "iReport (fst s)" "iNextStep (fst s) \<in> steps" by (auto simp: open_or_idle_def)
  with RunL_ends [of s n status] reach_run show ?case by auto
next
  case (reach_cancel n s s')
  with cancel_keeps [of n s] show ?case by (auto simp: cwp_def)
next
  case (reach_migrate n s s')
  then have "open_or_idle ((fst s)\<lparr> iCancelForMigrate := True \<rparr>, snd s)" "counted n ((fst s)\<lparr> iCancelForMigrate := True \<rparr>, snd s)"
    by (simp_all add: open_or_idle_def counted_def)
  from cancel_keeps [OF this(2,1)]
  have "cwp (CancelForMigrate cls) (\<lambda>_ s'. open_or_idle s' \<and> counted n s') (\<lambda>e s. is_panic e) s"
    unfolding CancelForMigrate_def
    by (intro cwp_rules) (auto intro!: cwp_basic elim!: cwp_mono simp: open_or_idle_def counted_def)
  with reach_migrate show ?case by (simp add: cwp_def)
next
  case (reach_stop n s s')
  then show ?case by (auto simp: StopForMigrate_def cset_def open_or_idle_def counted_def)
next
  case (reach_resume n s s')
  then have "iRequest (fst s) = None" by (simp add: open_or_idle_def)
  with resume [of "fst s" "snd s"] reach_resume show ?case
    by (auto simp: cwp_def counted_def open_or_idle_def answered_def)
qed

lemma served:
  assumes "compound_reach cls n s"
  shows "client_served cls n s"
proof -
  have w: "open_or_idle s" "counted n s" using waiting_reach [OF assms] by blast+
  have "\<exists>r. RunL cls status s = Some r \<and> (\<forall>e. r = Inl e \<longrightarrow> is_panic e)" if "iReport (fst s)" for status
  proof -
    have "iNextStep (fst s) \<in> steps" using that w(1) by (simp add: open_or_idle_def)
    from RunL_ends [OF that this w(2), of status] obtain r where r: "RunL cls status s = Some r"
      "case r of Inl e \<Rightarrow> is_panic e | Inr s' \<Rightarrow> counted n s' \<and> open_or_idle s'" by blast
    then show ?thesis by (cases r) simp_all
  qed
  with w show ?thesis by (simp add: client_served_def open_or_idle_def counted_def)
qed

end

section \<open>Rules for the methods\<close>

lemma cwp_current:
  assumes "cwp (k (c\<lparr> iCurrentStep := iNextStep c \<rparr>)) Q E (c\<lparr> iCurrentStep := iNextStep c \<rparr>, w)"
  shows "cwp (cbind SetCurrentStep (\<lambda>_. cbind (cread id) k)) Q E (c, w)"
  using assms by (simp add: cwp_def cbind_def SetCurrentStep_def cset_def cread_def)

text \<open>The members the contract speaks of.\<close>

definition control :: "'m compound_base_scheme \<Rightarrow> bool \<times> symbian_error list \<times> service_request option \<times> compound_step" where
  "control c = (iReport c, iCompleted c, iRequest c, iNextStep c)"

lemmas compound_defs = go_on_def finish_def suspend_def unexpected_def next_step_def progress_def CompoundComplete_def
  CompoundQueue_def await_def CompleteSelf_def start_operation_def resume_with_def abandon_def
  on_folder_object_def left_open_def still_open_def answered_def is_panic_def

lemma cwp_end_cancel [cwp_rules]:
  assumes "\<And>s'. iReport (fst s) \<Longrightarrow> answered (fst s) (fst s') \<Longrightarrow> Q () s'" "iReport (fst s)"
  shows "cwp end_cancel Q E s"
  using assms(1) assms(2) by (simp add: end_cancel_def cwp_def cbind_def cset_def CompoundComplete_def answered_def)

end
