(* ===== verification/Imap_Folder_Ops.thy ===== *)
theory Imap_Folder_Ops
  imports Imap_Compound
begin

text \<open>
  The compound operations on a folder (imapprotocolcontroller/src): selecting it
  (cimapcompoundselect.cpp), creating (cimapcompoundcreate.cpp), renaming (cimapcompoundrename.cpp) and
  deleting one (cimapcompounddeletefolder.cpp), synchronising the tree of folders
  (cimapcompoundsynctree.cpp), disconnecting (cimapcompounddisconnect.cpp), and storing the seen flag
  (cimapupdateflagoperation.cpp).
\<close>

definition not_found_if_no :: "symbian_error \<Rightarrow> symbian_error" where
  "not_found_if_no err = (if err = KErrImapNo then KErrNotFound else err)"

text \<open>The error is kept for the progress, and the operation goes on.\<close>

definition handled :: "symbian_error \<Rightarrow> (symbian_error, 'm, 'w) compound_method" where
  "handled err = cbind (cset (\<lambda>c. c\<lparr> iProgressErrorCode := err \<rparr>)) (\<lambda>_. creturn KErrNone)"

section \<open>Selecting\<close>

record select_folder_compound = compound_base +
  iFolderId :: msv_id

definition select_folder_loop :: "'w services \<Rightarrow> (bool, 'm select_folder_compound_ext, 'w) compound_method" where
  "select_folder_loop sv = cbind SetCurrentStep (\<lambda>_. cbind (cread id) (\<lambda>c.
     case iCurrentStep c of
       ESelectSourceMailboxRW \<Rightarrow>
         cbind (SetEntryL sv (select_folder_compound.iFolderId c)) (\<lambda>_. cbind (entry sv) (\<lambda>e.
         cbind (ctry (svGetFolder sv (select_folder_compound.iFolderId c) True)) (\<lambda>found.
         cbind (next_step EFinished) (\<lambda>_.
           if \<not> found \<or> \<not> eMailbox e then go_on [cset (\<lambda>c. c\<lparr> iProgressErrorCode := KErrNotSupported \<rparr>)]
           else go_on [await sv (RqSelect (select_folder_compound.iFolderId c))]))))
     | EFinished \<Rightarrow> finish EIdle
     | _ \<Rightarrow> unexpected))"

definition select_folder_negative :: "symbian_error \<Rightarrow> (symbian_error, 'm select_folder_compound_ext, 'w) compound_method" where
  "select_folder_negative err = cbind (cread iCurrentStep) (\<lambda>s.
     if s = ESelectSourceMailboxRW then handled (not_found_if_no err) else cleave KPanicImap)"

definition select_folder_class :: "'w services \<Rightarrow> ('m select_folder_compound_ext, 'w) compound_class" where
  "select_folder_class sv =
     \<lparr> vStartOperation = start_operation ESelectSourceMailboxRW, vDoRunLoopL = select_folder_loop sv,
       vDoCancel = end_cancel, vNegative = select_folder_negative,
       vResumeOperationL = resume_with (cdo [next_step ESelectSourceMailboxRW, CompleteSelf]) \<rparr>"

section \<open>Creating a folder\<close>

record create_compound = compound_base +
  iParentId :: msv_id
  iLeafName :: string16
  iIsFolder :: bool
  iNewFolderId :: msv_id

definition MakeFolderNameL ::
  "'w services \<Rightarrow> msv_id \<Rightarrow> string16 \<Rightarrow> bool \<Rightarrow> (string16, 'm, 'w) compound_method" where
  "MakeFolderNameL sv aParent aLeafName aIsFolder =
     cbind (ctry (svGetFolder sv aParent False)) (\<lambda>found.
     cbind (if aParent \<noteq> svServiceId sv
            then (if found then ctry (svFullFolderPath sv aParent) else cleave KPanicNull)
            else creturn []) (\<lambda>parentpath.
       let pathSeparator = svPathSeparator sv
       in creturn ((if parentpath = [] then aLeafName else parentpath @ pathSeparator @ aLeafName)
            @ (if aIsFolder then pathSeparator else []))))"

definition CreateLocalFolderL :: "'w services \<Rightarrow> (unit, 'm create_compound_ext, 'w) compound_method" where
  "CreateLocalFolderL sv = cbind (cread id) (\<lambda>c.
     cbind (SetEntryL sv (iParentId c)) (\<lambda>_.
     cbind (ccall (svCreateEntry sv
         \<lparr> eId = 0, eType = KUidMsvFolderEntry, eParent = iParentId c, eUid = 0, eDetails = iLeafName c,
           eError = KErrNone, eSize = 0, eComplete = True, eMailbox = True, eValidUid = False,
           eSubscribed = False, eUnread = False, eDeletedFlag = False, eSeenFlag = False \<rparr>)) (\<lambda>x.
       cset (\<lambda>c. c\<lparr> create_compound.iNewFolderId := x \<rparr>))))"

definition create_loop :: "'w services \<Rightarrow> (bool, 'm create_compound_ext, 'w) compound_method" where
  "create_loop sv = cbind SetCurrentStep (\<lambda>_. cbind (cread id) (\<lambda>c.
     case iCurrentStep c of
       ECreate \<Rightarrow>
         cbind (MakeFolderNameL sv (iParentId c) (iLeafName c) (iIsFolder c)) (\<lambda>newFolderPath.
           go_on [request sv (RqCreate newFolderPath), progress EBusy, next_step ECreateLocal,
                  SetActive (RqCreate newFolderPath)])
     | ECheckFolderExists \<Rightarrow>
         cbind (MakeFolderNameL sv (iParentId c) (iLeafName c) (iIsFolder c)) (\<lambda>newFolderPath.
           go_on [request sv (RqList newFolderPath), next_step EProcessFolderCheck, SetActive (RqList newFolderPath)])
     | EProcessFolderCheck \<Rightarrow>
         cbind (cask (svListed sv)) (\<lambda>n. go_on [next_step (if n = 0 then ECreate else ECreateLocal)])
     | ECreateLocal \<Rightarrow> cbind (cdo [CreateLocalFolderL sv, next_step EFinished]) (\<lambda>_. finish EIdle)
     | EFinished \<Rightarrow> finish EIdle
     | _ \<Rightarrow> unexpected))"

definition create_cancel :: "(unit, 'm create_compound_ext, 'w) compound_method" where
  "create_cancel = cbind (cread iCurrentStep) (\<lambda>s.
     cdo [if s = ECreate \<or> s = ECheckFolderExists then next_step ECheckFolderExists else creturn (), end_cancel])"

definition create_negative :: "symbian_error \<Rightarrow> (symbian_error, 'm create_compound_ext, 'w) compound_method" where
  "create_negative err = cbind (cread iCurrentStep) (\<lambda>s.
     if s = ECreate \<or> s = ECheckFolderExists then cbind (next_step EFinished) (\<lambda>_. handled err)
     else cleave KPanicImap)"

definition create_resume :: "(unit, 'm create_compound_ext, 'w) compound_method" where
  "create_resume = resume_with (cbind (cread iNextStep) (\<lambda>s.
     if s = ECreate \<or> s = ECheckFolderExists then CompleteSelf else abandon))"

definition create_class :: "'w services \<Rightarrow> ('m create_compound_ext, 'w) compound_class" where
  "create_class sv =
     \<lparr> vStartOperation = start_operation ECreate, vDoRunLoopL = create_loop sv, vDoCancel = create_cancel,
       vNegative = create_negative, vResumeOperationL = create_resume \<rparr>"

section \<open>Renaming a folder\<close>

text \<open>\<open>RenameInboxL\<close> fills a local variable that has the name of the member \<open>iMsgselection\<close>.\<close>

record rename_compound = compound_base +
  iFolderId :: msv_id
  iNewFolderId :: msv_id
  iNewLeafName :: string16

definition IssueRenameL :: "'w services \<Rightarrow> (unit, 'm rename_compound_ext, 'w) compound_method" where
  "IssueRenameL sv = cbind (cread id) (\<lambda>c. let folder = rename_compound.iFolderId c in
     cbind (ctry (svGetFolder sv folder True)) (\<lambda>found.
       if \<not> found then cdo [cset (\<lambda>c. c\<lparr> iProgressErrorCode := KErrNotFound, iNextStep := EFinished \<rparr>), CompleteSelf]
       else
         cbind (ctry (svMakePath sv folder)) (\<lambda>newPath.
         cbind (ctry (svFullFolderPath sv folder)) (\<lambda>oldPath.
           let newFullPath = (if newPath \<noteq> [] then newPath @ svPathSeparator sv @ iNewLeafName c else iNewLeafName c)
           in cdo [await sv (RqRename oldPath newFullPath), progress EBusy, next_step EProcessRenameResponse]))))"

fun message_children :: "'w services \<Rightarrow> msv_id list \<Rightarrow> (msv_id list, 'm, 'w) compound_method" where
  "message_children sv [] = creturn []"
| "message_children sv (x # xs) =
     cbind (SetEntryL sv x) (\<lambda>_. cbind (entry sv) (\<lambda>e. cbind (message_children sv xs) (\<lambda>ys.
       creturn (if eType e = KUidMsvMessageEntry then eId e # ys else ys))))"

definition move_messages :: "'w services \<Rightarrow> msv_id list \<Rightarrow> (unit, 'm rename_compound_ext, 'w) compound_method" where
  "move_messages sv sel = cbind (cread id) (\<lambda>c.
     cdo [SetEntryL sv (rename_compound.iFolderId c),
          if sel \<noteq> [] then await sv (RqMoveEntries sel (rename_compound.iNewFolderId c)) else CompleteSelf])"

definition RenameInboxL :: "'w services \<Rightarrow> (unit, 'm rename_compound_ext, 'w) compound_method" where
  "RenameInboxL sv = cbind (cread id) (\<lambda>c.
     cbind (SetEntryL sv (rename_compound.iFolderId c)) (\<lambda>_.
     cbind (ctry (svGetChildren sv)) (\<lambda>children.
     cbind (entry sv) (\<lambda>e.
     cbind (SetEntryL sv (eParent e)) (\<lambda>_.
     cbind (ccall (svCreateEntry sv (e\<lparr> eDetails := iNewLeafName c \<rparr>))) (\<lambda>x.
     cbind (cset (\<lambda>c. c\<lparr> rename_compound.iNewFolderId := x \<rparr>)) (\<lambda>_.
     cbind (message_children sv children) (move_messages sv))))))))"

definition rename_loop :: "'w services \<Rightarrow> (bool, 'm rename_compound_ext, 'w) compound_method" where
  "rename_loop sv = cbind SetCurrentStep (\<lambda>_. cbind (cread id) (\<lambda>c.
     case iCurrentStep c of
       ERename \<Rightarrow> go_on [IssueRenameL sv]
     | EProcessRenameResponse \<Rightarrow>
         cbind (SetEntryL sv (rename_compound.iFolderId c)) (\<lambda>_. cbind (entry sv) (\<lambda>e.
         cbind (next_step (if eSubscribed e then ESyncSubscriptions else EFinished)) (\<lambda>_.
         cbind (cask (svInbox sv)) (\<lambda>inbox.
           if rename_compound.iFolderId c = inbox then go_on [RenameInboxL sv]
           else go_on [ctry (svRenameLocal sv (rename_compound.iFolderId c) (iNewLeafName c))]))))
     | ESyncSubscriptions \<Rightarrow>
         cbind (ctry (svGetFolder sv (rename_compound.iFolderId c) True)) (\<lambda>found.
           if \<not> found then cleave KPanicNull
           else cbind (ctry (svFullFolderPath sv (rename_compound.iFolderId c))) (\<lambda>path.
             go_on [await sv (RqSubscribe path), next_step EFinished]))
     | EFinished \<Rightarrow> finish EIdle
     | _ \<Rightarrow> unexpected))"

definition rename_cancel :: "(unit, 'm rename_compound_ext, 'w) compound_method" where
  "rename_cancel = cbind (cread iCurrentStep) (\<lambda>s.
     cdo [next_step (if s = ESyncSubscriptions \<or> s = EProcessRenameResponse then s else ERename), end_cancel])"

definition rename_negative :: "symbian_error \<Rightarrow> (symbian_error, 'm rename_compound_ext, 'w) compound_method" where
  "rename_negative err = cbind (cread iCurrentStep) (\<lambda>s.
     if s = ERename then cbind (next_step EFinished) (\<lambda>_. handled KErrNotSupported)
     else if s = ESyncSubscriptions then cbind (next_step EFinished) (\<lambda>_. creturn KErrNone)
     else cleave KPanicImap)"

definition rename_resume :: "'w services \<Rightarrow> (unit, 'm rename_compound_ext, 'w) compound_method" where
  "rename_resume sv = resume_with (cbind (cread id) (\<lambda>c.
     if iNextStep c = ERename \<or> iNextStep c = ESyncSubscriptions then CompleteSelf
     else if iNextStep c = EProcessRenameResponse then
       cbind (SetEntryL sv (rename_compound.iFolderId c)) (\<lambda>_.
       cbind (ctry (svGetChildren sv)) (\<lambda>children.
       cbind (message_children sv children) (move_messages sv)))
     else abandon))"

definition rename_class :: "'w services \<Rightarrow> ('m rename_compound_ext, 'w) compound_class" where
  "rename_class sv =
     \<lparr> vStartOperation = start_operation ERename, vDoRunLoopL = rename_loop sv, vDoCancel = rename_cancel,
       vNegative = rename_negative, vResumeOperationL = rename_resume sv \<rparr>"

section \<open>Deleting folders\<close>

record delete_folder_compound = compound_base +
  iDeleteSel :: "msv_id list"
  iFolder :: "msv_id option"
  iFoldersToDelete :: nat
  iFoldersDone :: nat
  iRemoteFolderNotDeleted :: bool

definition DeleteFolder_ConstructL ::
  "'w services \<Rightarrow> msv_id list \<Rightarrow> (unit, 'm delete_folder_compound_ext, 'w) compound_method" where
  "DeleteFolder_ConstructL sv aSourceSel =
     cbind (CheckSelectionL sv aSourceSel False False True True) (\<lambda>(err, sel).
       cset (\<lambda>c. c\<lparr> iDeleteSel := sel, iFoldersToDelete := length sel, iFoldersDone := 0 \<rparr>))"

definition IncrementProgress :: "(unit, 'm delete_folder_compound_ext, 'w) compound_method" where
  "IncrementProgress = cset (\<lambda>c. c\<lparr> iFoldersDone := Suc (iFoldersDone c), iDeleteSel := tl (iDeleteSel c) \<rparr>)"

definition SelectSourceMailboxL :: "'w services \<Rightarrow> (unit, 'm delete_folder_compound_ext, 'w) compound_method" where
  "SelectSourceMailboxL sv = cbind (cset (\<lambda>c. c\<lparr> iFolder := None, iRemoteFolderNotDeleted := False \<rparr>)) (\<lambda>_.
     cbind (cread iDeleteSel) (\<lambda>sel. case sel of
       [] \<Rightarrow> cleave KPanicIndex
     | x # xs \<Rightarrow>
         cbind (ctry (svGetFolder sv x True)) (\<lambda>found.
           if \<not> found then cdo [IncrementProgress, if xs = [] then next_step EFinished else creturn (), CompleteSelf]
           else
             cbind (cset (\<lambda>c. c\<lparr> iFolder := Some x \<rparr>)) (\<lambda>_.
             cbind (SetEntryL sv x) (\<lambda>_. cbind (entry sv) (\<lambda>e.
               if eMailbox e
               then cdo [request sv (RqSelect x), progress ESelecting, next_step EDeleteAllMessages, SetActive (RqSelect x)]
               else cdo [next_step EDeleteLocalFolder, CompleteSelf]))))))"

definition KAllUids :: string8 where "KAllUids = ascii ''1:*''"
definition KMessageDataItem :: string8 where "KMessageDataItem = ascii ''+FLAGS''"
definition KDeleteValue :: string8 where "KDeleteValue = ascii (CHR 0x5C # ''Deleted'')"

definition DeleteAllMessagesL :: "'w services \<Rightarrow> (unit, 'm delete_folder_compound_ext, 'w) compound_method" where
  "DeleteAllMessagesL sv = cdo
     [progress EDeleting,
      cbind (cask (svExists sv)) (\<lambda>n.
        if n = 0 then CompleteSelf else await sv (RqStore KAllUids KMessageDataItem KDeleteValue True)),
      next_step ECloseFolder]"

definition DeleteLocalFolderL :: "'w services \<Rightarrow> (unit, 'm delete_folder_compound_ext, 'w) compound_method" where
  "DeleteLocalFolderL sv = cbind (cread id) (\<lambda>c. case iDeleteSel c of
       [] \<Rightarrow> cleave KPanicIndex
     | x # xs \<Rightarrow>
         cdo [ctry (svDeleteFolderContents sv x),
              if \<not> iRemoteFolderNotDeleted c then ctry (svRemoveFolder sv x) else creturn (),
              IncrementProgress, next_step ESelectSourceMailboxRW])"

definition delete_folder_loop :: "'w services \<Rightarrow> (bool, 'm delete_folder_compound_ext, 'w) compound_method" where
  "delete_folder_loop sv = cbind SetCurrentStep (\<lambda>_. cbind (cread id) (\<lambda>c.
     case iCurrentStep c of
       ESelectSourceMailboxRW \<Rightarrow>
         if iDeleteSel c = [] then go_on [next_step EFinished]
         else if iStopForMigrate c then suspend ESelectSourceMailboxRW
         else go_on [SelectSourceMailboxL sv]
     | EDeleteAllMessages \<Rightarrow> go_on [DeleteAllMessagesL sv]
     | ECloseFolder \<Rightarrow> go_on [request sv RqClose, next_step EDeleteFolder, SetActive RqClose]
     | EDeleteFolder \<Rightarrow> on_folder_object (iFolder c) (\<lambda>x.
         cbind (ctry (svFullFolderPath sv x)) (\<lambda>path.
           go_on [request sv (RqDelete path), next_step EDeleteLocalFolder, SetActive (RqDelete path)]))
     | EDeleteLocalFolder \<Rightarrow> go_on [DeleteLocalFolderL sv]
     | EFinished \<Rightarrow> finish EIdle
     | _ \<Rightarrow> unexpected))"

definition delete_folder_cancel :: "(unit, 'm delete_folder_compound_ext, 'w) compound_method" where
  "delete_folder_cancel = cbind (cread iCurrentStep) (\<lambda>s.
     cdo [case s of
            EDeleteFolder \<Rightarrow> next_step EDeleteFolder
          | EDeleteLocalFolder \<Rightarrow> creturn ()
          | EFinished \<Rightarrow> creturn ()
          | _ \<Rightarrow> next_step ESelectSourceMailboxRW,
          end_cancel])"

definition delete_folder_negative :: "symbian_error \<Rightarrow> (symbian_error, 'm delete_folder_compound_ext, 'w) compound_method" where
  "delete_folder_negative err = cbind (cread iCurrentStep) (\<lambda>s.
     if s = ESelectSourceMailboxRW \<or> s = EDeleteFolder then
       cbind (cset (\<lambda>c. c\<lparr> iProgressErrorCode := KErrImapCantDeleteFolder, iRemoteFolderNotDeleted := True,
                        iNextStep := EDeleteLocalFolder \<rparr>)) (\<lambda>_. creturn KErrNone)
     else if s = EDeleteAllMessages \<or> s = ECloseFolder then creturn KErrNone
     else cleave KPanicImap)"

definition delete_folder_resume :: "(unit, 'm delete_folder_compound_ext, 'w) compound_method" where
  "delete_folder_resume = resume_with (cbind (cread iNextStep) (\<lambda>s.
     if s = ESelectSourceMailboxRW \<or> s = EDeleteFolder then CompleteSelf else abandon))"

definition delete_folder_class :: "'w services \<Rightarrow> ('m delete_folder_compound_ext, 'w) compound_class" where
  "delete_folder_class sv =
     \<lparr> vStartOperation = start_operation ESelectSourceMailboxRW, vDoRunLoopL = delete_folder_loop sv,
       vDoCancel = delete_folder_cancel, vNegative = delete_folder_negative,
       vResumeOperationL = delete_folder_resume \<rparr>"

section \<open>Synchronising the tree of folders\<close>

definition sync_tree_loop :: "'w services \<Rightarrow> (bool, 'm, 'w) compound_method" where
  "sync_tree_loop sv = cbind SetCurrentStep (\<lambda>_. cbind (cread id) (\<lambda>c.
     case iCurrentStep c of
       ESyncTree \<Rightarrow> go_on [request sv RqSynchroniseTree, next_step EFinished, SetActive RqSynchroniseTree]
     | EFinished \<Rightarrow> finish EIdle
     | _ \<Rightarrow> unexpected))"

definition sync_tree_negative :: "symbian_error \<Rightarrow> (symbian_error, 'm, 'w) compound_method" where
  "sync_tree_negative err = cbind (cread iCurrentStep) (\<lambda>s.
     if s = ESyncTree then handled err else cleave KPanicImap)"

definition sync_tree_class :: "'w services \<Rightarrow> ('m, 'w) compound_class" where
  "sync_tree_class sv =
     \<lparr> vStartOperation = start_operation ESyncTree, vDoRunLoopL = sync_tree_loop sv,
       vDoCancel = cdo [next_step ESelectSourceMailboxRW, end_cancel], vNegative = sync_tree_negative,
       vResumeOperationL = resume_with (cdo [next_step ESyncTree, CompleteSelf]) \<rparr>"

section \<open>Disconnecting\<close>

record disconnect_compound = compound_base +
  iDoDeletes :: bool

definition disconnect_start :: "'w services \<Rightarrow> (unit, 'm disconnect_compound_ext, 'w) compound_method" where
  "disconnect_start sv = cbind (cread iDoDeletes) (\<lambda>deletes.
     cdo [next_step (if svDeleteWhenDisconnecting sv \<and> deletes then EInboxLateDeletes else EDisconnect),
          CompoundQueue, CompleteSelf])"

definition disconnect_loop :: "'w services \<Rightarrow> (bool, 'm disconnect_compound_ext, 'w) compound_method" where
  "disconnect_loop sv = cbind SetCurrentStep (\<lambda>_. cbind (cread id) (\<lambda>c.
     case iCurrentStep c of
       EInboxLateDeletes \<Rightarrow>
         go_on [request sv RqSyncService, progress EDisconnecting, next_step EDisconnect, SetActive RqSyncService]
     | EDisconnect \<Rightarrow>
         go_on [request sv RqDisconnect, progress EDisconnecting, next_step EFinished, SetActive RqDisconnect]
     | EFinished \<Rightarrow> finish EDisconnected
     | _ \<Rightarrow> unexpected))"

definition disconnect_cancel :: "(unit, 'm disconnect_compound_ext, 'w) compound_method" where
  "disconnect_cancel = cbind (cread iCurrentStep) (\<lambda>s.
     cdo [case s of
            EInboxLateDeletes \<Rightarrow> creturn ()
          | EDisconnect \<Rightarrow> progress EDisconnecting
          | EFinished \<Rightarrow> progress EDisconnected
          | _ \<Rightarrow> progress EIdle,
          next_step EFinished, end_cancel])"

definition disconnect_negative :: "symbian_error \<Rightarrow> (symbian_error, 'm disconnect_compound_ext, 'w) compound_method" where
  "disconnect_negative err = cbind (handled err) (\<lambda>_. creturn KErrGeneral)"

definition disconnect_class :: "'w services \<Rightarrow> ('m disconnect_compound_ext, 'w) compound_class" where
  "disconnect_class sv =
     \<lparr> vStartOperation = disconnect_start sv, vDoRunLoopL = disconnect_loop sv, vDoCancel = disconnect_cancel,
       vNegative = disconnect_negative,
       vResumeOperationL = cdo [cset (\<lambda>c. c\<lparr> iStopForMigrate := False \<rparr>), CompoundQueue, CompoundComplete KErrDisconnected] \<rparr>"

section \<open>Storing the seen flag\<close>

record update_flag_compound = compound_base +
  iMessageUids :: "tint list"
  iSourceSel :: "msv_id list"
  iMarkFlag :: bool
  iEntrySelection :: bool

definition KStoreFlagsClearCommand :: string8 where "KStoreFlagsClearCommand = ascii ''-FLAGS''"
definition KImapFlagSeen :: string8 where "KImapFlagSeen = ascii ([CHR 40, CHR 0x5C] @ ''Seen)'')"

text \<open>The selection is taken from its end. \<open>GetEntryFromId\<close> is read as \<open>SetEntry\<close> and \<open>Entry\<close> here.\<close>

fun update_entries :: "'w services \<Rightarrow> bool \<Rightarrow> msv_id list \<Rightarrow> (unit, 'm update_flag_compound_ext, 'w) compound_method" where
  "update_entries sv mark_unread [] = creturn ()"
| "update_entries sv mark_unread (x # xs) =
     cbind (SetEntryL sv x) (\<lambda>_. cbind (entry sv) (\<lambda>e.
       cdo [cset (\<lambda>c. c\<lparr> update_flag_compound.iMessageUids := update_flag_compound.iMessageUids c @ [eUid e] \<rparr>),
            ChangeEntryL sv (e\<lparr> eSeenFlag := \<not> mark_unread \<rparr>),
            update_entries sv mark_unread xs]))"

definition update_store :: "'w services \<Rightarrow> bool \<Rightarrow> (unit, 'm update_flag_compound_ext, 'w) compound_method" where
  "update_store sv seen = cbind (cread update_flag_compound.iMessageUids) (\<lambda>uids.
     let r = RqStore (CreateSequenceSetLC uids) (if seen then KImapAddFlags else KStoreFlagsClearCommand) KImapFlagSeen True
     in cdo [cset (\<lambda>c. c\<lparr> update_flag_compound.iMessageUids := [] \<rparr>), request sv r,
             progress EBusy, next_step EFinished, SetActive r])"

definition update_flag_loop :: "'w services \<Rightarrow> (bool, 'm update_flag_compound_ext, 'w) compound_method" where
  "update_flag_loop sv = cbind SetCurrentStep (\<lambda>_. cbind (cread id) (\<lambda>c.
     case iCurrentStep c of
       EUpdateFlag \<Rightarrow>
         if \<not> iEntrySelection c then
           cbind (entry sv) (\<lambda>e.
             go_on [cset (\<lambda>c. c\<lparr> update_flag_compound.iMessageUids := update_flag_compound.iMessageUids c @ [eUid e] \<rparr>),
                    ChangeEntryL sv (e\<lparr> eSeenFlag := \<not> eUnread e \<rparr>), update_store sv (\<not> eUnread e)])
         else
           go_on [update_entries sv (iMarkFlag c) (rev (update_flag_compound.iSourceSel c)), update_store sv (\<not> iMarkFlag c)]
     | EFinished \<Rightarrow> finish EIdle
     | _ \<Rightarrow> unexpected))"

definition update_flag_negative :: "symbian_error \<Rightarrow> (symbian_error, 'm update_flag_compound_ext, 'w) compound_method" where
  "update_flag_negative err = cbind (cread iCurrentStep) (\<lambda>s.
     if s = EUpdateFlag then cbind (next_step EFinished) (\<lambda>_. handled err) else cleave KPanicImap)"

text \<open>\<open>ResumeOperationL\<close> completes itself in its cases and once more at its end.\<close>

definition update_flag_resume :: "(unit, 'm update_flag_compound_ext, 'w) compound_method" where
  "update_flag_resume = cdo
     [resume_with (cbind (cread iNextStep) (\<lambda>s. if s = EUpdateFlag then CompleteSelf else abandon)), CompleteSelf]"

definition update_flag_class :: "'w services \<Rightarrow> ('m update_flag_compound_ext, 'w) compound_class" where
  "update_flag_class sv =
     \<lparr> vStartOperation = start_operation EUpdateFlag, vDoRunLoopL = update_flag_loop sv,
       vDoCancel = cdo [cset (\<lambda>c. c\<lparr> iProgressErrorCode := KErrCancel \<rparr>), CompoundComplete KErrCancel],
       vNegative = update_flag_negative, vResumeOperationL = update_flag_resume \<rparr>"

lemma update_flag_resume_panics:
  "iRequest c = None \<Longrightarrow> fst (update_flag_resume (c, w)) = Inl KPanicActive"
  by (simp add: update_flag_resume_def resume_with_def abandon_def CompleteSelf_def SetActive_def cbind_def cread_def
      cset_def creturn_def cleave_def next_step_def CompoundQueue_def)

end
