(* ===== verification/Imap_Copy_Ops.thy ===== *)
theory Imap_Copy_Ops
  imports Imap_Delete Imap_Folder_Ops
begin

text \<open>
  Copying and moving messages (imapprotocolcontroller/src): from the local store to the server
  (cimapcompoundcopyfromlocal.cpp) and between folders of the server
  (cimapcompoundcopywithinservice.cpp). The progress of the synchronisation is left out.
\<close>

section \<open>From the local store\<close>

record copy_local_compound = compound_base +
  iIsMove :: bool
  iDestinationFolderId :: msv_id
  iSourceSel :: "msv_id list"
  iTotalSize :: tint
  iMessageSelection :: nat
  iSelectionStillToCopy :: nat
  iSelectionStillToDelete :: nat
  iDestinationFolder :: "msv_id option"
  iCurrentMsgId :: msv_id

definition copy_local_new :: "bool \<Rightarrow> msv_id \<Rightarrow> copy_local_compound" where
  "copy_local_new aIsMove aDestination = compound_base.extend compound_new
     \<lparr> iIsMove = aIsMove, iDestinationFolderId = aDestination, iSourceSel = [], iTotalSize = 0, iMessageSelection = 0,
       iSelectionStillToCopy = 0, iSelectionStillToDelete = 0, iDestinationFolder = None, iCurrentMsgId = 0 \<rparr>"

definition CopyFromLocal_ConstructL :: "'w services \<Rightarrow> msv_id list \<Rightarrow> (unit, 'm copy_local_compound_ext, 'w) compound_method" where
  "CopyFromLocal_ConstructL sv aSourceSel =
     cbind (CalculateDownloadSizeL sv aSourceSel) (\<lambda>total. let n = length aSourceSel in
       cset (\<lambda>c. c\<lparr> copy_local_compound.iSourceSel := aSourceSel, copy_local_compound.iTotalSize := total,
                  iMessageSelection := n, iSelectionStillToCopy := n, iSelectionStillToDelete := n \<rparr>))"

definition copy_local_source :: "(bool, 'm copy_local_compound_ext, 'w) compound_method" where
  "copy_local_source = cbind (cread id) (\<lambda>c.
     if 0 < iSelectionStillToCopy c then
       if iStopForMigrate c then suspend ESetSource
       else
         (let k = iSelectionStillToCopy c - 1 in
          cbind (cset (\<lambda>c. c\<lparr> iSelectionStillToCopy := k \<rparr>)) (\<lambda>_.
            if k < length (copy_local_compound.iSourceSel c) then
              go_on [cset (\<lambda>c. c\<lparr> copy_local_compound.iCurrentMsgId := copy_local_compound.iSourceSel c ! k \<rparr>), next_step EAppendMessage]
            else cleave KPanicIndex))
     else go_on [next_step ESelectDestinationMailboxRO])"

text \<open>The message is prepared for sending as a part of the request.\<close>

definition copy_local_loop :: "'w services \<Rightarrow> (bool, 'm copy_local_compound_ext, 'w) compound_method" where
  "copy_local_loop sv = cbind SetCurrentStep (\<lambda>_. cbind (cread id) (\<lambda>c.
     case iCurrentStep c of
       ECheckDestinationMailbox \<Rightarrow>
         cbind (next_step ESetSource) (\<lambda>_.
         cbind (ctry (svGetFolder sv (iDestinationFolderId c) True)) (\<lambda>found.
           if found then go_on [cset (\<lambda>c. c\<lparr> copy_local_compound.iDestinationFolder := Some (iDestinationFolderId c) \<rparr>)]
           else go_on [cset (\<lambda>c. c\<lparr> copy_local_compound.iDestinationFolder := None, iProgressErrorCode := KErrNotFound,
                                   iNextStep := EFinished \<rparr>)]))
     | ESetSource \<Rightarrow> copy_local_source
     | EAppendMessage \<Rightarrow>
         cbind (SetEntryL sv (copy_local_compound.iCurrentMsgId c)) (\<lambda>_.
         on_folder_object (copy_local_compound.iDestinationFolder c) (\<lambda>x.
         cbind (ctry (svFullFolderPath sv x)) (\<lambda>path.
           let r = RqAppend (copy_local_compound.iCurrentMsgId c) path
           in go_on [request sv r, next_step (if copy_local_compound.iIsMove c then EDeleteLocalMessage else ESetSource),
                     SetActive r])))
     | EDeleteLocalMessage \<Rightarrow>
         cbind (entry sv) (\<lambda>e. cbind (SetEntryL sv (eParent e)) (\<lambda>_.
         cbind (ccall (svDeleteEntry sv (copy_local_compound.iCurrentMsgId c))) (\<lambda>err.
           go_on [leave_if_error err, cset (\<lambda>c. c\<lparr> iSelectionStillToDelete := iSelectionStillToDelete c - 1 \<rparr>),
                  next_step ESetSource])))
     | ESelectDestinationMailboxRO \<Rightarrow> on_folder_object (copy_local_compound.iDestinationFolder c) (\<lambda>x.
         go_on [request sv (RqExamine x), next_step ENewSyncFolder, SetActive (RqExamine x)])
     | ENewSyncFolder \<Rightarrow> on_folder_object (copy_local_compound.iDestinationFolder c) (\<lambda>x.
         cbind (cask (\<lambda>w. svChanged sv x w)) (\<lambda>changed.
           if \<not> changed then go_on [next_step EFinished]
           else go_on [request sv (RqSynchroniseFolder x), next_step EFinished, SetActive (RqSynchroniseFolder x)]))
     | EFinished \<Rightarrow> finish EIdle
     | _ \<Rightarrow> unexpected))"

definition copy_local_cancel :: "(unit, 'm copy_local_compound_ext, 'w) compound_method" where
  "copy_local_cancel = cbind (cread iCurrentStep) (\<lambda>s.
     cdo [next_step (if s = EAppendMessage \<or> s = ENewSyncFolder then s else ESelectDestinationMailboxRO), end_cancel])"

definition copy_local_negative :: "'w services \<Rightarrow> symbian_error \<Rightarrow> (symbian_error, 'm copy_local_compound_ext, 'w) compound_method" where
  "copy_local_negative sv err = cbind (cread id) (\<lambda>c.
     let s = iCurrentStep c;
         err = (if s = ESelectDestinationMailboxRO \<or> s = EAppendMessage then not_found_if_no err else err)
     in if s = ESelectDestinationMailboxRO \<or> s = EAppendMessage \<or> s = ESetSource \<or> s = EDeleteLocalMessage
           \<or> s = ENewSyncFolder
        then cbind (cdo [trap_ignore (MessageErrorL sv (copy_local_compound.iCurrentMsgId c) err),
                         next_step (if 0 < iSelectionStillToCopy c then ESetSource else EFinished)])
               (\<lambda>_. handled err)
        else cleave KPanicImap)"

definition copy_local_resume :: "'w services \<Rightarrow> (unit, 'm copy_local_compound_ext, 'w) compound_method" where
  "copy_local_resume sv = resume_with (cbind (cread id) (\<lambda>c.
     let s = iNextStep c in
     if s = ESelectDestinationMailboxRO \<or> s = EAppendMessage \<or> s = ESetSource then CompleteSelf
     else if s = ENewSyncFolder then on_folder_object (copy_local_compound.iDestinationFolder c) (\<lambda>x.
       cdo [request sv (RqExamine x), cset (\<lambda>c. c\<lparr> iCurrentStep := ESelectDestinationMailboxRO \<rparr>), SetActive (RqExamine x)])
     else abandon))"

definition copy_local_class :: "'w services \<Rightarrow> ('m copy_local_compound_ext, 'w) compound_class" where
  "copy_local_class sv =
     \<lparr> vStartOperation = start_operation ECheckDestinationMailbox, vDoRunLoopL = copy_local_loop sv,
       vDoCancel = copy_local_cancel, vNegative = copy_local_negative sv, vResumeOperationL = copy_local_resume sv \<rparr>"

section \<open>Within the service\<close>

record copy_within_compound = compound_base +
  iIsMove :: bool
  iDestinationId :: msv_id
  iSourceFolderId :: msv_id
  iSourceFolder :: "msv_id option"
  iDestinationFolder :: "msv_id option"
  iCurrentMsgId :: msv_id
  iSourceSel :: "msv_id list"
  iUidSeq :: string8
  iTotalSize :: tint
  iMsgsToDo :: nat
  iMsgsDone :: nat
  iMsgsCopied :: nat
  iMessageUids :: "tint list"

definition copy_within_new :: "bool \<Rightarrow> msv_id \<Rightarrow> copy_within_compound" where
  "copy_within_new aIsMove aDestination = compound_base.extend compound_new
     \<lparr> iIsMove = aIsMove, iDestinationId = aDestination, iSourceFolderId = 0, iSourceFolder = None,
       iDestinationFolder = None, iCurrentMsgId = 0, iSourceSel = [], iUidSeq = [], iTotalSize = 0,
       iMsgsToDo = 0, iMsgsDone = 0, iMsgsCopied = 0, iMessageUids = [] \<rparr>"

definition CopyWithin_ConstructL :: "'w services \<Rightarrow> msv_id list \<Rightarrow> (unit, 'm copy_within_compound_ext, 'w) compound_method" where
  "CopyWithin_ConstructL sv aSourceSel =
     cbind (CheckSelectionL sv aSourceSel True True False True) (\<lambda>(err, sel).
     cbind (cset (\<lambda>c. c\<lparr> iSourceSel := sel \<rparr>)) (\<lambda>_.
       if err = KErrNone then
         cbind (CalculateDownloadSizeL sv sel) (\<lambda>total.
           cset (\<lambda>c. c\<lparr> iMsgsCopied := 0, iMsgsDone := 0, iMsgsToDo := length aSourceSel, iTotalSize := total \<rparr>))
       else creturn ()))"

definition increment_progress :: "nat \<Rightarrow> (unit, 'm copy_within_compound_ext, 'w) compound_method" where
  "increment_progress aNum = cbind (cread iSourceSel) (\<lambda>sel.
     if length sel < aNum then cleave KPanicIndex
     else cset (\<lambda>c. c\<lparr> iMsgsDone := iMsgsDone c + aNum, iSourceSel := drop aNum (iSourceSel c) \<rparr>))"

definition SetSourceFolderL :: "'w services \<Rightarrow> msv_id \<Rightarrow> (unit, 'm copy_within_compound_ext, 'w) compound_method" where
  "SetSourceFolderL sv aMessage = cbind (FindFolderL sv aMessage) (\<lambda>parentFolder. cbind (cread iSourceFolderId) (\<lambda>current.
     if parentFolder = current then creturn ()
     else
       cbind (cset (\<lambda>c. c\<lparr> iSourceFolderId := parentFolder \<rparr>)) (\<lambda>_.
         if parentFolder \<noteq> 0 then
           cbind (ctry (svGetFolder sv parentFolder True)) (\<lambda>found.
             cset (\<lambda>c. c\<lparr> iSourceFolder := (if found then Some parentFolder else None) \<rparr>))
         else creturn ())))"

definition copy_within_source :: "'w services \<Rightarrow> (bool, 'm copy_within_compound_ext, 'w) compound_method" where
  "copy_within_source sv =
     cbind (cread iMsgsCopied) (\<lambda>n.
     cbind (cdo [increment_progress n, cset (\<lambda>c. c\<lparr> iMsgsCopied := 0 \<rparr>)]) (\<lambda>_.
     cbind (cread id) (\<lambda>c.
       case iSourceSel c of
         [] \<Rightarrow> go_on [next_step ESelectDestinationMailboxRO]
       | x # xs \<Rightarrow>
           if iStopForMigrate c then suspend ESetSourceMailbox
           else
             cbind (cdo [cset (\<lambda>c. c\<lparr> iCurrentMsgId := x \<rparr>), SetSourceFolderL sv x]) (\<lambda>_. cbind (cread id) (\<lambda>c.
               if iSourceFolderId c \<noteq> 0 \<and> iSourceFolder c \<noteq> None
               then go_on [next_step (if iIsMove c then ESelectSourceMailboxRW else ESelectSourceMailboxRO)]
               else go_on [next_step ESetSourceMailbox, increment_progress 1])))))"

fun copy_uids :: "'w services \<Rightarrow> msv_id \<Rightarrow> msv_id list \<Rightarrow> (unit, 'm copy_within_compound_ext, 'w) compound_method" where
  "copy_uids sv folder [] = creturn ()"
| "copy_uids sv folder (x # xs) =
     cbind (SetEntryL sv x) (\<lambda>_. cbind (entry sv) (\<lambda>e.
       if eParent e = folder then
         cdo [cset (\<lambda>c. c\<lparr> iMessageUids := iMessageUids c @ [eUid e], iMsgsCopied := Suc (iMsgsCopied c) \<rparr>),
              copy_uids sv folder xs]
       else creturn ()))"

definition CopyMessagesL :: "'w services \<Rightarrow> (service_request, 'm copy_within_compound_ext, 'w) compound_method" where
  "CopyMessagesL sv = cbind (cread id) (\<lambda>c.
     cbind (cdo [cset (\<lambda>c. c\<lparr> iMessageUids := [] \<rparr>), copy_uids sv (iSourceFolderId c) (iSourceSel c),
                 cset (\<lambda>c. c\<lparr> iMessageUids := sort (iMessageUids c) \<rparr>),
                 cset (\<lambda>c. c\<lparr> iUidSeq := CreateSequenceSetLC (iMessageUids c) \<rparr>)]) (\<lambda>_.
     cbind (cread id) (\<lambda>c. on_folder_object (iDestinationFolder c) (\<lambda>x.
     cbind (ctry (svFullFolderPath sv x)) (\<lambda>path.
       let r = RqCopy (iUidSeq c) path in cbind (request sv r) (\<lambda>_. creturn r))))))"

fun mark_deleted :: "'w services \<Rightarrow> nat \<Rightarrow> msv_id list \<Rightarrow> (unit, 'm, 'w) compound_method" where
  "mark_deleted sv 0 xs = creturn ()"
| "mark_deleted sv (Suc n) [] = cleave KPanicIndex"
| "mark_deleted sv (Suc n) (x # xs) =
     cbind (SetEntryL sv x) (\<lambda>_. cbind (entry sv) (\<lambda>e.
       cdo [ChangeEntryL sv (e\<lparr> eDeletedFlag := True \<rparr>), mark_deleted sv n xs]))"

definition MarkMessageForDeletesL :: "'w services \<Rightarrow> (service_request, 'm copy_within_compound_ext, 'w) compound_method" where
  "MarkMessageForDeletesL sv = cbind (cread id) (\<lambda>c.
     let r = RqStore (iUidSeq c) KMessageDataItem KDeleteValue True
     in cbind (cdo [mark_deleted sv (iMsgsCopied c) (iSourceSel c), request sv r]) (\<lambda>_. creturn r))"

definition DeleteMovedMessagesL :: "'w services \<Rightarrow> (unit, 'm copy_within_compound_ext, 'w) compound_method" where
  "DeleteMovedMessagesL sv = cbind (cread id) (\<lambda>c.
     cdo [SetEntryL sv (iSourceFolderId c), delete_entries sv (iMsgsCopied c - iMsgsDone c) (iSourceSel c)])"

definition copy_within_loop :: "'w services \<Rightarrow> (bool, 'm copy_within_compound_ext, 'w) compound_method" where
  "copy_within_loop sv = cbind SetCurrentStep (\<lambda>_. cbind (cread id) (\<lambda>c.
     case iCurrentStep c of
       ECheckDestinationMailbox \<Rightarrow>
         cbind (ctry (svGetFolder sv (iDestinationId c) True)) (\<lambda>found.
           if found then go_on [cset (\<lambda>c. c\<lparr> iDestinationFolder := Some (iDestinationId c) \<rparr>), next_step ESetSourceMailbox]
           else go_on [cset (\<lambda>c. c\<lparr> iDestinationFolder := None, iProgressErrorCode := KErrNotFound, iNextStep := EFinished \<rparr>)])
     | ESetSourceMailbox \<Rightarrow> copy_within_source sv
     | ESelectSourceMailboxRW \<Rightarrow> on_folder_object (iSourceFolder c) (\<lambda>x.
         go_on [request sv (RqSelect x), next_step ECopyMessage, SetActive (RqSelect x)])
     | ESelectSourceMailboxRO \<Rightarrow> on_folder_object (iSourceFolder c) (\<lambda>x.
         go_on [request sv (RqExamine x), next_step ECopyMessage, SetActive (RqExamine x)])
     | ECopyMessage \<Rightarrow>
         cbind (CopyMessagesL sv) (\<lambda>r.
           if iIsMove c then go_on [progress EMoving, next_step EDeleteMessage, SetActive r]
           else go_on [progress ECopying, next_step ESetSourceMailbox, SetActive r])
     | EDeleteMessage \<Rightarrow>
         cbind (MarkMessageForDeletesL sv) (\<lambda>r.
           go_on [next_step (if svUseExpunge sv then EExpunge else ECloseFolder), SetActive r])
     | EExpunge \<Rightarrow> go_on [request sv RqExpunge, next_step EDeleteLocalMessage, SetActive RqExpunge]
     | ECloseFolder \<Rightarrow> go_on [request sv RqClose, next_step ESelectFolderAfterClose, SetActive RqClose]
     | ESelectFolderAfterClose \<Rightarrow> on_folder_object (iSourceFolder c) (\<lambda>x.
         go_on [request sv (RqSelect x), next_step EDeleteLocalMessage, SetActive (RqSelect x)])
     | EDeleteLocalMessage \<Rightarrow> go_on [DeleteMovedMessagesL sv, next_step ESetSourceMailbox]
     | ESelectDestinationMailboxRO \<Rightarrow> on_folder_object (iDestinationFolder c) (\<lambda>x.
         go_on [request sv (RqExamine x), next_step ENewSyncFolder, SetActive (RqExamine x)])
     | ENewSyncFolder \<Rightarrow>
         cbind (next_step EFinished) (\<lambda>_. on_folder_object (iDestinationFolder c) (\<lambda>x.
         cbind (cask (\<lambda>w. svChanged sv x w)) (\<lambda>changed.
           if changed then go_on [await sv (RqSynchroniseFolder x)] else creturn False)))
     | EFinished \<Rightarrow> finish EIdle
     | _ \<Rightarrow> unexpected))"

definition copy_within_cancel :: "(unit, 'm copy_within_compound_ext, 'w) compound_method" where
  "copy_within_cancel = cbind (cread iCurrentStep) (\<lambda>s.
     cdo [if s \<in> {ESelectSourceMailboxRW, ESelectSourceMailboxRO, EDeleteMessage, EExpunge, ECloseFolder,
                  ESelectFolderAfterClose, ESelectDestinationMailboxRO} then next_step s
          else if s = ECopyMessage then cset (\<lambda>c. c\<lparr> iMsgsCopied := 0, iNextStep := ECopyMessage \<rparr>)
          else if s = ENewSyncFolder then next_step ESelectDestinationMailboxRO
          else cset (\<lambda>c. c\<lparr> iNextStep := ESetSourceMailbox, iMsgsCopied := 0 \<rparr>),
          end_cancel])"

definition copy_within_negative :: "'w services \<Rightarrow> symbian_error \<Rightarrow> (symbian_error, 'm copy_within_compound_ext, 'w) compound_method" where
  "copy_within_negative sv err = cbind (cread id) (\<lambda>c.
     let s = iCurrentStep c; selecting = (s \<in> {ESelectSourceMailboxRW, ESelectSourceMailboxRO,
           ESelectDestinationMailboxRO, ESelectFolderAfterClose});
         err = (if selecting then not_found_if_no err else err)
     in if selecting \<or> s \<in> {ECopyMessage, EDeleteMessage, EExpunge, ECloseFolder, ENewSyncFolder}
        then cbind (cdo [trap_ignore (MessageErrorL sv (iCurrentMsgId c) err), next_step EFinished]) (\<lambda>_. handled err)
        else cleave KPanicImap)"

definition copy_within_resume :: "'w services \<Rightarrow> (unit, 'm copy_within_compound_ext, 'w) compound_method" where
  "copy_within_resume sv = resume_with (cbind (cread id) (\<lambda>c.
     let s = iNextStep c in
     if s \<in> {ESelectSourceMailboxRW, ESelectSourceMailboxRO, ESelectDestinationMailboxRO, ENewSyncFolder,
             ESelectFolderAfterClose} then CompleteSelf
     else if s \<in> {ECopyMessage, EDeleteMessage, EExpunge, ECloseFolder} then
       on_folder_object (iSourceFolder c) (\<lambda>x.
         cdo [request sv (RqSelect x), cset (\<lambda>c. c\<lparr> iCurrentStep := ESelectSourceMailboxRW \<rparr>), SetActive (RqSelect x)])
     else abandon))"

definition copy_within_class :: "'w services \<Rightarrow> ('m copy_within_compound_ext, 'w) compound_class" where
  "copy_within_class sv =
     \<lparr> vStartOperation = start_operation ECheckDestinationMailbox, vDoRunLoopL = copy_within_loop sv,
       vDoCancel = copy_within_cancel, vNegative = copy_within_negative sv, vResumeOperationL = copy_within_resume sv \<rparr>"

end
