(* ===== verification/Imap_Compound_Contracts.thy ===== *)
theory Imap_Compound_Contracts
  imports Imap_Delete Imap_Compound_Laws Imap_Folder_Ops Imap_Copy_Ops
begin

text \<open>Deleting messages keeps the contract of a compound operation.\<close>

lemma keeps_delete_entries [keeps_rules]: "keeps g (delete_entries sv n xs)"
  by (induction sv n xs rule: delete_entries.induct) (auto intro!: keeps_rules)

lemmas cwp_delete_entries [cwp_rules] = keeps_delete_entries [THEN cwp_outside]

lemma keeps_delete_mark [keeps_rules]: "keeps (\<lambda>c. (control c, delete_compound.iSourceSel c)) (delete_mark sv p xs)"
  by (induction xs) (auto intro!: keeps_rules simp: control_def)

lemmas cwp_delete_mark [cwp_rules] = keeps_delete_mark [THEN cwp_keeps]

text \<open>The steps between which no request is made take messages out of the selection, or come nearer to its end.\<close>

definition delete_steps :: "compound_step set" where
  "delete_steps = {ESelectSourceMailboxRW, EDeleteMessage, EExpunge, ECloseFolder, ESelectFolderAfterClose,
     EDeleteLocalMessage, EFinished}"

definition delete_rank :: "'m delete_compound_ext compound_base_scheme \<Rightarrow> nat" where
  "delete_rank c = 3 * length (delete_compound.iSourceSel c) +
     (case iNextStep c of EDeleteLocalMessage \<Rightarrow> 2 | ESelectSourceMailboxRW \<Rightarrow> 1 | _ \<Rightarrow> 0)"

lemma delete_steps_simps [simp]:
  "ESelectSourceMailboxRW \<in> delete_steps" "EDeleteMessage \<in> delete_steps" "EExpunge \<in> delete_steps"
  "ECloseFolder \<in> delete_steps" "ESelectFolderAfterClose \<in> delete_steps" "EDeleteLocalMessage \<in> delete_steps"
  "EFinished \<in> delete_steps"
  by (simp_all add: delete_steps_def)

lemmas delete_laws = compound_defs control_def Let_def delete_rank_def

interpretation delete_op: compound_contract "delete_class sv" delete_steps delete_rank
proof
  fix c w err
  show "cwp (vStartOperation (delete_class sv))
      (\<lambda>_ s. iReport (fst s) \<and> iRequest (fst s) \<noteq> None \<and> iNextStep (fst s) \<in> delete_steps \<and> iCompleted (fst s) = iCompleted c)
      (\<lambda>e s. True) (c, w)"
    if "\<not> iReport c" "iRequest c = None"
    using that by (auto simp: delete_class_def delete_laws intro!: cwp_rules)
  show "cwp (vResumeOperationL (delete_class sv))
      (\<lambda>_ s. (iReport (fst s) \<and> iRequest (fst s) \<noteq> None \<and> iNextStep (fst s) \<in> delete_steps \<and> iCompleted (fst s) = iCompleted c)
         \<or> (iRequest (fst s) = None \<and> answered c (fst s))) (\<lambda>e s. True) (c, w)"
    if "\<not> iReport c" "iRequest c = None"
    using that by (auto simp: delete_class_def delete_resume_def delete_laws intro!: cwp_rules split: option.splits)
  show "cwp (vDoCancel (delete_class sv)) (\<lambda>_ s. answered c (fst s)) (\<lambda>e s. is_panic e) (c, w)"
    if "iReport c" "iRequest c \<noteq> None"
    using that by (auto simp: delete_class_def delete_cancel_def delete_laws intro!: cwp_rules split: compound_step.split)
  assume "iNextStep c \<in> delete_steps" and r: "iReport c" "iRequest c = None"
  then show "cwp (vNegative (delete_class sv) err)
      (\<lambda>_ s. iNextStep (fst s) \<in> delete_steps \<and> still_open c (fst s) \<and> iRequest (fst s) = None) (left_open c) (c, w)"
    by (auto simp: delete_class_def delete_negative_def delete_laws intro!: cwp_rules split: list.splits)
  assume "iNextStep c \<in> delete_steps"
  then have "iNextStep c \<in> {ESelectSourceMailboxRW, EDeleteMessage, EExpunge, ECloseFolder, ESelectFolderAfterClose,
     EDeleteLocalMessage, EFinished}" by (simp add: delete_steps_def)
  with r show "cwp (vDoRunLoopL (delete_class sv))
      (\<lambda>finished s. if finished then iRequest (fst s) = None \<and> answered c (fst s)
         else still_open c (fst s) \<and> iNextStep (fst s) \<in> delete_steps
           \<and> (iRequest (fst s) = None \<longrightarrow> delete_rank (fst s) < delete_rank c))
      (left_open c) (c, w)"
    unfolding delete_class_def delete_loop_def compound_class.simps
    by (intro cwp_current)
      (auto simp: delete_laws delete_select_def delete_store_def DeleteLocalMessagesL_def intro!: cwp_rules
        split: list.splits option.splits; arith)
qed

text \<open>The operations on folders keep the contract of a compound operation.\<close>

lemma keeps_message_children [keeps_rules]: "keeps g (message_children sv xs)"
  by (induction xs) (auto intro!: keeps_rules)

lemma keeps_folder_name [keeps_rules]: "keeps g (MakeFolderNameL sv x n b)"
  unfolding MakeFolderNameL_def Let_def by (intro keeps_rules)

lemma keeps_update_entries [keeps_rules]: "keeps control (update_entries sv b xs)"
  by (induction xs) (auto intro!: keeps_rules simp: control_def)

lemmas cwp_folder_methods [cwp_rules] = keeps_message_children [THEN cwp_outside] keeps_folder_name [THEN cwp_outside]
  keeps_update_entries [THEN cwp_keeps]

section \<open>Selecting\<close>

definition select_folder_steps :: "compound_step set" where
  "select_folder_steps = {ESelectSourceMailboxRW, EFinished}"

lemma select_folder_steps_simps [simp]:
  "ESelectSourceMailboxRW \<in> select_folder_steps" "EFinished \<in> select_folder_steps"
  by (simp_all add: select_folder_steps_def)

definition select_folder_rank :: "'m compound_base_scheme \<Rightarrow> nat" where
  "select_folder_rank c = (if iNextStep c = ESelectSourceMailboxRW then 1 else 0)"

interpretation select_op: compound_contract "select_folder_class sv" select_folder_steps select_folder_rank
proof
  fix c w err
  show "cwp (vStartOperation (select_folder_class sv))
      (\<lambda>_ s. iReport (fst s) \<and> iRequest (fst s) \<noteq> None \<and> iNextStep (fst s) \<in> select_folder_steps \<and> iCompleted (fst s) = iCompleted c)
      (\<lambda>e s. True) (c, w)"
    if "\<not> iReport c" "iRequest c = None"
    using that by (auto simp: select_folder_class_def compound_defs intro!: cwp_rules)
  show "cwp (vResumeOperationL (select_folder_class sv))
      (\<lambda>_ s. (iReport (fst s) \<and> iRequest (fst s) \<noteq> None \<and> iNextStep (fst s) \<in> select_folder_steps \<and> iCompleted (fst s) = iCompleted c)
         \<or> (iRequest (fst s) = None \<and> answered c (fst s))) (\<lambda>e s. True) (c, w)"
    if "\<not> iReport c" "iRequest c = None"
    using that by (auto simp: select_folder_class_def compound_defs intro!: cwp_rules split: option.splits)
  show "cwp (vDoCancel (select_folder_class sv)) (\<lambda>_ s. answered c (fst s)) (\<lambda>e s. is_panic e) (c, w)"
    if "iReport c" "iRequest c \<noteq> None"
    using that by (auto simp: select_folder_class_def compound_defs intro!: cwp_rules split: compound_step.split)
  assume in_steps: "iNextStep c \<in> select_folder_steps" and r: "iReport c" "iRequest c = None"
  then show "cwp (vNegative (select_folder_class sv) err)
      (\<lambda>_ s. iNextStep (fst s) \<in> select_folder_steps \<and> still_open c (fst s) \<and> iRequest (fst s) = None) (left_open c) (c, w)"
    by (auto simp: select_folder_class_def select_folder_negative_def handled_def compound_defs Let_def intro!: cwp_rules)
  from in_steps have "iNextStep c \<in> {ESelectSourceMailboxRW, EFinished}" by (simp add: select_folder_steps_def)
  with r show "cwp (vDoRunLoopL (select_folder_class sv))
      (\<lambda>finished s. if finished then iRequest (fst s) = None \<and> answered c (fst s)
         else still_open c (fst s) \<and> iNextStep (fst s) \<in> select_folder_steps
           \<and> (iRequest (fst s) = None \<longrightarrow> select_folder_rank (fst s) < select_folder_rank c))
      (left_open c) (c, w)"
    unfolding select_folder_class_def select_folder_loop_def compound_class.simps
    by (intro cwp_current)
      (auto simp: select_folder_rank_def control_def compound_defs Let_def intro!: cwp_rules
        split: list.splits option.splits if_splits)
qed

section \<open>Creating\<close>

definition create_steps :: "compound_step set" where
  "create_steps = {ECreate, ECheckFolderExists, EProcessFolderCheck, ECreateLocal, EFinished}"

lemma create_steps_simps [simp]:
  "ECreate \<in> create_steps" "ECheckFolderExists \<in> create_steps" "EProcessFolderCheck \<in> create_steps" "ECreateLocal \<in> create_steps" "EFinished \<in> create_steps"
  by (simp_all add: create_steps_def)

definition create_rank :: "'m compound_base_scheme \<Rightarrow> nat" where
  "create_rank c = (if iNextStep c = EProcessFolderCheck then 1 else 0)"

interpretation create_op: compound_contract "create_class sv" create_steps create_rank
proof
  fix c w err
  show "cwp (vStartOperation (create_class sv))
      (\<lambda>_ s. iReport (fst s) \<and> iRequest (fst s) \<noteq> None \<and> iNextStep (fst s) \<in> create_steps \<and> iCompleted (fst s) = iCompleted c)
      (\<lambda>e s. True) (c, w)"
    if "\<not> iReport c" "iRequest c = None"
    using that by (auto simp: create_class_def CreateLocalFolderL_def compound_defs intro!: cwp_rules)
  show "cwp (vResumeOperationL (create_class sv))
      (\<lambda>_ s. (iReport (fst s) \<and> iRequest (fst s) \<noteq> None \<and> iNextStep (fst s) \<in> create_steps \<and> iCompleted (fst s) = iCompleted c)
         \<or> (iRequest (fst s) = None \<and> answered c (fst s))) (\<lambda>e s. True) (c, w)"
    if "\<not> iReport c" "iRequest c = None"
    using that by (auto simp: create_class_def create_resume_def CreateLocalFolderL_def compound_defs intro!: cwp_rules split: option.splits)
  show "cwp (vDoCancel (create_class sv)) (\<lambda>_ s. answered c (fst s)) (\<lambda>e s. is_panic e) (c, w)"
    if "iReport c" "iRequest c \<noteq> None"
    using that by (auto simp: create_class_def create_cancel_def compound_defs intro!: cwp_rules split: compound_step.split)
  assume in_steps: "iNextStep c \<in> create_steps" and r: "iReport c" "iRequest c = None"
  then show "cwp (vNegative (create_class sv) err)
      (\<lambda>_ s. iNextStep (fst s) \<in> create_steps \<and> still_open c (fst s) \<and> iRequest (fst s) = None) (left_open c) (c, w)"
    by (auto simp: create_class_def create_negative_def handled_def compound_defs Let_def intro!: cwp_rules)
  from in_steps have "iNextStep c \<in> {ECreate, ECheckFolderExists, EProcessFolderCheck, ECreateLocal, EFinished}" by (simp add: create_steps_def)
  with r show "cwp (vDoRunLoopL (create_class sv))
      (\<lambda>finished s. if finished then iRequest (fst s) = None \<and> answered c (fst s)
         else still_open c (fst s) \<and> iNextStep (fst s) \<in> create_steps
           \<and> (iRequest (fst s) = None \<longrightarrow> create_rank (fst s) < create_rank c))
      (left_open c) (c, w)"
    unfolding create_class_def create_loop_def compound_class.simps
    by (intro cwp_current)
      (auto simp: create_rank_def CreateLocalFolderL_def control_def compound_defs Let_def intro!: cwp_rules
        split: list.splits option.splits if_splits)
qed

section \<open>Renaming\<close>

definition rename_steps :: "compound_step set" where
  "rename_steps = {ERename, EProcessRenameResponse, ESyncSubscriptions, EFinished}"

lemma rename_steps_simps [simp]:
  "ERename \<in> rename_steps" "EProcessRenameResponse \<in> rename_steps" "ESyncSubscriptions \<in> rename_steps" "EFinished \<in> rename_steps"
  by (simp_all add: rename_steps_def)

definition rename_rank :: "'m compound_base_scheme \<Rightarrow> nat" where
  "rename_rank c = (if iNextStep c = EProcessRenameResponse then 1 else 0)"

interpretation rename_op: compound_contract "rename_class sv" rename_steps rename_rank
proof
  fix c w err
  show "cwp (vStartOperation (rename_class sv))
      (\<lambda>_ s. iReport (fst s) \<and> iRequest (fst s) \<noteq> None \<and> iNextStep (fst s) \<in> rename_steps \<and> iCompleted (fst s) = iCompleted c)
      (\<lambda>e s. True) (c, w)"
    if "\<not> iReport c" "iRequest c = None"
    using that by (auto simp: rename_class_def IssueRenameL_def RenameInboxL_def move_messages_def compound_defs intro!: cwp_rules)
  show "cwp (vResumeOperationL (rename_class sv))
      (\<lambda>_ s. (iReport (fst s) \<and> iRequest (fst s) \<noteq> None \<and> iNextStep (fst s) \<in> rename_steps \<and> iCompleted (fst s) = iCompleted c)
         \<or> (iRequest (fst s) = None \<and> answered c (fst s))) (\<lambda>e s. True) (c, w)"
    if "\<not> iReport c" "iRequest c = None"
    using that by (auto simp: rename_class_def rename_resume_def IssueRenameL_def RenameInboxL_def move_messages_def compound_defs intro!: cwp_rules split: option.splits)
  show "cwp (vDoCancel (rename_class sv)) (\<lambda>_ s. answered c (fst s)) (\<lambda>e s. is_panic e) (c, w)"
    if "iReport c" "iRequest c \<noteq> None"
    using that by (auto simp: rename_class_def rename_cancel_def compound_defs intro!: cwp_rules split: compound_step.split)
  assume in_steps: "iNextStep c \<in> rename_steps" and r: "iReport c" "iRequest c = None"
  then show "cwp (vNegative (rename_class sv) err)
      (\<lambda>_ s. iNextStep (fst s) \<in> rename_steps \<and> still_open c (fst s) \<and> iRequest (fst s) = None) (left_open c) (c, w)"
    by (auto simp: rename_class_def rename_negative_def handled_def compound_defs Let_def intro!: cwp_rules)
  from in_steps have "iNextStep c \<in> {ERename, EProcessRenameResponse, ESyncSubscriptions, EFinished}" by (simp add: rename_steps_def)
  with r show "cwp (vDoRunLoopL (rename_class sv))
      (\<lambda>finished s. if finished then iRequest (fst s) = None \<and> answered c (fst s)
         else still_open c (fst s) \<and> iNextStep (fst s) \<in> rename_steps
           \<and> (iRequest (fst s) = None \<longrightarrow> rename_rank (fst s) < rename_rank c))
      (left_open c) (c, w)"
    unfolding rename_class_def rename_loop_def compound_class.simps
    by (intro cwp_current)
      (auto simp: rename_rank_def IssueRenameL_def RenameInboxL_def move_messages_def control_def compound_defs Let_def intro!: cwp_rules
        split: list.splits option.splits if_splits)
qed

section \<open>Deleting folders\<close>

definition delete_folder_steps :: "compound_step set" where
  "delete_folder_steps = {ESelectSourceMailboxRW, EDeleteAllMessages, ECloseFolder, EDeleteFolder, EDeleteLocalFolder, EFinished}"

lemma delete_folder_steps_simps [simp]:
  "ESelectSourceMailboxRW \<in> delete_folder_steps" "EDeleteAllMessages \<in> delete_folder_steps" "ECloseFolder \<in> delete_folder_steps" "EDeleteFolder \<in> delete_folder_steps" "EDeleteLocalFolder \<in> delete_folder_steps" "EFinished \<in> delete_folder_steps"
  by (simp_all add: delete_folder_steps_def)

definition delete_folder_rank :: "'m compound_base_scheme \<Rightarrow> nat" where
  "delete_folder_rank c = (case iNextStep c of EDeleteLocalFolder \<Rightarrow> 2 | ESelectSourceMailboxRW \<Rightarrow> 1 | _ \<Rightarrow> 0)"

interpretation delete_folder_op: compound_contract "delete_folder_class sv" delete_folder_steps delete_folder_rank
proof
  fix c w err
  show "cwp (vStartOperation (delete_folder_class sv))
      (\<lambda>_ s. iReport (fst s) \<and> iRequest (fst s) \<noteq> None \<and> iNextStep (fst s) \<in> delete_folder_steps \<and> iCompleted (fst s) = iCompleted c)
      (\<lambda>e s. True) (c, w)"
    if "\<not> iReport c" "iRequest c = None"
    using that by (auto simp: delete_folder_class_def SelectSourceMailboxL_def DeleteAllMessagesL_def DeleteLocalFolderL_def IncrementProgress_def compound_defs intro!: cwp_rules)
  show "cwp (vResumeOperationL (delete_folder_class sv))
      (\<lambda>_ s. (iReport (fst s) \<and> iRequest (fst s) \<noteq> None \<and> iNextStep (fst s) \<in> delete_folder_steps \<and> iCompleted (fst s) = iCompleted c)
         \<or> (iRequest (fst s) = None \<and> answered c (fst s))) (\<lambda>e s. True) (c, w)"
    if "\<not> iReport c" "iRequest c = None"
    using that by (auto simp: delete_folder_class_def delete_folder_resume_def SelectSourceMailboxL_def DeleteAllMessagesL_def DeleteLocalFolderL_def IncrementProgress_def compound_defs intro!: cwp_rules split: option.splits)
  show "cwp (vDoCancel (delete_folder_class sv)) (\<lambda>_ s. answered c (fst s)) (\<lambda>e s. is_panic e) (c, w)"
    if "iReport c" "iRequest c \<noteq> None"
    using that by (auto simp: delete_folder_class_def delete_folder_cancel_def compound_defs intro!: cwp_rules split: compound_step.split)
  assume in_steps: "iNextStep c \<in> delete_folder_steps" and r: "iReport c" "iRequest c = None"
  then show "cwp (vNegative (delete_folder_class sv) err)
      (\<lambda>_ s. iNextStep (fst s) \<in> delete_folder_steps \<and> still_open c (fst s) \<and> iRequest (fst s) = None) (left_open c) (c, w)"
    by (auto simp: delete_folder_class_def delete_folder_negative_def compound_defs Let_def intro!: cwp_rules)
  from in_steps have "iNextStep c \<in> {ESelectSourceMailboxRW, EDeleteAllMessages, ECloseFolder, EDeleteFolder, EDeleteLocalFolder, EFinished}" by (simp add: delete_folder_steps_def)
  with r show "cwp (vDoRunLoopL (delete_folder_class sv))
      (\<lambda>finished s. if finished then iRequest (fst s) = None \<and> answered c (fst s)
         else still_open c (fst s) \<and> iNextStep (fst s) \<in> delete_folder_steps
           \<and> (iRequest (fst s) = None \<longrightarrow> delete_folder_rank (fst s) < delete_folder_rank c))
      (left_open c) (c, w)"
    unfolding delete_folder_class_def delete_folder_loop_def compound_class.simps
    by (intro cwp_current)
      (auto simp: delete_folder_rank_def SelectSourceMailboxL_def DeleteAllMessagesL_def DeleteLocalFolderL_def IncrementProgress_def control_def compound_defs Let_def intro!: cwp_rules
        split: list.splits option.splits if_splits)
qed

section \<open>Synchronising, disconnecting, the seen flag\<close>

definition sync_tree_steps :: "compound_step set" where
  "sync_tree_steps = {ESyncTree, EFinished}"

lemma sync_tree_steps_simps [simp]:
  "ESyncTree \<in> sync_tree_steps" "EFinished \<in> sync_tree_steps"
  by (simp_all add: sync_tree_steps_def)

definition sync_tree_rank :: "'m compound_base_scheme \<Rightarrow> nat" where
  "sync_tree_rank c = 0"

interpretation sync_tree_op: compound_contract "sync_tree_class sv" sync_tree_steps sync_tree_rank
proof
  fix c w err
  show "cwp (vStartOperation (sync_tree_class sv))
      (\<lambda>_ s. iReport (fst s) \<and> iRequest (fst s) \<noteq> None \<and> iNextStep (fst s) \<in> sync_tree_steps \<and> iCompleted (fst s) = iCompleted c)
      (\<lambda>e s. True) (c, w)"
    if "\<not> iReport c" "iRequest c = None"
    using that by (auto simp: sync_tree_class_def compound_defs intro!: cwp_rules)
  show "cwp (vResumeOperationL (sync_tree_class sv))
      (\<lambda>_ s. (iReport (fst s) \<and> iRequest (fst s) \<noteq> None \<and> iNextStep (fst s) \<in> sync_tree_steps \<and> iCompleted (fst s) = iCompleted c)
         \<or> (iRequest (fst s) = None \<and> answered c (fst s))) (\<lambda>e s. True) (c, w)"
    if "\<not> iReport c" "iRequest c = None"
    using that by (auto simp: sync_tree_class_def compound_defs intro!: cwp_rules split: option.splits)
  show "cwp (vDoCancel (sync_tree_class sv)) (\<lambda>_ s. answered c (fst s)) (\<lambda>e s. is_panic e) (c, w)"
    if "iReport c" "iRequest c \<noteq> None"
    using that by (auto simp: sync_tree_class_def compound_defs intro!: cwp_rules split: compound_step.split)
  assume in_steps: "iNextStep c \<in> sync_tree_steps" and r: "iReport c" "iRequest c = None"
  then show "cwp (vNegative (sync_tree_class sv) err)
      (\<lambda>_ s. iNextStep (fst s) \<in> sync_tree_steps \<and> still_open c (fst s) \<and> iRequest (fst s) = None) (left_open c) (c, w)"
    by (auto simp: sync_tree_class_def sync_tree_negative_def handled_def compound_defs Let_def intro!: cwp_rules)
  from in_steps have "iNextStep c \<in> {ESyncTree, EFinished}" by (simp add: sync_tree_steps_def)
  with r show "cwp (vDoRunLoopL (sync_tree_class sv))
      (\<lambda>finished s. if finished then iRequest (fst s) = None \<and> answered c (fst s)
         else still_open c (fst s) \<and> iNextStep (fst s) \<in> sync_tree_steps
           \<and> (iRequest (fst s) = None \<longrightarrow> sync_tree_rank (fst s) < sync_tree_rank c))
      (left_open c) (c, w)"
    unfolding sync_tree_class_def sync_tree_loop_def compound_class.simps
    by (intro cwp_current)
      (auto simp: sync_tree_rank_def control_def compound_defs Let_def intro!: cwp_rules
        split: list.splits option.splits if_splits)
qed

definition disconnect_steps :: "compound_step set" where
  "disconnect_steps = {EInboxLateDeletes, EDisconnect, EFinished}"

lemma disconnect_steps_simps [simp]:
  "EInboxLateDeletes \<in> disconnect_steps" "EDisconnect \<in> disconnect_steps" "EFinished \<in> disconnect_steps"
  by (simp_all add: disconnect_steps_def)

definition disconnect_rank :: "'m compound_base_scheme \<Rightarrow> nat" where
  "disconnect_rank c = 0"

interpretation disconnect_op: compound_contract "disconnect_class sv" disconnect_steps disconnect_rank
proof
  fix c w err
  show "cwp (vStartOperation (disconnect_class sv))
      (\<lambda>_ s. iReport (fst s) \<and> iRequest (fst s) \<noteq> None \<and> iNextStep (fst s) \<in> disconnect_steps \<and> iCompleted (fst s) = iCompleted c)
      (\<lambda>e s. True) (c, w)"
    if "\<not> iReport c" "iRequest c = None"
    using that by (auto simp: disconnect_class_def disconnect_start_def compound_defs intro!: cwp_rules)
  show "cwp (vResumeOperationL (disconnect_class sv))
      (\<lambda>_ s. (iReport (fst s) \<and> iRequest (fst s) \<noteq> None \<and> iNextStep (fst s) \<in> disconnect_steps \<and> iCompleted (fst s) = iCompleted c)
         \<or> (iRequest (fst s) = None \<and> answered c (fst s))) (\<lambda>e s. True) (c, w)"
    if "\<not> iReport c" "iRequest c = None"
    using that by (auto simp: disconnect_class_def disconnect_start_def compound_defs intro!: cwp_rules split: option.splits)
  show "cwp (vDoCancel (disconnect_class sv)) (\<lambda>_ s. answered c (fst s)) (\<lambda>e s. is_panic e) (c, w)"
    if "iReport c" "iRequest c \<noteq> None"
    using that by (auto simp: disconnect_class_def disconnect_cancel_def compound_defs intro!: cwp_rules split: compound_step.split)
  assume in_steps: "iNextStep c \<in> disconnect_steps" and r: "iReport c" "iRequest c = None"
  then show "cwp (vNegative (disconnect_class sv) err)
      (\<lambda>_ s. iNextStep (fst s) \<in> disconnect_steps \<and> still_open c (fst s) \<and> iRequest (fst s) = None) (left_open c) (c, w)"
    by (auto simp: disconnect_class_def disconnect_negative_def handled_def compound_defs Let_def intro!: cwp_rules)
  from in_steps have "iNextStep c \<in> {EInboxLateDeletes, EDisconnect, EFinished}" by (simp add: disconnect_steps_def)
  with r show "cwp (vDoRunLoopL (disconnect_class sv))
      (\<lambda>finished s. if finished then iRequest (fst s) = None \<and> answered c (fst s)
         else still_open c (fst s) \<and> iNextStep (fst s) \<in> disconnect_steps
           \<and> (iRequest (fst s) = None \<longrightarrow> disconnect_rank (fst s) < disconnect_rank c))
      (left_open c) (c, w)"
    unfolding disconnect_class_def disconnect_loop_def compound_class.simps
    by (intro cwp_current)
      (auto simp: disconnect_rank_def disconnect_start_def control_def compound_defs Let_def intro!: cwp_rules
        split: list.splits option.splits if_splits)
qed

definition update_flag_steps :: "compound_step set" where
  "update_flag_steps = {EUpdateFlag, EFinished}"

lemma update_flag_steps_simps [simp]:
  "EUpdateFlag \<in> update_flag_steps" "EFinished \<in> update_flag_steps"
  by (simp_all add: update_flag_steps_def)

definition update_flag_rank :: "'m compound_base_scheme \<Rightarrow> nat" where
  "update_flag_rank c = 0"

interpretation update_flag_op: compound_contract "update_flag_class sv" update_flag_steps update_flag_rank
proof
  fix c w err
  show "cwp (vStartOperation (update_flag_class sv))
      (\<lambda>_ s. iReport (fst s) \<and> iRequest (fst s) \<noteq> None \<and> iNextStep (fst s) \<in> update_flag_steps \<and> iCompleted (fst s) = iCompleted c)
      (\<lambda>e s. True) (c, w)"
    if "\<not> iReport c" "iRequest c = None"
    using that by (auto simp: update_flag_class_def update_store_def compound_defs intro!: cwp_rules)
  show "cwp (vResumeOperationL (update_flag_class sv))
      (\<lambda>_ s. (iReport (fst s) \<and> iRequest (fst s) \<noteq> None \<and> iNextStep (fst s) \<in> update_flag_steps \<and> iCompleted (fst s) = iCompleted c)
         \<or> (iRequest (fst s) = None \<and> answered c (fst s))) (\<lambda>e s. True) (c, w)"
    if "\<not> iReport c" "iRequest c = None"
    using that by (auto simp: update_flag_class_def update_flag_resume_def update_store_def compound_defs intro!: cwp_rules split: option.splits)
  show "cwp (vDoCancel (update_flag_class sv)) (\<lambda>_ s. answered c (fst s)) (\<lambda>e s. is_panic e) (c, w)"
    if "iReport c" "iRequest c \<noteq> None"
    using that by (auto simp: update_flag_class_def compound_defs intro!: cwp_rules split: compound_step.split)
  assume in_steps: "iNextStep c \<in> update_flag_steps" and r: "iReport c" "iRequest c = None"
  then show "cwp (vNegative (update_flag_class sv) err)
      (\<lambda>_ s. iNextStep (fst s) \<in> update_flag_steps \<and> still_open c (fst s) \<and> iRequest (fst s) = None) (left_open c) (c, w)"
    by (auto simp: update_flag_class_def update_flag_negative_def handled_def compound_defs Let_def intro!: cwp_rules)
  from in_steps have "iNextStep c \<in> {EUpdateFlag, EFinished}" by (simp add: update_flag_steps_def)
  with r show "cwp (vDoRunLoopL (update_flag_class sv))
      (\<lambda>finished s. if finished then iRequest (fst s) = None \<and> answered c (fst s)
         else still_open c (fst s) \<and> iNextStep (fst s) \<in> update_flag_steps
           \<and> (iRequest (fst s) = None \<longrightarrow> update_flag_rank (fst s) < update_flag_rank c))
      (left_open c) (c, w)"
    unfolding update_flag_class_def update_flag_loop_def compound_class.simps
    by (intro cwp_current)
      (auto simp: update_flag_rank_def update_store_def control_def compound_defs Let_def intro!: cwp_rules
        split: list.splits option.splits if_splits)
qed

text \<open>Copying and moving messages keeps the contract of a compound operation.\<close>

lemma keeps_mark_deleted [keeps_rules]: "keeps g (mark_deleted sv n xs)"
  by (induction sv n xs rule: mark_deleted.induct) (auto intro!: keeps_rules)

lemma keeps_copy_uids [keeps_rules]: "keeps (\<lambda>c. (control c, iSourceSel c)) (copy_uids sv p xs)"
  by (induction xs) (auto intro!: keeps_rules simp: control_def)

lemma drop_Cons_length: "drop n xs = y # ys \<Longrightarrow> Suc (length ys) \<le> length xs"
  by (metis diff_le_self length_Cons length_drop)

lemmas cwp_copy_methods [cwp_rules] = keeps_mark_deleted [THEN cwp_outside] keeps_copy_uids [THEN cwp_keeps]

definition copy_local_steps :: "compound_step set" where
  "copy_local_steps = {ECheckDestinationMailbox, ESetSource, EAppendMessage, EDeleteLocalMessage, ESelectDestinationMailboxRO, ENewSyncFolder, EFinished}"

lemma copy_local_steps_simps [simp]:
  "ECheckDestinationMailbox \<in> copy_local_steps" "ESetSource \<in> copy_local_steps" "EAppendMessage \<in> copy_local_steps" "EDeleteLocalMessage \<in> copy_local_steps" "ESelectDestinationMailboxRO \<in> copy_local_steps" "ENewSyncFolder \<in> copy_local_steps" "EFinished \<in> copy_local_steps"
  by (simp_all add: copy_local_steps_def)

definition copy_local_rank :: "'m compound_base_scheme \<Rightarrow> nat" where
  "copy_local_rank c = (case iNextStep c of ECheckDestinationMailbox \<Rightarrow> 3 | EDeleteLocalMessage \<Rightarrow> 2 | ESetSource \<Rightarrow> 1
     | ENewSyncFolder \<Rightarrow> 1 | _ \<Rightarrow> 0)"

interpretation copy_local_op: compound_contract "copy_local_class sv" copy_local_steps copy_local_rank
proof
  fix c w err
  show "cwp (vStartOperation (copy_local_class sv))
      (\<lambda>_ s. iReport (fst s) \<and> iRequest (fst s) \<noteq> None \<and> iNextStep (fst s) \<in> copy_local_steps \<and> iCompleted (fst s) = iCompleted c)
      (\<lambda>e s. True) (c, w)"
    if "\<not> iReport c" "iRequest c = None"
    using that by (auto simp: copy_local_class_def copy_local_source_def compound_defs intro!: cwp_rules)
  show "cwp (vResumeOperationL (copy_local_class sv))
      (\<lambda>_ s. (iReport (fst s) \<and> iRequest (fst s) \<noteq> None \<and> iNextStep (fst s) \<in> copy_local_steps \<and> iCompleted (fst s) = iCompleted c)
         \<or> (iRequest (fst s) = None \<and> answered c (fst s))) (\<lambda>e s. True) (c, w)"
    if "\<not> iReport c" "iRequest c = None"
    using that by (auto simp: copy_local_class_def copy_local_resume_def Let_def copy_local_source_def compound_defs intro!: cwp_rules split: option.splits)
  show "cwp (vDoCancel (copy_local_class sv)) (\<lambda>_ s. answered c (fst s)) (\<lambda>e s. is_panic e) (c, w)"
    if "iReport c" "iRequest c \<noteq> None"
    using that by (auto simp: copy_local_class_def copy_local_cancel_def compound_defs intro!: cwp_rules split: compound_step.split)
  assume in_steps: "iNextStep c \<in> copy_local_steps" and r: "iReport c" "iRequest c = None"
  then show "cwp (vNegative (copy_local_class sv) err)
      (\<lambda>_ s. iNextStep (fst s) \<in> copy_local_steps \<and> still_open c (fst s) \<and> iRequest (fst s) = None) (left_open c) (c, w)"
    by (auto simp: copy_local_class_def copy_local_negative_def handled_def compound_defs Let_def intro!: cwp_rules)
  from in_steps have "iNextStep c \<in> {ECheckDestinationMailbox, ESetSource, EAppendMessage, EDeleteLocalMessage, ESelectDestinationMailboxRO, ENewSyncFolder, EFinished}" by (simp add: copy_local_steps_def)
  with r show "cwp (vDoRunLoopL (copy_local_class sv))
      (\<lambda>finished s. if finished then iRequest (fst s) = None \<and> answered c (fst s)
         else still_open c (fst s) \<and> iNextStep (fst s) \<in> copy_local_steps
           \<and> (iRequest (fst s) = None \<longrightarrow> copy_local_rank (fst s) < copy_local_rank c))
      (left_open c) (c, w)"
    unfolding copy_local_class_def copy_local_loop_def compound_class.simps
    by (intro cwp_current)
      (auto simp: copy_local_rank_def copy_local_source_def control_def compound_defs Let_def intro!: cwp_rules
        split: list.splits option.splits if_splits)
qed

definition copy_within_steps :: "compound_step set" where
  "copy_within_steps = {ECheckDestinationMailbox, ESetSourceMailbox, ESelectSourceMailboxRW, ESelectSourceMailboxRO, ECopyMessage,
     EDeleteMessage, EExpunge, ECloseFolder, ESelectFolderAfterClose, EDeleteLocalMessage, ESelectDestinationMailboxRO, ENewSyncFolder, EFinished}"

lemma copy_within_steps_simps [simp]:
  "ECheckDestinationMailbox \<in> copy_within_steps" "ESetSourceMailbox \<in> copy_within_steps" "ESelectSourceMailboxRW \<in> copy_within_steps" "ESelectSourceMailboxRO \<in> copy_within_steps" "ECopyMessage \<in> copy_within_steps" "EDeleteMessage \<in> copy_within_steps" "EExpunge \<in> copy_within_steps" "ECloseFolder \<in> copy_within_steps" "ESelectFolderAfterClose \<in> copy_within_steps" "EDeleteLocalMessage \<in> copy_within_steps" "ESelectDestinationMailboxRO \<in> copy_within_steps" "ENewSyncFolder \<in> copy_within_steps" "EFinished \<in> copy_within_steps"
  by (simp_all add: copy_within_steps_def)

definition copy_within_rank :: "'m copy_within_compound_ext compound_base_scheme \<Rightarrow> nat" where
  "copy_within_rank c = 3 * length (iSourceSel c) + (case iNextStep c of ECheckDestinationMailbox \<Rightarrow> 3 | EDeleteLocalMessage \<Rightarrow> 2
     | ESetSourceMailbox \<Rightarrow> 1 | ENewSyncFolder \<Rightarrow> 1 | _ \<Rightarrow> 0)"

interpretation copy_within_op: compound_contract "copy_within_class sv" copy_within_steps copy_within_rank
proof
  fix c w err
  show "cwp (vStartOperation (copy_within_class sv))
      (\<lambda>_ s. iReport (fst s) \<and> iRequest (fst s) \<noteq> None \<and> iNextStep (fst s) \<in> copy_within_steps \<and> iCompleted (fst s) = iCompleted c)
      (\<lambda>e s. True) (c, w)"
    if "\<not> iReport c" "iRequest c = None"
    using that by (auto simp: copy_within_class_def copy_within_source_def SetSourceFolderL_def increment_progress_def CopyMessagesL_def MarkMessageForDeletesL_def DeleteMovedMessagesL_def compound_defs intro!: cwp_rules)
  show "cwp (vResumeOperationL (copy_within_class sv))
      (\<lambda>_ s. (iReport (fst s) \<and> iRequest (fst s) \<noteq> None \<and> iNextStep (fst s) \<in> copy_within_steps \<and> iCompleted (fst s) = iCompleted c)
         \<or> (iRequest (fst s) = None \<and> answered c (fst s))) (\<lambda>e s. True) (c, w)"
    if "\<not> iReport c" "iRequest c = None"
    using that by (auto simp: copy_within_class_def copy_within_resume_def Let_def copy_within_source_def SetSourceFolderL_def increment_progress_def CopyMessagesL_def MarkMessageForDeletesL_def DeleteMovedMessagesL_def compound_defs intro!: cwp_rules split: option.splits)
  show "cwp (vDoCancel (copy_within_class sv)) (\<lambda>_ s. answered c (fst s)) (\<lambda>e s. is_panic e) (c, w)"
    if "iReport c" "iRequest c \<noteq> None"
    using that by (auto simp: copy_within_class_def copy_within_cancel_def compound_defs intro!: cwp_rules split: compound_step.split)
  assume in_steps: "iNextStep c \<in> copy_within_steps" and r: "iReport c" "iRequest c = None"
  then show "cwp (vNegative (copy_within_class sv) err)
      (\<lambda>_ s. iNextStep (fst s) \<in> copy_within_steps \<and> still_open c (fst s) \<and> iRequest (fst s) = None) (left_open c) (c, w)"
    by (auto simp: copy_within_class_def copy_within_negative_def handled_def compound_defs Let_def intro!: cwp_rules)
  from in_steps have "iNextStep c \<in> {ECheckDestinationMailbox, ESetSourceMailbox, ESelectSourceMailboxRW, ESelectSourceMailboxRO, ECopyMessage,
     EDeleteMessage, EExpunge, ECloseFolder, ESelectFolderAfterClose, EDeleteLocalMessage, ESelectDestinationMailboxRO, ENewSyncFolder, EFinished}" by (simp add: copy_within_steps_def)
  with r show "cwp (vDoRunLoopL (copy_within_class sv))
      (\<lambda>finished s. if finished then iRequest (fst s) = None \<and> answered c (fst s)
         else still_open c (fst s) \<and> iNextStep (fst s) \<in> copy_within_steps
           \<and> (iRequest (fst s) = None \<longrightarrow> copy_within_rank (fst s) < copy_within_rank c))
      (left_open c) (c, w)"
    unfolding copy_within_class_def copy_within_loop_def compound_class.simps
    by (intro cwp_current)
      (auto simp: copy_within_rank_def copy_within_source_def SetSourceFolderL_def increment_progress_def CopyMessagesL_def MarkMessageForDeletesL_def DeleteMovedMessagesL_def control_def compound_defs Let_def intro!: cwp_rules
        split: list.splits option.splits if_splits dest!: drop_Cons_length)
qed

end
