(* ===== verification/Imap_Store_Laws.thy ===== *)
theory Imap_Store_Laws
  imports Imap_Compound_Laws
begin

text \<open>
  What the compound operations rely on of the message store and of the session: the documented effect of the
  calls of \<open>CMsvServerEntry\<close>, of the synchronisation manager and of the session, over a view of the
  mailboxes and the messages in them and a log of the requests made. The rules of the calculus that
  follow from it, and the rules for sequences of runs.
\<close>

section \<open>The services\<close>

type_synonym store_view = "msv_id \<Rightarrow> msv_entry option"

record 'w store_model =
  viewed :: "'w \<Rightarrow> store_view"
  logged :: "'w \<Rightarrow> service_request list"
  pathed :: "msv_id \<Rightarrow> string16"

definition unchanged :: "'w store_model \<Rightarrow> 'w \<Rightarrow> 'w \<Rightarrow> bool" where
  "unchanged M w w' \<longleftrightarrow> viewed M w' = viewed M w \<and> logged M w' = logged M w"

text \<open>\<open>SetEntry\<close> makes an entry the current one, \<open>ChangeEntry\<close> stores it, \<open>DeleteEntry\<close> removes a child of the
  current one and no other entry; a mailbox has a folder object; a request is accepted and leaves the entries
  as they are, which for the synchronisation of a folder means that its effect is not looked at here.\<close>

definition store_entries :: "'w services \<Rightarrow> 'w store_model \<Rightarrow> bool" where
  "store_entries sv M \<longleftrightarrow>
     (\<forall>w x e. viewed M w x = Some e \<longrightarrow>
        fst (svSetEntry sv x w) = KErrNone \<and> svEntry sv (snd (svSetEntry sv x w)) = e
        \<and> unchanged M w (snd (svSetEntry sv x w)))
   \<and> (\<forall>w e. eId e = eId (svEntry sv w) \<longrightarrow>
        fst (svChangeEntry sv e w) = KErrNone \<and> svEntry sv (snd (svChangeEntry sv e w)) = e
        \<and> viewed M (snd (svChangeEntry sv e w)) = (viewed M w)(eId e \<mapsto> e)
        \<and> logged M (snd (svChangeEntry sv e w)) = logged M w)
   \<and> (\<forall>w x e. viewed M w x = Some e \<and> eParent e = eId (svEntry sv w) \<longrightarrow>
        fst (svDeleteEntry sv x w) = KErrNone \<and> svEntry sv (snd (svDeleteEntry sv x w)) = svEntry sv w
        \<and> viewed M (snd (svDeleteEntry sv x w)) = (viewed M w)(x := None)
        \<and> logged M (snd (svDeleteEntry sv x w)) = logged M w)"

definition folder_services :: "'w services \<Rightarrow> 'w store_model \<Rightarrow> bool" where
  "folder_services sv M \<longleftrightarrow>
     (\<forall>w x e. viewed M w x = Some e \<and> eMailbox e \<longrightarrow>
        fst (svGetFolder sv x True w) = Inr True \<and> unchanged M w (snd (svGetFolder sv x True w))
        \<and> fst (svFullFolderPath sv x w) = Inr (pathed M x) \<and> unchanged M w (snd (svFullFolderPath sv x w)))
   \<and> (\<forall>w r. fst (svIssue sv r w) = Inr () \<and> viewed M (snd (svIssue sv r w)) = viewed M w
        \<and> logged M (snd (svIssue sv r w)) = logged M w @ [r])
   \<and> 0 < svDepth sv"

definition message_services :: "'w services \<Rightarrow> 'w store_model \<Rightarrow> bool" where
  "message_services sv M \<longleftrightarrow> store_entries sv M \<and> folder_services sv M"

text \<open>A message stands in the view, directly in a mailbox.\<close>

definition in_mailbox :: "store_view \<Rightarrow> msv_id \<Rightarrow> bool" where
  "in_mailbox v x \<longleftrightarrow> (case v x of None \<Rightarrow> False | Some e \<Rightarrow>
     eId e = x \<and> eType e = KUidMsvMessageEntry \<and> (case v (eParent e) of None \<Rightarrow> False | Some f \<Rightarrow>
       eId f = eParent e \<and> eType f = KUidMsvFolderEntry \<and> eMailbox f))"

definition folder_of :: "store_view \<Rightarrow> msv_id \<Rightarrow> msv_id" where
  "folder_of v x = (case v x of None \<Rightarrow> 0 | Some e \<Rightarrow> eParent e)"

definition uid_of :: "store_view \<Rightarrow> msv_id \<Rightarrow> tint" where
  "uid_of v x = (case v x of None \<Rightarrow> 0 | Some e \<Rightarrow> eUid e)"

lemma in_mailboxE:
  assumes "in_mailbox v x"
  obtains e f where "v x = Some e" "eId e = x" "eType e = KUidMsvMessageEntry" "v (eParent e) = Some f"
    "eId f = eParent e" "eType f = KUidMsvFolderEntry" "eMailbox f" "eParent e \<noteq> x"
    "folder_of v x = eParent e" "uid_of v x = eUid e"
  using assms by (fastforce simp: in_mailbox_def folder_of_def uid_of_def split: option.splits)

text \<open>Removing some messages, and marking them.\<close>

definition without :: "store_view \<Rightarrow> msv_id set \<Rightarrow> store_view" where
  "without v X = (\<lambda>y. if y \<in> X then None else v y)"

definition marking :: "store_view \<Rightarrow> msv_id set \<Rightarrow> store_view" where
  "marking v X = (\<lambda>y. if y \<in> X then map_option (\<lambda>e. e\<lparr> eDeletedFlag := True \<rparr>) (v y) else v y)"

lemma marking_simps [simp]:
  "marking v {} = v"
  "folder_of (marking v X) = folder_of v" "uid_of (marking v X) = uid_of v"
  by (auto simp: marking_def folder_of_def uid_of_def fun_eq_iff split: option.splits)

lemma marking_Some:
  assumes "v x = Some e"
  obtains e' where "marking v X x = Some e'" "eId e' = eId e" "eParent e' = eParent e" "eUid e' = eUid e"
    "e'\<lparr> eDeletedFlag := True \<rparr> = e\<lparr> eDeletedFlag := True \<rparr>"
proof (cases "x \<in> X")
  case True
  show thesis by (rule that [of "e\<lparr> eDeletedFlag := True \<rparr>"]) (simp_all add: marking_def True assms)
next
  case False
  show thesis by (rule that [of e]) (simp_all add: marking_def False assms)
qed

lemma marking_insert: "v x = Some e \<Longrightarrow> (marking v X)(x \<mapsto> e\<lparr> eDeletedFlag := True \<rparr>) = marking v (insert x X)"
  by (auto simp: marking_def fun_eq_iff)

lemma marking_in_mailbox [simp]: "in_mailbox (marking v X) x = in_mailbox v x"
  by (cases "v x"; cases "v (eParent (the (v x)))") (auto simp: in_mailbox_def marking_def)

lemma without_marking [simp]: "Y \<subseteq> X \<Longrightarrow> without (marking v Y) X = without v X"
  by (auto simp: without_def marking_def fun_eq_iff)

lemma without_simps [simp]: "without v {} = v" "without (without v X) Y = without v (X \<union> Y)"
  by (auto simp: without_def fun_eq_iff)

lemma without_upd [simp]: "(without v X)(x := None) = without v (insert x X)"
  by (auto simp: without_def fun_eq_iff)

text \<open>A selection of messages of the view.\<close>

definition selection_in :: "store_view \<Rightarrow> msv_id list \<Rightarrow> bool" where
  "selection_in v xs \<longleftrightarrow> distinct xs \<and> (\<forall>x \<in> set xs. in_mailbox v x)"

lemma selection_not_folder:
  assumes "selection_in v xs" "x \<in> set xs" "in_mailbox v y" shows "folder_of v y \<noteq> x"
proof -
  have "in_mailbox v x" using assms by (simp add: selection_in_def)
  then show ?thesis using assms(3) by (elim in_mailboxE) auto
qed

lemma in_mailbox_without:
  assumes "in_mailbox v x" "x \<notin> X" "folder_of v x \<notin> X" shows "in_mailbox (without v X) x"
proof -
  obtain e f where "v x = Some e" "eId e = x" "eType e = KUidMsvMessageEntry" "v (eParent e) = Some f"
    "eId f = eParent e" "eType f = KUidMsvFolderEntry" "eMailbox f" "folder_of v x = eParent e"
    using assms(1) by (elim in_mailboxE)
  with assms(2,3) show ?thesis by (simp add: in_mailbox_def without_def)
qed

lemma selection_without_some:
  assumes "selection_in v (xs @ ys)" "X \<subseteq> set xs"
  shows "selection_in (without v X) ys"
    and "y \<in> set ys \<Longrightarrow> folder_of (without v X) y = folder_of v y"
    and "y \<in> set ys \<Longrightarrow> uid_of (without v X) y = uid_of v y"
proof -
  have "folder_of v y \<notin> X" if "y \<in> set ys" for y
  proof
    assume "folder_of v y \<in> X"
    moreover have "in_mailbox v y" using assms(1) that by (simp add: selection_in_def)
    ultimately show False using selection_not_folder [OF assms(1)] assms(2) by (metis UnCI set_append subsetD)
  qed
  with assms show "selection_in (without v X) ys"
    by (auto simp: selection_in_def intro!: in_mailbox_without)
  show "y \<in> set ys \<Longrightarrow> folder_of (without v X) y = folder_of v y"
    "y \<in> set ys \<Longrightarrow> uid_of (without v X) y = uid_of v y"
    using assms by (auto simp: folder_of_def uid_of_def without_def selection_in_def)
qed

lemmas selection_without = selection_without_some [OF _ subset_refl]

lemma marking_without: "marking (without (marking v X) R) Y = without (marking v (X \<union> Y)) R"
  by (auto simp: marking_def without_def fun_eq_iff option.map_comp comp_def)

lemma selection_marking [simp]: "selection_in (marking v X) xs = selection_in v xs"
  by (simp add: selection_in_def)

section \<open>Evaluating the methods\<close>

definition set_world :: "'w services \<Rightarrow> msv_id \<Rightarrow> 'w \<Rightarrow> 'w" where
  "set_world sv x w = snd (svSetEntry sv x w)"

definition change_world :: "'w services \<Rightarrow> msv_entry \<Rightarrow> 'w \<Rightarrow> 'w" where
  "change_world sv e w = snd (svChangeEntry sv e w)"

definition delete_world :: "'w services \<Rightarrow> msv_id \<Rightarrow> 'w \<Rightarrow> 'w" where
  "delete_world sv x w = snd (svDeleteEntry sv x w)"

definition issue_world :: "'w services \<Rightarrow> service_request \<Rightarrow> 'w \<Rightarrow> 'w" where
  "issue_world sv r w = snd (svIssue sv r w)"

definition folder_world :: "'w services \<Rightarrow> msv_id \<Rightarrow> 'w \<Rightarrow> 'w" where
  "folder_world sv x w = snd (svGetFolder sv x True w)"

definition path_world :: "'w services \<Rightarrow> msv_id \<Rightarrow> 'w \<Rightarrow> 'w" where
  "path_world sv x w = snd (svFullFolderPath sv x w)"

lemmas method_defs = cbind_def creturn_def cleave_def cread_def cset_def cask_def ccall_def ctry_def leave_if_error_def

lemma run_set_entry:
  assumes "message_services sv M" "viewed M w x = Some e"
  shows "SetEntryL sv x (c, w) = (Inr (), (c, set_world sv x w))"
    "svEntry sv (set_world sv x w) = e" "viewed M (set_world sv x w) = viewed M w"
    "logged M (set_world sv x w) = logged M w"
  using assms unfolding message_services_def store_entries_def unchanged_def
  by (simp_all add: SetEntryL_def method_defs set_world_def split_beta)

lemma run_entry: "entry sv (c, w) = (Inr (svEntry sv w), (c, w))"
  by (simp add: entry_def method_defs)

lemma run_change_entry:
  assumes "message_services sv M" "eId e = eId (svEntry sv w)"
  shows "ChangeEntryL sv e (c, w) = (Inr (), (c, change_world sv e w))"
    "svEntry sv (change_world sv e w) = e"
    "viewed M (change_world sv e w) = (viewed M w)(eId e \<mapsto> e)"
    "logged M (change_world sv e w) = logged M w"
  using assms unfolding message_services_def store_entries_def unchanged_def
  by (simp_all add: ChangeEntryL_def method_defs change_world_def split_beta)

lemma run_delete_entry:
  assumes "message_services sv M" "viewed M w x = Some e" "eParent e = eId (svEntry sv w)"
  shows "ccall (svDeleteEntry sv x) (c, w) = (Inr KErrNone, (c, delete_world sv x w))"
    "svEntry sv (delete_world sv x w) = svEntry sv w"
    "viewed M (delete_world sv x w) = (viewed M w)(x := None)"
    "logged M (delete_world sv x w) = logged M w"
  using assms unfolding message_services_def store_entries_def unchanged_def
  by (simp_all add: method_defs delete_world_def split_beta)

lemma run_request:
  assumes "message_services sv M"
  shows "request sv r (c, w) = (Inr (), (c, issue_world sv r w))"
    "viewed M (issue_world sv r w) = viewed M w" "logged M (issue_world sv r w) = logged M w @ [r]"
  using assms unfolding message_services_def folder_services_def unchanged_def
  by (simp_all add: request_def method_defs issue_world_def split_beta)

lemma run_get_folder:
  assumes "message_services sv M" "viewed M w x = Some f" "eMailbox f"
  shows "ctry (svGetFolder sv x True) (c, w) = (Inr True, (c, folder_world sv x w))"
    "viewed M (folder_world sv x w) = viewed M w" "logged M (folder_world sv x w) = logged M w"
  using assms unfolding message_services_def folder_services_def unchanged_def
  by (simp_all add: method_defs folder_world_def split_beta)

lemma run_full_path:
  assumes "message_services sv M" "viewed M w x = Some f" "eMailbox f"
  shows "ctry (svFullFolderPath sv x) (c, w) = (Inr (pathed M x), (c, path_world sv x w))"
    "viewed M (path_world sv x w) = viewed M w" "logged M (path_world sv x w) = logged M w"
  using assms unfolding message_services_def folder_services_def unchanged_def
  by (simp_all add: method_defs path_world_def split_beta)

definition find_world :: "'w services \<Rightarrow> msv_id \<Rightarrow> msv_id \<Rightarrow> 'w \<Rightarrow> 'w" where
  "find_world sv x f w = set_world sv f (set_world sv x w)"

lemma run_find_folder:
  assumes S: "message_services sv M" and x: "in_mailbox (viewed M w) x" and f: "folder_of (viewed M w) x = f"
  shows "FindFolderL sv x (c, w) = (Inr f, (c, find_world sv x f w))"
    "viewed M (find_world sv x f w) = viewed M w" "logged M (find_world sv x f w) = logged M w"
proof -
  obtain e g where e: "viewed M w x = Some e" "viewed M w (eParent e) = Some g" "eId g = eParent e"
    "eType g = KUidMsvFolderEntry" "eMailbox g" "eParent e = f"
    using x f by (elim in_mailboxE) auto
  have "0 < svDepth sv" using S by (simp add: message_services_def folder_services_def)
  then obtain n where n: "svDepth sv = Suc n" by (cases "svDepth sv") auto
  note x = run_set_entry [OF S e(1)]
  have g: "viewed M (set_world sv x w) f = Some g" using e x by simp
  note f = run_set_entry [OF S g]
  show "FindFolderL sv x (c, w) = (Inr f, (c, find_world sv x f w))"
    using e by (simp add: x f FindFolderL_def n cbind_def run_entry creturn_def find_world_def)
  show "viewed M (find_world sv x f w) = viewed M w" "logged M (find_world sv x f w) = logged M w"
    using e(6) by (simp_all add: x f find_world_def)
qed

section \<open>Sequences of runs\<close>

text \<open>The requests complete one after the other, with the given codes.\<close>

fun run_all ::
  "('m, 'w) compound_class \<Rightarrow> symbian_error list \<Rightarrow> ('m, 'w) compound_state \<Rightarrow> ('m, 'w) compound_state leaving option" where
  "run_all cls [] s = Some (Inr s)"
| "run_all cls (status # stats) s = (case RunL cls status s of
      Some (Inr s') \<Rightarrow> if iRequest (fst s) = None then None else run_all cls stats s'
    | r \<Rightarrow> r)"

lemma RunL_ok: "RunL cls KErrNone s = run_result (run_loop (vDoRunLoopL cls) ((fst s)\<lparr> iRequest := None \<rparr>, snd s))"
  by (simp add: RunL_def Let_def DoRunL_def system_error_def)

lemma run_loop_wait: "iRequest (fst s) = Some r \<Longrightarrow> run_loop loop s = Some (Inr (), s)"
  by (subst run_loop.simps) simp

lemma run_loop_step: "iRequest (fst s) = None \<Longrightarrow> loop s = (Inr False, s') \<Longrightarrow> run_loop loop s = run_loop loop s'"
  by (subst run_loop.simps) simp

lemma run_loop_finish: "iRequest (fst s) = None \<Longrightarrow> loop s = (Inr True, s') \<Longrightarrow> run_loop loop s = Some (Inr (), s')"
  by (subst run_loop.simps) simp

lemma run_result_simps [simp]:
  "iRequest (fst s) \<noteq> None \<Longrightarrow> run_result (Some (Inr (), s)) = Some (Inr s)"
  "\<not> iReport (fst s) \<Longrightarrow> run_result (Some (Inr (), s)) = Some (Inr s)"
  by (auto simp: run_result_def completed_with_def CompoundComplete_def cset_def)

lemma run_all_append: "run_all cls (xs @ ys) s =
    (case run_all cls xs s of Some (Inr s') \<Rightarrow> run_all cls ys s' | r \<Rightarrow> r)"
  by (induction xs arbitrary: s) (auto split: option.splits sum.splits)

text \<open>The runs from the loop on.\<close>

definition loop_all ::
  "('m, 'w) compound_class \<Rightarrow> symbian_error list \<Rightarrow> ('m, 'w) compound_state \<Rightarrow> ('m, 'w) compound_state leaving option" where
  "loop_all cls stats s = (case run_result (run_loop (vDoRunLoopL cls) s) of
      Some (Inr s') \<Rightarrow> run_all cls stats s' | r \<Rightarrow> r)"

definition idle :: "('m, 'w) compound_state \<Rightarrow> ('m, 'w) compound_state" where
  "idle s = ((fst s)\<lparr> iRequest := None \<rparr>, snd s)"

lemma run_all_ok: "iRequest (fst s) = Some r \<Longrightarrow> run_all cls (KErrNone # stats) s = loop_all cls stats (idle s)"
  by (simp add: loop_all_def RunL_ok idle_def split: option.split sum.split)

lemma loop_all_step:
  "vDoRunLoopL cls s = (Inr False, s') \<Longrightarrow> iRequest (fst s) = None \<Longrightarrow> loop_all cls stats s = loop_all cls stats s'"
  by (simp add: loop_all_def run_loop_step)

lemma loop_all_wait:
  assumes "vDoRunLoopL cls s = (Inr False, s')" "iRequest (fst s) = None" "iRequest (fst s') = Some r"
  shows "loop_all cls (KErrNone # stats) s = loop_all cls stats (idle s')"
proof -
  have "loop_all cls (KErrNone # stats) s = run_all cls (KErrNone # stats) s'"
    using assms by (simp add: loop_all_def run_loop_step run_loop_wait del: run_all.simps)
  then show ?thesis using assms(3) by (simp add: run_all_ok del: run_all.simps)
qed

lemma loop_all_finish:
  "vDoRunLoopL cls s = (Inr True, s') \<Longrightarrow> \<not> iReport (fst s') \<Longrightarrow> iRequest (fst s) = None \<Longrightarrow> loop_all cls [] s = Some (Inr s')"
  by (simp add: loop_all_def run_loop_finish)

text \<open>A request the server refuses.\<close>

lemma run_all_no:
  assumes "vNegative cls KErrImapNo (idle s) = (Inr KErrNone, s')" "iRequest (fst s) = Some r"
  shows "run_all cls (KErrImapNo # stats) s = loop_all cls stats s'"
proof -
  have "RunL cls KErrImapNo s = run_result (run_loop (vDoRunLoopL cls) s')"
    using assms(1) by (simp add: RunL_def Let_def DoRunL_def ProcessSessionError_def system_error_def idle_def)
  then show ?thesis using assms(2) by (simp add: loop_all_def split: option.split sum.split)
qed

lemma loop_all_refused:
  assumes "vDoRunLoopL cls s = (Inr False, s')" "iRequest (fst s) = None" "iRequest (fst s') = Some r"
    "vNegative cls KErrImapNo (idle s') = (Inr KErrNone, s'')"
  shows "loop_all cls (KErrImapNo # stats) s = loop_all cls stats s''"
proof -
  have "loop_all cls (KErrImapNo # stats) s = run_all cls (KErrImapNo # stats) s'"
    using assms by (simp add: loop_all_def run_loop_step run_loop_wait del: run_all.simps)
  then show ?thesis using run_all_no [OF assms(4,3)] by simp
qed

lemma run_message_error:
  assumes S: "message_services sv M" and x: "viewed M w x = Some e" "eId e = x"
  shows "\<exists>w'. (\<forall>c :: 'm compound_base_scheme. MessageErrorL sv x err (c, w) = (Inr (), (c, w')))
    \<and> viewed M w' = (viewed M w)(x \<mapsto> e\<lparr> eError := err \<rparr>) \<and> logged M w' = logged M w"
proof -
  note s = run_set_entry [OF S x(1)]
  have call: "ccall (svSetEntry sv x) (c, w) = (Inr KErrNone, (c, set_world sv x w))" for c :: "'m compound_base_scheme"
    using S x(1) unfolding message_services_def store_entries_def
    by (simp add: ccall_def set_world_def split_beta)
  show ?thesis
  proof (cases "eError e = err")
    case True
    then have "(viewed M w)(x \<mapsto> e\<lparr> eError := err \<rparr>) = viewed M w" using x by (cases e) (simp add: fun_upd_idem)
    then show ?thesis using True
      by (intro exI [of _ "set_world sv x w"]) (simp add: MessageErrorL_def cbind_def call s run_entry creturn_def)
  next
    case False
    have "eId (e\<lparr> eError := err \<rparr>) = eId (svEntry sv (set_world sv x w))" using s x by simp
    note ch = run_change_entry [OF S this]
    show ?thesis using False x(2)
      by (intro exI [of _ "change_world sv (e\<lparr> eError := err \<rparr>) (set_world sv x w)"])
        (simp add: MessageErrorL_def cbind_def call s run_entry ch)
  qed
qed

section \<open>Groups of messages of one folder\<close>

function folder_groups :: "(msv_id \<Rightarrow> msv_id) \<Rightarrow> msv_id list \<Rightarrow> msv_id list list" where
  "folder_groups p [] = []"
| "folder_groups p (x # xs) =
     (x # takeWhile (\<lambda>y. p y = p x) xs) # folder_groups p (dropWhile (\<lambda>y. p y = p x) xs)"
  by pat_completeness auto
termination by (relation "measure (\<lambda>(p, xs). length xs)") (auto simp: le_imp_less_Suc length_dropWhile_le)

lemma folder_groups_cong: "(\<And>x. x \<in> set xs \<Longrightarrow> p x = q x) \<Longrightarrow> folder_groups p xs = folder_groups q xs"
proof (induction p xs rule: folder_groups.induct)
  case (2 p x xs)
  have pq: "(p y = p x) = (q y = q x)" if "y \<in> set xs" for y using "2.prems" that by simp
  have tw: "takeWhile (\<lambda>y. p y = p x) xs = takeWhile (\<lambda>y. q y = q x) xs"
    by (rule takeWhile_cong [OF refl pq])
  have dw: "dropWhile (\<lambda>y. p y = p x) xs = dropWhile (\<lambda>y. q y = q x) xs"
    by (rule dropWhile_cong [OF refl pq])
  have "folder_groups p (dropWhile (\<lambda>y. p y = p x) xs) = folder_groups q (dropWhile (\<lambda>y. p y = p x) xs)"
    by (rule "2.IH") (meson "2.prems" list.set_intros(2) set_dropWhileD)
  then show ?case by (simp only: folder_groups.simps tw dw)
qed simp

text \<open>A selection is a group of the messages of one folder and a selection that starts with another folder.\<close>

lemma first_group:
  assumes "sel \<noteq> []"
  obtains xs ys where "sel = xs @ ys" "xs \<noteq> []" "folder_groups p sel = xs # folder_groups p ys"
    "\<And>x. x \<in> set xs \<Longrightarrow> p x = p (hd xs)" "ys = [] \<or> p (hd ys) \<noteq> p (hd xs)"
proof -
  obtain x zs where sel: "sel = x # zs" using assms by (cases sel) auto
  show thesis
  proof (rule that [of "x # takeWhile (\<lambda>y. p y = p x) zs" "dropWhile (\<lambda>y. p y = p x) zs"])
    show "y \<in> set (x # takeWhile (\<lambda>y. p y = p x) zs) \<Longrightarrow> p y = p (hd (x # takeWhile (\<lambda>y. p y = p x) zs))" for y
      by (auto dest: set_takeWhileD)
    show "dropWhile (\<lambda>y. p y = p x) zs = []
        \<or> p (hd (dropWhile (\<lambda>y. p y = p x) zs)) \<noteq> p (hd (x # takeWhile (\<lambda>y. p y = p x) zs))"
      using hd_dropWhile [of "\<lambda>y. p y = p x" zs] by auto
  qed (simp_all add: sel)
qed

lemma concat_folder_groups [simp]: "concat (folder_groups p xs) = xs"
  by (induction p xs rule: folder_groups.induct) simp_all

lemma folder_groups_member: "g \<in> set (folder_groups p xs) \<Longrightarrow> g \<noteq> [] \<and> set g \<subseteq> set xs"
proof
  show "g \<in> set (folder_groups p xs) \<Longrightarrow> g \<noteq> []"
    by (induction p xs rule: folder_groups.induct) auto
  show "g \<in> set (folder_groups p xs) \<Longrightarrow> set g \<subseteq> set xs"
    using set_concat [of "folder_groups p xs"] by auto
qed

end
