(* ===== verification/Imap_Compound_Runs.thy ===== *)
theory Imap_Compound_Runs
  imports Imap_Compound_Contracts Imap_Store_Laws
begin

text \<open>
  Runs of \<open>CImapCompoundDelete\<close> against a message store and a server that keep their contract.
\<close>

section \<open>The loops over the selection\<close>

lemma run_delete_mark:
  assumes S: "message_services sv M"
    and xs: "\<And>x. x \<in> set xs \<Longrightarrow> in_mailbox v x \<and> folder_of v x = f"
    and ys: "ys = [] \<or> in_mailbox v (hd ys) \<and> folder_of v (hd ys) \<noteq> f"
    and v: "viewed M w = marking v X"
  shows "\<exists>w'. (\<forall>c :: 'm delete_compound_ext compound_base_scheme. delete_mark sv f (xs @ ys) (c, w)
      = (Inr (), (c\<lparr> delete_compound.iMessageUids := delete_compound.iMessageUids c @ List.map (uid_of v) xs,
                     iSelectionToDelete := iSelectionToDelete c + length xs \<rparr>, w')))
    \<and> viewed M w' = marking v (X \<union> set xs) \<and> logged M w' = logged M w"
  using xs v
proof (induction xs arbitrary: w X)
  case Nil
  show ?case
  proof (cases ys)
    case (Cons y zs)
    with ys have "in_mailbox v y" "folder_of v y \<noteq> f" by simp_all
    then obtain e where "v y = Some e" "eParent e \<noteq> f" by (metis in_mailboxE)
    then obtain e' where e: "viewed M w y = Some e'" "eParent e' \<noteq> f"
      using Nil by (metis marking_Some)
    note y = run_set_entry [OF S e(1)]
    show ?thesis using Cons e(2) Nil by (simp add: y run_entry cbind_def creturn_def)
  qed (use Nil in \<open>auto simp: creturn_def\<close>)
next
  case (Cons x xs)
  obtain e where e: "v x = Some e" "eId e = x" "eParent e = f" "uid_of v x = eUid e"
    using Cons.prems(1) [of x] by (auto elim!: in_mailboxE)
  then obtain e' where e': "viewed M w x = Some e'" "eId e' = x" "eParent e' = f" "eUid e' = eUid e"
    "e'\<lparr> eDeletedFlag := True \<rparr> = e\<lparr> eDeletedFlag := True \<rparr>"
    using Cons.prems(2) by (metis marking_Some)
  let ?w = "change_world sv (e'\<lparr> eDeletedFlag := True \<rparr>) (set_world sv x w)"
  note x = run_set_entry [OF S e'(1)]
  have "eId (e'\<lparr> eDeletedFlag := True \<rparr>) = eId (svEntry sv (set_world sv x w))" by (simp add: x)
  note y = run_change_entry [OF S this]
  have "viewed M ?w = (marking v X)(x \<mapsto> e'\<lparr> eDeletedFlag := True \<rparr>)"
    using Cons.prems(2) e(2) e'(2) by (simp add: y x)
  then have "viewed M ?w = marking v (insert x X)"
    using marking_insert [of v x e X, OF e(1)] e'(5) by simp
  from Cons.IH [OF _ this] Cons.prems(1) obtain w' where
    "\<forall>c :: 'm delete_compound_ext compound_base_scheme. delete_mark sv f (xs @ ys) (c, ?w) = (Inr (), (c\<lparr> delete_compound.iMessageUids := delete_compound.iMessageUids c @ List.map (uid_of v) xs,
        iSelectionToDelete := iSelectionToDelete c + length xs \<rparr>, w'))"
    "viewed M w' = marking v (insert x X \<union> set xs)" "logged M w' = logged M ?w"
    by auto
  then show ?case using e(2-4) e'(2-4) by (simp add: x y run_entry cbind_def cset_def)
qed

lemma run_delete_entries:
  assumes S: "message_services sv M" and "distinct xs"
    and xs: "\<And>x. x \<in> set xs \<Longrightarrow> \<exists>e. viewed M w x = Some e \<and> eParent e = eId (svEntry sv w)"
  shows "\<exists>w'. (\<forall>c :: 'm compound_base_scheme. delete_entries sv (length xs) (xs @ ys) (c, w) = (Inr (), (c, w')))
    \<and> viewed M w' = without (viewed M w) (set xs) \<and> logged M w' = logged M w"
  using assms(2) xs
proof (induction xs arbitrary: w)
  case (Cons x xs)
  obtain e where e: "viewed M w x = Some e" "eParent e = eId (svEntry sv w)" using Cons.prems(2) by auto
  note d = run_delete_entry [OF S e]
  have "\<exists>e. viewed M (delete_world sv x w) y = Some e \<and> eParent e = eId (svEntry sv (delete_world sv x w))"
    if "y \<in> set xs" for y
    using Cons.prems that by (auto simp: d)
  from Cons.IH [OF _ this] Cons.prems(1) obtain w' where
    "\<forall>c :: 'm compound_base_scheme. delete_entries sv (length xs) (xs @ ys) (c, delete_world sv x w) = (Inr (), (c, w'))"
    "viewed M w' = without (viewed M (delete_world sv x w)) (set xs)"
    "logged M w' = logged M (delete_world sv x w)"
    by auto
  then show ?case by (auto simp: d cbind_def without_def fun_eq_iff)
qed (simp add: creturn_def)

section \<open>One folder\<close>

text \<open>The operation stands at a step, with nothing outstanding.\<close>

definition delete_at ::
  "symbian_error list \<Rightarrow> compound_step \<Rightarrow> msv_id list \<Rightarrow> nat \<Rightarrow> 'm delete_compound_ext compound_base_scheme \<Rightarrow> bool" where
  "delete_at compl nxt sel k c \<longleftrightarrow> iReport c \<and> iRequest c = None \<and> \<not> iStopForMigrate c \<and> iCompleted c = compl
     \<and> iNextStep c = nxt \<and> delete_compound.iSourceSel c = sel \<and> iSelectionToDelete c = k"

definition group_requests :: "'w services \<Rightarrow> store_view \<Rightarrow> msv_id list \<Rightarrow> service_request list" where
  "group_requests sv v g =
     [RqSelect (folder_of v (hd g)),
      RqStore (CreateSequenceSetLC (sort (List.map (uid_of v) g))) KImapAddFlags KImapFlagDeleted True]
     @ (if svUseExpunge sv then [RqExpunge] else [RqClose, RqSelect (folder_of v (hd g))])"

definition delete_requests :: "'w services \<Rightarrow> store_view \<Rightarrow> msv_id list \<Rightarrow> service_request list" where
  "delete_requests sv v sel = concat (List.map (group_requests sv v) (folder_groups (folder_of v) sel))"

lemmas delete_eval = delete_loop_def SetCurrentStep_def go_on_def next_step_def progress_def SetActive_def
  cbind_def creturn_def cread_def cset_def cleave_def

lemma delete_at_select:
  assumes S: "message_services sv M" and c: "delete_at compl ESelectSourceMailboxRW (x # sel) k c"
    and x: "in_mailbox (viewed M w) x" "folder_of (viewed M w) x = f"
  shows "\<exists>c' w'. delete_loop sv (c, w) = (Inr False, (c', w')) \<and> iRequest c' = Some (RqSelect f)
    \<and> delete_at compl EDeleteMessage (x # sel) k (c'\<lparr> iRequest := None \<rparr>)
    \<and> iParentFolderId c' = f \<and> iParentFolder c' = Some f \<and> delete_compound.iMessageUids c' = []
    \<and> iCurrentStep c' = ESelectSourceMailboxRW \<and> iProgressMsgsDone c' = iProgressMsgsDone c
    \<and> iProgressMsgsToDo c' = iProgressMsgsToDo c \<and> iProgressErrorCode c' = iProgressErrorCode c
    \<and> viewed M w' = viewed M w \<and> logged M w' = logged M w @ [RqSelect f]"
proof -
  note find = run_find_folder [OF S x]
  obtain g where g: "viewed M (find_world sv x f w) f = Some g" "eMailbox g"
    using x find by (metis in_mailboxE)
  note folder = run_get_folder [OF S g]
  show ?thesis using c
    by (simp add: delete_at_def delete_eval delete_select_def find folder run_request [OF S])
qed

lemma delete_at_store:
  fixes c :: "'m delete_compound_ext compound_base_scheme"
  assumes S: "message_services sv M" and c: "delete_at compl EDeleteMessage (xs @ ys) 0 c"
    and f: "iParentFolderId c = f" "delete_compound.iMessageUids c = []" and v: "viewed M w = v"
    and xs: "\<And>x. x \<in> set xs \<Longrightarrow> in_mailbox v x \<and> folder_of v x = f"
    and ys: "ys = [] \<or> in_mailbox v (hd ys) \<and> folder_of v (hd ys) \<noteq> f"
  defines "r \<equiv> RqStore (CreateSequenceSetLC (sort (List.map (uid_of v) xs))) KImapAddFlags KImapFlagDeleted True"
  shows "\<exists>c' w'. delete_loop sv (c, w) = (Inr False, (c', w')) \<and> iRequest c' = Some r
    \<and> delete_at compl (if svUseExpunge sv then EExpunge else ECloseFolder) (xs @ ys) (length xs) (c'\<lparr> iRequest := None \<rparr>)
    \<and> iParentFolder c' = iParentFolder c \<and> viewed M w' = marking v (set xs) \<and> logged M w' = logged M w @ [r]"
proof -
  have "viewed M w = marking v {}" using v by simp
  with xs ys have "\<exists>w'. (\<forall>c :: 'm delete_compound_ext compound_base_scheme. delete_mark sv f (xs @ ys) (c, w)
      = (Inr (), (c\<lparr> delete_compound.iMessageUids := delete_compound.iMessageUids c @ List.map (uid_of v) xs,
                     iSelectionToDelete := iSelectionToDelete c + length xs \<rparr>, w')))
    \<and> viewed M w' = marking v ({} \<union> set xs) \<and> logged M w' = logged M w"
    by (rule run_delete_mark [OF S])
  then obtain w' where w':
    "\<forall>c :: 'm delete_compound_ext compound_base_scheme. delete_mark sv f (xs @ ys) (c, w) = (Inr (), (c\<lparr> delete_compound.iMessageUids := delete_compound.iMessageUids c @ List.map (uid_of v) xs,
       iSelectionToDelete := iSelectionToDelete c + length xs \<rparr>, w'))"
    "viewed M w' = marking v (set xs)" "logged M w' = logged M w"
    by auto
  show ?thesis using c f
    by (simp add: delete_at_def delete_eval delete_store_def w' run_request [OF S] Let_def r_def)
qed

lemma delete_at_simple:
  assumes S: "message_services sv M"
  shows "delete_at compl EExpunge sel k c \<Longrightarrow>
      \<exists>c'. delete_loop sv (c, w) = (Inr False, (c', issue_world sv RqExpunge w)) \<and> iRequest c' = Some RqExpunge
        \<and> delete_at compl EDeleteLocalMessage sel k (c'\<lparr> iRequest := None \<rparr>)"
    and "delete_at compl ECloseFolder sel k c \<Longrightarrow>
      \<exists>c'. delete_loop sv (c, w) = (Inr False, (c', issue_world sv RqClose w)) \<and> iRequest c' = Some RqClose
        \<and> iParentFolder c' = iParentFolder c \<and> delete_at compl ESelectFolderAfterClose sel k (c'\<lparr> iRequest := None \<rparr>)"
    and "delete_at compl ESelectFolderAfterClose sel k c \<Longrightarrow> iParentFolder c = Some f \<Longrightarrow>
      \<exists>c'. delete_loop sv (c, w) = (Inr False, (c', issue_world sv (RqSelect f) w)) \<and> iRequest c' = Some (RqSelect f)
        \<and> delete_at compl EDeleteLocalMessage sel k (c'\<lparr> iRequest := None \<rparr>)"
    and "delete_at compl EFinished sel k c \<Longrightarrow>
      \<exists>c'. delete_loop sv (c, w) = (Inr True, (c', w)) \<and> iCompleted c' = compl @ [KErrNone] \<and> \<not> iReport c'
        \<and> delete_compound.iSourceSel c' = sel \<and> iProgressErrorCode c' = iProgressErrorCode c \<and> iProgressMsgsDone c' = iProgressMsgsDone c"
  by (auto simp: delete_at_def delete_eval run_request [OF S] on_folder_object_def finish_def CompoundComplete_def)

lemma delete_at_local:
  fixes c :: "'m delete_compound_ext compound_base_scheme"
  assumes S: "message_services sv M" and c: "delete_at compl EDeleteLocalMessage (xs @ ys) (length xs) c"
    and v: "viewed M w = marking v (set xs)" and sel: "selection_in v (xs @ ys)" and ne: "xs \<noteq> []"
    and xs: "\<And>x. x \<in> set xs \<Longrightarrow> in_mailbox v x \<and> folder_of v x = f"
  shows "\<exists>c' w'. delete_loop sv (c, w) = (Inr False, (c', w'))
    \<and> delete_at compl ESelectSourceMailboxRW ys 0 c' \<and> viewed M w' = without v (set xs) \<and> logged M w' = logged M w"
proof -
  obtain x zs where x: "xs = x # zs" using ne by (cases xs) auto
  have inv: "in_mailbox (viewed M w) y \<and> folder_of (viewed M w) y = f" if "y \<in> set xs" for y
    using xs [OF that] v by simp
  have "in_mailbox (viewed M w) x \<and> folder_of (viewed M w) x = f" using inv x by simp
  then obtain e g where e: "viewed M w x = Some e" "eParent e = f" "viewed M w f = Some g" "eId g = f"
    by (metis in_mailboxE)
  note s1 = run_set_entry [OF S e(1)]
  have "viewed M (set_world sv x w) f = Some g" using e s1 by simp
  note s2 = run_set_entry [OF S this]
  let ?w = "set_world sv f (set_world sv x w)"
  have "\<exists>e. viewed M ?w y = Some e \<and> eParent e = eId (svEntry sv ?w)" if "y \<in> set xs" for y
    using inv [OF that] by (metis e(4) in_mailboxE s1(3) s2(2) s2(3))
  moreover have "distinct xs" using sel by (simp add: selection_in_def)
  ultimately obtain w' where w': "\<forall>c :: 'm delete_compound_ext compound_base_scheme. delete_entries sv (length xs) (xs @ ys) (c, ?w) = (Inr (), (c, w'))"
    "viewed M w' = without (viewed M ?w) (set xs)" "logged M w' = logged M ?w"
    using run_delete_entries [OF S, of xs ?w ys] by metis
  have w: "viewed M w' = without v (set xs)" "logged M w' = logged M w" using w'(2,3) s1 s2 v by simp_all
  have del: "DeleteLocalMessagesL sv (b, w)
      = (Inr (), (b\<lparr> delete_compound.iSourceSel := ys, iSelectionToDelete := 0, iProgressMsgsDone := iProgressMsgsDone b + length xs \<rparr>, w'))"
    if "delete_compound.iSourceSel b = xs @ ys" "iSelectionToDelete b = length xs" for b :: "'m delete_compound_ext compound_base_scheme"
  proof -
    have "delete_compound.iSourceSel b = x # (zs @ ys)" using that x by simp
    then have "DeleteLocalMessagesL sv (b, w) = cbind (delete_entries sv (length xs) (xs @ ys)) (\<lambda>_.
        cset (\<lambda>c. c\<lparr> delete_compound.iSourceSel := drop (iSelectionToDelete c) (delete_compound.iSourceSel c), iSelectionToDelete := 0,
                   iProgressMsgsDone := iProgressMsgsDone c + iSelectionToDelete c \<rparr>)) (b, ?w)"
      using e(2) that(2) x by (simp add: DeleteLocalMessagesL_def cbind_def cread_def s1 s2 run_entry del: delete_entries.simps)
    then show ?thesis using that w'(1) by (simp add: cbind_def cset_def)
  qed
  show ?thesis using c w by (simp add: delete_at_def delete_eval del)
qed

lemma delete_class_loop [simp]: "vDoRunLoopL (delete_class sv) = delete_loop sv"
  by (simp add: delete_class_def)

lemma delete_wait:
  assumes "delete_loop sv (c, w) = (Inr False, (c', w'))" "iRequest c = None" "iRequest c' = Some r"
  shows "loop_all (delete_class sv) (KErrNone # stats) (c, w) = loop_all (delete_class sv) stats (c'\<lparr> iRequest := None \<rparr>, w')"
  using loop_all_wait [of "delete_class sv" "(c, w)" "(c', w')"] assms by (simp add: idle_def)

lemma delete_step:
  assumes "delete_loop sv (c, w) = (Inr False, (c', w'))" "iRequest c = None"
  shows "loop_all (delete_class sv) stats (c, w) = loop_all (delete_class sv) stats (c', w')"
  using loop_all_step [of "delete_class sv" "(c, w)" "(c', w')"] assms by simp

lemma delete_at_None: "delete_at compl nxt sel k c \<Longrightarrow> iRequest c = None"
  by (simp add: delete_at_def)

lemma delete_round:
  fixes c :: "'m delete_compound_ext compound_base_scheme"
  assumes S: "message_services sv M" and c: "delete_at compl ESelectSourceMailboxRW (xs @ ys) 0 c"
    and v: "viewed M w = v" and sel: "selection_in v (xs @ ys)" and ne: "xs \<noteq> []"
    and xs: "\<And>x. x \<in> set xs \<Longrightarrow> folder_of v x = folder_of v (hd xs)"
    and ys: "ys = [] \<or> folder_of v (hd ys) \<noteq> folder_of v (hd xs)"
  shows "\<exists>(c' :: 'm delete_compound_ext compound_base_scheme) w'. (\<forall>stats. loop_all (delete_class sv) (replicate (length (group_requests sv v xs)) KErrNone @ stats) (c, w)
        = loop_all (delete_class sv) stats (c', w'))
    \<and> delete_at compl ESelectSourceMailboxRW ys 0 c' \<and> viewed M w' = without v (set xs)
    \<and> logged M w' = logged M w @ group_requests sv v xs"
proof -
  let ?f = "folder_of v (hd xs)"
  let ?store = "RqStore (CreateSequenceSetLC (sort (List.map (uid_of v) xs))) KImapAddFlags KImapFlagDeleted True"
  have mem: "\<And>x. x \<in> set (xs @ ys) \<Longrightarrow> in_mailbox v x" using sel by (simp add: selection_in_def)
  have hd: "in_mailbox (viewed M w) (hd xs)" "folder_of (viewed M w) (hd xs) = ?f" using mem ne v by simp_all
  have xs': "\<And>x. x \<in> set xs \<Longrightarrow> in_mailbox v x \<and> folder_of v x = ?f" using mem xs by simp
  have ys': "ys = [] \<or> in_mailbox v (hd ys) \<and> folder_of v (hd ys) \<noteq> ?f" using mem ys by auto
  have "delete_at compl ESelectSourceMailboxRW (hd xs # (tl xs @ ys)) 0 c" using c ne by (cases xs) auto
  from delete_at_select [OF S this hd] ne obtain c1 w1 where s1: "delete_loop sv (c, w) = (Inr False, (c1, w1))"
    "iRequest c1 = Some (RqSelect ?f)" "delete_at compl EDeleteMessage (xs @ ys) 0 (c1\<lparr> iRequest := None \<rparr>)"
    "iParentFolderId c1 = ?f" "iParentFolder c1 = Some ?f" "delete_compound.iMessageUids c1 = []"
    "viewed M w1 = v" "logged M w1 = logged M w @ [RqSelect ?f]"
    using v by (cases xs) auto
  from delete_at_store [OF S s1(3) _ _ s1(7) xs' ys'] s1(4-6) obtain c2 w2 where
    s2: "delete_loop sv (c1\<lparr> iRequest := None \<rparr>, w1) = (Inr False, (c2, w2))" "iRequest c2 = Some ?store"
    "delete_at compl (if svUseExpunge sv then EExpunge else ECloseFolder) (xs @ ys) (length xs) (c2\<lparr> iRequest := None \<rparr>)"
    "iParentFolder c2 = Some ?f" "viewed M w2 = marking v (set xs)" "logged M w2 = logged M w1 @ [?store]"
    by auto
  note first = delete_wait [OF s1(1) delete_at_None [OF c] s1(2)]
  note second = delete_wait [OF s2(1) delete_at_None [OF s1(3)] s2(2)]
  have "\<exists>(c3 :: 'm delete_compound_ext compound_base_scheme) w3. (\<forall>stats. loop_all (delete_class sv) (replicate (length (group_requests sv v xs)) KErrNone @ stats) (c, w)
        = loop_all (delete_class sv) stats (c3, w3))
     \<and> delete_at compl EDeleteLocalMessage (xs @ ys) (length xs) c3 \<and> viewed M w3 = marking v (set xs)
     \<and> logged M w3 = logged M w @ group_requests sv v xs"
  proof (cases "svUseExpunge sv")
    case True
    with s2(3) have "delete_at compl EExpunge (xs @ ys) (length xs) (c2\<lparr> iRequest := None \<rparr>)" by simp
    from delete_at_simple(1) [OF S this, of w2] obtain c3 where
      s3: "delete_loop sv (c2\<lparr> iRequest := None \<rparr>, w2) = (Inr False, (c3, issue_world sv RqExpunge w2))"
        "iRequest c3 = Some RqExpunge" "delete_at compl EDeleteLocalMessage (xs @ ys) (length xs) (c3\<lparr> iRequest := None \<rparr>)"
      by auto
    note third = delete_wait [OF s3(1) delete_at_None [OF s2(3)] s3(2)]
    show ?thesis
      by (rule exI [of _ "c3\<lparr> iRequest := None \<rparr>"], rule exI [of _ "issue_world sv RqExpunge w2"])
        (use True s3(3) s2(5,6) s1(8) in \<open>simp add: group_requests_def first second third run_request [OF S]\<close>)
  next
    case False
    with s2(3) have c2: "delete_at compl ECloseFolder (xs @ ys) (length xs) (c2\<lparr> iRequest := None \<rparr>)" by simp
    from delete_at_simple(2) [OF S this, of w2] s2(4) obtain c3 where
      s3: "delete_loop sv (c2\<lparr> iRequest := None \<rparr>, w2) = (Inr False, (c3, issue_world sv RqClose w2))"
        "iRequest c3 = Some RqClose" "delete_at compl ESelectFolderAfterClose (xs @ ys) (length xs) (c3\<lparr> iRequest := None \<rparr>)"
        "iParentFolder (c3\<lparr> iRequest := None \<rparr>) = Some ?f"
      by auto
    from delete_at_simple(3) [OF S s3(3,4), of "issue_world sv RqClose w2"] obtain c4 where
      s4: "delete_loop sv (c3\<lparr> iRequest := None \<rparr>, issue_world sv RqClose w2)
          = (Inr False, (c4, issue_world sv (RqSelect ?f) (issue_world sv RqClose w2)))"
        "iRequest c4 = Some (RqSelect ?f)" "delete_at compl EDeleteLocalMessage (xs @ ys) (length xs) (c4\<lparr> iRequest := None \<rparr>)"
      by auto
    note third = delete_wait [OF s3(1) delete_at_None [OF c2] s3(2)]
      and fourth = delete_wait [OF s4(1) delete_at_None [OF s3(3)] s4(2)]
    show ?thesis
      by (rule exI [of _ "c4\<lparr> iRequest := None \<rparr>"],
          rule exI [of _ "issue_world sv (RqSelect ?f) (issue_world sv RqClose w2)"])
        (use False s4(3) s2(5,6) s1(8) in \<open>simp add: group_requests_def first second third fourth run_request [OF S]\<close>)
  qed
  then obtain c3 :: "'m delete_compound_ext compound_base_scheme" and w3 where
    s3: "\<forall>stats. loop_all (delete_class sv) (replicate (length (group_requests sv v xs)) KErrNone @ stats) (c, w)
        = loop_all (delete_class sv) stats (c3, w3)"
      "delete_at compl EDeleteLocalMessage (xs @ ys) (length xs) c3" "viewed M w3 = marking v (set xs)"
      "logged M w3 = logged M w @ group_requests sv v xs"
    by blast
  from delete_at_local [OF S s3(2,3) sel ne xs'] obtain c4 w4 where
    s4: "delete_loop sv (c3, w3) = (Inr False, (c4, w4))" "delete_at compl ESelectSourceMailboxRW ys 0 c4"
      "viewed M w4 = without v (set xs)" "logged M w4 = logged M w3"
    by auto
  show ?thesis
    using s3 s4 delete_step [OF s4(1) delete_at_None [OF s3(2)]] by auto
qed

section \<open>The whole selection\<close>

lemma group_requests_cong:
  assumes "g \<noteq> []" "\<And>x. x \<in> set g \<Longrightarrow> folder_of v x = folder_of v' x \<and> uid_of v x = uid_of v' x"
  shows "group_requests sv v g = group_requests sv v' g"
proof -
  have "List.map (uid_of v) g = List.map (uid_of v') g" "folder_of v (hd g) = folder_of v' (hd g)"
    using assms by (auto intro!: map_cong)
  then show ?thesis by (simp only: group_requests_def)
qed

lemma delete_requests_without:
  assumes "selection_in v (xs @ ys)"
  shows "delete_requests sv (without v (set xs)) ys = delete_requests sv v ys"
proof -
  note same = selection_without(2,3) [OF assms]
  have "group_requests sv (without v (set xs)) g = group_requests sv v g"
    if "g \<in> set (folder_groups (folder_of v) ys)" for g
    using folder_groups_member [OF that] by (intro group_requests_cong) (auto simp: same)
  moreover have "folder_groups (folder_of (without v (set xs))) ys = folder_groups (folder_of v) ys"
    by (rule folder_groups_cong) (simp add: same)
  ultimately show ?thesis by (simp add: delete_requests_def cong: map_cong)
qed

lemma delete_all:
  fixes c :: "'m delete_compound_ext compound_base_scheme"
  assumes S: "message_services sv M" and c: "delete_at compl ESelectSourceMailboxRW sel 0 c"
    and sel: "selection_in (viewed M w) sel"
  shows "\<exists>c' w'. loop_all (delete_class sv) (replicate (length (delete_requests sv (viewed M w) sel)) KErrNone) (c, w)
        = Some (Inr (c', w'))
    \<and> iCompleted c' = compl @ [KErrNone] \<and> \<not> iReport c' \<and> delete_compound.iSourceSel c' = []
    \<and> viewed M w' = without (viewed M w) (set sel) \<and> logged M w' = logged M w @ delete_requests sv (viewed M w) sel"
  using c sel
proof (induction "length sel" arbitrary: sel c w rule: less_induct)
  case less
  show ?case
  proof (cases "sel = []")
    case True
    let ?c = "c\<lparr> iCurrentStep := ESelectSourceMailboxRW, iNextStep := EFinished \<rparr>"
    have s: "delete_loop sv (c, w) = (Inr False, (?c, w))" "delete_at compl EFinished [] 0 ?c"
      using less.prems(1) True by (simp_all add: delete_at_def delete_eval delete_select_def)
    from delete_at_simple(4) [OF S s(2), of w] obtain c' where c': "delete_loop sv (?c, w) = (Inr True, (c', w))"
      "iCompleted c' = compl @ [KErrNone]" "\<not> iReport c'" "delete_compound.iSourceSel c' = []" by auto
    have "loop_all (delete_class sv) [] (c, w) = Some (Inr (c', w))"
      using delete_step [OF s(1) delete_at_None [OF less.prems(1)], of "[]"]
        loop_all_finish [of "delete_class sv" "(?c, w)" "(c', w)"] c'(1,3) delete_at_None [OF s(2)] by simp
    with c' True show ?thesis by (simp add: delete_requests_def)
  next
    case False
    define v where "v = viewed M w"
    obtain xs ys where g: "sel = xs @ ys" "xs \<noteq> []" "folder_groups (folder_of v) sel = xs # folder_groups (folder_of v) ys"
      "\<And>x. x \<in> set xs \<Longrightarrow> folder_of v x = folder_of v (hd xs)" "ys = [] \<or> folder_of v (hd ys) \<noteq> folder_of v (hd xs)"
      using first_group [OF False, of "folder_of v"] by blast
    have sel: "selection_in v (xs @ ys)" using less.prems(2) g(1) by (simp add: v_def)
    from delete_round [OF S less.prems(1) [unfolded g(1)] v_def [symmetric] sel g(2,4,5)]
    obtain c' :: "'m delete_compound_ext compound_base_scheme" and w' where r:
      "\<forall>stats. loop_all (delete_class sv) (replicate (length (group_requests sv v xs)) KErrNone @ stats) (c, w)
        = loop_all (delete_class sv) stats (c', w')" "delete_at compl ESelectSourceMailboxRW ys 0 c'"
      "viewed M w' = without v (set xs)" "logged M w' = logged M w @ group_requests sv v xs" by blast
    have len: "length ys < length sel" using g(1,2) by simp
    have "selection_in (viewed M w') ys" using selection_without(1) [OF sel] r(3) by simp
    from less.hyps [OF len r(2) this]
    obtain c'' w'' where h: "loop_all (delete_class sv) (replicate (length (delete_requests sv v ys)) KErrNone) (c', w') = Some (Inr (c'', w''))"
      "iCompleted c'' = compl @ [KErrNone]" "\<not> iReport c''" "delete_compound.iSourceSel c'' = []"
      "viewed M w'' = without (without v (set xs)) (set ys)" "logged M w'' = logged M w' @ delete_requests sv v ys"
      by (auto simp: delete_requests_without [OF sel] r(3))
    have reqs: "delete_requests sv v sel = group_requests sv v xs @ delete_requests sv v ys"
      by (simp add: delete_requests_def g(3))
    have "loop_all (delete_class sv) (replicate (length (delete_requests sv v sel)) KErrNone) (c, w) = Some (Inr (c'', w''))"
      using r(1) h(1) by (simp add: reqs replicate_add)
    with h(2-6) r(4) g(1) reqs show ?thesis by (auto simp: v_def)
  qed
qed

section \<open>Starting, and a server that refuses\<close>

definition delete_fresh :: "msv_id list \<Rightarrow> 'm delete_compound_ext compound_base_scheme \<Rightarrow> bool" where
  "delete_fresh sel c \<longleftrightarrow> \<not> iReport c \<and> iRequest c = None \<and> \<not> iStopForMigrate c \<and> iCompleted c = []
     \<and> delete_compound.iSourceSel c = sel \<and> iSelectionToDelete c = 0 \<and> iProgressMsgsDone c = 0 \<and> iProgressMsgsToDo c = length sel"

lemma delete_started:
  assumes "delete_fresh sel c" "vStartOperation (delete_class sv) (c, w) = (Inr (), s)"
  obtains c' where "run_all (delete_class sv) (KErrNone # stats) s = loop_all (delete_class sv) stats (c', w)"
    "delete_at [] ESelectSourceMailboxRW sel 0 c'" "iProgressMsgsDone c' = 0" "iProgressMsgsToDo c' = length sel"
proof -
  let ?c = "c\<lparr> iNextStep := ESelectSourceMailboxRW, iReport := True \<rparr>"
  have s: "s = (?c\<lparr> iRequest := Some RqSelf \<rparr>, w)"
    using assms by (simp add: delete_fresh_def delete_class_def start_operation_def CompoundQueue_def CompleteSelf_def
        SetActive_def next_step_def cbind_def cread_def cset_def creturn_def)
  show thesis
    by (rule that [of "?c\<lparr> iRequest := None \<rparr>"])
      (use assms(1) in \<open>simp_all add: run_all_ok s idle_def delete_fresh_def delete_at_def del: run_all.simps\<close>)
qed

text \<open>A refused selection leaves the messages where they are, and the same folder is selected once more.\<close>

lemma delete_refused_once:
  fixes c :: "'m delete_compound_ext compound_base_scheme"
  assumes S: "message_services sv M" and c: "delete_at compl ESelectSourceMailboxRW (x # sel) 0 c"
    and x: "in_mailbox (viewed M w) x" "folder_of (viewed M w) x = f" "viewed M w x = Some e"
  shows "\<exists>(c' :: 'm delete_compound_ext compound_base_scheme) w'.
      (\<forall>stats. loop_all (delete_class sv) (KErrImapNo # stats) (c, w) = loop_all (delete_class sv) stats (c', w'))
    \<and> delete_at compl (if Suc (iProgressMsgsDone c) < iProgressMsgsToDo c then ESelectSourceMailboxRW else EFinished) (x # sel) 0 c'
    \<and> iProgressErrorCode c' = KErrNotFound \<and> iProgressMsgsDone c' = Suc (iProgressMsgsDone c)
    \<and> iProgressMsgsToDo c' = iProgressMsgsToDo c
    \<and> viewed M w' = (viewed M w)(x \<mapsto> e\<lparr> eError := KErrNotFound \<rparr>) \<and> logged M w' = logged M w @ [RqSelect f]"
proof -
  from delete_at_select [OF S c x(1,2)] obtain c1 w1 where s1: "delete_loop sv (c, w) = (Inr False, (c1, w1))"
    "iRequest c1 = Some (RqSelect f)" "delete_at compl EDeleteMessage (x # sel) 0 (c1\<lparr> iRequest := None \<rparr>)"
    "iCurrentStep c1 = ESelectSourceMailboxRW" "iProgressMsgsDone c1 = iProgressMsgsDone c"
    "iProgressMsgsToDo c1 = iProgressMsgsToDo c" "viewed M w1 = viewed M w" "logged M w1 = logged M w @ [RqSelect f]"
    by blast
  have "eId e = x" using x(1,3) by (elim in_mailboxE) simp
  with run_message_error [OF S, of w1 x e KErrNotFound] x(3) s1(7) obtain w2 where
    w2: "\<forall>c :: 'm delete_compound_ext compound_base_scheme. MessageErrorL sv x KErrNotFound (c, w1) = (Inr (), (c, w2))"
      "viewed M w2 = (viewed M w)(x \<mapsto> e\<lparr> eError := KErrNotFound \<rparr>)" "logged M w2 = logged M w1"
    by (metis (no_types, lifting))
  let ?c = "c1\<lparr> iRequest := None, iProgressMsgsDone := Suc (iProgressMsgsDone c1), iProgressErrorCode := KErrNotFound,
      iNextStep := (if Suc (iProgressMsgsDone c1) < iProgressMsgsToDo c1 then ESelectSourceMailboxRW else EFinished) \<rparr>"
  have "vNegative (delete_class sv) KErrImapNo (idle (c1, w1)) = (Inr KErrNone, (?c, w2))"
    using s1(3,4) w2(1)
    by (simp add: delete_class_def delete_negative_def idle_def delete_at_def cbind_def cread_def cset_def creturn_def
        trap_ignore_def Let_def)
  from loop_all_refused [OF _ _ _ this, of "(c, w)"] s1(1,2) delete_at_None [OF c]
  have "loop_all (delete_class sv) (KErrImapNo # stats) (c, w) = loop_all (delete_class sv) stats (?c, w2)" for stats
    by simp
  with s1 w2 show ?thesis
    by (intro exI [of _ ?c] exI [of _ w2]) (simp add: delete_at_def)
qed

lemma delete_finish:
  assumes S: "message_services sv M" and c: "delete_at compl EFinished sel 0 c"
  shows "\<exists>c'. loop_all (delete_class sv) [] (c, w) = Some (Inr (c', w)) \<and> iCompleted c' = compl @ [KErrNone]
    \<and> \<not> iReport c' \<and> delete_compound.iSourceSel c' = sel \<and> iProgressErrorCode c' = iProgressErrorCode c
    \<and> iProgressMsgsDone c' = iProgressMsgsDone c"
  using delete_at_simple(4) [OF S c, of w] loop_all_finish [of "delete_class sv" "(c, w)"] delete_at_None [OF c]
  by fastforce

lemma delete_refused:
  fixes c :: "'m delete_compound_ext compound_base_scheme"
  assumes S: "message_services sv M" and c: "delete_at compl ESelectSourceMailboxRW (x # sel) 0 c"
    and x: "in_mailbox (viewed M w) x" "folder_of (viewed M w) x = f" "viewed M w x = Some e"
    and n: "iProgressMsgsToDo c = Suc n + iProgressMsgsDone c"
  shows "\<exists>c' w'. loop_all (delete_class sv) (replicate (Suc n) KErrImapNo) (c, w) = Some (Inr (c', w'))
    \<and> iCompleted c' = compl @ [KErrNone] \<and> iProgressErrorCode c' = KErrNotFound
    \<and> iProgressMsgsDone c' = Suc n + iProgressMsgsDone c \<and> delete_compound.iSourceSel c' = x # sel
    \<and> viewed M w' = (viewed M w)(x \<mapsto> e\<lparr> eError := KErrNotFound \<rparr>)
    \<and> logged M w' = logged M w @ replicate (Suc n) (RqSelect f)"
  using c x n
proof (induction n arbitrary: c w e)
  case 0
  from delete_refused_once [OF S "0.prems"(1-4)] "0.prems"(5)
  obtain c1 :: "'m delete_compound_ext compound_base_scheme" and w1 where
    "loop_all (delete_class sv) [KErrImapNo] (c, w) = loop_all (delete_class sv) [] (c1, w1)"
    "delete_at compl EFinished (x # sel) 0 c1" "iProgressErrorCode c1 = KErrNotFound"
    "iProgressMsgsDone c1 = Suc (iProgressMsgsDone c)"
    "viewed M w1 = (viewed M w)(x \<mapsto> e\<lparr> eError := KErrNotFound \<rparr>)" "logged M w1 = logged M w @ [RqSelect f]"
    by auto
  with delete_finish [OF S this(2), of w1] show ?case by (auto simp: fun_upd_def)
next
  case (Suc n)
  let ?e = "e\<lparr> eError := KErrNotFound \<rparr>"
  from delete_refused_once [OF S Suc.prems(1-4)] Suc.prems(5)
  obtain c1 :: "'m delete_compound_ext compound_base_scheme" and w1 where
    s: "\<forall>stats. loop_all (delete_class sv) (KErrImapNo # stats) (c, w) = loop_all (delete_class sv) stats (c1, w1)"
    "delete_at compl ESelectSourceMailboxRW (x # sel) 0 c1"
    "iProgressMsgsDone c1 = Suc (iProgressMsgsDone c)" "iProgressMsgsToDo c1 = iProgressMsgsToDo c"
    "viewed M w1 = (viewed M w)(x \<mapsto> ?e)" "logged M w1 = logged M w @ [RqSelect f]"
    by auto
  have "in_mailbox (viewed M w1) x" "folder_of (viewed M w1) x = f" "viewed M w1 x = Some ?e"
    using Suc.prems(2-4) s(5) by (auto simp: in_mailbox_def folder_of_def split: option.splits)
  from Suc.IH [OF s(2) this] s(3,4) Suc.prems(5) obtain c' w' where
    "loop_all (delete_class sv) (replicate (Suc n) KErrImapNo) (c1, w1) = Some (Inr (c', w'))"
    "iCompleted c' = compl @ [KErrNone]" "iProgressErrorCode c' = KErrNotFound"
    "iProgressMsgsDone c' = Suc n + iProgressMsgsDone c1" "delete_compound.iSourceSel c' = x # sel"
    "viewed M w' = (viewed M w1)(x \<mapsto> ?e\<lparr> eError := KErrNotFound \<rparr>)"
    "logged M w' = logged M w1 @ replicate (Suc n) (RqSelect f)"
    by (auto simp: fun_upd_def)
  with s show ?case by (cases e) (auto simp: replicate_app_Cons_same)
qed

text \<open>
  Runs of \<open>CImapCompoundCopyWithinService\<close> that move messages between folders of the server, against a
  message store and a server that keep their contract.
\<close>

section \<open>The loops over the selection\<close>

type_synonym 'm move = "'m copy_within_compound_ext compound_base_scheme"

lemma run_copy_uids:
  fixes w :: 'w
  assumes S: "message_services sv M"
    and xs: "\<And>x. x \<in> set xs \<Longrightarrow> in_mailbox (viewed M w) x \<and> folder_of (viewed M w) x = f"
    and ys: "ys = [] \<or> in_mailbox (viewed M w) (hd ys) \<and> folder_of (viewed M w) (hd ys) \<noteq> f"
  shows "\<exists>w'. (\<forall>c :: 'm move. copy_uids sv f (xs @ ys) (c, w)
      = (Inr (), (c\<lparr> iMessageUids := iMessageUids c @ List.map (uid_of (viewed M w)) xs,
                     iMsgsCopied := iMsgsCopied c + length xs \<rparr>, w')))
    \<and> viewed M w' = viewed M w \<and> logged M w' = logged M w"
  using xs ys
proof (induction xs arbitrary: w)
  case Nil
  show ?case
  proof (cases ys)
    case (Cons y zs)
    with Nil have "in_mailbox (viewed M w) y" "folder_of (viewed M w) y \<noteq> f" by simp_all
    then obtain e where e: "viewed M w y = Some e" "eParent e \<noteq> f" by (metis in_mailboxE)
    note y = run_set_entry [OF S e(1)]
    show ?thesis using Cons e(2) by (simp add: y run_entry cbind_def creturn_def)
  qed (auto simp: creturn_def)
next
  case (Cons x xs)
  obtain e where e: "viewed M w x = Some e" "eParent e = f" "uid_of (viewed M w) x = eUid e"
    using Cons.prems(1) [of x] by (auto elim!: in_mailboxE)
  note x = run_set_entry [OF S e(1)]
  from Cons.IH [of "set_world sv x w"] Cons.prems obtain w' where
    "\<forall>c :: 'm move. copy_uids sv f (xs @ ys) (c, set_world sv x w)
      = (Inr (), (c\<lparr> iMessageUids := iMessageUids c @ List.map (uid_of (viewed M w)) xs,
                     iMsgsCopied := iMsgsCopied c + length xs \<rparr>, w'))"
    "viewed M w' = viewed M w" "logged M w' = logged M w"
    by (auto simp: x)
  then show ?case using e by (simp add: x run_entry cbind_def cset_def)
qed

lemma run_mark_deleted:
  assumes S: "message_services sv M"
    and xs: "\<And>x. x \<in> set xs \<Longrightarrow> in_mailbox v x"
    and v: "viewed M w = marking v X"
  shows "\<exists>w'. (\<forall>c :: 'm compound_base_scheme. mark_deleted sv (length xs) (xs @ ys) (c, w) = (Inr (), (c, w')))
    \<and> viewed M w' = marking v (X \<union> set xs) \<and> logged M w' = logged M w"
  using xs v
proof (induction xs arbitrary: w X)
  case (Cons x xs)
  obtain e where e: "v x = Some e" "eId e = x" using Cons.prems(1) [of x] by (auto elim!: in_mailboxE)
  then obtain e' where e': "viewed M w x = Some e'" "eId e' = x"
    "e'\<lparr> eDeletedFlag := True \<rparr> = e\<lparr> eDeletedFlag := True \<rparr>"
    using Cons.prems(2) by (metis marking_Some)
  let ?w = "change_world sv (e'\<lparr> eDeletedFlag := True \<rparr>) (set_world sv x w)"
  note x = run_set_entry [OF S e'(1)]
  have "eId (e'\<lparr> eDeletedFlag := True \<rparr>) = eId (svEntry sv (set_world sv x w))" by (simp add: x)
  note y = run_change_entry [OF S this]
  have "viewed M ?w = (marking v X)(x \<mapsto> e'\<lparr> eDeletedFlag := True \<rparr>)"
    using Cons.prems(2) e(2) e'(2) by (simp add: y x)
  then have "viewed M ?w = marking v (insert x X)"
    using marking_insert [of v x e X, OF e(1)] e'(3) by simp
  from Cons.IH [OF _ this] Cons.prems(1) obtain w' where
    "\<forall>c :: 'm compound_base_scheme. mark_deleted sv (length xs) (xs @ ys) (c, ?w) = (Inr (), (c, w'))"
    "viewed M w' = marking v (insert x X \<union> set xs)" "logged M w' = logged M ?w"
    by auto
  then show ?case by (simp add: x y run_entry cbind_def cset_def)
qed (auto simp: creturn_def)

section \<open>The steps\<close>

text \<open>The operation stands at a step, with nothing outstanding; \<open>n\<close> messages are done and \<open>k\<close> copied.\<close>

definition move_at ::
  "symbian_error list \<Rightarrow> msv_id \<Rightarrow> compound_step \<Rightarrow> msv_id list \<Rightarrow> nat \<Rightarrow> nat \<Rightarrow> 'm move \<Rightarrow> bool" where
  "move_at compl dest nxt sel n k c \<longleftrightarrow> iReport c \<and> iRequest c = None \<and> \<not> iStopForMigrate c \<and> iCompleted c = compl
     \<and> iNextStep c = nxt \<and> iSourceSel c = sel \<and> iMsgsDone c = n \<and> iMsgsCopied c = k \<and> iIsMove c
     \<and> iDestinationFolder c = Some dest"

definition source_known :: "'m move \<Rightarrow> bool" where
  "source_known c \<longleftrightarrow> iSourceFolderId c = 0 \<or> iSourceFolder c = Some (iSourceFolderId c)"

definition source_is :: "msv_id \<Rightarrow> 'm move \<Rightarrow> bool" where
  "source_is f c \<longleftrightarrow> iSourceFolderId c = f \<and> iSourceFolder c = Some f"

lemmas move_eval = copy_within_loop_def SetCurrentStep_def go_on_def next_step_def progress_def SetActive_def
  cbind_def creturn_def cread_def cset_def cleave_def on_folder_object_def

lemma move_class_loop [simp]: "vDoRunLoopL (copy_within_class sv) = copy_within_loop sv"
  by (simp add: copy_within_class_def)

lemma run_set_source:
  fixes c :: "'m move"
  assumes S: "message_services sv M" and k: "source_known c" and f0: "f \<noteq> 0"
    and x: "in_mailbox (viewed M w) x" "folder_of (viewed M w) x = f"
  shows "\<exists>w'. SetSourceFolderL sv x (c, w) = (Inr (), (c\<lparr> iSourceFolderId := f, iSourceFolder := Some f \<rparr>, w'))
    \<and> viewed M w' = viewed M w \<and> logged M w' = logged M w"
proof -
  note find = run_find_folder [OF S x]
  obtain g where g: "viewed M (find_world sv x f w) f = Some g" "eMailbox g" using x find by (metis in_mailboxE)
  note folder = run_get_folder [OF S g]
  show ?thesis
  proof (cases "iSourceFolderId c = f")
    case True
    with k f0 have "c\<lparr> iSourceFolderId := f, iSourceFolder := Some f \<rparr> = c" by (simp add: source_known_def)
    with True show ?thesis by (simp add: SetSourceFolderL_def cbind_def cread_def creturn_def find)
  next
    case False
    with f0 show ?thesis by (simp add: SetSourceFolderL_def cbind_def cread_def cset_def find folder)
  qed
qed

lemma move_at_source:
  fixes c :: "'m move"
  assumes S: "message_services sv M" and c: "move_at compl dest ESetSourceMailbox (prev @ x # sel) n (length prev) c"
    and k: "source_known c" and f0: "f \<noteq> 0"
    and x: "in_mailbox (viewed M w) x" "folder_of (viewed M w) x = f"
  shows "\<exists>(c' :: 'm move) w'. copy_within_loop sv (c, w) = (Inr False, (c', w'))
    \<and> move_at compl dest ESelectSourceMailboxRW (x # sel) (n + length prev) 0 c' \<and> source_is f c'
    \<and> viewed M w' = viewed M w \<and> logged M w' = logged M w"
proof -
  let ?c = "c\<lparr> iCurrentStep := ESetSourceMailbox, iMsgsDone := n + length prev, iSourceSel := x # sel, iMsgsCopied := 0,
      iCurrentMsgId := x \<rparr>"
  have "source_known ?c" using k by (simp add: source_known_def)
  from run_set_source [OF S this f0 x] obtain w' where
    w': "SetSourceFolderL sv x (?c, w) = (Inr (), (?c\<lparr> iSourceFolderId := f, iSourceFolder := Some f \<rparr>, w'))"
      "viewed M w' = viewed M w" "logged M w' = logged M w" by blast
  show ?thesis using c w' f0
    by (simp add: move_at_def source_is_def move_eval copy_within_source_def increment_progress_def)
qed

definition uid_set :: "store_view \<Rightarrow> msv_id list \<Rightarrow> string8" where
  "uid_set v g = CreateSequenceSetLC (sort (List.map (uid_of v) g))"

text \<open>The steps that only make a request.\<close>

lemma move_at_requests:
  assumes S: "message_services sv M" and src: "source_is f c"
  shows "move_at compl dest ESelectSourceMailboxRW sel n k c \<Longrightarrow>
      \<exists>c'. copy_within_loop sv (c, w) = (Inr False, (c', issue_world sv (RqSelect f) w)) \<and> iRequest c' = Some (RqSelect f)
        \<and> move_at compl dest ECopyMessage sel n k (c'\<lparr> iRequest := None \<rparr>) \<and> source_is f c'"
    and "move_at compl dest EExpunge sel n k c \<Longrightarrow>
      \<exists>c'. copy_within_loop sv (c, w) = (Inr False, (c', issue_world sv RqExpunge w)) \<and> iRequest c' = Some RqExpunge
        \<and> move_at compl dest EDeleteLocalMessage sel n k (c'\<lparr> iRequest := None \<rparr>) \<and> source_is f c'"
    and "move_at compl dest ECloseFolder sel n k c \<Longrightarrow>
      \<exists>c'. copy_within_loop sv (c, w) = (Inr False, (c', issue_world sv RqClose w)) \<and> iRequest c' = Some RqClose
        \<and> move_at compl dest ESelectFolderAfterClose sel n k (c'\<lparr> iRequest := None \<rparr>) \<and> source_is f c'"
    and "move_at compl dest ESelectFolderAfterClose sel n k c \<Longrightarrow>
      \<exists>c'. copy_within_loop sv (c, w) = (Inr False, (c', issue_world sv (RqSelect f) w)) \<and> iRequest c' = Some (RqSelect f)
        \<and> move_at compl dest EDeleteLocalMessage sel n k (c'\<lparr> iRequest := None \<rparr>) \<and> source_is f c'"
  using src by (auto simp: move_at_def source_is_def move_eval run_request [OF S])

lemma move_at_copy:
  fixes c :: "'m move"
  assumes S: "message_services sv M" and c: "move_at compl dest ECopyMessage (xs @ ys) n 0 c" "source_is f c"
    and v: "viewed M w = v"
    and xs: "\<And>x. x \<in> set xs \<Longrightarrow> in_mailbox v x \<and> folder_of v x = f"
    and ys: "ys = [] \<or> in_mailbox v (hd ys) \<and> folder_of v (hd ys) \<noteq> f"
    and dest: "v dest = Some d" "eMailbox d"
  defines "r \<equiv> RqCopy (uid_set v xs) (pathed M dest)"
  shows "\<exists>(c' :: 'm move) w'. copy_within_loop sv (c, w) = (Inr False, (c', w')) \<and> iRequest c' = Some r
    \<and> move_at compl dest EDeleteMessage (xs @ ys) n (length xs) (c'\<lparr> iRequest := None \<rparr>) \<and> source_is f c'
    \<and> iUidSeq c' = uid_set v xs \<and> viewed M w' = v \<and> logged M w' = logged M w @ [r]"
proof -
  from xs ys v have "\<exists>w'. (\<forall>c :: 'm move. copy_uids sv f (xs @ ys) (c, w)
      = (Inr (), (c\<lparr> iMessageUids := iMessageUids c @ List.map (uid_of (viewed M w)) xs,
                     iMsgsCopied := iMsgsCopied c + length xs \<rparr>, w')))
    \<and> viewed M w' = viewed M w \<and> logged M w' = logged M w"
    by (intro run_copy_uids [OF S]) simp_all
  then obtain w' where w': "\<forall>c :: 'm move. copy_uids sv f (xs @ ys) (c, w)
      = (Inr (), (c\<lparr> iMessageUids := iMessageUids c @ List.map (uid_of v) xs,
                     iMsgsCopied := iMsgsCopied c + length xs \<rparr>, w'))" "viewed M w' = v" "logged M w' = logged M w"
    using v by auto
  have "viewed M w' dest = Some d" using w'(2) dest(1) by simp
  note path = run_full_path [OF S this dest(2)]
  show ?thesis using c w'
    by (simp add: move_at_def source_is_def move_eval CopyMessagesL_def path run_request [OF S] Let_def r_def uid_set_def)
qed

lemma move_at_mark:
  fixes c :: "'m move"
  assumes S: "message_services sv M" and c: "move_at compl dest EDeleteMessage (xs @ ys) n (length xs) c" "source_is f c"
    and v: "viewed M w = v" and xs: "\<And>x. x \<in> set xs \<Longrightarrow> in_mailbox v x"
  defines "r \<equiv> RqStore (iUidSeq c) KMessageDataItem KDeleteValue True"
  shows "\<exists>(c' :: 'm move) w'. copy_within_loop sv (c, w) = (Inr False, (c', w')) \<and> iRequest c' = Some r
    \<and> move_at compl dest (if svUseExpunge sv then EExpunge else ECloseFolder) (xs @ ys) n (length xs) (c'\<lparr> iRequest := None \<rparr>)
    \<and> source_is f c' \<and> viewed M w' = marking v (set xs) \<and> logged M w' = logged M w @ [r]"
proof -
  have "viewed M w = marking v {}" using v by simp
  with xs have "\<exists>w'. (\<forall>c :: 'm move. mark_deleted sv (length xs) (xs @ ys) (c, w) = (Inr (), (c, w')))
    \<and> viewed M w' = marking v ({} \<union> set xs) \<and> logged M w' = logged M w"
    by (intro run_mark_deleted [OF S]) simp_all
  then obtain w' where w': "\<forall>c :: 'm move. mark_deleted sv (length xs) (xs @ ys) (c, w) = (Inr (), (c, w'))"
    "viewed M w' = marking v (set xs)" "logged M w' = logged M w"
    by auto
  show ?thesis using c w'
    by (simp add: move_at_def source_is_def move_eval MarkMessageForDeletesL_def run_request [OF S] Let_def r_def)
qed

text \<open>What is deleted locally is counted from the messages of the folders before.\<close>

lemma move_at_local:
  fixes c :: "'m move"
  assumes S: "message_services sv M" and c: "move_at compl dest EDeleteLocalMessage (xs @ ys) n (length xs) c" "source_is f c"
    and v: "viewed M w = marking v X" and sel: "selection_in v (xs @ ys)"
    and xs: "\<And>x. x \<in> set xs \<Longrightarrow> in_mailbox v x \<and> folder_of v x = f" and ne: "xs \<noteq> []"
  shows "\<exists>(c' :: 'm move) w'. copy_within_loop sv (c, w) = (Inr False, (c', w'))
    \<and> move_at compl dest ESetSourceMailbox (xs @ ys) n (length xs) c' \<and> source_known c'
    \<and> viewed M w' = without (marking v X) (set (take (length xs - n) xs)) \<and> logged M w' = logged M w"
proof -
  let ?zs = "take (length xs - n) xs" let ?k = "length xs - n"
  have split: "xs @ ys = ?zs @ drop ?k xs @ ys" by simp
  have inv: "in_mailbox (viewed M w) y \<and> folder_of (viewed M w) y = f" if "y \<in> set xs" for y
    using xs [OF that] v by simp
  then have "in_mailbox (viewed M w) (hd xs) \<and> folder_of (viewed M w) (hd xs) = f" using ne by simp
  then obtain g where g: "viewed M w f = Some g" "eId g = f" by (metis in_mailboxE)
  note s = run_set_entry [OF S g(1)]
  have "\<exists>e. viewed M (set_world sv f w) y = Some e \<and> eParent e = eId (svEntry sv (set_world sv f w))" if "y \<in> set ?zs" for y
    using inv [OF in_set_takeD [OF that]] by (metis g(2) in_mailboxE s(2) s(3))
  moreover have "distinct ?zs" using sel by (simp add: selection_in_def)
  ultimately have "\<exists>w'. (\<forall>c :: 'm move. delete_entries sv (length ?zs) (?zs @ drop ?k xs @ ys) (c, set_world sv f w) = (Inr (), (c, w')))
      \<and> viewed M w' = without (viewed M (set_world sv f w)) (set ?zs) \<and> logged M w' = logged M (set_world sv f w)"
    by (intro run_delete_entries [OF S])
  then obtain w' where w': "\<forall>c :: 'm move. delete_entries sv ?k (xs @ ys) (c, set_world sv f w) = (Inr (), (c, w'))"
    "viewed M w' = without (viewed M (set_world sv f w)) (set ?zs)" "logged M w' = logged M (set_world sv f w)"
    using split by auto
  show ?thesis using c w' v
    by (simp add: move_at_def source_is_def source_known_def move_eval DeleteMovedMessagesL_def s)
qed

section \<open>One folder\<close>

definition move_requests :: "'w services \<Rightarrow> 'w store_model \<Rightarrow> msv_id \<Rightarrow> store_view \<Rightarrow> msv_id list \<Rightarrow> service_request list" where
  "move_requests sv M dest v g =
     [RqSelect (folder_of v (hd g)), RqCopy (uid_set v g) (pathed M dest),
      RqStore (uid_set v g) KMessageDataItem KDeleteValue True]
     @ (if svUseExpunge sv then [RqExpunge] else [RqClose, RqSelect (folder_of v (hd g))])"

lemma move_wait:
  assumes "copy_within_loop sv (c, w) = (Inr False, (c', w'))" "move_at compl dest nxt sel n k c" "iRequest c' = Some r"
  shows "loop_all (copy_within_class sv) (KErrNone # stats) (c, w)
    = loop_all (copy_within_class sv) stats (c'\<lparr> iRequest := None \<rparr>, w')"
  using loop_all_wait [of "copy_within_class sv" "(c, w)" "(c', w')"] assms by (simp add: idle_def move_at_def)

lemma move_step:
  assumes "copy_within_loop sv (c, w) = (Inr False, (c', w'))" "move_at compl dest nxt sel n k c"
  shows "loop_all (copy_within_class sv) stats (c, w) = loop_all (copy_within_class sv) stats (c', w')"
  using loop_all_step [of "copy_within_class sv" "(c, w)" "(c', w')"] assms by (simp add: move_at_def)

lemma source_is_idle [simp]: "source_is f (c\<lparr> iRequest := None \<rparr>) = source_is f c"
  by (simp add: source_is_def)

text \<open>From the marking of the messages to the local deletion.\<close>

lemma move_expunge:
  fixes c :: "'m move"
  assumes S: "message_services sv M" and src: "source_is f c"
    and c: "move_at compl dest (if svUseExpunge sv then EExpunge else ECloseFolder) sel n k c"
  defines "reqs \<equiv> if svUseExpunge sv then [RqExpunge] else [RqClose, RqSelect f]"
  shows "\<exists>(c' :: 'm move) w'. (\<forall>stats. loop_all (copy_within_class sv) (replicate (length reqs) KErrNone @ stats) (c, w)
        = loop_all (copy_within_class sv) stats (c', w'))
    \<and> move_at compl dest EDeleteLocalMessage sel n k c' \<and> source_is f c' \<and> viewed M w' = viewed M w
    \<and> logged M w' = logged M w @ reqs"
proof (cases "svUseExpunge sv")
  case True
  with c have e: "move_at compl dest EExpunge sel n k c" by simp
  from move_at_requests(2) [OF S src e, of w] obtain c' where
    "copy_within_loop sv (c, w) = (Inr False, (c', issue_world sv RqExpunge w))" "iRequest c' = Some RqExpunge"
    "move_at compl dest EDeleteLocalMessage sel n k (c'\<lparr> iRequest := None \<rparr>)" "source_is f c'" by blast
  with move_wait [OF this(1) e this(2)] True show ?thesis
    by (intro exI [of _ "c'\<lparr> iRequest := None \<rparr>"] exI [of _ "issue_world sv RqExpunge w"])
      (simp add: reqs_def run_request [OF S])
next
  case False
  with c have e: "move_at compl dest ECloseFolder sel n k c" by simp
  from move_at_requests(3) [OF S src e, of w] obtain c1 where
    s1: "copy_within_loop sv (c, w) = (Inr False, (c1, issue_world sv RqClose w))" "iRequest c1 = Some RqClose"
      "move_at compl dest ESelectFolderAfterClose sel n k (c1\<lparr> iRequest := None \<rparr>)" "source_is f (c1\<lparr> iRequest := None \<rparr>)"
    by auto
  let ?w = "issue_world sv RqClose w"
  from move_at_requests(4) [OF S s1(4,3), of ?w] obtain c2 where
    s2: "copy_within_loop sv (c1\<lparr> iRequest := None \<rparr>, ?w) = (Inr False, (c2, issue_world sv (RqSelect f) ?w))"
      "iRequest c2 = Some (RqSelect f)" "move_at compl dest EDeleteLocalMessage sel n k (c2\<lparr> iRequest := None \<rparr>)"
      "source_is f c2"
    by blast
  show ?thesis using move_wait [OF s1(1) e s1(2)] move_wait [OF s2(1) s1(3) s2(2)] s2(3,4) False
    by (intro exI [of _ "c2\<lparr> iRequest := None \<rparr>"] exI [of _ "issue_world sv (RqSelect f) ?w"])
      (simp add: reqs_def run_request [OF S])
qed

lemma move_round:
  fixes c :: "'m move"
  assumes S: "message_services sv M"
    and c: "move_at compl dest ESetSourceMailbox (prev @ xs @ ys) n (length prev) c" "source_known c"
    and v: "viewed M w = v" and sel: "selection_in v (xs @ ys)" and ne: "xs \<noteq> []"
    and f0: "\<And>x. x \<in> set xs \<Longrightarrow> folder_of v x \<noteq> 0"
    and xs: "\<And>x. x \<in> set xs \<Longrightarrow> folder_of v x = folder_of v (hd xs)"
    and ys: "ys = [] \<or> folder_of v (hd ys) \<noteq> folder_of v (hd xs)"
    and dest: "v dest = Some d" "eMailbox d"
  shows "\<exists>(c' :: 'm move) w'.
      (\<forall>stats. loop_all (copy_within_class sv) (replicate (length (move_requests sv M dest v xs)) KErrNone @ stats) (c, w)
        = loop_all (copy_within_class sv) stats (c', w'))
    \<and> move_at compl dest ESetSourceMailbox (xs @ ys) (n + length prev) (length xs) c' \<and> source_known c'
    \<and> viewed M w' = without (marking v (set xs)) (set (take (length xs - (n + length prev)) xs))
    \<and> logged M w' = logged M w @ move_requests sv M dest v xs"
proof -
  let ?f = "folder_of v (hd xs)" let ?n = "n + length prev"
  have mem: "\<And>x. x \<in> set (xs @ ys) \<Longrightarrow> in_mailbox v x" using sel by (simp add: selection_in_def)
  have hd: "in_mailbox (viewed M w) (hd xs)" "folder_of (viewed M w) (hd xs) = ?f" using mem ne v by simp_all
  have xs': "\<And>x. x \<in> set xs \<Longrightarrow> in_mailbox v x \<and> folder_of v x = ?f" using mem xs by simp
  have ys': "ys = [] \<or> in_mailbox v (hd ys) \<and> folder_of v (hd ys) \<noteq> ?f" using mem ys by auto
  have "?f \<noteq> 0" using f0 ne by simp
  have c': "move_at compl dest ESetSourceMailbox (prev @ hd xs # (tl xs @ ys)) n (length prev) c"
    using c(1) ne by (cases xs) auto
  from move_at_source [OF S this c(2) \<open>?f \<noteq> 0\<close> hd] ne obtain c1 :: "'m move" and w1 where
    s1: "copy_within_loop sv (c, w) = (Inr False, (c1, w1))"
      "move_at compl dest ESelectSourceMailboxRW (xs @ ys) ?n 0 c1" "source_is ?f c1" "viewed M w1 = v" "logged M w1 = logged M w"
    using v by (cases xs) auto
  let ?w1 = "issue_world sv (RqSelect ?f) w1"
  from move_at_requests(1) [OF S s1(3,2), of w1] obtain c2 where
    s2: "copy_within_loop sv (c1, w1) = (Inr False, (c2, ?w1))" "iRequest c2 = Some (RqSelect ?f)"
      "move_at compl dest ECopyMessage (xs @ ys) ?n 0 (c2\<lparr> iRequest := None \<rparr>)" "source_is ?f (c2\<lparr> iRequest := None \<rparr>)"
    by auto
  have "viewed M ?w1 = v" using s1(4) by (simp add: run_request [OF S])
  from move_at_copy [OF S s2(3,4) this xs' ys' dest] obtain c3 :: "'m move" and w3 where
    s3: "copy_within_loop sv (c2\<lparr> iRequest := None \<rparr>, ?w1) = (Inr False, (c3, w3))"
      "iRequest c3 = Some (RqCopy (uid_set v xs) (pathed M dest))"
      "move_at compl dest EDeleteMessage (xs @ ys) ?n (length xs) (c3\<lparr> iRequest := None \<rparr>)"
      "source_is ?f (c3\<lparr> iRequest := None \<rparr>)" "iUidSeq (c3\<lparr> iRequest := None \<rparr>) = uid_set v xs"
      "viewed M w3 = v" "logged M w3 = logged M ?w1 @ [RqCopy (uid_set v xs) (pathed M dest)]"
    by auto
  from move_at_mark [OF S s3(3,4,6)] mem s3(5) obtain c4 :: "'m move" and w4 where
    s4: "copy_within_loop sv (c3\<lparr> iRequest := None \<rparr>, w3) = (Inr False, (c4, w4))"
      "iRequest c4 = Some (RqStore (uid_set v xs) KMessageDataItem KDeleteValue True)"
      "move_at compl dest (if svUseExpunge sv then EExpunge else ECloseFolder) (xs @ ys) ?n (length xs) (c4\<lparr> iRequest := None \<rparr>)"
      "source_is ?f (c4\<lparr> iRequest := None \<rparr>)" "viewed M w4 = marking v (set xs)"
      "logged M w4 = logged M w3 @ [RqStore (uid_set v xs) KMessageDataItem KDeleteValue True]"
    by auto
  let ?reqs = "if svUseExpunge sv then [RqExpunge] else [RqClose, RqSelect ?f]"
  from move_expunge [OF S s4(4,3), of w4] obtain c5 :: "'m move" and w5 where
    s5: "\<forall>stats. loop_all (copy_within_class sv) (replicate (length ?reqs) KErrNone @ stats) (c4\<lparr> iRequest := None \<rparr>, w4)
        = loop_all (copy_within_class sv) stats (c5, w5)"
      "move_at compl dest EDeleteLocalMessage (xs @ ys) ?n (length xs) c5" "source_is ?f c5"
      "viewed M w5 = marking v (set xs)" "logged M w5 = logged M w4 @ ?reqs"
    using s4(5) by auto
  from move_at_local [OF S s5(2,3,4) sel xs' ne] obtain c6 :: "'m move" and w6 where
    s6: "copy_within_loop sv (c5, w5) = (Inr False, (c6, w6))"
      "move_at compl dest ESetSourceMailbox (xs @ ys) ?n (length xs) c6" "source_known c6"
      "viewed M w6 = without (marking v (set xs)) (set (take (length xs - ?n) xs))" "logged M w6 = logged M w5"
    by blast
  have "loop_all (copy_within_class sv) (replicate (length (move_requests sv M dest v xs)) KErrNone @ stats) (c, w)
      = loop_all (copy_within_class sv) stats (c6, w6)" for stats
  proof -
    have len: "replicate (length (move_requests sv M dest v xs)) KErrNone @ stats
        = KErrNone # KErrNone # KErrNone # (replicate (length ?reqs) KErrNone @ stats)"
      by (simp add: move_requests_def)
    show ?thesis
      unfolding len move_step [OF s1(1) c(1)] move_wait [OF s2(1) s1(2) s2(2)] move_wait [OF s3(1) s2(3) s3(2)]
        move_wait [OF s4(1) s3(3) s4(2)] s5(1) [rule_format] move_step [OF s6(1) s5(2)] ..
  qed
  moreover have "logged M w6 = logged M w @ move_requests sv M dest v xs"
    using s6(5) s5(5) s4(6) s3(7) s1(5) by (simp add: move_requests_def run_request [OF S])
  ultimately show ?thesis using s6(2-4) by blast
qed

section \<open>The whole selection\<close>

text \<open>The messages deleted from the local store: of each folder, as many of the first ones as it has messages more
  than were moved before.\<close>

fun locally_deleted :: "nat \<Rightarrow> msv_id list list \<Rightarrow> msv_id list" where
  "locally_deleted n [] = []"
| "locally_deleted n (g # gs) = take (length g - n) g @ locally_deleted (n + length g) gs"

definition all_move_requests :: "'w services \<Rightarrow> 'w store_model \<Rightarrow> msv_id \<Rightarrow> store_view \<Rightarrow> msv_id list \<Rightarrow> service_request list" where
  "all_move_requests sv M dest v sel = concat (List.map (move_requests sv M dest v) (folder_groups (folder_of v) sel))"

definition destination_requests :: "msv_id \<Rightarrow> bool \<Rightarrow> service_request list" where
  "destination_requests dest changed = RqExamine dest # (if changed then [RqSynchroniseFolder dest] else [])"

lemma move_at_end:
  fixes c :: "'m move"
  assumes S: "message_services sv M"
  shows "move_at compl dest ESetSourceMailbox prev n (length prev) c \<Longrightarrow>
      \<exists>c' :: 'm move. copy_within_loop sv (c, w) = (Inr False, (c', w))
        \<and> move_at compl dest ESelectDestinationMailboxRO [] (n + length prev) 0 c'"
    and "move_at compl dest ESelectDestinationMailboxRO [] n k c \<Longrightarrow>
      \<exists>c' :: 'm move. copy_within_loop sv (c, w) = (Inr False, (c', issue_world sv (RqExamine dest) w))
        \<and> iRequest c' = Some (RqExamine dest) \<and> move_at compl dest ENewSyncFolder [] n k (c'\<lparr> iRequest := None \<rparr>)"
    and "move_at compl dest ENewSyncFolder [] n k c \<Longrightarrow> svChanged sv dest w \<Longrightarrow>
      \<exists>c' :: 'm move. copy_within_loop sv (c, w) = (Inr False, (c', issue_world sv (RqSynchroniseFolder dest) w))
        \<and> iRequest c' = Some (RqSynchroniseFolder dest) \<and> move_at compl dest EFinished [] n k (c'\<lparr> iRequest := None \<rparr>)"
    and "move_at compl dest ENewSyncFolder [] n k c \<Longrightarrow> \<not> svChanged sv dest w \<Longrightarrow>
      \<exists>c' :: 'm move. copy_within_loop sv (c, w) = (Inr False, (c', w)) \<and> move_at compl dest EFinished [] n k c'"
    and "move_at compl dest EFinished [] n k c \<Longrightarrow>
      \<exists>c' :: 'm move. loop_all (copy_within_class sv) [] (c, w) = Some (Inr (c', w)) \<and> iCompleted c' = compl @ [KErrNone]
        \<and> \<not> iReport c' \<and> iSourceSel c' = []"
  by (auto simp: move_at_def move_eval copy_within_source_def increment_progress_def run_request [OF S] cask_def await_def
      finish_def CompoundComplete_def loop_all_finish)

lemma move_finish:
  fixes c :: "'m move"
  assumes S: "message_services sv M" and c: "move_at compl dest ESetSourceMailbox prev n (length prev) c"
    and changed: "\<And>w. svChanged sv dest w = changed"
  shows "\<exists>(c' :: 'm move) w'. loop_all (copy_within_class sv) (replicate (length (destination_requests dest changed)) KErrNone) (c, w)
      = Some (Inr (c', w'))
    \<and> iCompleted c' = compl @ [KErrNone] \<and> \<not> iReport c' \<and> iSourceSel c' = [] \<and> viewed M w' = viewed M w
    \<and> logged M w' = logged M w @ destination_requests dest changed"
proof -
  let ?n = "n + length prev" let ?w = "issue_world sv (RqExamine dest) w"
  from move_at_end(1) [OF S c, of w] obtain c1 :: "'m move" where
    s1: "copy_within_loop sv (c, w) = (Inr False, (c1, w))" "move_at compl dest ESelectDestinationMailboxRO [] ?n 0 c1" by blast
  from move_at_end(2) [OF S s1(2), of w] obtain c2 :: "'m move" where
    s2: "copy_within_loop sv (c1, w) = (Inr False, (c2, ?w))" "iRequest c2 = Some (RqExamine dest)"
      "move_at compl dest ENewSyncFolder [] ?n 0 (c2\<lparr> iRequest := None \<rparr>)" by blast
  have start: "loop_all (copy_within_class sv) (KErrNone # stats) (c, w)
      = loop_all (copy_within_class sv) stats (c2\<lparr> iRequest := None \<rparr>, ?w)" for stats
    using move_step [OF s1(1) c] move_wait [OF s2(1) s1(2) s2(2)] by simp
  show ?thesis
  proof (cases changed)
    case True
    let ?w3 = "issue_world sv (RqSynchroniseFolder dest) ?w"
    from move_at_end(3) [OF S s2(3), of ?w] changed True obtain c3 :: "'m move" where
      s3: "copy_within_loop sv (c2\<lparr> iRequest := None \<rparr>, ?w) = (Inr False, (c3, ?w3))"
        "iRequest c3 = Some (RqSynchroniseFolder dest)" "move_at compl dest EFinished [] ?n 0 (c3\<lparr> iRequest := None \<rparr>)"
      by auto
    from move_at_end(5) [OF S s3(3), of ?w3] start [of "[KErrNone]"] move_wait [OF s3(1) s2(3) s3(2), of "[]"] True
    show ?thesis by (auto simp: destination_requests_def run_request [OF S])
  next
    case False
    from move_at_end(4) [OF S s2(3), of ?w] changed False obtain c3 :: "'m move" where
      s3: "copy_within_loop sv (c2\<lparr> iRequest := None \<rparr>, ?w) = (Inr False, (c3, ?w))" "move_at compl dest EFinished [] ?n 0 c3"
      by auto
    from move_at_end(5) [OF S s3(2), of ?w] start [of "[]"] move_step [OF s3(1) s2(3), of "[]"] False
    show ?thesis by (auto simp: destination_requests_def run_request [OF S])
  qed
qed

lemma move_requests_cong:
  assumes "g \<noteq> []" "\<And>x. x \<in> set g \<Longrightarrow> folder_of v x = folder_of v' x \<and> uid_of v x = uid_of v' x"
  shows "move_requests sv M dest v g = move_requests sv M dest v' g"
proof -
  have "List.map (uid_of v) g = List.map (uid_of v') g" "folder_of v (hd g) = folder_of v' (hd g)"
    using assms by (auto intro!: map_cong)
  then show ?thesis by (simp only: move_requests_def uid_set_def)
qed

lemma all_move_requests_cong:
  assumes "\<And>x. x \<in> set xs \<Longrightarrow> folder_of v x = folder_of v' x \<and> uid_of v x = uid_of v' x"
  shows "all_move_requests sv M dest v xs = all_move_requests sv M dest v' xs"
proof -
  have g: "folder_groups (folder_of v) xs = folder_groups (folder_of v') xs"
    by (rule folder_groups_cong) (simp add: assms)
  have "move_requests sv M dest v g = move_requests sv M dest v' g" if "g \<in> set (folder_groups (folder_of v') xs)" for g
    using folder_groups_member [OF that] by (intro move_requests_cong) (auto simp: assms)
  then show ?thesis by (simp add: all_move_requests_def g cong: map_cong)
qed

lemma move_all:
  fixes c :: "'m move"
  assumes S: "message_services sv M"
    and c: "move_at compl dest ESetSourceMailbox (prev @ sel) n (length prev) c" "source_known c"
    and sel: "selection_in (viewed M w) sel" and f0: "\<And>x. x \<in> set sel \<Longrightarrow> folder_of (viewed M w) x \<noteq> 0"
    and dest: "viewed M w dest = Some d" "eMailbox d" "dest \<notin> set sel"
    and changed: "\<And>w. svChanged sv dest w = changed"
  shows "\<exists>(c' :: 'm move) w'. loop_all (copy_within_class sv)
      (replicate (length (all_move_requests sv M dest (viewed M w) sel @ destination_requests dest changed)) KErrNone) (c, w)
        = Some (Inr (c', w'))
    \<and> iCompleted c' = compl @ [KErrNone] \<and> \<not> iReport c' \<and> iSourceSel c' = []
    \<and> viewed M w' = without (marking (viewed M w) (set sel))
        (set (locally_deleted (n + length prev) (folder_groups (folder_of (viewed M w)) sel)))
    \<and> logged M w' = logged M w @ all_move_requests sv M dest (viewed M w) sel @ destination_requests dest changed"
  using c sel f0 dest
proof (induction "length sel" arbitrary: sel prev n c w rule: less_induct)
  case less
  show ?case
  proof (cases "sel = []")
    case True
    with less.prems(1) have "move_at compl dest ESetSourceMailbox prev n (length prev) c" by simp
    from move_finish [OF S this changed, of w] True show ?thesis by (simp add: all_move_requests_def)
  next
    case False
    define v where "v = viewed M w"
    obtain xs ys where g: "sel = xs @ ys" "xs \<noteq> []" "folder_groups (folder_of v) sel = xs # folder_groups (folder_of v) ys"
      "\<And>x. x \<in> set xs \<Longrightarrow> folder_of v x = folder_of v (hd xs)" "ys = [] \<or> folder_of v (hd ys) \<noteq> folder_of v (hd xs)"
      using first_group [OF False, of "folder_of v"] by blast
    have sel: "selection_in v (xs @ ys)" using less.prems(3) g(1) by (simp add: v_def)
    have f0: "\<And>x. x \<in> set xs \<Longrightarrow> folder_of v x \<noteq> 0" using less.prems(4) g(1) by (simp add: v_def)
    have d: "v dest = Some d" "eMailbox d" using less.prems(5,6) by (simp_all add: v_def)
    let ?n = "n + length prev" let ?R = "set (take (length xs - ?n) xs)"
    let ?v = "without (marking v (set xs)) ?R"
    from move_round [OF S less.prems(1) [unfolded g(1)] less.prems(2) v_def [symmetric] sel g(2) f0 g(4,5) d]
    obtain c' :: "'m move" and w' where r:
      "\<forall>stats. loop_all (copy_within_class sv) (replicate (length (move_requests sv M dest v xs)) KErrNone @ stats) (c, w)
        = loop_all (copy_within_class sv) stats (c', w')"
      "move_at compl dest ESetSourceMailbox (xs @ ys) ?n (length xs) c'" "source_known c'"
      "viewed M w' = ?v" "logged M w' = logged M w @ move_requests sv M dest v xs" by blast
    have sub: "?R \<subseteq> set xs" by (auto dest: in_set_takeD)
    have "selection_in (marking v (set xs)) (xs @ ys)" using sel by simp
    note rest = selection_without_some [OF this sub]
    have same: "folder_of ?v y = folder_of v y \<and> uid_of ?v y = uid_of v y" if "y \<in> set ys" for y
      using rest(2,3) [OF that] by simp
    have "y \<in> set ys \<Longrightarrow> folder_of (viewed M w') y \<noteq> 0" for y
      using same less.prems(4) [of y] g(1) r(4) by (simp add: v_def)
    moreover have "viewed M w' dest = Some d"
      using less.prems(7) sub g(1) d(1) r(4) by (auto simp: without_def marking_def)
    moreover have "length ys < length sel" "dest \<notin> set ys" "selection_in (viewed M w') ys"
      using g(1,2) less.prems(7) rest(1) r(4) by auto
    ultimately obtain c'' :: "'m move" and w'' where h: "loop_all (copy_within_class sv)
        (replicate (length (all_move_requests sv M dest (viewed M w') ys @ destination_requests dest changed)) KErrNone) (c', w')
          = Some (Inr (c'', w''))"
      "iCompleted c'' = compl @ [KErrNone]" "\<not> iReport c''" "iSourceSel c'' = []"
      "viewed M w'' = without (marking (viewed M w') (set ys))
         (set (locally_deleted (?n + length xs) (folder_groups (folder_of (viewed M w')) ys)))"
      "logged M w'' = logged M w' @ all_move_requests sv M dest (viewed M w') ys @ destination_requests dest changed"
      using less.hyps [OF _ r(2,3)] d(2) by blast
    have reqs: "all_move_requests sv M dest v sel = move_requests sv M dest v xs @ all_move_requests sv M dest (viewed M w') ys"
    proof -
      have "all_move_requests sv M dest (viewed M w') ys = all_move_requests sv M dest v ys"
        using same by (intro all_move_requests_cong) (simp add: r(4))
      then show ?thesis by (simp add: all_move_requests_def [of sv M dest v] g(3))
    qed
    have "folder_groups (folder_of (viewed M w')) ys = folder_groups (folder_of v) ys"
      using same r(4) by (intro folder_groups_cong) simp
    with h(5) have "viewed M w'' = without (marking ?v (set ys))
        (set (locally_deleted (?n + length xs) (folder_groups (folder_of v) ys)))"
      by (simp only: r(4))
    moreover have "set sel = set xs \<union> set ys" using g(1) by simp
    moreover have "locally_deleted ?n (folder_groups (folder_of v) sel)
        = take (length xs - ?n) xs @ locally_deleted (?n + length xs) (folder_groups (folder_of v) ys)"
      by (simp add: g(3))
    ultimately have "viewed M w'' = without (marking v (set sel)) (set (locally_deleted ?n (folder_groups (folder_of v) sel)))"
      by (simp only: marking_without without_simps set_append)
    moreover have "loop_all (copy_within_class sv)
        (replicate (length (all_move_requests sv M dest v sel @ destination_requests dest changed)) KErrNone) (c, w) = Some (Inr (c'', w''))"
      using r(1) h(1) by (simp add: reqs replicate_add)
    ultimately show ?thesis using h(2-4,6) r(5) reqs by (simp add: v_def add.assoc)
  qed
qed

section \<open>Starting\<close>

definition move_fresh :: "msv_id list \<Rightarrow> msv_id \<Rightarrow> 'm move \<Rightarrow> bool" where
  "move_fresh sel dest c \<longleftrightarrow> \<not> iReport c \<and> iRequest c = None \<and> \<not> iStopForMigrate c \<and> iCompleted c = [] \<and> iIsMove c
     \<and> iDestinationId c = dest \<and> iSourceSel c = sel \<and> iMsgsDone c = 0 \<and> iMsgsCopied c = 0 \<and> iSourceFolderId c = 0"

lemma move_started:
  fixes c :: "'m move"
  assumes S: "message_services sv M" and c: "move_fresh sel dest c"
    and start: "vStartOperation (copy_within_class sv) (c, w) = (Inr (), s)"
    and dest: "viewed M w dest = Some d" "eMailbox d"
  shows "\<exists>(c' :: 'm move) w'. (\<forall>stats. run_all (copy_within_class sv) (KErrNone # stats) s = loop_all (copy_within_class sv) stats (c', w'))
    \<and> move_at [] dest ESetSourceMailbox sel 0 0 c' \<and> source_known c' \<and> viewed M w' = viewed M w \<and> logged M w' = logged M w"
proof -
  let ?c = "c\<lparr> iNextStep := ECheckDestinationMailbox, iReport := True \<rparr>"
  have s: "s = (?c\<lparr> iRequest := Some RqSelf \<rparr>, w)"
    using c start by (simp add: move_fresh_def copy_within_class_def start_operation_def CompoundQueue_def CompleteSelf_def
        SetActive_def next_step_def cbind_def cread_def cset_def creturn_def)
  let ?c' = "?c\<lparr> iRequest := None \<rparr>"
  note folder = run_get_folder [OF S dest]
  have "\<exists>c'. copy_within_loop sv (?c', w) = (Inr False, (c', folder_world sv dest w))
      \<and> move_at [] dest ESetSourceMailbox sel 0 0 c' \<and> source_known c'"
    using c by (simp add: move_fresh_def move_at_def source_known_def move_eval folder)
  then obtain c' where c': "copy_within_loop sv (?c', w) = (Inr False, (c', folder_world sv dest w))"
      "move_at [] dest ESetSourceMailbox sel 0 0 c'" "source_known c'" by blast
  have "run_all (copy_within_class sv) (KErrNone # stats) s
      = loop_all (copy_within_class sv) stats (c', folder_world sv dest w)" for stats
    using loop_all_step [of "copy_within_class sv" "(?c', w)"] c'(1)
    by (simp add: run_all_ok s idle_def del: run_all.simps)
  with c' folder show ?thesis by blast
qed

section \<open>Stopping for a migration\<close>

lemma move_stopped:
  fixes c :: "'m move"
  assumes S: "message_services sv M" and c: "move_fresh sel dest c" and sel: "sel \<noteq> []"
    and dest: "viewed M w dest = Some d" "eMailbox d"
    and start: "vStartOperation (copy_within_class sv) (c, w) = (Inr (), s)"
  shows "\<exists>s1 (c2 :: 'm move) w2. StopForMigrate s = (Inr (), s1)
    \<and> run_all (copy_within_class sv) [KErrNone] s1 = Some (Inr (c2, w2))
    \<and> Suspended c2 \<and> \<not> iReport c2 \<and> iRequest c2 = None \<and> iCompleted c2 = [KErrNone] \<and> iNextStep c2 = ESetSourceMailbox
    \<and> iSourceSel c2 = sel \<and> iProgressErrorCode c2 = iProgressErrorCode c \<and> viewed M w2 = viewed M w \<and> logged M w2 = logged M w"
proof -
  let ?w = "folder_world sv dest w"
  note folder = run_get_folder [OF S dest]
  let ?c0 = "c\<lparr> iNextStep := ECheckDestinationMailbox, iReport := True, iRequest := Some RqSelf \<rparr>"
  let ?c1 = "?c0\<lparr> iStopForMigrate := True \<rparr>"
  let ?c1' = "?c1\<lparr> iRequest := None, iCurrentStep := ECheckDestinationMailbox, iDestinationFolder := Some dest,
      iNextStep := ESetSourceMailbox \<rparr>"
  let ?c2 = "?c1'\<lparr> iMsgsDone := 0, iSourceSel := sel, iMsgsCopied := 0, iCurrentStep := ESuspendedForMigrate,
      iReport := False, iCompleted := [KErrNone] \<rparr>"
  have "s = (?c0, w)"
    using c start by (simp add: move_fresh_def copy_within_class_def start_operation_def CompoundQueue_def CompleteSelf_def
        SetActive_def next_step_def cbind_def cread_def cset_def creturn_def)
  then have s1: "StopForMigrate s = (Inr (), (?c1, w))" by (simp add: StopForMigrate_def cset_def)
  have l1: "copy_within_loop sv (?c1\<lparr> iRequest := None \<rparr>, w) = (Inr False, (?c1', ?w))"
    using c by (simp add: move_fresh_def move_eval folder)
  have l2: "copy_within_loop sv (?c1', ?w) = (Inr True, (?c2, ?w))"
    using c sel by (simp add: move_fresh_def move_eval copy_within_source_def increment_progress_def suspend_def
        CompoundComplete_def split: list.split)
  have "run_all (copy_within_class sv) [KErrNone] (?c1, w) = Some (Inr (?c2, ?w))"
    using loop_all_step [of "copy_within_class sv" "(?c1\<lparr> iRequest := None \<rparr>, w)" "(?c1', ?w)" "[]"] l1 l2
      loop_all_finish [of "copy_within_class sv" "(?c1', ?w)" "(?c2, ?w)"]
    by (simp add: run_all_ok idle_def del: run_all.simps)
  with s1 folder show ?thesis
    by (intro exI [of _ "(?c1, w)"] exI [of _ ?c2] exI [of _ ?w]) (simp add: Suspended_def del: run_all.simps)
qed

text \<open>The step at which the operation is stopped is not one that it resumes.\<close>

lemma move_resumed:
  fixes c :: "'m move"
  assumes "\<not> iReport c" "iRequest c = None" "iNextStep c = ESetSourceMailbox"
  shows "\<exists>s3 (c' :: 'm move). vResumeOperationL (copy_within_class sv) (c, w) = (Inr (), s3)
    \<and> run_all (copy_within_class sv) [KErrNone] s3 = Some (Inr (c', w)) \<and> iCompleted c' = iCompleted c @ [KErrNone]
    \<and> iSourceSel c' = iSourceSel c \<and> iProgressErrorCode c' = iProgressErrorCode c"
proof -
  let ?c1 = "c\<lparr> iStopForMigrate := False, iNextStep := EFinished, iRequest := Some RqSelf, iReport := True \<rparr>"
  let ?c2 = "?c1\<lparr> iRequest := None, iCurrentStep := EFinished, iProgressState := EIdle, iReport := False,
      iCompleted := iCompleted c @ [KErrNone] \<rparr>"
  have s: "vResumeOperationL (copy_within_class sv) (c, w) = (Inr (), (?c1, w))"
    using assms by (simp add: copy_within_class_def copy_within_resume_def resume_with_def abandon_def CompoundQueue_def
        CompleteSelf_def SetActive_def Let_def next_step_def cbind_def cread_def cset_def creturn_def)
  have "copy_within_loop sv (?c1\<lparr> iRequest := None \<rparr>, w) = (Inr True, (?c2, w))"
    by (simp add: move_eval finish_def CompoundComplete_def)
  with loop_all_finish [of "copy_within_class sv" "(?c1\<lparr> iRequest := None \<rparr>, w)" "(?c2, w)"]
  have "run_all (copy_within_class sv) [KErrNone] (?c1, w) = Some (Inr (?c2, w))"
    by (simp add: run_all_ok idle_def del: run_all.simps)
  with s show ?thesis by (intro exI [of _ "(?c1, w)"] exI [of _ ?c2]) (simp del: run_all.simps)
qed

end
