(* ===== verification/Imap_Compound_Stop.thy ===== *)
theory Imap_Compound_Stop
  imports Imap_Compound_Contracts Imap_Store_Laws
begin

text \<open>
  Stopping a compound operation for a migration while it runs, and resuming it. The runs of the stopped
  operation are compared with those of the same operation left alone: a method commutes with a change
  of the members it does not look at, so both do the same until the stopped one comes to the step at
  which it looks at the flag.
\<close>

section \<open>Methods that commute with a change of the members\<close>

definition commutes ::
  "('m compound_base_scheme \<Rightarrow> 'm compound_base_scheme) \<Rightarrow> ('a, 'm, 'w) compound_method \<Rightarrow> bool" where
  "commutes U m \<longleftrightarrow> (\<forall>c w. m (U c, w) = apsnd (apfst U) (m (c, w)))"

named_theorems commutes_rules \<open>methods that commute with a change of the members\<close>

lemma commutesD: "commutes U m \<Longrightarrow> m (U c, w) = apsnd (apfst U) (m (c, w))"
  by (simp add: commutes_def)

lemma commutes_basic [commutes_rules]:
  "commutes U (creturn x)" "commutes U (cleave e)" "commutes U (cask g)"
  "commutes U (ccall f)" "commutes U (ctry f')" "commutes U (leave_if_error err)"
  by (auto simp: commutes_def creturn_def cleave_def cask_def ccall_def ctry_def leave_if_error_def split: prod.splits)

lemma commutes_read [commutes_rules]: "(\<And>c. g (U c) = g c) \<Longrightarrow> commutes U (cread g)"
  by (simp add: commutes_def cread_def)

lemma commutes_set [commutes_rules]: "(\<And>c. g (U c) = U (g c)) \<Longrightarrow> commutes U (cset g)"
  by (simp add: commutes_def cset_def)

lemma commutes_bind [commutes_rules]: "commutes U m \<Longrightarrow> (\<And>x. commutes U (k x)) \<Longrightarrow> commutes U (cbind m k)"
  unfolding commutes_def cbind_def by (auto split: prod.splits sum.splits)

text \<open>A method that reads all members may look at those that stay.\<close>

lemma commutes_self:
  "(\<And>c. k (U c) = k c) \<Longrightarrow> (\<And>c. commutes U (k c)) \<Longrightarrow> commutes U (cbind (cread id) k)"
  by (simp add: commutes_def cbind_def cread_def)

lemma commutes_if [commutes_rules]:
  "(b \<Longrightarrow> commutes U m) \<Longrightarrow> (\<not> b \<Longrightarrow> commutes U m') \<Longrightarrow> commutes U (if b then m else m')"
  by simp

lemma commutes_cdo [commutes_rules]:
  "commutes U (cdo [])" "commutes U m \<Longrightarrow> commutes U (cdo [m])"
  "commutes U m1 \<Longrightarrow> commutes U (cdo (m' # ms)) \<Longrightarrow> commutes U (cdo (m1 # m' # ms))"
  by (simp_all add: commutes_basic(1) commutes_bind)

lemma commutes_trap [commutes_rules]: "commutes U m \<Longrightarrow> commutes U (trap_ignore m)"
  unfolding commutes_def trap_ignore_def by (auto split: prod.splits sum.splits)

lemma commutes_store [commutes_rules]:
  "commutes U (SetEntryL sv x)" "commutes U (entry sv)" "commutes U (ChangeEntryL sv e)" "commutes U (request sv r)"
  by (simp_all add: SetEntryL_def entry_def ChangeEntryL_def request_def commutes_rules)

lemma commutes_message_error [commutes_rules]: "commutes U (MessageErrorL sv x e)"
  unfolding MessageErrorL_def by (intro commutes_rules)

lemma commutes_find [commutes_rules]: "commutes U (FindFolderL sv x)"
proof -
  have "commutes U (find_folder_loop n sv)" for n
    by (induction n) (auto intro!: commutes_rules)
  then show ?thesis unfolding FindFolderL_def by (intro commutes_rules)
qed

lemma commutes_entries [commutes_rules]: "commutes U (delete_entries sv n xs)"
  by (induction sv n xs rule: delete_entries.induct) (auto intro!: commutes_rules)

lemma commutes_folder [commutes_rules]: "(\<And>x. commutes U (m x)) \<Longrightarrow> commutes U (on_folder_object f m)"
  by (cases f) (simp_all add: on_folder_object_def commutes_rules)

text \<open>The two changes: the flag of \<open>StopForMigrate\<close>, and an answer before those of the client's request.\<close>

definition flagged :: "'m compound_base_scheme \<Rightarrow> 'm compound_base_scheme" where
  "flagged c = c\<lparr> iStopForMigrate := True \<rparr>"

definition answered_before :: "'m compound_base_scheme \<Rightarrow> 'm compound_base_scheme" where
  "answered_before c = c\<lparr> iCompleted := KErrNone # iCompleted c \<rparr>"

lemma flagged_simps [simp]:
  "iNextStep (flagged c) = iNextStep c" "iCurrentStep (flagged c) = iCurrentStep c" "iReport (flagged c) = iReport c"
  "iRequest (flagged c) = iRequest c" "iCompleted (flagged c) = iCompleted c" "flagged (flagged c) = flagged c"
  "iProgressErrorCode (flagged c) = iProgressErrorCode c"
  by (simp_all add: flagged_def)

lemma answered_before_simps [simp]:
  "iNextStep (answered_before c) = iNextStep c" "iCurrentStep (answered_before c) = iCurrentStep c"
  "iReport (answered_before c) = iReport c" "iRequest (answered_before c) = iRequest c"
  "iStopForMigrate (answered_before c) = iStopForMigrate c" "iProgressErrorCode (answered_before c) = iProgressErrorCode c"
  by (simp_all add: answered_before_def)

lemma commutes_active [commutes_rules]:
  "commutes flagged (SetActive r)" "commutes answered_before (SetActive r)"
  "commutes flagged (next_step x)" "commutes answered_before (next_step x)"
  "commutes flagged (progress p)" "commutes answered_before (progress p)"
  "commutes flagged (CompoundComplete e)" "commutes answered_before (CompoundComplete e)"
  "commutes flagged SetCurrentStep" "commutes answered_before SetCurrentStep"
  unfolding SetActive_def next_step_def progress_def CompoundComplete_def SetCurrentStep_def
  by (auto intro!: commutes_rules simp: flagged_def answered_before_def)

lemma commutes_control [commutes_rules]:
  "commutes U (cdo ms) \<Longrightarrow> commutes U (go_on ms)"
  "commutes flagged (finish p)" "commutes answered_before (finish p)"
  "commutes flagged unexpected" "commutes answered_before unexpected"
  "commutes answered_before (suspend s)" "commutes flagged (suspend s)"
  unfolding go_on_def finish_def unexpected_def suspend_def
  by (auto intro!: commutes_rules simp: flagged_def answered_before_def)

lemma commutes_await [commutes_rules]: "commutes flagged (await sv r)"
  unfolding await_def by (intro commutes_rules)

section \<open>Runs that commute\<close>

text \<open>A change that leaves the request and the client's request alone.\<close>

definition on_state :: "('m compound_base_scheme \<Rightarrow> 'm compound_base_scheme) \<Rightarrow> ('m, 'w) compound_state \<Rightarrow> ('m, 'w) compound_state" where
  "on_state U s = (U (fst s), snd s)"

lemma on_state_simps [simp]: "fst (on_state U s) = U (fst s)" "snd (on_state U s) = snd s" "on_state U (c, w) = (U c, w)"
  by (simp_all add: on_state_def)

definition plain_change :: "('m compound_base_scheme \<Rightarrow> 'm compound_base_scheme) \<Rightarrow> bool" where
  "plain_change U \<longleftrightarrow> (\<forall>c. iRequest (U c) = iRequest c \<and> iReport (U c) = iReport c
     \<and> U (c\<lparr> iRequest := None \<rparr>) = (U c)\<lparr> iRequest := None \<rparr>
     \<and> (\<forall>e. U (c\<lparr> iReport := False, iCompleted := iCompleted c @ [e] \<rparr>)
           = (U c)\<lparr> iReport := False, iCompleted := iCompleted (U c) @ [e] \<rparr>))"

lemma plain_changes: "plain_change flagged" "plain_change answered_before"
  by (simp_all add: plain_change_def flagged_def answered_before_def)

lemma plain_completed: "plain_change U \<Longrightarrow> completed_with e (on_state U s) = on_state U (completed_with e s)"
  by (simp add: plain_change_def completed_with_def CompoundComplete_def cset_def on_state_def)

lemma run_loop_commutes:
  assumes "commutes U loop" "plain_change U" "run_loop loop s = Some (r, t)"
  shows "run_loop loop (on_state U s) = Some (r, on_state U t)"
proof -
  have req: "iRequest (U c) = iRequest c" for c using assms(2) by (simp add: plain_change_def)
  have "commutes U loop \<longrightarrow> run_loop loop (on_state U s) = Some (fst (r, t), on_state U (snd (r, t)))"
  proof (rule run_loop.raw_induct [where P = "\<lambda>l s x. commutes U l \<longrightarrow> run_loop l (on_state U s) = Some (fst x, on_state U (snd x))",
        OF _ assms(3)])
    fix f l s x
    assume IH: "\<And>s b y. f s b = Some y \<Longrightarrow> commutes U s \<longrightarrow> run_loop s (on_state U b) = Some (fst y, on_state U (snd y))"
      and x: "(if iRequest (fst s) \<noteq> None then Some (Inr (), s)
        else case l s of (Inl e, s) \<Rightarrow> Some (Inl e, s)
             | (Inr finished, s) \<Rightarrow> if finished then Some (Inr (), s) else f l s) = Some x"
    show "commutes U l \<longrightarrow> run_loop l (on_state U s) = Some (fst x, on_state U (snd x))"
    proof
      assume l: "commutes U l"
      show "run_loop l (on_state U s) = Some (fst x, on_state U (snd x))"
      proof (cases "iRequest (fst s) = None")
        case True
        obtain q s' where q: "l s = (q, s')" by (cases "l s")
        then have qU: "l (on_state U s) = (q, on_state U s')"
          using commutesD [OF l, of "fst s" "snd s"] by (cases s') (simp add: on_state_def)
        show ?thesis
        proof (cases "q = Inr False")
          case False
          with q qU True x show ?thesis
            by (cases q) (auto simp: run_loop.simps [of l "on_state U s"] req)
        next
          case loop: True
          then have "f l s' = Some x" using x q True by simp
          with IH l have "run_loop l (on_state U s') = Some (fst x, on_state U (snd x))" by simp
          with loop qU True show ?thesis by (simp add: run_loop_step req)
        qed
      next
        case False
        with x show ?thesis by (auto simp: run_loop.simps [of l "on_state U s"] req)
      qed
    qed
  qed
  then show ?thesis using assms(1) by simp
qed

definition run_image :: "('m compound_base_scheme \<Rightarrow> 'm compound_base_scheme) \<Rightarrow>
    ('m, 'w) compound_state leaving option \<Rightarrow> ('m, 'w) compound_state leaving option" where
  "run_image U = map_option (map_sum id (on_state U))"

lemma run_image_simps [simp]:
  "run_image U None = None" "run_image U (Some (Inl e)) = Some (Inl e)" "run_image U (Some (Inr s)) = Some (Inr (on_state U s))"
  by (simp_all add: run_image_def)

lemma run_result_commutes:
  assumes "plain_change U"
  shows "run_result (Some (r, on_state U t)) = run_image U (run_result (Some (r, t)))"
  using assms by (cases r) (auto simp: run_result_def plain_completed plain_change_def)

lemma loop_result_commutes:
  assumes "commutes U loop" "plain_change U" "run_loop loop s \<noteq> None"
  shows "run_result (run_loop loop (on_state U s)) = run_image U (run_result (run_loop loop s))"
proof -
  obtain r t where "run_loop loop s = Some (r, t)" using assms(3) by auto
  with run_loop_commutes [OF assms(1,2) this] show ?thesis by (simp add: run_result_commutes [OF assms(2)])
qed

lemma session_commutes: "(\<And>e. commutes U (vNegative cls e)) \<Longrightarrow> commutes U (ProcessSessionError cls status)"
  unfolding ProcessSessionError_def by (intro commutes_rules)

lemma RunL_commutes:
  assumes "commutes U (vDoRunLoopL cls)" "\<And>e. commutes U (vNegative cls e)" "plain_change U" "RunL cls status s \<noteq> None"
  shows "RunL cls status (on_state U s) = run_image U (RunL cls status s)"
proof -
  let ?i = "((fst s)\<lparr> iRequest := None \<rparr>, snd s)"
  have i: "((fst (on_state U s))\<lparr> iRequest := None \<rparr>, snd (on_state U s)) = on_state U ?i"
    using assms(3) by (simp add: plain_change_def on_state_def)
  show ?thesis
  proof (cases "system_error status")
    case True
    then show ?thesis using i plain_completed [OF assms(3), of status ?i]
      by (simp add: RunL_def Let_def del: on_state_simps)
  next
    case False
    show ?thesis
    proof (cases "status = KErrNone")
      case True
      then have "run_loop (vDoRunLoopL cls) ?i \<noteq> None"
        using assms(4) by (auto simp: RunL_def Let_def DoRunL_def system_error_def run_result_def)
      from loop_result_commutes [OF assms(1,3) this] True i show ?thesis
        by (simp add: RunL_def Let_def DoRunL_def system_error_def del: on_state_simps)
    next
      case err: False
      obtain r t where p: "ProcessSessionError cls status ?i = (r, t)" by (cases "ProcessSessionError cls status ?i")
      then have pU: "ProcessSessionError cls status (on_state U ?i) = (r, on_state U t)"
        using commutesD [OF session_commutes [OF assms(2)], of status "(fst s)\<lparr> iRequest := None \<rparr>" "snd s"]
        by (cases t) simp
      show ?thesis
      proof (cases "r = Inr KErrNone")
        case True
        then have d: "DoRunL cls status ?i = run_loop (vDoRunLoopL cls) t"
          "DoRunL cls status (on_state U ?i) = run_loop (vDoRunLoopL cls) (on_state U t)"
          using p pU err by (simp_all add: DoRunL_def del: on_state_simps)
        then have "run_loop (vDoRunLoopL cls) t \<noteq> None"
          using assms(4) False by (auto simp: RunL_def Let_def run_result_def)
        from loop_result_commutes [OF assms(1,3) this] d False i show ?thesis
          by (simp add: RunL_def Let_def del: on_state_simps)
      next
        case noloop: False
        have c: "CompoundComplete KErrImapNo (on_state U t) = (Inr (), on_state U (snd (CompoundComplete KErrImapNo t)))"
          "CompoundComplete KErrImapNo t = (Inr (), snd (CompoundComplete KErrImapNo t))"
          using plain_completed [OF assms(3), of KErrImapNo t] 
          by (simp_all add: completed_with_def CompoundComplete_def cset_def del: on_state_simps)
        have "\<exists>r' t'. DoRunL cls status ?i = Some (r', t') \<and> DoRunL cls status (on_state U ?i) = Some (r', on_state U t')"
        proof (cases r)
          case (Inl e)
          then show ?thesis using p pU err by (simp add: DoRunL_def del: on_state_simps)
        next
          case (Inr e)
          with noloop c have "DoRunL cls status ?i = Some (Inr (), snd (CompoundComplete KErrImapNo t))"
            "DoRunL cls status (on_state U ?i) = Some (Inr (), on_state U (snd (CompoundComplete KErrImapNo t)))"
            using p pU err by (simp_all add: DoRunL_def del: on_state_simps)
          then show ?thesis by blast
        qed
        then show ?thesis using False i run_result_commutes [OF assms(3)]
          by (auto simp: RunL_def Let_def simp del: on_state_simps)
      qed
    qed
  qed
qed

lemma run_all_commutes:
  assumes "commutes U (vDoRunLoopL cls)" "\<And>e. commutes U (vNegative cls e)" "plain_change U"
    and "run_all cls stats s = Some (Inr t)"
  shows "run_all cls stats (on_state U s) = Some (Inr (on_state U t))"
  using assms(4)
proof (induction stats arbitrary: s)
  case (Cons x xs)
  have req: "iRequest (U c) = iRequest c" for c using assms(3) by (simp add: plain_change_def)
  from Cons.prems obtain s' where s': "RunL cls x s = Some (Inr s')" "iRequest (fst s) \<noteq> None" "run_all cls xs s' = Some (Inr t)"
    by (auto split: option.splits sum.splits if_splits)
  with RunL_commutes [OF assms(1-3), of x s] have "RunL cls x (on_state U s) = Some (Inr (on_state U s'))" by simp
  with Cons.IH [OF s'(3)] s'(2) show ?case by (simp add: req)
qed simp

lemma loop_all_commutes:
  assumes "commutes U (vDoRunLoopL cls)" "\<And>e. commutes U (vNegative cls e)" "plain_change U"
    and "loop_all cls stats s = Some (Inr t)"
  shows "loop_all cls stats (on_state U s) = Some (Inr (on_state U t))"
proof -
  from assms(4) obtain s' where s': "run_result (run_loop (vDoRunLoopL cls) s) = Some (Inr s')" "run_all cls stats s' = Some (Inr t)"
    by (auto simp: loop_all_def split: option.splits sum.splits)
  then have "run_loop (vDoRunLoopL cls) s \<noteq> None" by (auto simp: run_result_def)
  from loop_result_commutes [OF assms(1,3) this] s'(1)
  have "run_result (run_loop (vDoRunLoopL cls) (on_state U s)) = Some (Inr (on_state U s'))" by simp
  with run_all_commutes [OF assms(1-3) s'(2)] show ?thesis by (simp add: loop_all_def)
qed

section \<open>The stopped operation\<close>

text \<open>
  A class that looks at the flag at one step only, where it suspends: \<open>stopping\<close> says when, and \<open>susp\<close> is
  the operation then. The step leads to the steps \<open>selecting\<close>, at which a folder is selected; an operation
  that waits goes on at a step of \<open>ready\<close>.
\<close>

locale stoppable = compound_contract cls steps rank
  for cls :: "('m, 'w) compound_class" and steps :: "compound_step set" and rank :: "'m compound_base_scheme \<Rightarrow> nat" +
  fixes stopping :: "'m compound_base_scheme \<Rightarrow> bool" and susp :: "'m compound_base_scheme \<Rightarrow> 'm compound_base_scheme"
    and ready selecting :: "compound_step set"
  assumes negative_flag: "commutes flagged (vNegative cls e)"
    and loop_flag: "\<not> stopping c \<Longrightarrow> vDoRunLoopL cls (flagged c, w) = apsnd (apfst flagged) (vDoRunLoopL cls (c, w))"
    and loop_stop: "stopping c \<Longrightarrow> vDoRunLoopL cls (flagged c, w) = (Inr True, (susp c, w))"
    and susp: "iRequest (susp c) = iRequest c" "\<not> iReport (susp c)"
    and unflagged: "stopping c \<Longrightarrow> \<not> iStopForMigrate c"
    and ready_wait: "iNextStep c \<in> steps \<Longrightarrow> iRequest c = None \<Longrightarrow> vDoRunLoopL cls (c, w) = (Inr False, (c', w')) \<Longrightarrow> iRequest c' \<noteq> None \<Longrightarrow>
      iNextStep c' \<in> ready"
    and ready_start: "vStartOperation cls (c, w) = (Inr (), s) \<Longrightarrow> iNextStep (fst s) \<in> ready"
    and ready_negative: "iNextStep c \<in> ready \<Longrightarrow> vNegative cls e (c, w) = (r, (c', w')) \<Longrightarrow> iNextStep c' \<in> ready"
    and ready_stopped: "iNextStep c \<in> steps \<Longrightarrow> iStopForMigrate c \<Longrightarrow> iNextStep c \<in> ready \<Longrightarrow> iRequest c = None \<Longrightarrow>
      vDoRunLoopL cls (c, w) = (Inr False, (c', w')) \<Longrightarrow>
      iNextStep c' \<in> ready \<and> (iRequest c' \<noteq> None \<longrightarrow> iCurrentStep c' \<notin> selecting)"
begin

text \<open>The operation left alone comes to a state at which the stopped one suspends.\<close>

definition stops_at :: "nat \<Rightarrow> 'm compound_base_scheme \<Rightarrow> bool" where
  "stops_at n c \<longleftrightarrow> stopping c \<and> iRequest c = None \<and> iReport c \<and> iNextStep c \<in> steps \<and> n = Suc (length (iCompleted c))"

lemma run_loop_flagged:
  assumes "run_loop (vDoRunLoopL cls) s = Some (r, t)" "iNextStep (fst s) \<in> steps" "iReport (fst s)" "counted n s"
  shows "run_loop (vDoRunLoopL cls) (on_state flagged s) = Some (r, on_state flagged t)
    \<or> (\<exists>c w. stops_at n c \<and> run_loop (vDoRunLoopL cls) (on_state flagged s) = Some (Inr (), (susp c, w))
         \<and> run_loop (vDoRunLoopL cls) s = run_loop (vDoRunLoopL cls) (c, w))"
  using assms
proof (induction "rank (fst s)" arbitrary: s rule: less_induct)
  case less
  let ?L = "run_loop (vDoRunLoopL cls)"
  show ?case
  proof (cases "iRequest (fst s)")
    case (Some q)
    with less.prems(1) show ?thesis by (simp add: run_loop_wait)
  next
    case None
    show ?thesis
    proof (cases "stopping (fst s)")
      case True
      with loop_stop [OF True, of "snd s"] None
      have "?L (on_state flagged s) = Some (Inr (), (susp (fst s), snd s))" by (simp add: run_loop_finish on_state_def)
      moreover have "stops_at n (fst s)" using True None less.prems by (simp add: stops_at_def counted_def)
      moreover have "?L s = ?L (fst s, snd s)" by simp
      ultimately show ?thesis by blast
    next
      case False
      obtain q s' where q: "vDoRunLoopL cls s = (q, s')" by (cases "vDoRunLoopL cls s")
      then have qU: "vDoRunLoopL cls (on_state flagged s) = (q, on_state flagged s')"
        using loop_flag [OF False, of "snd s"] by (cases s') (simp add: on_state_def)
      show ?thesis
      proof (cases "q = Inr False")
        case True
        have w: "cwp (vDoRunLoopL cls)
            (\<lambda>finished s'. if finished then iRequest (fst s') = None \<and> answered (fst s) (fst s')
               else still_open (fst s) (fst s') \<and> iNextStep (fst s') \<in> steps
                 \<and> (iRequest (fst s') = None \<longrightarrow> rank (fst s') < rank (fst s))) (left_open (fst s)) s"
          using loop [OF less.prems(2,3) None, of "snd s"] by simp
        with True q have s': "iReport (fst s')" "counted n s'" "iNextStep (fst s') \<in> steps"
          "iRequest (fst s') = None \<longrightarrow> rank (fst s') < rank (fst s)"
          using less.prems(3,4) by (auto simp: cwp_def still_open_def counted_def)
        have u: "?L s = ?L s'" "?L (on_state flagged s) = ?L (on_state flagged s')"
          using True q qU None by (simp_all add: run_loop_step)
        show ?thesis
        proof (cases "iRequest (fst s')")
          case None
          with s'(4) less.hyps [OF _ _ s'(3,1,2)] less.prems(1) u show ?thesis by simp
        next
          case (Some x)
          with u less.prems(1) show ?thesis by (simp add: run_loop_wait)
        qed
      next
        case False
        with q qU None less.prems(1) have "?L (on_state flagged s) = Some (r, on_state flagged t)"
          by (cases q) (auto simp: run_loop.simps [of _ s] run_loop.simps [of _ "on_state flagged s"])
        then show ?thesis ..
      qed
    qed
  qed
qed

lemma susp_result: "run_result (Some (Inr (), (susp c, w))) = Some (Inr (susp c, w))"
  using susp(2) by simp

lemma loop_result_flagged:
  assumes "run_result (run_loop (vDoRunLoopL cls) s) = Some x" "iNextStep (fst s) \<in> steps" "iReport (fst s)" "counted n s"
  shows "run_result (run_loop (vDoRunLoopL cls) (on_state flagged s)) = run_image flagged (Some x)
    \<or> (\<exists>c w. stops_at n c \<and> run_result (run_loop (vDoRunLoopL cls) (on_state flagged s)) = Some (Inr (susp c, w))
         \<and> Some x = run_result (run_loop (vDoRunLoopL cls) (c, w)))"
proof -
  obtain r t where l: "run_loop (vDoRunLoopL cls) s = Some (r, t)" using assms(1) by (auto simp: run_result_def)
  from run_loop_flagged [OF this assms(2-4)] show ?thesis
    using l assms(1) run_result_commutes [OF plain_changes(1), of r t] susp_result by (metis (no_types))
qed

lemma RunL_flagged:
  assumes "RunL cls status s = Some x" "iNextStep (fst s) \<in> steps" "iReport (fst s)" "counted n s"
  shows "RunL cls status (on_state flagged s) = run_image flagged (Some x)
    \<or> (\<exists>c w. stops_at n c \<and> RunL cls status (on_state flagged s) = Some (Inr (susp c, w))
         \<and> Some x = run_result (run_loop (vDoRunLoopL cls) (c, w)))"
proof -
  let ?i = "((fst s)\<lparr> iRequest := None \<rparr>, snd s)"
  have i: "((fst (on_state flagged s))\<lparr> iRequest := None \<rparr>, snd (on_state flagged s)) = on_state flagged ?i"
    by (simp add: on_state_def flagged_def)
  have idle: "iNextStep (fst ?i) \<in> steps" "iReport (fst ?i)" "counted n ?i" "iRequest (fst ?i) = None"
    using assms(2-4) by (simp_all add: counted_def)
  show ?thesis
  proof (cases "system_error status")
    case True
    with assms(1) i plain_completed [OF plain_changes(1), of status ?i] have
      "RunL cls status (on_state flagged s) = run_image flagged (Some x)"
      by (auto simp: RunL_def Let_def simp del: on_state_simps)
    then show ?thesis ..
  next
    case False
    show ?thesis
    proof (cases "status = KErrNone")
      case True
      then have "run_result (run_loop (vDoRunLoopL cls) ?i) = Some x"
        using assms(1) by (simp add: RunL_def Let_def DoRunL_def system_error_def)
      from loop_result_flagged [OF this idle(1-3)] True i show ?thesis
        by (simp add: RunL_def Let_def DoRunL_def system_error_def del: on_state_simps)
    next
      case err: False
      obtain r t where p: "ProcessSessionError cls status ?i = (r, t)" by (cases "ProcessSessionError cls status ?i")
      then have pU: "ProcessSessionError cls status (on_state flagged ?i) = (r, on_state flagged t)"
        using commutesD [OF session_commutes [OF negative_flag], of status "(fst s)\<lparr> iRequest := None \<rparr>" "snd s"]
        by (cases t) simp
      show ?thesis
      proof (cases "r = Inr KErrNone")
        case True
        then have d: "DoRunL cls status ?i = run_loop (vDoRunLoopL cls) t"
          "DoRunL cls status (on_state flagged ?i) = run_loop (vDoRunLoopL cls) (on_state flagged t)"
          using p pU err by (simp_all add: DoRunL_def del: on_state_simps)
        have "cwp (ProcessSessionError cls status)
            (\<lambda>_ s'. iNextStep (fst s') \<in> steps \<and> still_open (fst ?i) (fst s') \<and> iRequest (fst s') = None) (left_open (fst ?i)) ?i"
          unfolding ProcessSessionError_def using negative [OF idle(1,2,4), of status "snd s"] idle
          by (auto intro!: cwp_rules simp: still_open_def)
        with p True have t: "iNextStep (fst t) \<in> steps" "iReport (fst t)" "counted n t"
          using idle(2,3) by (simp_all add: cwp_def still_open_def counted_def)
        have "run_result (run_loop (vDoRunLoopL cls) t) = Some x"
          using assms(1) False d(1) by (simp add: RunL_def Let_def)
        from loop_result_flagged [OF this t] d False i show ?thesis
          by (simp add: RunL_def Let_def del: on_state_simps)
      next
        case noloop: False
        have c: "CompoundComplete KErrImapNo (on_state flagged t) = (Inr (), on_state flagged (snd (CompoundComplete KErrImapNo t)))"
          "CompoundComplete KErrImapNo t = (Inr (), snd (CompoundComplete KErrImapNo t))"
          using plain_completed [OF plain_changes(1), of KErrImapNo t]
          by (simp_all add: completed_with_def CompoundComplete_def cset_def del: on_state_simps)
        have "\<exists>r' t'. DoRunL cls status ?i = Some (r', t') \<and> DoRunL cls status (on_state flagged ?i) = Some (r', on_state flagged t')"
        proof (cases r)
          case (Inl e)
          then show ?thesis using p pU err by (simp add: DoRunL_def del: on_state_simps)
        next
          case (Inr e)
          with noloop c have "DoRunL cls status ?i = Some (Inr (), snd (CompoundComplete KErrImapNo t))"
            "DoRunL cls status (on_state flagged ?i) = Some (Inr (), on_state flagged (snd (CompoundComplete KErrImapNo t)))"
            using p pU err by (simp_all add: DoRunL_def del: on_state_simps)
          then show ?thesis by blast
        qed
        then obtain r' t' where d: "DoRunL cls status ?i = Some (r', t')"
          "DoRunL cls status (on_state flagged ?i) = Some (r', on_state flagged t')" by blast
        then have "RunL cls status (on_state flagged s) = run_result (Some (r', on_state flagged t'))"
          using False i by (simp add: RunL_def Let_def del: on_state_simps)
        moreover have "run_result (Some (r', t')) = Some x" using assms(1) d(1) False by (simp add: RunL_def Let_def)
        ultimately have "RunL cls status (on_state flagged s) = run_image flagged (Some x)"
          by (simp add: run_result_commutes [OF plain_changes(1)] del: on_state_simps)
        then show ?thesis ..
      qed
    qed
  qed
qed

text \<open>Stopped, the operation runs as it does left alone, or suspends after some of the runs; left alone, it
  goes on from the state at which the stopped one suspended.\<close>

lemma run_all_flagged:
  assumes "run_all cls stats s = Some (Inr t)" "open_or_idle s" "counted n s"
  shows "run_all cls stats (on_state flagged s) = Some (Inr (on_state flagged t))
    \<or> (\<exists>before after c w. stats = before @ after \<and> stops_at n c
         \<and> run_all cls before (on_state flagged s) = Some (Inr (susp c, w)) \<and> loop_all cls after (c, w) = Some (Inr t))"
  using assms
proof (induction stats arbitrary: s)
  case (Cons x xs)
  from Cons.prems(1) obtain s1 where s1: "RunL cls x s = Some (Inr s1)" "iRequest (fst s) \<noteq> None" "run_all cls xs s1 = Some (Inr t)"
    by (auto split: option.splits sum.splits if_splits)
  have s: "iReport (fst s)" "iNextStep (fst s) \<in> steps" using Cons.prems(2) s1(2) by (auto simp: open_or_idle_def)
  have s1': "open_or_idle s1" "counted n s1" using RunL_ends [OF s Cons.prems(3), of x] s1(1) by auto
  from RunL_flagged [OF s1(1) s(2,1) Cons.prems(3)] show ?case
  proof
    assume r: "RunL cls x (on_state flagged s) = run_image flagged (Some (Inr s1))"
    from Cons.IH [OF s1(3) s1'] show ?thesis
    proof
      assume "\<exists>before after c w. xs = before @ after \<and> stops_at n c
         \<and> run_all cls before (on_state flagged s1) = Some (Inr (susp c, w)) \<and> loop_all cls after (c, w) = Some (Inr t)"
      then obtain before after c w where b: "xs = before @ after" "stops_at n c"
        "run_all cls before (on_state flagged s1) = Some (Inr (susp c, w))" "loop_all cls after (c, w) = Some (Inr t)" by blast
      with r s1(2) have "run_all cls (x # before) (on_state flagged s) = Some (Inr (susp c, w))" by simp
      with b have "x # xs = (x # before) @ after \<and> stops_at n c
         \<and> run_all cls (x # before) (on_state flagged s) = Some (Inr (susp c, w)) \<and> loop_all cls after (c, w) = Some (Inr t)" by simp
      then show ?thesis by blast
    qed (use r s1(2) in auto)
  next
    assume "\<exists>c w. stops_at n c \<and> RunL cls x (on_state flagged s) = Some (Inr (susp c, w))
         \<and> Some (Inr s1) = run_result (run_loop (vDoRunLoopL cls) (c, w))"
    then obtain c w where c: "stops_at n c" "RunL cls x (on_state flagged s) = Some (Inr (susp c, w))"
      "run_result (run_loop (vDoRunLoopL cls) (c, w)) = Some (Inr s1)" by auto
    have "loop_all cls xs (c, w) = Some (Inr t)" using c(3) s1(3) by (simp add: loop_all_def)
    moreover have "run_all cls [x] (on_state flagged s) = Some (Inr (susp c, w))" using c(2) s1(2) by simp
    ultimately have "x # xs = [x] @ xs \<and> stops_at n c
         \<and> run_all cls [x] (on_state flagged s) = Some (Inr (susp c, w)) \<and> loop_all cls xs (c, w) = Some (Inr t)"
      using c(1) by simp
    then show ?thesis by blast
  qed
qed simp

lemma run_all_waiting:
  assumes "run_all cls xs s = Some (Inr v)" "open_or_idle s" "counted n s"
  shows "open_or_idle v \<and> counted n v"
  using assms
proof (induction xs arbitrary: s)
  case (Cons x xs)
  from Cons.prems(1) obtain s1 where s1: "RunL cls x s = Some (Inr s1)" "iRequest (fst s) \<noteq> None" "run_all cls xs s1 = Some (Inr v)"
    by (auto split: option.splits sum.splits if_splits)
  then have "iReport (fst s)" "iNextStep (fst s) \<in> steps" using Cons.prems(2) by (auto simp: open_or_idle_def)
  from RunL_ends [OF this Cons.prems(3), of x] s1(1) Cons.IH [OF s1(3)] show ?case by auto
qed simp

text \<open>Once stopped, the operation waits for no further folder to be selected.\<close>

definition selects_no_more :: "('m, 'w) compound_state \<Rightarrow> bool" where
  "selects_no_more s \<longleftrightarrow> iRequest (fst s) \<noteq> None \<longrightarrow>
     iStopForMigrate (fst s) \<and> iNextStep (fst s) \<in> ready \<and> iCurrentStep (fst s) \<notin> selecting"

definition waits_ready :: "('m, 'w) compound_state \<Rightarrow> bool" where
  "waits_ready s \<longleftrightarrow> (iRequest (fst s) \<noteq> None \<longrightarrow> iNextStep (fst s) \<in> ready)"

lemma flag_kept:
  "iStopForMigrate (fst s) \<Longrightarrow> vDoRunLoopL cls s = (q, t) \<Longrightarrow> iStopForMigrate (fst t)"
  "iStopForMigrate (fst s) \<Longrightarrow> vNegative cls e s = (r, t) \<Longrightarrow> iStopForMigrate (fst t)"
proof -
  assume stop: "iStopForMigrate (fst s)"
  then have f: "flagged (fst s) = fst s" by (simp add: flagged_def)
  have g: "iStopForMigrate (fst t)" if "(x, t) = apsnd (apfst flagged) (x, t)" for x :: 'x and t :: "('m, 'w) compound_state"
  proof -
    have "flagged (fst t) = fst t" using that by (cases t) simp
    moreover have "iStopForMigrate (flagged (fst t))" by (simp add: flagged_def)
    ultimately show ?thesis by simp
  qed
  show "vDoRunLoopL cls s = (q, t) \<Longrightarrow> iStopForMigrate (fst t)"
    using loop_flag [of "fst s" "snd s"] unflagged [of "fst s"] stop by (intro g [of q]) (auto simp: f)
  show "vNegative cls e s = (r, t) \<Longrightarrow> iStopForMigrate (fst t)"
    using commutesD [OF negative_flag, of e "fst s" "snd s"] by (intro g [of r]) (auto simp: f)
qed

lemma run_loop_ready:
  assumes "run_loop (vDoRunLoopL cls) s = Some (Inr (), t)" "iRequest (fst s) = None" "iReport (fst s)" "iNextStep (fst s) \<in> steps"
  shows "waits_ready t \<and> (iStopForMigrate (fst s) \<longrightarrow> iNextStep (fst s) \<in> ready \<longrightarrow> selects_no_more t)"
  using assms
proof (induction "rank (fst s)" arbitrary: s rule: less_induct)
  case less
  let ?L = "run_loop (vDoRunLoopL cls)"
  obtain q s' where q: "vDoRunLoopL cls s = (q, s')" by (cases "vDoRunLoopL cls s")
  have w: "cwp (vDoRunLoopL cls)
      (\<lambda>finished s'. if finished then iRequest (fst s') = None \<and> answered (fst s) (fst s')
         else still_open (fst s) (fst s') \<and> iNextStep (fst s') \<in> steps
           \<and> (iRequest (fst s') = None \<longrightarrow> rank (fst s') < rank (fst s))) (left_open (fst s)) s"
    using loop [OF less.prems(4,3,2), of "snd s"] by simp
  consider e where "q = Inl e" | "q = Inr True" | "q = Inr False" by (cases q) auto
  then show ?case
  proof cases
    case 1
    with q less.prems show ?thesis by (simp add: run_loop.simps [of _ s])
  next
    case 2
    with q less.prems have "t = s'" by (simp add: run_loop_finish)
    with 2 q w show ?thesis by (simp add: cwp_def waits_ready_def selects_no_more_def)
  next
    case 3
    with w q have s': "iReport (fst s')" "iNextStep (fst s') \<in> steps" "iRequest (fst s') = None \<longrightarrow> rank (fst s') < rank (fst s)"
      by (simp_all add: cwp_def still_open_def)
    have u: "?L s' = Some (Inr (), t)" using 3 q less.prems(1,2) by (simp add: run_loop_step)
    have r: "iStopForMigrate (fst s) \<longrightarrow> iNextStep (fst s) \<in> ready \<longrightarrow>
        iStopForMigrate (fst s') \<and> iNextStep (fst s') \<in> ready \<and> (iRequest (fst s') \<noteq> None \<longrightarrow> iCurrentStep (fst s') \<notin> selecting)"
      using flag_kept(1) [OF _ q] ready_stopped [of "fst s" "snd s" "fst s'" "snd s'"] less.prems(2,4) 3 q by simp
    show ?thesis
    proof (cases "iRequest (fst s')")
      case None
      with less.hyps [OF _ u None s'(1,2)] s'(3) r show ?thesis by simp
    next
      case (Some x)
      with u have "t = s'" by (simp add: run_loop_wait)
      moreover have "iNextStep (fst s') \<in> ready"
        using ready_wait [of "fst s" "snd s" "fst s'" "snd s'"] less.prems(2,4) 3 q Some by simp
      ultimately show ?thesis using r by (simp add: waits_ready_def selects_no_more_def)
    qed
  qed
qed

lemma ready_ended: "iRequest (fst s) = None \<Longrightarrow> waits_ready s \<and> selects_no_more s"
  by (simp add: waits_ready_def selects_no_more_def)

lemma completed_request [simp]: "iRequest (fst (completed_with e s)) = iRequest (fst s)"
  by (simp add: completed_with_def CompoundComplete_def cset_def)

lemma run_result_ready:
  assumes "run_result (run_loop (vDoRunLoopL cls) s) = Some (Inr t)" "iRequest (fst s) = None" "iReport (fst s)"
    "iNextStep (fst s) \<in> steps" "counted n s"
  shows "waits_ready t \<and> (iStopForMigrate (fst s) \<longrightarrow> iNextStep (fst s) \<in> ready \<longrightarrow> selects_no_more t)"
proof -
  obtain r s' where l: "run_loop (vDoRunLoopL cls) s = Some (r, s')" "ended n r s'"
    using run_loop_ends [OF assms(4,3,5)] by blast
  show ?thesis
  proof (cases r)
    case (Inl e)
    with l assms(1) have "iRequest (fst t) = None" by (auto simp: run_result_def ended_def split: if_splits)
    then show ?thesis using ready_ended by blast
  next
    case (Inr u)
    then have t: "t = (if iRequest (fst s') = None then completed_with KErrNone s' else s')"
      using l(1) assms(1) by (simp add: run_result_def)
    have "run_loop (vDoRunLoopL cls) s = Some (Inr (), s')" using l(1) Inr by simp
    from run_loop_ready [OF this assms(2-4)] t ready_ended [of t] show ?thesis by (auto split: if_splits)
  qed
qed

lemma RunL_ready:
  assumes "RunL cls status s = Some (Inr t)" "iReport (fst s)" "iNextStep (fst s) \<in> steps" "counted n s"
  shows "waits_ready t \<and> (iStopForMigrate (fst s) \<longrightarrow> iNextStep (fst s) \<in> ready \<longrightarrow> selects_no_more t)"
proof -
  let ?i = "((fst s)\<lparr> iRequest := None \<rparr>, snd s)"
  have idle: "iNextStep (fst ?i) \<in> steps" "iReport (fst ?i)" "counted n ?i" "iRequest (fst ?i) = None"
    using assms(2-4) by (simp_all add: counted_def)
  consider "system_error status" | "status = KErrNone" | "\<not> system_error status" "status \<noteq> KErrNone" by blast
  then show ?thesis
  proof cases
    case 1
    with assms(1) have "iRequest (fst t) = None" by (auto simp: RunL_def Let_def)
    then show ?thesis using ready_ended by blast
  next
    case 2
    with assms(1) have "run_result (run_loop (vDoRunLoopL cls) ?i) = Some (Inr t)"
      by (simp add: RunL_def Let_def DoRunL_def system_error_def)
    from run_result_ready [OF this idle(4,2,1,3)] show ?thesis by simp
  next
    case 3
    obtain r p where p: "ProcessSessionError cls status ?i = (r, p)" by (cases "ProcessSessionError cls status ?i")
    have w: "cwp (ProcessSessionError cls status)
        (\<lambda>_ s'. iNextStep (fst s') \<in> steps \<and> still_open (fst ?i) (fst s') \<and> iRequest (fst s') = None) (left_open (fst ?i)) ?i"
      unfolding ProcessSessionError_def using negative [OF idle(1,2,4), of status "snd s"] idle
      by (auto intro!: cwp_rules simp: still_open_def)
    show ?thesis
    proof (cases "r = Inr KErrNone")
      case True
      with w p idle(2,3) have i: "iNextStep (fst p) \<in> steps" "iReport (fst p)" "counted n p" "iRequest (fst p) = None"
        by (simp_all add: cwp_def still_open_def counted_def)
      have "run_result (run_loop (vDoRunLoopL cls) p) = Some (Inr t)"
        using assms(1) 3 p True by (simp add: RunL_def Let_def DoRunL_def)
      note rr = run_result_ready [OF this i(4,2,1,3)]
      have "iStopForMigrate (fst s) \<longrightarrow> iNextStep (fst s) \<in> ready \<longrightarrow> iStopForMigrate (fst p) \<and> iNextStep (fst p) \<in> ready"
        using p True flag_kept(2) [of ?i status r p] ready_negative [of "fst ?i" status "snd s" r "fst p" "snd p"]
        by (auto simp: ProcessSessionError_def creturn_def split: if_splits)
      with rr show ?thesis by blast
    next
      case False
      have "iRequest (fst t) = None"
      proof (cases r)
        case (Inl e)
        with w p assms(1) 3 show ?thesis
          by (auto simp: cwp_def left_open_def RunL_def Let_def DoRunL_def run_result_def split: if_splits)
      next
        case (Inr e)
        with w p assms(1) 3 False show ?thesis
          by (auto simp: cwp_def RunL_def Let_def DoRunL_def run_result_def CompoundComplete_def cset_def split: if_splits)
      qed
      then show ?thesis using ready_ended by blast
    qed
  qed
qed

lemma run_all_ready:
  assumes "run_all cls xs s = Some (Inr v)" "open_or_idle s" "counted n s"
  shows "waits_ready s \<Longrightarrow> waits_ready v"
    and "iStopForMigrate (fst s) \<Longrightarrow> waits_ready s \<Longrightarrow> xs \<noteq> [] \<Longrightarrow> selects_no_more v"
proof -
  have step: "open_or_idle s1 \<and> counted n s1 \<and> waits_ready s1
      \<and> (iStopForMigrate (fst s) \<and> waits_ready s \<longrightarrow> selects_no_more s1)"
    if r: "RunL cls x s = Some (Inr s1)" "iRequest (fst s) \<noteq> None" "open_or_idle s" "counted n s" for x s s1
  proof -
    have s: "iReport (fst s)" "iNextStep (fst s) \<in> steps" using r(2,3) by (auto simp: open_or_idle_def)
    from RunL_ready [OF r(1) s r(4)] RunL_ends [OF s r(4), of x] r(1,2) show ?thesis by (auto simp: waits_ready_def)
  qed
  show "waits_ready s \<Longrightarrow> waits_ready v" using assms
  proof (induction xs arbitrary: s)
    case (Cons x xs)
    from Cons.prems(2) obtain s1 where "RunL cls x s = Some (Inr s1)" "iRequest (fst s) \<noteq> None" "run_all cls xs s1 = Some (Inr v)"
      by (auto split: option.splits sum.splits if_splits)
    with step [of x s s1] Cons.IH [of s1] Cons.prems(3,4) show ?case by blast
  qed simp
  have more: "selects_no_more v" if "run_all cls xs s = Some (Inr v)" "open_or_idle s" "counted n s" "selects_no_more s" for xs s
    using that
  proof (induction xs arbitrary: s)
    case (Cons x xs)
    from Cons.prems(1) obtain s1 where s1: "RunL cls x s = Some (Inr s1)" "iRequest (fst s) \<noteq> None" "run_all cls xs s1 = Some (Inr v)"
      by (auto split: option.splits sum.splits if_splits)
    with Cons.prems(4) have "iStopForMigrate (fst s)" "waits_ready s" by (simp_all add: selects_no_more_def waits_ready_def)
    with step [OF s1(1,2) Cons.prems(2,3)] Cons.IH [OF s1(3)] show ?case by blast
  qed simp
  show "selects_no_more v" if stop: "iStopForMigrate (fst s)" "waits_ready s" and ne: "xs \<noteq> []"
  proof -
    obtain x ys where x: "xs = x # ys" using ne by (cases xs) auto
    with assms(1) obtain s1 where s1: "RunL cls x s = Some (Inr s1)" "iRequest (fst s) \<noteq> None" "run_all cls ys s1 = Some (Inr v)"
      by (auto split: option.splits sum.splits if_splits)
    from step [OF s1(1,2) assms(2,3)] stop more [OF s1(3)] show ?thesis by blast
  qed
qed

text \<open>The same for an operation that was just started and ran for a while.\<close>

lemma started_flagged:
  assumes started: "vStartOperation cls (c, w) = (Inr (), s)" "\<not> iReport c" "iRequest c = None" "iCompleted c = []"
    and runs: "run_all cls before s = Some (Inr u)" "run_all cls after u = Some (Inr t)"
  shows "StopForMigrate u = (Inr (), on_state flagged u)"
    and "run_all cls after (on_state flagged u) = Some (Inr (on_state flagged t))
    \<or> (\<exists>xs ys c w. after = xs @ ys \<and> stops_at 1 c
         \<and> run_all cls xs (on_state flagged u) = Some (Inr (susp c, w)) \<and> loop_all cls ys (c, w) = Some (Inr t))"
    and "xs \<noteq> [] \<Longrightarrow> run_all cls xs (on_state flagged u) = Some (Inr v) \<Longrightarrow> iRequest (fst v) \<noteq> None \<Longrightarrow>
      iCurrentStep (fst v) \<notin> selecting"
proof -
  show "StopForMigrate u = (Inr (), on_state flagged u)"
    by (simp add: StopForMigrate_def cset_def on_state_def flagged_def)
  have "open_or_idle s" "counted 1 s"
    using started start [of c w] by (auto simp: cwp_def open_or_idle_def counted_def)
  note s = this
  have "waits_ready s" using started(1) ready_start by (simp add: waits_ready_def)
  note u = run_all_ready(1) [OF runs(1) s this]
  from run_all_waiting [OF runs(1) s] have w: "open_or_idle u" "counted 1 u" by blast+
  have "open_or_idle (on_state flagged u)" "counted 1 (on_state flagged u)" "waits_ready (on_state flagged u)"
    "iStopForMigrate (fst (on_state flagged u))"
    using w u by (simp_all add: open_or_idle_def counted_def waits_ready_def flagged_def)
  then show "xs \<noteq> [] \<Longrightarrow> run_all cls xs (on_state flagged u) = Some (Inr v) \<Longrightarrow> iRequest (fst v) \<noteq> None \<Longrightarrow>
      iCurrentStep (fst v) \<notin> selecting"
    using run_all_ready(2) by (metis selects_no_more_def)
  from w show
    "run_all cls after (on_state flagged u) = Some (Inr (on_state flagged t))
    \<or> (\<exists>xs ys c w. after = xs @ ys \<and> stops_at 1 c
         \<and> run_all cls xs (on_state flagged u) = Some (Inr (susp c, w)) \<and> loop_all cls ys (c, w) = Some (Inr t))"
    by (rule run_all_flagged [OF runs(2)])
qed

end

section \<open>Deleting\<close>

definition delete_stopping :: "'m delete_compound_ext compound_base_scheme \<Rightarrow> bool" where
  "delete_stopping c \<longleftrightarrow> \<not> iStopForMigrate c \<and> iNextStep c = ESelectSourceMailboxRW \<and> delete_compound.iSourceSel c \<noteq> []"

definition delete_susp :: "'m delete_compound_ext compound_base_scheme \<Rightarrow> 'm delete_compound_ext compound_base_scheme" where
  "delete_susp c = c\<lparr> iStopForMigrate := True, iCurrentStep := ESuspendedForMigrate, iReport := False,
     iCompleted := (if iReport c then iCompleted c @ [KErrNone] else iCompleted c) \<rparr>"

lemma commutes_delete_mark [commutes_rules]:
  "commutes flagged (delete_mark sv parent xs)" "commutes answered_before (delete_mark sv parent xs)"
  by (induction xs) (auto intro!: commutes_rules simp: flagged_def answered_before_def)

lemma commutes_delete_steps [commutes_rules]:
  "commutes flagged (delete_store sv)" "commutes answered_before (delete_store sv)"
  "commutes flagged (DeleteLocalMessagesL sv)" "commutes answered_before (DeleteLocalMessagesL sv)"
  "commutes answered_before (delete_select sv)"
  unfolding delete_store_def DeleteLocalMessagesL_def delete_select_def Let_def
  by (auto intro!: commutes_rules commutes_self split: list.split simp: flagged_def answered_before_def)

lemma commutes_delete_negative [commutes_rules]:
  "commutes flagged (delete_negative sv e)" "commutes answered_before (delete_negative sv e)"
  unfolding delete_negative_def Let_def
  by (auto intro!: commutes_rules commutes_self split: list.split simp: flagged_def answered_before_def)

lemma commutes_delete_loop: "commutes answered_before (delete_loop sv)"
  unfolding delete_loop_def
  by (intro commutes_rules commutes_self)
    (auto intro!: commutes_rules commutes_self split: compound_step.split simp: answered_before_def)

lemma delete_loop_flag:
  assumes "\<not> delete_stopping c"
  shows "delete_loop sv (flagged c, w) = apsnd (apfst flagged) (delete_loop sv (c, w))"
proof -
  let ?c = "c\<lparr> iCurrentStep := iNextStep c \<rparr>"
  have current: "SetCurrentStep (b, w) = (Inr (), (b\<lparr> iCurrentStep := iNextStep b \<rparr>, w))" for b :: "'a delete_compound_ext compound_base_scheme"
    by (simp add: SetCurrentStep_def cset_def)
  have f: "(flagged c)\<lparr> iCurrentStep := x \<rparr> = flagged (c\<lparr> iCurrentStep := x \<rparr>)"
    "iParentFolder (flagged b) = iParentFolder b" for x and b :: "'a delete_compound_ext compound_base_scheme"
    by (simp_all add: flagged_def)
  consider "iNextStep c = ESelectSourceMailboxRW" "iStopForMigrate c" | "iNextStep c = ESelectSourceMailboxRW" "delete_compound.iSourceSel c = []"
    | "iNextStep c \<noteq> ESelectSourceMailboxRW"
    using assms by (auto simp: delete_stopping_def)
  then show ?thesis
  proof cases
    case 1
    have "flagged c = c" using 1(2) by (simp add: flagged_def)
    then show ?thesis using 1
      by (auto simp: delete_loop_def cbind_def current cread_def delete_select_def suspend_def cset_def CompoundComplete_def
          go_on_def next_step_def creturn_def flagged_def)
  next
    case 2
    then show ?thesis
      by (simp add: delete_loop_def cbind_def current cread_def delete_select_def cset_def go_on_def next_step_def
          creturn_def flagged_def)
  next
    case 3
    then show ?thesis
      by (simp add: delete_loop_def cbind_def current cread_def f split: compound_step.split)
        (intro conjI impI commutesD; intro commutes_rules)
  qed
qed

lemma delete_loop_stop:
  assumes "delete_stopping c"
  shows "delete_loop sv (flagged c, w) = (Inr True, (delete_susp c, w))"
  using assms
  by (simp add: delete_stopping_def delete_loop_def cbind_def SetCurrentStep_def cread_def delete_select_def suspend_def
      cset_def CompoundComplete_def creturn_def flagged_def delete_susp_def)

lemma keepsD: "keeps g m \<Longrightarrow> g c = x \<Longrightarrow> g (fst (snd (m (c, w)))) = x"
  unfolding keeps_def by (metis fst_conv prod.collapse)

lemma keeps_current_active [keeps_rules]:
  "keeps iCurrentStep (SetActive r)" "keeps iCurrentStep (next_step x)" "keeps iCurrentStep (progress p)"
  "keeps iCurrentStep (CompoundComplete e)" "keeps iCurrentStep (finish p)" "keeps iCurrentStep unexpected"
  "keeps iCurrentStep (cdo ms) \<Longrightarrow> keeps iCurrentStep (go_on ms)"
  "(\<And>x. keeps iCurrentStep (m x)) \<Longrightarrow> keeps iCurrentStep (on_folder_object f m)"
  "keeps iCurrentStep (await sv r)"
  unfolding SetActive_def next_step_def progress_def CompoundComplete_def finish_def unexpected_def go_on_def await_def
    on_folder_object_def
  by (auto intro!: keeps_rules split: option.split)

lemma keeps_current_delete [keeps_rules]:
  "keeps iCurrentStep (delete_mark sv p xs)" "keeps iCurrentStep (delete_store sv)" "keeps iCurrentStep (DeleteLocalMessagesL sv)"
proof -
  have m: "keeps iCurrentStep (delete_mark sv p xs)" for p xs by (induction xs) (auto intro!: keeps_rules)
  then show "keeps iCurrentStep (delete_mark sv p xs)" .
  from m show "keeps iCurrentStep (delete_store sv)" "keeps iCurrentStep (DeleteLocalMessagesL sv)"
    unfolding delete_store_def DeleteLocalMessagesL_def Let_def by (auto intro!: keeps_rules split: list.split)
qed

lemma run_current: "SetCurrentStep (b, w) = (Inr (), (b\<lparr> iCurrentStep := iNextStep b \<rparr>, w))"
  by (simp add: SetCurrentStep_def cset_def)

lemma delete_loop_at:
  assumes "iNextStep c \<noteq> ESelectSourceMailboxRW" "delete_loop sv (c, w) = (r, (c', w'))"
  shows "iCurrentStep c' = iNextStep c"
proof -
  have "iCurrentStep (fst (snd (delete_loop sv (c, w)))) = iNextStep c"
    using assms(1)
    by (simp add: delete_loop_def cbind_def [of SetCurrentStep] run_current cbind_def [of "cread id"] cread_def
        split: compound_step.split)
      (intro conjI impI; rule keepsD [where g = iCurrentStep]; (intro keeps_rules)?; simp)
  then show ?thesis using assms(2) by simp
qed

lemma delete_loop_stopped:
  assumes "iStopForMigrate c" "iRequest c = None" "delete_loop sv (c, w) = (Inr False, (c', w'))" "iRequest c' \<noteq> None"
  shows "iCurrentStep c' \<noteq> ESelectSourceMailboxRW"
proof (cases "iNextStep c = ESelectSourceMailboxRW")
  case True
  with assms show ?thesis
    by (auto simp: delete_loop_def cbind_def SetCurrentStep_def cread_def delete_select_def suspend_def cset_def
        CompoundComplete_def go_on_def next_step_def creturn_def split: if_splits)
next
  case False
  with delete_loop_at [OF False assms(3)] show ?thesis by simp
qed

interpretation delete_stop: stoppable "delete_class sv" delete_steps delete_rank delete_stopping delete_susp UNIV "{ESelectSourceMailboxRW}"
proof (unfold_locales, goal_cases)
  case (1 e)
  show ?case by (simp add: delete_class_def commutes_rules)
next
  case (2 c w)
  then show ?case by (simp add: delete_class_def delete_loop_flag)
next
  case (3 c w)
  then show ?case by (simp add: delete_class_def delete_loop_stop)
qed (auto simp: delete_susp_def delete_stopping_def delete_class_def dest: delete_loop_stopped)

text \<open>Resumed, the deletion goes on from where it stopped; its client has one more answer.\<close>

lemma delete_loop_current: "delete_loop sv (c\<lparr> iCurrentStep := x \<rparr>, w) = delete_loop sv (c, w)"
  by (simp add: delete_loop_def cbind_def SetCurrentStep_def cset_def)

lemma delete_resumed:
  assumes c: "delete_stop.stops_at 1 c" and l: "loop_all (delete_class sv) ys (c, w) = Some (Inr t)"
  shows "\<exists>s3. vResumeOperationL (delete_class sv) (delete_susp c, w) = (Inr (), s3)
    \<and> run_all (delete_class sv) (KErrNone # ys) s3 = Some (Inr (on_state answered_before t))"
proof -
  let ?b = "c\<lparr> iCurrentStep := ESuspendedForMigrate \<rparr>"
  let ?c3 = "(delete_susp c)\<lparr> iStopForMigrate := False, iRequest := Some RqSelf, iReport := True \<rparr>"
  have c': "\<not> iStopForMigrate c" "iNextStep c = ESelectSourceMailboxRW" "iRequest c = None" "iReport c" "iCompleted c = []"
    using c by (simp_all add: delete_stop.stops_at_def delete_stopping_def)
  have "vResumeOperationL (delete_class sv) (delete_susp c, w) = (Inr (), (?c3, w))"
    using c' by (simp add: delete_class_def delete_resume_def resume_with_def delete_susp_def CompoundQueue_def CompleteSelf_def
        SetActive_def cbind_def cread_def cset_def)
  moreover have "?c3\<lparr> iRequest := None \<rparr> = answered_before ?b"
    using c' by (simp add: delete_susp_def answered_before_def)
  then have "run_all (delete_class sv) (KErrNone # ys) (?c3, w) = loop_all (delete_class sv) ys (answered_before ?b, w)"
    by (simp add: run_all_ok idle_def del: run_all.simps)
  moreover have "loop_all (delete_class sv) ys (?b, w) = Some (Inr t)"
  proof -
    have "run_loop (delete_loop sv) (?b, w) = run_loop (delete_loop sv) (c, w)"
      using c'(3) by (simp add: run_loop.simps [of _ "(?b, w)"] run_loop.simps [of _ "(c, w)"] delete_loop_current)
    then show ?thesis using l by (simp add: loop_all_def delete_class_def)
  qed
  then have "loop_all (delete_class sv) ys (on_state answered_before (?b, w)) = Some (Inr (on_state answered_before t))"
    by (intro loop_all_commutes plain_changes) (simp_all add: delete_class_def commutes_delete_loop commutes_rules)
  ultimately show ?thesis by simp
qed

section \<open>Moving within the service\<close>

definition copy_within_stopping :: "'m copy_within_compound_ext compound_base_scheme \<Rightarrow> bool" where
  "copy_within_stopping c \<longleftrightarrow> \<not> iStopForMigrate c \<and> iNextStep c = ESetSourceMailbox
     \<and> iMsgsCopied c < length (copy_within_compound.iSourceSel c)"

definition copy_within_susp :: "'m copy_within_compound_ext compound_base_scheme \<Rightarrow> 'm copy_within_compound_ext compound_base_scheme" where
  "copy_within_susp c = c\<lparr> iStopForMigrate := True, iCurrentStep := ESuspendedForMigrate, iMsgsDone := iMsgsDone c + iMsgsCopied c,
     iMsgsCopied := 0, copy_within_compound.iSourceSel := drop (iMsgsCopied c) (copy_within_compound.iSourceSel c),
     iReport := False, iCompleted := (if iReport c then iCompleted c @ [KErrNone] else iCompleted c) \<rparr>"

lemma commutes_copy_uids [commutes_rules]: "commutes flagged (copy_uids sv folder xs)"
  by (induction xs) (auto intro!: commutes_rules simp: flagged_def)

lemma commutes_mark_deleted [commutes_rules]: "commutes U (mark_deleted sv n xs)"
  by (induction sv n xs rule: mark_deleted.induct) (auto intro!: commutes_rules)

lemma commutes_copy_within_steps [commutes_rules]:
  "commutes flagged (CopyMessagesL sv)" "commutes flagged (MarkMessageForDeletesL sv)" "commutes flagged (DeleteMovedMessagesL sv)"
  unfolding CopyMessagesL_def MarkMessageForDeletesL_def DeleteMovedMessagesL_def Let_def
  by (auto intro!: commutes_rules commutes_self split: list.split simp: flagged_def)

lemma commutes_copy_within_negative [commutes_rules]: "commutes flagged (copy_within_negative sv e)"
  unfolding copy_within_negative_def Let_def handled_def
  by (auto intro!: commutes_rules commutes_self split: list.split simp: flagged_def)

lemma copy_within_loop_flag:
  assumes "\<not> copy_within_stopping c"
  shows "copy_within_loop sv (flagged c, w) = apsnd (apfst flagged) (copy_within_loop sv (c, w))"
proof -
  have current: "SetCurrentStep (b, w) = (Inr (), (b\<lparr> iCurrentStep := iNextStep b \<rparr>, w))" for b :: "'a copy_within_compound_ext compound_base_scheme"
    by (simp add: SetCurrentStep_def cset_def)
  have f: "(flagged c)\<lparr> iCurrentStep := x \<rparr> = flagged (c\<lparr> iCurrentStep := x \<rparr>)"
    "iSourceFolder (flagged b) = iSourceFolder b" "copy_within_compound.iDestinationFolder (flagged b) = copy_within_compound.iDestinationFolder b"
    "copy_within_compound.iDestinationId (flagged b) = copy_within_compound.iDestinationId b" "copy_within_compound.iIsMove (flagged b) = copy_within_compound.iIsMove b"
    for x and b :: "'a copy_within_compound_ext compound_base_scheme"
    by (simp_all add: flagged_def)
  consider "iNextStep c = ESetSourceMailbox" "iStopForMigrate c"
    | "iNextStep c = ESetSourceMailbox" "length (copy_within_compound.iSourceSel c) \<le> iMsgsCopied c"
    | "iNextStep c \<noteq> ESetSourceMailbox"
    using assms by (force simp: copy_within_stopping_def)
  then show ?thesis
  proof cases
    case 1
    have "flagged c = c" using 1(2) by (simp add: flagged_def)
    then show ?thesis using 1
      by (auto simp: copy_within_loop_def cbind_def current cread_def copy_within_source_def increment_progress_def suspend_def
          cset_def CompoundComplete_def go_on_def next_step_def creturn_def cleave_def flagged_def split: list.split)
  next
    case 2
    then show ?thesis
      by (simp add: copy_within_loop_def cbind_def current cread_def copy_within_source_def increment_progress_def cset_def
          go_on_def next_step_def creturn_def cleave_def flagged_def)
  next
    case 3
    then show ?thesis
      by (simp add: copy_within_loop_def cbind_def [of SetCurrentStep] current cbind_def [of "cread id"] cread_def f split: compound_step.split)
        (intro conjI impI commutesD; intro commutes_rules; simp add: flagged_def)
  qed
qed

lemma copy_within_loop_stop:
  assumes "copy_within_stopping c"
  shows "copy_within_loop sv (flagged c, w) = (Inr True, (copy_within_susp c, w))"
  using assms
  by (auto simp: copy_within_stopping_def copy_within_loop_def cbind_def SetCurrentStep_def cread_def copy_within_source_def
      increment_progress_def suspend_def cset_def CompoundComplete_def creturn_def flagged_def copy_within_susp_def split: list.split)

lemma keeps_current_move [keeps_rules]:
  "keeps iCurrentStep (copy_uids sv p xs)" "keeps iCurrentStep (mark_deleted sv n ys)" "keeps iCurrentStep (CopyMessagesL sv)"
  "keeps iCurrentStep (MarkMessageForDeletesL sv)" "keeps iCurrentStep (DeleteMovedMessagesL sv)"
proof -
  have m1: "keeps iCurrentStep (copy_uids sv p xs)" for p xs
    by (induction xs) (auto intro!: keeps_rules)
  have m2: "keeps iCurrentStep (mark_deleted sv n ys)" for n ys
    by (induction sv n ys rule: mark_deleted.induct) (auto intro!: keeps_rules)
  show "keeps iCurrentStep (copy_uids sv p xs)" "keeps iCurrentStep (mark_deleted sv n ys)" by (rule m1 m2)+
  from m1 m2 show "keeps iCurrentStep (CopyMessagesL sv)" "keeps iCurrentStep (MarkMessageForDeletesL sv)"
    "keeps iCurrentStep (DeleteMovedMessagesL sv)"
    unfolding CopyMessagesL_def MarkMessageForDeletesL_def DeleteMovedMessagesL_def Let_def
    by (auto intro!: keeps_rules)
qed

lemma copy_within_loop_at:
  assumes "iNextStep c \<noteq> ESetSourceMailbox" "copy_within_loop sv (c, w) = (r, (c', w'))"
  shows "iCurrentStep c' = iNextStep c"
proof -
  have "iCurrentStep (fst (snd (copy_within_loop sv (c, w)))) = iNextStep c"
    using assms(1)
    by (simp add: copy_within_loop_def cbind_def [of SetCurrentStep] run_current cbind_def [of "cread id"] cread_def
        split: compound_step.split)
      (intro conjI impI; rule keepsD [where g = iCurrentStep]; (intro keeps_rules)?; simp)
  then show ?thesis using assms(2) by simp
qed

lemma copy_within_loop_next:
  assumes "iNextStep c \<in> copy_within_steps"
  shows "cwp (copy_within_loop sv) (\<lambda>finished s. \<not> finished \<longrightarrow> iNextStep (fst s) \<notin> {ESelectSourceMailboxRW, ESelectSourceMailboxRO}
     \<or> iNextStep c = ESetSourceMailbox \<and> iRequest (fst s) = iRequest c) (\<lambda>e s. True) (c, w)"
proof -
  have "iNextStep c \<in> {ECheckDestinationMailbox, ESetSourceMailbox, ESelectSourceMailboxRW, ESelectSourceMailboxRO, ECopyMessage,
     EDeleteMessage, EExpunge, ECloseFolder, ESelectFolderAfterClose, EDeleteLocalMessage, ESelectDestinationMailboxRO, ENewSyncFolder, EFinished}"
    using assms by (simp add: copy_within_steps_def)
  then show ?thesis
    unfolding copy_within_loop_def
    by (intro cwp_current)
      (auto simp: copy_within_source_def SetSourceFolderL_def increment_progress_def CopyMessagesL_def MarkMessageForDeletesL_def
        DeleteMovedMessagesL_def control_def compound_defs Let_def intro!: cwp_rules split: list.splits option.splits if_splits)
qed

lemma copy_within_loop_stopped:
  assumes "iNextStep c \<in> copy_within_steps" "iStopForMigrate c" "iNextStep c \<notin> {ESelectSourceMailboxRW, ESelectSourceMailboxRO}" "iRequest c = None"
    "copy_within_loop sv (c, w) = (Inr False, (c', w'))"
  shows "iNextStep c' \<notin> {ESelectSourceMailboxRW, ESelectSourceMailboxRO}
    \<and> (iRequest c' \<noteq> None \<longrightarrow> iCurrentStep c' \<notin> {ESelectSourceMailboxRW, ESelectSourceMailboxRO})"
proof (cases "iNextStep c = ESetSourceMailbox")
  case True
  with assms show ?thesis
    by (auto simp: copy_within_loop_def cbind_def SetCurrentStep_def cread_def copy_within_source_def increment_progress_def
        suspend_def cset_def CompoundComplete_def go_on_def next_step_def creturn_def cleave_def split: if_splits list.splits)
next
  case False
  with copy_within_loop_at [OF False assms(5)] copy_within_loop_next [OF assms(1), of sv w] assms(3,5) show ?thesis by (simp add: cwp_def)
qed

lemma copy_within_negative_next:
  assumes "copy_within_negative sv e (c, w) = (r, (c', w'))"
  shows "iNextStep c' = iNextStep c \<or> iNextStep c' = EFinished"
proof -
  have "cwp (copy_within_negative sv e) (\<lambda>_ s. iNextStep (fst s) = iNextStep c \<or> iNextStep (fst s) = EFinished)
      (\<lambda>_ s. iNextStep (fst s) = iNextStep c \<or> iNextStep (fst s) = EFinished) (c, w)"
    by (auto simp: copy_within_negative_def handled_def compound_defs control_def Let_def intro!: cwp_rules)
  with assms show ?thesis by (cases r) (simp_all add: cwp_def)
qed

interpretation copy_within_stop: stoppable "copy_within_class sv" copy_within_steps copy_within_rank copy_within_stopping copy_within_susp
    "- {ESelectSourceMailboxRW, ESelectSourceMailboxRO}" "{ESelectSourceMailboxRW, ESelectSourceMailboxRO}"
proof (unfold_locales, goal_cases)
  case (1 e)
  show ?case by (simp add: copy_within_class_def commutes_rules)
next
  case (2 c w)
  then show ?case by (simp add: copy_within_class_def copy_within_loop_flag)
next
  case (3 c w)
  then show ?case by (simp add: copy_within_class_def copy_within_loop_stop)
next
  case (7 c w c' w')
  then show ?case using copy_within_loop_next [of c sv w] by (auto simp: cwp_def copy_within_class_def)
next
  case (10 c w c' w')
  then show ?case using copy_within_loop_stopped [of c sv w c' w'] by (simp add: copy_within_class_def)
next
  case (8 c w s)
  then show ?case
    by (auto simp: copy_within_class_def start_operation_def cbind_def next_step_def CompoundQueue_def CompleteSelf_def
        SetActive_def cread_def cset_def cleave_def split: if_splits)
qed (auto simp: copy_within_susp_def copy_within_stopping_def copy_within_class_def dest: copy_within_negative_next)

end
