(* ===== verification/Imap_Compound_Props.thy ===== *)
theory Imap_Compound_Props
  imports Imap_Compound_Runs Imap_Compound_Stop
begin

text \<open>
  The properties of the compound operations of the IMAP protocol controller, with their witnesses on a
  small message store.
\<close>

section \<open>A small message store\<close>

type_synonym small_store = "store_view \<times> msv_entry \<times> service_request list"

definition some_entry :: "msv_id \<Rightarrow> entry_type \<Rightarrow> msv_id \<Rightarrow> tint \<Rightarrow> msv_entry" where
  "some_entry x t p uid =
     \<lparr> eId = x, eType = t, eParent = p, eUid = uid, eDetails = [], eError = KErrNone, eSize = 0, eComplete = True,
       eMailbox = (t = KUidMsvFolderEntry), eValidUid = True, eSubscribed = False, eUnread = False,
       eDeletedFlag = False, eSeenFlag = False \<rparr>"

definition small_services :: "small_store services" where
  "small_services =
     \<lparr> svSetEntry = (\<lambda>x (v, e, l). case v x of None \<Rightarrow> (KErrNotFound, (v, e, l)) | Some e' \<Rightarrow> (KErrNone, (v, e', l))),
       svEntry = (\<lambda>(v, e, l). e),
       svChangeEntry = (\<lambda>e' (v, e, l). (KErrNone, (v(eId e' \<mapsto> e'), e', l))),
       svCreateEntry = (\<lambda>e' (v, e, l). (eId e', (v(eId e' \<mapsto> e'), e, l))),
       svDeleteEntry = (\<lambda>x (v, e, l). (KErrNone, (v(x := None), e, l))),
       svGetChildren = (\<lambda>w. (Inr [], w)),
       svGetFolder = (\<lambda>x _ (v, e, l). (Inr (case v x of None \<Rightarrow> False | Some f \<Rightarrow> eMailbox f), (v, e, l))),
       svFullFolderPath = (\<lambda>x w. (Inr [], w)),
       svMakePath = (\<lambda>x w. (Inr [], w)),
       svDeleteFolderContents = (\<lambda>x w. (Inr (), w)),
       svRemoveFolder = (\<lambda>x w. (Inr (), w)),
       svRenameLocal = (\<lambda>x name w. (Inr (), w)),
       svIssue = (\<lambda>r (v, e, l). (Inr (), (v, e, l @ [r]))),
       svInbox = (\<lambda>_. 0x1010),
       svChanged = (\<lambda>x w. True),
       svExists = (\<lambda>_. 0),
       svListed = (\<lambda>_. 0),
       svServiceId = 0x1001,
       svPathSeparator = [],
       svUseExpunge = True,
       svDeleteWhenDisconnecting = True,
       svDepth = 8 \<rparr>"

definition small_model :: "small_store store_model" where
  "small_model = \<lparr> viewed = fst, logged = (\<lambda>w. snd (snd w)), pathed = (\<lambda>_. []) \<rparr>"

text \<open>Two mailboxes with a message each, and an empty one.\<close>

definition small_view :: store_view where
  "small_view =
     [0x1010 \<mapsto> some_entry 0x1010 KUidMsvFolderEntry 0x1001 0, 0x1011 \<mapsto> some_entry 0x1011 KUidMsvFolderEntry 0x1001 0,
      0x1012 \<mapsto> some_entry 0x1012 KUidMsvFolderEntry 0x1001 0,
      0x1021 \<mapsto> some_entry 0x1021 KUidMsvMessageEntry 0x1010 7, 0x1022 \<mapsto> some_entry 0x1022 KUidMsvMessageEntry 0x1011 9]"

definition small_world :: small_store where
  "small_world = (small_view, some_entry 0x1001 KUidMsvServiceEntry 0x1000 0, [])"

lemma small_services_ok: "message_services small_services small_model"
  by (auto simp: message_services_def store_entries_def folder_services_def unchanged_def small_services_def small_model_def
      split: option.splits)

lemma small_selection: "selection_in small_view [0x1021, 0x1022]"
  by (simp add: selection_in_def in_mailbox_def small_view_def some_entry_def)

lemma small_world_view: "viewed small_model small_world = small_view" "logged small_model small_world = []"
  by (simp_all add: small_model_def small_world_def)

lemma small_groups:
  "folder_groups (folder_of small_view) [0x1021, 0x1022] = [[0x1021], [0x1022]]"
  by (simp add: folder_of_def small_view_def some_entry_def)

section \<open>Properties\<close>

text \<open>C10: the messages of a selection are deleted: when the requests succeed, the operation selects each folder in turn,
  marks its messages by their UIDs, expunges them and deletes them from the message store, and answers its
  client; nothing else of the store changes.\<close>

theorem delete_completes:
  assumes S: "message_services sv M" and c: "delete_fresh sel c" and sel: "selection_in (viewed M w) sel"
    and start: "vStartOperation (delete_class sv) (c, w) = (Inr (), s)"
  defines "reqs \<equiv> delete_requests sv (viewed M w) sel"
  shows "\<exists>c' w'. run_all (delete_class sv) (replicate (Suc (length reqs)) KErrNone) s = Some (Inr (c', w'))
    \<and> iCompleted c' = [KErrNone] \<and> \<not> iReport c' \<and> delete_compound.iSourceSel c' = []
    \<and> viewed M w' = without (viewed M w) (set sel) \<and> logged M w' = logged M w @ reqs"
proof -
  obtain c' where c': "run_all (delete_class sv) (KErrNone # replicate (length reqs) KErrNone) s
      = loop_all (delete_class sv) (replicate (length reqs) KErrNone) (c', w)"
    "delete_at [] ESelectSourceMailboxRW sel 0 c'"
    using delete_started [OF c start] by metis
  from delete_all [OF S c'(2) sel] c'(1) show ?thesis by (simp add: reqs_def del: run_all.simps)
qed

text \<open>C11: a folder the server refuses to select blocks the deletion: the operation selects it again, once for every
  message of the selection, writes the error to the first message only, counts them all as done, and tells
  its client that all went well; the other folders are never selected.\<close>

theorem refused_select_blocks:
  assumes S: "message_services sv M" and c: "delete_fresh (x # sel) c"
    and x: "in_mailbox (viewed M w) x" "viewed M w x = Some e"
    and start: "vStartOperation (delete_class sv) (c, w) = (Inr (), s)"
  shows "\<exists>c' w'. run_all (delete_class sv) (KErrNone # replicate (length (x # sel)) KErrImapNo) s = Some (Inr (c', w'))
    \<and> iCompleted c' = [KErrNone] \<and> iProgressErrorCode c' = KErrNotFound \<and> iProgressMsgsDone c' = length (x # sel)
    \<and> delete_compound.iSourceSel c' = x # sel \<and> viewed M w' = (viewed M w)(x \<mapsto> e\<lparr> eError := KErrNotFound \<rparr>)
    \<and> logged M w' = logged M w @ replicate (length (x # sel)) (RqSelect (folder_of (viewed M w) x))"
proof -
  obtain c' where c': "run_all (delete_class sv) (KErrNone # replicate (length (x # sel)) KErrImapNo) s
      = loop_all (delete_class sv) (replicate (length (x # sel)) KErrImapNo) (c', w)"
    "delete_at [] ESelectSourceMailboxRW (x # sel) 0 c'" "iProgressMsgsDone c' = 0" "iProgressMsgsToDo c' = length (x # sel)"
    using delete_started [OF c start] by metis
  from delete_refused [OF S c'(2) x(1) refl x(2), of "length sel"] c' show ?thesis by (simp del: run_all.simps)
qed

text \<open>C12: messages are moved within the service: when the requests succeed, each folder is selected, its messages are
  copied, marked and expunged, and the destination is synchronised. Of the messages of a folder the local
  store loses only as many as there are more than were moved before; the others stay, marked as deleted.\<close>

theorem move_completes:
  assumes S: "message_services sv M" and c: "move_fresh sel dest c" and sel: "selection_in (viewed M w) sel"
    and f0: "\<And>x. x \<in> set sel \<Longrightarrow> folder_of (viewed M w) x \<noteq> 0"
    and dest: "viewed M w dest = Some d" "eMailbox d" "dest \<notin> set sel"
    and changed: "\<And>w. svChanged sv dest w = changed"
    and start: "vStartOperation (copy_within_class sv) (c, w) = (Inr (), s)"
  defines "reqs \<equiv> all_move_requests sv M dest (viewed M w) sel @ destination_requests dest changed"
  shows "\<exists>c' w'. run_all (copy_within_class sv) (replicate (Suc (length reqs)) KErrNone) s = Some (Inr (c', w'))
    \<and> iCompleted c' = [KErrNone] \<and> \<not> iReport c' \<and> copy_within_compound.iSourceSel c' = []
    \<and> viewed M w' = without (marking (viewed M w) (set sel))
        (set (locally_deleted 0 (folder_groups (folder_of (viewed M w)) sel)))
    \<and> logged M w' = logged M w @ reqs"
proof -
  from move_started [OF S c start dest(1,2)] obtain c1 w1 where
    s1: "\<forall>stats. run_all (copy_within_class sv) (KErrNone # stats) s = loop_all (copy_within_class sv) stats (c1, w1)"
      "move_at [] dest ESetSourceMailbox sel 0 0 c1" "source_known c1" "viewed M w1 = viewed M w" "logged M w1 = logged M w"
    by blast
  have "move_at [] dest ESetSourceMailbox ([] @ sel) 0 (length ([] :: msv_id list)) c1" using s1(2) by simp
  from move_all [OF S this s1(3), of w1] sel f0 dest changed s1(1,4,5) show ?thesis
    by (simp add: reqs_def del: run_all.simps)
qed

text \<open>C13: a deletion that is told to stop for a migration, between any two of its runs and whatever its requests end
  with, selects no further folder. Either it ends as it would have ended, or it suspends before it selects the next
  folder: it answers its client, the messages it has not dealt with stay selected, and when it is resumed it goes on to
  the same store, the same requests and the same members as the deletion that was never stopped, with one answer more.\<close>

theorem stopped_delete_resumes:
  assumes c: "delete_fresh sel c" and start: "vStartOperation (delete_class sv) (c, w) = (Inr (), s)"
    and runs: "run_all (delete_class sv) before s = Some (Inr u)" "run_all (delete_class sv) after u = Some (Inr t)"
  shows "\<exists>s1. StopForMigrate u = (Inr (), s1)
    \<and> (run_all (delete_class sv) after s1 = Some (Inr ((fst t)\<lparr> iStopForMigrate := True \<rparr>, snd t))
       \<or> (\<exists>xs ys s2 s3. after = xs @ ys \<and> run_all (delete_class sv) xs s1 = Some (Inr s2)
            \<and> Suspended (fst s2) \<and> iCompleted (fst s2) = [KErrNone] \<and> delete_compound.iSourceSel (fst s2) \<noteq> []
            \<and> vResumeOperationL (delete_class sv) s2 = (Inr (), s3)
            \<and> run_all (delete_class sv) (KErrNone # ys) s3
                = Some (Inr ((fst t)\<lparr> iCompleted := KErrNone # iCompleted (fst t) \<rparr>, snd t))))
    \<and> (\<forall>xs v. xs \<noteq> [] \<longrightarrow> run_all (delete_class sv) xs s1 = Some (Inr v) \<longrightarrow> iRequest (fst v) \<noteq> None \<longrightarrow>
         iCurrentStep (fst v) \<noteq> ESelectSourceMailboxRW)"
proof -
  have c': "\<not> iReport c" "iRequest c = None" "iCompleted c = []" using c by (simp_all add: delete_fresh_def)
  note stop = delete_stop.started_flagged [OF start c' runs]
  have "\<forall>xs v. xs \<noteq> [] \<longrightarrow> run_all (delete_class sv) xs (on_state flagged u) = Some (Inr v) \<longrightarrow> iRequest (fst v) \<noteq> None \<longrightarrow>
      iCurrentStep (fst v) \<notin> {ESelectSourceMailboxRW}"
    using stop(3) by blast
  note stop = stop(1,2) this
  from stop(2) show ?thesis
  proof
    assume "run_all (delete_class sv) after (on_state flagged u) = Some (Inr (on_state flagged t))"
    with stop(1,3) show ?thesis
      by (intro exI [of _ "on_state flagged u"]) (auto simp: on_state_def flagged_def simp del: run_all.simps)
  next
    assume "\<exists>xs ys c w. after = xs @ ys \<and> delete_stop.stops_at 1 c
      \<and> run_all (delete_class sv) xs (on_state flagged u) = Some (Inr (delete_susp c, w))
      \<and> loop_all (delete_class sv) ys (c, w) = Some (Inr t)"
    then obtain xs ys c w where x: "after = xs @ ys" "delete_stop.stops_at 1 c"
      "run_all (delete_class sv) xs (on_state flagged u) = Some (Inr (delete_susp c, w))"
      "loop_all (delete_class sv) ys (c, w) = Some (Inr t)" by blast
    from delete_resumed [OF x(2,4)] obtain s3 where
      "vResumeOperationL (delete_class sv) (delete_susp c, w) = (Inr (), s3)"
      "run_all (delete_class sv) (KErrNone # ys) s3 = Some (Inr ((fst t)\<lparr> iCompleted := KErrNone # iCompleted (fst t) \<rparr>, snd t))"
      by (auto simp: on_state_def answered_before_def simp del: run_all.simps)
    moreover have "Suspended (delete_susp c)" "iCompleted (delete_susp c) = [KErrNone]" "delete_compound.iSourceSel (delete_susp c) \<noteq> []"
      using x(2) by (simp_all add: delete_stop.stops_at_def delete_stopping_def delete_susp_def Suspended_def)
    ultimately show ?thesis
      using stop(1,3) x(1,3) by (intro exI [of _ "on_state flagged u"] conjI disjI2 exI [of _ xs] exI [of _ ys]
        exI [of _ "(delete_susp c, w)"] exI [of _ s3]) (simp_all del: run_all.simps)
  qed
qed

text \<open>C14: a move that is told to stop for a migration, between any two of its runs and whatever its requests end with,
  selects no further folder of its messages. Either it ends as it would have ended, or it suspends before it selects the
  next folder and is lost from there on: it answers its client that all went well, and when it is resumed it says so
  once more, without a request to the server and without a change to the store, while messages of its selection are
  still to be moved.\<close>

theorem stopped_move_is_abandoned:
  assumes c: "move_fresh sel dest c" and start: "vStartOperation (copy_within_class sv) (c, w) = (Inr (), s)"
    and runs: "run_all (copy_within_class sv) before s = Some (Inr u)" "run_all (copy_within_class sv) after u = Some (Inr t)"
  shows "\<exists>s1. StopForMigrate u = (Inr (), s1)
    \<and> (run_all (copy_within_class sv) after s1 = Some (Inr ((fst t)\<lparr> iStopForMigrate := True \<rparr>, snd t))
       \<or> (\<exists>xs ys s2 s3 c'. after = xs @ ys \<and> run_all (copy_within_class sv) xs s1 = Some (Inr s2)
            \<and> Suspended (fst s2) \<and> iCompleted (fst s2) = [KErrNone] \<and> copy_within_compound.iSourceSel (fst s2) \<noteq> []
            \<and> vResumeOperationL (copy_within_class sv) s2 = (Inr (), s3)
            \<and> run_all (copy_within_class sv) [KErrNone] s3 = Some (Inr (c', snd s2)) \<and> iCompleted c' = [KErrNone, KErrNone]
            \<and> copy_within_compound.iSourceSel c' = copy_within_compound.iSourceSel (fst s2)
            \<and> iProgressErrorCode c' = iProgressErrorCode (fst s2)))
    \<and> (\<forall>xs v. xs \<noteq> [] \<longrightarrow> run_all (copy_within_class sv) xs s1 = Some (Inr v) \<longrightarrow> iRequest (fst v) \<noteq> None \<longrightarrow>
         iCurrentStep (fst v) \<notin> {ESelectSourceMailboxRW, ESelectSourceMailboxRO})"
proof -
  have c': "\<not> iReport c" "iRequest c = None" "iCompleted c = []" using c by (simp_all add: move_fresh_def)
  note stop = copy_within_stop.started_flagged [OF start c' runs]
  have "\<forall>xs v. xs \<noteq> [] \<longrightarrow> run_all (copy_within_class sv) xs (on_state flagged u) = Some (Inr v) \<longrightarrow> iRequest (fst v) \<noteq> None \<longrightarrow>
      iCurrentStep (fst v) \<notin> {ESelectSourceMailboxRW, ESelectSourceMailboxRO}"
    using stop(3) by blast
  note stop = stop(1,2) this
  from stop(2) show ?thesis
  proof
    assume "run_all (copy_within_class sv) after (on_state flagged u) = Some (Inr (on_state flagged t))"
    with stop(1,3) show ?thesis
      by (intro exI [of _ "on_state flagged u"]) (auto simp: on_state_def flagged_def simp del: run_all.simps)
  next
    assume "\<exists>xs ys c w. after = xs @ ys \<and> copy_within_stop.stops_at 1 c
      \<and> run_all (copy_within_class sv) xs (on_state flagged u) = Some (Inr (copy_within_susp c, w))
      \<and> loop_all (copy_within_class sv) ys (c, w) = Some (Inr t)"
    then obtain xs ys c w where x: "after = xs @ ys" "copy_within_stop.stops_at 1 c"
      "run_all (copy_within_class sv) xs (on_state flagged u) = Some (Inr (copy_within_susp c, w))" by blast
    let ?c = "copy_within_susp c"
    have s: "\<not> iReport ?c" "iRequest ?c = None" "iNextStep ?c = ESetSourceMailbox" "Suspended ?c" "iCompleted ?c = [KErrNone]"
      "copy_within_compound.iSourceSel ?c \<noteq> []"
      using x(2) by (simp_all add: copy_within_stop.stops_at_def copy_within_stopping_def copy_within_susp_def Suspended_def)
    from move_resumed [OF s(1-3), of sv w] obtain s3 c' where
      "vResumeOperationL (copy_within_class sv) (?c, w) = (Inr (), s3)"
      "run_all (copy_within_class sv) [KErrNone] s3 = Some (Inr (c', w))" "iCompleted c' = [KErrNone, KErrNone]"
      "copy_within_compound.iSourceSel c' = copy_within_compound.iSourceSel ?c" "iProgressErrorCode c' = iProgressErrorCode ?c"
      using s(5) by auto
    with stop(1,3) x(1,3) s(4-6) show ?thesis
      by (intro exI [of _ "on_state flagged u"] conjI disjI2 exI [of _ xs] exI [of _ ys] exI [of _ "(?c, w)"] exI [of _ s3]
        exI [of _ c']) (simp_all del: run_all.simps)
  qed
qed

text \<open>Whatever ends the session under an operation, a closed stream, a flush that timed out or corrupt data, the
  client of the operation is told 1, the code of a \<open>NO\<close> response.\<close>

lemma session_error_reported_as_no:
  assumes "iReport (fst s)" "status \<in> {KErrImapClosed, KErrImapFlushTimeout, KErrImapCorrupt}"
  shows "\<exists>s'. RunL cls status s = Some (Inr s') \<and> iCompleted (fst s') = iCompleted (fst s) @ [KErrImapNo] \<and> \<not> iReport (fst s')"
  using assms
  by (auto simp: RunL_def DoRunL_def ProcessSessionError_def system_error_def creturn_def CompoundComplete_def cset_def Let_def
      run_result_def completed_with_def)

text \<open>C15: the client of every compound operation is served: in every state reached, an open request has something
  outstanding, the number of answers is the number of requests that are not open, and whatever the
  outstanding request ends with, the next run ends, with an answer, with a new request or with a panic.\<close>

theorem compounds_serve_their_client:
  "(compound_reach (select_folder_class sv) n s1 \<longrightarrow> client_served (select_folder_class sv) n s1)
   \<and> (compound_reach (create_class sv) n s2 \<longrightarrow> client_served (create_class sv) n s2)
   \<and> (compound_reach (rename_class sv) n s3 \<longrightarrow> client_served (rename_class sv) n s3)
   \<and> (compound_reach (delete_folder_class sv) n s4 \<longrightarrow> client_served (delete_folder_class sv) n s4)
   \<and> (compound_reach (sync_tree_class sv) n s5 \<longrightarrow> client_served (sync_tree_class sv) n s5)
   \<and> (compound_reach (disconnect_class sv) n s6 \<longrightarrow> client_served (disconnect_class sv) n s6)
   \<and> (compound_reach (update_flag_class sv) n s7 \<longrightarrow> client_served (update_flag_class sv) n s7)
   \<and> (compound_reach (delete_class sv) n s8 \<longrightarrow> client_served (delete_class sv) n s8)
   \<and> (compound_reach (copy_local_class sv) n s9 \<longrightarrow> client_served (copy_local_class sv) n s9)
   \<and> (compound_reach (copy_within_class sv) n s10 \<longrightarrow> client_served (copy_within_class sv) n s10)"
  by (intro conjI impI select_op.served create_op.served rename_op.served delete_folder_op.served sync_tree_op.served
      disconnect_op.served update_flag_op.served delete_op.served copy_local_op.served copy_within_op.served)

text \<open>C16: copying from the local store, cancelled for a migration before its first step, does not know its destination;
  resumed, it dereferences the folder it never looked up.\<close>

theorem copy_local_resumed_early_panics:
  assumes c: "\<not> iReport c" "iRequest c = None" "iCurrentStep c = EFinished" "copy_local_compound.iDestinationFolder c = None"
    and start: "vStartOperation (copy_local_class sv) (c, w) = (Inr (), s)"
  shows "\<exists>s1 s2. CancelForMigrate (copy_local_class sv) s = (Inr (), s1) \<and> iCompleted (fst s1) = iCompleted c @ [KErrCancel]
    \<and> Suspended (fst s1) \<and> vResumeOperationL (copy_local_class sv) s1 = (Inr (), s2)
    \<and> RunL (copy_local_class sv) KErrNone s2 = Some (Inl KPanicNull)"
proof -
  let ?c1 = "c\<lparr> iNextStep := ESelectDestinationMailboxRO, iRequest := None, iCancelForMigrate := False,
      iCurrentStep := ESuspendedForMigrate, iCompleted := iCompleted c @ [KErrCancel] \<rparr>"
  let ?c2 = "?c1\<lparr> iStopForMigrate := False, iRequest := Some RqSelf, iReport := True \<rparr>"
  have "s = (c\<lparr> iNextStep := ECheckDestinationMailbox, iReport := True, iRequest := Some RqSelf \<rparr>, w)"
    using c start by (simp add: copy_local_class_def start_operation_def CompoundQueue_def CompleteSelf_def
        SetActive_def next_step_def method_defs)
  then have s1: "CancelForMigrate (copy_local_class sv) s = (Inr (), (?c1, w))"
    using c by (simp add: CancelForMigrate_def CancelOperation_def copy_local_class_def copy_local_cancel_def end_cancel_def
        next_step_def CompoundComplete_def method_defs)
  have s2: "vResumeOperationL (copy_local_class sv) (?c1, w) = (Inr (), (?c2, w))"
    by (simp add: copy_local_class_def copy_local_resume_def resume_with_def CompoundQueue_def CompleteSelf_def SetActive_def
        Let_def method_defs)
  have "copy_local_loop sv (?c2\<lparr> iRequest := None \<rparr>, w)
      = (Inl KPanicNull, (?c2\<lparr> iRequest := None, iCurrentStep := ESelectDestinationMailboxRO \<rparr>, w))"
    using c by (simp add: copy_local_loop_def SetCurrentStep_def on_folder_object_def method_defs)
  then have "RunL (copy_local_class sv) KErrNone (?c2, w) = Some (Inl KPanicNull)"
    by (simp add: RunL_ok copy_local_class_def run_loop.simps run_result_def is_panic_def)
  with s1 s2 show ?thesis
    by (intro exI [of _ "(?c1, w)"] exI [of _ "(?c2, w)"]) (simp add: Suspended_def)
qed

section \<open>Witnesses\<close>

definition small_delete :: delete_compound where
  "small_delete = delete_new\<lparr> delete_compound.iSourceSel := [0x1021, 0x1022], iProgressMsgsToDo := 2 \<rparr>"

definition small_move :: copy_within_compound where
  "small_move = (copy_within_new True 0x1012)\<lparr> copy_within_compound.iSourceSel := [0x1021, 0x1022], iMsgsToDo := 2 \<rparr>"

lemma small_fresh: "delete_fresh [0x1021, 0x1022] small_delete" "move_fresh [0x1021, 0x1022] 0x1012 small_move"
  by (simp_all add: delete_fresh_def small_delete_def delete_new_def compound_new_def compound_base.defs
      move_fresh_def small_move_def copy_within_new_def)

definition started :: "('m, small_store) compound_class \<Rightarrow> 'm compound_base_scheme \<Rightarrow> ('m, small_store) compound_state" where
  "started cls c = snd (vStartOperation cls (c, small_world))"

lemma small_started:
  "iRequest c = None \<Longrightarrow> vStartOperation (delete_class small_services) (c, small_world) = (Inr (), started (delete_class small_services) c)"
  "iRequest c' = None \<Longrightarrow> vStartOperation (copy_within_class small_services) (c', small_world)
     = (Inr (), started (copy_within_class small_services) c')"
  "iRequest c'' = None \<Longrightarrow> vStartOperation (copy_local_class small_services) (c'', small_world)
     = (Inr (), started (copy_local_class small_services) c'')"
  by (simp_all add: started_def delete_class_def copy_within_class_def copy_local_class_def start_operation_def
      CompoundQueue_def CompleteSelf_def SetActive_def next_step_def method_defs)

lemma small_requests:
  "delete_requests small_services small_view [0x1021, 0x1022] =
     [RqSelect 0x1010, RqStore (CreateSequenceSetLC [7]) KImapAddFlags KImapFlagDeleted True, RqExpunge,
      RqSelect 0x1011, RqStore (CreateSequenceSetLC [9]) KImapAddFlags KImapFlagDeleted True, RqExpunge]"
  by (simp add: delete_requests_def small_groups group_requests_def)
    (simp add: folder_of_def uid_of_def small_view_def some_entry_def small_services_def)

lemmas small_delete_request = small_fresh(1) [unfolded delete_fresh_def, THEN conjunct2, THEN conjunct1]
lemmas small_move_request = small_fresh(2) [unfolded move_fresh_def, THEN conjunct2, THEN conjunct1]

lemma delete_completes_witness:
  "\<exists>c' w'. run_all (delete_class small_services) (replicate 7 KErrNone) (started (delete_class small_services) small_delete)
      = Some (Inr (c', w')) \<and> iCompleted c' = [KErrNone] \<and> viewed small_model w' = without small_view {0x1021, 0x1022}
    \<and> logged small_model w' =
     [RqSelect 0x1010, RqStore (CreateSequenceSetLC [7]) KImapAddFlags KImapFlagDeleted True, RqExpunge,
      RqSelect 0x1011, RqStore (CreateSequenceSetLC [9]) KImapAddFlags KImapFlagDeleted True, RqExpunge]"
  using delete_completes [OF small_services_ok small_fresh(1) _ small_started(1) [OF small_delete_request]]
    small_selection small_world_view
  by (auto simp: small_requests numeral_eq_Suc simp del: run_all.simps)

lemma small_message:
  "in_mailbox small_view 0x1021" "small_view 0x1021 = Some (some_entry 0x1021 KUidMsvMessageEntry 0x1010 7)"
  "folder_of small_view 0x1021 = 0x1010" "folder_of small_view 0x1022 = 0x1011"
  "small_view 0x1012 = Some (some_entry 0x1012 KUidMsvFolderEntry 0x1001 0)"
  by (simp_all add: in_mailbox_def folder_of_def small_view_def some_entry_def)

text \<open>The message in the second folder is never tried.\<close>

lemma refused_select_blocks_witness:
  "\<exists>c' w'. run_all (delete_class small_services) [KErrNone, KErrImapNo, KErrImapNo] (started (delete_class small_services) small_delete)
      = Some (Inr (c', w')) \<and> iCompleted c' = [KErrNone] \<and> iProgressMsgsDone c' = 2
    \<and> logged small_model w' = [RqSelect 0x1010, RqSelect 0x1010]"
  using refused_select_blocks [OF small_services_ok small_fresh(1) _ _ small_started(1) [OF small_delete_request]]
    small_world_view small_message
  by (auto simp: numeral_eq_Suc simp del: run_all.simps)

text \<open>The message of the second folder is moved on the server, and stays in the local store.\<close>

lemma move_completes_witness:
  "\<exists>c' w' e. run_all (copy_within_class small_services) (replicate 11 KErrNone) (started (copy_within_class small_services) small_move)
      = Some (Inr (c', w')) \<and> iCompleted c' = [KErrNone]
    \<and> viewed small_model w' 0x1021 = None \<and> viewed small_model w' 0x1022 = Some e \<and> eDeletedFlag e"
proof -
  have c: "\<And>w. svChanged small_services 0x1012 w = True" by (simp add: small_services_def)
  have v: "small_view 0x1022 = Some (some_entry 0x1022 KUidMsvMessageEntry 0x1011 9)" by (simp add: small_view_def)
  have d: "eMailbox (some_entry 0x1012 KUidMsvFolderEntry 0x1001 0)" by (simp add: some_entry_def)
  have n: "Suc (length (all_move_requests small_services small_model 0x1012 small_view [0x1021, 0x1022]
      @ destination_requests 0x1012 True)) = 11"
    by (simp add: all_move_requests_def small_groups move_requests_def destination_requests_def)
      (simp add: small_services_def small_message)
  from move_completes [OF small_services_ok small_fresh(2) _ _ _ d _ c small_started(2) [OF small_move_request]]
    small_selection small_world_view small_message n
  obtain c' w' where "run_all (copy_within_class small_services) (replicate 11 KErrNone) (started (copy_within_class small_services) small_move)
      = Some (Inr (c', w'))" "iCompleted c' = [KErrNone]"
    "viewed small_model w' = without (marking small_view {0x1021, 0x1022}) {0x1021}"
    by (fastforce simp: small_groups simp del: run_all.simps)
  then show ?thesis using v by (auto simp: without_def marking_def simp del: run_all.simps)
qed

text \<open>Both operations are stopped while the first folder is being selected; run by run, they suspend before the
  second folder.\<close>

definition returned :: "('m, 'w) compound_state leaving option \<Rightarrow> ('m, 'w) compound_state option" where
  "returned r = (case r of Some (Inr s) \<Rightarrow> Some s | _ \<Rightarrow> None)"

lemma returned_Some: "returned r = Some s \<longleftrightarrow> r = Some (Inr s)"
  by (simp add: returned_def split: option.split sum.split)

lemma small_stopped_delete:
  "case returned (run_all (delete_class small_services) [KErrNone] (started (delete_class small_services) small_delete)) of
     Some u \<Rightarrow> (case returned (run_all (delete_class small_services) (replicate 6 KErrNone) u) of
       Some t \<Rightarrow> iCompleted (fst t) = [KErrNone] \<and> delete_compound.iSourceSel (fst t) = []
         \<and> Option.is_none (run_all (delete_class small_services) (replicate 6 KErrNone) (snd (StopForMigrate u)))
     | None \<Rightarrow> False) | None \<Rightarrow> False"
  by code_simp

lemma small_stopped_move:
  "case returned (run_all (copy_within_class small_services) [KErrNone] (started (copy_within_class small_services) small_move)) of
     Some u \<Rightarrow> (case returned (run_all (copy_within_class small_services) (replicate 10 KErrNone) u) of
       Some t \<Rightarrow> Option.is_none (run_all (copy_within_class small_services) (replicate 10 KErrNone) (snd (StopForMigrate u)))
     | None \<Rightarrow> False) | None \<Rightarrow> False"
  by code_simp

lemma stopped_delete_resumes_witness:
  "\<exists>u s1 xs ys s2 s3 t. run_all (delete_class small_services) [KErrNone] (started (delete_class small_services) small_delete) = Some (Inr u)
    \<and> StopForMigrate u = (Inr (), s1) \<and> run_all (delete_class small_services) xs s1 = Some (Inr s2) \<and> Suspended (fst s2)
    \<and> vResumeOperationL (delete_class small_services) s2 = (Inr (), s3)
    \<and> run_all (delete_class small_services) (KErrNone # ys) s3 = Some (Inr t)
    \<and> iCompleted (fst t) = [KErrNone, KErrNone] \<and> delete_compound.iSourceSel (fst t) = []"
proof -
  from small_stopped_delete obtain u t where r:
    "run_all (delete_class small_services) [KErrNone] (started (delete_class small_services) small_delete) = Some (Inr u)"
    "run_all (delete_class small_services) (replicate 6 KErrNone) u = Some (Inr t)"
    "iCompleted (fst t) = [KErrNone]" "delete_compound.iSourceSel (fst t) = []"
    "Option.is_none (run_all (delete_class small_services) (replicate 6 KErrNone) (snd (StopForMigrate u)))"
    by (simp add: returned_Some del: run_all.simps split: option.split_asm)
  from stopped_delete_resumes [OF small_fresh(1) small_started(1) [OF small_delete_request] r(1,2)] r(5) [unfolded Option.is_none_def]
  obtain s1 xs ys s2 s3 where "StopForMigrate u = (Inr (), s1)" "run_all (delete_class small_services) xs s1 = Some (Inr s2)"
    "Suspended (fst s2)" "vResumeOperationL (delete_class small_services) s2 = (Inr (), s3)"
    "run_all (delete_class small_services) (KErrNone # ys) s3 = Some (Inr ((fst t)\<lparr> iCompleted := KErrNone # iCompleted (fst t) \<rparr>, snd t))"
    by (auto simp del: run_all.simps)
  with r(1,3,4) show ?thesis
    by (intro exI [of _ u] exI [of _ s1] exI [of _ xs] exI [of _ ys] exI [of _ s2] exI [of _ s3]
      exI [of _ "((fst t)\<lparr> iCompleted := KErrNone # iCompleted (fst t) \<rparr>, snd t)"]) (simp del: run_all.simps)
qed

lemma stopped_move_is_abandoned_witness:
  "\<exists>u s1 xs s2 s3 c'. run_all (copy_within_class small_services) [KErrNone] (started (copy_within_class small_services) small_move) = Some (Inr u)
    \<and> StopForMigrate u = (Inr (), s1) \<and> run_all (copy_within_class small_services) xs s1 = Some (Inr s2) \<and> Suspended (fst s2)
    \<and> vResumeOperationL (copy_within_class small_services) s2 = (Inr (), s3)
    \<and> run_all (copy_within_class small_services) [KErrNone] s3 = Some (Inr (c', snd s2))
    \<and> iCompleted c' = [KErrNone, KErrNone] \<and> copy_within_compound.iSourceSel c' \<noteq> []"
proof -
  from small_stopped_move obtain u t where r:
    "run_all (copy_within_class small_services) [KErrNone] (started (copy_within_class small_services) small_move) = Some (Inr u)"
    "run_all (copy_within_class small_services) (replicate 10 KErrNone) u = Some (Inr t)"
    "Option.is_none (run_all (copy_within_class small_services) (replicate 10 KErrNone) (snd (StopForMigrate u)))"
    by (simp add: returned_Some del: run_all.simps split: option.split_asm)
  from stopped_move_is_abandoned [OF small_fresh(2) small_started(2) [OF small_move_request] r(1,2)] r(3) [unfolded Option.is_none_def]
  obtain s1 xs s2 s3 c' where "StopForMigrate u = (Inr (), s1)" "run_all (copy_within_class small_services) xs s1 = Some (Inr s2)"
    "Suspended (fst s2)" "vResumeOperationL (copy_within_class small_services) s2 = (Inr (), s3)"
    "run_all (copy_within_class small_services) [KErrNone] s3 = Some (Inr (c', snd s2))" "iCompleted c' = [KErrNone, KErrNone]"
    "copy_within_compound.iSourceSel c' \<noteq> []"
    by (auto simp del: run_all.simps)
  with r(1) show ?thesis by blast
qed

lemma session_error_reported_as_no_witness:
  "\<exists>s'. RunL (delete_class small_services) KErrImapClosed (started (delete_class small_services) small_delete) = Some (Inr s')
    \<and> iCompleted (fst s') = [KErrImapNo]"
  using session_error_reported_as_no [of "started (delete_class small_services) small_delete" KErrImapClosed "delete_class small_services"]
    small_fresh(1)
  by (auto simp: started_def delete_class_def start_operation_def CompoundQueue_def CompleteSelf_def SetActive_def
      next_step_def method_defs delete_fresh_def)

lemma compounds_serve_their_client_witness:
  "client_served (delete_class small_services) 1 (started (delete_class small_services) small_delete)"
proof -
  have "compound_reach (delete_class small_services) (Suc 0) (started (delete_class small_services) small_delete)"
    using small_fresh(1) small_started(1) [OF small_delete_request]
    by (intro reach_start [OF reach_new]) (auto simp: delete_fresh_def)
  then have "client_served (delete_class small_services) (Suc 0) (started (delete_class small_services) small_delete)"
    by (rule compounds_serve_their_client [THEN conjunct2, THEN conjunct2, THEN conjunct2, THEN conjunct2, THEN conjunct2,
        THEN conjunct2, THEN conjunct2, THEN conjunct1, THEN mp])
  then show ?thesis by simp
qed

lemma copy_local_resumed_early_panics_witness:
  "\<exists>s1 s2. CancelForMigrate (copy_local_class small_services) (started (copy_local_class small_services) (copy_local_new True 0x1012))
       = (Inr (), s1)
    \<and> vResumeOperationL (copy_local_class small_services) s1 = (Inr (), s2)
    \<and> RunL (copy_local_class small_services) KErrNone s2 = Some (Inl KPanicNull)"
proof -
  have c: "\<not> iReport (copy_local_new True 0x1012)" "iRequest (copy_local_new True 0x1012) = None"
    "iCurrentStep (copy_local_new True 0x1012) = EFinished" "copy_local_compound.iDestinationFolder (copy_local_new True 0x1012) = None"
    by (simp_all add: copy_local_new_def compound_new_def compound_base.defs)
  from copy_local_resumed_early_panics [OF c small_started(3) [OF c(2)]] show ?thesis by blast
qed

end
