(* ===== verification/Mms_Stream.thy ===== *)
theory Mms_Stream
  imports Msg_Prelude
begin

text \<open>
  The message store streams (\<open>RMsvWriteStream\<close>, \<open>RMsvReadStream\<close>) as the persistent
  classes of mmsmessage use them: a sequence of typed items. Reading an item of the type that
  was written gives it back; reading anything else is corrupt data. The contract of a
  persistent class and the reading of arrays of its objects are stated once for all of them.
\<close>

section \<open>Items\<close>

datatype stream_item =
    SInt8 byte
  | SInt16 char16
  | SInt32 tint
  | SInt64 tint64
  | SDes8 string8
  | SDes16 string16
  | SCard nat

type_synonym stream = "stream_item list"
type_synonym 'a reader = "stream \<Rightarrow> ('a \<times> stream) leaving"

definition rbind :: "'a reader \<Rightarrow> ('a \<Rightarrow> 'b reader) \<Rightarrow> 'b reader" where
  "rbind m f s = bind_l (m s) (\<lambda>(x, s'). f x s')"

definition rreturn :: "'a \<Rightarrow> 'a reader" where
  "rreturn x s = Inr (x, s)"

definition rleave :: "symbian_error \<Rightarrow> 'a reader" where
  "rleave e s = Inl e"

definition read_item :: "(stream_item \<Rightarrow> 'a option) \<Rightarrow> 'a reader" where
  "read_item f s = (case s of [] \<Rightarrow> Inl KErrEof
     | i # s' \<Rightarrow> (case f i of None \<Rightarrow> Inl KErrCorrupt | Some x \<Rightarrow> Inr (x, s')))"

definition ReadInt8L :: "byte reader" where
  "ReadInt8L = read_item (\<lambda>i. case i of SInt8 x \<Rightarrow> Some x | _ \<Rightarrow> None)"

definition ReadInt16L :: "char16 reader" where
  "ReadInt16L = read_item (\<lambda>i. case i of SInt16 x \<Rightarrow> Some x | _ \<Rightarrow> None)"

definition ReadInt32L :: "tint reader" where
  "ReadInt32L = read_item (\<lambda>i. case i of SInt32 x \<Rightarrow> Some x | _ \<Rightarrow> None)"

definition ReadInt64L :: "tint64 reader" where
  "ReadInt64L = read_item (\<lambda>i. case i of SInt64 x \<Rightarrow> Some x | _ \<Rightarrow> None)"

definition ReadCardL :: "nat reader" where
  "ReadCardL = read_item (\<lambda>i. case i of SCard x \<Rightarrow> Some x | _ \<Rightarrow> None)"

text \<open>\<open>HBufC8::NewL (aStream, aMaxLength)\<close> leaves when the string is longer than the limit.\<close>

definition read_des8 :: "nat \<Rightarrow> string8 reader" where
  "read_des8 aMax = rbind (read_item (\<lambda>i. case i of SDes8 x \<Rightarrow> Some x | _ \<Rightarrow> None))
     (\<lambda>x. if length x \<le> aMax then rreturn x else rleave KErrOverflow)"

definition read_des16 :: "nat \<Rightarrow> string16 reader" where
  "read_des16 aMax = rbind (read_item (\<lambda>i. case i of SDes16 x \<Rightarrow> Some x | _ \<Rightarrow> None))
     (\<lambda>x. if length x \<le> aMax then rreturn x else rleave KErrOverflow)"

lemma reader_simps [simp]:
  "ReadInt8L (SInt8 b # s) = Inr (b, s)"
  "ReadInt16L (SInt16 w # s) = Inr (w, s)"
  "ReadInt32L (SInt32 i # s) = Inr (i, s)"
  "ReadInt64L (SInt64 l # s) = Inr (l, s)"
  "ReadCardL (SCard n # s) = Inr (n, s)"
  "length x8 \<le> k \<Longrightarrow> read_des8 k (SDes8 x8 # s) = Inr (x8, s)"
  "length x16 \<le> k \<Longrightarrow> read_des16 k (SDes16 x16 # s) = Inr (x16, s)"
  by (simp_all add: ReadInt8L_def ReadInt16L_def ReadInt32L_def ReadInt64L_def ReadCardL_def
      read_des8_def read_des16_def read_item_def rbind_def rreturn_def)

lemma rbind_step [simp]:
  "m s = Inr (x, s') \<Longrightarrow> rbind m f s = f x s'"
  "m s = Inl e \<Longrightarrow> rbind m f s = Inl e"
  by (simp_all add: rbind_def)

lemma rreturn_apply [simp]: "rreturn x s = Inr (x, s)"
  by (simp add: rreturn_def)

section \<open>Strings with a length in front\<close>

text \<open>
  The length is written first and the string only when it is not empty; the reader keeps what
  it had when the length is not positive. A string pointer that is NULL is \<open>None\<close>.
\<close>

definition des_of :: "'a list option \<Rightarrow> 'a list" where
  "des_of x = (case x of None \<Rightarrow> [] | Some s \<Rightarrow> s)"

lemma des_of_simps [simp]: "des_of None = []" "des_of (Some s) = s"
  by (simp_all add: des_of_def)

definition write_counted8 :: "string8 \<Rightarrow> stream" where
  "write_counted8 x = SInt32 (of_nat (length x)) # (if 0 < length x then [SDes8 x] else [])"

definition write_counted16 :: "string16 \<Rightarrow> stream" where
  "write_counted16 x = SInt32 (of_nat (length x)) # (if 0 < length x then [SDes16 x] else [])"

definition read_counted8 :: "string8 option \<Rightarrow> string8 option reader" where
  "read_counted8 old = rbind ReadInt32L (\<lambda>n.
     if 0 <s n then rbind (read_des8 (nat (sint n))) (\<lambda>x. rreturn (Some x)) else rreturn old)"

definition read_counted16 :: "string16 option \<Rightarrow> string16 option reader" where
  "read_counted16 old = rbind ReadInt32L (\<lambda>n.
     if 0 <s n then rbind (read_des16 (nat (sint n))) (\<lambda>x. rreturn (Some x)) else rreturn old)"

definition some_nonempty :: "'a list \<Rightarrow> 'a list option" where
  "some_nonempty x = (if x = [] then None else Some x)"

lemma des_of_some_nonempty [simp]: "des_of (some_nonempty x) = x"
  by (simp add: some_nonempty_def)

lemma read_write_counted:
  "length x < 2 ^ 31 \<Longrightarrow> read_counted8 None (write_counted8 x @ s) = Inr (some_nonempty x, s)"
  "length y < 2 ^ 31 \<Longrightarrow> read_counted16 None (write_counted16 y @ s) = Inr (some_nonempty y, s)"
  by (auto simp: read_counted8_def read_counted16_def write_counted8_def write_counted16_def
      some_nonempty_def of_nat_pos sint_of_nat_small)

section \<open>Persistent classes\<close>

fun read_n :: "nat \<Rightarrow> 'a reader \<Rightarrow> 'a list reader" where
  "read_n 0 r = rreturn []"
| "read_n (Suc n) r = rbind r (\<lambda>x. rbind (read_n n r) (\<lambda>xs. rreturn (x # xs)))"

text \<open>An array preceded by its length; a negative length is an empty loop.\<close>

definition read_counted :: "'a reader \<Rightarrow> 'a list reader" where
  "read_counted r = rbind ReadInt32L (\<lambda>n. read_n (nat (sint n)) r)"

definition write_counted :: "('a \<Rightarrow> stream) \<Rightarrow> 'a list \<Rightarrow> stream" where
  "write_counted f xs = SInt32 (of_nat (length xs)) # concat (map f xs)"

text \<open>
  \<open>ext\<close> is \<open>ExternalizeL\<close>, \<open>int\<close> is \<open>InternalizeL\<close> into a new object; \<open>norm x\<close> is the
  object that comes back, which a caller cannot tell from \<open>x\<close> by its getters.
\<close>

locale externalizable =
  fixes ext :: "'a \<Rightarrow> stream" and int :: "'a reader" and norm :: "'a \<Rightarrow> 'a" and ok :: "'a \<Rightarrow> bool"
  assumes int_ext: "ok x \<Longrightarrow> int (ext x @ s) = Inr (norm x, s)"
begin

lemma read_array:
  "list_all ok xs \<Longrightarrow> read_n (length xs) int (concat (map ext xs) @ s) = Inr (map norm xs, s)"
  by (induction xs) (simp_all add: int_ext)

lemma read_counted_array:
  "list_all ok xs \<Longrightarrow> length xs < 2 ^ 31 \<Longrightarrow>
     read_counted int (write_counted ext xs @ s) = Inr (map norm xs, s)"
  by (simp add: read_counted_def write_counted_def read_array sint_of_nat_small)

end

text \<open>Arrays of 32-bit numbers, of strings with a length in front, and of plain strings.\<close>

definition write_int32 :: "tint \<Rightarrow> stream" where
  "write_int32 x = [SInt32 x]"

definition write_des16 :: "string16 \<Rightarrow> stream" where
  "write_des16 x = [SDes16 x]"

interpretation int32_item: externalizable write_int32 ReadInt32L id "\<lambda>_. True"
  by unfold_locales (simp add: write_int32_def)

interpretation des16_item: externalizable write_des16 "read_des16 k" id "\<lambda>x. length x \<le> k" for k
  by unfold_locales (simp add: write_des16_def)

end
