(* ===== verification/Mms_Persist.thy ===== *)
theory Mms_Persist
  imports Mms_Stream
begin

text \<open>
  The persistent parts of the MMS headers (mmsengine/mmsmessage): the sending chain, the MMBox
  flags, the element descriptor, the MMBox message headers and the MMBox view headers, with
  their \<open>ExternalizeL\<close>, \<open>InternalizeL\<close> and \<open>Size\<close>.
\<close>

section \<open>CMmsSendingChain\<close>

record sending_chain =
  scOrder :: tint
  scDate :: tint64
  scSender :: "string16 option"

definition sc_new :: sending_chain where
  "sc_new = \<lparr> scOrder = 0, scDate = 0, scSender = None \<rparr>"

definition sc_compare :: "sending_chain \<Rightarrow> sending_chain \<Rightarrow> int" where
  "sc_compare aFirst aSecond =
     (if scOrder aFirst = scOrder aSecond then 0 else if scOrder aSecond < scOrder aFirst then 1 else -1)"

definition sc_internalize :: "sending_chain \<Rightarrow> sending_chain reader" where
  "sc_internalize c = rbind ReadInt32L (\<lambda>order. rbind ReadInt64L (\<lambda>date.
     rbind (read_counted16 None) (\<lambda>sender.
       rreturn (c\<lparr> scOrder := order, scDate := date, scSender := sender \<rparr>))))"

definition sc_externalize :: "sending_chain \<Rightarrow> stream" where
  "sc_externalize c = [SInt32 (scOrder c), SInt64 (scDate c)] @ write_counted16 (des_of (scSender c))"

definition sc_set_sender :: "string16 \<Rightarrow> sending_chain \<Rightarrow> sending_chain" where
  "sc_set_sender aSender c = c\<lparr> scSender := Some aSender \<rparr>"

definition sc_size :: "sending_chain \<Rightarrow> nat" where
  "sc_size c = 4 + 8 + 4 + 2 * length (des_of (scSender c))"

section \<open>CMmsMMBoxFlags\<close>

record mmbox_flags =
  iOperationToken :: tint
  iKeyword :: "string16 option"

definition mf_new :: mmbox_flags where
  "mf_new = \<lparr> iOperationToken = 0, iKeyword = None \<rparr>"

definition mf_internalize :: "mmbox_flags \<Rightarrow> mmbox_flags reader" where
  "mf_internalize f = rbind ReadInt32L (\<lambda>token. rbind (read_counted16 None) (\<lambda>keyword.
     rreturn (f\<lparr> iOperationToken := token, iKeyword := keyword \<rparr>)))"

definition mf_externalize :: "mmbox_flags \<Rightarrow> stream" where
  "mf_externalize f = SInt32 (iOperationToken f) # write_counted16 (des_of (iKeyword f))"

definition mf_set_keyword :: "string16 \<Rightarrow> mmbox_flags \<Rightarrow> mmbox_flags" where
  "mf_set_keyword aKeyword f = f\<lparr> iKeyword := Some aKeyword \<rparr>"

definition mf_size :: "mmbox_flags \<Rightarrow> nat" where
  "mf_size f = 4 + 4 + 2 * length (des_of (iKeyword f))"

section \<open>CMmsElementDescriptor\<close>

record element_descriptor =
  iContentReference :: "string16 option"
  iContentType :: "string8 option"

definition ed_new :: element_descriptor where
  "ed_new = \<lparr> iContentReference = None, iContentType = None \<rparr>"

definition ed_externalize :: "element_descriptor \<Rightarrow> stream" where
  "ed_externalize d = write_counted16 (des_of (iContentReference d)) @ write_counted8 (des_of (iContentType d))"

definition ed_internalize :: "element_descriptor \<Rightarrow> element_descriptor reader" where
  "ed_internalize d = rbind (read_counted16 None) (\<lambda>ref. rbind (read_counted8 None) (\<lambda>ctype.
     rreturn (d\<lparr> iContentReference := ref, iContentType := ctype \<rparr>)))"

definition ed_size :: "element_descriptor \<Rightarrow> nat" where
  "ed_size d = 4 + 2 * length (des_of (iContentReference d)) + 4 + length (des_of (iContentType d))"

definition ed_set_content_reference :: "string16 \<Rightarrow> element_descriptor \<Rightarrow> element_descriptor" where
  "ed_set_content_reference x d = d\<lparr> iContentReference := Some x \<rparr>"

definition ed_set_content_type :: "string8 \<Rightarrow> element_descriptor \<Rightarrow> element_descriptor" where
  "ed_set_content_type x d = d\<lparr> iContentType := Some x \<rparr>"

section \<open>CMmsMMBoxMessageHeaders\<close>

record mmbox_message_headers =
  iMmsStore :: tint
  iMmsMMState :: tint
  iMmsStored :: tint
  iMmsStoreStatus :: tint
  iMmsStoreStatusText :: "string16 option"
  iContentLocationArray :: "string8 list"
  iKeywordArray :: "mmbox_flags list"

definition mh_new :: mmbox_message_headers where
  "mh_new = \<lparr> iMmsStore = 0, iMmsMMState = 0, iMmsStored = 0, iMmsStoreStatus = 0,
     iMmsStoreStatusText = None, iContentLocationArray = [], iKeywordArray = [] \<rparr>"

definition mh_reset :: "mmbox_message_headers \<Rightarrow> mmbox_message_headers" where
  "mh_reset h = h\<lparr> iContentLocationArray := [], iMmsStoreStatusText := None, iKeywordArray := [],
     iMmsStore := 0, iMmsMMState := 0, iMmsStored := 0, iMmsStoreStatus := 0 \<rparr>"

text \<open>An element of the content location array: the length is read as a limit for the string.\<close>

definition read_location :: "string8 reader" where
  "read_location = rbind ReadInt32L (\<lambda>n. read_des8 (nat (sint n)))"

definition write_location :: "string8 \<Rightarrow> stream" where
  "write_location x = [SInt32 (of_nat (length x)), SDes8 x]"

definition mh_internalize :: "mmbox_message_headers \<Rightarrow> mmbox_message_headers reader" where
  "mh_internalize h0 = (let h = mh_reset h0 in
     rbind ReadInt32L (\<lambda>store. rbind ReadInt32L (\<lambda>state. rbind ReadInt32L (\<lambda>stored.
     rbind ReadInt32L (\<lambda>status. rbind (read_counted16 None) (\<lambda>text.
     rbind (read_counted read_location) (\<lambda>locations.
     rbind (read_counted (mf_internalize mf_new)) (\<lambda>keywords.
       rreturn (h\<lparr> iMmsStore := store, iMmsMMState := state, iMmsStored := stored,
         iMmsStoreStatus := status, iMmsStoreStatusText := text,
         iContentLocationArray := locations, iKeywordArray := keywords \<rparr>)))))))))"

definition mh_externalize :: "mmbox_message_headers \<Rightarrow> stream" where
  "mh_externalize h =
     [SInt32 (iMmsStore h), SInt32 (iMmsMMState h), SInt32 (iMmsStored h), SInt32 (iMmsStoreStatus h)]
     @ write_counted16 (des_of (iMmsStoreStatusText h))
     @ write_counted write_location (iContentLocationArray h)
     @ write_counted mf_externalize (iKeywordArray h)"

definition mh_size :: "mmbox_message_headers \<Rightarrow> nat" where
  "mh_size h = 4 + 4 + 4 + 4 + 4 + 2 * length (des_of (iMmsStoreStatusText h)) + 4
     + sum_list (map length (iContentLocationArray h)) + 4 + sum_list (map mf_size (iKeywordArray h))"

definition mh_set_store_status_text :: "string16 \<Rightarrow> mmbox_message_headers \<Rightarrow> mmbox_message_headers" where
  "mh_set_store_status_text aText h =
     h\<lparr> iMmsStoreStatusText := (if 0 < length aText then Some aText else None) \<rparr>"

text \<open>Keywords compare case-folded; the fold of a character is a parameter of the platform.\<close>

fun find_keyword :: "(char16 \<Rightarrow> char16) \<Rightarrow> string16 \<Rightarrow> mmbox_flags list \<Rightarrow> nat option" where
  "find_keyword fold_char aKeyword [] = None"
| "find_keyword fold_char aKeyword (f # fs) =
     (if map fold_char (des_of (iKeyword f)) = map fold_char aKeyword then Some 0
      else map_option Suc (find_keyword fold_char aKeyword fs))"

definition mh_append_keyword ::
  "(char16 \<Rightarrow> char16) \<Rightarrow> tint \<Rightarrow> string16 \<Rightarrow> mmbox_message_headers \<Rightarrow> mmbox_message_headers" where
  "mh_append_keyword fold_char aToken aKeyword h =
     (case find_keyword fold_char aKeyword (iKeywordArray h) of
        None \<Rightarrow> h\<lparr> iKeywordArray := iKeywordArray h @
                  [mf_set_keyword aKeyword (mf_new\<lparr> iOperationToken := aToken \<rparr>)] \<rparr>
      | Some i \<Rightarrow> h\<lparr> iKeywordArray := (iKeywordArray h)
                    [i := (iKeywordArray h ! i)\<lparr> iOperationToken := aToken \<rparr>] \<rparr>)"

definition mh_delete_keyword ::
  "(char16 \<Rightarrow> char16) \<Rightarrow> string16 \<Rightarrow> mmbox_message_headers \<Rightarrow> mmbox_message_headers" where
  "mh_delete_keyword fold_char aKeyword h =
     (case find_keyword fold_char aKeyword (iKeywordArray h) of
        None \<Rightarrow> h
      | Some i \<Rightarrow> h\<lparr> iKeywordArray := take i (iKeywordArray h) @ drop (Suc i) (iKeywordArray h) \<rparr>)"

section \<open>CMmsMMBoxViewHeaders\<close>

record mmbox_view_headers =
  iMmsStart :: tint
  iMmsLimit :: tint
  iMmsTotals :: tint
  iMmsQuotas :: tint
  iMmsMessageCount :: tint
  iMMBoxTotalNumber :: tint
  iMMBoxTotalSize :: tint
  iMMBoxQuotaNumber :: tint
  iMMBoxQuotaSize :: tint
  iAttributes :: "tint list"
  iMmsMMStates :: "tint list"

definition vh_new :: mmbox_view_headers where
  "vh_new = \<lparr> iMmsStart = 0, iMmsLimit = 0, iMmsTotals = 0, iMmsQuotas = 0, iMmsMessageCount = 0,
     iMMBoxTotalNumber = 0, iMMBoxTotalSize = 0, iMMBoxQuotaNumber = 0, iMMBoxQuotaSize = 0,
     iAttributes = [], iMmsMMStates = [] \<rparr>"

definition vh_internalize :: "mmbox_view_headers \<Rightarrow> mmbox_view_headers reader" where
  "vh_internalize h =
     rbind ReadInt32L (\<lambda>start. rbind ReadInt32L (\<lambda>limit. rbind ReadInt32L (\<lambda>totals.
     rbind ReadInt32L (\<lambda>quotas. rbind ReadInt32L (\<lambda>count. rbind ReadInt32L (\<lambda>tnum.
     rbind ReadInt32L (\<lambda>tsize. rbind ReadInt32L (\<lambda>qnum. rbind ReadInt32L (\<lambda>qsize.
     rbind (read_counted ReadInt32L) (\<lambda>attributes.
     rbind (read_counted ReadInt32L) (\<lambda>states.
       rreturn (h\<lparr> iMmsStart := start, iMmsLimit := limit, iMmsTotals := totals,
         iMmsQuotas := quotas, iMmsMessageCount := count, iMMBoxTotalNumber := tnum,
         iMMBoxTotalSize := tsize, iMMBoxQuotaNumber := qnum, iMMBoxQuotaSize := qsize,
         iAttributes := attributes, iMmsMMStates := states \<rparr>))))))))))))"

definition vh_externalize :: "mmbox_view_headers \<Rightarrow> stream" where
  "vh_externalize h =
     [SInt32 (iMmsStart h), SInt32 (iMmsLimit h), SInt32 (iMmsTotals h), SInt32 (iMmsQuotas h),
      SInt32 (iMmsMessageCount h), SInt32 (iMMBoxTotalNumber h), SInt32 (iMMBoxTotalSize h),
      SInt32 (iMMBoxQuotaNumber h), SInt32 (iMMBoxQuotaSize h)]
     @ write_counted write_int32 (iAttributes h)
     @ write_counted write_int32 (iMmsMMStates h)"

definition vh_size :: "mmbox_view_headers \<Rightarrow> nat" where
  "vh_size h = 9 * 4 + 4 + 4 * length (iAttributes h) + 4 + 4 * length (iMmsMMStates h)"

section \<open>The contract of each class\<close>

definition str_ok :: "'a list option \<Rightarrow> bool" where
  "str_ok x \<longleftrightarrow> length (des_of x) < 2 ^ 31"

definition sc_norm :: "sending_chain \<Rightarrow> sending_chain" where
  "sc_norm c = c\<lparr> scSender := some_nonempty (des_of (scSender c)) \<rparr>"

definition mf_norm :: "mmbox_flags \<Rightarrow> mmbox_flags" where
  "mf_norm f = f\<lparr> iKeyword := some_nonempty (des_of (iKeyword f)) \<rparr>"

definition ed_norm :: "element_descriptor \<Rightarrow> element_descriptor" where
  "ed_norm d = d\<lparr> iContentReference := some_nonempty (des_of (iContentReference d)),
     iContentType := some_nonempty (des_of (iContentType d)) \<rparr>"

definition mh_norm :: "mmbox_message_headers \<Rightarrow> mmbox_message_headers" where
  "mh_norm h = h\<lparr> iMmsStoreStatusText := some_nonempty (des_of (iMmsStoreStatusText h)),
     iKeywordArray := map mf_norm (iKeywordArray h) \<rparr>"

definition mh_ok :: "mmbox_message_headers \<Rightarrow> bool" where
  "mh_ok h \<longleftrightarrow> str_ok (iMmsStoreStatusText h) \<and> length (iContentLocationArray h) < 2 ^ 31 \<and>
     list_all (\<lambda>l. length l < 2 ^ 31) (iContentLocationArray h) \<and>
     length (iKeywordArray h) < 2 ^ 31 \<and> list_all (\<lambda>f. str_ok (iKeyword f)) (iKeywordArray h)"

definition vh_ok :: "mmbox_view_headers \<Rightarrow> bool" where
  "vh_ok h \<longleftrightarrow> length (iAttributes h) < 2 ^ 31 \<and> length (iMmsMMStates h) < 2 ^ 31"

interpretation chain_item:
  externalizable sc_externalize "sc_internalize sc_new" sc_norm "\<lambda>c. str_ok (scSender c)"
  by unfold_locales (simp add: sc_externalize_def sc_internalize_def sc_norm_def str_ok_def
      read_write_counted sc_new_def)

interpretation flags_item:
  externalizable mf_externalize "mf_internalize mf_new" mf_norm "\<lambda>f. str_ok (iKeyword f)"
  by unfold_locales (simp add: mf_externalize_def mf_internalize_def mf_norm_def str_ok_def
      read_write_counted mf_new_def)

interpretation descriptor: externalizable ed_externalize "ed_internalize ed_new" ed_norm
    "\<lambda>d. str_ok (iContentReference d) \<and> str_ok (iContentType d)"
  by unfold_locales (simp add: ed_externalize_def ed_internalize_def ed_norm_def str_ok_def
      read_write_counted ed_new_def)

interpretation location_item: externalizable write_location read_location id "\<lambda>l. length l < 2 ^ 31"
  by unfold_locales (simp add: write_location_def read_location_def sint_of_nat_small)

interpretation mmbox_message: externalizable mh_externalize "mh_internalize h0" mh_norm mh_ok for h0
proof unfold_locales
  fix h s assume "mh_ok h"
  then show "mh_internalize h0 (mh_externalize h @ s) = Inr (mh_norm h, s)"
    by (cases h; cases h0)
       (simp add: mh_internalize_def mh_externalize_def mh_ok_def str_ok_def read_write_counted
        mh_norm_def mh_reset_def location_item.read_counted_array flags_item.read_counted_array)
qed

interpretation mmbox_view: externalizable vh_externalize "vh_internalize h0" id vh_ok for h0
proof unfold_locales
  fix h s assume "vh_ok h"
  then show "vh_internalize h0 (vh_externalize h @ s) = Inr (id h, s)"
    by (cases h; cases h0)
       (simp add: vh_internalize_def vh_externalize_def vh_ok_def int32_item.read_counted_array list.pred_True)
qed

end
