(* ===== verification/Mms_Headers.thy ===== *)
theory Mms_Headers
  imports Mms_Persist
begin

text \<open>
  \<open>CMmsHeaders\<close> (mmsengine/mmsmessage/src/mmsheaders.cpp): the headers of a multimedia message,
  with the setters that are not plain assignments, the arrays kept in order, \<open>Reset\<close>,
  \<open>ExternalizeL\<close> and \<open>InternalizeL\<close>, \<open>StoreL\<close> and \<open>RestoreL\<close>. A setter that only
  assigns a member is the record update of that member.
\<close>

section \<open>State\<close>

record delete_result =
  drOrder :: tint
  drResponseStatus :: tint
  drContentLocation :: "string8 option"
  drResponseText :: "string16 option"

record mms_headers =
  iMsgType :: tint
  iTID :: "string8 option"
  iVersion :: char16
  iDate :: tint64
  iToArray :: "string16 list"
  iCcArray :: "string16 list"
  iBccArray :: "string16 list"
  iSender :: "string16 option"
  iSubject :: "string16 option"
  iMsgClass :: tint
  iExpiry :: tint64
  iExpiryAbs :: bool
  iDelivery :: tint64
  iDeliveryAbs :: bool
  iPriority :: tint
  iSenderVisi :: tint
  iDelivReport :: tint
  iReadReply :: tint
  iStart :: tint
  iContentLocation :: "string8 option"
  iMessageSize :: tint
  iReportAllowed :: tint
  iResponseStatus :: tint
  iMessageId :: "string8 option"
  iStatus :: tint
  iMaxImageHeight :: tint
  iMaxImageWidth :: tint
  iOperatorResponseText :: "string16 option"
  iRootContentID :: "string8 option"
  iReadStatus :: tint
  iReplyCharging :: tint
  iReplyChargingDeadline :: tint64
  iReplyChargingAbs :: bool
  iReplyChargingSize :: tint
  iReplyChargingId :: "string8 option"
  iPreviouslySentArray :: "sending_chain list"
  iDistributionIndicator :: tint
  iRelatedEntry :: tint
  iMultipartType :: tint
  iReceivingTime :: tint64
  iContentClass :: tint
  iDrmContent :: tint
  iAdaptationAllowed :: tint
  iElementDescriptor :: "element_descriptor option"
  iMmBoxMessageHeaders :: "mmbox_message_headers option"
  iMmBoxViewHeaders :: "mmbox_view_headers option"
  iExtendedNotificationText :: "string16 option"
  iExtensionStatus :: tint
  iDeleteResultArray :: "delete_result list"
  iApplicationId :: "string16 option"
  iReplyToApplicationId :: "string16 option"
  iApplicationInfo :: "string8 option"
  iMmsDefaultVersion :: char16
  iRecommendedRetrievalMode :: tint
  iRecommendedRetrievalModeText :: "string16 option"
  iReplaceCancelId :: "string8 option"
  iCancelStatus :: tint

definition KMaxHeaderStringLength :: nat where
  "KMaxHeaderStringLength = 1000"

definition KMmsDefaultVersion :: char16 where
  "KMmsDefaultVersion = 0x12"

definition headers_reset :: "mms_headers \<Rightarrow> mms_headers" where
  "headers_reset h =
     \<lparr> iMsgType = 0, iTID = None, iVersion = iMmsDefaultVersion h, iDate = 0, iToArray = [],
       iCcArray = [], iBccArray = [], iSender = None, iSubject = None, iMsgClass = 0, iExpiry = 0,
       iExpiryAbs = False, iDelivery = 0, iDeliveryAbs = False, iPriority = 0, iSenderVisi = 0,
       iDelivReport = 0, iReadReply = 0, iStart = 0, iContentLocation = None, iMessageSize = 0,
       iReportAllowed = 0, iResponseStatus = 0, iMessageId = None, iStatus = 0,
       iMaxImageHeight = 0, iMaxImageWidth = 0, iOperatorResponseText = None,
       iRootContentID = None, iReadStatus = 0, iReplyCharging = 0, iReplyChargingDeadline = 0,
       iReplyChargingAbs = False, iReplyChargingSize = 0, iReplyChargingId = None,
       iPreviouslySentArray = [], iDistributionIndicator = 0, iRelatedEntry = 0,
       iMultipartType = 0, iReceivingTime = 0, iContentClass = 0, iDrmContent = 0,
       iAdaptationAllowed = 0, iElementDescriptor = None, iMmBoxMessageHeaders = None,
       iMmBoxViewHeaders = None, iExtendedNotificationText = None, iExtensionStatus = 0,
       iDeleteResultArray = [], iApplicationId = None, iReplyToApplicationId = None,
       iApplicationInfo = None, iMmsDefaultVersion = iMmsDefaultVersion h,
       iRecommendedRetrievalMode = 0, iRecommendedRetrievalModeText = None,
       iReplaceCancelId = None, iCancelStatus = 0 \<rparr>"

text \<open>\<open>ConstructL\<close>: every member zero, then the default version, which must be a supported one,
  and \<open>Reset\<close>. The versions are signed.\<close>

definition KMmsMinimumSupportedVersion :: char16 where "KMmsMinimumSupportedVersion = 0x12"
definition KMmsMaximumSupportedVersion :: char16 where "KMmsMaximumSupportedVersion = 0x13"

definition headers_blank :: "char16 \<Rightarrow> mms_headers" where
  "headers_blank v =
     \<lparr> iMsgType = 0, iTID = None, iVersion = v, iDate = 0, iToArray = [],
       iCcArray = [], iBccArray = [], iSender = None, iSubject = None, iMsgClass = 0, iExpiry = 0,
       iExpiryAbs = False, iDelivery = 0, iDeliveryAbs = False, iPriority = 0, iSenderVisi = 0,
       iDelivReport = 0, iReadReply = 0, iStart = 0, iContentLocation = None, iMessageSize = 0,
       iReportAllowed = 0, iResponseStatus = 0, iMessageId = None, iStatus = 0,
       iMaxImageHeight = 0, iMaxImageWidth = 0, iOperatorResponseText = None,
       iRootContentID = None, iReadStatus = 0, iReplyCharging = 0, iReplyChargingDeadline = 0,
       iReplyChargingAbs = False, iReplyChargingSize = 0, iReplyChargingId = None,
       iPreviouslySentArray = [], iDistributionIndicator = 0, iRelatedEntry = 0,
       iMultipartType = 0, iReceivingTime = 0, iContentClass = 0, iDrmContent = 0,
       iAdaptationAllowed = 0, iElementDescriptor = None, iMmBoxMessageHeaders = None,
       iMmBoxViewHeaders = None, iExtendedNotificationText = None, iExtensionStatus = 0,
       iDeleteResultArray = [], iApplicationId = None, iReplyToApplicationId = None,
       iApplicationInfo = None, iMmsDefaultVersion = v,
       iRecommendedRetrievalMode = 0, iRecommendedRetrievalModeText = None,
       iReplaceCancelId = None, iCancelStatus = 0 \<rparr>"

definition headers_new :: "char16 \<Rightarrow> mms_headers" where
  "headers_new aMmsDefaultVersion =
     (let v = (if aMmsDefaultVersion <s KMmsMinimumSupportedVersion \<or>
                  KMmsMaximumSupportedVersion <s aMmsDefaultVersion
               then KMmsDefaultVersion else aMmsDefaultVersion)
      in headers_reset (headers_blank v))"

lemma headers_new_blank: "headers_new 0x12 = headers_blank 0x12"
  by (simp add: headers_new_def headers_reset_def headers_blank_def KMmsMinimumSupportedVersion_def
      KMmsMaximumSupportedVersion_def word_sless_alt)

section \<open>Setters and getters\<close>

definition SetTidL :: "string8 \<Rightarrow> mms_headers \<Rightarrow> mms_headers" where
  "SetTidL aCid h = h\<lparr> iTID := (if length aCid = 0 then None else Some (take KMaxHeaderStringLength aCid)) \<rparr>"

definition SetContentLocationL :: "string8 \<Rightarrow> mms_headers \<Rightarrow> mms_headers" where
  "SetContentLocationL aURL h = h\<lparr> iContentLocation := Some (take KMaxHeaderStringLength aURL) \<rparr>"

definition SetMessageIdL :: "string8 \<Rightarrow> mms_headers \<Rightarrow> mms_headers" where
  "SetMessageIdL aId h = h\<lparr> iMessageId := Some (take KMaxHeaderStringLength aId) \<rparr>"

definition SetReplaceCancelIdL :: "string8 \<Rightarrow> mms_headers \<Rightarrow> mms_headers" where
  "SetReplaceCancelIdL aId h = h\<lparr> iReplaceCancelId := Some (take KMaxHeaderStringLength aId) \<rparr>"

definition SetSubjectL :: "string16 \<Rightarrow> mms_headers \<Rightarrow> mms_headers" where
  "SetSubjectL aSubject h = h\<lparr> iSubject := Some aSubject \<rparr>"

definition SetSenderL :: "string16 \<Rightarrow> mms_headers \<Rightarrow> mms_headers" where
  "SetSenderL aAlias h = h\<lparr> iSender := Some aAlias \<rparr>"

definition SetReplyChargingIdL :: "string8 \<Rightarrow> mms_headers \<Rightarrow> mms_headers" where
  "SetReplyChargingIdL aId h = h\<lparr> iReplyChargingId := Some aId \<rparr>"

text \<open>Setters that clear the member when the text is empty.\<close>

definition SetRootContentIdL :: "string8 \<Rightarrow> mms_headers \<Rightarrow> mms_headers" where
  "SetRootContentIdL aId h = h\<lparr> iRootContentID := some_nonempty aId \<rparr>"

definition SetResponseTextL :: "string16 \<Rightarrow> mms_headers \<Rightarrow> mms_headers" where
  "SetResponseTextL aText h = h\<lparr> iOperatorResponseText := some_nonempty aText \<rparr>"

definition SetExtendedNotificationL :: "string16 \<Rightarrow> mms_headers \<Rightarrow> mms_headers" where
  "SetExtendedNotificationL aText h = h\<lparr> iExtendedNotificationText := some_nonempty aText \<rparr>"

definition SetApplicIdL :: "string16 \<Rightarrow> mms_headers \<Rightarrow> mms_headers" where
  "SetApplicIdL aId h = h\<lparr> iApplicationId := some_nonempty aId \<rparr>"

definition SetReplyApplicIdL :: "string16 \<Rightarrow> mms_headers \<Rightarrow> mms_headers" where
  "SetReplyApplicIdL aId h = h\<lparr> iReplyToApplicationId := some_nonempty aId \<rparr>"

definition SetAuxApplicInfoL :: "string8 \<Rightarrow> mms_headers \<Rightarrow> mms_headers" where
  "SetAuxApplicInfoL aInfo h = h\<lparr> iApplicationInfo := some_nonempty aInfo \<rparr>"

definition SetRecommendedRetrievalModeTextL :: "string16 \<Rightarrow> mms_headers \<Rightarrow> mms_headers" where
  "SetRecommendedRetrievalModeTextL aText h = h\<lparr> iRecommendedRetrievalModeText := some_nonempty aText \<rparr>"

text \<open>Expiry, delivery time and reply charging deadline hold an interval or a date.\<close>

definition SetExpiryInterval :: "tint \<Rightarrow> mms_headers \<Rightarrow> mms_headers" where
  "SetExpiryInterval aInterval h = h\<lparr> iExpiry := scast aInterval, iExpiryAbs := False \<rparr>"

definition SetExpiryDate :: "tint64 \<Rightarrow> mms_headers \<Rightarrow> mms_headers" where
  "SetExpiryDate aDate h = h\<lparr> iExpiry := aDate, iExpiryAbs := True \<rparr>"

definition ExpiryInterval :: "mms_headers \<Rightarrow> tint" where
  "ExpiryInterval h = (if iExpiryAbs h then 0 else ucast (iExpiry h))"

definition ExpiryDate :: "mms_headers \<Rightarrow> tint64" where
  "ExpiryDate h = (if iExpiryAbs h then iExpiry h else 0)"

definition SetDeliveryTimeInterval :: "tint \<Rightarrow> mms_headers \<Rightarrow> mms_headers" where
  "SetDeliveryTimeInterval aInterval h = h\<lparr> iDelivery := scast aInterval, iDeliveryAbs := False \<rparr>"

definition SetDeliveryDate :: "tint64 \<Rightarrow> mms_headers \<Rightarrow> mms_headers" where
  "SetDeliveryDate aDate h = h\<lparr> iDelivery := aDate, iDeliveryAbs := True \<rparr>"

definition DeliveryTimeInterval :: "mms_headers \<Rightarrow> tint" where
  "DeliveryTimeInterval h = (if iDeliveryAbs h then 0 else ucast (iDelivery h))"

definition DeliveryDate :: "mms_headers \<Rightarrow> tint64" where
  "DeliveryDate h = (if iDeliveryAbs h then iDelivery h else 0)"

definition SetReplyChargingInterval :: "tint \<Rightarrow> mms_headers \<Rightarrow> mms_headers" where
  "SetReplyChargingInterval aInterval h =
     h\<lparr> iReplyChargingDeadline := scast aInterval, iReplyChargingAbs := False \<rparr>"

definition SetReplyChargingDate :: "tint64 \<Rightarrow> mms_headers \<Rightarrow> mms_headers" where
  "SetReplyChargingDate aDate h =
     h\<lparr> iReplyChargingDeadline := aDate, iReplyChargingAbs := True \<rparr>"

definition ReplyChargingInterval :: "mms_headers \<Rightarrow> tint" where
  "ReplyChargingInterval h = (if iReplyChargingAbs h then 0 else ucast (iReplyChargingDeadline h))"

definition ReplyChargingDate :: "mms_headers \<Rightarrow> tint64" where
  "ReplyChargingDate h = (if iReplyChargingAbs h then iReplyChargingDeadline h else 0)"

section \<open>Addressees\<close>

datatype mms_recipients = EMmsTo | EMmsCc | EMmsBcc

definition AddTypedAddresseeL :: "string16 \<Rightarrow> mms_recipients \<Rightarrow> mms_headers \<Rightarrow> mms_headers" where
  "AddTypedAddresseeL aRealAddress aType h = (case aType of
       EMmsTo \<Rightarrow> h\<lparr> iToArray := iToArray h @ [aRealAddress] \<rparr>
     | EMmsCc \<Rightarrow> h\<lparr> iCcArray := iCcArray h @ [aRealAddress] \<rparr>
     | EMmsBcc \<Rightarrow> h\<lparr> iBccArray := iBccArray h @ [aRealAddress] \<rparr>)"

definition TypedAddresseeList :: "mms_recipients \<Rightarrow> mms_headers \<Rightarrow> string16 list" where
  "TypedAddresseeList aType h = (case aType of
       EMmsTo \<Rightarrow> iToArray h | EMmsCc \<Rightarrow> iCcArray h | EMmsBcc \<Rightarrow> iBccArray h)"

text \<open>
  The private overload removes the last entry whose pure address compares equal; \<open>same\<close> is that
  comparison (\<open>TMmsGenUtils::PureAddress\<close> and \<open>CompareF\<close>). The loop runs downwards.
\<close>

fun remove_last :: "nat \<Rightarrow> (string16 \<Rightarrow> bool) \<Rightarrow> string16 list \<Rightarrow> string16 list option" where
  "remove_last 0 same xs = None"
| "remove_last (Suc i) same xs =
     (if same (xs ! i) then Some (take i xs @ drop (Suc i) xs) else remove_last i same xs)"

definition RemoveAddressee ::
  "(string16 \<Rightarrow> string16 \<Rightarrow> bool) \<Rightarrow> string16 \<Rightarrow> mms_headers \<Rightarrow> bool \<times> mms_headers" where
  "RemoveAddressee same aRealAddress h =
     (let remove = (\<lambda>xs. remove_last (length xs) (same aRealAddress) xs) in
      case remove (iToArray h) of Some xs \<Rightarrow> (True, h\<lparr> iToArray := xs \<rparr>) | None \<Rightarrow>
      (case remove (iCcArray h) of Some xs \<Rightarrow> (True, h\<lparr> iCcArray := xs \<rparr>) | None \<Rightarrow>
      (case remove (iBccArray h) of Some xs \<Rightarrow> (True, h\<lparr> iBccArray := xs \<rparr>) | None \<Rightarrow> (False, h))))"

section \<open>Arrays in order\<close>

text \<open>
  \<open>RPointerArray::FindInOrder\<close>, \<open>InsertInOrder\<close> (no duplicates) and
  \<open>InsertInOrderAllowRepeats\<close> on arrays ordered by an unsigned key.
\<close>

fun find_in_order :: "('a \<Rightarrow> tint) \<Rightarrow> tint \<Rightarrow> 'a list \<Rightarrow> nat option" where
  "find_in_order key k [] = None"
| "find_in_order key k (y # ys) =
     (if key y = k then Some 0 else map_option Suc (find_in_order key k ys))"

fun insert_in_order :: "('a \<Rightarrow> tint) \<Rightarrow> 'a \<Rightarrow> 'a list \<Rightarrow> 'a list leaving" where
  "insert_in_order key x [] = Inr [x]"
| "insert_in_order key x (y # ys) =
     (if key x = key y then Inl KErrAlreadyExists
      else if key x < key y then Inr (x # y # ys)
      else bind_l (insert_in_order key x ys) (\<lambda>zs. Inr (y # zs)))"

fun insert_repeats :: "('a \<Rightarrow> tint) \<Rightarrow> 'a \<Rightarrow> 'a list \<Rightarrow> 'a list" where
  "insert_repeats key x [] = [x]"
| "insert_repeats key x (y # ys) =
     (if key x < key y then x # y # ys else y # insert_repeats key x ys)"

definition InsertPreviouslySentByL :: "tint \<Rightarrow> string16 \<Rightarrow> mms_headers \<Rightarrow> mms_headers leaving" where
  "InsertPreviouslySentByL aOrder aSender h =
     (let xs = iPreviouslySentArray h in
      case find_in_order scOrder aOrder xs of
        None \<Rightarrow> bind_l (insert_in_order scOrder (sc_set_sender aSender (sc_new\<lparr> scOrder := aOrder \<rparr>)) xs)
                  (\<lambda>ys. Inr (h\<lparr> iPreviouslySentArray := ys \<rparr>))
      | Some i \<Rightarrow> Inr (h\<lparr> iPreviouslySentArray := xs[i := sc_set_sender aSender (xs ! i)] \<rparr>))"

definition InsertPreviouslySentDateL :: "tint \<Rightarrow> tint64 \<Rightarrow> mms_headers \<Rightarrow> mms_headers leaving" where
  "InsertPreviouslySentDateL aOrder aDate h =
     (let xs = iPreviouslySentArray h in
      case find_in_order scOrder aOrder xs of
        None \<Rightarrow> bind_l (insert_in_order scOrder (sc_new\<lparr> scOrder := aOrder, scDate := aDate \<rparr>) xs)
                  (\<lambda>ys. Inr (h\<lparr> iPreviouslySentArray := ys \<rparr>))
      | Some i \<Rightarrow> Inr (h\<lparr> iPreviouslySentArray := xs[i := (xs ! i)\<lparr> scDate := aDate \<rparr>] \<rparr>))"

definition AppendPreviouslySentItemL :: "tint64 \<Rightarrow> string16 \<Rightarrow> mms_headers \<Rightarrow> mms_headers leaving" where
  "AppendPreviouslySentItemL aDate aSender h =
     (let xs = iPreviouslySentArray h;
          item = sc_set_sender aSender (sc_new\<lparr> scDate := aDate \<rparr>);
          item = item\<lparr> scOrder := (if xs = [] then 1 else scOrder (last xs) + 1) \<rparr>
      in bind_l (insert_in_order scOrder item xs) (\<lambda>ys. Inr (h\<lparr> iPreviouslySentArray := ys \<rparr>)))"

definition dr_new :: delete_result where
  "dr_new = \<lparr> drOrder = 0, drResponseStatus = 0, drContentLocation = None, drResponseText = None \<rparr>"

definition dr_update :: "tint \<Rightarrow> (delete_result \<Rightarrow> delete_result) \<Rightarrow> delete_result list \<Rightarrow> delete_result list" where
  "dr_update aOrder f xs = map (\<lambda>d. if drOrder d = aOrder then f d else d) xs"

definition InsertDeleteStatusL :: "tint \<Rightarrow> tint \<Rightarrow> mms_headers \<Rightarrow> mms_headers leaving" where
  "InsertDeleteStatusL aOrder aStatus h =
     (let xs = iDeleteResultArray h in
      case find_in_order drOrder aOrder xs of
        None \<Rightarrow> bind_l (insert_in_order drOrder (dr_new\<lparr> drOrder := aOrder, drResponseStatus := aStatus \<rparr>) xs)
                  (\<lambda>ys. Inr (h\<lparr> iDeleteResultArray := ys \<rparr>))
      | Some i \<Rightarrow> Inr (h\<lparr> iDeleteResultArray := dr_update aOrder (\<lambda>d. d\<lparr> drResponseStatus := aStatus \<rparr>) xs \<rparr>))"

definition InsertDeleteResponseTextL :: "tint \<Rightarrow> string16 \<Rightarrow> mms_headers \<Rightarrow> mms_headers leaving" where
  "InsertDeleteResponseTextL aOrder aText h =
     (let xs = iDeleteResultArray h in
      case find_in_order drOrder aOrder xs of
        None \<Rightarrow> bind_l (insert_in_order drOrder (dr_new\<lparr> drOrder := aOrder, drResponseText := Some aText \<rparr>) xs)
                  (\<lambda>ys. Inr (h\<lparr> iDeleteResultArray := ys \<rparr>))
      | Some i \<Rightarrow> Inr (h\<lparr> iDeleteResultArray := dr_update aOrder (\<lambda>d. d\<lparr> drResponseText := Some aText \<rparr>) xs \<rparr>))"

text \<open>The first entry of that order without a location takes it; the flag tells whether there was one.\<close>

fun dr_fill_location :: "tint \<Rightarrow> string8 \<Rightarrow> delete_result list \<Rightarrow> bool \<times> delete_result list" where
  "dr_fill_location aOrder loc [] = (False, [])"
| "dr_fill_location aOrder loc (d # ds) =
     (if drOrder d = aOrder \<and> length (des_of (drContentLocation d)) = 0
      then (True, d\<lparr> drContentLocation := Some loc \<rparr> # ds)
      else (case dr_fill_location aOrder loc ds of (b, es) \<Rightarrow> (b, d # es)))"

definition InsertDeleteContentLocationL :: "tint \<Rightarrow> string8 \<Rightarrow> mms_headers \<Rightarrow> mms_headers leaving" where
  "InsertDeleteContentLocationL aOrder aContentLocation h =
     (let xs = iDeleteResultArray h;
          item = dr_new\<lparr> drOrder := aOrder, drContentLocation := Some aContentLocation \<rparr> in
      case find_in_order drOrder aOrder xs of
        None \<Rightarrow> bind_l (insert_in_order drOrder item xs) (\<lambda>ys. Inr (h\<lparr> iDeleteResultArray := ys \<rparr>))
      | Some i \<Rightarrow>
          (case dr_fill_location aOrder aContentLocation xs of
             (True, ys) \<Rightarrow> Inr (h\<lparr> iDeleteResultArray := ys \<rparr>)
           | (False, _) \<Rightarrow>
               Inr (h\<lparr> iDeleteResultArray := insert_repeats drOrder
                 (item\<lparr> drResponseStatus := drResponseStatus (xs ! i),
                        drResponseText := Some (des_of (drResponseText (xs ! i))) \<rparr>) xs \<rparr>)))"

end
