(* ===== verification/Mms_Headers_Store.thy ===== *)
theory Mms_Headers_Store
  imports Mms_Headers
begin

text \<open>
  How \<open>CMmsHeaders\<close> is written to and read from the message store: the header stream
  (\<open>ExternalizeL\<close>, \<open>InternalizeL\<close>) and the separate streams of \<open>StoreL\<close> and \<open>RestoreL\<close>.
  The store is a map from stream identifiers to streams, beside the attachments.
\<close>

section \<open>The header stream\<close>

definition limit_string :: "'a list \<Rightarrow> nat \<Rightarrow> 'a list" where
  "limit_string aString aMaxSize = (if length aString < aMaxSize then aString else take aMaxSize aString)"

lemma limit_string_take: "limit_string s k = take k s"
  by (simp add: limit_string_def)

definition bool8 :: "bool \<Rightarrow> byte" where
  "bool8 b = (if b then 1 else 0)"

definition write_addresses :: "string16 list \<Rightarrow> stream" where
  "write_addresses xs = SCard (length xs) # concat (map (\<lambda>x. [SDes16 (take (min (length x) KMaxHeaderStringLength) x)]) xs)"

definition read_addresses :: "string16 list reader" where
  "read_addresses = rbind ReadCardL (\<lambda>n. read_n n (read_des16 KMaxHeaderStringLength))"

definition headers_externalize :: "mms_headers \<Rightarrow> stream" where
  "headers_externalize h =
     [SInt16 (iVersion h), SInt32 (iMsgType h),
      SDes16 (limit_string (des_of (iSubject h)) KMaxHeaderStringLength),
      SDes8 (limit_string (des_of (iTID h)) KMaxHeaderStringLength),
      SInt64 (iDate h),
      SDes16 (limit_string (des_of (iSender h)) KMaxHeaderStringLength),
      SInt32 (iMsgClass h), SInt64 (iExpiry h), SInt8 (bool8 (iExpiryAbs h)),
      SInt64 (iDelivery h), SInt8 (bool8 (iDeliveryAbs h)),
      SInt32 (iPriority h), SInt32 (iSenderVisi h), SInt32 (iDelivReport h), SInt32 (iReadReply h),
      SInt32 (iStart h),
      SDes8 (limit_string (des_of (iContentLocation h)) KMaxHeaderStringLength),
      SInt32 (iMessageSize h), SInt32 (iReportAllowed h), SInt32 (iResponseStatus h),
      SDes8 (limit_string (des_of (iMessageId h)) KMaxHeaderStringLength),
      SInt32 (iStatus h), SInt32 (iMaxImageWidth h), SInt32 (iMaxImageHeight h)]
     @ write_addresses (iToArray h) @ write_addresses (iCcArray h) @ write_addresses (iBccArray h)
     @ write_counted8 (des_of (iRootContentID h))
     @ write_counted16 (des_of (iOperatorResponseText h))
     @ [SInt32 (iReadStatus h), SInt32 (iReplyCharging h), SInt64 (iReplyChargingDeadline h),
        SInt8 (bool8 (iReplyChargingAbs h)), SInt32 (iReplyChargingSize h)]
     @ write_counted8 (des_of (iReplyChargingId h))
     @ write_counted sc_externalize (iPreviouslySentArray h)
     @ [SInt32 (iDistributionIndicator h), SInt32 (iRelatedEntry h), SInt32 (iMultipartType h),
        SInt64 (iReceivingTime h), SInt32 (iContentClass h), SInt32 (iDrmContent h),
        SInt32 (iAdaptationAllowed h)]"

text \<open>Every sending chain item read is inserted in order.\<close>

fun read_chain :: "nat \<Rightarrow> sending_chain list \<Rightarrow> sending_chain list reader" where
  "read_chain 0 xs = rreturn xs"
| "read_chain (Suc n) xs = rbind (sc_internalize sc_new) (\<lambda>item.
     case insert_in_order scOrder item xs of Inl e \<Rightarrow> rleave e | Inr ys \<Rightarrow> read_chain n ys)"

definition headers_internalize_1 :: "mms_headers \<Rightarrow> mms_headers reader" where
  "headers_internalize_1 h =
     rbind ReadInt16L (\<lambda>version. rbind ReadInt32L (\<lambda>mtype.
     rbind (read_des16 KMaxHeaderStringLength) (\<lambda>subject.
     rbind (read_des8 KMaxHeaderStringLength) (\<lambda>tid. rbind ReadInt64L (\<lambda>date.
     rbind (read_des16 KMaxHeaderStringLength) (\<lambda>sender. rbind ReadInt32L (\<lambda>mclass.
     rbind ReadInt64L (\<lambda>expiry. rbind ReadInt8L (\<lambda>expiry_abs.
     rbind ReadInt64L (\<lambda>delivery. rbind ReadInt8L (\<lambda>delivery_abs.
     rbind ReadInt32L (\<lambda>priority. rbind ReadInt32L (\<lambda>visi. rbind ReadInt32L (\<lambda>report.
     rbind ReadInt32L (\<lambda>reply. rbind ReadInt32L (\<lambda>start.
       rreturn (h\<lparr> iVersion := version, iMsgType := mtype, iSubject := Some subject,
         iTID := Some tid, iDate := date, iSender := Some sender, iMsgClass := mclass,
         iExpiry := expiry, iExpiryAbs := (expiry_abs \<noteq> 0), iDelivery := delivery,
         iDeliveryAbs := (delivery_abs \<noteq> 0), iPriority := priority, iSenderVisi := visi,
         iDelivReport := report, iReadReply := reply, iStart := start \<rparr>)))))))))))))))))"

definition headers_internalize_2 :: "mms_headers \<Rightarrow> mms_headers reader" where
  "headers_internalize_2 h =
     rbind (read_des8 KMaxHeaderStringLength) (\<lambda>location. rbind ReadInt32L (\<lambda>size.
     rbind ReadInt32L (\<lambda>allowed. rbind ReadInt32L (\<lambda>response.
     rbind (read_des8 KMaxHeaderStringLength) (\<lambda>mid. rbind ReadInt32L (\<lambda>status.
     rbind ReadInt32L (\<lambda>width. rbind ReadInt32L (\<lambda>height.
     rbind read_addresses (\<lambda>tos. rbind read_addresses (\<lambda>ccs. rbind read_addresses (\<lambda>bccs.
     rbind (read_counted8 (iRootContentID h)) (\<lambda>root.
     rbind (read_counted16 (iOperatorResponseText h)) (\<lambda>text.
       rreturn (h\<lparr> iContentLocation := Some location, iMessageSize := size,
         iReportAllowed := allowed, iResponseStatus := response, iMessageId := Some mid,
         iStatus := status, iMaxImageWidth := width, iMaxImageHeight := height,
         iToArray := tos, iCcArray := ccs, iBccArray := bccs, iRootContentID := root,
         iOperatorResponseText := text \<rparr>))))))))))))))"

definition headers_internalize_3 :: "mms_headers \<Rightarrow> mms_headers reader" where
  "headers_internalize_3 h =
     rbind ReadInt32L (\<lambda>rstatus. rbind ReadInt32L (\<lambda>charging. rbind ReadInt64L (\<lambda>deadline.
     rbind ReadInt8L (\<lambda>charging_abs. rbind ReadInt32L (\<lambda>csize.
     rbind (read_counted8 (iReplyChargingId h)) (\<lambda>cid.
     rbind ReadInt32L (\<lambda>n. rbind (read_chain (nat (sint n)) (iPreviouslySentArray h)) (\<lambda>chain.
     rbind ReadInt32L (\<lambda>distribution. rbind ReadInt32L (\<lambda>related. rbind ReadInt32L (\<lambda>multipart.
     rbind ReadInt64L (\<lambda>time. rbind ReadInt32L (\<lambda>cclass. rbind ReadInt32L (\<lambda>drm.
     rbind ReadInt32L (\<lambda>adaptation.
       rreturn (h\<lparr> iReadStatus := rstatus, iReplyCharging := charging,
         iReplyChargingDeadline := deadline, iReplyChargingAbs := (charging_abs \<noteq> 0),
         iReplyChargingSize := csize, iReplyChargingId := cid, iPreviouslySentArray := chain,
         iDistributionIndicator := distribution, iRelatedEntry := related,
         iMultipartType := multipart, iReceivingTime := time, iContentClass := cclass,
         iDrmContent := drm, iAdaptationAllowed := adaptation \<rparr>))))))))))))))))"

definition headers_internalize :: "mms_headers \<Rightarrow> mms_headers reader" where
  "headers_internalize h =
     rbind (headers_internalize_1 h) (\<lambda>h1. rbind (headers_internalize_2 h1) headers_internalize_3)"

section \<open>The store\<close>

datatype stream_uid =
    KUidMmsHeaderStream
  | KUidMMsElementDescriptorStream
  | KUidMMsMMBoxMessageHeaderStream
  | KUidMMsMMBoxViewHeadersStream
  | KUidMMsExtendedNotificationStream
  | KUidMmsApplicationInfoStream
  | KUidMmsReserved

type_synonym msv_store = "stream_uid \<Rightarrow> stream option"

definition write_if :: "bool \<Rightarrow> stream_uid \<Rightarrow> stream \<Rightarrow> msv_store \<Rightarrow> msv_store" where
  "write_if c u s store = (if c then store(u \<mapsto> s) else store)"

definition write_streams :: "mms_headers \<Rightarrow> msv_store \<Rightarrow> msv_store" where
  "write_streams h s0 =
     (let s1 = s0(KUidMmsHeaderStream \<mapsto> headers_externalize h);
          s2 = (case iElementDescriptor h of None \<Rightarrow> s1
                | Some d \<Rightarrow> s1(KUidMMsElementDescriptorStream \<mapsto> ed_externalize d));
          s3 = (case iMmBoxMessageHeaders h of None \<Rightarrow> s2
                | Some m \<Rightarrow> s2(KUidMMsMMBoxMessageHeaderStream \<mapsto> mh_externalize m));
          s4 = (case iMmBoxViewHeaders h of None \<Rightarrow> s3
                | Some v \<Rightarrow> s3(KUidMMsMMBoxViewHeadersStream \<mapsto> vh_externalize v));
          s5 = write_if (iExtendedNotificationText h \<noteq> None) KUidMMsExtendedNotificationStream
                 (write_counted16 (des_of (iExtendedNotificationText h))) s4;
          s6 = write_if (iApplicationId h \<noteq> None \<or> iReplyToApplicationId h \<noteq> None \<or>
                  iApplicationInfo h \<noteq> None) KUidMmsApplicationInfoStream
                 (write_counted16 (des_of (iApplicationId h))
                  @ write_counted16 (des_of (iReplyToApplicationId h))
                  @ write_counted8 (des_of (iApplicationInfo h))) s5
      in write_if (iRecommendedRetrievalMode h \<noteq> 0 \<or> iRecommendedRetrievalModeText h \<noteq> None \<or>
            iReplaceCancelId h \<noteq> None \<or> iCancelStatus h \<noteq> 0) KUidMmsReserved
           (SInt32 (iRecommendedRetrievalMode h)
            # write_counted16 (des_of (iRecommendedRetrievalModeText h))
            @ write_counted8 (des_of (iReplaceCancelId h)) @ [SInt32 (iCancelStatus h)]) s6)"

text \<open>
  Before it writes, \<open>StoreL\<close> compares the root indicator with the attachments of the message. The
  attachment manager and the MIME headers of an attachment belong to the platform; the record
  holds the calls made on them, over the state of the attachments: \<open>AttachmentManagerL\<close>,
  \<open>GetAttachmentInfoL\<close>, \<open>RestoreL\<close> of the MIME headers with \<open>ContentId\<close>, and \<open>SetContentIdL\<close>
  with \<open>StoreL\<close>. \<open>GetAttachmentInfoL\<close> is the one call that runs under a trap.
\<close>

record 'm attachment_services =
  svAttachmentManager :: "'m \<Rightarrow> unit leaving"
  svAttachmentInfo :: "tint \<Rightarrow> 'm \<Rightarrow> nat leaving"
  svMimeContentId :: "nat \<Rightarrow> 'm \<Rightarrow> string8 leaving"
  svStoreContentId :: "nat \<Rightarrow> string8 \<Rightarrow> 'm \<Rightarrow> 'm leaving"

definition agree_root :: "'m attachment_services \<Rightarrow> nat \<Rightarrow> mms_headers \<Rightarrow> 'm \<Rightarrow> (mms_headers \<times> 'm) leaving" where
  "agree_root sv att h m =
     bind_l (svMimeContentId sv att m) (\<lambda>cid.
       let root = des_of (iRootContentID h) in
       if root \<noteq> cid then
         (if 0 < length cid then Inr (SetRootContentIdL cid h, m)
          else if 0 < length root then bind_l (svStoreContentId sv att root m) (\<lambda>m'. Inr (h, m'))
          else Inr (h, m))
       else Inr (h, m))"

definition check_root :: "'m attachment_services \<Rightarrow> mms_headers \<Rightarrow> 'm \<Rightarrow> (mms_headers \<times> 'm) leaving" where
  "check_root sv h m =
     (if iStart h \<noteq> 0 then
        bind_l (svAttachmentManager sv m) (\<lambda>_.
          case svAttachmentInfo sv (iStart h) m of
            Inl e \<Rightarrow> Inr (if e = KErrNotFound then h\<lparr> iStart := 0, iRootContentID := None \<rparr> else h, m)
          | Inr att \<Rightarrow> agree_root sv att h m)
      else Inr (h, m))"

definition headers_store ::
    "'m attachment_services \<Rightarrow> mms_headers \<Rightarrow> msv_store \<times> 'm \<Rightarrow> (mms_headers \<times> msv_store \<times> 'm) leaving" where
  "headers_store sv h aStore =
     bind_l (check_root sv h (snd aStore)) (\<lambda>(h', m). Inr (h', write_streams h' (fst aStore), m))"

text \<open>Reading one stream, where it is present, into the headers.\<close>

definition restore_from :: "stream option \<Rightarrow> (mms_headers \<Rightarrow> mms_headers reader) \<Rightarrow> mms_headers \<Rightarrow> mms_headers leaving" where
  "restore_from st r h = (case st of None \<Rightarrow> Inr h | Some s \<Rightarrow> bind_l (r h s) (\<lambda>(h', _). Inr h'))"

definition read_descriptor :: "mms_headers \<Rightarrow> mms_headers reader" where
  "read_descriptor h = rbind (ed_internalize ed_new) (\<lambda>d. rreturn (h\<lparr> iElementDescriptor := Some d \<rparr>))"

definition read_mmbox_message :: "mms_headers \<Rightarrow> mms_headers reader" where
  "read_mmbox_message h = rbind (mh_internalize mh_new) (\<lambda>m. rreturn (h\<lparr> iMmBoxMessageHeaders := Some m \<rparr>))"

definition read_mmbox_view :: "mms_headers \<Rightarrow> mms_headers reader" where
  "read_mmbox_view h = rbind (vh_internalize vh_new) (\<lambda>v. rreturn (h\<lparr> iMmBoxViewHeaders := Some v \<rparr>))"

definition read_extended :: "mms_headers \<Rightarrow> mms_headers reader" where
  "read_extended h = rbind (read_counted16 (iExtendedNotificationText h)) (\<lambda>t.
     rreturn (h\<lparr> iExtendedNotificationText := t \<rparr>))"

definition read_application :: "mms_headers \<Rightarrow> mms_headers reader" where
  "read_application h =
     rbind (read_counted16 (iApplicationId h)) (\<lambda>a. rbind (read_counted16 (iReplyToApplicationId h)) (\<lambda>r.
     rbind (read_counted8 (iApplicationInfo h)) (\<lambda>i.
       rreturn (h\<lparr> iApplicationId := a, iReplyToApplicationId := r, iApplicationInfo := i \<rparr>))))"

definition read_reserved :: "mms_headers \<Rightarrow> mms_headers reader" where
  "read_reserved h =
     rbind ReadInt32L (\<lambda>mode. rbind (read_counted16 (iRecommendedRetrievalModeText h)) (\<lambda>t.
     rbind (read_counted8 (iReplaceCancelId h)) (\<lambda>i. rbind ReadInt32L (\<lambda>status.
       rreturn (h\<lparr> iRecommendedRetrievalMode := mode, iRecommendedRetrievalModeText := t,
         iReplaceCancelId := i, iCancelStatus := status \<rparr>)))))"

definition headers_restore :: "msv_store \<Rightarrow> mms_headers \<Rightarrow> mms_headers leaving" where
  "headers_restore aStore h0 =
     bind_l (restore_from (aStore KUidMmsHeaderStream) headers_internalize (headers_reset h0)) (\<lambda>h1.
     bind_l (restore_from (aStore KUidMMsElementDescriptorStream) read_descriptor h1) (\<lambda>h2.
     bind_l (restore_from (aStore KUidMMsMMBoxMessageHeaderStream) read_mmbox_message h2) (\<lambda>h3.
     bind_l (restore_from (aStore KUidMMsMMBoxViewHeadersStream) read_mmbox_view h3) (\<lambda>h4.
     bind_l (restore_from (aStore KUidMMsExtendedNotificationStream) read_extended h4) (\<lambda>h5.
     bind_l (restore_from (aStore KUidMmsApplicationInfoStream) read_application h5) (\<lambda>h6.
     restore_from (aStore KUidMmsReserved) read_reserved h6))))))"

end
