(* ===== verification/Mms_Headers_Laws.thy ===== *)
theory Mms_Headers_Laws
  imports Mms_Headers_Store
begin

text \<open>
  Laws of \<open>CMmsHeaders\<close>: the ordered arrays stay strictly ordered, interval and date of a
  deadline exclude each other, and what is stored is what is restored.
\<close>

section \<open>Ordered arrays\<close>

definition chain_sorted :: "('a \<Rightarrow> tint) \<Rightarrow> 'a list \<Rightarrow> bool" where
  "chain_sorted key xs \<longleftrightarrow> sorted_wrt (\<lambda>a b. key a < key b) xs"

definition weakly_sorted :: "('a \<Rightarrow> tint) \<Rightarrow> 'a list \<Rightarrow> bool" where
  "weakly_sorted key xs \<longleftrightarrow> sorted_wrt (\<lambda>a b. key a \<le> key b) xs"

lemma insert_in_order_set: "insert_in_order key x xs = Inr ys \<Longrightarrow> set ys = insert x (set xs)"
  by (induction xs arbitrary: ys) (auto simp: bind_l_eq_Inr split: if_splits)

lemma insert_in_order_sorted:
  "insert_in_order key x xs = Inr ys \<Longrightarrow> chain_sorted key xs \<Longrightarrow> chain_sorted key ys"
  unfolding chain_sorted_def
proof (induction xs arbitrary: ys)
  case (Cons a xs)
  show ?case
  proof (cases "key x < key a")
    case True
    then have "\<forall>z \<in> set xs. key x < key z"
      using Cons.prems by (auto intro: order.strict_trans)
    then show ?thesis using Cons.prems True by (auto split: if_splits)
  next
    case False
    then obtain zs where "insert_in_order key x xs = Inr zs" "ys = a # zs" "key a < key x"
      using Cons.prems by (auto simp: bind_l_eq_Inr split: if_splits)
    then show ?thesis
      using Cons insert_in_order_set [of key x xs zs] by auto
  qed
qed simp

lemma insert_in_order_weak:
  "insert_in_order key x xs = Inr ys \<Longrightarrow> weakly_sorted key xs \<Longrightarrow> weakly_sorted key ys"
  unfolding weakly_sorted_def
proof (induction xs arbitrary: ys)
  case (Cons a xs)
  show ?case
  proof (cases "key x < key a")
    case True
    then have "\<forall>z \<in> set xs. key x \<le> key z"
      using Cons.prems by (auto intro: order.trans less_imp_le)
    then show ?thesis using Cons.prems True by (auto split: if_splits)
  next
    case False
    then obtain zs where "insert_in_order key x xs = Inr zs" "ys = a # zs" "key a < key x"
      using Cons.prems by (auto simp: bind_l_eq_Inr split: if_splits)
    then show ?thesis
      using Cons insert_in_order_set [of key x xs zs] by auto
  qed
qed simp

lemma insert_repeats_set: "set (insert_repeats key x xs) = insert x (set xs)"
  by (induction xs) auto

lemma insert_repeats_weak: "weakly_sorted key xs \<Longrightarrow> weakly_sorted key (insert_repeats key x xs)"
  unfolding weakly_sorted_def
  by (induction xs) (auto simp: insert_repeats_set not_less)

lemma find_in_order_None: "find_in_order key k xs = None \<longleftrightarrow> (\<forall>x \<in> set xs. key x \<noteq> k)"
  by (induction xs) auto

lemma find_in_order_Some:
  "find_in_order key k xs = Some i \<Longrightarrow> i < length xs \<and> key (xs ! i) = k"
  by (induction xs arbitrary: i) (auto split: if_splits)

lemma insert_in_order_fresh:
  "\<forall>y \<in> set xs. key y \<noteq> key x \<Longrightarrow> \<exists>ys. insert_in_order key x xs = Inr ys"
proof (induction xs)
  case (Cons a xs)
  then obtain ys where "insert_in_order key x xs = Inr ys" by auto
  then show ?case using Cons.prems by (cases "key x < key a") auto
qed simp

text \<open>Inserting after everything appends.\<close>

lemma insert_in_order_last:
  "\<forall>y \<in> set xs. key y < key x \<Longrightarrow> insert_in_order key x xs = Inr (xs @ [x])"
  by (induction xs) auto

lemma chain_sorted_update:
  "chain_sorted key xs \<Longrightarrow> i < length xs \<Longrightarrow> key y = key (xs ! i) \<Longrightarrow> chain_sorted key (xs[i := y])"
  by (simp add: chain_sorted_def sorted_wrt_iff_nth_less nth_list_update)

text \<open>No insertion into the sending chain leaves, and all keep it strictly ordered.\<close>

lemma previously_sent_sorted:
  assumes "chain_sorted scOrder (iPreviouslySentArray h)"
  shows "\<exists>h'. InsertPreviouslySentByL n s h = Inr h' \<and> chain_sorted scOrder (iPreviouslySentArray h')"
    and "\<exists>h'. InsertPreviouslySentDateL n d h = Inr h' \<and> chain_sorted scOrder (iPreviouslySentArray h')"
proof -
  let ?xs = "iPreviouslySentArray h"
  have new: "\<exists>ys. insert_in_order scOrder x ?xs = Inr ys \<and> chain_sorted scOrder ys"
    if "find_in_order scOrder n ?xs = None" "scOrder x = n" for x
    using that assms insert_in_order_fresh [of ?xs scOrder x] insert_in_order_sorted
    by (fastforce simp: find_in_order_None)
  show "\<exists>h'. InsertPreviouslySentByL n s h = Inr h' \<and> chain_sorted scOrder (iPreviouslySentArray h')"
  proof (cases "find_in_order scOrder n ?xs")
    case None
    then obtain ys where "insert_in_order scOrder (sc_set_sender s (sc_new\<lparr> scOrder := n \<rparr>)) ?xs = Inr ys"
      "chain_sorted scOrder ys"
      using new [OF None, of "sc_set_sender s (sc_new\<lparr> scOrder := n \<rparr>)"] by (auto simp: sc_set_sender_def)
    then show ?thesis using None by (simp add: InsertPreviouslySentByL_def Let_def)
  next
    case (Some i)
    then show ?thesis
      using find_in_order_Some [OF Some] assms
      by (simp add: InsertPreviouslySentByL_def Let_def chain_sorted_update sc_set_sender_def)
  qed
  show "\<exists>h'. InsertPreviouslySentDateL n d h = Inr h' \<and> chain_sorted scOrder (iPreviouslySentArray h')"
  proof (cases "find_in_order scOrder n ?xs")
    case None
    then obtain ys where "insert_in_order scOrder (sc_new\<lparr> scOrder := n, scDate := d \<rparr>) ?xs = Inr ys"
      "chain_sorted scOrder ys"
      using new [OF None, of "sc_new\<lparr> scOrder := n, scDate := d \<rparr>"] by auto
    then show ?thesis using None by (simp add: InsertPreviouslySentDateL_def Let_def)
  next
    case (Some i)
    then show ?thesis
      using find_in_order_Some [OF Some] assms
      by (simp add: InsertPreviouslySentDateL_def Let_def chain_sorted_update)
  qed
qed

section \<open>Delete results\<close>

text \<open>
  Entries of the same order agree on status and text, so that it does not matter which of them
  \<open>FindInOrder\<close> returns.
\<close>

definition same_result :: "delete_result \<Rightarrow> delete_result \<Rightarrow> bool" where
  "same_result a b \<longleftrightarrow> drResponseStatus a = drResponseStatus b \<and>
     des_of (drResponseText a) = des_of (drResponseText b)"

definition results_agree :: "delete_result list \<Rightarrow> bool" where
  "results_agree xs \<longleftrightarrow> weakly_sorted drOrder xs \<and>
     (\<forall>a \<in> set xs. \<forall>b \<in> set xs. drOrder a = drOrder b \<longrightarrow> same_result a b)"

lemma results_agreeI:
  "\<lbrakk> weakly_sorted drOrder xs;
     \<And>a b. a \<in> set xs \<Longrightarrow> b \<in> set xs \<Longrightarrow> drOrder a = drOrder b \<Longrightarrow> same_result a b \<rbrakk> \<Longrightarrow>
   results_agree xs"
  by (simp add: results_agree_def)

lemma results_agreeD:
  "results_agree xs \<Longrightarrow> weakly_sorted drOrder xs"
  "results_agree xs \<Longrightarrow> a \<in> set xs \<Longrightarrow> b \<in> set xs \<Longrightarrow> drOrder a = drOrder b \<Longrightarrow> same_result a b"
  by (simp_all add: results_agree_def)

lemma same_result_refl [simp]: "same_result a a"
  by (simp add: same_result_def)

lemma same_result_sym: "same_result a b \<Longrightarrow> same_result b a"
  by (simp add: same_result_def)

lemma results_agree_update:
  assumes "results_agree xs" "\<And>d. drOrder (f d) = drOrder d"
    and "\<And>d e. same_result d e \<Longrightarrow> same_result (f d) (f e)"
  shows "results_agree (dr_update n f xs)"
proof (rule results_agreeI)
  let ?g = "\<lambda>d. if drOrder d = n then f d else d"
  have ord: "drOrder (?g d) = drOrder d" for d using assms(2) by simp
  show "weakly_sorted drOrder (dr_update n f xs)"
    using results_agreeD(1) [OF assms(1)]
    by (simp add: dr_update_def weakly_sorted_def sorted_wrt_map ord)
  fix a b assume ab: "a \<in> set (dr_update n f xs)" "b \<in> set (dr_update n f xs)"
    and eq: "drOrder a = drOrder b"
  obtain x where x: "x \<in> set xs" "a = ?g x" using ab(1) unfolding dr_update_def set_map by blast
  obtain y where y: "y \<in> set xs" "b = ?g y" using ab(2) unfolding dr_update_def set_map by blast
  have "drOrder x = drOrder y" using eq by (simp only: x(2) y(2) ord)
  then show "same_result a b"
    using results_agreeD(2) [OF assms(1) x(1) y(1)] assms(3) [of x y] by (simp add: x(2) y(2))
qed

lemma results_agree_cons:
  assumes "results_agree xs" "weakly_sorted drOrder ys" "set ys = insert x (set xs)"
    and "\<And>y. y \<in> set xs \<Longrightarrow> drOrder y = drOrder x \<Longrightarrow> same_result x y"
  shows "results_agree ys"
proof (rule results_agreeI [OF assms(2)])
  fix a b assume ab: "a \<in> set ys" "b \<in> set ys" and eq: "drOrder a = drOrder b"
  consider "a = x" "b = x" | "a = x" "b \<in> set xs" | "a \<in> set xs" "b = x" | "a \<in> set xs" "b \<in> set xs"
    using ab assms(3) by blast
  then show "same_result a b"
  proof cases
    case 1
    then show ?thesis by simp
  next
    case 2
    then show ?thesis using assms(4) [of b] eq by simp
  next
    case 3
    then show ?thesis using same_result_sym [OF assms(4) [of a]] eq by simp
  next
    case 4
    then show ?thesis using results_agreeD(2) [OF assms(1)] eq by simp
  qed
qed

lemma results_agree_insert:
  assumes "results_agree xs" "find_in_order drOrder (drOrder x) xs = None"
  shows "\<exists>ys. insert_in_order drOrder x xs = Inr ys \<and> results_agree ys"
proof -
  have new: "\<forall>y \<in> set xs. drOrder y \<noteq> drOrder x" using assms(2) by (simp add: find_in_order_None)
  obtain ys where ys: "insert_in_order drOrder x xs = Inr ys"
    using insert_in_order_fresh [OF new] by blast
  have "results_agree ys"
    by (rule results_agree_cons [OF assms(1) insert_in_order_weak [OF ys results_agreeD(1) [OF assms(1)]]
          insert_in_order_set [OF ys]]) (use new in simp)
  then show ?thesis using ys by blast
qed

lemma dr_fill_location_keeps:
  "dr_fill_location n loc xs = (b, ys) \<Longrightarrow>
     map (\<lambda>d. (drOrder d, drResponseStatus d, des_of (drResponseText d))) ys =
     map (\<lambda>d. (drOrder d, drResponseStatus d, des_of (drResponseText d))) xs"
  by (induction xs arbitrary: b ys) (auto split: if_splits prod.splits)

lemma results_agree_cong:
  assumes "map (\<lambda>d. (drOrder d, drResponseStatus d, des_of (drResponseText d))) ys =
     map (\<lambda>d. (drOrder d, drResponseStatus d, des_of (drResponseText d))) xs" (is "map ?k ys = map ?k xs")
    and "results_agree xs"
  shows "results_agree ys"
proof (rule results_agreeI)
  have "map drOrder ys = map drOrder xs"
    using arg_cong [OF assms(1), of "map fst"] by (simp add: o_def)
  then show "weakly_sorted drOrder ys"
    using results_agreeD(1) [OF assms(2)] unfolding weakly_sorted_def by (metis sorted_wrt_map)
  have img: "?k ` set ys = ?k ` set xs"
    using arg_cong [OF assms(1), of set] by simp
  fix a b assume "a \<in> set ys" "b \<in> set ys" and eq: "drOrder a = drOrder b"
  then obtain x y where "x \<in> set xs" "?k x = ?k a" "y \<in> set xs" "?k y = ?k b"
    using img by (metis (no_types, lifting) image_iff)
  then show "same_result a b"
    using results_agreeD(2) [OF assms(2), of x y] eq by (simp add: same_result_def)
qed

definition delete_results_ok :: "mms_headers leaving \<Rightarrow> bool" where
  "delete_results_ok r \<longleftrightarrow> (\<exists>h. r = Inr h \<and> results_agree (iDeleteResultArray h))"

lemma delete_results_preserved:
  assumes "results_agree (iDeleteResultArray h)"
  shows "delete_results_ok (InsertDeleteStatusL n st h)"
    and "delete_results_ok (InsertDeleteResponseTextL n tx h)"
    and "delete_results_ok (InsertDeleteContentLocationL n loc h)"
proof -
  let ?xs = "iDeleteResultArray h"
  have ins: "\<exists>ys. insert_in_order drOrder x ?xs = Inr ys \<and> results_agree ys"
    if "find_in_order drOrder n ?xs = None" "drOrder x = n" for x
    using results_agree_insert [OF assms, of x] that by simp
  show "delete_results_ok (InsertDeleteStatusL n st h)"
    using ins [of "dr_new\<lparr> drOrder := n, drResponseStatus := st \<rparr>"]
      results_agree_update [OF assms, of "\<lambda>d. d\<lparr> drResponseStatus := st \<rparr>" n]
    by (auto simp: InsertDeleteStatusL_def delete_results_ok_def Let_def same_result_def split: option.split)
  show "delete_results_ok (InsertDeleteResponseTextL n tx h)"
    using ins [of "dr_new\<lparr> drOrder := n, drResponseText := Some tx \<rparr>"]
      results_agree_update [OF assms, of "\<lambda>d. d\<lparr> drResponseText := Some tx \<rparr>" n]
    by (auto simp: InsertDeleteResponseTextL_def delete_results_ok_def Let_def same_result_def split: option.split)
  show "delete_results_ok (InsertDeleteContentLocationL n loc h)"
  proof (cases "find_in_order drOrder n ?xs")
    case None
    then show ?thesis
      using ins [OF None, of "dr_new\<lparr> drOrder := n, drContentLocation := Some loc \<rparr>"]
      by (auto simp: InsertDeleteContentLocationL_def delete_results_ok_def Let_def)
  next
    case (Some i)
    obtain b ys where f: "dr_fill_location n loc ?xs = (b, ys)" by (cases "dr_fill_location n loc ?xs")
    have i: "i < length ?xs" "drOrder (?xs ! i) = n" using find_in_order_Some [OF Some] by simp_all
    define item where "item = dr_new\<lparr> drOrder := n, drContentLocation := Some loc,
      drResponseStatus := drResponseStatus (?xs ! i),
      drResponseText := Some (des_of (drResponseText (?xs ! i))) \<rparr>"
    have "results_agree (insert_repeats drOrder item ?xs)"
      by (rule results_agree_cons [OF assms insert_repeats_weak [OF results_agreeD(1) [OF assms]]
            insert_repeats_set])
         (use results_agreeD(2) [OF assms nth_mem [OF i(1)]] i in
          \<open>simp add: item_def same_result_def\<close>)
    moreover have "results_agree ys"
      using results_agree_cong [OF dr_fill_location_keeps [OF f] assms] .
    ultimately show ?thesis
      using Some f by (cases b)
        (simp_all add: InsertDeleteContentLocationL_def delete_results_ok_def Let_def item_def)
  qed
qed

end
