(* ===== verification/Mms_Headers_Roundtrip.thy ===== *)
theory Mms_Headers_Roundtrip
  imports Mms_Headers_Laws
begin

text \<open>
  Storing the headers of a message and restoring them: what comes back, header by header, and
  what an earlier store leaves behind.
\<close>

section \<open>What comes back\<close>

definition cut_max :: "'a list option \<Rightarrow> 'a list option" where
  "cut_max x = Some (take KMaxHeaderStringLength (des_of x))"

definition trim :: "'a list option \<Rightarrow> 'a list option" where
  "trim x = some_nonempty (des_of x)"

definition headers_norm :: "char16 \<Rightarrow> mms_headers \<Rightarrow> mms_headers" where
  "headers_norm v h =
     \<lparr> iMsgType = iMsgType h, iTID = cut_max (iTID h), iVersion = iVersion h, iDate = iDate h,
       iToArray = map (take KMaxHeaderStringLength) (iToArray h),
       iCcArray = map (take KMaxHeaderStringLength) (iCcArray h),
       iBccArray = map (take KMaxHeaderStringLength) (iBccArray h),
       iSender = cut_max (iSender h), iSubject = cut_max (iSubject h), iMsgClass = iMsgClass h,
       iExpiry = iExpiry h, iExpiryAbs = iExpiryAbs h, iDelivery = iDelivery h,
       iDeliveryAbs = iDeliveryAbs h, iPriority = iPriority h, iSenderVisi = iSenderVisi h,
       iDelivReport = iDelivReport h, iReadReply = iReadReply h, iStart = iStart h,
       iContentLocation = cut_max (iContentLocation h), iMessageSize = iMessageSize h,
       iReportAllowed = iReportAllowed h, iResponseStatus = iResponseStatus h,
       iMessageId = cut_max (iMessageId h), iStatus = iStatus h,
       iMaxImageHeight = iMaxImageHeight h, iMaxImageWidth = iMaxImageWidth h,
       iOperatorResponseText = trim (iOperatorResponseText h),
       iRootContentID = trim (iRootContentID h), iReadStatus = iReadStatus h,
       iReplyCharging = iReplyCharging h, iReplyChargingDeadline = iReplyChargingDeadline h,
       iReplyChargingAbs = iReplyChargingAbs h, iReplyChargingSize = iReplyChargingSize h,
       iReplyChargingId = trim (iReplyChargingId h),
       iPreviouslySentArray = map sc_norm (iPreviouslySentArray h),
       iDistributionIndicator = iDistributionIndicator h, iRelatedEntry = iRelatedEntry h,
       iMultipartType = iMultipartType h, iReceivingTime = iReceivingTime h,
       iContentClass = iContentClass h, iDrmContent = iDrmContent h,
       iAdaptationAllowed = iAdaptationAllowed h,
       iElementDescriptor = map_option ed_norm (iElementDescriptor h),
       iMmBoxMessageHeaders = map_option mh_norm (iMmBoxMessageHeaders h),
       iMmBoxViewHeaders = iMmBoxViewHeaders h,
       iExtendedNotificationText = trim (iExtendedNotificationText h), iExtensionStatus = 0,
       iDeleteResultArray = [], iApplicationId = trim (iApplicationId h),
       iReplyToApplicationId = trim (iReplyToApplicationId h),
       iApplicationInfo = trim (iApplicationInfo h), iMmsDefaultVersion = v,
       iRecommendedRetrievalMode = iRecommendedRetrievalMode h,
       iRecommendedRetrievalModeText = trim (iRecommendedRetrievalModeText h),
       iReplaceCancelId = trim (iReplaceCancelId h), iCancelStatus = iCancelStatus h \<rparr>"

definition headers_ok :: "mms_headers \<Rightarrow> bool" where
  "headers_ok h \<longleftrightarrow> str_ok (iRootContentID h) \<and> str_ok (iOperatorResponseText h) \<and>
     str_ok (iReplyChargingId h) \<and> length (iPreviouslySentArray h) < 2 ^ 31 \<and>
     list_all (\<lambda>c. str_ok (scSender c)) (iPreviouslySentArray h) \<and>
     chain_sorted scOrder (iPreviouslySentArray h) \<and>
     pred_option (\<lambda>d. str_ok (iContentReference d) \<and> str_ok (iContentType d)) (iElementDescriptor h) \<and>
     pred_option mh_ok (iMmBoxMessageHeaders h) \<and> pred_option vh_ok (iMmBoxViewHeaders h) \<and>
     str_ok (iExtendedNotificationText h) \<and> str_ok (iApplicationId h) \<and>
     str_ok (iReplyToApplicationId h) \<and> str_ok (iApplicationInfo h) \<and>
     str_ok (iRecommendedRetrievalModeText h) \<and> str_ok (iReplaceCancelId h)"

section \<open>The header stream\<close>

lemma bool8_simp [simp]: "(bool8 b \<noteq> 0) = b"
  by (simp add: bool8_def)

lemma read_addresses_write:
  "read_addresses (write_addresses xs @ s) = Inr (map (take KMaxHeaderStringLength) xs, s)"
proof -
  have "(\<lambda>x. [SDes16 (take (min (length x) KMaxHeaderStringLength) x)]) =
      (\<lambda>x. write_des16 (take KMaxHeaderStringLength x))"
    by (auto simp: write_des16_def fun_eq_iff min_def)
  then have "concat (map (\<lambda>x. [SDes16 (take (min (length x) KMaxHeaderStringLength) x)]) xs) =
      concat (map write_des16 (map (take KMaxHeaderStringLength) xs))"
    by (simp add: o_def)
  then show ?thesis
    using des16_item.read_array [of KMaxHeaderStringLength "map (take KMaxHeaderStringLength) xs" s]
    by (simp add: read_addresses_def write_addresses_def list_all_iff)
qed

lemma read_chain_write:
  "\<lbrakk> chain_sorted scOrder (xs @ cs); list_all (\<lambda>c. str_ok (scSender c)) cs \<rbrakk> \<Longrightarrow>
   read_chain (length cs) (map sc_norm xs) (concat (map sc_externalize cs) @ s) =
     Inr (map sc_norm (xs @ cs), s)"
proof (induction cs arbitrary: xs)
  case (Cons c cs)
  have "\<forall>y \<in> set (map sc_norm xs). scOrder y < scOrder (sc_norm c)"
    using Cons.prems(1) by (auto simp: chain_sorted_def sorted_wrt_append sc_norm_def)
  then have "insert_in_order scOrder (sc_norm c) (map sc_norm xs) = Inr (map sc_norm (xs @ [c]))"
    using insert_in_order_last [of "map sc_norm xs" scOrder "sc_norm c"] by simp
  then show ?case
    using Cons.IH [of "xs @ [c]"] Cons.prems by (simp add: chain_item.int_ext)
qed simp

definition part_1 :: "mms_headers \<Rightarrow> stream" where
  "part_1 h = [SInt16 (iVersion h), SInt32 (iMsgType h),
      SDes16 (limit_string (des_of (iSubject h)) KMaxHeaderStringLength),
      SDes8 (limit_string (des_of (iTID h)) KMaxHeaderStringLength), SInt64 (iDate h),
      SDes16 (limit_string (des_of (iSender h)) KMaxHeaderStringLength),
      SInt32 (iMsgClass h), SInt64 (iExpiry h), SInt8 (bool8 (iExpiryAbs h)),
      SInt64 (iDelivery h), SInt8 (bool8 (iDeliveryAbs h)),
      SInt32 (iPriority h), SInt32 (iSenderVisi h), SInt32 (iDelivReport h), SInt32 (iReadReply h),
      SInt32 (iStart h)]"

definition part_2 :: "mms_headers \<Rightarrow> stream" where
  "part_2 h = [SDes8 (limit_string (des_of (iContentLocation h)) KMaxHeaderStringLength),
      SInt32 (iMessageSize h), SInt32 (iReportAllowed h), SInt32 (iResponseStatus h),
      SDes8 (limit_string (des_of (iMessageId h)) KMaxHeaderStringLength),
      SInt32 (iStatus h), SInt32 (iMaxImageWidth h), SInt32 (iMaxImageHeight h)]
     @ write_addresses (iToArray h) @ write_addresses (iCcArray h) @ write_addresses (iBccArray h)
     @ write_counted8 (des_of (iRootContentID h)) @ write_counted16 (des_of (iOperatorResponseText h))"

definition part_3 :: "mms_headers \<Rightarrow> stream" where
  "part_3 h = [SInt32 (iReadStatus h), SInt32 (iReplyCharging h), SInt64 (iReplyChargingDeadline h),
        SInt8 (bool8 (iReplyChargingAbs h)), SInt32 (iReplyChargingSize h)]
     @ write_counted8 (des_of (iReplyChargingId h))
     @ write_counted sc_externalize (iPreviouslySentArray h)
     @ [SInt32 (iDistributionIndicator h), SInt32 (iRelatedEntry h), SInt32 (iMultipartType h),
        SInt64 (iReceivingTime h), SInt32 (iContentClass h), SInt32 (iDrmContent h),
        SInt32 (iAdaptationAllowed h)]"

lemma externalize_parts: "headers_externalize h = part_1 h @ part_2 h @ part_3 h"
  by (simp add: headers_externalize_def part_1_def part_2_def part_3_def)

lemma cut_limits: 
  "length (limit_string x KMaxHeaderStringLength) \<le> KMaxHeaderStringLength"
  "Some (limit_string (des_of y) KMaxHeaderStringLength) = cut_max y"
  by (simp_all add: limit_string_take cut_max_def)

lemma internalize_1:
  "headers_internalize_1 g (part_1 h @ s) =
     Inr (g\<lparr> iVersion := iVersion h, iMsgType := iMsgType h, iSubject := cut_max (iSubject h),
         iTID := cut_max (iTID h), iDate := iDate h, iSender := cut_max (iSender h), iMsgClass := iMsgClass h,
         iExpiry := iExpiry h, iExpiryAbs := iExpiryAbs h, iDelivery := iDelivery h,
         iDeliveryAbs := iDeliveryAbs h, iPriority := iPriority h, iSenderVisi := iSenderVisi h,
         iDelivReport := iDelivReport h, iReadReply := iReadReply h, iStart := iStart h \<rparr>, s)"
  by (simp add: headers_internalize_1_def part_1_def cut_limits)

lemma internalize_2:
  assumes "iRootContentID g = None" "iOperatorResponseText g = None"
    and "str_ok (iRootContentID h)" "str_ok (iOperatorResponseText h)"
  shows "headers_internalize_2 g (part_2 h @ s) =
     Inr (g\<lparr> iContentLocation := cut_max (iContentLocation h), iMessageSize := iMessageSize h,
         iReportAllowed := iReportAllowed h, iResponseStatus := iResponseStatus h,
         iMessageId := cut_max (iMessageId h), iStatus := iStatus h, iMaxImageWidth := iMaxImageWidth h,
         iMaxImageHeight := iMaxImageHeight h,
         iToArray := map (take KMaxHeaderStringLength) (iToArray h),
         iCcArray := map (take KMaxHeaderStringLength) (iCcArray h),
         iBccArray := map (take KMaxHeaderStringLength) (iBccArray h),
         iRootContentID := trim (iRootContentID h),
         iOperatorResponseText := trim (iOperatorResponseText h) \<rparr>, s)"
  using assms
  by (simp add: headers_internalize_2_def part_2_def cut_limits read_addresses_write
      read_write_counted str_ok_def trim_def)

lemma internalize_3:
  assumes "iReplyChargingId g = None" "iPreviouslySentArray g = []" "headers_ok h"
  shows "headers_internalize_3 g (part_3 h @ s) =
     Inr (g\<lparr> iReadStatus := iReadStatus h, iReplyCharging := iReplyCharging h,
         iReplyChargingDeadline := iReplyChargingDeadline h, iReplyChargingAbs := iReplyChargingAbs h,
         iReplyChargingSize := iReplyChargingSize h, iReplyChargingId := trim (iReplyChargingId h),
         iPreviouslySentArray := map sc_norm (iPreviouslySentArray h),
         iDistributionIndicator := iDistributionIndicator h, iRelatedEntry := iRelatedEntry h,
         iMultipartType := iMultipartType h, iReceivingTime := iReceivingTime h,
         iContentClass := iContentClass h, iDrmContent := iDrmContent h,
         iAdaptationAllowed := iAdaptationAllowed h \<rparr>, s)"
proof -
  have h: "str_ok (iReplyChargingId h)" "length (iPreviouslySentArray h) < 2 ^ 31"
    "list_all (\<lambda>c. str_ok (scSender c)) (iPreviouslySentArray h)"
    "chain_sorted scOrder (iPreviouslySentArray h)"
    using assms(3) by (simp_all add: headers_ok_def)
  have chain: "read_chain (length (iPreviouslySentArray h)) []
      (concat (map sc_externalize (iPreviouslySentArray h)) @ t) =
      Inr (map sc_norm (iPreviouslySentArray h), t)" for t
    using read_chain_write [of "[]" "iPreviouslySentArray h" t] h by simp
  show ?thesis
    using assms(1,2) h(1,2)
    by (simp add: headers_internalize_3_def part_3_def read_write_counted str_ok_def trim_def
        write_counted_def sint_of_nat_small chain)
qed

section \<open>The streams of the store\<close>

text \<open>A stream the headers do not need keeps what the store held before.\<close>

lemma store_streams:
  "write_streams h s0 KUidMmsHeaderStream = Some (headers_externalize h)"
  "write_streams h s0 KUidMMsElementDescriptorStream =
     (case iElementDescriptor h of None \<Rightarrow> s0 KUidMMsElementDescriptorStream
      | Some d \<Rightarrow> Some (ed_externalize d))"
  "write_streams h s0 KUidMMsMMBoxMessageHeaderStream =
     (case iMmBoxMessageHeaders h of None \<Rightarrow> s0 KUidMMsMMBoxMessageHeaderStream
      | Some m \<Rightarrow> Some (mh_externalize m))"
  "write_streams h s0 KUidMMsMMBoxViewHeadersStream =
     (case iMmBoxViewHeaders h of None \<Rightarrow> s0 KUidMMsMMBoxViewHeadersStream
      | Some v \<Rightarrow> Some (vh_externalize v))"
  "write_streams h s0 KUidMMsExtendedNotificationStream =
     (if iExtendedNotificationText h = None then s0 KUidMMsExtendedNotificationStream
      else Some (write_counted16 (des_of (iExtendedNotificationText h))))"
  "write_streams h s0 KUidMmsApplicationInfoStream =
     (if iApplicationId h = None \<and> iReplyToApplicationId h = None \<and> iApplicationInfo h = None
      then s0 KUidMmsApplicationInfoStream
      else Some (write_counted16 (des_of (iApplicationId h))
             @ write_counted16 (des_of (iReplyToApplicationId h))
             @ write_counted8 (des_of (iApplicationInfo h))))"
  "write_streams h s0 KUidMmsReserved =
     (if iRecommendedRetrievalMode h = 0 \<and> iRecommendedRetrievalModeText h = None \<and>
         iReplaceCancelId h = None \<and> iCancelStatus h = 0
      then s0 KUidMmsReserved
      else Some (SInt32 (iRecommendedRetrievalMode h)
             # write_counted16 (des_of (iRecommendedRetrievalModeText h))
             @ write_counted8 (des_of (iReplaceCancelId h)) @ [SInt32 (iCancelStatus h)]))"
  by (simp_all add: write_streams_def write_if_def Let_def split: option.split)

lemma some_nonempty_Nil [simp]: "some_nonempty [] = None"
  by (simp add: some_nonempty_def)

lemma trim_None [simp]: "trim None = None"
  by (simp add: trim_def)

lemma restore_extended:
  assumes "iExtendedNotificationText g = None" "str_ok (iExtendedNotificationText h)"
    and "s0 KUidMMsExtendedNotificationStream = None"
  shows "restore_from (write_streams h s0 KUidMMsExtendedNotificationStream) read_extended g =
     Inr (g\<lparr> iExtendedNotificationText := trim (iExtendedNotificationText h) \<rparr>)"
  using assms read_write_counted(2) [of "des_of (iExtendedNotificationText h)" "[]"]
  by (auto simp: store_streams restore_from_def read_extended_def str_ok_def trim_def [symmetric])

lemma restore_application:
  assumes "iApplicationId g = None" "iReplyToApplicationId g = None" "iApplicationInfo g = None"
    and "str_ok (iApplicationId h)" "str_ok (iReplyToApplicationId h)" "str_ok (iApplicationInfo h)"
    and "s0 KUidMmsApplicationInfoStream = None"
  shows "restore_from (write_streams h s0 KUidMmsApplicationInfoStream) read_application g =
     Inr (g\<lparr> iApplicationId := trim (iApplicationId h),
            iReplyToApplicationId := trim (iReplyToApplicationId h),
            iApplicationInfo := trim (iApplicationInfo h) \<rparr>)"
  using assms read_write_counted(1) [of "des_of (iApplicationInfo h)" "[]"]
  by (auto simp: store_streams restore_from_def read_application_def str_ok_def trim_def [symmetric]
      read_write_counted)

lemma restore_reserved:
  assumes "iRecommendedRetrievalModeText g = None" "iReplaceCancelId g = None"
    and "iRecommendedRetrievalMode g = 0" "iCancelStatus g = 0"
    and "str_ok (iRecommendedRetrievalModeText h)" "str_ok (iReplaceCancelId h)"
    and "s0 KUidMmsReserved = None"
  shows "restore_from (write_streams h s0 KUidMmsReserved) read_reserved g =
     Inr (g\<lparr> iRecommendedRetrievalMode := iRecommendedRetrievalMode h,
            iRecommendedRetrievalModeText := trim (iRecommendedRetrievalModeText h),
            iReplaceCancelId := trim (iReplaceCancelId h), iCancelStatus := iCancelStatus h \<rparr>)"
  using assms
  by (auto simp: store_streams restore_from_def read_reserved_def str_ok_def trim_def [symmetric]
      read_write_counted)

lemma restore_boxes:
  assumes "headers_ok h"
  shows "s0 KUidMMsElementDescriptorStream = None \<Longrightarrow> iElementDescriptor g = None \<Longrightarrow>
      restore_from (write_streams h s0 KUidMMsElementDescriptorStream) read_descriptor g =
        Inr (g\<lparr> iElementDescriptor := map_option ed_norm (iElementDescriptor h) \<rparr>)"
    and "s0 KUidMMsMMBoxMessageHeaderStream = None \<Longrightarrow> iMmBoxMessageHeaders g = None \<Longrightarrow>
      restore_from (write_streams h s0 KUidMMsMMBoxMessageHeaderStream) read_mmbox_message g =
        Inr (g\<lparr> iMmBoxMessageHeaders := map_option mh_norm (iMmBoxMessageHeaders h) \<rparr>)"
    and "s0 KUidMMsMMBoxViewHeadersStream = None \<Longrightarrow> iMmBoxViewHeaders g = None \<Longrightarrow>
      restore_from (write_streams h s0 KUidMMsMMBoxViewHeadersStream) read_mmbox_view g =
        Inr (g\<lparr> iMmBoxViewHeaders := iMmBoxViewHeaders h \<rparr>)"
  using assms descriptor.int_ext [of _ "[]"] mmbox_message.int_ext [of _ mh_new "[]"]
    mmbox_view.int_ext [of _ vh_new "[]"]
  by (auto simp: store_streams restore_from_def read_descriptor_def read_mmbox_message_def
      read_mmbox_view_def headers_ok_def split: option.split)

section \<open>Storing and restoring\<close>

lemma store_restore:
  assumes "headers_ok h"
  shows "headers_restore (write_streams h Map.empty) h0 = Inr (headers_norm (iMmsDefaultVersion h0) h)"
proof -
  have ok: "str_ok (iRootContentID h)" "str_ok (iOperatorResponseText h)"
    "str_ok (iExtendedNotificationText h)" "str_ok (iApplicationId h)"
    "str_ok (iReplyToApplicationId h)" "str_ok (iApplicationInfo h)"
    "str_ok (iRecommendedRetrievalModeText h)" "str_ok (iReplaceCancelId h)"
    using assms by (simp_all add: headers_ok_def)
  let ?g = "(headers_norm (iMmsDefaultVersion h0) h)
       \<lparr> iElementDescriptor := None, iMmBoxMessageHeaders := None, iMmBoxViewHeaders := None,
         iExtendedNotificationText := None, iApplicationId := None, iReplyToApplicationId := None,
         iApplicationInfo := None, iRecommendedRetrievalMode := 0,
         iRecommendedRetrievalModeText := None, iReplaceCancelId := None, iCancelStatus := 0 \<rparr>"
  note part3 = internalize_3 [where s = "[]", unfolded append_Nil2]
  have "headers_internalize (headers_reset h0) (part_1 h @ part_2 h @ part_3 h) = Inr (?g, [])"
    unfolding headers_internalize_def
    by (simp add: internalize_1 internalize_2 part3 assms ok headers_reset_def headers_norm_def)
  then obtain g where g: "headers_internalize (headers_reset h0) (headers_externalize h) = Inr (g, [])"
    "g = ?g"
    by (simp only: externalize_parts)
  show ?thesis
    unfolding headers_restore_def
    by (simp add: store_streams(1) restore_from_def [of "Some _"] g(1))
       (simp add: g(2) restore_boxes restore_extended restore_application restore_reserved assms ok
         headers_norm_def)
qed

text \<open>
  What \<open>check_root\<close> does, where the calls it makes succeed: an attachment that is gone clears the
  root, and an attachment that is there ends with the content identifier of the root. A call
  that leaves is the answer of \<open>StoreL\<close>.
\<close>

definition attachments_ok :: "'m attachment_services \<Rightarrow> 'm \<Rightarrow> bool" where
  "attachments_ok sv m \<longleftrightarrow> svAttachmentManager sv m = Inr () \<and>
     (\<forall>a. \<exists>cid. svMimeContentId sv a m = Inr cid \<and> length cid < 2 ^ 31) \<and>
     (\<forall>a x. \<exists>m'. svStoreContentId sv a x m = Inr m' \<and> svMimeContentId sv a m' = Inr x)"

definition root_checked :: "'m attachment_services \<Rightarrow> mms_headers \<Rightarrow> 'm \<Rightarrow> mms_headers \<Rightarrow> 'm \<Rightarrow> bool" where
  "root_checked sv h m h' m' \<longleftrightarrow>
     (if iStart h = 0 then h' = h \<and> m' = m
      else case svAttachmentInfo sv (iStart h) m of
        Inl e \<Rightarrow> h' = (if e = KErrNotFound then h\<lparr> iStart := 0, iRootContentID := None \<rparr> else h) \<and> m' = m
      | Inr a \<Rightarrow> h' = h\<lparr> iRootContentID := iRootContentID h' \<rparr> \<and>
          svMimeContentId sv a m' = Inr (des_of (iRootContentID h')) \<and>
          (\<forall>cid. svMimeContentId sv a m = Inr cid \<longrightarrow>
             (if cid = [] then h' = h else des_of (iRootContentID h') = cid \<and> m' = m)))"

lemma agree_root_ok:
  assumes "attachments_ok sv m"
  shows "\<exists>h' m'. agree_root sv a h m = Inr (h', m') \<and> h' = h\<lparr> iRootContentID := iRootContentID h' \<rparr> \<and>
     svMimeContentId sv a m' = Inr (des_of (iRootContentID h')) \<and>
     (\<forall>cid. svMimeContentId sv a m = Inr cid \<longrightarrow>
        (if cid = [] then h' = h else des_of (iRootContentID h') = cid \<and> m' = m))"
proof -
  obtain cid where c: "svMimeContentId sv a m = Inr cid"
    using assms unfolding attachments_ok_def by blast
  obtain m' where m': "svStoreContentId sv a (des_of (iRootContentID h)) m = Inr m'"
    "svMimeContentId sv a m' = Inr (des_of (iRootContentID h))"
    using assms unfolding attachments_ok_def by blast
  show ?thesis
    using m' by (auto simp: agree_root_def c Let_def SetRootContentIdL_def)
qed

lemma check_root_ok:
  assumes "attachments_ok sv m"
  shows "\<exists>h' m'. check_root sv h m = Inr (h', m') \<and> root_checked sv h m h' m'"
proof (cases "svAttachmentInfo sv (iStart h) m")
  case (Inr a)
  then show ?thesis
    using assms agree_root_ok [OF assms, of a h]
    by (auto simp: check_root_def root_checked_def attachments_ok_def)
qed (use assms in \<open>auto simp: check_root_def root_checked_def attachments_ok_def\<close>)

lemma headers_ok_root:
  "headers_ok h \<Longrightarrow> str_ok r \<Longrightarrow> headers_ok (h\<lparr> iRootContentID := r \<rparr>)"
  "headers_ok h \<Longrightarrow> headers_ok (h\<lparr> iStart := 0, iRootContentID := None \<rparr>)"
  by (simp_all add: headers_ok_def str_ok_def)

lemma root_checked_ok:
  assumes "root_checked sv h m h' m'" "headers_ok h" "attachments_ok sv m"
  shows "headers_ok h'"
proof (cases "iStart h = 0 \<or> (\<exists>e. svAttachmentInfo sv (iStart h) m = Inl e)")
  case True
  then show ?thesis
    using assms by (auto simp: root_checked_def headers_ok_root split: if_splits)
next
  case False
  then obtain a where a: "svAttachmentInfo sv (iStart h) m = Inr a" "iStart h \<noteq> 0"
    by (cases "svAttachmentInfo sv (iStart h) m") auto
  obtain cid where c: "svMimeContentId sv a m = Inr cid" "length cid < 2 ^ 31"
    using assms(3) unfolding attachments_ok_def by blast
  have h': "h' = h\<lparr> iRootContentID := iRootContentID h' \<rparr>"
    "if cid = [] then h' = h else des_of (iRootContentID h') = cid \<and> m' = m"
    using assms(1) a c(1) by (auto simp: root_checked_def)
  show ?thesis
  proof (cases "cid = []")
    case False
    then have "str_ok (iRootContentID h')"
      using h'(2) c(2) by (simp add: str_ok_def)
    then show ?thesis
      using headers_ok_root(1) [OF assms(2)] h'(1) by metis
  qed (use h'(2) assms(2) in simp)
qed

lemma store_root_restore:
  assumes "headers_ok h" "attachments_ok sv m"
  shows "\<exists>h' s m'. headers_store sv h (Map.empty, m) = Inr (h', s, m') \<and> root_checked sv h m h' m' \<and>
     headers_restore s h0 = Inr (headers_norm (iMmsDefaultVersion h0) h')"
proof -
  obtain h' m' where c: "check_root sv h m = Inr (h', m')" "root_checked sv h m h' m'"
    using check_root_ok [OF assms(2)] by blast
  have "headers_ok h'" using root_checked_ok [OF c(2) assms] .
  then show ?thesis
    using c by (simp add: headers_store_def store_restore)
qed

text \<open>
  Storing over an earlier store: \<open>StoreL\<close> does not remove a stream the headers no longer need,
  so an application identifier that has been cleared comes back.
\<close>

lemma restore_stale:
  assumes "headers_ok h" "iApplicationId h = None" "iReplyToApplicationId h = None"
    and "iApplicationInfo h = None" "length a < 2 ^ 31"
  shows "headers_restore (write_streams h (write_streams (h\<lparr> iApplicationId := Some a \<rparr>) Map.empty)) h0
      = Inr (headers_norm (iMmsDefaultVersion h0) (h\<lparr> iApplicationId := Some a \<rparr>))"
proof -
  let ?h = "h\<lparr> iApplicationId := Some a \<rparr>"
  have "headers_externalize ?h = headers_externalize h"
    by (simp add: headers_externalize_def)
  then have "write_streams h (write_streams ?h Map.empty) u = write_streams ?h Map.empty u" for u
    using assms(2-4) by (cases u) (simp_all add: store_streams split: option.split)
  then have "write_streams h (write_streams ?h Map.empty) = write_streams ?h Map.empty" ..
  moreover have "headers_ok ?h"
    using assms(1,5) by (simp add: headers_ok_def str_ok_def)
  ultimately show ?thesis by (simp add: store_restore)
qed

end
