(* ===== verification/Mms_Props.thy ===== *)
theory Mms_Props
  imports Mms_Headers_Roundtrip
begin

text \<open>
  The properties of the multimedia message headers: storing and restoring them, and the arrays
  that are kept in order.
\<close>

section \<open>The message store\<close>

text \<open>C29: storing the headers in an empty store and restoring them. Where the calls on the
  attachments succeed, \<open>StoreL\<close> first brings the root of the message in line with the
  attachments: without a root (\<open>iStart\<close> is 0), or when asking for the attachment fails with
  another error, the headers and the attachments stay as they are; a root that is not among the
  attachments is cleared with its content identifier; and when the root is there, the content
  identifier of the headers and the one in the MIME headers of the attachment are equal
  afterwards, where a non-empty one of the attachment wins. The headers restored are those
  headers up to the limit on string lengths and the members the streams do not hold: an empty
  optional string comes back absent or empty, the delete results and the extension status are
  not stored and come back empty and 0, and the default version stays the reader's.\<close>

theorem headers_store_restore:
  assumes "headers_ok h" "attachments_ok sv m"
  shows "\<exists>h' s m'. headers_store sv h (Map.empty, m) = Inr (h', s, m') \<and> root_checked sv h m h' m' \<and>
     headers_restore s h0 = Inr (headers_norm (iMmsDefaultVersion h0) h')"
  by (rule store_root_restore [OF assms])

text \<open>Attachments as a map from an identifier to a content identifier, for the examples: the
  root 5 has none yet, and takes the one of the headers; a root that is gone is cleared.\<close>

definition map_attachments :: "(nat \<Rightarrow> string8 option) attachment_services" where
  "map_attachments =
     \<lparr> svAttachmentManager = \<lambda>_. Inr (),
       svAttachmentInfo = (\<lambda>i m. if m (unat i) = None then Inl KErrNotFound else Inr (unat i)),
       svMimeContentId = (\<lambda>a m. Inr (des_of (m a))),
       svStoreContentId = (\<lambda>a x m. Inr (m(a \<mapsto> x))) \<rparr>"

theorem headers_store_restore_witness:
  "\<exists>h' s m' g. headers_store map_attachments
      ((headers_new 0x12)\<lparr> iSubject := Some [72, 105], iStart := 5, iRootContentID := Some [97] \<rparr>)
      (Map.empty, Map.empty(5 \<mapsto> [])) = Inr (h', s, m') \<and> m' 5 = Some [97]
    \<and> headers_restore s (headers_new 0x13) = Inr g \<and> iSubject g = Some [72, 105]
    \<and> iStart g = 5 \<and> iRootContentID g = Some [97]"
proof -
  let ?h = "(headers_new 0x12)\<lparr> iSubject := Some [72, 105], iStart := 5, iRootContentID := Some [97] \<rparr>"
  let ?m = "Map.empty(5 \<mapsto> [])"
  have "headers_ok ?h"
    by (simp add: headers_ok_def headers_new_blank headers_blank_def str_ok_def chain_sorted_def)
  moreover have "attachments_ok map_attachments ?m"
    by (simp add: attachments_ok_def map_attachments_def)
  ultimately obtain h' s m' where *: "headers_store map_attachments ?h (Map.empty, ?m) = Inr (h', s, m')"
    "headers_restore s (headers_new 0x13) = Inr (headers_norm (iMmsDefaultVersion (headers_new 0x13)) h')"
    using headers_store_restore [of ?h map_attachments ?m "headers_new 0x13"] by blast
  have "check_root map_attachments ?h ?m = Inr (?h, ?m(5 \<mapsto> [97]))"
    by (simp add: check_root_def agree_root_def map_attachments_def Let_def)
  then have "h' = ?h" "m' = ?m(5 \<mapsto> [97])"
    using *(1) by (simp_all add: headers_store_def)
  then show ?thesis
    using * by (simp add: headers_norm_def cut_max_def trim_def some_nonempty_def KMaxHeaderStringLength_def)
qed

text \<open>Storing over an earlier store does not remove what the headers no longer hold. An
  application identifier that has been cleared before the second store comes back when the
  message is restored.\<close>

lemma headers_store_keeps_stale:
  assumes "headers_ok h" "iApplicationId h = None" "iReplyToApplicationId h = None"
    and "iApplicationInfo h = None" "length a < 2 ^ 31" "iStart h = 0"
  shows "\<exists>s t. headers_store sv (h\<lparr> iApplicationId := Some a \<rparr>) (Map.empty, m) =
        Inr (h\<lparr> iApplicationId := Some a \<rparr>, s, m)
    \<and> headers_store sv h (s, m) = Inr (h, t, m)
    \<and> headers_restore t h0 = Inr (headers_norm (iMmsDefaultVersion h0) (h\<lparr> iApplicationId := Some a \<rparr>))"
  using restore_stale [OF assms(1-5)] assms(6) by (simp add: headers_store_def check_root_def)

text \<open>The two cases the round trip excludes: an edit store is required once there is a root, and
  a failing call on the MIME headers leaves before anything is written.\<close>

lemma headers_store_leaves:
  "\<lbrakk> iStart h \<noteq> 0; svAttachmentManager sv (snd w) = Inl e \<rbrakk> \<Longrightarrow> headers_store sv h w = Inl e"
  "\<lbrakk> iStart h \<noteq> 0; svAttachmentManager sv (snd w) = Inr (); svAttachmentInfo sv (iStart h) (snd w) = Inr a;
     svMimeContentId sv a (snd w) = Inl e \<rbrakk> \<Longrightarrow> headers_store sv h w = Inl e"
  by (simp_all add: headers_store_def check_root_def agree_root_def)

section \<open>Arrays in order\<close>

text \<open>C30: the chain of previous senders stays strictly ordered by its order number, and none of
  the insertions into it leaves.\<close>

theorem previous_senders_ordered:
  assumes "chain_sorted scOrder (iPreviouslySentArray h)"
  shows "(\<exists>h'. InsertPreviouslySentByL n s h = Inr h' \<and> chain_sorted scOrder (iPreviouslySentArray h'))
    \<and> (\<exists>h'. InsertPreviouslySentDateL n d h = Inr h' \<and> chain_sorted scOrder (iPreviouslySentArray h'))"
  using previously_sent_sorted [OF assms] by blast

theorem previous_senders_ordered_witness:
  "\<exists>h'. InsertPreviouslySentByL 2 [65] (headers_new 0x12) = Inr h'
     \<and> chain_sorted scOrder (iPreviouslySentArray h')"
  using previous_senders_ordered [of "headers_new 0x12" 2 "[65]" 0]
  by (simp add: headers_new_blank headers_blank_def chain_sorted_def)

text \<open>C31: The three handlers of a delete confirmation never leave; from results that are ordered and of which
  every two with one order number agree on status and text, they give such results again.\<close>

theorem delete_results_agree:
  assumes "results_agree (iDeleteResultArray h)"
  shows "delete_results_ok (InsertDeleteStatusL n st h)
    \<and> delete_results_ok (InsertDeleteResponseTextL n tx h)
    \<and> delete_results_ok (InsertDeleteContentLocationL n loc h)"
  using delete_results_preserved [OF assms] by blast

theorem delete_results_agree_witness:
  "delete_results_ok (InsertDeleteStatusL 3 128 (headers_new 0x12))"
  using delete_results_agree [of "headers_new 0x12" 3 128 "[]" "[]"]
  by (simp add: headers_new_blank headers_blank_def results_agree_def weakly_sorted_def)

end
