(* ===== verification/Wsp_Core.thy ===== *)
theory Wsp_Core
  imports Msg_Prelude Mms_Headers
begin

text \<open>
  Facts on bytes and on 32-bit and 64-bit words that the WSP fields need: the high bit of a byte,
  its low seven bits, and a word as the value of its digits.
\<close>

section \<open>Tokens the encoder and the decoder share\<close>

definition KMmsAbsoluteToken :: byte where "KMmsAbsoluteToken = 128"
definition KMmsRelativeToken :: byte where "KMmsRelativeToken = 129"
definition KMmsUtf8 :: byte where "KMmsUtf8 = 0x6A"

section \<open>The high bit of a byte\<close>

lemma bit_seven: "bit (b :: byte) 7 \<longleftrightarrow> 128 \<le> unat b"
proof -
  have "bit b 7 \<longleftrightarrow> bit (unat b) 7" by (simp add: bit_unsigned_iff)
  also have "\<dots> \<longleftrightarrow> odd (unat b div 128)" by (simp add: bit_iff_odd)
  finally have eq: "bit b 7 \<longleftrightarrow> odd (unat b div 128)" .
  have "unat b div 128 < 2" using uint8_less [of b] by (simp add: div_less_iff_less_mult)
  then consider "unat b div 128 = 0" | "unat b div 128 = 1" by linarith
  then show ?thesis using eq uint8_less [of b] by cases auto
qed

lemma byte_high_bit: "(b :: byte) AND 0x80 \<noteq> 0 \<longleftrightarrow> 0x80 \<le> b"
  using and_exp_eq_0_iff_not_bit [of b 7] by (simp add: bit_seven word_le_nat_alt)

lemma low_seven: "unat ((b :: byte) AND 0x7F) = unat b mod 128"
  using take_bit_eq_mask [of 7 "unat b"]
  by (simp add: unsigned_and_eq mask_eq_exp_minus_1 take_bit_eq_mod)

lemma low_seven_small: "(b :: byte) < 0x80 \<Longrightarrow> b AND 0x7F = b"
  using low_seven [of b] by (intro word_unat_eq_iff [THEN iffD2]) (simp add: word_less_nat_alt)

lemma or_high_low: "((b :: byte) OR 0x80) AND 0x7F = b AND 0x7F"
  by (simp add: bit.conj_disj_distrib2)

lemma or_high_ge: "0x80 \<le> (b :: byte) OR 0x80"
  using bit_seven [of "b OR 0x80"] by (simp add: word_le_nat_alt bit_simps)

lemma or_high_and: "((b :: byte) OR 0x80) AND 0x80 \<noteq> 0"
  using or_high_ge byte_high_bit by blast

text \<open>
  The state of the message decoder \<open>CMmsDecode\<close> (mmsengine/mmscodec/src/mmsdecode.cpp), the
  type of its operations, and the bytes that are left to read.
  An operation of the decoder reads the buffer at \<open>iPosition\<close>, moves \<open>iPosition\<close>, and reports
  a broken message in \<open>iError\<close>; a read outside the buffer panics the thread.
\<close>

section \<open>State\<close>

datatype decoding_stage =
    EMmsNotApplicable
  | EMmsHeaders
  | EMmsAttachmentHeaders
  | EMmsAttachmentDataStart
  | EMmsAttachmentDataAppend
  | EMmsDone

text \<open>
  \<open>iPosition\<close> and \<open>iLength\<close> are \<open>TUint\<close>. They are kept as natural numbers: a buffer has fewer
  than \<open>2 ^ 31\<close> bytes and \<open>GetUintvar\<close> caps a length at \<open>KMaxTInt32\<close>, so the sum of a position
  and a length stays below \<open>2 ^ 32\<close>. \<open>iMimeCharset\<close> and \<open>iContentTypeParams\<close> are the two members of
  \<open>iMimeHeaders\<close> the header decoder sets.
\<close>

record mms_decode =
  iDecodeBuffer :: "byte list"
  iPosition :: nat
  iLength :: nat
  iError :: symbian_error
  iDataStart :: nat
  iNumberOfAttachments :: tint
  iFakeSubject :: nat
  iCharacterSet :: tint
  dMultipartType :: byte
  iRootContentId :: string8
  iUseForSubject :: bool
  iPlainTexts :: nat
  iDecodingStage :: decoding_stage
  iLastHeader :: bool
  iMmsHeaders :: mms_headers
  iMimeCharset :: tint
  iContentTypeParams :: "string8 list"

text \<open>The services of the platform and of other modules the decoder calls: case folding, and the
  conversions from UTF-8 and from encoded words. The UTF-8 converter returns whether it
  succeeded and what it wrote; the header conversion leaves (\<open>None\<close>) or gives a string.\<close>

record decode_services =
  fold8 :: "byte \<Rightarrow> byte"
  fold16 :: "char16 \<Rightarrow> char16"
  from_utf8 :: "string8 \<Rightarrow> bool \<times> string16"
  convert_header :: "string8 \<Rightarrow> string16 option"

section \<open>Operations\<close>

type_synonym 'a decoder = "mms_decode \<Rightarrow> ('a \<times> mms_decode) leaving"

definition dbind :: "'a decoder \<Rightarrow> ('a \<Rightarrow> 'b decoder) \<Rightarrow> 'b decoder" where
  "dbind m f d = (case m d of Inl e \<Rightarrow> Inl e | Inr (x, d1) \<Rightarrow> f x d1)"

definition dreturn :: "'a \<Rightarrow> 'a decoder" where
  "dreturn x d = Inr (x, d)"

definition dskip :: "'a decoder \<Rightarrow> 'b decoder \<Rightarrow> 'b decoder" where
  "dskip m n = dbind m (\<lambda>_. n)"

definition read_at :: "mms_decode \<Rightarrow> nat \<Rightarrow> byte leaving" where
  "read_at d p = (if p < length (iDecodeBuffer d) then Inr (iDecodeBuffer d ! p) else Inl KPanicIndex)"

definition peek :: "byte decoder" where
  "peek d = (case read_at d (iPosition d) of Inl e \<Rightarrow> Inl e | Inr b \<Rightarrow> Inr (b, d))"

definition advance :: "nat \<Rightarrow> unit decoder" where
  "advance n d = Inr ((), d\<lparr>iPosition := iPosition d + n\<rparr>)"

definition set_error :: "symbian_error \<Rightarrow> unit decoder" where
  "set_error e d = Inr ((), d\<lparr>iError := e\<rparr>)"

definition at_end :: "mms_decode \<Rightarrow> bool" where
  "at_end d \<longleftrightarrow> iLength d \<le> iPosition d"

definition on_headers :: "(mms_headers \<Rightarrow> mms_headers) \<Rightarrow> unit decoder" where
  "on_headers f d = Inr ((), d\<lparr>iMmsHeaders := f (iMmsHeaders d)\<rparr>)"

section \<open>What is left to read\<close>

definition dec_ok :: "mms_decode \<Rightarrow> bool" where
  "dec_ok d \<longleftrightarrow> iLength d \<le> length (iDecodeBuffer d)"

definition left_bytes :: "mms_decode \<Rightarrow> byte list" where
  "left_bytes d = drop (iPosition d) (take (iLength d) (iDecodeBuffer d))"

definition moved :: "mms_decode \<Rightarrow> nat \<Rightarrow> mms_decode" where
  "moved d n = d\<lparr>iPosition := iPosition d + n\<rparr>"

lemma dbind_simps [simp]:
  "m d = Inl e \<Longrightarrow> dbind m f d = Inl e"
  "m d = Inr (x, d1) \<Longrightarrow> dbind m f d = f x d1"
  by (simp_all add: dbind_def)

lemma dbind_return [simp]: "dbind (dreturn x) f = f x"
  by (simp add: fun_eq_iff dbind_def dreturn_def)

lemma dbind_assoc: "dbind (dbind m f) g = dbind m (\<lambda>x. dbind (f x) g)"
  by (simp add: fun_eq_iff dbind_def split: sum.split)

lemma dskip_simps [simp]:
  "m d = Inl e \<Longrightarrow> dskip m n d = Inl e"
  "m d = Inr (x, d1) \<Longrightarrow> dskip m n d = n d1"
  by (simp_all add: dskip_def)

lemma advance_moved: "advance n d = Inr ((), moved d n)"
  by (simp add: advance_def moved_def)

lemma moved_simps [simp]:
  "iDecodeBuffer (moved d n) = iDecodeBuffer d"
  "iPosition (moved d n) = iPosition d + n"
  "iLength (moved d n) = iLength d"
  "iError (moved d n) = iError d"
  "iMmsHeaders (moved d n) = iMmsHeaders d"
  "iLastHeader (moved d n) = iLastHeader d"
  "moved (moved d m) n = moved d (m + n)"
  "moved d 0 = d"
  by (simp_all add: moved_def add.assoc)

lemma dec_ok_moved [simp]: "dec_ok (moved d n) = dec_ok d"
  by (simp add: dec_ok_def)

lemma length_left [simp]: "dec_ok d \<Longrightarrow> length (left_bytes d) = iLength d - iPosition d"
  by (simp add: left_bytes_def dec_ok_def)

lemma left_moved [simp]: "left_bytes (moved d n) = drop n (left_bytes d)"
  by (simp add: left_bytes_def add.commute)

lemma left_nonempty: "dec_ok d \<Longrightarrow> left_bytes d \<noteq> [] \<longleftrightarrow> iPosition d < iLength d"
  by (auto simp: left_bytes_def dec_ok_def)

lemma left_append_pos:
  assumes "dec_ok d" "left_bytes d = bs @ ys"
  shows "length bs \<le> iLength d - iPosition d"
  using assms length_left [OF assms(1)] by simp

lemma read_left:
  assumes "dec_ok d" "i < length (left_bytes d)"
  shows "read_at d (iPosition d + i) = Inr (left_bytes d ! i)"
  using assms by (simp add: read_at_def left_bytes_def dec_ok_def)

lemma peek_left:
  assumes "dec_ok d" "left_bytes d = b # ys"
  shows "peek d = Inr (b, d)"
  using read_left [of d 0] assms by (simp add: peek_def)

lemma at_end_left: "dec_ok d \<Longrightarrow> left_bytes d = b # ys \<Longrightarrow> \<not> at_end d"
  using left_nonempty [of d] by (simp add: at_end_def)

lemma at_end_nil: "dec_ok d \<Longrightarrow> at_end d \<longleftrightarrow> left_bytes d = []"
  using left_nonempty [of d] by (auto simp: at_end_def)

section \<open>Frame: what an operation keeps\<close>

definition stays :: "mms_decode \<Rightarrow> mms_decode \<Rightarrow> bool" where
  "stays d d1 \<longleftrightarrow> iDecodeBuffer d1 = iDecodeBuffer d \<and> iLength d1 = iLength d
     \<and> iPosition d \<le> iPosition d1"

definition monotone_op :: "'a decoder \<Rightarrow> bool" where
  "monotone_op m \<longleftrightarrow> (\<forall>d x d1. m d = Inr (x, d1) \<longrightarrow> stays d d1)"

named_theorems mono_op \<open>operations that never move the position back\<close>

lemma stays_refl [simp]: "stays d d"
  by (simp add: stays_def)

lemma stays_trans: "stays d d1 \<Longrightarrow> stays d1 d2 \<Longrightarrow> stays d d2"
  by (auto simp: stays_def)

lemma stays_moved [simp]: "stays d (moved d n)"
  by (simp add: stays_def)

lemma stays_dec_ok: "stays d d1 \<Longrightarrow> dec_ok d \<Longrightarrow> dec_ok d1"
  by (simp add: stays_def dec_ok_def)

lemma monotone_opI: "(\<And>d x d1. m d = Inr (x, d1) \<Longrightarrow> stays d d1) \<Longrightarrow> monotone_op m"
  by (simp add: monotone_op_def)

lemma monotone_opD: "monotone_op m \<Longrightarrow> m d = Inr (x, d1) \<Longrightarrow> stays d d1"
  by (simp add: monotone_op_def)

lemma mono_bind [mono_op]:
  assumes "monotone_op m" "\<And>x. monotone_op (f x)"
  shows "monotone_op (dbind m f)"
  unfolding monotone_op_def
  using assms by (auto simp: dbind_def dest!: monotone_opD split: sum.splits intro: stays_trans)

lemma mono_skip [mono_op]:
  assumes "monotone_op m" "monotone_op n"
  shows "monotone_op (dskip m n)"
  unfolding dskip_def using assms by (intro mono_bind)

lemma mono_basic [mono_op]:
  "monotone_op (dreturn x)" "monotone_op peek" "monotone_op (advance n)"
  "monotone_op (set_error e)" "monotone_op (on_headers f)"
  by (auto simp: monotone_op_def dreturn_def peek_def advance_def set_error_def on_headers_def
      stays_def split: sum.splits)

lemma mono_if [mono_op]:
  assumes "monotone_op m" "monotone_op n"
  shows "monotone_op (if c then m else n)"
  using assms by simp

end
