(* ===== verification/Wsp_Decode.thy ===== *)
theory Wsp_Decode
  imports Wsp_Core
begin

text \<open>
  The primitive readers of the message decoder: lengths, integers, times, and strings
  (\<open>GetUintvar\<close>, \<open>GetValueLength\<close>, \<open>SkipFieldValue\<close>, \<open>GetByteString\<close>, \<open>GetUtf8String\<close>,
  \<open>GetLongOrShortInteger\<close>, \<open>GetVeryLongInteger\<close>, \<open>GetWellKnownFieldValueOrSkip\<close>,
  \<open>GetRelativeOrAbsoluteTime\<close>, \<open>GetSimpleTextStringL\<close>, \<open>GetEncodedTextStringL\<close>,
  \<open>DecodeAddressL\<close>, \<open>DecodeFromL\<close>) and the length checks of the chunked mode. The logging is
  left out; it reads only bytes before \<open>iLength\<close>.
\<close>

section \<open>Lengths\<close>

definition KMaxTInt32 :: nat where "KMaxTInt32 = 0x7FFFFFFF"

function uintvar_loop :: "tint \<Rightarrow> byte \<Rightarrow> tint decoder" where
  "uintvar_loop acc b d =
     (if b AND 0x80 \<noteq> 0 \<and> iPosition d < iLength d - 1 then
        (case read_at (moved d 1) (iPosition d + 1) of
           Inl e \<Rightarrow> Inl e
         | Inr b1 \<Rightarrow> uintvar_loop (push_bit 7 (acc + ucast (b AND 0x7F))) b1 (moved d 1))
      else Inr (acc + ucast b, moved d 1))"
  by pat_completeness auto
termination
  by (relation "measure (\<lambda>(_, _, d). iLength d - iPosition d)") auto

declare uintvar_loop.simps [simp del]

definition GetUintvar :: "tint decoder" where
  "GetUintvar d =
     (if at_end d then Inr (0, d)
      else dbind (dbind peek (uintvar_loop 0))
             (\<lambda>v. dreturn (if KMaxTInt32 < unat v then of_nat KMaxTInt32 else v)) d)"

text \<open>The loop that looks for a terminating zero: the last byte read and the position after it.\<close>

function scan_zero :: "mms_decode \<Rightarrow> byte \<Rightarrow> nat \<Rightarrow> (byte \<times> nat) leaving" where
  "scan_zero d b p =
     (if b \<noteq> 0 \<and> p < iLength d then
        (case read_at d p of Inl e \<Rightarrow> Inl e | Inr b1 \<Rightarrow> scan_zero d b1 (p + 1))
      else Inr (b, p))"
  by pat_completeness auto
termination
  by (relation "measure (\<lambda>(d, _, p). iLength d - p)") auto

declare scan_zero.simps [simp del]

definition GetValueLength :: "nat decoder" where
  "GetValueLength d =
     (if at_end d then Inr (0, d)
      else dbind peek (\<lambda>b.
        if 0x80 \<le> b then dreturn 1
        else if 32 \<le> b then
          (\<lambda>d1. case scan_zero d1 b (iPosition d1) of
                  Inl e \<Rightarrow> Inl e | Inr (_, p) \<Rightarrow> Inr (p - iPosition d1, d1))
        else if b = 31 then
          dskip (advance 1)
            (\<lambda>d1. if at_end d1 then Inr (0, d1)
                  else dbind GetUintvar (\<lambda>v. dreturn (unat v)) d1)
        else dskip (advance 1) (dreturn (unat b))) d)"

definition check_overrun :: "unit decoder" where
  "check_overrun d = (if iLength d < iPosition d then set_error KErrCorrupt d else Inr ((), d))"

definition SkipFieldValue :: "unit decoder" where
  "SkipFieldValue = dbind GetValueLength (\<lambda>n. dskip (advance n) check_overrun)"

section \<open>Byte strings\<close>

definition GetByteString :: "string8 decoder" where
  "GetByteString d =
     (if at_end d then Inr ([], d)
      else dbind peek (\<lambda>b.
        if b = 0 then dskip (advance 1) (dreturn [])
        else if 32 \<le> b \<and> b \<le> 0x7F then
          dskip (advance (if b = 34 \<or> b = 127 then 1 else 0)) (\<lambda>d1.
            case scan_zero d1 b (iPosition d1) of
              Inl e \<Rightarrow> Inl e
            | Inr (_, p) \<Rightarrow>
                let start = iPosition d1;
                    d2 = d1\<lparr>iPosition := p\<rparr>;
                    n = (if 1 < p - start then p - start - 1 else p - start);
                    s = take n (drop start (iDecodeBuffer d1))
                in if n < 1 then Inr ([], d2)
                   else if b = 34 \<and> last s = 34 then Inr (butlast s, d2)
                   else Inr (s, d2))
        else dskip SkipFieldValue (dreturn [])) d)"

text \<open>The length of \<open>GetUtf8String\<close> is \<open>iPosition - start - 1\<close> in \<open>TUint\<close>; when nothing was read
  it wraps and \<open>SetLength\<close> panics.\<close>

definition GetUtf8String :: "string8 decoder" where
  "GetUtf8String d =
     (if at_end d then Inr ([], d)
      else dbind peek (\<lambda>b.
        if b = 0 then dskip (advance 1) (dreturn [])
        else dskip (advance (if b = 127 then 1 else 0)) (\<lambda>d1.
            case scan_zero d1 b (iPosition d1) of
              Inl e \<Rightarrow> Inl e
            | Inr (_, p) \<Rightarrow>
                let start = iPosition d1; d2 = d1\<lparr>iPosition := p\<rparr>
                in if p = start then Inl KPanicDescriptorToSmall
                   else if p - start - 1 < 1 then Inr ([], d2)
                   else Inr (take (p - start - 1) (drop start (iDecodeBuffer d1)), d2))) d)"

definition SkipParameterName :: "unit decoder" where
  "SkipParameterName d =
     (if at_end d then Inr ((), d)
      else dbind peek (\<lambda>b.
        if 0x80 \<le> b then advance 1 else dskip GetByteString (dreturn ())) d)"

section \<open>Integers and times\<close>

definition KMmsMaxIntegerLength :: byte where "KMmsMaxIntegerLength = 4"
definition KMmsMaxLongIntegerLength :: byte where "KMmsMaxLongIntegerLength = 8"

primrec int_loop :: "nat \<Rightarrow> 'a::len word \<Rightarrow> 'a word decoder" where
  "int_loop 0 acc = dreturn acc"
| "int_loop (Suc n) acc =
     (\<lambda>d. if at_end d then Inr (acc, d)
          else dbind peek (\<lambda>b. dskip (advance 1) (int_loop n (push_bit 8 acc + ucast b))) d)"

definition step_back :: "unit decoder" where
  "step_back d = Inr ((), d\<lparr>iPosition := iPosition d - 1\<rparr>)"

definition GetLongOrShortInteger :: "tint decoder" where
  "GetLongOrShortInteger d =
     (if at_end d then Inr (0, d)
      else dbind peek (\<lambda>b. dskip (advance 1)
        (if b AND 0x80 \<noteq> 0 then dreturn (ucast (b AND 0x7F))
         else if 30 < b then dskip (set_error KErrCorrupt) (dreturn 0)
         else if KMmsMaxIntegerLength < b then
           dskip (set_error KErrTooBig) (dskip step_back (dskip SkipFieldValue (dreturn 0)))
         else int_loop (unat b) 0)) d)"

definition GetVeryLongInteger :: "tint64 decoder" where
  "GetVeryLongInteger =
     dbind peek (\<lambda>b. dskip (advance 1)
        (if b AND 0x80 \<noteq> 0 then dreturn (ucast (b AND 0x7F))
         else if 30 < b then dskip (set_error KErrCorrupt) (dreturn 0)
         else if KMmsMaxLongIntegerLength < b then
           dskip (set_error KErrTooBig) (dskip step_back (dreturn 0))
         else int_loop (unat b) 0))"

definition GetWellKnownFieldValueOrSkip :: "byte decoder" where
  "GetWellKnownFieldValueOrSkip =
     dbind peek (\<lambda>b. if 0x80 \<le> b then dskip (advance 1) (dreturn b)
                     else dskip SkipFieldValue (dreturn b))"

definition to_end :: "unit decoder" where
  "to_end d = Inr ((), d\<lparr>iPosition := iLength d\<rparr>)"

definition GetRelativeOrAbsoluteTime :: "(byte \<times> tint64) decoder" where
  "GetRelativeOrAbsoluteTime =
     dbind GetValueLength (\<lambda>n d.
       if iLength d < iPosition d + n \<or> at_end d then
         dskip to_end (dskip (set_error KErrCorrupt) (dreturn (0, 0))) d
       else dbind peek (\<lambda>b.
         if b \<noteq> KMmsAbsoluteToken \<and> b \<noteq> KMmsRelativeToken then
           dskip (advance n) (dreturn (0, 0))
         else dskip (advance 1) (\<lambda>d1.
           if at_end d1 then dskip (set_error KErrCorrupt) (dreturn (0, 0)) d1
           else dbind GetVeryLongInteger (\<lambda>t. dreturn (b, t)) d1)) d)"

section \<open>Text strings\<close>

text \<open>The loop that copies up to the terminating zero. (The loop before it in the code only
  computes the size of the buffer it copies to.)\<close>

function copy_text :: "byte \<Rightarrow> string16 \<Rightarrow> string16 decoder" where
  "copy_text b acc d =
     (if b \<noteq> 0 \<and> \<not> at_end d then
        (case read_at d (iPosition d) of
           Inl e \<Rightarrow> Inl e
         | Inr b1 \<Rightarrow> copy_text b1 (if b1 \<noteq> 0 then acc @ [ucast b1] else acc) (moved d 1))
      else Inr (acc, d))"
  by pat_completeness auto
termination
  by (relation "measure (\<lambda>(_, _, d). iLength d - iPosition d)") (auto simp: at_end_def)

declare copy_text.simps [simp del]

definition simple_text_tail :: "bool \<Rightarrow> byte \<Rightarrow> string16 decoder" where
  "simple_text_tail foundQuote b =
     dskip (advance (if b = 0 then 1 else 0))
       (dbind (copy_text b []) (\<lambda>s.
         dreturn (if foundQuote \<and> s \<noteq> [] \<and> last s = 34 then butlast s else s)))"

definition simple_text_quote :: "bool \<Rightarrow> byte \<Rightarrow> string16 decoder" where
  "simple_text_quote aKeepQuote b =
     (if b = 34 \<and> \<not> aKeepQuote then
        dskip (advance 1) (\<lambda>d. if at_end d then Inr ([], d) else dbind peek (simple_text_tail True) d)
      else simple_text_tail False b)"

definition GetSimpleTextStringL :: "bool \<Rightarrow> string16 decoder" where
  "GetSimpleTextStringL aKeepQuote d =
     (if at_end d then Inr ([], d)
      else dbind peek (\<lambda>b.
        if b = 0 then dskip (advance 1) (dreturn [])
        else if b = 127 then
          dskip (advance 1) (\<lambda>d1. if at_end d1 then Inr ([], d1)
                                 else dbind peek (simple_text_quote aKeepQuote) d1)
        else simple_text_quote aKeepQuote b) d)"

definition KEqualsQuestion16 :: string16 where "KEqualsQuestion16 = [61, 63]"

text \<open>The string itself, after the character set: the bytes up to the terminating zero,
  converted when they are UTF-8.\<close>

definition encoded_text :: "decode_services \<Rightarrow> tint \<Rightarrow> byte \<Rightarrow> string16 decoder" where
  "encoded_text e charset b d =
     (case scan_zero d b (iPosition d) of
        Inl x \<Rightarrow> Inl x
      | Inr (_, p) \<Rightarrow>
          let start = iPosition d; n = p - start; d1 = d\<lparr>iPosition := p\<rparr>;
              s = take (n - 1) (drop start (iDecodeBuffer d))
          in if n = 0 then Inr ([], moved d1 1)
             else if n - 1 = 0 then Inr ([], d1)
             else if charset = ucast KMmsUtf8 then
               (case from_utf8 e s of (good, t) \<Rightarrow> Inr (if good then t else map ucast s, d1))
             else Inr (map ucast s, d1))"

definition GetEncodedTextStringL :: "decode_services \<Rightarrow> string16 decoder" where
  "GetEncodedTextStringL e d =
     (if at_end d then dskip (set_error KErrCorrupt) (dreturn []) d
      else dbind peek (\<lambda>b.
        if (31 < b \<and> b < 0x80) \<or> b = 0 then
          dbind (GetSimpleTextStringL True) (\<lambda>s.
            dreturn (if find_f (fold16 e) KEqualsQuestion16 s = None then s
                     else case convert_header e (map ucast s) of
                            Some t \<Rightarrow> t | None \<Rightarrow> map ucast (map ucast s :: string8)))
        else dskip (advance 1) (\<lambda>d1.
          if at_end d1 then dskip (set_error KErrCorrupt) (dreturn []) d1
          else if 0x80 \<le> b then dskip (set_error KErrCorrupt) (dreturn []) d1
          else dskip (if b = 31 then dskip GetUintvar (dreturn ()) else dreturn ())
                 (dbind GetLongOrShortInteger (\<lambda>charset d2.
                    if at_end d2 \<or> iError d2 = KErrCorrupt then
                      dskip (set_error KErrCorrupt) (dreturn []) d2
                    else dbind peek (\<lambda>q.
                      if q = 127 then
                        dskip (advance 1) (\<lambda>d3.
                          if at_end d3 then encoded_text e charset q d3
                          else dbind peek (encoded_text e charset) d3)
                      else encoded_text e charset q) d2)) d1)) d)"

section \<open>Addresses\<close>

definition KMmsPlmnu :: string16 where
  "KMmsPlmnu = [0x2F, 0x54, 0x59, 0x50, 0x45, 0x3D, 0x50, 0x4C, 0x4D, 0x4E]"
definition KMmsIpv4u :: string16 where
  "KMmsIpv4u = [0x2F, 0x54, 0x59, 0x50, 0x45, 0x3D, 0x49, 0x50, 0x76, 0x34]"
definition KMmsIpv6u :: string16 where
  "KMmsIpv6u = [0x2F, 0x54, 0x59, 0x50, 0x45, 0x3D, 0x49, 0x50, 0x76, 0x36]"

definition strip_address_type :: "decode_services \<Rightarrow> string16 \<Rightarrow> string16" where
  "strip_address_type e s =
     (case find_f (fold16 e) KMmsPlmnu s of
        Some p \<Rightarrow> filter (\<lambda>c. c \<noteq> 46) (take p s)
      | None \<Rightarrow>
          (case find_f (fold16 e) KMmsIpv4u s of
             Some p \<Rightarrow> take p s
           | None \<Rightarrow> (case find_f (fold16 e) KMmsIpv6u s of Some p \<Rightarrow> take p s | None \<Rightarrow> s)))"

definition DecodeAddressL :: "decode_services \<Rightarrow> string16 decoder" where
  "DecodeAddressL e d =
     (if at_end d then Inr ([], d)
      else dbind (GetEncodedTextStringL e) (\<lambda>s. dreturn (strip_address_type e s)) d)"

definition KMmsAddressPresentToken :: byte where "KMmsAddressPresentToken = 128"
definition KMmsInsertAddressToken :: byte where "KMmsInsertAddressToken = 129"

definition address_if :: "decode_services \<Rightarrow> nat \<Rightarrow> string16 decoder" where
  "address_if e n = (if 1 < n then DecodeAddressL e else dreturn [])"

definition DecodeFromL :: "decode_services \<Rightarrow> string16 decoder" where
  "DecodeFromL e d =
     dbind GetValueLength (\<lambda>n.
       dbind (\<lambda>d1. if at_end d1 then Inr (0, d1) else peek d1) (\<lambda>b.
         if 0x7F < b then
           dskip (advance 1) (\<lambda>d2.
             if at_end d2 then dskip (set_error KErrCorrupt) (dreturn []) d2
             else if b \<noteq> KMmsAddressPresentToken \<and> b \<noteq> KMmsInsertAddressToken
             then address_if e n (d2\<lparr>iPosition := iPosition d\<rparr>)
             else address_if e n d2)
         else address_if e n)) d"

section \<open>Length checks of the chunked mode\<close>

text \<open>In the chunked mode a header is decoded only when it is complete in the buffer. The
  checks work on a copy of the position, which \<open>CheckHeaderLength\<close> restores.\<close>

function check_uintvar_loop :: "byte \<Rightarrow> bool decoder" where
  "check_uintvar_loop b d =
     (if b AND 0x80 \<noteq> 0 \<and> iPosition d < iLength d - 1 then
        (case read_at (moved d 1) (iPosition d + 1) of
           Inl e \<Rightarrow> Inl e
         | Inr b1 \<Rightarrow> check_uintvar_loop b1 (moved d 1))
      else Inr (b AND 0x80 = 0, moved d 1))"
  by pat_completeness auto
termination
  by (relation "measure (\<lambda>(_, d). iLength d - iPosition d)") auto

declare check_uintvar_loop.simps [simp del]

definition CheckUintvarLength :: "bool decoder" where
  "CheckUintvarLength d =
     (if at_end d then Inr (False, d) else dbind peek check_uintvar_loop d)"

definition CheckValueLength :: "bool \<Rightarrow> bool decoder" where
  "CheckValueLength aCheckUintvarData d =
     (if at_end d then Inr (False, d)
      else dbind peek (\<lambda>b.
        if 0x80 \<le> b then dskip (advance 1) (dreturn True)
        else if 32 \<le> b then
          (\<lambda>d1. case scan_zero d1 b (iPosition d1) of
                  Inl e \<Rightarrow> Inl e | Inr (z, p) \<Rightarrow> Inr (z = 0, d1\<lparr>iPosition := p\<rparr>))
        else if b = 31 then
          dskip (advance 1) (\<lambda>d1.
            dbind CheckUintvarLength (\<lambda>good.
              if good \<and> aCheckUintvarData then
                (\<lambda>d2. dbind GetUintvar (\<lambda>v d3.
                   if iLength d3 - iPosition d3 < unat v then Inr (False, d3)
                   else Inr (True, moved d3 (unat v))) (d2\<lparr>iPosition := iPosition d1\<rparr>))
              else dreturn good) d1)
        else dskip (advance 1) (\<lambda>d1.
          if iLength d1 - iPosition d1 < unat b then Inr (False, d1)
          else Inr (True, moved d1 (unat b)))) d)"

definition KWspQValue :: byte where "KWspQValue = 0"
definition KMmsAssignedContentType :: byte where "KMmsAssignedContentType = 0x84"

definition CheckHeaderLength :: "bool decoder" where
  "CheckHeaderLength d =
     (if at_end d then Inr (False, d)
      else dbind peek (\<lambda>b.
        dbind (CheckValueLength True) (\<lambda>nameOk.
          dbind (if nameOk then
                   CheckValueLength (\<not> (iDecodingStage d = EMmsAttachmentHeaders
                     \<and> b AND 0x80 \<noteq> 0 \<and> b AND 0x7F = KWspQValue))
                 else dreturn False) (\<lambda>valueOk.
            dbind (if iDecodingStage d = EMmsHeaders \<and> b = KMmsAssignedContentType \<and> valueOk
                   then CheckUintvarLength else dreturn valueOk) (\<lambda>r d1.
              Inr (r, d1\<lparr>iPosition := iPosition d\<rparr>))))) d)"

end
