(* ===== verification/Wsp_Reads.thy ===== *)
theory Wsp_Reads
  imports Wsp_Decode
begin

text \<open>
  What the primitive readers do to the position: none moves it back, each reads only inside the
  buffer when the first byte is there, and the loops end at the terminating zero or at
  \<open>iLength\<close>.
\<close>

section \<open>The scanning loop\<close>

lemma scan_zero_total:
  assumes "dec_ok d" "p \<le> iLength d"
  shows "\<exists>z q. scan_zero d b p = Inr (z, q) \<and> p \<le> q \<and> q \<le> iLength d \<and> (b \<noteq> 0 \<longrightarrow> p < iLength d \<longrightarrow> p < q)"
  using assms
proof (induction d b p rule: scan_zero.induct)
  case (1 d b p)
  show ?case
  proof (cases "b \<noteq> 0 \<and> p < iLength d")
    case True
    then have r: "read_at d p = Inr (iDecodeBuffer d ! p)"
      using 1(2) by (simp add: read_at_def dec_ok_def)
    from 1(1) [OF True r 1(2)] True obtain z q where
      "scan_zero d (iDecodeBuffer d ! p) (p + 1) = Inr (z, q)" "p + 1 \<le> q" "q \<le> iLength d" by auto
    with True r show ?thesis
      by (auto simp: scan_zero.simps [of d b p])
  next
    case False
    with 1(3) show ?thesis by (auto simp: scan_zero.simps [of d b p])
  qed
qed

lemma scan_zero_le: "scan_zero d b p = Inr (z, q) \<Longrightarrow> p \<le> q \<and> (b \<noteq> 0 \<longrightarrow> p < iLength d \<longrightarrow> p < q)"
proof (induction d b p rule: scan_zero.induct)
  case (1 d b p)
  show ?case
  proof (cases "b \<noteq> 0 \<and> p < iLength d")
    case True
    with 1(2) obtain b1 where r: "read_at d p = Inr b1" and s: "scan_zero d b1 (p + 1) = Inr (z, q)"
      by (auto simp: scan_zero.simps [of d b p] split: sum.splits)
    from 1(1) [OF True r s] show ?thesis by simp
  next
    case False
    with 1(2) show ?thesis by (auto simp: scan_zero.simps [of d b p])
  qed
qed

lemma scan_zero_finds:
  assumes "dec_ok d" "b \<noteq> 0" "drop p (take (iLength d) (iDecodeBuffer d)) = s @ 0 # ys" "0 \<notin> set s"
  shows "scan_zero d b p = Inr (0, p + length s + 1)"
  using assms(2-)
proof (induction s arbitrary: b p)
  case (Cons c s)
  have lt: "p < iLength d" "p < length (iDecodeBuffer d)"
    using Cons.prems(2) assms(1) by (auto simp: dec_ok_def not_le [symmetric] dest: arg_cong [of _ _ length])
  have "iDecodeBuffer d ! p = c"
    using Cons.prems(2) lt by (metis append_Cons hd_append2 hd_drop_conv_nth list.distinct(1) list.sel(1)
      length_take min_less_iff_conj nth_take)
  moreover have "drop (p + 1) (take (iLength d) (iDecodeBuffer d)) = s @ 0 # ys"
    using Cons.prems(2) by (metis append_Cons drop_drop drop_Suc_Cons drop_0 One_nat_def add.commute)
  ultimately show ?case
    using Cons.IH [of c "p + 1"] Cons.prems lt
    by (simp add: scan_zero.simps [of d b p] read_at_def)
next
  case Nil
  have lt: "p < iLength d" "p < length (iDecodeBuffer d)"
    using Nil(2) assms(1) by (auto simp: dec_ok_def not_le [symmetric] dest: arg_cong [of _ _ length])
  have "iDecodeBuffer d ! p = 0"
    using Nil(2) lt by (metis append_Nil hd_drop_conv_nth list.sel(1) length_take min_less_iff_conj nth_take)
  with Nil lt show ?case
    by (simp add: scan_zero.simps [of d b p] scan_zero.simps [of d 0 "Suc p"] read_at_def)
qed

lemma scan_zero_left:
  assumes "dec_ok d" "b \<noteq> 0" "left_bytes d = s @ 0 # ys" "0 \<notin> set s"
  shows "scan_zero d b (iPosition d) = Inr (0, iPosition d + length s + 1)"
  using scan_zero_finds [OF assms(1,2) _ assms(4)] assms(3) by (simp add: left_bytes_def)

lemma take_buffer:
  assumes "left_bytes d = s @ ys"
  shows "take (length s) (drop (iPosition d) (iDecodeBuffer d)) = s"
proof -
  have e: "take (iLength d - iPosition d) (drop (iPosition d) (iDecodeBuffer d)) = s @ ys"
    using assms by (simp add: left_bytes_def drop_take)
  then have "length s \<le> iLength d - iPosition d"
    by (metis length_append length_take le_add1 min.boundedE)
  then have "take (length s) (drop (iPosition d) (iDecodeBuffer d)) =
      take (length s) (take (iLength d - iPosition d) (drop (iPosition d) (iDecodeBuffer d)))"
    by (simp add: min_absorb1)
  then show ?thesis by (simp add: e)
qed

section \<open>Monotone operations\<close>

lemma uintvar_loop_le: "uintvar_loop acc b d = Inr (v, d1) \<Longrightarrow> stays d d1 \<and> iPosition d < iPosition d1"
proof (induction acc b d rule: uintvar_loop.induct)
  case (1 acc b d)
  show ?case
  proof (cases "b AND 0x80 \<noteq> 0 \<and> iPosition d < iLength d - 1")
    case True
    with 1(2) obtain b1 where r: "read_at (moved d 1) (iPosition d + 1) = Inr b1"
      and s: "uintvar_loop (push_bit 7 (acc + ucast (b AND 0x7F))) b1 (moved d 1) = Inr (v, d1)"
      by (auto simp: uintvar_loop.simps [of acc b d] split: sum.splits)
    from 1(1) [OF True r s] show ?thesis by (auto simp: stays_def)
  next
    case False
    with 1(2) show ?thesis by (auto simp: uintvar_loop.simps [of acc b d] stays_def)
  qed
qed

lemma uintvar_loop_total:
  assumes "dec_ok d"
  shows "\<exists>v d1. uintvar_loop acc b d = Inr (v, d1) \<and> (iPosition d < iLength d \<longrightarrow> iPosition d1 \<le> iLength d)
     \<and> d1 = moved d (iPosition d1 - iPosition d)"
  using assms
proof (induction acc b d rule: uintvar_loop.induct)
  case (1 acc b d)
  show ?case
  proof (cases "b AND 0x80 \<noteq> 0 \<and> iPosition d < iLength d - 1")
    case True
    then have r: "read_at (moved d 1) (iPosition d + 1) = Inr (iDecodeBuffer d ! (iPosition d + 1))"
      using 1(2) by (auto simp: read_at_def dec_ok_def)
    from 1(1) [OF True r] 1(2) obtain v d1 where
      s: "uintvar_loop (push_bit 7 (acc + ucast (b AND 0x7F))) (iDecodeBuffer d ! (iPosition d + 1)) (moved d 1) = Inr (v, d1)"
      "iPosition d1 \<le> iLength d" "d1 = moved (moved d 1) (iPosition d1 - (iPosition d + 1))"
      using True by auto
    from uintvar_loop_le [OF s(1)] have "iPosition d + 1 < iPosition d1" by simp
    then have "d1 = moved d (iPosition d1 - iPosition d)"
      using s(3) by (simp add: moved_def)
    with True r s show ?thesis
      by (auto simp: uintvar_loop.simps [of acc b d])
  next
    case False
    then show ?thesis by (auto simp: uintvar_loop.simps [of acc b d])
  qed
qed

lemma mono_uintvar [mono_op]: "monotone_op GetUintvar"
  by (auto simp: monotone_op_def GetUintvar_def dbind_def peek_def dreturn_def
      split: if_splits sum.splits dest!: uintvar_loop_le)

lemma mono_value_length [mono_op]: "monotone_op GetValueLength"
  unfolding monotone_op_def
  by (auto simp: GetValueLength_def dbind_def dskip_def peek_def dreturn_def advance_def at_end_def
      split: if_splits sum.splits prod.splits
      dest!: monotone_opD [OF mono_uintvar] simp: stays_def)

lemma mono_overrun [mono_op]: "monotone_op check_overrun"
  by (auto simp: monotone_op_def check_overrun_def set_error_def stays_def)

lemma mono_skip_value [mono_op]: "monotone_op SkipFieldValue"
  unfolding SkipFieldValue_def by (intro mono_op)

lemma mono_int_loop [mono_op]: "monotone_op (int_loop n acc)"
proof (induction n arbitrary: acc)
  case (Suc n)
  then have "monotone_op (dbind peek (\<lambda>b. dskip (advance 1) (int_loop n (push_bit 8 acc + ucast b))))"
    by (intro mono_op)
  then show ?case by (auto simp: monotone_op_def)
qed (simp add: mono_op)

lemma mono_scan [mono_op]:
  "monotone_op (\<lambda>d. case scan_zero d b (iPosition d) of
      Inl e \<Rightarrow> Inl e | Inr (z, p) \<Rightarrow> Inr (g z p d, d\<lparr>iPosition := p\<rparr>))"
  by (auto simp: monotone_op_def stays_def split: sum.splits prod.splits dest: scan_zero_le)

lemma mono_guard [mono_op]:
  assumes "monotone_op m" "monotone_op n"
  shows "monotone_op (\<lambda>d. if c d then m d else n d)"
  using assms by (auto simp: monotone_op_def split: if_splits)

lemma mono_const [mono_op]: "monotone_op (\<lambda>d. Inr (x, d))"
  by (auto simp: monotone_op_def)

lemma mono_byte_string [mono_op]: "monotone_op GetByteString"
proof -
  have "monotone_op (\<lambda>d1. case scan_zero d1 b (iPosition d1) of
              Inl e \<Rightarrow> Inl e
            | Inr (_, p) \<Rightarrow>
                let start = iPosition d1;
                    d2 = d1\<lparr>iPosition := p\<rparr>;
                    n = (if 1 < p - start then p - start - 1 else p - start);
                    s = take n (drop start (iDecodeBuffer d1))
                in if n < 1 then Inr ([], d2)
                   else if b = 34 \<and> last s = 34 then Inr (butlast s, d2)
                   else Inr (s, d2))" for b
    by (auto simp: monotone_op_def stays_def Let_def split: sum.splits prod.splits if_splits
        dest: scan_zero_le)
  then show ?thesis
    unfolding GetByteString_def [abs_def] by (intro mono_op)
qed

lemma mono_utf8_string [mono_op]: "monotone_op GetUtf8String"
proof -
  have "monotone_op (\<lambda>d1. case scan_zero d1 b (iPosition d1) of
              Inl e \<Rightarrow> Inl e
            | Inr (_, p) \<Rightarrow>
                let start = iPosition d1; d2 = d1\<lparr>iPosition := p\<rparr>
                in if p = start then Inl KPanicDescriptorToSmall
                   else if p - start - 1 < 1 then Inr ([], d2)
                   else Inr (take (p - start - 1) (drop start (iDecodeBuffer d1)), d2))" for b
    by (auto simp: monotone_op_def stays_def Let_def split: sum.splits prod.splits if_splits
        dest: scan_zero_le)
  then show ?thesis
    unfolding GetUtf8String_def [abs_def] by (intro mono_op)
qed

lemma mono_skip_parameter [mono_op]: "monotone_op SkipParameterName"
  unfolding SkipParameterName_def [abs_def] by (intro mono_op)

lemma mono_if_skip:
  assumes "monotone_op (dskip m a)" "monotone_op (dskip m b)"
  shows "monotone_op (dskip m (if c then a else b))"
  using assms by simp

lemma mono_back_skip: "monotone_op m \<Longrightarrow>
  monotone_op (dskip (advance 1) (dskip (set_error e) (dskip step_back m)))"
  by (auto simp: monotone_op_def dskip_def dbind_def advance_def set_error_def step_back_def stays_def
      split: sum.splits) fastforce+

lemma mono_integer [mono_op]: "monotone_op GetLongOrShortInteger"
proof -
  have too_big: "monotone_op (dskip (advance 1) (dskip (set_error KErrTooBig)
      (dskip step_back (dskip SkipFieldValue (dreturn (0 :: tint))))))"
    by (rule mono_back_skip, intro mono_op)
  have "monotone_op (dskip (advance 1)
        (if b AND 0x80 \<noteq> 0 then dreturn (ucast (b AND 0x7F))
         else if 30 < b then dskip (set_error KErrCorrupt) (dreturn 0)
         else if KMmsMaxIntegerLength < b then
           dskip (set_error KErrTooBig) (dskip step_back (dskip SkipFieldValue (dreturn 0)))
         else int_loop (unat b) (0 :: tint)))" for b
    by (intro mono_if_skip too_big; intro mono_op)
  note int_step = this
  show ?thesis
    unfolding GetLongOrShortInteger_def [abs_def]
    by (intro mono_guard mono_const mono_bind mono_basic int_step)
qed

lemma mono_very_long [mono_op]: "monotone_op GetVeryLongInteger"
proof -
  have too_big: "monotone_op (dskip (advance 1) (dskip (set_error KErrTooBig)
      (dskip step_back (dreturn (0 :: tint64)))))"
    by (rule mono_back_skip, intro mono_op)
  have "monotone_op (dskip (advance 1)
        (if b AND 0x80 \<noteq> 0 then dreturn (ucast (b AND 0x7F))
         else if 30 < b then dskip (set_error KErrCorrupt) (dreturn 0)
         else if KMmsMaxLongIntegerLength < b then
           dskip (set_error KErrTooBig) (dskip step_back (dreturn 0))
         else int_loop (unat b) (0 :: tint64)))" for b
    by (intro mono_if_skip too_big; intro mono_op)
  note int_step = this
  show ?thesis
    unfolding GetVeryLongInteger_def by (intro mono_bind mono_basic int_step)
qed

lemma mono_well_known [mono_op]: "monotone_op GetWellKnownFieldValueOrSkip"
  unfolding GetWellKnownFieldValueOrSkip_def by (intro mono_op)

lemma mono_copy_text [mono_op]: "monotone_op (copy_text b acc)"
proof -
  have "copy_text b acc d = Inr (x, d1) \<Longrightarrow> stays d d1" for d x d1
  proof (induction b acc d rule: copy_text.induct)
    case (1 b acc d)
    then show ?case
      by (fastforce simp: copy_text.simps [of b acc d] stays_def split: if_splits sum.splits)
  qed
  then show ?thesis by (simp add: monotone_op_def)
qed

lemma mono_simple_text [mono_op]: "monotone_op (GetSimpleTextStringL k)"
  unfolding GetSimpleTextStringL_def [abs_def] simple_text_quote_def simple_text_tail_def
  by (intro mono_op)

lemma mono_encoded_text [mono_op]: "monotone_op (encoded_text e c b)"
  by (auto simp: monotone_op_def encoded_text_def stays_def Let_def split: sum.splits prod.splits if_splits
        dest: scan_zero_le)

lemma mono_encoded_string [mono_op]: "monotone_op (GetEncodedTextStringL e)"
  unfolding GetEncodedTextStringL_def [abs_def] by (intro mono_op)

lemma mono_address [mono_op]: "monotone_op (DecodeAddressL e)"
  unfolding DecodeAddressL_def [abs_def] by (intro mono_op)

lemma mono_address_if [mono_op]: "monotone_op (address_if e n)"
  unfolding address_if_def by (intro mono_op)

end
