(* ===== verification/Wsp_Safe.thy ===== *)
theory Wsp_Safe
  imports Wsp_Reads
begin

text \<open>
  Which readers always return, and which always advance. A reader is total when it returns from
  every state whose \<open>iLength\<close> lies inside the buffer; it is strict when it moves the position
  on whenever a byte is left. The rules compose these facts along \<open>dbind\<close>.
\<close>

section \<open>Total readers\<close>

definition total_op :: "'a decoder \<Rightarrow> bool" where
  "total_op m \<longleftrightarrow> monotone_op m \<and> (\<forall>d. dec_ok d \<longrightarrow> (\<exists>x d1. m d = Inr (x, d1)))"

named_theorems total_rules \<open>readers that return from every well-formed state\<close>

lemma total_opD: "total_op m \<Longrightarrow> dec_ok d \<Longrightarrow> \<exists>x d1. m d = Inr (x, d1) \<and> stays d d1"
  using monotone_opD by (fastforce simp: total_op_def)

lemma total_opI:
  assumes "\<And>d. dec_ok d \<Longrightarrow> \<exists>x d1. m d = Inr (x, d1)" "monotone_op m"
  shows "total_op m"
  using assms by (simp add: total_op_def)

lemma total_mono: "total_op m \<Longrightarrow> monotone_op m"
  by (simp add: total_op_def)

lemma total_bind [total_rules]:
  assumes "total_op m" "\<And>x. total_op (f x)"
  shows "total_op (dbind m f)"
proof (rule total_opI)
  fix d assume "dec_ok d"
  from total_opD [OF assms(1) this] obtain x d1 where "m d = Inr (x, d1)" "stays d d1" by blast
  moreover from total_opD [OF assms(2) stays_dec_ok [OF this(2) \<open>dec_ok d\<close>]]
  obtain y d2 where "f x d1 = Inr (y, d2)" by blast
  ultimately show "\<exists>x d1. dbind m f d = Inr (x, d1)" by auto
qed (use assms in \<open>auto intro: mono_bind total_mono\<close>)

lemma total_skip [total_rules]: "total_op m \<Longrightarrow> total_op n \<Longrightarrow> total_op (dskip m n)"
  unfolding dskip_def by (rule total_bind)

lemma total_basic [total_rules]:
  "total_op (dreturn x)" "total_op (advance n)" "total_op (set_error e)" "total_op (on_headers f)"
  "total_op (\<lambda>d. Inr (x, d))" "total_op check_overrun"
  by (auto intro!: total_opI mono_op
      simp: dreturn_def advance_def set_error_def on_headers_def check_overrun_def)

lemma total_if [total_rules]: "total_op m \<Longrightarrow> total_op n \<Longrightarrow> total_op (if c then m else n)"
  by simp

lemma total_guard [total_rules]:
  assumes "total_op g" "\<And>b. total_op (f b)"
  shows "total_op (\<lambda>d. if at_end d then g d else dbind peek f d)"
proof (rule total_opI)
  fix d assume d: "dec_ok d"
  show "\<exists>x d1. (if at_end d then g d else dbind peek f d) = Inr (x, d1)"
  proof (cases "at_end d")
    case False
    then obtain b ys where "left_bytes d = b # ys"
      using at_end_nil [OF d] by (cases "left_bytes d") auto
    with False d total_opD [OF assms(2) d] show ?thesis
      by (simp add: peek_left) metis
  qed (use total_opD [OF assms(1) d] in auto)
qed (use assms in \<open>intro mono_op, auto intro: total_mono\<close>)

lemma total_guard_or [total_rules]:
  assumes "total_op g" "\<And>b. total_op (f b)"
  shows "total_op (\<lambda>d. if at_end d \<or> c d then g d else dbind peek f d)"
proof (rule total_opI)
  fix d assume d: "dec_ok d"
  show "\<exists>x d1. (if at_end d \<or> c d then g d else dbind peek f d) = Inr (x, d1)"
    using total_opD [OF total_guard [of g f] d] total_opD [OF assms(1) d] assms
    by (cases "at_end d"; cases "c d") auto
qed (use assms in \<open>intro mono_op, auto intro: total_mono\<close>)

lemma total_guard_plain [total_rules]:
  assumes "total_op g" "total_op m"
  shows "total_op (\<lambda>d. if c d then g d else m d)"
  using assms by (auto simp: total_op_def intro: mono_guard)

lemma total_uintvar_loop [total_rules]: "total_op (uintvar_loop acc b)"
proof (rule total_opI)
  show "monotone_op (uintvar_loop acc b)"
    by (auto intro!: monotone_opI dest: uintvar_loop_le)
qed (use uintvar_loop_total in blast)

lemma total_uintvar [total_rules]: "total_op GetUintvar"
  unfolding GetUintvar_def [abs_def] dbind_assoc by (intro total_rules)

lemma total_scan:
  assumes "dec_ok d"
  shows "\<exists>z q. scan_zero d b (iPosition d) = Inr (z, q)"
proof (cases "iPosition d \<le> iLength d")
  case True
  with scan_zero_total [OF assms True, of b] show ?thesis by auto
qed (auto simp: scan_zero.simps [of d b])

lemma total_scan_op:
  assumes "\<And>d z p. iPosition d \<le> p \<Longrightarrow> \<exists>x d1. f z p d = Inr (x, d1) \<and> stays d d1"
  shows "total_op (\<lambda>d. case scan_zero d b (iPosition d) of Inl e \<Rightarrow> Inl e | Inr (z, p) \<Rightarrow> f z p d)"
proof (rule total_opI)
  fix d assume "dec_ok d"
  from total_scan [OF this, of b] obtain z q where s: "scan_zero d b (iPosition d) = Inr (z, q)"
    by blast
  with scan_zero_le [OF s] assms [of d q z]
  show "\<exists>x d1. (case scan_zero d b (iPosition d) of Inl e \<Rightarrow> Inl e | Inr (z, p) \<Rightarrow> f z p d) = Inr (x, d1)"
    by auto
next
  show "monotone_op (\<lambda>d. case scan_zero d b (iPosition d) of Inl e \<Rightarrow> Inl e | Inr (z, p) \<Rightarrow> f z p d)"
  proof (rule monotone_opI)
    fix d x d1
    assume "(case scan_zero d b (iPosition d) of Inl e \<Rightarrow> Inl e | Inr (z, p) \<Rightarrow> f z p d) = Inr (x, d1)"
    then obtain z q where s: "scan_zero d b (iPosition d) = Inr (z, q)" and f: "f z q d = Inr (x, d1)"
      by (auto split: sum.splits)
    from scan_zero_le [OF s] have "iPosition d \<le> q" by simp
    from assms [OF this, of z] f show "stays d d1" by auto
  qed
qed

lemma total_value_length [total_rules]: "total_op GetValueLength"
proof -
  have "total_op (\<lambda>d. case scan_zero d b (iPosition d) of
        Inl e \<Rightarrow> Inl e | Inr (_, p) \<Rightarrow> Inr (p - iPosition d, d))" for b
    by (rule total_scan_op) simp
  note scan = this
  show ?thesis
    unfolding GetValueLength_def [abs_def]
    by (intro total_guard total_basic total_if scan total_skip total_guard_plain total_bind total_uintvar)
qed

lemma total_skip_value [total_rules]: "total_op SkipFieldValue"
  unfolding SkipFieldValue_def by (intro total_rules)

lemma total_byte_string [total_rules]: "total_op GetByteString"
proof -
  have "total_op (\<lambda>d1. case scan_zero d1 b (iPosition d1) of
              Inl e \<Rightarrow> Inl e
            | Inr (_, p) \<Rightarrow>
                let start = iPosition d1;
                    d2 = d1\<lparr>iPosition := p\<rparr>;
                    n = (if 1 < p - start then p - start - 1 else p - start);
                    s = take n (drop start (iDecodeBuffer d1))
                in if n < 1 then Inr ([], d2)
                   else if b = 34 \<and> last s = 34 then Inr (butlast s, d2)
                   else Inr (s, d2))" for b
    by (rule total_scan_op) (auto simp: stays_def Let_def)
  note scan = this
  show ?thesis
    unfolding GetByteString_def [abs_def]
    by (intro total_guard total_basic total_if scan total_skip total_skip_value)
qed

lemma total_skip_parameter [total_rules]: "total_op SkipParameterName"
  unfolding SkipParameterName_def [abs_def] by (intro total_rules)

lemma total_int_loop [total_rules]: "total_op (int_loop n acc)"
proof (induction n arbitrary: acc)
  case (Suc n)
  then show ?case
    by (simp only: int_loop.simps) (intro total_guard total_basic total_skip Suc)
qed (simp add: total_basic)

lemma total_back:
  assumes "total_op m"
  shows "total_op (dskip (advance 1) (dskip (set_error e) (dskip step_back m)))"
proof (rule total_opI)
  fix d assume "dec_ok d"
  then have "dec_ok (d\<lparr>iPosition := iPosition d, iError := e\<rparr>)" by (simp add: dec_ok_def)
  from total_opD [OF assms this]
  show "\<exists>x d1. dskip (advance 1) (dskip (set_error e) (dskip step_back m)) d = Inr (x, d1)"
    by (auto simp: dskip_def dbind_def advance_def set_error_def step_back_def)
qed (intro mono_back_skip total_mono assms)

lemma total_if_skip:
  "total_op (dskip m a) \<Longrightarrow> total_op (dskip m b) \<Longrightarrow> total_op (dskip m (if c then a else b))"
  by simp

lemma total_integer [total_rules]: "total_op GetLongOrShortInteger"
proof -
  have "total_op (dskip (advance 1)
        (if b AND 0x80 \<noteq> 0 then dreturn (ucast (b AND 0x7F))
         else if 30 < b then dskip (set_error KErrCorrupt) (dreturn 0)
         else if KMmsMaxIntegerLength < b then
           dskip (set_error KErrTooBig) (dskip step_back (dskip SkipFieldValue (dreturn 0)))
         else int_loop (unat b) (0 :: tint)))" for b
    by (intro total_if_skip total_back; intro total_rules)
  note step = this
  show ?thesis
    unfolding GetLongOrShortInteger_def [abs_def] by (intro total_guard total_basic step)
qed

lemma total_very_long:
  assumes "dec_ok d" "\<not> at_end d"
  shows "\<exists>x d1. GetVeryLongInteger d = Inr (x, d1)"
proof -
  have "total_op (dskip (advance 1)
        (if b AND 0x80 \<noteq> 0 then dreturn (ucast (b AND 0x7F))
         else if 30 < b then dskip (set_error KErrCorrupt) (dreturn 0)
         else if KMmsMaxLongIntegerLength < b then
           dskip (set_error KErrTooBig) (dskip step_back (dreturn 0))
         else int_loop (unat b) (0 :: tint64)))" for b
    by (intro total_if_skip total_back; intro total_rules)
  note step = this
  have "total_op (\<lambda>d. if at_end d then Inr (0, d) else GetVeryLongInteger d)"
    unfolding GetVeryLongInteger_def by (intro total_guard total_basic step)
  from total_opD [OF this assms(1)] assms(2) show ?thesis by auto
qed

lemma total_well_known:
  assumes "dec_ok d" "\<not> at_end d"
  shows "\<exists>x d1. GetWellKnownFieldValueOrSkip d = Inr (x, d1)"
proof -
  have "total_op (\<lambda>d. if at_end d then Inr (0, d) else GetWellKnownFieldValueOrSkip d)"
    unfolding GetWellKnownFieldValueOrSkip_def by (intro total_rules)
  from total_opD [OF this assms(1)] assms(2) show ?thesis by auto
qed

lemma total_guarded_long [total_rules]:
  assumes "total_op g"
  shows "total_op (\<lambda>d. if at_end d then g d else dbind GetVeryLongInteger (\<lambda>t. dreturn (f t)) d)"
proof (rule total_opI)
  fix d assume d: "dec_ok d"
  show "\<exists>x d1. (if at_end d then g d else dbind GetVeryLongInteger (\<lambda>t. dreturn (f t)) d) = Inr (x, d1)"
    using total_very_long [OF d] total_opD [OF assms d] by (auto simp: dreturn_def)
qed (intro mono_op total_mono assms)

section \<open>Text\<close>

lemma total_copy_text [total_rules]: "total_op (copy_text b acc)"
proof (rule total_opI)
  fix d show "dec_ok d \<Longrightarrow> \<exists>x d1. copy_text b acc d = Inr (x, d1)"
  proof (induction b acc d rule: copy_text.induct)
    case (1 b acc d)
    show ?case
    proof (cases "b \<noteq> 0 \<and> \<not> at_end d")
      case True
      then have r: "read_at d (iPosition d) = Inr (iDecodeBuffer d ! iPosition d)"
        using 1(2) by (auto simp: read_at_def dec_ok_def at_end_def)
      from 1(1) [OF True r] 1(2) True r show ?thesis
        by (auto simp: copy_text.simps [of b acc d])
    qed (auto simp: copy_text.simps [of b acc d])
  qed
qed (rule mono_copy_text)

lemma total_simple_text [total_rules]: "total_op (GetSimpleTextStringL k)"
  unfolding GetSimpleTextStringL_def [abs_def] simple_text_quote_def simple_text_tail_def
  by (intro total_guard total_basic total_if total_skip total_bind total_copy_text)

lemma total_encoded_text [total_rules]: "total_op (encoded_text e c b)"
  unfolding encoded_text_def [abs_def]
  by (rule total_scan_op) (auto simp: stays_def Let_def moved_def split: prod.splits)

lemma total_guard_else [total_rules]:
  assumes "total_op g" "\<And>b. total_op (f b)"
  shows "total_op (\<lambda>d. if at_end d then g d else dbind peek f d)"
  by (rule total_guard [OF assms])

lemma total_encoded_string [total_rules]: "total_op (GetEncodedTextStringL e)"
  unfolding GetEncodedTextStringL_def [abs_def]
  by (intro total_guard total_guard_or total_guard_plain total_basic total_if total_skip total_bind
      total_simple_text total_encoded_text total_uintvar total_integer)

lemma total_address [total_rules]: "total_op (DecodeAddressL e)"
  unfolding DecodeAddressL_def [abs_def] by (intro total_guard_plain total_basic total_bind
      total_encoded_string)

lemma total_address_if [total_rules]: "total_op (address_if e n)"
  unfolding address_if_def by (intro total_rules)

section \<open>Readers of one header value\<close>

text \<open>The value of a header starts inside the message. From there \<open>GetRelativeOrAbsoluteTime\<close>
  and \<open>DecodeFromL\<close>, which assign the position, return and do not move it back.\<close>

definition value_op :: "'a decoder \<Rightarrow> bool" where
  "value_op m \<longleftrightarrow> (\<forall>d. dec_ok d \<longrightarrow> iPosition d \<le> iLength d \<longrightarrow>
     (\<exists>x d1. m d = Inr (x, d1) \<and> stays d d1))"

lemma value_opD: "value_op m \<Longrightarrow> dec_ok d \<Longrightarrow> iPosition d \<le> iLength d \<Longrightarrow>
    \<exists>x d1. m d = Inr (x, d1) \<and> stays d d1"
  by (simp add: value_op_def)

lemma value_total: "total_op m \<Longrightarrow> value_op m"
  using total_opD by (auto simp: value_op_def)

lemma value_bind: "value_op m \<Longrightarrow> (\<And>x. total_op (f x)) \<Longrightarrow> value_op (dbind m f)"
  unfolding value_op_def
  by (auto simp: dbind_def) (metis (no_types, lifting) case_prod_conv stays_dec_ok stays_trans sum.simps(6) total_opD)

lemma uintvar_inside:
  assumes "dec_ok d" "iPosition d \<le> iLength d" "GetUintvar d = Inr (v, d1)"
  shows "iPosition d1 \<le> iLength d"
proof (cases "at_end d")
  case False
  then have "iPosition d < iLength d" by (simp add: at_end_def)
  with assms(1,3) False uintvar_loop_total [OF assms(1), of 0 "iDecodeBuffer d ! iPosition d"]
  show ?thesis
    by (auto simp: GetUintvar_def dbind_def peek_def read_at_def dec_ok_def dreturn_def
        split: if_splits)
qed (use assms in \<open>simp add: GetUintvar_def\<close>)

lemma value_length_inside:
  assumes "dec_ok d" "iPosition d \<le> iLength d" "GetValueLength d = Inr (n, d1)"
  shows "iPosition d1 \<le> iLength d \<and> stays d d1"
proof (cases "at_end d")
  case False
  then have lt: "iPosition d < iLength d" by (simp add: at_end_def)
  have st: "stays d d1" by (rule monotone_opD [OF mono_value_length assms(3)])
  have "iPosition d1 \<le> iLength d"
    using assms(1,3) False lt
      uintvar_inside [of "d\<lparr>iPosition := Suc (iPosition d)\<rparr>"]
    by (auto simp: GetValueLength_def dbind_def dskip_def peek_def read_at_def dec_ok_def dreturn_def
        advance_def at_end_def split: if_splits sum.splits prod.splits)
  with st show ?thesis by simp
qed (use assms in \<open>simp add: GetValueLength_def\<close>)

lemma value_time: "value_op GetRelativeOrAbsoluteTime"
  unfolding value_op_def
proof (intro allI impI)
  fix d assume d: "dec_ok d" "iPosition d \<le> iLength d"
  from total_opD [OF total_value_length d(1)] obtain n d1
    where g: "GetValueLength d = Inr (n, d1)" by blast
  from value_length_inside [OF d g] have p: "iPosition d1 \<le> iLength d1" "stays d d1"
    by (auto simp: stays_def)
  show "\<exists>x d1. GetRelativeOrAbsoluteTime d = Inr (x, d1) \<and> stays d d1"
  proof (cases "iLength d1 < iPosition d1 + n \<or> at_end d1")
    case True
    with g p show ?thesis
      by (auto simp: GetRelativeOrAbsoluteTime_def dskip_def dbind_def to_end_def set_error_def
          dreturn_def stays_def)
  next
    case False
    have "total_op (\<lambda>d. if at_end d then Inr ((0, 0), d) else dbind peek (\<lambda>b.
         if b \<noteq> KMmsAbsoluteToken \<and> b \<noteq> KMmsRelativeToken then
           dskip (advance n) (dreturn (0, 0))
         else dskip (advance 1) (\<lambda>d1.
           if at_end d1 then dskip (set_error KErrCorrupt) (dreturn (0, 0)) d1
           else dbind GetVeryLongInteger (\<lambda>t. dreturn (b, t)) d1)) d)"
      by (intro total_guard total_basic total_if total_skip total_guarded_long)
    from total_opD [OF this stays_dec_ok [OF p(2) d(1)]] False g stays_trans [OF p(2)]
    show ?thesis by (auto simp: GetRelativeOrAbsoluteTime_def)
  qed
qed

lemma value_from: "value_op (DecodeFromL e)"
  unfolding value_op_def
proof (intro allI impI)
  fix d assume d: "dec_ok d" "iPosition d \<le> iLength d"
  from total_opD [OF total_value_length d(1)] obtain n d1
    where g: "GetValueLength d = Inr (n, d1)" and s1: "stays d d1" by blast
  note ok1 = stays_dec_ok [OF s1 d(1)]
  have "total_op (\<lambda>d. if at_end d then Inr (0 :: byte, d) else dbind peek dreturn d)"
    by (intro total_guard total_basic)
  from total_opD [OF this ok1] obtain b where
    r: "(if at_end d1 then Inr (0, d1) else peek d1) = Inr (b, d1)"
    by (auto simp: peek_def dreturn_def dbind_def split: sum.splits if_splits)
  define d2 where "d2 = d1\<lparr>iPosition := Suc (iPosition d1)\<rparr>"
  have ok2: "dec_ok d2" "dec_ok (d2\<lparr>iPosition := iPosition d\<rparr>)"
    and s2: "stays d d2" "stays d (d2\<lparr>iPosition := iPosition d\<rparr>)"
    using ok1 s1 by (auto simp: d2_def dec_ok_def stays_def)
  have R: "\<exists>x d3. address_if e n dd = Inr (x, d3) \<and> stays d d3" if "dec_ok dd" "stays d dd" for dd
    using total_opD [OF total_address_if that(1), of e n] stays_trans [OF that(2)] by blast
  have E: "stays d (d2\<lparr>iError := KErrCorrupt\<rparr>)"
    using s2(1) by (simp add: stays_def)
  show "\<exists>x d1. DecodeFromL e d = Inr (x, d1) \<and> stays d d1"
    using R [OF ok1 s1] R [OF ok2(1) s2(1)] R [OF ok2(2) s2(2)] E
    by (cases "0x7F < b"; cases "at_end d2";
        cases "b \<noteq> KMmsAddressPresentToken \<and> b \<noteq> KMmsInsertAddressToken")
      (simp_all add: DecodeFromL_def g r advance_def d2_def [symmetric] dskip_def set_error_def
        dreturn_def dbind_def)
qed

end
