(* ===== verification/Wsp_Strict.thy ===== *)
theory Wsp_Strict
  imports Wsp_Safe
begin

text \<open>
  Strict readers: with a byte left, they move the position on. The loops of the decoder end
  because one turn of each is strict.
\<close>

definition strict_op :: "'a decoder \<Rightarrow> bool" where
  "strict_op m \<longleftrightarrow> (\<forall>d x d1. \<not> at_end d \<longrightarrow> m d = Inr (x, d1) \<longrightarrow> iPosition d < iPosition d1)"

lemma strict_opD: "strict_op m \<Longrightarrow> m d = Inr (x, d1) \<Longrightarrow> \<not> at_end d \<Longrightarrow> iPosition d < iPosition d1"
  by (simp add: strict_op_def)

lemma strict_bind:
  assumes "strict_op m" "\<And>x. monotone_op (f x)"
  shows "strict_op (dbind m f)"
  unfolding strict_op_def
proof (intro allI impI)
  fix d x d1
  assume "\<not> at_end d" "dbind m f d = Inr (x, d1)"
  then obtain y d2 where "m d = Inr (y, d2)" "f y d2 = Inr (x, d1)"
    by (auto simp: dbind_def split: sum.splits)
  with strict_opD [OF assms(1) this(1)] monotone_opD [OF assms(2) this(2)] \<open>\<not> at_end d\<close>
  show "iPosition d < iPosition d1" by (simp add: stays_def)
qed

lemma strict_skip: "strict_op m \<Longrightarrow> monotone_op n \<Longrightarrow> strict_op (dskip m n)"
  unfolding dskip_def by (rule strict_bind)

lemma strict_advance: "0 < n \<Longrightarrow> strict_op (advance n)"
  by (auto simp: strict_op_def advance_def)

lemma strict_peek:
  assumes "\<And>b. strict_op (f b)"
  shows "strict_op (dbind peek f)"
  using assms by (auto simp: strict_op_def dbind_def peek_def split: sum.splits)

lemma strict_if: "(c \<Longrightarrow> strict_op m) \<Longrightarrow> (\<not> c \<Longrightarrow> strict_op n) \<Longrightarrow> strict_op (if c then m else n)"
  by simp

lemma strict_guard:
  assumes "strict_op m"
  shows "strict_op (\<lambda>d. if at_end d then g d else m d)"
  using assms by (auto simp: strict_op_def)

lemma strict_uintvar: "strict_op GetUintvar"
  by (auto simp: strict_op_def GetUintvar_def dbind_def peek_def dreturn_def
      split: if_splits sum.splits dest!: uintvar_loop_le)

lemma value_length_moves:
  assumes "GetValueLength d = Inr (n, d1)" "\<not> at_end d"
  shows "iPosition d < iPosition d1 + n"
  using assms
  by (auto simp: GetValueLength_def dbind_def dskip_def peek_def dreturn_def advance_def
      split: if_splits sum.splits prod.splits dest!: monotone_opD [OF mono_uintvar]
      simp: stays_def at_end_def dest: scan_zero_le)

text \<open>A length that is not a short integer and not a string has a length byte of its own.\<close>

lemma value_length_byte:
  assumes "GetValueLength d = Inr (n, d1)" "\<not> at_end d" "read_at d (iPosition d) = Inr b" "b < 32"
  shows "iPosition d < iPosition d1"
proof -
  have "\<not> 0x80 \<le> b" "\<not> 32 \<le> b" using assms(4) by (auto simp: word_le_nat_alt word_less_nat_alt)
  with assms show ?thesis
    by (auto simp: GetValueLength_def dbind_def dskip_def peek_def dreturn_def advance_def
        split: if_splits sum.splits prod.splits dest!: monotone_opD [OF mono_uintvar] simp: stays_def)
qed

lemma strict_skip_value: "strict_op SkipFieldValue"
  by (auto simp: strict_op_def SkipFieldValue_def dskip_def dbind_def advance_def check_overrun_def
      set_error_def split: sum.splits if_splits dest: value_length_moves)

lemma strict_byte_string: "strict_op GetByteString"
proof -
  have "strict_op (dskip (advance k) (\<lambda>d1.
            case scan_zero d1 b (iPosition d1) of
              Inl e \<Rightarrow> Inl e
            | Inr (_, p) \<Rightarrow>
                let start = iPosition d1;
                    d2 = d1\<lparr>iPosition := p\<rparr>;
                    n = (if 1 < p - start then p - start - 1 else p - start);
                    s = take n (drop start (iDecodeBuffer d1))
                in if n < 1 then Inr ([], d2)
                   else if b = 34 \<and> last s = 34 then Inr (butlast s, d2)
                   else Inr (s, d2)))" if "b \<noteq> 0" for b k
    unfolding strict_op_def
  proof (intro allI impI)
    fix d :: mms_decode and x d1
    define d0 where "d0 = d\<lparr>iPosition := iPosition d + k\<rparr>"
    assume "\<not> at_end d" and r: "dskip (advance k) (\<lambda>d1.
            case scan_zero d1 b (iPosition d1) of
              Inl e \<Rightarrow> Inl e
            | Inr (_, p) \<Rightarrow>
                let start = iPosition d1;
                    d2 = d1\<lparr>iPosition := p\<rparr>;
                    n = (if 1 < p - start then p - start - 1 else p - start);
                    s = take n (drop start (iDecodeBuffer d1))
                in if n < 1 then Inr ([], d2)
                   else if b = 34 \<and> last s = 34 then Inr (butlast s, d2)
                   else Inr (s, d2)) d = Inr (x, d1)"
    then obtain z q where s: "scan_zero d0 b (iPosition d0) = Inr (z, q)" and "iPosition d1 = q"
      by (auto simp: dskip_def dbind_def advance_def d0_def [symmetric] Let_def
          split: sum.splits if_splits)
    with scan_zero_le [OF s] that \<open>\<not> at_end d\<close> show "iPosition d < iPosition d1"
      by (cases k) (auto simp: d0_def at_end_def)
  qed
  note scan = this
  show ?thesis
    unfolding GetByteString_def [abs_def]
    by (intro strict_guard strict_peek strict_if scan strict_skip [OF strict_skip_value]
        strict_skip [OF strict_advance] mono_basic) auto
qed

end
