(* ===== verification/Mms_Content.thy ===== *)
theory Mms_Content
  imports Wsp_Strict
begin

text \<open>
  Content types in a message: \<open>GetContentTypeL\<close>, \<open>GetContentHeaderName\<close> and
  \<open>GetMultipartContentTypeL\<close> of mmsengine/mmscodec/src/mmsdecode.cpp, and the table of
  well-known media types of mmsengine/mmscodec/inc/mmscodec.h. Each parameter loop is a function
  of its own, with one turn of it as a separate definition.
\<close>

section \<open>Assigned numbers\<close>

definition KContentTypeTable :: "string8 list" where
  "KContentTypeTable = map ascii
    [''*/*'', ''text/*'', ''text/html'', ''text/plain'', ''text/x-hdml'', ''text/x-ttml'',
     ''text/x-vCalendar'', ''text/x-vCard'', ''text/vnd.wap.wml'', ''text/vnd.wap.wmlscript'',
     ''text/vnd.wap.channel'', ''Multipart/*'', ''Multipart/mixed'', ''Multipart/form-data'',
     ''Multipart/byteranges'', ''multipart/alternative'', ''application/*'',
     ''application/java-vm'', ''application/x-www-form-urlencoded'', ''application/x-hdmlc'',
     ''application/vnd.wap.wmlc'', ''application/vnd.wap.vmlscriptc'',
     ''application/vnd.wap.channelc'', ''application/vnd.wap.uaprof'',
     ''application/vnd.wap.wtls-ca-certificate'', ''application/vnd.wap.wtls-user-certificate'',
     ''application/x-x509-ca-cert'', ''application/x-x509-user-cert'', ''image/*'',
     ''image/gif'', ''image/jpeg'', ''image/tiff'', ''image/png'', ''image/vnd.wap.wbmp'',
     ''application/vnd.wap.multipart.*'', ''application/vnd.wap.multipart.mixed'',
     ''application/vnd.wap.multipart.form-data'', ''application/vnd.wap.multipart.byteranges'',
     ''application/vnd.wap.multipart.alternative'', ''application/xml'', ''text/xml'',
     ''application/vnd.wap.wbxml'', ''application/x-x968-cross-cert'',
     ''application/x-x968-ca-cert'', ''application/x-x968-user-cert'', ''text/vnd.wap.si'',
     ''application/vnd.wap.sic'', ''text/vnd.wap.sl'', ''text/vnd.wap.slc'', ''text/vnd.wap.co'',
     ''application/vnd.wap.coc'', ''application/vnd.wap.multipart.related'',
     ''application/vnd.wap.sia'', ''text/vnd.wap.connectivity-xml'',
     ''application/vnd.wap.connectivity-wbxml'', ''application/octet-stream'']"

definition KMmsUnAssigned :: nat where "KMmsUnAssigned = 0x37"
definition KMmsAssignedTextPlain :: byte where "KMmsAssignedTextPlain = 0x03"
definition KWspCharset :: byte where "KWspCharset = 0x01"
definition KWspName :: byte where "KWspName = 0x05"
definition KWspNameString :: string8 where "KWspNameString = ascii ''Name''"

section \<open>GetContentTypeL\<close>

definition set_mime_charset :: "tint \<Rightarrow> unit decoder" where
  "set_mime_charset c d = Inr ((), d\<lparr>iMimeCharset := c\<rparr>)"

definition note_charset :: "tint \<Rightarrow> unit decoder" where
  "note_charset c d =
     Inr ((), if iFakeSubject d = iDataStart d then d\<lparr>iCharacterSet := c\<rparr> else d)"

definition append_param :: "string8 \<Rightarrow> unit decoder" where
  "append_param s d = Inr ((), d\<lparr>iContentTypeParams := iContentTypeParams d @ [s]\<rparr>)"

definition mark_text_plain :: "unit decoder" where
  "mark_text_plain d =
     Inr ((), (if iDataStart d < iLength d then d\<lparr>iFakeSubject := iDataStart d\<rparr> else d)
       \<lparr>iUseForSubject := True, iPlainTexts := iPlainTexts d + 1\<rparr>)"

definition well_known_type :: "byte \<Rightarrow> string8 decoder" where
  "well_known_type b =
     dskip (advance 1)
       (dskip (if b AND 0x7F = KMmsAssignedTextPlain then mark_text_plain else dreturn ())
         (dreturn (KContentTypeTable ! (if unat (b AND 0x7F) < KMmsUnAssigned
                                        then unat (b AND 0x7F) else KMmsUnAssigned))))"

text \<open>One turn of the loop over the parameters of the general form.\<close>

definition content_param :: "unit decoder" where
  "content_param = dbind peek (\<lambda>b.
     if b AND 0x80 \<noteq> 0 \<and> b AND 0x7F = KWspCharset then
       dskip (advance 1) (dbind GetLongOrShortInteger (\<lambda>c. dskip (set_mime_charset c) (note_charset c)))
     else if b AND 0x80 \<noteq> 0 \<and> b AND 0x7F = KWspName then
       dskip (advance 1) (dskip (append_param KWspNameString) (dbind GetByteString append_param))
     else if b AND 0x80 \<noteq> 0 \<and> b AND 0x7F = KWspQValue then
       dskip (advance 1) (dskip GetUintvar (dreturn ()))
     else if 0x20 \<le> b \<and> b \<le> 0x7F then
       dbind GetByteString (\<lambda>s. dskip (append_param s) (dbind GetByteString append_param))
     else dskip SkipParameterName SkipFieldValue)"

lemma total_simple_ops [total_rules]:
  "total_op (set_mime_charset c)" "total_op (note_charset c)" "total_op (append_param s)"
  "total_op mark_text_plain"
  by (auto intro!: total_opI monotone_opI
      simp: set_mime_charset_def note_charset_def append_param_def mark_text_plain_def stays_def)

lemmas mono_simple_ops [mono_op] = total_simple_ops [THEN total_mono]

lemma strict_skip_parameter: "strict_op SkipParameterName"
  unfolding SkipParameterName_def [abs_def]
  by (intro strict_guard strict_peek strict_if strict_advance strict_skip [OF strict_byte_string] mono_basic) simp

lemma strict_content_param: "strict_op content_param"
  unfolding content_param_def
  by (intro strict_peek strict_if strict_skip [OF strict_advance] strict_bind [OF strict_byte_string]
      strict_skip [OF strict_skip_parameter] mono_op) simp_all

lemma total_content_param:
  "total_op (\<lambda>d. if at_end d then Inr ((), d) else content_param d)"
  unfolding content_param_def by (intro total_rules)

lemma mono_content_param [mono_op]: "monotone_op content_param"
  unfolding content_param_def by (intro mono_op)

function content_params :: "nat \<Rightarrow> unit decoder" where
  "content_params e d =
     (if iPosition d < e \<and> \<not> at_end d then
        (case content_param d of Inl x \<Rightarrow> Inl x | Inr (_, d1) \<Rightarrow> content_params e d1)
      else Inr ((), d))"
  by pat_completeness auto
termination
  by (relation "measure (\<lambda>(_, d). iLength d - iPosition d)")
    (use strict_opD [OF strict_content_param] monotone_opD [OF mono_content_param] in
      \<open>fastforce simp: stays_def at_end_def\<close>)+

declare content_params.simps [simp del]

lemma total_content_params [total_rules]: "total_op (content_params e)"
proof (rule total_opI)
  show "\<And>d. dec_ok d \<Longrightarrow> \<exists>x d1. content_params e d = Inr (x, d1)"
  proof -
    fix d show "dec_ok d \<Longrightarrow> \<exists>x d1. content_params e d = Inr (x, d1)"
    proof (induction e d rule: content_params.induct)
      case (1 e d)
      show ?case
      proof (cases "iPosition d < e \<and> \<not> at_end d")
        case True
        with total_opD [OF total_content_param 1(2)] obtain d1 where
          r: "content_param d = Inr ((), d1)" and s: "stays d d1" by auto
        from 1(1) [OF True r refl stays_dec_ok [OF s 1(2)]] True r show ?thesis
          by (simp add: content_params.simps [of e d])
      qed (auto simp: content_params.simps [of e d])
    qed
  qed
  show "monotone_op (content_params e)"
  proof (rule monotone_opI)
    fix d x d1 show "content_params e d = Inr (x, d1) \<Longrightarrow> stays d d1"
    proof (induction e d rule: content_params.induct)
      case (1 e d)
      show ?case
      proof (cases "iPosition d < e \<and> \<not> at_end d")
        case True
        with 1(2) obtain d2 where r: "content_param d = Inr ((), d2)"
          and s: "content_params e d2 = Inr (x, d1)"
          by (auto simp: content_params.simps [of e d] split: sum.splits)
        from 1(1) [OF True r refl s] monotone_opD [OF mono_content_param r] show ?thesis
          using stays_trans by blast
      qed (use 1(2) in \<open>auto simp: content_params.simps [of e d]\<close>)
    qed
  qed
qed

definition set_position :: "nat \<Rightarrow> unit decoder" where
  "set_position p d = Inr ((), d\<lparr>iPosition := p\<rparr>)"

text \<open>The general form holds a content type of its own, hence the recursion; each level has its
  own length byte.\<close>

function GetContentTypeL :: "string8 decoder" where
  "GetContentTypeL d =
     (if at_end d then dskip (set_error KErrCorrupt) (dreturn []) d
      else case read_at d (iPosition d) of
        Inl e \<Rightarrow> Inl e
      | Inr b \<Rightarrow>
          if 0x80 \<le> b then well_known_type b d
          else if 32 \<le> b then GetByteString d
          else (case GetValueLength d of
            Inl e \<Rightarrow> Inl e
          | Inr (mediaLength, d1) \<Rightarrow>
              (case (if iPosition d1 < iLength d1 then GetContentTypeL d1 else Inr ([], d1)) of
                 Inl e \<Rightarrow> Inl e
               | Inr (s, d2) \<Rightarrow>
                   dskip (content_params (iPosition d1 + mediaLength))
                     (dskip (set_position (iPosition d1 + mediaLength)) (dreturn s)) d2)))"
  by pat_completeness auto
termination
proof (relation "measure (\<lambda>d. iLength d - iPosition d)", simp, clarsimp)
  fix d b n d1
  assume a: "\<not> at_end d" "read_at d (iPosition d) = Inr b" "\<not> 0x80 \<le> b" "\<not> 32 \<le> b"
    "GetValueLength d = Inr (n, d1)" "iPosition d1 < iLength d1"
  then have "b < 32" by simp
  with value_length_byte [of d n d1 b] monotone_opD [OF mono_value_length, of d n d1] a
  show "iLength d1 - iPosition d1 < iLength d - iPosition d"
    by (simp add: stays_def)
qed

declare GetContentTypeL.simps [simp del]

lemma total_well_known_type [total_rules]: "total_op (well_known_type b)"
  unfolding well_known_type_def by (intro total_rules)

lemma content_type_stays: "GetContentTypeL d = Inr (s, d1) \<Longrightarrow> stays d d1"
proof (induction d arbitrary: s d1 rule: GetContentTypeL.induct)
  case (1 d)
  show ?case
  proof (cases "at_end d")
    case False
    with 1(2) obtain b where b: "read_at d (iPosition d) = Inr b"
      by (auto simp: GetContentTypeL.simps [of d] split: sum.splits)
    consider (Token) "0x80 \<le> b" | (Text) "\<not> 0x80 \<le> b" "32 \<le> b" | (General) "\<not> 0x80 \<le> b" "\<not> 32 \<le> b" by blast
    then show ?thesis
    proof cases
      case Token
      with 1(2) [unfolded GetContentTypeL.simps [of d]] False b show ?thesis
        by (auto dest: monotone_opD [OF total_mono [OF total_well_known_type]])
    next
      case Text
      with 1(2) [unfolded GetContentTypeL.simps [of d]] False b show ?thesis
        by (auto dest: monotone_opD [OF mono_byte_string])
    next
      case General
      with 1(2) [unfolded GetContentTypeL.simps [of d]] False b obtain n d2 t d3 where
        v: "GetValueLength d = Inr (n, d2)" and
        g: "(if iPosition d2 < iLength d2 then GetContentTypeL d2 else Inr ([], d2)) = Inr (t, d3)" and
        r: "dskip (content_params (iPosition d2 + n))
             (dskip (set_position (iPosition d2 + n)) (dreturn t)) d3 = Inr (s, d1)"
        by (auto split: sum.splits)
      have "stays d2 d3"
        using g 1(1) [OF False b General v refl, of t d3] by (auto split: if_splits)
      moreover obtain d4 where "content_params (iPosition d2 + n) d3 = Inr ((), d4)"
        "d1 = d4\<lparr>iPosition := iPosition d2 + n\<rparr>"
        using r by (auto simp: dskip_def dbind_def set_position_def dreturn_def split: sum.splits)
      moreover from this(1) have "stays d3 d4"
        by (rule monotone_opD [OF total_mono [OF total_content_params]])
      ultimately show ?thesis
        using monotone_opD [OF mono_value_length v] by (simp add: stays_def)
    qed
  qed (use 1(2) in \<open>auto simp: GetContentTypeL.simps [of d] dskip_def dbind_def set_error_def
        dreturn_def stays_def\<close>)
qed

lemma content_type_returns:
  assumes "dec_ok d"
  shows "\<exists>s d1. GetContentTypeL d = Inr (s, d1)"
  using assms
proof (induction d rule: GetContentTypeL.induct)
  case (1 d)
  note ok = 1(2)
  show ?case
  proof (cases "at_end d")
    case False
    then obtain b where b: "read_at d (iPosition d) = Inr b"
      using ok by (auto simp: read_at_def dec_ok_def at_end_def)
    from total_opD [OF total_value_length ok] obtain n d1 where
      v: "GetValueLength d = Inr (n, d1)" "stays d d1" by blast
    note ok1 = stays_dec_ok [OF v(2) ok]
    consider (Token) "0x80 \<le> b" | (Text) "\<not> 0x80 \<le> b" "32 \<le> b" | (General) "\<not> 0x80 \<le> b" "\<not> 32 \<le> b" by blast
    then show ?thesis
    proof cases
      case Token
      with total_opD [OF total_well_known_type ok] False b show ?thesis
        by (force simp: GetContentTypeL.simps [of d])
    next
      case Text
      with total_opD [OF total_byte_string ok] False b show ?thesis
        by (force simp: GetContentTypeL.simps [of d])
    next
      case General
      have "\<exists>s d2. (if iPosition d1 < iLength d1 then GetContentTypeL d1 else Inr ([], d1)) = Inr (s, d2)
          \<and> dec_ok d2"
      proof (cases "iPosition d1 < iLength d1")
        case True
        from 1(1) [OF False b General v(1) refl True ok1] obtain s d2 where
          g: "GetContentTypeL d1 = Inr (s, d2)" by blast
        moreover have "dec_ok d2"
          using content_type_stays [OF g] ok1 stays_dec_ok by blast
        ultimately show ?thesis using True by simp
      qed (use ok1 in simp)
      then obtain s d2 where g:
        "(if iPosition d1 < iLength d1 then GetContentTypeL d1 else Inr ([], d1)) = Inr (s, d2)"
        "dec_ok d2" by blast
      from total_opD [OF total_content_params g(2), of "iPosition d1 + n"] obtain d3 where
        "content_params (iPosition d1 + n) d2 = Inr ((), d3)" by auto
      with General False b v(1) g(1) show ?thesis
        by (simp add: GetContentTypeL.simps [of d] dskip_def dbind_def set_position_def dreturn_def)
    qed
  qed (simp add: GetContentTypeL.simps [of d] dskip_def dbind_def set_error_def dreturn_def)
qed

lemma total_content_type [total_rules]: "total_op GetContentTypeL"
  by (rule total_opI) (auto intro: content_type_returns monotone_opI content_type_stays)

end
