(* ===== verification/Mms_Multipart.thy ===== *)
theory Mms_Multipart
  imports Mms_Content
begin

text \<open>
  The content type header of a message: \<open>GetContentHeaderName\<close>, \<open>GetMultipartContentTypeL\<close> with
  its parameters (\<open>start\<close>, \<open>type\<close>, the application identifiers), and \<open>DecodeContentTypeL\<close> of
  mmsengine/mmscodec/src/mmsdecode.cpp.
\<close>

section \<open>Assigned numbers\<close>

definition KMmsAssignedApplicationVndWapMultipart :: byte where
  "KMmsAssignedApplicationVndWapMultipart = 0x22"
definition KMmsAssignedApplicationVndWapMultipartMixed :: byte where
  "KMmsAssignedApplicationVndWapMultipartMixed = 0x23"
definition KMmsAssignedApplicationVndWapMultipartAlternative :: byte where
  "KMmsAssignedApplicationVndWapMultipartAlternative = 0x26"
definition KMmsAssignedApplicationVndWapMultipartRelated :: byte where
  "KMmsAssignedApplicationVndWapMultipartRelated = 0x33"
definition KMmsAssignedApplicationVndWapMultipartReport :: byte where
  "KMmsAssignedApplicationVndWapMultipartReport = 0x7F"
definition KMmsWapMultipartReport :: string8 where
  "KMmsWapMultipartReport = ascii ''application/vnd.wap.multipart.report''"

definition KMmsTextHeader :: int where "KMmsTextHeader = 0x7F"
definition KWspContentId :: int where "KWspContentId = 0x40"
definition KWspStart :: int where "KWspStart = 0x0A"
definition KWspRelatedType :: int where "KWspRelatedType = 0x09"
definition KWspContentIdString :: string8 where "KWspContentIdString = ascii ''Content-ID''"
definition KMmsJavaApplicationId :: string8 where "KMmsJavaApplicationId = ascii ''Application-ID''"
definition KMmsJavaReplyApplicationId :: string8 where
  "KMmsJavaReplyApplicationId = ascii ''Reply-To-Application-ID''"

definition is_multipart :: "byte \<Rightarrow> bool" where
  "is_multipart t \<longleftrightarrow>
     (KMmsAssignedApplicationVndWapMultipart \<le> t \<and> t \<le> KMmsAssignedApplicationVndWapMultipartAlternative)
     \<or> t = KMmsAssignedApplicationVndWapMultipartRelated"

section \<open>Parameters\<close>

definition GetContentHeaderName :: "decode_services \<Rightarrow> (int \<times> string8) decoder" where
  "GetContentHeaderName e d =
     (if at_end d then Inr ((-1, []), d)
      else dbind peek (\<lambda>b.
        if 0x80 \<le> b then dskip (advance 1) (dreturn (uint (b AND 0x7F), []))
        else dbind GetByteString (\<lambda>s.
          dreturn (if compare_f (fold8 e) s KWspContentIdString then KWspContentId
                   else KMmsTextHeader, s))) d)"

definition strip_angles :: "string8 \<Rightarrow> string8" where
  "strip_angles s =
     (if find_f id [60] s = Some 0 \<and> find_f id [62] s = Some (length s - 1)
      then take (length s - 2) (drop 1 s) else s)"

definition set_root_content_id :: "string8 \<Rightarrow> unit decoder" where
  "set_root_content_id s d = Inr ((), d\<lparr>iRootContentId := s\<rparr>)"

definition DecodeApplicationIdL :: "unit decoder" where
  "DecodeApplicationIdL = dbind (GetSimpleTextStringL False) (\<lambda>s. on_headers (SetApplicIdL s))"

definition DecodeReplyApplicationIdL :: "unit decoder" where
  "DecodeReplyApplicationIdL =
     dbind (GetSimpleTextStringL False) (\<lambda>s. on_headers (SetReplyApplicIdL s))"

text \<open>One turn of the parameter loop. (The root type is kept for logging only.)\<close>

definition multipart_param :: "decode_services \<Rightarrow> unit decoder" where
  "multipart_param e = dbind (GetContentHeaderName e) (\<lambda>(header, contentHeader).
     if header = KWspStart then dbind GetByteString (\<lambda>s. set_root_content_id (strip_angles s))
     else if header = uint KWspQValue then dskip GetUintvar (dreturn ())
     else if header = KWspRelatedType then dskip GetContentTypeL (dreturn ())
     else if header = KMmsTextHeader then
       (if compare_f (fold8 e) contentHeader KMmsJavaApplicationId then DecodeApplicationIdL
        else if compare_f (fold8 e) contentHeader KMmsJavaReplyApplicationId then
          DecodeReplyApplicationIdL
        else SkipFieldValue)
     else if 0 \<le> header then SkipFieldValue else dreturn ())"

lemma strict_content_header_name: "strict_op (GetContentHeaderName e)"
  unfolding GetContentHeaderName_def [abs_def]
  by (intro strict_guard strict_peek strict_if strict_skip [OF strict_advance]
      strict_bind [OF strict_byte_string] mono_op) simp

lemma total_content_header_name [total_rules]: "total_op (GetContentHeaderName e)"
  unfolding GetContentHeaderName_def [abs_def] by (intro total_rules)

lemma total_root_id [total_rules]: "total_op (set_root_content_id s)"
  by (auto intro!: total_opI monotone_opI simp: set_root_content_id_def stays_def)

lemma total_application_id [total_rules]: "total_op DecodeApplicationIdL" "total_op DecodeReplyApplicationIdL"
  unfolding DecodeApplicationIdL_def DecodeReplyApplicationIdL_def by (intro total_rules)+

lemma total_multipart_tail:
  "total_op (case hc of (header, contentHeader) \<Rightarrow>
     if header = KWspStart then dbind GetByteString (\<lambda>s. set_root_content_id (strip_angles s))
     else if header = uint KWspQValue then dskip GetUintvar (dreturn ())
     else if header = KWspRelatedType then dskip GetContentTypeL (dreturn ())
     else if header = KMmsTextHeader then
       (if compare_f (fold8 e) contentHeader KMmsJavaApplicationId then DecodeApplicationIdL
        else if compare_f (fold8 e) contentHeader KMmsJavaReplyApplicationId then
          DecodeReplyApplicationIdL
        else SkipFieldValue)
     else if 0 \<le> header then SkipFieldValue else dreturn ())"
  by (cases hc) (simp only: prod.case, intro total_rules)

lemma total_multipart_param: "total_op (multipart_param e)"
  unfolding multipart_param_def by (intro total_bind total_content_header_name total_multipart_tail)

lemma strict_multipart_param: "strict_op (multipart_param e)"
  unfolding multipart_param_def
  by (intro strict_bind [OF strict_content_header_name] total_mono [OF total_multipart_tail])

function multipart_params :: "decode_services \<Rightarrow> nat \<Rightarrow> unit decoder" where
  "multipart_params e p d =
     (if iPosition d < p \<and> \<not> at_end d then
        (case multipart_param e d of Inl x \<Rightarrow> Inl x | Inr (_, d1) \<Rightarrow> multipart_params e p d1)
      else Inr ((), d))"
  by pat_completeness auto
termination
  by (relation "measure (\<lambda>(_, _, d). iLength d - iPosition d)")
    (use strict_opD [OF strict_multipart_param] monotone_opD [OF total_mono [OF total_multipart_param]] in
      \<open>fastforce simp: stays_def at_end_def\<close>)+

declare multipart_params.simps [simp del]

lemma total_multipart_params [total_rules]: "total_op (multipart_params e p)"
proof -
  have "dec_ok d \<Longrightarrow> \<exists>x d1. multipart_params e p d = Inr (x, d1)" for d
  proof (induction e p d rule: multipart_params.induct)
    case (1 e p d)
    from total_opD [OF total_multipart_param 1(2)] obtain d1 where
      r: "multipart_param e d = Inr ((), d1)" and s: "stays d d1" by auto
    from 1(1) [OF _ r refl stays_dec_ok [OF s 1(2)]] r show ?case
      by (auto simp: multipart_params.simps [of e p d])
  qed
  moreover have "multipart_params e p d = Inr (x, d1) \<Longrightarrow> stays d d1" for d x d1
  proof (induction e p d rule: multipart_params.induct)
    case (1 e p d)
    then show ?case
      using monotone_opD [OF total_mono [OF total_multipart_param], of e d]
      by (auto simp: multipart_params.simps [of e p d] split: if_splits sum.splits intro: stays_trans)
  qed
  ultimately show ?thesis by (intro total_opI monotone_opI)
qed

section \<open>The header\<close>

definition set_attachments :: "tint \<Rightarrow> unit decoder" where
  "set_attachments n d = Inr ((), d\<lparr>iNumberOfAttachments := n\<rparr>)"

text \<open>Not a multipart this decoder handles: one part, and the position back at the header, whose
  parameters belong to the part.\<close>

definition monoblock_at :: "nat \<Rightarrow> byte decoder" where
  "monoblock_at oldPosition =
     dskip (set_attachments 1) (dskip (set_position oldPosition) (dreturn 0))"

definition multipart_rest :: "decode_services \<Rightarrow> nat \<Rightarrow> byte \<Rightarrow> byte decoder" where
  "multipart_rest e p t =
     dskip (multipart_params e p) (dskip (set_position p)
       (dbind GetUintvar (\<lambda>n. dskip (set_attachments n) (dreturn t))))"

definition multipart_general :: "decode_services \<Rightarrow> byte decoder" where
  "multipart_general e d =
     dbind GetValueLength (\<lambda>mediaLength d1.
       if at_end d1 then dskip (set_attachments 0) (dreturn 0) d1
       else dbind peek (\<lambda>b.
         if 0x80 \<le> b then
           (if is_multipart (b AND 0x7F)
            then dskip (advance 1) (multipart_rest e (iPosition d1 + mediaLength) (b AND 0x7F))
            else monoblock_at (iPosition d))
         else dbind GetByteString (\<lambda>s.
           if compare_f (fold8 e) s KMmsWapMultipartReport
           then multipart_rest e (iPosition d1 + mediaLength)
                  KMmsAssignedApplicationVndWapMultipartReport
           else monoblock_at (iPosition d))) d1) d"

definition GetMultipartContentTypeL :: "decode_services \<Rightarrow> byte decoder" where
  "GetMultipartContentTypeL e = dbind peek (\<lambda>b.
     if 0x80 \<le> b then
       (if is_multipart (b AND 0x7F)
        then dskip (advance 1) (dbind GetUintvar (\<lambda>n.
               dskip (set_attachments n) (dreturn (b AND 0x7F))))
        else dskip (set_attachments 1) (dreturn 0))
     else if 32 \<le> b then dskip (set_attachments 1) (dreturn 0)
     else multipart_general e)"

definition DecodeContentTypeL :: "decode_services \<Rightarrow> unit decoder" where
  "DecodeContentTypeL e = dbind (GetMultipartContentTypeL e) (\<lambda>t d.
     Inr ((), d\<lparr>dMultipartType := t,
               iMmsHeaders := (iMmsHeaders d)\<lparr>iMultipartType := ucast t\<rparr>, iLastHeader := True\<rparr>))"

section \<open>It returns\<close>

definition from_start :: "mms_decode \<Rightarrow> ('a \<times> mms_decode) leaving \<Rightarrow> bool" where
  "from_start d r \<longleftrightarrow> (\<exists>x d1. r = Inr (x, d1) \<and> stays d d1)"

lemma total_from_start: "total_op m \<Longrightarrow> dec_ok d1 \<Longrightarrow> stays d d1 \<Longrightarrow> from_start d (m d1)"
  unfolding from_start_def using total_opD stays_trans by blast

lemma total_attachments [total_rules]: "total_op (set_attachments n)"
  by (auto intro!: total_opI monotone_opI simp: set_attachments_def stays_def)

lemma monoblock_from_start:
  assumes "stays d d1" "iPosition d = p"
  shows "from_start d (monoblock_at p d1)"
  using assms by (auto simp: from_start_def monoblock_at_def dskip_def dbind_def set_attachments_def
      set_position_def dreturn_def stays_def)

lemma rest_from_start:
  assumes "dec_ok d" "stays d d1" "iPosition d \<le> p"
  shows "from_start d (multipart_rest e p t d1)"
proof -
  note ok1 = stays_dec_ok [OF assms(2,1)]
  from total_opD [OF total_multipart_params ok1] obtain d2 where
    r: "multipart_params e p d1 = Inr ((), d2)" "stays d1 d2" by auto
  define d3 where "d3 = d2\<lparr>iPosition := p\<rparr>"
  have s: "stays d d3" using stays_trans [OF assms(2) r(2)] assms(3) by (simp add: d3_def stays_def)
  have "total_op (dbind GetUintvar (\<lambda>n. dskip (set_attachments n) (dreturn t)))" by (intro total_rules)
  from total_from_start [OF this stays_dec_ok [OF s assms(1)] s] r show ?thesis
    by (simp add: multipart_rest_def dskip_def dbind_def set_position_def d3_def)
qed

lemma general_from_start:
  assumes "dec_ok d"
  shows "from_start d (multipart_general e d)"
proof -
  from total_opD [OF total_value_length assms] obtain n d1 where
    v: "GetValueLength d = Inr (n, d1)" "stays d d1" by auto
  note ok1 = stays_dec_ok [OF v(2) assms]
  show ?thesis
  proof (cases "at_end d1")
    case True
    with v show ?thesis
      by (auto simp: multipart_general_def dskip_def dbind_def set_attachments_def dreturn_def
          from_start_def stays_def)
  next
    case False
    then obtain b where b: "peek d1 = Inr (b, d1)"
      using ok1 by (auto simp: peek_def read_at_def dec_ok_def at_end_def)
    from total_opD [OF total_byte_string ok1] obtain s d2 where
      s: "GetByteString d1 = Inr (s, d2)" "stays d1 d2" by auto
    have adv: "advance (Suc 0) d1 = Inr ((), moved d1 (Suc 0))" by (simp add: advance_def moved_def)
    have m: "stays d (moved d1 (Suc 0))" by (rule stays_trans [OF v(2)]) simp
    have p: "iPosition d \<le> iPosition d1 + n" using v(2) by (simp add: stays_def)
    note tails = rest_from_start [OF assms m p] rest_from_start [OF assms stays_trans [OF v(2) s(2)] p]
      monoblock_from_start [OF stays_trans [OF v(2) s(2)] refl] monoblock_from_start [OF v(2) refl]
    show ?thesis
      using False tails by (auto simp: multipart_general_def v(1) b adv s(1))
  qed
qed

lemma value_multipart: "\<not> at_end d \<Longrightarrow> dec_ok d \<Longrightarrow> from_start d (GetMultipartContentTypeL e d)"
proof -
  assume d: "\<not> at_end d" "dec_ok d"
  then obtain b where b: "peek d = Inr (b, d)"
    by (auto simp: peek_def read_at_def dec_ok_def at_end_def)
  have "total_op (dskip (advance 1) (dbind GetUintvar (\<lambda>n. dskip (set_attachments n) (dreturn (b AND 0x7F)))))"
    "total_op (dskip (set_attachments 1) (dreturn (0 :: byte)))" by (intro total_rules)+
  then show ?thesis
    using total_from_start [OF _ d(2) stays_refl] general_from_start [OF d(2), of e]
    by (auto simp: GetMultipartContentTypeL_def b)
qed

text \<open>
  The assigned numbers of the PDU headers (mmsengine/mmsserver/inc/mmsservercommon.h) and of the
  message types (msg_pub/mms_client_mtm_api/inc/mmsconst.h). They are abbreviations, so that a
  comparison of two of them computes.
\<close>

abbreviation KMmsAssignedBcc :: byte where "KMmsAssignedBcc \<equiv> 0x81"
abbreviation KMmsAssignedCc :: byte where "KMmsAssignedCc \<equiv> 0x82"
abbreviation KMmsAssignedContentLocation :: byte where "KMmsAssignedContentLocation \<equiv> 0x83"
abbreviation KMmsAssignedDate :: byte where "KMmsAssignedDate \<equiv> 0x85"
abbreviation KMmsAssignedDeliveryReport :: byte where "KMmsAssignedDeliveryReport \<equiv> 0x86"
abbreviation KMmsAssignedDeliveryTime :: byte where "KMmsAssignedDeliveryTime \<equiv> 0x87"
abbreviation KMmsAssignedExpiry :: byte where "KMmsAssignedExpiry \<equiv> 0x88"
abbreviation KMmsAssignedFrom :: byte where "KMmsAssignedFrom \<equiv> 0x89"
abbreviation KMmsAssignedMessageClass :: byte where "KMmsAssignedMessageClass \<equiv> 0x8A"
abbreviation KMmsAssignedMessageId :: byte where "KMmsAssignedMessageId \<equiv> 0x8B"
abbreviation KMmsAssignedMessageType :: byte where "KMmsAssignedMessageType \<equiv> 0x8C"
abbreviation KMmsAssignedMmsVersion :: byte where "KMmsAssignedMmsVersion \<equiv> 0x8D"
abbreviation KMmsAssignedMessageSize :: byte where "KMmsAssignedMessageSize \<equiv> 0x8E"
abbreviation KMmsAssignedPriority :: byte where "KMmsAssignedPriority \<equiv> 0x8F"
abbreviation KMmsAssignedReadReply :: byte where "KMmsAssignedReadReply \<equiv> 0x90"
abbreviation KMmsAssignedReportAllowed :: byte where "KMmsAssignedReportAllowed \<equiv> 0x91"
abbreviation KMmsAssignedResponseStatus :: byte where "KMmsAssignedResponseStatus \<equiv> 0x92"
abbreviation KMmsAssignedResponseText :: byte where "KMmsAssignedResponseText \<equiv> 0x93"
abbreviation KMmsAssignedSenderVisibility :: byte where "KMmsAssignedSenderVisibility \<equiv> 0x94"
abbreviation KMmsAssignedStatus :: byte where "KMmsAssignedStatus \<equiv> 0x95"
abbreviation KMmsAssignedSubject :: byte where "KMmsAssignedSubject \<equiv> 0x96"
abbreviation KMmsAssignedTo :: byte where "KMmsAssignedTo \<equiv> 0x97"
abbreviation KMmsAssignedTID :: byte where "KMmsAssignedTID \<equiv> 0x98"
abbreviation KMmsAssignedRetrieveStatus :: byte where "KMmsAssignedRetrieveStatus \<equiv> 0x99"
abbreviation KMmsAssignedRetrieveText :: byte where "KMmsAssignedRetrieveText \<equiv> 0x9A"
abbreviation KMmsAssignedReadStatus :: byte where "KMmsAssignedReadStatus \<equiv> 0x9B"
abbreviation KMmsAssignedReplyCharging :: byte where "KMmsAssignedReplyCharging \<equiv> 0x9C"
abbreviation KMmsAssignedReplyChargingDeadline :: byte where "KMmsAssignedReplyChargingDeadline \<equiv> 0x9D"
abbreviation KMmsAssignedReplyChargingID :: byte where "KMmsAssignedReplyChargingID \<equiv> 0x9E"
abbreviation KMmsAssignedReplyChargingSize :: byte where "KMmsAssignedReplyChargingSize \<equiv> 0x9F"
abbreviation KMmsAssignedPreviouslySentBy :: byte where "KMmsAssignedPreviouslySentBy \<equiv> 0xA0"
abbreviation KMmsAssignedPreviouslySentDate :: byte where "KMmsAssignedPreviouslySentDate \<equiv> 0xA1"
abbreviation KMmsAssignedMmsStore :: byte where "KMmsAssignedMmsStore \<equiv> 0xA2"
abbreviation KMmsAssignedMMState :: byte where "KMmsAssignedMMState \<equiv> 0xA3"
abbreviation KMmsAssignedMMFlags :: byte where "KMmsAssignedMMFlags \<equiv> 0xA4"
abbreviation KMmsAssignedStoreStatus :: byte where "KMmsAssignedStoreStatus \<equiv> 0xA5"
abbreviation KMmsAssignedStoreStatusText :: byte where "KMmsAssignedStoreStatusText \<equiv> 0xA6"
abbreviation KMmsAssignedStored :: byte where "KMmsAssignedStored \<equiv> 0xA7"
abbreviation KMmsAssignedAttributes :: byte where "KMmsAssignedAttributes \<equiv> 0xA8"
abbreviation KMmsAssignedTotals :: byte where "KMmsAssignedTotals \<equiv> 0xA9"
abbreviation KMmsAssignedMboxTotals :: byte where "KMmsAssignedMboxTotals \<equiv> 0xAA"
abbreviation KMmsAssignedQuotas :: byte where "KMmsAssignedQuotas \<equiv> 0xAB"
abbreviation KMmsAssignedMboxQuotas :: byte where "KMmsAssignedMboxQuotas \<equiv> 0xAC"
abbreviation KMmsAssignedMessageCount :: byte where "KMmsAssignedMessageCount \<equiv> 0xAD"
abbreviation KMmsAssignedStart :: byte where "KMmsAssignedStart \<equiv> 0xAF"
abbreviation KMmsAssignedDistributionIndicator :: byte where "KMmsAssignedDistributionIndicator \<equiv> 0xB1"
abbreviation KMmsAssignedElementDescriptor :: byte where "KMmsAssignedElementDescriptor \<equiv> 0xB2"
abbreviation KMmsAssignedLimit :: byte where "KMmsAssignedLimit \<equiv> 0xB3"
abbreviation KMmsAssignedRecommendedRetrievalMode :: byte where "KMmsAssignedRecommendedRetrievalMode \<equiv> 0xB4"
abbreviation KMmsAssignedRecommendedRetrievalModeText :: byte where "KMmsAssignedRecommendedRetrievalModeText \<equiv> 0xB5"
abbreviation KMmsAssignedStatusText :: byte where "KMmsAssignedStatusText \<equiv> 0xB6"
abbreviation KMmsAssignedApplicId :: byte where "KMmsAssignedApplicId \<equiv> 0xB7"
abbreviation KMmsAssignedReplyApplicId :: byte where "KMmsAssignedReplyApplicId \<equiv> 0xB8"
abbreviation KMmsAssignedAuxApplicInfo :: byte where "KMmsAssignedAuxApplicInfo \<equiv> 0xB9"
abbreviation KMmsAssignedContentClass :: byte where "KMmsAssignedContentClass \<equiv> 0xBA"
abbreviation KMmsAssignedDrmContent :: byte where "KMmsAssignedDrmContent \<equiv> 0xBB"
abbreviation KMmsAssignedAdaptationAllowed :: byte where "KMmsAssignedAdaptationAllowed \<equiv> 0xBC"
abbreviation KMmsAssignedReplaceId :: byte where "KMmsAssignedReplaceId \<equiv> 0xBD"
abbreviation KMmsAssignedCancelId :: byte where "KMmsAssignedCancelId \<equiv> 0xBE"
abbreviation KMmsAssignedCancelStatus :: byte where "KMmsAssignedCancelStatus \<equiv> 0xBF"
abbreviation KMmsAssignedExtendedNotificationText :: byte where "KMmsAssignedExtendedNotificationText \<equiv> 0xFE"
abbreviation KMmsAssignedExtendedNotificationEOL :: byte where "KMmsAssignedExtendedNotificationEOL \<equiv> 0xFD"
abbreviation KMmsAssignedTopLevelContentType :: byte where "KMmsAssignedTopLevelContentType \<equiv> 0x82"

abbreviation KMmsMessageTypeMSendReq :: tint where "KMmsMessageTypeMSendReq \<equiv> 128"
abbreviation KMmsMessageTypeMSendConf :: tint where "KMmsMessageTypeMSendConf \<equiv> 129"
abbreviation KMmsMessageTypeMNotificationInd :: tint where "KMmsMessageTypeMNotificationInd \<equiv> 130"
abbreviation KMmsMessageTypeMNotifyRespInd :: tint where "KMmsMessageTypeMNotifyRespInd \<equiv> 131"
abbreviation KMmsMessageTypeMRetrieveConf :: tint where "KMmsMessageTypeMRetrieveConf \<equiv> 132"
abbreviation KMmsMessageTypeAcknowledgeInd :: tint where "KMmsMessageTypeAcknowledgeInd \<equiv> 133"
abbreviation KMmsMessageTypeDeliveryInd :: tint where "KMmsMessageTypeDeliveryInd \<equiv> 134"
abbreviation KMmsMessageTypeReadRecInd :: tint where "KMmsMessageTypeReadRecInd \<equiv> 135"
abbreviation KMmsMessageTypeReadOrigInd :: tint where "KMmsMessageTypeReadOrigInd \<equiv> 136"
abbreviation KMmsMessageTypeForwardReq :: tint where "KMmsMessageTypeForwardReq \<equiv> 137"
abbreviation KMmsMessageTypeForwardConf :: tint where "KMmsMessageTypeForwardConf \<equiv> 138"
abbreviation KMmsMessageTypeMboxStoreReq :: tint where "KMmsMessageTypeMboxStoreReq \<equiv> 139"
abbreviation KMmsMessageTypeMboxStoreConf :: tint where "KMmsMessageTypeMboxStoreConf \<equiv> 140"
abbreviation KMmsMessageTypeMboxViewReq :: tint where "KMmsMessageTypeMboxViewReq \<equiv> 141"
abbreviation KMmsMessageTypeMboxViewConf :: tint where "KMmsMessageTypeMboxViewConf \<equiv> 142"
abbreviation KMmsMessageTypeMBoxUploadReq :: tint where "KMmsMessageTypeMBoxUploadReq \<equiv> 143"
abbreviation KMmsMessageTypeMBoxUploadConf :: tint where "KMmsMessageTypeMBoxUploadConf \<equiv> 144"
abbreviation KMmsMessageTypeMBoxDeleteReq :: tint where "KMmsMessageTypeMBoxDeleteReq \<equiv> 145"
abbreviation KMmsMessageTypeMBoxDeleteConf :: tint where "KMmsMessageTypeMBoxDeleteConf \<equiv> 146"
abbreviation KMmsMessageTypeMBoxDescr :: tint where "KMmsMessageTypeMBoxDescr \<equiv> 147"
abbreviation KMmsMessageTypeDeleteReq :: tint where "KMmsMessageTypeDeleteReq \<equiv> 148"
abbreviation KMmsMessageTypeDeleteConf :: tint where "KMmsMessageTypeDeleteConf \<equiv> 149"
abbreviation KMmsMessageTypeCancelReq :: tint where "KMmsMessageTypeCancelReq \<equiv> 150"
abbreviation KMmsMessageTypeCancelConf :: tint where "KMmsMessageTypeCancelConf \<equiv> 151"

abbreviation KMmsMessageClassPersonal :: tint where "KMmsMessageClassPersonal \<equiv> 128"
abbreviation KMmsMessageClassAdvertisement :: tint where "KMmsMessageClassAdvertisement \<equiv> 129"
abbreviation KMmsMessageClassInformational :: tint where "KMmsMessageClassInformational \<equiv> 130"
abbreviation KMmsMessageClassAuto :: tint where "KMmsMessageClassAuto \<equiv> 131"
abbreviation KMmsTestIllegalValue :: tint where "KMmsTestIllegalValue \<equiv> 255"
abbreviation KMmsMessageCountToken :: byte where "KMmsMessageCountToken \<equiv> 128"
abbreviation KMmsMessageSizeToken :: byte where "KMmsMessageSizeToken \<equiv> 129"

end
