(* ===== verification/Mms_Decode.thy ===== *)
theory Mms_Decode
  imports Mms_Multipart
begin

text \<open>
  The handlers of the PDU headers of \<open>CMmsDecode\<close> (mmsengine/mmscodec/src/mmsdecode.cpp), the
  dispatch \<open>DecodeOneHeaderL\<close>, and the loop of \<open>DecodeHeadersL\<close>. The logging is left out. The
  setters of \<open>CMmsHeaders\<close> that only assign a member are record updates.
\<close>

section \<open>Access to the headers\<close>

definition leave_headers :: "(mms_headers \<Rightarrow> mms_headers leaving) \<Rightarrow> unit decoder" where
  "leave_headers f d =
     (case f (iMmsHeaders d) of Inl e \<Rightarrow> Inl e | Inr h \<Rightarrow> Inr ((), d\<lparr>iMmsHeaders := h\<rparr>))"

text \<open>\<open>MMBoxMessageHeadersL\<close>, \<open>MMBoxViewHeadersL\<close> and \<open>ElementDescriptorL\<close> create the part on
  its first use.\<close>

definition on_message_box :: "(mmbox_message_headers \<Rightarrow> mmbox_message_headers) \<Rightarrow> mms_headers \<Rightarrow> mms_headers" where
  "on_message_box f h = h\<lparr> iMmBoxMessageHeaders :=
     Some (f (case iMmBoxMessageHeaders h of None \<Rightarrow> mh_new | Some m \<Rightarrow> m)) \<rparr>"

definition on_view_box :: "(mmbox_view_headers \<Rightarrow> mmbox_view_headers) \<Rightarrow> mms_headers \<Rightarrow> mms_headers" where
  "on_view_box f h = h\<lparr> iMmBoxViewHeaders :=
     Some (f (case iMmBoxViewHeaders h of None \<Rightarrow> vh_new | Some v \<Rightarrow> v)) \<rparr>"

definition on_descriptor :: "(element_descriptor \<Rightarrow> element_descriptor) \<Rightarrow> mms_headers \<Rightarrow> mms_headers" where
  "on_descriptor f h = h\<lparr> iElementDescriptor :=
     Some (f (case iElementDescriptor h of None \<Rightarrow> ed_new | Some x \<Rightarrow> x)) \<rparr>"

text \<open>A header whose value is one token.\<close>

definition token_header :: "(tint \<Rightarrow> mms_headers \<Rightarrow> mms_headers) \<Rightarrow> unit decoder" where
  "token_header f = dbind GetWellKnownFieldValueOrSkip (\<lambda>b. on_headers (f (ucast b)))"

section \<open>Addresses\<close>

definition DecodeFromHeaderL :: "decode_services \<Rightarrow> unit decoder" where
  "DecodeFromHeaderL e = dbind (DecodeFromL e) (\<lambda>s. on_headers (SetSenderL s))"

definition DecodeToL :: "decode_services \<Rightarrow> unit decoder" where
  "DecodeToL e = dbind (DecodeAddressL e) (\<lambda>s. on_headers (AddTypedAddresseeL s EMmsTo))"

definition DecodeCcL :: "decode_services \<Rightarrow> unit decoder" where
  "DecodeCcL e = dbind (DecodeAddressL e) (\<lambda>s. on_headers (AddTypedAddresseeL s EMmsCc))"

definition DecodeBccL :: "decode_services \<Rightarrow> unit decoder" where
  "DecodeBccL e = dbind (DecodeAddressL e) (\<lambda>s. on_headers (AddTypedAddresseeL s EMmsBcc))"

definition DecodePreviousSenderL :: "decode_services \<Rightarrow> unit decoder" where
  "DecodePreviousSenderL e = dskip GetValueLength (dbind GetLongOrShortInteger (\<lambda>size.
     dbind (DecodeAddressL e) (\<lambda>s. leave_headers (InsertPreviouslySentByL size s))))"

section \<open>Locations and identifiers\<close>

definition append_location :: "string8 \<Rightarrow> mms_headers \<Rightarrow> mms_headers" where
  "append_location s = on_message_box (\<lambda>m. m\<lparr> iContentLocationArray := iContentLocationArray m @ [s] \<rparr>)"

definition locations_empty :: "mms_headers \<Rightarrow> bool" where
  "locations_empty h = (case iMmBoxMessageHeaders h of
     None \<Rightarrow> True | Some m \<Rightarrow> iContentLocationArray m = [])"

definition store_location :: "string8 \<Rightarrow> mms_headers \<Rightarrow> mms_headers" where
  "store_location s h =
     (if iMsgType h = KMmsMessageTypeMboxViewConf \<or> iMsgType h = KMmsMessageTypeMboxViewReq \<or>
         iMsgType h = KMmsMessageTypeMBoxDeleteReq \<or> iMsgType h = KMmsMessageTypeDeleteReq
      then append_location s h
      else if length (des_of (iContentLocation h)) = 0 then SetContentLocationL s h
      else append_location s
             (if locations_empty h then append_location (des_of (iContentLocation h)) h else h))"

definition DecodeContentLocationHeaderL :: "unit decoder" where
  "DecodeContentLocationHeaderL d =
     (if iMsgType (iMmsHeaders d) \<noteq> KMmsMessageTypeMBoxDeleteConf \<and>
         iMsgType (iMmsHeaders d) \<noteq> KMmsMessageTypeDeleteConf
      then dbind GetByteString (\<lambda>s. on_headers (store_location s)) d
      else dskip GetValueLength (dbind GetLongOrShortInteger (\<lambda>size.
             dbind GetByteString (\<lambda>s. leave_headers (InsertDeleteContentLocationL size s)))) d)"

definition DecodeMessageIdL :: "unit decoder" where
  "DecodeMessageIdL = dbind GetByteString (\<lambda>s. on_headers (SetMessageIdL s))"

definition DecodeTidL :: "unit decoder" where
  "DecodeTidL = dbind GetByteString (\<lambda>s. on_headers (SetTidL s))"

definition DecodeReplyChargingIdL :: "unit decoder" where
  "DecodeReplyChargingIdL = dbind GetByteString (\<lambda>s. on_headers (SetReplyChargingIdL s))"

definition DecodeApplicationInfoL :: "unit decoder" where
  "DecodeApplicationInfoL = dbind GetByteString (\<lambda>s. on_headers (SetAuxApplicInfoL s))"

definition DecodeCancelReplaceIdL :: "unit decoder" where
  "DecodeCancelReplaceIdL = dbind GetByteString (\<lambda>s. on_headers (SetReplaceCancelIdL s))"

section \<open>Dates and times\<close>

text \<open>The rest of a date that is too long: its length byte, and that many bytes.\<close>

definition skip_long_date :: "unit decoder" where
  "skip_long_date = dbind peek (\<lambda>b. dskip (advance 1) (advance (unat b)))"

definition DecodeDateHeaderL :: "unit decoder" where
  "DecodeDateHeaderL = dbind GetVeryLongInteger (\<lambda>date.
     dskip (\<lambda>d. if iError d = KErrTooBig then skip_long_date d else Inr ((), d))
       (\<lambda>d. if at_end d then set_error KErrCorrupt d else on_headers (\<lambda>h. h\<lparr> iDate := date \<rparr>) d))"

definition time_header ::
  "(tint \<Rightarrow> mms_headers \<Rightarrow> mms_headers) \<Rightarrow> (tint64 \<Rightarrow> mms_headers \<Rightarrow> mms_headers) \<Rightarrow> unit decoder" where
  "time_header relative absolute = dbind GetRelativeOrAbsoluteTime (\<lambda>(b, date).
     dskip (if b = KMmsRelativeToken then on_headers (relative (ucast date)) else dreturn ())
       (if b = KMmsAbsoluteToken then on_headers (absolute date) else dreturn ()))"

definition DecodeDeliveryTimeL :: "unit decoder" where
  "DecodeDeliveryTimeL = time_header SetDeliveryTimeInterval SetDeliveryDate"

definition DecodeExpiryL :: "unit decoder" where
  "DecodeExpiryL = time_header SetExpiryInterval SetExpiryDate"

definition DecodeReplyChargingDeadlineL :: "unit decoder" where
  "DecodeReplyChargingDeadlineL = time_header SetReplyChargingInterval SetReplyChargingDate"

definition DecodePreviouslySentDateL :: "unit decoder" where
  "DecodePreviouslySentDateL = dskip GetValueLength (dbind GetLongOrShortInteger (\<lambda>size.
     dbind GetVeryLongInteger (\<lambda>date d.
       if iError d = KErrTooBig
       then dskip skip_long_date (dskip (set_error KErrNone) (leave_headers (InsertPreviouslySentDateL size 0))) d
       else leave_headers (InsertPreviouslySentDateL size date) d)))"

section \<open>Tokens\<close>

definition DecodeDeliveryReportHeader :: "unit decoder" where
  "DecodeDeliveryReportHeader = token_header (\<lambda>v h. h\<lparr> iDelivReport := v \<rparr>)"

definition class_of_text :: "decode_services \<Rightarrow> string8 \<Rightarrow> tint" where
  "class_of_text e s =
     (if compare_f (fold8 e) s (ascii ''Personal'') then KMmsMessageClassPersonal
      else if compare_f (fold8 e) s (ascii ''Advertisement'') then KMmsMessageClassAdvertisement
      else if compare_f (fold8 e) s (ascii ''Informational'') then KMmsMessageClassInformational
      else if compare_f (fold8 e) s (ascii ''Auto'') then KMmsMessageClassAuto
      else KMmsTestIllegalValue)"

definition DecodeMessageClass :: "decode_services \<Rightarrow> unit decoder" where
  "DecodeMessageClass e = dbind peek (\<lambda>b.
     if 0x80 \<le> b then dskip (advance 1) (on_headers (\<lambda>h. h\<lparr> iMsgClass := ucast b \<rparr>))
     else dbind GetByteString (\<lambda>s. on_headers (\<lambda>h. h\<lparr> iMsgClass := class_of_text e s \<rparr>)))"

definition DecodeMessageType :: "unit decoder" where
  "DecodeMessageType = token_header (\<lambda>v h. h\<lparr> iMsgType := v \<rparr>)"

definition DecodeMmsVersion :: "unit decoder" where
  "DecodeMmsVersion = dbind GetWellKnownFieldValueOrSkip (\<lambda>b.
     on_headers (\<lambda>h. h\<lparr> iVersion := ucast (b AND 0x7F) AND 0x00FF \<rparr>))"

definition DecodePriority :: "unit decoder" where
  "DecodePriority = token_header (\<lambda>v h. h\<lparr> iPriority := v \<rparr>)"

definition DecodeReadReply :: "unit decoder" where
  "DecodeReadReply = token_header (\<lambda>v h. h\<lparr> iReadReply := v \<rparr>)"

definition DecodeReportAllowed :: "unit decoder" where
  "DecodeReportAllowed = token_header (\<lambda>v h. h\<lparr> iReportAllowed := v \<rparr>)"

definition DecodeResponseStatusL :: "unit decoder" where
  "DecodeResponseStatusL d =
     (if iMsgType (iMmsHeaders d) \<noteq> KMmsMessageTypeMBoxDeleteConf
      then token_header (\<lambda>v h. h\<lparr> iResponseStatus := v \<rparr>) d
      else dskip GetValueLength (dbind GetLongOrShortInteger (\<lambda>size.
             dbind GetWellKnownFieldValueOrSkip (\<lambda>b.
               leave_headers (InsertDeleteStatusL size (ucast b))))) d)"

definition DecodeSenderVisibility :: "unit decoder" where
  "DecodeSenderVisibility = token_header (\<lambda>v h. h\<lparr> iSenderVisi := v \<rparr>)"

definition DecodeStatus :: "unit decoder" where
  "DecodeStatus = token_header (\<lambda>v h. h\<lparr> iStatus := v \<rparr>)"

definition DecodeReadStatus :: "unit decoder" where
  "DecodeReadStatus = token_header (\<lambda>v h. h\<lparr> iReadStatus := v \<rparr>)"

definition DecodeReplyCharging :: "unit decoder" where
  "DecodeReplyCharging = token_header (\<lambda>v h. h\<lparr> iReplyCharging := v \<rparr>)"

definition DecodeDistributionIndicator :: "unit decoder" where
  "DecodeDistributionIndicator = token_header (\<lambda>v h. h\<lparr> iDistributionIndicator := v \<rparr>)"

definition DecodeContentClass :: "unit decoder" where
  "DecodeContentClass = token_header (\<lambda>v h. h\<lparr> iContentClass := v \<rparr>)"

definition DecodeDrmContentHeader :: "unit decoder" where
  "DecodeDrmContentHeader = token_header (\<lambda>v h. h\<lparr> iDrmContent := v \<rparr>)"

definition DecodeAdaptationAllowed :: "unit decoder" where
  "DecodeAdaptationAllowed = token_header (\<lambda>v h. h\<lparr> iAdaptationAllowed := v \<rparr>)"

definition DecodeRecommendedRetrievalMode :: "unit decoder" where
  "DecodeRecommendedRetrievalMode = token_header (\<lambda>v h. h\<lparr> iRecommendedRetrievalMode := v \<rparr>)"

definition DecodeCancelStatus :: "unit decoder" where
  "DecodeCancelStatus = token_header (\<lambda>v h. h\<lparr> iCancelStatus := v \<rparr>)"

section \<open>Sizes and texts\<close>

definition DecodeMessageSize :: "unit decoder" where
  "DecodeMessageSize = dbind GetLongOrShortInteger (\<lambda>n. on_headers (\<lambda>h. h\<lparr> iMessageSize := n \<rparr>))"

definition DecodeReplyChargingSize :: "unit decoder" where
  "DecodeReplyChargingSize =
     dbind GetLongOrShortInteger (\<lambda>n. on_headers (\<lambda>h. h\<lparr> iReplyChargingSize := n \<rparr>))"

definition DecodeResponseTextL :: "decode_services \<Rightarrow> unit decoder" where
  "DecodeResponseTextL e d =
     (if iMsgType (iMmsHeaders d) \<noteq> KMmsMessageTypeMBoxDeleteConf
      then dbind (GetEncodedTextStringL e) (\<lambda>s. on_headers (SetResponseTextL s)) d
      else dskip GetValueLength (dbind GetLongOrShortInteger (\<lambda>index.
             dbind (GetEncodedTextStringL e) (\<lambda>s.
               leave_headers (InsertDeleteResponseTextL index s)))) d)"

definition DecodeSubjectL :: "decode_services \<Rightarrow> unit decoder" where
  "DecodeSubjectL e = dbind (GetEncodedTextStringL e) (\<lambda>s. on_headers (SetSubjectL s))"

definition DecodeRecommendedRetrievalModeTextL :: "decode_services \<Rightarrow> unit decoder" where
  "DecodeRecommendedRetrievalModeTextL e =
     dbind (GetEncodedTextStringL e) (\<lambda>s. on_headers (SetRecommendedRetrievalModeTextL s))"

definition DecodeExtNotifTextL :: "decode_services \<Rightarrow> unit decoder" where
  "DecodeExtNotifTextL e =
     dbind GetUtf8String (\<lambda>s. on_headers (SetExtendedNotificationL (snd (from_utf8 e s))))"

text \<open>\<open>( buffer->Des() )[0]\<close> panics when the string is empty.\<close>

definition DecodeExtNotifEolL :: "unit decoder" where
  "DecodeExtNotifEolL = dbind (GetSimpleTextStringL False) (\<lambda>s d.
     if s = [] then Inl KPanicIndex
     else on_headers (\<lambda>h. h\<lparr> iExtensionStatus := ucast (hd s) \<rparr>) d)"

section \<open>Message boxes\<close>

definition DecodeStoreHeaderL :: "unit decoder" where
  "DecodeStoreHeaderL = token_header (\<lambda>v. on_message_box (\<lambda>m. m\<lparr> iMmsStore := v \<rparr>))"

text \<open>\<open>MMStateArray().InsertInOrder\<close>, whose error for a duplicate is not looked at.\<close>

definition insert_state :: "tint \<Rightarrow> mmbox_view_headers \<Rightarrow> mmbox_view_headers" where
  "insert_state v m = m\<lparr> iMmsMMStates :=
     (case insert_in_order id v (iMmsMMStates m) of Inl _ \<Rightarrow> iMmsMMStates m | Inr xs \<Rightarrow> xs) \<rparr>"

definition DecodeMMBoxStateL :: "unit decoder" where
  "DecodeMMBoxStateL = token_header (\<lambda>v h.
     if iMsgType h \<noteq> KMmsMessageTypeMboxViewReq \<and> iMsgType h \<noteq> KMmsMessageTypeMboxViewConf
     then on_message_box (\<lambda>m. m\<lparr> iMmsMMState := v \<rparr>) h
     else on_view_box (insert_state v) h)"

definition GetKeywordL :: "decode_services \<Rightarrow> unit decoder" where
  "GetKeywordL e = dskip GetValueLength (dbind GetWellKnownFieldValueOrSkip (\<lambda>b.
     dbind (GetEncodedTextStringL e) (\<lambda>s.
       on_headers (on_message_box (mh_append_keyword (fold16 e) (ucast b) s)))))"

definition DecodeMMBoxStoreStatusL :: "unit decoder" where
  "DecodeMMBoxStoreStatusL = token_header (\<lambda>v. on_message_box (\<lambda>m. m\<lparr> iMmsStoreStatus := v \<rparr>))"

definition DecodeMMBoxStoreStatusTextL :: "decode_services \<Rightarrow> unit decoder" where
  "DecodeMMBoxStoreStatusTextL e = dbind (GetEncodedTextStringL e) (\<lambda>s.
     on_headers (on_message_box (mh_set_store_status_text s)))"

definition DecodeStoredInMMBoxHeaderL :: "unit decoder" where
  "DecodeStoredInMMBoxHeaderL = token_header (\<lambda>v. on_message_box (\<lambda>m. m\<lparr> iMmsStored := v \<rparr>))"

definition DecodeAttributesHeaderL :: "unit decoder" where
  "DecodeAttributesHeaderL =
     token_header (\<lambda>v. on_view_box (\<lambda>m. m\<lparr> iAttributes := iAttributes m @ [v] \<rparr>))"

definition DecodeTotalsL :: "unit decoder" where
  "DecodeTotalsL = token_header (\<lambda>v. on_view_box (\<lambda>m. m\<lparr> iMmsTotals := v \<rparr>))"

definition DecodeMboxTotalsL :: "unit decoder" where
  "DecodeMboxTotalsL = dskip GetValueLength (dbind GetWellKnownFieldValueOrSkip (\<lambda>b.
     dbind GetLongOrShortInteger (\<lambda>size.
       if b = KMmsMessageCountToken then on_headers (on_view_box (\<lambda>m. m\<lparr> iMMBoxTotalNumber := size \<rparr>))
       else if b = KMmsMessageSizeToken then on_headers (on_view_box (\<lambda>m. m\<lparr> iMMBoxTotalSize := size \<rparr>))
       else dreturn ())))"

definition DecodeQuotaHeaderL :: "unit decoder" where
  "DecodeQuotaHeaderL = token_header (\<lambda>v. on_view_box (\<lambda>m. m\<lparr> iMmsQuotas := v \<rparr>))"

definition DecodeMBoxQuotasL :: "unit decoder" where
  "DecodeMBoxQuotasL = dskip GetValueLength (dbind GetWellKnownFieldValueOrSkip (\<lambda>b.
     dbind GetLongOrShortInteger (\<lambda>size.
       if b = KMmsMessageCountToken then on_headers (on_view_box (\<lambda>m. m\<lparr> iMMBoxQuotaNumber := size \<rparr>))
       else if b = KMmsMessageSizeToken then on_headers (on_view_box (\<lambda>m. m\<lparr> iMMBoxQuotaSize := size \<rparr>))
       else dreturn ())))"

definition DecodeMessageCountL :: "unit decoder" where
  "DecodeMessageCountL =
     dbind GetLongOrShortInteger (\<lambda>n. on_headers (on_view_box (\<lambda>m. m\<lparr> iMmsMessageCount := n \<rparr>)))"

definition DecodeStartInMMBoxViewL :: "unit decoder" where
  "DecodeStartInMMBoxViewL =
     dbind GetLongOrShortInteger (\<lambda>n. on_headers (on_view_box (\<lambda>m. m\<lparr> iMmsStart := n \<rparr>)))"

definition DecodeMessageLimitL :: "unit decoder" where
  "DecodeMessageLimitL =
     dbind GetLongOrShortInteger (\<lambda>n. on_headers (on_view_box (\<lambda>m. m\<lparr> iMmsLimit := n \<rparr>)))"

section \<open>The element descriptor\<close>

definition descriptor_param :: "unit decoder" where
  "descriptor_param = dbind GetWellKnownFieldValueOrSkip (\<lambda>b.
     if b \<noteq> KMmsAssignedTopLevelContentType then SkipFieldValue
     else dbind GetContentTypeL (\<lambda>s. on_headers (on_descriptor (ed_set_content_type s))))"

lemma mono_descriptor_param: "monotone_op descriptor_param"
  unfolding descriptor_param_def by (intro mono_op total_mono [OF total_content_type])

lemma strict_well_known: "strict_op GetWellKnownFieldValueOrSkip"
  unfolding GetWellKnownFieldValueOrSkip_def
  by (intro strict_peek strict_if strict_skip [OF strict_advance] strict_skip [OF strict_skip_value]
      mono_op) simp

lemma strict_descriptor_param: "strict_op descriptor_param"
  unfolding descriptor_param_def
  by (intro strict_bind [OF strict_well_known] mono_op total_mono [OF total_content_type])

text \<open>The end position is inside the message, so the loop condition of the code is this one.\<close>

function descriptor_params :: "nat \<Rightarrow> unit decoder" where
  "descriptor_params endPosition d =
     (if iPosition d < endPosition \<and> \<not> at_end d then
        (case descriptor_param d of
           Inl x \<Rightarrow> Inl x | Inr (_, d1) \<Rightarrow> descriptor_params endPosition d1)
      else Inr ((), d))"
  by pat_completeness auto
termination
  by (relation "measure (\<lambda>(_, d). iLength d - iPosition d)")
    (use strict_opD [OF strict_descriptor_param] monotone_opD [OF mono_descriptor_param] in
      \<open>fastforce simp: stays_def at_end_def\<close>)+

declare descriptor_params.simps [simp del]

definition DecodeElementDescriptorL :: "unit decoder" where
  "DecodeElementDescriptorL = dbind GetValueLength (\<lambda>n d.
     (let size = (if iLength d - iPosition d < n then iLength d - iPosition d else n);
          endPosition = iPosition d + size
      in dbind (GetSimpleTextStringL False) (\<lambda>s.
           dskip (on_headers (on_descriptor (ed_set_content_reference s)))
             (dskip (descriptor_params endPosition) (set_position endPosition))) d))"

end
