(* ===== verification/Mms_Decode_Headers.thy ===== *)
theory Mms_Decode_Headers
  imports Mms_Decode
begin

text \<open>
  The names of the headers, the dispatch on them, and the loop of \<open>CMmsDecode\<close> that decodes all
  headers of a message: \<open>GetHeaderName\<close>, \<open>DecodeOneHeaderL\<close> and \<open>DecodeHeadersL\<close>
  (mmsengine/mmscodec/src/mmsdecode.cpp). The loop is a partial function, and \<open>None\<close> would be a
  loop that never returns; the theory of the safe decoder proves that it always returns.
\<close>

section \<open>Header names\<close>

definition KMmsExtensionHeaderLookup :: "(string8 \<times> byte) list" where
  "KMmsExtensionHeaderLookup =
     [(ascii ''X-Mms-Vodafone-Notif-Text'', KMmsAssignedExtendedNotificationText),
      (ascii ''X-Mms-Vodafone-Notif-EOL'', KMmsAssignedExtendedNotificationEOL)]"

fun lookup_header :: "decode_services \<Rightarrow> (string8 \<times> byte) list \<Rightarrow> string8 \<Rightarrow> byte option" where
  "lookup_header e [] s = None"
| "lookup_header e ((n, v) # tab) s =
     (if compare_f (fold8 e) n s then Some v else lookup_header e tab s)"

text \<open>\<open>None\<close> is the \<open>-1\<close> of the code. The unsigned test \<open>iPosition > iLength - KMmsMinHeaderLength\<close>
  is reached with \<open>iLength\<close> at least 2.\<close>

definition GetHeaderName :: "decode_services \<Rightarrow> byte option decoder" where
  "GetHeaderName e d =
     (if iLength d < iPosition d + 2 then dskip (set_error KErrCorrupt) (dreturn None) d
      else dbind peek (\<lambda>b.
        if 0x80 \<le> b then dskip (advance 1) (dreturn (Some b))
        else dbind GetByteString (\<lambda>s d1.
          case lookup_header e KMmsExtensionHeaderLookup s of
            Some v \<Rightarrow> Inr (Some v, d1)
          | None \<Rightarrow>
              if iPosition d1 < iLength d1 then dskip SkipFieldValue (dreturn None) d1
              else dskip (set_error KErrCorrupt) (dreturn None) d1)) d)"

section \<open>The dispatch\<close>

definition decode_value :: "decode_services \<Rightarrow> byte \<Rightarrow> unit decoder" where
  "decode_value e header =
     (if header = KMmsAssignedFrom then DecodeFromHeaderL e
      else if header = KMmsAssignedTo then DecodeToL e
      else if header = KMmsAssignedCc then DecodeCcL e
      else if header = KMmsAssignedBcc then DecodeBccL e
      else if header = KMmsAssignedContentLocation then DecodeContentLocationHeaderL
      else if header = KMmsAssignedDate then DecodeDateHeaderL
      else if header = KMmsAssignedDeliveryReport then DecodeDeliveryReportHeader
      else if header = KMmsAssignedDeliveryTime then DecodeDeliveryTimeL
      else if header = KMmsAssignedExpiry then DecodeExpiryL
      else if header = KMmsAssignedMessageClass then DecodeMessageClass e
      else if header = KMmsAssignedMessageId then DecodeMessageIdL
      else if header = KMmsAssignedMessageType then DecodeMessageType
      else if header = KMmsAssignedMmsVersion then DecodeMmsVersion
      else if header = KMmsAssignedMessageSize then DecodeMessageSize
      else if header = KMmsAssignedPriority then DecodePriority
      else if header = KMmsAssignedReadReply then DecodeReadReply
      else if header = KMmsAssignedReportAllowed then DecodeReportAllowed
      else if header = KMmsAssignedResponseStatus \<or> header = KMmsAssignedRetrieveStatus
        then DecodeResponseStatusL
      else if header = KMmsAssignedResponseText \<or> header = KMmsAssignedRetrieveText
        \<or> header = KMmsAssignedStatusText then DecodeResponseTextL e
      else if header = KMmsAssignedSenderVisibility then DecodeSenderVisibility
      else if header = KMmsAssignedStatus then DecodeStatus
      else if header = KMmsAssignedSubject then DecodeSubjectL e
      else if header = KMmsAssignedTID then DecodeTidL
      else if header = KMmsAssignedContentType then DecodeContentTypeL e
      else if header = KMmsAssignedReadStatus then DecodeReadStatus
      else if header = KMmsAssignedReplyCharging then DecodeReplyCharging
      else if header = KMmsAssignedReplyChargingDeadline then DecodeReplyChargingDeadlineL
      else if header = KMmsAssignedReplyChargingID then DecodeReplyChargingIdL
      else if header = KMmsAssignedReplyChargingSize then DecodeReplyChargingSize
      else if header = KMmsAssignedPreviouslySentBy then DecodePreviousSenderL e
      else if header = KMmsAssignedPreviouslySentDate then DecodePreviouslySentDateL
      else if header = KMmsAssignedMmsStore then DecodeStoreHeaderL
      else if header = KMmsAssignedMMState then DecodeMMBoxStateL
      else if header = KMmsAssignedMMFlags then GetKeywordL e
      else if header = KMmsAssignedStoreStatus then DecodeMMBoxStoreStatusL
      else if header = KMmsAssignedStoreStatusText then DecodeMMBoxStoreStatusTextL e
      else if header = KMmsAssignedStored then DecodeStoredInMMBoxHeaderL
      else if header = KMmsAssignedAttributes then DecodeAttributesHeaderL
      else if header = KMmsAssignedTotals then DecodeTotalsL
      else if header = KMmsAssignedMboxTotals then DecodeMboxTotalsL
      else if header = KMmsAssignedQuotas then DecodeQuotaHeaderL
      else if header = KMmsAssignedMboxQuotas then DecodeMBoxQuotasL
      else if header = KMmsAssignedMessageCount then DecodeMessageCountL
      else if header = KMmsAssignedStart then DecodeStartInMMBoxViewL
      else if header = KMmsAssignedDistributionIndicator then DecodeDistributionIndicator
      else if header = KMmsAssignedElementDescriptor then DecodeElementDescriptorL
      else if header = KMmsAssignedLimit then DecodeMessageLimitL
      else if header = KMmsAssignedExtendedNotificationText then DecodeExtNotifTextL e
      else if header = KMmsAssignedExtendedNotificationEOL then DecodeExtNotifEolL
      else if header = KMmsAssignedContentClass then DecodeContentClass
      else if header = KMmsAssignedDrmContent then DecodeDrmContentHeader
      else if header = KMmsAssignedAdaptationAllowed then DecodeAdaptationAllowed
      else if header = KMmsAssignedApplicId then DecodeApplicationIdL
      else if header = KMmsAssignedReplyApplicId then DecodeReplyApplicationIdL
      else if header = KMmsAssignedAuxApplicInfo then DecodeApplicationInfoL
      else if header = KMmsAssignedRecommendedRetrievalMode then DecodeRecommendedRetrievalMode
      else if header = KMmsAssignedRecommendedRetrievalModeText
        then DecodeRecommendedRetrievalModeTextL e
      else if header = KMmsAssignedReplaceId \<or> header = KMmsAssignedCancelId
        then DecodeCancelReplaceIdL
      else if header = KMmsAssignedCancelStatus then DecodeCancelStatus
      else SkipFieldValue)"

definition DecodeOneHeaderL :: "decode_services \<Rightarrow> unit decoder" where
  "DecodeOneHeaderL e = dbind (GetHeaderName e) (\<lambda>header.
     case header of None \<Rightarrow> dreturn () | Some h \<Rightarrow> decode_value e h)"

section \<open>The loop\<close>

partial_function (option) headers_loop :: "decode_services \<Rightarrow> mms_decode \<Rightarrow> mms_decode leaving option" where
  [code]: "headers_loop e d =
     (if iPosition d + 2 \<le> iLength d \<and> iError d \<noteq> KErrCorrupt \<and> \<not> iLastHeader d then
        (case DecodeOneHeaderL e d of
           Inl x \<Rightarrow> Some (Inl x) | Inr (_, d1) \<Rightarrow> headers_loop e d1)
      else Some (Inr d))"

text \<open>\<open>Reset\<close>, then the assignments at the start of the exported \<open>DecodeHeadersL\<close>. \<open>now\<close> is the
  time of the call.\<close>

definition KMmsUsAscii :: tint where "KMmsUsAscii = 3"

definition decode_reset :: "mms_decode \<Rightarrow> mms_decode" where
  "decode_reset d = d\<lparr> iError := KErrNone, iMimeCharset := 0, iContentTypeParams := [],
     iPosition := 0, iDataStart := 0, iNumberOfAttachments := 0, iLastHeader := False,
     iFakeSubject := 0, iCharacterSet := KMmsUsAscii, dMultipartType := 0, iRootContentId := [],
     iUseForSubject := False, iPlainTexts := 0, iDecodingStage := EMmsNotApplicable \<rparr>"

definition start_decode :: "byte list \<Rightarrow> nat \<Rightarrow> nat \<Rightarrow> tint64 \<Rightarrow> mms_headers \<Rightarrow> mms_decode \<Rightarrow> mms_decode" where
  "start_decode buf aStartPosition aLength now aMmsHeaders d =
     (decode_reset d)\<lparr> iDecodeBuffer := buf, iPosition := aStartPosition,
       iLength := (if aLength = 0 then length buf else aLength + aStartPosition),
       iMmsHeaders := (headers_reset aMmsHeaders)\<lparr> iReceivingTime := now \<rparr> \<rparr>"

text \<open>The end of \<open>DecodeHeadersL\<close>: the headers, the number of attachments and the start of the
  data; an error that is still set makes the function leave.\<close>

definition finish_decode :: "mms_decode \<Rightarrow> (mms_headers \<times> tint \<times> nat) leaving" where
  "finish_decode d =
     (let n = (if length (iDecodeBuffer d) \<le> iPosition d \<or>
                  iMsgType (iMmsHeaders d) = KMmsMessageTypeMboxViewConf \<and>
                  iMultipartType (iMmsHeaders d) = 0
               then 0 else iNumberOfAttachments d)
      in if iError d = KErrNone then Inr (iMmsHeaders d, n, iPosition d) else Inl (iError d))"

definition DecodeHeadersL ::
  "decode_services \<Rightarrow> byte list \<Rightarrow> nat \<Rightarrow> nat \<Rightarrow> tint64 \<Rightarrow> mms_headers \<Rightarrow> mms_decode \<Rightarrow>
   (mms_headers \<times> tint \<times> nat) leaving option" where
  "DecodeHeadersL e buf aStartPosition aLength now aMmsHeaders d0 =
     (let d = start_decode buf aStartPosition aLength now aMmsHeaders d0
      in if iLength d < 2 then Some (Inl KErrCorrupt)
         else map_option (\<lambda>r. bind_l r finish_decode) (headers_loop e d))"

end
