(* ===== verification/Mms_Decode_Safe.thy ===== *)
theory Mms_Decode_Safe
  imports Mms_Decode_Headers Mms_Headers_Laws
begin

text \<open>
  The decoder on arbitrary input: every header moves the position on, so the loops end; and which
  headers can be decoded without reading outside the buffer.
\<close>

section \<open>No handler moves back\<close>

text \<open>The value of a well-known header has at least one byte.\<close>

definition keeps_op :: "'a decoder \<Rightarrow> bool" where
  "keeps_op m \<longleftrightarrow> (\<forall>d x d1. dec_ok d \<longrightarrow> \<not> at_end d \<longrightarrow> m d = Inr (x, d1) \<longrightarrow> stays d d1)"

lemma keeps_opD: "keeps_op m \<Longrightarrow> dec_ok d \<Longrightarrow> \<not> at_end d \<Longrightarrow> m d = Inr (x, d1) \<Longrightarrow> stays d d1"
  by (simp add: keeps_op_def)

lemma keeps_mono: "monotone_op m \<Longrightarrow> keeps_op m"
  by (simp add: keeps_op_def monotone_op_def)

lemma keeps_value: "value_op m \<Longrightarrow> keeps_op m"
  unfolding keeps_op_def at_end_def using value_opD by fastforce

lemma keeps_bind: "keeps_op m \<Longrightarrow> (\<And>x. monotone_op (f x)) \<Longrightarrow> keeps_op (dbind m f)"
  unfolding keeps_op_def
  by (auto simp: dbind_def split: sum.splits) (meson monotone_opD stays_trans)

lemma keeps_if: "keeps_op m \<Longrightarrow> keeps_op n \<Longrightarrow> keeps_op (if c then m else n)"
  by simp

lemma mono_leave [mono_op]: "monotone_op (leave_headers f)"
  by (auto simp: monotone_op_def leave_headers_def stays_def split: sum.splits)

lemma mono_panic [mono_op]: "monotone_op (\<lambda>d. Inl x)"
  by (simp add: monotone_op_def)

lemma mono_option: "monotone_op (f None) \<Longrightarrow> (\<And>v. monotone_op (f (Some v))) \<Longrightarrow> monotone_op (f x)"
  by (cases x) simp_all

lemma mono_token [mono_op]: "monotone_op (token_header f)"
  unfolding token_header_def by (intro mono_op)

lemmas token_handlers = DecodeDeliveryReportHeader_def DecodeMessageType_def DecodePriority_def
  DecodeReadReply_def DecodeReportAllowed_def DecodeSenderVisibility_def DecodeStatus_def
  DecodeReadStatus_def DecodeReplyCharging_def DecodeDistributionIndicator_def
  DecodeContentClass_def DecodeDrmContentHeader_def DecodeAdaptationAllowed_def
  DecodeRecommendedRetrievalMode_def DecodeCancelStatus_def DecodeStoreHeaderL_def
  DecodeMMBoxStateL_def DecodeMMBoxStoreStatusL_def DecodeStoredInMMBoxHeaderL_def
  DecodeAttributesHeaderL_def DecodeTotalsL_def DecodeQuotaHeaderL_def

lemmas total_handlers = DecodeToL_def DecodeCcL_def DecodeBccL_def DecodePreviousSenderL_def
  DecodeMessageIdL_def DecodeTidL_def DecodeReplyChargingIdL_def DecodeApplicationInfoL_def
  DecodeCancelReplaceIdL_def DecodeMessageSize_def DecodeReplyChargingSize_def DecodeSubjectL_def
  DecodeRecommendedRetrievalModeTextL_def DecodeMMBoxStoreStatusTextL_def DecodeMessageCountL_def
  DecodeStartInMMBoxViewL_def DecodeMessageLimitL_def DecodeApplicationIdL_def
  DecodeReplyApplicationIdL_def

lemma mono_handlers [mono_op]:
  "monotone_op (DecodeToL e)" "monotone_op (DecodeCcL e)" "monotone_op (DecodeBccL e)"
  "monotone_op (DecodePreviousSenderL e)" "monotone_op DecodeMessageIdL" "monotone_op DecodeTidL"
  "monotone_op DecodeReplyChargingIdL" "monotone_op DecodeApplicationInfoL"
  "monotone_op DecodeCancelReplaceIdL" "monotone_op DecodeMessageSize"
  "monotone_op DecodeReplyChargingSize" "monotone_op (DecodeSubjectL e)"
  "monotone_op (DecodeRecommendedRetrievalModeTextL e)"
  "monotone_op (DecodeMMBoxStoreStatusTextL e)" "monotone_op DecodeMessageCountL"
  "monotone_op DecodeStartInMMBoxViewL" "monotone_op DecodeMessageLimitL"
  "monotone_op DecodeApplicationIdL" "monotone_op DecodeReplyApplicationIdL"
  unfolding total_handlers by (intro mono_op)+

lemma mono_handlers2 [mono_op]:
  "monotone_op DecodeContentLocationHeaderL" "monotone_op DecodeDateHeaderL"
  "monotone_op DecodePreviouslySentDateL" "monotone_op (DecodeMessageClass e)"
  "monotone_op DecodeMmsVersion" "monotone_op DecodeResponseStatusL"
  "monotone_op (DecodeResponseTextL e)" "monotone_op (DecodeExtNotifTextL e)"
  "monotone_op DecodeExtNotifEolL" "monotone_op (GetKeywordL e)" "monotone_op DecodeMboxTotalsL"
  "monotone_op DecodeMBoxQuotasL"
  unfolding DecodeContentLocationHeaderL_def [abs_def] DecodeDateHeaderL_def skip_long_date_def
    DecodePreviouslySentDateL_def DecodeMessageClass_def DecodeMmsVersion_def
    DecodeResponseStatusL_def [abs_def] DecodeResponseTextL_def [abs_def] DecodeExtNotifTextL_def
    DecodeExtNotifEolL_def GetKeywordL_def DecodeMboxTotalsL_def DecodeMBoxQuotasL_def
  by (intro mono_op mono_guard)+

lemma keeps_time: "keeps_op (time_header f g)"
proof -
  have "monotone_op (case x of (b, date) \<Rightarrow>
     dskip (if b = KMmsRelativeToken then on_headers (f (ucast date)) else dreturn ())
       (if b = KMmsAbsoluteToken then on_headers (g date) else dreturn ()))" for x
    by (cases x) (simp only: prod.case, intro mono_op)
  then show ?thesis
    unfolding time_header_def by (intro keeps_bind keeps_value value_time)
qed

lemma content_header_returns:
  assumes "dec_ok d" "\<not> at_end d"
  shows "from_start d (DecodeContentTypeL e d)"
  using value_multipart [OF assms(2,1), of e]
  by (auto simp: DecodeContentTypeL_def from_start_def stays_def)

lemma keeps_from_start:
  assumes "\<And>d. dec_ok d \<Longrightarrow> \<not> at_end d \<Longrightarrow> from_start d (m d)"
  shows "keeps_op m"
  unfolding keeps_op_def
proof (intro allI impI)
  fix d x d1 assume "dec_ok d" "\<not> at_end d" "m d = Inr (x, d1)"
  with assms [of d] show "stays d d1" by (simp add: from_start_def)
qed

lemma keeps_content_type: "keeps_op (DecodeContentTypeL e)"
  by (rule keeps_from_start) (rule content_header_returns)

lemma total_descriptor_params [total_rules]: "total_op (descriptor_params p)"
proof -
  have run: "\<exists>d1. descriptor_param d = Inr ((), d1) \<and> stays d d1" if "dec_ok d" "\<not> at_end d" for d
  proof -
    from total_well_known [OF that] obtain b d1 where
      g: "GetWellKnownFieldValueOrSkip d = Inr (b, d1)" by auto
    note s = monotone_opD [OF mono_well_known g]
    have "total_op (if b \<noteq> KMmsAssignedTopLevelContentType then SkipFieldValue
        else dbind GetContentTypeL (\<lambda>s. on_headers (on_descriptor (ed_set_content_type s))))"
      by (intro total_rules)
    from total_opD [OF this stays_dec_ok [OF s that(1)]] g s show ?thesis
      by (auto simp: descriptor_param_def dest: stays_trans)
  qed
  have "dec_ok d \<Longrightarrow> \<exists>x d1. descriptor_params p d = Inr (x, d1)" for d
  proof (induction p d rule: descriptor_params.induct)
    case (1 p d)
    show ?case
    proof (cases "iPosition d < p \<and> \<not> at_end d")
      case True
      with run [OF 1(2)] obtain d1 where r: "descriptor_param d = Inr ((), d1)" and s: "stays d d1" by auto
      from 1(1) [OF True r refl stays_dec_ok [OF s 1(2)]] True r show ?thesis
        by (simp add: descriptor_params.simps [of p d])
    qed (auto simp: descriptor_params.simps [of p d])
  qed
  moreover have "descriptor_params p d = Inr (x, d1) \<Longrightarrow> stays d d1" for d x d1
  proof (induction p d rule: descriptor_params.induct)
    case (1 p d)
    then show ?case
      using monotone_opD [OF mono_descriptor_param, of d]
      by (auto simp: descriptor_params.simps [of p d] split: if_splits sum.splits intro: stays_trans)
  qed
  ultimately show ?thesis by (intro total_opI monotone_opI)
qed

lemma dskip_assoc: "dskip a (dskip b c) = dskip (dskip a b) c"
  by (simp add: dskip_def dbind_assoc)

lemma descriptor_returns:
  assumes "dec_ok d" "\<not> at_end d"
  shows "from_start d (DecodeElementDescriptorL d)"
proof -
  from total_opD [OF total_value_length assms(1)] obtain n d1 where
    v: "GetValueLength d = Inr (n, d1)" "stays d d1" by auto
  define p where "p = iPosition d1 + (if iLength d1 - iPosition d1 < n then iLength d1 - iPosition d1 else n)"
  note ok1 = stays_dec_ok [OF v(2) assms(1)]
  from total_opD [OF total_simple_text ok1] obtain s d2 where
    s: "GetSimpleTextStringL False d1 = Inr (s, d2)" "stays d1 d2" by blast
  have "total_op (dskip (on_headers (on_descriptor (ed_set_content_reference s))) (descriptor_params p))"
    by (intro total_rules)
  from total_opD [OF this stays_dec_ok [OF s(2) ok1]] obtain d3 where
    r: "dskip (on_headers (on_descriptor (ed_set_content_reference s))) (descriptor_params p) d2 = Inr ((), d3)"
    "stays d2 d3" by auto
  have "DecodeElementDescriptorL d = Inr ((), d3\<lparr>iPosition := p\<rparr>)"
    by (simp add: DecodeElementDescriptorL_def Let_def p_def [symmetric] v(1) s(1) dskip_assoc r(1))
      (simp add: set_position_def)
  moreover have "stays d (d3\<lparr>iPosition := p\<rparr>)"
    using v(2) s(2) r(2) by (auto simp: stays_def p_def)
  ultimately show ?thesis by (auto simp: from_start_def)
qed

lemma keeps_descriptor: "keeps_op DecodeElementDescriptorL"
  by (rule keeps_from_start) (rule descriptor_returns)

lemma keeps_decode_value: "keeps_op (decode_value e h)"
  unfolding decode_value_def token_handlers DecodeDeliveryTimeL_def DecodeExpiryL_def
    DecodeReplyChargingDeadlineL_def DecodeFromHeaderL_def
  by (intro keeps_if keeps_time keeps_content_type keeps_descriptor keeps_bind [OF keeps_value [OF value_from]])
    (rule keeps_mono mono_op)+

section \<open>Termination\<close>

lemma mono_header_name: "monotone_op (GetHeaderName e)"
proof -
  have "monotone_op (\<lambda>d1. case v of
            Some v \<Rightarrow> Inr (Some v, d1)
          | None \<Rightarrow>
              if iPosition d1 < iLength d1 then dskip SkipFieldValue (dreturn None) d1
              else dskip (set_error KErrCorrupt) (dreturn None) d1)" for v :: "byte option"
    by (cases v) (simp_all only: option.case, (intro mono_op mono_guard)+)
  then show ?thesis
    unfolding GetHeaderName_def [abs_def]
    by (intro mono_guard mono_bind mono_if mono_skip mono_basic mono_byte_string)
qed

lemma lookup_header_values:
  "lookup_header e KMmsExtensionHeaderLookup s = Some v \<Longrightarrow>
   v = KMmsAssignedExtendedNotificationText \<or> v = KMmsAssignedExtendedNotificationEOL"
  by (auto simp: KMmsExtensionHeaderLookup_def split: if_splits)

lemma header_name_moves:
  assumes "GetHeaderName e d = Inr (h, d1)" "iPosition d + 2 \<le> iLength d"
  shows "iPosition d < iPosition d1" (is ?moves)
    and "h = Some v \<Longrightarrow> v = KMmsAssignedExtendedNotificationText \<or> v = KMmsAssignedExtendedNotificationEOL
      \<or> \<not> at_end d1" (is "_ \<Longrightarrow> ?value")
proof -
  from assms obtain b where b: "peek d = Inr (b, d)"
    by (auto simp: GetHeaderName_def dbind_def peek_def split: sum.splits if_splits)
  have len: "iLength d1 = iLength d"
    using monotone_opD [OF mono_header_name assms(1)] by (simp add: stays_def)
  have "?moves \<and> (h = Some v \<longrightarrow> ?value)"
  proof (cases "0x80 \<le> b")
    case True
    with assms b show ?thesis
      by (auto simp: GetHeaderName_def dskip_def dbind_def advance_def dreturn_def at_end_def)
  next
    case False
    with assms b obtain s d2 where g: "GetByteString d = Inr (s, d2)"
      by (auto simp: GetHeaderName_def dbind_def split: sum.splits)
    have "iPosition d < iPosition d2"
      by (rule strict_opD [OF strict_byte_string g]) (use assms(2) in \<open>simp add: at_end_def\<close>)
    moreover have "SkipFieldValue d2 = Inr ((), d3) \<Longrightarrow> iPosition d2 \<le> iPosition d3" for d3
      using monotone_opD [OF mono_skip_value] by (simp add: stays_def)
    ultimately show ?thesis
      using assms b False g lookup_header_values [of e s v]
      by (auto simp: GetHeaderName_def dskip_def dbind_def set_error_def dreturn_def
          split: option.splits if_splits sum.splits)
  qed
  then show ?moves "h = Some v \<Longrightarrow> ?value" by blast+
qed

lemma decode_extension:
  "decode_value e KMmsAssignedExtendedNotificationText = DecodeExtNotifTextL e"
  "decode_value e KMmsAssignedExtendedNotificationEOL = DecodeExtNotifEolL"
  by (simp_all add: decode_value_def KMmsAssignedContentType_def)

lemma decode_value_stays:
  assumes "dec_ok d" "decode_value e h d = Inr ((), d1)"
    and "h = KMmsAssignedExtendedNotificationText \<or> h = KMmsAssignedExtendedNotificationEOL \<or> \<not> at_end d"
  shows "stays d d1"
proof (cases "at_end d")
  case False
  from keeps_opD [OF keeps_decode_value assms(1) False assms(2)] show ?thesis .
next
  case True
  with assms(3) have "h = KMmsAssignedExtendedNotificationText \<or> h = KMmsAssignedExtendedNotificationEOL"
    by simp
  then show ?thesis
  proof
    assume "h = KMmsAssignedExtendedNotificationText"
    with assms(2) show ?thesis
      using monotone_opD [OF mono_handlers2(8)] decode_extension(1) by metis
  next
    assume "h = KMmsAssignedExtendedNotificationEOL"
    with assms(2) show ?thesis
      using monotone_opD [OF mono_handlers2(9)] decode_extension(2) by metis
  qed
qed

lemma one_header_moves:
  assumes "dec_ok d" "iPosition d + 2 \<le> iLength d" "DecodeOneHeaderL e d = Inr ((), d1)"
  shows "stays d d1 \<and> iPosition d < iPosition d1"
proof -
  from assms(3) obtain h d2 where n: "GetHeaderName e d = Inr (h, d2)"
    and v: "(case h of None \<Rightarrow> dreturn () | Some h \<Rightarrow> decode_value e h) d2 = Inr ((), d1)"
    by (auto simp: DecodeOneHeaderL_def dbind_def split: sum.splits)
  note s = monotone_opD [OF mono_header_name n]
  note m = header_name_moves [OF n assms(2)]
  have "stays d2 d1"
    using v m(2) decode_value_stays [OF stays_dec_ok [OF s assms(1)]]
    by (cases h) (auto simp: dreturn_def)
  with s m(1) show ?thesis by (auto simp: stays_def)
qed

text \<open>The loop ends on every buffer, and what it leaves behind is behind its start.\<close>

lemma headers_loop_ends:
  assumes "dec_ok d"
  shows "\<exists>r. headers_loop e d = Some r \<and> (\<forall>d1. r = Inr d1 \<longrightarrow> stays d d1)"
  using assms
proof (induction "iLength d - iPosition d" arbitrary: d rule: less_induct)
  case less
  show ?case
  proof (cases "iPosition d + 2 \<le> iLength d \<and> iError d \<noteq> KErrCorrupt \<and> \<not> iLastHeader d")
    case True
    show ?thesis
    proof (cases "DecodeOneHeaderL e d")
      case (Inl x)
      with True show ?thesis by (simp add: headers_loop.simps [of e d])
    next
      case (Inr p)
      then obtain d1 where d1: "DecodeOneHeaderL e d = Inr ((), d1)" by (cases p) auto
      from one_header_moves [OF less.prems _ d1] True
      have m: "stays d d1" "iPosition d < iPosition d1" by auto
      from m True have "iLength d1 - iPosition d1 < iLength d - iPosition d"
        by (auto simp: stays_def)
      from less.hyps [OF this stays_dec_ok [OF m(1) less.prems]] True d1 m(1) show ?thesis
        by (auto simp: headers_loop.simps [of e d] intro: stays_trans)
    qed
  qed (auto simp: headers_loop.simps [of e d])
qed

lemma decode_headers_ends:
  assumes "aStartPosition + aLength \<le> length buf"
  shows "\<exists>r. DecodeHeadersL e buf aStartPosition aLength now h d0 = Some r"
proof -
  let ?d = "start_decode buf aStartPosition aLength now h d0"
  have "dec_ok ?d" using assms by (simp add: dec_ok_def start_decode_def)
  from headers_loop_ends [OF this, of e] show ?thesis
    by (auto simp: DecodeHeadersL_def Let_def)
qed

section \<open>Headers that are safe to decode\<close>

lemma total_leave:
  assumes "\<And>h. \<exists>h1. f h = Inr h1"
  shows "total_op (leave_headers f)"
proof (rule total_opI [OF _ mono_leave])
  fix d :: mms_decode
  obtain h1 where "f (iMmsHeaders d) = Inr h1" using assms by blast
  then show "\<exists>x d1. leave_headers f d = Inr (x, d1)" by (simp add: leave_headers_def)
qed

lemma insert_returns:
  assumes "find_in_order key (key x) xs = None"
  shows "\<exists>h1. bind_l (insert_in_order key x xs) (\<lambda>ys. Inr (f ys)) = Inr h1"
proof -
  obtain ys where "insert_in_order key x xs = Inr ys"
    using insert_in_order_fresh [of xs key x] assms by (auto simp: find_in_order_None)
  then show ?thesis by simp
qed

lemma sender_never_leaves: "\<exists>h1. InsertPreviouslySentByL n s h = Inr h1"
proof (cases "find_in_order scOrder n (iPreviouslySentArray h)")
  case None
  show ?thesis unfolding InsertPreviouslySentByL_def Let_def None option.case
    by (rule insert_returns) (simp add: None sc_set_sender_def)
next
  case (Some i)
  show ?thesis unfolding InsertPreviouslySentByL_def Let_def Some option.case by (rule exI) (rule refl)
qed

lemma date_never_leaves: "\<exists>h1. InsertPreviouslySentDateL n t h = Inr h1"
proof (cases "find_in_order scOrder n (iPreviouslySentArray h)")
  case None
  show ?thesis unfolding InsertPreviouslySentDateL_def Let_def None option.case
    by (rule insert_returns) (simp add: None)
next
  case (Some i)
  show ?thesis unfolding InsertPreviouslySentDateL_def Let_def Some option.case by (rule exI) (rule refl)
qed

lemma delete_status_never_leaves: "\<exists>h1. InsertDeleteStatusL n st h = Inr h1"
proof (cases "find_in_order drOrder n (iDeleteResultArray h)")
  case None
  show ?thesis unfolding InsertDeleteStatusL_def Let_def None option.case
    by (rule insert_returns) (simp add: None)
next
  case (Some i)
  show ?thesis unfolding InsertDeleteStatusL_def Let_def Some option.case by (rule exI) (rule refl)
qed

lemma delete_text_never_leaves: "\<exists>h1. InsertDeleteResponseTextL n s h = Inr h1"
proof (cases "find_in_order drOrder n (iDeleteResultArray h)")
  case None
  show ?thesis unfolding InsertDeleteResponseTextL_def Let_def None option.case
    by (rule insert_returns) (simp add: None)
next
  case (Some i)
  show ?thesis unfolding InsertDeleteResponseTextL_def Let_def Some option.case by (rule exI) (rule refl)
qed

lemma delete_location_never_leaves: "\<exists>h1. InsertDeleteContentLocationL n loc h = Inr h1"
proof (cases "find_in_order drOrder n (iDeleteResultArray h)")
  case None
  show ?thesis unfolding InsertDeleteContentLocationL_def Let_def None option.case
    by (rule insert_returns) (simp add: None)
next
  case (Some i)
  obtain b ys where f: "dr_fill_location n loc (iDeleteResultArray h) = (b, ys)"
    by (cases "dr_fill_location n loc (iDeleteResultArray h)")
  show ?thesis unfolding InsertDeleteContentLocationL_def Let_def Some option.case f
    by (cases b) simp_all
qed

lemma inserts_never_leave [total_rules]:
  "total_op (leave_headers (InsertPreviouslySentByL n s))"
  "total_op (leave_headers (InsertPreviouslySentDateL n t))"
  "total_op (leave_headers (InsertDeleteStatusL n st))"
  "total_op (leave_headers (InsertDeleteResponseTextL n s))"
  "total_op (leave_headers (InsertDeleteContentLocationL n loc))"
  by (intro total_leave sender_never_leaves date_never_leaves delete_status_never_leaves
      delete_text_never_leaves delete_location_never_leaves)+

end
