(* ===== verification/Mms_Decode_Total.thy ===== *)
theory Mms_Decode_Total
  imports Mms_Decode_Safe
begin

text \<open>
  Which headers can be decoded without reading outside the buffer. The handlers of
  \<open>CMmsDecode\<close> (mmsengine/mmscodec/src/mmsdecode.cpp) are divided here: \<open>safe_header\<close> is what
  has to be known of the state, and every other header returns from every well-formed state.
\<close>

section \<open>Operations that run on a byte\<close>

definition runs_op :: "'a decoder \<Rightarrow> bool" where
  "runs_op m \<longleftrightarrow> (\<forall>d. dec_ok d \<longrightarrow> \<not> at_end d \<longrightarrow> (\<exists>x d1. m d = Inr (x, d1) \<and> stays d d1))"

named_theorems runs_rules \<open>operations that return when a byte is left\<close>

lemma runs_opD: "runs_op m \<Longrightarrow> dec_ok d \<Longrightarrow> \<not> at_end d \<Longrightarrow> \<exists>x d1. m d = Inr (x, d1) \<and> stays d d1"
  by (simp add: runs_op_def)

lemma runs_total [runs_rules]: "total_op m \<Longrightarrow> runs_op m"
  using total_opD by (auto simp: runs_op_def)

lemma runs_value: "value_op m \<Longrightarrow> runs_op m"
  using value_opD by (fastforce simp: runs_op_def at_end_def)

lemma runs_bind:
  assumes "runs_op m" "\<And>x. total_op (f x)"
  shows "runs_op (dbind m f)"
  unfolding runs_op_def
proof (intro allI impI)
  fix d assume d: "dec_ok d" "\<not> at_end d"
  from runs_opD [OF assms(1) d] obtain x d1 where m: "m d = Inr (x, d1)" "stays d d1" by blast
  from total_opD [OF assms(2) stays_dec_ok [OF m(2) d(1)], of x] stays_trans [OF m(2)] m(1)
  show "\<exists>y d2. dbind m f d = Inr (y, d2) \<and> stays d d2" by auto
qed

lemma runs_if: "runs_op m \<Longrightarrow> runs_op n \<Longrightarrow> runs_op (if c then m else n)"
  by simp

lemma runs_from_start:
  assumes "\<And>d. dec_ok d \<Longrightarrow> \<not> at_end d \<Longrightarrow> from_start d (m d)"
  shows "runs_op m"
  unfolding runs_op_def
proof (intro allI impI)
  fix d assume "dec_ok d" "\<not> at_end d"
  with assms [of d] show "\<exists>x d1. m d = Inr (x, d1) \<and> stays d d1" by (auto simp: from_start_def)
qed

lemma runs_well_known: "runs_op GetWellKnownFieldValueOrSkip"
  unfolding runs_op_def using total_well_known monotone_opD [OF mono_well_known] by fast

lemma runs_peek: "runs_op peek"
  unfolding runs_op_def peek_def read_at_def dec_ok_def at_end_def by auto

lemma runs_token: "runs_op (token_header f)"
  unfolding token_header_def by (intro runs_bind runs_well_known total_rules)

lemma runs_time: "runs_op (time_header f g)"
proof -
  have "total_op (case x of (b, date) \<Rightarrow>
     dskip (if b = KMmsRelativeToken then on_headers (f (ucast date)) else dreturn ())
       (if b = KMmsAbsoluteToken then on_headers (g date) else dreturn ()))" for x
    by (cases x) (simp only: prod.case, intro total_rules)
  then show ?thesis
    unfolding time_header_def by (intro runs_bind runs_value value_time)
qed

section \<open>The handlers that always return\<close>

lemma total_handlers_return [total_rules]:
  "total_op (DecodeToL e)" "total_op (DecodeCcL e)" "total_op (DecodeBccL e)"
  "total_op (DecodePreviousSenderL e)" "total_op DecodeMessageIdL" "total_op DecodeTidL"
  "total_op DecodeReplyChargingIdL" "total_op DecodeApplicationInfoL"
  "total_op DecodeCancelReplaceIdL" "total_op DecodeMessageSize"
  "total_op DecodeReplyChargingSize" "total_op (DecodeSubjectL e)"
  "total_op (DecodeRecommendedRetrievalModeTextL e)"
  "total_op (DecodeMMBoxStoreStatusTextL e)" "total_op DecodeMessageCountL"
  "total_op DecodeStartInMMBoxViewL" "total_op DecodeMessageLimitL"
  "total_op DecodeApplicationIdL" "total_op DecodeReplyApplicationIdL"
  unfolding total_handlers by (intro total_rules)+

lemma total_by_type [total_rules]:
  "total_op DecodeContentLocationHeaderL" "total_op (DecodeResponseTextL e)"
  unfolding DecodeContentLocationHeaderL_def [abs_def] DecodeResponseTextL_def [abs_def]
  by (intro total_guard_plain; intro total_rules)+

lemma runs_handlers [runs_rules]:
  "runs_op (DecodeFromHeaderL e)" "runs_op (DecodeMessageClass e)" "runs_op DecodeMmsVersion"
  "runs_op (DecodeContentTypeL e)" "runs_op DecodeElementDescriptorL"
  "runs_op DecodeDeliveryTimeL" "runs_op DecodeExpiryL" "runs_op DecodeReplyChargingDeadlineL"
  unfolding DecodeFromHeaderL_def DecodeMessageClass_def DecodeMmsVersion_def
    DecodeDeliveryTimeL_def DecodeExpiryL_def DecodeReplyChargingDeadlineL_def
  by (intro runs_bind [OF runs_value [OF value_from]] runs_bind [OF runs_peek]
      runs_bind [OF runs_well_known] runs_time total_rules
      runs_from_start content_header_returns descriptor_returns | assumption)+

lemma runs_tokens [runs_rules]:
  "runs_op DecodeDeliveryReportHeader" "runs_op DecodeMessageType" "runs_op DecodePriority"
  "runs_op DecodeReadReply" "runs_op DecodeReportAllowed" "runs_op DecodeSenderVisibility"
  "runs_op DecodeStatus" "runs_op DecodeReadStatus" "runs_op DecodeReplyCharging"
  "runs_op DecodeDistributionIndicator" "runs_op DecodeContentClass"
  "runs_op DecodeDrmContentHeader" "runs_op DecodeAdaptationAllowed"
  "runs_op DecodeRecommendedRetrievalMode" "runs_op DecodeCancelStatus"
  "runs_op DecodeStoreHeaderL" "runs_op DecodeMMBoxStateL" "runs_op DecodeMMBoxStoreStatusL"
  "runs_op DecodeStoredInMMBoxHeaderL" "runs_op DecodeAttributesHeaderL"
  "runs_op DecodeTotalsL" "runs_op DecodeQuotaHeaderL"
  unfolding token_handlers by (rule runs_token)+

section \<open>The dispatch\<close>

text \<open>
  The headers that need something of the state. The handlers of the first six read a byte with
  no check of the position, or index an empty string; the date is safe as long as no earlier
  header left \<open>KErrTooBig\<close> behind, and the response status as long as the PDU is not a delete
  confirmation.
\<close>

definition fragile_headers :: "byte list" where
  "fragile_headers = [KMmsAssignedMMFlags, KMmsAssignedMboxTotals, KMmsAssignedMboxQuotas,
     KMmsAssignedPreviouslySentDate, KMmsAssignedExtendedNotificationText,
     KMmsAssignedExtendedNotificationEOL]"

definition safe_header :: "byte \<Rightarrow> mms_decode \<Rightarrow> bool" where
  "safe_header h d \<longleftrightarrow> h \<notin> set fragile_headers
     \<and> (h = KMmsAssignedDate \<longrightarrow> iError d \<noteq> KErrTooBig)
     \<and> (h = KMmsAssignedResponseStatus \<or> h = KMmsAssignedRetrieveStatus \<longrightarrow>
          iMsgType (iMmsHeaders d) \<noteq> KMmsMessageTypeMBoxDeleteConf)"

lemma runs_decode_value:
  assumes "h \<notin> set fragile_headers" "h \<noteq> KMmsAssignedDate"
    "h \<noteq> KMmsAssignedResponseStatus" "h \<noteq> KMmsAssignedRetrieveStatus"
  shows "runs_op (decode_value e h)"
proof -
  from assms(1) have f: "h \<noteq> KMmsAssignedMMFlags" "h \<noteq> KMmsAssignedMboxTotals"
    "h \<noteq> KMmsAssignedMboxQuotas" "h \<noteq> KMmsAssignedPreviouslySentDate"
    "h \<noteq> KMmsAssignedExtendedNotificationText" "h \<noteq> KMmsAssignedExtendedNotificationEOL"
    by (simp_all add: fragile_headers_def)
  show ?thesis
    unfolding decode_value_def
    by (simp only: f assms(2-4) simp_thms if_False)
      (intro runs_if; (rule runs_handlers runs_tokens | rule runs_total, rule total_rules))
qed

text \<open>A date that is too long leaves the position at its length byte, and the error behind.\<close>

lemma int_loop_error: "int_loop n acc d = Inr (x, d1) \<Longrightarrow> iError d1 = iError d"
  by (induction n arbitrary: acc d)
    (auto simp: dreturn_def dskip_def dbind_def peek_def advance_def split: if_splits sum.splits)

lemma very_long_error:
  assumes "GetVeryLongInteger d = Inr (x, d1)" "iError d \<noteq> KErrTooBig" "iError d1 = KErrTooBig"
  shows "iPosition d1 = iPosition d"
proof -
  obtain b where b: "peek d = Inr (b, d)"
    using assms(1) by (auto simp: GetVeryLongInteger_def dbind_def peek_def split: sum.splits)
  have "int_loop (unat b) 0 (moved d 1) = Inr (x, d1) \<Longrightarrow> False"
    using int_loop_error [of "unat b" "0 :: tint64" "moved d 1" x d1] assms(2,3) by simp
  with assms b show ?thesis
    by (auto simp: GetVeryLongInteger_def dskip_def advance_def dreturn_def set_error_def
        step_back_def moved_def split: if_splits)
qed

lemma date_returns:
  assumes "dec_ok d" "\<not> at_end d" "iError d \<noteq> KErrTooBig"
  shows "\<exists>d1. DecodeDateHeaderL d = Inr ((), d1) \<and> stays d d1"
proof -
  from total_very_long [OF assms(1,2)] obtain t d1 where g: "GetVeryLongInteger d = Inr (t, d1)"
    by blast
  have s: "stays d d1" by (rule monotone_opD [OF mono_very_long g])
  note ok1 = stays_dec_ok [OF s assms(1)]
  have T: "total_op (\<lambda>d. if at_end d then set_error KErrCorrupt d
      else on_headers (\<lambda>h. h\<lparr> iDate := t \<rparr>) d)"
    by (intro total_guard_plain total_basic)
  have "\<exists>d2. (if iError d1 = KErrTooBig then skip_long_date d1 else Inr ((), d1)) = Inr ((), d2)
      \<and> stays d1 d2"
  proof (cases "iError d1 = KErrTooBig")
    case True
    from very_long_error [OF g assms(3) True] assms(2) s have "\<not> at_end d1"
      by (simp add: at_end_def stays_def)
    moreover have "runs_op skip_long_date"
      unfolding skip_long_date_def by (intro runs_bind runs_peek total_rules)
    ultimately show ?thesis using runs_opD ok1 True by fastforce
  qed simp
  then obtain d2 where d2: "(if iError d1 = KErrTooBig then skip_long_date d1 else Inr ((), d1))
      = Inr ((), d2)" "stays d1 d2" by blast
  from total_opD [OF T stays_dec_ok [OF d2(2) ok1]] obtain d3 where
    d3: "(if at_end d2 then set_error KErrCorrupt d2 else on_headers (\<lambda>h. h\<lparr> iDate := t \<rparr>) d2) = Inr ((), d3)"
      "stays d2 d3" by auto
  have "DecodeDateHeaderL d = Inr ((), d3)"
    unfolding DecodeDateHeaderL_def dbind_def dskip_def g sum.case prod.case d2(1) d3(1) ..
  with stays_trans [OF s stays_trans [OF d2(2) d3(2)]] show ?thesis by blast
qed

lemma status_returns:
  assumes "dec_ok d" "\<not> at_end d" "iMsgType (iMmsHeaders d) \<noteq> KMmsMessageTypeMBoxDeleteConf"
  shows "\<exists>d1. DecodeResponseStatusL d = Inr ((), d1) \<and> stays d d1"
  using runs_opD [OF runs_token assms(1,2)] assms(3)
  unfolding DecodeResponseStatusL_def by auto

lemma decode_value_date_status:
  "decode_value e KMmsAssignedDate = DecodeDateHeaderL"
  "decode_value e KMmsAssignedResponseStatus = DecodeResponseStatusL"
  "decode_value e KMmsAssignedRetrieveStatus = DecodeResponseStatusL"
  by (simp_all add: decode_value_def KMmsAssignedContentType_def)

lemma safe_value_returns:
  assumes "dec_ok d" "\<not> at_end d" "safe_header h d"
  shows "\<exists>d1. decode_value e h d = Inr ((), d1) \<and> stays d d1"
proof -
  consider "h = KMmsAssignedDate" | "h = KMmsAssignedResponseStatus" | "h = KMmsAssignedRetrieveStatus"
    | "h \<noteq> KMmsAssignedDate" "h \<noteq> KMmsAssignedResponseStatus" "h \<noteq> KMmsAssignedRetrieveStatus"
    by blast
  then show ?thesis
  proof cases
    case 1
    with assms show ?thesis
      using date_returns [OF assms(1,2)] by (simp add: safe_header_def decode_value_date_status)
  next
    case 2
    with assms show ?thesis
      using status_returns [OF assms(1,2)] by (simp add: safe_header_def decode_value_date_status)
  next
    case 3
    with assms show ?thesis
      using status_returns [OF assms(1,2)] by (simp add: safe_header_def decode_value_date_status)
  next
    case 4
    have "h \<notin> set fragile_headers" using assms(3) by (simp add: safe_header_def)
    from runs_opD [OF runs_decode_value [OF this 4] assms(1,2)] show ?thesis by simp
  qed
qed

end
