(* ===== verification/Mms_Decode_Steps.thy ===== *)
theory Mms_Decode_Steps
  imports Mms_Decode_Headers Wsp_Core
begin

text \<open>
  The header loop of \<open>CMmsDecode\<close> (mmsengine/mmscodec/src/mmsdecode.cpp) seen from the bytes that
  are left: one step per header, the end of the message, and the value of a header that is one
  token. The facts of the collection \<open>header_step\<close> run the decoder on a given message.
\<close>

named_theorems header_step \<open>steps of the header loop on the bytes that are left\<close>

definition with_headers :: "mms_headers \<Rightarrow> mms_decode \<Rightarrow> mms_decode" where
  "with_headers h d = d\<lparr>iMmsHeaders := h\<rparr>"

definition with_error :: "symbian_error \<Rightarrow> mms_decode \<Rightarrow> mms_decode" where
  "with_error x d = d\<lparr>iError := x\<rparr>"

lemma with_headers_simps [simp]:
  "left_bytes (with_headers h d) = left_bytes d" "dec_ok (with_headers h d) = dec_ok d"
  "iError (with_headers h d) = iError d" "iLastHeader (with_headers h d) = iLastHeader d"
  "iMmsHeaders (with_headers h d) = h" "iPosition (with_headers h d) = iPosition d"
  "iLength (with_headers h d) = iLength d" "iDecodeBuffer (with_headers h d) = iDecodeBuffer d"
  "with_headers h (with_headers h1 d) = with_headers h d"
  "moved (with_headers h d) n = with_headers h (moved d n)"
  "at_end (with_headers h d) = at_end d" "with_headers (iMmsHeaders d) d = d"
  by (simp_all add: with_headers_def left_bytes_def dec_ok_def moved_def at_end_def)

lemma with_error_simps [simp]:
  "left_bytes (with_error x d) = left_bytes d" "dec_ok (with_error x d) = dec_ok d"
  "iError (with_error x d) = x" "iLastHeader (with_error x d) = iLastHeader d"
  "iMmsHeaders (with_error x d) = iMmsHeaders d" "iPosition (with_error x d) = iPosition d"
  "iLength (with_error x d) = iLength d" "iDecodeBuffer (with_error x d) = iDecodeBuffer d"
  "with_error x (with_error y d) = with_error x d"
  "moved (with_error x d) n = with_error x (moved d n)"
  "with_headers h (with_error x d) = with_error x (with_headers h d)"
  "at_end (with_error x d) = at_end d"
  by (simp_all add: with_error_def with_headers_def left_bytes_def dec_ok_def moved_def at_end_def)

lemma on_headers_with: "on_headers f d = Inr ((), with_headers (f (iMmsHeaders d)) d)"
  by (simp add: on_headers_def with_headers_def)

lemma set_error_with: "set_error x d = Inr ((), with_error x d)"
  by (simp add: set_error_def with_error_def)

section \<open>The loop\<close>

lemma left_two:
  assumes "dec_ok d" "left_bytes d = h # b # ys"
  shows "iPosition d + 2 \<le> iLength d"
  using length_left [OF assms(1)] assms(2) by simp

lemma name_byte:
  assumes "dec_ok d" "left_bytes d = h # b # ys" "0x80 \<le> h"
  shows "GetHeaderName e d = Inr (Some h, moved d 1)"
  using left_two [OF assms(1,2)] assms(3) peek_left [OF assms(1,2)]
  by (simp add: GetHeaderName_def advance_moved dreturn_def)

lemma one_header_byte:
  assumes "dec_ok d" "left_bytes d = h # b # ys" "0x80 \<le> h"
  shows "DecodeOneHeaderL e d = decode_value e h (moved d 1)"
  using name_byte [OF assms] by (simp add: DecodeOneHeaderL_def)

lemma loop_header [header_step]:
  assumes "dec_ok d" "left_bytes d = h # b # ys" "0x80 \<le> h"
    and "iError d \<noteq> KErrCorrupt" "\<not> iLastHeader d"
  shows "headers_loop e d = (case decode_value e h (moved d 1) of
           Inl x \<Rightarrow> Some (Inl x) | Inr (_, d1) \<Rightarrow> headers_loop e d1)"
  using left_two [OF assms(1,2)] assms(4,5) one_header_byte [OF assms(1-3), of e]
  by (simp add: headers_loop.simps [of e d])

lemma loop_end [header_step]:
  "dec_ok d \<Longrightarrow> left_bytes d = [] \<Longrightarrow> headers_loop e d = Some (Inr d)"
  using left_nonempty [of d] by (simp add: headers_loop.simps [of e d])

lemma loop_corrupt: "iError d = KErrCorrupt \<Longrightarrow> headers_loop e d = Some (Inr d)"
  by (simp add: headers_loop.simps [of e d])

section \<open>Values of one byte\<close>

lemma well_known_byte [header_step]:
  assumes "dec_ok d" "left_bytes d = b # ys" "0x80 \<le> b"
  shows "GetWellKnownFieldValueOrSkip d = Inr (b, moved d 1)"
  using peek_left [OF assms(1,2)] assms(3)
  by (simp add: GetWellKnownFieldValueOrSkip_def advance_moved dreturn_def)

lemma token_byte [header_step]:
  assumes "dec_ok d" "left_bytes d = b # ys" "0x80 \<le> b"
  shows "token_header f d = Inr ((), with_headers (f (ucast b) (iMmsHeaders d)) (moved d 1))"
  using well_known_byte [OF assms] by (simp add: token_header_def on_headers_with)

lemma value_length_short:
  assumes "dec_ok d" "left_bytes d = b # ys" "b < 31"
  shows "GetValueLength d = Inr (unat b, moved d 1)"
proof -
  have n: "\<not> 0x80 \<le> b" "\<not> 32 \<le> b" "b \<noteq> 31"
    using assms(3) by (auto simp: word_le_nat_alt word_less_nat_alt)
  show ?thesis
    using peek_left [OF assms(1,2)] at_end_left [OF assms(1,2)] n
    by (simp add: GetValueLength_def advance_moved dreturn_def)
qed

section \<open>A whole message\<close>

text \<open>What \<open>DecodeHeadersL\<close> starts with when it is given a buffer that holds only headers.\<close>

lemma start_left [simp]:
  "dec_ok (start_decode buf 0 0 now h d0)"
  "left_bytes (start_decode buf 0 0 now h d0) = buf"
  "iError (start_decode buf 0 0 now h d0) = KErrNone"
  "iLastHeader (start_decode buf 0 0 now h d0) = False"
  "iLength (start_decode buf 0 0 now h d0) = length buf"
  "iDecodeBuffer (start_decode buf 0 0 now h d0) = buf"
  "iPosition (start_decode buf 0 0 now h d0) = 0"
  "iMmsHeaders (start_decode buf 0 0 now h d0) = (headers_reset h)\<lparr>iReceivingTime := now\<rparr>"
  by (simp_all add: start_decode_def decode_reset_def dec_ok_def left_bytes_def)

lemma decode_whole:
  assumes "2 \<le> length buf"
  shows "DecodeHeadersL e buf 0 0 now h d0 =
     map_option (\<lambda>r. bind_l r finish_decode) (headers_loop e (start_decode buf 0 0 now h d0))"
  using assms by (simp add: DecodeHeadersL_def Let_def)

text \<open>The handlers of the headers that the responses of the client use.\<close>

lemma decode_value_cases [header_step]:
  "decode_value e KMmsAssignedMessageType = DecodeMessageType"
  "decode_value e KMmsAssignedTID = DecodeTidL"
  "decode_value e KMmsAssignedMmsVersion = DecodeMmsVersion"
  "decode_value e KMmsAssignedStatus = DecodeStatus"
  "decode_value e KMmsAssignedReportAllowed = DecodeReportAllowed"
  "decode_value e KMmsAssignedCancelStatus = DecodeCancelStatus"
  "decode_value e KMmsAssignedCancelId = DecodeCancelReplaceIdL"
  "decode_value e KMmsAssignedDate = DecodeDateHeaderL"
  "decode_value e KMmsAssignedMMFlags = GetKeywordL e"
  "decode_value e KMmsAssignedMessageSize = DecodeMessageSize"
  by (simp_all add: decode_value_def KMmsAssignedContentType_def)

lemma type_byte:
  assumes "dec_ok d" "left_bytes d = KMmsAssignedMessageType # b # ys" "0x80 \<le> b"
    and "iError d \<noteq> KErrCorrupt" "\<not> iLastHeader d"
  shows "headers_loop e d =
    headers_loop e (with_headers ((iMmsHeaders d)\<lparr>iMsgType := ucast b\<rparr>) (moved d (Suc (Suc 0))))"
  using assms by (simp add: loop_header [OF assms(1,2) _ assms(4,5)] decode_value_cases
      DecodeMessageType_def token_byte)

end
