(* ===== verification/Mms_Decode_Chunked.thy ===== *)
theory Mms_Decode_Chunked
  imports Mms_Decode_Safe
begin

text \<open>
  The chunked mode of \<open>CMmsDecode\<close> (mmsengine/mmscodec/src/mmsdecode.cpp): \<open>SinkHeaders\<close> decodes
  headers as long as a complete one is in the buffer. \<open>CheckHeaderLength\<close> looks ahead and puts the
  decoder back, so the loop moves on at every turn and ends. Saving the headers to the message
  store at the end of the headers is not modelled.
\<close>

section \<open>The loop\<close>

text \<open>The chunked mode: decode as long as a complete header is in the buffer. The result says whether
  more data is needed. The \<open>TRAP\<close> around the loop is left out: it catches leaves, and every \<open>Inl\<close> the
  modelled operations return is a panic, which no \<open>TRAP\<close> catches.\<close>

partial_function (option) sink_loop ::
  "decode_services \<Rightarrow> bool \<Rightarrow> mms_decode \<Rightarrow> (bool \<times> mms_decode) leaving option" where
  [code]: "sink_loop e enoughData d =
     (if enoughData \<and> iError d \<noteq> KErrCorrupt \<and> \<not> iLastHeader d then
        (case DecodeOneHeaderL e d of
           Inl x \<Rightarrow> Some (Inl x)
         | Inr (_, d1) \<Rightarrow>
             if iError d1 \<noteq> KErrCorrupt \<and> \<not> iLastHeader d1 then
               (case CheckHeaderLength d1 of
                  Inl x \<Rightarrow> Some (Inl x) | Inr (r, d2) \<Rightarrow> sink_loop e r d2)
             else sink_loop e enoughData d1)
      else Some (Inr (enoughData, d)))"

definition sink_stage :: "bool \<Rightarrow> bool \<Rightarrow> mms_decode \<Rightarrow> mms_decode" where
  "sink_stage aLastDataChunk enoughData d =
     (if iError d = KErrNone then
        (if iLastHeader d then d\<lparr> iDecodingStage := EMmsAttachmentHeaders \<rparr>
         else if aLastDataChunk \<and> at_end d then d\<lparr> iDecodingStage := EMmsAttachmentHeaders \<rparr>
         else if aLastDataChunk \<and> \<not> enoughData
         then d\<lparr> iError := KErrCorrupt, iDecodingStage := EMmsDone \<rparr>
         else d)
      else d)"

text \<open>The result tells whether more data is needed. \<open>None\<close> would be a loop that never ends.\<close>

definition SinkHeaders ::
  "decode_services \<Rightarrow> bool \<Rightarrow> mms_decode \<Rightarrow> (bool \<times> mms_decode) leaving option" where
  "SinkHeaders e aLastDataChunk d =
     (case CheckHeaderLength d of
        Inl x \<Rightarrow> Some (Inl x)
      | Inr (enoughData, d1) \<Rightarrow>
          map_option (\<lambda>r. bind_l r (\<lambda>(enough, d2). Inr (\<not> enough, sink_stage aLastDataChunk enough d2)))
            (sink_loop e enoughData d1))"

section \<open>The length check only looks\<close>

definition looks :: "'a decoder \<Rightarrow> bool" where
  "looks m \<longleftrightarrow> (\<forall>d x d1. m d = Inr (x, d1) \<longrightarrow> d1 = d\<lparr>iPosition := iPosition d1\<rparr>)"

named_theorems looks_rules \<open>operations that change the position only\<close>

lemma position_same [simp]: "(d :: mms_decode)\<lparr>iPosition := iPosition d\<rparr> = d"
  by (cases d) simp

lemma looksI: "(\<And>d x d1. m d = Inr (x, d1) \<Longrightarrow> d1 = d\<lparr>iPosition := iPosition d1\<rparr>) \<Longrightarrow> looks m"
  by (simp add: looks_def)

lemma looksD: "looks m \<Longrightarrow> m d = Inr (x, d1) \<Longrightarrow> d1 = d\<lparr>iPosition := iPosition d1\<rparr>"
  by (simp add: looks_def)

lemma looks_trans:
  "d1 = d\<lparr>iPosition := iPosition d1\<rparr> \<Longrightarrow> d2 = d1\<lparr>iPosition := iPosition d2\<rparr> \<Longrightarrow>
   d2 = (d :: mms_decode)\<lparr>iPosition := iPosition d2\<rparr>"
  by (cases d; cases d1; cases d2) simp

lemma looks_bind [looks_rules]:
  assumes "looks m" "\<And>x. looks (f x)"
  shows "looks (dbind m f)"
proof (rule looksI)
  fix d x d2 assume "dbind m f d = Inr (x, d2)"
  then obtain y d1 where m: "m d = Inr (y, d1)" "f y d1 = Inr (x, d2)"
    by (auto simp: dbind_def split: sum.splits)
  from looksD [OF assms(1) m(1)] looksD [OF assms(2) m(2)] show "d2 = d\<lparr>iPosition := iPosition d2\<rparr>"
    by (rule looks_trans)
qed

lemma looks_skip [looks_rules]: "looks m \<Longrightarrow> looks n \<Longrightarrow> looks (dskip m n)"
  unfolding dskip_def by (rule looks_bind)

lemma looks_basic [looks_rules]:
  "looks (dreturn x)" "looks peek" "looks (advance n)" "looks (\<lambda>d. Inr (x, d))"
  by (auto simp: looks_def dreturn_def peek_def advance_def split: sum.splits)

lemma looks_if [looks_rules]: "looks m \<Longrightarrow> looks n \<Longrightarrow> looks (if c then m else n)"
  by simp

lemma looks_guard [looks_rules]: "looks g \<Longrightarrow> looks m \<Longrightarrow> looks (\<lambda>d. if c d then g d else m d)"
  by (auto simp: looks_def)

lemma looks_place: "looks (\<lambda>d. if c d then Inr (x, d) else Inr (y, moved d n))"
  by (auto simp: looks_def moved_def)

lemma looks_after: "looks m \<Longrightarrow> looks (\<lambda>d. m (d\<lparr>iPosition := p\<rparr>))"
  by (rule looksI, drule looksD, assumption) simp

lemma looks_scan: "looks (\<lambda>d. case scan_zero d b (iPosition d) of
    Inl e \<Rightarrow> Inl e | Inr (z, p) \<Rightarrow> Inr (z = 0, d\<lparr>iPosition := p\<rparr>))"
  by (auto simp: looks_def split: sum.splits)

lemma position_moved [simp]: "(moved d n)\<lparr>iPosition := p\<rparr> = d\<lparr>iPosition := p\<rparr>"
  by (simp add: moved_def)

lemma looks_uintvar_loop [looks_rules]: "looks (uintvar_loop acc b)"
proof (rule looksI)
  fix d x d1 show "uintvar_loop acc b d = Inr (x, d1) \<Longrightarrow> d1 = d\<lparr>iPosition := iPosition d1\<rparr>"
  proof (induction acc b d rule: uintvar_loop.induct)
    case (1 acc b d)
    show ?case
    proof (cases "b AND 0x80 \<noteq> 0 \<and> iPosition d < iLength d - 1")
      case True
      with 1(2) obtain b1 where r: "read_at (moved d 1) (iPosition d + 1) = Inr b1"
        by (auto simp: uintvar_loop.simps [of acc b d] split: sum.splits)
      from 1(1) [OF True r] 1(2) True r show ?thesis by (simp add: uintvar_loop.simps [of acc b d])
    qed (use 1(2) in \<open>auto simp: uintvar_loop.simps [of acc b d] moved_def\<close>)
  qed
qed

lemma looks_check_loop [looks_rules]: "looks (check_uintvar_loop b)"
proof (rule looksI)
  fix d x d1 show "check_uintvar_loop b d = Inr (x, d1) \<Longrightarrow> d1 = d\<lparr>iPosition := iPosition d1\<rparr>"
  proof (induction b d rule: check_uintvar_loop.induct)
    case (1 b d)
    show ?case
    proof (cases "b AND 0x80 \<noteq> 0 \<and> iPosition d < iLength d - 1")
      case True
      with 1(2) obtain b1 where r: "read_at (moved d 1) (iPosition d + 1) = Inr b1"
        by (auto simp: check_uintvar_loop.simps [of b d] split: sum.splits)
      from 1(1) [OF True r] 1(2) True r show ?thesis by (simp add: check_uintvar_loop.simps [of b d])
    qed (use 1(2) in \<open>auto simp: check_uintvar_loop.simps [of b d] moved_def\<close>)
  qed
qed

lemma looks_uintvar [looks_rules]: "looks GetUintvar"
  unfolding GetUintvar_def [abs_def] by (intro looks_guard looks_bind looks_rules)

lemma looks_check_uintvar [looks_rules]: "looks CheckUintvarLength"
  unfolding CheckUintvarLength_def [abs_def] by (intro looks_guard looks_bind looks_rules)

lemma looks_self: "(\<And>d0. looks (m d0)) \<Longrightarrow> looks (\<lambda>d. m d d)"
  by (simp add: looks_def)

lemma looks_check_value [looks_rules]: "looks (CheckValueLength c)"
proof -
  define again where "again p = dbind CheckUintvarLength (\<lambda>good.
              if good \<and> c then
                (\<lambda>d2. dbind GetUintvar (\<lambda>v d3.
                   if iLength d3 - iPosition d3 < unat v then Inr (False, d3)
                   else Inr (True, moved d3 (unat v))) (d2\<lparr>iPosition := p\<rparr>))
              else dreturn good)" for p
  have "looks (\<lambda>d2. dbind GetUintvar (\<lambda>v d3.
                   if iLength d3 - iPosition d3 < unat v then Inr (False, d3)
                   else Inr (True, moved d3 (unat v))) (d2\<lparr>iPosition := p\<rparr>))" for p
    by (intro looks_after looks_bind looks_uintvar looks_place)
  then have "looks (again p)" for p
    unfolding again_def by (intro looks_bind looks_check_uintvar looks_if looks_basic)
  then have again: "looks (\<lambda>d1. again (iPosition d1) d1)"
    by (intro looks_self [of "\<lambda>d0. again (iPosition d0)"])
  show ?thesis
    unfolding CheckValueLength_def [abs_def]
    by (intro looks_guard looks_bind looks_skip looks_if looks_scan looks_place looks_basic
        again [unfolded again_def])
qed

lemma check_restores:
  assumes "CheckHeaderLength d = Inr (r, d1)"
  shows "d1 = d"
proof (cases "at_end d")
  case False
  let ?f = "\<lambda>b. dbind (CheckValueLength True) (\<lambda>nameOk.
          dbind (if nameOk then
                   CheckValueLength (\<not> (iDecodingStage d = EMmsAttachmentHeaders
                     \<and> b AND 0x80 \<noteq> 0 \<and> b AND 0x7F = KWspQValue))
                 else dreturn False) (\<lambda>valueOk.
            if iDecodingStage d = EMmsHeaders \<and> b = KMmsAssignedContentType \<and> valueOk
            then CheckUintvarLength else dreturn valueOk))"
  have l: "looks (dbind peek ?f)" by (intro looks_rules)
  from assms False obtain d2 where d2: "dbind peek ?f d = Inr (r, d2)" "d1 = d2\<lparr>iPosition := iPosition d\<rparr>"
    by (auto simp: CheckHeaderLength_def dbind_def split: sum.splits)
  from looksD [OF l d2(1)] have "d2\<lparr>iPosition := iPosition d\<rparr> = d" by (cases d; cases d2) simp
  with d2(2) show ?thesis by simp
qed (use assms in \<open>simp add: CheckHeaderLength_def\<close>)

section \<open>The loop ends\<close>

lemma short_header:
  assumes "iLength d < iPosition d + 2" "DecodeOneHeaderL e d = Inr ((), d1)"
  shows "iError d1 = KErrCorrupt"
  using assms by (auto simp: DecodeOneHeaderL_def GetHeaderName_def set_error_def dreturn_def dskip_def dbind_def)

lemma sink_loop_ends:
  assumes "dec_ok d"
  shows "sink_loop e r d \<noteq> None"
  using assms
proof (induction "iLength d - iPosition d" arbitrary: d r rule: less_induct)
  case less
  show ?case
  proof (cases "r \<and> iError d \<noteq> KErrCorrupt \<and> \<not> iLastHeader d")
    case go: True
    show ?thesis
    proof (cases "DecodeOneHeaderL e d")
      case (Inr p)
      then obtain d1 where d1: "DecodeOneHeaderL e d = Inr ((), d1)" by (cases p) auto
      show ?thesis
      proof (cases "iError d1 \<noteq> KErrCorrupt \<and> \<not> iLastHeader d1")
        case True
        have "iPosition d + 2 \<le> iLength d" using short_header [OF _ d1] True by (meson not_le)
        from one_header_moves [OF less.prems this d1]
        have m: "stays d d1" "iPosition d < iPosition d1" "iPosition d < iLength d"
          using \<open>iPosition d + 2 \<le> iLength d\<close> by auto
        then have "iLength d1 - iPosition d1 < iLength d - iPosition d" by (auto simp: stays_def)
        note IH = less.hyps [OF this stays_dec_ok [OF m(1) less.prems]]
        show ?thesis
        proof (cases "CheckHeaderLength d1")
          case (Inr q)
          then obtain r2 where c: "CheckHeaderLength d1 = Inr (r2, d1)" using check_restores by (cases q) auto
          show ?thesis using IH [of r2] go True by (subst sink_loop.simps) (simp add: d1 c)
        qed (use go True in \<open>subst sink_loop.simps, simp add: d1\<close>)
      next
        case False
        then have "sink_loop e r d1 = Some (Inr (r, d1))" by (auto simp: sink_loop.simps [of e r d1])
        with go False show ?thesis by (subst sink_loop.simps) (auto simp: d1)
      qed
    qed (use go in \<open>subst sink_loop.simps, simp\<close>)
  qed (auto simp: sink_loop.simps [of e r d])
qed

lemma sink_headers_ends:
  assumes "dec_ok d"
  shows "SinkHeaders e l d \<noteq> None"
proof (cases "CheckHeaderLength d")
  case (Inr q)
  then obtain r where r: "CheckHeaderLength d = Inr (r, d)" using check_restores by (cases q) auto
  with sink_loop_ends [OF assms, of e r] show ?thesis by (simp add: SinkHeaders_def)
qed (simp add: SinkHeaders_def)

end
