(* ===== verification/Mms_Decode_Props.thy ===== *)
theory Mms_Decode_Props
  imports Mms_Decode_Total Mms_Decode_Steps Mms_Decode_Chunked
begin

text \<open>
  Properties of the PDU decoder \<open>CMmsDecode\<close>: it ends on every buffer, every header moves it on,
  which headers cannot panic it, and the messages that do.
\<close>

section \<open>A message to run it on\<close>

text \<open>A platform that folds nothing and converts nothing, and a decoder before its first use.\<close>

definition plain_services :: decode_services where
  "plain_services = \<lparr>fold8 = id, fold16 = id, from_utf8 = (\<lambda>s. (True, map ucast s)),
     convert_header = (\<lambda>s. None)\<rparr>"

definition fresh_decoder :: mms_decode where
  "fresh_decoder = \<lparr>iDecodeBuffer = [], iPosition = 0, iLength = 0, iError = KErrNone,
     iDataStart = 0, iNumberOfAttachments = 0, iFakeSubject = 0, iCharacterSet = 0,
     dMultipartType = 0, iRootContentId = [], iUseForSubject = False, iPlainTexts = 0,
     iDecodingStage = EMmsNotApplicable, iLastHeader = False,
     iMmsHeaders = headers_new 0x12, iMimeCharset = 0, iContentTypeParams = []\<rparr>"

definition at_message :: "byte list \<Rightarrow> mms_decode" where
  "at_message buf = fresh_decoder\<lparr>iDecodeBuffer := buf, iLength := length buf\<rparr>"

lemma at_message_simps [simp]:
  "dec_ok (at_message buf)" "left_bytes (at_message buf) = buf" "iPosition (at_message buf) = 0"
  "iLength (at_message buf) = length buf" "iError (at_message buf) = KErrNone"
  "iLastHeader (at_message buf) = False" "iDecodeBuffer (at_message buf) = buf"
  by (simp_all add: at_message_def fresh_decoder_def dec_ok_def left_bytes_def)

section \<open>Termination\<close>

text \<open>C17: \<open>DecodeHeadersL\<close> comes to an end on every buffer and from every start inside it: its loop over the
  headers is never endless, whatever the bytes are. The end is a result, a leave or a panic; the
  panics are the subject of the last section.\<close>

theorem decode_headers_terminates:
  assumes "aStartPosition + aLength \<le> length buf"
  shows "DecodeHeadersL e buf aStartPosition aLength now h d0 \<noteq> None"
  using decode_headers_ends [OF assms] by auto

theorem decode_headers_terminates_witness:
  "DecodeHeadersL plain_services [0x8C, 0x80] 0 2 0 (headers_new 0x12) fresh_decoder \<noteq> None"
  by (rule decode_headers_terminates) simp

text \<open>Decoding one header consumes at least one byte, and neither the buffer nor the end of
  the message changes, whenever a header name and a value are left.\<close>

lemma one_header_advances:
  assumes "iLength d \<le> length (iDecodeBuffer d)" "iPosition d + 2 \<le> iLength d"
    and "DecodeOneHeaderL e d = Inr ((), d1)"
  shows "iPosition d < iPosition d1 \<and> iDecodeBuffer d1 = iDecodeBuffer d \<and> iLength d1 = iLength d"
  using one_header_moves [of d e d1] assms by (simp add: dec_ok_def stays_def)

text \<open>C18: In the chunked mode the loop of \<open>SinkHeaders\<close> comes to an end on every chunk, with a result or with a
  panic, and the look-ahead of \<open>CheckHeaderLength\<close> leaves the decoder exactly as it was, whatever it
  answers.\<close>

theorem chunked_headers_terminate:
  assumes "iLength d \<le> length (iDecodeBuffer d)"
  shows "SinkHeaders e aLastDataChunk d \<noteq> None \<and>
    (\<forall>r d1. CheckHeaderLength d = Inr (r, d1) \<longrightarrow> d1 = d)"
  using sink_headers_ends assms check_restores by (auto simp: dec_ok_def)

theorem chunked_headers_terminate_witness:
  "SinkHeaders plain_services True (at_message [0x95, 0x81, 0x8B]) \<noteq> None"
  using chunked_headers_terminate [of "at_message [0x95, 0x81, 0x8B]" plain_services True] by simp

section \<open>Safety\<close>

text \<open>C19: The value of a header that is not fragile is decoded without a read outside the buffer,
  whatever the bytes: the handler returns and does not move the position back.\<close>

theorem safe_header_never_panics:
  assumes "iLength d \<le> length (iDecodeBuffer d)" "iPosition d < iLength d" "safe_header h d"
  shows "\<exists>d1. decode_value e h d = Inr ((), d1) \<and> iPosition d \<le> iPosition d1"
  using safe_value_returns [of d h e] assms by (auto simp: dec_ok_def at_end_def stays_def)

theorem safe_header_never_panics_witness:
  "\<exists>d1. decode_value plain_services KMmsAssignedSubject (at_message [31]) = Inr ((), d1) \<and> 0 \<le> iPosition d1"
  using safe_header_never_panics [of "at_message [31]" KMmsAssignedSubject plain_services]
  by (simp add: safe_header_def fragile_headers_def)

text \<open>C20: A message that ends in the value length of a keyword header panics the decoder:
  \<open>GetWellKnownFieldValueOrSkip\<close> reads the byte after the end of the buffer.\<close>

theorem keyword_length_panics:
  assumes "0x80 \<le> b" "n < 31"
  shows "DecodeHeadersL e [KMmsAssignedMessageType, b, KMmsAssignedMMFlags, n] 0 0 now h d0
    = Some (Inl KPanicIndex)"
proof -
  let ?d = "start_decode [KMmsAssignedMessageType, b, KMmsAssignedMMFlags, n] 0 0 now h d0"
  let ?d1 = "with_headers ((iMmsHeaders ?d)\<lparr>iMsgType := ucast b\<rparr>) (moved ?d (Suc (Suc 0)))"
  have l1: "left_bytes ?d1 = [KMmsAssignedMMFlags, n]" by simp
  have v: "GetValueLength (moved ?d1 1) = Inr (unat n, moved (moved ?d1 1) 1)"
    by (rule value_length_short [OF _ _ assms(2), of _ "[]"]) simp_all
  have "GetWellKnownFieldValueOrSkip (moved (moved ?d1 1) 1) = Inl KPanicIndex"
    by (simp add: GetWellKnownFieldValueOrSkip_def peek_def read_at_def)
  then have "decode_value e KMmsAssignedMMFlags (moved ?d1 1) = Inl KPanicIndex"
    using v by (simp add: decode_value_cases GetKeywordL_def)
  then have "headers_loop e ?d1 = Some (Inl KPanicIndex)"
    using loop_header [OF _ l1, of e] by simp
  moreover have "headers_loop e ?d = headers_loop e ?d1"
    by (rule type_byte [of _ b "[KMmsAssignedMMFlags, n]"]) (simp_all add: assms(1))
  ultimately show ?thesis by (simp add: decode_whole)
qed

theorem keyword_length_panics_witness:
  "DecodeHeadersL plain_services [0x8C, 0x80, 0xA4, 5] 0 0 0 (headers_new 0x12) fresh_decoder
    = Some (Inl KPanicIndex)"
  by (rule keyword_length_panics) simp_all

text \<open>A date as the last header of a message that holds only headers makes the whole message
  corrupt, although the date is complete: the test for the end comes after the value was read.\<close>

lemma date_last_is_corrupt:
  assumes "0x80 \<le> b" "0x80 \<le> v"
  shows "DecodeHeadersL e [KMmsAssignedMessageType, b, KMmsAssignedDate, v] 0 0 now h d0
    = Some (Inl KErrCorrupt)"
proof -
  let ?d = "start_decode [KMmsAssignedMessageType, b, KMmsAssignedDate, v] 0 0 now h d0"
  let ?d1 = "with_headers ((iMmsHeaders ?d)\<lparr>iMsgType := ucast b\<rparr>) (moved ?d (Suc (Suc 0)))"
  have l1: "left_bytes ?d1 = [KMmsAssignedDate, v]" by simp
  have p: "peek (moved ?d1 1) = Inr (v, moved ?d1 1)" by (rule peek_left [of _ _ "[]"]) simp_all
  have "v AND 0x80 \<noteq> 0" using assms(2) by (simp add: byte_high_bit)
  then have "GetVeryLongInteger (moved ?d1 1) = Inr (ucast (v AND 0x7F), moved (moved ?d1 1) 1)"
    using p by (simp add: GetVeryLongInteger_def advance_moved dreturn_def)
  then have "DecodeDateHeaderL (moved ?d1 1) = Inr ((), with_error KErrCorrupt (moved (moved ?d1 1) 1))"
    by (simp add: DecodeDateHeaderL_def dskip_def dbind_def set_error_with at_end_def)
  then have "headers_loop e ?d1 = Some (Inr (with_error KErrCorrupt (moved (moved ?d1 1) 1)))"
    using loop_header [OF _ l1, of e] by (simp add: decode_value_cases loop_corrupt)
  moreover have "headers_loop e ?d = headers_loop e ?d1"
    by (rule type_byte [of _ b "[KMmsAssignedDate, v]"]) (simp_all add: assms(1))
  ultimately show ?thesis by (simp add: decode_whole finish_decode_def Let_def)
qed

end
