(* ===== verification/Mail_Address.thy ===== *)
theory Mail_Address
  imports Msg_Prelude
begin

text \<open>
  The e-mail address parser \<open>TImMessageField\<close>
  (email/pop3andsmtpmtm/clientmtms/src/MIUTPARS.CPP): validity of an address field, and the
  address, the alias and the comment in it. Positions are \<open>TInt\<close> and may be negative, as in the
  code; an index or a range outside a descriptor panics. The build without address checking
  (\<open>__NO_EMAIL_ADDRESS_CHECKING__\<close>) is not modelled.
\<close>

section \<open>Descriptors\<close>

definition des_at :: "string16 \<Rightarrow> int \<Rightarrow> char16 leaving" where
  "des_at s i = (if 0 \<le> i \<and> i < int (length s) then Inr (s ! nat i) else Inl KPanicIndex)"

definition des_left :: "string16 \<Rightarrow> int \<Rightarrow> string16 leaving" where
  "des_left s n = (if 0 \<le> n then Inr (take (nat n) s) else Inl KPanicIndex)"

definition des_right :: "string16 \<Rightarrow> int \<Rightarrow> string16 leaving" where
  "des_right s n = (if 0 \<le> n then Inr (drop (length s - nat n) s) else Inl KPanicIndex)"

definition des_mid :: "string16 \<Rightarrow> int \<Rightarrow> int \<Rightarrow> string16 leaving" where
  "des_mid s p n =
     (if 0 \<le> p \<and> 0 \<le> n \<and> p + n \<le> int (length s) then Inr (take (nat n) (drop (nat p) s))
      else Inl KPanicIndex)"

fun locate :: "char16 \<Rightarrow> string16 \<Rightarrow> int" where
  "locate c [] = -1"
| "locate c (x # xs) = (if x = c then 0 else if locate c xs < 0 then -1 else locate c xs + 1)"

definition locate_reverse :: "char16 \<Rightarrow> string16 \<Rightarrow> int" where
  "locate_reverse c s =
     (if locate c (rev s) < 0 then -1 else int (length s) - 1 - locate c (rev s))"

abbreviation (input) KAt :: char16 where "KAt \<equiv> 64"
abbreviation (input) KLeftAngle :: char16 where "KLeftAngle \<equiv> 60"
abbreviation (input) KRightAngle :: char16 where "KRightAngle \<equiv> 62"
abbreviation (input) KSpace :: char16 where "KSpace \<equiv> 32"
abbreviation (input) KDot :: char16 where "KDot \<equiv> 46"

section \<open>Characters\<close>

definition isDotChar :: "char16 \<Rightarrow> bool" where
  "isDotChar aChar \<longleftrightarrow> aChar = 46"

definition isValidChar :: "char16 \<Rightarrow> bool" where
  "isValidChar aChar \<longleftrightarrow> 31 < aChar \<and> aChar < 128"

definition isValidDomainNameChar :: "char16 \<Rightarrow> bool" where
  "isValidDomainNameChar aChar \<longleftrightarrow>
     97 \<le> aChar \<and> aChar \<le> 122 \<or> 48 \<le> aChar \<and> aChar \<le> 57 \<or> 65 \<le> aChar \<and> aChar \<le> 90
     \<or> aChar = 46 \<or> aChar = 45"

definition isValidMailboxChar :: "char16 \<Rightarrow> bool" where
  "isValidMailboxChar aChar \<longleftrightarrow>
     65 \<le> aChar \<and> aChar \<le> 90 \<or> 94 \<le> aChar \<and> aChar \<le> 126 \<or> 45 \<le> aChar \<and> aChar \<le> 57
     \<or> 35 \<le> aChar \<and> aChar \<le> 39 \<or> aChar = 33 \<or> aChar = 42 \<or> aChar = 43 \<or> aChar = 61
     \<or> aChar = 63"

section \<open>Parts of an address\<close>

definition isValidRoutedEmailAddress :: "string16 \<Rightarrow> bool" where
  "isValidRoutedEmailAddress s \<longleftrightarrow> 1 < length s \<and> hd s = KAt \<and> locate 58 s \<noteq> -1"

text \<open>Whether every character is valid, tested up to the last one and then for the last one.\<close>

fun isValidString :: "string16 \<Rightarrow> bool" where
  "isValidString [] \<longleftrightarrow> True"
| "isValidString [c] \<longleftrightarrow> isValidChar c"
| "isValidString (c # d # cs) \<longleftrightarrow> (if isValidChar c then isValidString (d # cs) else False)"

fun mailbox_loop :: "string16 \<Rightarrow> bool" where
  "mailbox_loop [] \<longleftrightarrow> True"
| "mailbox_loop (c # cs) \<longleftrightarrow> (if isValidMailboxChar c then mailbox_loop cs else False)"

fun domain_loop :: "bool \<Rightarrow> string16 \<Rightarrow> bool" where
  "domain_loop lastCharDot [] \<longleftrightarrow> True"
| "domain_loop lastCharDot (c # cs) \<longleftrightarrow>
     (if lastCharDot then
        if isDotChar c then False
        else if isValidDomainNameChar c then domain_loop False cs else False
      else
        if isDotChar c then domain_loop True cs
        else if isValidDomainNameChar c then domain_loop False cs else False)"

definition is_dot_at :: "string16 \<Rightarrow> int \<Rightarrow> bool leaving" where
  "is_dot_at s i = bind_l (des_at s i) (\<lambda>c. Inr (c = 46))"

definition or_else :: "bool leaving \<Rightarrow> bool leaving \<Rightarrow> bool leaving" where
  "or_else a b = bind_l a (\<lambda>x. if x then Inr True else b)"

definition isValidEmailString :: "string16 \<Rightarrow> bool leaving" where
  "isValidEmailString s =
     (let atCharPos = locate KAt s; mailboxEnd = atCharPos - 1; domainBegin = atCharPos + 1;
          domainEnd = int (length s) - 1
      in bind_l (or_else (is_dot_at s 0) (or_else (is_dot_at s mailboxEnd)
                  (or_else (is_dot_at s domainBegin) (is_dot_at s domainEnd))))
           (\<lambda>dot. if dot then Inr False
                   else if \<not> mailbox_loop (take (nat atCharPos) s) then Inr False
                   else Inr (domain_loop False (drop (nat (atCharPos + 1)) s))))"

definition hasAngledBrackets :: "string16 \<Rightarrow> bool" where
  "hasAngledBrackets s =
     (let leftBracketPos = locate_reverse KLeftAngle s; rightBracketPos = locate_reverse KRightAngle s
      in if leftBracketPos = -1 then rightBracketPos = -1 else leftBracketPos < rightBracketPos)"

text \<open>The brackets around the at sign: the nearest ones, or else the first ones of the field.\<close>

definition isSurroundedByAngledBrackets :: "string16 \<Rightarrow> int \<Rightarrow> (bool \<times> int \<times> int) leaving" where
  "isSurroundedByAngledBrackets s aAtPos =
     bind_l (des_right s (int (length s) - aAtPos - 1)) (\<lambda>rightString.
       let r = locate KRightAngle rightString;
           aRightEnd = (if r < 0 then locate KRightAngle s else r + aAtPos + 1)
       in bind_l (des_left s aAtPos) (\<lambda>leftString.
            let l = locate_reverse KLeftAngle leftString;
                aLeftEnd = (if l < 0 then locate KLeftAngle s else l)
            in Inr (if aLeftEnd < 0 then False else aLeftEnd < aRightEnd, aLeftEnd, aRightEnd)))"

text \<open>The positions index the rest of the string (\<open>aChar\<close>) where they are positions of the whole.\<close>

definition isEnclosedSubString :: "string16 \<Rightarrow> char16 \<Rightarrow> char16 \<Rightarrow> (bool \<times> int \<times> int) leaving" where
  "isEnclosedSubString s aLeftBracket aRightBracket =
     (let aLeftPos = locate_reverse aLeftBracket s
      in if 0 \<le> aLeftPos then
           let aPos = aLeftPos - 1; aRightPos = locate_reverse aRightBracket s in
           if 0 \<le> aPos then
             bind_l (des_mid s aPos (int (length s) - aPos)) (\<lambda>aChar.
               if aPos < int (length aChar) then
                 bind_l (des_at aChar aPos) (\<lambda>c.
                   if c = KLeftAngle then
                     bind_l (des_at aChar aLeftPos) (\<lambda>c2.
                       if c2 = KLeftAngle then Inr (False, aLeftPos, aRightPos)
                       else Inr (aLeftPos < aRightPos, aLeftPos, aRightPos))
                   else Inr (aLeftPos < aRightPos, aLeftPos, aRightPos))
               else Inr (aLeftPos < aRightPos, aLeftPos, aRightPos))
           else Inr (aLeftPos < aRightPos, aLeftPos, aRightPos)
         else Inr (False, aLeftPos, 0))"

definition isSurroundedByRoundBrackets :: "string16 \<Rightarrow> (bool \<times> int \<times> int) leaving" where
  "isSurroundedByRoundBrackets s = isEnclosedSubString s 40 41"

section \<open>The substring around an at sign\<close>

function back_to_space :: "string16 \<Rightarrow> int \<Rightarrow> int leaving" where
  "back_to_space s f =
     (if 0 < f then bind_l (des_at s f) (\<lambda>c. if c \<noteq> KSpace then back_to_space s (f - 1) else Inr f)
      else Inr f)"
  by pat_completeness auto
termination by (relation "measure (\<lambda>(s, f). nat f)") auto

function forward_to_space :: "string16 \<Rightarrow> int \<Rightarrow> int \<Rightarrow> int leaving" where
  "forward_to_space s endPos l =
     (if l < endPos then
        bind_l (des_at s l) (\<lambda>c. if c \<noteq> KSpace then forward_to_space s endPos (l + 1) else Inr l)
      else Inr l)"
  by pat_completeness auto
termination by (relation "measure (\<lambda>(s, endPos, l). nat (endPos - l))") auto

declare back_to_space.simps [simp del] forward_to_space.simps [simp del]

definition is_space_at :: "string16 \<Rightarrow> int \<Rightarrow> bool leaving" where
  "is_space_at s i = bind_l (des_at s i) (\<lambda>c. Inr (c = KSpace))"

text \<open>Both edges of the last test are 0, so the last character of the field is never looked at.\<close>

definition LocateSubString :: "string16 \<Rightarrow> int \<Rightarrow> int \<Rightarrow> (bool \<times> int \<times> int) leaving" where
  "LocateSubString s atPos lastIn =
     (let endPos = int (length s) - 1 in
      bind_l (back_to_space s atPos) (\<lambda>f0.
      bind_l (if 0 \<le> f0 then is_space_at s f0 else Inr False) (\<lambda>sp.
        let f = (if sp then f0 + 1 else f0) in
        if f < atPos then
          bind_l (forward_to_space s endPos atPos) (\<lambda>l0.
          bind_l (if l0 < endPos then is_space_at s l0 else Inr False) (\<lambda>sp2.
            let l = (if sp2 then l0 - 1 else l0) in
            if atPos < l + 1 then
              bind_l (isSurroundedByAngledBrackets s atPos) (\<lambda>(surrounded, left, right).
                let f1 = (if surrounded then left + 1 else f); l1 = (if surrounded then right - 1 else l)
                in bind_l (des_at s 0) (\<lambda>c.
                     if c = KAt then Inr (False, f1, l1)
                     else bind_l (des_at s 0) (\<lambda>c2. Inr (c2 \<noteq> KAt, f1, l1))))
            else Inr (False, f, l)))
        else Inr (False, f, lastIn))))"

section \<open>The searches for an address\<close>

function valid_email_loop :: "string16 \<Rightarrow> int \<Rightarrow> int \<Rightarrow> (bool \<times> int \<times> int) leaving" where
  "valid_email_loop s lastIn startPos =
     (case des_right s (int (length s) - startPos) of
        Inl e \<Rightarrow> Inl e
      | Inr rightString \<Rightarrow>
          let atPos = locate KAt rightString in
          if isValidRoutedEmailAddress s then Inr (True, 0, int (length s) - 1)
          else (case LocateSubString rightString atPos lastIn of
                  Inl e \<Rightarrow> Inl e
                | Inr (found, f, l) \<Rightarrow>
                    if found \<and> l - f > 1 \<and> f < atPos \<and> atPos < l then
                      bind_l (des_mid s (f + startPos) (l - f + 1)) (\<lambda>address.
                        if f + startPos + locate_reverse KAt address = atPos + startPos then
                          bind_l (isValidEmailString address) (\<lambda>v. Inr (v, f + startPos, l + startPos))
                        else Inr (False, f + startPos, l + startPos))
                    else if 0 \<le> atPos \<and> startPos + atPos + 1 < int (length s)
                    then valid_email_loop s l (startPos + atPos + 1)
                    else Inr (False, f, l)))"
  by pat_completeness auto
termination by (relation "measure (\<lambda>(s, l, startPos). nat (int (length s) - startPos))") auto

definition isValidEmailAddress :: "string16 \<Rightarrow> (bool \<times> int \<times> int) leaving" where
  "isValidEmailAddress s = valid_email_loop s 0 0"

text \<open>The routed case returns positions of the rest of the string, without adding \<open>startPos\<close>.\<close>

function legal_email_loop :: "string16 \<Rightarrow> int \<Rightarrow> int \<Rightarrow> int \<Rightarrow> (bool \<times> int \<times> int) leaving" where
  "legal_email_loop s firstIn lastIn startPos =
     (case des_right s (int (length s) - startPos) of
        Inl e \<Rightarrow> Inl e
      | Inr rightString \<Rightarrow>
          let atPos = locate KAt rightString in
          (case (if 0 < atPos then isSurroundedByAngledBrackets rightString atPos
                 else Inr (False, firstIn, lastIn)) of
             Inl e \<Rightarrow> Inl e
           | Inr (valid, f, l) \<Rightarrow>
               (case (if valid \<and> f < l \<and> f + 1 < l
                      then bind_l (des_mid rightString (f + 1) (l - f - 1))
                             (\<lambda>x. Inr (isValidRoutedEmailAddress x))
                      else Inr False) of
                  Inl e \<Rightarrow> Inl e
                | Inr routed \<Rightarrow>
                    if routed then Inr (True, f, l)
                    else if valid \<and> f + 1 < atPos \<and> atPos < l - 1 then
                      bind_l (des_mid s (f + startPos) (l - f + 1))
                        (\<lambda>x. Inr (isValidString x, f + startPos, l + startPos))
                    else if 0 \<le> atPos \<and> startPos + atPos + 1 < int (length s)
                    then legal_email_loop s f l (startPos + atPos + 1)
                    else Inr (False, f, l))))"
  by pat_completeness auto
termination by (relation "measure (\<lambda>(s, f, l, startPos). nat (int (length s) - startPos))") auto

declare valid_email_loop.simps [simp del] legal_email_loop.simps [simp del]

definition isLegalEmailAddress :: "string16 \<Rightarrow> (bool \<times> int \<times> int) leaving" where
  "isLegalEmailAddress s = legal_email_loop s 0 0 0"

section \<open>The interface\<close>

definition ValidInternetEmailAddress :: "string16 \<Rightarrow> bool leaving" where
  "ValidInternetEmailAddress s =
     bind_l (isValidEmailAddress s) (\<lambda>(valid, _, _). Inr (valid \<and> hasAngledBrackets s))"

definition GetValidInternetEmailAddressFromString :: "string16 \<Rightarrow> string16 leaving" where
  "GetValidInternetEmailAddressFromString s =
     bind_l (isLegalEmailAddress s) (\<lambda>(legal, f, l).
       if legal then des_mid s (1 + f) (l - f - 1)
       else bind_l (isValidEmailAddress s) (\<lambda>(valid, f, l).
              if valid then des_mid s f (l - f + 1) else Inr s))"

text \<open>The spaces between the alias and the address, and those before the alias.\<close>

function alias_end :: "string16 \<Rightarrow> int \<Rightarrow> int leaving" where
  "alias_end s l =
     (if 0 \<le> l then bind_l (des_at s l) (\<lambda>c. if c = KSpace then alias_end s (l - 1) else Inr l)
      else Inr l)"
  by pat_completeness auto
termination by (relation "measure (\<lambda>(s, l). nat (l + 1))") auto

function alias_start :: "string16 \<Rightarrow> int \<Rightarrow> int \<Rightarrow> int leaving" where
  "alias_start s right l =
     (if l < right then bind_l (des_at s l) (\<lambda>c. if c = KSpace then alias_start s right (l + 1) else Inr l)
      else Inr l)"
  by pat_completeness auto
termination by (relation "measure (\<lambda>(s, right, l). nat (right - l))") auto

declare alias_end.simps [simp del] alias_start.simps [simp del]

definition GetValidAlias :: "string16 \<Rightarrow> (string16 \<times> symbian_error) leaving" where
  "GetValidAlias s =
     bind_l (isLegalEmailAddress s) (\<lambda>(legal, f, l).
       if legal then
         bind_l (alias_end s (f - 1)) (\<lambda>right.
           if 0 \<le> right then
             bind_l (alias_start s right 0) (\<lambda>left.
               if left \<le> right
               then bind_l (des_mid s left (right - left + 1)) (\<lambda>x. Inr (x, KErrNone))
               else Inr (s, KErrNotFound))
           else Inr (s, KErrNotFound))
       else Inr (s, KErrNotFound))"

definition GetValidComment :: "string16 \<Rightarrow> (string16 \<times> symbian_error) leaving" where
  "GetValidComment s =
     bind_l (isLegalEmailAddress s) (\<lambda>(legal, _, _).
       if legal then
         bind_l (isSurroundedByRoundBrackets s) (\<lambda>(enclosed, f, l).
           if enclosed then bind_l (des_mid s (f + 1) (l - (f + 1))) (\<lambda>x. Inr (x, KErrNone))
           else Inr (s, KErrNotFound))
       else Inr (s, KErrNotFound))"

section \<open>Truncation of a list of addresses\<close>

text \<open>The loop may not end: \<open>None\<close> is a call that never returns. \<open>lastIn\<close> is the value the caller
  passes in \<open>aLastChar\<close>.\<close>

partial_function (option) truncate_loop ::
  "string16 \<Rightarrow> int \<Rightarrow> int \<Rightarrow> int \<Rightarrow> int \<Rightarrow> (int \<times> int) leaving option" where
  [code]: "truncate_loop s aLimit aLastChar startPos count =
     (case des_right s (int (length s) - startPos) of
        Inl e \<Rightarrow> Some (Inl e)
      | Inr rightString \<Rightarrow>
          let atPos = locate KAt rightString in
          (case (if 0 < atPos then
                   bind_l (isSurroundedByAngledBrackets rightString atPos) (\<lambda>(valid, f, l).
                     if valid then
                       if count + 1 \<le> aLimit then Inr (l + startPos, l + startPos + 1, count + 1)
                       else Inr (l, startPos, count + 1)
                     else Inr (l, startPos + atPos + 1, count))
                 else Inr (aLastChar, startPos, count)) of
             Inl e \<Rightarrow> Some (Inl e)
           | Inr (last1, start1, count1) \<Rightarrow>
               if 0 \<le> atPos \<and> start1 < int (length s) \<and> count1 < aLimit
               then truncate_loop s aLimit last1 start1 count1
               else Some (Inr (last1, count1))))"

definition TruncateAddressString :: "string16 \<Rightarrow> int \<Rightarrow> int \<Rightarrow> (bool \<times> int) leaving option" where
  "TruncateAddressString s aLimit lastIn =
     map_option (\<lambda>r. bind_l r (\<lambda>(p, count). Inr (\<not> count < aLimit, p + 1)))
       (truncate_loop s aLimit lastIn 0 0)"

end
