(* ===== verification/Mail_Address_Laws.thy ===== *)
theory Mail_Address_Laws
  imports Mail_Address
begin

text \<open>
  What the e-mail address parser accepts, against a grammar of addresses: the searches stay inside
  the field, a valid field holds an address of the grammar, and an address of the grammar is found.
\<close>

section \<open>The grammar\<close>

definition good_mailbox :: "string16 \<Rightarrow> bool" where
  "good_mailbox m \<longleftrightarrow> m \<noteq> [] \<and> hd m \<noteq> KDot \<and> last m \<noteq> KDot \<and> list_all isValidMailboxChar m"

fun no_double_dot :: "string16 \<Rightarrow> bool" where
  "no_double_dot (c # d # cs) \<longleftrightarrow> \<not> (c = KDot \<and> d = KDot) \<and> no_double_dot (d # cs)"
| "no_double_dot _ \<longleftrightarrow> True"

definition good_domain :: "string16 \<Rightarrow> bool" where
  "good_domain d \<longleftrightarrow> d \<noteq> [] \<and> hd d \<noteq> KDot \<and> last d \<noteq> KDot
     \<and> list_all isValidDomainNameChar d \<and> no_double_dot d"

section \<open>Descriptors\<close>

lemma locate_cases: "locate c s = -1 \<and> c \<notin> set s \<or>
    0 \<le> locate c s \<and> locate c s < int (length s) \<and> s ! nat (locate c s) = c
      \<and> c \<notin> set (take (nat (locate c s)) s)"
  by (induction s) (auto simp: nat_add_distrib)

lemma locate_none: "locate c s < 0 \<longleftrightarrow> c \<notin> set s"
  by (induction s) auto

lemma locate_append: "c \<notin> set m \<Longrightarrow> locate c (m @ c # d) = int (length m)"
  by (induction m) auto

lemma locate_bounds: "-1 \<le> locate c s \<and> locate c s < int (length s)"
  using locate_cases [of c s] by auto

lemma locate_reverse_bounds: "-1 \<le> locate_reverse c s \<and> locate_reverse c s < int (length s)"
  using locate_bounds [of c "rev s"] by (auto simp: locate_reverse_def)

lemma locate_reverse_append: "c \<notin> set d \<Longrightarrow> locate_reverse c (m @ c # d) = int (length m)"
  using locate_append [of c "rev d" "rev m"] by (simp add: locate_reverse_def)

lemma des_at_in [simp]: "0 \<le> i \<Longrightarrow> i < int (length s) \<Longrightarrow> des_at s i = Inr (s ! nat i)"
  by (simp add: des_at_def)

lemma des_right_in: "0 \<le> p \<Longrightarrow> p \<le> int (length s) \<Longrightarrow> des_right s (int (length s) - p) = Inr (drop (nat p) s)"
  by (simp add: des_right_def nat_diff_distrib)

lemma des_mid_in: "0 \<le> p \<Longrightarrow> 0 \<le> n \<Longrightarrow> p + n \<le> int (length s) \<Longrightarrow>
    des_mid s p n = Inr (take (nat n) (drop (nat p) s))"
  by (simp add: des_mid_def)

lemma des_mid_append: "des_mid (xs @ ys @ zs) (int (length xs)) (int (length ys)) = Inr ys"
  by (simp add: des_mid_def)

section \<open>Valid strings\<close>

lemma mailbox_loop_all: "mailbox_loop m \<longleftrightarrow> list_all isValidMailboxChar m"
  by (induction m) auto

lemma domain_loop_all:
  "domain_loop b d \<longleftrightarrow> list_all isValidDomainNameChar d \<and> no_double_dot d \<and> (b \<longrightarrow> d = [] \<or> hd d \<noteq> KDot)"
proof (induction d arbitrary: b)
  case (Cons c d)
  then show ?case
    by (cases d) (auto simp: isDotChar_def isValidDomainNameChar_def)
qed simp

lemma valid_string_all: "isValidString s \<longleftrightarrow> list_all isValidChar s"
  by (induction s rule: isValidString.induct) auto

lemma is_dot_in: "0 \<le> i \<Longrightarrow> i < int (length s) \<Longrightarrow> is_dot_at s i = Inr (s ! nat i = KDot)"
  by (simp add: is_dot_at_def)

lemma valid_email_string:
  assumes "KAt \<notin> set m" "m \<noteq> []" "d \<noteq> []"
  shows "isValidEmailString (m @ KAt # d) = Inr (good_mailbox m \<and> good_domain d)"
proof -
  let ?s = "m @ KAt # d"
  have l: "0 < length m" "0 < length d" using assms(2,3) by auto
  have "is_dot_at ?s 0 = Inr (hd m = KDot)"
    using l assms(2) by (simp add: is_dot_in nth_append hd_conv_nth)
  moreover have "is_dot_at ?s (int (length m) - 1) = Inr (last m = KDot)"
  proof -
    have "nat (int (length m) - 1) = length m - 1" by simp
    then show ?thesis using l assms(2) by (simp add: is_dot_in nth_append last_conv_nth)
  qed
  moreover have "is_dot_at ?s (int (length m) + 1) = Inr (hd d = KDot)"
    using l assms(3) by (simp add: is_dot_in nth_append hd_conv_nth nat_add_distrib)
  moreover have "is_dot_at ?s (int (length ?s) - 1) = Inr (last d = KDot)"
  proof -
    have "nat (int (length ?s) - 1) = length ?s - 1" by simp
    then show ?thesis using l assms(3) by (simp add: is_dot_in last_conv_nth)
  qed
  moreover have "drop (nat (int (length m) + 1)) ?s = d" "take (nat (int (length m))) ?s = m"
    by (simp_all add: nat_add_distrib)
  ultimately show ?thesis
    by (auto simp: isValidEmailString_def locate_append [OF assms(1)] Let_def or_else_def
        good_mailbox_def good_domain_def mailbox_loop_all domain_loop_all assms simp del: length_append)
qed

section \<open>The searches stay inside the field\<close>

lemma back_to_space_in:
  "f < int (length s) \<Longrightarrow> \<exists>f0. back_to_space s f = Inr f0 \<and> f0 \<le> f \<and> (0 \<le> f \<longrightarrow> 0 \<le> f0) \<and> (f \<le> 0 \<longrightarrow> f0 = f)"
proof (induction s f rule: back_to_space.induct)
  case (1 s f)
  show ?case
  proof (cases "0 < f \<and> s ! nat f \<noteq> KSpace")
    case True
    with 1(1) [of "s ! nat f"] 1(2) obtain f0 where
      "back_to_space s (f - 1) = Inr f0" "f0 \<le> f - 1" "0 \<le> f - 1 \<longrightarrow> 0 \<le> f0" by auto
    with True 1(2) show ?thesis by (simp add: back_to_space.simps [of s f])
  qed (use 1(2) in \<open>auto simp: back_to_space.simps [of s f]\<close>)
qed

lemma back_to_space_none:
  "KSpace \<notin> set s \<Longrightarrow> 0 \<le> f \<Longrightarrow> f < int (length s) \<Longrightarrow> back_to_space s f = Inr 0"
proof (induction s f rule: back_to_space.induct)
  case (1 s f)
  have "s ! nat f \<in> set s" using 1(3,4) by (intro nth_mem) linarith
  then have "s ! nat f \<noteq> KSpace" using 1(2) by metis
  with 1 show ?case by (auto simp: back_to_space.simps [of s f])
qed

lemma forward_to_space_in:
  "0 \<le> l \<Longrightarrow> endPos < int (length s) \<Longrightarrow>
   \<exists>l0. forward_to_space s endPos l = Inr l0 \<and> l \<le> l0 \<and> (l \<le> endPos \<longrightarrow> l0 \<le> endPos)"
proof (induction s endPos l rule: forward_to_space.induct)
  case (1 s endPos l)
  show ?case
  proof (cases "l < endPos \<and> s ! nat l \<noteq> KSpace")
    case True
    with 1(1) [of "s ! nat l"] 1(2,3) have "\<exists>l0. forward_to_space s endPos (l + 1) = Inr l0 \<and> l + 1 \<le> l0
      \<and> (l + 1 \<le> endPos \<longrightarrow> l0 \<le> endPos)" by simp
    with True 1(2,3) show ?thesis by (auto simp: forward_to_space.simps [of s endPos l])
  qed (use 1(2,3) in \<open>auto simp: forward_to_space.simps [of s endPos l]\<close>)
qed

lemma forward_to_space_none:
  "KSpace \<notin> set s \<Longrightarrow> 0 \<le> l \<Longrightarrow> l \<le> endPos \<Longrightarrow> endPos < int (length s) \<Longrightarrow>
   forward_to_space s endPos l = Inr endPos"
proof (induction s endPos l rule: forward_to_space.induct)
  case (1 s endPos l)
  have "s ! nat l \<in> set s" using 1(3-5) by (intro nth_mem) linarith
  then have "s ! nat l \<noteq> KSpace" using 1(2) by metis
  with 1 show ?case by (auto simp: forward_to_space.simps [of s endPos l])
qed

lemma surrounded_in:
  assumes "0 \<le> p" "p < int (length s)"
  shows "\<exists>v l r. isSurroundedByAngledBrackets s p = Inr (v, l, r) \<and> r < int (length s) \<and> (v \<longrightarrow> 0 \<le> l \<and> l < r)"
proof -
  have R: "des_right s (int (length s) - p - 1) = Inr (drop (nat (p + 1)) s)"
    using des_right_in [of "p + 1" s] assms by (simp add: algebra_simps)
  have L: "des_left s p = Inr (take (nat p) s)" using assms by (simp add: des_left_def)
  have "locate KRightAngle (drop (nat (p + 1)) s) + p + 1 < int (length s)"
    using locate_bounds [of KRightAngle "drop (nat (p + 1)) s"] assms by auto
  then show ?thesis
    using locate_bounds [of KRightAngle s]
    by (auto simp: isSurroundedByAngledBrackets_def Let_def R L)
qed

lemma space_at_in: "0 \<le> i \<Longrightarrow> i < int (length s) \<Longrightarrow> is_space_at s i = Inr (s ! nat i = KSpace)"
  by (simp add: is_space_at_def)

lemma locate_substring_in:
  assumes "p = locate KAt s"
  shows "\<exists>b f l. LocateSubString s p q = Inr (b, f, l) \<and> (b \<longrightarrow> 0 \<le> p \<and> 0 \<le> f \<and> l < int (length s))"
proof -
  have pl: "p < int (length s)" "-1 \<le> p" using locate_bounds [of KAt s] assms by auto
  from back_to_space_in [OF pl(1)] obtain f0 where
    f0: "back_to_space s p = Inr f0" "f0 \<le> p" "0 \<le> p \<longrightarrow> 0 \<le> f0" "p \<le> 0 \<longrightarrow> f0 = p" by blast
  obtain sp where sp: "(if 0 \<le> f0 then is_space_at s f0 else Inr False) = Inr sp"
    using f0(2) pl space_at_in [of f0 s] by (cases "0 \<le> f0") auto
  define f where "f = (if sp then f0 + 1 else f0)"
  show ?thesis
  proof (cases "f < p")
    case True
    then have p0: "0 \<le> p" using pl f0 f_def sp by (auto split: if_splits)
    have fpos: "0 \<le> f" using f0(3) p0 by (simp add: f_def)
    let ?e = "int (length s) - 1"
    from forward_to_space_in [OF p0, of ?e s] obtain l0 where
      l0: "forward_to_space s ?e p = Inr l0" "p \<le> l0" "l0 \<le> ?e" using pl by auto
    obtain sp2 where sp2: "(if l0 < ?e then is_space_at s l0 else Inr False) = Inr sp2"
      using l0 p0 space_at_in [of l0 s] by (cases "l0 < ?e") auto
    define l where "l = (if sp2 then l0 - 1 else l0)"
    from surrounded_in [OF p0 pl(1)] obtain v a b where
      v: "isSurroundedByAngledBrackets s p = Inr (v, a, b)" "b < int (length s)" "v \<longrightarrow> 0 \<le> a \<and> a < b"
      by blast
    have "s \<noteq> []" using p0 pl by auto
    then have c: "des_at s 0 = Inr (s ! 0)" by simp
    have "l < int (length s)" using l0 by (auto simp: l_def)
    with v(2,3) p0 fpos show ?thesis
      by (auto simp: LocateSubString_def Let_def f0(1) sp f_def [symmetric] True l0(1) sp2
          l_def [symmetric] v(1) c)
  qed (auto simp: LocateSubString_def Let_def f0(1) sp f_def [symmetric])
qed

section \<open>What is found is an address\<close>

text \<open>The address \<open>m@d\<close> stands in the field, from \<open>f\<close> to \<open>l\<close>.\<close>

definition stands_at :: "string16 \<Rightarrow> int \<Rightarrow> int \<Rightarrow> string16 \<Rightarrow> string16 \<Rightarrow> bool" where
  "stands_at s f l m d \<longleftrightarrow> (\<exists>pre post. s = pre @ m @ KAt # d @ post
     \<and> f = int (length pre) \<and> l = int (length pre + length m + length d))"

lemma slice_at:
  assumes "r ! P = x" "F < P" "P < L" "L < length r"
  shows "take (L - F + 1) (drop F r) = take (P - F) (drop F r) @ x # take (L - P) (drop (Suc P) r)"
proof -
  have eq: "L - F + 1 = P - F + Suc (L - P)" and d: "drop (P - F) (drop F r) = drop P r"
    using assms by auto
  have "drop P r = x # drop (Suc P) r"
    using assms Cons_nth_drop_Suc [of P r] by simp
  then show ?thesis unfolding eq take_add d by simp
qed

lemma found_address:
  assumes p: "p = locate KAt (drop n s)" and r: "n \<le> length s"
    and b: "0 \<le> f" "f < p" "p < l" "l < int (length (drop n s))"
  obtains m d where "des_mid s (f + int n) (l - f + 1) = Inr (m @ KAt # d)"
    "stands_at s (f + int n) (l + int n) m d" "KAt \<notin> set m" "m \<noteq> []" "d \<noteq> []"
    "p = f + int (length m)"
proof -
  let ?r = "drop n s"
  obtain F where F: "f = int F" using b(1) by (metis nonneg_eq_int)
  obtain P where P: "p = int P" using b(1,2) by (metis less_imp_le nonneg_eq_int order_trans)
  obtain L where L: "l = int L" using b(1-3) P by (metis less_imp_le nonneg_eq_int of_nat_0_le_iff order_trans)
  have lt: "F < P" "P < L" "L < length ?r" using b F P L by auto
  have at: "?r ! P = KAt" "KAt \<notin> set (take P ?r)"
    using locate_cases [of KAt ?r] p [symmetric] P by (auto simp del: nth_drop)
  define m where "m = take (P - F) (drop F ?r)"
  define d where "d = take (L - P) (drop (Suc P) ?r)"
  note slice = slice_at [OF at(1) lt, folded m_def d_def]
  have len: "length m = P - F" "length d = L - P" using lt by (auto simp: m_def d_def)
  have "m = drop F (take P ?r)" using lt by (simp add: m_def drop_take)
  then have "KAt \<notin> set m" using at(2) by (metis in_set_dropD)
  moreover have "des_mid s (f + int n) (l - f + 1) = Inr (m @ KAt # d)"
  proof -
    have "nat (l - f + 1) = L - F + 1" "nat (f + int n) = F + n" using lt F L by auto
    then show ?thesis
      using lt F L slice r by (simp add: des_mid_def add.commute)
  qed
  moreover have "stands_at s (f + int n) (l + int n) m d"
  proof -
    have "?r = take F ?r @ take (L - F + 1) (drop F ?r) @ drop (L + 1) ?r"
    proof -
      have "drop (L + 1) ?r = drop (L - F + 1) (drop F ?r)" using lt by simp
      then show ?thesis by (metis append_take_drop_id)
    qed
    then have "s = (take n s @ take F ?r) @ m @ KAt # d @ drop (L + 1) ?r"
      using slice append_take_drop_id [of n s] by (metis append.assoc append_Cons)
    moreover have "length (take n s @ take F ?r) = n + F" using lt r by simp
    ultimately show ?thesis
      using lt len F L unfolding stands_at_def by (intro exI [of _ "take n s @ take F ?r"] exI [of _ "drop (L + 1) ?r"]) simp
  qed
  moreover have "m \<noteq> []" "d \<noteq> []" "p = f + int (length m)" using len lt F P by auto
  ultimately show ?thesis using that by blast
qed

lemma valid_loop_result:
  assumes "0 \<le> startPos" "startPos \<le> int (length s)"
  shows "\<exists>b f l. valid_email_loop s q startPos = Inr (b, f, l) \<and>
    (b \<longrightarrow> isValidRoutedEmailAddress s \<and> f = 0 \<and> l = int (length s) - 1
      \<or> (\<exists>m d. stands_at s f l m d \<and> good_mailbox m \<and> good_domain d))"
  using assms
proof (induction s q startPos rule: valid_email_loop.induct)
  case (1 s q startPos)
  let ?n = "nat startPos" let ?r = "drop ?n s" let ?p = "locate KAt ?r"
  have R: "des_right s (int (length s) - startPos) = Inr ?r" by (rule des_right_in [OF 1(2,3)])
  from locate_substring_in [OF refl, of ?r q] obtain b f l where
    S: "LocateSubString ?r ?p q = Inr (b, f, l)" "b \<longrightarrow> 0 \<le> ?p \<and> 0 \<le> f \<and> l < int (length ?r)" by blast
  consider (routed) "isValidRoutedEmailAddress s"
    | (found) "\<not> isValidRoutedEmailAddress s" "b \<and> l - f > 1 \<and> f < ?p \<and> ?p < l"
    | (next_at) "\<not> isValidRoutedEmailAddress s" "\<not> (b \<and> l - f > 1 \<and> f < ?p \<and> ?p < l)"
        "0 \<le> ?p \<and> startPos + ?p + 1 < int (length s)"
    | (none) "\<not> isValidRoutedEmailAddress s" "\<not> (b \<and> l - f > 1 \<and> f < ?p \<and> ?p < l)"
        "\<not> (0 \<le> ?p \<and> startPos + ?p + 1 < int (length s))" by blast
  then show ?case
  proof cases
    case found
    have n: "?n \<le> length s" "int ?n = startPos" using 1(2,3) by auto
    from found(2) S(2) obtain m d where M:
      "des_mid s (f + int ?n) (l - f + 1) = Inr (m @ KAt # d)"
      "stands_at s (f + int ?n) (l + int ?n) m d" "KAt \<notin> set m" "m \<noteq> []" "d \<noteq> []"
      using found_address [OF refl n(1), of f l] by (metis (no_types, lifting))
    show ?thesis
      using found R S(1) M n valid_email_string [OF M(3-5)]
      by (auto simp: valid_email_loop.simps [of s q startPos] Let_def)
  next
    case next_at
    have "\<exists>b f' l'. valid_email_loop s l (startPos + ?p + 1) = Inr (b, f', l') \<and>
        (b \<longrightarrow> isValidRoutedEmailAddress s \<and> f' = 0 \<and> l' = int (length s) - 1
          \<or> (\<exists>m d. stands_at s f' l' m d \<and> good_mailbox m \<and> good_domain d))"
      by (rule 1(1) [OF R refl next_at(1) S(1) refl refl next_at(2,3)]) (use 1(2) next_at(3) in auto)
    moreover have "valid_email_loop s q startPos = valid_email_loop s l (startPos + ?p + 1)"
      by (simp only: valid_email_loop.simps [of s q startPos] R sum.case Let_def next_at if_False
          S(1) prod.case if_True simp_thms)
    ultimately show ?thesis by simp
  qed (use R S(1) in \<open>auto simp: valid_email_loop.simps [of s q startPos] Let_def\<close>)
qed

section \<open>An address of the grammar is found\<close>

lemma valid_chars:
  "isValidMailboxChar c \<Longrightarrow> c \<notin> {KSpace, KAt, KLeftAngle, KRightAngle} \<and> isValidChar c"
  "isValidDomainNameChar c \<Longrightarrow> c \<notin> {KSpace, KAt, KLeftAngle, KRightAngle} \<and> isValidChar c"
  by (auto simp: isValidMailboxChar_def isValidDomainNameChar_def isValidChar_def
      word_le_nat_alt word_less_nat_alt)

lemma good_chars:
  "good_mailbox m \<Longrightarrow> set m \<inter> {KSpace, KAt, KLeftAngle, KRightAngle} = {} \<and> list_all isValidChar m \<and> m \<noteq> []"
  "good_domain d \<Longrightarrow> set d \<inter> {KSpace, KAt, KLeftAngle, KRightAngle} = {} \<and> list_all isValidChar d \<and> d \<noteq> []"
  using valid_chars by (auto simp: good_mailbox_def good_domain_def list_all_iff)

lemma no_routed: "good_mailbox m \<Longrightarrow> \<not> isValidRoutedEmailAddress (m @ x)"
  using good_chars(1) [of m] by (cases m) (auto simp: isValidRoutedEmailAddress_def)

lemma plain_substring:
  assumes "set s \<inter> {KSpace, KLeftAngle} = {}" "locate KAt s = p" "0 < p"
  shows "LocateSubString s p q = Inr (True, 0, int (length s) - 1)"
proof -
  have pl: "p < int (length s)" using locate_bounds [of KAt s] assms(2) by auto
  then have ne: "s \<noteq> []" using assms(3) by auto
  have sp: "KSpace \<notin> set s" "KLeftAngle \<notin> set s" using assms(1) by auto
  have h: "s ! 0 \<noteq> KAt" using assms(2,3) ne by (cases s) auto
  have h2: "s ! 0 \<noteq> KSpace" using sp(1) ne by (metis length_greater_0_conv nth_mem)
  have B: "back_to_space s p = Inr 0" by (rule back_to_space_none [OF sp(1)]) (use assms(3) pl in auto)
  have F: "forward_to_space s (int (length s) - 1) p = Inr (int (length s) - 1)"
    by (rule forward_to_space_none [OF sp(1)]) (use assms(3) pl in auto)
  have L: "locate KLeftAngle s < 0" "locate_reverse KLeftAngle (take (nat p) s) < 0"
    using sp(2) by (auto simp: locate_none locate_reverse_def dest: in_set_takeD)
  obtain v l r where V: "isSurroundedByAngledBrackets s p = Inr (v, l, r)" "r < int (length s)"
    "v \<longrightarrow> 0 \<le> l \<and> l < r" using surrounded_in [of p s] assms(3) pl by auto
  have "\<not> v"
    using V(1) L assms(3) pl
    by (auto simp: isSurroundedByAngledBrackets_def des_left_def Let_def bind_l_eq_Inr)
  with V(1) show ?thesis
    using assms(3) pl ne h h2 by (simp add: LocateSubString_def Let_def B F is_space_at_def)
qed

lemma address_accepted:
  assumes "good_mailbox m" "good_domain d"
  shows "isValidEmailAddress (m @ KAt # d) = Inr (True, 0, int (length m + length d))"
    and "hasAngledBrackets (m @ KAt # d)"
proof -
  let ?s = "m @ KAt # d"
  note gm = good_chars(1) [OF assms(1)] and gd = good_chars(2) [OF assms(2)]
  have at: "locate KAt ?s = int (length m)" using gm by (intro locate_append) auto
  have S: "LocateSubString ?s (int (length m)) 0 = Inr (True, 0, int (length ?s) - 1)"
    by (rule plain_substring [OF _ at]) (use gm gd in auto)
  have M: "des_mid ?s 0 (int (length m + length d) + 1) = Inr ?s"
    by (simp add: des_mid_def nat_add_distrib)
  have r: "locate_reverse KAt ?s = int (length m)" using gd by (intro locate_reverse_append) auto
  have l: "0 < length m" "0 < length d" "1 < int (length m) + int (length d)"
    using gm gd by (cases m; cases d; simp)+
  have v: "isValidEmailString ?s = Inr True"
    using valid_email_string [of m d] gm gd assms by auto
  have R: "des_right ?s (int (length ?s) - 0) = Inr ?s" by (simp add: des_right_def)
  have e: "int (length ?s) - 1 = int (length m + length d)" by simp
  show "isValidEmailAddress ?s = Inr (True, 0, int (length m + length d))"
    unfolding isValidEmailAddress_def
    by (subst valid_email_loop.simps) (use l no_routed [OF assms(1)] in
      \<open>simp only: R sum.case Let_def at S e prod.case if_False, simp add: M [simplified] r v\<close>)
  show "hasAngledBrackets ?s"
    using gm gd by (simp add: hasAngledBrackets_def Let_def locate_reverse_def locate_none)
qed

section \<open>An address in angled brackets\<close>

lemma bracketed_address:
  assumes "good_mailbox m" "good_domain d" "KAt \<notin> set alias"
  shows "isLegalEmailAddress (alias @ KLeftAngle # m @ KAt # d @ KRightAngle # rest)
    = Inr (True, int (length alias), int (length alias + length m + length d) + 2)"
proof -
  let ?s = "alias @ KLeftAngle # m @ KAt # d @ KRightAngle # rest"
  let ?a = "int (length alias)" and ?m = "int (length m)" and ?d = "int (length d)"
  let ?p = "?a + 1 + ?m"
  note gm = good_chars(1) [OF assms(1)] and gd = good_chars(2) [OF assms(2)]
  have l: "0 < ?m" "0 < ?d" using gm gd by (cases m; cases d; simp)+
  have at: "locate KAt ?s = ?p"
    using locate_append [of KAt "alias @ KLeftAngle # m" "d @ KRightAngle # rest"] gm assms(3) by auto
  have R: "des_right ?s (int (length ?s) - 0) = Inr ?s" by (simp add: des_right_def)
  have sr: "des_right ?s (int (length ?s) - ?p - 1) = Inr (d @ KRightAngle # rest)"
  proof -
    have n: "nat (?p + 1) = length (alias @ KLeftAngle # m @ [KAt])" by simp
    have "des_right ?s (int (length ?s) - (?p + 1)) = Inr (drop (nat (?p + 1)) ?s)"
      by (rule des_right_in) auto
    also have "drop (nat (?p + 1)) ?s = d @ KRightAngle # rest"
      unfolding n by simp
    finally show ?thesis by (simp add: algebra_simps)
  qed
  have sl: "des_left ?s ?p = Inr (alias @ KLeftAngle # m)"
  proof -
    have n: "nat ?p = length (alias @ KLeftAngle # m)" by simp
    show ?thesis unfolding des_left_def n by simp
  qed
  have r: "locate KRightAngle (d @ KRightAngle # rest) = ?d" using gd by (intro locate_append) auto
  have lf: "locate_reverse KLeftAngle (alias @ KLeftAngle # m) = ?a"
    using gm by (intro locate_reverse_append) auto
  have S: "isSurroundedByAngledBrackets ?s ?p = Inr (True, ?a, ?p + ?d + 1)"
    using l unfolding isSurroundedByAngledBrackets_def sr bind_l_simps Let_def sl r lf by simp
  have M: "des_mid ?s (?a + 1) (?p + ?d + 1 - ?a - 1) = Inr (m @ KAt # d)"
  proof -
    have e: "?a + 1 = int (length (alias @ [KLeftAngle]))"
      "?p + ?d + 1 - ?a - 1 = int (length (m @ KAt # d))" by auto
    show ?thesis
      using des_mid_append [of "alias @ [KLeftAngle]" "m @ KAt # d" "KRightAngle # rest"]
      by (subst e(2), subst e(1)) (simp only: append_assoc append_Cons append_Nil)
  qed
  have W: "des_mid ?s (?a + 0) (?p + ?d + 1 - ?a + 1) = Inr (KLeftAngle # m @ KAt # d @ [KRightAngle])"
  proof -
    have e: "?p + ?d + 1 - ?a + 1 = int (length (KLeftAngle # m @ KAt # d @ [KRightAngle]))"
      "?a + 0 = int (length alias)" by auto
    show ?thesis
      using des_mid_append [of "alias" "KLeftAngle # m @ KAt # d @ [KRightAngle]" rest]
      by (subst e(1), subst e(2)) (simp only: append_assoc append_Cons append_Nil)
  qed
  have V: "isValidString (KLeftAngle # m @ KAt # d @ [KRightAngle])"
    using gm gd by (simp add: valid_string_all) (simp add: isValidChar_def)
  have g: "?a < ?p + ?d + 1" "?a + 1 < ?p + ?d + 1" "?a + 1 < ?p" "?p < ?p + ?d + 1 - 1" "0 < ?p"
    using l by auto
  show ?thesis
    unfolding isLegalEmailAddress_def
    by (subst legal_email_loop.simps)
      (simp only: R sum.case Let_def at g if_True S prod.case M bind_l_simps no_routed [OF assms(1)]
        if_False simp_thms W V, simp)
qed

lemma bracketed_get:
  assumes "good_mailbox m" "good_domain d" "KAt \<notin> set alias"
  shows "GetValidInternetEmailAddressFromString (alias @ KLeftAngle # m @ KAt # d @ KRightAngle # rest)
    = Inr (m @ KAt # d)"
proof -
  have e: "1 + int (length alias) = int (length (alias @ [KLeftAngle]))"
    "int (length alias + length m + length d) + 2 - int (length alias) - 1 = int (length (m @ KAt # d))"
    by auto
  have "des_mid ((alias @ [KLeftAngle]) @ (m @ KAt # d) @ (KRightAngle # rest))
      (int (length (alias @ [KLeftAngle]))) (int (length (m @ KAt # d))) = Inr (m @ KAt # d)"
    by (rule des_mid_append)
  then have "des_mid (alias @ KLeftAngle # m @ KAt # d @ KRightAngle # rest)
      (int (length (alias @ [KLeftAngle]))) (int (length (m @ KAt # d))) = Inr (m @ KAt # d)" by simp
  then show ?thesis
    by (simp only: GetValidInternetEmailAddressFromString_def bracketed_address [OF assms] bind_l_simps
        prod.case if_True e)
qed

text \<open>The alias in front of the brackets, without its outer spaces.\<close>

lemma alias_end_spaces:
  assumes "c \<noteq> KSpace"
  shows "alias_end (xs @ c # replicate n KSpace @ ys) (int (length xs + n)) = Inr (int (length xs))"
proof (induction n arbitrary: ys)
  case 0
  then show ?case using assms by (simp add: alias_end.simps [of _ "int (length xs)"])
next
  case (Suc n)
  have e: "replicate (Suc n) KSpace @ ys = replicate n KSpace @ KSpace # ys"
    by (simp add: replicate_app_Cons_same)
  moreover have "(xs @ c # replicate (Suc n) KSpace @ ys) ! (length xs + Suc n) = KSpace"
    unfolding e by (simp add: nth_append)
  ultimately show ?case
    using Suc [of "KSpace # ys"]
    by (subst alias_end.simps) (simp del: replicate_Suc add: nat_add_distrib)
qed

lemma alias_start_spaces:
  assumes "c \<noteq> KSpace"
  shows "k \<le> n \<Longrightarrow> int n \<le> right \<Longrightarrow> right < int n + 1 + int (length ys) \<Longrightarrow>
    alias_start (replicate n KSpace @ c # ys) right (int k) = Inr (int n)"
proof (induction "n - k" arbitrary: k)
  case 0
  then have "k = n" by simp
  then show ?case using 0 assms
    by (subst alias_start.simps) (simp add: nth_append)
next
  case (Suc x)
  then have "k < n" by simp
  moreover have "(replicate n KSpace @ c # ys) ! k = KSpace" using \<open>k < n\<close> by (simp add: nth_append)
  moreover have "alias_start (replicate n KSpace @ c # ys) right (int (Suc k)) = Inr (int n)"
    by (rule Suc(1)) (use Suc \<open>k < n\<close> in auto)
  ultimately show ?case using Suc(4,5)
    by (subst alias_start.simps) (simp add: add.commute)
qed

lemma bracketed_alias:
  assumes "good_mailbox m" "good_domain d" "KAt \<notin> set name"
    and "name \<noteq> []" "hd name \<noteq> KSpace" "last name \<noteq> KSpace"
  shows "GetValidAlias (replicate a KSpace @ name @ replicate b KSpace
      @ KLeftAngle # m @ KAt # d @ KRightAngle # rest) = Inr (name, KErrNone)"
proof -
  let ?rest = "KLeftAngle # m @ KAt # d @ KRightAngle # rest"
  let ?A = "replicate a KSpace @ name @ replicate b KSpace"
  obtain xs z where xz: "name = xs @ [z]" using assms(4) by (cases name rule: rev_cases) auto
  obtain c cs where cc: "name = c # cs" using assms(4) by (cases name) auto
  have nz: "z \<noteq> KSpace" using assms(6) xz by simp
  have nc: "c \<noteq> KSpace" using assms(5) cc by simp
  let ?r = "int (length (replicate a KSpace @ xs))"
  have legal: "isLegalEmailAddress (?A @ ?rest) = Inr (True, int (length ?A), int (length ?A + length m + length d) + 2)"
    by (rule bracketed_address [OF assms(1,2)]) (use assms(3) in auto)
  have e: "int (length ?A) - 1 = int (length (replicate a KSpace @ xs) + b)" by (simp add: xz)
  have E: "alias_end (?A @ ?rest) (int (length ?A) - 1) = Inr ?r"
    unfolding e using alias_end_spaces [OF nz, of "replicate a KSpace @ xs" b ?rest] by (simp add: xz)
  have S: "alias_start (?A @ ?rest) ?r 0 = Inr (int a)"
    using alias_start_spaces [OF nc, of 0 a ?r "cs @ replicate b KSpace @ ?rest"] xz cc
    by (auto simp: Cons_eq_append_conv)
  have M: "des_mid (?A @ ?rest) (int a) (?r - int a + 1) = Inr name"
    using des_mid_append [of "replicate a KSpace" name "replicate b KSpace @ ?rest"] by (simp add: xz add.commute)
  have "GetValidAlias (?A @ ?rest) = Inr (name, KErrNone)"
  proof -
    have "0 \<le> ?r" "int a \<le> ?r" by auto
    then show ?thesis
      by (simp only: GetValidAlias_def legal bind_l_simps prod.case if_True E S M)
  qed
  then show ?thesis by simp
qed

section \<open>No panic\<close>

lemma legal_loop_result:
  assumes "0 \<le> startPos" "startPos \<le> int (length s)"
  shows "\<exists>b f l. legal_email_loop s p q startPos = Inr (b, f, l) \<and> (b \<longrightarrow> 0 \<le> f \<and> f < l \<and> l < int (length s))"
  using assms
proof (induction s p q startPos rule: legal_email_loop.induct)
  case (1 s p q startPos)
  let ?n = "nat startPos" let ?r = "drop ?n s" let ?at = "locate KAt ?r"
  have R: "des_right s (int (length s) - startPos) = Inr ?r" by (rule des_right_in [OF 1(2,3)])
  have at: "?at < int (length ?r)" using locate_bounds by blast
  have "\<exists>v f l. (if 0 < ?at then isSurroundedByAngledBrackets ?r ?at else Inr (False, p, q)) = Inr (v, f, l)
    \<and> (v \<longrightarrow> 0 \<le> f \<and> f < l \<and> l < int (length ?r))"
    using surrounded_in [of ?at ?r] at by (cases "0 < ?at") (auto simp del: length_drop)
  then obtain v f l where S: "(if 0 < ?at then isSurroundedByAngledBrackets ?r ?at else Inr (False, p, q)) = Inr (v, f, l)"
    "v \<longrightarrow> 0 \<le> f \<and> f < l \<and> l < int (length ?r)" by blast
  obtain routed where T: "(if v \<and> f < l \<and> f + 1 < l
       then bind_l (des_mid ?r (f + 1) (l - f - 1)) (\<lambda>x. Inr (isValidRoutedEmailAddress x))
       else Inr False) = Inr routed" "routed \<longrightarrow> v"
    using S(2) by (cases "v \<and> f < l \<and> f + 1 < l") (auto simp: des_mid_in)
  have W: "v \<Longrightarrow> \<exists>x. des_mid s (f + startPos) (l - f + 1) = Inr x"
    using S(2) 1(2) by (auto simp: des_mid_def)
  consider (routed) "routed" | (plain) "\<not> routed" "v \<and> f + 1 < ?at \<and> ?at < l - 1"
    | (next_at) "\<not> routed" "\<not> (v \<and> f + 1 < ?at \<and> ?at < l - 1)" "0 \<le> ?at \<and> startPos + ?at + 1 < int (length s)"
    | (none) "\<not> routed" "\<not> (v \<and> f + 1 < ?at \<and> ?at < l - 1)" "\<not> (0 \<le> ?at \<and> startPos + ?at + 1 < int (length s))"
    by blast
  then show ?case
  proof cases
    case next_at
    have "\<exists>b f' l'. legal_email_loop s f l (startPos + ?at + 1) = Inr (b, f', l')
        \<and> (b \<longrightarrow> 0 \<le> f' \<and> f' < l' \<and> l' < int (length s))"
      by (rule 1(1) [OF R refl S(1) refl refl T(1) next_at]) (use 1(2) next_at(3) in auto)
    moreover have "legal_email_loop s p q startPos = legal_email_loop s f l (startPos + ?at + 1)"
      by (simp only: legal_email_loop.simps [of s p q startPos] R sum.case Let_def S(1) prod.case T(1)
          next_at if_False if_True simp_thms)
    ultimately show ?thesis by simp
  next
    case plain
    from W plain(2) obtain x where x: "des_mid s (f + startPos) (l - f + 1) = Inr x" by blast
    have "legal_email_loop s p q startPos = Inr (isValidString x, f + startPos, l + startPos)"
      by (simp only: legal_email_loop.simps [of s p q startPos] R sum.case Let_def S(1) prod.case T(1)
          plain(1) if_False if_P [OF plain(2)] x bind_l_simps)
    then show ?thesis using S(2) plain(2) 1(2,3) by auto
  next
    case routed
    have "legal_email_loop s p q startPos = Inr (True, f, l)"
      by (subst legal_email_loop.simps)
        (simp only: R sum.case Let_def S(1) prod.case T(1) if_P [OF routed])
    moreover have "0 \<le> f" "f < l" "l < int (length s)"
      using S(2) T(2) routed by (simp_all, linarith)
    ultimately show ?thesis by blast
  next
    case none
    have "legal_email_loop s p q startPos = Inr (False, f, l)"
      by (simp only: legal_email_loop.simps [of s p q startPos] R sum.case Let_def S(1) prod.case T(1)
          none if_False simp_thms)
    then show ?thesis by blast
  qed
qed

lemma alias_end_in:
  "l < int (length s) \<Longrightarrow> \<exists>r. alias_end s l = Inr r \<and> r \<le> l"
proof (induction s l rule: alias_end.induct)
  case (1 s l)
  show ?case
  proof (cases "0 \<le> l \<and> s ! nat l = KSpace")
    case True
    with 1(1) [of "s ! nat l"] 1(2) obtain r where "alias_end s (l - 1) = Inr r" "r \<le> l - 1" by auto
    with True 1(2) show ?thesis by (simp add: alias_end.simps [of s l])
  qed (use 1(2) in \<open>auto simp: alias_end.simps [of s l]\<close>)
qed

lemma alias_start_in:
  "0 \<le> l \<Longrightarrow> l \<le> right \<Longrightarrow> right < int (length s) \<Longrightarrow> \<exists>r. alias_start s right l = Inr r \<and> l \<le> r \<and> r \<le> right"
proof (induction s right l rule: alias_start.induct)
  case (1 s right l)
  show ?case
  proof (cases "l < right \<and> s ! nat l = KSpace")
    case True
    with 1(1) [of "s ! nat l"] 1(2-4) obtain r where "alias_start s right (l + 1) = Inr r" "l + 1 \<le> r" "r \<le> right" by auto
    with True 1(2-4) show ?thesis by (simp add: alias_start.simps [of s right l])
  qed (use 1(2-4) in \<open>auto simp: alias_start.simps [of s right l]\<close>)
qed

lemma get_address_returns: "\<exists>a. GetValidInternetEmailAddressFromString s = Inr a"
proof -
  from legal_loop_result [of 0 s 0 0] obtain b f l where L: "isLegalEmailAddress s = Inr (b, f, l)"
    "b \<longrightarrow> 0 \<le> f \<and> f < l \<and> l < int (length s)" by (auto simp: isLegalEmailAddress_def)
  from valid_loop_result [of 0 s 0] obtain v g k where V: "isValidEmailAddress s = Inr (v, g, k)"
    "v \<longrightarrow> isValidRoutedEmailAddress s \<and> g = 0 \<and> k = int (length s) - 1 \<or> (\<exists>m d. stands_at s g k m d)"
    by (auto simp: isValidEmailAddress_def) blast
  show ?thesis
  proof (cases b)
    case True
    with L show ?thesis by (auto simp: GetValidInternetEmailAddressFromString_def des_mid_def)
  next
    case False
    have "v \<Longrightarrow> \<exists>x. des_mid s g (k - g + 1) = Inr x"
      using V(2) by (auto simp: des_mid_def stands_at_def isValidRoutedEmailAddress_def)
    with False L V(1) show ?thesis by (cases v) (auto simp: GetValidInternetEmailAddressFromString_def)
  qed
qed

lemma get_alias_returns: "\<exists>a x. GetValidAlias s = Inr (a, x)"
proof -
  from legal_loop_result [of 0 s 0 0] obtain b f l where L: "isLegalEmailAddress s = Inr (b, f, l)"
    "b \<longrightarrow> 0 \<le> f \<and> f < l \<and> l < int (length s)" by (auto simp: isLegalEmailAddress_def)
  show ?thesis
  proof (cases b)
    case True
    with L have "f - 1 < int (length s)" by simp
    from alias_end_in [OF this] obtain r where r: "alias_end s (f - 1) = Inr r" "r \<le> f - 1" by blast
    show ?thesis
    proof (cases "0 \<le> r")
      case True
      from alias_start_in [of 0 r s] True r(2) L \<open>b\<close> obtain k where
        k: "alias_start s r 0 = Inr k" "0 \<le> k" "k \<le> r" by auto
      have "\<exists>x. des_mid s k (r - k + 1) = Inr x" using k r L \<open>b\<close> by (auto simp: des_mid_def)
      with True r k L \<open>b\<close> show ?thesis by (auto simp: GetValidAlias_def)
    qed (use r L \<open>b\<close> in \<open>simp add: GetValidAlias_def\<close>)
  qed (use L in \<open>simp add: GetValidAlias_def\<close>)
qed

section \<open>A loop that does not end\<close>

lemma truncate_stuck:
  assumes "truncate_loop s aLimit q p n = Some y"
  shows "\<not> (0 \<le> p \<and> p < int (length s) \<and> s ! nat p = KAt \<and> n < aLimit)"
proof (rule truncate_loop.raw_induct [where P = "\<lambda>s aLimit q p n y.
    \<not> (0 \<le> p \<and> p < int (length s) \<and> s ! nat p = KAt \<and> n < aLimit)", OF _ assms], rule notI)
  fix loop s aLimit q p n and y :: "(int \<times> int) leaving"
  assume IH: "\<And>s aLimit q p n y. loop s aLimit q p n = Some y \<Longrightarrow>
      \<not> (0 \<le> p \<and> p < int (length s) \<and> s ! nat p = KAt \<and> n < aLimit)"
    and step: "(case des_right s (int (length s) - p) of
        Inl e \<Rightarrow> Some (Inl e)
      | Inr rightString \<Rightarrow>
          let atPos = locate KAt rightString in
          (case (if 0 < atPos then
                   bind_l (isSurroundedByAngledBrackets rightString atPos) (\<lambda>(valid, f, l).
                     if valid then
                       if n + 1 \<le> aLimit then Inr (l + p, l + p + 1, n + 1)
                       else Inr (l, p, n + 1)
                     else Inr (l, p + atPos + 1, n))
                 else Inr (q, p, n)) of
             Inl e \<Rightarrow> Some (Inl e)
           | Inr (last1, start1, count1) \<Rightarrow>
               if 0 \<le> atPos \<and> start1 < int (length s) \<and> count1 < aLimit
               then loop s aLimit last1 start1 count1
               else Some (Inr (last1, count1)))) = Some y"
    and a: "0 \<le> p \<and> p < int (length s) \<and> s ! nat p = KAt \<and> n < aLimit"
  from a have R: "des_right s (int (length s) - p) = Inr (drop (nat p) s)" by (intro des_right_in) auto
  have "locate KAt (drop (nat p) s) = 0"
    using a Cons_nth_drop_Suc [of "nat p" s] by (cases "drop (nat p) s") auto
  with R a step have "loop s aLimit q p n = Some y" by simp
  from IH [OF this] a show False by blast
qed

end
