(* ===== verification/Mms_Address.thy ===== *)
theory Mms_Address
  imports Mail_Address
begin

text \<open>
  Addresses of multimedia messages: \<open>TMmsGenUtils\<close> (mmsengine/genutils/src/mmsgenutils.cpp). An
  address may be given as \<open>alias<address>\<close>. The functions that look an alias up in the contacts
  are not modelled.
\<close>

section \<open>The parts of an address\<close>

text \<open>The loop that looks for the last opening separator. It never ends when the separator is
  empty; \<open>None\<close> is a call that does not return.\<close>

partial_function (option) last_open :: "string16 \<Rightarrow> string16 \<Rightarrow> nat \<Rightarrow> nat option" where
  [code]: "last_open aOpen s firstPos =
     (case find_f id aOpen (drop firstPos s) of
        None \<Rightarrow> Some firstPos
      | Some p \<Rightarrow> last_open aOpen s (firstPos + p + length aOpen))"

definition PureAddress :: "string16 \<Rightarrow> string16 \<Rightarrow> string16 \<Rightarrow> string16 option" where
  "PureAddress aOpen aClose s =
     map_option (\<lambda>firstPos.
       if firstPos = 0 then s
       else
         let lastPos = length s - length aClose in
         if drop (length s - length aClose) s = aClose \<and> firstPos < lastPos
         then take (lastPos - firstPos) (drop firstPos s)
         else s) (last_open aOpen s 0)"

definition Alias :: "string16 \<Rightarrow> string16 \<Rightarrow> string16 \<Rightarrow> string16 option" where
  "Alias aOpen aClose s =
     map_option (\<lambda>firstPos.
       if firstPos = 0 then []
       else
         case find_f id aClose (drop firstPos s) of
           None \<Rightarrow> []
         | Some lastPos \<Rightarrow>
             if lastPos + firstPos + length aClose = length s then
               let sepPos = firstPos - length aOpen;
                   start = length (takeWhile (\<lambda>c. c = KSpace) s);
                   stop = sepPos - length (takeWhile (\<lambda>c. c = KSpace) (rev (take sepPos s)))
               in if start < stop then take (stop - start) (drop start s) else []
             else []) (last_open aOpen s 0)"

definition GenerateAddressL :: "string16 \<Rightarrow> string16 \<Rightarrow> string16 \<Rightarrow> string16 \<Rightarrow> string16" where
  "GenerateAddressL aOpen aClose aRealAddress aAlias = aAlias @ aOpen @ aRealAddress @ aClose"

section \<open>Validity\<close>

text \<open>Case folding and the test for a digit are services of the platform.\<close>

record char_services =
  chFold :: "char16 \<Rightarrow> char16"
  chIsDigit :: "char16 \<Rightarrow> bool"

fun phone_loop :: "char_services \<Rightarrow> string16 \<Rightarrow> bool" where
  "phone_loop c [] \<longleftrightarrow> True"
| "phone_loop c (x # xs) \<longleftrightarrow>
     (let ch = chFold c x in
      if \<not> (chIsDigit c ch \<or> ch = 45 \<or> ch = 35 \<or> ch = 42) then False else phone_loop c xs)"

definition phone_address :: "char_services \<Rightarrow> string16 \<Rightarrow> bool" where
  "phone_address c realAddress =
     (case realAddress of
        [] \<Rightarrow> False
      | x # xs \<Rightarrow>
          if x = 43 then (if xs = [] then False else phone_loop c xs)
          else phone_loop c (x # xs))"

text \<open>\<open>aReal\<close> tells that the address has no alias part.\<close>

definition IsValidMMSPhoneAddress ::
  "char_services \<Rightarrow> string16 \<Rightarrow> string16 \<Rightarrow> bool \<Rightarrow> string16 \<Rightarrow> bool option" where
  "IsValidMMSPhoneAddress c aOpen aClose aReal s =
     map_option (phone_address c) (if aReal then Some s else PureAddress aOpen aClose s)"

definition IsValidEmailAddress :: "string16 \<Rightarrow> string16 \<Rightarrow> bool \<Rightarrow> string16 \<Rightarrow> bool leaving option" where
  "IsValidEmailAddress aOpen aClose aReal s =
     map_option ValidInternetEmailAddress (if aReal then Some s else PureAddress aOpen aClose s)"

definition IsValidAddress ::
  "char_services \<Rightarrow> string16 \<Rightarrow> string16 \<Rightarrow> bool \<Rightarrow> string16 \<Rightarrow> bool leaving option" where
  "IsValidAddress c aOpen aClose aReal s =
     map_option (\<lambda>realAddress.
       if phone_address c realAddress then Inr True else ValidInternetEmailAddress realAddress)
       (if aReal then Some s else PureAddress aOpen aClose s)"

datatype mms_address_type =
    EMmsAddressTypeUnknown
  | EMmsAddressTypeMobile
  | EMmsAddressTypeEmail
  | EMmsAddressTypeIpv4
  | EMmsAddressTypeIpv6

text \<open>The error, the type and the address.\<close>

definition real_address_type ::
  "char_services \<Rightarrow> nat \<Rightarrow> string16 \<Rightarrow> (symbian_error \<times> mms_address_type \<times> string16) leaving" where
  "real_address_type c aMaxLength realAddress =
     (if aMaxLength < length realAddress then Inr (KErrTooBig, EMmsAddressTypeUnknown, [])
      else if phone_address c realAddress then Inr (KErrNone, EMmsAddressTypeMobile, realAddress)
      else bind_l (ValidInternetEmailAddress realAddress) (\<lambda>valid.
             Inr (if valid then (KErrNone, EMmsAddressTypeEmail, realAddress)
                  else (KErrNone, EMmsAddressTypeUnknown, []))))"

definition AddressTypeAndRealAddress ::
  "char_services \<Rightarrow> string16 \<Rightarrow> string16 \<Rightarrow> nat \<Rightarrow> string16 \<Rightarrow>
   (symbian_error \<times> mms_address_type \<times> string16) leaving option" where
  "AddressTypeAndRealAddress c aOpen aClose aMaxLength s =
     map_option (real_address_type c aMaxLength) (PureAddress aOpen aClose s)"

abbreviation (input) KSepaOpen :: string16 where "KSepaOpen \<equiv> [60]"
abbreviation (input) KSepaClose :: string16 where "KSepaClose \<equiv> [62]"

section \<open>The loop over the separators\<close>

lemma find_f_le: "find_f f pat s = Some p \<Longrightarrow> p + length pat \<le> length s"
  by (induction s arbitrary: p) (auto split: if_splits)

lemma find_f_one: "find_f id [c] s = (if c \<in> set s then Some (length (takeWhile (\<lambda>x. x \<noteq> c) s)) else None)"
  by (induction s) auto

lemma last_open_ends:
  assumes "aOpen \<noteq> []"
  shows "\<exists>p. last_open aOpen s n = Some p \<and> n \<le> p"
proof (induction "length s - n" arbitrary: n rule: less_induct)
  case less
  show ?case
  proof (cases "find_f id aOpen (drop n s)")
    case (Some p)
    have "p + length aOpen \<le> length s - n" using find_f_le [OF Some] by simp
    then have "length s - (n + p + length aOpen) < length s - n" using assms by (cases aOpen) auto
    from less [OF this] Some show ?thesis by (auto simp: last_open.simps [of aOpen s n])
  qed (simp add: last_open.simps [of aOpen s n])
qed

text \<open>With an empty opening separator the loop finds it at distance 0 for ever.\<close>

lemma last_open_stuck: "last_open [] s n = None"
proof (rule ccontr)
  assume "last_open [] s n \<noteq> None"
  then obtain p where "last_open [] s n = Some p" by auto
  then show False
  proof (rule last_open.raw_induct [where P = "\<lambda>aOpen s n p. aOpen \<noteq> []", THEN notE, rotated])
    fix loop aOpen and s :: string16 and n and p :: nat
    assume IH: "\<And>aOpen s n p. loop aOpen s n = Some p \<Longrightarrow> aOpen \<noteq> []"
      and step: "(case find_f id aOpen (drop n s) of
        None \<Rightarrow> Some n | Some p \<Rightarrow> loop aOpen s (n + p + length aOpen)) = Some p"
    show "aOpen \<noteq> []"
    proof
      assume "aOpen = []"
      moreover have "find_f id [] (drop n s) = Some 0" by (cases "drop n s") auto
      ultimately have "loop [] s n = Some p" using step by simp
      from IH [OF this] show False by simp
    qed
  qed simp
qed

lemma length_takeWhile_in: "x \<in> set xs \<Longrightarrow> length (takeWhile (\<lambda>y. y \<noteq> x) xs) < length xs"
  by (induction xs) auto

lemma takeWhile_before: "x \<notin> set xs \<Longrightarrow> takeWhile (\<lambda>y. y \<noteq> x) (xs @ x # ys) = xs"
  by (induction xs) auto

lemma last_open_at:
  assumes "60 \<notin> set r" "n \<le> length q"
  shows "last_open KSepaOpen (q @ 60 # r) n = Some (length q + 1)"
  using assms(2)
proof (induction "length q - n" arbitrary: n rule: less_induct)
  case less
  let ?s = "q @ 60 # r"
  have d: "drop n ?s = drop n q @ 60 # r" using less(2) by simp
  define k where "k = length (takeWhile (\<lambda>x. x \<noteq> 60) (drop n ?s))"
  have f: "find_f id KSepaOpen (drop n ?s) = Some k" unfolding find_f_one k_def d by simp
  show ?case
  proof (cases "60 \<in> set (drop n q)")
    case True
    then have "k < length (drop n q)"
      unfolding k_def d takeWhile_append1 [OF True, of "\<lambda>x. x \<noteq> 60", simplified]
      by (rule length_takeWhile_in)
    then have "n + k + 1 \<le> length q" by simp
    with less(1) [of "n + k + 1"] f show ?thesis
      by (simp add: last_open.simps [of _ ?s n])
  next
    case False
    then have "k = length q - n"
      unfolding k_def d by (subst takeWhile_append2) (auto simp: takeWhile_eq_all_conv)
    with less(2) f have "last_open KSepaOpen ?s n = last_open KSepaOpen ?s (length q + 1)"
      by (simp add: last_open.simps [of _ ?s n])
    also have "\<dots> = Some (length q + 1)"
      using assms(1) by (subst last_open.simps) (simp add: find_f_one)
    finally show ?thesis .
  qed
qed

section \<open>The parts of a generated address\<close>

lemma pure_generated:
  assumes "60 \<notin> set address" "address \<noteq> []"
  shows "PureAddress KSepaOpen KSepaClose (GenerateAddressL KSepaOpen KSepaClose address alias) = Some address"
proof -
  have "last_open KSepaOpen (alias @ 60 # (address @ [62])) 0 = Some (length alias + 1)"
    by (rule last_open_at) (use assms(1) in auto)
  then show ?thesis using assms(2) by (simp add: PureAddress_def GenerateAddressL_def Let_def)
qed

lemma takeWhile_replicate:
  "xs \<noteq> [] \<Longrightarrow> hd xs \<noteq> c \<Longrightarrow> takeWhile (\<lambda>x. x = c) (replicate n c @ xs @ ys) = replicate n c"
  by (induction n) (cases xs; simp)+

lemma alias_generated:
  assumes "60 \<notin> set address" "62 \<notin> set address"
    and "name \<noteq> []" "hd name \<noteq> KSpace" "last name \<noteq> KSpace"
  shows "Alias KSepaOpen KSepaClose
    (GenerateAddressL KSepaOpen KSepaClose address (replicate a KSpace @ name @ replicate b KSpace)) = Some name"
proof -
  let ?A = "replicate a KSpace @ name @ replicate b KSpace"
  let ?s = "?A @ 60 # (address @ [62])"
  have l: "last_open KSepaOpen ?s 0 = Some (length ?A + 1)"
    by (rule last_open_at) (use assms(1) in auto)
  have f: "find_f id KSepaClose (drop (length ?A + 1) ?s) = Some (length address)"
    unfolding find_f_one using takeWhile_before [OF assms(2), of "[]"] by simp
  have st: "takeWhile (\<lambda>c. c = KSpace) ?s = replicate a KSpace"
    using takeWhile_replicate [OF assms(3,4), of a "replicate b KSpace @ 60 # (address @ [62])"] by simp
  have en: "takeWhile (\<lambda>c. c = KSpace) (rev (take (length ?A) ?s)) = replicate b KSpace"
    using takeWhile_replicate [of "rev name" KSpace b "replicate a KSpace"] assms(3,5)
    by (simp add: hd_rev)
  have n: "length ?A + 1 - length KSepaOpen = length ?A" by simp
  have "Alias KSepaOpen KSepaClose ?s = Some name"
    unfolding Alias_def l option.map f option.case Let_def n st en using assms(3) by simp
  then show ?thesis by (simp add: GenerateAddressL_def)
qed

end
