(* ===== verification/Mail_Props.thy ===== *)
theory Mail_Props
  imports Mail_Address_Laws Mms_Address
begin

text \<open>
  Properties of the address parsers: \<open>TImMessageField\<close> for e-mail and \<open>TMmsGenUtils\<close> for
  multimedia messages.
\<close>

definition str16 :: "string \<Rightarrow> string16" where
  "str16 s = map of_char s"

text \<open>C36: \<open>ValidInternetEmailAddress\<close> returns on every field without an index outside it, and a
  field it accepts is a routed address or holds a mailbox, an at sign and a domain of the grammar:
  legal characters, no dot at an edge, no two dots in a row in the domain.\<close>

theorem email_valid_sound:
  "ValidInternetEmailAddress s = Inr False \<or> ValidInternetEmailAddress s = Inr True \<and>
    (isValidRoutedEmailAddress s
      \<or> (\<exists>pre m d post. s = pre @ m @ KAt # d @ post \<and> good_mailbox m \<and> good_domain d))"
proof -
  from valid_loop_result [of 0 s 0] obtain b f l where V: "isValidEmailAddress s = Inr (b, f, l)"
    "b \<longrightarrow> isValidRoutedEmailAddress s \<or> (\<exists>m d. stands_at s f l m d \<and> good_mailbox m \<and> good_domain d)"
    by (auto simp: isValidEmailAddress_def) blast
  show ?thesis
  proof (cases "b \<and> hasAngledBrackets s")
    case True
    with V show ?thesis unfolding ValidInternetEmailAddress_def stands_at_def by simp blast
  next
    case False
    with V(1) show ?thesis by (auto simp: ValidInternetEmailAddress_def)
  qed
qed

text \<open>C37: An address of the grammar is valid; written in angled brackets behind an alias it is what
  \<open>GetValidInternetEmailAddressFromString\<close> returns, and \<open>GetValidAlias\<close> returns the alias without
  the spaces around it.\<close>

theorem email_address_found:
  assumes "good_mailbox m" "good_domain d" "KAt \<notin> set name"
    and "name \<noteq> []" "hd name \<noteq> KSpace" "last name \<noteq> KSpace"
    and "field = replicate a KSpace @ name @ replicate b KSpace
      @ KLeftAngle # m @ KAt # d @ KRightAngle # rest"
  shows "ValidInternetEmailAddress (m @ KAt # d) = Inr True
    \<and> GetValidInternetEmailAddressFromString field = Inr (m @ KAt # d)
    \<and> GetValidAlias field = Inr (name, KErrNone)"
proof (intro conjI)
  show "ValidInternetEmailAddress (m @ KAt # d) = Inr True"
    using address_accepted [OF assms(1,2)] by (simp add: ValidInternetEmailAddress_def)
  show "GetValidInternetEmailAddressFromString field = Inr (m @ KAt # d)"
    using bracketed_get [OF assms(1,2), of "replicate a KSpace @ name @ replicate b KSpace" rest] assms(3,7)
    by simp
  show "GetValidAlias field = Inr (name, KErrNone)"
    unfolding assms(7) by (rule bracketed_alias [OF assms(1-6)])
qed

theorem email_address_found_witness:
  "GetValidAlias (str16 '' Al <a.b@c.de> x'') = Inr (str16 ''Al'', KErrNone)"
  using email_address_found [of "str16 ''a.b''" "str16 ''c.de''" "str16 ''Al''"
      "str16 '' Al <a.b@c.de> x''" 1 1 "str16 '' x''"]
  by (simp add: str16_def good_mailbox_def good_domain_def isValidMailboxChar_def
      isValidDomainNameChar_def of_char_def)

text \<open>The round bracket is indexed beyond the end of the part of the field that starts before it.\<close>

lemma round_bracket_panics:
  assumes "40 \<notin> set tail" "length pre = length tail + 3"
  shows "isSurroundedByRoundBrackets (pre @ 40 # tail @ [KLeftAngle]) = Inl KPanicIndex"
proof -
  let ?s = "pre @ 40 # tail @ [KLeftAngle]"
  define p where "p = int (length pre)"
  have p: "0 \<le> p" "0 \<le> p - 1" "p = int (length tail) + 3" using assms(2) by (simp_all add: p_def)
  have "rev ?s = (KLeftAngle # rev tail) @ 40 # rev pre" by simp
  then have "locate 40 (rev ?s) = int (length (KLeftAngle # rev tail))"
    using locate_append [of 40 "KLeftAngle # rev tail" "rev pre"] assms(1) by (simp del: locate.simps)
  then have l: "locate_reverse 40 ?s = p" by (simp add: locate_reverse_def p_def del: locate.simps)
  obtain q x where pre: "pre = q @ [x]" using assms(2) by (cases pre rule: rev_cases) auto
  define c where "c = x # 40 # tail @ [KLeftAngle]"
  have m: "des_mid ?s (p - 1) (int (length ?s) - (p - 1)) = Inr c"
    by (simp add: des_mid_def p_def pre c_def)
  have n: "nat (p - 1) = Suc (Suc (length tail))" using p by linarith
  have "p - 1 < int (length c)" "des_at c (p - 1) = Inr KLeftAngle" "des_at c p = Inl KPanicIndex"
    using p(3) unfolding des_at_def n by (simp_all add: c_def nth_append)
  then show ?thesis
    using p(1,2) by (simp only: isSurroundedByRoundBrackets_def isEnclosedSubString_def l m Let_def bind_l_simps if_True refl)
qed

text \<open>C38: \<open>GetValidComment\<close> panics on fields with a legal address: an address of the grammar in angled
  brackets, with any alias before it, then the last round bracket of the field, then text that ends
  with an open angled bracket and makes the field one character shorter than twice the part before
  the round bracket. \<open>isEnclosedSubString\<close> takes the rest of the field from before the bracket on, and
  indexes it with positions of the whole field. The address itself is found in such a field.\<close>

theorem email_comment_panics:
  assumes "good_mailbox m" "good_domain d" "KAt \<notin> set name"
    and "field = (name @ KLeftAngle # m @ KAt # d @ KRightAngle # gap) @ 40 # tail @ [KLeftAngle]"
    and "40 \<notin> set tail" "length tail = length name + length m + length d + length gap"
  shows "GetValidInternetEmailAddressFromString field = Inr (m @ KAt # d) \<and> GetValidComment field = Inl KPanicIndex"
proof
  have f: "field = name @ KLeftAngle # m @ KAt # d @ KRightAngle # (gap @ 40 # tail @ [KLeftAngle])"
    by (simp add: assms(4))
  show "GetValidInternetEmailAddressFromString field = Inr (m @ KAt # d)"
    unfolding f by (rule bracketed_get [OF assms(1-3)])
  have "isSurroundedByRoundBrackets field = Inl KPanicIndex"
    unfolding assms(4) by (rule round_bracket_panics) (simp_all add: assms(5,6))
  then show "GetValidComment field = Inl KPanicIndex"
    using bracketed_address [OF assms(1-3)] by (simp add: GetValidComment_def f)
qed

theorem email_comment_panics_witness:
  "GetValidComment (str16 ''<a@b>(xx<'') = Inl KPanicIndex"
  using email_comment_panics [of "str16 ''a''" "str16 ''b''" "[]" "str16 ''<a@b>(xx<''" "[]" "str16 ''xx''"]
  by (simp add: str16_def good_mailbox_def good_domain_def isValidMailboxChar_def isValidDomainNameChar_def of_char_def)

text \<open>C39: \<open>TruncateAddressString\<close> never returns on a list of recipients that begins with an at sign,
  such as a routed address: the position is not moved past an at sign in first place.\<close>

theorem truncate_never_returns:
  assumes "0 < aLimit"
  shows "TruncateAddressString (KAt # rest) aLimit aLastChar = None"
proof -
  have "truncate_loop (KAt # rest) aLimit aLastChar 0 0 = None"
  proof (rule ccontr)
    assume "truncate_loop (KAt # rest) aLimit aLastChar 0 0 \<noteq> None"
    then obtain y where "truncate_loop (KAt # rest) aLimit aLastChar 0 0 = Some y" by blast
    from truncate_stuck [OF this] assms show False by simp
  qed
  then show ?thesis by (simp add: TruncateAddressString_def)
qed

theorem truncate_never_returns_witness:
  "TruncateAddressString (str16 ''@r:a@b'') 5 0 = None"
  using truncate_never_returns [of 5 "str16 ''r:a@b''" 0] by (simp add: str16_def of_char_def)

text \<open>C40: Of an address that \<open>GenerateAddressL\<close> put together, \<open>PureAddress\<close> returns the address and
  \<open>Alias\<close> the alias without its outer spaces, whatever characters the alias has.\<close>

theorem mms_address_parts:
  assumes "60 \<notin> set address" "62 \<notin> set address" "address \<noteq> []"
    and "name \<noteq> []" "hd name \<noteq> KSpace" "last name \<noteq> KSpace"
    and "whole = GenerateAddressL KSepaOpen KSepaClose address
      (replicate a KSpace @ name @ replicate b KSpace)"
  shows "PureAddress KSepaOpen KSepaClose whole = Some address \<and> Alias KSepaOpen KSepaClose whole = Some name"
  unfolding assms(7) using pure_generated alias_generated assms(1-6) by simp

theorem mms_address_parts_witness:
  "PureAddress KSepaOpen KSepaClose (str16 ''<Al> <12>'') = Some (str16 ''12'')"
  using mms_address_parts [of "str16 ''12''" "str16 ''<Al>''" "str16 ''<Al> <12>''" 0 1]
  by (simp add: str16_def GenerateAddressL_def of_char_def)

end
