(* ===== verification/Wsp_Encode.thy ===== *)
theory Wsp_Encode
  imports Wsp_Core Mms_Multipart Mms_Address "HOL-Library.Signed_Division"
begin

text \<open>
  The field encoders of \<open>CMmsEncode\<close> (mmsengine/mmscodec/src/mmsencode.cpp): lengths, integers,
  dates, strings and addresses. They write into a buffer of fixed size at \<open>iPosition\<close>; a write
  past its end panics (\<open>CBufFlat::Write\<close>). \<open>emits\<close> is the contract every encoder is proved to
  have: it writes exactly the bytes of its field, or panics when they do not fit.
\<close>

section \<open>State\<close>

record mms_encode =
  iEncodeBuffer :: "byte list"
  iEncodePosition :: nat
  iEncodeError :: symbian_error

type_synonym encoder = "mms_encode \<Rightarrow> mms_encode leaving"

text \<open>\<open>iEncodeBuffer->Write( iPosition, ... )\<close> and the increment of \<open>iPosition\<close> after it.\<close>

definition write_at :: "byte list \<Rightarrow> encoder" where
  "write_at bs s =
     (let p = iEncodePosition s; buf = iEncodeBuffer s in
      if p + length bs \<le> length buf
      then Inr (s\<lparr> iEncodeBuffer := take p buf @ bs @ drop (p + length bs) buf,
                   iEncodePosition := p + length bs \<rparr>)
      else Inl KPanicIndex)"

fun steps :: "encoder list \<Rightarrow> encoder" where
  "steps [] s = Inr s"
| "steps (m # ms) s = bind_l (m s) (steps ms)"

definition nothing :: encoder where
  "nothing s = Inr s"

text \<open>Encode once to find out the length, go back, and continue with it.\<close>

definition measured :: "encoder \<Rightarrow> (nat \<Rightarrow> encoder) \<Rightarrow> encoder" where
  "measured m k s = bind_l (m s) (\<lambda>s1.
     k (iEncodePosition s1 - iEncodePosition s) (s1\<lparr> iEncodePosition := iEncodePosition s \<rparr>))"

section \<open>What an encoder writes\<close>

definition written :: "mms_encode \<Rightarrow> byte list" where
  "written s = take (iEncodePosition s) (iEncodeBuffer s)"

definition enc_ok :: "mms_encode \<Rightarrow> bool" where
  "enc_ok s \<longleftrightarrow> iEncodePosition s \<le> length (iEncodeBuffer s) \<and> iEncodeError s = KErrNone"

definition emits :: "encoder \<Rightarrow> byte list \<Rightarrow> bool" where
  "emits m bs \<longleftrightarrow> (\<forall>s. enc_ok s \<longrightarrow>
     (if iEncodePosition s + length bs \<le> length (iEncodeBuffer s)
      then \<exists>s1. m s = Inr s1 \<and> written s1 = written s @ bs \<and> enc_ok s1
             \<and> length (iEncodeBuffer s1) = length (iEncodeBuffer s)
             \<and> iEncodePosition s1 = iEncodePosition s + length bs
      else m s = Inl KPanicIndex))"

named_theorems emit_rules \<open>the bytes each encoder writes\<close>

lemma emits_fits:
  assumes "emits m bs" "enc_ok s" "iEncodePosition s + length bs \<le> length (iEncodeBuffer s)"
  obtains s1 where "m s = Inr s1" "written s1 = written s @ bs" "enc_ok s1"
    "length (iEncodeBuffer s1) = length (iEncodeBuffer s)"
    "iEncodePosition s1 = iEncodePosition s + length bs"
  using assms unfolding emits_def by metis

lemma emits_full:
  "emits m bs \<Longrightarrow> enc_ok s \<Longrightarrow> \<not> iEncodePosition s + length bs \<le> length (iEncodeBuffer s) \<Longrightarrow>
   m s = Inl KPanicIndex"
  unfolding emits_def by metis

lemma emits_write [emit_rules]: "emits (write_at bs) bs"
  by (cases bs) (auto simp: emits_def write_at_def Let_def written_def enc_ok_def min_def)

lemma emits_nothing [emit_rules]: "emits nothing []"
  by (auto simp: emits_def nothing_def enc_ok_def)

lemma emits_steps_nil [emit_rules]: "emits (steps []) []"
  by (auto simp: emits_def enc_ok_def)

lemma emits_steps_cons [emit_rules]:
  assumes "emits m a" "emits (steps ms) b"
  shows "emits (steps (m # ms)) (a @ b)"
  unfolding emits_def
proof (intro allI impI)
  fix s assume ok: "enc_ok s"
  let ?n = "length (iEncodeBuffer s)"
  consider (fits) "iEncodePosition s + length (a @ b) \<le> ?n"
    | (second) "iEncodePosition s + length a \<le> ?n" "\<not> iEncodePosition s + length (a @ b) \<le> ?n"
    | (first) "\<not> iEncodePosition s + length a \<le> ?n" "\<not> iEncodePosition s + length (a @ b) \<le> ?n"
    by fastforce
  then show "if iEncodePosition s + length (a @ b) \<le> ?n
      then \<exists>s1. steps (m # ms) s = Inr s1 \<and> written s1 = written s @ a @ b \<and> enc_ok s1
             \<and> length (iEncodeBuffer s1) = ?n \<and> iEncodePosition s1 = iEncodePosition s + length (a @ b)
      else steps (m # ms) s = Inl KPanicIndex"
  proof cases
    case fits
    then have "iEncodePosition s + length a \<le> ?n" by simp
    from emits_fits [OF assms(1) ok this] obtain s1 where s1: "m s = Inr s1" "written s1 = written s @ a"
      "enc_ok s1" "length (iEncodeBuffer s1) = ?n" "iEncodePosition s1 = iEncodePosition s + length a" .
    then have "iEncodePosition s1 + length b \<le> length (iEncodeBuffer s1)" using fits by simp
    from emits_fits [OF assms(2) s1(3) this] obtain s2 where "steps ms s1 = Inr s2"
      "written s2 = written s1 @ b" "enc_ok s2" "length (iEncodeBuffer s2) = length (iEncodeBuffer s1)"
      "iEncodePosition s2 = iEncodePosition s1 + length b" .
    with s1 fits show ?thesis by simp
  next
    case second
    from emits_fits [OF assms(1) ok second(1)] obtain s1 where s1: "m s = Inr s1" "enc_ok s1"
      "length (iEncodeBuffer s1) = ?n" "iEncodePosition s1 = iEncodePosition s + length a" by metis
    then have "steps ms s1 = Inl KPanicIndex" using second by (intro emits_full [OF assms(2)]) auto
    with s1(1) second show ?thesis by simp
  next
    case first
    then show ?thesis using emits_full [OF assms(1) ok first(1)] by simp
  qed
qed

lemma emits_if [emit_rules]:
  "emits m a \<Longrightarrow> emits n b \<Longrightarrow> emits (if c then m else n) (if c then a else b)"
  by simp

lemma emits_measured [emit_rules]:
  assumes "emits m a" "emits (k (length a)) b" "length a \<le> length b"
  shows "emits (measured m k) b"
  unfolding emits_def
proof (intro allI impI)
  fix s assume ok: "enc_ok s"
  let ?n = "length (iEncodeBuffer s)"
  show "if iEncodePosition s + length b \<le> ?n
      then \<exists>s1. measured m k s = Inr s1 \<and> written s1 = written s @ b \<and> enc_ok s1
             \<and> length (iEncodeBuffer s1) = ?n \<and> iEncodePosition s1 = iEncodePosition s + length b
      else measured m k s = Inl KPanicIndex"
  proof (cases "iEncodePosition s + length a \<le> ?n")
    case True
    from emits_fits [OF assms(1) ok True] obtain s1 where s1: "m s = Inr s1" "written s1 = written s @ a"
      "enc_ok s1" "length (iEncodeBuffer s1) = ?n" "iEncodePosition s1 = iEncodePosition s + length a" .
    define s2 where "s2 = s1\<lparr> iEncodePosition := iEncodePosition s \<rparr>"
    have w: "written s2 = written s"
    proof -
      have "length (written s) = iEncodePosition s" using ok by (simp add: written_def enc_ok_def)
      moreover have "written s2 = take (iEncodePosition s) (written s1)"
        using s1(5) by (simp add: written_def s2_def)
      ultimately show ?thesis using s1(2) by simp
    qed
    have s2: "enc_ok s2" "length (iEncodeBuffer s2) = ?n" "iEncodePosition s2 = iEncodePosition s"
      using s1(3,4,5) ok by (simp_all add: s2_def enc_ok_def)
    have e: "measured m k s = k (length a) s2"
      using s1 by (simp add: measured_def s2_def)
    show ?thesis
      using assms(2) s2 w unfolding emits_def e by metis
  next
    case False
    moreover have "\<not> iEncodePosition s + length b \<le> ?n" using False assms(3) by simp
    ultimately show ?thesis using emits_full [OF assms(1) ok False] by (simp add: measured_def)
  qed
qed

section \<open>Lengths\<close>

fun digits7 :: "nat \<Rightarrow> tint \<Rightarrow> byte list \<Rightarrow> byte list" where
  "digits7 0 temp buffer = buffer"
| "digits7 (Suc k) temp buffer = digits7 k (drop_bit 7 temp) (ucast (temp AND 0x7F) # buffer)"

fun skip_zeros :: "byte list \<Rightarrow> byte list" where
  "skip_zeros (x # y # ys) = (if x = 0 then skip_zeros (y # ys) else x # y # ys)"
| "skip_zeros xs = xs"

fun mark_continue :: "byte list \<Rightarrow> byte list" where
  "mark_continue (x # y # ys) = (x OR 0x80) # mark_continue (y # ys)"
| "mark_continue xs = xs"

definition uintvar_bytes :: "tint \<Rightarrow> byte list" where
  "uintvar_bytes aInteger = mark_continue (skip_zeros (digits7 5 aInteger []))"

definition EncodeUintvar :: "tint \<Rightarrow> encoder" where
  "EncodeUintvar aInteger = write_at (uintvar_bytes aInteger)"

definition GetUintvarLength :: "tint \<Rightarrow> nat" where
  "GetUintvarLength aInteger = length (skip_zeros (digits7 5 aInteger []))"

definition EncodeValueLength :: "tint \<Rightarrow> encoder" where
  "EncodeValueLength aLength =
     (if aLength \<le> 30 then write_at [ucast aLength]
      else steps [write_at [31], EncodeUintvar aLength])"

section \<open>Integers and dates\<close>

fun strip_top :: "nat \<Rightarrow> tint \<Rightarrow> nat \<times> tint" where
  "strip_top 0 temp = (0, temp)"
| "strip_top (Suc len) temp =
     (if (ucast (drop_bit 24 temp AND 0xFF) :: byte) = 0 then strip_top len (push_bit 8 temp)
      else (Suc len, temp))"

definition top_bytes :: "nat \<Rightarrow> tint \<Rightarrow> byte list" where
  "top_bytes len temp = map (\<lambda>i. ucast (drop_bit (8 * (3 - i)) temp AND 0xFF)) [0..<len]"

definition EncodeInteger :: "tint \<Rightarrow> encoder" where
  "EncodeInteger aInteger =
     (if aInteger \<le> 127 then write_at [ucast aInteger OR 0x80]
      else case strip_top 4 aInteger of
             (len, temp) \<Rightarrow> steps [write_at [of_nat len], write_at (top_bytes len temp)])"

text \<open>The remainder and the quotient of \<open>TInt64\<close> are those of C++: truncated towards zero.\<close>

fun long_digits :: "nat \<Rightarrow> int \<Rightarrow> byte list \<Rightarrow> byte list" where
  "long_digits 0 temp array = array"
| "long_digits (Suc k) temp array =
     long_digits k (temp sdiv 256) (word_of_int (temp smod 256) # array)"

definition long_bytes :: "tint64 \<Rightarrow> byte list" where
  "long_bytes aLongInteger =
     (let array = long_digits 8 (sint aLongInteger) [];
          n = length (dropWhile (\<lambda>b. b = 0) array); len = (if n = 0 then 1 else n)
      in drop (8 - len) array)"

definition EncodeLongInteger :: "tint64 \<Rightarrow> encoder" where
  "EncodeLongInteger aLongInteger =
     steps [write_at [of_nat (length (long_bytes aLongInteger))], write_at (long_bytes aLongInteger)]"

definition EncodeDate :: "tint64 \<Rightarrow> encoder" where
  "EncodeDate aDate =
     (if aDate = 0 then nothing else steps [write_at [KMmsAssignedDate], EncodeLongInteger aDate])"

text \<open>The loop that looks for the highest byte that is not zero, in one half of the value.\<close>

fun mask_loop :: "tint \<Rightarrow> nat \<Rightarrow> tint \<Rightarrow> nat \<Rightarrow> nat" where
  "mask_loop half least msk 0 = 0"
| "mask_loop half least msk (Suc len) =
     (if half AND msk = 0 \<and> least < Suc len then mask_loop half least (drop_bit 8 msk) len
      else Suc len)"

definition interval_length :: "tint64 \<Rightarrow> nat" where
  "interval_length temp =
     (let high = ucast (drop_bit 32 temp); low = ucast temp;
          len = mask_loop high 4 0xff000000 8
      in (if high = 0 then mask_loop low 1 0xff000000 len else len) + 2)"

definition EncodeIntervalOrDate :: "tint \<Rightarrow> tint64 \<Rightarrow> encoder" where
  "EncodeIntervalOrDate aInterval aDate =
     (let temp = (if aDate \<noteq> 0 then aDate else scast aInterval);
          token = (if aDate \<noteq> 0 then KMmsAbsoluteToken else KMmsRelativeToken)
      in steps [EncodeValueLength (of_nat (interval_length temp)), write_at [token],
                EncodeLongInteger temp])"

section \<open>Strings\<close>

text \<open>The services the encoder calls: the conversion to UTF-8 with its error code, and the platform's
  characters. \<open>wins\<close> tells a build for the emulator, which can also encode the PDUs a server
  sends.\<close>

record encode_services =
  to_utf8 :: "string16 \<Rightarrow> symbian_error \<times> string8"
  char_service :: char_services
  wins :: bool

definition EncodeTextString :: "string8 \<Rightarrow> encoder" where
  "EncodeTextString s =
     steps [if s \<noteq> [] \<and> 0x80 \<le> hd s then write_at [127] else nothing, write_at s, write_at [0]]"

definition EncodeQuotedTextString :: "string8 \<Rightarrow> encoder" where
  "EncodeQuotedTextString s = steps [write_at [34], write_at s, write_at [0]]"

fun IsStringSafe :: "string16 \<Rightarrow> bool" where
  "IsStringSafe [] \<longleftrightarrow> True"
| "IsStringSafe (c # cs) \<longleftrightarrow> (if c < 32 \<or> 127 \<le> c then False else IsStringSafe cs)"

definition set_encode_error :: "symbian_error \<Rightarrow> encoder" where
  "set_encode_error x s = Inr (s\<lparr> iEncodeError := x \<rparr>)"

text \<open>The first byte of the converted string is looked at before it is known that there is one.\<close>

definition EncodeTextStringL :: "encode_services \<Rightarrow> string16 \<Rightarrow> encoder" where
  "EncodeTextStringL e s =
     (if IsStringSafe s then steps (map (\<lambda>c. write_at [ucast (c AND 0xFF)]) s @ [write_at [0]])
      else case to_utf8 e s of
             (x, buf8) \<Rightarrow>
               if buf8 = [] then (\<lambda>_. Inl KPanicIndex)
               else
                 let quote = 0x80 \<le> hd buf8;
                     len = length buf8 + 2 + (if quote then 1 else 0)
                 in steps [set_encode_error x, EncodeValueLength (of_nat len), write_at [KMmsUtf8 OR 0x80],
                           if quote then write_at [127] else nothing, write_at buf8, write_at [0]])"

section \<open>Addresses\<close>

definition KMmsPlmn :: "byte list" where
  "KMmsPlmn = [0x2F, 0x54, 0x59, 0x50, 0x45, 0x3D, 0x50, 0x4C, 0x4D, 0x4E]"

definition has_at :: "string16 \<Rightarrow> bool" where
  "has_at s = (find_f id [KAt] s \<noteq> None)"

text \<open>The address without its alias, and its type; an address of no known type is sent unchanged.\<close>

definition resolved_address :: "encode_services \<Rightarrow> string16 \<Rightarrow> (mms_address_type \<times> string16) leaving option" where
  "resolved_address e aAddress =
     map_option (\<lambda>r. bind_l r (\<lambda>(error, addressType, real).
       if error \<noteq> KErrNone \<or> addressType = EMmsAddressTypeUnknown
       then Inr (if has_at aAddress then EMmsAddressTypeEmail else EMmsAddressTypeMobile, aAddress)
       else Inr (addressType, real)))
     (AddressTypeAndRealAddress (char_service e) KSepaOpen KSepaClose (length aAddress) aAddress)"

lemma resolved_address_returns: "resolved_address e aAddress \<noteq> None"
proof -
  obtain p where "last_open KSepaOpen aAddress 0 = Some p"
    using last_open_ends [of KSepaOpen aAddress 0] by auto
  then show ?thesis
    by (simp add: resolved_address_def AddressTypeAndRealAddress_def PureAddress_def)
qed

text \<open>\<open>None\<close> cannot occur with these separators.\<close>

definition EncodeAddressL :: "encode_services \<Rightarrow> string16 \<Rightarrow> encoder" where
  "EncodeAddressL e aAddress =
     (case resolved_address e aAddress of
        None \<Rightarrow> (\<lambda>_. Inl KErrGeneral)
      | Some (Inl x) \<Rightarrow> (\<lambda>_. Inl x)
      | Some (Inr (addressType, real)) \<Rightarrow>
          if addressType = EMmsAddressTypeEmail then EncodeTextStringL e real
          else steps (map (\<lambda>c. write_at [ucast (c AND 0xFF)]) real @ [write_at KMmsPlmn, write_at [0]]))"

definition sender_length :: "encode_services \<Rightarrow> string16 \<Rightarrow> (symbian_error option \<times> nat) leaving" where
  "sender_length e aSender =
     (if has_at aSender then
        if IsStringSafe aSender then Inr (None, 1 + length aSender + 1)
        else case to_utf8 e aSender of
               (x, buf8) \<Rightarrow>
                 if buf8 = [] then Inl KPanicIndex
                 else Inr (Some x, 1 + length buf8 + 2 + (if 0x80 \<le> hd buf8 then 1 else 0))
      else Inr (None, 1 + length aSender + 1 + 10))"

definition EncodeSenderL :: "encode_services \<Rightarrow> string16 \<Rightarrow> encoder" where
  "EncodeSenderL e aSender =
     (if aSender = [] then steps [write_at [KMmsAssignedFrom], write_at [1], write_at [129]]
      else steps [write_at [KMmsAssignedFrom],
        (case sender_length e aSender of
           Inl x \<Rightarrow> (\<lambda>_. Inl x)
         | Inr (x, len) \<Rightarrow>
             steps [(case x of None \<Rightarrow> nothing | Some c \<Rightarrow> set_encode_error c),
                    EncodeValueLength (of_nat len), write_at [128], EncodeAddressL e aSender])])"

definition recipient_type :: "mms_recipients \<Rightarrow> byte" where
  "recipient_type t = (case t of EMmsTo \<Rightarrow> KMmsAssignedTo | EMmsCc \<Rightarrow> KMmsAssignedCc
     | EMmsBcc \<Rightarrow> KMmsAssignedBcc)"

definition EncodeRecipientL :: "encode_services \<Rightarrow> string16 list \<Rightarrow> mms_recipients \<Rightarrow> encoder" where
  "EncodeRecipientL e aRecipientList aType =
     steps (map (\<lambda>a. if a \<noteq> [] then steps [write_at [recipient_type aType], EncodeAddressL e a]
                     else nothing) aRecipientList)"

section \<open>Headers\<close>

definition EncodeMandatoryByte :: "byte \<Rightarrow> tint \<Rightarrow> encoder" where
  "EncodeMandatoryByte aHeader aValue = steps [write_at [aHeader], write_at [ucast aValue OR 0x80]]"

definition EncodeOptionalByte :: "byte \<Rightarrow> tint \<Rightarrow> encoder" where
  "EncodeOptionalByte aHeader aValue =
     (if aValue = 0 then nothing else EncodeMandatoryByte aHeader aValue)"

definition EncodeHeaderAndTextString :: "byte \<Rightarrow> string8 \<Rightarrow> encoder" where
  "EncodeHeaderAndTextString aHeader s = steps [write_at [aHeader], EncodeTextString s]"

definition EncodeOptionalString :: "byte \<Rightarrow> string8 \<Rightarrow> encoder" where
  "EncodeOptionalString aHeader s = (if s = [] then nothing else EncodeHeaderAndTextString aHeader s)"

definition EncodeOptionalStringL :: "encode_services \<Rightarrow> byte \<Rightarrow> string16 \<Rightarrow> encoder" where
  "EncodeOptionalStringL e aHeader s =
     (if s = [] then nothing else steps [write_at [aHeader], EncodeTextStringL e s])"

definition EncodeOptionalInteger :: "byte \<Rightarrow> tint \<Rightarrow> encoder" where
  "EncodeOptionalInteger aHeader aValue =
     (if aValue = 0 then nothing else steps [write_at [aHeader], EncodeInteger aValue])"

definition EncodeReplyChargingSize :: "tint \<Rightarrow> encoder" where
  "EncodeReplyChargingSize aSize =
     (if aSize = 0 then nothing else steps [write_at [KMmsAssignedReplyChargingSize], EncodeLongInteger (scast aSize)])"

definition EncodeOptionalIntervalOrDate :: "byte \<Rightarrow> tint \<Rightarrow> tint64 \<Rightarrow> encoder" where
  "EncodeOptionalIntervalOrDate aHeader aInterval aDate =
     (if aInterval = 0 \<and> aDate = 0 then nothing
      else steps [write_at [aHeader], EncodeIntervalOrDate aInterval aDate])"

text \<open>The version is a signed 16-bit integer.\<close>

definition EncodeStartingHeaders :: "tint \<Rightarrow> string8 \<Rightarrow> char16 \<Rightarrow> encoder" where
  "EncodeStartingHeaders aMessageType aTID aVersion =
     steps [EncodeMandatoryByte KMmsAssignedMessageType aMessageType, EncodeOptionalString KMmsAssignedTID aTID,
            EncodeMandatoryByte KMmsAssignedMmsVersion (scast aVersion)]"

definition EncodeAttributes :: "tint list \<Rightarrow> encoder" where
  "EncodeAttributes xs = steps (map (EncodeMandatoryByte KMmsAssignedAttributes) xs)"

definition EncodeMMBoxStates :: "tint list \<Rightarrow> encoder" where
  "EncodeMMBoxStates xs = steps (map (EncodeMandatoryByte KMmsAssignedMMState) xs)"

end
