(* ===== verification/Mms_Encode.thy ===== *)
theory Mms_Encode
  imports Wsp_Encode
begin

text \<open>
  The PDU encoders of \<open>CMmsEncode\<close> (mmsengine/mmscodec/src/mmsencode.cpp): one function per message
  type, the arrays and the content type headers they share, and the entry point \<open>EncodeHeadersL\<close>
  for the PDUs that have only headers. \<open>e\<close> are the services, \<open>h\<close> is \<open>iMmsHeaders\<close> and \<open>n\<close> is
  \<open>iNumberOfAttachments\<close>. The PDUs a server sends are encoded only in a build for the emulator
  (\<open>#ifdef __WINS__\<close>), which is \<open>wins e\<close>. The dump of the buffer to a file is left out.
\<close>

section \<open>Constants\<close>

abbreviation KMmsVersion1 :: char16 where "KMmsVersion1 \<equiv> 0x10"
abbreviation KMmsVersion11 :: char16 where "KMmsVersion11 \<equiv> 0x11"
abbreviation KMmsVersion12 :: char16 where "KMmsVersion12 \<equiv> 0x12"
abbreviation KMmsYes :: tint where "KMmsYes \<equiv> 128"
abbreviation KMmsStatusOk :: tint where "KMmsStatusOk \<equiv> 128"
abbreviation KMmsFilterToken :: tint where "KMmsFilterToken \<equiv> 130"
abbreviation KMmsReplyChargingRequested :: tint where "KMmsReplyChargingRequested \<equiv> 128"
abbreviation KMmsReplyChargingRequestedTextOnly :: tint where "KMmsReplyChargingRequestedTextOnly \<equiv> 129"
abbreviation KMmsReplyChargingAccepted :: tint where "KMmsReplyChargingAccepted \<equiv> 130"
abbreviation KMmsReplyChargingAcceptedTextOnly :: tint where "KMmsReplyChargingAcceptedTextOnly \<equiv> 131"
abbreviation KMmsAssignedAny :: tint where "KMmsAssignedAny \<equiv> 0"
abbreviation KMaxTUint32 :: tint where "KMaxTUint32 \<equiv> 0xFFFFFFFF"
abbreviation KMMSBufferExtra :: nat where "KMMSBufferExtra \<equiv> 1024"

definition KMmsJavaApplicationId :: string8 where
  "KMmsJavaApplicationId = ascii ''Application-ID''"

definition KMmsJavaReplyApplicationId :: string8 where
  "KMmsJavaReplyApplicationId = ascii ''Reply-To-Application-ID''"

section \<open>Parts of several PDUs\<close>

text \<open>\<open>version_above\<close> compares signed, like the code. \<open>on_box\<close> is for the headers that are encoded
  only when \<open>ReadOnlyMMBoxMessageHeaders\<close> is not null.\<close>

definition version_above :: "mms_headers \<Rightarrow> char16 \<Rightarrow> bool" where
  "version_above h v \<longleftrightarrow> v <s iVersion h"

definition on_box :: "mms_headers \<Rightarrow> (mmbox_message_headers \<Rightarrow> encoder) \<Rightarrow> encoder" where
  "on_box h f = (case iMmBoxMessageHeaders h of None \<Rightarrow> nothing | Some m \<Rightarrow> f m)"

definition when_enc :: "bool \<Rightarrow> encoder list \<Rightarrow> encoder" where
  "when_enc c ms = (if c then steps ms else nothing)"

definition EncodeKeyword :: "encode_services \<Rightarrow> mms_headers \<Rightarrow> mmbox_flags \<Rightarrow> encoder" where
  "EncodeKeyword e h k =
     (let text8 = EncodeTextStringL e (des_of (iKeyword k));
          token = (if iMsgType h = KMmsMessageTypeMboxViewReq \<or> iMsgType h = KMmsMessageTypeMboxViewConf
                      \<or> iMsgType h = KMmsMessageTypeMBoxDescr
                   then KMmsFilterToken else iOperationToken k)
      in when_enc (0 < length (des_of (iKeyword k)))
           [write_at [KMmsAssignedMMFlags],
            measured text8 (\<lambda>len. steps [EncodeValueLength (of_nat (len + 1)), write_at [ucast token], text8])])"

definition EncodeKeywordArrayL :: "encode_services \<Rightarrow> mms_headers \<Rightarrow> mmbox_message_headers \<Rightarrow> encoder" where
  "EncodeKeywordArrayL e h m = steps (map (EncodeKeyword e h) (iKeywordArray m))"

definition EncodeContentLocationArray :: "mms_headers \<Rightarrow> encoder" where
  "EncodeContentLocationArray h =
     (let location = des_of (iContentLocation h); mustCheck = (0 < length location)
      in steps
          [when_enc mustCheck [EncodeHeaderAndTextString KMmsAssignedContentLocation location],
           on_box h (\<lambda>m. steps (map (\<lambda>x.
             when_enc (\<not> (mustCheck \<and> location = x)) [EncodeHeaderAndTextString KMmsAssignedContentLocation x])
             (iContentLocationArray m)))])"

definition EncodeApplicationHeadersL :: "encode_services \<Rightarrow> mms_headers \<Rightarrow> encoder" where
  "EncodeApplicationHeadersL e h =
     when_enc (wins e)
       [when_enc (IsStringSafe (des_of (iApplicationId h)))
          [EncodeOptionalStringL e KMmsAssignedApplicId (des_of (iApplicationId h))],
        when_enc (IsStringSafe (des_of (iReplyToApplicationId h)))
          [EncodeOptionalStringL e KMmsAssignedReplyApplicId (des_of (iReplyToApplicationId h))],
        EncodeOptionalString KMmsAssignedAuxApplicInfo (des_of (iApplicationInfo h))]"

text \<open>The reply charging headers of a PDU that allows these values of \<open>ReplyCharging\<close>.\<close>

definition EncodeReplyCharging :: "mms_headers \<Rightarrow> tint list \<Rightarrow> encoder" where
  "EncodeReplyCharging h allowed =
     when_enc (iReplyCharging h \<in> set allowed)
       [EncodeOptionalByte KMmsAssignedReplyCharging (iReplyCharging h),
        EncodeOptionalIntervalOrDate KMmsAssignedReplyChargingDeadline
          (ReplyChargingInterval h) (ReplyChargingDate h),
        EncodeReplyChargingSize (iReplyChargingSize h)]"

definition EncodeState :: "encode_services \<Rightarrow> mms_headers \<Rightarrow> mmbox_message_headers \<Rightarrow> encoder" where
  "EncodeState e h m =
     steps [EncodeOptionalByte KMmsAssignedMMState (iMmsMMState m), EncodeKeywordArrayL e h m]"

definition EncodePreviouslySent :: "encode_services \<Rightarrow> mms_headers \<Rightarrow> encoder" where
  "EncodePreviouslySent e h =
     steps (map (\<lambda>item.
       let by = steps [EncodeInteger (scOrder item), EncodeAddressL e (des_of (scSender item))];
           date = steps [EncodeInteger (scOrder item), EncodeLongInteger (scDate item)]
       in steps
           [measured by (\<lambda>len. steps [write_at [KMmsAssignedPreviouslySentBy], EncodeValueLength (of_nat len), by]),
            measured date (\<lambda>len. steps [write_at [KMmsAssignedPreviouslySentDate], EncodeValueLength (of_nat len), date])])
       (iPreviouslySentArray h))"

definition EncodeRecipients :: "encode_services \<Rightarrow> mms_headers \<Rightarrow> encoder" where
  "EncodeRecipients e h =
     steps [EncodeRecipientL e (iToArray h) EMmsTo, EncodeRecipientL e (iCcArray h) EMmsCc,
            EncodeRecipientL e (iBccArray h) EMmsBcc]"

section \<open>Content type\<close>

definition EncodeApplicationIdParametersL :: "encode_services \<Rightarrow> mms_headers \<Rightarrow> encoder" where
  "EncodeApplicationIdParametersL e h =
     steps
       [when_enc (0 < length (des_of (iApplicationId h)))
          [EncodeTextString KMmsJavaApplicationId, EncodeTextStringL e (des_of (iApplicationId h))],
        when_enc (0 < length (des_of (iReplyToApplicationId h)))
          [EncodeTextString KMmsJavaReplyApplicationId,
           EncodeTextStringL e (des_of (iReplyToApplicationId h))]]"

definition has_application :: "mms_headers \<Rightarrow> bool" where
  "has_application h \<longleftrightarrow>
     0 < length (des_of (iApplicationId h)) \<or> 0 < length (des_of (iReplyToApplicationId h))"

text \<open>The length the code adds for the two application identifiers.\<close>

definition application_length :: "mms_headers \<Rightarrow> nat" where
  "application_length h =
     (if 0 < length (des_of (iApplicationId h))
      then length KMmsJavaApplicationId + 1 + length (des_of (iApplicationId h)) + 1 else 0)
     + (if 0 < length (des_of (iReplyToApplicationId h))
        then length KMmsJavaReplyApplicationId + 1 + length (des_of (iReplyToApplicationId h)) + 1 else 0)"

definition EncodeMultipartMixedHeaderL :: "encode_services \<Rightarrow> mms_headers \<Rightarrow> tint \<Rightarrow> encoder" where
  "EncodeMultipartMixedHeaderL e h n =
     (let headerLength = (if has_application h then 1 + application_length h else 0)
      in steps
          [write_at [KMmsAssignedContentType],
           when_enc (0 < headerLength) [EncodeValueLength (of_nat headerLength)],
           write_at [KMmsAssignedApplicationVndWapMultipartMixed OR 0x80],
           when_enc (has_application h) [EncodeApplicationIdParametersL e h],
           EncodeUintvar n])"

text \<open>
  The root part of a multipart/related message: the content identifier that the store holds (or the
  one generated for it, with its brackets), and the two parts of the content type. They come from
  the attachment manager of the message store, which is not in the model.
\<close>

record root_part =
  rootContentId :: string8
  rootType :: string8
  rootSubType :: string8

definition KMmsSlash8 :: byte where "KMmsSlash8 = 0x2F"
definition KMmsAny :: string8 where "KMmsAny = ascii ''*/*''"

text \<open>A slash is added unless the type has its first slash at its end, or the subtype is empty or
  starts with one. The search gives \<open>-1\<close> when there is none, which is the end of an empty type.\<close>

definition content_type_string :: "root_part \<Rightarrow> string8" where
  "content_type_string r =
     (let found = find_f id [KMmsSlash8] (rootType r);
          at_end = (case found of None \<Rightarrow> rootType r = [] | Some p \<Rightarrow> p + 1 = length (rootType r));
          slash = (if \<not> at_end \<and> find_f id [KMmsSlash8] (rootSubType r) \<noteq> Some 0 \<and> rootSubType r \<noteq> []
                   then [KMmsSlash8] else []);
          s = rootType r @ slash @ rootSubType r
      in if s = [] then KMmsAny else s)"

fun find_content_type :: "(byte \<Rightarrow> byte) \<Rightarrow> string8 \<Rightarrow> string8 list \<Rightarrow> nat \<Rightarrow> nat option" where
  "find_content_type f s [] i = None"
| "find_content_type f s (t # ts) i =
     (if compare_f f s t then Some i else find_content_type f s ts (i + 1))"

definition EncodeMultipartRelatedHeaderL ::
  "(byte \<Rightarrow> byte) \<Rightarrow> encode_services \<Rightarrow> mms_headers \<Rightarrow> tint \<Rightarrow> root_part \<Rightarrow> encoder" where
  "EncodeMultipartRelatedHeaderL fld e h n root =
     (let cid = rootContentId root;
          bracket = (find_f id [0x3C] cid \<noteq> Some 0);
          contentType = content_type_string root;
          known = find_content_type fld contentType KContentTypeTable 0;
          headerLength = 1 + (length cid + 2) + (if bracket then 2 else 0) + 1
            + (if known \<noteq> None then 1 else length contentType + 1) + application_length h
      in steps
          [write_at [KMmsAssignedContentType],
           EncodeValueLength (of_nat headerLength),
           write_at [KMmsAssignedApplicationVndWapMultipartRelated OR 0x80],
           when_enc (0 < length cid)
             [EncodeHeaderAndTextString (word_of_int KWspStart OR 0x80) (if bracket then 0x3C # cid @ [0x3E] else cid)],
           (case known of
              Some i \<Rightarrow> EncodeMandatoryByte (word_of_int KWspRelatedType OR 0x80) (of_nat i)
            | None \<Rightarrow> EncodeHeaderAndTextString (word_of_int KWspRelatedType OR 0x80) contentType),
           when_enc (has_application h) [EncodeApplicationIdParametersL e h],
           EncodeUintvar n])"

text \<open>\<open>root\<close> is the part with the identifier \<open>MessageRoot\<close>, when there is an entry and the
  attachment manager finds it.\<close>

definition EncodeMultipartHeader ::
  "(byte \<Rightarrow> byte) \<Rightarrow> encode_services \<Rightarrow> mms_headers \<Rightarrow> tint \<Rightarrow> root_part option \<Rightarrow> encoder" where
  "EncodeMultipartHeader fld e h n root =
     (case root of
        Some r \<Rightarrow> if iStart h \<noteq> 0 then EncodeMultipartRelatedHeaderL fld e h n r
                  else EncodeMultipartMixedHeaderL e h n
      | None \<Rightarrow> EncodeMultipartMixedHeaderL e h n)"

section \<open>The PDUs of the client\<close>

definition EncodeSendRequestHeadersL ::
  "(byte \<Rightarrow> byte) \<Rightarrow> encode_services \<Rightarrow> mms_headers \<Rightarrow> tint \<Rightarrow> root_part option \<Rightarrow> encoder" where
  "EncodeSendRequestHeadersL fld e h n root =
     steps
       [EncodeStartingHeaders KMmsMessageTypeMSendReq (des_of (iTID h)) (iVersion h),
        EncodeDate (iDate h),
        EncodeSenderL e (des_of (iSender h)),
        EncodeRecipients e h,
        EncodeOptionalStringL e KMmsAssignedSubject (des_of (iSubject h)),
        EncodeOptionalByte KMmsAssignedMessageClass (iMsgClass h),
        EncodeOptionalIntervalOrDate KMmsAssignedExpiry (ExpiryInterval h) (ExpiryDate h),
        EncodeOptionalIntervalOrDate KMmsAssignedDeliveryTime (DeliveryTimeInterval h) (DeliveryDate h),
        EncodeOptionalByte KMmsAssignedPriority (iPriority h),
        EncodeOptionalByte KMmsAssignedSenderVisibility (iSenderVisi h),
        EncodeOptionalByte KMmsAssignedDeliveryReport (iDelivReport h),
        EncodeOptionalByte KMmsAssignedReadReply (iReadReply h),
        when_enc (version_above h KMmsVersion1)
          [EncodeReplyCharging h [KMmsReplyChargingRequested, KMmsReplyChargingRequestedTextOnly],
           EncodeOptionalString KMmsAssignedReplyChargingID (des_of (iReplyChargingId h))],
        when_enc (version_above h KMmsVersion11)
          [on_box h (\<lambda>m. steps
             [EncodeOptionalByte KMmsAssignedMmsStore (iMmsStore m),
              when_enc (iMmsStore m = KMmsYes) [EncodeState e h m]])],
        when_enc (version_above h KMmsVersion12)
          [EncodeApplicationHeadersL e h,
           EncodeOptionalByte KMmsAssignedContentClass (iContentClass h),
           EncodeOptionalByte KMmsAssignedDrmContent (iDrmContent h),
           EncodeOptionalByte KMmsAssignedAdaptationAllowed (iAdaptationAllowed h)],
        EncodeMultipartHeader fld e h n root]"

definition EncodeNotifyResponse :: "mms_headers \<Rightarrow> encoder" where
  "EncodeNotifyResponse h =
     steps
       [EncodeStartingHeaders KMmsMessageTypeMNotifyRespInd (des_of (iTID h)) (iVersion h),
        EncodeMandatoryByte KMmsAssignedStatus (iStatus h),
        EncodeOptionalByte KMmsAssignedReportAllowed (iReportAllowed h)]"

definition EncodeAcknowledgeIndication :: "mms_headers \<Rightarrow> encoder" where
  "EncodeAcknowledgeIndication h =
     steps
       [EncodeStartingHeaders KMmsMessageTypeAcknowledgeInd (des_of (iTID h)) (iVersion h),
        EncodeOptionalByte KMmsAssignedReportAllowed (iReportAllowed h)]"

text \<open>Unlike the other PDUs, a notification has its sender only when there is one.\<close>

definition EncodeMmsNotificationL :: "encode_services \<Rightarrow> mms_headers \<Rightarrow> encoder" where
  "EncodeMmsNotificationL e h =
     steps
       [EncodeStartingHeaders KMmsMessageTypeMNotificationInd (des_of (iTID h)) (iVersion h),
        when_enc (0 < length (des_of (iSender h))) [EncodeSenderL e (des_of (iSender h))],
        EncodeOptionalStringL e KMmsAssignedSubject (des_of (iSubject h)),
        EncodeOptionalByte KMmsAssignedDeliveryReport (iDelivReport h),
        EncodeOptionalByte KMmsAssignedMessageClass (iMsgClass h),
        write_at [KMmsAssignedMessageSize], EncodeLongInteger (scast (iMessageSize h)),
        EncodeOptionalIntervalOrDate KMmsAssignedExpiry (ExpiryInterval h) (ExpiryDate h),
        when_enc (version_above h KMmsVersion1)
          [EncodeReplyCharging h [KMmsReplyChargingAccepted, KMmsReplyChargingAcceptedTextOnly],
           EncodeOptionalString KMmsAssignedReplyChargingID (des_of (iReplyChargingId h))],
        when_enc (version_above h KMmsVersion11)
          [on_box h (\<lambda>m. EncodeOptionalByte KMmsAssignedStored (iMmsStored m)),
           EncodeOptionalByte KMmsAssignedDistributionIndicator (iDistributionIndicator h)],
        when_enc (version_above h KMmsVersion12)
          [EncodeApplicationHeadersL e h,
           EncodeOptionalByte KMmsAssignedRecommendedRetrievalMode (iRecommendedRetrievalMode h),
           EncodeOptionalStringL e KMmsAssignedRecommendedRetrievalModeText
             (des_of (iRecommendedRetrievalModeText h)),
           EncodeOptionalByte KMmsAssignedContentClass (iContentClass h),
           EncodeOptionalByte KMmsAssignedDrmContent (iDrmContent h),
           EncodeOptionalString KMmsAssignedReplaceId (des_of (iReplaceCancelId h))],
        EncodeHeaderAndTextString KMmsAssignedContentLocation (des_of (iContentLocation h))]"

definition EncodeForwardRequestL :: "encode_services \<Rightarrow> mms_headers \<Rightarrow> encoder" where
  "EncodeForwardRequestL e h =
     steps
       [EncodeStartingHeaders KMmsMessageTypeForwardReq (des_of (iTID h)) (iVersion h),
        EncodeDate (iDate h),
        EncodeSenderL e (des_of (iSender h)),
        EncodeRecipients e h,
        EncodeOptionalIntervalOrDate KMmsAssignedExpiry (ExpiryInterval h) (ExpiryDate h),
        EncodeOptionalIntervalOrDate KMmsAssignedDeliveryTime (DeliveryTimeInterval h) (DeliveryDate h),
        EncodeOptionalByte KMmsAssignedReportAllowed (iReportAllowed h),
        EncodeOptionalByte KMmsAssignedDeliveryReport (iDelivReport h),
        EncodeOptionalByte KMmsAssignedReadReply (iReadReply h),
        when_enc (version_above h KMmsVersion11)
          [on_box h (\<lambda>m. steps
             [EncodeOptionalByte KMmsAssignedMmsStore (iMmsStore m),
              when_enc (iMmsStore m = KMmsYes \<or> iMmsStored m = KMmsYes) [EncodeState e h m]])],
        when_enc (version_above h KMmsVersion12)
          [EncodeReplyCharging h [KMmsReplyChargingRequested, KMmsReplyChargingRequestedTextOnly]],
        EncodeHeaderAndTextString KMmsAssignedContentLocation (des_of (iContentLocation h))]"

definition EncodeReadReplyL :: "encode_services \<Rightarrow> mms_headers \<Rightarrow> encoder" where
  "EncodeReadReplyL e h =
     steps
       [EncodeStartingHeaders (iMsgType h) [] (iVersion h),
        EncodeHeaderAndTextString KMmsAssignedMessageId (des_of (iMessageId h)),
        EncodeRecipientL e (iToArray h) EMmsTo,
        EncodeSenderL e (des_of (iSender h)),
        EncodeDate (iDate h),
        EncodeMandatoryByte KMmsAssignedReadStatus (iReadStatus h),
        when_enc (version_above h KMmsVersion12) [EncodeApplicationHeadersL e h]]"

definition EncodeMMBoxStoreRequestL :: "encode_services \<Rightarrow> mms_headers \<Rightarrow> encoder" where
  "EncodeMMBoxStoreRequestL e h =
     steps
       [EncodeStartingHeaders KMmsMessageTypeMboxStoreReq (des_of (iTID h)) (iVersion h),
        EncodeHeaderAndTextString KMmsAssignedContentLocation (des_of (iContentLocation h)),
        on_box h (EncodeState e h)]"

definition EncodeViewLimit :: "mmbox_view_headers \<Rightarrow> encoder" where
  "EncodeViewLimit v =
     when_enc (iMmsLimit v \<noteq> KMaxTUint32) [write_at [KMmsAssignedLimit], EncodeInteger (iMmsLimit v)]"

definition EncodeMMBoxViewRequestL :: "encode_services \<Rightarrow> mms_headers \<Rightarrow> encoder" where
  "EncodeMMBoxViewRequestL e h =
     steps
       [EncodeStartingHeaders KMmsMessageTypeMboxViewReq (des_of (iTID h)) (iVersion h),
        EncodeContentLocationArray h,
        on_box h (EncodeKeywordArrayL e h),
        (case iMmBoxViewHeaders h of
           None \<Rightarrow> nothing
         | Some v \<Rightarrow> steps
             [EncodeMMBoxStates (iMmsMMStates v),
              EncodeOptionalInteger KMmsAssignedStart (iMmsStart v),
              EncodeViewLimit v,
              EncodeAttributes (iAttributes v),
              EncodeOptionalByte KMmsAssignedTotals (iMmsTotals v),
              EncodeOptionalByte KMmsAssignedQuotas (iMmsQuotas v)])]"

definition EncodeMMBoxUploadRequestL ::
  "(byte \<Rightarrow> byte) \<Rightarrow> encode_services \<Rightarrow> mms_headers \<Rightarrow> tint \<Rightarrow> root_part option \<Rightarrow> encoder" where
  "EncodeMMBoxUploadRequestL fld e h n root =
     steps
       [EncodeStartingHeaders KMmsMessageTypeMBoxUploadReq (des_of (iTID h)) (iVersion h),
        on_box h (EncodeState e h),
        EncodeMultipartHeader fld e h n root]"

definition EncodeDeleteRequestL :: "mms_headers \<Rightarrow> encoder" where
  "EncodeDeleteRequestL h =
     steps
       [EncodeStartingHeaders (iMsgType h) (des_of (iTID h)) (iVersion h),
        EncodeContentLocationArray h]"

definition EncodeCancelResponse :: "mms_headers \<Rightarrow> encoder" where
  "EncodeCancelResponse h =
     steps
       [EncodeStartingHeaders KMmsMessageTypeCancelConf (des_of (iTID h)) (iVersion h),
        EncodeOptionalByte KMmsAssignedCancelStatus (iCancelStatus h)]"

section \<open>The PDUs of a server\<close>

text \<open>\<open>MMBoxMessageHeadersL\<close> creates the part when it is missing; only its values are read here.\<close>

definition box_of :: "mms_headers \<Rightarrow> mmbox_message_headers" where
  "box_of h = (case iMmBoxMessageHeaders h of None \<Rightarrow> mh_new | Some m \<Rightarrow> m)"

text \<open>The headers that say whether the message was stored in the box of the user.\<close>

definition EncodeStoreResult :: "encode_services \<Rightarrow> mms_headers \<Rightarrow> encoder" where
  "EncodeStoreResult e h = on_box h (\<lambda>m. steps
     [EncodeOptionalByte KMmsAssignedStoreStatus (iMmsStoreStatus m),
      EncodeOptionalStringL e KMmsAssignedStoreStatusText (des_of (iMmsStoreStatusText m)),
      when_enc (iMmsStoreStatus m = KMmsStatusOk)
        [EncodeHeaderAndTextString KMmsAssignedContentLocation (des_of (iContentLocation h))]])"

definition EncodeSendConfirmationL :: "encode_services \<Rightarrow> mms_headers \<Rightarrow> encoder" where
  "EncodeSendConfirmationL e h = when_enc (wins e)
     [EncodeStartingHeaders KMmsMessageTypeMSendConf (des_of (iTID h)) (iVersion h),
      EncodeMandatoryByte KMmsAssignedResponseStatus (iResponseStatus h),
      EncodeOptionalStringL e KMmsAssignedResponseText (des_of (iOperatorResponseText h)),
      EncodeOptionalString KMmsAssignedMessageId (des_of (iMessageId h)),
      EncodeStoreResult e h]"

definition EncodeRetrieveConfirmationL ::
  "(byte \<Rightarrow> byte) \<Rightarrow> encode_services \<Rightarrow> mms_headers \<Rightarrow> tint \<Rightarrow> root_part option \<Rightarrow> encoder" where
  "EncodeRetrieveConfirmationL fld e h n root = when_enc (wins e)
     [EncodeStartingHeaders KMmsMessageTypeMRetrieveConf (des_of (iTID h)) (iVersion h),
      EncodeOptionalString KMmsAssignedMessageId (des_of (iMessageId h)),
      EncodeDate (iDate h),
      when_enc (0 < length (des_of (iSender h))) [EncodeSenderL e (des_of (iSender h))],
      EncodePreviouslySent e h,
      EncodeRecipientL e (iToArray h) EMmsTo,
      EncodeRecipientL e (iCcArray h) EMmsCc,
      EncodeOptionalStringL e KMmsAssignedSubject (des_of (iSubject h)),
      on_box h (EncodeState e h),
      EncodeOptionalByte KMmsAssignedMessageClass (iMsgClass h),
      EncodeOptionalByte KMmsAssignedPriority (iPriority h),
      EncodeOptionalByte KMmsAssignedDeliveryReport (iDelivReport h),
      EncodeOptionalByte KMmsAssignedReadReply (iReadReply h),
      when_enc (version_above h KMmsVersion1)
        [EncodeReplyCharging h [KMmsReplyChargingAccepted, KMmsReplyChargingAcceptedTextOnly],
         EncodeOptionalString KMmsAssignedReplyChargingID (des_of (iReplyChargingId h)),
         EncodeOptionalByte KMmsAssignedRetrieveStatus (iResponseStatus h),
         EncodeOptionalStringL e KMmsAssignedRetrieveText (des_of (iOperatorResponseText h))],
      when_enc (version_above h KMmsVersion11)
        [EncodeOptionalByte KMmsAssignedDistributionIndicator (iDistributionIndicator h)],
      when_enc (version_above h KMmsVersion12)
        [EncodeApplicationHeadersL e h,
         EncodeOptionalByte KMmsAssignedContentClass (iContentClass h),
         EncodeOptionalByte KMmsAssignedDrmContent (iDrmContent h),
         EncodeOptionalString KMmsAssignedReplaceId (des_of (iReplaceCancelId h))],
      EncodeMultipartHeader fld e h n root]"

definition EncodeDeliveryReportL :: "encode_services \<Rightarrow> mms_headers \<Rightarrow> encoder" where
  "EncodeDeliveryReportL e h = when_enc (wins e)
     [EncodeStartingHeaders KMmsMessageTypeDeliveryInd [] (iVersion h),
      EncodeHeaderAndTextString KMmsAssignedMessageId (des_of (iMessageId h)),
      EncodeRecipientL e (iToArray h) EMmsTo,
      EncodeDate (iDate h),
      EncodeMandatoryByte KMmsAssignedStatus (iStatus h),
      when_enc (version_above h KMmsVersion12)
        [EncodeOptionalStringL e KMmsAssignedStatusText (des_of (iOperatorResponseText h)),
         EncodeApplicationHeadersL e h]]"

definition EncodeForwardConfirmationL :: "encode_services \<Rightarrow> mms_headers \<Rightarrow> encoder" where
  "EncodeForwardConfirmationL e h = when_enc (wins e)
     [EncodeStartingHeaders KMmsMessageTypeForwardConf (des_of (iTID h)) (iVersion h),
      EncodeMandatoryByte KMmsAssignedResponseStatus (iResponseStatus h),
      EncodeOptionalStringL e KMmsAssignedResponseText (des_of (iOperatorResponseText h)),
      EncodeOptionalString KMmsAssignedMessageId (des_of (iMessageId h)),
      EncodeStoreResult e h]"

definition EncodeMMBoxStoreConfirmationL :: "encode_services \<Rightarrow> mms_headers \<Rightarrow> encoder" where
  "EncodeMMBoxStoreConfirmationL e h = when_enc (wins e)
     [EncodeStartingHeaders KMmsMessageTypeMboxStoreConf (des_of (iTID h)) (iVersion h),
      EncodeOptionalString KMmsAssignedContentLocation (des_of (iContentLocation h)),
      EncodeMandatoryByte KMmsAssignedStoreStatus (iMmsStoreStatus (box_of h)),
      EncodeOptionalStringL e KMmsAssignedStoreStatusText (des_of (iMmsStoreStatusText (box_of h)))]"

definition EncodeMMBoxUploadConfirmationL :: "encode_services \<Rightarrow> mms_headers \<Rightarrow> encoder" where
  "EncodeMMBoxUploadConfirmationL e h = when_enc (wins e)
     [EncodeStartingHeaders KMmsMessageTypeMBoxUploadConf (des_of (iTID h)) (iVersion h),
      EncodeOptionalString KMmsAssignedContentLocation (des_of (iContentLocation h)),
      EncodeMandatoryByte KMmsAssignedStoreStatus (iMmsStoreStatus (box_of h)),
      EncodeOptionalStringL e KMmsAssignedStoreStatusText (des_of (iMmsStoreStatusText (box_of h)))]"

text \<open>A total or a quota: a token, and a number that is left out when it is not known.\<close>

definition EncodeCounted :: "byte \<Rightarrow> byte \<Rightarrow> tint \<Rightarrow> encoder" where
  "EncodeCounted header token v =
     when_enc (v \<noteq> KMaxTUint32)
       [measured (EncodeInteger v) (\<lambda>len.
          steps [write_at [header], EncodeValueLength (of_nat (len + 1)), write_at [token], EncodeInteger v])]"

definition EncodeMMBoxViewConfirmationL ::
  "encode_services \<Rightarrow> mms_headers \<Rightarrow> tint \<Rightarrow> encoder" where
  "EncodeMMBoxViewConfirmationL e h n = when_enc (wins e)
     [EncodeStartingHeaders KMmsMessageTypeMboxViewConf (des_of (iTID h)) (iVersion h),
      EncodeMandatoryByte KMmsAssignedResponseStatus (iResponseStatus h),
      EncodeOptionalStringL e KMmsAssignedResponseText (des_of (iOperatorResponseText h)),
      EncodeContentLocationArray h,
      on_box h (EncodeKeywordArrayL e h),
      (case iMmBoxViewHeaders h of
         None \<Rightarrow> nothing
       | Some v \<Rightarrow> steps
           [EncodeMMBoxStates (iMmsMMStates v),
            EncodeOptionalInteger KMmsAssignedStart (iMmsStart v),
            EncodeViewLimit v,
            EncodeAttributes (iAttributes v),
            EncodeCounted KMmsAssignedMboxTotals KMmsMessageCountToken (iMMBoxTotalNumber v),
            EncodeCounted KMmsAssignedMboxTotals KMmsMessageSizeToken (iMMBoxTotalSize v),
            EncodeCounted KMmsAssignedMboxQuotas KMmsMessageCountToken (iMMBoxQuotaNumber v),
            EncodeCounted KMmsAssignedMboxQuotas KMmsMessageSizeToken (iMMBoxQuotaSize v),
            when_enc (iMmsMessageCount v \<noteq> KMaxTUint32)
              [write_at [KMmsAssignedMessageCount], EncodeInteger (iMmsMessageCount v)]]),
      if n = 0 then EncodeMandatoryByte KMmsAssignedContentType KMmsAssignedAny
      else EncodeMultipartMixedHeaderL e h n]"

text \<open>The results of a delete request: the status and the text of each index once, then every
  location with its index. \<open>oldIndex\<close> is the index of the result before.\<close>

definition EncodeIndexed :: "byte \<Rightarrow> tint \<Rightarrow> encoder \<Rightarrow> encoder" where
  "EncodeIndexed header index m =
     measured (steps [EncodeInteger index, m])
       (\<lambda>len. steps [write_at [header], EncodeValueLength (of_nat len), EncodeInteger index, m])"

text \<open>The status is one byte, counted without being written.\<close>

definition EncodeDeleteStatus :: "tint \<Rightarrow> tint \<Rightarrow> encoder" where
  "EncodeDeleteStatus index status =
     measured (EncodeInteger index)
       (\<lambda>len. steps [write_at [KMmsAssignedResponseStatus], EncodeValueLength (of_nat (len + 1)),
                     EncodeInteger index, write_at [ucast status]])"

fun EncodeDeleteResults :: "encode_services \<Rightarrow> tint \<Rightarrow> delete_result list \<Rightarrow> encoder list" where
  "EncodeDeleteResults e oldIndex [] = []"
| "EncodeDeleteResults e oldIndex (r # rs) =
     (let index = drOrder r in
      [when_enc (index \<noteq> oldIndex)
         [when_enc (drResponseStatus r \<noteq> 0) [EncodeDeleteStatus index (drResponseStatus r)],
          when_enc (0 < length (des_of (drResponseText r)))
            [EncodeIndexed KMmsAssignedResponseText index (EncodeTextStringL e (des_of (drResponseText r)))]],
       when_enc (0 < length (des_of (drContentLocation r)))
         [EncodeIndexed KMmsAssignedContentLocation index (EncodeTextString (des_of (drContentLocation r)))]]
      @ EncodeDeleteResults e index rs)"

definition EncodeDeleteConfirmationL :: "encode_services \<Rightarrow> mms_headers \<Rightarrow> encoder" where
  "EncodeDeleteConfirmationL e h = when_enc (wins e)
     (EncodeStartingHeaders (iMsgType h) (des_of (iTID h)) (iVersion h)
      # EncodeDeleteResults e KMaxTUint32 (iDeleteResultArray h))"

definition EncodeMMBoxDescriptionL :: "encode_services \<Rightarrow> mms_headers \<Rightarrow> tint \<Rightarrow> encoder" where
  "EncodeMMBoxDescriptionL e h n = when_enc (wins e)
     [EncodeMandatoryByte KMmsAssignedMessageType KMmsMessageTypeMBoxDescr,
      EncodeOptionalString KMmsAssignedContentLocation (des_of (iContentLocation h)),
      EncodeOptionalString KMmsAssignedMessageId (des_of (iMessageId h)),
      on_box h (EncodeState e h),
      EncodeDate (iDate h),
      when_enc (0 < length (des_of (iSender h))) [EncodeSenderL e (des_of (iSender h))],
      EncodeRecipients e h,
      EncodeOptionalByte KMmsAssignedMessageClass (iMsgClass h),
      EncodeOptionalStringL e KMmsAssignedSubject (des_of (iSubject h)),
      EncodeOptionalByte KMmsAssignedPriority (iPriority h),
      EncodeOptionalIntervalOrDate KMmsAssignedDeliveryTime (DeliveryTimeInterval h) (DeliveryDate h),
      EncodeOptionalIntervalOrDate KMmsAssignedExpiry (ExpiryInterval h) (ExpiryDate h),
      EncodeOptionalByte KMmsAssignedDeliveryReport (iDelivReport h),
      EncodeOptionalByte KMmsAssignedReadReply (iReadReply h),
      when_enc (0 <s iMessageSize h)
        [write_at [KMmsAssignedMessageSize], EncodeLongInteger (scast (iMessageSize h))],
      EncodeReplyCharging h [KMmsReplyChargingRequested, KMmsReplyChargingRequestedTextOnly,
        KMmsReplyChargingAccepted, KMmsReplyChargingAcceptedTextOnly],
      EncodeOptionalString KMmsAssignedReplyChargingID (des_of (iReplyChargingId h)),
      EncodePreviouslySent e h,
      when_enc (0 <s n) [EncodeMultipartMixedHeaderL e h n]]"

definition EncodeCancelRequest :: "encode_services \<Rightarrow> mms_headers \<Rightarrow> encoder" where
  "EncodeCancelRequest e h = when_enc (wins e)
     [EncodeStartingHeaders KMmsMessageTypeCancelReq (des_of (iTID h)) (iVersion h),
      EncodeOptionalString KMmsAssignedCancelId (des_of (iReplaceCancelId h))]"

section \<open>The size of the buffer\<close>

definition headers_size :: "mms_headers \<Rightarrow> nat" where
  "headers_size h =
     4 + length (des_of (iTID h)) + 2 + 8
     + sum_list (map (\<lambda>a. 2 * length a) (iToArray h))
     + sum_list (map (\<lambda>a. 2 * length a) (iCcArray h))
     + sum_list (map (\<lambda>a. 2 * length a) (iBccArray h))
     + 2 * length (des_of (iSender h)) + 2 * length (des_of (iSubject h))
     + 4 + 8 + 4 + 8 + 4 + 4 + 4 + 4 + 4 + 4
     + length (des_of (iContentLocation h)) + 4 + 4 + 4 + length (des_of (iMessageId h))
     + 4 + 4 + 4 + 4 + length (des_of (iOperatorResponseText h))
     + 4 + length (des_of (iRootContentID h))
     + (if version_above h KMmsVersion1
        then 4 + 4 + 8 + 4 + 4 + 4 + length (des_of (iReplyChargingId h))
             + 4 + sum_list (map sc_size (iPreviouslySentArray h))
        else 0)
     + 4 + 4 + 4 + 8 + 4 + 4 + 4
     + (case iElementDescriptor h of None \<Rightarrow> 0 | Some x \<Rightarrow> ed_size x)
     + (case iMmBoxMessageHeaders h of None \<Rightarrow> 0 | Some x \<Rightarrow> mh_size x)
     + (case iMmBoxViewHeaders h of None \<Rightarrow> 0 | Some x \<Rightarrow> vh_size x)
     + (if 0 < length (des_of (iExtendedNotificationText h))
        then 4 + 2 * length (des_of (iExtendedNotificationText h)) else 0)
     + (if iApplicationId h \<noteq> None \<or> iReplyToApplicationId h \<noteq> None \<or> iApplicationInfo h \<noteq> None
        then 4 + 2 * length (des_of (iApplicationId h)) + 4 + 2 * length (des_of (iReplyToApplicationId h))
             + 4 + length (des_of (iApplicationInfo h))
        else 0)
     + (if 0 <s iRecommendedRetrievalMode h \<or> iRecommendedRetrievalModeText h \<noteq> None
           \<or> iReplaceCancelId h \<noteq> None \<or> iCancelStatus h \<noteq> 0
        then 4 + 4 + 2 * length (des_of (iRecommendedRetrievalModeText h)) + 4
             + length (des_of (iReplaceCancelId h)) + 4
        else 0)"

section \<open>The entry point\<close>

text \<open>\<open>None\<close> is a message type that is not encoded: the buffer is left empty.\<close>

definition headers_pdu ::
  "(byte \<Rightarrow> byte) \<Rightarrow> encode_services \<Rightarrow> mms_headers \<Rightarrow> root_part option \<Rightarrow> encoder option" where
  "headers_pdu fld e h root =
     (let t = iMsgType h in
      if t = KMmsMessageTypeMNotifyRespInd then Some (EncodeNotifyResponse h)
      else if t = KMmsMessageTypeAcknowledgeInd then Some (EncodeAcknowledgeIndication h)
      else if t = KMmsMessageTypeMNotificationInd then Some (EncodeMmsNotificationL e h)
      else if t = KMmsMessageTypeForwardReq then Some (EncodeForwardRequestL e h)
      else if t = KMmsMessageTypeReadRecInd then Some (EncodeReadReplyL e h)
      else if t = KMmsMessageTypeMboxStoreReq then Some (EncodeMMBoxStoreRequestL e h)
      else if t = KMmsMessageTypeMboxViewReq then Some (EncodeMMBoxViewRequestL e h)
      else if t = KMmsMessageTypeMBoxDeleteReq \<or> t = KMmsMessageTypeDeleteReq
        then Some (EncodeDeleteRequestL h)
      else if t = KMmsMessageTypeCancelConf then Some (EncodeCancelResponse h)
      else if t = KMmsMessageTypeReadOrigInd then Some (EncodeReadReplyL e h)
      else if t = KMmsMessageTypeMSendConf then Some (EncodeSendConfirmationL e h)
      else if t = KMmsMessageTypeDeliveryInd then Some (EncodeDeliveryReportL e h)
      else if t = KMmsMessageTypeForwardConf then Some (EncodeForwardConfirmationL e h)
      else if t = KMmsMessageTypeMboxStoreConf then Some (EncodeMMBoxStoreConfirmationL e h)
      else if t = KMmsMessageTypeMBoxUploadConf then Some (EncodeMMBoxUploadConfirmationL e h)
      else if t = KMmsMessageTypeMBoxDeleteConf \<or> t = KMmsMessageTypeDeleteConf
        then Some (EncodeDeleteConfirmationL e h)
      else if t = KMmsMessageTypeCancelReq then Some (EncodeCancelRequest e h)
      else if wins e \<and> t = KMmsMessageTypeMSendReq then Some (EncodeSendRequestHeadersL fld e h 0 root)
      else if wins e \<and> t = KMmsMessageTypeMBoxUploadReq
        then Some (EncodeMMBoxUploadRequestL fld e h 0 root)
      else if wins e \<and> t = KMmsMessageTypeMRetrieveConf
        then Some (EncodeRetrieveConfirmationL fld e h 0 root)
      else if wins e \<and> t = KMmsMessageTypeMboxViewConf then Some (EncodeMMBoxViewConfirmationL e h 0)
      else if wins e \<and> t = KMmsMessageTypeMBoxDescr then Some (EncodeMMBoxDescriptionL e h 0)
      else None)"

text \<open>\<open>Reset\<close> sets the number of attachments to 0 and clears the error. The buffer is resized to
  the size of the headers and a slack, and cut to what was written at the end; \<open>old i\<close> are the
  bytes that a new buffer happens to hold.\<close>

definition encode_start :: "(nat \<Rightarrow> byte) \<Rightarrow> mms_headers \<Rightarrow> mms_encode" where
  "encode_start old h =
     \<lparr> iEncodeBuffer = map old [0..<headers_size h + KMMSBufferExtra], iEncodePosition = 0,
       iEncodeError = KErrNone \<rparr>"

definition EncodeHeadersL ::
  "(byte \<Rightarrow> byte) \<Rightarrow> encode_services \<Rightarrow> (nat \<Rightarrow> byte) \<Rightarrow> root_part option \<Rightarrow> mms_headers \<Rightarrow>
   (byte list \<times> symbian_error) leaving" where
  "EncodeHeadersL fld e old root h =
     (case headers_pdu fld e h root of
        None \<Rightarrow> Inr ([], KErrNone)
      | Some m \<Rightarrow> bind_l (m (encode_start old h)) (\<lambda>s. Inr (written s, iEncodeError s)))"

text \<open>The dispatch of the PDUs that have attachments too.\<close>

definition EncodeRequestHeadersL ::
  "(byte \<Rightarrow> byte) \<Rightarrow> encode_services \<Rightarrow> mms_headers \<Rightarrow> tint \<Rightarrow> root_part option \<Rightarrow> encoder" where
  "EncodeRequestHeadersL fld e h n root =
     (let t = iMsgType h in
      if t = KMmsMessageTypeMSendReq then EncodeSendRequestHeadersL fld e h n root
      else if t = KMmsMessageTypeMBoxUploadReq then EncodeMMBoxUploadRequestL fld e h n root
      else if t = KMmsMessageTypeMRetrieveConf then EncodeRetrieveConfirmationL fld e h n root
      else if t = KMmsMessageTypeMboxViewConf then EncodeMMBoxViewConfirmationL e h n
      else if t = KMmsMessageTypeMBoxDescr then EncodeMMBoxDescriptionL e h n
      else set_encode_error KMmsErrorUnknownMessageType)"

end
