(* ===== verification/Wsp_Roundtrip.thy ===== *)
theory Wsp_Roundtrip
  imports Wsp_Decode Wsp_Core "HOL-Library.Signed_Division" Wsp_Encode Wsp_Reads
begin

text \<open>
  The decoder of a field undoes its encoder: the contract of a field that can be written and read, numbers,
  strings and the values built of them.
\<close>

section \<open>The interface of a field codec\<close>

text \<open>
  \<open>wsp_field\<close> is the contract between the encoder and the decoder of one kind of field: from a
  state whose next bytes are an encoding, the decoder returns the value, consumes exactly
  the encoding, and changes nothing else. The laws of sequences of fields follow.
\<close>

locale wsp_field =
  fixes enc :: "'a \<Rightarrow> byte list"
    and dec :: "'a decoder"
    and ok :: "'a \<Rightarrow> bool"
  assumes decodes:
    "ok x \<Longrightarrow> dec_ok d \<Longrightarrow> left_bytes d = enc x @ ys \<Longrightarrow>
     dec d = Inr (x, moved d (length (enc x)))"
begin

lemma then_decodes:
  assumes "ok x" "dec_ok d" "left_bytes d = enc x @ ys"
  shows "dbind dec f d = f x (moved d (length (enc x)))"
  by (simp add: decodes [OF assms])

lemma prefix_free:
  assumes "ok x" "ok y" "enc x @ us = enc y @ vs"
  shows "x = y \<and> us = vs"
proof -
  define d where "d = \<lparr>iDecodeBuffer = enc x @ us, iPosition = 0, iLength = length (enc x @ us),
    iError = KErrNone, iDataStart = 0, iNumberOfAttachments = 0, iFakeSubject = 0,
    iCharacterSet = 0, dMultipartType = 0, iRootContentId = [], iUseForSubject = False,
    iPlainTexts = 0, iDecodingStage = EMmsNotApplicable, iLastHeader = False,
    iMmsHeaders = undefined, iMimeCharset = 0, iContentTypeParams = []\<rparr>"
  have d: "dec_ok d" "left_bytes d = enc x @ us" "left_bytes d = enc y @ vs"
    using assms(3) by (simp_all add: d_def dec_ok_def left_bytes_def)
  from decodes [OF assms(1) d(1,2)] decodes [OF assms(2) d(1,3)]
  have "x = y" by simp
  with assms(3) show ?thesis by simp
qed

end

text \<open>
  A word as the value of its digits: seven-bit groups for lengths, bytes for integers. These are the
  sums the loops of the decoder compute, against the digits the loops of the encoder write.
\<close>

section \<open>Splitting off the low digit\<close>

lemma push_drop_take: "push_bit n (drop_bit n (w :: 'a::len word)) + take_bit n w = w"
proof -
  have "push_bit n (drop_bit n w) + take_bit n w = push_bit n (drop_bit n w) OR take_bit n w"
    by (rule disjunctive_add) (simp add: bit_simps)
  also have "\<dots> = w"
    by (rule bit_word_eqI) (auto simp: bit_simps)
  finally show ?thesis .
qed

lemma mask_seven: "(0x7F :: 'a::len word) = Bit_Operations.mask 7"
  by (simp add: mask_eq_exp_minus_1)

lemma mask_eight: "(0xFF :: 'a::len word) = Bit_Operations.mask 8"
  by (simp add: mask_eq_exp_minus_1)

lemma low_group: "(ucast (ucast (w AND 0x7F :: tint) :: byte) :: tint) = take_bit 7 w"
  unfolding mask_seven by (rule bit_word_eqI) (auto simp: bit_simps)

lemma low_byte: "(ucast (ucast (w AND 0xFF :: tint) :: byte) :: tint) = take_bit 8 w"
  unfolding mask_eight by (rule bit_word_eqI) (auto simp: bit_simps)

lemma low_group_small: "(ucast (w AND 0x7F :: tint) :: byte) < 0x80"
proof -
  have "\<not> bit (ucast (w AND 0x7F :: tint) :: byte) 7"
    unfolding mask_seven by (simp add: bit_simps)
  then show ?thesis by (simp add: bit_seven word_less_nat_alt)
qed

section \<open>Leading zeros\<close>

lemma foldl_dropWhile_zero:
  assumes "f z 0 = z"
  shows "foldl f z (dropWhile (\<lambda>b. b = 0) xs) = foldl f z xs"
  using assms by (induction xs) auto

text \<open>
  What the field encoders write is what the field decoders read: each pair is an interpretation of
  \<open>wsp_field\<close>, so that the decoder consumes exactly the bytes of the field and returns its value.
\<close>

section \<open>Variable-length integers\<close>

definition group_step :: "tint \<Rightarrow> byte \<Rightarrow> tint" where
  "group_step a b = push_bit 7 a + ucast b"

lemma digits7_value:
  "foldl group_step (drop_bit (7 * k) n) (digits7 k n acc) = foldl group_step n acc"
proof (induction k arbitrary: n acc)
  case (Suc k)
  have "drop_bit (7 * Suc k) n = drop_bit (7 * k) (drop_bit 7 n)" by (simp add: add.commute)
  then have "foldl group_step (drop_bit (7 * Suc k) n) (digits7 (Suc k) n acc)
      = foldl group_step (drop_bit 7 n) (ucast (n AND 0x7F) # acc)"
    using Suc.IH [of "drop_bit 7 n"] by simp
  also have "\<dots> = foldl group_step n acc"
    by (simp add: group_step_def low_group push_drop_take)
  finally show ?case .
qed simp

lemma digits7_small: "\<forall>b \<in> set acc. b < 0x80 \<Longrightarrow> \<forall>b \<in> set (digits7 k n acc). b < 0x80"
proof (induction k arbitrary: n acc)
  case (Suc k)
  then have "\<forall>b \<in> set (ucast (n AND 0x7F) # acc). b < 0x80" using low_group_small [of n] by auto
  from Suc.IH [OF this] show ?case by simp
qed simp

lemma digits7_length [simp]: "length (digits7 k n acc) = k + length acc"
  by (induction k arbitrary: n acc) simp_all

lemma skip_zeros_value: "foldl group_step 0 (skip_zeros xs) = foldl group_step 0 xs"
  by (induction xs rule: skip_zeros.induct) (simp_all add: group_step_def)

lemma skip_zeros_set: "set (skip_zeros xs) \<subseteq> set xs"
  by (induction xs rule: skip_zeros.induct) auto

lemma skip_zeros_nil [simp]: "skip_zeros xs = [] \<longleftrightarrow> xs = []"
  by (induction xs rule: skip_zeros.induct) auto

lemma mark_continue_length [simp]: "length (mark_continue xs) = length xs"
  by (induction xs rule: mark_continue.induct) auto

lemma digits_left:
  obtains x xs where "skip_zeros (digits7 5 n []) = x # xs"
proof -
  have "length (digits7 5 n []) = 5" by simp
  then have "digits7 5 n [] \<noteq> []" by (cases "digits7 5 n []") simp_all
  then show ?thesis using that by (cases "skip_zeros (digits7 5 n [])") auto
qed

lemma uintvar_length: "length (uintvar_bytes n) = GetUintvarLength n"
  by (simp add: uintvar_bytes_def GetUintvarLength_def)

lemma uintvar_nonempty: "uintvar_bytes n \<noteq> []"
proof -
  obtain x xs where "skip_zeros (digits7 5 n []) = x # xs" by (rule digits_left)
  then show ?thesis by (cases xs) (simp_all add: uintvar_bytes_def)
qed

lemma read_at_moved: "read_at (moved d n) p = read_at d p"
  by (simp add: read_at_def)

lemma uintvar_loop_reads:
  assumes "\<forall>b \<in> set (x # xs). b < 0x80" "dec_ok d"
    "left_bytes d = mark_continue (x # xs) @ ys" "mark_continue (x # xs) = b # bs"
  shows "uintvar_loop acc b d
    = Inr (foldl group_step (acc + ucast x) xs, moved d (length (x # xs)))"
  using assms
proof (induction xs arbitrary: x acc b bs d)
  case Nil
  then have "b AND 0x80 = 0" using byte_high_bit [of b] by auto
  with Nil show ?case by (simp add: uintvar_loop.simps [of acc b d])
next
  case (Cons y xs)
  from Cons.prems(4) have b: "b = x OR 0x80" and bs: "bs = mark_continue (y # xs)" by auto
  obtain c cs where cs: "mark_continue (y # xs) = c # cs" by (cases xs) auto
  have high: "b AND 0x80 \<noteq> 0" by (simp add: b or_high_and)
  have low: "b AND 0x7F = x" using Cons.prems(1) by (simp add: b or_high_low low_seven_small)
  have left: "left_bytes d = b # c # cs @ ys" using Cons.prems(3,4) bs cs by simp
  have lt: "iPosition d < iLength d - 1"
    using arg_cong [OF left, of length] length_left [OF Cons.prems(2)] by simp
  have rd: "read_at (moved d 1) (iPosition d + 1) = Inr c"
    using read_left [OF Cons.prems(2), of 1] left by (simp add: read_at_moved)
  have IH: "uintvar_loop (push_bit 7 (acc + ucast x)) c (moved d 1)
      = Inr (foldl group_step (push_bit 7 (acc + ucast x) + ucast y) xs, moved (moved d 1) (length (y # xs)))"
    using Cons.prems(1,2) left cs by (intro Cons.IH) (auto simp: left)
  show ?case
    unfolding uintvar_loop.simps [of acc b d] rd low
    using high lt IH by (simp add: group_step_def [of "acc + ucast x" y])
qed

lemma uintvar_reads:
  assumes "n \<le> 0x7FFFFFFF" "dec_ok d" "left_bytes d = uintvar_bytes n @ ys"
  shows "GetUintvar d = Inr (n, moved d (length (uintvar_bytes n)))"
proof -
  obtain x xs where xs: "skip_zeros (digits7 5 n []) = x # xs" by (rule digits_left)
  obtain b bs where bs: "mark_continue (x # xs) = b # bs" by (cases xs) auto
  have enc: "uintvar_bytes n = mark_continue (x # xs)" by (simp add: uintvar_bytes_def xs)
  have small: "\<forall>b \<in> set (x # xs). b < 0x80"
    using skip_zeros_set [of "digits7 5 n []"] digits7_small [of "[]" 5 n] by (auto simp: xs)
  have "drop_bit 35 n = 0" by (rule bit_word_eqI) (simp add: bit_simps)
  then have "foldl group_step 0 (x # xs) = n"
    using skip_zeros_value [of "digits7 5 n []"] digits7_value [of 5 n "[]"] xs by simp
  then have v: "foldl group_step (ucast x) xs = n" by (simp add: group_step_def)
  have left: "left_bytes d = b # bs @ ys" using assms(3) enc bs by simp
  have "unat n \<le> KMaxTInt32" using assms(1) by (simp add: KMaxTInt32_def word_le_nat_alt)
  moreover have "uintvar_loop 0 b d = Inr (n, moved d (length (x # xs)))"
    using uintvar_loop_reads [OF small assms(2) _ bs, of ys 0] assms(3) enc v by simp
  ultimately show ?thesis
    using peek_left [OF assms(2) left] at_end_left [OF assms(2) left]
    by (simp add: GetUintvar_def dreturn_def enc)
qed

interpretation uintvar: wsp_field uintvar_bytes GetUintvar "\<lambda>n. n \<le> 0x7FFFFFFF"
  by unfold_locales (rule uintvar_reads)

lemma emits_uintvar [emit_rules]: "emits (EncodeUintvar n) (uintvar_bytes n)"
  unfolding EncodeUintvar_def by (rule emits_write)

section \<open>Value lengths\<close>

definition value_length_bytes :: "tint \<Rightarrow> byte list" where
  "value_length_bytes n = (if n \<le> 30 then [ucast n] else 31 # uintvar_bytes n)"

lemma emits_value_length [emit_rules]: "emits (EncodeValueLength n) (value_length_bytes n)"
proof -
  have "emits (steps [write_at [31], EncodeUintvar n]) ([31] @ uintvar_bytes n @ [])"
    by (intro emit_rules)
  then show ?thesis
    by (simp add: EncodeValueLength_def value_length_bytes_def emits_write)
qed

lemma small_byte:
  assumes "unat n < 256"
  shows "unat (ucast (n :: tint) :: byte) = unat n"
  using assms by (simp add: unsigned_ucast_eq take_bit_nat_eq_self)

lemma value_length_reads:
  assumes "n \<le> 0x7FFFFFFF" "dec_ok d" "left_bytes d = value_length_bytes (of_nat n) @ ys"
  shows "GetValueLength d = Inr (n, moved d (length (value_length_bytes (of_nat n))))"
proof (cases "n \<le> 30")
  case True
  then have n: "unat (of_nat n :: tint) = n" by (simp add: unsigned_of_nat take_bit_nat_eq_self)
  then have le: "(of_nat n :: tint) \<le> 30" using True by (simp add: word_le_nat_alt)
  define b :: byte where "b = ucast (of_nat n :: tint)"
  have ub: "unat b = n" using n True by (simp add: b_def small_byte)
  have left: "left_bytes d = b # ys" using assms(3) le by (simp add: value_length_bytes_def b_def)
  have "\<not> 0x80 \<le> b" "\<not> 32 \<le> b" "b \<noteq> 31"
    using ub True by (auto simp: word_le_nat_alt)
  then show ?thesis
    using peek_left [OF assms(2) left] at_end_left [OF assms(2) left] ub le
    by (simp add: GetValueLength_def dreturn_def advance_moved value_length_bytes_def)
next
  case False
  have n: "unat (of_nat n :: tint) = n" using assms(1) by (simp add: unsigned_of_nat take_bit_nat_eq_self)
  then have gt: "\<not> (of_nat n :: tint) \<le> 30" and cap: "(of_nat n :: tint) \<le> 0x7FFFFFFF"
    using False assms(1) by (simp_all add: word_le_nat_alt)
  have left: "left_bytes d = 31 # uintvar_bytes (of_nat n) @ ys"
    using assms(3) gt by (simp add: value_length_bytes_def)
  have left1: "left_bytes (moved d 1) = uintvar_bytes (of_nat n) @ ys" by (simp add: left)
  have "\<not> at_end (moved d 1)"
    using left1 uintvar_nonempty [of "of_nat n"] assms(2) at_end_nil [of "moved d 1"] by simp
  moreover have "GetUintvar (moved d 1) = Inr (of_nat n, moved (moved d 1) (length (uintvar_bytes (of_nat n))))"
    using uintvar.decodes [OF cap _ left1] assms(2) by simp
  ultimately show ?thesis
    using peek_left [OF assms(2) left] at_end_left [OF assms(2) left] n gt
    by (simp add: GetValueLength_def dreturn_def advance_moved value_length_bytes_def)
qed

interpretation value_length: wsp_field "\<lambda>n. value_length_bytes (of_nat n)" GetValueLength
  "\<lambda>n. n \<le> 0x7FFFFFFF"
  by unfold_locales (rule value_length_reads)

section \<open>Integers\<close>

definition byte_step :: "'a::len word \<Rightarrow> byte \<Rightarrow> 'a word" where
  "byte_step a b = push_bit 8 a + ucast b"

lemma int_loop_reads:
  assumes "dec_ok d" "left_bytes d = bs @ ys"
  shows "int_loop (length bs) acc d = Inr (foldl byte_step acc bs, moved d (length bs))"
  using assms
proof (induction bs arbitrary: acc d)
  case (Cons b bs)
  then have left: "left_bytes d = b # bs @ ys" by simp
  have "int_loop (length bs) (byte_step acc b) (moved d 1)
      = Inr (foldl byte_step (byte_step acc b) bs, moved (moved d 1) (length bs))"
    using Cons.prems(1) left by (intro Cons.IH) simp_all
  then show ?case
    using peek_left [OF Cons.prems(1) left] at_end_left [OF Cons.prems(1) left]
    by (simp add: advance_moved byte_step_def [of acc b])
qed (simp add: dreturn_def)

lemma strip_top_shifts:
  "strip_top k t = (l, t2) \<Longrightarrow> k \<le> 4 \<Longrightarrow> l \<le> k \<and> drop_bit (8 * (k - l)) t2 = t"
proof (induction k arbitrary: t)
  case (Suc k)
  show ?case
  proof (cases "(ucast (drop_bit 24 t AND 0xFF) :: byte) = 0")
    case True
    then have s: "strip_top k (push_bit 8 t) = (l, t2)" using Suc.prems(1) by simp
    from Suc.IH [OF s] Suc.prems(2) have IH: "l \<le> k" "drop_bit (8 * (k - l)) t2 = push_bit 8 t" by auto
    have top: "take_bit 8 (drop_bit 24 t) = 0"
      using True low_byte [of "drop_bit 24 t"] by simp
    have z: "\<not> bit t n" if "24 \<le> n" "n < 32" for n
      using arg_cong [OF top, of "\<lambda>w. bit w (n - 24)"] that by (simp add: bit_simps)
    have "drop_bit 8 (push_bit 8 t) = t"
      using z by (intro bit_word_eqI) (auto simp: bit_simps not_le [symmetric])
    moreover have "8 * (Suc k - l) = 8 + 8 * (k - l)" using IH(1) by simp
    ultimately show ?thesis using IH by (simp flip: drop_bit_drop_bit)
  next
    case False
    then show ?thesis using Suc.prems by auto
  qed
qed simp

lemma top_bytes_length [simp]: "length (top_bytes len t) = len"
  by (simp add: top_bytes_def)

lemma top_bytes_Suc: "top_bytes (Suc len) t = top_bytes len t @ [ucast (drop_bit (8 * (3 - len)) t AND 0xFF)]"
  by (simp add: top_bytes_def)

lemma top_bytes_value: "len \<le> 4 \<Longrightarrow> foldl byte_step 0 (top_bytes len t) = drop_bit (8 * (4 - len)) t"
proof (induction len)
  case 0
  have "drop_bit 32 t = 0" by (rule bit_word_eqI) (simp add: bit_simps)
  then show ?case by (simp add: top_bytes_def)
next
  case (Suc len)
  let ?w = "drop_bit (8 * (3 - len)) t"
  have "8 * (4 - len) = 8 * (3 - len) + 8" using Suc.prems by simp
  then have "drop_bit (8 * (4 - len)) t = drop_bit 8 ?w" by (simp add: add.commute)
  then have IH: "foldl byte_step 0 (top_bytes len t) = drop_bit 8 ?w"
    using Suc.IH Suc.prems by (simp del: drop_bit_drop_bit)
  have "foldl byte_step 0 (top_bytes (Suc len) t) = byte_step (drop_bit 8 ?w) (ucast (?w AND 0xFF))"
    by (simp only: top_bytes_Suc foldl_append foldl.simps IH)
  also have "\<dots> = ?w"
    by (simp only: byte_step_def low_byte push_drop_take)
  finally show ?case by simp
qed

definition integer_bytes :: "tint \<Rightarrow> byte list" where
  "integer_bytes n = (if n \<le> 127 then [ucast n OR 0x80]
     else case strip_top 4 n of (len, t) \<Rightarrow> of_nat len # top_bytes len t)"

lemma emits_integer [emit_rules]: "emits (EncodeInteger n) (integer_bytes n)"
proof (cases "n \<le> 127")
  case True
  then show ?thesis by (simp add: EncodeInteger_def integer_bytes_def emits_write)
next
  case False
  obtain len t where "strip_top 4 n = (len, t)" by fastforce
  moreover have "emits (steps [write_at [of_nat len], write_at (top_bytes len t)])
      ([of_nat len] @ top_bytes len t @ [])"
    by (intro emit_rules)
  ultimately show ?thesis using False by (simp add: EncodeInteger_def integer_bytes_def)
qed

lemma integer_reads:
  assumes "dec_ok d" "left_bytes d = integer_bytes n @ ys"
  shows "GetLongOrShortInteger d = Inr (n, moved d (length (integer_bytes n)))"
proof (cases "n \<le> 127")
  case True
  define b :: byte where "b = ucast n OR 0x80"
  have left: "left_bytes d = b # ys" using assms(2) True by (simp add: integer_bytes_def b_def)
  have "unat n < 128" using True by (simp add: word_le_nat_alt)
  then have "(ucast n :: byte) AND 0x7F = ucast n"
    by (intro low_seven_small) (simp add: word_less_nat_alt small_byte)
  then have low: "b AND 0x7F = ucast n" by (simp add: b_def or_high_low)
  have "(ucast (ucast n :: byte) :: tint) = n"
    using True by (intro word_unat_eq_iff [THEN iffD2]) (simp add: unsigned_ucast_eq unsigned_take_bit_eq take_bit_nat_eq_self word_le_nat_alt)
  moreover have "b AND 0x80 \<noteq> 0" by (simp add: b_def or_high_and)
  ultimately show ?thesis
    using peek_left [OF assms(1) left] at_end_left [OF assms(1) left] low True
    by (simp add: GetLongOrShortInteger_def advance_moved dreturn_def integer_bytes_def)
next
  case False
  obtain len t where st: "strip_top 4 n = (len, t)" by fastforce
  from strip_top_shifts [OF this] have sh: "len \<le> 4" "drop_bit (8 * (4 - len)) t = n" by auto
  define b :: byte where "b = of_nat len"
  have ub: "unat b = len" using sh(1) by (simp add: b_def unsigned_of_nat take_bit_nat_eq_self)
  have left: "left_bytes d = b # top_bytes len t @ ys"
    using assms(2) False st by (simp add: integer_bytes_def b_def)
  have "b AND 0x80 = 0" using byte_high_bit [of b] ub sh(1) by (auto simp: word_le_nat_alt)
  moreover have "\<not> 30 < b" "\<not> KMmsMaxIntegerLength < b"
    using ub sh(1) by (simp_all add: word_less_nat_alt KMmsMaxIntegerLength_def)
  moreover have "int_loop len 0 (moved d 1) = Inr (n, moved (moved d 1) len)"
    using int_loop_reads [of "moved d 1" "top_bytes len t" ys "0 :: tint"] left assms(1)
      top_bytes_value [OF sh(1), of t] sh(2) by simp
  ultimately show ?thesis
    using peek_left [OF assms(1) left] at_end_left [OF assms(1) left] False st ub
    by (simp add: GetLongOrShortInteger_def advance_moved integer_bytes_def)
qed

interpretation integer: wsp_field integer_bytes GetLongOrShortInteger "\<lambda>_. True"
  by unfold_locales (rule integer_reads)

section \<open>Long integers\<close>

lemma byte_step_int:
  assumes "0 \<le> t"
  shows "byte_step (word_of_int (t div 256) :: tint64) (word_of_int (t mod 256)) = word_of_int t"
proof -
  have "t mod 256 < 256" "0 \<le> t mod 256" by simp_all
  then have low: "(ucast (word_of_int (t mod 256) :: byte) :: tint64) = word_of_int (t mod 256)"
    by (intro word_uint_eq_iff [THEN iffD2])
      (simp add: unsigned_ucast_eq unsigned_of_int take_bit_int_eq_self unsigned_take_bit_eq)
  have "byte_step (word_of_int (t div 256) :: tint64) (word_of_int (t mod 256))
      = word_of_int (t div 256) * 256 + word_of_int (t mod 256)"
    by (simp only: byte_step_def low push_bit_eq_mult) simp
  also have "\<dots> = word_of_int (t div 256 * 256 + t mod 256)"
    by (simp only: of_int_add of_int_mult of_int_numeral)
  finally show ?thesis by (simp only: div_mult_mod_eq)
qed

lemma long_digits_value:
  "0 \<le> t \<Longrightarrow> foldl byte_step (word_of_int (t div 256 ^ k) :: tint64) (long_digits k t acc)
     = foldl byte_step (word_of_int t) acc"
proof (induction k arbitrary: t acc)
  case (Suc k)
  have d: "t sdiv 256 = t div 256" "t smod 256 = t mod 256"
    using Suc.prems by (cases "t = 0"; simp add: signed_divide_int_def signed_modulo_int_def)+
  have "t div 256 ^ Suc k = t div 256 div 256 ^ k" by (simp add: zdiv_zmult2_eq)
  then show ?case
    using Suc.IH [of "t div 256" "word_of_int (t mod 256) # acc"] Suc.prems
    by (simp add: d byte_step_int)
qed simp

lemma long_digits_length [simp]: "length (long_digits k t acc) = k + length acc"
  by (induction k arbitrary: t acc) simp_all

lemma dropWhile_drop: "drop (length xs - length (dropWhile P xs)) xs = dropWhile P xs"
  by (induction xs) (auto simp: Suc_diff_le length_dropWhile_le)

lemma long_bytes_value:
  assumes "0 \<le> sint t"
  shows "foldl byte_step 0 (long_bytes t) = t" "1 \<le> length (long_bytes t)" "length (long_bytes t) \<le> 8"
proof -
  define array where "array = long_digits 8 (sint t) []"
  let ?z = "dropWhile (\<lambda>b. b = 0) array"
  have len: "length array = 8" by (simp add: array_def)
  have "sint t < 256 ^ 8" using sint_lt [of t] by simp
  then have v: "foldl byte_step 0 array = t"
    using long_digits_value [OF assms, of 8 "[]"] assms by (simp add: array_def)
  have le: "length ?z \<le> 8" using length_dropWhile_le [of "\<lambda>b. b = 0" array] len by simp
  have lb: "long_bytes t = drop (8 - (if length ?z = 0 then 1 else length ?z)) array"
    by (simp only: long_bytes_def Let_def array_def)
  show "1 \<le> length (long_bytes t)" "length (long_bytes t) \<le> 8"
    unfolding lb using len le by (auto simp: Suc_le_eq)
  show "foldl byte_step 0 (long_bytes t) = t"
  proof (cases "?z = []")
    case True
    then have "\<forall>b \<in> set array. b = 0" by (simp add: dropWhile_eq_Nil_conv)
    moreover have zero: "foldl byte_step 0 xs = (0 :: tint64)" if "\<forall>b \<in> set xs. b = 0" for xs
      using that by (induction xs) (simp_all add: byte_step_def)
    ultimately have "t = 0" using v by simp
    moreover have "foldl byte_step 0 (drop 7 array) = (0 :: tint64)"
      using \<open>\<forall>b \<in> set array. b = 0\<close> by (intro zero) (auto dest: in_set_dropD)
    ultimately show ?thesis using True unfolding lb by simp
  next
    case False
    then have "long_bytes t = ?z"
      using dropWhile_drop [of array "\<lambda>b. b = 0"] unfolding lb
      by (simp only: len length_0_conv False if_False)
    moreover have "foldl byte_step 0 ?z = foldl byte_step (0 :: tint64) array"
      by (rule foldl_dropWhile_zero) (simp add: byte_step_def)
    ultimately show ?thesis using v by simp
  qed
qed

definition long_integer_bytes :: "tint64 \<Rightarrow> byte list" where
  "long_integer_bytes t = of_nat (length (long_bytes t)) # long_bytes t"

lemma emits_long_integer [emit_rules]: "emits (EncodeLongInteger t) (long_integer_bytes t)"
proof -
  have "emits (EncodeLongInteger t) ([of_nat (length (long_bytes t))] @ long_bytes t @ [])"
    unfolding EncodeLongInteger_def by (intro emit_rules)
  then show ?thesis by (simp add: long_integer_bytes_def)
qed

lemma long_integer_reads:
  assumes "0 \<le> sint t" "dec_ok d" "left_bytes d = long_integer_bytes t @ ys"
  shows "GetVeryLongInteger d = Inr (t, moved d (length (long_integer_bytes t)))"
proof -
  note v = long_bytes_value [OF assms(1)]
  define b :: byte where "b = of_nat (length (long_bytes t))"
  have ub: "unat b = length (long_bytes t)"
    using v(3) by (simp add: b_def unsigned_of_nat take_bit_nat_eq_self)
  have left: "left_bytes d = b # long_bytes t @ ys"
    using assms(3) by (simp add: long_integer_bytes_def b_def)
  have "b AND 0x80 = 0" using byte_high_bit [of b] ub v(3) by (auto simp: word_le_nat_alt)
  moreover have "\<not> 30 < b" "\<not> KMmsMaxLongIntegerLength < b"
    using ub v(3) by (simp_all add: word_less_nat_alt KMmsMaxLongIntegerLength_def)
  moreover have "int_loop (length (long_bytes t)) 0 (moved d 1)
      = Inr (t, moved (moved d 1) (length (long_bytes t)))"
    using int_loop_reads [of "moved d 1" "long_bytes t" ys "0 :: tint64"] left assms(2) v(1) by simp
  ultimately show ?thesis
    using peek_left [OF assms(2) left] ub
    by (simp add: GetVeryLongInteger_def advance_moved long_integer_bytes_def)
qed

interpretation long_integer: wsp_field long_integer_bytes GetVeryLongInteger "\<lambda>t. 0 \<le> sint t"
  by unfold_locales (rule long_integer_reads)

section \<open>Byte strings\<close>

definition text_string_bytes :: "string8 \<Rightarrow> byte list" where
  "text_string_bytes s = (if s \<noteq> [] \<and> 0x80 \<le> hd s then 127 # s else s) @ [0]"

definition plain_start :: "string8 \<Rightarrow> bool" where
  "plain_start s \<longleftrightarrow> s = [] \<or> 32 \<le> hd s \<and> hd s \<noteq> 34 \<and> hd s \<noteq> 127"

lemma emits_text_string [emit_rules]: "emits (EncodeTextString s) (text_string_bytes s)"
proof -
  let ?c = "s \<noteq> [] \<and> 0x80 \<le> hd s"
  have "emits (EncodeTextString s) ((if ?c then [127] else []) @ s @ [0] @ [])"
    unfolding EncodeTextString_def by (intro emit_rules)
  then show ?thesis by (cases ?c) (auto simp: text_string_bytes_def)
qed

lemma byte_string_tail:
  assumes "dec_ok d1" "left_bytes d1 = s @ 0 # ys" "s \<noteq> []" "0 \<notin> set s" "b \<noteq> 0" "b \<noteq> 34"
  shows "(case scan_zero d1 b (iPosition d1) of
              Inl e \<Rightarrow> Inl e
            | Inr (_, p) \<Rightarrow>
                let start = iPosition d1;
                    d2 = d1\<lparr>iPosition := p\<rparr>;
                    n = (if 1 < p - start then p - start - 1 else p - start);
                    s = take n (drop start (iDecodeBuffer d1))
                in if n < 1 then Inr ([], d2)
                   else if b = 34 \<and> last s = 34 then Inr (butlast s, d2)
                   else Inr (s, d2)) = Inr (s, moved d1 (length s + 1))"
  using scan_zero_left [OF assms(1,5,2,4)] take_buffer [OF assms(2)] assms(3,6)
  by (simp add: Let_def moved_def Suc_le_eq)

lemma byte_string_reads:
  assumes "0 \<notin> set s \<and> plain_start s" "dec_ok d" "left_bytes d = text_string_bytes s @ ys"
  shows "GetByteString d = Inr (s, moved d (length (text_string_bytes s)))"
proof (cases s)
  case Nil
  then have left: "left_bytes d = 0 # ys" using assms(3) by (simp add: text_string_bytes_def)
  show ?thesis
    using peek_left [OF assms(2) left] at_end_left [OF assms(2) left] Nil
    by (simp add: GetByteString_def advance_moved dreturn_def text_string_bytes_def)
next
  case (Cons c cs)
  show ?thesis
  proof (cases "0x80 \<le> c")
    case True
    have left: "left_bytes d = 127 # s @ 0 # ys"
      using assms(3) Cons True by (simp add: text_string_bytes_def)
    have "dec_ok (moved d 1)" "left_bytes (moved d 1) = s @ 0 # ys" using left assms(2) by simp_all
    note tail = byte_string_tail [OF this, of 127]
    show ?thesis
      using peek_left [OF assms(2) left] at_end_left [OF assms(2) left] tail assms(1) Cons True
      by (simp add: GetByteString_def advance_moved text_string_bytes_def del: One_nat_def, simp)
  next
    case False
    have left: "left_bytes d = c # cs @ 0 # ys"
      using assms(3) Cons False by (simp add: text_string_bytes_def)
    have c: "c \<noteq> 0" "32 \<le> c" "c \<le> 0x7F" "c \<noteq> 34" "c \<noteq> 127"
      using assms(1) Cons False by (auto simp: plain_start_def word_le_nat_alt)
    show ?thesis
      using peek_left [OF assms(2) left] at_end_left [OF assms(2) left]
        byte_string_tail [of d s ys c] left assms(1,2) Cons False c
      by (simp add: GetByteString_def advance_moved text_string_bytes_def)
  qed
qed

interpretation text_string: wsp_field text_string_bytes GetByteString
  "\<lambda>s. 0 \<notin> set s \<and> plain_start s"
  by unfold_locales (rule byte_string_reads)

section \<open>Text strings\<close>

definition low_bytes :: "string16 \<Rightarrow> byte list" where
  "low_bytes s = map (\<lambda>c. ucast (c AND 0xFF)) s"

lemma emits_map_write:
  assumes "emits (steps ms) bs"
  shows "emits (steps (map (\<lambda>c. write_at [f c]) xs @ ms)) (map f xs @ bs)"
  using assms
proof (induction xs)
  case (Cons x xs)
  from emits_steps_cons [OF emits_write [of "[f x]"] Cons.IH [OF Cons.prems]]
  show ?case by (simp del: steps.simps)
qed simp

lemma emits_safe_text:
  assumes "IsStringSafe s"
  shows "emits (EncodeTextStringL e s) (low_bytes s @ [0])"
proof -
  have "emits (steps [write_at [0]]) ([0] @ [])" by (intro emit_rules)
  from emits_map_write [OF this, of "\<lambda>c. ucast (c AND 0xFF)" s] show ?thesis
    using assms by (simp add: EncodeTextStringL_def low_bytes_def)
qed

lemma safe_chars: "IsStringSafe s \<Longrightarrow> c \<in> set s \<Longrightarrow> 32 \<le> c \<and> c < 127"
  by (induction s) (auto simp: not_less not_le split: if_splits)

lemma safe_char_byte:
  assumes "32 \<le> (c :: char16)" "c < 127"
  shows "ucast (ucast (c AND 0xFF) :: byte) = c" "unat (ucast (c AND 0xFF) :: byte) = unat c"
proof -
  have u: "unat c < 127" using assms(2) by (simp add: word_less_nat_alt)
  have "c AND 0xFF = take_bit 8 c" by (simp only: mask_eight take_bit_eq_mask)
  then show *: "unat (ucast (c AND 0xFF) :: byte) = unat c"
    using u by (simp add: unsigned_ucast_eq unsigned_take_bit_eq take_bit_nat_eq_self)
  then show "ucast (ucast (c AND 0xFF) :: byte) = c"
    using u by (intro word_unat_eq_iff [THEN iffD2])
      (simp only: unsigned_ucast_eq unsigned_take_bit_eq *, simp add: take_bit_nat_eq_self)
qed

lemma low_bytes_back: "IsStringSafe s \<Longrightarrow> map ucast (low_bytes s) = s"
  using safe_chars [of s] by (auto simp: low_bytes_def safe_char_byte intro!: map_idI)

lemma low_bytes_set:
  assumes "IsStringSafe s" "b \<in> set (low_bytes s)"
  shows "31 < b \<and> b < 0x7F"
proof -
  obtain c where "c \<in> set s" "b = ucast (c AND 0xFF)" using assms(2) by (auto simp: low_bytes_def)
  with safe_chars [OF assms(1)] safe_char_byte [of c] show ?thesis
    by (fastforce simp: word_less_nat_alt word_le_nat_alt)
qed

lemma copy_text_reads:
  assumes "dec_ok d" "left_bytes d = bs @ 0 # ys" "0 \<notin> set bs" "b \<noteq> 0"
  shows "copy_text b acc d = Inr (acc @ map ucast bs, moved d (length bs + 1))"
  using assms
proof (induction bs arbitrary: b acc d)
  case Nil
  then have left: "left_bytes d = 0 # ys" by simp
  have rd: "read_at d (iPosition d) = Inr 0" using read_left [OF Nil.prems(1), of 0] left by simp
  show ?case
    using at_end_left [OF Nil.prems(1) left] Nil.prems(4)
    by (simp add: copy_text.simps [of b] copy_text.simps [of 0] rd)
next
  case (Cons c cs)
  then have left: "left_bytes d = c # cs @ 0 # ys" by simp
  have rd: "read_at d (iPosition d) = Inr c" using read_left [OF Cons.prems(1), of 0] left by simp
  have "copy_text c (acc @ [ucast c]) (moved d 1)
      = Inr ((acc @ [ucast c]) @ map ucast cs, moved (moved d 1) (length cs + 1))"
    using Cons.prems left by (intro Cons.IH) auto
  with Cons.prems at_end_left [OF Cons.prems(1) left] show ?case
    by (simp add: copy_text.simps [of b] rd)
qed

lemma text_reads:
  assumes "IsStringSafe s \<and> find_f (fold16 e) KEqualsQuestion16 s = None"
    "dec_ok d" "left_bytes d = (low_bytes s @ [0]) @ ys"
  shows "GetEncodedTextStringL e d = Inr (s, moved d (length (low_bytes s @ [0])))"
proof -
  obtain b bs where left: "left_bytes d = b # bs" and b: "(31 < b \<and> b < 0x80) \<or> b = 0" "b \<noteq> 127"
    and nil: "b = 0 \<longleftrightarrow> s = []"
  proof (cases s)
    case Nil
    then show ?thesis using that [of 0 ys] assms(3) by (simp add: low_bytes_def)
  next
    case (Cons c cs)
    let ?b = "ucast (c AND 0xFF) :: byte"
    have "31 < ?b \<and> ?b < 0x7F" using low_bytes_set [OF conjunct1 [OF assms(1)], of ?b] Cons
      by (simp add: low_bytes_def)
    then have "31 < ?b" "?b < 0x80" "?b \<noteq> 127" "?b \<noteq> 0" by (auto simp: word_less_nat_alt)
    then show ?thesis
      using that [of ?b "low_bytes cs @ 0 # ys"] assms(3) Cons by (simp add: low_bytes_def)
  qed
  have simple: "GetSimpleTextStringL True d = Inr (s, moved d (length (low_bytes s @ [0])))"
  proof (cases "s = []")
    case True
    then show ?thesis
      using nil peek_left [OF assms(2) left] at_end_left [OF assms(2) left]
      by (simp add: GetSimpleTextStringL_def advance_moved dreturn_def low_bytes_def)
  next
    case False
    have "0 \<notin> set (low_bytes s)" using low_bytes_set [of s 0] assms(1) by auto
    then have "copy_text b [] d = Inr (s, moved d (length (low_bytes s) + 1))"
      using copy_text_reads [OF assms(2) _ _, of "low_bytes s" ys b "[]"] assms(1,3) nil False
      by (simp add: low_bytes_back)
    then show ?thesis
      using nil False b(2) peek_left [OF assms(2) left] at_end_left [OF assms(2) left]
      by (simp add: GetSimpleTextStringL_def simple_text_quote_def simple_text_tail_def advance_moved
          dreturn_def)
  qed
  then show ?thesis
    using b(1) assms(1) peek_left [OF assms(2) left] at_end_left [OF assms(2) left]
    by (simp add: GetEncodedTextStringL_def dreturn_def)
qed

interpretation safe_text: wsp_field "\<lambda>s. low_bytes s @ [0]" "GetEncodedTextStringL e"
  "\<lambda>s. IsStringSafe s \<and> find_f (fold16 e) KEqualsQuestion16 s = None" for e
  by unfold_locales (rule text_reads)

end
