(* ===== verification/Wsp_Interval.thy ===== *)
theory Wsp_Interval
  imports Wsp_Roundtrip
begin

text \<open>
  The value length \<open>EncodeIntervalOrDate\<close> announces is the length of what it writes, and the time
  comes back through \<open>GetRelativeOrAbsoluteTime\<close>.
\<close>

section \<open>The bytes of a 64-bit value\<close>

definition byte_of :: "tint64 \<Rightarrow> nat \<Rightarrow> byte" where
  "byte_of t i = ucast (drop_bit (8 * i) t)"

lemma mask_loop_step:
  "0 < n \<Longrightarrow> mask_loop half least msk n =
    (if half AND msk = 0 \<and> least < n then mask_loop half least (drop_bit 8 msk) (n - 1) else n)"
  by (cases n) simp_all

lemma high_mask_loop:
  "mask_loop h 4 0xff000000 8 =
     (if h AND 0xff000000 \<noteq> 0 then 8 else if h AND 0xff0000 \<noteq> 0 then 7
      else if h AND 0xff00 \<noteq> 0 then 6 else if h AND 0xff \<noteq> 0 then 5 else 4)"
  by (simp add: mask_loop_step)

lemma low_mask_loop:
  "mask_loop h 1 0xff000000 4 =
     (if h AND 0xff000000 \<noteq> 0 then 4 else if h AND 0xff0000 \<noteq> 0 then 3
      else if h AND 0xff00 \<noteq> 0 then 2 else 1)"
  by (simp add: mask_loop_step)

lemma and_byte_mask:
  assumes "8 * Suc i \<le> 32"
  shows "(w :: tint) AND push_bit (8 * i) 0xFF = 0 \<longleftrightarrow> (ucast (drop_bit (8 * i) w) :: byte) = 0"
proof
  assume z: "w AND push_bit (8 * i) 0xFF = 0"
  show "(ucast (drop_bit (8 * i) w) :: byte) = 0"
  proof (rule bit_word_eqI)
    fix n assume "n < LENGTH(8)"
    then show "bit (ucast (drop_bit (8 * i) w) :: byte) n = bit (0 :: byte) n"
      using assms arg_cong [OF z, of "\<lambda>x. bit x (8 * i + n)"] by (simp add: mask_eight bit_simps)
  qed
next
  assume z: "(ucast (drop_bit (8 * i) w) :: byte) = 0"
  show "w AND push_bit (8 * i) 0xFF = 0"
  proof (rule bit_word_eqI)
    fix n assume "n < LENGTH(32)"
    then show "bit (w AND push_bit (8 * i) 0xFF) n = bit (0 :: tint) n"
      using assms arg_cong [OF z, of "\<lambda>x. bit x (n - 8 * i)"] by (auto simp: mask_eight bit_simps)
  qed
qed

lemma byte_high:
  assumes "i < 4"
  shows "(ucast (drop_bit (8 * i) (ucast (drop_bit 32 t) :: tint)) :: byte) = byte_of t (i + 4)"
  unfolding byte_of_def using assms by (intro bit_word_eqI) (auto simp: bit_simps ac_simps)

lemma byte_low:
  assumes "i < 4"
  shows "(ucast (drop_bit (8 * i) (ucast t :: tint)) :: byte) = byte_of t i"
  unfolding byte_of_def using assms by (intro bit_word_eqI) (auto simp: bit_simps)

lemma half_masks:
  assumes "i < 4"
  shows "(ucast (drop_bit 32 t) :: tint) AND push_bit (8 * i) 0xFF = 0 \<longleftrightarrow> byte_of t (i + 4) = 0"
    "(ucast t :: tint) AND push_bit (8 * i) 0xFF = 0 \<longleftrightarrow> byte_of t i = 0"
  using assms and_byte_mask [of i "ucast (drop_bit 32 t)"] and_byte_mask [of i "ucast t"]
    byte_high [OF assms, of t] byte_low [OF assms, of t] by simp_all

lemmas masks = half_masks [of 3, simplified] half_masks [of 2, simplified]
  half_masks [of 1, simplified] half_masks [of 0, simplified]

lemma high_half_zero:
  "(ucast (drop_bit 32 t) :: tint) = 0 \<longleftrightarrow>
     byte_of t 7 = 0 \<and> byte_of t 6 = 0 \<and> byte_of t 5 = 0 \<and> byte_of t 4 = 0"
proof
  assume "(ucast (drop_bit 32 t) :: tint) = 0"
  then show "byte_of t 7 = 0 \<and> byte_of t 6 = 0 \<and> byte_of t 5 = 0 \<and> byte_of t 4 = 0"
    using masks [of t] by simp
next
  let ?h = "ucast (drop_bit 32 t) :: tint"
  assume "byte_of t 7 = 0 \<and> byte_of t 6 = 0 \<and> byte_of t 5 = 0 \<and> byte_of t 4 = 0"
  then have z: "?h AND 0xff000000 = 0" "?h AND 0xff0000 = 0" "?h AND 0xff00 = 0" "?h AND 0xff = 0"
    using masks [of t] by simp_all
  have ones: "(-1 :: tint) = 0xff000000 OR (0xff0000 OR (0xff00 OR 0xff))" by simp
  have "?h = ?h AND (-1)" by simp
  also have "\<dots> = 0" by (simp only: ones bit.conj_disj_distrib z) simp
  finally show "?h = 0" .
qed

lemma interval_length_bytes:
  "interval_length t = 2 +
     (if byte_of t 7 \<noteq> 0 then 8 else if byte_of t 6 \<noteq> 0 then 7
      else if byte_of t 5 \<noteq> 0 then 6 else if byte_of t 4 \<noteq> 0 then 5
      else if byte_of t 3 \<noteq> 0 then 4 else if byte_of t 2 \<noteq> 0 then 3
      else if byte_of t 1 \<noteq> 0 then 2 else 1)"
  by (simp add: interval_length_def Let_def high_mask_loop low_mask_loop [unfolded One_nat_def]
      high_half_zero masks [of t])

lemma long_digits_map:
  "0 \<le> x \<Longrightarrow> long_digits k x acc = map (\<lambda>i. word_of_int (x div 256 ^ i)) (rev [0..<k]) @ acc"
proof (induction k arbitrary: x acc)
  case (Suc k)
  have d: "x sdiv 256 = x div 256" "x smod 256 = x mod 256"
    using Suc.prems by (cases "x = 0"; simp add: signed_divide_int_def signed_modulo_int_def)+
  have m: "(word_of_int (x mod 256) :: byte) = word_of_int x"
    by (simp add: word_of_int_eq_iff take_bit_eq_mod)
  have "rev [0..<Suc k] = map Suc (rev [0..<k]) @ [0]"
    by (simp add: upt_conv_Cons map_Suc_upt rev_map [symmetric] del: upt_Suc)
  moreover have "x div 256 div 256 ^ i = x div 256 ^ Suc i" for i
    by (simp add: zdiv_zmult2_eq)
  ultimately show ?case
    using Suc.IH [of "x div 256" "word_of_int (x mod 256) # acc"] Suc.prems
    by (simp add: d m comp_def)
qed simp

lemma byte_of_div:
  assumes "0 \<le> sint t"
  shows "byte_of t i = word_of_int (sint t div 256 ^ i)"
proof -
  have "uint t = sint t"
    using assms sint_lt [of t] by (simp add: uint_sint take_bit_int_eq_self)
  moreover have "byte_of t i = word_of_int (drop_bit (8 * i) (uint t))"
    unfolding byte_of_def by (rule bit_word_eqI) (auto simp: bit_simps)
  ultimately show ?thesis by (simp add: power_mult drop_bit_eq_div)
qed

lemma interval_length_written:
  assumes "0 \<le> sint t"
  shows "interval_length t = 1 + length (long_integer_bytes t)"
proof -
  have "rev [0..<8] = [7, 6, 5, 4, 3, 2, 1, 0 :: nat]" by (simp add: upt_rec)
  then have array: "long_digits 8 (sint t) [] = map (byte_of t) [7, 6, 5, 4, 3, 2, 1, 0]"
    unfolding long_digits_map [OF assms] ext [OF byte_of_div [OF assms]] by (simp only: append_Nil2)
  show ?thesis
    unfolding interval_length_bytes long_integer_bytes_def long_bytes_def Let_def array
    by simp
qed

section \<open>Times\<close>

definition time_bytes :: "byte \<times> tint64 \<Rightarrow> byte list" where
  "time_bytes x = (case x of (token, t) \<Rightarrow>
     value_length_bytes (of_nat (interval_length t)) @ token # long_integer_bytes t)"

definition good_time :: "byte \<times> tint64 \<Rightarrow> bool" where
  "good_time x \<longleftrightarrow> (fst x = 128 \<or> fst x = 129) \<and> 0 \<le> sint (snd x)"

definition encoded_time :: "tint \<Rightarrow> tint64 \<Rightarrow> byte \<times> tint64" where
  "encoded_time aInterval aDate = (if aDate \<noteq> 0 then (128, aDate) else (129, scast aInterval))"

lemma emits_interval [emit_rules]:
  "emits (EncodeIntervalOrDate aInterval aDate) (time_bytes (encoded_time aInterval aDate))"
proof -
  let ?temp = "if aDate \<noteq> 0 then aDate else scast aInterval"
  let ?token = "if aDate \<noteq> 0 then KMmsAbsoluteToken else KMmsRelativeToken"
  have "emits (EncodeIntervalOrDate aInterval aDate)
      (value_length_bytes (of_nat (interval_length ?temp)) @ [?token] @ long_integer_bytes ?temp @ [])"
    unfolding EncodeIntervalOrDate_def Let_def by (intro emit_rules)
  then show ?thesis
    by (cases "aDate = 0")
      (simp_all add: time_bytes_def encoded_time_def KMmsAbsoluteToken_def KMmsRelativeToken_def)
qed

lemma interval_length_le: "interval_length t \<le> 10"
  by (simp add: interval_length_bytes)

lemma long_integer_bytes_nonempty: "\<exists>b bs. long_integer_bytes t = b # bs"
  by (simp add: long_integer_bytes_def)

lemma time_reads:
  assumes "good_time x" "dec_ok d" "left_bytes d = time_bytes x @ ys"
  shows "GetRelativeOrAbsoluteTime d = Inr (x, moved d (length (time_bytes x)))"
proof -
  obtain b t where x: "x = (b, t)" by (cases x)
  define n where "n = interval_length t"
  define k where "k = length (value_length_bytes (of_nat n))"
  have pos: "0 \<le> sint t" and b: "b = 128 \<or> b = 129" using assms(1) by (auto simp: x good_time_def)
  have n: "n = 1 + length (long_integer_bytes t)" unfolding n_def by (rule interval_length_written [OF pos])
  have left: "left_bytes d = value_length_bytes (of_nat n) @ (b # long_integer_bytes t @ ys)"
    using assms(3) by (simp add: x time_bytes_def n_def)
  have vl: "GetValueLength d = Inr (n, moved d k)"
    unfolding k_def using value_length.decodes [OF _ assms(2) left] interval_length_le [of t]
    by (simp add: n_def)
  have left1: "left_bytes (moved d k) = b # long_integer_bytes t @ ys" by (simp add: left k_def)
  have left2: "left_bytes (moved d (Suc k)) = long_integer_bytes t @ ys" by (simp add: left k_def)
  obtain c cs where c: "long_integer_bytes t = c # cs" using long_integer_bytes_nonempty by blast
  have ok1: "dec_ok (moved d k)" and ok2: "dec_ok (moved d (Suc k))" using assms(2) by simp_all
  have "length (left_bytes d) = iLength d - iPosition d" using length_left [OF assms(2)] .
  then have fits: "\<not> iLength d < iPosition d + k + n"
    using left n arg_cong [OF left, of length] by (simp add: k_def)
  have more: "\<not> at_end (moved d (Suc k))"
    using at_end_left [OF ok2, of c "cs @ ys"] left2 c by simp
  have vli: "GetVeryLongInteger (moved d (Suc k)) = Inr (t, moved d (Suc (k + length (long_integer_bytes t))))"
    using long_integer.decodes [OF pos ok2 left2] by simp
  show ?thesis
    using vl fits at_end_left [OF ok1 left1] peek_left [OF ok1 left1] b more vli
    unfolding GetRelativeOrAbsoluteTime_def
    by (auto simp: x time_bytes_def advance_moved dreturn_def KMmsAbsoluteToken_def KMmsRelativeToken_def
        n_def [symmetric] k_def [symmetric])
qed

interpretation time: wsp_field time_bytes GetRelativeOrAbsoluteTime good_time
  by unfold_locales (rule time_reads)

end
