(* ===== verification/Mms_Carries.thy ===== *)
theory Mms_Carries
  imports Mms_Encode Wsp_Interval Mms_Decode_Steps
begin

text \<open>
  Encoder against decoder, header by header. An encoder \<open>carries\<close> an update of the headers when it
  writes a fixed sequence of bytes and the header loop of the decoder, given these bytes, applies
  the update and goes on behind them. The relation is closed under sequences, so that the
  functional meaning of a whole PDU is the composition of the updates of its headers.
\<close>

section \<open>The relation\<close>

definition reads_on :: "tint \<Rightarrow> mms_decode \<Rightarrow> bool" where
  "reads_on t d \<longleftrightarrow> dec_ok d \<and> iError d = KErrNone \<and> \<not> iLastHeader d \<and> iMsgType (iMmsHeaders d) = t"

definition handles :: "bool \<Rightarrow> decode_services \<Rightarrow> tint \<Rightarrow> byte list \<Rightarrow> (mms_headers \<Rightarrow> mms_headers) \<Rightarrow> bool" where
  "handles needs e t bs f \<longleftrightarrow>
     (\<forall>d ys. reads_on t d \<longrightarrow> left_bytes d = bs @ ys \<longrightarrow> (needs \<longrightarrow> ys \<noteq> []) \<longrightarrow>
        headers_loop e d = headers_loop e (with_headers (f (iMmsHeaders d)) (moved d (length bs)))
        \<and> iMsgType (f (iMmsHeaders d)) = t)"

text \<open>With \<open>needs\<close>, the decoder has to find a byte behind the header.\<close>

definition carries ::
  "bool \<Rightarrow> decode_services \<Rightarrow> tint \<Rightarrow> encoder \<Rightarrow> (mms_headers \<Rightarrow> mms_headers) \<Rightarrow> byte list \<Rightarrow> bool" where
  "carries needs e t m f bs \<longleftrightarrow> emits m bs \<and> handles needs e t bs f"

named_theorems carry \<open>the update of the headers each encoder carries\<close>

lemma reads_on_moved:
  "reads_on t d \<Longrightarrow> iMsgType h = t \<Longrightarrow> reads_on t (with_headers h (moved d n))"
  by (simp add: reads_on_def)

lemma handles_nil: "handles needs e t [] id"
  by (simp add: handles_def reads_on_def)

lemma handles_append:
  assumes "handles p e t a f" "handles q e t b g" "p \<longrightarrow> b \<noteq> []"
  shows "handles q e t (a @ b) (g \<circ> f)"
  unfolding handles_def
proof (intro allI impI)
  fix d ys
  assume d: "reads_on t d" "left_bytes d = (a @ b) @ ys" "q \<longrightarrow> ys \<noteq> []"
  let ?d1 = "with_headers (f (iMmsHeaders d)) (moved d (length a))"
  have 1: "headers_loop e d = headers_loop e ?d1" "iMsgType (f (iMmsHeaders d)) = t"
    using assms(1) d assms(3) unfolding handles_def by (metis append_assoc append_is_Nil_conv)+
  have "reads_on t ?d1" using d(1) 1(2) by (rule reads_on_moved)
  moreover have "left_bytes ?d1 = b @ ys" using d(2) by simp
  ultimately have
    "headers_loop e ?d1 = headers_loop e (with_headers (g (iMmsHeaders ?d1)) (moved ?d1 (length b)))"
    "iMsgType (g (iMmsHeaders ?d1)) = t"
    using assms(2) d(3) unfolding handles_def by metis+
  with 1 show "headers_loop e d = headers_loop e
      (with_headers ((g \<circ> f) (iMmsHeaders d)) (moved d (length (a @ b))))
      \<and> iMsgType ((g \<circ> f) (iMmsHeaders d)) = t"
    by simp
qed

lemma carries_nothing [carry]: "carries False e t nothing id []"
  by (simp add: carries_def handles_nil emits_nothing)

lemma carries_nil [carry]: "carries False e t (steps []) id []"
  unfolding carries_def using emits_steps_nil handles_nil by blast

lemma carries_cons:
  assumes "carries p e t m f a" "carries q e t (steps ms) g b" "p \<longrightarrow> b \<noteq> []"
  shows "carries q e t (steps (m # ms)) (g \<circ> f) (a @ b)"
  using assms unfolding carries_def by (blast intro: emits_steps_cons handles_append)

lemma carries_plain [carry]:
  assumes "carries False e t m f a" "carries False e t (steps ms) g b"
  shows "carries False e t (steps (m # ms)) (g \<circ> f) (a @ b)"
  using assms by (rule carries_cons) simp

lemma carries_if [carry]:
  "(c \<Longrightarrow> carries p e t m f a) \<Longrightarrow> (\<not> c \<Longrightarrow> carries p e t n g b) \<Longrightarrow>
   carries p e t (if c then m else n) (if c then f else g) (if c then a else b)"
  by simp

lemma carries_when [carry]:
  "(c \<Longrightarrow> carries False e t (steps ms) f a) \<Longrightarrow>
   carries False e t (when_enc c ms) (if c then f else id) (if c then a else [])"
  by (simp add: when_enc_def carries_nothing)

text \<open>A list of headers: its update is the fold of the updates of its members.\<close>

lemma carries_map:
  assumes "\<And>x. x \<in> set xs \<Longrightarrow> carries False e t (m x) (f x) (b x)"
  shows "carries False e t (steps (map m xs)) (fold f xs) (concat (map b xs))"
  using assms
proof (induction xs)
  case Nil
  show ?case unfolding list.map fold_simps concat.simps using carries_nil [of e t] by (simp only: id_def fold.simps)
next
  case (Cons x xs)
  show ?case
    unfolding list.map fold.simps concat.simps
    by (intro carries_plain Cons) simp_all
qed

section \<open>From bytes to a header\<close>

lemma handles_value:
  assumes "0x80 \<le> hb" "v \<noteq> []"
    and "\<And>d ys. reads_on t d \<Longrightarrow> left_bytes d = v @ ys \<Longrightarrow> (needs \<longrightarrow> ys \<noteq> []) \<Longrightarrow>
      decode_value e hb d = Inr ((), with_headers (f (iMmsHeaders d)) (moved d (length v)))
      \<and> iMsgType (f (iMmsHeaders d)) = t"
  shows "handles needs e t (hb # v) f"
  unfolding handles_def
proof (intro allI impI)
  fix d ys
  assume d: "reads_on t d" "left_bytes d = (hb # v) @ ys" "needs \<longrightarrow> ys \<noteq> []"
  obtain b bs where v: "v = b # bs" using assms(2) by (cases v) auto
  have "reads_on t (moved d 1)" "left_bytes (moved d 1) = v @ ys"
    using d by (simp_all add: reads_on_def)
  note r = assms(3) [OF this d(3)]
  have "headers_loop e d = (case decode_value e hb (moved d 1) of
           Inl x \<Rightarrow> Some (Inl x) | Inr (_, d1) \<Rightarrow> headers_loop e d1)"
    by (rule loop_header [where ys = "bs @ ys" and b = b])
      (use d v assms(1) in \<open>simp_all add: reads_on_def\<close>)
  with r show "headers_loop e d = headers_loop e (with_headers (f (iMmsHeaders d)) (moved d (length (hb # v))))
      \<and> iMsgType (f (iMmsHeaders d)) = t"
    by simp
qed

lemma carries_value:
  assumes "emits m (hb # v)" "0x80 \<le> hb" "v \<noteq> []"
    and "\<And>d ys. reads_on t d \<Longrightarrow> left_bytes d = v @ ys \<Longrightarrow> (needs \<longrightarrow> ys \<noteq> []) \<Longrightarrow>
      decode_value e hb d = Inr ((), with_headers (f (iMmsHeaders d)) (moved d (length v)))
      \<and> iMsgType (f (iMmsHeaders d)) = t"
  shows "carries needs e t m f (hb # v)"
  unfolding carries_def
  by (intro conjI assms(1), rule handles_value [OF assms(2,3)]) (rule assms(4))

section \<open>One token\<close>

text \<open>What the decoder stores for a token: the byte with its high bit set.\<close>

definition token_of :: "tint \<Rightarrow> tint" where
  "token_of v = ucast ((ucast v :: byte) OR 0x80)"

lemma emits_byte [emit_rules]: "emits (EncodeMandatoryByte hb v) [hb, ucast v OR 0x80]"
proof -
  have "emits (EncodeMandatoryByte hb v) ([hb] @ [ucast v OR 0x80] @ [])"
    unfolding EncodeMandatoryByte_def by (intro emit_rules)
  then show ?thesis by simp
qed

lemma carries_byte:
  assumes "0x80 \<le> hb" "decode_value e hb = token_header f" "\<And>x h. iMsgType (f x h) = iMsgType h"
  shows "carries False e t (EncodeMandatoryByte hb v) (f (token_of v)) [hb, ucast v OR 0x80]"
proof (rule carries_value [OF emits_byte assms(1)])
  fix d ys
  assume d: "reads_on t d" "left_bytes d = [ucast v OR 0x80] @ ys"
  have "token_header f d = Inr ((), with_headers (f (token_of v) (iMmsHeaders d)) (moved d 1))"
    unfolding token_of_def
    by (rule token_byte) (use d or_high_ge in \<open>auto simp: reads_on_def\<close>)
  with assms(2,3) d(1) show "decode_value e hb d
      = Inr ((), with_headers (f (token_of v) (iMmsHeaders d)) (moved d (length [ucast v OR 0x80])))
      \<and> iMsgType (f (token_of v) (iMmsHeaders d)) = t"
    by (simp add: reads_on_def)
qed simp

lemma carries_optional_byte:
  assumes "0x80 \<le> hb" "decode_value e hb = token_header f" "\<And>x h. iMsgType (f x h) = iMsgType h"
  shows "carries False e t (EncodeOptionalByte hb v) (if v = 0 then id else f (token_of v))
     (if v = 0 then [] else [hb, ucast v OR 0x80])"
  unfolding EncodeOptionalByte_def
  by (intro carries_if carries_nothing carries_byte assms)

end
