(* ===== verification/Mms_Carry_Headers.thy ===== *)
theory Mms_Carry_Headers
  imports Mms_Carries
begin

text \<open>
  The headers of the PDUs: for each header encoder of \<open>CMmsEncode\<close>, the update of \<open>CMmsHeaders\<close>
  that the decoder makes of its bytes.
\<close>

section \<open>Fields behind a header byte\<close>

lemma emits_header:
  assumes "emits (steps ms) v"
  shows "emits (steps (write_at [hb] # ms)) (hb # v)"
  using emits_steps_cons [OF emits_write [of "[hb]"] assms] by simp

lemma emits_one: "emits m bs \<Longrightarrow> emits (steps [m]) bs"
  using emits_steps_cons [OF _ emits_steps_nil, of m bs] by simp

text \<open>A header whose value is one field of an interpretation of \<open>wsp_field\<close>.\<close>

lemma carries_field:
  assumes "emits m (hb # v)" "v \<noteq> []" "0x80 \<le> hb"
    and "\<And>d ys. dec_ok d \<Longrightarrow> left_bytes d = v @ ys \<Longrightarrow> field d = Inr (x, moved d (length v))"
    and "\<And>d. reads_on t d \<Longrightarrow> decode_value e hb d = dbind field (\<lambda>y. on_headers (f y)) d"
    and "\<And>h. iMsgType h = t \<Longrightarrow> iMsgType (f x h) = t"
  shows "carries False e t m (f x) (hb # v)"
proof (rule carries_value [OF assms(1,3,2)])
  fix d ys
  assume d: "reads_on t d" "left_bytes d = v @ ys"
  then have "field d = Inr (x, moved d (length v))" by (intro assms(4)) (auto simp: reads_on_def)
  with assms(5) [OF d(1)] assms(6) d(1)
  show "decode_value e hb d = Inr ((), with_headers (f x (iMmsHeaders d)) (moved d (length v)))
      \<and> iMsgType (f x (iMmsHeaders d)) = t"
    by (simp add: on_headers_with reads_on_def)
qed

section \<open>Byte strings\<close>

definition good_string8 :: "string8 \<Rightarrow> bool" where
  "good_string8 s \<longleftrightarrow> 0 \<notin> set s \<and> plain_start s"

lemma carries_string8:
  assumes "good_string8 s" "0x80 \<le> hb"
    and "\<And>d. reads_on t d \<Longrightarrow> decode_value e hb d = dbind GetByteString (\<lambda>y. on_headers (f y)) d"
    and "\<And>h. iMsgType h = t \<Longrightarrow> iMsgType (f s h) = t"
  shows "carries False e t (EncodeHeaderAndTextString hb s) (f s) (hb # text_string_bytes s)"
proof (rule carries_field [OF _ _ assms(2) _ assms(3,4)])
  show "emits (EncodeHeaderAndTextString hb s) (hb # text_string_bytes s)"
    unfolding EncodeHeaderAndTextString_def by (rule emits_header [OF emits_one [OF emits_text_string]])
  show "text_string_bytes s \<noteq> []" by (simp add: text_string_bytes_def)
  show "GetByteString d = Inr (s, moved d (length (text_string_bytes s)))"
    if "dec_ok d" "left_bytes d = text_string_bytes s @ ys" for d ys
    using text_string.decodes that assms(1) by (simp add: good_string8_def)
qed

lemma carries_optional_string8:
  assumes "good_string8 s" "0x80 \<le> hb"
    and "\<And>d. reads_on t d \<Longrightarrow> decode_value e hb d = dbind GetByteString (\<lambda>y. on_headers (f y)) d"
    and "\<And>h. iMsgType h = t \<Longrightarrow> iMsgType (f s h) = t"
  shows "carries False e t (EncodeOptionalString hb s) (if s = [] then id else f s)
     (if s = [] then [] else hb # text_string_bytes s)"
  unfolding EncodeOptionalString_def
  by (intro carries_if carries_nothing carries_string8 assms)

section \<open>Text\<close>

definition good_text :: "decode_services \<Rightarrow> string16 \<Rightarrow> bool" where
  "good_text e s \<longleftrightarrow> IsStringSafe s \<and> find_f (fold16 e) KEqualsQuestion16 s = None"

lemma carries_text:
  assumes "good_text e s" "0x80 \<le> hb"
    and "\<And>d. reads_on t d \<Longrightarrow> decode_value e hb d = dbind (GetEncodedTextStringL e) (\<lambda>y. on_headers (f y)) d"
    and "\<And>h. iMsgType h = t \<Longrightarrow> iMsgType (f s h) = t"
  shows "carries False e t (EncodeOptionalStringL w hb s) (if s = [] then id else f s)
     (if s = [] then [] else hb # low_bytes s @ [0])"
  unfolding EncodeOptionalStringL_def
proof (intro carries_if carries_nothing, rule carries_field [OF _ _ assms(2) _ assms(3,4)])
  show "emits (steps [write_at [hb], EncodeTextStringL w s]) (hb # low_bytes s @ [0])"
    by (rule emits_header [OF emits_one [OF emits_safe_text]]) (use assms(1) in \<open>simp add: good_text_def\<close>)
  show "low_bytes s @ [0] \<noteq> []" by simp
  show "GetEncodedTextStringL e d = Inr (s, moved d (length (low_bytes s @ [0])))"
    if "dec_ok d" "left_bytes d = (low_bytes s @ [0]) @ ys" for d ys
    using safe_text.decodes [OF _ that] assms(1) by (simp add: good_text_def)
qed

section \<open>Times\<close>

definition set_time ::
  "(tint \<Rightarrow> mms_headers \<Rightarrow> mms_headers) \<Rightarrow> (tint64 \<Rightarrow> mms_headers \<Rightarrow> mms_headers) \<Rightarrow>
   tint \<Rightarrow> tint64 \<Rightarrow> mms_headers \<Rightarrow> mms_headers" where
  "set_time relative absolute i t =
     (if i = 0 \<and> t = 0 then id else if t \<noteq> 0 then absolute t else relative i)"

definition time_header_bytes :: "byte \<Rightarrow> tint \<Rightarrow> tint64 \<Rightarrow> byte list" where
  "time_header_bytes hb i t = (if i = 0 \<and> t = 0 then [] else hb # time_bytes (encoded_time i t))"

definition good_times :: "tint \<Rightarrow> tint64 \<Rightarrow> bool" where
  "good_times i t \<longleftrightarrow> 0 \<le> sint i \<and> 0 \<le> sint t"

lemma scast_back: "(ucast (scast (i :: tint) :: tint64) :: tint) = i"
  by (rule bit_word_eqI) (auto simp: bit_simps)

lemma sint_scast: "sint (scast (i :: tint) :: tint64) = sint i"
  by (simp add: signed_scast_eq signed_take_bit_int_eq_self_iff sint_lt [of i, simplified]
      order_trans [OF _ sint_ge [of i, simplified]] order_less_trans [OF sint_lt [of i, simplified]])

lemma carries_time:
  assumes "good_times i t" "0x80 \<le> hb" "decode_value e hb = time_header relative absolute"
    and "\<And>x h. iMsgType (relative x h) = iMsgType h" "\<And>x h. iMsgType (absolute x h) = iMsgType h"
  shows "carries False e k (EncodeOptionalIntervalOrDate hb i t) (set_time relative absolute i t)
     (time_header_bytes hb i t)"
proof (cases "i = 0 \<and> t = 0")
  case True
  then show ?thesis
    by (simp add: EncodeOptionalIntervalOrDate_def set_time_def time_header_bytes_def carries_nothing)
next
  case False
  define x where "x = encoded_time i t"
  define f where "f = (\<lambda>(b :: byte, v). if b = KMmsRelativeToken then relative (ucast v)
      else if b = KMmsAbsoluteToken then absolute v else id)"
  have good: "good_time x"
    using assms(1) by (auto simp: x_def good_time_def encoded_time_def good_times_def sint_scast)
  have "carries False e k (steps [write_at [hb], EncodeIntervalOrDate i t]) (f x) (hb # time_bytes x)"
  proof (rule carries_field [OF _ _ assms(2)])
    show "emits (steps [write_at [hb], EncodeIntervalOrDate i t]) (hb # time_bytes x)"
      unfolding x_def by (rule emits_header [OF emits_one [OF emits_interval]])
    show "time_bytes x \<noteq> []" by (simp add: time_bytes_def split: prod.split)
    show "GetRelativeOrAbsoluteTime d = Inr (x, moved d (length (time_bytes x)))"
      if "dec_ok d" "left_bytes d = time_bytes x @ ys" for d ys
      using time.decodes [OF good that] .
    show "decode_value e hb d = dbind GetRelativeOrAbsoluteTime (\<lambda>y. on_headers (f y)) d" for d
      by (auto simp: assms(3) time_header_def dbind_def f_def on_headers_with dskip_def dreturn_def
          KMmsRelativeToken_def KMmsAbsoluteToken_def split: sum.split prod.split)
    show "iMsgType (f x h) = k" if "iMsgType h = k" for h
      using that assms(4,5) by (simp add: f_def split: prod.split)
  qed
  moreover have "f x = set_time relative absolute i t"
    using False by (auto simp: f_def x_def set_time_def encoded_time_def KMmsRelativeToken_def
        KMmsAbsoluteToken_def scast_back)
  ultimately show ?thesis
    using False by (auto simp: EncodeOptionalIntervalOrDate_def time_header_bytes_def x_def)
qed

text \<open>A date: the decoder refuses one that ends the message, so a byte has to follow.\<close>

definition date_bytes :: "tint64 \<Rightarrow> byte list" where
  "date_bytes t = (if t = 0 then [] else KMmsAssignedDate # long_integer_bytes t)"

lemma emits_date [emit_rules]: "emits (EncodeDate t) (date_bytes t)"
proof -
  have "emits (steps [write_at [KMmsAssignedDate], EncodeLongInteger t]) (KMmsAssignedDate # long_integer_bytes t)"
    by (rule emits_header [OF emits_one [OF emits_long_integer]])
  then show ?thesis by (simp add: EncodeDate_def date_bytes_def emits_nothing)
qed

lemma carries_date:
  assumes "0 \<le> sint t"
  shows "carries True e k (EncodeDate t) (\<lambda>h. if t = 0 then h else h\<lparr>iDate := t\<rparr>) (date_bytes t)"
proof (cases "t = 0")
  case True
  then show ?thesis by (simp add: carries_def emits_date) (simp add: date_bytes_def handles_def reads_on_def)
next
  case False
  have "carries True e k (EncodeDate t) (\<lambda>h. h\<lparr>iDate := t\<rparr>) (KMmsAssignedDate # long_integer_bytes t)"
  proof (rule carries_value)
    show "emits (EncodeDate t) (KMmsAssignedDate # long_integer_bytes t)"
      using emits_date [of t] False by (simp add: date_bytes_def)
  next
    fix d ys
    assume d: "reads_on k d" "left_bytes d = long_integer_bytes t @ ys" "True \<longrightarrow> ys \<noteq> []"
    let ?n = "length (long_integer_bytes t)"
    have r: "GetVeryLongInteger d = Inr (t, moved d ?n)"
      using long_integer.decodes [OF assms _ d(2)] d(1) by (simp add: reads_on_def)
    have "\<not> at_end (moved d ?n)"
      using d at_end_nil [of "moved d ?n"] by (simp add: reads_on_def)
    with r d(1) show "decode_value e KMmsAssignedDate d =
        Inr ((), with_headers ((iMmsHeaders d)\<lparr>iDate := t\<rparr>) (moved d ?n))
        \<and> iMsgType ((iMmsHeaders d)\<lparr>iDate := t\<rparr>) = k"
      by (simp add: decode_value_cases DecodeDateHeaderL_def reads_on_def on_headers_with dskip_def)
  qed (simp_all add: long_integer_bytes_def)
  with False show ?thesis by (simp add: date_bytes_def)
qed

section \<open>Addresses\<close>

text \<open>The characters that are sent for an address, and what the receiver makes of them.\<close>

definition sent_text :: "encode_services \<Rightarrow> string16 \<Rightarrow> string16 option" where
  "sent_text w a = (case resolved_address w a of
     Some (Inr (ty, real)) \<Rightarrow> Some (if ty = EMmsAddressTypeEmail then real else real @ KMmsPlmnu)
   | _ \<Rightarrow> None)"

definition good_address :: "encode_services \<Rightarrow> decode_services \<Rightarrow> string16 \<Rightarrow> bool" where
  "good_address w e a = (case sent_text w a of None \<Rightarrow> False | Some s \<Rightarrow> good_text e s)"

definition received_address :: "encode_services \<Rightarrow> decode_services \<Rightarrow> string16 \<Rightarrow> string16" where
  "received_address w e a = (case sent_text w a of None \<Rightarrow> [] | Some s \<Rightarrow> strip_address_type e s)"

definition address_bytes :: "encode_services \<Rightarrow> string16 \<Rightarrow> byte list" where
  "address_bytes w a = (case sent_text w a of None \<Rightarrow> [] | Some s \<Rightarrow> low_bytes s @ [0])"

lemma low_plmn: "low_bytes KMmsPlmnu = KMmsPlmn"
  by (simp add: low_bytes_def KMmsPlmnu_def KMmsPlmn_def)

lemma emits_address:
  assumes "good_address w e a"
  shows "emits (EncodeAddressL w a) (address_bytes w a)"
proof -
  obtain ty real where r: "resolved_address w a = Some (Inr (ty, real))"
    and good: "good_text e (if ty = EMmsAddressTypeEmail then real else real @ KMmsPlmnu)"
    using assms by (auto simp: good_address_def sent_text_def split: option.splits sum.splits prod.splits)
  show ?thesis
  proof (cases "ty = EMmsAddressTypeEmail")
    case True
    with good have "IsStringSafe real" by (simp add: good_text_def)
    from emits_safe_text [OF this] True r show ?thesis
      by (simp add: EncodeAddressL_def address_bytes_def sent_text_def)
  next
    case False
    have "emits (steps [write_at KMmsPlmn, write_at [0]]) (KMmsPlmn @ [0] @ [])" by (intro emit_rules)
    from emits_map_write [OF this, of "\<lambda>c. ucast (c AND 0xFF)" real] False r show ?thesis
      by (simp add: EncodeAddressL_def address_bytes_def sent_text_def low_plmn [symmetric])
        (simp add: low_bytes_def)
  qed
qed

lemma address_bytes_nonempty: "good_address w e a \<Longrightarrow> address_bytes w a \<noteq> []"
  by (auto simp: good_address_def address_bytes_def split: option.splits)

lemma address_reads:
  assumes "good_address w e a" "dec_ok d" "left_bytes d = address_bytes w a @ ys"
  shows "DecodeAddressL e d = Inr (received_address w e a, moved d (length (address_bytes w a)))"
proof -
  obtain s where s: "sent_text w a = Some s" and good: "good_text e s"
    using assms(1) by (auto simp: good_address_def split: option.splits)
  have left: "left_bytes d = (low_bytes s @ [0]) @ ys" using assms(3) s by (simp add: address_bytes_def)
  have "\<not> at_end d"
    using left at_end_nil [OF assms(2)] by simp
  then show ?thesis
    using safe_text.decodes [OF _ assms(2) left] good s
    by (simp add: DecodeAddressL_def dreturn_def good_text_def address_bytes_def received_address_def)
qed

interpretation address: wsp_field "address_bytes w" "DecodeAddressL e"
  "\<lambda>a. good_address w e a \<and> received_address w e a = a" for w e
  by unfold_locales (metis address_reads)

section \<open>Recipients\<close>

definition add_recipients ::
  "encode_services \<Rightarrow> decode_services \<Rightarrow> string16 list \<Rightarrow> mms_recipients \<Rightarrow> mms_headers \<Rightarrow> mms_headers" where
  "add_recipients w e xs ty =
     fold (\<lambda>a. if a \<noteq> [] then AddTypedAddresseeL (received_address w e a) ty else id) xs"

definition recipient_bytes :: "encode_services \<Rightarrow> string16 list \<Rightarrow> mms_recipients \<Rightarrow> byte list" where
  "recipient_bytes w xs ty =
     concat (map (\<lambda>a. if a \<noteq> [] then recipient_type ty # address_bytes w a else []) xs)"

lemma recipient_handler:
  "decode_value e (recipient_type ty) = dbind (DecodeAddressL e) (\<lambda>s. on_headers (AddTypedAddresseeL s ty))"
  by (cases ty) (simp_all add: recipient_type_def decode_value_def DecodeToL_def DecodeCcL_def
      DecodeBccL_def)

lemma carries_recipients:
  assumes "\<And>a. a \<in> set xs \<Longrightarrow> a \<noteq> [] \<Longrightarrow> good_address w e a"
  shows "carries False e t (EncodeRecipientL w xs ty) (add_recipients w e xs ty) (recipient_bytes w xs ty)"
  unfolding EncodeRecipientL_def add_recipients_def recipient_bytes_def
proof (intro carries_map carries_if carries_nothing)
  fix a assume "a \<in> set xs" "a \<noteq> []"
  with assms have good: "good_address w e a" by simp
  show "carries False e t (steps [write_at [recipient_type ty], EncodeAddressL w a])
      (AddTypedAddresseeL (received_address w e a) ty) (recipient_type ty # address_bytes w a)"
  proof (rule carries_field [where field = "DecodeAddressL e" and f = "\<lambda>s. AddTypedAddresseeL s ty"])
    show "emits (steps [write_at [recipient_type ty], EncodeAddressL w a]) (recipient_type ty # address_bytes w a)"
      by (rule emits_header [OF emits_one [OF emits_address [OF good]]])
    show "0x80 \<le> recipient_type ty" by (cases ty) (simp_all add: recipient_type_def)
  qed (use address_bytes_nonempty [OF good] address_reads [OF good] in
      \<open>auto simp: recipient_handler AddTypedAddresseeL_def split: mms_recipients.split\<close>)
qed

section \<open>The sender\<close>

definition sender_ok :: "encode_services \<Rightarrow> decode_services \<Rightarrow> string16 \<Rightarrow> bool" where
  "sender_ok w e a \<longleftrightarrow> a = [] \<or> good_address w e a \<and> (has_at a \<longrightarrow> IsStringSafe a) \<and> length a < 2 ^ 30"

definition announced_length :: "string16 \<Rightarrow> nat" where
  "announced_length a = (if has_at a then length a + 2 else length a + 12)"

definition sender_bytes :: "encode_services \<Rightarrow> string16 \<Rightarrow> byte list" where
  "sender_bytes w a = KMmsAssignedFrom #
     (if a = [] then [1, 129] else value_length_bytes (of_nat (announced_length a)) @ 128 # address_bytes w a)"

definition received_sender :: "encode_services \<Rightarrow> decode_services \<Rightarrow> string16 \<Rightarrow> string16" where
  "received_sender w e a = (if a = [] then [] else received_address w e a)"

lemma emits_sender:
  assumes "sender_ok w e a"
  shows "emits (EncodeSenderL w a) (sender_bytes w a)"
proof (cases "a = []")
  case True
  have "emits (EncodeSenderL w a) ([KMmsAssignedFrom] @ [1] @ [129] @ [])"
    unfolding EncodeSenderL_def if_P [OF True] by (intro emit_rules)
  with True show ?thesis by (simp add: sender_bytes_def)
next
  case False
  then have len: "sender_length w a = Inr (None, announced_length a)" and good: "good_address w e a"
    using assms by (auto simp: sender_ok_def sender_length_def announced_length_def)
  have "emits (steps [nothing, EncodeValueLength (of_nat (announced_length a)), write_at [128], EncodeAddressL w a])
      ([] @ value_length_bytes (of_nat (announced_length a)) @ [128] @ address_bytes w a @ [])"
    by (intro emit_rules emits_address [OF good])
  from emits_header [OF emits_one [OF this], of KMmsAssignedFrom] show ?thesis
    using False len by (simp add: EncodeSenderL_def sender_bytes_def del: steps.simps)
qed

lemma from_given:
  assumes "good_address w e a" "n \<le> 0x7FFFFFFF" "1 < n" "dec_ok d"
    and left: "left_bytes d = value_length_bytes (of_nat n) @ 128 # address_bytes w a @ ys"
  shows "DecodeFromL e d = Inr (received_address w e a,
     moved d (length (value_length_bytes (of_nat n)) + 1 + length (address_bytes w a)))"
proof -
  define k where "k = length (value_length_bytes (of_nat n))"
  have vl: "GetValueLength d = Inr (n, moved d k)"
    unfolding k_def using value_length.decodes [OF assms(2,4)] left by simp
  have left1: "left_bytes (moved d k) = 128 # address_bytes w a @ ys" by (simp add: left k_def)
  have left2: "left_bytes (moved d (Suc k)) = address_bytes w a @ ys" by (simp add: left k_def)
  have "dec_ok (moved d (Suc k))" using assms(4) by simp
  from at_end_nil [OF this] have "\<not> at_end (moved d (Suc k))"
    unfolding left2 using address_bytes_nonempty [OF assms(1)] by simp
  moreover have "DecodeAddressL e (moved d (Suc k))
      = Inr (received_address w e a, moved (moved d (Suc k)) (length (address_bytes w a)))"
    using address_reads [OF assms(1) _ left2] assms(4) by simp
  ultimately show ?thesis
    using vl peek_left [OF _ left1] at_end_left [OF _ left1] assms(3,4)
    by (simp add: DecodeFromL_def advance_moved KMmsAddressPresentToken_def address_if_def
        k_def [symmetric])
qed

lemma from_inserted:
  assumes "dec_ok d" "left_bytes d = 1 # 129 # ys" "ys \<noteq> []"
  shows "DecodeFromL e d = Inr ([], moved d (Suc (Suc 0)))"
proof -
  have vl: "GetValueLength d = Inr (1, moved d 1)"
    using value_length_short [OF assms(1,2)] by simp
  have left1: "left_bytes (moved d 1) = 129 # ys" using assms(2) by simp
  have "\<not> at_end (moved d (Suc (Suc 0)))" using at_end_nil [of "moved d (Suc (Suc 0))"] assms by simp
  then show ?thesis
    using vl peek_left [OF _ left1] at_end_left [OF _ left1] assms(1)
    by (simp add: DecodeFromL_def advance_moved KMmsInsertAddressToken_def address_if_def
        dreturn_def)
qed

lemma carries_sender:
  assumes "sender_ok w e a"
  shows "carries True e t (EncodeSenderL w a) (SetSenderL (received_sender w e a)) (sender_bytes w a)"
  unfolding sender_bytes_def
proof (rule carries_value)
  show "emits (EncodeSenderL w a) (KMmsAssignedFrom # (if a = [] then [1, 129]
      else value_length_bytes (of_nat (announced_length a)) @ 128 # address_bytes w a))"
    using emits_sender [OF assms] by (simp add: sender_bytes_def)
next
  fix d ys
  let ?v = "if a = [] then [1, 129]
      else value_length_bytes (of_nat (announced_length a)) @ 128 # address_bytes w a"
  assume d: "reads_on t d" "left_bytes d = ?v @ ys" "True \<longrightarrow> ys \<noteq> []"
  have "DecodeFromL e d = Inr (received_sender w e a, moved d (length ?v))"
  proof (cases "a = []")
    case True
    then show ?thesis
      using from_inserted [of d ys e] d by (simp add: reads_on_def received_sender_def)
  next
    case False
    then show ?thesis
      using from_given [of w e a "announced_length a" d ys] d assms
      by (auto simp: sender_ok_def reads_on_def announced_length_def received_sender_def)
  qed
  with d(1) show "decode_value e KMmsAssignedFrom d =
      Inr ((), with_headers (SetSenderL (received_sender w e a) (iMmsHeaders d)) (moved d (length ?v)))
      \<and> iMsgType (SetSenderL (received_sender w e a) (iMmsHeaders d)) = t"
    by (simp add: decode_value_def DecodeFromHeaderL_def on_headers_with SetSenderL_def reads_on_def)
qed simp_all

end
