(* ===== verification/Mms_Carry_Box.thy ===== *)
theory Mms_Carry_Box
  imports Mms_Carry_Headers
begin

text \<open>
  The headers of message boxes and of reply charging: keywords, states, locations, sizes.
\<close>

section \<open>Sizes\<close>

lemma ucast_sum: "(ucast (a + b :: tint64) :: tint) = ucast a + ucast b"
proof -
  have "(ucast (word_of_int k :: tint64) :: tint) = word_of_int k" for k
    by (rule bit_word_eqI) (simp add: bit_simps)
  note down = this [of "uint a + uint b"] this [of "uint a"] this [of "uint b"]
  show ?thesis using down by simp
qed

lemma byte_step_cast: "ucast (byte_step a b :: tint64) = (byte_step (ucast a) b :: tint)"
proof -
  have "(ucast (push_bit 8 a + ucast b :: tint64) :: tint) = ucast (push_bit 8 a) + ucast (ucast b :: tint64)"
    by (rule ucast_sum)
  moreover have "(ucast (push_bit 8 a) :: tint) = push_bit 8 (ucast a)"
    by (rule bit_word_eqI) (auto simp: bit_simps)
  moreover have "(ucast (ucast b :: tint64) :: tint) = ucast b"
    by (rule bit_word_eqI) (auto simp: bit_simps)
  ultimately show ?thesis by (simp add: byte_step_def)
qed

lemma bytes_value_cast:
  "ucast (foldl byte_step (a :: tint64) bs) = (foldl byte_step (ucast a :: tint) bs)"
  by (induction bs arbitrary: a) (simp_all add: byte_step_cast)

lemma small_size_length:
  assumes "0 \<le> sint (n :: tint)"
  shows "length (long_bytes (scast n)) \<le> 4"
proof -
  let ?t = "scast n :: tint64"
  have "byte_of ?t i = 0" if "4 \<le> i" for i
  proof -
    have "\<not> bit n 31" using assms bit_last_iff [of n] by simp
    then have "\<not> bit ?t j" if "31 \<le> j" for j
      using that by (auto simp: bit_simps min_def)
    then show ?thesis
      unfolding byte_of_def using that by (intro bit_word_eqI) (auto simp: bit_simps)
  qed
  then have "interval_length ?t \<le> 6" by (simp add: interval_length_bytes)
  moreover have "0 \<le> sint ?t" using assms by (simp add: sint_scast)
  ultimately show ?thesis
    using interval_length_written [of ?t] by (simp add: long_integer_bytes_def)
qed

lemma size_reads:
  assumes "0 \<le> sint (n :: tint)" "dec_ok d" "left_bytes d = long_integer_bytes (scast n) @ ys"
  shows "GetLongOrShortInteger d = Inr (n, moved d (length (long_integer_bytes (scast n))))"
proof -
  let ?t = "scast n :: tint64"
  have pos: "0 \<le> sint ?t" using assms(1) by (simp add: sint_scast)
  note v = long_bytes_value [OF pos] and le = small_size_length [OF assms(1)]
  define b :: byte where "b = of_nat (length (long_bytes ?t))"
  have ub: "unat b = length (long_bytes ?t)"
    using le by (simp add: b_def unsigned_of_nat take_bit_nat_eq_self)
  have left: "left_bytes d = b # long_bytes ?t @ ys"
    using assms(3) by (simp add: long_integer_bytes_def b_def)
  have "b AND 0x80 = 0" using byte_high_bit [of b] ub le by (auto simp: word_le_nat_alt)
  moreover have "\<not> 30 < b" "\<not> KMmsMaxIntegerLength < b"
    using ub le by (simp_all add: word_less_nat_alt KMmsMaxIntegerLength_def)
  moreover have "foldl byte_step (0 :: tint) (long_bytes ?t) = n"
    using bytes_value_cast [of 0 "long_bytes ?t"] v(1) scast_back [of n] by simp
  then have "int_loop (length (long_bytes ?t)) 0 (moved d 1)
      = Inr (n, moved (moved d 1) (length (long_bytes ?t)))"
    using int_loop_reads [of "moved d 1" "long_bytes ?t" ys "0 :: tint"] left assms(2) by simp
  ultimately show ?thesis
    using peek_left [OF assms(2) left] at_end_left [OF assms(2) left] ub
    by (simp add: GetLongOrShortInteger_def advance_moved long_integer_bytes_def)
qed

interpretation size_field: wsp_field "\<lambda>n. long_integer_bytes (scast n)" GetLongOrShortInteger
  "\<lambda>n :: tint. 0 \<le> sint n"
  by unfold_locales (rule size_reads)

definition size_bytes :: "byte \<Rightarrow> tint \<Rightarrow> byte list" where
  "size_bytes hb n = hb # long_integer_bytes (scast n)"

lemma carries_size:
  assumes "0 \<le> sint n" "0x80 \<le> hb"
    and "decode_value e hb = dbind GetLongOrShortInteger (\<lambda>n. on_headers (f n))"
    and "\<And>x h. iMsgType (f x h) = iMsgType h"
  shows "carries False e t (steps [write_at [hb], EncodeLongInteger (scast n)]) (f n) (size_bytes hb n)"
  unfolding size_bytes_def
proof (rule carries_field [OF _ _ assms(2)])
  show "emits (steps [write_at [hb], EncodeLongInteger (scast n)]) (hb # long_integer_bytes (scast n))"
    by (rule emits_header [OF emits_one [OF emits_long_integer]])
  show "GetLongOrShortInteger d = Inr (n, moved d (length (long_integer_bytes (scast n))))"
    if "dec_ok d" "left_bytes d = long_integer_bytes (scast n) @ ys" for d ys
    using size_field.decodes [OF assms(1) that] .
qed (simp_all add: assms(3,4) long_integer_bytes_def)

lemma carries_integer:
  assumes "0x80 \<le> hb"
    and "decode_value e hb = dbind GetLongOrShortInteger (\<lambda>n. on_headers (f n))"
    and "\<And>x h. iMsgType (f x h) = iMsgType h"
  shows "carries False e t (steps [write_at [hb], EncodeInteger n]) (f n) (hb # integer_bytes n)"
proof (rule carries_field [OF _ _ assms(1)])
  show "emits (steps [write_at [hb], EncodeInteger n]) (hb # integer_bytes n)"
    by (rule emits_header [OF emits_one [OF emits_integer]])
  show "GetLongOrShortInteger d = Inr (n, moved d (length (integer_bytes n)))"
    if "dec_ok d" "left_bytes d = integer_bytes n @ ys" for d ys
    using integer.decodes [OF TrueI that] .
  show "integer_bytes n \<noteq> []" by (simp add: integer_bytes_def split: prod.split)
qed (simp_all add: assms(2,3))

section \<open>Keywords\<close>

definition sent_token :: "mms_headers \<Rightarrow> mmbox_flags \<Rightarrow> byte" where
  "sent_token h k = ucast (if iMsgType h = KMmsMessageTypeMboxViewReq
      \<or> iMsgType h = KMmsMessageTypeMboxViewConf \<or> iMsgType h = KMmsMessageTypeMBoxDescr
    then KMmsFilterToken else iOperationToken k)"

definition good_keyword :: "decode_services \<Rightarrow> mms_headers \<Rightarrow> mmbox_flags \<Rightarrow> bool" where
  "good_keyword e h k \<longleftrightarrow> good_text e (des_of (iKeyword k)) \<and> 0x80 \<le> sent_token h k
     \<and> length (des_of (iKeyword k)) < 2 ^ 30"

definition keyword_bytes :: "mms_headers \<Rightarrow> mmbox_flags \<Rightarrow> byte list" where
  "keyword_bytes h k = (let s = des_of (iKeyword k) in
     if s = [] then []
     else KMmsAssignedMMFlags # value_length_bytes (of_nat (length s + 2)) @ sent_token h k # low_bytes s @ [0])"

definition add_keyword :: "decode_services \<Rightarrow> mms_headers \<Rightarrow> mmbox_flags \<Rightarrow> mms_headers \<Rightarrow> mms_headers" where
  "add_keyword e h k = (let s = des_of (iKeyword k) in
     if s = [] then id else on_message_box (mh_append_keyword (fold16 e) (ucast (sent_token h k)) s))"

lemma low_bytes_length [simp]: "length (low_bytes s) = length s"
  by (simp add: low_bytes_def)

lemma emits_keyword:
  assumes "good_keyword e h k"
  shows "emits (EncodeKeyword w h k) (keyword_bytes h k)"
proof (cases "des_of (iKeyword k) = []")
  case True
  then show ?thesis by (simp add: EncodeKeyword_def keyword_bytes_def when_enc_def emits_nothing)
next
  case False
  let ?s = "des_of (iKeyword k)" and ?m = "EncodeTextStringL w (des_of (iKeyword k))"
  have m: "emits ?m (low_bytes ?s @ [0])"
    using assms by (intro emits_safe_text) (simp add: good_keyword_def good_text_def)
  have "emits (measured ?m (\<lambda>len. steps [EncodeValueLength (of_nat (len + 1)), write_at [sent_token h k], ?m]))
      (value_length_bytes (of_nat (length (low_bytes ?s @ [0]) + 1)) @ [sent_token h k] @ (low_bytes ?s @ [0]) @ [])"
    by (intro emits_measured [OF m] emits_steps_cons emit_rules m) simp
  from emits_header [OF emits_one [OF this], of KMmsAssignedMMFlags] False show ?thesis
    by (simp add: EncodeKeyword_def keyword_bytes_def when_enc_def sent_token_def Let_def del: steps.simps)
qed

lemma keyword_reads:
  assumes "good_keyword e h k" "des_of (iKeyword k) = s" "dec_ok d"
    and left: "left_bytes d = value_length_bytes (of_nat (length s + 2)) @ sent_token h k # low_bytes s @ 0 # ys"
  shows "GetKeywordL e d = Inr ((), with_headers
      (on_message_box (mh_append_keyword (fold16 e) (ucast (sent_token h k)) s) (iMmsHeaders d))
      (moved d (Suc (Suc (length (value_length_bytes (of_nat (length s + 2))) + length s)))))"
proof -
  define n where "n = length (value_length_bytes (of_nat (length s + 2)))"
  have small: "length s + 2 \<le> 0x7FFFFFFF" using assms(1,2) by (simp add: good_keyword_def)
  have vl: "GetValueLength d = Inr (length s + 2, moved d n)"
    unfolding n_def by (rule value_length.decodes [OF small assms(3) left])
  have left1: "left_bytes (moved d n) = sent_token h k # low_bytes s @ 0 # ys" by (simp add: left n_def)
  have tok: "GetWellKnownFieldValueOrSkip (moved d n) = Inr (sent_token h k, moved (moved d n) 1)"
    by (rule well_known_byte [OF _ left1]) (use assms(1,3) in \<open>simp_all add: good_keyword_def\<close>)
  have left2: "left_bytes (moved d (Suc n)) = (low_bytes s @ [0]) @ ys" by (simp add: left n_def)
  have str: "GetEncodedTextStringL e (moved d (Suc n))
      = Inr (s, moved (moved d (Suc n)) (length (low_bytes s @ [0])))"
    by (rule safe_text.decodes [OF _ _ left2]) (use assms in \<open>auto simp: good_keyword_def good_text_def\<close>)
  show ?thesis
    unfolding n_def [symmetric] using vl tok str by (simp add: GetKeywordL_def on_headers_with)
qed

lemma carries_keyword:
  assumes "good_keyword e h k"
  shows "carries False e t (EncodeKeyword w h k) (add_keyword e h k) (keyword_bytes h k)"
proof (cases "des_of (iKeyword k) = []")
  case True
  then show ?thesis
    using emits_keyword [OF assms, of w] handles_nil
    by (simp add: carries_def keyword_bytes_def add_keyword_def Let_def)
next
  case False
  let ?s = "des_of (iKeyword k)"
  let ?v = "value_length_bytes (of_nat (length ?s + 2)) @ sent_token h k # low_bytes ?s @ [0]"
  have "carries False e t (EncodeKeyword w h k) (add_keyword e h k) (KMmsAssignedMMFlags # ?v)"
  proof (rule carries_value)
    show "emits (EncodeKeyword w h k) (KMmsAssignedMMFlags # ?v)"
      using emits_keyword [OF assms, of w] False by (simp add: keyword_bytes_def Let_def)
    fix d ys
    assume d: "reads_on t d" "left_bytes d = ?v @ ys"
    then have "GetKeywordL e d = Inr ((), with_headers
      (on_message_box (mh_append_keyword (fold16 e) (ucast (sent_token h k)) ?s) (iMmsHeaders d))
      (moved d (Suc (Suc (length (value_length_bytes (of_nat (length ?s + 2))) + length ?s)))))"
      by (intro keyword_reads [OF assms refl]) (auto simp: reads_on_def)
    with d(1) False show "decode_value e KMmsAssignedMMFlags d
        = Inr ((), with_headers (add_keyword e h k (iMmsHeaders d)) (moved d (length ?v)))
        \<and> iMsgType (add_keyword e h k (iMmsHeaders d)) = t"
      by (simp add: decode_value_cases add_keyword_def Let_def reads_on_def on_message_box_def)
  qed simp_all
  with False show ?thesis by (simp add: keyword_bytes_def Let_def)
qed

end
