(* ===== verification/Mms_Pdu.thy ===== *)
theory Mms_Pdu
  imports Mms_Carry_Box
begin

text \<open>
  Whole PDUs: what a receiver that runs \<open>DecodeHeadersL\<close> gets from the bytes that \<open>EncodeHeadersL\<close>
  writes for the responses of the client and for a forward request.
\<close>

section \<open>Lists of updates\<close>

definition updates :: "(mms_headers \<Rightarrow> mms_headers) list \<Rightarrow> mms_headers \<Rightarrow> mms_headers" where
  "updates fs = fold (\<lambda>f. f) fs"

lemma updates_simps [simp]:
  "updates [] h = h" "updates (f # fs) h = updates fs (f h)"
  by (simp_all add: updates_def)

lemma carries_end: "carries False e t (steps []) (updates []) (concat [])"
  using carries_nil [of e t] by (simp add: updates_def id_def del: steps.simps)

lemma carries_step:
  assumes "carries False e t m f a" "carries False e t (steps ms) (updates fs) (concat bs)"
  shows "carries False e t (steps (m # ms)) (updates (f # fs)) (concat (a # bs))"
  using carries_plain [OF assms] by (simp add: updates_def comp_def del: steps.simps)

text \<open>A header that needs a byte behind it.\<close>

lemma carries_step_more:
  assumes "carries True e t m f a" "carries False e t (steps ms) (updates fs) (concat bs)" "concat bs \<noteq> []"
  shows "carries False e t (steps (m # ms)) (updates (f # fs)) (concat (a # bs))"
  using carries_cons [OF assms(1,2)] assms(3) by (simp add: updates_def comp_def del: steps.simps)

definition when_upd :: "bool \<Rightarrow> (mms_headers \<Rightarrow> mms_headers) list \<Rightarrow> mms_headers \<Rightarrow> mms_headers" where
  "when_upd c fs = (if c then updates fs else id)"

definition when_bytes :: "bool \<Rightarrow> byte list list \<Rightarrow> byte list" where
  "when_bytes c bs = (if c then concat bs else [])"

lemma carries_when_list:
  "(c \<Longrightarrow> carries False e t (steps ms) (updates fs) (concat bs)) \<Longrightarrow>
   carries False e t (when_enc c ms) (when_upd c fs) (when_bytes c bs)"
  unfolding when_upd_def when_bytes_def by (rule carries_when)

lemma carries_on_box:
  assumes "\<And>m. iMmBoxMessageHeaders h = Some m \<Longrightarrow> carries False e t (f m) (g m) (b m)"
  shows "carries False e t (on_box h f) (case iMmBoxMessageHeaders h of None \<Rightarrow> id | Some m \<Rightarrow> g m)
     (case iMmBoxMessageHeaders h of None \<Rightarrow> [] | Some m \<Rightarrow> b m)"
  unfolding on_box_def using assms by (auto intro: carries_nothing split: option.splits)

section \<open>The start of a PDU\<close>

definition start_bytes :: "tint \<Rightarrow> string8 \<Rightarrow> char16 \<Rightarrow> byte list" where
  "start_bytes ty tid v =
     [KMmsAssignedMessageType, ucast ty OR 0x80]
     @ (if tid = [] then [] else KMmsAssignedTID # text_string_bytes tid)
     @ [KMmsAssignedMmsVersion, ucast (scast v :: tint) OR 0x80]"

definition start_update :: "tint \<Rightarrow> string8 \<Rightarrow> char16 \<Rightarrow> mms_headers \<Rightarrow> mms_headers" where
  "start_update ty tid v h =
     (let h1 = h\<lparr>iMsgType := token_of ty\<rparr>; h2 = (if tid = [] then h1 else SetTidL tid h1)
      in h2\<lparr>iVersion := v\<rparr>)"

lemma version_back:
  assumes "v < 0x80"
  shows "ucast ((ucast (scast (v :: char16) :: tint) :: byte) AND 0x7F) AND 0x00FF = v"
proof -
  define b :: byte where "b = ucast (scast v :: tint)"
  have n: "unat v < 128" using assms by (simp add: word_less_nat_alt)
  have "b = ucast v" unfolding b_def by (rule bit_word_eqI) (auto simp: bit_simps)
  then have ub: "unat b = unat v" using n by (simp add: unsigned_ucast_eq take_bit_nat_eq_self)
  then have eq: "b AND 0x7F = b" using n by (intro low_seven_small) (simp add: word_less_nat_alt)
  have "unat (ucast b AND 0x00FF :: char16) = unat v"
    using n ub unfolding mask_eight
    by (simp add: unsigned_and_eq unsigned_ucast_eq unsigned_take_bit_eq take_bit_nat_eq_self
        flip: take_bit_eq_mask)
  then show ?thesis unfolding b_def [symmetric] eq by (rule word_unat_eq_iff [THEN iffD2])
qed

lemma carries_version:
  assumes "v < 0x80"
  shows "carries False e t (EncodeMandatoryByte KMmsAssignedMmsVersion (scast v)) (\<lambda>h. h\<lparr>iVersion := v\<rparr>)
     [KMmsAssignedMmsVersion, ucast (scast v :: tint) OR 0x80]"
proof (rule carries_value [OF emits_byte])
  fix d ys
  let ?b = "(ucast (scast v :: tint) :: byte) OR 0x80"
  assume d: "reads_on t d" "left_bytes d = [?b] @ ys"
  have "GetWellKnownFieldValueOrSkip d = Inr (?b, moved d 1)"
    by (rule well_known_byte) (use d or_high_ge in \<open>auto simp: reads_on_def\<close>)
  with d(1) show "decode_value e KMmsAssignedMmsVersion d
      = Inr ((), with_headers ((iMmsHeaders d)\<lparr>iVersion := v\<rparr>) (moved d (length [?b])))
      \<and> iMsgType ((iMmsHeaders d)\<lparr>iVersion := v\<rparr>) = t"
    using version_back [OF assms]
    by (simp add: decode_value_cases DecodeMmsVersion_def on_headers_with reads_on_def or_high_low)
qed simp_all

lemma emits_start:
  "emits (EncodeStartingHeaders ty tid v) (start_bytes ty tid v)"
proof -
  have "emits (EncodeOptionalString KMmsAssignedTID tid)
      (if tid = [] then [] else KMmsAssignedTID # text_string_bytes tid)"
    unfolding EncodeOptionalString_def EncodeHeaderAndTextString_def
    by (intro emits_if emits_nothing emits_header emits_one emits_text_string)
  then have "emits (EncodeStartingHeaders ty tid v) ([KMmsAssignedMessageType, ucast ty OR 0x80]
     @ (if tid = [] then [] else KMmsAssignedTID # text_string_bytes tid)
     @ [KMmsAssignedMmsVersion, ucast (scast v :: tint) OR 0x80] @ [])"
    unfolding EncodeStartingHeaders_def by (intro emit_rules)
  then show ?thesis by (simp add: start_bytes_def)
qed

lemma start_reads:
  assumes "good_string8 tid" "v < 0x80" "reads_on t d" "left_bytes d = start_bytes ty tid v @ ys"
  shows "headers_loop e d = headers_loop e
      (with_headers (start_update ty tid v (iMmsHeaders d)) (moved d (length (start_bytes ty tid v))))"
proof -
  let ?b = "ucast ty OR 0x80 :: byte"
  let ?t = "token_of ty"
  let ?h = "(iMmsHeaders d)\<lparr>iMsgType := ?t\<rparr>"
  let ?d1 = "with_headers ?h (moved d (Suc (Suc 0)))"
  let ?rest = "(if tid = [] then [] else KMmsAssignedTID # text_string_bytes tid)
     @ [KMmsAssignedMmsVersion, ucast (scast v :: tint) OR 0x80]"
  have "headers_loop e d = headers_loop e ?d1"
    unfolding token_of_def
    by (rule type_byte) (use assms(3,4) or_high_ge in \<open>auto simp: start_bytes_def reads_on_def\<close>)
  moreover have "carries False e ?t (EncodeOptionalString KMmsAssignedTID tid)
      (if tid = [] then id else SetTidL tid) (if tid = [] then [] else KMmsAssignedTID # text_string_bytes tid)"
    by (rule carries_optional_string8 [OF assms(1), where f = SetTidL])
      (auto simp: decode_value_cases DecodeTidL_def SetTidL_def)
  then have "handles False e ?t ?rest ((\<lambda>h. h\<lparr>iVersion := v\<rparr>) \<circ> (if tid = [] then id else SetTidL tid))"
    using carries_version [OF assms(2)] unfolding carries_def by (blast intro: handles_append)
  moreover have "reads_on ?t ?d1" "left_bytes ?d1 = ?rest @ ys"
    using assms(3,4) by (simp_all add: reads_on_def start_bytes_def)
  ultimately have "headers_loop e d = headers_loop e
      (with_headers (((\<lambda>h. h\<lparr>iVersion := v\<rparr>) \<circ> (if tid = [] then id else SetTidL tid)) (iMmsHeaders ?d1))
        (moved ?d1 (length ?rest)))"
    unfolding handles_def by (metis (no_types, lifting))
  then show ?thesis by (cases "tid = []") (simp_all add: start_update_def start_bytes_def Let_def)
qed

section \<open>A whole PDU\<close>

lemma pdu_emits:
  assumes "carries False e t (steps ms) (updates fs) (concat bs)"
  shows "emits (steps (EncodeStartingHeaders ty tid v # ms)) (start_bytes ty tid v @ concat bs)"
  using assms unfolding carries_def by (blast intro: emits_steps_cons emits_start)

lemma pdu_decodes:
  assumes "good_string8 tid" "v < 0x80" "carries False e (token_of ty) m f bs"
  shows "DecodeHeadersL e (start_bytes ty tid v @ bs) 0 0 now h0 d0 = Some (Inr
    (f (start_update ty tid v ((headers_reset h0)\<lparr>iReceivingTime := now\<rparr>)),
     0, length (start_bytes ty tid v @ bs)))"
proof -
  let ?buf = "start_bytes ty tid v @ bs"
  let ?d = "start_decode ?buf 0 0 now h0 d0"
  let ?h = "start_update ty tid v (iMmsHeaders ?d)"
  let ?d1 = "with_headers ?h (moved ?d (length (start_bytes ty tid v)))"
  let ?d2 = "with_headers (f ?h) (moved ?d1 (length bs))"
  have two: "2 \<le> length ?buf" by (simp add: start_bytes_def)
  have "headers_loop e ?d = headers_loop e ?d1"
    by (rule start_reads [OF assms(1,2), where t = "iMsgType (iMmsHeaders ?d)" and ys = bs])
      (simp_all add: reads_on_def)
  also have "\<dots> = headers_loop e ?d2"
  proof -
    have ty: "iMsgType ?h = token_of ty"
      by (simp add: start_update_def Let_def SetTidL_def)
    have "reads_on (token_of ty) ?d1" "left_bytes ?d1 = bs @ []"
      using ty by (simp_all add: reads_on_def)
    with assms(3) show ?thesis unfolding carries_def handles_def by fastforce
  qed
  also have "\<dots> = Some (Inr ?d2)"
    by (rule loop_end) simp_all
  finally have "headers_loop e ?d = Some (Inr ?d2)" .
  then show ?thesis
    unfolding decode_whole [OF two] by (simp add: finish_decode_def)
qed

lemma encode_pdu:
  assumes "headers_pdu fld w h root = Some m" "emits m bs"
  shows "EncodeHeadersL fld w old root h =
    (if length bs \<le> headers_size h + KMMSBufferExtra then Inr (bs, KErrNone) else Inl KPanicIndex)"
proof -
  let ?s = "encode_start old h"
  have ok: "enc_ok ?s" "iEncodePosition ?s = 0" "length (iEncodeBuffer ?s) = headers_size h + KMMSBufferExtra"
    "written ?s = []" "iEncodeError ?s = KErrNone"
    by (simp_all add: encode_start_def enc_ok_def written_def)
  show ?thesis
  proof (cases "length bs \<le> headers_size h + KMMSBufferExtra")
    case True
    then have "iEncodePosition ?s + length bs \<le> length (iEncodeBuffer ?s)" using ok by simp
    from emits_fits [OF assms(2) ok(1) this] obtain s1
      where "m ?s = Inr s1" "written s1 = bs" "iEncodeError s1 = KErrNone" using ok by (auto simp: enc_ok_def)
    with True show ?thesis by (simp add: EncodeHeadersL_def assms(1))
  next
    case False
    then have "m ?s = Inl KPanicIndex" using ok by (intro emits_full [OF assms(2)]) simp_all
    with False show ?thesis by (simp add: EncodeHeadersL_def assms(1))
  qed
qed

section \<open>Responses\<close>

definition opt_token :: "(tint \<Rightarrow> mms_headers \<Rightarrow> mms_headers) \<Rightarrow> tint \<Rightarrow> mms_headers \<Rightarrow> mms_headers" where
  "opt_token f v = (if v = 0 then id else f (token_of v))"

definition opt_byte :: "byte \<Rightarrow> tint \<Rightarrow> byte list" where
  "opt_byte hb v = (if v = 0 then [] else [hb, ucast v OR 0x80])"

lemma carries_opt:
  assumes "0x80 \<le> hb" "decode_value e hb = token_header f" "\<And>x h. iMsgType (f x h) = iMsgType h"
  shows "carries False e t (EncodeOptionalByte hb v) (opt_token f v) (opt_byte hb v)"
  unfolding opt_token_def opt_byte_def by (rule carries_optional_byte [OF assms])

definition notify_updates :: "mms_headers \<Rightarrow> (mms_headers \<Rightarrow> mms_headers) list" where
  "notify_updates h =
     [\<lambda>h0. h0\<lparr>iStatus := token_of (iStatus h)\<rparr>,
      opt_token (\<lambda>v h0. h0\<lparr>iReportAllowed := v\<rparr>) (iReportAllowed h)]"

definition acknowledge_updates :: "mms_headers \<Rightarrow> (mms_headers \<Rightarrow> mms_headers) list" where
  "acknowledge_updates h = [opt_token (\<lambda>v h0. h0\<lparr>iReportAllowed := v\<rparr>) (iReportAllowed h)]"

definition cancel_updates :: "mms_headers \<Rightarrow> (mms_headers \<Rightarrow> mms_headers) list" where
  "cancel_updates h = [opt_token (\<lambda>v h0. h0\<lparr>iCancelStatus := v\<rparr>) (iCancelStatus h)]"

lemma carries_notify:
  "carries False e t
     (steps [EncodeMandatoryByte KMmsAssignedStatus (iStatus h),
             EncodeOptionalByte KMmsAssignedReportAllowed (iReportAllowed h)])
     (updates (notify_updates h))
     (concat [[KMmsAssignedStatus, ucast (iStatus h) OR 0x80], opt_byte KMmsAssignedReportAllowed (iReportAllowed h)])"
  unfolding notify_updates_def
  by (intro carries_step carries_end carries_opt
      carries_byte [where f = "\<lambda>v h0. h0\<lparr>iStatus := v\<rparr>"])
    (simp_all add: decode_value_cases DecodeStatus_def DecodeReportAllowed_def)

lemma carries_acknowledge:
  "carries False e t (steps [EncodeOptionalByte KMmsAssignedReportAllowed (iReportAllowed h)])
     (updates (acknowledge_updates h)) (concat [opt_byte KMmsAssignedReportAllowed (iReportAllowed h)])"
  unfolding acknowledge_updates_def
  by (intro carries_step carries_end carries_opt) (simp_all add: decode_value_cases DecodeReportAllowed_def)

lemma carries_cancel:
  "carries False e t (steps [EncodeOptionalByte KMmsAssignedCancelStatus (iCancelStatus h)])
     (updates (cancel_updates h)) (concat [opt_byte KMmsAssignedCancelStatus (iCancelStatus h)])"
  unfolding cancel_updates_def
  by (intro carries_step carries_end carries_opt) (simp_all add: decode_value_cases DecodeCancelStatus_def)

text \<open>A token as it is kept in the headers: 0 when the header is absent, and a byte with its high
  bit set otherwise.\<close>

definition good_token :: "tint \<Rightarrow> bool" where
  "good_token v \<longleftrightarrow> 128 \<le> v \<and> v < 256"

lemma token_of_good:
  assumes "good_token v"
  shows "token_of v = v"
proof -
  define b :: byte where "b = ucast v"
  have n: "128 \<le> unat v" "unat v < 256"
    using assms by (simp_all add: good_token_def word_le_nat_alt word_less_nat_alt)
  then have ub: "unat b = unat v" by (simp add: b_def small_byte)
  have "bit b 7" using n(1) ub by (simp add: bit_seven)
  then have "b OR 2 ^ 7 = b"
    by (intro bit_word_eqI) (auto simp only: bit_or_iff bit_exp_iff)
  then have "b OR 0x80 = b" by simp
  then show ?thesis
    using n ub by (simp add: token_of_def b_def [symmetric] word_unat_eq_iff unsigned_ucast_eq take_bit_nat_eq_self)
qed

text \<open>The contents of a response, and the responses the codec keeps.\<close>

definition is_response :: "tint \<Rightarrow> bool" where
  "is_response ty \<longleftrightarrow> ty = KMmsMessageTypeMNotifyRespInd \<or> ty = KMmsMessageTypeAcknowledgeInd
     \<or> ty = KMmsMessageTypeCancelConf"

definition response_fields :: "mms_headers \<Rightarrow> tint \<times> string8 \<times> char16 \<times> tint \<times> tint" where
  "response_fields h =
     (iMsgType h, des_of (iTID h), iVersion h,
      if iMsgType h = KMmsMessageTypeMNotifyRespInd then iStatus h else 0,
      if iMsgType h = KMmsMessageTypeCancelConf then iCancelStatus h else iReportAllowed h)"

definition good_response :: "mms_headers \<Rightarrow> bool" where
  "good_response h \<longleftrightarrow> is_response (iMsgType h) \<and> good_string8 (des_of (iTID h))
     \<and> length (des_of (iTID h)) \<le> KMaxHeaderStringLength \<and> iVersion h < 0x80
     \<and> (iMsgType h = KMmsMessageTypeMNotifyRespInd \<longrightarrow> good_token (iStatus h))
     \<and> (iReportAllowed h = 0 \<or> good_token (iReportAllowed h))
     \<and> (iCancelStatus h = 0 \<or> good_token (iCancelStatus h))"

definition response_updates :: "mms_headers \<Rightarrow> (mms_headers \<Rightarrow> mms_headers) list" where
  "response_updates h =
     (if iMsgType h = KMmsMessageTypeMNotifyRespInd then notify_updates h
      else if iMsgType h = KMmsMessageTypeAcknowledgeInd then acknowledge_updates h
      else cancel_updates h)"

lemma response_encoder:
  assumes "is_response (iMsgType h)"
  obtains ms bs where
    "headers_pdu fld w h root
       = Some (steps (EncodeStartingHeaders (iMsgType h) (des_of (iTID h)) (iVersion h) # ms))"
    "\<And>e t. carries False e t (steps ms) (updates (response_updates h)) (concat bs)"
    "length (concat bs) \<le> 4"
proof -
  have short: "length (opt_byte hb v) \<le> 2" for hb v by (simp add: opt_byte_def)
  consider (notify) "iMsgType h = KMmsMessageTypeMNotifyRespInd"
    | (ack) "iMsgType h = KMmsMessageTypeAcknowledgeInd" | (cancel) "iMsgType h = KMmsMessageTypeCancelConf"
    using assms by (auto simp: is_response_def)
  then show ?thesis
  proof cases
    case notify
    then have u: "response_updates h = notify_updates h" by (simp add: response_updates_def)
    show ?thesis
      by (rule that [unfolded u, OF _ carries_notify [where h = h]])
        (use notify short [of KMmsAssignedReportAllowed "iReportAllowed h"] in
          \<open>simp_all add: headers_pdu_def EncodeNotifyResponse_def del: steps.simps\<close>)
  next
    case ack
    then have u: "response_updates h = acknowledge_updates h" by (simp add: response_updates_def)
    show ?thesis
      by (rule that [unfolded u, OF _ carries_acknowledge [where h = h]])
        (use ack short [of KMmsAssignedReportAllowed "iReportAllowed h"] in
          \<open>simp_all add: headers_pdu_def EncodeAcknowledgeIndication_def del: steps.simps\<close>)
  next
    case cancel
    then have u: "response_updates h = cancel_updates h" by (simp add: response_updates_def)
    show ?thesis
      by (rule that [unfolded u, OF _ carries_cancel [where h = h]])
        (use cancel short [of KMmsAssignedCancelStatus "iCancelStatus h"] in
          \<open>simp_all add: headers_pdu_def EncodeCancelResponse_def del: steps.simps\<close>)
  qed
qed

lemma start_update_fields:
  assumes "length tid \<le> KMaxHeaderStringLength" "good_token ty"
  shows "iMsgType (start_update ty tid v h) = ty" "iVersion (start_update ty tid v h) = v"
    "iTID h = None \<Longrightarrow> des_of (iTID (start_update ty tid v h)) = tid"
  using assms by (simp_all add: start_update_def Let_def SetTidL_def token_of_good des_of_def)

lemma start_update_keeps [simp]:
  "iReportAllowed (start_update ty tid v h) = iReportAllowed h"
  "iCancelStatus (start_update ty tid v h) = iCancelStatus h"
  "iDate (start_update ty tid v h) = iDate h"
  "iToArray (start_update ty tid v h) = iToArray h"
  "iCcArray (start_update ty tid v h) = iCcArray h"
  "iBccArray (start_update ty tid v h) = iBccArray h"
  "iContentLocation (start_update ty tid v h) = iContentLocation h"
  "iMmBoxMessageHeaders (start_update ty tid v h) = iMmBoxMessageHeaders h"
  "iExpiry (start_update ty tid v h) = iExpiry h"
  "iExpiryAbs (start_update ty tid v h) = iExpiryAbs h"
  "iDelivery (start_update ty tid v h) = iDelivery h"
  "iDeliveryAbs (start_update ty tid v h) = iDeliveryAbs h"
  "iDelivReport (start_update ty tid v h) = iDelivReport h"
  "iReadReply (start_update ty tid v h) = iReadReply h"
  "iReplyCharging (start_update ty tid v h) = iReplyCharging h"
  "iReplyChargingDeadline (start_update ty tid v h) = iReplyChargingDeadline h"
  "iReplyChargingAbs (start_update ty tid v h) = iReplyChargingAbs h"
  "iReplyChargingSize (start_update ty tid v h) = iReplyChargingSize h"
  by (simp_all add: start_update_def Let_def SetTidL_def)

lemma response_fields_back:
  assumes "good_response h" "iTID h0 = None" "iReportAllowed h0 = 0" "iCancelStatus h0 = 0"
  shows "response_fields (updates (response_updates h)
     (start_update (iMsgType h) (des_of (iTID h)) (iVersion h) h0)) = response_fields h"
proof -
  have ty: "good_token (iMsgType h)"
    using assms(1) by (auto simp: good_response_def is_response_def good_token_def)
  have tid: "length (des_of (iTID h)) \<le> KMaxHeaderStringLength" using assms(1) by (simp add: good_response_def)
  note f = start_update_fields [OF tid ty]
  have "is_response (iMsgType h)" using assms(1) by (simp add: good_response_def)
  then consider (notify) "iMsgType h = KMmsMessageTypeMNotifyRespInd"
    | (ack) "iMsgType h = KMmsMessageTypeAcknowledgeInd" | (cancel) "iMsgType h = KMmsMessageTypeCancelConf"
    by (auto simp: is_response_def)
  then show ?thesis
    using assms f
    by cases (auto simp: response_updates_def response_fields_def notify_updates_def acknowledge_updates_def
        cancel_updates_def opt_token_def good_response_def token_of_good)
qed

lemma start_bytes_length: "length (start_bytes ty tid v) \<le> length tid + 7"
  by (simp add: start_bytes_def text_string_bytes_def)

lemma response_codec:
  assumes "good_response h"
  shows "\<exists>bs h1. EncodeHeadersL fld w old root h = Inr (bs, KErrNone)
    \<and> DecodeHeadersL e bs 0 0 now h0 d0 = Some (Inr (h1, 0, length bs))
    \<and> response_fields h1 = response_fields h"
proof -
  let ?tid = "des_of (iTID h)"
  let ?start = "start_bytes (iMsgType h) ?tid (iVersion h)"
  have r: "is_response (iMsgType h)" and tid: "good_string8 ?tid" and v: "iVersion h < 0x80"
    using assms by (simp_all add: good_response_def)
  obtain ms bs where enc: "headers_pdu fld w h root
       = Some (steps (EncodeStartingHeaders (iMsgType h) ?tid (iVersion h) # ms))"
    and c: "\<And>e t. carries False e t (steps ms) (updates (response_updates h)) (concat bs)"
    and short: "length (concat bs) \<le> 4"
    using response_encoder [OF r] by blast
  have "length (?start @ concat bs) \<le> length ?tid + 11"
    using start_bytes_length [of "iMsgType h" ?tid "iVersion h"] short by simp
  moreover have "length ?tid \<le> headers_size h" by (simp add: headers_size_def)
  ultimately have "length (?start @ concat bs) \<le> headers_size h + KMMSBufferExtra" by linarith
  with encode_pdu [OF enc pdu_emits [OF c]]
  have "EncodeHeadersL fld w old root h = Inr (?start @ concat bs, KErrNone)" by simp
  moreover note pdu_decodes [OF tid v c, of e "iMsgType h" now h0 d0]
  moreover have "response_fields (updates (response_updates h) (start_update (iMsgType h) ?tid (iVersion h)
      ((headers_reset h0)\<lparr>iReceivingTime := now\<rparr>))) = response_fields h"
    by (rule response_fields_back [OF assms]) (simp_all add: headers_reset_def)
  ultimately show ?thesis by blast
qed

end
