(* ===== verification/Mms_Pdu_Forward.thy ===== *)
theory Mms_Pdu_Forward
  imports Mms_Pdu
begin

text \<open>
  The forward request: the PDU with dates, addresses, times, tokens, the message box headers and
  reply charging. \<open>forward_fields\<close> is the abstract request; encoding and decoding keep it.
\<close>

section \<open>Its headers\<close>

definition set_state :: "tint \<Rightarrow> mms_headers \<Rightarrow> mms_headers" where
  "set_state v h =
     (if iMsgType h \<noteq> KMmsMessageTypeMboxViewReq \<and> iMsgType h \<noteq> KMmsMessageTypeMboxViewConf
      then on_message_box (\<lambda>m. m\<lparr> iMmsMMState := v \<rparr>) h
      else on_view_box (insert_state v) h)"

definition set_store :: "tint \<Rightarrow> mms_headers \<Rightarrow> mms_headers" where
  "set_store v = on_message_box (\<lambda>m. m\<lparr> iMmsStore := v \<rparr>)"

lemma carries_state:
  assumes "\<And>k. k \<in> set (iKeywordArray m) \<Longrightarrow> good_keyword e h k"
  shows "carries False e t (EncodeState w h m)
     (updates [opt_token set_state (iMmsMMState m), fold (add_keyword e h) (iKeywordArray m)])
     (concat [opt_byte KMmsAssignedMMState (iMmsMMState m), concat (map (keyword_bytes h) (iKeywordArray m))])"
  unfolding EncodeState_def EncodeKeywordArrayL_def
proof (intro carries_step carries_end carries_map carries_keyword assms carries_opt)
  show "decode_value e KMmsAssignedMMState = token_header set_state"
    unfolding set_state_def [abs_def] by (simp add: decode_value_def KMmsAssignedContentType_def DecodeMMBoxStateL_def)
qed (simp_all add: set_state_def on_message_box_def on_view_box_def)

definition box_updates :: "decode_services \<Rightarrow> mms_headers \<Rightarrow> mmbox_message_headers \<Rightarrow> mms_headers \<Rightarrow> mms_headers" where
  "box_updates e h m = updates
     [opt_token set_store (iMmsStore m),
      when_upd (iMmsStore m = KMmsYes \<or> iMmsStored m = KMmsYes)
        [updates [opt_token set_state (iMmsMMState m), fold (add_keyword e h) (iKeywordArray m)]]]"

definition box_bytes :: "mms_headers \<Rightarrow> mmbox_message_headers \<Rightarrow> byte list" where
  "box_bytes h m = concat
     [opt_byte KMmsAssignedMmsStore (iMmsStore m),
      when_bytes (iMmsStore m = KMmsYes \<or> iMmsStored m = KMmsYes)
        [concat [opt_byte KMmsAssignedMMState (iMmsMMState m), concat (map (keyword_bytes h) (iKeywordArray m))]]]"

lemma carries_box:
  assumes "\<And>k. k \<in> set (iKeywordArray m) \<Longrightarrow> good_keyword e h k"
  shows "carries False e t
     (steps [EncodeOptionalByte KMmsAssignedMmsStore (iMmsStore m),
             when_enc (iMmsStore m = KMmsYes \<or> iMmsStored m = KMmsYes) [EncodeState w h m]])
     (box_updates e h m) (box_bytes h m)"
  unfolding box_updates_def box_bytes_def
  by (intro carries_step carries_end carries_when_list carries_state assms carries_opt)
    (simp_all add: decode_value_def KMmsAssignedContentType_def DecodeStoreHeaderL_def set_store_def [abs_def] on_message_box_def)

definition charging_updates :: "mms_headers \<Rightarrow> tint list \<Rightarrow> mms_headers \<Rightarrow> mms_headers" where
  "charging_updates h allowed = when_upd (iReplyCharging h \<in> set allowed)
     [opt_token (\<lambda>v h0. h0\<lparr>iReplyCharging := v\<rparr>) (iReplyCharging h),
      set_time SetReplyChargingInterval SetReplyChargingDate (ReplyChargingInterval h) (ReplyChargingDate h),
      when_upd (iReplyChargingSize h \<noteq> 0) [\<lambda>h0. h0\<lparr>iReplyChargingSize := iReplyChargingSize h\<rparr>]]"

definition charging_bytes :: "mms_headers \<Rightarrow> tint list \<Rightarrow> byte list" where
  "charging_bytes h allowed = when_bytes (iReplyCharging h \<in> set allowed)
     [opt_byte KMmsAssignedReplyCharging (iReplyCharging h),
      time_header_bytes KMmsAssignedReplyChargingDeadline (ReplyChargingInterval h) (ReplyChargingDate h),
      when_bytes (iReplyChargingSize h \<noteq> 0) [size_bytes KMmsAssignedReplyChargingSize (iReplyChargingSize h)]]"

lemma carries_charging_size:
  assumes "0 \<le> sint n"
  shows "carries False e t (EncodeReplyChargingSize n)
     (when_upd (n \<noteq> 0) [\<lambda>h0. h0\<lparr>iReplyChargingSize := n\<rparr>])
     (when_bytes (n \<noteq> 0) [size_bytes KMmsAssignedReplyChargingSize n])"
proof -
  have "carries False e t
      (steps [write_at [KMmsAssignedReplyChargingSize], EncodeLongInteger (scast n)])
      (\<lambda>h0. h0\<lparr>iReplyChargingSize := n\<rparr>) (size_bytes KMmsAssignedReplyChargingSize n)"
    by (rule carries_size [OF assms, where f = "\<lambda>v h0. h0\<lparr>iReplyChargingSize := v\<rparr>"])
      (simp_all add: decode_value_def KMmsAssignedContentType_def DecodeReplyChargingSize_def)
  then show ?thesis
    by (cases "n = 0")
      (simp_all add: EncodeReplyChargingSize_def when_upd_def when_bytes_def updates_def carries_nothing
        comp_def del: steps.simps)
qed

lemma carries_charging:
  assumes "good_times (ReplyChargingInterval h) (ReplyChargingDate h)" "0 \<le> sint (iReplyChargingSize h)"
  shows "carries False e t (EncodeReplyCharging h allowed) (charging_updates h allowed) (charging_bytes h allowed)"
  unfolding EncodeReplyCharging_def charging_updates_def charging_bytes_def
  by (intro carries_when_list carries_step carries_end carries_charging_size carries_time assms carries_opt)
    (simp_all add: decode_value_def KMmsAssignedContentType_def DecodeReplyCharging_def DecodeReplyChargingDeadlineL_def
      SetReplyChargingInterval_def SetReplyChargingDate_def)

lemma carries_location:
  assumes "good_string8 s" "t \<noteq> KMmsMessageTypeMBoxDeleteConf" "t \<noteq> KMmsMessageTypeDeleteConf"
  shows "carries False e t (EncodeHeaderAndTextString KMmsAssignedContentLocation s) (store_location s)
     (KMmsAssignedContentLocation # text_string_bytes s)"
  by (rule carries_string8 [OF assms(1), where f = store_location])
    (use assms(2,3) in \<open>auto simp: decode_value_def KMmsAssignedContentType_def DecodeContentLocationHeaderL_def reads_on_def
      store_location_def append_location_def on_message_box_def SetContentLocationL_def\<close>)

section \<open>The request\<close>

definition charging_allowed :: "tint list" where
  "charging_allowed = [KMmsReplyChargingRequested, KMmsReplyChargingRequestedTextOnly]"

definition recipient_updates :: "encode_services \<Rightarrow> decode_services \<Rightarrow> mms_headers \<Rightarrow> mms_headers \<Rightarrow> mms_headers" where
  "recipient_updates w e h = updates
     [add_recipients w e (iToArray h) EMmsTo, add_recipients w e (iCcArray h) EMmsCc,
      add_recipients w e (iBccArray h) EMmsBcc]"

definition recipients_bytes :: "encode_services \<Rightarrow> mms_headers \<Rightarrow> byte list" where
  "recipients_bytes w h = concat
     [recipient_bytes w (iToArray h) EMmsTo, recipient_bytes w (iCcArray h) EMmsCc,
      recipient_bytes w (iBccArray h) EMmsBcc]"

definition good_recipients :: "encode_services \<Rightarrow> decode_services \<Rightarrow> mms_headers \<Rightarrow> bool" where
  "good_recipients w e h \<longleftrightarrow>
     (\<forall>a \<in> set (iToArray h @ iCcArray h @ iBccArray h). a \<noteq> [] \<longrightarrow> good_address w e a)"

lemma carries_all_recipients:
  assumes "good_recipients w e h"
  shows "carries False e t (EncodeRecipients w h) (recipient_updates w e h) (recipients_bytes w h)"
  unfolding EncodeRecipients_def recipient_updates_def recipients_bytes_def
  by (intro carries_step carries_end carries_recipients)
    (use assms in \<open>auto simp: good_recipients_def\<close>)

definition forward_updates ::
  "encode_services \<Rightarrow> decode_services \<Rightarrow> mms_headers \<Rightarrow> (mms_headers \<Rightarrow> mms_headers) list" where
  "forward_updates w e h =
     [\<lambda>h0. if iDate h = 0 then h0 else h0\<lparr>iDate := iDate h\<rparr>,
      SetSenderL (received_sender w e (des_of (iSender h))),
      recipient_updates w e h,
      set_time SetExpiryInterval SetExpiryDate (ExpiryInterval h) (ExpiryDate h),
      set_time SetDeliveryTimeInterval SetDeliveryDate (DeliveryTimeInterval h) (DeliveryDate h),
      opt_token (\<lambda>v h0. h0\<lparr>iReportAllowed := v\<rparr>) (iReportAllowed h),
      opt_token (\<lambda>v h0. h0\<lparr>iDelivReport := v\<rparr>) (iDelivReport h),
      opt_token (\<lambda>v h0. h0\<lparr>iReadReply := v\<rparr>) (iReadReply h),
      when_upd (version_above h KMmsVersion11)
        [case iMmBoxMessageHeaders h of None \<Rightarrow> id | Some m \<Rightarrow> box_updates e h m],
      when_upd (version_above h KMmsVersion12) [charging_updates h charging_allowed],
      store_location (des_of (iContentLocation h))]"

definition forward_bytes :: "encode_services \<Rightarrow> mms_headers \<Rightarrow> byte list list" where
  "forward_bytes w h =
     [date_bytes (iDate h),
      sender_bytes w (des_of (iSender h)),
      recipients_bytes w h,
      time_header_bytes KMmsAssignedExpiry (ExpiryInterval h) (ExpiryDate h),
      time_header_bytes KMmsAssignedDeliveryTime (DeliveryTimeInterval h) (DeliveryDate h),
      opt_byte KMmsAssignedReportAllowed (iReportAllowed h),
      opt_byte KMmsAssignedDeliveryReport (iDelivReport h),
      opt_byte KMmsAssignedReadReply (iReadReply h),
      when_bytes (version_above h KMmsVersion11)
        [case iMmBoxMessageHeaders h of None \<Rightarrow> [] | Some m \<Rightarrow> box_bytes h m],
      when_bytes (version_above h KMmsVersion12) [charging_bytes h charging_allowed],
      KMmsAssignedContentLocation # text_string_bytes (des_of (iContentLocation h))]"

text \<open>A request that can be sent as it is: plain texts, dates and sizes that are not negative.\<close>

definition plain_forward :: "encode_services \<Rightarrow> decode_services \<Rightarrow> mms_headers \<Rightarrow> bool" where
  "plain_forward w e h \<longleftrightarrow>
     iMsgType h = KMmsMessageTypeForwardReq \<and> iVersion h < 0x80
     \<and> good_string8 (des_of (iTID h)) \<and> good_string8 (des_of (iContentLocation h))
     \<and> 0 \<le> sint (iDate h) \<and> sender_ok w e (des_of (iSender h)) \<and> good_recipients w e h
     \<and> good_times (ExpiryInterval h) (ExpiryDate h)
     \<and> good_times (DeliveryTimeInterval h) (DeliveryDate h)
     \<and> good_times (ReplyChargingInterval h) (ReplyChargingDate h) \<and> 0 \<le> sint (iReplyChargingSize h)
     \<and> (\<forall>m k. iMmBoxMessageHeaders h = Some m \<longrightarrow> k \<in> set (iKeywordArray m) \<longrightarrow> good_keyword e h k)"

lemma carries_forward:
  assumes "plain_forward w e h" "t = KMmsMessageTypeForwardReq"
  obtains ms where "EncodeForwardRequestL w h
      = steps (EncodeStartingHeaders KMmsMessageTypeForwardReq (des_of (iTID h)) (iVersion h) # ms)"
    "carries False e t (steps ms) (updates (forward_updates w e h)) (concat (forward_bytes w h))"
proof
  note p = assms(1) [unfolded plain_forward_def]
  have nonempty: "concat (xs @ [KMmsAssignedContentLocation # ys]) \<noteq> []" for xs ys by simp
  show "carries False e t (steps
       [EncodeDate (iDate h),
        EncodeSenderL w (des_of (iSender h)),
        EncodeRecipients w h,
        EncodeOptionalIntervalOrDate KMmsAssignedExpiry (ExpiryInterval h) (ExpiryDate h),
        EncodeOptionalIntervalOrDate KMmsAssignedDeliveryTime (DeliveryTimeInterval h) (DeliveryDate h),
        EncodeOptionalByte KMmsAssignedReportAllowed (iReportAllowed h),
        EncodeOptionalByte KMmsAssignedDeliveryReport (iDelivReport h),
        EncodeOptionalByte KMmsAssignedReadReply (iReadReply h),
        when_enc (version_above h KMmsVersion11)
          [on_box h (\<lambda>m. steps
             [EncodeOptionalByte KMmsAssignedMmsStore (iMmsStore m),
              when_enc (iMmsStore m = KMmsYes \<or> iMmsStored m = KMmsYes) [EncodeState w h m]])],
        when_enc (version_above h KMmsVersion12)
          [EncodeReplyCharging h [KMmsReplyChargingRequested, KMmsReplyChargingRequestedTextOnly]],
        EncodeHeaderAndTextString KMmsAssignedContentLocation (des_of (iContentLocation h))])
     (updates (forward_updates w e h)) (concat (forward_bytes w h))"
    unfolding forward_updates_def forward_bytes_def charging_allowed_def [symmetric]
    by (rule carries_step_more [OF carries_date], simp add: p,
        rule carries_step_more [OF carries_sender], simp add: p,
        intro carries_step carries_end carries_when_list carries_on_box carries_box carries_charging
          carries_location carries_time carries_opt carries_all_recipients)
      (use p assms(2) in \<open>simp_all add: decode_value_def KMmsAssignedContentType_def DecodeExpiryL_def DecodeDeliveryTimeL_def
        DecodeReportAllowed_def DecodeDeliveryReportHeader_def DecodeReadReply_def
        SetExpiryInterval_def SetExpiryDate_def SetDeliveryTimeInterval_def SetDeliveryDate_def\<close>)
qed (simp add: EncodeForwardRequestL_def)

end
