(* ===== verification/Mms_Pdu_Refine.thy ===== *)
theory Mms_Pdu_Refine
  imports Mms_Pdu_Forward
begin

text \<open>
  The abstract forward request, and the refinement: the headers that come out of the decoder denote
  the same request as the headers that went into the encoder.
\<close>

section \<open>The abstract request\<close>

record forward_request =
  fwTransaction :: string8
  fwVersion :: char16
  fwDate :: tint64
  fwSender :: string16
  fwTo :: "string16 list"
  fwCc :: "string16 list"
  fwBcc :: "string16 list"
  fwExpiry :: "tint \<times> tint64"
  fwDelivery :: "tint \<times> tint64"
  fwReports :: "tint \<times> tint \<times> tint"
  fwStore :: "tint \<times> tint"
  fwCharging :: "(tint \<times> (tint \<times> tint64) \<times> tint) option"
  fwLocation :: string8

definition forward_of :: "mms_headers \<Rightarrow> forward_request" where
  "forward_of h =
     \<lparr> fwTransaction = des_of (iTID h), fwVersion = iVersion h, fwDate = iDate h,
       fwSender = des_of (iSender h), fwTo = iToArray h, fwCc = iCcArray h, fwBcc = iBccArray h,
       fwExpiry = (ExpiryInterval h, ExpiryDate h),
       fwDelivery = (DeliveryTimeInterval h, DeliveryDate h),
       fwReports = (iReportAllowed h, iDelivReport h, iReadReply h),
       fwStore = (if version_above h KMmsVersion11
                  then (iMmsStore (box_of h), iMmsMMState (box_of h)) else (0, 0)),
       fwCharging = (if version_above h KMmsVersion12 \<and> iReplyCharging h \<in> set charging_allowed
                     then Some (iReplyCharging h, (ReplyChargingInterval h, ReplyChargingDate h),
                                iReplyChargingSize h)
                     else None),
       fwLocation = des_of (iContentLocation h) \<rparr>"

text \<open>A request in the form the receiver keeps: addresses without alias, no empty recipient, tokens
  that are bytes, and a state only for a message that is stored.\<close>

definition canonical_forward :: "encode_services \<Rightarrow> decode_services \<Rightarrow> mms_headers \<Rightarrow> bool" where
  "canonical_forward w e h \<longleftrightarrow>
     plain_forward w e h
     \<and> length (des_of (iTID h)) \<le> KMaxHeaderStringLength
     \<and> length (des_of (iContentLocation h)) \<le> KMaxHeaderStringLength
     \<and> received_sender w e (des_of (iSender h)) = des_of (iSender h)
     \<and> (\<forall>a \<in> set (iToArray h @ iCcArray h @ iBccArray h). a \<noteq> [] \<and> received_address w e a = a)
     \<and> (\<forall>v \<in> {iReportAllowed h, iDelivReport h, iReadReply h, iMmsStore (box_of h), iMmsMMState (box_of h)}.
          v = 0 \<or> good_token v)
     \<and> (iMmsMMState (box_of h) \<noteq> 0 \<longrightarrow> iMmsStore (box_of h) = KMmsYes \<or> iMmsStored (box_of h) = KMmsYes)"

section \<open>The updates in normal form\<close>

named_theorems forward_nf \<open>each update as a record update of the members it sets\<close>

lemma date_nf [forward_nf]:
  "(if c then h0 else h0\<lparr>iDate := x\<rparr>) = h0\<lparr>iDate := (if c then iDate h0 else x)\<rparr>"
  by simp

lemma opt_token_nf [forward_nf]:
  "opt_token (\<lambda>v h0. h0\<lparr>iReportAllowed := v\<rparr>) v h0
     = h0\<lparr>iReportAllowed := (if v = 0 then iReportAllowed h0 else token_of v)\<rparr>"
  "opt_token (\<lambda>v h0. h0\<lparr>iDelivReport := v\<rparr>) v h0
     = h0\<lparr>iDelivReport := (if v = 0 then iDelivReport h0 else token_of v)\<rparr>"
  "opt_token (\<lambda>v h0. h0\<lparr>iReadReply := v\<rparr>) v h0
     = h0\<lparr>iReadReply := (if v = 0 then iReadReply h0 else token_of v)\<rparr>"
  "opt_token (\<lambda>v h0. h0\<lparr>iReplyCharging := v\<rparr>) v h0
     = h0\<lparr>iReplyCharging := (if v = 0 then iReplyCharging h0 else token_of v)\<rparr>"
  by (simp_all add: opt_token_def)

lemma set_time_nf [forward_nf]:
  "set_time SetExpiryInterval SetExpiryDate i t h0 =
     h0\<lparr>iExpiry := (if i = 0 \<and> t = 0 then iExpiry h0 else if t \<noteq> 0 then t else scast i),
        iExpiryAbs := (if i = 0 \<and> t = 0 then iExpiryAbs h0 else t \<noteq> 0)\<rparr>"
  "set_time SetDeliveryTimeInterval SetDeliveryDate i t h0 =
     h0\<lparr>iDelivery := (if i = 0 \<and> t = 0 then iDelivery h0 else if t \<noteq> 0 then t else scast i),
        iDeliveryAbs := (if i = 0 \<and> t = 0 then iDeliveryAbs h0 else t \<noteq> 0)\<rparr>"
  "set_time SetReplyChargingInterval SetReplyChargingDate i t h0 =
     h0\<lparr>iReplyChargingDeadline := (if i = 0 \<and> t = 0 then iReplyChargingDeadline h0 else if t \<noteq> 0 then t else scast i),
        iReplyChargingAbs := (if i = 0 \<and> t = 0 then iReplyChargingAbs h0 else t \<noteq> 0)\<rparr>"
  by (simp_all add: set_time_def SetExpiryInterval_def SetExpiryDate_def SetDeliveryTimeInterval_def
      SetDeliveryDate_def SetReplyChargingInterval_def SetReplyChargingDate_def)

lemma add_recipients_nf [forward_nf]:
  assumes "\<forall>a \<in> set xs. a \<noteq> [] \<and> received_address w e a = a"
  shows "add_recipients w e xs EMmsTo h0 = h0\<lparr>iToArray := iToArray h0 @ xs\<rparr>"
    "add_recipients w e xs EMmsCc h0 = h0\<lparr>iCcArray := iCcArray h0 @ xs\<rparr>"
    "add_recipients w e xs EMmsBcc h0 = h0\<lparr>iBccArray := iBccArray h0 @ xs\<rparr>"
  using assms
  by (induction xs arbitrary: h0) (simp_all add: add_recipients_def AddTypedAddresseeL_def)

section \<open>The message box\<close>

definition box_pair :: "mmbox_message_headers option \<Rightarrow> tint \<times> tint" where
  "box_pair b = (case b of None \<Rightarrow> (0, 0) | Some m \<Rightarrow> (iMmsStore m, iMmsMMState m))"

lemma box_pair_of: "box_pair (iMmBoxMessageHeaders h) = (iMmsStore (box_of h), iMmsMMState (box_of h))"
  by (simp add: box_pair_def box_of_def mh_new_def split: option.split)

text \<open>An update that changes nothing but the box, and the store and state values by \<open>s\<close>.\<close>

definition box_only :: "(mms_headers \<Rightarrow> mms_headers) \<Rightarrow> (tint \<times> tint \<Rightarrow> tint \<times> tint) \<Rightarrow> bool" where
  "box_only f s \<longleftrightarrow> (\<forall>h. iMsgType h = KMmsMessageTypeForwardReq \<longrightarrow>
     (\<exists>b. f h = h\<lparr>iMmBoxMessageHeaders := b\<rparr> \<and> box_pair b = s (box_pair (iMmBoxMessageHeaders h))))"

lemma box_onlyD:
  fixes h :: mms_headers
  assumes "box_only f s" "iMsgType h = KMmsMessageTypeForwardReq"
  obtains b where "f h = h\<lparr>iMmBoxMessageHeaders := b\<rparr>" "box_pair b = s (box_pair (iMmBoxMessageHeaders h))"
  using assms unfolding box_only_def by blast

lemma box_only_same: "box_only (\<lambda>h. h) (\<lambda>p. p)"
  unfolding box_only_def
proof (intro allI impI)
  fix h :: mms_headers
  have "h = h\<lparr>iMmBoxMessageHeaders := iMmBoxMessageHeaders h\<rparr>" by simp
  then show "\<exists>b. h = h\<lparr>iMmBoxMessageHeaders := b\<rparr> \<and> box_pair b = box_pair (iMmBoxMessageHeaders h)"
    by blast
qed

lemma box_only_id: "box_only id id"
  using box_only_same by (simp add: id_def)

lemma box_only_comp:
  assumes "box_only f s" "box_only g r"
  shows "box_only (g \<circ> f) (r \<circ> s)"
  unfolding box_only_def
proof (intro allI impI)
  fix h :: mms_headers assume h: "iMsgType h = KMmsMessageTypeForwardReq"
  obtain b where b: "f h = h\<lparr>iMmBoxMessageHeaders := b\<rparr>" "box_pair b = s (box_pair (iMmBoxMessageHeaders h))"
    using box_onlyD [OF assms(1) h] .
  have "iMsgType (f h) = KMmsMessageTypeForwardReq" using b(1) h by simp
  from box_onlyD [OF assms(2) this] obtain c
    where "g (f h) = (f h)\<lparr>iMmBoxMessageHeaders := c\<rparr>" "box_pair c = r (box_pair (iMmBoxMessageHeaders (f h)))" .
  with b show "\<exists>b. (g \<circ> f) h = h\<lparr>iMmBoxMessageHeaders := b\<rparr>
      \<and> box_pair b = (r \<circ> s) (box_pair (iMmBoxMessageHeaders h))" by auto
qed

lemma box_only_end: "box_only (updates []) id"
  using box_only_same by (simp add: updates_def id_def)

lemma box_only_step:
  assumes "box_only f s" "box_only (updates fs) r"
  shows "box_only (updates (f # fs)) (r \<circ> s)"
  using box_only_comp [OF assms] by (simp add: updates_def comp_def)

lemma box_only_on_box:
  assumes "\<And>m. box_pair (Some (f m)) = s (box_pair (Some m))"
  shows "box_only (on_message_box f) s"
proof -
  have "box_pair (Some mh_new) = box_pair None" by (simp add: box_pair_def mh_new_def)
  then show ?thesis
    using assms unfolding box_only_def on_message_box_def by (metis option.case_eq_if option.collapse)
qed

lemma box_only_keyword: "box_only (add_keyword e h k) id"
proof (cases "des_of (iKeyword k) = []")
  case True
  then show ?thesis using box_only_same by (simp add: add_keyword_def Let_def id_def)
next
  case False
  then show ?thesis
    by (auto simp: add_keyword_def Let_def mh_append_keyword_def box_pair_def
        intro!: box_only_on_box split: option.split)
qed

lemma box_only_keywords: "box_only (fold (add_keyword e h) ks) id"
proof (induction ks)
  case Nil
  show ?case using box_only_same by (simp add: id_def)
next
  case (Cons k ks)
  show ?case
    using box_only_comp [OF box_only_keyword [of e h k] Cons] by (simp add: id_def comp_def)
qed

lemma box_only_store: "box_only (opt_token set_store v) (\<lambda>(a, b). (if v = 0 then a else token_of v, b))"
proof (cases "v = 0")
  case True
  then show ?thesis using box_only_same by (simp add: opt_token_def id_def)
next
  case False
  then show ?thesis
    by (auto simp: opt_token_def set_store_def box_pair_def intro!: box_only_on_box)
qed

lemma box_only_state: "box_only (opt_token set_state v) (\<lambda>(a, b). (a, if v = 0 then b else token_of v))"
proof (cases "v = 0")
  case True
  then show ?thesis using box_only_same by (simp add: opt_token_def id_def)
next
  case False
  have "box_only (on_message_box (\<lambda>m. m\<lparr>iMmsMMState := token_of v\<rparr>)) (\<lambda>(a, b). (a, token_of v))"
    by (rule box_only_on_box) (simp add: box_pair_def)
  moreover have "set_state (token_of v) h = on_message_box (\<lambda>m. m\<lparr>iMmsMMState := token_of v\<rparr>) h"
    if "iMsgType h = KMmsMessageTypeForwardReq" for h
    using that by (simp add: set_state_def)
  ultimately show ?thesis
    using False by (simp add: box_only_def opt_token_def)
qed

lemma box_only_when:
  "(c \<Longrightarrow> box_only (updates fs) s) \<Longrightarrow> box_only (when_upd c fs) (if c then s else id)"
  using box_only_id by (simp add: when_upd_def)

lemma box_only_cong: "box_only f s \<Longrightarrow> (\<And>a b. s (a, b) = r (a, b)) \<Longrightarrow> box_only f r"
  unfolding box_only_def by (metis surj_pair)

lemma box_only_box:
  "box_only (box_updates e h m) (\<lambda>(a, b).
     (if iMmsStore m = 0 then a else token_of (iMmsStore m),
      if (iMmsStore m = KMmsYes \<or> iMmsStored m = KMmsYes) \<and> iMmsMMState m \<noteq> 0
      then token_of (iMmsMMState m) else b))"
proof -
  note inner = box_only_step [OF box_only_state box_only_step [OF box_only_keywords box_only_end]]
  note whole = box_only_step [OF box_only_store box_only_step
      [OF box_only_when [OF box_only_step [OF inner box_only_end]] box_only_end]]
  show ?thesis
    unfolding box_updates_def by (rule box_only_cong [OF whole]) simp
qed

section \<open>The refinement\<close>

definition sent_pair :: "mms_headers \<Rightarrow> tint \<times> tint" where
  "sent_pair h = (if version_above h KMmsVersion11
     then (iMmsStore (box_of h), iMmsMMState (box_of h)) else (0, 0))"

text \<open>The step of the box, from headers that have none.\<close>

lemma box_step:
  assumes can: "canonical_forward w e h"
    and h0: "iMsgType h0 = KMmsMessageTypeForwardReq" "iMmBoxMessageHeaders h0 = None"
  obtains b where
    "when_upd (version_above h KMmsVersion11)
       [case iMmBoxMessageHeaders h of None \<Rightarrow> id | Some m \<Rightarrow> box_updates e h m] h0
     = h0\<lparr>iMmBoxMessageHeaders := b\<rparr>"
    "box_pair b = sent_pair h"
proof (cases "version_above h KMmsVersion11")
  case False
  have "h0 = h0\<lparr>iMmBoxMessageHeaders := None\<rparr>" using h0(2) by simp
  with False that [of None] show ?thesis by (simp add: when_upd_def box_pair_def sent_pair_def)
next
  case ver: True
  show ?thesis
  proof (cases "iMmBoxMessageHeaders h")
    case None
    have "h0 = h0\<lparr>iMmBoxMessageHeaders := None\<rparr>" using h0(2) by simp
    with None ver that [of None] show ?thesis
      by (simp add: when_upd_def box_pair_def sent_pair_def box_of_def mh_new_def)
  next
    case (Some m)
    then have m: "box_of h = m" by (simp add: box_of_def)
    have tok: "iMmsStore m = 0 \<or> good_token (iMmsStore m)" "iMmsMMState m = 0 \<or> good_token (iMmsMMState m)"
      and sent: "iMmsMMState m \<noteq> 0 \<longrightarrow> iMmsStore m = KMmsYes \<or> iMmsStored m = KMmsYes"
      using can by (auto simp: canonical_forward_def m)
    from box_onlyD [OF box_only_box h0(1), of e h m] obtain b where
      b: "box_updates e h m h0 = h0\<lparr>iMmBoxMessageHeaders := b\<rparr>" and
      p: "box_pair b = (case box_pair (iMmBoxMessageHeaders h0) of (a, b) \<Rightarrow>
        (if iMmsStore m = 0 then a else token_of (iMmsStore m),
         if (iMmsStore m = KMmsYes \<or> iMmsStored m = KMmsYes) \<and> iMmsMMState m \<noteq> 0
         then token_of (iMmsMMState m) else b))" .
    have "box_pair b = sent_pair h"
      using p tok sent ver by (auto simp: h0(2) box_pair_def sent_pair_def m token_of_good)
    with b Some ver that show ?thesis by (simp add: when_upd_def)
  qed
qed

lemma charging_nf:
  "when_upd c [charging_updates h allowed] h0 =
     (if c \<and> iReplyCharging h \<in> set allowed then
        h0\<lparr>iReplyCharging := (if iReplyCharging h = 0 then iReplyCharging h0 else token_of (iReplyCharging h)),
           iReplyChargingDeadline :=
             (if ReplyChargingInterval h = 0 \<and> ReplyChargingDate h = 0 then iReplyChargingDeadline h0
              else if ReplyChargingDate h \<noteq> 0 then ReplyChargingDate h else scast (ReplyChargingInterval h)),
           iReplyChargingAbs :=
             (if ReplyChargingInterval h = 0 \<and> ReplyChargingDate h = 0 then iReplyChargingAbs h0
              else ReplyChargingDate h \<noteq> 0),
           iReplyChargingSize := (if iReplyChargingSize h = 0 then iReplyChargingSize h0 else iReplyChargingSize h)\<rparr>
      else h0)"
  by (simp add: when_upd_def charging_updates_def forward_nf)

lemma forward_updates_split:
  "updates (forward_updates w e h) h0 =
     store_location (des_of (iContentLocation h))
       (when_upd (version_above h KMmsVersion12) [charging_updates h charging_allowed]
         (when_upd (version_above h KMmsVersion11)
           [case iMmBoxMessageHeaders h of None \<Rightarrow> id | Some m \<Rightarrow> box_updates e h m]
           (updates (take 8 (forward_updates w e h)) h0)))"
  by (simp add: forward_updates_def)

lemma forward_first:
  assumes can: "canonical_forward w e h"
  shows "updates (take 8 (forward_updates w e h)) h0 =
    h0\<lparr>iDate := (if iDate h = 0 then iDate h0 else iDate h),
       iSender := Some (des_of (iSender h)),
       iToArray := iToArray h0 @ iToArray h, iCcArray := iCcArray h0 @ iCcArray h,
       iBccArray := iBccArray h0 @ iBccArray h,
       iExpiry := (if ExpiryInterval h = 0 \<and> ExpiryDate h = 0 then iExpiry h0
                   else if ExpiryDate h \<noteq> 0 then ExpiryDate h else scast (ExpiryInterval h)),
       iExpiryAbs := (if ExpiryInterval h = 0 \<and> ExpiryDate h = 0 then iExpiryAbs h0 else ExpiryDate h \<noteq> 0),
       iDelivery := (if DeliveryTimeInterval h = 0 \<and> DeliveryDate h = 0 then iDelivery h0
                     else if DeliveryDate h \<noteq> 0 then DeliveryDate h else scast (DeliveryTimeInterval h)),
       iDeliveryAbs := (if DeliveryTimeInterval h = 0 \<and> DeliveryDate h = 0 then iDeliveryAbs h0
                        else DeliveryDate h \<noteq> 0),
       iReportAllowed := (if iReportAllowed h = 0 then iReportAllowed h0 else token_of (iReportAllowed h)),
       iDelivReport := (if iDelivReport h = 0 then iDelivReport h0 else token_of (iDelivReport h)),
       iReadReply := (if iReadReply h = 0 then iReadReply h0 else token_of (iReadReply h))\<rparr>"
proof -
  have r: "\<forall>a \<in> set (iToArray h). a \<noteq> [] \<and> received_address w e a = a"
    "\<forall>a \<in> set (iCcArray h). a \<noteq> [] \<and> received_address w e a = a"
    "\<forall>a \<in> set (iBccArray h). a \<noteq> [] \<and> received_address w e a = a"
    and s: "received_sender w e (des_of (iSender h)) = des_of (iSender h)"
    using can by (auto simp: canonical_forward_def)
  show ?thesis
    using r s by (simp add: forward_updates_def recipient_updates_def SetSenderL_def forward_nf)
qed

section \<open>The refinement\<close>

lemma time_back:
  "(if i = 0 \<and> t = 0 then 0 else if (t :: tint64) \<noteq> 0 then t else scast (i :: tint)) = (if t \<noteq> 0 then t else scast i)"
  by simp

lemma interval_date:
  "ExpiryInterval h = 0 \<or> ExpiryDate h = 0"
  "DeliveryTimeInterval h = 0 \<or> DeliveryDate h = 0"
  "ReplyChargingInterval h = 0 \<or> ReplyChargingDate h = 0"
  by (simp_all add: ExpiryInterval_def ExpiryDate_def DeliveryTimeInterval_def DeliveryDate_def
      ReplyChargingInterval_def ReplyChargingDate_def)

lemma charging_keeps:
  fixes h0 :: mms_headers and h :: mms_headers and c :: bool and allowed :: "tint list"
  defines "h1 \<equiv> when_upd c [charging_updates h allowed] h0"
  shows "iMsgType h1 = iMsgType h0" "iTID h1 = iTID h0" "iVersion h1 = iVersion h0" "iDate h1 = iDate h0"
    "iSender h1 = iSender h0" "iToArray h1 = iToArray h0" "iCcArray h1 = iCcArray h0"
    "iBccArray h1 = iBccArray h0" "iExpiry h1 = iExpiry h0" "iExpiryAbs h1 = iExpiryAbs h0"
    "iDelivery h1 = iDelivery h0" "iDeliveryAbs h1 = iDeliveryAbs h0" "iReportAllowed h1 = iReportAllowed h0"
    "iDelivReport h1 = iDelivReport h0" "iReadReply h1 = iReadReply h0"
    "iMmBoxMessageHeaders h1 = iMmBoxMessageHeaders h0" "iContentLocation h1 = iContentLocation h0"
  by (simp_all add: h1_def charging_nf)

lemma charging_back:
  assumes "iReplyCharging h0 = 0" "iReplyChargingDeadline h0 = 0" "\<not> iReplyChargingAbs h0"
    "iReplyChargingSize h0 = 0"
  shows "(let h1 = when_upd c [charging_updates h charging_allowed] h0
     in if c \<and> iReplyCharging h1 \<in> set charging_allowed
        then Some (iReplyCharging h1, (ReplyChargingInterval h1, ReplyChargingDate h1), iReplyChargingSize h1)
        else None)
    = (if c \<and> iReplyCharging h \<in> set charging_allowed
       then Some (iReplyCharging h, (ReplyChargingInterval h, ReplyChargingDate h), iReplyChargingSize h)
       else None)"
proof (cases "c \<and> iReplyCharging h \<in> set charging_allowed")
  case True
  then have t: "token_of (iReplyCharging h) = iReplyCharging h" "iReplyCharging h \<noteq> 0"
    by (auto simp: charging_allowed_def good_token_def intro!: token_of_good)
  show ?thesis
    using True t assms interval_date(3) [of h] unfolding charging_nf Let_def
    by (auto simp: ReplyChargingInterval_def [of "h0\<lparr>iReplyCharging := x, iReplyChargingDeadline := y,
          iReplyChargingAbs := z, iReplyChargingSize := u\<rparr>" for x y z u] ReplyChargingDate_def [of "h0\<lparr>iReplyCharging := x, iReplyChargingDeadline := y,
          iReplyChargingAbs := z, iReplyChargingSize := u\<rparr>" for x y z u] scast_back)
next
  case False
  then show ?thesis using assms unfolding charging_nf by (auto simp: charging_allowed_def)
qed

lemma store_location_first:
  "iMsgType h = KMmsMessageTypeForwardReq \<Longrightarrow> iContentLocation h = None \<Longrightarrow>
   store_location s h = SetContentLocationL s h"
  by (simp add: store_location_def des_of_def)

lemma forward_of_back:
  assumes can: "canonical_forward w e h"
    and h0: "iTID h0 = None" "iDate h0 = 0" "iToArray h0 = []" "iCcArray h0 = []" "iBccArray h0 = []"
      "iExpiry h0 = 0" "\<not> iExpiryAbs h0" "iDelivery h0 = 0" "\<not> iDeliveryAbs h0"
      "iReportAllowed h0 = 0" "iDelivReport h0 = 0" "iReadReply h0 = 0"
      "iMmBoxMessageHeaders h0 = None" "iReplyCharging h0 = 0" "iReplyChargingDeadline h0 = 0"
      "\<not> iReplyChargingAbs h0" "iReplyChargingSize h0 = 0" "iContentLocation h0 = None"
  shows "forward_of (updates (forward_updates w e h)
     (start_update KMmsMessageTypeForwardReq (des_of (iTID h)) (iVersion h) h0)) = forward_of h"
proof -
  let ?s = "start_update KMmsMessageTypeForwardReq (des_of (iTID h)) (iVersion h) h0"
  define h8 where "h8 = updates (take 8 (forward_updates w e h)) ?s"
  have ty: "good_token KMmsMessageTypeForwardReq" by (simp add: good_token_def)
  have lens: "length (des_of (iTID h)) \<le> KMaxHeaderStringLength"
    "length (des_of (iContentLocation h)) \<le> KMaxHeaderStringLength"
    using can by (simp_all add: canonical_forward_def)
  note start = start_update_fields [OF lens(1) ty]
  have tok: "iReportAllowed h = 0 \<or> good_token (iReportAllowed h)"
    "iDelivReport h = 0 \<or> good_token (iDelivReport h)" "iReadReply h = 0 \<or> good_token (iReadReply h)"
    using can by (auto simp: canonical_forward_def)
  have report: "token_of (iReportAllowed h) = iReportAllowed h" if "iReportAllowed h \<noteq> 0"
    using tok that by (simp add: token_of_good)
  have delivery: "token_of (iDelivReport h) = iDelivReport h" if "iDelivReport h \<noteq> 0"
    using tok that by (simp add: token_of_good)
  have reply: "token_of (iReadReply h) = iReadReply h" if "iReadReply h \<noteq> 0"
    using tok that by (simp add: token_of_good)
  have charging: "token_of (iReplyCharging h) = iReplyCharging h" "iReplyCharging h \<noteq> 0"
    if "iReplyCharging h \<in> set charging_allowed"
    using that by (auto simp: charging_allowed_def intro!: token_of_good simp: good_token_def)
  note h8 = h8_def [unfolded forward_first [OF can]]
  have "iMsgType h8 = KMmsMessageTypeForwardReq" "iMmBoxMessageHeaders h8 = None"
    unfolding h8 using start(1) h0 by simp_all
  from box_step [OF can this] obtain b where box: "when_upd (version_above h KMmsVersion11)
       [case iMmBoxMessageHeaders h of None \<Rightarrow> id | Some m \<Rightarrow> box_updates e h m] h8
     = h8\<lparr>iMmBoxMessageHeaders := b\<rparr>" and p: "box_pair b = sent_pair h" .
  have pair: "box_of (h1\<lparr>iMmBoxMessageHeaders := b\<rparr>) = (case b of None \<Rightarrow> mh_new | Some m \<Rightarrow> m)" for h1 :: mms_headers
    by (simp add: box_of_def)
  have store: "(iMmsStore (case b of None \<Rightarrow> mh_new | Some m \<Rightarrow> m), iMmsMMState (case b of None \<Rightarrow> mh_new | Some m \<Rightarrow> m))
      = sent_pair h"
    using p by (simp add: box_pair_def mh_new_def split: option.splits)
  let ?h10 = "when_upd (version_above h KMmsVersion12) [charging_updates h charging_allowed] (h8\<lparr>iMmBoxMessageHeaders := b\<rparr>)"
  have loc: "store_location (des_of (iContentLocation h)) ?h10
      = SetContentLocationL (des_of (iContentLocation h)) ?h10"
    by (rule store_location_first) (use start(1) h0 in \<open>simp_all add: charging_keeps h8\<close>)
  have final: "updates (forward_updates w e h) ?s = SetContentLocationL (des_of (iContentLocation h)) ?h10"
    unfolding forward_updates_split h8_def [symmetric] box loc ..
  define h11 where "h11 = SetContentLocationL (des_of (iContentLocation h)) ?h10"
  note h11 = h11_def [unfolded SetContentLocationL_def]
  have ver: "version_above h11 v = version_above h v" for v
    by (simp add: version_above_def h11 charging_keeps h8 start(2))
  have fields: "iTID h11 = iTID ?s" "iDate h11 = iDate h" "iSender h11 = Some (des_of (iSender h))"
    "iToArray h11 = iToArray h" "iCcArray h11 = iCcArray h" "iBccArray h11 = iBccArray h"
    "iReportAllowed h11 = iReportAllowed h" "iDelivReport h11 = iDelivReport h" "iReadReply h11 = iReadReply h"
    "iMmBoxMessageHeaders h11 = b"
    using report delivery reply h0 by (simp_all add: h11 charging_keeps h8)
  have expiry: "ExpiryInterval h11 = ExpiryInterval h \<and> ExpiryDate h11 = ExpiryDate h"
    using interval_date(1) [of h] h0
    by (auto simp: h11 charging_keeps h8 ExpiryInterval_def [of "x\<lparr>iContentLocation := y\<rparr>" for x y]
        ExpiryDate_def [of "x\<lparr>iContentLocation := y\<rparr>" for x y] scast_back)
  have deliv: "DeliveryTimeInterval h11 = DeliveryTimeInterval h \<and> DeliveryDate h11 = DeliveryDate h"
    using interval_date(2) [of h] h0
    by (auto simp: h11 charging_keeps h8 DeliveryTimeInterval_def [of "x\<lparr>iContentLocation := y\<rparr>" for x y]
        DeliveryDate_def [of "x\<lparr>iContentLocation := y\<rparr>" for x y] scast_back)
  have stored: "(if version_above h KMmsVersion11 then (iMmsStore (box_of h11), iMmsMMState (box_of h11)) else (0, 0))
      = (if version_above h KMmsVersion11 then (iMmsStore (box_of h), iMmsMMState (box_of h)) else (0, 0))"
    using store by (simp add: box_of_def [of h11] fields sent_pair_def split: if_splits)
  have "iReplyCharging (h8\<lparr>iMmBoxMessageHeaders := b\<rparr>) = 0"
    "iReplyChargingDeadline (h8\<lparr>iMmBoxMessageHeaders := b\<rparr>) = 0"
    "\<not> iReplyChargingAbs (h8\<lparr>iMmBoxMessageHeaders := b\<rparr>)"
    "iReplyChargingSize (h8\<lparr>iMmBoxMessageHeaders := b\<rparr>) = 0"
    using h0 by (simp_all add: h8)
  note cb = charging_back [OF this, of "version_above h KMmsVersion12" h]
  have acc: "iReplyCharging h11 = iReplyCharging ?h10" "iReplyChargingSize h11 = iReplyChargingSize ?h10"
    "ReplyChargingInterval h11 = ReplyChargingInterval ?h10" "ReplyChargingDate h11 = ReplyChargingDate ?h10"
    by (simp_all add: h11 ReplyChargingInterval_def ReplyChargingDate_def)
  have charge: "(if version_above h KMmsVersion12 \<and> iReplyCharging h11 \<in> set charging_allowed
      then Some (iReplyCharging h11, (ReplyChargingInterval h11, ReplyChargingDate h11), iReplyChargingSize h11)
      else None)
    = (if version_above h KMmsVersion12 \<and> iReplyCharging h \<in> set charging_allowed
       then Some (iReplyCharging h, (ReplyChargingInterval h, ReplyChargingDate h), iReplyChargingSize h)
       else None)"
    unfolding acc by (rule cb [unfolded Let_def])
  have first: "des_of (iTID h11) = des_of (iTID h)" "iVersion h11 = iVersion h"
    "des_of (iContentLocation h11) = des_of (iContentLocation h)"
    using start(2) start(3) [OF h0(1)] lens(2)
    by (simp_all add: fields(1), simp_all add: h11 charging_keeps h8 des_of_def)
  have "forward_of h11 = forward_of h"
    unfolding forward_of_def ver stored charge first
    using fields expiry deliv by (simp add: des_of_def)
  then show ?thesis unfolding final h11_def .
qed

end
