(* ===== verification/Mms_Encode_Props.thy ===== *)
theory Mms_Encode_Props
  imports Mms_Pdu_Refine Mms_Decode_Props Mail_Props
begin

text \<open>
  The value length of the sender header, and the buffer of a forward request to many short numbers.
\<close>

section \<open>Converted texts\<close>

definition converted_bytes :: "string8 \<Rightarrow> byte list" where
  "converted_bytes u =
     (let q = (0x80 \<le> hd u) in
      value_length_bytes (of_nat (length u + 2 + (if q then 1 else 0))) @ [KMmsUtf8 OR 0x80]
        @ (if q then [127] else []) @ u @ [0])"

lemma emits_clear_error [emit_rules]: "emits (set_encode_error KErrNone) []"
  by (auto simp: emits_def set_encode_error_def enc_ok_def written_def)

lemma emits_converted:
  assumes "\<not> IsStringSafe s" "to_utf8 w s = (KErrNone, u)" "u \<noteq> []"
  shows "emits (EncodeTextStringL w s) (converted_bytes u)"
proof -
  let ?q = "0x80 \<le> hd u"
  have "emits (steps [set_encode_error KErrNone, EncodeValueLength (of_nat (length u + 2 + (if ?q then 1 else 0))),
      write_at [KMmsUtf8 OR 0x80], if ?q then write_at [127] else nothing, write_at u, write_at [0]])
    ([] @ value_length_bytes (of_nat (length u + 2 + (if ?q then 1 else 0))) @ [KMmsUtf8 OR 0x80]
      @ (if ?q then [127] else []) @ u @ [0] @ [])"
    by (intro emit_rules)
  then show ?thesis
    using assms by (simp add: EncodeTextStringL_def converted_bytes_def Let_def del: steps.simps)
qed

lemma value_length_bytes_nonempty: "1 \<le> length (value_length_bytes n)"
  by (simp add: value_length_bytes_def)

lemma sender_announces_less:
  assumes "has_at a" "\<not> IsStringSafe a" "to_utf8 w a = (KErrNone, u)" "u \<noteq> []"
    and "resolved_address w a = Some (Inr (EMmsAddressTypeEmail, a))"
  shows "\<exists>n rest. emits (EncodeSenderL w a) (KMmsAssignedFrom # value_length_bytes (of_nat n) @ rest)
    \<and> length rest = n + length (value_length_bytes (of_nat (length u + 2 + (if 0x80 \<le> hd u then 1 else 0))))"
proof -
  let ?n = "1 + length u + 2 + (if 0x80 \<le> hd u then 1 else 0)"
  have "a \<noteq> []" using assms(2) by auto
  have len: "sender_length w a = Inr (Some KErrNone, ?n)"
    using assms by (simp add: sender_length_def)
  have addr: "EncodeAddressL w a = EncodeTextStringL w a"
    using assms(5) by (simp add: EncodeAddressL_def)
  have "emits (steps [set_encode_error KErrNone, EncodeValueLength (of_nat ?n), write_at [128], EncodeAddressL w a])
      ([] @ value_length_bytes (of_nat ?n) @ [128] @ converted_bytes u @ [])"
    unfolding addr by (intro emit_rules emits_converted assms)
  from emits_header [OF emits_one [OF this], of KMmsAssignedFrom]
  have "emits (EncodeSenderL w a) (KMmsAssignedFrom # value_length_bytes (of_nat ?n) @ (128 # converted_bytes u))"
    using len \<open>a \<noteq> []\<close> by (simp add: EncodeSenderL_def del: steps.simps of_nat_add of_nat_Suc)
  moreover have "length (128 # converted_bytes u)
      = ?n + length (value_length_bytes (of_nat (length u + 2 + (if 0x80 \<le> hd u then 1 else 0))))"
    by (simp add: converted_bytes_def Let_def)
  ultimately show ?thesis by blast
qed

section \<open>Forward requests\<close>

lemma forward_encodes:
  assumes "plain_forward w e h"
  shows "EncodeHeadersL fld w old root h =
    (let bs = start_bytes KMmsMessageTypeForwardReq (des_of (iTID h)) (iVersion h) @ concat (forward_bytes w h)
     in if length bs \<le> headers_size h + KMMSBufferExtra then Inr (bs, KErrNone) else Inl KPanicIndex)"
proof -
  obtain ms where ms: "EncodeForwardRequestL w h
      = steps (EncodeStartingHeaders KMmsMessageTypeForwardReq (des_of (iTID h)) (iVersion h) # ms)"
    and c: "carries False e KMmsMessageTypeForwardReq (steps ms) (updates (forward_updates w e h))
      (concat (forward_bytes w h))"
    using carries_forward [OF assms refl] .
  have "headers_pdu fld w h root = Some (EncodeForwardRequestL w h)"
    using assms by (simp add: headers_pdu_def plain_forward_def)
  from encode_pdu [OF this [unfolded ms] pdu_emits [OF c]] show ?thesis by (simp add: Let_def)
qed

lemma forward_decodes:
  assumes "plain_forward w e h"
  shows "DecodeHeadersL e (start_bytes KMmsMessageTypeForwardReq (des_of (iTID h)) (iVersion h)
       @ concat (forward_bytes w h)) 0 0 now h0 d0 = Some (Inr
     (updates (forward_updates w e h) (start_update KMmsMessageTypeForwardReq (des_of (iTID h)) (iVersion h)
        ((headers_reset h0)\<lparr>iReceivingTime := now\<rparr>)),
      0, length (start_bytes KMmsMessageTypeForwardReq (des_of (iTID h)) (iVersion h) @ concat (forward_bytes w h))))"
proof -
  have t: "token_of KMmsMessageTypeForwardReq = KMmsMessageTypeForwardReq"
    by (simp add: token_of_good good_token_def)
  obtain ms where c: "carries False e KMmsMessageTypeForwardReq (steps ms) (updates (forward_updates w e h))
      (concat (forward_bytes w h))"
    using carries_forward [OF assms refl] .
  show ?thesis
    by (rule pdu_decodes) (use assms c t in \<open>simp_all add: plain_forward_def\<close>)
qed

lemma recipients_length:
  assumes "resolved_address w a = Some (Inr (EMmsAddressTypeMobile, a))" "a \<noteq> []"
  shows "length (recipient_bytes w (replicate k a) ty) = k * (length a + 12)"
proof -
  have "length (address_bytes w a) = length a + 11"
    using assms(1) by (simp add: address_bytes_def sent_text_def KMmsPlmnu_def)
  then show ?thesis
    using assms(2) by (simp add: recipient_bytes_def length_concat sum_list_replicate)
qed

lemma forward_overflows:
  assumes plain: "plain_forward w e h"
    and to: "iToArray h = replicate k a" "resolved_address w a = Some (Inr (EMmsAddressTypeMobile, a))" "a \<noteq> []"
    and many: "headers_size (h\<lparr>iToArray := []\<rparr>) + 2 * k * length a + KMMSBufferExtra < k * (length a + 12)"
  shows "EncodeHeadersL fld w old root h = Inl KPanicIndex"
proof -
  have "k * (length a + 12) \<le> length (concat (forward_bytes w h))"
    using recipients_length [OF to(2,3), of k EMmsTo]
    by (simp add: forward_bytes_def recipients_bytes_def to(1))
  moreover have "headers_size h = headers_size (h\<lparr>iToArray := []\<rparr>) + 2 * k * length a"
    using to(1) by (simp add: headers_size_def version_above_def sum_list_replicate)
  ultimately show ?thesis
    using many unfolding forward_encodes [OF plain] by (simp add: Let_def)
qed

text \<open>
  Properties of the PDU encoder \<open>CMmsEncode\<close>, alone and against the decoder.
\<close>

section \<open>A message to encode\<close>

text \<open>A platform whose letters and digits are those of ASCII, whose strings convert to their low
  bytes, and a build for the phone.\<close>

definition phone_services :: encode_services where
  "phone_services = \<lparr>to_utf8 = (\<lambda>s. (KErrNone, map ucast s)),
     char_service = \<lparr>chFold = id, chIsDigit = (\<lambda>c. 0x30 \<le> c \<and> c \<le> 0x39)\<rparr>, wins = False\<rparr>"

definition headers_like :: "tint \<Rightarrow> string8 \<Rightarrow> mms_headers" where
  "headers_like ty tid = (headers_new 0x12)\<lparr>iMsgType := ty, iTID := Some tid\<rparr>"

section \<open>Round trips\<close>

text \<open>C21: A well-formed response of the client (notify response, acknowledgement, cancel confirmation) fits in
  the buffer \<open>EncodeHeadersL\<close> reserves, and \<open>DecodeHeadersL\<close> on its bytes consumes all of them
  and gives the same message type, transaction, version, status and report permission. Well-formed
  means: the transaction identifier is a plain string within the limit, the version is below 0x80,
  the status of a notify response and every permission and cancel status that is set is a token of
  128 to 255. A status of 0 is sent as 128 and stays 128.\<close>

theorem response_round_trip:
  assumes "good_response h"
  shows "\<exists>bs h1. EncodeHeadersL fld w old root h = Inr (bs, KErrNone)
    \<and> DecodeHeadersL e bs 0 0 now h0 d0 = Some (Inr (h1, 0, length bs))
    \<and> response_fields h1 = response_fields h"
  by (rule response_codec [OF assms])

theorem response_round_trip_witness:
  "\<exists>bs h1. EncodeHeadersL id phone_services (\<lambda>_. 0) None
       ((headers_like KMmsMessageTypeMNotifyRespInd [0x54, 0x31])\<lparr>iStatus := 129\<rparr>) = Inr (bs, KErrNone)
    \<and> DecodeHeadersL plain_services bs 0 0 0 (headers_new 0x12) fresh_decoder = Some (Inr (h1, 0, length bs))
    \<and> response_fields h1 = (KMmsMessageTypeMNotifyRespInd, [0x54, 0x31], 0x12, 129, 0)"
proof -
  let ?h = "(headers_like KMmsMessageTypeMNotifyRespInd [0x54, 0x31])\<lparr>iStatus := 129\<rparr>"
  have "good_response ?h"
    by (simp add: good_response_def is_response_def good_string8_def plain_start_def good_token_def
        headers_like_def headers_new_blank headers_blank_def des_of_def KMaxHeaderStringLength_def)
  from response_round_trip [OF this, of id phone_services "\<lambda>_. 0" None plain_services 0
      "headers_new 0x12" fresh_decoder]
  show ?thesis
    by (simp add: response_fields_def headers_like_def headers_new_blank headers_blank_def des_of_def)
qed

section \<open>The forward request\<close>

text \<open>C22: The encoder and the decoder implement the abstract forward request: for a request in the
  form a receiver keeps, what \<open>EncodeHeadersL\<close> writes is decoded completely, and the headers of
  the receiver denote the same request as those of the sender. The only other outcome is the
  panic of a buffer that is too small for these bytes.\<close>

theorem forward_request_refines:
  assumes "canonical_forward w e h"
  shows "\<exists>bs h1. EncodeHeadersL fld w old root h =
      (if length bs \<le> headers_size h + KMMSBufferExtra then Inr (bs, KErrNone) else Inl KPanicIndex)
    \<and> DecodeHeadersL e bs 0 0 now h0 d0 = Some (Inr (h1, 0, length bs))
    \<and> forward_of h1 = forward_of h"
proof -
  have plain: "plain_forward w e h" using assms by (simp add: canonical_forward_def)
  have "forward_of (updates (forward_updates w e h) (start_update KMmsMessageTypeForwardReq (des_of (iTID h))
     (iVersion h) ((headers_reset h0)\<lparr>iReceivingTime := now\<rparr>))) = forward_of h"
    by (rule forward_of_back [OF assms]) (simp_all add: headers_reset_def)
  with forward_encodes [OF plain, of fld old root] forward_decodes [OF plain, of now h0 d0]
  show ?thesis unfolding Let_def by blast
qed

definition forward_example :: mms_headers where
  "forward_example = (headers_like KMmsMessageTypeForwardReq [0x54])\<lparr>
     iDate := 1000, iToArray := [str16 ''123''], iCcArray := [str16 ''a@b''],
     iContentLocation := Some [0x6C], iExpiry := 3600, iDelivReport := 128\<rparr>"

lemmas example_simps = forward_example_def headers_like_def headers_new_blank headers_blank_def des_of_def
  plain_services_def phone_services_def str16_def of_char_def

lemma example_addresses:
  "resolved_address phone_services (str16 ''123'') = Some (Inr (EMmsAddressTypeMobile, str16 ''123''))"
  "resolved_address phone_services (str16 ''a@b'') = Some (Inr (EMmsAddressTypeEmail, str16 ''a@b''))"
  by code_simp+

lemma example_canonical: "canonical_forward phone_services plain_services forward_example"
proof -
  have a: "good_address phone_services plain_services (str16 ''123'')"
    "good_address phone_services plain_services (str16 ''a@b'')"
    "received_address phone_services plain_services (str16 ''123'') = str16 ''123''"
    "received_address phone_services plain_services (str16 ''a@b'') = str16 ''a@b''"
    unfolding good_address_def received_address_def sent_text_def example_addresses option.case sum.case prod.case
    by (simp_all add: good_text_def str16_def of_char_def plain_services_def KMmsPlmnu_def
        KEqualsQuestion16_def strip_address_type_def KMmsIpv4u_def KMmsIpv6u_def)
  have h: "iToArray forward_example = [str16 ''123'']" "iCcArray forward_example = [str16 ''a@b'']"
    "iBccArray forward_example = []" "iMmBoxMessageHeaders forward_example = None"
    "des_of (iSender forward_example) = []" "iDate forward_example = 1000"
    "ExpiryInterval forward_example = 3600" "ExpiryDate forward_example = 0"
    "DeliveryTimeInterval forward_example = 0" "DeliveryDate forward_example = 0"
    "ReplyChargingInterval forward_example = 0" "ReplyChargingDate forward_example = 0"
    "iReplyChargingSize forward_example = 0" "des_of (iTID forward_example) = [0x54]"
    "des_of (iContentLocation forward_example) = [0x6C]" "iVersion forward_example = 0x12"
    "iMsgType forward_example = KMmsMessageTypeForwardReq" "iReportAllowed forward_example = 0"
    "iDelivReport forward_example = 128" "iReadReply forward_example = 0"
    by (simp_all add: forward_example_def headers_like_def headers_new_blank headers_blank_def des_of_def
        ExpiryInterval_def ExpiryDate_def DeliveryTimeInterval_def DeliveryDate_def
        ReplyChargingInterval_def ReplyChargingDate_def)
  have ne: "str16 ''123'' \<noteq> []" "str16 ''a@b'' \<noteq> []" by (simp_all add: str16_def)
  show ?thesis
    using a ne
    by (simp add: canonical_forward_def plain_forward_def h good_recipients_def good_times_def sender_ok_def
        received_sender_def good_string8_def plain_start_def good_token_def box_of_def mh_new_def
        KMaxHeaderStringLength_def)
qed

theorem forward_request_refines_witness:
  "\<exists>bs h1. DecodeHeadersL plain_services bs 0 0 7 (headers_new 0x12) fresh_decoder = Some (Inr (h1, 0, length bs))
    \<and> fwTo (forward_of h1) = [str16 ''123''] \<and> fwExpiry (forward_of h1) = (3600, 0)"
proof -
  from forward_request_refines [OF example_canonical, of id "\<lambda>_. 0" None 7 "headers_new 0x12" fresh_decoder]
  obtain bs h1 where r: "DecodeHeadersL plain_services bs 0 0 7 (headers_new 0x12) fresh_decoder
      = Some (Inr (h1, 0, length bs))" "forward_of h1 = forward_of forward_example" by blast
  have "fwTo (forward_of forward_example) = [str16 ''123'']" "fwExpiry (forward_of forward_example) = (3600, 0)"
    by (simp_all add: forward_of_def forward_example_def headers_like_def headers_new_blank headers_blank_def
        ExpiryInterval_def ExpiryDate_def)
  with r show ?thesis by metis
qed

text \<open>C23: A forward request to many short numbers panics the client: a number takes 12 bytes more in
  the PDU than \<open>CMmsHeaders::Size\<close> counts for one character, and only 1024 bytes are added for
  everything that \<open>Size\<close> does not count.\<close>

theorem forward_to_many_panics:
  assumes "plain_forward w e h" "iToArray h = replicate k a" "a \<noteq> []"
    and "resolved_address w a = Some (Inr (EMmsAddressTypeMobile, a))"
    and "headers_size (h\<lparr>iToArray := []\<rparr>) + 2 * k * length a + KMMSBufferExtra < k * (length a + 12)"
  shows "EncodeHeadersL fld w old root h = Inl KPanicIndex"
  by (rule forward_overflows [OF assms(1,2,4,3,5)])

theorem forward_to_many_panics_witness:
  "EncodeHeadersL id phone_services (\<lambda>_. 0) None (forward_example\<lparr>iToArray := replicate 150 (str16 ''123'')\<rparr>)
     = Inl KPanicIndex"
proof (rule forward_to_many_panics)
  let ?h = "forward_example\<lparr>iToArray := replicate 150 (str16 ''123'')\<rparr>"
  have p: "plain_forward phone_services plain_services forward_example"
    using example_canonical by (simp add: canonical_forward_def)
  have "str16 ''123'' \<in> set (iToArray forward_example)"
    by (simp add: forward_example_def headers_like_def headers_new_blank headers_blank_def)
  moreover have "str16 ''123'' \<noteq> []" by (simp add: str16_def)
  ultimately have "good_address phone_services plain_services (str16 ''123'')"
    using p by (auto simp: plain_forward_def good_recipients_def)
  then show "plain_forward phone_services plain_services ?h"
    using p by (auto simp: plain_forward_def good_recipients_def good_keyword_def sent_token_def
      ExpiryInterval_def ExpiryDate_def DeliveryTimeInterval_def DeliveryDate_def
      ReplyChargingInterval_def ReplyChargingDate_def)
  show "headers_size (?h\<lparr>iToArray := []\<rparr>) + 2 * 150 * length (str16 ''123'') + KMMSBufferExtra
      < 150 * (length (str16 ''123'') + 12)"
    by (simp add: headers_size_def forward_example_def headers_like_def headers_new_blank headers_blank_def
        des_of_def version_above_def str16_def word_sless_alt)
qed (simp_all add: example_addresses, simp_all add: str16_def)

text \<open>C24: For a mail sender that has to be converted to UTF-8, the value length \<open>EncodeSenderL\<close> announces
  is too small: it leaves out the length field of the converted address itself.\<close>

theorem sender_length_too_small:
  assumes "has_at a" "\<not> IsStringSafe a" "to_utf8 w a = (KErrNone, u)" "u \<noteq> []"
    and "resolved_address w a = Some (Inr (EMmsAddressTypeEmail, a))"
  shows "\<exists>n rest. emits (EncodeSenderL w a) (KMmsAssignedFrom # value_length_bytes (of_nat n) @ rest)
    \<and> n < length rest"
proof -
  let ?l = "length (value_length_bytes (of_nat (length u + 2 + (if 0x80 \<le> hd u then 1 else 0))))"
  obtain n rest where r: "emits (EncodeSenderL w a) (KMmsAssignedFrom # value_length_bytes (of_nat n) @ rest)"
    and l: "length rest = n + ?l"
    using sender_announces_less [OF assms] by blast
  have "n < length rest" unfolding l using value_length_bytes_nonempty by (simp add: Suc_le_eq)
  with r show ?thesis by blast
qed

theorem sender_length_too_small_witness:
  "\<exists>n rest. emits (EncodeSenderL phone_services [0xE9, 0x40, 0x62])
     (KMmsAssignedFrom # value_length_bytes (of_nat n) @ rest) \<and> n < length rest"
proof (rule sender_length_too_small [where u = "[0xE9, 0x40, 0x62]"])
  show "resolved_address phone_services [0xE9, 0x40, 0x62] = Some (Inr (EMmsAddressTypeEmail, [0xE9, 0x40, 0x62]))"
    by code_simp
qed (simp_all add: has_at_def phone_services_def)

end
