(* ===== verification/Spec2Isabelle.thy ===== *)
theory Spec2Isabelle
  imports Codec_Props Imap_Props Imap_Command_Props Imap_Compound_Props Mms_Props Mms_Decode_Props Mail_Props Mms_Encode_Props
begin

text \<open>
  A verification library for the messaging applications in this repository (e-mail, multimedia and
  short messages on the platform's message server). The programs are large and mostly user
  interface; what this library models is the part that reads and writes data from outside the
  device: transfer encodings, server responses, stored message headers, and PDUs.

  \<^bold>\<open>Shared vocabulary.\<close> \<open>Msg_Prelude\<close>: the integer types at their width, the error codes, the
  result type of code that can leave or panic (\<open>'a leaving\<close>), descriptor comparison.

  \<^bold>\<open>MIME transfer codecs\<close> (src/email/pop3andsmtpmtm/servermtmutils/src/IMCVCODC.CPP).
  \<open>Sextets\<close> holds the shifts and masks of the bit register that Base64 and UU share, and the contract
  of a codec, interpreted for each of them;
  \<open>Codec_Base64\<close>, \<open>Codec_UU\<close> and \<open>Codec_QP\<close> model \<open>TImCodecB64\<close>, \<open>TImCodecUU\<close> and
  \<open>TImCodecQP\<close>;
  \<open>Codec_Props\<close> states the properties: round trips, agreement with RFC 4648, line lengths,
  chunked decoding, absence of out-of-range reads.

  \<^bold>\<open>IMAP responses\<close> (src/email/imap4mtm/imapsession/src/cimapatomparser.cpp, cimapatom.cpp,
  cimapatomwalker.cpp). \<open>Imap_Tree\<close> is the specification (trees of atoms and their layout in a
  store); \<open>Imap_Atom\<close> models \<open>CImapAtom\<close>, \<open>Imap_Parser\<close> the state and the octet loop of
  \<open>CImapAtomParser\<close>, \<open>Imap_Walker\<close> the stack of \<open>CImapAtomWalker\<close>. \<open>Imap_Reader\<close> and \<open>Imap_Literals\<close> show that the parser reads back what was printed,
  \<open>Imap_Parser_Props\<close> and \<open>Imap_Literals\<close> treat errors and the reachable states, and
  \<open>Imap_Props\<close> states the properties.

  \<^bold>\<open>IMAP commands and the session\<close> (src/email/imap4mtm/imapsession/src: cimapcommand.cpp, the
  cimap*.cpp of the commands, cimapsession.cpp). \<open>Imap_Text\<close> holds the splitting of a response into
  parts; \<open>Imap_Request\<close> and \<open>Imap_Send\<close> mailbox names and the text each command sends;
  \<open>Imap_Command\<close> the state machine of \<open>CImapCommand\<close> and \<open>CImapCommandEx\<close> with the folder data, a
  subclass being a record of its virtual methods; \<open>Imap_Commands\<close> the subclasses that parse
  responses of their own. \<open>Imap_Command_Laws\<close> states the contract of a subclass as the locale
  \<open>imap_class_ex\<close> and proves the invariant of the machine in it, \<open>Imap_Contracts\<close> interprets it for
  every class. \<open>Imap_Flush\<close> treats whole streams of responses: the locale \<open>ignoring\<close>, interpreted for
  a cancelled command and for a command without methods of its own. \<open>Imap_Frames\<close> is the cutting of
  the input into lines and literals (\<open>TryFindLineL\<close>, \<open>TryFindLiteralBlockL\<close>) and the loop of
  \<open>ProcessInputBufferL\<close>; \<open>Imap_Frames_Laws\<close> proves it independent of the chunks and \<open>Imap_Stream\<close>
  runs it on the bytes of whole responses. \<open>Imap_Server\<close> is the session: requests, pending
  operations, cancelling, flushing, idling and closed streams; \<open>Imap_Server_Laws\<close> its reachable
  states, with the contract of a command as the locale \<open>session_command\<close>, which \<open>Imap_Live\<close>
  interprets for the commands of the model taken together. \<open>Imap_Sequence\<close> is the text of a set of
  uids; \<open>Imap_Command_Props\<close> states the properties.

  \<^bold>\<open>IMAP compound operations\<close> (src/email/imap4mtm/imapprotocolcontroller/src: cimapcompound*.cpp and
  cimapupdateflagoperation.cpp). \<open>Imap_Compound\<close> is the base class: an active object that goes from
  step to step, with one request outstanding at a time. \<open>CMsgActive\<close> and \<open>CActive\<close> of the platform are
  written out as documented and as the source uses them (\<open>CompoundQueue\<close>, \<open>CompoundComplete\<close>, \<open>SetActive\<close>,
  \<open>CancelOperation\<close>, \<open>RunL\<close>); they are not code of the repository. The message store, the synchronisation manager, the session and the settings are
  the record \<open>services\<close> of operations on a state of their own. \<open>Imap_Delete\<close>, \<open>Imap_Folder_Ops\<close> and
  \<open>Imap_Copy_Ops\<close> are the subclasses. \<open>Imap_Compound_Laws\<close> states the contract of a subclass as the
  locale \<open>compound_contract\<close> and proves in it that every run ends and every client is answered;
  \<open>Imap_Compound_Contracts\<close> interprets it for the ten operations. \<open>Imap_Compound_Stop\<close> compares an operation
  that is told to stop for a migration with the same operation left alone, in the locale \<open>stoppable\<close>,
  interpreted for deleting and for moving within the service.
  \<open>Imap_Store_Laws\<close> names what the operations rely on of a message store that keeps its documented
  behaviour (\<open>message_services\<close>: the calls on entries that exist succeed, deleting an entry removes that entry
  only, and a request, the synchronisation of the destination included, is accepted and leaves the
  entries alone until the next run) and evaluates the methods under it, \<open>Imap_Compound_Runs\<close>
  follows whole runs, and \<open>Imap_Compound_Props\<close> states the properties, with a small
  store on which the hypotheses hold. Several properties are defects: a folder that cannot be selected
  blocks a deletion, moved messages stay in the local store, a stopped move is lost.

  \<^bold>\<open>Multimedia message headers\<close> (src/mmsengine/mmsmessage/src). \<open>Mms_Stream\<close> models the stream
  the classes are stored in, with the contract of a class that can be stored; \<open>Mms_Persist\<close> the
  parts of the headers; \<open>Mms_Headers\<close> the state and operations of \<open>CMmsHeaders\<close>;
  \<open>Mms_Headers_Store\<close> its streams and what \<open>StoreL\<close> does to the root of the message first, where the
  attachment manager and the MIME headers of an attachment are the record \<open>attachment_services\<close>. \<open>Mms_Headers_Laws\<close> and \<open>Mms_Headers_Roundtrip\<close> hold the
  proofs, \<open>Mms_Props\<close> the properties.

  \<^bold>\<open>Multimedia message PDUs\<close> (src/mmsengine/mmscodec/src/mmsdecode.cpp). \<open>Wsp_Core\<close> is the state
  of \<open>CMmsDecode\<close> and its operations as functions from a state to a result and a state;
  \<open>Wsp_Decode\<close> the readers of lengths, integers, times and strings and the length checks of the
  chunked mode; \<open>Mms_Content\<close> and \<open>Mms_Multipart\<close> content types and their parameters;
  \<open>Mms_Decode\<close> one handler per header; \<open>Mms_Decode_Headers\<close> header names, the dispatch and the
  loop of \<open>DecodeHeadersL\<close>; \<open>Mms_Decode_Chunked\<close> \<open>SinkHeaders\<close>. \<open>Wsp_Reads\<close>, \<open>Wsp_Safe\<close> and
  \<open>Wsp_Strict\<close> are the calculus the proofs use: which readers never move back, which return from
  every well-formed state, and which consume a byte. \<open>Mms_Decode_Safe\<close> composes them into the end
  of the loops, \<open>Mms_Decode_Total\<close> into the handlers that cannot panic, \<open>Mms_Decode_Steps\<close> runs
  the loop on the bytes that are left, and \<open>Mms_Decode_Props\<close> states the properties.

  \<^bold>\<open>Encoding PDUs\<close> (src/mmsengine/mmscodec/src/mmsencode.cpp). \<open>Wsp_Encode\<close> is the state of
  \<open>CMmsEncode\<close> (buffer, position, error) and its field encoders, with the contract \<open>emits\<close>: an
  encoder writes the given bytes at the position, or panics when they do not fit. \<open>Mms_Encode\<close>
  holds one definition per PDU, \<open>CMmsHeaders::Size\<close>, from which the buffer is sized, and the entry
  points. A build for the emulator (\<open>wins\<close>), the conversion to UTF-8, the root part and the bytes
  of a fresh buffer are parameters. \<open>Wsp_Roundtrip\<close> (with the contract of a field that can
  be written and read) and \<open>Wsp_Interval\<close> prove that the decoder of the same
  field undoes the encoder; \<open>Mms_Carries\<close>, \<open>Mms_Carry_Headers\<close> and \<open>Mms_Carry_Box\<close> lift this to
  headers, \<open>Mms_Pdu\<close> to the responses and \<open>Mms_Pdu_Forward\<close> to the forward request, for which
  \<open>Mms_Pdu_Refine\<close> states the abstract request. \<open>Mms_Encode_Props\<close> holds
  the properties and two defects: a buffer that is too small and a wrong value length.

  \<^bold>\<open>Addresses.\<close> \<open>Mail_Address\<close> models \<open>TImMessageField\<close>
  (src/email/pop3andsmtpmtm/clientmtms/src/MIUTPARS.CPP): the validity of an e-mail address field
  and the address, alias and comment in it. \<open>Mail_Address_Laws\<close> states a grammar of addresses and
  proves that what is accepted is in it and what is in it is found. \<open>Mms_Address\<close> models the
  address functions of \<open>TMmsGenUtils\<close> (src/mmsengine/genutils/src/mmsgenutils.cpp), which use the
  former for e-mail. \<open>Mail_Props\<close> states the properties, two of which are defects: an index past
  the end and a loop that never ends.

  \<^bold>\<open>Bounds and fuel.\<close> Loops are structural or have a measure. The explicit stack of
  \<open>CImapAtom::FixupL\<close> takes fuel; the number of atoms is enough (\<open>fixup_moves_all\<close>). The header
  loops of the decoder are partial functions that are proved to come to an end. The loop over the items of
  a FETCH response takes fuel: two more than the length of the line, since a turn that is not the last
  consumes the name of an item. The loop of a compound operation is a partial function that is proved
  to return for each of them. The walk of \<open>FindFolderL\<close> from a message up to its mailbox has no bound in the
  code, which relies on the store being a tree; \<open>svDepth\<close> is its depth, and a walk that exceeds it leaves with
  \<open>KErrGeneral\<close>, which the code does not do. One level is enough for a message that stands in a mailbox.

  \<^bold>\<open>Not modelled.\<close> Memory exhaustion, logging, and the platform: case folding, character
  conversion and address comparison are parameters. User interface code and
  the transport below the IMAP session are left out, as are the synchronisation manager, the store
  cache, the offline operations and the compound operations that fetch or synchronise; so are the IMAP commands that fetch and parse
  bodies, structures, LIST and STATUS responses, APPEND and AUTHENTICATE.
\<close>

end
